(* ===== verification/Prelude.thy ===== *)
theory Prelude
  imports Main "HOL-Library.Word"
begin

text \<open>
  The vocabulary every component shares: machine words, the ways a C function may fail to
  return, little-endian byte codecs, reads of a byte buffer that notice when they leave it,
  and the two array idioms the C code uses (linear search, and \<open>g_array_remove_index_fast\<close>).
\<close>

unbundle bit_operations_syntax

section \<open>Types\<close>

type_synonym byte = "8 word"
type_synonym u16 = "16 word"
type_synonym u32 = "32 word"
type_synonym u48 = "48 word"
type_synonym u64 = "64 word"

text \<open>
  A C function that does not return a value either ends the process in an orderly way
  (\<open>abort\<close>, \<open>exit\<close>, a failed assertion), has undefined behaviour (a read outside a buffer,
  a NULL dereference, a division by zero), or never returns (a loop or a wait without end).
\<close>

datatype stop = Abort | Fault | Hang

type_synonym 'a result = "stop + 'a"

definition res_bind :: "'a result \<Rightarrow> ('a \<Rightarrow> 'b result) \<Rightarrow> 'b result" where
  "res_bind m f = (case m of Inl e \<Rightarrow> Inl e | Inr x \<Rightarrow> f x)"

lemma res_bind_simps [simp]:
  "res_bind (Inl e) f = Inl e"
  "res_bind (Inr x) f = f x"
  by (simp_all add: res_bind_def)

lemma res_bind_eq_Inr: "res_bind m f = Inr y \<longleftrightarrow> (\<exists>x. m = Inr x \<and> f x = Inr y)"
  by (cases m) auto

lemma Inr_eq_res_bind: "Inr y = res_bind m f \<longleftrightarrow> (\<exists>x. m = Inr x \<and> f x = Inr y)"
  by (cases m) auto

lemma res_bind_cong [fundef_cong]:
  "m = m' \<Longrightarrow> (\<And>x. m' = Inr x \<Longrightarrow> f x = f' x) \<Longrightarrow> res_bind m f = res_bind m' f'"
  by (cases m') auto

text \<open>Signed 32-bit addition, whose overflow is undefined behaviour.\<close>

definition c_add :: "int \<Rightarrow> int \<Rightarrow> int result" where
  "c_add a b = (if - (2 ^ 31) \<le> a + b \<and> a + b < 2 ^ 31 then Inr (a + b) else Inl Fault)"

section \<open>Little-endian byte codecs\<close>

fun le_nat :: "byte list \<Rightarrow> nat" where
  "le_nat [] = 0"
| "le_nat (b # bs) = unat b + 256 * le_nat bs"

fun le_bytes :: "nat \<Rightarrow> nat \<Rightarrow> byte list" where
  "le_bytes 0 v = []"
| "le_bytes (Suc n) v = word_of_nat (v mod 256) # le_bytes n (v div 256)"

lemma length_le_bytes [simp]: "length (le_bytes n v) = n"
  by (induction n arbitrary: v) auto

lemma unat_byte_less: "unat (b :: byte) < 256"
  using unsigned_less[of b, where ?'a = nat] by simp

lemma le_nat_less: "le_nat bs < 256 ^ length bs"
proof (induction bs)
  case Nil
  show ?case by simp
next
  case (Cons b bs)
  have "unat b + 256 * le_nat bs < 256 * (le_nat bs + 1)"
    using unat_byte_less[of b] by simp
  also have "\<dots> \<le> 256 * 256 ^ length bs"
    using Cons.IH by (intro mult_le_mono) auto
  finally show ?case by simp
qed

lemma unat_byte_of_mod: "unat (word_of_nat (v mod 256) :: byte) = v mod 256"
  by (simp add: unat_of_nat take_bit_eq_mod)

lemma le_nat_le_bytes [simp]: "le_nat (le_bytes n v) = v mod 256 ^ n"
proof (induction n arbitrary: v)
  case 0
  show ?case by simp
next
  case (Suc n)
  have "le_nat (le_bytes (Suc n) v) = v mod 256 + 256 * (v div 256 mod 256 ^ n)"
    using Suc.IH[of "v div 256"] by (simp add: unat_of_nat take_bit_eq_mod)
  then show ?case
    by (simp add: mod_mult2_eq)
qed

lemma le_bytes_le_nat [simp]: "length bs = n \<Longrightarrow> le_bytes n (le_nat bs) = bs"
proof (induction bs arbitrary: n)
  case Nil
  then show ?case by simp
next
  case (Cons b bs)
  have "(unat b + 256 * le_nat bs) mod 256 = unat b"
    using unat_byte_less[of b] by simp
  moreover have "(unat b + 256 * le_nat bs) div 256 = le_nat bs"
    using unat_byte_less[of b] by simp
  ultimately show ?case using Cons by auto
qed

text \<open>Words of \<open>n\<close> bytes; the four widths of the code are the instances used below.\<close>

definition word_le :: "nat \<Rightarrow> 'a::len word \<Rightarrow> byte list" where
  "word_le n w = le_bytes n (unat w)"

definition le_word :: "byte list \<Rightarrow> 'a::len word" where
  "le_word bs = word_of_nat (le_nat bs)"

lemma length_word_le [simp]: "length (word_le n w) = n"
  by (simp add: word_le_def)

lemma le_word_word_le [simp]:
  assumes "LENGTH('a) = 8 * n"
  shows "le_word (word_le n (w :: 'a::len word)) = w"
proof -
  have "unat w < 2 ^ (8 * n)" using unsigned_less[of w, where ?'a = nat] assms by simp
  then have "unat w < 256 ^ n" by (simp add: power_mult)
  then show ?thesis by (simp add: le_word_def word_le_def)
qed

lemma le_word_Nil [simp]: "le_word [] = 0"
  by (simp add: le_word_def)

lemma le_nat_replicate_0 [simp]: "le_nat (replicate n 0) = 0"
  by (induction n) auto

section \<open>Bounded reads of a byte buffer\<close>

text \<open>
  \<open>read_at data off n\<close> is a read of \<open>n\<close> bytes at \<open>data + off\<close>: \<open>None\<close> when it leaves the
  buffer, which in C is undefined behaviour.
\<close>

definition read_at :: "byte list \<Rightarrow> nat \<Rightarrow> nat \<Rightarrow> byte list option" where
  "read_at data off n =
     (if off + n \<le> length data then Some (take n (drop off data)) else None)"

lemma read_at_length: "read_at data off n = Some bs \<Longrightarrow> length bs = n"
  by (auto simp: read_at_def split: if_splits)

lemma read_at_in_range: "off + n \<le> length data \<Longrightarrow> \<exists>bs. read_at data off n = Some bs"
  by (simp add: read_at_def)

lemma read_at_nth:
  "read_at data off n = Some bs \<Longrightarrow> i < n \<Longrightarrow> bs ! i = data ! (off + i)"
  by (auto simp: read_at_def split: if_splits)

text \<open>
  A packed structure is read as its bytes; \<open>fld s off n\<close> is its little-endian field of \<open>n\<close> bytes
  at \<open>off\<close>.
\<close>

definition fld :: "byte list \<Rightarrow> nat \<Rightarrow> nat \<Rightarrow> 'a::len word" where
  "fld s off n = le_word (take n (drop off s))"

definition struct_at :: "byte list \<Rightarrow> nat \<Rightarrow> nat \<Rightarrow> byte list result" where
  "struct_at d off n = (case read_at d off n of None \<Rightarrow> Inl Fault | Some s \<Rightarrow> Inr s)"

lemma struct_at_in_range: "off + n \<le> length d \<Longrightarrow> struct_at d off n = Inr (take n (drop off d))"
  by (simp add: struct_at_def read_at_def)

lemma struct_at_Inr_iff:
  "struct_at d off n = Inr s \<longleftrightarrow> off + n \<le> length d \<and> s = take n (drop off d)"
  by (auto simp: struct_at_def read_at_def)

text \<open>Writing \<open>src\<close> over \<open>buf\<close> at \<open>off\<close> (a \<open>memcpy\<close> into the middle of a buffer).\<close>

definition splice :: "byte list \<Rightarrow> nat \<Rightarrow> byte list \<Rightarrow> byte list" where
  "splice buf off src = take off buf @ src @ drop (off + length src) buf"

lemma length_splice [simp]:
  "off + length src \<le> length buf \<Longrightarrow> length (splice buf off src) = length buf"
  by (simp add: splice_def)

lemma splice_Nil [simp]: "splice buf off [] = buf"
  by (simp add: splice_def)

lemma nth_splice:
  assumes "off + length src \<le> length buf" and "i < length buf"
  shows "splice buf off src ! i =
    (if off \<le> i \<and> i < off + length src then src ! (i - off) else buf ! i)"
  using assms by (auto simp: splice_def nth_append min_def)

lemma splice_append:
  assumes "off + length x + length y \<le> length buf"
  shows "splice (splice buf off x) (off + length x) y = splice buf off (x @ y)"
  using assms by (cases x) (auto simp: splice_def min_def ac_simps)

section \<open>Array idioms\<close>

text \<open>Index of the first element that satisfies \<open>P\<close> (a \<open>for\<close> loop with \<open>break\<close>).\<close>

fun find_index :: "('a \<Rightarrow> bool) \<Rightarrow> 'a list \<Rightarrow> nat option" where
  "find_index P [] = None"
| "find_index P (x # xs) = (if P x then Some 0 else map_option Suc (find_index P xs))"

lemma find_index_SomeD:
  "find_index P xs = Some i \<Longrightarrow> i < length xs \<and> P (xs ! i) \<and> (\<forall>j<i. \<not> P (xs ! j))"
proof (induction xs arbitrary: i)
  case Nil
  then show ?case by simp
next
  case (Cons x xs)
  show ?case
  proof (cases "P x")
    case True
    with Cons.prems show ?thesis by simp
  next
    case False
    with Cons.prems obtain k where "find_index P xs = Some k" "i = Suc k" by auto
    with Cons.IH[of k] False show ?thesis by (auto simp: nth_Cons split: nat.splits)
  qed
qed

lemma find_index_None_iff: "find_index P xs = None \<longleftrightarrow> (\<forall>x \<in> set xs. \<not> P x)"
  by (induction xs) auto

lemma find_index_SomeI:
  "i < length xs \<Longrightarrow> P (xs ! i) \<Longrightarrow> (\<And>j. j < i \<Longrightarrow> \<not> P (xs ! j)) \<Longrightarrow> find_index P xs = Some i"
proof (induction xs arbitrary: i)
  case (Cons x xs)
  show ?case
  proof (cases i)
    case 0
    with Cons.prems show ?thesis by simp
  next
    case (Suc k)
    have "\<not> P x" using Cons.prems(3)[of 0] Suc by simp
    moreover have "find_index P xs = Some k"
    proof (rule Cons.IH)
      show "\<not> P (xs ! j)" if "j < k" for j using Cons.prems(3)[of "Suc j"] that Suc by simp
    qed (use Cons.prems Suc in auto)
    ultimately show ?thesis using Suc by simp
  qed
qed simp

text \<open>
  \<open>g_array_remove_index_fast\<close>/\<open>g_ptr_array_remove_index_fast\<close>: the last element takes the
  removed one's place.
\<close>

definition remove_index_fast :: "nat \<Rightarrow> 'a list \<Rightarrow> 'a list" where
  "remove_index_fast i xs =
     (if i < length xs then butlast (xs[i := last xs]) else xs)"

lemma length_remove_index_fast [simp]:
  "i < length xs \<Longrightarrow> length (remove_index_fast i xs) = length xs - 1"
  by (simp add: remove_index_fast_def)

lemma remove_index_fast_split:
  assumes "i < length xs"
  shows "\<exists>us vs. xs = us @ xs ! i # vs \<and>
    remove_index_fast i xs = us @ (if vs = [] then [] else last vs # butlast vs)"
proof -
  let ?us = "take i xs" and ?vs = "drop (Suc i) xs"
  have split: "xs = ?us @ xs ! i # ?vs" using assms by (rule id_take_nth_drop)
  show ?thesis
  proof (cases "?vs = []")
    case True
    then have i: "i = length xs - 1" using assms by simp
    then have "remove_index_fast i xs = ?us"
      using assms by (simp add: remove_index_fast_def butlast_conv_take)
    then show ?thesis using split True by auto
  next
    case False
    have "last xs = last ?vs" using False split by (metis last_appendR last_ConsR list.discI)
    then have "remove_index_fast i xs = butlast (?us @ last ?vs # ?vs)"
      using assms by (simp add: remove_index_fast_def upd_conv_take_nth_drop)
    also have "\<dots> = ?us @ last ?vs # butlast ?vs"
      using False by (simp add: butlast_append)
    finally have "remove_index_fast i xs = ?us @ (if ?vs = [] then [] else last ?vs # butlast ?vs)"
      using False by simp
    with split show ?thesis by blast
  qed
qed

lemma set_last_butlast:
  "set (if vs = [] then [] else last vs # butlast vs) = set vs"
  by (cases vs rule: rev_cases) auto

lemma set_remove_index_fast:
  assumes "i < length xs" and "distinct xs"
  shows "set (remove_index_fast i xs) = set xs - {xs ! i}"
proof -
  obtain us vs where e: "xs = us @ xs ! i # vs"
    and r: "remove_index_fast i xs = us @ (if vs = [] then [] else last vs # butlast vs)"
    using remove_index_fast_split[OF assms(1)] by blast
  have "set (if vs = [] then [] else last vs # butlast vs) = set vs"
    by (rule set_last_butlast)
  then have s: "set (remove_index_fast i xs) = set us \<union> set vs" using r by simp
  have "distinct (us @ xs ! i # vs)" using e assms(2) by metis
  moreover have "set xs = set (us @ xs ! i # vs)" using e by metis
  ultimately show ?thesis using s by auto
qed

lemma set_remove_index_fast_subset:
  "set (remove_index_fast i xs) \<subseteq> set xs"
proof (cases "i < length xs")
  case True
  then obtain us vs where e: "xs = us @ xs ! i # vs"
    and r: "remove_index_fast i xs = us @ (if vs = [] then [] else last vs # butlast vs)"
    using remove_index_fast_split by blast
  have "set (if vs = [] then [] else last vs # butlast vs) = set vs"
    by (rule set_last_butlast)
  then have s: "set (remove_index_fast i xs) = set us \<union> set vs" using r by simp
  have "set us \<union> set vs \<subseteq> set (us @ xs ! i # vs)" by auto
  then show ?thesis using s e by metis
next
  case False
  then show ?thesis by (simp add: remove_index_fast_def)
qed

lemma distinct_map_remove_index_fast:
  assumes "distinct (map f xs)"
  shows "distinct (map f (remove_index_fast i xs))"
proof (cases "i < length xs")
  case True
  then obtain us vs where e: "xs = us @ xs ! i # vs"
    and r: "remove_index_fast i xs = us @ (if vs = [] then [] else last vs # butlast vs)"
    using remove_index_fast_split by blast
  have d: "distinct (map f (us @ xs ! i # vs))" using e assms by metis
  show ?thesis
  proof (cases vs rule: rev_cases)
    case Nil
    with d r show ?thesis by simp
  next
    case (snoc ws z)
    with d r show ?thesis by auto
  qed
next
  case False
  with assms show ?thesis by (simp add: remove_index_fast_def)
qed

end
