(* ===== verification/Device_State.thy ===== *)
theory Device_State
  imports Prelude
begin

text \<open>
  The data every part of the driver host shares: the status codes of
  \<open>libtudor/src/winapi/windows.h\<close> and \<open>libtudor/src/tudor/winbio.h\<close>, GUIDs, WinBIO
  identities and storage records, and \<open>struct tudor_device\<close> of \<open>libtudor/inc/tudor/tudor.h\<close>.
\<close>

section \<open>Status codes\<close>

definition ERROR_SUCCESS :: u32 where "ERROR_SUCCESS = 0"
definition E_INVALIDARG :: u32 where "E_INVALIDARG = 0x80070057"
definition WINERR_SET_CODE :: u32 where "WINERR_SET_CODE = 0xdeadc0de"
definition STATUS_SUCCESS :: u32 where "STATUS_SUCCESS = 0"
definition STATUS_PENDING :: u32 where "STATUS_PENDING = 0x103"
definition STATUS_BUFFER_TOO_SMALL :: u32 where "STATUS_BUFFER_TOO_SMALL = 0xc0000023"

definition WINBIO_E_UNKNOWN_ID :: u32 where "WINBIO_E_UNKNOWN_ID = 0x80098003"
definition WINBIO_E_NO_MATCH :: u32 where "WINBIO_E_NO_MATCH = 0x80098005"
definition WINBIO_E_BAD_CAPTURE :: u32 where "WINBIO_E_BAD_CAPTURE = 0x80098008"
definition WINBIO_E_DATABASE_NO_SUCH_RECORD :: u32
  where "WINBIO_E_DATABASE_NO_SUCH_RECORD = 0x8009801B"
definition WINBIO_E_DUPLICATE_ENROLLMENT :: u32
  where "WINBIO_E_DUPLICATE_ENROLLMENT = 0x8009801C"
definition WINBIO_E_DATABASE_NO_RESULTS :: u32
  where "WINBIO_E_DATABASE_NO_RESULTS = 0x8009801F"
definition WINBIO_E_DATABASE_NO_MORE_RECORDS :: u32
  where "WINBIO_E_DATABASE_NO_MORE_RECORDS = 0x80098020"
definition WINBIO_I_MORE_DATA :: u32 where "WINBIO_I_MORE_DATA = 0x00090001"
definition WINBIO_SENSOR_READY :: u32 where "WINBIO_SENSOR_READY = 3"
definition WINBIO_SENSOR_FAILURE :: u32 where "WINBIO_SENSOR_FAILURE = 6"

definition WINBIO_ID_TYPE_WILDCARD :: u32 where "WINBIO_ID_TYPE_WILDCARD = 1"
definition WINBIO_ID_TYPE_GUID :: u32 where "WINBIO_ID_TYPE_GUID = 2"
definition WINBIO_SUBTYPE_ANY :: byte where "WINBIO_SUBTYPE_ANY = 0xFF"

lemmas status_defs =
  ERROR_SUCCESS_def E_INVALIDARG_def WINERR_SET_CODE_def STATUS_SUCCESS_def STATUS_PENDING_def
  STATUS_BUFFER_TOO_SMALL_def WINBIO_E_UNKNOWN_ID_def WINBIO_E_NO_MATCH_def
  WINBIO_E_BAD_CAPTURE_def WINBIO_E_DATABASE_NO_SUCH_RECORD_def
  WINBIO_E_DUPLICATE_ENROLLMENT_def WINBIO_E_DATABASE_NO_RESULTS_def
  WINBIO_E_DATABASE_NO_MORE_RECORDS_def WINBIO_I_MORE_DATA_def WINBIO_SENSOR_READY_def
  WINBIO_SENSOR_FAILURE_def WINBIO_ID_TYPE_WILDCARD_def WINBIO_ID_TYPE_GUID_def
  WINBIO_SUBTYPE_ANY_def

section \<open>GUIDs\<close>

text \<open>
  \<open>RECGUID\<close> and \<open>GUID\<close> have the same 16-byte layout without padding, so the code's
  \<open>memcmp\<close> of two of them is equality of the fields.
\<close>

record guid =
  PartA :: u32
  PartB :: u16
  PartC :: u16
  PartD :: u16
  PartE :: u48

definition zero_guid :: guid where
  "zero_guid = \<lparr>PartA = 0, PartB = 0, PartC = 0, PartD = 0, PartE = 0\<rparr>"

section \<open>Identities and records\<close>

record winbio_identity =
  ident_type :: u32
  TemplateGuid :: guid

definition guid_identity :: "guid \<Rightarrow> winbio_identity" where
  "guid_identity g = \<lparr>ident_type = WINBIO_ID_TYPE_GUID, TemplateGuid = g\<rparr>"

definition TUDOR_FINGER_UNKNOWN :: u32 where "TUDOR_FINGER_UNKNOWN = 0"
definition TUDOR_FINGER_ANY :: u32 where "TUDOR_FINGER_ANY = 0xff"

text \<open>\<open>struct tudor_record\<close>; its list links are the position in the device's list.\<close>

record tudor_record =
  rec_identity :: winbio_identity
  rec_guid :: guid
  rec_finger :: u32
  rec_data :: "byte list"

text \<open>\<open>WINBIO_STORAGE_RECORD\<close>, as passed to and from a storage adapter.\<close>

record winbio_storage_record =
  srec_Identity :: "winbio_identity option"
  srec_SubFactor :: byte
  srec_IndexElementCount :: nat
  srec_TemplateBlob :: "byte list option"
  srec_PayloadBlobSize :: nat

definition empty_srec :: winbio_storage_record where
  "empty_srec = \<lparr>srec_Identity = None, srec_SubFactor = 0, srec_IndexElementCount = 0,
     srec_TemplateBlob = None, srec_PayloadBlobSize = 0\<rparr>"

section \<open>The device\<close>

text \<open>\<open>struct tudor_device_state\<close>: the values the registry shim serves to the DLL.\<close>

record tudor_device_state =
  pairing_in_process :: bool
  unpairing_in_process :: bool
  update_in_process :: bool
  init_fails :: u32
  update_fails :: u32
  last_update_timestamp :: u32

definition zero_device_state :: tudor_device_state where
  "zero_device_state = \<lparr>pairing_in_process = False, unpairing_in_process = False,
     update_in_process = False, init_fails = 0, update_fails = 0, last_update_timestamp = 0\<rparr>"

text \<open>
  \<open>struct tudor_device\<close>. A record is kept under the address \<open>malloc\<close> gave it; \<open>records\<close> is
  the chain from \<open>records_head\<close> over \<open>next\<close>, \<open>result_records\<close> the chain from
  \<open>result_records_head\<close> over \<open>res_next\<close>, and \<open>result_cursor\<close> the rest of that chain from
  \<open>result_records_cursor\<close> on; \<open>[]\<close> is NULL. \<open>next_addr\<close> stands for the allocator: it
  hands out addresses that were never used before.
\<close>

record tudor_device =
  dev_state :: tudor_device_state
  use_dll_storage :: bool
  enrolling :: bool
  override_template_count :: bool
  enroll_guid :: guid
  enroll_finger :: u32
  records :: "(nat \<times> tudor_record) list"
  result_records :: "nat list"
  result_cursor :: "nat list"
  next_addr :: nat

definition fresh_device :: tudor_device where
  "fresh_device = \<lparr>dev_state = zero_device_state, use_dll_storage = False, enrolling = False,
     override_template_count = False, enroll_guid = zero_guid, enroll_finger = 0,
     records = [], result_records = [], result_cursor = [], next_addr = 0\<rparr>"

abbreviation device_records :: "tudor_device \<Rightarrow> tudor_record list" where
  "device_records dev \<equiv> map snd (records dev)"

end
