(* ===== verification/Record_Store.thy ===== *)
theory Record_Store
  imports Device_State
begin

text \<open>
  The host's in-memory template store, \<open>libtudor/src/tudor/storage.c\<close>: the record list of a
  device, the operations the host uses on it (\<open>tudor_add_record\<close>, the in-memory half of
  \<open>tudor_wipe_records\<close>) and the WinBIO storage adapter \<open>storage_*\<close> with its result cursor.
  The mutex \<open>records_lock\<close> is held for the whole of every operation, so each is one step.
\<close>

section \<open>Operations\<close>

text \<open>
  \<open>tudor_add_record\<close> (lines 55-94): \<open>False\<close> for a record with this GUID and finger, else a
  new record is put at the head. \<open>mem\<close> tells whether the \<open>malloc\<close> calls succeed; the code
  aborts when one does not.
\<close>

definition has_record :: "guid \<Rightarrow> u32 \<Rightarrow> tudor_device \<Rightarrow> bool" where
  "has_record g f dev \<longleftrightarrow> (\<exists>r \<in> set (device_records dev). rec_guid r = g \<and> rec_finger r = f)"

definition push_record :: "tudor_record \<Rightarrow> tudor_device \<Rightarrow> tudor_device" where
  "push_record r dev =
     dev\<lparr>records := (next_addr dev, r) # records dev, next_addr := Suc (next_addr dev)\<rparr>"

definition tudor_add_record ::
    "bool \<Rightarrow> tudor_device \<Rightarrow> guid \<Rightarrow> u32 \<Rightarrow> byte list \<Rightarrow> (bool \<times> tudor_device) result" where
  "tudor_add_record mem dev g f data =
     (if has_record g f dev then Inr (False, dev)
      else if \<not> mem then Inl Abort
      else Inr (True, push_record
        \<lparr>rec_identity = guid_identity g, rec_guid = g, rec_finger = f, rec_data = data\<rparr> dev))"

text \<open>
  The unlinking loop shared by \<open>tudor_wipe_records\<close> and \<open>storage_DeleteRecord\<close>: it walks the
  list as it was on entry, unlinks and frees each record that satisfies \<open>P\<close>, and drops the
  result chain, whose nodes may just have been freed.
\<close>

definition unlink_record :: "nat \<Rightarrow> tudor_device \<Rightarrow> tudor_device" where
  "unlink_record a dev =
     dev\<lparr>records := filter (\<lambda>(b, _). b \<noteq> a) (records dev),
         result_records := [], result_cursor := []\<rparr>"

fun wipe_loop ::
    "(tudor_record \<Rightarrow> bool) \<Rightarrow> (nat \<times> tudor_record) list \<Rightarrow> tudor_device \<Rightarrow> nat
      \<Rightarrow> tudor_device \<times> nat" where
  "wipe_loop P [] dev n = (dev, n)"
| "wipe_loop P ((a, r) # rs) dev n =
     (if P r then wipe_loop P rs (unlink_record a dev) (Suc n) else wipe_loop P rs dev n)"

definition wipe_matches :: "guid option \<Rightarrow> u32 \<Rightarrow> tudor_record \<Rightarrow> bool" where
  "wipe_matches g f r \<longleftrightarrow>
     (case g of None \<Rightarrow> True | Some g' \<Rightarrow> TemplateGuid (rec_identity r) = g') \<and>
     (f = TUDOR_FINGER_ANY \<or> rec_finger r = f)"

definition wipe_records_mem :: "tudor_device \<Rightarrow> guid option \<Rightarrow> u32 \<Rightarrow> nat \<times> tudor_device" where
  "wipe_records_mem dev g f =
     (case wipe_loop (wipe_matches g f) (records dev) dev 0 of (dev', n) \<Rightarrow> (n, dev'))"

text \<open>
  The storage adapter. \<open>err\<close> is the \<open>errno\<close> of a failing \<open>malloc\<close> (\<open>None\<close>: all succeed); the
  error paths free what was allocated and leave the list alone. \<open>srec->Identity\<close> is
  dereferenced before any check, so a NULL one is a fault.
\<close>

definition ident_known :: "winbio_identity \<Rightarrow> bool" where
  "ident_known i \<longleftrightarrow> ident_type i = WINBIO_ID_TYPE_WILDCARD \<or> ident_type i = WINBIO_ID_TYPE_GUID"

definition subject_matches :: "winbio_identity \<Rightarrow> byte \<Rightarrow> tudor_record \<Rightarrow> bool" where
  "subject_matches i sub r \<longleftrightarrow>
     (ident_type i = WINBIO_ID_TYPE_WILDCARD \<or> TemplateGuid (rec_identity r) = TemplateGuid i) \<and>
     (sub = WINBIO_SUBTYPE_ANY \<or> rec_finger r = ucast sub)"

definition storage_AddRecord ::
    "u32 option \<Rightarrow> winbio_storage_record \<Rightarrow> tudor_device \<Rightarrow> (u32 \<times> tudor_device) result" where
  "storage_AddRecord err srec dev =
     (case srec_Identity srec of
        None \<Rightarrow> Inl Fault
      | Some i \<Rightarrow>
          if ident_type i \<noteq> WINBIO_ID_TYPE_GUID then Inr (E_INVALIDARG, dev)
          else if srec_IndexElementCount srec \<noteq> 0 \<or> srec_PayloadBlobSize srec \<noteq> 0
          then Inr (E_INVALIDARG, dev)
          else if \<exists>r \<in> set (device_records dev).
                 TemplateGuid (rec_identity r) = TemplateGuid i \<and>
                 rec_finger r = ucast (srec_SubFactor srec)
          then Inr (WINBIO_E_DUPLICATE_ENROLLMENT, dev)
          else (case err of
              Some e \<Rightarrow> Inr (e, dev)
            | None \<Rightarrow>
                Inr (ERROR_SUCCESS, push_record
                  \<lparr>rec_identity = i, rec_guid = TemplateGuid i,
                   rec_finger = ucast (srec_SubFactor srec),
                   rec_data = (case srec_TemplateBlob srec of None \<Rightarrow> [] | Some d \<Rightarrow> d)\<rparr> dev)))"

definition storage_DeleteRecord ::
    "winbio_identity \<Rightarrow> byte \<Rightarrow> tudor_device \<Rightarrow> u32 \<times> tudor_device" where
  "storage_DeleteRecord i sub dev =
     (if \<not> ident_known i then (E_INVALIDARG, dev)
      else case wipe_loop (subject_matches i sub) (records dev) dev 0 of
        (dev', n) \<Rightarrow>
          (if n > 0 then ERROR_SUCCESS else WINBIO_E_DATABASE_NO_SUCH_RECORD, dev'))"

text \<open>The query loop appends each match to the result chain.\<close>

fun query_loop ::
    "(tudor_record \<Rightarrow> bool) \<Rightarrow> (nat \<times> tudor_record) list \<Rightarrow> nat list \<Rightarrow> nat list" where
  "query_loop P [] res = res"
| "query_loop P ((a, r) # rs) res = query_loop P rs (if P r then res @ [a] else res)"

definition storage_QueryBySubject ::
    "winbio_identity \<Rightarrow> byte \<Rightarrow> tudor_device \<Rightarrow> u32 \<times> tudor_device" where
  "storage_QueryBySubject i sub dev =
     (if \<not> ident_known i then (E_INVALIDARG, dev)
      else let res = query_loop (subject_matches i sub) (records dev) []
           in (if res \<noteq> [] then ERROR_SUCCESS else WINBIO_E_DATABASE_NO_RESULTS,
               dev\<lparr>result_records := res, result_cursor := res\<rparr>))"

definition storage_QueryByContent ::
    "byte \<Rightarrow> nat \<Rightarrow> tudor_device \<Rightarrow> u32 \<times> tudor_device" where
  "storage_QueryByContent sub index_vec_sz dev =
     (if index_vec_sz \<noteq> 0 then (E_INVALIDARG, dev)
      else storage_QueryBySubject
        \<lparr>ident_type = WINBIO_ID_TYPE_WILDCARD, TemplateGuid = zero_guid\<rparr> sub dev)"

definition storage_GetRecordCount :: "tudor_device \<Rightarrow> u32 \<times> nat" where
  "storage_GetRecordCount dev =
     (let n = length (result_records dev)
      in (if n \<noteq> 0 then ERROR_SUCCESS else WINBIO_E_DATABASE_NO_RESULTS, n))"

definition storage_FirstRecord :: "tudor_device \<Rightarrow> u32 \<times> tudor_device" where
  "storage_FirstRecord dev =
     (if result_records dev = [] then (WINBIO_E_DATABASE_NO_RESULTS, dev)
      else (ERROR_SUCCESS, dev\<lparr>result_cursor := result_records dev\<rparr>))"

definition storage_NextRecord :: "tudor_device \<Rightarrow> u32 \<times> tudor_device" where
  "storage_NextRecord dev =
     (if result_records dev = [] then (WINBIO_E_DATABASE_NO_RESULTS, dev)
      else case result_cursor dev of
          c # n # rest \<Rightarrow> (ERROR_SUCCESS, dev\<lparr>result_cursor := n # rest\<rparr>)
        | _ \<Rightarrow> (WINBIO_E_DATABASE_NO_MORE_RECORDS, dev))"

text \<open>
  Reading through the cursor faults when the cursor is NULL or the record it points at was
  freed; \<open>res_inv\<close> below excludes both.
\<close>

definition storage_GetCurrentRecord ::
    "tudor_device \<Rightarrow> (u32 \<times> winbio_storage_record) result" where
  "storage_GetCurrentRecord dev =
     (if result_records dev = [] then Inr (WINBIO_E_DATABASE_NO_RESULTS, empty_srec)
      else case result_cursor dev of
          [] \<Rightarrow> Inl Fault
        | a # _ \<Rightarrow>
            (case map_of (records dev) a of
               None \<Rightarrow> Inl Fault
             | Some r \<Rightarrow> Inr (ERROR_SUCCESS,
                 \<lparr>srec_Identity = Some (rec_identity r), srec_SubFactor = ucast (rec_finger r),
                  srec_IndexElementCount = 0, srec_TemplateBlob = Some (rec_data r),
                  srec_PayloadBlobSize = 0\<rparr>)))"

text \<open>
  \<open>storage_QueryExtendedInfo\<close>: the capability block (\<open>GenericStorageCapabilities\<close>, \<open>Factor\<close>,
  \<open>Capabilities\<close>), refused when the caller's buffer of \<open>info_size\<close> bytes cannot hold the
  structure of \<open>struct_size\<close> bytes; and the control functions, which are not supported.
\<close>

definition storage_QueryExtendedInfo ::
    "nat \<Rightarrow> nat \<Rightarrow> u32 \<times> (u32 \<times> u32 \<times> u32) option" where
  "storage_QueryExtendedInfo struct_size info_size =
     (if struct_size > info_size then (E_INVALIDARG, None)
      else (ERROR_SUCCESS, Some (2, 8, 0)))"

definition storage_ControlUnit :: u32 where
  "storage_ControlUnit = E_INVALIDARG"

section \<open>Invariant\<close>

text \<open>
  Addresses are distinct and were handed out by the allocator; the result chain only holds
  live records, and the cursor is a position in it (NULL exactly when the chain is).
\<close>

definition res_inv :: "tudor_device \<Rightarrow> bool" where
  "res_inv dev \<longleftrightarrow>
     distinct (map fst (records dev)) \<and>
     (\<forall>a \<in> fst ` set (records dev). a < next_addr dev) \<and>
     set (result_records dev) \<subseteq> fst ` set (records dev) \<and>
     (\<exists>done. result_records dev = done @ result_cursor dev) \<and>
     (result_cursor dev = [] \<longrightarrow> result_records dev = [])"

text \<open>
  A record's identity is the GUID it is filed under, and no two records share GUID and finger.
\<close>

definition rec_key :: "tudor_record \<Rightarrow> guid \<times> u32" where
  "rec_key r = (rec_guid r, rec_finger r)"

definition key_inv :: "tudor_device \<Rightarrow> bool" where
  "key_inv dev \<longleftrightarrow>
     (\<forall>r \<in> set (device_records dev). rec_identity r = guid_identity (rec_guid r)) \<and>
     distinct (map rec_key (device_records dev))"

definition store_inv :: "tudor_device \<Rightarrow> bool" where
  "store_inv dev \<longleftrightarrow> res_inv dev \<and> key_inv dev"

lemma store_inv_fresh: "store_inv fresh_device"
  by (simp add: store_inv_def res_inv_def key_inv_def fresh_device_def)

subsection \<open>Adding\<close>

lemma has_record_iff: "has_record g f dev \<longleftrightarrow> (g, f) \<in> rec_key ` set (device_records dev)"
  by (auto simp: has_record_def rec_key_def)

lemma res_inv_push: "res_inv dev \<Longrightarrow> res_inv (push_record r dev)"
  by (auto simp: res_inv_def push_record_def less_Suc_eq)

lemma key_inv_push:
  "key_inv dev \<Longrightarrow> rec_identity r = guid_identity (rec_guid r) \<Longrightarrow>
   rec_key r \<notin> rec_key ` set (device_records dev) \<Longrightarrow> key_inv (push_record r dev)"
  by (auto simp: key_inv_def push_record_def)

lemma tudor_add_record_inv:
  assumes "tudor_add_record mem dev g f data = Inr (b, dev')" and "store_inv dev"
  shows "store_inv dev'"
  using assms
  by (auto simp: tudor_add_record_def store_inv_def has_record_iff rec_key_def
      intro!: res_inv_push key_inv_push split: if_splits)

lemma storage_AddRecord_inv:
  assumes "storage_AddRecord err srec dev = Inr (st, dev')" and "store_inv dev"
  shows "store_inv dev'"
proof -
  have key: "rec_key r = (TemplateGuid (rec_identity r), rec_finger r)"
    if "r \<in> set (device_records dev)" for r
    using that assms(2) by (auto simp: store_inv_def key_inv_def guid_identity_def rec_key_def)
  have ident: "i = guid_identity (TemplateGuid i)"
    if "ident_type i = WINBIO_ID_TYPE_GUID" for i :: winbio_identity
    using that by (simp add: guid_identity_def)
  from assms show ?thesis
  proof (auto simp: storage_AddRecord_def store_inv_def split: option.splits if_splits,
      goal_cases)
    case 1 then show ?case by (auto intro: res_inv_push)
  next
    case (2 i)
    then show ?case
      by (auto intro!: key_inv_push simp: ident[symmetric] image_iff key)
        (auto simp: rec_key_def key)
  next
    case 3 then show ?case by (auto intro: res_inv_push)
  next
    case (4 i)
    then show ?case
      by (auto intro!: key_inv_push simp: ident[symmetric] image_iff key)
        (auto simp: rec_key_def key)
  qed
qed

subsection \<open>Unlinking\<close>

text \<open>
  What the loop does, for a list of distinct addresses: exactly the matching records go, their
  number is counted, and the result chain survives only when nothing was unlinked.
\<close>

lemma wipe_loop_spec:
  assumes "distinct (map fst rs)"
  shows "wipe_loop P rs dev n =
    (if \<exists>r \<in> snd ` set rs. P r
     then (dev\<lparr>records := filter (\<lambda>(b, _). \<forall>(a, r) \<in> set rs. P r \<longrightarrow> b \<noteq> a) (records dev),
               result_records := [], result_cursor := []\<rparr>,
           n + length (filter (P \<circ> snd) rs))
     else (dev, n))"
  using assms
proof (induction rs arbitrary: dev n)
  case Nil
  then show ?case by simp
next
  case (Cons ar rs)
  obtain a r where ar: "ar = (a, r)" by (cases ar)
  show ?case
  proof (cases "P r")
    case False
    with Cons ar show ?thesis by (auto simp: comp_def)
  next
    case True
    have IH: "wipe_loop P rs (unlink_record a dev) (Suc n) =
      (if \<exists>r \<in> snd ` set rs. P r
       then ((unlink_record a dev)\<lparr>records := filter (\<lambda>(b, _). \<forall>(a, r) \<in> set rs. P r \<longrightarrow> b \<noteq> a)
               (records (unlink_record a dev)), result_records := [], result_cursor := []\<rparr>,
             Suc n + length (filter (P \<circ> snd) rs))
       else (unlink_record a dev, Suc n))"
      using Cons by simp
    have fl: "filter (\<lambda>(b, _). \<forall>(a, r) \<in> set rs. P r \<longrightarrow> b \<noteq> a)
        (filter (\<lambda>(b, _). b \<noteq> a) (records dev)) =
      filter (\<lambda>(b, _). \<forall>(a, r) \<in> set (ar # rs). P r \<longrightarrow> b \<noteq> a) (records dev)"
      using True ar by (auto intro!: filter_cong)
    have none: "filter (P \<circ> snd) rs = []" if "\<not> (\<exists>r \<in> snd ` set rs. P r)"
      using that by (auto simp: filter_empty_conv)
    have fl0: "filter (\<lambda>(b, _). b \<noteq> a) (records dev) =
      filter (\<lambda>(b, _). \<forall>(a, r) \<in> set (ar # rs). P r \<longrightarrow> b \<noteq> a) (records dev)"
      if "\<not> (\<exists>r \<in> snd ` set rs. P r)"
      using that True ar by (force intro!: filter_cong)
    show ?thesis
      using True ar IH fl fl0 none by (auto simp: unlink_record_def)
  qed
qed

lemma wipe_device:
  assumes "res_inv dev"
  shows "wipe_loop P (records dev) dev 0 =
    (if \<exists>r \<in> set (device_records dev). P r
     then (dev\<lparr>records := filter (\<lambda>(_, r). \<not> P r) (records dev),
               result_records := [], result_cursor := []\<rparr>,
           length (filter P (device_records dev)))
     else (dev, 0))"
proof -
  have d: "distinct (map fst (records dev))" using assms by (simp add: res_inv_def)
  have "filter (\<lambda>(b, _). \<forall>(a, r) \<in> set (records dev). P r \<longrightarrow> b \<noteq> a) (records dev) =
    filter (\<lambda>(_, r). \<not> P r) (records dev)"
  proof (rule filter_cong[OF refl], clarsimp)
    fix b r assume br: "(b, r) \<in> set (records dev)"
    show "(\<forall>(a, r) \<in> set (records dev). P r \<longrightarrow> b \<noteq> a) = (\<not> P r)"
      using br d by (auto dest: eq_key_imp_eq_value)
  qed
  moreover have "length (filter (P \<circ> snd) (records dev)) = length (filter P (device_records dev))"
    by (simp add: filter_map)
  ultimately show ?thesis
    unfolding wipe_loop_spec[OF d] by simp
qed

lemma res_inv_filter:
  "res_inv dev \<Longrightarrow>
   res_inv (dev\<lparr>records := filter Q (records dev), result_records := [], result_cursor := []\<rparr>)"
  by (auto simp: res_inv_def intro: distinct_map_filter)

lemma key_inv_filter:
  assumes "key_inv dev"
  shows "key_inv (dev\<lparr>records := filter (\<lambda>(_, r). Q r) (records dev), result_records := rr,
    result_cursor := rc\<rparr>)"
proof -
  have "map snd (filter (\<lambda>(_, r). Q r) xs) = filter Q (map snd xs)" for xs :: "(nat \<times> tudor_record) list"
    by (induction xs) auto
  with assms show ?thesis by (auto simp: key_inv_def intro: distinct_map_filter)
qed

lemma wipe_loop_inv:
  "store_inv dev \<Longrightarrow> store_inv (fst (wipe_loop P (records dev) dev 0))"
  by (auto simp: store_inv_def wipe_device intro: res_inv_filter key_inv_filter)

subsection \<open>Querying\<close>

lemma query_loop_spec: "query_loop P rs res = res @ map fst (filter (P \<circ> snd) rs)"
  by (induction P rs res rule: query_loop.induct) auto

lemma storage_QueryBySubject_inv:
  assumes "store_inv dev"
  shows "store_inv (snd (storage_QueryBySubject i sub dev))"
  using assms
  by (auto simp: store_inv_def res_inv_def key_inv_def storage_QueryBySubject_def
      query_loop_spec Let_def)

lemma storage_FirstRecord_inv: "store_inv dev \<Longrightarrow> store_inv (snd (storage_FirstRecord dev))"
  by (auto simp: store_inv_def res_inv_def key_inv_def storage_FirstRecord_def)

lemma storage_NextRecord_inv: "store_inv dev \<Longrightarrow> store_inv (snd (storage_NextRecord dev))"
proof -
  assume inv: "store_inv dev"
  show ?thesis
  proof (cases "result_cursor dev")
    case Nil
    with inv show ?thesis by (simp add: storage_NextRecord_def)
  next
    case (Cons c cs)
    show ?thesis
    proof (cases cs)
      case Nil
      with inv Cons show ?thesis by (simp add: storage_NextRecord_def)
    next
      case (Cons n rest)
      with \<open>result_cursor dev = c # cs\<close> inv show ?thesis
        by (auto simp: storage_NextRecord_def store_inv_def res_inv_def key_inv_def)
    qed
  qed
qed

section \<open>Sequences of operations\<close>

text \<open>
  The operations the host and the WinBIO pipeline issue on a device, in any order. \<open>OpAdd\<close> and
  \<open>OpWipe\<close> are the host's, the others the adapter's; \<open>OpAdapterAdd\<close> carries the outcome of the
  allocations.
\<close>

datatype store_op =
    OpAdd guid u32 "byte list"
  | OpWipe "guid option" u32
  | OpAdapterAdd "u32 option" winbio_identity byte "byte list"
  | OpAdapterDelete winbio_identity byte
  | OpQuery winbio_identity byte
  | OpQueryContent byte nat
  | OpFirst
  | OpNext
  | OpCurrent

fun store_step :: "store_op \<Rightarrow> tudor_device \<Rightarrow> tudor_device result" where
  "store_step (OpAdd g f d) dev = res_bind (tudor_add_record True dev g f d) (\<lambda>(_, dev'). Inr dev')"
| "store_step (OpWipe g f) dev = Inr (snd (wipe_records_mem dev g f))"
| "store_step (OpAdapterAdd err i sub d) dev =
     res_bind (storage_AddRecord err (empty_srec\<lparr>srec_Identity := Some i, srec_SubFactor := sub,
       srec_TemplateBlob := Some d\<rparr>) dev) (\<lambda>(_, dev'). Inr dev')"
| "store_step (OpAdapterDelete i sub) dev = Inr (snd (storage_DeleteRecord i sub dev))"
| "store_step (OpQuery i sub) dev = Inr (snd (storage_QueryBySubject i sub dev))"
| "store_step (OpQueryContent sub n) dev = Inr (snd (storage_QueryByContent sub n dev))"
| "store_step OpFirst dev = Inr (snd (storage_FirstRecord dev))"
| "store_step OpNext dev = Inr (snd (storage_NextRecord dev))"
| "store_step OpCurrent dev = res_bind (storage_GetCurrentRecord dev) (\<lambda>_. Inr dev)"

fun store_run :: "store_op list \<Rightarrow> tudor_device \<Rightarrow> tudor_device result" where
  "store_run [] dev = Inr dev"
| "store_run (x # xs) dev = res_bind (store_step x dev) (store_run xs)"

lemma storage_GetCurrentRecord_total:
  assumes "store_inv dev"
  shows "\<exists>p. storage_GetCurrentRecord dev = Inr p"
proof (cases "result_records dev = []")
  case True
  then show ?thesis by (simp add: storage_GetCurrentRecord_def)
next
  case False
  with assms obtain a rest where c: "result_cursor dev = a # rest"
    by (auto simp: store_inv_def res_inv_def neq_Nil_conv)
  with assms have "a \<in> fst ` set (records dev)"
    by (auto simp: store_inv_def res_inv_def)
  then obtain r where "map_of (records dev) a = Some r"
    by (metis map_of_eq_None_iff not_Some_eq)
  with c False show ?thesis by (simp add: storage_GetCurrentRecord_def)
qed

lemma store_step_safe:
  assumes "store_inv dev"
  shows "\<exists>dev'. store_step x dev = Inr dev' \<and> store_inv dev'"
proof (cases x)
  case (OpAdd g f d)
  have "\<exists>p. tudor_add_record True dev g f d = Inr p" by (auto simp: tudor_add_record_def)
  then obtain p where "tudor_add_record True dev g f d = Inr p" by blast
  then show ?thesis using OpAdd tudor_add_record_inv assms by (cases p) auto
next
  case (OpWipe g f)
  then show ?thesis
    using wipe_loop_inv[OF assms] by (auto simp: wipe_records_mem_def split: prod.splits)
      (metis fst_conv)
next
  case (OpAdapterAdd err i sub d)
  let ?s = "empty_srec\<lparr>srec_Identity := Some i, srec_SubFactor := sub, srec_TemplateBlob := Some d\<rparr>"
  have "\<exists>p. storage_AddRecord err ?s dev = Inr p"
    by (simp add: storage_AddRecord_def split: option.splits)
  then obtain p where "storage_AddRecord err ?s dev = Inr p" by blast
  then show ?thesis using OpAdapterAdd storage_AddRecord_inv assms by (cases p) auto
next
  case (OpAdapterDelete i sub)
  then show ?thesis
    using assms wipe_loop_inv[OF assms]
    by (auto simp: storage_DeleteRecord_def split: prod.splits) (metis fst_conv)
next
  case (OpQuery i sub)
  then show ?thesis using storage_QueryBySubject_inv[OF assms] by simp
next
  case (OpQueryContent sub n)
  then show ?thesis
    using storage_QueryBySubject_inv assms by (simp add: storage_QueryByContent_def)
next
  case OpFirst
  then show ?thesis using storage_FirstRecord_inv assms by simp
next
  case OpNext
  then show ?thesis using storage_NextRecord_inv assms by simp
next
  case OpCurrent
  then show ?thesis using storage_GetCurrentRecord_total assms by fastforce
qed

lemma store_run_inv: "store_inv dev \<Longrightarrow> \<exists>dev'. store_run ops dev = Inr dev' \<and> store_inv dev'"
proof (induction ops arbitrary: dev)
  case Nil
  then show ?case by simp
next
  case (Cons x xs)
  from store_step_safe[OF Cons.prems, of x] obtain dev1
    where "store_step x dev = Inr dev1" "store_inv dev1" by blast
  with Cons.IH show ?case by simp
qed

section \<open>The abstract store\<close>

text \<open>The store as a map from (GUID, finger) to template data, which is all its users see of it.\<close>

definition store_map :: "tudor_device \<Rightarrow> (guid \<times> u32) \<rightharpoonup> byte list" where
  "store_map dev = map_of (map (\<lambda>r. (rec_key r, rec_data r)) (device_records dev))"

definition key_matches :: "guid option \<Rightarrow> u32 \<Rightarrow> guid \<times> u32 \<Rightarrow> bool" where
  "key_matches g f k \<longleftrightarrow>
     (case g of None \<Rightarrow> True | Some g' \<Rightarrow> fst k = g') \<and> (f = TUDOR_FINGER_ANY \<or> snd k = f)"

lemma dom_store_map: "dom (store_map dev) = rec_key ` set (device_records dev)"
  by (auto simp: store_map_def dom_map_of_conv_image_fst image_image)

lemma map_of_filter_key:
  "map_of (map (\<lambda>r. (k r, d r)) (filter (\<lambda>r. Q (k r)) xs)) =
   map_of (map (\<lambda>r. (k r, d r)) xs) |` {x. Q x}"
  by (induction xs) (auto simp: restrict_map_def fun_eq_iff)

lemma add_record_map:
  assumes "tudor_add_record True dev g f d = Inr (b, dev')"
  shows "b \<longleftrightarrow> (g, f) \<notin> dom (store_map dev)"
    and "store_map dev' = (if b then (store_map dev)((g, f) \<mapsto> d) else store_map dev)"
  using assms unfolding dom_store_map
  by (auto simp: tudor_add_record_def has_record_iff push_record_def store_map_def rec_key_def
      split: if_splits)

lemma wipe_matches_key:
  "key_inv dev \<Longrightarrow> r \<in> set (device_records dev) \<Longrightarrow> wipe_matches g f r = key_matches g f (rec_key r)"
  by (auto simp: wipe_matches_def key_matches_def key_inv_def guid_identity_def rec_key_def
      split: option.splits)

lemma wipe_records_map:
  assumes "store_inv dev" and "wipe_records_mem dev g f = (n, dev')"
  shows "store_map dev' = store_map dev |` {k. \<not> key_matches g f k}"
    and "n = card {k \<in> dom (store_map dev). key_matches g f k}"
proof -
  let ?P = "wipe_matches g f" and ?K = "\<lambda>k. key_matches g f k"
  have res: "res_inv dev" and key: "key_inv dev" using assms(1) by (auto simp: store_inv_def)
  note spec = wipe_device[OF res, of ?P]
  have recs: "device_records dev' = filter (\<lambda>r. \<not> ?K (rec_key r)) (device_records dev)"
  proof -
    have "device_records dev' = filter (\<lambda>r. \<not> ?P r) (device_records dev)"
      using assms(2) spec
      by (auto simp: wipe_records_mem_def filter_map comp_def case_prod_unfold filter_id_conv
          split: prod.splits if_splits)
    also have "\<dots> = filter (\<lambda>r. \<not> ?K (rec_key r)) (device_records dev)"
      using wipe_matches_key[OF key] by (intro filter_cong) auto
    finally show ?thesis .
  qed
  show "store_map dev' = store_map dev |` {k. \<not> ?K k}"
    unfolding store_map_def recs by (rule map_of_filter_key)
  have "n = length (filter ?P (device_records dev))"
    using assms(2) spec
    by (auto simp: wipe_records_mem_def filter_empty_conv split: prod.splits if_splits)
  also have "\<dots> = length (filter (\<lambda>r. ?K (rec_key r)) (device_records dev))"
    using wipe_matches_key[OF key] by (intro arg_cong[where f = length] filter_cong) auto
  also have "\<dots> = length (filter ?K (map rec_key (device_records dev)))"
    by (simp add: filter_map comp_def)
  also have "\<dots> = card (set (filter ?K (map rec_key (device_records dev))))"
    using key by (intro distinct_card[symmetric] distinct_filter) (simp add: key_inv_def)
  also have "set (filter ?K (map rec_key (device_records dev))) = {k \<in> dom (store_map dev). ?K k}"
    by (auto simp: dom_store_map)
  finally show "n = card {k \<in> dom (store_map dev). ?K k}" .
qed

section \<open>Properties\<close>

text \<open>
  C7: Whatever sequence of host and adapter operations is issued on a freshly opened device, no
  operation reads through a dangling or NULL result cursor, and the store stays well formed:
  the result chain only holds live records and no two records share GUID and finger.
\<close>

theorem store_operations_safe:
  "\<exists>dev. store_run ops fresh_device = Inr dev \<and> res_inv dev \<and> key_inv dev"
  using store_run_inv[OF store_inv_fresh] by (auto simp: store_inv_def)

text \<open>
  C8: \<open>tudor_add_record\<close> implements insertion into a map from (GUID, finger) to template data: it
  succeeds exactly for a key that is not there, binds it, and otherwise changes nothing.
\<close>

theorem add_record_refines_insert:
  assumes "tudor_add_record True dev g f d = Inr (added, dev')"
  shows "(added \<longleftrightarrow> (g, f) \<notin> dom (store_map dev)) \<and>
    store_map dev' = (if added then (store_map dev)((g, f) \<mapsto> d) else store_map dev)"
  using add_record_map[OF assms] by simp

lemma add_record_refines_insert_witness:
  "\<exists>dev'. tudor_add_record True fresh_device zero_guid 3 [9] = Inr (True, dev') \<and>
     store_map dev' (zero_guid, 3) = Some [9]"
proof -
  obtain dev' where d: "tudor_add_record True fresh_device zero_guid 3 [9] = Inr (True, dev')"
    by (simp add: tudor_add_record_def has_record_def fresh_device_def)
  from add_record_refines_insert[OF d] d show ?thesis by auto
qed

text \<open>
  C9: The in-memory \<open>tudor_wipe_records\<close> implements restriction of that map: exactly the entries
  of the GUID (any, when NULL) and finger (any, for 0xff) asked for go, and it returns how many.
\<close>

theorem wipe_records_refines_restrict:
  assumes "store_inv dev" and "wipe_records_mem dev g f = (n, dev')"
  shows "store_map dev' = store_map dev |` {k. \<not> key_matches g f k} \<and>
    n = card {k \<in> dom (store_map dev). key_matches g f k}"
  using wipe_records_map[OF assms] by simp

lemma wipe_records_refines_restrict_witness:
  "\<exists>n dev'. wipe_records_mem fresh_device None TUDOR_FINGER_ANY = (n, dev') \<and>
     store_map dev' = Map.empty \<and> n = 0"
proof -
  obtain n dev' where d: "wipe_records_mem fresh_device None TUDOR_FINGER_ANY = (n, dev')"
    by (cases "wipe_records_mem fresh_device None TUDOR_FINGER_ANY")
  have "store_map fresh_device = Map.empty" by (simp add: store_map_def fresh_device_def)
  with wipe_records_refines_restrict[OF store_inv_fresh d] d show ?thesis by auto
qed

end
