(* ===== verification/Storage_Adapter.thy ===== *)
theory Storage_Adapter
  imports Record_Store
begin

text \<open>
  The WinBIO storage interface as the driver host uses it (\<open>WINBIO_STORAGE_INTERFACE\<close> in
  \<open>libtudor/src/tudor/winbio.h\<close>), its two clients \<open>tudor_enumerate_records\<close> (\<open>device.c\<close>) and
  the adapter half of \<open>tudor_wipe_records\<close> (\<open>storage.c\<close>), and the contract they rely on. The
  interface has two providers: the adapter of the Windows DLL, a parameter of the model, and
  the host's own \<open>tudor_storage_adapter\<close>, on which the contract is interpreted.
\<close>

section \<open>The interface\<close>

record 's storage_interface =
  si_DeleteRecord :: "winbio_identity \<Rightarrow> byte \<Rightarrow> 's \<Rightarrow> (u32 \<times> 's) result"
  si_QueryBySubject :: "winbio_identity \<Rightarrow> byte \<Rightarrow> 's \<Rightarrow> (u32 \<times> 's) result"
  si_FirstRecord :: "'s \<Rightarrow> (u32 \<times> 's) result"
  si_NextRecord :: "'s \<Rightarrow> (u32 \<times> 's) result"
  si_GetCurrentRecord :: "'s \<Rightarrow> (u32 \<times> winbio_storage_record \<times> 's) result"

definition tudor_storage_adapter :: "tudor_device storage_interface" where
  "tudor_storage_adapter =
     \<lparr>si_DeleteRecord = (\<lambda>i sub dev. Inr (storage_DeleteRecord i sub dev)),
      si_QueryBySubject = (\<lambda>i sub dev. Inr (storage_QueryBySubject i sub dev)),
      si_FirstRecord = (\<lambda>dev. Inr (storage_FirstRecord dev)),
      si_NextRecord = (\<lambda>dev. Inr (storage_NextRecord dev)),
      si_GetCurrentRecord =
        (\<lambda>dev. res_bind (storage_GetCurrentRecord dev) (\<lambda>(st, srec). Inr (st, srec, dev)))\<rparr>"

section \<open>Clients\<close>

text \<open>
  The identity both clients build: a GUID, or the wildcard for NULL. The GUID bytes of a
  wildcard identity are never read.
\<close>

definition query_identity :: "guid option \<Rightarrow> winbio_identity" where
  "query_identity g =
     (case g of Some g' \<Rightarrow> guid_identity g'
      | None \<Rightarrow> \<lparr>ident_type = WINBIO_ID_TYPE_WILDCARD, TemplateGuid = zero_guid\<rparr>)"

text \<open>
  The \<open>while(hr == ERROR_SUCCESS)\<close> loop: it may run forever on an adapter whose \<open>NextRecord\<close>
  always succeeds, so not returning is the value \<open>None\<close>. \<open>cbs\<close> are the callbacks made so far.
\<close>

partial_function (option) enum_loop ::
    "'s storage_interface \<Rightarrow> 's \<Rightarrow> nat \<Rightarrow> (guid \<times> u32) list
      \<Rightarrow> (nat \<times> (guid \<times> u32) list \<times> 's) result option" where
  "enum_loop sif s n cbs =
     (case si_GetCurrentRecord sif s of
        Inl e \<Rightarrow> Some (Inl e)
      | Inr (hr, srec, s1) \<Rightarrow>
          if hr \<noteq> ERROR_SUCCESS then Some (Inr (n, cbs, s1))
          else (case srec_Identity srec of
              None \<Rightarrow> Some (Inr (n, cbs, s1))
            | Some i \<Rightarrow>
                (case si_NextRecord sif s1 of
                   Inl e \<Rightarrow> Some (Inl e)
                 | Inr (hr', s2) \<Rightarrow>
                     if hr' = ERROR_SUCCESS
                     then enum_loop sif s2 (Suc n)
                            (cbs @ [(TemplateGuid i, ucast (srec_SubFactor srec))])
                     else Some (Inr (Suc n,
                            cbs @ [(TemplateGuid i, ucast (srec_SubFactor srec))], s2)))))"

definition tudor_enumerate_records ::
    "'s storage_interface \<Rightarrow> 's \<Rightarrow> guid option \<Rightarrow> u32
      \<Rightarrow> (nat \<times> (guid \<times> u32) list \<times> 's) result option" where
  "tudor_enumerate_records sif s g f =
     (case si_QueryBySubject sif (query_identity g) (ucast f) s of
        Inl e \<Rightarrow> Some (Inl e)
      | Inr (hr, s1) \<Rightarrow>
          if hr \<noteq> ERROR_SUCCESS then Some (Inr (0, [], s1))
          else (case si_FirstRecord sif s1 of
              Inl e \<Rightarrow> Some (Inl e)
            | Inr (hr', s2) \<Rightarrow>
                if hr' \<noteq> ERROR_SUCCESS then Some (Inr (0, [], s2))
                else enum_loop sif s2 0 []))"

text \<open>
  \<open>tudor_wipe_records\<close> (lines 3-53): with the DLL's storage the records are counted, then
  deleted through the adapter, and 0 is returned when the deletion fails; otherwise the
  device's own list is wiped.
\<close>

definition tudor_wipe_records ::
    "'s storage_interface \<Rightarrow> tudor_device \<times> 's \<Rightarrow> guid option \<Rightarrow> u32
      \<Rightarrow> (nat \<times> tudor_device \<times> 's) result option" where
  "tudor_wipe_records sif ds g f =
     (case ds of (dev, s) \<Rightarrow>
        if use_dll_storage dev then
          (case tudor_enumerate_records sif s g f of
             None \<Rightarrow> None
           | Some (Inl e) \<Rightarrow> Some (Inl e)
           | Some (Inr (count, _, s1)) \<Rightarrow>
               (case si_DeleteRecord sif (query_identity g)
                       (if f = TUDOR_FINGER_ANY then 0xFF else ucast f) s1 of
                  Inl e \<Rightarrow> Some (Inl e)
                | Inr (hr, s2) \<Rightarrow>
                    Some (Inr (if hr \<noteq> ERROR_SUCCESS then 0 else count, dev, s2))))
        else (case wipe_records_mem dev g f of (n, dev') \<Rightarrow> Some (Inr (n, dev', s))))"

section \<open>The contract\<close>

text \<open>
  What a result cursor promises: after a query the chain holds exactly the records \<open>found\<close>, the
  query says whether there are any, and \<open>First\<close>, \<open>GetCurrent\<close> and \<open>Next\<close> walk that chain.
\<close>

locale storage_cursor =
  fixes sif :: "'s storage_interface"
    and inv :: "'s \<Rightarrow> bool"
    and found :: "winbio_identity \<Rightarrow> byte \<Rightarrow> 's \<Rightarrow> winbio_storage_record list"
    and chain :: "'s \<Rightarrow> winbio_storage_record list"
    and pending :: "'s \<Rightarrow> winbio_storage_record list"
  assumes query: "inv s \<Longrightarrow> ident_known i \<Longrightarrow> \<exists>st s'.
      si_QueryBySubject sif i sub s = Inr (st, s') \<and> inv s' \<and>
      (st = ERROR_SUCCESS \<longleftrightarrow> found i sub s \<noteq> []) \<and> chain s' = found i sub s \<and>
      (\<forall>j x. found j x s' = found j x s)"
    and first: "inv s \<Longrightarrow> chain s \<noteq> [] \<Longrightarrow> \<exists>s'.
      si_FirstRecord sif s = Inr (ERROR_SUCCESS, s') \<and> inv s' \<and> pending s' = chain s \<and>
      (\<forall>j x. found j x s' = found j x s)"
    and current: "inv s \<Longrightarrow> pending s = r # rs \<Longrightarrow> \<exists>s'.
      si_GetCurrentRecord sif s = Inr (ERROR_SUCCESS, r, s') \<and> inv s' \<and> pending s' = r # rs \<and>
      (\<forall>j x. found j x s' = found j x s)"
    and next_record: "inv s \<Longrightarrow> pending s = r # rs \<Longrightarrow> \<exists>st s'.
      si_NextRecord sif s = Inr (st, s') \<and> inv s' \<and> (st = ERROR_SUCCESS \<longleftrightarrow> rs \<noteq> []) \<and>
      (rs \<noteq> [] \<longrightarrow> pending s' = rs) \<and> (\<forall>j x. found j x s' = found j x s)"
    and identified: "inv s \<Longrightarrow> r \<in> set (pending s) \<Longrightarrow> srec_Identity r \<noteq> None"
begin

definition callback_of :: "winbio_storage_record \<Rightarrow> guid \<times> u32" where
  "callback_of r = (TemplateGuid (the (srec_Identity r)), ucast (srec_SubFactor r))"

lemma enum_loop_pending:
  assumes "inv s" and "pending s = rs" and "rs \<noteq> []"
  shows "\<exists>s'. enum_loop sif s n cbs = Some (Inr (n + length rs, cbs @ map callback_of rs, s')) \<and>
    inv s' \<and> (\<forall>j x. found j x s' = found j x s)"
  using assms
proof (induction rs arbitrary: s n cbs)
  case Nil
  then show ?case by simp
next
  case (Cons r rs)
  obtain s1 where s1: "si_GetCurrentRecord sif s = Inr (ERROR_SUCCESS, r, s1)" "inv s1"
    "pending s1 = r # rs" "\<forall>j x. found j x s1 = found j x s"
    using current[OF Cons.prems(1,2)] by blast
  obtain i where i: "srec_Identity r = Some i"
    using identified[OF Cons.prems(1)] Cons.prems(2) by fastforce
  obtain st s2 where s2: "si_NextRecord sif s1 = Inr (st, s2)" "inv s2"
    "st = ERROR_SUCCESS \<longleftrightarrow> rs \<noteq> []" "rs \<noteq> [] \<longrightarrow> pending s2 = rs"
    "\<forall>j x. found j x s2 = found j x s1"
    using next_record[OF s1(2,3)] by blast
  show ?case
  proof (cases "rs = []")
    case True
    with s1 s2 i show ?thesis
      by (subst enum_loop.simps) (auto simp: callback_of_def)
  next
    case False
    with s2 have "inv s2" "pending s2 = rs" by auto
    from Cons.IH[OF this False] obtain s3 where
      "enum_loop sif s2 (Suc n) (cbs @ [callback_of r]) =
        Some (Inr (Suc n + length rs, (cbs @ [callback_of r]) @ map callback_of rs, s3))"
      "inv s3" "\<forall>j x. found j x s3 = found j x s2" by blast
    with s1 s2 i False show ?thesis
      by (subst enum_loop.simps) (auto simp: callback_of_def)
  qed
qed

lemma ident_known_query [simp]: "ident_known (query_identity g)"
  by (simp add: ident_known_def query_identity_def guid_identity_def split: option.splits)

lemma enumerate_found:
  assumes "inv s"
  shows "\<exists>s'. tudor_enumerate_records sif s g f =
      Some (Inr (length (found (query_identity g) (ucast f) s),
        map callback_of (found (query_identity g) (ucast f) s), s')) \<and>
    inv s' \<and> (\<forall>j x. found j x s' = found j x s)"
proof -
  let ?i = "query_identity g" and ?f = "found (query_identity g) (ucast f) s"
  obtain st s1 where s1: "si_QueryBySubject sif ?i (ucast f) s = Inr (st, s1)" "inv s1"
    "st = ERROR_SUCCESS \<longleftrightarrow> ?f \<noteq> []" "chain s1 = ?f" "\<forall>j x. found j x s1 = found j x s"
    using query[OF assms ident_known_query] by blast
  show ?thesis
  proof (cases "?f = []")
    case True
    with s1 show ?thesis by (simp add: tudor_enumerate_records_def)
  next
    case False
    with s1 obtain s2 where s2: "si_FirstRecord sif s1 = Inr (ERROR_SUCCESS, s2)" "inv s2"
      "pending s2 = ?f" "\<forall>j x. found j x s2 = found j x s1"
      using first[of s1] by auto
    from enum_loop_pending[OF s2(2,3) False, of 0 "[]"] s1 s2 False show ?thesis
      by (auto simp: tudor_enumerate_records_def)
  qed
qed

end

text \<open>A store that also deletes: afterwards nothing that matched is found any more.\<close>

locale storage_store = storage_cursor +
  assumes delete: "inv s \<Longrightarrow> ident_known i \<Longrightarrow> \<exists>st s'.
      si_DeleteRecord sif i sub s = Inr (st, s') \<and> inv s' \<and>
      (st = ERROR_SUCCESS \<longleftrightarrow> found i sub s \<noteq> []) \<and> found i sub s' = []"
begin

lemma wipe_through_adapter:
  assumes "inv s" and "use_dll_storage dev"
  shows "\<exists>s'. tudor_wipe_records sif (dev, s) g f =
      Some (Inr (length (found (query_identity g) (ucast f) s), dev, s')) \<and>
    inv s' \<and> found (query_identity g) (ucast f) s' = []"
proof -
  let ?i = "query_identity g"
  have sub: "(if f = TUDOR_FINGER_ANY then 0xFF else ucast f) = (ucast f :: byte)"
    by (simp add: TUDOR_FINGER_ANY_def)
  obtain s1 where s1: "tudor_enumerate_records sif s g f =
      Some (Inr (length (found ?i (ucast f) s), map callback_of (found ?i (ucast f) s), s1))"
    "inv s1" "\<forall>j x. found j x s1 = found j x s"
    using enumerate_found[OF assms(1)] by blast
  obtain st s2 where s2: "si_DeleteRecord sif ?i (ucast f) s1 = Inr (st, s2)" "inv s2"
    "st = ERROR_SUCCESS \<longleftrightarrow> found ?i (ucast f) s1 \<noteq> []" "found ?i (ucast f) s2 = []"
    using delete[OF s1(2) ident_known_query] by blast
  show ?thesis
    using assms s1 s2 by (auto simp: tudor_wipe_records_def sub)
qed

end

section \<open>The host's adapter keeps the contract\<close>

definition srec_of :: "tudor_record \<Rightarrow> winbio_storage_record" where
  "srec_of r = \<lparr>srec_Identity = Some (rec_identity r), srec_SubFactor = ucast (rec_finger r),
     srec_IndexElementCount = 0, srec_TemplateBlob = Some (rec_data r),
     srec_PayloadBlobSize = 0\<rparr>"

definition stub_found :: "winbio_identity \<Rightarrow> byte \<Rightarrow> tudor_device \<Rightarrow> winbio_storage_record list" where
  "stub_found i sub dev = map srec_of (filter (subject_matches i sub) (device_records dev))"

definition srec_at :: "tudor_device \<Rightarrow> nat \<Rightarrow> winbio_storage_record" where
  "srec_at dev a = srec_of (the (map_of (records dev) a))"

lemma map_srec_at_filter:
  assumes "distinct (map fst (records dev))"
  shows "map (srec_at dev) (map fst (filter (P \<circ> snd) (records dev))) =
    map srec_of (filter P (device_records dev))"
proof -
  have "map (srec_at dev \<circ> fst) (filter (P \<circ> snd) (records dev)) =
    map (srec_of \<circ> snd) (filter (P \<circ> snd) (records dev))"
    using assms by (auto simp: srec_at_def intro!: map_of_is_SomeI)
  then show ?thesis by (simp add: filter_map)
qed

interpretation stub: storage_store tudor_storage_adapter store_inv stub_found
  "\<lambda>dev. map (srec_at dev) (result_records dev)" "\<lambda>dev. map (srec_at dev) (result_cursor dev)"
proof (unfold_locales, goal_cases)
  case (1 s i sub)
  have inv: "store_inv (snd (storage_QueryBySubject i sub s))"
    using 1(1) by (rule storage_QueryBySubject_inv)
  have d: "distinct (map fst (records s))" using 1(1) by (simp add: store_inv_def res_inv_def)
  have at: "srec_at (s\<lparr>result_records := x, result_cursor := y\<rparr>) = srec_at s" for x y
    by (simp add: srec_at_def fun_eq_iff)
  have q: "query_loop (subject_matches i sub) (records s) [] =
      map fst (filter (subject_matches i sub \<circ> snd) (records s))"
    by (simp add: query_loop_spec)
  have e: "map fst (filter (subject_matches i sub \<circ> snd) (records s)) = [] \<longleftrightarrow> stub_found i sub s = []"
    by (auto simp: stub_found_def filter_empty_conv)
  show ?case
    using 1(2) inv map_srec_at_filter[OF d, of "subject_matches i sub"] e
    by (auto simp: tudor_storage_adapter_def storage_QueryBySubject_def q at Let_def stub_found_def
        status_defs simp del: map_map split: if_splits)
next
  case (2 s)
  then show ?case
    using storage_FirstRecord_inv[OF 2(1)]
    by (auto simp: tudor_storage_adapter_def storage_FirstRecord_def stub_found_def srec_at_def)
next
  case (3 s r rs)
  then obtain a as where c: "result_cursor s = a # as" "r = srec_at s a" by auto
  with 3 have "a \<in> fst ` set (records s)" "result_records s \<noteq> []"
    by (auto simp: store_inv_def res_inv_def)
  then obtain t where t: "map_of (records s) a = Some t"
    by (metis map_of_eq_None_iff not_Some_eq)
  with c \<open>result_records s \<noteq> []\<close> 3 show ?case
    by (auto simp: tudor_storage_adapter_def storage_GetCurrentRecord_def srec_at_def srec_of_def)
next
  case (4 s r rs)
  then obtain a as where c: "result_cursor s = a # as" "rs = map (srec_at s) as" by auto
  with 4 have ne: "result_records s \<noteq> []" by (auto simp: store_inv_def res_inv_def)
  have inv: "store_inv (snd (storage_NextRecord s))" using 4(1) by (rule storage_NextRecord_inv)
  show ?case
  proof (cases as)
    case Nil
    with c ne inv show ?thesis
      by (auto simp: tudor_storage_adapter_def storage_NextRecord_def status_defs)
  next
    case (Cons b bs)
    with c ne inv show ?thesis
      by (auto simp: tudor_storage_adapter_def storage_NextRecord_def stub_found_def srec_at_def)
  qed
next
  case (5 s r)
  then show ?case by (auto simp: srec_at_def srec_of_def)
next
  case (6 s i sub)
  have res: "res_inv s" using 6(1) by (simp add: store_inv_def)
  note spec = wipe_device[OF res, of "subject_matches i sub"]
  have inv: "store_inv (fst (wipe_loop (subject_matches i sub) (records s) s 0))"
    using 6(1) by (rule wipe_loop_inv)
  have none: "filter (subject_matches i sub)
      (map snd (filter (\<lambda>(_, r). \<not> subject_matches i sub r) (records s))) = []"
    by (auto simp: filter_empty_conv)
  show ?case
    using 6(2) spec inv none
    by (auto simp: tudor_storage_adapter_def storage_DeleteRecord_def stub_found_def status_defs
        filter_empty_conv split: if_splits)
qed

section \<open>Properties\<close>

text \<open>
  C10: On a well-formed device, \<open>tudor_enumerate_records\<close> through the host's own storage adapter
  returns, calls back once per record of the GUID and finger asked for (all GUIDs when NULL, all
  fingers for 0xff), in list order, returns their number, and leaves the set of records as it is.
\<close>

theorem enumerate_records_exact:
  assumes "store_inv dev"
  shows "let ms = filter (subject_matches (query_identity g) (ucast f)) (device_records dev) in
    \<exists>dev'. tudor_enumerate_records tudor_storage_adapter dev g f =
      Some (Inr (length ms,
        map (\<lambda>r. (TemplateGuid (rec_identity r), ucast (ucast (rec_finger r) :: byte))) ms, dev')) \<and>
    store_inv dev' \<and> (\<forall>i sub. stub_found i sub dev' = stub_found i sub dev)"
proof -
  let ?ms = "filter (subject_matches (query_identity g) (ucast f)) (device_records dev)"
  obtain dev' where d: "tudor_enumerate_records tudor_storage_adapter dev g f =
      Some (Inr (length (stub_found (query_identity g) (ucast f) dev),
        map stub.callback_of (stub_found (query_identity g) (ucast f) dev), dev'))"
    "store_inv dev'" "\<forall>i sub. stub_found i sub dev' = stub_found i sub dev"
    using stub.enumerate_found[OF assms(1)] by blast
  have "map stub.callback_of (stub_found (query_identity g) (ucast f) dev) =
      map (\<lambda>r. (TemplateGuid (rec_identity r), ucast (ucast (rec_finger r) :: byte))) ?ms"
    by (simp add: stub_found_def stub.callback_of_def srec_of_def)
  moreover have "length (stub_found (query_identity g) (ucast f) dev) = length ?ms"
    by (simp add: stub_found_def)
  ultimately show ?thesis using d by (auto simp: Let_def)
qed

definition one_record_device :: "guid \<Rightarrow> u32 \<Rightarrow> byte list \<Rightarrow> tudor_device" where
  "one_record_device g f d = push_record
     \<lparr>rec_identity = guid_identity g, rec_guid = g, rec_finger = f, rec_data = d\<rparr> fresh_device"

lemma one_record_inv: "store_inv (one_record_device g f d)"
  unfolding one_record_device_def store_inv_def
  using store_inv_fresh
  by (auto simp: store_inv_def rec_key_def fresh_device_def intro!: res_inv_push key_inv_push)

lemma enumerate_records_exact_witness:
  "store_inv (one_record_device zero_guid 7 [1, 2]) \<and>
   (\<exists>dev'. tudor_enumerate_records tudor_storage_adapter (one_record_device zero_guid 7 [1, 2])
      (Some zero_guid) 0xff = Some (Inr (1, [(zero_guid, 7)], dev')))"
proof -
  have "filter (subject_matches (query_identity (Some zero_guid)) (ucast (0xff :: u32)))
      (device_records (one_record_device zero_guid 7 [1, 2])) =
    [\<lparr>rec_identity = guid_identity zero_guid, rec_guid = zero_guid, rec_finger = 7,
      rec_data = [1, 2]\<rparr>]"
    by (simp add: one_record_device_def push_record_def fresh_device_def subject_matches_def
        query_identity_def guid_identity_def status_defs)
  then show ?thesis
    using enumerate_records_exact[OF one_record_inv[of zero_guid 7 "[1, 2]"], of "Some zero_guid" "0xff"]
      one_record_inv by (auto simp: guid_identity_def Let_def)
qed

text \<open>
  With the DLL's storage, for every adapter that keeps the cursor and deletion contract,
  \<open>tudor_wipe_records\<close> returns the number of records that matched, afterwards none of them is
  found, and the host's own record list is not touched.
\<close>

theorem wipe_through_dll_adapter:
  assumes "storage_store sif ok found chain pending" and "ok s" and "use_dll_storage dev"
  shows "\<exists>s'. tudor_wipe_records sif (dev, s) g f =
      Some (Inr (length (found (query_identity g) (ucast f) s), dev, s')) \<and>
    ok s' \<and> found (query_identity g) (ucast f) s' = []"
  using assms by (rule storage_store.wipe_through_adapter)

lemma wipe_through_dll_adapter_witness:
  "\<exists>s'. tudor_wipe_records tudor_storage_adapter
      (fresh_device\<lparr>use_dll_storage := True\<rparr>, one_record_device zero_guid 7 [1, 2])
      (Some zero_guid) 7 = Some (Inr (1, fresh_device\<lparr>use_dll_storage := True\<rparr>, s')) \<and>
    stub_found (query_identity (Some zero_guid)) 7 s' = []"
proof -
  have "length (stub_found (query_identity (Some zero_guid)) 7
      (one_record_device zero_guid 7 [1, 2])) = 1"
    by (simp add: one_record_device_def push_record_def fresh_device_def subject_matches_def
        query_identity_def guid_identity_def status_defs stub_found_def)
  then show ?thesis
    using wipe_through_dll_adapter[OF stub.storage_store_axioms one_record_inv[of zero_guid 7 "[1, 2]"],
        of "fresh_device\<lparr>use_dll_storage := True\<rparr>" "Some zero_guid" 7]
    by auto
qed

end
