(* ===== verification/Pe_Image.thy ===== *)
theory Pe_Image
  imports Prelude
begin

text \<open>
  The PE parser of \<open>libtudor/src/pe\<close>: the on-disk structures of \<open>spec.h\<close>, the header parsers,
  the section table and the memory view of an image (\<open>pe_peek_mem_*\<close>, \<open>pe_copy_mem\<close>,
  \<open>pe_copy_mem_string\<close>).  A parse step returns \<open>Inr (ok, pe)\<close>, where \<open>ok = False\<close> is the
  C function's \<open>return false\<close> with whatever it had stored so far, and \<open>Inl Fault\<close> where the C code
  has undefined behaviour.  Allocations are taken to succeed.
\<close>

section \<open>Parsed image (\<open>pe.h\<close>)\<close>

record pe_data_dir =
  dir_offset :: u32
  dir_size :: u32
  dir_data :: "byte list"

record pe_section =
  sec_name :: "byte list"
  file_off :: u32
  mem_off :: u32
  file_size :: u32
  mem_size :: u32
  sec_flags :: u32

record pe_import =
  imp_ord :: int
  imp_name :: "byte list option"
  addr_off :: int

record pe_import_lib =
  lib_name :: "byte list"
  lib_imports :: "pe_import list"

record pe_export =
  exp_ord :: int
  exp_offset :: u32
  exp_name :: "byte list option"
  forwarder :: "byte list option"

record pe_reloc =
  addr_bits :: int
  rel_offset :: u32
  rel_delta :: u64

text \<open>
  \<open>num_import_libs\<close>, \<open>num_sects\<close> and so on are the C counters.  The array next to each counter is
  the list of the elements written so far; an array access past the list reads uninitialised or
  unallocated memory.
\<close>

record pe_file =
  pe_data :: "byte list"
  pe_size :: int
  coff_header_off :: int
  opt_header_off :: int
  opt_header_size :: int
  is_pe32_plus :: bool
  sect_align :: int
  file_align :: int
  image_size :: u32
  machine :: u16
  pe_flags :: u16
  dll_flags :: u16
  desired_base :: u64
  entry_point_off :: u32
  subsystem :: int
  ver_major :: int
  ver_minor :: int
  linker_ver_major :: int
  linker_ver_minor :: int
  os_ver_major :: int
  os_ver_minor :: int
  subsys_ver_major :: int
  subsys_ver_minor :: int
  data_dirs_off :: int
  num_data_dirs :: int
  data_dirs :: "pe_data_dir list"
  sects_off :: int
  num_sects :: nat
  sections :: "pe_section list"
  num_import_libs :: nat
  import_libs :: "pe_import_lib list"
  export_lib_name :: "byte list option"
  num_exports :: int
  exports :: "pe_export list"
  num_relocs :: nat
  relocations :: "pe_reloc list"

text \<open>\<open>pe_parse\<close> starts from a zeroed structure; \<open>size\<close> is a \<open>uint32_t\<close> passed as an \<open>int\<close>.\<close>

definition pe_init :: "byte list \<Rightarrow> pe_file" where
  "pe_init d = \<lparr> pe_data = d, pe_size = sint (word_of_nat (length d) :: u32),
     coff_header_off = 0, opt_header_off = 0, opt_header_size = 0, is_pe32_plus = False,
     sect_align = 0, file_align = 0, image_size = 0, machine = 0, pe_flags = 0, dll_flags = 0,
     desired_base = 0, entry_point_off = 0, subsystem = 0, ver_major = 0, ver_minor = 0,
     linker_ver_major = 0, linker_ver_minor = 0, os_ver_major = 0, os_ver_minor = 0,
     subsys_ver_major = 0, subsys_ver_minor = 0, data_dirs_off = 0, num_data_dirs = 0,
     data_dirs = [], sects_off = 0, num_sects = 0, sections = [], num_import_libs = 0,
     import_libs = [], export_lib_name = None, num_exports = 0, exports = [], num_relocs = 0,
     relocations = [] \<rparr>"

type_synonym parse_step = "pe_file \<Rightarrow> (bool \<times> pe_file) result"

section \<open>Headers\<close>

definition pe_parse_dos_header :: parse_step where
  "pe_parse_dos_header pe =
     (if pe_size pe < 64 then Inr (False, pe)
      else res_bind (struct_at (pe_data pe) 0 64) (\<lambda>h.
        if (fld h 0 2 :: u16) \<noteq> 0x5a4d then Inr (False, pe)
        else Inr (True, pe\<lparr>coff_header_off := sint (fld h 0x3c 4 :: u32)\<rparr>)))"

definition PE_FLAG_NO_RELOC :: u16 where "PE_FLAG_NO_RELOC = 0x0001"
definition PE_FLAG_EXECUTABLE :: u16 where "PE_FLAG_EXECUTABLE = 0x0002"
definition PE_FLAG_REVERSED_LE :: u16 where "PE_FLAG_REVERSED_LE = 0x0080"
definition PE_FLAG_BE :: u16 where "PE_FLAG_BE = 0x8000"
definition PE_DLL_FLAG_DYNAMIC :: u16 where "PE_DLL_FLAG_DYNAMIC = 0x0040"
definition PE_MACHINE_x86_64 :: u16 where "PE_MACHINE_x86_64 = 0x8664"

lemmas pe_flag_defs =
  PE_FLAG_NO_RELOC_def PE_FLAG_EXECUTABLE_def PE_FLAG_REVERSED_LE_def PE_FLAG_BE_def
  PE_DLL_FLAG_DYNAMIC_def PE_MACHINE_x86_64_def

text \<open>\<open>struct PEs_coff_header\<close> has 24 bytes.\<close>

definition pe_parse_coff_header :: parse_step where
  "pe_parse_coff_header pe =
     (if coff_header_off pe < 64 \<or> pe_size pe < coff_header_off pe + 24 then Inr (False, pe)
      else res_bind (struct_at (pe_data pe) (nat (coff_header_off pe)) 24) (\<lambda>h.
        if (fld h 0 4 :: u32) \<noteq> 0x00004550 then Inr (False, pe)
        else
          let opt_off = coff_header_off pe + 24;
              opt_size = uint (fld h 20 2 :: u16);
              pe' = pe\<lparr>machine := fld h 4 2, pe_flags := fld h 22 2,
                       opt_header_off := opt_off, opt_header_size := opt_size,
                       sects_off := opt_off + opt_size,
                       num_sects := unat (fld h 6 2 :: u16)\<rparr>
          in if pe_flags pe' AND PE_FLAG_EXECUTABLE = 0 then Inr (False, pe')
             else if pe_flags pe' AND PE_FLAG_NO_RELOC \<noteq> 0 then Inr (False, pe')
             else if pe_flags pe' AND PE_FLAG_REVERSED_LE \<noteq> 0 \<or> pe_flags pe' AND PE_FLAG_BE \<noteq> 0
             then Inr (False, pe')
             else Inr (True, pe')))"

text \<open>
  Both variants of the optional header are read through the union \<open>struct PEs_opt_header\<close>, whose
  size is that of the PE32+ variant: 112 bytes.  The directory table is taken to start 112 bytes
  after the header for PE32 images as well.
\<close>

definition opt_header_common :: "byte list \<Rightarrow> pe_file \<Rightarrow> pe_file" where
  "opt_header_common h pe = pe\<lparr>
     sect_align := sint (fld h 32 4 :: u32), file_align := sint (fld h 36 4 :: u32),
     image_size := fld h 56 4,
     dll_flags := fld h 70 2, entry_point_off := fld h 16 4,
     subsystem := uint (fld h 68 2 :: u16),
     ver_major := uint (fld h 44 2 :: u16), ver_minor := uint (fld h 46 2 :: u16),
     linker_ver_major := uint (fld h 2 1 :: byte), linker_ver_minor := uint (fld h 3 1 :: byte),
     os_ver_major := uint (fld h 40 2 :: u16), os_ver_minor := uint (fld h 42 2 :: u16),
     subsys_ver_major := uint (fld h 48 2 :: u16), subsys_ver_minor := uint (fld h 50 2 :: u16),
     data_dirs_off := opt_header_off pe + 112\<rparr>"

definition pe_parse_opt_header :: parse_step where
  "pe_parse_opt_header pe =
     (if opt_header_size pe \<le> 0 then Inr (False, pe)
      else if opt_header_size pe < 112 then Inr (False, pe)
      else if pe_size pe < opt_header_off pe + opt_header_size pe then Inr (False, pe)
      else res_bind (struct_at (pe_data pe) (nat (opt_header_off pe)) 112) (\<lambda>h.
        let magic = fld h 0 2 :: u16 in
        if magic \<noteq> 0x010b \<and> magic \<noteq> 0x020b then Inr (False, pe)
        else
          let pe1 = pe\<lparr>is_pe32_plus := (magic = 0x020b)\<rparr>;
              pe2 = opt_header_common h pe1;
              pe3 = (if is_pe32_plus pe2
                     then pe2\<lparr>desired_base := fld h 24 8,
                              num_data_dirs := sint (fld h 108 4 :: u32)\<rparr>
                     else pe2\<lparr>desired_base := ucast (fld h 28 4 :: u32),
                              num_data_dirs := sint (fld h 92 4 :: u32)\<rparr>)
          in Inr (dll_flags pe3 AND PE_DLL_FLAG_DYNAMIC \<noteq> 0, pe3)))"

section \<open>Section table\<close>

text \<open>\<open>strncpy (dst, src, 8)\<close>: up to the first NUL, padded with NULs.\<close>

definition strncpy8 :: "byte list \<Rightarrow> byte list" where
  "strncpy8 s = (let t = takeWhile (\<lambda>b. b \<noteq> 0) (take 8 s) in t @ replicate (8 - length t) 0)"

definition read_section :: "byte list \<Rightarrow> pe_section" where
  "read_section h = \<lparr> sec_name = strncpy8 (take 8 h),
     file_off = fld h 20 4, mem_off = fld h 12 4,
     file_size = fld h 16 4, mem_size = fld h 8 4, sec_flags = fld h 36 4 \<rparr>"

text \<open>
  The checks of one section table entry.  The sums wrap at 32 bits; the alignments are
  \<open>int\<close> fields taken as unsigned divisors, and a zero divisor is undefined behaviour.
\<close>

definition section_check :: "pe_file \<Rightarrow> pe_section \<Rightarrow> bool result" where
  "section_check pe sec =
     (if file_off sec + file_size sec > word_of_int (pe_size pe) then Inr False
      else if mem_off sec + mem_size sec > image_size pe then Inr False
      else if (word_of_int (file_align pe) :: u32) = 0 then Inl Fault
      else if file_off sec mod word_of_int (file_align pe) \<noteq> 0 then Inr False
      else if (word_of_int (sect_align pe) :: u32) = 0 then Inl Fault
      else Inr (mem_off sec mod word_of_int (sect_align pe) = 0))"

fun parse_section_loop :: "nat \<Rightarrow> nat \<Rightarrow> parse_step" where
  "parse_section_loop 0 i pe = Inr (True, pe)"
| "parse_section_loop (Suc n) i pe =
     res_bind (struct_at (pe_data pe) (nat (sects_off pe) + i * 40) 40) (\<lambda>h.
       let sec = read_section h; pe' = pe\<lparr>sections := sections pe @ [sec]\<rparr> in
       res_bind (section_check pe' sec) (\<lambda>ok.
         if ok then parse_section_loop n (Suc i) pe' else Inr (False, pe')))"

definition pe_parse_sections :: parse_step where
  "pe_parse_sections pe =
     (if pe_size pe < sects_off pe + int (num_sects pe) * 40 then Inr (False, pe)
      else parse_section_loop (num_sects pe) 0 (pe\<lparr>sections := []\<rparr>))"

section \<open>Memory view\<close>

text \<open>
  One byte: the first section that contains the offset decides.  The index into the file is a
  \<open>uint32_t\<close> sum.  The loop runs \<open>num_sects\<close> times whatever the section array holds.
\<close>

definition in_section :: "u32 \<Rightarrow> pe_section \<Rightarrow> bool" where
  "in_section off sec \<longleftrightarrow> \<not> (off < mem_off sec \<or> mem_off sec + mem_size sec \<le> off)"

definition section_byte :: "byte list \<Rightarrow> pe_section \<Rightarrow> u32 \<Rightarrow> byte result" where
  "section_byte d sec off =
     (let sec_off = off - mem_off sec in
      if file_size sec \<le> sec_off then Inr 0
      else let i = unat (file_off sec + sec_off) in
           if i < length d then Inr (d ! i) else Inl Fault)"

fun peek_loop :: "byte list \<Rightarrow> u32 \<Rightarrow> nat \<Rightarrow> pe_section list \<Rightarrow> byte result" where
  "peek_loop d off 0 secs = Inr 0"
| "peek_loop d off (Suc n) [] = Inl Fault"
| "peek_loop d off (Suc n) (sec # secs) =
     (if in_section off sec then section_byte d sec off else peek_loop d off n secs)"

definition pe_peek_mem_i8 :: "pe_file \<Rightarrow> u32 \<Rightarrow> byte result" where
  "pe_peek_mem_i8 pe off = peek_loop (pe_data pe) off (num_sects pe) (sections pe)"

text \<open>
  A range: each section in turn copies its part over the zeroed buffer, so of two overlapping
  sections the last wins.  Here the file position is pointer arithmetic, which does not wrap.
\<close>

definition copy_section ::
    "byte list \<Rightarrow> pe_section \<Rightarrow> u32 \<Rightarrow> u32 \<Rightarrow> byte list \<Rightarrow> byte list result" where
  "copy_section d sec off sz buf =
     (let start_off = (if off < mem_off sec then mem_off sec else off);
          end_off = (if mem_off sec + mem_size sec < off + sz
                     then mem_off sec + mem_size sec else off + sz)
      in if start_off \<ge> end_off then Inr buf
         else
           let buf_off = start_off - off;
               e1 = mem_off sec + file_size sec;
               e2 = (if e1 < start_off then start_off else e1);
               copy_end_off = (if end_off < e2 then end_off else e2);
               copy_off = start_off - mem_off sec;
               copy_size = copy_end_off - start_off
           in if copy_size = 0 then Inr buf
              else if unat buf_off + unat copy_size > length buf then Inl Fault
              else res_bind (struct_at d (unat (file_off sec) + unat copy_off) (unat copy_size))
                     (\<lambda>src. Inr (splice buf (unat buf_off) src)))"

fun copy_loop ::
    "byte list \<Rightarrow> u32 \<Rightarrow> u32 \<Rightarrow> nat \<Rightarrow> pe_section list \<Rightarrow> byte list \<Rightarrow> byte list result" where
  "copy_loop d off sz 0 secs buf = Inr buf"
| "copy_loop d off sz (Suc n) [] buf = Inl Fault"
| "copy_loop d off sz (Suc n) (sec # secs) buf =
     res_bind (copy_section d sec off sz buf) (\<lambda>buf'. copy_loop d off sz n secs buf')"

definition pe_copy_mem :: "pe_file \<Rightarrow> u32 \<Rightarrow> u32 \<Rightarrow> byte list result" where
  "pe_copy_mem pe off sz =
     copy_loop (pe_data pe) off sz (num_sects pe) (sections pe) (replicate (unat sz) 0)"

definition pe_peek_mem_i16 :: "pe_file \<Rightarrow> u32 \<Rightarrow> u16 result" where
  "pe_peek_mem_i16 pe off = res_bind (pe_copy_mem pe off 2) (\<lambda>bs. Inr (le_word bs))"

definition pe_peek_mem_i32 :: "pe_file \<Rightarrow> u32 \<Rightarrow> u32 result" where
  "pe_peek_mem_i32 pe off = res_bind (pe_copy_mem pe off 4) (\<lambda>bs. Inr (le_word bs))"

definition pe_peek_mem_i64 :: "pe_file \<Rightarrow> u32 \<Rightarrow> u64 result" where
  "pe_peek_mem_i64 pe off = res_bind (pe_copy_mem pe off 8) (\<lambda>bs. Inr (le_word bs))"

text \<open>The last byte of the address space lies in no section: its successor is 0.\<close>

lemma in_section_Suc: "in_section off sec \<Longrightarrow> Suc (unat off) < 2 ^ 32"
proof -
  assume "in_section off sec"
  then have "off < mem_off sec + mem_size sec" by (auto simp: in_section_def)
  then have "unat off < unat (mem_off sec + mem_size sec)" by (simp add: word_less_nat_alt)
  then show ?thesis
    using unsigned_less[of "mem_off sec + mem_size sec", where ?'a = nat] by simp
qed

lemma peek_loop_nonzero:
  "peek_loop d off n secs = Inr b \<Longrightarrow> b \<noteq> 0 \<Longrightarrow> Suc (unat off) < 2 ^ 32"
proof (induction d off n secs rule: peek_loop.induct)
  case (3 d off n sec secs)
  then show ?case
  proof (cases "in_section off sec")
    case True
    then show ?thesis by (rule in_section_Suc)
  next
    case False
    with 3 show ?thesis by simp
  qed
qed simp_all

lemma unat_plus_one32: "Suc (unat (w :: u32)) < 2 ^ 32 \<Longrightarrow> unat (w + 1) = Suc (unat w)"
  by (simp add: unat_word_ariths)

text \<open>
  The length loop of \<open>pe_copy_mem_string\<close>.  \<open>len\<close> is an \<open>int\<close>; the increment, and the \<open>+ 1\<close> for
  the terminator, overflow at \<open>2 ^ 31 - 1\<close>.
\<close>

function str_len_loop :: "pe_file \<Rightarrow> u32 \<Rightarrow> int \<Rightarrow> int result" where
  "str_len_loop pe off len =
     res_bind (pe_peek_mem_i8 pe off) (\<lambda>b.
       if b = 0 then Inr len
       else if len \<ge> 0x7fffffff then Inl Fault
       else str_len_loop pe (off + 1) (len + 1))"
  by pat_completeness auto
termination
proof (relation "measure (\<lambda>(pe, off, len). 2 ^ 32 - unat off)", goal_cases)
  case 1
  show ?case by simp
next
  case (2 pe off len b)
  from 2(1,2) have "Suc (unat off) < 2 ^ 32"
    unfolding pe_peek_mem_i8_def by (rule peek_loop_nonzero)
  then show ?case by (simp add: unat_plus_one32)
qed

declare str_len_loop.simps [simp del]

definition pe_copy_mem_string :: "pe_file \<Rightarrow> u32 \<Rightarrow> byte list result" where
  "pe_copy_mem_string pe off =
     res_bind (str_len_loop pe off 0) (\<lambda>len.
       if len \<ge> 0x7fffffff then Inl Fault
       else pe_copy_mem pe off (word_of_int (len + 1)))"


section \<open>Reads stay inside the file\<close>

text \<open>A section whose raw data lies in the file, read without 32-bit wrap-around.\<close>

definition raw_in_file :: "byte list \<Rightarrow> pe_section \<Rightarrow> bool" where
  "raw_in_file d sec \<longleftrightarrow> unat (file_off sec) + unat (file_size sec) \<le> length d"

text \<open>The section table is complete and every entry's raw data lies in the file.\<close>

definition sections_ok :: "pe_file \<Rightarrow> bool" where
  "sections_ok pe \<longleftrightarrow>
     length (sections pe) = num_sects pe \<and> (\<forall>sec \<in> set (sections pe). raw_in_file (pe_data pe) sec)"

lemma unat_add_le: "unat (a + b) \<le> unat a + unat (b :: 'a::len word)"
  by (simp add: unat_word_ariths)

lemma unat_add_nowrap:
  "unat a + unat (b :: u32) < 2 ^ 32 \<Longrightarrow> unat (a + b) = unat a + unat b"
  by (simp add: unat_word_ariths)

lemma unat_sub_le: "b \<le> (a :: u32) \<Longrightarrow> unat (a - b) = unat a - unat b"
  by (simp add: unat_sub)

lemma section_byte_safe:
  assumes "raw_in_file d sec"
  shows "\<exists>b. section_byte d sec off = Inr b"
proof (cases "file_size sec \<le> off - mem_off sec")
  case True
  then show ?thesis by (simp add: section_byte_def)
next
  case False
  then have "unat (off - mem_off sec) < unat (file_size sec)"
    by (simp add: word_le_nat_alt)
  then have "unat (file_off sec + (off - mem_off sec)) < length d"
    using assms unat_add_le[of "file_off sec" "off - mem_off sec"] by (simp add: raw_in_file_def)
  then show ?thesis by (simp add: section_byte_def Let_def)
qed

lemma peek_loop_safe:
  "n \<le> length secs \<Longrightarrow> \<forall>sec \<in> set secs. raw_in_file d sec \<Longrightarrow> \<exists>b. peek_loop d off n secs = Inr b"
  by (induction d off n secs rule: peek_loop.induct) (auto intro: section_byte_safe)

lemma peek_i8_safe: "sections_ok pe \<Longrightarrow> \<exists>b. pe_peek_mem_i8 pe off = Inr b"
  by (simp add: pe_peek_mem_i8_def sections_ok_def peek_loop_safe)

text \<open>
  The arithmetic of one section's copy, in unbounded integers: with \<open>s\<close>, \<open>e\<close> the overlap of the
  range with the section and \<open>c\<close> the end of the copied part, the destination lies in the buffer
  whatever wraps.
\<close>

lemma copy_section_ranges:
  fixes off sz m ms fs :: u32
  defines "start_off \<equiv> (if off < m then m else off)"
    and "end_off \<equiv> (if m + ms < off + sz then m + ms else off + sz)"
  defines "e2 \<equiv> (if m + fs < start_off then start_off else m + fs)"
  defines "copy_end \<equiv> (if end_off < e2 then end_off else e2)"
  assumes "start_off < end_off"
  shows "unat (start_off - off) + unat (copy_end - start_off) \<le> unat sz"
    and "unat (start_off - m) + unat (copy_end - start_off) \<le> unat fs \<or> copy_end = start_off"
    and "off \<le> start_off" and "m \<le> start_off" and "start_off \<le> copy_end" and "copy_end \<le> end_off"
proof -
  show o: "off \<le> start_off" by (auto simp: start_off_def)
  show ms: "m \<le> start_off" by (auto simp: start_off_def)
  show sc: "start_off \<le> copy_end" using assms(5) by (auto simp: copy_end_def e2_def)
  show ce: "copy_end \<le> end_off" by (auto simp: copy_end_def)
  have "end_off \<le> off + sz" by (auto simp: end_off_def)
  with o ce assms(5) have le: "copy_end \<le> off + sz" "off \<le> off + sz" by auto
  have "unat (off + sz) \<le> unat off + unat sz" by (rule unat_add_le)
  moreover have "unat (start_off - off) + unat (copy_end - start_off) = unat copy_end - unat off"
    using o sc by (simp add: unat_sub word_le_nat_alt)
  ultimately show "unat (start_off - off) + unat (copy_end - start_off) \<le> unat sz"
    using le by (simp add: word_le_nat_alt)
  show "unat (start_off - m) + unat (copy_end - start_off) \<le> unat fs \<or> copy_end = start_off"
  proof (cases "m + fs < start_off")
    case True
    then have "copy_end = start_off" using assms(5) by (auto simp: copy_end_def e2_def)
    then show ?thesis by simp
  next
    case False
    then have "copy_end \<le> m + fs" by (auto simp: copy_end_def e2_def)
    then have "unat copy_end \<le> unat m + unat fs"
      using unat_add_le[of m fs] by (simp add: word_le_nat_alt)
    moreover have "unat (start_off - m) + unat (copy_end - start_off) = unat copy_end - unat m"
      using ms sc by (simp add: unat_sub word_le_nat_alt)
    ultimately show ?thesis by linarith
  qed
qed

lemma copy_section_safe:
  assumes "raw_in_file d sec" and "length buf = unat sz"
  shows "\<exists>buf'. copy_section d sec off sz buf = Inr buf' \<and> length buf' = unat sz"
proof -
  define st where "st = (if off < mem_off sec then mem_off sec else off)"
  define en where "en = (if mem_off sec + mem_size sec < off + sz
                     then mem_off sec + mem_size sec else off + sz)"
  define e2 where "e2 = (if mem_off sec + file_size sec < st then st else mem_off sec + file_size sec)"
  define ce where "ce = (if en < e2 then en else e2)"
  have c: "copy_section d sec off sz buf = (if st \<ge> en then Inr buf
      else if ce - st = 0 then Inr buf
      else if unat (st - off) + unat (ce - st) > length buf then Inl Fault
      else res_bind (struct_at d (unat (file_off sec) + unat (st - mem_off sec)) (unat (ce - st)))
             (\<lambda>src. Inr (splice buf (unat (st - off)) src)))"
    unfolding copy_section_def Let_def st_def en_def e2_def ce_def by (rule refl)
  show ?thesis
  proof (cases "st < en \<and> ce - st \<noteq> 0")
    case False
    then show ?thesis using c assms(2) by auto
  next
    case True
    note r = copy_section_ranges(1,2)[where off = off and m = "mem_off sec" and
        ms = "mem_size sec" and sz = sz and fs = "file_size sec",
        folded st_def en_def, folded e2_def, folded ce_def]
    have b: "unat (st - off) + unat (ce - st) \<le> length buf" using r(1) True assms(2) by simp
    have "unat (file_off sec) + unat (st - mem_off sec) + unat (ce - st) \<le> length d"
      using r(2) True assms(1) by (auto simp: raw_in_file_def)
    then show ?thesis using c b True assms(2) by (simp add: struct_at_in_range)
  qed
qed

lemma copy_loop_safe:
  "n \<le> length secs \<Longrightarrow> \<forall>sec \<in> set secs. raw_in_file d sec \<Longrightarrow> length buf = unat sz \<Longrightarrow>
   \<exists>bs. copy_loop d off sz n secs buf = Inr bs \<and> length bs = unat sz"
proof (induction d off sz n secs buf rule: copy_loop.induct)
  case (3 d off sz n sec secs buf)
  obtain b1 where "copy_section d sec off sz buf = Inr b1" "length b1 = unat sz"
    using copy_section_safe[of d sec buf sz off] 3 by auto
  with 3 show ?case by simp
qed simp_all

lemma copy_mem_safe:
  "sections_ok pe \<Longrightarrow> \<exists>bs. pe_copy_mem pe off sz = Inr bs \<and> length bs = unat sz"
  by (simp add: pe_copy_mem_def sections_ok_def copy_loop_safe)

lemma peek_i16_safe: "sections_ok pe \<Longrightarrow> \<exists>w. pe_peek_mem_i16 pe off = Inr w"
  using copy_mem_safe[of pe off 2] by (auto simp: pe_peek_mem_i16_def)

lemma peek_i32_safe: "sections_ok pe \<Longrightarrow> \<exists>w. pe_peek_mem_i32 pe off = Inr w"
  using copy_mem_safe[of pe off 4] by (auto simp: pe_peek_mem_i32_def)

lemma peek_i64_safe: "sections_ok pe \<Longrightarrow> \<exists>w. pe_peek_mem_i64 pe off = Inr w"
  using copy_mem_safe[of pe off 8] by (auto simp: pe_peek_mem_i64_def)

lemmas peek_safe = peek_i8_safe peek_i16_safe peek_i32_safe peek_i64_safe


section \<open>Range copies and byte reads agree\<close>

text \<open>A section none of whose end addresses wraps or reaches the last byte of the address space.\<close>

definition sect_nowrap :: "pe_section \<Rightarrow> bool" where
  "sect_nowrap sec \<longleftrightarrow>
     unat (file_off sec) + unat (file_size sec) < 2 ^ 32 \<and>
     unat (mem_off sec) + unat (file_size sec) < 2 ^ 32 \<and>
     unat (mem_off sec) + unat (mem_size sec) < 2 ^ 32 - 1"

definition sect_range :: "pe_section \<Rightarrow> nat set" where
  "sect_range sec = {unat (mem_off sec) ..< unat (mem_off sec) + unat (mem_size sec)}"

fun disjoint_sections :: "pe_section list \<Rightarrow> bool" where
  "disjoint_sections [] = True"
| "disjoint_sections (s # ss) \<longleftrightarrow>
     (\<forall>t \<in> set ss. sect_range s \<inter> sect_range t = {}) \<and> disjoint_sections ss"

text \<open>The file position that backs address \<open>a\<close> in a section, and the byte it gives.\<close>

definition backed :: "pe_section \<Rightarrow> nat \<Rightarrow> bool" where
  "backed sec a \<longleftrightarrow> a \<in> sect_range sec \<and> a - unat (mem_off sec) < unat (file_size sec)"

definition backing :: "byte list \<Rightarrow> pe_section \<Rightarrow> nat \<Rightarrow> byte" where
  "backing d sec a = d ! (unat (file_off sec) + (a - unat (mem_off sec)))"

lemma in_section_iff:
  assumes "sect_nowrap sec"
  shows "in_section off sec \<longleftrightarrow> unat off \<in> sect_range sec"
proof -
  have "unat (mem_off sec + mem_size sec) = unat (mem_off sec) + unat (mem_size sec)"
    using assms by (intro unat_add_nowrap) (simp add: sect_nowrap_def)
  then show ?thesis by (auto simp: in_section_def sect_range_def word_le_nat_alt word_less_nat_alt)
qed

lemma section_byte_eq:
  assumes "sect_nowrap sec" and "raw_in_file d sec" and "unat off \<in> sect_range sec"
  shows "section_byte d sec off =
    Inr (if backed sec (unat off) then backing d sec (unat off) else 0)"
proof -
  have "mem_off sec \<le> off" using assms(3) by (simp add: sect_range_def word_le_nat_alt)
  then have o: "unat (off - mem_off sec) = unat off - unat (mem_off sec)" by (rule unat_sub_le)
  show ?thesis
  proof (cases "backed sec (unat off)")
    case True
    then have l: "unat off - unat (mem_off sec) < unat (file_size sec)" by (simp add: backed_def)
    then have "unat (file_off sec + (off - mem_off sec)) =
        unat (file_off sec) + (unat off - unat (mem_off sec))"
      using assms(1) o by (subst unat_add_nowrap) (auto simp: sect_nowrap_def)
    then show ?thesis
      using True l o assms(2)
      by (simp add: section_byte_def Let_def word_le_nat_alt backing_def raw_in_file_def)
  next
    case False
    then have "file_size sec \<le> off - mem_off sec"
      using o assms(3) by (simp add: backed_def word_le_nat_alt)
    with False show ?thesis by (simp add: section_byte_def)
  qed
qed

text \<open>
  The byte of an address in a section list, decided by the first section that contains it.
\<close>

fun view_byte :: "byte list \<Rightarrow> pe_section list \<Rightarrow> nat \<Rightarrow> byte" where
  "view_byte d [] a = 0"
| "view_byte d (s # ss) a =
     (if a \<in> sect_range s then (if backed s a then backing d s a else 0) else view_byte d ss a)"

lemma peek_loop_view:
  assumes "\<forall>sec \<in> set secs. sect_nowrap sec \<and> raw_in_file d sec"
  shows "peek_loop d off (length secs) secs = Inr (view_byte d secs (unat off))"
  using assms by (induction secs) (auto simp: in_section_iff section_byte_eq)

lemma copy_section_bytes:
  assumes nw: "sect_nowrap sec" and raw: "raw_in_file d sec"
    and sz: "unat off + unat sz < 2 ^ 32" and len: "length buf = unat sz"
    and cp: "copy_section d sec off sz buf = Inr buf'" and i: "i < unat sz"
  shows "buf' ! i =
    (if backed sec (unat off + i) then backing d sec (unat off + i) else buf ! i)"
proof -
  define st where "st = (if off < mem_off sec then mem_off sec else off)"
  define en where "en = (if mem_off sec + mem_size sec < off + sz
                     then mem_off sec + mem_size sec else off + sz)"
  define e2 where "e2 = (if mem_off sec + file_size sec < st then st else mem_off sec + file_size sec)"
  define ce where "ce = (if en < e2 then en else e2)"
  define m where "m = unat (mem_off sec)"
  define o1 where "o1 = unat off"
  have c: "copy_section d sec off sz buf = (if st \<ge> en then Inr buf
      else if ce - st = 0 then Inr buf
      else if unat (st - off) + unat (ce - st) > length buf then Inl Fault
      else res_bind (struct_at d (unat (file_off sec) + unat (st - mem_off sec)) (unat (ce - st)))
             (\<lambda>src. Inr (splice buf (unat (st - off)) src)))"
    unfolding copy_section_def Let_def st_def en_def e2_def ce_def by (rule refl)
  have ust: "unat st = max o1 m"
    by (auto simp: st_def o1_def m_def word_less_nat_alt max_def)
  have u1: "unat (mem_off sec + mem_size sec) = m + unat (mem_size sec)"
    "unat (mem_off sec + file_size sec) = m + unat (file_size sec)"
    "unat (off + sz) = o1 + unat sz"
    using nw sz by (simp_all add: unat_add_nowrap sect_nowrap_def m_def o1_def)
  have uen: "unat en = min (m + unat (mem_size sec)) (o1 + unat sz)"
    using u1 by (auto simp: en_def word_less_nat_alt min_def)
  have ue2: "unat e2 = max (m + unat (file_size sec)) (unat st)"
    using u1 by (auto simp: e2_def word_less_nat_alt max_def)
  have uce: "unat ce = min (unat en) (unat e2)"
    by (auto simp: ce_def word_less_nat_alt min_def)
  have bk: "backed sec (o1 + i) \<longleftrightarrow> m \<le> o1 + i \<and> o1 + i < m + unat (mem_size sec)
      \<and> o1 + i < m + unat (file_size sec)"
    by (auto simp: backed_def sect_range_def m_def)
  show ?thesis
  proof (cases "st < en \<and> ce - st \<noteq> 0")
    case False
    then have no: "en \<le> st \<or> ce - st = 0" by auto
    have "copy_section d sec off sz buf = Inr buf"
      using no unfolding c
      by (cases "en \<le> st") (simp_all only: if_True if_False simp_thms)
    then have "buf' = buf" using cp by simp
    moreover have "\<not> backed sec (o1 + i)"
    proof (cases "st < en")
      case True
      with False have "ce = st" by simp
      with uce ust uen ue2 True show ?thesis
        using bk i by (auto simp: word_less_nat_alt min_def max_def split: if_splits)
    next
      case False
      then show ?thesis
        using bk i ust uen by (auto simp: word_less_nat_alt min_def max_def split: if_splits)
    qed
    ultimately show ?thesis by (simp add: o1_def)
  next
    case True
    have lt: "unat st < unat en" using True by (simp add: word_less_nat_alt)
    have sc: "unat st \<le> unat ce" using uce ue2 lt by auto
    have so: "unat (st - off) = unat st - o1" "unat (st - mem_off sec) = unat st - m"
      "unat (ce - st) = unat ce - unat st"
      using ust sc by (simp_all add: unat_sub word_le_nat_alt o1_def m_def)
    from c cp True obtain src where
      nb: "\<not> unat (st - off) + unat (ce - st) > length buf" and
      src: "struct_at d (unat (file_off sec) + unat (st - mem_off sec)) (unat (ce - st)) = Inr src"
      and b': "buf' = splice buf (unat (st - off)) src"
      by (auto simp: res_bind_eq_Inr Inr_eq_res_bind split: if_splits)
    have ls: "length src = unat ce - unat st"
      using src so by (auto simp: struct_at_Inr_iff)
    have "buf' ! i = (if unat st - o1 \<le> i \<and> i < unat st - o1 + length src
        then src ! (i - (unat st - o1)) else buf ! i)"
      using nth_splice[of "unat (st - off)" src buf i] nb so ls i len b' by simp
    moreover have "(unat st - o1 \<le> i \<and> i < unat st - o1 + length src) \<longleftrightarrow> backed sec (o1 + i)"
      using bk i ls ust uce ue2 uen sc lt by (auto simp: min_def max_def split: if_splits)
    moreover have "src ! (i - (unat st - o1)) = backing d sec (o1 + i)"
      if "backed sec (o1 + i)" "unat st - o1 \<le> i \<and> i < unat st - o1 + length src"
    proof -
      have idx: "unat st - m + (i - (unat st - o1)) = o1 + i - m"
        using that ust bk by (auto simp: max_def split: if_splits)
      define k where "k = i - (unat st - o1)"
      have k: "k < unat ce - unat st" using that ls by (auto simp: k_def)
      have "src = take (unat ce - unat st) (drop (unat (file_off sec) + (unat st - m)) d)"
        and "unat (file_off sec) + (unat st - m) + (unat ce - unat st) \<le> length d"
        using src so by (simp_all add: struct_at_Inr_iff)
      then have "src ! k = d ! (unat (file_off sec) + (unat st - m) + k)"
        using k by simp
      then have "src ! (i - (unat st - o1)) = d ! (unat (file_off sec) + (unat st - m) + (i - (unat st - o1)))"
        by (simp only: k_def)
      also have "\<dots> = backing d sec (o1 + i)"
        using idx by (simp add: backing_def m_def add.assoc)
      finally show ?thesis .
    qed
    ultimately show ?thesis by (auto simp: o1_def)
  qed
qed


lemma backed_range: "backed sec a \<Longrightarrow> a \<in> sect_range sec"
  by (simp add: backed_def)

lemma copy_loop_bytes:
  assumes "\<forall>sec \<in> set secs. sect_nowrap sec \<and> raw_in_file d sec" and "disjoint_sections secs"
    and "unat off + unat sz < 2 ^ 32" and "length buf = unat sz"
    and "copy_loop d off sz (length secs) secs buf = Inr bs" and "i < unat sz"
  shows "bs ! i = (if \<exists>sec \<in> set secs. backed sec (unat off + i)
     then view_byte d secs (unat off + i) else buf ! i)"
  using assms
proof (induction secs arbitrary: buf)
  case Nil
  then show ?case by simp
next
  case (Cons s ss)
  let ?a = "unat off + i"
  from Cons.prems obtain b1 where cs: "copy_section d s off sz buf = Inr b1"
    and cl: "copy_loop d off sz (length ss) ss b1 = Inr bs"
    by (auto simp: res_bind_eq_Inr)
  have l1: "length b1 = unat sz"
    using copy_section_safe[of d s buf sz off] Cons.prems cs by auto
  have b1: "b1 ! i = (if backed s ?a then backing d s ?a else buf ! i)"
    using copy_section_bytes[OF _ _ _ _ cs] Cons.prems by simp
  have ih: "bs ! i = (if \<exists>sec \<in> set ss. backed sec ?a then view_byte d ss ?a else b1 ! i)"
    using Cons.IH[OF _ _ _ l1 cl] Cons.prems by simp
  show ?case
  proof (cases "?a \<in> sect_range s")
    case True
    then have "\<forall>sec \<in> set ss. \<not> backed sec ?a"
      using Cons.prems(2) by (auto dest: backed_range)
    with ih b1 True show ?thesis by simp
  next
    case False
    then have "\<not> backed s ?a" by (auto dest: backed_range)
    with ih b1 False show ?thesis by simp
  qed
qed

lemma view_byte_unbacked: "\<forall>sec \<in> set secs. \<not> backed sec a \<Longrightarrow> view_byte d secs a = 0"
  by (induction secs) auto

text \<open>The section table as the readers below need it: complete, in the file, disjoint, no wrap.\<close>

definition sections_wf :: "pe_file \<Rightarrow> bool" where
  "sections_wf pe \<longleftrightarrow> sections_ok pe \<and> disjoint_sections (sections pe) \<and>
     (\<forall>sec \<in> set (sections pe). sect_nowrap sec)"

lemma sections_wf_peek:
  "sections_wf pe \<Longrightarrow>
   pe_peek_mem_i8 pe off = Inr (view_byte (pe_data pe) (sections pe) (unat off))"
  using peek_loop_view[of "sections pe" "pe_data pe" off]
  by (auto simp: sections_wf_def sections_ok_def pe_peek_mem_i8_def)

lemma sections_wf_copy:
  assumes wf: "sections_wf pe" and sz: "unat off + unat sz < 2 ^ 32"
  shows "pe_copy_mem pe off sz =
    Inr (map (\<lambda>i. view_byte (pe_data pe) (sections pe) (unat off + i)) [0..<unat sz])"
proof -
  obtain bs where bs: "pe_copy_mem pe off sz = Inr bs" "length bs = unat sz"
    using copy_mem_safe[of pe off sz] wf by (auto simp: sections_wf_def)
  have "bs ! i = view_byte (pe_data pe) (sections pe) (unat off + i)" if "i < unat sz" for i
    using copy_loop_bytes[of "sections pe" "pe_data pe" off sz "replicate (unat sz) 0" bs i]
      bs wf sz that
    by (auto simp: sections_wf_def sections_ok_def pe_copy_mem_def view_byte_unbacked)
  then have "bs = map (\<lambda>i. view_byte (pe_data pe) (sections pe) (unat off + i)) [0..<unat sz]"
    using bs(2) by (intro nth_equalityI) auto
  with bs show ?thesis by simp
qed


section \<open>Strings\<close>

definition is_c_string :: "byte list \<Rightarrow> bool" where
  "is_c_string s \<longleftrightarrow> s \<noteq> [] \<and> last s = 0 \<and> 0 \<notin> set (butlast s)"

lemma view_byte_nonzero_range:
  "view_byte d secs a \<noteq> 0 \<Longrightarrow> \<exists>sec \<in> set secs. a \<in> sect_range sec"
  by (induction secs) (auto split: if_splits)

lemma str_len_loop_total:
  assumes wf: "sections_wf pe"
    and zero: "\<forall>a. view_byte (pe_data pe) (sections pe) a \<noteq> 0 \<longrightarrow> a < B"
    and B: "B < 2 ^ 31" and "len + int (B - unat off) < 0x7fffffff"
  shows "\<exists>k. str_len_loop pe off len = Inr (len + int k) \<and>
    (\<forall>j<k. view_byte (pe_data pe) (sections pe) (unat off + j) \<noteq> 0) \<and>
    view_byte (pe_data pe) (sections pe) (unat off + k) = 0 \<and>
    (k = 0 \<or> unat off + k \<le> B)"
  using assms(4)
proof (induction "B - unat off" arbitrary: off len rule: less_induct)
  case less
  let ?v = "view_byte (pe_data pe) (sections pe)"
  note pk = sections_wf_peek[OF wf, of off]
  show ?case
  proof (cases "?v (unat off) = 0")
    case True
    then show ?thesis using pk by (intro exI[of _ 0]) (simp add: str_len_loop.simps)
  next
    case False
    then have lt: "unat off < B" using zero by blast
    then have o1: "unat (off + 1) = Suc (unat off)" using B by (intro unat_plus_one32) simp
    have pre: "(len + 1) + int (B - unat (off + 1)) < 0x7fffffff" using less.prems lt o1 by simp
    have dec: "B - unat (off + 1) < B - unat off" using lt o1 by simp
    obtain k where k: "str_len_loop pe (off + 1) (len + 1) = Inr (len + 1 + int k)"
      "\<forall>j<k. ?v (unat (off + 1) + j) \<noteq> 0" "?v (unat (off + 1) + k) = 0"
      "k = 0 \<or> unat (off + 1) + k \<le> B"
      using less.hyps[OF dec pre] by blast
    have "str_len_loop pe off len = str_len_loop pe (off + 1) (len + 1)"
      using pk False less.prems by (subst str_len_loop.simps) simp
    moreover have "\<forall>j<Suc k. ?v (unat off + j) \<noteq> 0"
      using k(2) False o1 by (auto simp: less_Suc_eq_0_disj)
    ultimately show ?thesis
      using k o1 lt by (intro exI[of _ "Suc k"]) auto
  qed
qed

text \<open>A copy whose range wraps around touches no section.\<close>

lemma copy_section_wrapped:
  assumes "off + sz \<le> off" and "copy_section d sec off sz buf = Inr bs"
  shows "bs = buf"
proof -
  let ?st = "if off < mem_off sec then mem_off sec else off"
  let ?en = "if mem_off sec + mem_size sec < off + sz then mem_off sec + mem_size sec else off + sz"
  have "?st \<ge> ?en" using assms(1) by auto
  then show ?thesis using assms(2) by (simp add: copy_section_def)
qed

lemma copy_loop_wrapped:
  "off + sz \<le> off \<Longrightarrow> copy_loop d off sz n secs buf = Inr bs \<Longrightarrow> bs = buf"
proof (induction d off sz n secs buf rule: copy_loop.induct)
  case (3 d off sz n sec secs buf)
  then show ?case by (auto simp: res_bind_eq_Inr dest: copy_section_wrapped)
qed simp_all

lemma copy_mem_wrapped:
  "off + sz \<le> off \<Longrightarrow> pe_copy_mem pe off sz = Inr bs \<Longrightarrow> bs = replicate (unat sz) 0"
  by (auto simp: pe_copy_mem_def dest: copy_loop_wrapped)

lemma le_word_replicate_0 [simp]: "le_word (replicate n 0) = 0"
  by (simp add: le_word_def)

section \<open>Strings of a well-formed image\<close>

text \<open>A well-formed section table inside an image of less than 2 GiB.\<close>

definition image_ok :: "pe_file \<Rightarrow> bool" where
  "image_ok pe \<longleftrightarrow> sections_wf pe \<and> image_size pe < 0x7fffffff \<and>
     (\<forall>sec \<in> set (sections pe). unat (mem_off sec) + unat (mem_size sec) \<le> unat (image_size pe))"

lemma image_ok_sections: "image_ok pe \<Longrightarrow> sections_ok pe"
  by (simp add: image_ok_def sections_wf_def)

lemma copy_string_spec:
  assumes ok: "image_ok pe" and "off < 0xffffffff"
  shows "\<exists>s. pe_copy_mem_string pe off = Inr s \<and> is_c_string s \<and>
    (\<forall>i < length s. pe_peek_mem_i8 pe (off + word_of_nat i) = Inr (s ! i))"
proof -
  have wf: "sections_wf pe" and small: "image_size pe < 0x7fffffff"
    and ends: "\<forall>sec \<in> set (sections pe).
           unat (mem_off sec) + unat (mem_size sec) \<le> unat (image_size pe)"
    using ok by (simp_all add: image_ok_def)
  let ?v = "view_byte (pe_data pe) (sections pe)"
  have img: "unat (image_size pe) < 0x7fffffff" using small by (simp add: word_less_nat_alt)
  have offl: "unat off < 0xffffffff" using assms(2) by (simp add: word_less_nat_alt)
  have z: "\<forall>a. ?v a \<noteq> 0 \<longrightarrow> a < unat (image_size pe)"
  proof (intro allI impI)
    fix a assume nz: "?v a \<noteq> 0"
    obtain sec where "sec \<in> set (sections pe)" "a \<in> sect_range sec"
      using view_byte_nonzero_range[OF nz] by blast
    then show "a < unat (image_size pe)" using ends by (fastforce simp: sect_range_def)
  qed
  have "0 + int (unat (image_size pe) - unat off) < 0x7fffffff" using img by simp
  then obtain k where k: "str_len_loop pe off 0 = Inr (0 + int k)"
    "\<forall>j<k. ?v (unat off + j) \<noteq> 0" "?v (unat off + k) = 0"
    "k = 0 \<or> unat off + k \<le> unat (image_size pe)"
    using str_len_loop_total[OF wf z, of 0 off] img by auto
  have kl: "k < 0x7fffffff" "unat off + (k + 1) < 2 ^ 32" using k(4) img offl by auto
  have sz: "unat (word_of_int (int k + 1) :: u32) = k + 1"
  proof -
    have "(word_of_int (int k + 1) :: u32) = word_of_nat (k + 1)" by simp
    then show ?thesis using kl by (simp only: unat_of_nat take_bit_eq_mod) simp
  qed
  let ?s = "map (\<lambda>i. ?v (unat off + i)) [0..<k + 1]"
  have s: "pe_copy_mem_string pe off = Inr ?s"
    using k(1) kl sz sections_wf_copy[OF wf, of off "word_of_int (int k + 1)"]
    by (simp add: pe_copy_mem_string_def)
  have "is_c_string ?s" using k(2,3) by (auto simp: is_c_string_def)
  moreover have "pe_peek_mem_i8 pe (off + word_of_nat i) = Inr (?s ! i)" if "i < k + 1" for i
  proof -
    have "unat (word_of_nat i :: u32) = i" using that kl by (simp add: unat_of_nat take_bit_eq_mod)
    then have "unat (off + word_of_nat i) = unat off + i" using that kl by (simp add: unat_add_nowrap)
    then show ?thesis using that sections_wf_peek[OF wf] by (simp del: upt_Suc)
  qed
  ultimately show ?thesis using s by (intro exI[of _ ?s]) (simp del: upt_Suc)
qed

lemma below_last: "off \<noteq> 0xffffffff \<Longrightarrow> off < (0xffffffff :: u32)"
  using unsigned_less[of off, where ?'a = nat]
  by (simp add: word_less_nat_alt word_unat_eq_iff)

lemma last_byte_zero:
  "sections_ok pe \<Longrightarrow> pe_peek_mem_i8 pe 0xffffffff = Inr 0"
  using peek_loop_nonzero[of "pe_data pe" "0xffffffff" "num_sects pe" "sections pe"]
    peek_i8_safe[of pe "0xffffffff"]
  by (auto simp: pe_peek_mem_i8_def)

lemma last_byte_string:
  assumes "image_ok pe"
  shows "pe_copy_mem_string pe 0xffffffff = Inr [0]"
proof -
  have ok: "sections_ok pe" by (rule image_ok_sections[OF assms])
  obtain bs where bs: "pe_copy_mem pe 0xffffffff 1 = Inr bs"
    using copy_mem_safe[OF ok] by blast
  then have "bs = [0]" using copy_mem_wrapped[of "0xffffffff" 1 pe bs] by simp
  then show ?thesis
    using bs last_byte_zero[OF ok] by (simp add: pe_copy_mem_string_def str_len_loop.simps)
qed

lemma copy_string_total: "image_ok pe \<Longrightarrow> \<exists>s. pe_copy_mem_string pe off = Inr s \<and> is_c_string s"
proof (cases "off = 0xffffffff")
  case True
  assume "image_ok pe"
  then show ?thesis using True last_byte_string by (simp add: is_c_string_def)
next
  case False
  assume "image_ok pe"
  moreover have "off < 0xffffffff" using False by (rule below_last)
  ultimately show ?thesis using copy_string_spec by blast
qed

section \<open>The section table check\<close>

lemma section_check_True:
  assumes "section_check pe sec = Inr True" and "sect_nowrap sec"
    and "pe_size pe = int (length (pe_data pe))"
  shows "raw_in_file (pe_data pe) sec \<and>
    unat (mem_off sec) + unat (mem_size sec) \<le> unat (image_size pe)"
proof -
  have a: "file_off sec + file_size sec \<le> word_of_int (pe_size pe)"
    and b: "mem_off sec + mem_size sec \<le> image_size pe"
    using assms(1) by (auto simp: section_check_def split: if_splits)
  have "unat (word_of_int (int (length (pe_data pe))) :: u32) \<le> length (pe_data pe)"
    by (simp add: unat_of_nat take_bit_eq_mod)
  with a assms(2,3) have "unat (file_off sec) + unat (file_size sec) \<le> length (pe_data pe)"
    by (simp add: word_le_nat_alt unat_add_nowrap sect_nowrap_def)
  moreover have "unat (mem_off sec) + unat (mem_size sec) \<le> unat (image_size pe)"
    using b assms(2) by (simp add: word_le_nat_alt unat_add_nowrap sect_nowrap_def)
  ultimately show ?thesis by (simp add: raw_in_file_def)
qed

lemma section_check_cong:
  "section_check (pe\<lparr>sections := ss\<rparr>) sec = section_check pe sec"
  by (simp add: section_check_def)

lemma parse_section_loop_ok:
  assumes "parse_section_loop n i pe = Inr (True, pe')"
    and "\<forall>sec \<in> set (sections pe'). sect_nowrap sec"
    and "pe_size pe = int (length (pe_data pe))"
  shows "\<exists>new. pe' = pe\<lparr>sections := sections pe @ new\<rparr> \<and> length new = n \<and>
    (\<forall>sec \<in> set new. raw_in_file (pe_data pe) sec \<and>
       unat (mem_off sec) + unat (mem_size sec) \<le> unat (image_size pe))"
  using assms
proof (induction n arbitrary: i pe)
  case 0
  then show ?case by (intro exI[of _ "[]"]) simp
next
  case (Suc n)
  then obtain h where st: "struct_at (pe_data pe) (nat (sects_off pe) + i * 40) 40 = Inr h"
    and ck: "section_check pe (read_section h) = Inr True"
    and rest: "parse_section_loop n (Suc i) (pe\<lparr>sections := sections pe @ [read_section h]\<rparr>)
               = Inr (True, pe')"
    by (auto simp: res_bind_eq_Inr Let_def section_check_cong split: if_splits)
  obtain new where new: "pe' = pe\<lparr>sections := sections pe @ read_section h # new\<rparr>"
    "length new = n" "\<forall>sec \<in> set new. raw_in_file (pe_data pe) sec \<and>
       unat (mem_off sec) + unat (mem_size sec) \<le> unat (image_size pe)"
    using Suc.IH[OF rest] Suc.prems by auto
  moreover have "raw_in_file (pe_data pe) (read_section h) \<and>
      unat (mem_off (read_section h)) + unat (mem_size (read_section h)) \<le> unat (image_size pe)"
    using section_check_True[OF ck] new Suc.prems by auto
  ultimately show ?case by (intro exI[of _ "read_section h # new"]) auto
qed


section \<open>Properties\<close>

text \<open>
  C12: \<open>pe_parse_sections\<close>: when it accepts a table none of whose entries wraps around, the
  resulting section array is complete, every section's memory lies in the image, and no later
  read through \<open>pe_peek_mem_i8\<close> or \<open>pe_copy_mem\<close>, at any offset, leaves the file.
\<close>

theorem parse_sections_in_bounds:
  assumes "pe_parse_sections pe = Inr (True, pe')"
    and "\<forall>sec \<in> set (sections pe'). sect_nowrap sec"
    and "pe_size pe = int (length (pe_data pe))"
  shows "sections_ok pe' \<and>
    (\<forall>sec \<in> set (sections pe').
       unat (mem_off sec) + unat (mem_size sec) \<le> unat (image_size pe')) \<and>
    (\<forall>off. \<exists>b. pe_peek_mem_i8 pe' off = Inr b) \<and>
    (\<forall>off sz. \<exists>bs. pe_copy_mem pe' off sz = Inr bs \<and> length bs = unat sz)"
proof -
  have loop: "parse_section_loop (num_sects pe) 0 (pe\<lparr>sections := []\<rparr>) = Inr (True, pe')"
    using assms(1) by (auto simp: pe_parse_sections_def split: if_splits)
  obtain new where new: "pe' = pe\<lparr>sections := new\<rparr>" "length new = num_sects pe"
    "\<forall>sec \<in> set new. raw_in_file (pe_data pe) sec \<and>
       unat (mem_off sec) + unat (mem_size sec) \<le> unat (image_size pe)"
    using parse_section_loop_ok[OF loop assms(2)] assms(3) by auto
  then have "sections_ok pe'" by (simp add: sections_ok_def)
  with new show ?thesis by (auto intro: peek_i8_safe copy_mem_safe)
qed

text \<open>An image of one section of 8 raw bytes behind its own table entry.\<close>

definition sample_section_header :: "u32 \<Rightarrow> u32 \<Rightarrow> byte list" where
  "sample_section_header raw_off raw_size =
     [0x2e, 0x74, 0, 0, 0, 0, 0, 0] @ word_le 4 (0x1000 :: u32) @ word_le 4 (0x1000 :: u32) @
     word_le 4 raw_size @ word_le 4 raw_off @ replicate 12 0 @ word_le 4 (0x60000020 :: u32)"

definition sample_sections_pe :: "u32 \<Rightarrow> u32 \<Rightarrow> pe_file" where
  "sample_sections_pe raw_off raw_size =
     (pe_init (sample_section_header raw_off raw_size @ [0x68, 0x69, 0, 1, 2, 3, 4, 5]))
     \<lparr>num_sects := 1, image_size := 0x2000, file_align := 8, sect_align := 0x1000\<rparr>"

definition sample_section :: "u32 \<Rightarrow> u32 \<Rightarrow> pe_section" where
  "sample_section raw_off raw_size =
     \<lparr> sec_name = [0x2e, 0x74] @ replicate 6 0, file_off = raw_off, mem_off = 0x1000,
       file_size = raw_size, mem_size = 0x1000, sec_flags = 0x60000020 \<rparr>"


lemma sample_fields:
  "pe_size (sample_sections_pe r z) = 48" "num_sects (sample_sections_pe r z) = Suc 0"
  "sects_off (sample_sections_pe r z) = 0" "image_size (sample_sections_pe r z) = 0x2000"
  "file_align (sample_sections_pe r z) = 8" "sect_align (sample_sections_pe r z) = 0x1000"
  "sections (sample_sections_pe r z) = []"
  "pe_data (sample_sections_pe r z) = sample_section_header r z @ [0x68, 0x69, 0, 1, 2, 3, 4, 5]"
  by (simp_all add: sample_sections_pe_def pe_init_def sample_section_header_def)

lemma read_sample_section: "struct_at (pe_data (sample_sections_pe r z)) 0 40 = Inr (sample_section_header r z)"
  by (simp add: struct_at_def read_at_def sample_fields sample_section_header_def)

lemma read_sample: "read_section (sample_section_header r z) = sample_section r z"
  by (simp add: sample_section_header_def sample_section_def read_section_def fld_def strncpy8_def)

lemma sample_parse: "pe_parse_sections (sample_sections_pe r z) =
   (if r + z > 48 \<or> r mod 8 \<noteq> 0 then Inr (False, (sample_sections_pe r z)\<lparr>sections := [sample_section r z]\<rparr>)
    else Inr (True, (sample_sections_pe r z)\<lparr>sections := [sample_section r z]\<rparr>))"
  using read_sample_section[of r z]
  by (simp add: pe_parse_sections_def sample_fields read_sample section_check_def Let_def) (simp add: sample_section_def sample_fields)

abbreviation good_image :: pe_file where
  "good_image \<equiv> (sample_sections_pe 40 8)\<lparr>sections := [sample_section 40 8]\<rparr>"
abbreviation wrapping_image :: pe_file where
  "wrapping_image \<equiv> (sample_sections_pe 0xfffffe00 0x200)\<lparr>sections := [sample_section 0xfffffe00 0x200]\<rparr>"

lemma sample_data_length: "length (sample_section_header r z) = 40"
  by (simp add: sample_section_header_def)

lemma sample_section_nowrap: "sect_nowrap (sample_section 40 8)"
  by (simp add: sect_nowrap_def sample_section_def)

lemma sample_sections_wf: "sections_wf good_image"
  by (simp add: sections_wf_def sections_ok_def sample_fields sect_nowrap_def raw_in_file_def sample_section_def sample_data_length)

theorem parse_sections_in_bounds_witness:
  "sections_ok good_image"
proof -
  have "pe_parse_sections (sample_sections_pe 40 8) = Inr (True, good_image)"
    by (simp add: sample_parse)
  from parse_sections_in_bounds[OF this] show ?thesis
    by (simp add: sample_section_nowrap sample_fields sample_data_length)
qed

text \<open>
  The section table check of the code is not enough on its own: an entry whose raw data
  wraps around 32 bits (\<open>PointerToRawData = 0xfffffe00\<close>, \<open>SizeOfRawData = 0x200\<close>) is accepted,
  and reading the section's first byte, or copying its first four bytes, reads outside the file.
\<close>

theorem wrapping_section_reads_outside:
  "\<exists>pe'. pe_parse_sections (sample_sections_pe 0xfffffe00 0x200) = Inr (True, pe') \<and>
     pe_peek_mem_i8 pe' 0x1000 = Inl Fault \<and> pe_copy_mem pe' 0x1000 4 = Inl Fault"
proof -
  have "pe_peek_mem_i8 wrapping_image 0x1000 = Inl Fault"
    by (simp add: pe_peek_mem_i8_def sample_fields in_section_def section_byte_def
        sample_section_def sample_data_length Let_def)
  moreover have "pe_copy_mem wrapping_image 0x1000 4 = Inl Fault"
    by (simp add: pe_copy_mem_def sample_fields copy_section_def sample_section_def
        sample_data_length Let_def struct_at_def read_at_def)
  ultimately show ?thesis by (simp add: sample_parse)
qed

text \<open>
  C11: \<open>pe_copy_mem\<close> and \<open>pe_peek_mem_i8\<close> give the same view of a well-formed image: a range
  copy returns, byte for byte, what the single-byte reads return, with zeros between sections.
\<close>

theorem copy_mem_is_bytewise_peek:
  assumes "sections_wf pe" and "unat off + unat sz < 2 ^ 32"
  shows "\<exists>bs. pe_copy_mem pe off sz = Inr bs \<and> length bs = unat sz \<and>
    (\<forall>i < unat sz. pe_peek_mem_i8 pe (off + word_of_nat i) = Inr (bs ! i))"
proof -
  have "unat (off + word_of_nat i) = unat off + i" if "i < unat sz" for i
  proof -
    have "unat (word_of_nat i :: u32) = i" using that assms(2) by (simp add: unat_of_nat take_bit_eq_mod)
    then show ?thesis using that assms(2) by (simp add: unat_add_nowrap)
  qed
  then show ?thesis
    using sections_wf_copy[OF assms] sections_wf_peek[OF assms(1)] by simp
qed

theorem copy_mem_is_bytewise_peek_witness:
  "\<exists>bs. pe_copy_mem good_image 0x1000 4 = Inr bs
    \<and> length bs = 4"
  using copy_mem_is_bytewise_peek[OF sample_sections_wf, of "0x1000" 4] by fastforce

text \<open>
  \<open>pe_copy_mem_string\<close> on a well-formed image smaller than 2 GiB returns at every offset, and
  what it returns is a C string (one NUL, at its end) that consists of the image's bytes from
  that offset on.
\<close>

theorem copy_mem_string_total:
  assumes "image_ok pe"
  shows "\<exists>s. pe_copy_mem_string pe off = Inr s \<and> is_c_string s \<and>
    (\<forall>i < length s. pe_peek_mem_i8 pe (off + word_of_nat i) = Inr (s ! i))"
proof (cases "off = 0xffffffff")
  case True
  have "pe_peek_mem_i8 pe 0xffffffff = Inr 0"
    using last_byte_zero image_ok_sections[OF assms] by blast
  then show ?thesis
    using True last_byte_string[OF assms] by (intro exI[of _ "[0]"]) (simp add: is_c_string_def)
next
  case False
  then have "off < 0xffffffff" by (rule below_last)
  with copy_string_spec[OF assms] show ?thesis by blast
qed

lemma good_image_ok: "image_ok good_image"
  using sample_sections_wf by (simp add: image_ok_def sample_fields sample_section_def)

theorem copy_mem_string_total_witness:
  "\<exists>s. pe_copy_mem_string good_image 0x1000 = Inr s \<and> is_c_string s"
  using copy_mem_string_total[OF good_image_ok, of "0x1000"] by auto

end
