(* ===== verification/Pe_Dirs.thy ===== *)
theory Pe_Dirs
  imports Pe_Image
begin

text \<open>
  The data directories of a PE image (\<open>data_dir.c\<close>, \<open>export.c\<close>, \<open>import.c\<close>, \<open>reloc.c\<close>), the whole
  parse (\<open>pe_parse\<close>) and its clean-up (\<open>pe_destroy\<close>).  The resource, exception and TLS parsers of
  the code only log a warning and return true.
\<close>

section \<open>Exports\<close>

fun export_loop :: "nat \<Rightarrow> int \<Rightarrow> int \<Rightarrow> u32 \<Rightarrow> pe_data_dir \<Rightarrow> pe_file \<Rightarrow> pe_file result" where
  "export_loop 0 i ord_base address_table_rva dir pe = Inr pe"
| "export_loop (Suc n) i ord_base address_table_rva dir pe =
     res_bind (c_add ord_base i) (\<lambda>ord.
     res_bind (pe_peek_mem_i32 pe (address_table_rva + word_of_int (i * 4))) (\<lambda>rva.
     res_bind
       (if dir_offset dir \<le> rva \<and> rva < dir_offset dir + dir_size dir
        then res_bind (pe_copy_mem_string pe rva) (\<lambda>fwd. Inr
               \<lparr>exp_ord = ord, exp_offset = 0, exp_name = None, forwarder = Some fwd\<rparr>)
        else Inr \<lparr>exp_ord = ord, exp_offset = rva, exp_name = None, forwarder = None\<rparr>) (\<lambda>ex.
     export_loop n (i + 1) ord_base address_table_rva dir (pe\<lparr>exports := exports pe @ [ex]\<rparr>))))"

fun export_name_loop :: "nat \<Rightarrow> int \<Rightarrow> u32 \<Rightarrow> u32 \<Rightarrow> parse_step" where
  "export_name_loop 0 i name_table_rva ord_table_rva pe = Inr (True, pe)"
| "export_name_loop (Suc n) i name_table_rva ord_table_rva pe =
     res_bind (pe_peek_mem_i32 pe (name_table_rva + word_of_int (i * 4))) (\<lambda>name_rva.
     res_bind (pe_peek_mem_i16 pe (ord_table_rva + word_of_int (i * 2))) (\<lambda>idx.
     if num_exports pe \<le> uint idx then Inr (False, pe)
     else
       res_bind (pe_copy_mem_string pe name_rva) (\<lambda>name.
       export_name_loop n (i + 1) name_table_rva ord_table_rva
         (pe\<lparr>exports := (exports pe)
              [unat idx := (exports pe ! unat idx)\<lparr>exp_name := Some name\<rparr>]\<rparr>))))"

definition pe_parse_export_dir :: "pe_data_dir \<Rightarrow> parse_step" where
  "pe_parse_export_dir dir pe =
     (if dir_size dir = 0 then Inr (True, pe)
      else if dir_size dir < 40 then Inr (False, pe)
      else res_bind (struct_at (dir_data dir) 0 40) (\<lambda>h.
        let ord_base = sint (fld h 16 4 :: u32);
            n_exports = sint (fld h 20 4 :: u32);
            n_names = sint (fld h 24 4 :: u32)
        in
        res_bind (pe_copy_mem_string pe (fld h 12 4)) (\<lambda>lib.
        res_bind (export_loop (nat n_exports) 0 ord_base (fld h 28 4) dir
          (pe\<lparr>export_lib_name := Some lib, num_exports := n_exports, exports := []\<rparr>)) (\<lambda>pe'.
        export_name_loop (nat n_names) 0 (fld h 32 4) (fld h 36 4) pe'))))"

section \<open>Imports\<close>

definition import_entry_empty :: "byte list \<Rightarrow> bool" where
  "import_entry_empty e \<longleftrightarrow> (fld e 0 4 :: u32) = 0 \<and> (fld e 4 4 :: u32) = 0 \<and>
     (fld e 8 4 :: u32) = 0 \<and> (fld e 12 4 :: u32) = 0 \<and> (fld e 16 4 :: u32) = 0"

text \<open>
  The loop that counts the imported libraries: the entries before the first empty one.  The
  result carries the count, which the code has stored even when it then fails.
\<close>

function import_lib_count :: "pe_data_dir \<Rightarrow> nat \<Rightarrow> (bool \<times> nat) result" where
  "import_lib_count dir i =
     (if unat (dir_size dir) < (i + 1) * 20 then Inr (False, i)
      else res_bind (struct_at (dir_data dir) (i * 20) 20) (\<lambda>e.
        if import_entry_empty e then Inr (True, i) else import_lib_count dir (Suc i)))"
  by pat_completeness auto
termination
  by (relation "measure (\<lambda>(dir, i). Suc (unat (dir_size dir)) - i)") auto

declare import_lib_count.simps [simp del]

text \<open>
  A lookup table entry: four bytes in a PE32 image, eight in a PE32+ one.  The counting loop
  reads it in full.
\<close>

definition lookup_width :: "pe_file \<Rightarrow> u32" where
  "lookup_width pe = (if is_pe32_plus pe then 8 else 4)"

definition lookup_entry :: "pe_file \<Rightarrow> u32 \<Rightarrow> u64 result" where
  "lookup_entry pe off =
     (if is_pe32_plus pe then pe_peek_mem_i64 pe off
      else res_bind (pe_peek_mem_i32 pe off) (\<lambda>w. Inr (ucast w)))"

lemma peek_i32_nonzero: "pe_peek_mem_i32 pe off = Inr w \<Longrightarrow> w \<noteq> 0 \<Longrightarrow> off < off + 4"
  by (rule ccontr) (auto simp: pe_peek_mem_i32_def res_bind_eq_Inr not_less dest!: copy_mem_wrapped)

lemma peek_i64_nonzero: "pe_peek_mem_i64 pe off = Inr w \<Longrightarrow> w \<noteq> 0 \<Longrightarrow> off < off + 8"
  by (rule ccontr) (auto simp: pe_peek_mem_i64_def res_bind_eq_Inr not_less dest!: copy_mem_wrapped)

lemma lookup_entry_nonzero:
  "lookup_entry pe off = Inr w \<Longrightarrow> w \<noteq> 0 \<Longrightarrow> off < off + lookup_width pe"
  by (auto simp: lookup_entry_def lookup_width_def res_bind_eq_Inr peek_i64_nonzero
      split: if_splits intro: peek_i32_nonzero)

function import_count :: "pe_file \<Rightarrow> u32 \<Rightarrow> nat \<Rightarrow> nat result" where
  "import_count pe off n =
     res_bind (lookup_entry pe off) (\<lambda>w.
       if w = 0 then Inr n else import_count pe (off + lookup_width pe) (Suc n))"
  by pat_completeness auto
termination
proof (relation "measure (\<lambda>(pe, off, n). 2 ^ 32 - unat off)", goal_cases)
  case 1
  show ?case by simp
next
  case (2 pe off n w)
  then have "off < off + lookup_width pe" by (intro lookup_entry_nonzero) auto
  then have "unat off < unat (off + lookup_width pe)" by (simp add: word_less_nat_alt)
  moreover have "unat (off + lookup_width pe) < 2 ^ 32"
    using unsigned_less[of "off + lookup_width pe", where ?'a = nat] by simp
  ultimately show ?case by simp
qed

declare import_count.simps [simp del]

text \<open>
  One import.  For a PE32+ image the entry is read again with \<open>pe_peek_mem_i32\<close>, so bit 63, the
  ordinal flag, is never set in what is tested.
\<close>

definition parse_import :: "pe_file \<Rightarrow> u32 \<Rightarrow> u32 \<Rightarrow> nat \<Rightarrow> pe_import result" where
  "parse_import pe lookup_table_rva addr_table_rva i =
     (if \<not> is_pe32_plus pe then
        res_bind (pe_peek_mem_i32 pe (lookup_table_rva + word_of_nat (i * 4))) (\<lambda>bits.
        let ao = sint (addr_table_rva + word_of_nat (i * 4)) in
        if bit bits 31
        then Inr \<lparr>imp_ord = uint (bits AND 0xffff), imp_name = None, addr_off = ao\<rparr>
        else res_bind (pe_copy_mem_string pe ((bits AND 0x7fffffff) + 2)) (\<lambda>nm.
               Inr \<lparr>imp_ord = -1, imp_name = Some nm, addr_off = ao\<rparr>))
      else
        res_bind (pe_peek_mem_i32 pe (lookup_table_rva + word_of_nat (i * 8))) (\<lambda>bits32.
        let bits = ucast bits32 :: u64; ao = sint (addr_table_rva + word_of_nat (i * 8)) in
        if bit bits 63
        then Inr \<lparr>imp_ord = uint (bits AND 0xffff), imp_name = None, addr_off = ao\<rparr>
        else res_bind (pe_copy_mem_string pe (ucast ((bits AND 0x7fffffff) + 2))) (\<lambda>nm.
               Inr \<lparr>imp_ord = -1, imp_name = Some nm, addr_off = ao\<rparr>)))"

fun import_loop :: "nat \<Rightarrow> nat \<Rightarrow> pe_file \<Rightarrow> u32 \<Rightarrow> u32 \<Rightarrow> pe_import list result" where
  "import_loop 0 i pe lookup_table_rva addr_table_rva = Inr []"
| "import_loop (Suc n) i pe lookup_table_rva addr_table_rva =
     res_bind (parse_import pe lookup_table_rva addr_table_rva i) (\<lambda>imp.
     res_bind (import_loop n (Suc i) pe lookup_table_rva addr_table_rva) (\<lambda>rest.
     Inr (imp # rest)))"

definition parse_import_lib :: "pe_file \<Rightarrow> byte list \<Rightarrow> pe_import_lib result" where
  "parse_import_lib pe e =
     (let lookup_table_rva = fld e 0 4; name_rva = fld e 12 4; addr_table_rva = fld e 16 4 in
      res_bind (pe_copy_mem_string pe name_rva) (\<lambda>nm.
      res_bind (import_count pe lookup_table_rva 0) (\<lambda>n.
      res_bind (import_loop n 0 pe lookup_table_rva addr_table_rva) (\<lambda>imps.
      Inr \<lparr>lib_name = nm, lib_imports = imps\<rparr>))))"

fun import_lib_loop :: "nat \<Rightarrow> nat \<Rightarrow> pe_data_dir \<Rightarrow> pe_file \<Rightarrow> pe_file result" where
  "import_lib_loop 0 i dir pe = Inr pe"
| "import_lib_loop (Suc n) i dir pe =
     res_bind (struct_at (dir_data dir) (i * 20) 20) (\<lambda>e.
     res_bind (parse_import_lib pe e) (\<lambda>lib.
     import_lib_loop n (Suc i) dir (pe\<lparr>import_libs := import_libs pe @ [lib]\<rparr>)))"

definition pe_parse_import_dir :: "pe_data_dir \<Rightarrow> parse_step" where
  "pe_parse_import_dir dir pe =
     (if dir_size dir = 0 then Inr (True, pe)
      else res_bind (import_lib_count dir 0) (\<lambda>(ok, n).
        if \<not> ok then Inr (False, pe\<lparr>num_import_libs := n\<rparr>)
        else res_bind (import_lib_loop n 0 dir (pe\<lparr>num_import_libs := n, import_libs := []\<rparr>))
               (\<lambda>pe'. Inr (True, pe'))))"

section \<open>Relocations\<close>

text \<open>
  The number of entries of a block as the code computes it: a \<open>size_t\<close> difference, halved and
  stored in an \<open>int\<close>.
\<close>

definition block_relocs :: "u32 \<Rightarrow> int" where
  "block_relocs block_size =
     sint (word_of_int ((uint block_size - 8) mod 2 ^ 64 div 2) :: u32)"

lemma uint_ge_8: "8 \<le> (w :: u32) \<Longrightarrow> 8 \<le> uint w"
  by (simp add: word_less_eq_iff_unsigned[where ?'a = int])

lemma block_relocs_eq: "8 \<le> block_size \<Longrightarrow> block_relocs block_size = (uint block_size - 8) div 2"
proof -
  assume "8 \<le> block_size"
  then have lo: "8 \<le> uint block_size" by (rule uint_ge_8)
  have hi: "uint block_size < 2 ^ 32" using uint_lt2p[of block_size] by simp
  let ?k = "(uint block_size - 8) div 2"
  have k: "0 \<le> ?k" "?k < 2 ^ 31" using lo hi by auto
  have "(uint block_size - 8) mod 2 ^ 64 = uint block_size - 8"
    using lo hi by (intro mod_pos_pos_trivial) auto
  moreover have "sint (word_of_int ?k :: u32) = ?k"
    using k by (simp add: signed_of_int signed_take_bit_int_eq_self)
  ultimately show ?thesis by (simp add: block_relocs_def)
qed

text \<open>
  The counting loop.  The offset can wrap around, but the sum of the entries cannot: its signed
  overflow is undefined behaviour, which bounds the number of times round.
\<close>

function reloc_count_loop :: "pe_data_dir \<Rightarrow> u32 \<Rightarrow> int \<Rightarrow> (bool \<times> int) result" where
  "reloc_count_loop dir block_off cnt =
     (if \<not> block_off < dir_size dir then Inr (True, cnt)
      else if dir_size dir - block_off < 8 then Inr (False, cnt)
      else res_bind (struct_at (dir_data dir) (unat block_off) 8) (\<lambda>h.
        let block_size = fld h 4 4; n = block_relocs block_size in
        if block_size < 8 \<or> uint block_size - 8 \<noteq> n * 2 then Inr (False, cnt)
        else res_bind (c_add cnt n) (\<lambda>cnt'.
               reloc_count_loop dir (block_off + block_size) cnt')))"
  by pat_completeness auto
termination
proof (relation "measures [\<lambda>(dir, off, cnt). nat (2 ^ 31 - cnt),
    \<lambda>(dir, off, cnt). unat (dir_size dir) - unat off]", goal_cases)
  case 1
  show ?case by simp
next
  case (2 dir off cnt h bs n cnt')
  then have t: "cnt' = cnt + n" "cnt + n < 2 ^ 31"
    by (auto simp: c_add_def split: if_splits)
  have b8: "8 \<le> bs" and par: "uint bs - 8 = n * 2" using 2 by auto
  have n: "0 \<le> n" using par uint_ge_8[OF b8] by simp
  have off: "unat off + 8 \<le> unat (dir_size dir)"
    using 2(1,2) by (simp add: word_less_nat_alt unat_sub word_le_nat_alt)
  show ?case
  proof (cases "n = 0")
    case True
    then have "uint bs = 8" using par by simp
    then have bs: "bs = 8" by (simp add: word_uint_eq_iff)
    have "unat (off + bs) = unat off + 8"
      using off unsigned_less[of "dir_size dir", where ?'a = nat]
      by (simp add: bs unat_add_nowrap)
    then show ?thesis using True t off by simp
  next
    case False
    then show ?thesis using n t by simp
  qed
qed

declare reloc_count_loop.simps [simp del]

text \<open>
  A relocation is stored in the array that the counting loop sized; \<open>cap\<close> is that size.
\<close>

definition push_reloc :: "nat \<Rightarrow> u32 \<Rightarrow> u64 \<Rightarrow> pe_file \<Rightarrow> pe_file result" where
  "push_reloc cap off val pe =
     (if num_relocs pe < cap
      then Inr (pe\<lparr>relocations := relocations pe @
             [\<lparr>addr_bits = 64, rel_offset = off, rel_delta = val - desired_base pe\<rparr>],
             num_relocs := Suc (num_relocs pe)\<rparr>)
      else Inl Fault)"

definition parse_reloc :: "nat \<Rightarrow> u32 \<Rightarrow> u16 \<Rightarrow> parse_step" where
  "parse_reloc cap page_rva bits pe =
     (let off = page_rva + ucast (bits AND 0xfff); type = drop_bit 12 bits AND 0xf in
      if type = 0 then Inr (True, pe)
      else if type = 3 then
        res_bind (pe_peek_mem_i32 pe off) (\<lambda>v.
        res_bind (push_reloc cap off (ucast v) pe) (\<lambda>pe'. Inr (True, pe')))
      else if type = 10 then
        res_bind (pe_peek_mem_i64 pe off) (\<lambda>v.
        res_bind (push_reloc cap off v pe) (\<lambda>pe'. Inr (True, pe')))
      else Inr (False, pe))"

fun reloc_entry_loop :: "nat \<Rightarrow> nat \<Rightarrow> pe_data_dir \<Rightarrow> u32 \<Rightarrow> u32 \<Rightarrow> nat \<Rightarrow> parse_step" where
  "reloc_entry_loop 0 j dir block_off page_rva cap pe = Inr (True, pe)"
| "reloc_entry_loop (Suc n) j dir block_off page_rva cap pe =
     res_bind (struct_at (dir_data dir) (unat block_off + 8 + 2 * j) 2) (\<lambda>e.
     res_bind (parse_reloc cap page_rva (fld e 0 2) pe) (\<lambda>(ok, pe').
     if ok then reloc_entry_loop n (Suc j) dir block_off page_rva cap pe' else Inr (False, pe')))"

text \<open>
  The second walk.  A block of size 0, which the first walk has rejected, would make it spin for
  ever without an effect.
\<close>

function reloc_block_loop :: "pe_data_dir \<Rightarrow> nat \<Rightarrow> u32 \<Rightarrow> parse_step" where
  "reloc_block_loop dir cap block_off pe =
     (if \<not> block_off < dir_size dir then Inr (True, pe)
      else res_bind (struct_at (dir_data dir) (unat block_off) 8) (\<lambda>h.
        let block_size = fld h 4 4 in
        res_bind (reloc_entry_loop (nat (block_relocs block_size)) 0 dir block_off (fld h 0 4) cap pe)
          (\<lambda>(ok, pe').
            if \<not> ok then Inr (False, pe')
            else if block_off + block_size \<le> block_off then Inl Hang
            else reloc_block_loop dir cap (block_off + block_size) pe')))"
  by pat_completeness auto
termination
  by (relation "measure (\<lambda>(dir, cap, off, pe). unat (dir_size dir) - unat off)")
    (auto simp: word_less_nat_alt not_le)

declare reloc_block_loop.simps [simp del]

definition pe_parse_reloc_dir :: "pe_data_dir \<Rightarrow> parse_step" where
  "pe_parse_reloc_dir dir pe =
     (if dir_size dir = 0 then Inr (True, pe)
      else res_bind (reloc_count_loop dir 0 0) (\<lambda>(ok, cnt).
        if \<not> ok then Inr (False, pe)
        else reloc_block_loop dir (nat cnt) 0 (pe\<lparr>num_relocs := 0, relocations := []\<rparr>)))"

section \<open>Data directories and the whole parse\<close>

definition parse_special_dir :: "nat \<Rightarrow> pe_data_dir \<Rightarrow> parse_step" where
  "parse_special_dir i dir pe =
     (if i = 0 then pe_parse_export_dir dir pe
      else if i = 1 then pe_parse_import_dir dir pe
      else if i = 5 then pe_parse_reloc_dir dir pe
      else Inr (True, pe))"

fun data_dir_loop :: "nat \<Rightarrow> nat \<Rightarrow> parse_step" where
  "data_dir_loop 0 i pe = Inr (True, pe)"
| "data_dir_loop (Suc n) i pe =
     res_bind (struct_at (pe_data pe) (nat (data_dirs_off pe) + i * 8) 8) (\<lambda>h.
       let moff = fld h 0 4;
           msize = (if moff + fld h 4 4 > image_size pe then 0 else fld h 4 4)
       in res_bind (pe_copy_mem pe moff msize) (\<lambda>bytes.
          let dir = \<lparr>dir_offset = moff, dir_size = msize, dir_data = bytes\<rparr> in
          res_bind (parse_special_dir i dir (pe\<lparr>data_dirs := data_dirs pe @ [dir]\<rparr>)) (\<lambda>(ok, pe').
            if ok then data_dir_loop n (Suc i) pe' else Inr (False, pe'))))"

text \<open>The count check is done in \<open>size_t\<close>: a negative count is a huge one.\<close>

definition pe_parse_data_dirs :: parse_step where
  "pe_parse_data_dirs pe =
     (if (num_data_dirs pe mod 2 ^ 64) * 8 mod 2 ^ 64 > opt_header_size pe - 112 then Inr (False, pe)
      else data_dir_loop (nat (num_data_dirs pe)) 0 (pe\<lparr>data_dirs := []\<rparr>))"

definition and_then :: "parse_step \<Rightarrow> parse_step \<Rightarrow> parse_step" where
  "and_then f g pe = res_bind (f pe) (\<lambda>(ok, pe'). if ok then g pe' else Inr (False, pe'))"

definition pe_parse :: "byte list \<Rightarrow> (bool \<times> pe_file) result" where
  "pe_parse d =
     and_then pe_parse_dos_header (and_then pe_parse_coff_header (and_then pe_parse_opt_header
       (and_then pe_parse_sections pe_parse_data_dirs))) (pe_init d)"

text \<open>
  \<open>pe_destroy\<close> walks every array up to its counter, so it frees uninitialised pointers when an
  array is shorter than its counter says.  The counters keep their values.
\<close>

definition pe_destroy :: "pe_file \<Rightarrow> pe_file result" where
  "pe_destroy pe =
     (if num_data_dirs pe \<le> int (length (data_dirs pe)) \<and>
         num_import_libs pe \<le> length (import_libs pe) \<and>
         num_exports pe \<le> int (length (exports pe))
      then Inr (pe\<lparr>pe_data := [], data_dirs := [], sections := [], import_libs := [],
                   export_lib_name := None, exports := [], relocations := []\<rparr>)
      else Inl Fault)"

section \<open>Encoded relocation blocks\<close>

type_synonym reloc_block = "u32 \<times> u16 list"

definition enc_block :: "reloc_block \<Rightarrow> byte list" where
  "enc_block b = word_le 4 (fst b) @ word_le 4 (word_of_nat (8 + 2 * length (snd b)) :: u32) @
     concat (map (word_le 2) (snd b))"

definition enc_blocks :: "reloc_block list \<Rightarrow> byte list" where
  "enc_blocks bs = concat (map enc_block bs)"

text \<open>What an entry contributes; \<open>projr\<close> is the value of a read that succeeds.\<close>

definition reloc_offset :: "u32 \<Rightarrow> u16 \<Rightarrow> u32" where
  "reloc_offset page bits = page + ucast (bits AND 0xfff)"

definition reloc_type :: "u16 \<Rightarrow> u16" where
  "reloc_type bits = drop_bit 12 bits AND 0xf"

definition reloc_of :: "pe_file \<Rightarrow> u32 \<Rightarrow> u16 \<Rightarrow> pe_reloc list" where
  "reloc_of pe page bits =
     (if reloc_type bits = 3 then
        [\<lparr>addr_bits = 64, rel_offset = reloc_offset page bits,
          rel_delta = ucast (projr (pe_peek_mem_i32 pe (reloc_offset page bits))) - desired_base pe\<rparr>]
      else if reloc_type bits = 10 then
        [\<lparr>addr_bits = 64, rel_offset = reloc_offset page bits,
          rel_delta = projr (pe_peek_mem_i64 pe (reloc_offset page bits)) - desired_base pe\<rparr>]
      else [])"

definition block_reloc_list :: "pe_file \<Rightarrow> reloc_block \<Rightarrow> pe_reloc list" where
  "block_reloc_list pe b = concat (map (reloc_of pe (fst b)) (snd b))"

definition reloc_entry_ok :: "u16 \<Rightarrow> bool" where
  "reloc_entry_ok bits \<longleftrightarrow> reloc_type bits \<in> {0, 3, 10}"

lemma length_concat_word_le [simp]: "length (concat (map (word_le n) es)) = n * length es"
  by (induction es) auto

lemma length_enc_block: "length (enc_block b) = 8 + 2 * length (snd b)"
  by (simp add: enc_block_def)

lemma length_enc_blocks: "length (enc_blocks bs) = (\<Sum>b\<leftarrow>bs. 8 + 2 * length (snd b))"
  by (induction bs) (simp_all add: enc_blocks_def length_enc_block)

lemma length_reloc_of: "length (reloc_of pe page bits) \<le> 1"
  by (simp add: reloc_of_def)

lemma length_concat_reloc_of: "length (concat (map (reloc_of pe page) es)) \<le> length es"
proof (induction es)
  case (Cons e es)
  then show ?case using length_reloc_of[of pe page e] by simp
qed simp

lemma length_block_relocs: "length (block_reloc_list pe b) \<le> length (snd b)"
  by (simp add: block_reloc_list_def length_concat_reloc_of)

definition add_relocs :: "pe_file \<Rightarrow> pe_reloc list \<Rightarrow> pe_file" where
  "add_relocs pe rs = pe\<lparr>relocations := relocations pe @ rs, num_relocs := num_relocs pe + length rs\<rparr>"

lemma add_relocs_Nil [simp]: "add_relocs pe [] = pe"
  by (simp add: add_relocs_def)

lemma add_relocs_append [simp]: "add_relocs (add_relocs pe rs) ss = add_relocs pe (rs @ ss)"
  by (simp add: add_relocs_def)

lemma add_relocs_fields [simp]:
  "pe_data (add_relocs pe rs) = pe_data pe" "num_sects (add_relocs pe rs) = num_sects pe"
  "sections (add_relocs pe rs) = sections pe" "desired_base (add_relocs pe rs) = desired_base pe"
  "num_relocs (add_relocs pe rs) = num_relocs pe + length rs"
  by (simp_all add: add_relocs_def)

lemma peek_add_relocs [simp]:
  "pe_peek_mem_i32 (add_relocs pe rs) off = pe_peek_mem_i32 pe off"
  "pe_peek_mem_i64 (add_relocs pe rs) off = pe_peek_mem_i64 pe off"
  by (simp_all add: pe_peek_mem_i32_def pe_peek_mem_i64_def pe_copy_mem_def)

lemma reloc_of_add_relocs [simp]: "reloc_of (add_relocs pe rs) = reloc_of pe"
  by (simp add: fun_eq_iff reloc_of_def)

lemma block_relocs_add_relocs [simp]:
  "block_reloc_list (add_relocs pe rs) = block_reloc_list pe"
  "sections_ok (add_relocs pe rs) = sections_ok pe"
  by (simp_all add: fun_eq_iff block_reloc_list_def sections_ok_def)

lemma parse_reloc_ok:
  assumes "sections_ok pe" and "reloc_entry_ok bits" and "num_relocs pe < cap"
  shows "parse_reloc cap page bits pe = Inr (True, add_relocs pe (reloc_of pe page bits))"
proof -
  obtain w where w: "pe_peek_mem_i32 pe (reloc_offset page bits) = Inr w"
    using peek_i32_safe[OF assms(1)] by blast
  obtain v where v: "pe_peek_mem_i64 pe (reloc_offset page bits) = Inr v"
    using peek_i64_safe[OF assms(1)] by blast
  show ?thesis
    using assms(2,3) w v
    by (auto simp: parse_reloc_def reloc_entry_ok_def push_reloc_def reloc_of_def add_relocs_def
        reloc_type_def[symmetric] reloc_offset_def[symmetric] Let_def)
qed

lemma reloc_entry_loop_ok:
  assumes "dir_data dir = pre @ concat (map (word_le 2) es) @ post"
    and "length pre = unat block_off + 8 + 2 * j"
    and "sections_ok pe" and "\<forall>e \<in> set es. reloc_entry_ok e"
    and "num_relocs pe + length es \<le> cap"
  shows "reloc_entry_loop (length es) j dir block_off page cap pe =
    Inr (True, add_relocs pe (concat (map (reloc_of pe page) es)))"
  using assms
proof (induction es arbitrary: pre j pe)
  case Nil
  then show ?case by simp
next
  case (Cons e es)
  have st: "struct_at (dir_data dir) (unat block_off + 8 + 2 * j) 2 = Inr (word_le 2 e)"
    unfolding Cons.prems(2)[symmetric] Cons.prems(1) by (simp add: struct_at_def read_at_def)
  have f: "fld (word_le 2 e) 0 2 = e" by (simp add: fld_def)
  have pr: "parse_reloc cap page e pe = Inr (True, add_relocs pe (reloc_of pe page e))"
    using Cons.prems by (intro parse_reloc_ok) auto
  have n: "num_relocs (add_relocs pe (reloc_of pe page e)) + length es \<le> cap"
    using Cons.prems(5) length_reloc_of[of pe page e] by simp
  have "reloc_entry_loop (length es) (Suc j) dir block_off page cap (add_relocs pe (reloc_of pe page e))
     = Inr (True, add_relocs (add_relocs pe (reloc_of pe page e))
          (concat (map (reloc_of (add_relocs pe (reloc_of pe page e)) page) es)))"
    using Cons.prems n by (intro Cons.IH[where pre = "pre @ word_le 2 e"]) auto
  then show ?case using st f pr by simp
qed


definition entry_count :: "reloc_block list \<Rightarrow> nat" where
  "entry_count bs = (\<Sum>b\<leftarrow>bs. length (snd b))"

lemma entry_count_simps [simp]:
  "entry_count [] = 0" "entry_count (b # bs) = length (snd b) + entry_count bs"
  by (simp_all add: entry_count_def)

lemma length_enc_blocks_entries: "length (enc_blocks bs) = 8 * length bs + 2 * entry_count bs"
  by (induction bs) (simp_all add: enc_blocks_def length_enc_block)

text \<open>What the two walks read at the start of an encoded block.\<close>

lemma enc_block_header:
  assumes "dir_data dir = pre @ enc_block b @ post" and "length pre = unat block_off"
    and "8 + 2 * length (snd b) < 2 ^ 32"
  shows "struct_at (dir_data dir) (unat block_off) 8 = Inr (take 8 (enc_block b))"
    and "(fld (take 8 (enc_block b)) 0 4 :: u32) = fst b"
    and "unat (fld (take 8 (enc_block b)) 4 4 :: u32) = 8 + 2 * length (snd b)"
    and "uint (fld (take 8 (enc_block b)) 4 4 :: u32) = 8 + 2 * int (length (snd b))"
    and "block_relocs (fld (take 8 (enc_block b)) 4 4) = int (length (snd b))"
proof -
  show "struct_at (dir_data dir) (unat block_off) 8 = Inr (take 8 (enc_block b))"
    unfolding assms(2)[symmetric] assms(1) by (simp add: struct_at_def read_at_def length_enc_block)
  show "(fld (take 8 (enc_block b)) 0 4 :: u32) = fst b"
    by (simp add: fld_def enc_block_def)
  have "(fld (take 8 (enc_block b)) 4 4 :: u32) = word_of_nat (8 + 2 * length (snd b))"
    by (simp add: fld_def enc_block_def)
  then show u: "unat (fld (take 8 (enc_block b)) 4 4 :: u32) = 8 + 2 * length (snd b)"
    using assms(3) by (simp only: unat_of_nat take_bit_eq_mod) simp
  then have "(8 :: u32) \<le> fld (take 8 (enc_block b)) 4 4" by (simp add: word_le_nat_alt)
  moreover show "uint (fld (take 8 (enc_block b)) 4 4 :: u32) = 8 + 2 * int (length (snd b))"
    using uint_nat[of "fld (take 8 (enc_block b)) 4 4 :: u32"] u by simp
  ultimately show "block_relocs (fld (take 8 (enc_block b)) 4 4) = int (length (snd b))"
    by (simp add: block_relocs_eq)
qed

lemma reloc_count_loop_enc:
  assumes "dir_data dir = pre @ enc_blocks bs" and "length pre = unat block_off"
    and "unat (dir_size dir) = length (dir_data dir)"
    and "0 \<le> cnt" and "cnt + int (entry_count bs) < 2 ^ 31"
  shows "reloc_count_loop dir block_off cnt = Inr (True, cnt + int (entry_count bs))"
  using assms
proof (induction bs arbitrary: pre block_off cnt)
  case Nil
  then show ?case
    by (subst reloc_count_loop.simps) (simp add: word_less_nat_alt enc_blocks_def)
next
  case (Cons b bs)
  have d: "dir_data dir = pre @ enc_block b @ enc_blocks bs"
    using Cons.prems(1) by (simp add: enc_blocks_def)
  have sz: "unat (dir_size dir) = unat block_off + 8 + 2 * length (snd b) + length (enc_blocks bs)"
    using Cons.prems(2,3) d by (simp add: length_enc_block)
  have lt32: "unat (dir_size dir) < 2 ^ 32"
    using unsigned_less[of "dir_size dir", where ?'a = nat] by simp
  have sm: "8 + 2 * length (snd b) < 2 ^ 32" using sz lt32 by simp
  note h = enc_block_header[OF d Cons.prems(2) sm]
  let ?bs = "fld (take 8 (enc_block b)) 4 4 :: u32"
  have c: "block_off < dir_size dir" "\<not> dir_size dir - block_off < 8" "\<not> ?bs < 8"
    using sz h(3) by (simp_all add: word_less_nat_alt unat_sub word_le_nat_alt)
  have par: "uint ?bs - 8 = block_relocs ?bs * 2"
    using h(4,5) by simp
  have nx: "unat (block_off + ?bs) = unat block_off + 8 + 2 * length (snd b)"
    using h(3) sz lt32 by (simp add: unat_add_nowrap)
  have "reloc_count_loop dir (block_off + ?bs) (cnt + int (length (snd b)))
      = Inr (True, cnt + int (length (snd b)) + int (entry_count bs))"
    using Cons.prems d nx by (intro Cons.IH[where pre = "pre @ enc_block b"]) (simp_all add: length_enc_block)
  moreover have "c_add cnt (block_relocs ?bs) = Inr (cnt + int (length (snd b)))"
    using Cons.prems(4,5) h(5) by (simp add: c_add_def)
  ultimately show ?case
    using c par h(1) by (subst reloc_count_loop.simps) (simp add: Let_def)
qed

lemma reloc_block_loop_enc:
  assumes "dir_data dir = pre @ enc_blocks bs" and "length pre = unat block_off"
    and "unat (dir_size dir) = length (dir_data dir)"
    and "sections_ok pe" and "\<forall>b \<in> set bs. \<forall>e \<in> set (snd b). reloc_entry_ok e"
    and "num_relocs pe + entry_count bs \<le> cap"
  shows "reloc_block_loop dir cap block_off pe =
    Inr (True, add_relocs pe (concat (map (block_reloc_list pe) bs)))"
  using assms
proof (induction bs arbitrary: pre block_off pe)
  case Nil
  then show ?case
    by (subst reloc_block_loop.simps) (simp add: word_less_nat_alt enc_blocks_def)
next
  case (Cons b bs)
  have d: "dir_data dir = pre @ enc_block b @ enc_blocks bs"
    using Cons.prems(1) by (simp add: enc_blocks_def)
  have sz: "unat (dir_size dir) = unat block_off + 8 + 2 * length (snd b) + length (enc_blocks bs)"
    using Cons.prems(2,3) d by (simp add: length_enc_block)
  have lt32: "unat (dir_size dir) < 2 ^ 32"
    using unsigned_less[of "dir_size dir", where ?'a = nat] by simp
  have sm: "8 + 2 * length (snd b) < 2 ^ 32" using sz lt32 by simp
  note h = enc_block_header[OF d Cons.prems(2) sm]
  let ?bs = "fld (take 8 (enc_block b)) 4 4 :: u32" and ?r = "block_reloc_list pe b"
  have c: "block_off < dir_size dir" using sz by (simp add: word_less_nat_alt)
  have nx: "unat (block_off + ?bs) = unat block_off + 8 + 2 * length (snd b)"
    using h(3) sz lt32 by (simp add: unat_add_nowrap)
  then have pr: "\<not> block_off + ?bs \<le> block_off" by (simp add: word_le_nat_alt)
  define pre2 where
    "pre2 = pre @ word_le 4 (fst b) @ word_le 4 (word_of_nat (8 + 2 * length (snd b)) :: u32)"
  have d2: "dir_data dir = pre2 @ concat (map (word_le 2) (snd b)) @ enc_blocks bs"
    using d by (simp add: enc_block_def pre2_def)
  have es: "reloc_entry_loop (length (snd b)) 0 dir block_off (fst b) cap pe
      = Inr (True, add_relocs pe ?r)"
    unfolding block_reloc_list_def
    using Cons.prems by (intro reloc_entry_loop_ok[OF d2]) (auto simp: pre2_def)
  have "reloc_block_loop dir cap (block_off + ?bs) (add_relocs pe ?r) =
      Inr (True, add_relocs (add_relocs pe ?r) (concat (map (block_reloc_list (add_relocs pe ?r)) bs)))"
    using Cons.prems d nx length_block_relocs[of pe b]
    by (intro Cons.IH[where pre = "pre @ enc_block b"]) (simp_all add: length_enc_block)
  then show ?case
    using c pr es h(1,2,5) by (subst reloc_block_loop.simps) (simp add: Let_def)
qed

lemma peek_reloc_update [simp]:
  "sections_ok (pe\<lparr>num_relocs := n, relocations := rs\<rparr>) = sections_ok pe"
  "reloc_of (pe\<lparr>num_relocs := n, relocations := rs\<rparr>) = reloc_of pe"
  by (simp_all add: sections_ok_def fun_eq_iff reloc_of_def pe_peek_mem_i32_def
      pe_peek_mem_i64_def pe_copy_mem_def)

section \<open>Imports are read completely\<close>

lemma import_count_total: "sections_ok pe \<Longrightarrow> \<exists>k. import_count pe off n = Inr k"
proof (induction pe off n rule: import_count.induct)
  case (1 pe off n)
  obtain w where w: "lookup_entry pe off = Inr w"
  proof (cases "is_pe32_plus pe")
    case True
    then show ?thesis using that peek_i64_safe[OF 1(2)] by (auto simp: lookup_entry_def)
  next
    case False
    obtain v where "pe_peek_mem_i32 pe off = Inr v" using peek_i32_safe[OF 1(2)] by blast
    then show ?thesis using that False by (simp add: lookup_entry_def)
  qed
  show ?case
  proof (cases "w = 0")
    case True
    then show ?thesis using w by (simp add: import_count.simps)
  next
    case False
    then show ?thesis using w 1 by (subst import_count.simps) auto
  qed
qed

text \<open>What the code makes of an import: a name, or (PE32 only) an ordinal.\<close>

definition import_wf :: "bool \<Rightarrow> pe_import \<Rightarrow> bool" where
  "import_wf is64 imp \<longleftrightarrow>
     (imp_ord imp = -1 \<and> (\<exists>s. imp_name imp = Some s \<and> is_c_string s)) \<or>
     (\<not> is64 \<and> 0 \<le> imp_ord imp \<and> imp_name imp = None)"

lemma bit_ucast_32: "\<not> bit (ucast (w :: u32) :: u64) 63"
  by (simp add: bit_unsigned_iff bit_imp_le_length[of w 63] del: bit_ucast_iff)
    (auto dest: bit_imp_le_length)

lemma parse_import_total:
  assumes "image_ok pe"
  shows "\<exists>imp. parse_import pe l a i = Inr imp \<and> import_wf (is_pe32_plus pe) imp"
proof (cases "is_pe32_plus pe")
  case True
  obtain w where w: "pe_peek_mem_i32 pe (l + word_of_nat (i * 8)) = Inr w"
    using peek_i32_safe[OF image_ok_sections[OF assms]] by blast
  obtain s where s: "pe_copy_mem_string pe (ucast ((ucast w AND 0x7fffffff) + 2 :: u64)) = Inr s"
    "is_c_string s"
    using copy_string_total[OF assms] by blast
  show ?thesis
    using True w s bit_ucast_32[of w] by (simp add: parse_import_def import_wf_def Let_def)
next
  case False
  obtain w where w: "pe_peek_mem_i32 pe (l + word_of_nat (i * 4)) = Inr w"
    using peek_i32_safe[OF image_ok_sections[OF assms]] by blast
  obtain s where s: "pe_copy_mem_string pe ((w AND 0x7fffffff) + 2) = Inr s" "is_c_string s"
    using copy_string_total[OF assms] by blast
  show ?thesis
    using False w s by (simp add: parse_import_def import_wf_def Let_def)
qed

lemma import_loop_total:
  "image_ok pe \<Longrightarrow> \<exists>imps. import_loop n i pe l a = Inr imps \<and> length imps = n \<and>
     (\<forall>imp \<in> set imps. import_wf (is_pe32_plus pe) imp)"
proof (induction n arbitrary: i)
  case 0
  then show ?case by simp
next
  case (Suc n)
  obtain imp where "parse_import pe l a i = Inr imp" "import_wf (is_pe32_plus pe) imp"
    using parse_import_total[OF Suc.prems] by blast
  moreover obtain imps where "import_loop n (Suc i) pe l a = Inr imps" "length imps = n"
    "\<forall>imp \<in> set imps. import_wf (is_pe32_plus pe) imp"
    using Suc by blast
  ultimately show ?case by simp
qed

lemma parse_import_lib_total:
  assumes "image_ok pe"
  shows "\<exists>lib. parse_import_lib pe e = Inr lib \<and> is_c_string (lib_name lib) \<and>
    (\<forall>imp \<in> set (lib_imports lib). import_wf (is_pe32_plus pe) imp)"
proof -
  obtain nm where "pe_copy_mem_string pe (fld e 12 4) = Inr nm" "is_c_string nm"
    using copy_string_total[OF assms] by blast
  moreover obtain n where "import_count pe (fld e 0 4) 0 = Inr n"
    using import_count_total[OF image_ok_sections[OF assms]] by blast
  moreover obtain imps where "import_loop n 0 pe (fld e 0 4) (fld e 16 4) = Inr imps"
    "\<forall>imp \<in> set imps. import_wf (is_pe32_plus pe) imp"
    using import_loop_total[OF assms] by blast
  ultimately show ?thesis by (simp add: parse_import_lib_def)
qed

definition import_lib_wf :: "bool \<Rightarrow> pe_import_lib \<Rightarrow> bool" where
  "import_lib_wf is64 lib \<longleftrightarrow> is_c_string (lib_name lib) \<and>
     (\<forall>imp \<in> set (lib_imports lib). import_wf is64 imp)"

lemma image_ok_import_update [simp]:
  "image_ok (pe\<lparr>import_libs := x\<rparr>) = image_ok pe"
  "image_ok (pe\<lparr>num_import_libs := n\<rparr>) = image_ok pe"
  "image_ok (pe\<lparr>num_import_libs := n, import_libs := x\<rparr>) = image_ok pe"
  by (simp_all add: image_ok_def sections_wf_def sections_ok_def)

lemma import_lib_loop_total:
  "image_ok pe \<Longrightarrow> (i + n) * 20 \<le> length (dir_data dir) \<Longrightarrow>
   \<exists>libs. import_lib_loop n i dir pe = Inr (pe\<lparr>import_libs := import_libs pe @ libs\<rparr>) \<and>
     length libs = n \<and> (\<forall>lib \<in> set libs. import_lib_wf (is_pe32_plus pe) lib)"
proof (induction n arbitrary: i pe)
  case 0
  then show ?case by simp
next
  case (Suc n)
  have st: "struct_at (dir_data dir) (i * 20) 20 = Inr (take 20 (drop (i * 20) (dir_data dir)))"
    using Suc.prems(2) by (intro struct_at_in_range) simp
  obtain lib where lib: "parse_import_lib pe (take 20 (drop (i * 20) (dir_data dir))) = Inr lib"
    "import_lib_wf (is_pe32_plus pe) lib"
    using parse_import_lib_total[OF Suc.prems(1)] by (auto simp: import_lib_wf_def)
  let ?pe = "pe\<lparr>import_libs := import_libs pe @ [lib]\<rparr>"
  obtain libs where "import_lib_loop n (Suc i) dir ?pe = Inr (?pe\<lparr>import_libs := import_libs ?pe @ libs\<rparr>)"
    "length libs = n" "\<forall>lib \<in> set libs. import_lib_wf (is_pe32_plus pe) lib"
    using Suc.IH[of ?pe "Suc i"] Suc.prems by auto
  then show ?case using st lib by (intro exI[of _ "lib # libs"]) simp
qed

lemma import_lib_count_total:
  assumes "length (dir_data dir) = unat (dir_size dir)"
  shows "\<exists>ok n. import_lib_count dir i = Inr (ok, n) \<and> i \<le> n \<and>
    (ok \<longrightarrow> n * 20 \<le> length (dir_data dir))"
  using assms
proof (induction dir i rule: import_lib_count.induct)
  case (1 dir i)
  show ?case
  proof (cases "unat (dir_size dir) < (i + 1) * 20")
    case True
    then show ?thesis by (intro exI[of _ False] exI[of _ i]) (simp add: import_lib_count.simps)
  next
    case False
    then have st: "struct_at (dir_data dir) (i * 20) 20 = Inr (take 20 (drop (i * 20) (dir_data dir)))"
      using 1(2) by (intro struct_at_in_range) simp
    show ?thesis
    proof (cases "import_entry_empty (take 20 (drop (i * 20) (dir_data dir)))")
      case True
      then show ?thesis
        using False st 1(2) by (intro exI[of _ True] exI[of _ i]) (simp add: import_lib_count.simps)
    next
      case ne: False
      obtain ok n where "import_lib_count dir (Suc i) = Inr (ok, n)" "Suc i \<le> n"
        "ok \<longrightarrow> n * 20 \<le> length (dir_data dir)"
        using 1(1)[OF False st ne 1(2)] by blast
      then show ?thesis using False st ne by (subst import_lib_count.simps) auto
    qed
  qed
qed

section \<open>Properties\<close>

text \<open>
  C13: \<open>pe_parse_reloc_dir\<close> decodes what a relocation directory encodes: for every non-empty list of
  blocks with supported entry types, it stores exactly one relocation per \<open>HIGHLOW\<close> or \<open>DIR64\<close>
  entry, in order, with the address and the delta of the image, and the array sized by the
  counting loop is never overrun.
\<close>

theorem parse_reloc_dir_decodes:
  assumes "sections_ok pe" and "bs \<noteq> []" and "dir_data dir = enc_blocks bs"
    and "unat (dir_size dir) = length (dir_data dir)"
    and "\<forall>b \<in> set bs. \<forall>e \<in> set (snd b). reloc_entry_ok e"
  shows "pe_parse_reloc_dir dir pe = Inr (True, pe\<lparr>
    relocations := concat (map (block_reloc_list pe) bs),
    num_relocs := length (concat (map (block_reloc_list pe) bs))\<rparr>)"
proof -
  have len: "length (enc_blocks bs) = 8 * length bs + 2 * entry_count bs"
    by (rule length_enc_blocks_entries)
  have lt: "length (enc_blocks bs) < 2 ^ 32"
    using unsigned_less[of "dir_size dir", where ?'a = nat] assms(3,4) by simp
  have "dir_size dir \<noteq> 0" using assms(2,3,4) len by (cases bs) auto
  moreover have "reloc_count_loop dir 0 0 = Inr (True, 0 + int (entry_count bs))"
    using assms len lt by (intro reloc_count_loop_enc[of _ "[]"]) auto
  moreover have "reloc_block_loop dir (entry_count bs) 0 (pe\<lparr>num_relocs := 0, relocations := []\<rparr>)
    = Inr (True, add_relocs (pe\<lparr>num_relocs := 0, relocations := []\<rparr>)
        (concat (map (block_reloc_list (pe\<lparr>num_relocs := 0, relocations := []\<rparr>)) bs)))"
    using assms by (intro reloc_block_loop_enc[of _ "[]"]) auto
  moreover have "block_reloc_list (pe\<lparr>num_relocs := 0, relocations := []\<rparr>) = block_reloc_list pe"
    by (simp add: fun_eq_iff block_reloc_list_def)
  ultimately show ?thesis by (simp add: pe_parse_reloc_dir_def add_relocs_def)
qed

definition sample_reloc_dir :: pe_data_dir where
  "sample_reloc_dir = \<lparr>dir_offset = 0x1000, dir_size = 12, dir_data = enc_blocks [(0x1000, [0xa000, 0])]\<rparr>"

theorem parse_reloc_dir_decodes_witness:
  "\<exists>pe. pe_parse_reloc_dir sample_reloc_dir good_image = Inr (True, pe) \<and> num_relocs pe = 1"
proof -
  have "unat (dir_size sample_reloc_dir) = length (dir_data sample_reloc_dir)"
    by (simp add: sample_reloc_dir_def length_enc_blocks)
  moreover have "dir_data sample_reloc_dir = enc_blocks [(0x1000, [0xa000, 0])]"
    by (simp add: sample_reloc_dir_def)
  moreover have "reloc_type 0xa000 = 10" "reloc_type 0 = 0" by (simp_all add: reloc_type_def)
  ultimately show ?thesis
    using parse_reloc_dir_decodes[OF image_ok_sections[OF good_image_ok],
        of "[(0x1000, [0xa000, 0])]" sample_reloc_dir]
    by (simp add: reloc_entry_ok_def block_reloc_list_def reloc_of_def)
qed

text \<open>
  The relocation walk does not check a block's size against the rest of the directory: an
  eight-byte directory whose block claims twelve bytes passes the counting loop, and the second
  loop reads its entry behind the directory's data.
\<close>

theorem oversized_reloc_block_overruns:
  "pe_parse_reloc_dir \<lparr>dir_offset = 0x1000, dir_size = 8,
      dir_data = word_le 4 (0x1000 :: u32) @ word_le 4 (12 :: u32)\<rparr> pe = Inl Fault"
proof -
  let ?d = "\<lparr>dir_offset = 0x1000, dir_size = 8,
      dir_data = word_le 4 (0x1000 :: u32) @ word_le 4 (12 :: u32)\<rparr>"
  have st: "struct_at (dir_data ?d) 0 8 = Inr (dir_data ?d)"
    by (simp add: struct_at_def read_at_def)
  have sz: "(fld (dir_data ?d) 4 4 :: u32) = 12" by (simp add: fld_def)
  have br: "block_relocs 12 = 2" by (simp add: block_relocs_eq)
  have "reloc_count_loop ?d 0 0 = Inr (True, 2)"
    using st sz br by (simp add: reloc_count_loop.simps[of ?d 0] reloc_count_loop.simps[of ?d 12] c_add_def)
  moreover have "reloc_entry_loop 2 0 ?d 0 page cap p = Inl Fault" for page cap p
    by (simp add: numeral_2_eq_2 struct_at_def read_at_def)
  then have "reloc_block_loop ?d cap 0 p = Inl Fault" for cap p
    using st sz br by (simp add: reloc_block_loop.simps[of ?d _ 0])
  ultimately show ?thesis by (simp add: pe_parse_reloc_dir_def)
qed



end
