(* ===== verification/Loader.thy ===== *)
theory Loader
  imports Pe_Dirs
begin

text \<open>
  The DLL loader (\<open>libtudor/src/loader.c\<close>): mapping a parsed image, patching its imports,
  applying its relocations, setting section protections and publishing its exports.  The
  addresses the host environment provides (where \<open>mmap\<close> puts the image, the stubs, the emulated
  Windows functions) and the outcome of \<open>mprotect\<close> are parameters.
\<close>

section \<open>Environment and results\<close>

record loader_env =
  image_base :: u64
  ord_stub :: u64
  unresolved_stub :: u64
  cfg_trampoline_addr :: u64
  resolve_windows_api :: "byte list \<Rightarrow> u64 option"
  mprotect_ok :: "nat \<Rightarrow> nat \<Rightarrow> bool"

record section_prot =
  prot_off :: nat
  prot_len :: nat
  prot_read :: bool
  prot_write :: bool
  prot_exec :: bool

record dll_export =
  dexp_name :: "byte list"
  dexp_addr :: u64

record dll_image =
  base_addr :: u64
  dll_image_size :: int
  entry_point :: "u64 option"
  dll_num_exports :: int
  dll_exports :: "dll_export list"
  dll_memory :: "byte list"
  dll_prots :: "section_prot list"

section \<open>Stores into the mapping\<close>

text \<open>\<open>mmap\<close> rounds the length up to whole pages; the rest of the last page is zero and writable.\<close>

definition page_round :: "nat \<Rightarrow> nat" where
  "page_round n = (n + 4095) div 4096 * 4096"

definition poke :: "byte list \<Rightarrow> int \<Rightarrow> byte list \<Rightarrow> byte list result" where
  "poke mem off bytes =
     (if 0 \<le> off \<and> off + int (length bytes) \<le> int (length mem)
      then Inr (splice mem (nat off) bytes) else Inl Fault)"

definition resolve_import :: "loader_env \<Rightarrow> byte list \<Rightarrow> u64" where
  "resolve_import env name =
     (case resolve_windows_api env name of Some a \<Rightarrow> a | None \<Rightarrow> unresolved_stub env)"

definition import_target :: "loader_env \<Rightarrow> pe_import \<Rightarrow> u64 result" where
  "import_target env imp =
     (if imp_ord imp \<ge> 0 then Inr (ord_stub env)
      else case imp_name imp of
             None \<Rightarrow> Inl Fault
           | Some nm \<Rightarrow> Inr (resolve_import env nm))"

definition address_bytes :: "bool \<Rightarrow> u64 \<Rightarrow> byte list" where
  "address_bytes is64 a = (if is64 then word_le 8 a else word_le 4 (ucast a :: u32))"

fun patch_imports :: "loader_env \<Rightarrow> bool \<Rightarrow> pe_import list \<Rightarrow> byte list \<Rightarrow> byte list result" where
  "patch_imports env is64 [] mem = Inr mem"
| "patch_imports env is64 (imp # imps) mem =
     res_bind (import_target env imp) (\<lambda>a.
     res_bind (poke mem (addr_off imp) (address_bytes is64 a)) (\<lambda>mem'.
     patch_imports env is64 imps mem'))"

fun patch_import_libs ::
    "loader_env \<Rightarrow> bool \<Rightarrow> nat \<Rightarrow> pe_import_lib list \<Rightarrow> byte list \<Rightarrow> byte list result" where
  "patch_import_libs env is64 0 libs mem = Inr mem"
| "patch_import_libs env is64 (Suc n) [] mem = Inl Fault"
| "patch_import_libs env is64 (Suc n) (lib # libs) mem =
     res_bind (patch_imports env is64 (lib_imports lib) mem) (patch_import_libs env is64 n libs)"

text \<open>The relocation loop gives \<open>Inr None\<close> for the \<open>return false\<close> of an unknown width.\<close>

fun apply_relocs ::
    "u64 \<Rightarrow> nat \<Rightarrow> pe_reloc list \<Rightarrow> byte list \<Rightarrow> byte list option result" where
  "apply_relocs base 0 rels mem = Inr (Some mem)"
| "apply_relocs base (Suc n) [] mem = Inl Fault"
| "apply_relocs base (Suc n) (r # rels) mem =
     (if addr_bits r = 32 then
        res_bind (poke mem (uint (rel_offset r)) (word_le 4 (ucast (base + rel_delta r) :: u32)))
          (apply_relocs base n rels)
      else if addr_bits r = 64 then
        res_bind (poke mem (uint (rel_offset r)) (word_le 8 (base + rel_delta r)))
          (apply_relocs base n rels)
      else Inr None)"

definition CFG_DISPATCH_PTR_RVA :: nat where
  "CFG_DISPATCH_PTR_RVA = 0xC67B8"

definition patch_cfg_dispatch :: "loader_env \<Rightarrow> u32 \<Rightarrow> byte list \<Rightarrow> byte list result" where
  "patch_cfg_dispatch env img_size mem =
     (if CFG_DISPATCH_PTR_RVA + 8 > unat img_size then Inr mem
      else poke mem (int CFG_DISPATCH_PTR_RVA) (word_le 8 (cfg_trampoline_addr env)))"

definition section_protection :: "pe_section \<Rightarrow> section_prot" where
  "section_protection sec =
     \<lparr>prot_off = unat (mem_off sec), prot_len = unat (mem_size sec),
      prot_read = (sec_flags sec AND 0x40000000 \<noteq> 0),
      prot_write = (sec_flags sec AND 0x80000000 \<noteq> 0),
      prot_exec = (sec_flags sec AND 0x20000000 \<noteq> 0)\<rparr>"

fun protect_sections ::
    "loader_env \<Rightarrow> nat \<Rightarrow> pe_section list \<Rightarrow> section_prot list option result" where
  "protect_sections env 0 secs = Inr (Some [])"
| "protect_sections env (Suc n) [] = Inl Fault"
| "protect_sections env (Suc n) (sec # secs) =
     (if \<not> mprotect_ok env (unat (mem_off sec)) (unat (mem_size sec)) then Inr None
      else res_bind (protect_sections env n secs) (\<lambda>r.
             Inr (map_option (\<lambda>ps. section_protection sec # ps) r)))"

text \<open>Publishing the exports: \<open>strdup\<close> of the name of an export that has none is a NULL dereference.\<close>

fun publish_exports :: "u64 \<Rightarrow> nat \<Rightarrow> pe_export list \<Rightarrow> dll_export list result" where
  "publish_exports base 0 es = Inr []"
| "publish_exports base (Suc n) [] = Inl Fault"
| "publish_exports base (Suc n) (e # es) =
     (case exp_name e of
        None \<Rightarrow> Inl Fault
      | Some nm \<Rightarrow> res_bind (publish_exports base n es) (\<lambda>ds.
          Inr (\<lparr>dexp_name = nm, dexp_addr = base + ucast (exp_offset e)\<rparr> # ds)))"

section \<open>Loading\<close>

text \<open>
  \<open>load_dll\<close> goes on with whatever \<open>pe_parse\<close> left, whatever it returned.  The host has 64-bit
  pointers.  The result is \<open>Inr None\<close> where the function returns false.
\<close>

definition load_parsed :: "loader_env \<Rightarrow> pe_file \<Rightarrow> dll_image option result" where
  "load_parsed env pe =
     (if \<not> (machine pe = PE_MACHINE_x86_64 \<and> is_pe32_plus pe) then Inr None
      else
        res_bind (pe_copy_mem pe 0 (image_size pe)) (\<lambda>img.
        let isz = unat (image_size pe);
            mem = img @ replicate (page_round isz - isz) 0
        in
        res_bind (patch_import_libs env (is_pe32_plus pe) (num_import_libs pe) (import_libs pe) mem) (\<lambda>m1.
        res_bind (apply_relocs (image_base env) (num_relocs pe) (relocations pe) m1) (\<lambda>r.
        case r of None \<Rightarrow> Inr None | Some m2 \<Rightarrow>
        res_bind (patch_cfg_dispatch env (image_size pe) m2) (\<lambda>m3.
        if \<not> mprotect_ok env 0 isz then Inr None
        else res_bind (protect_sections env (num_sects pe) (sections pe)) (\<lambda>p.
        case p of None \<Rightarrow> Inr None | Some prots \<Rightarrow>
        res_bind (publish_exports (image_base env) (nat (num_exports pe)) (exports pe)) (\<lambda>exps.
        res_bind (pe_destroy pe) (\<lambda>_.
        Inr (Some \<lparr>base_addr = image_base env, dll_image_size = sint (image_size pe),
          entry_point = (if entry_point_off pe = 0 then None
                         else Some (image_base env + ucast (entry_point_off pe))),
          dll_num_exports = num_exports pe, dll_exports = exps,
          dll_memory = m3, dll_prots = prots\<rparr>)))))))))"

definition load_dll :: "loader_env \<Rightarrow> byte list \<Rightarrow> dll_image option result" where
  "load_dll env d = res_bind (pe_parse d) (\<lambda>(ok, pe). load_parsed env pe)"

definition destroy_dll :: "dll_image \<Rightarrow> dll_image" where
  "destroy_dll dll = dll\<lparr>dll_exports := [], base_addr := 0, dll_memory := []\<rparr>"

fun find_export_loop :: "byte list \<Rightarrow> nat \<Rightarrow> dll_export list \<Rightarrow> u64 result" where
  "find_export_loop name 0 es = Inl Abort"
| "find_export_loop name (Suc n) [] = Inl Fault"
| "find_export_loop name (Suc n) (e # es) =
     (if dexp_name e = name then Inr (dexp_addr e) else find_export_loop name n es)"

definition find_dll_export :: "dll_image \<Rightarrow> byte list \<Rightarrow> u64 result" where
  "find_dll_export dll name = find_export_loop name (nat (dll_num_exports dll)) (dll_exports dll)"

section \<open>The dispatch trampoline\<close>

text \<open>
  The machine code written by \<open>create_cfg_trampoline\<close>: nine pushes, the two arguments of the
  logging function, the call, the pops, and the jump to the original target.
\<close>

definition trampoline_pushes :: "byte list" where
  "trampoline_pushes =
     [0x50, 0x51, 0x52, 0x41, 0x50, 0x41, 0x51, 0x41, 0x52, 0x41, 0x53, 0x57, 0x56]"

definition trampoline_pops :: "byte list" where
  "trampoline_pops =
     [0x5e, 0x5f, 0x41, 0x5b, 0x41, 0x5a, 0x41, 0x59, 0x41, 0x58, 0x5a, 0x59, 0x58]"

definition create_cfg_trampoline :: "u64 \<Rightarrow> byte list" where
  "create_cfg_trampoline log_addr =
     trampoline_pushes @ [0x48, 0x89, 0xc7] @ [0x48, 0x8b, 0x74, 0x24, 72] @
     [0x48, 0xb8] @ word_le 8 log_addr @ [0xff, 0xd0] @ trampoline_pops @ [0xff, 0xe0]"

text \<open>
  The one-register stack instructions of x86-64: \<open>50+r\<close> pushes and \<open>58+r\<close> pops register \<open>r\<close>; the
  prefix \<open>41\<close> selects registers 8 to 15.
\<close>

datatype stack_op = Push nat | Pop nat

fun decode_stack_ops :: "byte list \<Rightarrow> stack_op list option" where
  "decode_stack_ops [] = Some []"
| "decode_stack_ops (b # bs) =
     (if b = 0x41 then
        (case bs of [] \<Rightarrow> None | c # cs \<Rightarrow>
           if 0x50 \<le> c \<and> c < 0x58 then map_option ((#) (Push (unat (c - 0x50) + 8))) (decode_stack_ops cs)
           else if 0x58 \<le> c \<and> c < 0x60 then map_option ((#) (Pop (unat (c - 0x58) + 8))) (decode_stack_ops cs)
           else None)
      else if 0x50 \<le> b \<and> b < 0x58 then map_option ((#) (Push (unat (b - 0x50)))) (decode_stack_ops bs)
      else if 0x58 \<le> b \<and> b < 0x60 then map_option ((#) (Pop (unat (b - 0x58)))) (decode_stack_ops bs)
      else None)"

lemma trampoline_restores_registers:
  "\<exists>ops. decode_stack_ops trampoline_pushes = Some (map Push ops) \<and>
     decode_stack_ops trampoline_pops = Some (map Pop (rev ops))"
  by (intro exI[of _ "[0, 1, 2, 8, 9, 10, 11, 7, 6]"])
    (simp add: trampoline_pushes_def trampoline_pops_def)

section \<open>The patches as a list of stores\<close>

fun poke_all :: "(int \<times> byte list) list \<Rightarrow> byte list \<Rightarrow> byte list result" where
  "poke_all [] mem = Inr mem"
| "poke_all ((off, bytes) # ws) mem = res_bind (poke mem off bytes) (poke_all ws)"

lemma poke_all_append: "poke_all (us @ vs) mem = res_bind (poke_all us mem) (poke_all vs)"
proof (induction us arbitrary: mem)
  case (Cons u us)
  then show ?case by (cases u; cases "poke mem (fst u) (snd u)") auto
qed simp

lemma poke_length: "poke mem off bytes = Inr mem' \<Longrightarrow> length mem' = length mem"
  by (auto simp: poke_def split: if_splits)

lemma poke_all_length: "poke_all ws mem = Inr mem' \<Longrightarrow> length mem' = length mem"
proof (induction ws arbitrary: mem)
  case (Cons w ws)
  then show ?case by (cases w) (auto simp: res_bind_eq_Inr dest: poke_length)
qed simp

text \<open>The addresses a store covers.\<close>

definition store_range :: "int \<times> byte list \<Rightarrow> int set" where
  "store_range w = {fst w ..< fst w + int (length (snd w))}"

lemma poke_untouched:
  "poke mem off bytes = Inr mem' \<Longrightarrow> int j \<notin> store_range (off, bytes) \<Longrightarrow> j < length mem \<Longrightarrow>
   mem' ! j = mem ! j"
  by (auto simp: poke_def store_range_def nth_splice split: if_splits)

lemma poke_all_untouched:
  "poke_all ws mem = Inr mem' \<Longrightarrow> \<forall>w \<in> set ws. int j \<notin> store_range w \<Longrightarrow> j < length mem \<Longrightarrow>
   mem' ! j = mem ! j"
proof (induction ws arbitrary: mem)
  case (Cons w ws)
  obtain off bytes where w: "w = (off, bytes)" by (cases w)
  obtain m1 where p: "poke mem off bytes = Inr m1" and r: "poke_all ws m1 = Inr mem'"
    using Cons.prems(1) w by (auto simp: res_bind_eq_Inr)
  have "m1 ! j = mem ! j" using poke_untouched[OF p] Cons.prems w by simp
  moreover have "mem' ! j = m1 ! j"
    using Cons.IH[OF r] Cons.prems poke_length[OF p] by simp
  ultimately show ?case by simp
qed simp

lemma poke_read_back:
  "poke mem off bytes = Inr mem' \<Longrightarrow> i < length bytes \<Longrightarrow>
   nat off + i < length mem \<and> mem' ! (nat off + i) = bytes ! i \<and> 0 \<le> off"
  by (auto simp: poke_def nth_splice split: if_splits)

lemma poke_all_last_store:
  assumes "poke_all (us @ (off, bytes) # vs) mem = Inr mem'"
    and "\<forall>w \<in> set vs. store_range w \<inter> store_range (off, bytes) = {}"
  shows "take (length bytes) (drop (nat off) mem') = bytes"
proof -
  obtain m1 m2 where p: "poke m1 off bytes = Inr m2" and r: "poke_all vs m2 = Inr mem'"
    using assms(1) by (auto simp: poke_all_append res_bind_eq_Inr)
  have len: "length mem' = length m2" by (rule poke_all_length[OF r])
  have "mem' ! (nat off + i) = bytes ! i" if i: "i < length bytes" for i
  proof -
    have b: "nat off + i < length m1" "m2 ! (nat off + i) = bytes ! i" "0 \<le> off"
      using poke_read_back[OF p i] by auto
    then have "int (nat off + i) \<in> store_range (off, bytes)"
      using i by (simp add: store_range_def)
    then have "\<forall>w \<in> set vs. int (nat off + i) \<notin> store_range w" using assms(2) by blast
    then have "mem' ! (nat off + i) = m2 ! (nat off + i)"
      using poke_all_untouched[OF r] b poke_length[OF p] by simp
    with b show ?thesis by simp
  qed
  moreover have "nat off + length bytes \<le> length mem'"
    using p len poke_length[OF p] by (auto simp: poke_def split: if_splits)
  ultimately show ?thesis by (intro nth_equalityI) auto
qed

definition import_stores :: "loader_env \<Rightarrow> bool \<Rightarrow> pe_import list \<Rightarrow> (int \<times> byte list) list" where
  "import_stores env is64 imps =
     map (\<lambda>imp. (addr_off imp, address_bytes is64 (projr (import_target env imp)))) imps"

definition reloc_stores :: "u64 \<Rightarrow> pe_reloc list \<Rightarrow> (int \<times> byte list) list" where
  "reloc_stores base rels = map (\<lambda>r. (uint (rel_offset r),
     if addr_bits r = 32 then word_le 4 (ucast (base + rel_delta r) :: u32)
     else word_le 8 (base + rel_delta r))) rels"

definition cfg_stores :: "loader_env \<Rightarrow> u32 \<Rightarrow> (int \<times> byte list) list" where
  "cfg_stores env img_size =
     (if CFG_DISPATCH_PTR_RVA + 8 > unat img_size then []
      else [(int CFG_DISPATCH_PTR_RVA, word_le 8 (cfg_trampoline_addr env))])"

lemma patch_imports_stores:
  "patch_imports env is64 imps mem = Inr mem' \<Longrightarrow>
   poke_all (import_stores env is64 imps) mem = Inr mem'"
  by (induction imps arbitrary: mem) (auto simp: import_stores_def res_bind_eq_Inr)

lemma patch_import_libs_stores:
  "patch_import_libs env is64 n libs mem = Inr mem' \<Longrightarrow>
   poke_all (import_stores env is64 (concat (map lib_imports (take n libs)))) mem = Inr mem'"
proof (induction env is64 n libs mem rule: patch_import_libs.induct)
  case (3 env is64 n lib libs mem)
  obtain m1 where "patch_imports env is64 (lib_imports lib) mem = Inr m1"
    "patch_import_libs env is64 n libs m1 = Inr mem'"
    using 3(2) by (auto simp: res_bind_eq_Inr)
  then show ?case
    using 3(1) patch_imports_stores[of env is64 "lib_imports lib" mem m1]
    by (simp add: import_stores_def poke_all_append)
qed (simp_all add: import_stores_def)

lemma apply_relocs_stores:
  "apply_relocs base n rels mem = Inr (Some mem') \<Longrightarrow>
   poke_all (reloc_stores base (take n rels)) mem = Inr mem'"
  by (induction base n rels mem rule: apply_relocs.induct)
    (auto simp: reloc_stores_def res_bind_eq_Inr split: if_splits)

lemma patch_cfg_stores:
  "patch_cfg_dispatch env img_size mem = Inr mem' \<Longrightarrow>
   poke_all (cfg_stores env img_size) mem = Inr mem'"
  by (auto simp: patch_cfg_dispatch_def cfg_stores_def split: if_splits)

lemma protect_sections_eq:
  "protect_sections env n secs = Inr (Some ps) \<Longrightarrow> ps = map section_protection (take n secs)"
proof (induction env n secs arbitrary: ps rule: protect_sections.induct)
  case (3 env n sec secs)
  then show ?case by (fastforce simp: res_bind_eq_Inr split: if_splits)
qed simp_all

lemma publish_exports_eq:
  "publish_exports base n es = Inr ds \<Longrightarrow> n \<le> length es \<and>
   ds = map (\<lambda>e. \<lparr>dexp_name = the (exp_name e), dexp_addr = base + ucast (exp_offset e)\<rparr>) (take n es)"
proof (induction base n es arbitrary: ds rule: publish_exports.induct)
  case (3 base n e es)
  then show ?case by (fastforce simp: res_bind_eq_Inr split: option.splits)
qed simp_all

definition initial_memory :: "pe_file \<Rightarrow> byte list \<Rightarrow> byte list" where
  "initial_memory pe img = img @ replicate (page_round (unat (image_size pe)) - unat (image_size pe)) 0"

definition load_stores :: "loader_env \<Rightarrow> pe_file \<Rightarrow> (int \<times> byte list) list" where
  "load_stores env pe =
     import_stores env True (concat (map lib_imports (take (num_import_libs pe) (import_libs pe)))) @
     reloc_stores (image_base env) (take (num_relocs pe) (relocations pe)) @
     cfg_stores env (image_size pe)"

lemma load_parsed_success:
  assumes "load_parsed env pe = Inr (Some dll)"
  shows "\<exists>img. pe_copy_mem pe 0 (image_size pe) = Inr img \<and>
      poke_all (load_stores env pe) (initial_memory pe img) = Inr (dll_memory dll)"
    and "dll_prots dll = map section_protection (take (num_sects pe) (sections pe))"
    and "dll_exports dll = map (\<lambda>e. \<lparr>dexp_name = the (exp_name e),
        dexp_addr = image_base env + ucast (exp_offset e)\<rparr>) (take (nat (num_exports pe)) (exports pe))"
    and "dll_num_exports dll = num_exports pe" and "base_addr dll = image_base env"
    and "nat (num_exports pe) \<le> length (exports pe)"
proof -
  obtain img m1 m2 m3 ps exps p' where
    a: "pe_copy_mem pe 0 (image_size pe) = Inr img"
    "patch_import_libs env True (num_import_libs pe) (import_libs pe) (initial_memory pe img) = Inr m1"
    "apply_relocs (image_base env) (num_relocs pe) (relocations pe) m1 = Inr (Some m2)"
    "patch_cfg_dispatch env (image_size pe) m2 = Inr m3"
    and b: "protect_sections env (num_sects pe) (sections pe) = Inr (Some ps)"
    "publish_exports (image_base env) (nat (num_exports pe)) (exports pe) = Inr exps"
    and d: "dll_memory dll = m3" "dll_prots dll = ps" "dll_exports dll = exps"
    "dll_num_exports dll = num_exports pe" "base_addr dll = image_base env"
    using assms
    by (auto simp: load_parsed_def res_bind_eq_Inr Let_def initial_memory_def
        split: if_splits option.splits)
  show "\<exists>img. pe_copy_mem pe 0 (image_size pe) = Inr img \<and>
      poke_all (load_stores env pe) (initial_memory pe img) = Inr (dll_memory dll)"
    using a patch_import_libs_stores[OF a(2)] apply_relocs_stores[OF a(3)] patch_cfg_stores[OF a(4)] d
    by (simp add: load_stores_def poke_all_append)
  show "dll_prots dll = map section_protection (take (num_sects pe) (sections pe))"
    using protect_sections_eq[OF b(1)] d by simp
  show "dll_exports dll = map (\<lambda>e. \<lparr>dexp_name = the (exp_name e),
        dexp_addr = image_base env + ucast (exp_offset e)\<rparr>) (take (nat (num_exports pe)) (exports pe))"
    and "nat (num_exports pe) \<le> length (exports pe)"
    using publish_exports_eq[OF b(2)] d by auto
  show "dll_num_exports dll = num_exports pe" "base_addr dll = image_base env" using d by simp_all
qed

section \<open>Properties\<close>

text \<open>
  C15: A successful load relocates the image: the eight bytes at a relocation's offset hold the
  base address of the mapping plus its delta, provided no later relocation and not the dispatch
  patch writes over them, and every byte that no import, relocation or dispatch patch covers is
  the byte the parser's memory view gives.
\<close>

theorem load_dll_relocates:
  assumes "load_parsed env pe = Inr (Some dll)"
    and "take (num_relocs pe) (relocations pe) = rs @ r # rs'" and "addr_bits r = 64"
    and "\<forall>w \<in> set (reloc_stores (image_base env) rs' @ cfg_stores env (image_size pe)).
           store_range w \<inter> {uint (rel_offset r) ..< uint (rel_offset r) + 8} = {}"
  shows "take 8 (drop (unat (rel_offset r)) (dll_memory dll)) = word_le 8 (image_base env + rel_delta r)
    \<and> (\<exists>img. pe_copy_mem pe 0 (image_size pe) = Inr img \<and>
         (\<forall>j < length img. (\<forall>w \<in> set (load_stores env pe). int j \<notin> store_range w) \<longrightarrow>
            dll_memory dll ! j = img ! j))"
proof -
  obtain img0 where img: "pe_copy_mem pe 0 (image_size pe) = Inr img0"
    and st: "poke_all (load_stores env pe) (initial_memory pe img0) = Inr (dll_memory dll)"
    using load_parsed_success(1)[OF assms(1)] by blast
  let ?w = "(uint (rel_offset r), word_le 8 (image_base env + rel_delta r))"
  have split: "load_stores env pe =
      (import_stores env True (concat (map lib_imports (take (num_import_libs pe) (import_libs pe))))
        @ reloc_stores (image_base env) rs) @ ?w #
      (reloc_stores (image_base env) rs' @ cfg_stores env (image_size pe))"
    using assms(2,3) by (simp add: load_stores_def reloc_stores_def)
  have "\<forall>w \<in> set (reloc_stores (image_base env) rs' @ cfg_stores env (image_size pe)).
      store_range w \<inter> store_range ?w = {}"
    using assms(4) by (simp add: store_range_def)
  from poke_all_last_store[OF st[unfolded split] this]
  have "take 8 (drop (unat (rel_offset r)) (dll_memory dll)) = word_le 8 (image_base env + rel_delta r)"
    by simp
  moreover have "dll_memory dll ! j = img0 ! j"
    if "\<forall>w \<in> set (load_stores env pe). int j \<notin> store_range w" "j < length img0" for j
  proof -
    have "dll_memory dll ! j = initial_memory pe img0 ! j"
      using that by (intro poke_all_untouched[OF st]) (simp_all add: initial_memory_def)
    then show ?thesis using that by (simp add: initial_memory_def nth_append)
  qed
  ultimately show ?thesis using img by blast
qed

text \<open>A 16-byte image without sections, with one relocation and one named export.\<close>

definition tiny_pe :: pe_file where
  "tiny_pe = (pe_init [])\<lparr>machine := PE_MACHINE_x86_64, is_pe32_plus := True, image_size := 16,
     num_relocs := 1, relocations := [\<lparr>addr_bits = 64, rel_offset = 8, rel_delta = 5\<rparr>],
     num_exports := 1,
     exports := [\<lparr>exp_ord = 1, exp_offset = 4, exp_name = Some [0x66, 0], forwarder = None\<rparr>]\<rparr>"

definition tiny_env :: loader_env where
  "tiny_env = \<lparr>image_base = 0x7f0000000000, ord_stub = 1, unresolved_stub = 2,
     cfg_trampoline_addr = 3, resolve_windows_api = (\<lambda>_. None), mprotect_ok = (\<lambda>_ _. True)\<rparr>"

lemma tiny_loads: "\<exists>dll. load_parsed tiny_env tiny_pe = Inr (Some dll)"
  by (simp add: load_parsed_def tiny_pe_def tiny_env_def pe_init_def pe_copy_mem_def poke_def
      page_round_def patch_cfg_dispatch_def CFG_DISPATCH_PTR_RVA_def pe_destroy_def Let_def)

theorem load_dll_relocates_witness:
  "\<exists>dll. load_parsed tiny_env tiny_pe = Inr (Some dll) \<and>
     take 8 (drop 8 (dll_memory dll)) = word_le 8 (0x7f0000000005 :: u64)"
proof -
  obtain dll where dll: "load_parsed tiny_env tiny_pe = Inr (Some dll)"
    using tiny_loads by blast
  have "take (num_relocs tiny_pe) (relocations tiny_pe)
      = [] @ \<lparr>addr_bits = 64, rel_offset = 8, rel_delta = 5\<rparr> # []"
    by (simp add: tiny_pe_def)
  from load_dll_relocates[OF dll this] show ?thesis
    using dll by (simp add: tiny_pe_def tiny_env_def reloc_stores_def cfg_stores_def
        CFG_DISPATCH_PTR_RVA_def pe_init_def)
qed

lemma find_export_loop_eq:
  "n \<le> length es \<Longrightarrow> find_export_loop name n es =
     (case find (\<lambda>e. dexp_name e = name) (take n es) of
        None \<Rightarrow> Inl Abort | Some e \<Rightarrow> Inr (dexp_addr e))"
  by (induction name n es rule: find_export_loop.induct) auto

text \<open>
  \<open>find_dll_export\<close> on a loaded image returns the mapped address of the first export of the
  parsed image with that name, and aborts when there is none.
\<close>

theorem find_loaded_export:
  assumes "load_parsed env pe = Inr (Some dll)"
  shows "find_dll_export dll name =
    (case find (\<lambda>e. the (exp_name e) = name) (take (nat (num_exports pe)) (exports pe)) of
       None \<Rightarrow> Inl Abort
     | Some e \<Rightarrow> Inr (image_base env + ucast (exp_offset e)))"
proof -
  note l = load_parsed_success[OF assms]
  have f: "find (\<lambda>e. dexp_name e = name) (map (\<lambda>e. \<lparr>dexp_name = the (exp_name e),
        dexp_addr = image_base env + ucast (exp_offset e)\<rparr>) es) =
      map_option (\<lambda>e. \<lparr>dexp_name = the (exp_name e),
        dexp_addr = image_base env + ucast (exp_offset e)\<rparr>)
        (find (\<lambda>e. the (exp_name e) = name) es)" for es
    by (induction es) auto
  show ?thesis
    using l(3,4,6) by (simp add: find_dll_export_def find_export_loop_eq f split: option.splits)
qed

theorem find_loaded_export_witness:
  "\<exists>dll. load_parsed tiny_env tiny_pe = Inr (Some dll) \<and>
     find_dll_export dll [0x66, 0] = Inr 0x7f0000000004 \<and> find_dll_export dll [0x67, 0] = Inl Abort"
proof -
  obtain dll where dll: "load_parsed tiny_env tiny_pe = Inr (Some dll)"
    using tiny_loads by blast
  show ?thesis
    using find_loaded_export[OF dll, of "[0x66, 0]"] find_loaded_export[OF dll, of "[0x67, 0]"] dll
    by (simp add: tiny_pe_def tiny_env_def)
qed

text \<open>
  \<open>load_dll\<close> ignores that \<open>pe_parse\<close> has failed: for an x86-64 image with at least one section
  whose parse stops before the section table, it goes on to read the section array that was never
  allocated.
\<close>

theorem load_dll_ignores_parse_failure:
  assumes "pe_parse d = Inr (False, pe)" and "sections pe = []" and "0 < num_sects pe"
    and "machine pe = PE_MACHINE_x86_64" and "is_pe32_plus pe"
  shows "load_dll env d = Inl Fault"
proof -
  obtain n where "num_sects pe = Suc n" using assms(3) by (cases "num_sects pe") auto
  then have "pe_copy_mem pe 0 (image_size pe) = Inl Fault"
    using assms(2) by (simp add: pe_copy_mem_def)
  then show ?thesis using assms by (simp add: load_dll_def load_parsed_def)
qed

text \<open>A 200-byte PE32+ header with one section that lacks the \<open>DYNAMIC\<close> flag.\<close>

definition static_dll :: "byte list" where
  "static_dll =
     [0x4d, 0x5a] @ replicate 58 0 @ word_le 4 (64 :: u32) @
     (word_le 4 (0x00004550 :: u32) @ word_le 2 (0x8664 :: u16) @ word_le 2 (1 :: u16) @
      replicate 12 0 @ word_le 2 (112 :: u16) @ word_le 2 (2 :: u16)) @
     (word_le 2 (0x020b :: u16) @ replicate 110 0)"

lemma static_dll_structs:
  "struct_at static_dll 0 64 = Inr ([0x4d, 0x5a] @ replicate 58 0 @ word_le 4 (64 :: u32))"
  "struct_at static_dll 64 24 = Inr (word_le 4 (0x00004550 :: u32) @ word_le 2 (0x8664 :: u16) @
     word_le 2 (1 :: u16) @ replicate 12 0 @ word_le 2 (112 :: u16) @ word_le 2 (2 :: u16))"
  "struct_at static_dll 88 112 = Inr (word_le 2 (0x020b :: u16) @ replicate 110 0)"
  "length static_dll = 200"
  by (simp_all add: static_dll_def struct_at_def read_at_def)

lemma mz_magic: "le_word [0x4d, 0x5a] = (0x5a4d :: u16)"
  by (simp add: le_word_def)

lemma static_dll_parse:
  "\<exists>pe. pe_parse static_dll = Inr (False, pe) \<and> sections pe = [] \<and> 0 < num_sects pe \<and>
     machine pe = PE_MACHINE_x86_64 \<and> is_pe32_plus pe"
  by (simp add: pe_parse_def and_then_def pe_parse_dos_header_def pe_parse_coff_header_def
      pe_parse_opt_header_def pe_init_def static_dll_structs fld_def Let_def pe_flag_defs
      opt_header_common_def drop_Cons take_Cons mz_magic)

theorem load_dll_ignores_parse_failure_witness:
  "load_dll tiny_env static_dll = Inl Fault"
proof -
  obtain pe where "pe_parse static_dll = Inr (False, pe)" "sections pe = []" "0 < num_sects pe"
    "machine pe = PE_MACHINE_x86_64" "is_pe32_plus pe"
    using static_dll_parse by blast
  then show ?thesis by (rule load_dll_ignores_parse_failure)
qed

end
