(* ===== verification/Hidraw_Detect.thy ===== *)
theory Hidraw_Detect
  imports Prelude
begin

text \<open>
  Sensor detection (\<open>libtudor/src/tudor/hidraw_detect.c\<close>, and the copy of it in
  \<open>cli/src/hidraw_detect.c\<close>): the HID report descriptor walk, the uevent check, and the three
  searches over \<open>/sys/class/hidraw\<close>.  The file system is a parameter; paths and buffers are
  truncated where the code truncates them.
\<close>

section \<open>Report descriptors\<close>

record rdesc_info =
  has_cmd_reports :: bool
  has_img_reports :: bool

text \<open>The variables of the walk; the two \<open>seen\<close> arrays have four elements.\<close>

record rdesc_scan =
  usage_page :: u16
  seen_cmd :: "bool list"
  seen_img :: "bool list"

definition scan_start :: rdesc_scan where
  "scan_start = \<lparr>usage_page = 0, seen_cmd = replicate 4 False, seen_img = replicate 4 False\<rparr>"

definition byte_at :: "byte list \<Rightarrow> nat \<Rightarrow> byte result" where
  "byte_at d i = (if i < length d then Inr (d ! i) else Inl Fault)"

lemma byte_at_safe: "i < length d \<Longrightarrow> byte_at d i = Inr (d ! i)"
  by (simp add: byte_at_def)

text \<open>The value of a short item, assembled byte by byte.\<close>

fun item_value :: "byte list \<Rightarrow> nat \<Rightarrow> nat \<Rightarrow> nat \<Rightarrow> u32 \<Rightarrow> u32 result" where
  "item_value d p 0 j v = Inr v"
| "item_value d p (Suc n) j v =
     res_bind (byte_at d (p + j)) (\<lambda>b.
       item_value d p n (Suc j) (v OR push_bit (8 * j) (ucast b)))"

definition mark :: "bool \<Rightarrow> nat \<Rightarrow> bool list \<Rightarrow> bool list" where
  "mark c k seen = (if c then seen[k := True] else seen)"

definition note_report_id :: "byte \<Rightarrow> rdesc_scan \<Rightarrow> rdesc_scan" where
  "note_report_id rid st =
     (let st1 = (if usage_page st = 0xFF00
                 then st\<lparr>seen_cmd := mark (rid = 0x11) 3 (mark (rid = 0x10) 2
                        (mark (rid = 0x0F) 1 (mark (rid = 0x0E) 0 (seen_cmd st))))\<rparr>
                 else st)
      in if usage_page st1 = 0xFF00 \<or> usage_page st1 = 0x00FF
         then st1\<lparr>seen_img := mark (rid = 0x21) 3 (mark (rid = 0x20) 2
                (mark (rid = 0x0D) 1 (mark (rid = 0x0C) 0 (seen_img st1))))\<rparr>
         else st1)"

definition item_size :: "byte \<Rightarrow> nat" where
  "item_size prefix = (let k = unat (prefix AND 0x03) in if k = 3 then 4 else k)"

definition short_item :: "byte \<Rightarrow> u32 \<Rightarrow> rdesc_scan \<Rightarrow> rdesc_scan" where
  "short_item tag v st =
     (let st1 = (if tag = 0x04 then st\<lparr>usage_page := ucast v\<rparr> else st)
      in if tag = 0x84 then note_report_id (ucast v) st1 else st1)"

text \<open>The copy in the command line tool tests for more tags.\<close>

definition short_item_cli :: "byte \<Rightarrow> u32 \<Rightarrow> rdesc_scan \<Rightarrow> rdesc_scan" where
  "short_item_cli tag v st =
     (let st1 = (if tag = 0x04 \<or> tag = 0x05 \<or> tag = 0x06 then st\<lparr>usage_page := ucast v\<rparr> else st)
      in if tag = 0x84 \<or> tag = 0x85 then note_report_id (ucast v) st1 else st1)"

text \<open>The loop, over the handler of short items.  Every branch that goes on advances \<open>i\<close>.\<close>

function desc_loop ::
    "(byte \<Rightarrow> u32 \<Rightarrow> rdesc_scan \<Rightarrow> rdesc_scan) \<Rightarrow> byte list \<Rightarrow> nat \<Rightarrow> rdesc_scan \<Rightarrow> rdesc_scan result" where
  "desc_loop item d i st =
     (if \<not> i < length d then Inr st
      else res_bind (byte_at d i) (\<lambda>prefix.
        if prefix = 0xFE then
          (if i + 1 \<ge> length d then Inr st
           else res_bind (byte_at d (i + 1)) (\<lambda>size. desc_loop item d (i + 3 + unat size) st))
        else if i + 1 + item_size prefix > length d then Inr st
        else res_bind (item_value d (i + 1) (item_size prefix) 0 0) (\<lambda>v.
               desc_loop item d (i + 1 + item_size prefix) (item (prefix AND 0xFC) v st))))"
  by pat_completeness auto
termination
  by (relation "measure (\<lambda>(item, d, i, st). length d - i)") auto

declare desc_loop.simps [simp del]

definition scan_info :: "rdesc_scan \<Rightarrow> rdesc_info" where
  "scan_info st =
     \<lparr>has_cmd_reports = seen_cmd st ! 0 \<and> seen_cmd st ! 1 \<and> seen_cmd st ! 2 \<and> seen_cmd st ! 3,
      has_img_reports = seen_img st ! 0 \<and> seen_img st ! 1 \<and> seen_img st ! 2 \<and> seen_img st ! 3\<rparr>"

definition parse_report_descriptor :: "byte list \<Rightarrow> rdesc_info result" where
  "parse_report_descriptor d =
     res_bind (desc_loop short_item d 0 scan_start) (\<lambda>st. Inr (scan_info st))"

definition parse_report_descriptor_cli :: "byte list \<Rightarrow> rdesc_info result" where
  "parse_report_descriptor_cli d =
     res_bind (desc_loop short_item_cli d 0 scan_start) (\<lambda>st. Inr (scan_info st))"

section \<open>The file system\<close>

record sysfs =
  file_text :: "string \<Rightarrow> string option"
  file_bytes :: "string \<Rightarrow> byte list option"
  link_target :: "string \<Rightarrow> string option"
  class_entries :: "string list option"

text \<open>\<open>snprintf\<close> into a buffer of \<open>n\<close> bytes keeps \<open>n - 1\<close> characters.\<close>

definition snprintf :: "nat \<Rightarrow> string \<Rightarrow> string" where
  "snprintf n s = take (n - 1) s"

definition sysfs_path :: "nat \<Rightarrow> string \<Rightarrow> string \<Rightarrow> string" where
  "sysfs_path n name leaf = snprintf n (''/sys/class/hidraw/'' @ name @ leaf)"

text \<open>\<open>fgets (line, n, f)\<close>: up to and including a newline, at most \<open>n - 1\<close> characters.\<close>

fun take_line :: "nat \<Rightarrow> string \<Rightarrow> string" where
  "take_line 0 s = []"
| "take_line (Suc n) [] = []"
| "take_line (Suc n) (c # cs) = (if c = CHR 0x0A then [c] else c # take_line n cs)"

lemma take_line_length: "length (take_line n s) \<le> length s"
  by (induction n s rule: take_line.induct) auto

lemma take_line_nonempty: "s \<noteq> [] \<Longrightarrow> take_line 255 s \<noteq> []"
proof -
  have "take_line (Suc n) (c # cs) \<noteq> []" for n c cs by simp
  from this[of 254] show "s \<noteq> [] \<Longrightarrow> take_line 255 s \<noteq> []" by (cases s) simp_all
qed

text \<open>The \<open>%x\<close> conversion of \<open>sscanf\<close>: white space, a sign, a prefix \<open>0x\<close>, hexadecimal digits.\<close>

definition is_space :: "char \<Rightarrow> bool" where
  "is_space c \<longleftrightarrow> c = CHR '' '' \<or> (9 \<le> (of_char c :: nat) \<and> (of_char c :: nat) \<le> 13)"

definition hex_digit :: "char \<Rightarrow> nat option" where
  "hex_digit c = (let k = of_char c :: nat in
     if 48 \<le> k \<and> k \<le> 57 then Some (k - 48)
     else if 65 \<le> k \<and> k \<le> 70 then Some (k - 55)
     else if 97 \<le> k \<and> k \<le> 102 then Some (k - 87) else None)"

fun hex_digits :: "string \<Rightarrow> int \<Rightarrow> int \<times> string" where
  "hex_digits [] v = (v, [])"
| "hex_digits (c # cs) v =
     (case hex_digit c of None \<Rightarrow> (v, c # cs) | Some k \<Rightarrow> hex_digits cs (16 * v + int k))"

definition scan_hex :: "string \<Rightarrow> (u32 \<times> string) option" where
  "scan_hex s =
     (let s1 = dropWhile is_space s;
          neg = (s1 \<noteq> [] \<and> hd s1 = CHR ''-'');
          s2 = (if s1 \<noteq> [] \<and> (hd s1 = CHR ''-'' \<or> hd s1 = CHR ''+'') then tl s1 else s1);
          s3 = (if take 2 s2 = ''0x'' \<or> take 2 s2 = ''0X'' then drop 2 s2 else s2)
      in if s3 = [] \<or> hex_digit (hd s3) = None then None
         else let (v, rest) = hex_digits s3 0; v' = min v (2 ^ 64 - 1)
              in Some (word_of_int (if neg then - v' else v'), rest))"

definition scan_colon :: "string \<Rightarrow> string option" where
  "scan_colon s = (if s \<noteq> [] \<and> hd s = CHR '':'' then Some (tl s) else None)"

text \<open>\<open>sscanf (line, "HID_ID=%x:%x:%x", \<dots>) == 3\<close>: vendor and product of a matching line.\<close>

definition scan_hid_id :: "string \<Rightarrow> (u32 \<times> u32) option" where
  "scan_hid_id line =
     (if take 7 line \<noteq> ''HID_ID='' then None
      else Option.bind (scan_hex (drop 7 line)) (\<lambda>(bus, r1).
           Option.bind (scan_colon r1) (\<lambda>r2.
           Option.bind (scan_hex r2) (\<lambda>(vid, r3).
           Option.bind (scan_colon r3) (\<lambda>r4.
           Option.bind (scan_hex r4) (\<lambda>(pid, _). Some (vid, pid)))))))"

definition keyboard_id :: "u32 \<times> u32 \<Rightarrow> bool" where
  "keyboard_id ids \<longleftrightarrow> fst ids = 0x17EF \<and> (snd ids = 0x613E \<or> snd ids = 0x6142)"

text \<open>The loop over the lines of a uevent file ends at the first \<open>HID_ID\<close> line.\<close>

function uevent_loop :: "string \<Rightarrow> bool" where
  "uevent_loop s =
     (if s = [] then False
      else let line = take_line 255 s in
           case scan_hid_id line of
             Some ids \<Rightarrow> keyboard_id ids
           | None \<Rightarrow> uevent_loop (drop (length line) s))"
  by pat_completeness auto
termination
  by (relation "measure length") (auto simp: take_line_nonempty intro!: diff_less)

declare uevent_loop.simps [simp del]

definition check_hid_id :: "sysfs \<Rightarrow> string \<Rightarrow> bool" where
  "check_hid_id fs name =
     (case file_text fs (sysfs_path 256 name ''/device/uevent'') of
        None \<Rightarrow> False | Some s \<Rightarrow> uevent_loop s)"

text \<open>\<open>None\<close> is the \<open>return false\<close> of a descriptor that cannot be read.\<close>

definition check_report_descriptor :: "sysfs \<Rightarrow> string \<Rightarrow> rdesc_info option result" where
  "check_report_descriptor fs name =
     (case file_bytes fs (sysfs_path 256 name ''/device/report_descriptor'') of
        None \<Rightarrow> Inr None
      | Some bytes \<Rightarrow>
          let buf = take 4096 bytes in
          if buf = [] then Inr None
          else res_bind (parse_report_descriptor buf) (\<lambda>info. Inr (Some info)))"

definition hidraw_is_fp_command_channel :: "sysfs \<Rightarrow> string \<Rightarrow> bool result" where
  "hidraw_is_fp_command_channel fs name =
     (if \<not> check_hid_id fs name then Inr False
      else res_bind (check_report_descriptor fs name) (\<lambda>r.
        case r of None \<Rightarrow> Inr False | Some info \<Rightarrow> Inr (has_cmd_reports info)))"

section \<open>Siblings\<close>

text \<open>The part of a path after its last slash, and the length of the part before it.\<close>

definition base_name :: "string \<Rightarrow> string" where
  "base_name path = rev (takeWhile (\<lambda>c. c \<noteq> CHR ''/'') (rev path))"

definition parent_length :: "string \<Rightarrow> nat option" where
  "parent_length path =
     (if CHR ''/'' \<in> set path then Some (length path - length (base_name path) - 1) else None)"

definition device_link :: "sysfs \<Rightarrow> string \<Rightarrow> string option" where
  "device_link fs name =
     map_option (take 511) (link_target fs (sysfs_path 512 name ''/device''))"

definition same_parent :: "sysfs \<Rightarrow> string \<Rightarrow> nat \<Rightarrow> string \<Rightarrow> bool" where
  "same_parent fs resolved parent_len name =
     (case device_link fs name of
        None \<Rightarrow> False
      | Some other \<Rightarrow>
          parent_len < length other \<and> take parent_len resolved = take parent_len other)"

definition is_hidraw_name :: "string \<Rightarrow> bool" where
  "is_hidraw_name name \<longleftrightarrow> take 6 name = ''hidraw''"

text \<open>The search loop the two sibling functions share, up to their test of a candidate.\<close>

fun sibling_loop ::
    "sysfs \<Rightarrow> (string \<Rightarrow> bool result) \<Rightarrow> string \<Rightarrow> string \<Rightarrow> nat \<Rightarrow> string list \<Rightarrow> string option result" where
  "sibling_loop fs test self resolved parent_len [] = Inr None"
| "sibling_loop fs test self resolved parent_len (n # ns) =
     (if \<not> is_hidraw_name n \<or> n = self \<or> \<not> same_parent fs resolved parent_len n
      then sibling_loop fs test self resolved parent_len ns
      else res_bind (test n) (\<lambda>ok.
        if ok then Inr (Some n) else sibling_loop fs test self resolved parent_len ns))"

definition find_sibling ::
    "sysfs \<Rightarrow> (string \<Rightarrow> bool result) \<Rightarrow> string \<Rightarrow> string option result" where
  "find_sibling fs test self =
     (case device_link fs self of
        None \<Rightarrow> Inr None
      | Some resolved \<Rightarrow>
          (case parent_length resolved of
             None \<Rightarrow> Inr None
           | Some parent_len \<Rightarrow>
               (case class_entries fs of
                  None \<Rightarrow> Inr None
                | Some ns \<Rightarrow> sibling_loop fs test self resolved parent_len ns)))"

definition has_image_reports :: "sysfs \<Rightarrow> string \<Rightarrow> bool result" where
  "has_image_reports fs name =
     res_bind (check_report_descriptor fs name) (\<lambda>r.
       Inr (case r of None \<Rightarrow> False | Some info \<Rightarrow> has_img_reports info))"

definition hidraw_find_image_partner :: "sysfs \<Rightarrow> string \<Rightarrow> nat \<Rightarrow> string option result" where
  "hidraw_find_image_partner fs cmd_path img_path_max =
     (let cmd_name = base_name cmd_path in
      res_bind (has_image_reports fs cmd_name) (\<lambda>self.
        if self then Inr (Some (snprintf img_path_max cmd_path))
        else res_bind (find_sibling fs (has_image_reports fs) cmd_name) (\<lambda>r.
               Inr (map_option (\<lambda>n. snprintf img_path_max (''/dev/'' @ n)) r))))"

definition hidraw_find_fp_command_sibling :: "sysfs \<Rightarrow> string \<Rightarrow> nat \<Rightarrow> string option result" where
  "hidraw_find_fp_command_sibling fs any_path cmd_path_max =
     (let any_name = base_name any_path in
      res_bind (hidraw_is_fp_command_channel fs any_name) (\<lambda>self.
        if self then Inr (Some (snprintf cmd_path_max (''/dev/'' @ any_name)))
        else res_bind (find_sibling fs (hidraw_is_fp_command_channel fs) any_name) (\<lambda>r.
               Inr (map_option (\<lambda>n. snprintf cmd_path_max (''/dev/'' @ n)) r))))"

section \<open>Autodetection\<close>

record hidraw_detect_result =
  cmd_path :: string
  img_path :: string
  found :: bool

text \<open>The two candidate paths; an empty string is a path not found yet.\<close>

fun autodetect_loop :: "sysfs \<Rightarrow> string list \<Rightarrow> string \<times> string \<Rightarrow> (string \<times> string) result" where
  "autodetect_loop fs [] devs = Inr devs"
| "autodetect_loop fs (n # ns) (cmd, img) =
     (if \<not> is_hidraw_name n \<or> \<not> check_hid_id fs n then autodetect_loop fs ns (cmd, img)
      else res_bind (check_report_descriptor fs n) (\<lambda>r.
        case r of
          None \<Rightarrow> autodetect_loop fs ns (cmd, img)
        | Some info \<Rightarrow>
            let devpath = snprintf 32 (''/dev/'' @ take 25 n);
                cmd' = (if has_cmd_reports info \<and> cmd = [] then take 31 devpath else cmd);
                img' = (if has_img_reports info \<and> img = [] then take 31 devpath else img)
            in autodetect_loop fs ns (cmd', img')))"

definition no_detection :: hidraw_detect_result where
  "no_detection = \<lparr>cmd_path = [], img_path = [], found = False\<rparr>"

definition hidraw_autodetect :: "sysfs \<Rightarrow> (bool \<times> hidraw_detect_result) result" where
  "hidraw_autodetect fs =
     (case class_entries fs of
        None \<Rightarrow> Inr (False, no_detection)
      | Some ns \<Rightarrow>
          res_bind (autodetect_loop fs ns ([], [])) (\<lambda>(cmd, img).
            if cmd = [] then Inr (False, no_detection)
            else Inr (True, \<lparr>cmd_path = take 31 cmd,
                   img_path = take 31 (if img \<noteq> [] then img else cmd), found = True\<rparr>)))"

section \<open>Encoded descriptors\<close>

text \<open>
  A short item is its tag (the prefix without the size bits) and zero, one, two or four bytes;
  a long item is the prefix \<open>FE\<close>, a size, a tag and its bytes.
\<close>

datatype hid_item = Short byte "byte list" | Long byte "byte list"

definition size_code :: "nat \<Rightarrow> byte" where
  "size_code n = (if n = 4 then 3 else word_of_nat n)"

fun item_ok :: "hid_item \<Rightarrow> bool" where
  "item_ok (Short t ps) \<longleftrightarrow> t AND 0x03 = 0 \<and> length ps \<in> {0, 1, 2, 4} \<and>
     t OR size_code (length ps) \<noteq> 0xFE"
| "item_ok (Long t ps) \<longleftrightarrow> length ps < 256"

fun enc_item :: "hid_item \<Rightarrow> byte list" where
  "enc_item (Short t ps) = (t OR size_code (length ps)) # ps"
| "enc_item (Long t ps) = [0xFE, word_of_nat (length ps), t] @ ps"

fun run_item :: "hid_item \<Rightarrow> rdesc_scan \<Rightarrow> rdesc_scan" where
  "run_item (Short t ps) st = short_item t (le_word ps) st"
| "run_item (Long t ps) st = st"

lemma byte_ff: "(t :: byte) AND 0xFF = t"
proof -
  have "(0xFF :: byte) = -1" by simp
  then show ?thesis by (simp only: and.right_neutral)
qed

lemma tag_split:
  assumes "(t :: byte) AND 0x03 = 0"
  shows "(t OR k) AND 0x03 = k AND 0x03" and "k AND 0xFC = 0 \<Longrightarrow> (t OR k) AND 0xFC = t"
proof -
  show "(t OR k) AND 0x03 = k AND 0x03"
    using assms by (simp add: bit.conj_disj_distrib2)
  have "t = t AND (0xFC OR 0x03)" using byte_ff[of t] by simp
  then have "t AND 0xFC = t" using assms by (simp only: bit.conj_disj_distrib or.right_neutral)
  then show "k AND 0xFC = 0 \<Longrightarrow> (t OR k) AND 0xFC = t" by (simp add: bit.conj_disj_distrib2)
qed

lemma size_code_split:
  assumes "n \<in> {0, 1, 2, 4}" and "(t :: byte) AND 0x03 = 0"
  shows "item_size (t OR size_code n) = n" and "(t OR size_code n) AND 0xFC = t"
  using assms tag_split[OF assms(2), of "size_code n"]
  by (auto simp: item_size_def size_code_def)

lemma le_word_Cons32: "(le_word (b # bs) :: u32) = ucast b OR push_bit 8 (le_word bs)"
proof -
  have "(le_word (b # bs) :: u32) = ucast b + push_bit 8 (le_word bs)"
    by (simp add: le_word_def push_bit_eq_mult)
  also have "\<dots> = ucast b OR push_bit 8 (le_word bs)"
    by (rule disjunctive_add) (auto simp: bit_simps dest: bit_imp_le_length)
  finally show ?thesis .
qed

lemma item_value_eq:
  "p + j + n \<le> length d \<Longrightarrow>
   item_value d p n j v = Inr (v OR push_bit (8 * j) (le_word (take n (drop (p + j) d))))"
proof (induction d p n j v rule: item_value.induct)
  case (1 d p j v)
  then show ?case by simp
next
  case (2 d p n j v)
  have dr: "drop (p + j) d = d ! (p + j) # drop (p + Suc j) d"
    using 2(2) by (simp add: Cons_nth_drop_Suc)
  have "item_value d p (Suc n) j v = Inr ((v OR push_bit (8 * j) (ucast (d ! (p + j))))
      OR push_bit (8 * Suc j) (le_word (take n (drop (p + Suc j) d))))"
    using 2 by (simp add: byte_at_def)
  also have "\<dots> = Inr (v OR push_bit (8 * j) (le_word (take (Suc n) (drop (p + j) d))))"
    unfolding dr take_Suc_Cons le_word_Cons32
    by (simp add: push_bit_or push_bit_push_bit or.assoc add.commute[of "8 * j" 8])
  finally show ?case .
qed

lemma desc_loop_total: "\<exists>st'. desc_loop item d i st = Inr st'"
proof (induction item d i st rule: desc_loop.induct)
  case (1 item d i st)
  show ?case
  proof (cases "i < length d")
    case False
    then show ?thesis by (simp add: desc_loop.simps)
  next
    case True
    note r = byte_at_safe[OF True]
    show ?thesis
    proof (cases "d ! i = 0xFE")
      case fe: True
      show ?thesis
      proof (cases "i + 1 \<ge> length d")
        case True
        then show ?thesis using r fe by (subst desc_loop.simps) simp
      next
        case False
        then show ?thesis
          using 1(1)[OF _ r fe False, of "d ! (i + 1)"] True r fe
          by (subst desc_loop.simps) (simp add: byte_at_def)
      qed
    next
      case sh: False
      show ?thesis
      proof (cases "i + 1 + item_size (d ! i) > length d")
        case True
        then show ?thesis using r sh by (subst desc_loop.simps) simp
      next
        case False
        then obtain v where v: "item_value d (i + 1) (item_size (d ! i)) 0 0 = Inr v"
          by (simp add: item_value_eq)
        then show ?thesis
          using 1(2)[OF _ r sh False v] True False r sh
          by (subst desc_loop.simps) simp
      qed
    qed
  qed
qed

lemma desc_loop_item:
  assumes "item_ok it" and "d = pre @ enc_item it @ post"
  shows "desc_loop short_item d (length pre) st =
    desc_loop short_item d (length pre + length (enc_item it)) (run_item it st)"
proof (cases it)
  case (Short t ps)
  have b: "byte_at d (length pre) = Inr (t OR size_code (length ps))"
    using assms(2) Short by (simp add: byte_at_def nth_append)
  have sz: "item_size (t OR size_code (length ps)) = length ps"
    "(t OR size_code (length ps)) AND 0xFC = t"
    using assms(1) Short by (auto intro: size_code_split)
  have "item_value d (length pre + 1) (length ps) 0 0 = Inr (le_word ps)"
    using assms(2) Short by (subst item_value_eq) auto
  then show ?thesis
    using b sz assms Short by (subst desc_loop.simps) simp
next
  case (Long t ps)
  have "byte_at d (length pre) = Inr 0xFE" "byte_at d (length pre + 1) = Inr (word_of_nat (length ps))"
    using assms(2) Long by (simp_all add: byte_at_def nth_append)
  moreover have "unat (word_of_nat (length ps) :: byte) = length ps"
    using assms(1) Long by (simp add: unat_of_nat take_bit_eq_mod)
  moreover have l: "length pre + length (enc_item it) = length pre + 3 + length ps"
    using Long by simp
  ultimately show ?thesis
    using assms Long unfolding l by (subst desc_loop.simps) simp
qed

lemma desc_loop_items:
  "\<forall>it \<in> set its. item_ok it \<Longrightarrow> d = pre @ concat (map enc_item its) \<Longrightarrow>
   desc_loop short_item d (length pre) st = Inr (fold run_item its st)"
proof (induction its arbitrary: pre st)
  case Nil
  then show ?case by (simp add: desc_loop.simps)
next
  case (Cons it its)
  have "desc_loop short_item d (length pre) st =
      desc_loop short_item d (length (pre @ enc_item it)) (run_item it st)"
    using desc_loop_item[of it d pre "concat (map enc_item its)" st] Cons.prems by simp
  also have "\<dots> = Inr (fold run_item its (run_item it st))"
    using Cons.prems by (intro Cons.IH) auto
  finally show ?case by simp
qed

section \<open>The searches\<close>

lemma parse_report_descriptor_total: "\<exists>info. parse_report_descriptor d = Inr info"
  using desc_loop_total[of short_item d 0 scan_start] by (auto simp: parse_report_descriptor_def)

lemma check_report_descriptor_total: "\<exists>r. check_report_descriptor fs n = Inr r"
  using parse_report_descriptor_total
  by (auto simp: check_report_descriptor_def Let_def split: option.splits) (metis res_bind_simps(2))

text \<open>The candidates autodetection looks at: matching hidraw devices with their descriptors.\<close>

definition candidates :: "sysfs \<Rightarrow> string list \<Rightarrow> (string \<times> rdesc_info) list" where
  "candidates fs ns =
     List.map_filter (\<lambda>n. if is_hidraw_name n \<and> check_hid_id fs n
        then map_option (Pair n) (projr (check_report_descriptor fs n)) else None) ns"

definition dev_path :: "string \<Rightarrow> string" where
  "dev_path n = ''/dev/'' @ take 25 n"

text \<open>The path of the first candidate that passes a test, or no path.\<close>

definition first_path :: "(rdesc_info \<Rightarrow> bool) \<Rightarrow> (string \<times> rdesc_info) list \<Rightarrow> string" where
  "first_path P cs = (case find (\<lambda>c. P (snd c)) cs of None \<Rightarrow> [] | Some c \<Rightarrow> dev_path (fst c))"

lemma dev_path_fits: "snprintf 32 (''/dev/'' @ take 25 n) = dev_path n" "take 31 (dev_path n) = dev_path n"
  by (simp_all add: snprintf_def dev_path_def min_def)

lemma dev_path_nonempty [simp]: "dev_path n \<noteq> []"
  by (simp add: dev_path_def)

lemma first_path_Cons:
  "first_path P (c # cs) = (if P (snd c) then dev_path (fst c) else first_path P cs)"
  by (simp add: first_path_def)

lemma candidates_Cons:
  "candidates fs (n # ns) =
     (if is_hidraw_name n \<and> check_hid_id fs n
      then (case projr (check_report_descriptor fs n) of
              None \<Rightarrow> candidates fs ns | Some info \<Rightarrow> (n, info) # candidates fs ns)
      else candidates fs ns)"
  by (simp add: candidates_def List.map_filter_simps split: option.splits)

lemma autodetect_loop_eq:
  "autodetect_loop fs ns (cmd, img) = Inr
     (if cmd = [] then first_path has_cmd_reports (candidates fs ns) else cmd,
      if img = [] then first_path has_img_reports (candidates fs ns) else img)"
proof (induction ns arbitrary: cmd img)
  case Nil
  then show ?case by (simp add: candidates_def first_path_def List.map_filter_simps)
next
  case (Cons n ns)
  obtain r where r: "check_report_descriptor fs n = Inr r"
    using check_report_descriptor_total by blast
  show ?case
    by (cases r) (simp_all add: r Cons.IH candidates_Cons first_path_Cons dev_path_fits[simplified] Let_def)
qed

lemma sibling_loop_all:
  assumes "\<forall>n \<in> set ns. is_hidraw_name n \<longrightarrow> n \<noteq> self \<longrightarrow> same_parent fs resolved k n"
    and "\<forall>n. test n = Inr (t n)"
  shows "sibling_loop fs test self resolved k ns =
    Inr (find (\<lambda>n. is_hidraw_name n \<and> n \<noteq> self \<and> t n) ns)"
  using assms by (induction ns) auto

section \<open>Properties\<close>

text \<open>
  C16: \<open>parse_report_descriptor\<close> decodes the items a descriptor encodes: for every list of short and
  long items, the walk applies exactly the effect of each item, in order, with the little-endian
  value of its bytes.
\<close>

theorem parse_report_descriptor_decodes:
  assumes "\<forall>it \<in> set its. item_ok it"
  shows "parse_report_descriptor (concat (map enc_item its)) =
    Inr (scan_info (fold run_item its scan_start))"
  using desc_loop_items[OF assms, of "concat (map enc_item its)" "[]"]
  by (simp add: parse_report_descriptor_def)

definition keyboard_items :: "hid_item list" where
  "keyboard_items = [Short 0x04 [0x00, 0xFF], Long 7 [1, 2], Short 0x84 [0x0E], Short 0x84 [0x0F],
     Short 0x84 [0x10], Short 0x84 [0x11]]"

lemma four_False: "replicate 4 False = [False, False, False, False]"
  by (simp add: numeral_eq_Suc)

lemma four_update:
  "[a, b, c, d][0 := x] = [x, b, c, d]" "[a, b, c, d][Suc 0 := x] = [a, x, c, d]"
  "[a, b, c, d][2 := x] = [a, b, x, d]" "[a, b, c, d][3 := x] = [a, b, c, x]"
  by (simp_all add: numeral_2_eq_2 numeral_3_eq_3)

theorem parse_report_descriptor_decodes_witness:
  "parse_report_descriptor (concat (map enc_item keyboard_items)) =
     Inr \<lparr>has_cmd_reports = True, has_img_reports = False\<rparr>"
proof -
  have "\<forall>it \<in> set keyboard_items. item_ok it"
    by (simp add: keyboard_items_def size_code_def)
  moreover have "scan_info (fold run_item keyboard_items scan_start) =
      \<lparr>has_cmd_reports = True, has_img_reports = False\<rparr>"
    by (simp add: keyboard_items_def short_item_def le_word_def Let_def scan_start_def
        note_report_id_def mark_def four_False four_update scan_info_def)
  ultimately show ?thesis using parse_report_descriptor_decodes[of keyboard_items] by simp
qed

text \<open>
  On every byte string, however malformed, \<open>parse_report_descriptor\<close> returns without reading
  past the descriptor, and the copy in the command line tool, which tests for three more tag
  values, returns the same.
\<close>

lemma masked_tag:
  "(p :: byte) AND 0xFC \<noteq> 0x05" "(p :: byte) AND 0xFC \<noteq> 0x06" "(p :: byte) AND 0xFC \<noteq> 0x85"
proof -
  have b: "\<not> bit (p AND 0xFC) 0" "\<not> bit (p AND 0xFC) 1" by (simp_all add: bit_and_iff bit_numeral_rec)
  have "bit (0x05 :: byte) 0" "bit (0x06 :: byte) 1" "bit (0x85 :: byte) 0"
    by (simp_all add: bit_numeral_rec)
  with b show "p AND 0xFC \<noteq> 0x05" "p AND 0xFC \<noteq> 0x06" "p AND 0xFC \<noteq> 0x85" by metis+
qed

lemma desc_loop_cli: "desc_loop short_item_cli d i st = desc_loop short_item d i st"
proof (induction short_item d i st rule: desc_loop.induct)
  case (1 d i st)
  have it: "short_item_cli (p AND 0xFC) v s = short_item (p AND 0xFC) v s" for p v s
    using masked_tag[of p] by (simp add: short_item_cli_def short_item_def)
  show ?case
    apply (subst (1 2) desc_loop.simps)
    using 1 by (auto intro!: res_bind_cong simp: it)
qed

theorem report_descriptor_copies_agree:
  "\<exists>info. parse_report_descriptor d = Inr info \<and> parse_report_descriptor_cli d = Inr info"
  using parse_report_descriptor_total[of d]
  by (simp add: parse_report_descriptor_def parse_report_descriptor_cli_def desc_loop_cli)

text \<open>
  \<open>hidraw_autodetect\<close>: it finds the sensor exactly if some matching hidraw device has the command
  reports; the command path is that of the first such device in directory order, the image path
  that of the first matching device with image reports, or else the command path.
\<close>

theorem autodetect_finds_first:
  "hidraw_autodetect fs = Inr
     (case class_entries fs of
        None \<Rightarrow> (False, no_detection)
      | Some ns \<Rightarrow>
          let cs = candidates fs ns;
              cmd = first_path has_cmd_reports cs;
              img = first_path has_img_reports cs
          in if cmd = [] then (False, no_detection)
             else (True, \<lparr>cmd_path = cmd, img_path = (if img = [] then cmd else img), found = True\<rparr>))"
proof -
  have t: "take 31 (first_path P cs) = first_path P cs" for P cs
    by (simp add: first_path_def dev_path_def min_def split: option.splits)
  show ?thesis
    by (simp add: hidraw_autodetect_def autodetect_loop_eq Let_def t split: option.splits)
qed

text \<open>
  \<open>hidraw_find_image_partner\<close> does not restrict the search to siblings: with device links that
  are relative, as sysfs has them (\<open>../../../\<close> and the device's own name), the first hidraw device
  in directory order with image reports is taken, whatever its parent.
\<close>

theorem relative_links_match_every_device:
  assumes "\<forall>n. link_target fs (sysfs_path 512 n ''/device'') = Some (''../../../'' @ dev n)"
    and "\<forall>n. dev n \<noteq> [] \<and> CHR ''/'' \<notin> set (dev n) \<and> length (dev n) < 500"
    and "class_entries fs = Some ns"
    and "has_image_reports fs (base_name cmd) = Inr False"
  shows "hidraw_find_image_partner fs cmd sz = Inr (map_option (\<lambda>n. snprintf sz (''/dev/'' @ n))
    (find (\<lambda>n. is_hidraw_name n \<and> n \<noteq> base_name cmd \<and> projr (has_image_reports fs n)) ns))"
proof -
  let ?self = "base_name cmd"
  have link: "device_link fs n = Some (''../../../'' @ dev n)" for n
  proof -
    have "length (dev n) < 500" using assms(2) by blast
    then show ?thesis using assms(1) by (simp add: device_link_def)
  qed
  have base: "base_name (''../../../'' @ dev n) = dev n" for n
  proof -
    have "takeWhile (\<lambda>c. c \<noteq> CHR ''/'') (rev (dev n) @ rev ''../../../'') = rev (dev n)"
      using assms(2) by (subst takeWhile_append2) auto
    then show ?thesis by (simp add: base_name_def)
  qed
  have pl: "parent_length (''../../../'' @ dev n) = Some 8" for n
    unfolding parent_length_def base by simp
  have tot: "\<forall>n. has_image_reports fs n = Inr (projr (has_image_reports fs n))"
  proof
    fix n
    obtain r where "check_report_descriptor fs n = Inr r"
      using check_report_descriptor_total by blast
    then show "has_image_reports fs n = Inr (projr (has_image_reports fs n))"
      by (simp add: has_image_reports_def)
  qed
  have "same_parent fs (''../../../'' @ dev ?self) 8 n" for n
    using assms(2) by (auto simp: same_parent_def link)
  then have "find_sibling fs (has_image_reports fs) ?self =
      Inr (find (\<lambda>n. is_hidraw_name n \<and> n \<noteq> ?self \<and> projr (has_image_reports fs n)) ns)"
    unfolding find_sibling_def link option.case pl assms(3)
    by (intro sibling_loop_all tot) simp
  then show ?thesis using assms(4) by (simp add: hidraw_find_image_partner_def Let_def)
qed

text \<open>
  Two keyboards' worth of devices: the command channel \<open>hidraw0\<close>, and \<open>hidraw1\<close>, another device with
  image reports.
\<close>

definition image_items :: "hid_item list" where
  "image_items = [Short 0x04 [0x00, 0xFF], Short 0x84 [0x0C], Short 0x84 [0x0D],
     Short 0x84 [0x20], Short 0x84 [0x21]]"

definition two_devices :: sysfs where
  "two_devices = \<lparr>file_text = (\<lambda>_. None),
     file_bytes = (\<lambda>p. if p = sysfs_path 256 ''hidraw1'' ''/device/report_descriptor''
                      then Some (concat (map enc_item image_items)) else None),
     link_target = (\<lambda>p. Some (''../../../'' @ ''0003:17EF:6142.0001'')),
     class_entries = Some [''hidraw0'', ''hidraw1'']\<rparr>"

theorem relative_links_match_every_device_witness:
  "hidraw_find_image_partner two_devices ''/dev/hidraw0'' 32 = Inr (Some ''/dev/hidraw1'')"
proof -
  have base: "base_name ''/dev/hidraw0'' = ''hidraw0''" by (simp add: base_name_def)
  have neq: "sysfs_path 256 ''hidraw0'' ''/device/report_descriptor'' \<noteq>
      sysfs_path 256 ''hidraw1'' ''/device/report_descriptor''"
    by (simp add: sysfs_path_def snprintf_def)
  have img0: "has_image_reports two_devices (base_name ''/dev/hidraw0'') = Inr False"
    using neq by (simp add: has_image_reports_def check_report_descriptor_def base two_devices_def)
  have ok: "\<forall>it \<in> set image_items. item_ok it" by (simp add: image_items_def size_code_def)
  have "has_img_reports (scan_info (fold run_item image_items scan_start))"
    by (simp add: image_items_def short_item_def le_word_def Let_def scan_start_def
        note_report_id_def mark_def four_False four_update scan_info_def)
  moreover have "parse_report_descriptor (concat (map enc_item image_items)) =
      Inr (scan_info (fold run_item image_items scan_start))"
    using desc_loop_items[OF ok, of "concat (map enc_item image_items)" "[]"]
    by (simp add: parse_report_descriptor_def)
  moreover have "take 4096 (concat (map enc_item image_items)) = concat (map enc_item image_items)"
    "concat (map enc_item image_items) \<noteq> []"
    by (simp_all add: image_items_def)
  ultimately have img1: "has_image_reports two_devices ''hidraw1'' = Inr True"
    by (simp add: has_image_reports_def check_report_descriptor_def two_devices_def Let_def)
  have "hidraw_find_image_partner two_devices ''/dev/hidraw0'' 32 =
     Inr (map_option (\<lambda>n. snprintf 32 (''/dev/'' @ n))
       (find (\<lambda>n. is_hidraw_name n \<and> n \<noteq> base_name ''/dev/hidraw0'' \<and>
          projr (has_image_reports two_devices n)) [''hidraw0'', ''hidraw1'']))"
    by (rule relative_links_match_every_device[where dev = "\<lambda>_. ''0003:17EF:6142.0001''"])
      (use img0 in \<open>simp_all add: two_devices_def\<close>)
  then show ?thesis using img1 by (simp add: base is_hidraw_name_def snprintf_def)
qed

end
