(* ===== verification/Async_Result.thy ===== *)
theory Async_Result
  imports Prelude
begin

text \<open>
  Results of asynchronous operations (\<open>libtudor/src/tudor/async.c\<close>): a result is pending until
  the operation completes, and a callback may be set before or after that.  Callbacks are
  functions on the result, since a callback may free it.
\<close>

section \<open>The result object\<close>

text \<open>
  \<open>success\<close> is -1 while the operation is pending.  \<open>res_locked\<close> is the mutex of the result,
  \<open>res_freed\<close> the ghost state of its memory, \<open>calls\<close> the ghost list of the values callbacks were
  called with.
\<close>

record async_res =
  success :: int
  cb_fnc :: "nat option"
  res_locked :: bool
  res_freed :: bool
  calls :: "bool list"

definition SUCCESS_PENDING :: int where
  "SUCCESS_PENDING = -1"

definition async_new_res :: async_res where
  "async_new_res = \<lparr>success = SUCCESS_PENDING, cb_fnc = None, res_locked = False,
     res_freed = False, calls = []\<rparr>"

type_synonym async_callback = "bool \<Rightarrow> async_res \<Rightarrow> async_res result"

definition lock_res :: "async_res \<Rightarrow> async_res result" where
  "lock_res r = (if res_freed r then Inl Fault else if res_locked r then Inl Hang
     else Inr (r\<lparr>res_locked := True\<rparr>))"

definition unlock_res :: "async_res \<Rightarrow> async_res result" where
  "unlock_res r = (if res_freed r then Inl Fault else Inr (r\<lparr>res_locked := False\<rparr>))"

text \<open>A call of a callback, recorded.\<close>

definition invoke :: "async_callback \<Rightarrow> bool \<Rightarrow> async_res \<Rightarrow> async_res result" where
  "invoke cb ok r = cb ok (r\<lparr>calls := calls r @ [ok]\<rparr>)"

text \<open>
  \<open>env\<close> gives the callback an identifier stands for.  The completing thread calls the callback
  after it has unlocked the mutex.
\<close>

definition async_complete_op ::
    "(nat \<Rightarrow> async_callback) \<Rightarrow> bool \<Rightarrow> async_res \<Rightarrow> async_res result" where
  "async_complete_op env ok r =
     res_bind (lock_res r) (\<lambda>r1.
     let r2 = r1\<lparr>success := (if ok then 1 else 0)\<rparr>; cb = cb_fnc r2 in
     res_bind (unlock_res r2) (\<lambda>r3.
     case cb of None \<Rightarrow> Inr r3 | Some c \<Rightarrow> invoke (env c) ok r3))"

text \<open>Setting a callback on a completed result calls it at once, with the mutex held.\<close>

definition tudor_set_async_callback ::
    "(nat \<Rightarrow> async_callback) \<Rightarrow> nat \<Rightarrow> async_res \<Rightarrow> async_res result" where
  "tudor_set_async_callback env c r =
     res_bind (lock_res r) (\<lambda>r1.
     res_bind (if success r1 \<noteq> SUCCESS_PENDING then invoke (env c) (success r1 \<noteq> 0) r1
               else Inr (r1\<lparr>cb_fnc := Some c\<rparr>)) unlock_res)"

text \<open>Waiting returns once the operation has completed; on a pending one it blocks.\<close>

definition tudor_wait_async :: "async_res \<Rightarrow> (bool \<times> async_res) result" where
  "tudor_wait_async r =
     res_bind (lock_res r) (\<lambda>r1.
     if success r1 = SUCCESS_PENDING then Inl Hang
     else res_bind (unlock_res r1) (\<lambda>r2. Inr (success r2 \<noteq> 0, r2)))"

text \<open>Freeing a result; destroying a locked mutex is undefined behaviour.\<close>

definition tudor_cleanup_async :: "async_res \<Rightarrow> async_res result" where
  "tudor_cleanup_async r =
     (if res_freed r \<or> res_locked r then Inl Fault else Inr (r\<lparr>res_freed := True\<rparr>))"

section \<open>Properties\<close>

text \<open>Callbacks that neither fail nor touch the result.\<close>

definition observing :: "(nat \<Rightarrow> async_callback) \<Rightarrow> bool" where
  "observing env \<longleftrightarrow> (\<forall>c ok r. env c ok r = Inr r)"

text \<open>
  Whichever comes first, the completion of an operation or the setting of its callback, the
  callback is called exactly once, with the outcome of the operation, and a wait afterwards
  returns that outcome.
\<close>

theorem callback_called_once:
  assumes "observing env"
  shows "\<exists>r1 r2.
    res_bind (async_complete_op env ok async_new_res) (tudor_set_async_callback env c) = Inr r1 \<and>
    res_bind (tudor_set_async_callback env c async_new_res) (async_complete_op env ok) = Inr r2 \<and>
    calls r1 = [ok] \<and> calls r2 = [ok] \<and>
    tudor_wait_async r1 = Inr (ok, r1) \<and> tudor_wait_async r2 = Inr (ok, r2)"
  using assms
  by (simp add: async_complete_op_def tudor_set_async_callback_def async_new_res_def lock_res_def
      unlock_res_def invoke_def observing_def SUCCESS_PENDING_def tudor_wait_async_def)

theorem callback_called_once_witness:
  "\<exists>r. res_bind (async_complete_op (\<lambda>_ _. Inr) True async_new_res)
     (tudor_set_async_callback (\<lambda>_ _. Inr) 7) = Inr r \<and> calls r = [True]"
proof -
  have "observing (\<lambda>_ _. Inr)" by (simp add: observing_def)
  from callback_called_once[OF this, of True 7] show ?thesis by blast
qed

text \<open>
  A callback that frees its result, as those of the message handler do, is safe when it was
  set before the completion, but when the operation has already completed,
  \<open>tudor_set_async_callback\<close> calls it with the result's mutex held, and the mutex is destroyed
  and unlocked after that.
\<close>

theorem freeing_callback_needs_early_set:
  assumes "env c = (\<lambda>ok r. tudor_cleanup_async r)"
  shows "(\<exists>r. res_bind (tudor_set_async_callback env c async_new_res) (async_complete_op env ok) = Inr r
      \<and> res_freed r) \<and>
    res_bind (async_complete_op env ok async_new_res) (tudor_set_async_callback env c) = Inl Fault"
  using assms
  by (simp add: async_complete_op_def tudor_set_async_callback_def async_new_res_def lock_res_def
      unlock_res_def invoke_def SUCCESS_PENDING_def tudor_cleanup_async_def)

theorem freeing_callback_needs_early_set_witness:
  "res_bind (async_complete_op (\<lambda>_ _. tudor_cleanup_async) True async_new_res)
     (tudor_set_async_callback (\<lambda>_ _. tudor_cleanup_async) 1) = Inl Fault"
  using freeing_callback_needs_early_set[of "\<lambda>_ _. tudor_cleanup_async" 1 True] by simp

end
