(* ===== verification/Host_Ipc.thy ===== *)
theory Host_Ipc
  imports Device_State
begin

text \<open>
  The message protocol between the libfprint module and the driver host
  (\<open>tudor-host/inc/tudor/libfprint-proto.h\<close>), the host's socket functions
  (\<open>tudor-host/src/ipc.c\<close>), and its cache of pairing data (\<open>tudor-host/src/main.c\<close>).  Messages are
  byte strings with the layout a little-endian C compiler gives the structures; padding is zero.
\<close>

section \<open>Message types\<close>

datatype ipc_msg_type =
    IPC_MSG_INIT | IPC_MSG_READY | IPC_MSG_PROBE | IPC_MSG_RESP_PROBE | IPC_MSG_SHUTDOWN
  | IPC_MSG_ACK | IPC_MSG_CANCEL
  | IPC_MSG_LOAD_PDATA | IPC_MSG_RESP_LOAD_PDATA | IPC_MSG_STORE_PDATA
  | IPC_MSG_ADD_RECORD | IPC_MSG_DEL_RECORD | IPC_MSG_CLEAR_RECORDS
  | IPC_MSG_ENROLL | IPC_MSG_RESP_ENROLL | IPC_MSG_VERIFY | IPC_MSG_RESP_VERIFY
  | IPC_MSG_IDENTIFY | IPC_MSG_RESP_IDENTIFY

definition all_msg_types :: "ipc_msg_type list" where
  "all_msg_types =
     [IPC_MSG_INIT, IPC_MSG_READY, IPC_MSG_PROBE, IPC_MSG_RESP_PROBE, IPC_MSG_SHUTDOWN,
      IPC_MSG_ACK, IPC_MSG_CANCEL, IPC_MSG_LOAD_PDATA, IPC_MSG_RESP_LOAD_PDATA,
      IPC_MSG_STORE_PDATA, IPC_MSG_ADD_RECORD, IPC_MSG_DEL_RECORD, IPC_MSG_CLEAR_RECORDS,
      IPC_MSG_ENROLL, IPC_MSG_RESP_ENROLL, IPC_MSG_VERIFY, IPC_MSG_RESP_VERIFY,
      IPC_MSG_IDENTIFY, IPC_MSG_RESP_IDENTIFY]"

text \<open>The number of a type is its position in the enumeration.\<close>

fun msg_code :: "ipc_msg_type \<Rightarrow> u32" where
  "msg_code IPC_MSG_INIT = 0"
| "msg_code IPC_MSG_READY = 1"
| "msg_code IPC_MSG_PROBE = 2"
| "msg_code IPC_MSG_RESP_PROBE = 3"
| "msg_code IPC_MSG_SHUTDOWN = 4"
| "msg_code IPC_MSG_ACK = 5"
| "msg_code IPC_MSG_CANCEL = 6"
| "msg_code IPC_MSG_LOAD_PDATA = 7"
| "msg_code IPC_MSG_RESP_LOAD_PDATA = 8"
| "msg_code IPC_MSG_STORE_PDATA = 9"
| "msg_code IPC_MSG_ADD_RECORD = 10"
| "msg_code IPC_MSG_DEL_RECORD = 11"
| "msg_code IPC_MSG_CLEAR_RECORDS = 12"
| "msg_code IPC_MSG_ENROLL = 13"
| "msg_code IPC_MSG_RESP_ENROLL = 14"
| "msg_code IPC_MSG_VERIFY = 15"
| "msg_code IPC_MSG_RESP_VERIFY = 16"
| "msg_code IPC_MSG_IDENTIFY = 17"
| "msg_code IPC_MSG_RESP_IDENTIFY = 18"

definition msg_type_of :: "u32 \<Rightarrow> ipc_msg_type option" where
  "msg_type_of w = find (\<lambda>t. msg_code t = w) all_msg_types"

lemma msg_type_of_code [simp]: "msg_type_of (msg_code t) = Some t"
  by (cases t) (simp_all add: msg_type_of_def all_msg_types_def)

lemma msg_type_of_SomeD: "msg_type_of w = Some t \<Longrightarrow> msg_code t = w"
  by (auto simp: msg_type_of_def find_Some_iff)

lemma msg_code_inj: "msg_code t = msg_code u \<Longrightarrow> t = u"
  by (metis msg_type_of_code option.inject)

definition IPC_SENSOR_NAME_SIZE :: nat where "IPC_SENSOR_NAME_SIZE = 128"
definition IPC_MAX_PDATA_SIZE :: nat where "IPC_MAX_PDATA_SIZE = 16384"
definition IPC_MAX_RECORD_SIZE :: nat where "IPC_MAX_RECORD_SIZE = 98304"

section \<open>Field codecs\<close>

text \<open>A GUID is 16 bytes: the last eight are one word of a 16-bit and a 48-bit field.\<close>

definition guid_bytes :: "guid \<Rightarrow> byte list" where
  "guid_bytes g = word_le 4 (PartA g) @ word_le 2 (PartB g) @ word_le 2 (PartC g) @
     word_le 2 (PartD g) @ word_le 6 (PartE g)"

definition guid_of_bytes :: "byte list \<Rightarrow> guid" where
  "guid_of_bytes b = \<lparr>PartA = fld b 0 4, PartB = fld b 4 2, PartC = fld b 6 2,
     PartD = fld b 8 2, PartE = fld b 10 6\<rparr>"

lemma length_guid_bytes [simp]: "length (guid_bytes g) = 16"
  by (simp add: guid_bytes_def)

lemma guid_of_bytes_guid_bytes [simp]: "guid_of_bytes (guid_bytes g) = g"
  by (simp add: guid_of_bytes_def guid_bytes_def fld_def)

definition bool_byte :: "bool \<Rightarrow> byte" where
  "bool_byte b = (if b then 1 else 0)"

definition simple_msg :: "ipc_msg_type \<Rightarrow> byte list" where
  "simple_msg t = word_le 4 (msg_code t)"

text \<open>
  The messages that carry a GUID and a finger (\<open>ADD_RECORD\<close>, \<open>DEL_RECORD\<close>, \<open>ENROLL\<close>, \<open>VERIFY\<close>):
  24 bytes, and for \<open>ADD_RECORD\<close> the template behind them.
\<close>

definition key_msg :: "ipc_msg_type \<Rightarrow> guid \<Rightarrow> u32 \<Rightarrow> byte list \<Rightarrow> byte list" where
  "key_msg t g f d = word_le 4 (msg_code t) @ guid_bytes g @ word_le 4 f @ d"

definition msg_guid :: "byte list \<Rightarrow> guid" where
  "msg_guid m = guid_of_bytes (take 16 (drop 4 m))"

definition msg_finger :: "byte list \<Rightarrow> u32" where
  "msg_finger m = fld m 20 4"

lemma key_msg_fields [simp]:
  "msg_guid (key_msg t g f d) = g" "msg_finger (key_msg t g f d) = f"
  "drop 24 (key_msg t g f d) = d" "length (key_msg t g f d) = 24 + length d"
  "(fld (key_msg t g f d) 0 4 :: u32) = msg_code t"
  by (simp_all add: key_msg_def msg_guid_def msg_finger_def fld_def)

lemma simple_msg_fields [simp]:
  "length (simple_msg t) = 4" "(fld (simple_msg t) 0 4 :: u32) = msg_code t"
  by (simp_all add: simple_msg_def fld_def)

section \<open>Sockets\<close>

text \<open>Peeking reads a type; a message shorter than that leaves the variable indeterminate.\<close>

definition ipc_peek_msg :: "byte list \<Rightarrow> u32 result" where
  "ipc_peek_msg msg = (if length msg < 4 then Inl Fault else Inr (fld msg 0 4))"

text \<open>
  The kernel cuts a message to the buffer's \<open>max_sz\<close> bytes, so the check against \<open>max_sz\<close> never
  fires; a message that is too short or of another type aborts.
\<close>

definition ipc_recv_msg :: "ipc_msg_type \<Rightarrow> nat \<Rightarrow> nat \<Rightarrow> byte list \<Rightarrow> byte list result" where
  "ipc_recv_msg t min_sz max_sz msg =
     (let m = take max_sz msg in
      if length m < min_sz \<or> max_sz < length m then Inl Abort
      else if (fld m 0 4 :: u32) \<noteq> msg_code t then Inl Abort
      else Inr m)"

text \<open>
  The file descriptors of a message: the first two are handed out where asked for, else closed;
  a missing one is -1.  The result is both descriptors and the closed ones.
\<close>

definition ipc_recv_fds :: "bool \<Rightarrow> bool \<Rightarrow> int list \<Rightarrow> int \<times> int \<times> int list" where
  "ipc_recv_fds want_fd want_fd2 fds =
     (let n = length fds in
      (if n \<ge> 1 \<and> want_fd then fds ! 0 else -1,
       if n \<ge> 2 \<and> want_fd2 then fds ! 1 else -1,
       (if n \<ge> 1 \<and> \<not> want_fd then [fds ! 0] else []) @
       (if n \<ge> 2 \<and> \<not> want_fd2 then [fds ! 1] else [])))"

text \<open>\<open>recv_init_msg\<close>: the log level and the two channel descriptors of the first message.\<close>

definition recv_init_msg :: "byte list \<Rightarrow> int list \<Rightarrow> (u32 \<times> int \<times> int) result" where
  "recv_init_msg msg fds =
     res_bind (ipc_recv_msg IPC_MSG_INIT 12 12 msg) (\<lambda>m.
     case ipc_recv_fds True True fds of (cmd_fd, img_fd, _) \<Rightarrow>
       Inr (fld m 4 4, cmd_fd, if (fld m 8 1 :: byte) = 0 \<and> img_fd \<ge> 0 then -1 else img_fd))"

section \<open>Pairing data\<close>

text \<open>
  The globals of \<open>main.c\<close>.  Names are C strings without their terminator;
  \<open>strncpy (dst, name, 128)\<close> into the zeroed 129-byte buffer keeps 128 characters.
\<close>

record pdata_state =
  has_sensor_name :: bool
  probe_sensor_name :: "byte list"
  cached_pdata :: "byte list option"
  pdata_sent :: "byte list list"

definition pdata_init :: pdata_state where
  "pdata_init = \<lparr>has_sensor_name = False, probe_sensor_name = [], cached_pdata = None,
     pdata_sent = []\<rparr>"

definition name_field :: "byte list \<Rightarrow> byte list" where
  "name_field name = (let t = take IPC_SENSOR_NAME_SIZE name
     in t @ replicate (IPC_SENSOR_NAME_SIZE + 1 - length t) 0)"

text \<open>\<open>LOAD_PDATA\<close> has 133 bytes and 3 of padding; \<open>STORE_PDATA\<close>'s data starts at byte 133.\<close>

definition load_pdata_msg :: "byte list \<Rightarrow> byte list" where
  "load_pdata_msg name = word_le 4 (msg_code IPC_MSG_LOAD_PDATA) @ name_field name @ replicate 3 0"

definition store_pdata_msg :: "byte list \<Rightarrow> byte list \<Rightarrow> byte list" where
  "store_pdata_msg name data =
     word_le 4 (msg_code IPC_MSG_STORE_PDATA) @ name_field name @ data @ replicate 3 0"

text \<open>
  \<open>get_pdata_cb\<close>; \<open>resp\<close> is the module's answer, if it is waited for.  \<open>RESP_LOAD_PDATA\<close> is eight
  bytes long, but its data starts at byte 5; the flag \<open>has_pdata\<close> at byte 4 is not read.
\<close>

definition get_pdata_cb ::
    "byte list \<Rightarrow> byte list \<Rightarrow> pdata_state \<Rightarrow> (byte list \<times> pdata_state) result" where
  "get_pdata_cb name resp st =
     (if has_sensor_name st \<and> name \<noteq> probe_sensor_name st then Inl Abort
      else
        let st1 = (if has_sensor_name st then st
                   else st\<lparr>probe_sensor_name := take IPC_SENSOR_NAME_SIZE name,
                           has_sensor_name := True\<rparr>)
        in case cached_pdata st1 of
             Some d \<Rightarrow> Inr (d, st1)
           | None \<Rightarrow>
               let st2 = st1\<lparr>pdata_sent := pdata_sent st1 @ [load_pdata_msg name]\<rparr> in
               res_bind (ipc_recv_msg IPC_MSG_RESP_LOAD_PDATA 8 (8 + IPC_MAX_PDATA_SIZE) resp) (\<lambda>m.
                 let d = take (length m - 8) (drop 5 m)
                 in Inr (d, st2\<lparr>cached_pdata := Some d\<rparr>)))"

definition set_pdata_cb ::
    "byte list \<Rightarrow> byte list \<Rightarrow> byte list \<Rightarrow> pdata_state \<Rightarrow> pdata_state result" where
  "set_pdata_cb name data resp st =
     (if length data > IPC_MAX_PDATA_SIZE then Inl Abort
      else
        let st1 = (if has_sensor_name st then st
                   else st\<lparr>probe_sensor_name := take IPC_SENSOR_NAME_SIZE name,
                           has_sensor_name := True\<rparr>);
            st2 = st1\<lparr>cached_pdata := Some data,
                      pdata_sent := pdata_sent st1 @ [store_pdata_msg name data]\<rparr>
        in res_bind (ipc_recv_msg IPC_MSG_ACK 4 4 resp) (\<lambda>_. Inr st2))"

text \<open>A \<open>RESP_LOAD_PDATA\<close> message as the module builds it.\<close>

definition resp_load_pdata_msg :: "byte list option \<Rightarrow> byte list" where
  "resp_load_pdata_msg d =
     word_le 4 (msg_code IPC_MSG_RESP_LOAD_PDATA) @
     [bool_byte (d \<noteq> None)] @ (case d of None \<Rightarrow> [] | Some x \<Rightarrow> x) @ replicate 3 0"

lemma recv_key_msg:
  "length d + 24 \<le> mx \<Longrightarrow> ipc_recv_msg t 24 mx (key_msg t g f d) = Inr (key_msg t g f d)"
  by (simp add: ipc_recv_msg_def Let_def)

lemma recv_simple_msg: "ipc_recv_msg t 4 4 (simple_msg t) = Inr (simple_msg t)"
  by (simp add: ipc_recv_msg_def Let_def)

section \<open>Properties\<close>

text \<open>
  The host's cache of pairing data: the first request for a sensor sends one message and
  returns what the module holds for it; requests after that, and after a store, return the latest
  data without a message.
\<close>

theorem pdata_cache_coherent:
  assumes "length name \<le> IPC_SENSOR_NAME_SIZE" and "length d \<le> IPC_MAX_PDATA_SIZE"
    and "length d' \<le> IPC_MAX_PDATA_SIZE"
  shows "\<exists>st1 st2. get_pdata_cb name (resp_load_pdata_msg (Some d)) pdata_init = Inr (d, st1) \<and>
    pdata_sent st1 = [load_pdata_msg name] \<and>
    (\<forall>resp. get_pdata_cb name resp st1 = Inr (d, st1)) \<and>
    set_pdata_cb name d' (simple_msg IPC_MSG_ACK) st1 = Inr st2 \<and>
    (\<forall>resp. get_pdata_cb name resp st2 = Inr (d', st2)) \<and>
    pdata_sent st2 = [load_pdata_msg name, store_pdata_msg name d']"
proof -
  have len: "length (resp_load_pdata_msg (Some d)) = 8 + length d"
    by (simp add: resp_load_pdata_msg_def)
  have tag: "(fld (resp_load_pdata_msg (Some d)) 0 4 :: u32) = msg_code IPC_MSG_RESP_LOAD_PDATA"
    by (simp add: resp_load_pdata_msg_def fld_def)
  have recv: "ipc_recv_msg IPC_MSG_RESP_LOAD_PDATA 8 (8 + IPC_MAX_PDATA_SIZE) (resp_load_pdata_msg (Some d))
      = Inr (resp_load_pdata_msg (Some d))"
    using len tag assms(2) by (simp add: ipc_recv_msg_def Let_def)
  have pay: "take (length (resp_load_pdata_msg (Some d)) - 8) (drop 5 (resp_load_pdata_msg (Some d))) = d"
    unfolding len by (simp add: resp_load_pdata_msg_def)
  have nm: "take IPC_SENSOR_NAME_SIZE name = name" using assms(1) by simp
  show ?thesis
    using recv pay nm assms(3) recv_simple_msg[of IPC_MSG_ACK]
    by (simp add: get_pdata_cb_def set_pdata_cb_def pdata_init_def Let_def)
qed

theorem pdata_cache_coherent_witness:
  "\<exists>st. get_pdata_cb [65] (resp_load_pdata_msg (Some [1, 2])) pdata_init = Inr ([1, 2], st)"
  using pdata_cache_coherent[of "[65]" "[1, 2]" "[3]"]
  by (simp add: IPC_SENSOR_NAME_SIZE_def IPC_MAX_PDATA_SIZE_def) blast

text \<open>
  The host does not read the flag that tells whether the module has pairing data: a negative
  answer is cached and returned as empty pairing data.
\<close>

theorem missing_pdata_becomes_empty:
  assumes "length name \<le> IPC_SENSOR_NAME_SIZE"
  shows "\<exists>st. get_pdata_cb name (resp_load_pdata_msg None) pdata_init = Inr ([], st) \<and>
    cached_pdata st = Some []"
proof -
  have len: "length (resp_load_pdata_msg None) = 8" by (simp add: resp_load_pdata_msg_def)
  have tag: "(fld (resp_load_pdata_msg None) 0 4 :: u32) = msg_code IPC_MSG_RESP_LOAD_PDATA"
    by (simp add: resp_load_pdata_msg_def fld_def)
  have "ipc_recv_msg IPC_MSG_RESP_LOAD_PDATA 8 (8 + IPC_MAX_PDATA_SIZE) (resp_load_pdata_msg None)
      = Inr (resp_load_pdata_msg None)"
    using len tag by (simp add: ipc_recv_msg_def Let_def)
  then show ?thesis using len by (simp add: get_pdata_cb_def pdata_init_def Let_def)
qed

theorem missing_pdata_becomes_empty_witness:
  "\<exists>st. get_pdata_cb [65] (resp_load_pdata_msg None) pdata_init = Inr ([], st)"
  using missing_pdata_becomes_empty[of "[65]"] by (auto simp: IPC_SENSOR_NAME_SIZE_def)

end
