(* ===== verification/Datastore.thy ===== *)
theory Datastore
  imports Record_Store Host_Ipc
begin

text \<open>
  The data store of the command line tool, \<open>cli/src/datastore.c\<close>: the list of pairing data and
  its mutex, and the file the pairing data and the templates are kept in.  A file open for reading
  is the bytes that are left in it; a file open for writing is the bytes written and the number of
  bytes it still takes.  A \<open>malloc\<close> that fails for a size read from the file makes the loader
  return \<open>false\<close>, as the short read behind it does, so it is no branch of its own; the other
  allocations succeed.
\<close>

section \<open>Files\<close>

record out_file =
  out_bytes :: "byte list"
  out_room :: nat

definition fputc_to :: "byte \<Rightarrow> out_file \<Rightarrow> bool \<times> out_file" where
  "fputc_to b f = (if out_room f = 0 then (False, f)
     else (True, f\<lparr>out_bytes := out_bytes f @ [b], out_room := out_room f - 1\<rparr>))"

text \<open>\<open>fwrite\<close> returns how many bytes it wrote; the callers compare that with what they gave it.\<close>

definition fwrite_to :: "byte list \<Rightarrow> out_file \<Rightarrow> bool \<times> out_file" where
  "fwrite_to bs f = (let n = min (length bs) (out_room f) in
     (n = length bs, f\<lparr>out_bytes := out_bytes f @ take n bs, out_room := out_room f - n\<rparr>))"

text \<open>A list of writes, each made only when those before it succeeded.\<close>

fun write_all :: "byte list list \<Rightarrow> out_file \<Rightarrow> bool \<times> out_file" where
  "write_all [] f = (True, f)"
| "write_all (bs # bss) f =
     (case fwrite_to bs f of (ok, f') \<Rightarrow> if ok then write_all bss f' else (False, f'))"

lemma fputc_to_fwrite: "fputc_to b f = fwrite_to [b] f"
  by (cases "out_room f") (auto simp: fputc_to_def fwrite_to_def)

lemma write_all_ok:
  "length (concat bss) \<le> out_room f \<Longrightarrow>
   write_all bss f = (True, f\<lparr>out_bytes := out_bytes f @ concat bss,
     out_room := out_room f - length (concat bss)\<rparr>)"
  by (induction bss arbitrary: f) (auto simp: fwrite_to_def min_def)

lemma write_all_short:
  "out_room f < length (concat bss) \<Longrightarrow> \<not> fst (write_all bss f)"
  by (induction bss arbitrary: f) (auto simp: fwrite_to_def min_def)

section \<open>Pairing data\<close>

text \<open>
  \<open>struct pdata\<close>, whose list links are the position in the list, and the two globals.  A name is
  a C string without its terminator; \<open>data_size\<close> is the length of the data.
\<close>

record pdata =
  pd_name :: "byte list"
  pd_data :: "byte list"

record datastore =
  pdata_head :: "pdata list"
  pdata_locked :: bool

definition empty_datastore :: datastore where
  "empty_datastore = \<lparr>pdata_head = [], pdata_locked = False\<rparr>"

definition c_str :: "byte list \<Rightarrow> byte list" where
  "c_str bs = takeWhile (\<lambda>b. b \<noteq> 0) bs"

text \<open>The mutex is of the default kind: locking it again blocks for good.\<close>

fun find_pair_data :: "byte list \<Rightarrow> pdata list \<Rightarrow> byte list option" where
  "find_pair_data name [] = None"
| "find_pair_data name (pd # pds) =
     (if pd_name pd = name then Some (pd_data pd) else find_pair_data name pds)"

definition get_pair_data :: "byte list \<Rightarrow> datastore \<Rightarrow> byte list option result" where
  "get_pair_data name ds =
     (if pdata_locked ds then Inl Hang else Inr (find_pair_data name (pdata_head ds)))"

fun replace_pair_data :: "byte list \<Rightarrow> byte list \<Rightarrow> pdata list \<Rightarrow> pdata list option" where
  "replace_pair_data name data [] = None"
| "replace_pair_data name data (pd # pds) =
     (if pd_name pd = name then Some (pd\<lparr>pd_data := data\<rparr> # pds)
      else map_option (Cons pd) (replace_pair_data name data pds))"

definition set_pair_data :: "byte list \<Rightarrow> byte list \<Rightarrow> datastore \<Rightarrow> datastore result" where
  "set_pair_data name data ds =
     (if pdata_locked ds then Inl Hang
      else case replace_pair_data name data (pdata_head ds) of
        Some pds \<Rightarrow> Inr (ds\<lparr>pdata_head := pds\<rparr>)
      | None \<Rightarrow> Inr (ds\<lparr>pdata_head := \<lparr>pd_name = name, pd_data = data\<rparr> # pdata_head ds\<rparr>))"

text \<open>\<open>load_datastore_pair_data\<close>: a length, the name, the size as \<open>size_t\<close>, the data.\<close>

function load_datastore_pair_data ::
    "byte list \<Rightarrow> datastore \<Rightarrow> (bool \<times> byte list \<times> datastore) result" where
  "load_datastore_pair_data [] ds = Inr (True, [], ds)"
| "load_datastore_pair_data (c # r) ds =
     (if c = 0 then Inr (True, r, ds)
      else if length (take (unat c) r) \<noteq> unat c then Inr (False, [], ds)
      else let name = take (unat c) r; r1 = drop (unat c) r in
      if length (take 8 r1) \<noteq> 8 then Inr (False, [], ds)
      else let size = unat (le_word (take 8 r1) :: u64); r2 = drop 8 r1 in
      if length (take size r2) \<noteq> size then Inr (False, [], ds)
      else if pdata_locked ds then Inl Hang
      else load_datastore_pair_data (drop size r2)
        (ds\<lparr>pdata_head := \<lparr>pd_name = c_str name, pd_data = take size r2\<rparr> # pdata_head ds\<rparr>))"
  by pat_completeness auto
termination by (relation "measure (length \<circ> fst)") auto

text \<open>
  \<open>save_datastore_pair_data\<close>: a write error returns with the mutex held.  The length of the name
  is written as one byte.
\<close>

definition pair_data_writes :: "pdata \<Rightarrow> byte list list" where
  "pair_data_writes pd =
     [[word_of_nat (length (pd_name pd))], pd_name pd,
      word_le 8 (word_of_nat (length (pd_data pd)) :: u64), pd_data pd]"

fun save_pair_data_loop :: "pdata list \<Rightarrow> out_file \<Rightarrow> bool \<times> out_file" where
  "save_pair_data_loop [] f = (True, f)"
| "save_pair_data_loop (pd # pds) f =
     (case write_all (pair_data_writes pd) f of
        (ok, f') \<Rightarrow> if ok then save_pair_data_loop pds f' else (False, f'))"

definition save_datastore_pair_data ::
    "datastore \<Rightarrow> out_file \<Rightarrow> (bool \<times> datastore \<times> out_file) result" where
  "save_datastore_pair_data ds f =
     (if pdata_locked ds then Inl Hang
      else case save_pair_data_loop (pdata_head ds) f of (ok, f') \<Rightarrow>
        if \<not> ok then Inr (False, ds\<lparr>pdata_locked := True\<rparr>, f')
        else case fputc_to 0 f' of (ok', f'') \<Rightarrow> Inr (ok', ds, f''))"

definition free_pair_data :: "datastore \<Rightarrow> datastore" where
  "free_pair_data ds = ds\<lparr>pdata_head := []\<rparr>"

section \<open>Records\<close>

text \<open>
  \<open>load_datastore_records\<close>: an indicator, the GUID, the finger as a four byte enumeration, the
  size and the template.  The indicator is read into a \<open>char\<close>, so the byte 255 ends the list as
  the end of the file does.
\<close>

function load_datastore_records ::
    "byte list \<Rightarrow> tudor_device \<Rightarrow> (bool \<times> byte list \<times> tudor_device) result" where
  "load_datastore_records [] dev = Inr (True, [], dev)"
| "load_datastore_records (ind # r) dev =
     (if ind = 0 \<or> ind = 255 then Inr (True, r, dev)
      else if length r < 16 then Inr (False, [], dev)
      else if length (drop 16 r) < 4 then Inr (False, [], dev)
      else if length (drop 20 r) < 8 then Inr (False, [], dev)
      else let size = unat (fld r 20 8 :: u64); r1 = drop 28 r in
      if length (take size r1) \<noteq> size then Inr (False, [], dev)
      else (case tudor_add_record True dev (guid_of_bytes (take 16 r)) (fld r 16 4) (take size r1) of
          Inl e \<Rightarrow> Inl e
        | Inr (added, dev') \<Rightarrow>
            if added then load_datastore_records (drop size r1) dev'
            else Inr (False, drop size r1, dev')))"
  by pat_completeness auto
termination by (relation "measure (length \<circ> fst)") auto

text \<open>\<open>save_datastore_records\<close>; the first component of the result is whether \<open>records_lock\<close> is
  still held.\<close>

definition record_writes :: "tudor_record \<Rightarrow> byte list list" where
  "record_writes r =
     [[1], guid_bytes (rec_guid r), word_le 4 (rec_finger r),
      word_le 8 (word_of_nat (length (rec_data r)) :: u64), rec_data r]"

fun save_records_loop :: "tudor_record list \<Rightarrow> out_file \<Rightarrow> bool \<times> out_file" where
  "save_records_loop [] f = (True, f)"
| "save_records_loop (r # rs) f =
     (case write_all (record_writes r) f of
        (ok, f') \<Rightarrow> if ok then save_records_loop rs f' else (False, f'))"

definition save_datastore_records :: "tudor_device \<Rightarrow> out_file \<Rightarrow> bool \<times> bool \<times> out_file" where
  "save_datastore_records dev f =
     (case save_records_loop (device_records dev) f of (ok, f') \<Rightarrow>
        if \<not> ok then (True, False, f')
        else case fputc_to 0 f' of (ok', f'') \<Rightarrow> (False, ok', f''))"

section \<open>The tool's file\<close>

text \<open>
  What \<open>main\<close> does with the file: both lists are read from it at the start, with the device
  opened in between, and written to it, truncated, at the end.
\<close>

definition load_data_store ::
    "byte list \<Rightarrow> datastore \<Rightarrow> tudor_device \<Rightarrow> (bool \<times> datastore \<times> tudor_device) result" where
  "load_data_store file ds dev =
     res_bind (load_datastore_pair_data file ds) (\<lambda>(ok, rest, ds').
       if \<not> ok then Inr (False, ds', dev)
       else res_bind (load_datastore_records rest dev) (\<lambda>(ok', rest', dev').
         Inr (ok', ds', dev')))"

definition save_data_store ::
    "nat \<Rightarrow> datastore \<Rightarrow> tudor_device \<Rightarrow> (bool \<times> byte list) result" where
  "save_data_store room ds dev =
     res_bind (save_datastore_pair_data ds \<lparr>out_bytes = [], out_room = room\<rparr>) (\<lambda>(ok, ds', f).
       if \<not> ok then Inr (False, out_bytes f)
       else case save_datastore_records dev f of (_, ok', f') \<Rightarrow> Inr (ok', out_bytes f'))"

section \<open>What the file holds\<close>

definition pair_data_bytes :: "pdata \<Rightarrow> byte list" where
  "pair_data_bytes pd = concat (pair_data_writes pd)"

definition record_bytes :: "tudor_record \<Rightarrow> byte list" where
  "record_bytes r = concat (record_writes r)"

definition data_store_bytes :: "datastore \<Rightarrow> tudor_device \<Rightarrow> byte list" where
  "data_store_bytes ds dev =
     concat (map pair_data_bytes (pdata_head ds)) @ [0] @
     concat (map record_bytes (device_records dev)) @ [0]"

lemma save_pair_data_loop_ok:
  "length (concat (map pair_data_bytes pds)) \<le> out_room f \<Longrightarrow>
   save_pair_data_loop pds f =
     (True, f\<lparr>out_bytes := out_bytes f @ concat (map pair_data_bytes pds),
       out_room := out_room f - length (concat (map pair_data_bytes pds))\<rparr>)"
  by (induction pds arbitrary: f) (auto simp: write_all_ok pair_data_bytes_def)

lemma save_records_loop_ok:
  "length (concat (map record_bytes rs)) \<le> out_room f \<Longrightarrow>
   save_records_loop rs f =
     (True, f\<lparr>out_bytes := out_bytes f @ concat (map record_bytes rs),
       out_room := out_room f - length (concat (map record_bytes rs))\<rparr>)"
  by (induction rs arbitrary: f) (auto simp: write_all_ok record_bytes_def)

lemma save_data_store_ok:
  assumes "\<not> pdata_locked ds" and "length (data_store_bytes ds dev) \<le> room"
  shows "save_data_store room ds dev = Inr (True, data_store_bytes ds dev)"
  using assms
  by (auto simp: save_data_store_def save_datastore_pair_data_def save_datastore_records_def
      save_pair_data_loop_ok save_records_loop_ok fputc_to_fwrite fwrite_to_def
      data_store_bytes_def min_def)

text \<open>An entry the format can hold: a name of 1 to 255 characters, sizes that fit.\<close>

definition pdata_fits :: "pdata \<Rightarrow> bool" where
  "pdata_fits pd \<longleftrightarrow> 0 \<notin> set (pd_name pd) \<and> 0 < length (pd_name pd) \<and>
     length (pd_name pd) < 256 \<and> length (pd_data pd) < 2 ^ 64"

lemma c_str_id: "0 \<notin> set s \<Longrightarrow> c_str s = s"
  unfolding c_str_def by (rule takeWhile_eq_all_conv[THEN iffD2]) auto

lemma unat_size: "n < 2 ^ 64 \<Longrightarrow> unat (word_of_nat n :: u64) = n"
  by (simp add: unat_of_nat take_bit_nat_eq_self)

lemma load_pair_data_entry:
  assumes "pdata_fits pd" and "\<not> pdata_locked ds"
  shows "load_datastore_pair_data (pair_data_bytes pd @ rest) ds =
    load_datastore_pair_data rest (ds\<lparr>pdata_head := pd # pdata_head ds\<rparr>)"
proof -
  have n: "unat (word_of_nat (length (pd_name pd)) :: byte) = length (pd_name pd)"
    using assms(1) by (simp add: pdata_fits_def unat_of_nat take_bit_nat_eq_self)
  then have "(word_of_nat (length (pd_name pd)) :: byte) \<noteq> 0"
    using assms(1) by (auto simp: pdata_fits_def)
  moreover obtain nm d where "pd = \<lparr>pd_name = nm, pd_data = d\<rparr>" by (cases pd) simp
  ultimately show ?thesis using n assms
    by (simp add: pair_data_bytes_def pair_data_writes_def pdata_fits_def c_str_id unat_size)
qed

lemma load_pair_data_entries:
  assumes "\<forall>pd \<in> set pds. pdata_fits pd" and "\<not> pdata_locked ds"
  shows "load_datastore_pair_data (concat (map pair_data_bytes pds) @ 0 # rest) ds =
    Inr (True, rest, ds\<lparr>pdata_head := rev pds @ pdata_head ds\<rparr>)"
  using assms
  by (induction pds arbitrary: ds) (auto simp: load_pair_data_entry)

lemma fld_after: "length a = off \<Longrightarrow> length b = n \<Longrightarrow> fld (a @ b @ c) off n = le_word b"
  by (simp add: fld_def)

lemma load_record_entry:
  assumes "length (rec_data r) < 2 ^ 64"
  shows "load_datastore_records (record_bytes r @ rest) dev =
    (case tudor_add_record True dev (rec_guid r) (rec_finger r) (rec_data r) of
       Inl e \<Rightarrow> Inl e
     | Inr (added, dev') \<Rightarrow>
         if added then load_datastore_records rest dev' else Inr (False, rest, dev'))"
proof -
  let ?z = "word_le 8 (word_of_nat (length (rec_data r)) :: u64)"
  let ?t = "guid_bytes (rec_guid r) @ word_le 4 (rec_finger r) @ ?z @ rec_data r @ rest"
  have e: "record_bytes r @ rest = 1 # ?t"
    by (simp add: record_bytes_def record_writes_def)
  have s: "unat (fld ?t 20 8 :: u64) = length (rec_data r)"
    using fld_after[where ?'a = 64, of "guid_bytes (rec_guid r) @ word_le 4 (rec_finger r)" 20 ?z 8 "rec_data r @ rest"]
      assms by (simp add: unat_size)
  have f: "(fld ?t 16 4 :: u32) = rec_finger r"
    using fld_after[where ?'a = 32, of "guid_bytes (rec_guid r)" 16 "word_le 4 (rec_finger r)" 4] by simp
  show ?thesis unfolding e using s f
    by (simp add: Let_def split: sum.split prod.split)
qed


lemma load_record_entries:
  assumes "\<forall>r \<in> set rs. length (rec_data r) < 2 ^ 64"
    and "distinct (map rec_key rs)" and "rec_key ` set rs \<inter> rec_key ` set (device_records dev) = {}"
    and "\<forall>r \<in> set rs. rec_identity r = guid_identity (rec_guid r)"
  shows "\<exists>dev'. load_datastore_records (concat (map record_bytes rs) @ 0 # rest) dev =
      Inr (True, rest, dev') \<and> device_records dev' = rev rs @ device_records dev"
  using assms
proof (induction rs arbitrary: dev)
  case Nil
  then show ?case by simp
next
  case (Cons r rs)
  let ?dev = "push_record r dev"
  have r: "r = \<lparr>rec_identity = guid_identity (rec_guid r), rec_guid = rec_guid r,
      rec_finger = rec_finger r, rec_data = rec_data r\<rparr>"
    using Cons.prems(4) by simp
  have "\<not> has_record (rec_guid r) (rec_finger r) dev"
    using Cons.prems(3) by (auto simp: has_record_iff rec_key_def)
  then have "tudor_add_record True dev (rec_guid r) (rec_finger r) (rec_data r) = Inr (True, ?dev)"
    using r by (simp add: tudor_add_record_def)
  then have step: "load_datastore_records (concat (map record_bytes (r # rs)) @ 0 # rest) dev =
      load_datastore_records (concat (map record_bytes rs) @ 0 # rest) ?dev"
    using load_record_entry[of r "concat (map record_bytes rs) @ 0 # rest" dev] Cons.prems(1) by simp
  have recs: "device_records ?dev = r # device_records dev" by (simp add: push_record_def)
  have "\<exists>dev'. load_datastore_records (concat (map record_bytes rs) @ 0 # rest) ?dev =
      Inr (True, rest, dev') \<and> device_records dev' = rev rs @ device_records ?dev"
  proof (rule Cons.IH)
    show "rec_key ` set rs \<inter> rec_key ` set (device_records ?dev) = {}"
      using Cons.prems(2,3) unfolding recs by auto
    show "\<forall>r \<in> set rs. length (rec_data r) < 2 ^ 64" using Cons.prems(1) by (simp del: power_numeral)
    show "distinct (map rec_key rs)" using Cons.prems(2) by simp
    show "\<forall>r \<in> set rs. rec_identity r = guid_identity (rec_guid r)" using Cons.prems(4) by simp
  qed
  then show ?case using step recs by auto
qed

text \<open>Reversing a list without repeated keys does not change what it maps to.\<close>

lemma map_of_rev_distinct: "distinct (map fst xs) \<Longrightarrow> map_of (rev xs) = map_of xs"
  by (rule map_of_eqI) (auto simp: rev_map[symmetric])

definition pair_map :: "datastore \<Rightarrow> byte list \<rightharpoonup> byte list" where
  "pair_map ds = map_of (map (\<lambda>pd. (pd_name pd, pd_data pd)) (pdata_head ds))"

lemma find_pair_data_map:
  "find_pair_data name pds = map_of (map (\<lambda>pd. (pd_name pd, pd_data pd)) pds) name"
  by (induction pds) auto

lemma replace_pair_data_None: "replace_pair_data name data pds = None \<longleftrightarrow> name \<notin> pd_name ` set pds"
  by (induction pds) auto

lemma replace_pair_data_map:
  "replace_pair_data name data pds = Some pds' \<Longrightarrow>
   map_of (map (\<lambda>pd. (pd_name pd, pd_data pd)) pds') =
     (map_of (map (\<lambda>pd. (pd_name pd, pd_data pd)) pds))(name \<mapsto> data) \<and>
   map pd_name pds' = map pd_name pds"
  by (induction pds arbitrary: pds') (auto split: if_splits)


lemma save_pair_data_loop_short:
  "out_room f < length (concat (map pair_data_bytes pds)) \<Longrightarrow> \<not> fst (save_pair_data_loop pds f)"
proof (induction pds arbitrary: f)
  case Nil
  then show ?case by simp
next
  case (Cons pd pds)
  show ?case
  proof (cases "length (pair_data_bytes pd) \<le> out_room f")
    case True
    with Cons show ?thesis by (simp add: write_all_ok pair_data_bytes_def)
  next
    case False
    then show ?thesis using write_all_short[of f "pair_data_writes pd"]
      by (auto simp: pair_data_bytes_def split: prod.split)
  qed
qed

section \<open>Properties\<close>

text \<open>
  C17: What the tool saves it loads again: written to a file with room for it and read back into
  an empty list and a newly opened device, the pairing data of every name and the template under
  every key are the same.
\<close>

theorem datastore_roundtrip:
  assumes "\<forall>pd \<in> set (pdata_head ds). pdata_fits pd" and "distinct (map pd_name (pdata_head ds))"
    and "\<not> pdata_locked ds" and "store_inv dev"
    and "\<forall>r \<in> set (device_records dev). length (rec_data r) < 2 ^ 64"
    and "length (data_store_bytes ds dev) \<le> room" and "device_records dev0 = []"
  shows "\<exists>bytes ds' dev'. save_data_store room ds dev = Inr (True, bytes) \<and>
    load_data_store bytes empty_datastore dev0 = Inr (True, ds', dev') \<and>
    (\<forall>name. get_pair_data name ds' = get_pair_data name ds) \<and> store_map dev' = store_map dev"
proof -
  let ?rs = "device_records dev"
  have inv: "\<forall>r \<in> set ?rs. rec_identity r = guid_identity (rec_guid r)" "distinct (map rec_key ?rs)"
    using assms(4) by (auto simp: store_inv_def key_inv_def)
  obtain dev' where l: "load_datastore_records (concat (map record_bytes ?rs) @ 0 # []) dev0 =
      Inr (True, [], dev')" and d: "device_records dev' = rev ?rs"
    using load_record_entries[OF assms(5) inv(2) _ inv(1), of dev0 "[]"] assms(7) by auto
  let ?ds = "empty_datastore\<lparr>pdata_head := rev (pdata_head ds)\<rparr>"
  have "load_data_store (data_store_bytes ds dev) empty_datastore dev0 = Inr (True, ?ds, dev')"
    using load_pair_data_entries[OF assms(1), of empty_datastore] l
    by (simp add: load_data_store_def data_store_bytes_def empty_datastore_def)
  moreover have "\<forall>name. get_pair_data name ?ds = get_pair_data name ds"
    using assms(2,3)
    by (simp add: get_pair_data_def find_pair_data_map empty_datastore_def rev_map[symmetric]
        map_of_rev_distinct comp_def)
  moreover have "store_map dev' = store_map dev"
    unfolding store_map_def d using inv(2)
    by (simp add: rev_map[symmetric] map_of_rev_distinct comp_def)
  ultimately show ?thesis using save_data_store_ok[OF assms(3,6)] by blast
qed

lemma datastore_roundtrip_witness:
  "\<exists>bytes ds' dev'.
     save_data_store 100 \<lparr>pdata_head = [\<lparr>pd_name = [65], pd_data = [1, 2]\<rparr>], pdata_locked = False\<rparr>
       fresh_device = Inr (True, bytes) \<and>
     load_data_store bytes empty_datastore fresh_device = Inr (True, ds', dev') \<and>
     get_pair_data [65] ds' = Inr (Some [1, 2])"
proof -
  let ?ds = "\<lparr>pdata_head = [\<lparr>pd_name = [65], pd_data = [1, 2]\<rparr>], pdata_locked = False\<rparr>"
  have "device_records fresh_device = []" by (simp add: fresh_device_def)
  then have "\<exists>bytes ds' dev'. save_data_store 100 ?ds fresh_device = Inr (True, bytes) \<and>
      load_data_store bytes empty_datastore fresh_device = Inr (True, ds', dev') \<and>
      (\<forall>name. get_pair_data name ds' = get_pair_data name ?ds) \<and> store_map dev' = store_map fresh_device"
    by (intro datastore_roundtrip store_inv_fresh)
      (simp_all add: pdata_fits_def data_store_bytes_def pair_data_bytes_def pair_data_writes_def)
  moreover have "get_pair_data [65] ?ds = Inr (Some [1, 2])" by (simp add: get_pair_data_def)
  ultimately show ?thesis by metis
qed

text \<open>
  \<open>set_pair_data\<close> is an update of the map from names to pairing data that
  \<open>get_pair_data\<close> reads, and keeps the names distinct.
\<close>

theorem set_pair_data_refines_update:
  assumes "set_pair_data name data ds = Inr ds'" and "distinct (map pd_name (pdata_head ds))"
  shows "pair_map ds' = (pair_map ds)(name \<mapsto> data) \<and> distinct (map pd_name (pdata_head ds')) \<and>
    (\<forall>n. get_pair_data n ds' = Inr (pair_map ds' n))"
proof -
  have l: "\<not> pdata_locked ds" using assms(1) by (auto simp: set_pair_data_def)
  show ?thesis
  proof (cases "replace_pair_data name data (pdata_head ds)")
    case None
    with assms l show ?thesis
      using replace_pair_data_None[of name data "pdata_head ds"]
      by (auto simp: set_pair_data_def get_pair_data_def pair_map_def find_pair_data_map)
  next
    case (Some pds)
    with assms l replace_pair_data_map[OF Some] show ?thesis
      by (auto simp: set_pair_data_def get_pair_data_def pair_map_def find_pair_data_map)
  qed
qed

lemma set_pair_data_refines_update_witness:
  "\<exists>ds'. set_pair_data [65] [7] empty_datastore = Inr ds' \<and> get_pair_data [65] ds' = Inr (Some [7])"
proof -
  obtain ds' where d: "set_pair_data [65] [7] empty_datastore = Inr ds'"
    by (simp add: set_pair_data_def empty_datastore_def)
  from set_pair_data_refines_update[OF d] d show ?thesis by (auto simp: empty_datastore_def)
qed

text \<open>
  The length of a name is written as one byte.  A name of 256 characters (or of any multiple)
  is saved without complaint, but its first byte is the end mark: loading the file finds no
  pairing data at all and takes the rest of the entry for the list of records.
\<close>

theorem long_name_ends_pair_data:
  assumes "pdata_head ds = pd # pds" and "length (pd_name pd) mod 256 = 0"
    and "\<not> pdata_locked ds" and "length (data_store_bytes ds dev) \<le> room"
  shows "\<exists>rest. save_data_store room ds dev = Inr (True, 0 # rest) \<and>
    load_datastore_pair_data (0 # rest) empty_datastore = Inr (True, rest, empty_datastore)"
proof -
  have "(word_of_nat (length (pd_name pd)) :: byte) = 0"
    using assms(2) by (simp add: word_of_nat_eq_0_iff dvd_eq_mod_eq_0)
  then have "\<exists>rest. data_store_bytes ds dev = 0 # rest"
    using assms(1) by (simp add: data_store_bytes_def pair_data_bytes_def pair_data_writes_def)
  then show ?thesis using save_data_store_ok[OF assms(3,4)] by auto
qed

lemma long_name_ends_pair_data_witness:
  "\<exists>rest. save_data_store 1000
      \<lparr>pdata_head = [\<lparr>pd_name = replicate 256 65, pd_data = [1]\<rparr>], pdata_locked = False\<rparr> fresh_device =
      Inr (True, 0 # rest)"
  using long_name_ends_pair_data[of
      "\<lparr>pdata_head = [\<lparr>pd_name = replicate 256 65, pd_data = [1]\<rparr>], pdata_locked = False\<rparr>"
      "\<lparr>pd_name = replicate 256 65, pd_data = [1]\<rparr>" "[]" fresh_device 1000]
  by (auto simp: data_store_bytes_def pair_data_bytes_def pair_data_writes_def fresh_device_def)

text \<open>
  A file without room for the pairing data makes the save fail, and the mutex stays locked:
  every later request for pairing data blocks for good.
\<close>

theorem failed_save_keeps_mutex:
  assumes "\<not> pdata_locked ds"
    and "room < length (concat (map pair_data_bytes (pdata_head ds)))"
  shows "\<exists>ds' f. save_datastore_pair_data ds \<lparr>out_bytes = [], out_room = room\<rparr> = Inr (False, ds', f) \<and>
    (\<forall>name. get_pair_data name ds' = Inl Hang)"
  using assms save_pair_data_loop_short[of "\<lparr>out_bytes = [], out_room = room\<rparr>" "pdata_head ds"]
  by (cases "save_pair_data_loop (pdata_head ds) \<lparr>out_bytes = [], out_room = room\<rparr>")
    (auto simp: save_datastore_pair_data_def get_pair_data_def)

lemma failed_save_keeps_mutex_witness:
  "\<exists>ds' f. save_datastore_pair_data
      \<lparr>pdata_head = [\<lparr>pd_name = [65], pd_data = [1, 2]\<rparr>], pdata_locked = False\<rparr>
      \<lparr>out_bytes = [], out_room = 5\<rparr> = Inr (False, ds', f) \<and> get_pair_data [65] ds' = Inl Hang"
  using failed_save_keeps_mutex[of
      "\<lparr>pdata_head = [\<lparr>pd_name = [65], pd_data = [1, 2]\<rparr>], pdata_locked = False\<rparr>" 5]
  by (simp add: pair_data_bytes_def pair_data_writes_def) metis

end
