(* ===== verification/Launcher.thy ===== *)
theory Launcher
  imports Prelude
begin

text \<open>
  The host launcher service, \<open>tudor-host-launcher/src\<close>: the table of driver host processes
  (\<open>launch.c\<close>), the files of pairing data (\<open>pdata.c\<close>) and the dispatch of D-Bus calls (\<open>main.c\<close>).
  What the system answers (a socket pair, the PID of a spawned process, a duplicated descriptor, an
  I/O error) is part of an event.  Killing a process group never fails with anything but ESRCH.
\<close>

section \<open>State\<close>

text \<open>\<open>hidraw_path\<close> holds what fits: \<open>g_strlcpy\<close> keeps 63 characters.\<close>

record host_entry =
  alive :: bool
  orphan :: bool
  host_id :: u32
  host_pid :: int
  pipe_fd :: int
  hidraw_path :: string

datatype launch_effect = Kill_group int | Signal_host_died u32 int

text \<open>
  \<open>watches\<close> are the child watches of the main loop (\<open>g_child_watch_add\<close>), \<open>open_fds\<close> the
  descriptors the table owns, \<open>pdata_files\<close> the files below the state directory.
\<close>

record launcher =
  hosts_array :: "host_entry list"
  next_host_id :: u32
  watches :: "(u32 \<times> int) list"
  open_fds :: "int set"
  effects :: "launch_effect list"
  pdata_files :: "string \<Rightarrow> byte list option"

definition init_launcher :: "(string \<Rightarrow> byte list option) \<Rightarrow> launcher" where
  "init_launcher files = \<lparr>hosts_array = [], next_host_id = 1, watches = [], open_fds = {},
     effects = [], pdata_files = files\<rparr>"

datatype dbus_params =
    Param_s string | Param_u u32 | Param_say string "byte list" | Param_other

datatype dbus_reply =
    Err_invalid_args | Err_in_use | Err_io | Err_unknown_method
  | Ok_unit | Ok_host u32 "int option" | Ok_data bool "byte list"

section \<open>The host table\<close>

text \<open>Closing a descriptor that is not open fails the assertion around \<open>close\<close>.\<close>

definition free_host :: "host_entry \<Rightarrow> launcher \<Rightarrow> launcher result" where
  "free_host e st =
     (if pipe_fd e \<notin> open_fds st then Inl Abort
      else Inr (st\<lparr>effects := effects st @ (if alive e then [Kill_group (host_pid e)] else []),
                   open_fds := open_fds st - {pipe_fd e}\<rparr>))"

definition drop_host :: "nat \<Rightarrow> launcher \<Rightarrow> launcher result" where
  "drop_host i st = res_bind (free_host (hosts_array st ! i) st) (\<lambda>st'.
     Inr (st'\<lparr>hosts_array := remove_index_fast i (hosts_array st')\<rparr>))"

text \<open>
  The wait status is decoded as the macros of \<open>sys/wait.h\<close> do; a status that is neither an exit,
  a signal nor a stop is left as it is.
\<close>

definition decode_status :: "int \<Rightarrow> int" where
  "decode_status s =
     (let termsig = s mod 128 in
      if termsig = 0 then s div 256 mod 256
      else if termsig \<noteq> 127 then - termsig
      else if s mod 256 = 127 then - (s div 256 mod 256)
      else s)"

text \<open>The search of \<open>host_watch_cb\<close>, with its assertions on the PIDs it passes.\<close>

fun watch_scan :: "u32 \<Rightarrow> int \<Rightarrow> host_entry list \<Rightarrow> nat \<Rightarrow> nat option result" where
  "watch_scan i p [] n = Inr None"
| "watch_scan i p (e # es) n =
     (if host_id e = i then (if host_pid e = p then Inr (Some n) else Inl Abort)
      else if host_pid e = p then Inl Abort
      else watch_scan i p es (Suc n))"

definition host_watch_cb :: "u32 \<Rightarrow> int \<Rightarrow> int \<Rightarrow> launcher \<Rightarrow> launcher result" where
  "host_watch_cb i p status st =
     res_bind (watch_scan i p (hosts_array st) 0) (\<lambda>found. case found of
       None \<Rightarrow> Inr st
     | Some k \<Rightarrow>
         let e = hosts_array st ! k;
             dead = (hosts_array st)[k := e\<lparr>alive := False\<rparr>]
         in if alive e then
              (if orphan e then drop_host k st
               else Inr (st\<lparr>effects := effects st @ [Signal_host_died i (decode_status status)],
                            hosts_array := dead\<rparr>))
            else if orphan e then Inl Abort
            else Inr (st\<lparr>hosts_array := dead\<rparr>))"

text \<open>
  \<open>launch_host_call\<close>.  \<open>sock\<close> tells whether \<open>socketpair\<close> succeeds, \<open>spawn\<close> is the PID of the new
  process, if it could be started, \<open>fd\<close> the descriptor the table's duplicate of the pipe gets and
  \<open>sent\<close> the one that is handed to the caller.
\<close>

definition launch_host_call ::
    "string \<Rightarrow> bool \<Rightarrow> int option \<Rightarrow> int \<Rightarrow> int \<Rightarrow> launcher \<Rightarrow> (dbus_reply \<times> launcher) result" where
  "launch_host_call path sock spawn fd sent st =
     (let create = (\<lambda>st.
        if \<not> sock then Inr (Err_io, st)
        else case spawn of
          None \<Rightarrow> Inr (Err_io, st)
        | Some pid \<Rightarrow>
            let i = next_host_id st in
            Inr (Ok_host i (Some sent),
              st\<lparr>next_host_id := i + 1,
                 hosts_array := hosts_array st @
                   [\<lparr>alive = True, orphan = False, host_id = i, host_pid = pid, pipe_fd = fd,
                     hidraw_path = take 63 path\<rparr>],
                 open_fds := insert fd (open_fds st),
                 watches := (i, pid) # watches st\<rparr>))
      in case find_index (\<lambda>e. hidraw_path e = path) (hosts_array st) of
           None \<Rightarrow> create st
         | Some k \<Rightarrow>
             if orphan (hosts_array st ! k) then res_bind (drop_host k st) create
             else Inr (Err_in_use, st))"

definition kill_host_call :: "u32 \<Rightarrow> launcher \<Rightarrow> (dbus_reply \<times> launcher) result" where
  "kill_host_call i st =
     (case find_index (\<lambda>e. host_id e = i) (hosts_array st) of
        None \<Rightarrow> Inr (Err_invalid_args, st)
      | Some k \<Rightarrow> res_bind (drop_host k st) (\<lambda>st'. Inr (Ok_unit, st')))"

definition adopt_host_call :: "string \<Rightarrow> int \<Rightarrow> launcher \<Rightarrow> (dbus_reply \<times> launcher) result" where
  "adopt_host_call path sent st =
     (case find_index (\<lambda>e. orphan e \<and> hidraw_path e = path) (hosts_array st) of
        None \<Rightarrow> Inr (Ok_host 0 None, st)
      | Some k \<Rightarrow>
          let e = hosts_array st ! k in
          if \<not> alive e then Inl Abort
          else Inr (Ok_host (host_id e) (Some sent),
                 st\<lparr>hosts_array := (hosts_array st)[k := e\<lparr>orphan := False\<rparr>]\<rparr>))"

definition orphan_host_call :: "u32 \<Rightarrow> launcher \<Rightarrow> (dbus_reply \<times> launcher) result" where
  "orphan_host_call i st =
     (case find_index (\<lambda>e. host_id e = i) (hosts_array st) of
        None \<Rightarrow> Inr (Err_invalid_args, st)
      | Some k \<Rightarrow>
          let e = hosts_array st ! k in
          if orphan e then (if alive e then Inr (Err_invalid_args, st) else Inl Abort)
          else if \<not> alive e then res_bind (drop_host k st) (\<lambda>st'. Inr (Ok_unit, st'))
          else Inr (Ok_unit, st\<lparr>hosts_array := (hosts_array st)[k := e\<lparr>orphan := True\<rparr>]\<rparr>))"

section \<open>Pairing data files\<close>

definition ascii_alnum :: "char \<Rightarrow> bool" where
  "ascii_alnum c \<longleftrightarrow> (let n = of_char c :: nat in
     (48 \<le> n \<and> n \<le> 57) \<or> (65 \<le> n \<and> n \<le> 90) \<or> (97 \<le> n \<and> n \<le> 122))"

fun validate_sensor_name :: "string \<Rightarrow> bool" where
  "validate_sensor_name [] = True"
| "validate_sensor_name (c # cs) = (ascii_alnum c \<and> validate_sensor_name cs)"

definition pdata_path :: "string \<Rightarrow> string \<Rightarrow> string" where
  "pdata_path dir name = dir @ ''/'' @ name @ ''.tpd''"

definition load_pdata_call :: "string \<Rightarrow> bool \<Rightarrow> string \<Rightarrow> launcher \<Rightarrow> dbus_reply" where
  "load_pdata_call dir io_ok name st =
     (if \<not> validate_sensor_name name then Err_invalid_args
      else case pdata_files st (pdata_path dir name) of
        None \<Rightarrow> Ok_data False []
      | Some d \<Rightarrow> if io_ok then Ok_data True d else Err_io)"

text \<open>
  A store that fails leaves the file with what the I/O library put there, a parameter:
  \<open>Write_fails\<close> carries the content after the error, \<open>None\<close> for no file.
\<close>

datatype store_outcome = Write_ok | Write_fails "byte list option"

definition store_pdata_call ::
    "string \<Rightarrow> store_outcome \<Rightarrow> string \<Rightarrow> byte list \<Rightarrow> launcher \<Rightarrow> dbus_reply \<times> launcher" where
  "store_pdata_call dir out name data st =
     (if \<not> validate_sensor_name name then (Err_invalid_args, st)
      else case out of
        Write_ok \<Rightarrow>
          (Ok_unit, st\<lparr>pdata_files := (pdata_files st)(pdata_path dir name \<mapsto> data)\<rparr>)
      | Write_fails left \<Rightarrow>
          (Err_io, st\<lparr>pdata_files := (pdata_files st)(pdata_path dir name := left)\<rparr>))"

section \<open>Dispatch\<close>

text \<open>What the system answers during a call.\<close>

record call_env =
  env_sock :: bool
  env_spawn :: "int option"
  env_fd :: int
  env_sent :: int
  env_io_ok :: bool
  env_store :: store_outcome

definition launch_method_call ::
    "string \<Rightarrow> call_env \<Rightarrow> string \<Rightarrow> dbus_params \<Rightarrow> launcher \<Rightarrow> (dbus_reply \<times> launcher) result" where
  "launch_method_call dir env mname params st =
     (if mname = ''LaunchHost'' then (case params of
          Param_s path \<Rightarrow> launch_host_call path (env_sock env) (env_spawn env) (env_fd env) (env_sent env) st
        | _ \<Rightarrow> Inr (Err_invalid_args, st))
      else if mname = ''KillHost'' then (case params of
          Param_u i \<Rightarrow> kill_host_call i st | _ \<Rightarrow> Inr (Err_invalid_args, st))
      else if mname = ''AdoptHost'' then (case params of
          Param_s path \<Rightarrow> adopt_host_call path (env_sent env) st | _ \<Rightarrow> Inr (Err_invalid_args, st))
      else if mname = ''OrphanHost'' then (case params of
          Param_u i \<Rightarrow> orphan_host_call i st | _ \<Rightarrow> Inr (Err_invalid_args, st))
      else if mname = ''LoadPairingData'' then (case params of
          Param_s name \<Rightarrow> Inr (load_pdata_call dir (env_io_ok env) name st, st)
        | _ \<Rightarrow> Inr (Err_invalid_args, st))
      else if mname = ''StorePairingData'' then (case params of
          Param_say name data \<Rightarrow> Inr (store_pdata_call dir (env_store env) name data st)
        | _ \<Rightarrow> Inr (Err_invalid_args, st))
      else Inr (Err_unknown_method, st))"

text \<open>The events of the main loop: a D-Bus call, or the end of a watched child.\<close>

datatype launcher_event =
    Method_call call_env string dbus_params
  | Child_exit u32 int int

definition launcher_step :: "string \<Rightarrow> launcher_event \<Rightarrow> launcher \<Rightarrow> launcher result" where
  "launcher_step dir ev st =
     (case ev of
        Method_call env mname params \<Rightarrow>
          res_bind (launch_method_call dir env mname params st) (\<lambda>(_, st'). Inr st')
      | Child_exit i p status \<Rightarrow>
          host_watch_cb i p status (st\<lparr>watches := filter (\<lambda>w. w \<noteq> (i, p)) (watches st)\<rparr>))"

fun launcher_run :: "string \<Rightarrow> launcher_event list \<Rightarrow> launcher \<Rightarrow> launcher result" where
  "launcher_run dir [] st = Inr st"
| "launcher_run dir (ev # evs) st = res_bind (launcher_step dir ev st) (launcher_run dir evs)"

section \<open>Invariant\<close>

text \<open>
  Orphans are alive; identifiers, PIDs, device paths and descriptors of the table are distinct;
  a running process of the table is watched under its identifier, and a watch belongs to no other
  entry; the open descriptors are those of the table.
\<close>

definition entry_ok :: "host_entry \<Rightarrow> u32 \<Rightarrow> (u32 \<times> int) list \<Rightarrow> bool" where
  "entry_ok e n ws \<longleftrightarrow>
     (orphan e \<longrightarrow> alive e) \<and> 0 < host_id e \<and> host_id e < n \<and>
     (alive e \<longrightarrow> (host_id e, host_pid e) \<in> set ws) \<and>
     (\<forall>i p. (i, p) \<in> set ws \<longrightarrow>
        (host_id e = i \<longleftrightarrow> host_pid e = p) \<and> (host_id e = i \<longrightarrow> alive e))"

definition watches_ok :: "u32 \<Rightarrow> (u32 \<times> int) list \<Rightarrow> bool" where
  "watches_ok n ws \<longleftrightarrow> distinct (map fst ws) \<and> (\<forall>i \<in> fst ` set ws. i < n)"

definition keys_distinct :: "host_entry list \<Rightarrow> bool" where
  "keys_distinct hs \<longleftrightarrow>
     distinct (map host_id hs) \<and> distinct (map host_pid hs) \<and> distinct (map hidraw_path hs)"

definition table_ok :: "host_entry list \<Rightarrow> u32 \<Rightarrow> (u32 \<times> int) list \<Rightarrow> bool" where
  "table_ok hs n ws \<longleftrightarrow> (\<forall>e \<in> set hs. entry_ok e n ws) \<and> keys_distinct hs \<and> watches_ok n ws"

definition fds_ok :: "host_entry list \<Rightarrow> int set \<Rightarrow> bool" where
  "fds_ok hs fds \<longleftrightarrow> distinct (map pipe_fd hs) \<and> fds = pipe_fd ` set hs"

definition launcher_inv :: "launcher \<Rightarrow> bool" where
  "launcher_inv st \<longleftrightarrow>
     table_ok (hosts_array st) (next_host_id st) (watches st) \<and> fds_ok (hosts_array st) (open_fds st)"

text \<open>
  What the system guarantees of an event: a child ends once, and only when it is watched; a new
  process has a PID that is not in use, a duplicate a descriptor that is not in use.  The table
  also wants the PID to be none of a dead entry, the path to fit, and identifiers not to run out.
\<close>

definition event_ok :: "launcher_event \<Rightarrow> launcher \<Rightarrow> bool" where
  "event_ok ev st \<longleftrightarrow>
     (case ev of
        Child_exit i p status \<Rightarrow> (i, p) \<in> set (watches st)
      | Method_call env mname params \<Rightarrow>
          env_fd env \<notin> open_fds st \<and> next_host_id st \<noteq> - 1 \<and>
          (case env_spawn env of None \<Rightarrow> True
           | Some pid \<Rightarrow> pid \<notin> snd ` set (watches st) \<and> pid \<notin> host_pid ` set (hosts_array st)) \<and>
          (case params of Param_s path \<Rightarrow> length path < 64 | _ \<Rightarrow> True))"

inductive launcher_reachable :: "string \<Rightarrow> launcher \<Rightarrow> bool" for dir where
  start: "launcher_reachable dir (init_launcher files)"
| step: "launcher_reachable dir st \<Longrightarrow> event_ok ev st \<Longrightarrow> launcher_step dir ev st = Inr st' \<Longrightarrow>
    launcher_reachable dir st'"


subsection \<open>Updates of the table\<close>

lemma table_ok_remove: "table_ok hs n ws \<Longrightarrow> table_ok (remove_index_fast i hs) n ws"
  using set_remove_index_fast_subset[of i hs]
  by (auto simp: table_ok_def keys_distinct_def intro: distinct_map_remove_index_fast)

lemma fds_ok_remove:
  assumes "fds_ok hs fds" and "i < length hs"
  shows "fds_ok (remove_index_fast i hs) (fds - {pipe_fd (hs ! i)})"
proof -
  have d: "distinct hs" and inj: "inj_on pipe_fd (set hs)" and f: "fds = pipe_fd ` set hs"
    using assms(1) by (auto simp: fds_ok_def distinct_map)
  have "pipe_fd ` (set hs - {hs ! i}) = pipe_fd ` set hs - {pipe_fd (hs ! i)}"
    using inj assms(2) by (subst inj_on_image_set_diff[of _ "set hs"]) auto
  then show ?thesis
    using assms d f by (simp add: fds_ok_def set_remove_index_fast distinct_map_remove_index_fast)
qed

lemma drop_host_eq:
  assumes "fds_ok (hosts_array st) (open_fds st)" and "i < length (hosts_array st)"
  shows "\<exists>st'. drop_host i st = Inr st' \<and> hosts_array st' = remove_index_fast i (hosts_array st) \<and>
    open_fds st' = open_fds st - {pipe_fd (hosts_array st ! i)} \<and> watches st' = watches st \<and>
    next_host_id st' = next_host_id st \<and> pdata_files st' = pdata_files st"
proof -
  have "pipe_fd (hosts_array st ! i) \<in> open_fds st" using assms by (auto simp: fds_ok_def)
  then show ?thesis by (simp add: drop_host_def free_host_def)
qed

lemma drop_host_ok:
  assumes "launcher_inv st" and "i < length (hosts_array st)"
  shows "\<exists>st'. drop_host i st = Inr st' \<and> launcher_inv st' \<and>
    hosts_array st' = remove_index_fast i (hosts_array st) \<and> watches st' = watches st \<and>
    next_host_id st' = next_host_id st \<and> open_fds st' \<subseteq> open_fds st"
  using drop_host_eq[of st i] assms
  by (auto simp: launcher_inv_def table_ok_remove fds_ok_remove)

lemma map_update_same: "k < length xs \<Longrightarrow> f x = f (xs ! k) \<Longrightarrow> map f (xs[k := x]) = map f xs"
  by (simp add: map_update list_update_same_conv)

text \<open>Changing the flags of an entry.\<close>

lemma set_flags_ok:
  assumes inv: "launcher_inv st" and k: "k < length (hosts_array st)"
    and e': "host_id e' = host_id (hosts_array st ! k)" "host_pid e' = host_pid (hosts_array st ! k)"
      "pipe_fd e' = pipe_fd (hosts_array st ! k)" "hidraw_path e' = hidraw_path (hosts_array st ! k)"
    and flags: "orphan e' \<longrightarrow> alive e'" "alive e' = alive (hosts_array st ! k)"
  shows "launcher_inv (st\<lparr>hosts_array := (hosts_array st)[k := e']\<rparr>)"
proof -
  let ?hs = "hosts_array st" and ?hs' = "(hosts_array st)[k := e']"
  have maps: "map host_id ?hs' = map host_id ?hs" "map host_pid ?hs' = map host_pid ?hs"
    "map pipe_fd ?hs' = map pipe_fd ?hs" "map hidraw_path ?hs' = map hidraw_path ?hs"
    using map_update_same[OF k] e' by auto
  have sub: "set ?hs' \<subseteq> insert e' (set ?hs)" by (rule set_update_subset_insert)
  have mem: "?hs ! k \<in> set ?hs" using k by simp
  have "entry_ok (?hs ! k) (next_host_id st) (watches st)"
    using inv mem by (simp add: launcher_inv_def table_ok_def)
  then have "entry_ok e' (next_host_id st) (watches st)"
    using e' flags by (simp add: entry_ok_def)
  then have "table_ok ?hs' (next_host_id st) (watches st)"
    using inv sub maps by (auto simp: launcher_inv_def table_ok_def keys_distinct_def)
  moreover have "pipe_fd ` set ?hs' = pipe_fd ` set ?hs"
    using maps(3) by (metis set_map)
  ultimately show ?thesis using inv maps by (simp add: launcher_inv_def fds_ok_def)
qed

subsection \<open>Child exits\<close>

lemma watch_scan_ok:
  assumes "\<forall>e \<in> set hs. host_id e = i \<longleftrightarrow> host_pid e = p"
  shows "watch_scan i p hs n = Inr (map_option (\<lambda>k. k + n) (find_index (\<lambda>e. host_id e = i) hs))"
  using assms
proof (induction hs arbitrary: n)
  case (Cons e es)
  then show ?case by (cases "find_index (\<lambda>e. host_id e = i) es") auto
qed simp

text \<open>The entries after an exit: all but those of the identifier, and that one marked dead.\<close>

lemma entry_ok_exit:
  assumes "entry_ok e n ws" and "distinct (map fst ws)" and "(i, p) \<in> set ws"
  shows "host_id e \<noteq> i \<Longrightarrow> entry_ok e n (filter (\<lambda>w. w \<noteq> (i, p)) ws)"
    and "host_id e = i \<Longrightarrow> \<not> orphan e \<Longrightarrow> entry_ok (e\<lparr>alive := False\<rparr>) n (filter (\<lambda>w. w \<noteq> (i, p)) ws)"
proof -
  have other: "j \<noteq> i" if "(j, q) \<in> set ws" "(j, q) \<noteq> (i, p)" for j q
    using that assms(2,3) by (metis eq_key_imp_eq_value)
  show "host_id e \<noteq> i \<Longrightarrow> entry_ok e n (filter (\<lambda>w. w \<noteq> (i, p)) ws)"
    using assms(1) unfolding entry_ok_def by auto
  show "host_id e = i \<Longrightarrow> \<not> orphan e \<Longrightarrow> entry_ok (e\<lparr>alive := False\<rparr>) n (filter (\<lambda>w. w \<noteq> (i, p)) ws)"
    using assms(1) other unfolding entry_ok_def by auto
qed

lemma watches_ok_exit: "watches_ok n ws \<Longrightarrow> watches_ok n (filter Q ws)"
  by (auto simp: watches_ok_def intro: distinct_map_filter)

lemma table_ok_exit:
  assumes "table_ok hs n ws" and "(i, p) \<in> set ws" and "keys_distinct hs'"
    and "\<And>e. e \<in> set hs' \<Longrightarrow> (e \<in> set hs \<and> host_id e \<noteq> i) \<or>
      (\<exists>e0 \<in> set hs. host_id e0 = i \<and> \<not> orphan e0 \<and> e = e0\<lparr>alive := False\<rparr>)"
  shows "table_ok hs' n (filter (\<lambda>w. w \<noteq> (i, p)) ws)"
  unfolding table_ok_def
proof (intro conjI ballI)
  fix e assume "e \<in> set hs'"
  from assms(4)[OF this] show "entry_ok e n (filter (\<lambda>w. w \<noteq> (i, p)) ws)"
    using assms(1,2) entry_ok_exit by (auto simp: table_ok_def watches_ok_def)
qed (use assms in \<open>auto simp: table_ok_def intro: watches_ok_exit\<close>)


lemma set_remove_index_fast_map:
  assumes "distinct (map f xs)" and "k < length xs" and "x \<in> set (remove_index_fast k xs)"
  shows "x \<in> set xs \<and> f x \<noteq> f (xs ! k)"
proof -
  have "x \<in> set xs - {xs ! k}"
    using assms set_remove_index_fast[of k xs] by (simp add: distinct_map)
  then show ?thesis using assms(1,2) by (auto simp: distinct_map dest: inj_onD)
qed

lemma keys_distinct_remove: "keys_distinct hs \<Longrightarrow> keys_distinct (remove_index_fast k hs)"
  by (simp add: keys_distinct_def distinct_map_remove_index_fast)

lemma keys_distinct_update:
  assumes "keys_distinct hs" and "k < length hs" and "host_id e = host_id (hs ! k)"
    "host_pid e = host_pid (hs ! k)" "hidraw_path e = hidraw_path (hs ! k)"
  shows "keys_distinct (hs[k := e])"
  using assms map_update_same[of k hs host_id e] map_update_same[of k hs host_pid e]
    map_update_same[of k hs hidraw_path e]
  by (simp add: keys_distinct_def)

lemma fds_ok_update:
  assumes "fds_ok hs fds" and "k < length hs" and "pipe_fd e = pipe_fd (hs ! k)"
  shows "fds_ok (hs[k := e]) fds"
proof -
  have m: "map pipe_fd (hs[k := e]) = map pipe_fd hs" using assms(2,3) by (rule map_update_same)
  then have "pipe_fd ` set (hs[k := e]) = pipe_fd ` set hs" by (metis set_map)
  then show ?thesis using m assms(1) by (simp add: fds_ok_def)
qed

lemma host_watch_cb_ok:
  assumes inv: "launcher_inv st" and w: "(i, p) \<in> set (watches st)"
  shows "\<exists>st'. host_watch_cb i p s (st\<lparr>watches := filter (\<lambda>w. w \<noteq> (i, p)) (watches st)\<rparr>) = Inr st' \<and>
    launcher_inv st'"
proof -
  let ?hs = "hosts_array st" and ?ws = "filter (\<lambda>w. w \<noteq> (i, p)) (watches st)"
  let ?st = "st\<lparr>watches := ?ws\<rparr>" and ?n = "next_host_id st"
  have tab: "table_ok ?hs ?n (watches st)" and fds: "fds_ok ?hs (open_fds st)"
    and kd: "keys_distinct ?hs"
    using inv by (auto simp: launcher_inv_def table_ok_def)
  have ents: "\<forall>e \<in> set ?hs. entry_ok e ?n (watches st)" using tab by (simp add: table_ok_def)
  then have scan: "watch_scan i p ?hs 0 = Inr (find_index (\<lambda>e. host_id e = i) ?hs)"
    using w by (subst watch_scan_ok) (auto simp: entry_ok_def option.map_ident)
  show ?thesis
  proof (cases "find_index (\<lambda>e. host_id e = i) ?hs")
    case None
    then have "\<forall>e \<in> set ?hs. host_id e \<noteq> i" by (simp add: find_index_None_iff)
    then have "table_ok ?hs ?n ?ws" using tab w kd by (intro table_ok_exit) auto
    then show ?thesis using None scan fds by (simp add: host_watch_cb_def launcher_inv_def)
  next
    case (Some k)
    let ?e = "?hs ! k"
    have k: "k < length ?hs" "host_id ?e = i" using find_index_SomeD[OF Some] by auto
    have e: "?e \<in> set ?hs" and al: "alive ?e"
      using k w ents nth_mem[OF k(1)] by (auto simp: entry_ok_def)
    show ?thesis
    proof (cases "orphan ?e")
      case True
      have "table_ok (remove_index_fast k ?hs) ?n ?ws"
      proof (rule table_ok_exit[OF tab w keys_distinct_remove[OF kd]])
        fix x assume "x \<in> set (remove_index_fast k ?hs)"
        with set_remove_index_fast_map[of host_id ?hs k x] kd k
        show "(x \<in> set ?hs \<and> host_id x \<noteq> i) \<or>
          (\<exists>e0 \<in> set ?hs. host_id e0 = i \<and> \<not> orphan e0 \<and> x = e0\<lparr>alive := False\<rparr>)"
          by (simp add: keys_distinct_def)
      qed
      then show ?thesis
        using True al Some scan k fds drop_host_eq[of ?st k] fds_ok_remove[OF fds k(1)]
        by (auto simp: host_watch_cb_def launcher_inv_def)
    next
      case False
      let ?hs' = "?hs[k := ?e\<lparr>alive := False\<rparr>]"
      have "table_ok ?hs' ?n ?ws"
      proof (rule table_ok_exit[OF tab w])
        show "keys_distinct ?hs'" using kd k by (simp add: keys_distinct_update)
        fix x assume x: "x \<in> set ?hs'"
        then obtain j where j: "j < length ?hs" "x = ?hs' ! j" by (auto simp: in_set_conv_nth)
        have "host_id (?hs ! j) \<noteq> i" if "j \<noteq> k"
          using that j(1) k kd by (auto simp: keys_distinct_def distinct_conv_nth)
        then show "(x \<in> set ?hs \<and> host_id x \<noteq> i) \<or>
          (\<exists>e0 \<in> set ?hs. host_id e0 = i \<and> \<not> orphan e0 \<and> x = e0\<lparr>alive := False\<rparr>)"
          using j k False e by (cases "j = k") auto
      qed
      moreover have "fds_ok ?hs' (open_fds st)" using fds k(1) by (simp add: fds_ok_update)
      ultimately show ?thesis using False al Some scan
        by (simp add: host_watch_cb_def launcher_inv_def)
    qed
  qed
qed


subsection \<open>Calls\<close>

lemma less_Suc_id: "n \<noteq> - 1 \<Longrightarrow> n < n + (1 :: u32)"
proof -
  assume n: "n \<noteq> - 1"
  have "unat n \<noteq> unat (- 1 :: u32)" using n unsigned_word_eqI by blast
  then have "unat n < 2 ^ 32 - 1"
    using unsigned_less[of n, where ?'a = nat] by (simp add: unsigned_minus_1_eq_mask mask_eq_exp_minus_1)
  then have "unat (n + 1) = unat n + 1" by (simp add: unat_word_ariths)
  then show "n < n + 1" by (simp add: word_less_nat_alt)
qed

lemma add_host_ok:
  assumes inv: "launcher_inv st" and path: "path \<notin> hidraw_path ` set (hosts_array st)" "length path < 64"
    and pid: "pid \<notin> snd ` set (watches st)" "pid \<notin> host_pid ` set (hosts_array st)"
    and fd: "fd \<notin> open_fds st" and n: "next_host_id st \<noteq> - 1" "0 < next_host_id st"
  shows "launcher_inv (st\<lparr>next_host_id := next_host_id st + 1,
     hosts_array := hosts_array st @
       [\<lparr>alive = True, orphan = False, host_id = next_host_id st, host_pid = pid, pipe_fd = fd,
         hidraw_path = take 63 path\<rparr>],
     open_fds := insert fd (open_fds st), watches := (next_host_id st, pid) # watches st\<rparr>)"
proof -
  let ?n = "next_host_id st"
  let ?e = "\<lparr>alive = True, orphan = False, host_id = ?n, host_pid = pid, pipe_fd = fd,
         hidraw_path = take 63 path\<rparr>"
  have lt: "?n < ?n + 1" using n(1) by (rule less_Suc_id)
  have ents: "entry_ok e ?n (watches st)" if "e \<in> set (hosts_array st)" for e
    using inv that by (simp add: launcher_inv_def table_ok_def)
  have ids: "host_id e < ?n" if "e \<in> set (hosts_array st)" for e
    using ents[OF that] by (simp add: entry_ok_def)
  have wok: "distinct (map fst (watches st))" "\<forall>i \<in> fst ` set (watches st). i < ?n"
    using inv by (auto simp: launcher_inv_def table_ok_def watches_ok_def)
  have ws: "watches_ok (?n + 1) ((?n, pid) # watches st)"
    using wok lt unfolding watches_ok_def by (auto intro: less_trans)
  have old: "entry_ok e (?n + 1) ((?n, pid) # watches st)" if "e \<in> set (hosts_array st)" for e
    using ents[OF that] ids[OF that] lt pid(2) that unfolding entry_ok_def
    by (auto intro: less_trans)
  have new: "entry_ok ?e (?n + 1) ((?n, pid) # watches st)"
    using lt n(2) wok(2) pid(1) unfolding entry_ok_def by force
  have keys: "keys_distinct (hosts_array st @ [?e])"
    using inv pid(2) path by (auto simp: launcher_inv_def table_ok_def keys_distinct_def dest: ids)
  have "fds_ok (hosts_array st @ [?e]) (insert fd (open_fds st))"
    using inv fd by (auto simp: launcher_inv_def fds_ok_def)
  then show ?thesis using ws old new keys by (auto simp: launcher_inv_def table_ok_def)
qed

lemma launch_host_call_ok:
  assumes inv: "launcher_inv st" and n: "next_host_id st \<noteq> - 1" "0 < next_host_id st"
    and path: "length path < 64" and fd: "fd \<notin> open_fds st"
    and spawn: "\<And>pid. spawn = Some pid \<Longrightarrow>
      pid \<notin> snd ` set (watches st) \<and> pid \<notin> host_pid ` set (hosts_array st)"
  shows "\<exists>r st'. launch_host_call path sock spawn fd sent st = Inr (r, st') \<and> launcher_inv st' \<and>
    0 < next_host_id st'"
proof -
  have pos: "0 < next_host_id st + 1" using less_Suc_id[OF n(1)] n(2) by (rule less_trans[rotated])
  show ?thesis
  proof (cases "find_index (\<lambda>e. hidraw_path e = path) (hosts_array st)")
    case None
    then have "path \<notin> hidraw_path ` set (hosts_array st)" by (auto simp: find_index_None_iff)
    with None show ?thesis
      using assms add_host_ok[OF inv _ path] pos
      by (auto simp: launch_host_call_def Let_def split: option.split)
  next
    case (Some k)
    then have k: "k < length (hosts_array st)" "hidraw_path (hosts_array st ! k) = path"
      using find_index_SomeD[OF Some] by auto
    show ?thesis
    proof (cases "orphan (hosts_array st ! k)")
      case False
      with Some inv n show ?thesis by (simp add: launch_host_call_def)
    next
      case True
      obtain st1 where st1: "drop_host k st = Inr st1" "launcher_inv st1"
        "hosts_array st1 = remove_index_fast k (hosts_array st)" "watches st1 = watches st"
        "next_host_id st1 = next_host_id st" "open_fds st1 \<subseteq> open_fds st"
        using drop_host_ok[OF inv k(1)] by blast
      have "distinct (map hidraw_path (hosts_array st))"
        using inv by (simp add: launcher_inv_def table_ok_def keys_distinct_def)
      then have "path \<notin> hidraw_path ` set (hosts_array st1)"
        using k set_remove_index_fast_map[of hidraw_path "hosts_array st" k] st1(3) by fastforce
      moreover have "set (hosts_array st1) \<subseteq> set (hosts_array st)"
        using st1(3) set_remove_index_fast_subset by metis
      ultimately have add: "launcher_inv (st1\<lparr>next_host_id := next_host_id st1 + 1,
         hosts_array := hosts_array st1 @
           [\<lparr>alive = True, orphan = False, host_id = next_host_id st1, host_pid = pid, pipe_fd = fd,
             hidraw_path = take 63 path\<rparr>],
         open_fds := insert fd (open_fds st1), watches := (next_host_id st1, pid) # watches st1\<rparr>)"
        if "spawn = Some pid" for pid
        using spawn[OF that] st1 n fd path by (intro add_host_ok) auto
      then show ?thesis
        using Some True st1 n pos
        by (auto simp: launch_host_call_def Let_def split: option.split)
    qed
  qed
qed

lemma kill_host_call_ok:
  assumes "launcher_inv st"
  shows "\<exists>r st'. kill_host_call i st = Inr (r, st') \<and> launcher_inv st' \<and> next_host_id st' = next_host_id st"
proof (cases "find_index (\<lambda>e. host_id e = i) (hosts_array st)")
  case None
  with assms show ?thesis by (simp add: kill_host_call_def)
next
  case (Some k)
  then have "k < length (hosts_array st)" using find_index_SomeD[OF Some] by auto
  from drop_host_ok[OF assms this] Some show ?thesis by (auto simp: kill_host_call_def)
qed

lemma adopt_host_call_ok:
  assumes "launcher_inv st"
  shows "\<exists>r st'. adopt_host_call path sent st = Inr (r, st') \<and> launcher_inv st' \<and>
    next_host_id st' = next_host_id st"
proof (cases "find_index (\<lambda>e. orphan e \<and> hidraw_path e = path) (hosts_array st)")
  case None
  with assms show ?thesis by (simp add: adopt_host_call_def)
next
  case (Some k)
  then have k: "k < length (hosts_array st)" "orphan (hosts_array st ! k)"
    using find_index_SomeD[OF Some] by auto
  then have "alive (hosts_array st ! k)"
    using assms nth_mem[OF k(1)] by (auto simp: launcher_inv_def table_ok_def entry_ok_def)
  then show ?thesis
    using Some k assms set_flags_ok[OF assms k(1), of "(hosts_array st ! k)\<lparr>orphan := False\<rparr>"]
    by (simp add: adopt_host_call_def Let_def)
qed

lemma orphan_host_call_ok:
  assumes "launcher_inv st"
  shows "\<exists>r st'. orphan_host_call i st = Inr (r, st') \<and> launcher_inv st' \<and>
    next_host_id st' = next_host_id st"
proof (cases "find_index (\<lambda>e. host_id e = i) (hosts_array st)")
  case None
  with assms show ?thesis by (simp add: orphan_host_call_def)
next
  case (Some k)
  then have k: "k < length (hosts_array st)" using find_index_SomeD[OF Some] by auto
  have "orphan (hosts_array st ! k) \<longrightarrow> alive (hosts_array st ! k)"
    using assms nth_mem[OF k(1)] by (auto simp: launcher_inv_def table_ok_def entry_ok_def)
  then show ?thesis
    using Some k assms set_flags_ok[OF assms k, of "(hosts_array st ! k)\<lparr>orphan := True\<rparr>"]
      drop_host_ok[OF assms k]
    by (auto simp: orphan_host_call_def Let_def)
qed


lemma store_pdata_call_inv:
  "launcher_inv st \<Longrightarrow> 0 < next_host_id st \<Longrightarrow>
   launcher_inv (snd (store_pdata_call dir out name data st)) \<and>
   0 < next_host_id (snd (store_pdata_call dir out name data st))"
  by (auto simp: store_pdata_call_def launcher_inv_def split: store_outcome.split)

lemma launch_method_call_ok:
  assumes inv: "launcher_inv st" "0 < next_host_id st" and ev: "event_ok (Method_call env mname params) st"
  shows "\<exists>r st'. launch_method_call dir env mname params st = Inr (r, st') \<and> launcher_inv st' \<and>
    0 < next_host_id st'"
proof (cases params)
  case (Param_s path)
  then have "\<exists>r st'. launch_host_call path (env_sock env) (env_spawn env) (env_fd env) (env_sent env) st =
      Inr (r, st') \<and> launcher_inv st' \<and> 0 < next_host_id st'"
    using ev inv by (intro launch_host_call_ok) (auto simp: event_ok_def split: option.splits)
  then show ?thesis
    using Param_s inv adopt_host_call_ok[OF inv(1), of path "env_sent env"]
    by (simp add: launch_method_call_def) metis
next
  case (Param_u i)
  then show ?thesis
    using inv kill_host_call_ok[OF inv(1), of i] orphan_host_call_ok[OF inv(1), of i]
    by (simp add: launch_method_call_def) metis
next
  case (Param_say name data)
  then show ?thesis
    using inv store_pdata_call_inv[OF inv, of dir "env_store env" name data]
    by (cases "store_pdata_call dir (env_store env) name data st") (simp add: launch_method_call_def)
next
  case Param_other
  then show ?thesis using inv by (simp add: launch_method_call_def)
qed

lemma drop_host_next: "drop_host k st = Inr st' \<Longrightarrow> next_host_id st' = next_host_id st"
  by (auto simp: drop_host_def free_host_def split: if_splits)

lemma host_watch_cb_next:
  assumes "host_watch_cb i p s st = Inr st'"
  shows "next_host_id st' = next_host_id st"
proof -
  obtain found where f: "watch_scan i p (hosts_array st) 0 = Inr found"
    using assms by (auto simp: host_watch_cb_def res_bind_eq_Inr)
  show ?thesis
  proof (cases found)
    case None
    with f assms show ?thesis by (simp add: host_watch_cb_def)
  next
    case (Some k)
    with f assms show ?thesis
      by (auto simp: host_watch_cb_def Let_def dest: drop_host_next split: if_splits)
  qed
qed

lemma launcher_step_ok:
  assumes inv: "launcher_inv st" "0 < next_host_id st" and ev: "event_ok ev st"
  shows "\<exists>st'. launcher_step dir ev st = Inr st' \<and> launcher_inv st' \<and> 0 < next_host_id st'"
proof (cases ev)
  case (Method_call env mname params)
  obtain r st' where "launch_method_call dir env mname params st = Inr (r, st')" "launcher_inv st'"
    "0 < next_host_id st'"
    using launch_method_call_ok[OF inv ev[unfolded Method_call]] by blast
  then show ?thesis using Method_call by (simp add: launcher_step_def)
next
  case (Child_exit i p s)
  then have w: "(i, p) \<in> set (watches st)" using ev by (simp add: event_ok_def)
  obtain st' where st': "host_watch_cb i p s (st\<lparr>watches := filter (\<lambda>w. w \<noteq> (i, p)) (watches st)\<rparr>) = Inr st'"
    "launcher_inv st'" using host_watch_cb_ok[OF inv(1) w] by blast
  then show ?thesis using host_watch_cb_next[OF st'(1)] inv(2) Child_exit
    by (simp add: launcher_step_def)
qed

lemma launcher_inv_init: "launcher_inv (init_launcher files)"
  by (simp add: launcher_inv_def table_ok_def keys_distinct_def watches_ok_def fds_ok_def init_launcher_def)

lemma reachable_inv: "launcher_reachable dir st \<Longrightarrow> launcher_inv st \<and> 0 < next_host_id st"
proof (induction rule: launcher_reachable.induct)
  case (start files)
  show ?case by (simp add: launcher_inv_init) (simp add: init_launcher_def)
next
  case (step st ev st')
  then show ?case using launcher_step_ok[of st ev dir] by auto
qed

section \<open>Properties\<close>



text \<open>
  An entry keeps the PID of its process after the process died.  When the system gives that
  PID to a host of another device, the launcher aborts as soon as the second host ends.
\<close>

theorem reused_pid_aborts:
  assumes "d1 \<noteq> d2" and "length d1 < 64"
    and "env = \<lparr>env_sock = True, env_spawn = Some p, env_fd = f, env_sent = f', env_io_ok = True,
      env_store = Write_ok\<rparr>"
  shows "launcher_run dir
    [Method_call env ''LaunchHost'' (Param_s d1), Child_exit 1 p s1,
     Method_call (env\<lparr>env_fd := f2\<rparr>) ''LaunchHost'' (Param_s d2), Child_exit 2 p s2]
    (init_launcher files) = Inl Abort"
  using assms
  by (simp add: launcher_step_def launch_method_call_def launch_host_call_def init_launcher_def
      host_watch_cb_def Let_def)

lemma reused_pid_aborts_witness:
  "launcher_run ''d''
    [Method_call \<lparr>env_sock = True, env_spawn = Some 7, env_fd = 4, env_sent = 5, env_io_ok = True,
      env_store = Write_ok\<rparr> ''LaunchHost'' (Param_s ''a''), Child_exit 1 7 0,
     Method_call \<lparr>env_sock = True, env_spawn = Some 7, env_fd = 6, env_sent = 5, env_io_ok = True,
      env_store = Write_ok\<rparr> ''LaunchHost'' (Param_s ''b''), Child_exit 2 7 0]
    (init_launcher (\<lambda>_. None)) = Inl Abort"
  using reused_pid_aborts[OF _ _ refl, of "''a''" "''b''" "''d''" 7 4 5 0 6 0 "\<lambda>_. None"] by simp

text \<open>
  A host that is left an orphan is handed back to whoever adopts its device: the same
  identifier, and a table as before.
\<close>

theorem orphan_then_adopt:
  assumes "launcher_reachable dir st" and "e \<in> set (hosts_array st)" and "alive e" and "\<not> orphan e"
  shows "\<exists>st1 st2. orphan_host_call (host_id e) st = Inr (Ok_unit, st1) \<and>
    adopt_host_call (hidraw_path e) fd st1 = Inr (Ok_host (host_id e) (Some fd), st2) \<and> st2 = st"
proof -
  have inv: "launcher_inv st" using reachable_inv[OF assms(1)] by simp
  have ids: "distinct (map host_id (hosts_array st))" and paths: "distinct (map hidraw_path (hosts_array st))"
    using inv by (auto simp: launcher_inv_def table_ok_def keys_distinct_def)
  obtain k where k: "find_index (\<lambda>x. host_id x = host_id e) (hosts_array st) = Some k"
    using assms(2) by (cases "find_index (\<lambda>x. host_id x = host_id e) (hosts_array st)")
      (auto simp: find_index_None_iff)
  then have kl: "k < length (hosts_array st)" "hosts_array st ! k = e"
    using find_index_SomeD[OF k] assms(2) ids by (auto simp: distinct_map dest: inj_onD)
  let ?st1 = "st\<lparr>hosts_array := (hosts_array st)[k := e\<lparr>orphan := True\<rparr>]\<rparr>"
  have "orphan_host_call (host_id e) st = Inr (Ok_unit, ?st1)"
    using k kl assms(3,4) by (simp add: orphan_host_call_def Let_def)
  moreover have "find_index (\<lambda>x. orphan x \<and> hidraw_path x = hidraw_path e) (hosts_array ?st1) = Some k"
  proof -
    have "hidraw_path (hosts_array st ! j) \<noteq> hidraw_path (hosts_array st ! k)" if "j < k" for j
      using that kl(1) paths by (simp add: distinct_conv_nth)
    then show ?thesis using kl by (intro find_index_SomeI) auto
  qed
  moreover have "(hosts_array st)[k := e\<lparr>orphan := False\<rparr>] = hosts_array st"
  proof -
    have "e\<lparr>orphan := False\<rparr> = e" using assms(4) by simp
    then show ?thesis using kl by (metis list_update_id)
  qed
  ultimately show ?thesis using kl assms(3,4)
    by (simp add: adopt_host_call_def Let_def)
qed

lemma orphan_then_adopt_witness:
  "\<exists>st st1. hosts_array st \<noteq> [] \<and> orphan_host_call 1 st = Inr (Ok_unit, st1) \<and>
     adopt_host_call ''h'' 9 st1 = Inr (Ok_host 1 (Some 9), st)"
proof -
  let ?env = "\<lparr>env_sock = True, env_spawn = Some 7, env_fd = 4, env_sent = 5, env_io_ok = True,
      env_store = Write_ok\<rparr>"
  let ?st0 = "init_launcher (\<lambda>_. None)"
  let ?e = "\<lparr>alive = True, orphan = False, host_id = 1, host_pid = 7, pipe_fd = 4, hidraw_path = ''h''\<rparr>"
  obtain st where s: "launcher_step ''d'' (Method_call ?env ''LaunchHost'' (Param_s ''h'')) ?st0 = Inr st"
    and h: "hosts_array st = [?e]"
    by (simp add: launcher_step_def launch_method_call_def launch_host_call_def init_launcher_def)
  have "launcher_reachable ''d'' st"
    by (rule launcher_reachable.step[OF launcher_reachable.start _ s])
      (simp add: event_ok_def init_launcher_def)
  from orphan_then_adopt[OF this, of ?e 9] h
  obtain st1 where "orphan_host_call 1 st = Inr (Ok_unit, st1)"
    "adopt_host_call ''h'' 9 st1 = Inr (Ok_host 1 (Some 9), st)" by auto
  with h show ?thesis by (intro exI[of _ st] exI[of _ st1]) simp
qed

text \<open>
  Pairing data a caller stores for a sensor is what the next load for that sensor returns; it
  goes to the one file of the state directory named after the sensor, and no other file changes,
  because only letters and digits are accepted.
\<close>

theorem pdata_store_then_load:
  assumes "store_pdata_call dir Write_ok name data st = (Ok_unit, st')"
  shows "load_pdata_call dir True name st' = Ok_data True data \<and>
    (\<forall>c \<in> set name. ascii_alnum c) \<and>
    (\<forall>path. path \<noteq> dir @ ''/'' @ name @ ''.tpd'' \<longrightarrow> pdata_files st' path = pdata_files st path) \<and>
    (\<forall>other. other \<noteq> name \<longrightarrow> load_pdata_call dir True other st' = load_pdata_call dir True other st)"
proof -
  have v: "validate_sensor_name n \<longleftrightarrow> (\<forall>c \<in> set n. ascii_alnum c)" for n by (induction n) auto
  show ?thesis using assms
    by (auto simp: store_pdata_call_def load_pdata_call_def v pdata_path_def split: if_splits)
qed

lemma pdata_store_then_load_witness:
  "load_pdata_call ''d'' True ''A1''
     (snd (store_pdata_call ''d'' Write_ok ''A1'' [1, 2] (init_launcher (\<lambda>_. None)))) = Ok_data True [1, 2]"
proof -
  have "store_pdata_call ''d'' Write_ok ''A1'' [1, 2] (init_launcher (\<lambda>_. None)) =
      (Ok_unit, snd (store_pdata_call ''d'' Write_ok ''A1'' [1, 2] (init_launcher (\<lambda>_. None))))"
    by (simp add: store_pdata_call_def ascii_alnum_def)
  from pdata_store_then_load[OF this] show ?thesis by simp
qed

end
