(* ===== verification/Tudor_Device.thy ===== *)
theory Tudor_Device
  imports Storage_Adapter
begin

text \<open>
  The sensor device (\<open>libtudor/src/tudor/device.c\<close>): opening and closing the WinBIO pipeline, the
  enrollment life cycle, and the completion handlers of captures.  The adapters of the Windows DLL
  are a parameter, a record of their functions over a state \<open>'s\<close> of their own.
\<close>

section \<open>The adapters\<close>

datatype adapter = Sensor | Engine | Storage

text \<open>The calls that take the pipeline and return a status, as \<open>WINBIO_CALL_PIPELINE\<close> makes them.\<close>

datatype pipeline_call =
    Attach | Detach | ClearContext | PipelineInit | PipelineCleanup | OpenDatabase
  | CloseDatabase | ResetSensor | Activate | Deactivate | CreateEnrollment
  | SetEnrollmentParameters byte | DiscardEnrollment

type_synonym 's add_fn =
  "winbio_storage_record \<Rightarrow> tudor_device \<times> 's \<Rightarrow> (u32 \<times> tudor_device \<times> 's) result"

text \<open>
  \<open>ad_CommitEnrollment\<close> is given the \<open>AddRecord\<close> function of the pipeline's storage interface, which
  the engine calls back.  \<open>ad_dll_storage\<close> is \<open>tudor_dll_storage_adapter\<close>, \<open>None\<close> when it is NULL.
\<close>

record 's adapters =
  ad_add_device :: "'s \<Rightarrow> u32 \<times> bool \<times> 's"
  ad_open_file :: "'s \<Rightarrow> u32 \<times> 's"
  ad_call :: "adapter \<Rightarrow> pipeline_call \<Rightarrow> 's \<Rightarrow> u32 \<times> 's"
  ad_QueryStatus :: "'s \<Rightarrow> u32 \<times> u32 \<times> 's"
  ad_StartCapture :: "byte \<Rightarrow> 's \<Rightarrow> u32 \<times> 's"
  ad_FinishCapture :: "'s \<Rightarrow> u32 \<times> 's"
  ad_PushDataToEngine :: "byte \<Rightarrow> 's \<Rightarrow> u32 \<times> 's"
  ad_UpdateEnrollment :: "'s \<Rightarrow> u32 \<times> 's"
  ad_CheckForDuplicate :: "'s \<Rightarrow> u32 \<times> bool \<times> 's"
  ad_CommitEnrollment ::
    "'s add_fn \<Rightarrow> winbio_identity \<Rightarrow> byte \<Rightarrow> tudor_device \<times> 's \<Rightarrow> (u32 \<times> tudor_device \<times> 's) result"
  ad_VerifyFeatureSet :: "winbio_identity \<Rightarrow> byte \<Rightarrow> 's \<Rightarrow> u32 \<times> bool \<times> 's"
  ad_IdentifyFeatureSet :: "'s \<Rightarrow> u32 \<times> winbio_identity \<times> byte \<times> 's"
  ad_dll_storage :: "'s storage_interface option"
  ad_dll_AddRecord :: "winbio_storage_record \<Rightarrow> 's \<Rightarrow> u32 \<times> 's"
  ad_has_OpenDatabase :: bool
  ad_has_CloseDatabase :: bool

definition WINBIO_PURPOSE_VERIFY :: byte where "WINBIO_PURPOSE_VERIFY = 0x01"
definition WINBIO_PURPOSE_IDENTIFY :: byte where "WINBIO_PURPOSE_IDENTIFY = 0x02"
definition WINBIO_PURPOSE_ENROLL :: byte where "WINBIO_PURPOSE_ENROLL = 0x04"

text \<open>The host's own storage adapter does nothing in these calls (\<open>storage_NOP\<close>).\<close>

definition storage_NOP :: u32 where
  "storage_NOP = ERROR_SUCCESS"

definition call_storage :: "'s adapters \<Rightarrow> bool \<Rightarrow> pipeline_call \<Rightarrow> 's \<Rightarrow> u32 \<times> 's" where
  "call_storage ad dll c s = (if dll then ad_call ad Storage c s else (storage_NOP, s))"

text \<open>A sequence of calls stops at the first that fails.\<close>

fun run_calls :: "'s adapters \<Rightarrow> bool \<Rightarrow> (adapter \<times> pipeline_call) list \<Rightarrow> 's \<Rightarrow> bool \<times> 's" where
  "run_calls ad dll [] s = (True, s)"
| "run_calls ad dll ((a, c) # cs) s =
     (case (if a = Storage then call_storage ad dll c s else ad_call ad a c s) of
        (hres, s') \<Rightarrow> if hres \<noteq> ERROR_SUCCESS then (False, s') else run_calls ad dll cs s')"

section \<open>Opening and closing\<close>

definition open_calls :: "'s adapters \<Rightarrow> bool \<Rightarrow> (adapter \<times> pipeline_call) list" where
  "open_calls ad dll =
     [(Sensor, Attach), (Engine, Attach), (Storage, Attach),
      (Sensor, PipelineInit), (Engine, PipelineInit), (Storage, PipelineInit)] @
     (if dll \<and> ad_has_OpenDatabase ad then [(Storage, OpenDatabase)] else []) @
     [(Sensor, ResetSensor), (Sensor, Activate), (Engine, Activate), (Storage, Activate)]"

definition close_calls :: "'s adapters \<Rightarrow> bool \<Rightarrow> (adapter \<times> pipeline_call) list" where
  "close_calls ad dll =
     [(Sensor, Deactivate), (Engine, Deactivate), (Storage, Deactivate)] @
     (if dll \<and> ad_has_CloseDatabase ad then [(Storage, CloseDatabase)] else []) @
     [(Sensor, PipelineCleanup), (Engine, PipelineCleanup), (Storage, PipelineCleanup),
      (Sensor, Detach), (Engine, Detach), (Storage, Detach)]"

text \<open>
  \<open>tudor_open\<close> starts from a structure without records.  \<open>next_addr\<close> is kept: the allocator does
  not start over.
\<close>

definition init_device :: "tudor_device \<Rightarrow> tudor_device_state option \<Rightarrow> tudor_device" where
  "init_device dev st =
     dev\<lparr>dev_state := (case st of None \<Rightarrow> zero_device_state | Some s \<Rightarrow> s),
         enrolling := False, override_template_count := False,
         records := [], result_records := [], result_cursor := []\<rparr>"

definition tudor_open ::
    "'s adapters \<Rightarrow> tudor_device_state option \<Rightarrow> tudor_device \<times> 's \<Rightarrow> bool \<times> tudor_device \<times> 's" where
  "tudor_open ad st ds =
     (case ds of (dev0, s) \<Rightarrow>
      let dev = init_device dev0 st in
      case ad_add_device ad s of (status, has_dev, s1) \<Rightarrow>
      if status \<noteq> 0 then (False, dev, s1)
      else if \<not> has_dev then (False, dev, s1)
      else case ad_open_file ad s1 of (status', s2) \<Rightarrow>
      if status' \<noteq> 0 then (False, dev, s2)
      else
        let dll = (ad_dll_storage ad \<noteq> None); dev' = dev\<lparr>use_dll_storage := dll\<rparr> in
        case run_calls ad dll (open_calls ad dll) s2 of (ok, s3) \<Rightarrow>
        if \<not> ok then (False, dev', s3)
        else case ad_QueryStatus ad s3 of (hres, sensor_status, s4) \<Rightarrow>
          if hres \<noteq> ERROR_SUCCESS then (False, dev', s4)
          else (sensor_status = WINBIO_SENSOR_READY, dev', s4))"

text \<open>A failing call leaves \<open>tudor_close\<close> before the records are freed.\<close>

definition tudor_close :: "'s adapters \<Rightarrow> tudor_device \<times> 's \<Rightarrow> bool \<times> tudor_device \<times> 's" where
  "tudor_close ad ds =
     (case ds of (dev, s) \<Rightarrow>
      case run_calls ad (use_dll_storage dev) (close_calls ad (use_dll_storage dev)) s of (ok, s') \<Rightarrow>
      if ok then (True, dev\<lparr>records := [], result_records := [], result_cursor := []\<rparr>, s')
      else (False, dev, s'))"

definition tudor_reopen :: "'s adapters \<Rightarrow> tudor_device \<times> 's \<Rightarrow> bool \<times> tudor_device \<times> 's" where
  "tudor_reopen ad ds =
     (case tudor_close ad ds of (ok, ds') \<Rightarrow>
        if \<not> ok then (False, ds') else tudor_open ad None ds')"

section \<open>Device control\<close>

text \<open>
  \<open>tudor_devctrl\<close> on the output buffer of a finished request: the template count of code
  \<open>0x44202c\<close> is replaced by zero while an enrollment runs.
\<close>

definition tudor_devctrl_output ::
    "tudor_device \<Rightarrow> u32 \<Rightarrow> u32 \<Rightarrow> byte list \<Rightarrow> byte list" where
  "tudor_devctrl_output dev code status out_buf =
     (if code = 0x44202c \<and> status = STATUS_SUCCESS \<and> 4 \<le> length out_buf then
        (let val = le_word (take 4 out_buf) :: u32 in
         if val > 0 \<and> override_template_count dev then splice out_buf 0 (word_le 4 (0 :: u32))
         else out_buf)
      else out_buf)"

text \<open>\<open>req_cb\<close>: what a completed request reports, \<open>info\<close> being its output buffer and byte count.\<close>

definition req_cb :: "u32 \<Rightarrow> (byte list \<times> nat) option \<Rightarrow> (u32 \<times> nat) result" where
  "req_cb status info =
     (if status = STATUS_SUCCESS then
        (case info of None \<Rightarrow> Inl Abort
         | Some (out_buf, n) \<Rightarrow> Inr (status, if n > length out_buf then length out_buf else n))
      else Inr (status, 0))"

section \<open>Enrollment\<close>

text \<open>
  \<open>tudor_enroll_start\<close> clears the context of the host's own storage adapter, whichever adapter the
  pipeline uses; that call does nothing.
\<close>

definition enroll_calls :: "u32 \<Rightarrow> (adapter \<times> pipeline_call) list" where
  "enroll_calls finger =
     [(Sensor, ClearContext), (Engine, ClearContext), (Engine, CreateEnrollment),
      (Engine, SetEnrollmentParameters (ucast finger))]"

definition tudor_enroll_start ::
    "'s adapters \<Rightarrow> guid \<Rightarrow> u32 \<Rightarrow> tudor_device \<times> 's \<Rightarrow> bool \<times> tudor_device \<times> 's" where
  "tudor_enroll_start ad g finger ds =
     (case ds of (dev, s) \<Rightarrow>
      if enrolling dev then (False, dev, s)
      else case run_calls ad (use_dll_storage dev) (enroll_calls finger) s of (ok, s') \<Rightarrow>
        if \<not> ok then (False, dev, s')
        else (True, dev\<lparr>enrolling := True, override_template_count := True,
                       enroll_guid := g, enroll_finger := finger\<rparr>, s'))"

text \<open>The callback of an enrollment capture: \<open>(success, done)\<close>.\<close>

definition enroll_cb :: "'s adapters \<Rightarrow> u32 \<Rightarrow> 's \<Rightarrow> bool \<times> bool \<times> 's" where
  "enroll_cb ad status s =
     (if status \<noteq> STATUS_SUCCESS then (False, False, s)
      else case ad_FinishCapture ad s of (h1, s1) \<Rightarrow>
      if h1 \<noteq> ERROR_SUCCESS then (False, False, s1)
      else case ad_PushDataToEngine ad WINBIO_PURPOSE_ENROLL s1 of (h2, s2) \<Rightarrow>
      if h2 \<noteq> ERROR_SUCCESS then (False, False, s2)
      else case ad_UpdateEnrollment ad s2 of (h3, s3) \<Rightarrow>
      if h3 \<noteq> ERROR_SUCCESS \<and> h3 \<noteq> WINBIO_I_MORE_DATA then (False, False, s3)
      else (True, h3 \<noteq> WINBIO_I_MORE_DATA, s3))"

definition tudor_enroll_capture :: "'s adapters \<Rightarrow> tudor_device \<times> 's \<Rightarrow> bool \<times> tudor_device \<times> 's" where
  "tudor_enroll_capture ad ds =
     (case ds of (dev, s) \<Rightarrow>
      if \<not> enrolling dev then (False, dev, s)
      else case ad_StartCapture ad WINBIO_PURPOSE_ENROLL s of (hres, s') \<Rightarrow>
        (hres = ERROR_SUCCESS, dev, s'))"

text \<open>
  During a commit to the DLL's storage, \<open>AddRecord\<close> is intercepted: the template is copied to
  the host's list (a duplicate is ignored there) and the call is passed on.
\<close>

definition enroll_intercept_AddRecord :: "'s adapters \<Rightarrow> 's add_fn" where
  "enroll_intercept_AddRecord ad srec ds =
     (case ds of (dev, s) \<Rightarrow>
      res_bind
        (case (srec_Identity srec, srec_TemplateBlob srec) of
           (Some i, Some blob) \<Rightarrow>
             if blob = [] then Inr (False, dev)
             else tudor_add_record True dev (TemplateGuid i) (ucast (srec_SubFactor srec)) blob
         | _ \<Rightarrow> Inr (False, dev))
        (\<lambda>(_, dev'). case ad_dll_AddRecord ad srec s of (hres, s') \<Rightarrow> Inr (hres, dev', s')))"

definition pipeline_AddRecord :: "'s adapters \<Rightarrow> bool \<Rightarrow> 's add_fn" where
  "pipeline_AddRecord ad dll srec ds =
     (if dll then enroll_intercept_AddRecord ad srec ds
      else case ds of (dev, s) \<Rightarrow>
        res_bind (storage_AddRecord None srec dev) (\<lambda>(hres, dev'). Inr (hres, dev', s)))"

text \<open>\<open>tudor_enroll_commit\<close>: \<open>(committed, is_duplicate)\<close>.\<close>

definition tudor_enroll_commit ::
    "'s adapters \<Rightarrow> tudor_device \<times> 's \<Rightarrow> (bool \<times> bool \<times> tudor_device \<times> 's) result" where
  "tudor_enroll_commit ad ds =
     (case ds of (dev, s) \<Rightarrow>
      if \<not> enrolling dev then Inr (False, False, dev, s)
      else case ad_CheckForDuplicate ad s of (hres, is_dupl, s1) \<Rightarrow>
      if hres \<noteq> ERROR_SUCCESS then Inr (False, False, dev, s1)
      else if is_dupl then Inr (False, True, dev, s1)
      else
        res_bind (ad_CommitEnrollment ad (pipeline_AddRecord ad (use_dll_storage dev))
            (guid_identity (enroll_guid dev)) (ucast (enroll_finger dev)) (dev, s1))
          (\<lambda>(hres', dev', s2).
            if hres' \<noteq> ERROR_SUCCESS
            then Inr (False, hres' = WINBIO_E_DUPLICATE_ENROLLMENT, dev', s2)
            else Inr (True, False,
                   dev'\<lparr>enrolling := False, override_template_count := False\<rparr>, s2)))"

definition discard_calls :: "(adapter \<times> pipeline_call) list" where
  "discard_calls = [(Engine, DiscardEnrollment), (Engine, ClearContext), (Sensor, ClearContext)]"

definition tudor_enroll_discard :: "'s adapters \<Rightarrow> tudor_device \<times> 's \<Rightarrow> bool \<times> tudor_device \<times> 's" where
  "tudor_enroll_discard ad ds =
     (case ds of (dev, s) \<Rightarrow>
      if \<not> enrolling dev then (False, dev, s)
      else case run_calls ad (use_dll_storage dev) discard_calls s of (ok, s') \<Rightarrow>
        if \<not> ok then (False, dev, s')
        else (True, dev\<lparr>enrolling := False, override_template_count := False\<rparr>, s'))"

section \<open>Verification and identification\<close>

definition start_capture_idle ::
    "'s adapters \<Rightarrow> byte \<Rightarrow> tudor_device \<times> 's \<Rightarrow> bool \<times> tudor_device \<times> 's" where
  "start_capture_idle ad purpose ds =
     (case ds of (dev, s) \<Rightarrow>
      if enrolling dev then (False, dev, s)
      else case ad_StartCapture ad purpose s of (hres, s') \<Rightarrow> (hres = ERROR_SUCCESS, dev, s'))"

definition tudor_verify :: "'s adapters \<Rightarrow> tudor_device \<times> 's \<Rightarrow> bool \<times> tudor_device \<times> 's" where
  "tudor_verify ad = start_capture_idle ad WINBIO_PURPOSE_VERIFY"

definition tudor_identify :: "'s adapters \<Rightarrow> tudor_device \<times> 's \<Rightarrow> bool \<times> tudor_device \<times> 's" where
  "tudor_identify ad = start_capture_idle ad WINBIO_PURPOSE_IDENTIFY"

text \<open>The callback of a verification: \<open>(success, retry, matches)\<close>.\<close>

definition verify_cb :: "'s adapters \<Rightarrow> guid \<Rightarrow> u32 \<Rightarrow> u32 \<Rightarrow> 's \<Rightarrow> bool \<times> bool \<times> bool \<times> 's" where
  "verify_cb ad g finger status s =
     (if status \<noteq> STATUS_SUCCESS then (False, False, False, s)
      else case ad_FinishCapture ad s of (h1, s1) \<Rightarrow>
      if h1 \<noteq> ERROR_SUCCESS then (False, h1 = WINBIO_E_BAD_CAPTURE, False, s1)
      else case ad_PushDataToEngine ad WINBIO_PURPOSE_VERIFY s1 of (h2, s2) \<Rightarrow>
      if h2 \<noteq> ERROR_SUCCESS then (False, h2 = WINBIO_E_BAD_CAPTURE, False, s2)
      else case ad_VerifyFeatureSet ad (guid_identity g) (ucast finger) s2 of (h3, is_match, s3) \<Rightarrow>
      if h3 \<noteq> ERROR_SUCCESS then
        (if h3 = WINBIO_E_NO_MATCH then (True, False, False, s3)
         else (False, h3 = WINBIO_E_BAD_CAPTURE, False, s3))
      else (True, False, is_match, s3))"

text \<open>
  The callback of an identification: \<open>(success, retry, match)\<close>; a match carries the GUID and the
  finger, which are written only then.
\<close>

definition identify_cb :: "'s adapters \<Rightarrow> u32 \<Rightarrow> 's \<Rightarrow> bool \<times> bool \<times> (guid \<times> u32) option \<times> 's" where
  "identify_cb ad status s =
     (if status \<noteq> STATUS_SUCCESS then (False, False, None, s)
      else case ad_FinishCapture ad s of (h1, s1) \<Rightarrow>
      if h1 \<noteq> ERROR_SUCCESS then (False, h1 = WINBIO_E_BAD_CAPTURE, None, s1)
      else case ad_PushDataToEngine ad WINBIO_PURPOSE_IDENTIFY s1 of (h2, s2) \<Rightarrow>
      if h2 \<noteq> ERROR_SUCCESS then (False, h2 = WINBIO_E_BAD_CAPTURE, None, s2)
      else case ad_IdentifyFeatureSet ad s2 of (h3, ident, sub, s3) \<Rightarrow>
      if h3 \<noteq> ERROR_SUCCESS then
        (if h3 = WINBIO_E_UNKNOWN_ID then (True, False, None, s3)
         else (False, h3 = WINBIO_E_BAD_CAPTURE, None, s3))
      else if ident_type ident \<noteq> WINBIO_ID_TYPE_GUID then (False, False, None, s3)
      else (True, False, Some (TemplateGuid ident, ucast sub), s3))"

section \<open>What commits may do\<close>

text \<open>
  An engine reaches the device only through the \<open>AddRecord\<close> function it is given: the device after
  a commit is the result of some calls of it, between which the DLL's own state may change.
\<close>

inductive add_chain :: "'s add_fn \<Rightarrow> tudor_device \<Rightarrow> tudor_device \<Rightarrow> bool" for add where
  add_none: "add_chain add dev dev"
| add_more: "add_chain add dev dev1 \<Longrightarrow> add srec (dev1, s) = Inr (hres, dev2, s') \<Longrightarrow>
    add_chain add dev dev2"

definition commits_by_adding :: "'s adapters \<Rightarrow> bool" where
  "commits_by_adding ad \<longleftrightarrow>
     (\<forall>add i f dev s hres dev' s'.
        ad_CommitEnrollment ad add i f (dev, s) = Inr (hres, dev', s') \<longrightarrow> add_chain add dev dev')"

text \<open>The flags of a device, which record operations leave alone.\<close>

definition device_flags :: "tudor_device \<Rightarrow> bool \<times> bool \<times> bool \<times> guid \<times> u32" where
  "device_flags dev = (use_dll_storage dev, enrolling dev, override_template_count dev,
     enroll_guid dev, enroll_finger dev)"

lemma tudor_add_record_flags:
  "tudor_add_record mem dev g f d = Inr (b, dev') \<Longrightarrow> device_flags dev' = device_flags dev"
  by (auto simp: tudor_add_record_def push_record_def device_flags_def split: if_splits)

lemma storage_AddRecord_flags:
  "storage_AddRecord err srec dev = Inr (st, dev') \<Longrightarrow> device_flags dev' = device_flags dev"
  by (auto simp: storage_AddRecord_def push_record_def device_flags_def
      split: if_splits option.splits)

lemma wipe_records_mem_flags:
  assumes "store_inv dev" and "wipe_records_mem dev g f = (n, dev')"
  shows "device_flags dev' = device_flags dev" and "store_inv dev'"
proof -
  have "res_inv dev" using assms(1) by (simp add: store_inv_def)
  from wipe_device[OF this, of "wipe_matches g f"] show "device_flags dev' = device_flags dev"
    using assms(2) by (auto simp: wipe_records_mem_def device_flags_def split: prod.splits if_splits)
  show "store_inv dev'"
    using wipe_loop_inv[OF assms(1), of "wipe_matches g f"] assms(2)
    by (auto simp: wipe_records_mem_def split: prod.splits)
qed

lemma pipeline_AddRecord_keeps:
  assumes "pipeline_AddRecord ad dll srec (dev, s) = Inr (hres, dev', s')" and "store_inv dev"
  shows "store_inv dev' \<and> device_flags dev' = device_flags dev"
  using assms
  by (cases "ad_dll_AddRecord ad srec s")
    (auto simp: pipeline_AddRecord_def enroll_intercept_AddRecord_def res_bind_eq_Inr
      split: if_splits option.splits
      intro: tudor_add_record_inv storage_AddRecord_inv
      dest: tudor_add_record_flags storage_AddRecord_flags)

lemma add_chain_keeps:
  assumes "add_chain (pipeline_AddRecord ad dll) dev dev'" and "store_inv dev"
  shows "store_inv dev' \<and> device_flags dev' = device_flags dev"
  using assms
proof (induction rule: add_chain.induct)
  case (add_more dev1 srec s hres dev2 s')
  then show ?case using pipeline_AddRecord_keeps[OF add_more(2)] by simp
qed simp

section \<open>The life of a device\<close>

text \<open>The operations the host performs on a device, in any order.\<close>

inductive device_step ::
    "'s adapters \<Rightarrow> 's storage_interface \<Rightarrow> tudor_device \<times> 's \<Rightarrow> tudor_device \<times> 's \<Rightarrow> bool"
  for ad sif where
  step_open: "device_step ad sif ds (snd (tudor_open ad st ds))"
| step_close: "device_step ad sif ds (snd (tudor_close ad ds))"
| step_reopen: "device_step ad sif ds (snd (tudor_reopen ad ds))"
| step_start: "device_step ad sif ds (snd (tudor_enroll_start ad g f ds))"
| step_capture: "device_step ad sif ds (snd (tudor_enroll_capture ad ds))"
| step_commit: "tudor_enroll_commit ad ds = Inr (ok, dupl, ds') \<Longrightarrow> device_step ad sif ds ds'"
| step_discard: "device_step ad sif ds (snd (tudor_enroll_discard ad ds))"
| step_verify: "device_step ad sif ds (snd (tudor_verify ad ds))"
| step_identify: "device_step ad sif ds (snd (tudor_identify ad ds))"
| step_add: "tudor_add_record True dev g f d = Inr (b, dev') \<Longrightarrow> device_step ad sif (dev, s) (dev', s)"
| step_wipe: "tudor_wipe_records sif ds g f = Some (Inr (n, ds')) \<Longrightarrow> device_step ad sif ds ds'"

inductive_cases device_stepE: "device_step ad sif ds ds'"

definition device_wf :: "tudor_device \<Rightarrow> bool" where
  "device_wf dev \<longleftrightarrow> store_inv dev \<and> override_template_count dev = enrolling dev"

lemma store_inv_cleared:
  "store_inv (dev\<lparr>records := [], result_records := [], result_cursor := []\<rparr>)"
  by (simp add: store_inv_def res_inv_def key_inv_def)

lemma store_inv_flag_updates [simp]:
  "store_inv (dev\<lparr>dev_state := x\<rparr>) = store_inv dev"
  "store_inv (dev\<lparr>use_dll_storage := b\<rparr>) = store_inv dev"
  "store_inv (dev\<lparr>enrolling := b\<rparr>) = store_inv dev"
  "store_inv (dev\<lparr>enrolling := b, override_template_count := b'\<rparr>) = store_inv dev"
  "store_inv (dev\<lparr>enrolling := b, override_template_count := b', enroll_guid := g,
     enroll_finger := f\<rparr>) = store_inv dev"
  by (simp_all add: store_inv_def res_inv_def key_inv_def)

lemma init_device_wf: "device_wf (init_device dev st)"
proof -
  have "store_inv (init_device dev st)"
    by (simp add: init_device_def store_inv_def res_inv_def key_inv_def)
  then show ?thesis by (simp add: device_wf_def init_device_def)
qed

lemma tudor_open_wf: "device_wf (fst (snd (tudor_open ad st ds)))"
proof -
  obtain dev s where ds: "ds = (dev, s)" by (cases ds)
  have w: "device_wf (init_device dev st)" "\<And>b. device_wf ((init_device dev st)\<lparr>use_dll_storage := b\<rparr>)"
    using init_device_wf[of dev st] by (simp_all add: device_wf_def)
  obtain st1 h1 s1 where 1: "ad_add_device ad s = (st1, h1, s1)" by (cases "ad_add_device ad s")
  obtain st2 s2 where 2: "ad_open_file ad s1 = (st2, s2)" by (cases "ad_open_file ad s1")
  define dll where "dll \<longleftrightarrow> ad_dll_storage ad \<noteq> None"
  obtain ok s3 where 3: "run_calls ad dll (open_calls ad dll) s2 = (ok, s3)"
    by (cases "run_calls ad dll (open_calls ad dll) s2")
  obtain h4 st4 s4 where 4: "ad_QueryStatus ad s3 = (h4, st4, s4)" by (cases "ad_QueryStatus ad s3")
  show ?thesis
    using w by (simp add: tudor_open_def ds 1 2 3 4 Let_def dll_def[symmetric] del: not_None_eq)
qed

lemma tudor_close_wf: "device_wf (fst ds) \<Longrightarrow> device_wf (fst (snd (tudor_close ad ds)))"
  using store_inv_cleared[of "fst ds"]
  by (auto simp: tudor_close_def device_wf_def split: prod.splits)

lemma device_wf_flags:
  "device_wf dev \<Longrightarrow> store_inv dev' \<Longrightarrow> device_flags dev' = device_flags dev \<Longrightarrow> device_wf dev'"
  by (simp add: device_wf_def device_flags_def)

lemma tudor_enroll_commit_wf:
  assumes "tudor_enroll_commit ad (dev, s) = Inr (ok, dupl, dev', s')" and "device_wf dev"
    and "commits_by_adding ad"
  shows "device_wf dev'"
proof -
  have keep: "device_wf dev1"
    if "ad_CommitEnrollment ad (pipeline_AddRecord ad dll) i f (dev, s1) = Inr (h, dev1, s2)"
    for dll i f s1 h dev1 s2
  proof -
    have "add_chain (pipeline_AddRecord ad dll) dev dev1"
      using that assms(3) unfolding commits_by_adding_def by blast
    from add_chain_keeps[OF this] show ?thesis
      using assms(2) by (auto simp: device_wf_def device_flags_def)
  qed
  show ?thesis
    using assms(1,2) keep
    by (auto simp: tudor_enroll_commit_def res_bind_eq_Inr device_wf_def
        split: if_splits prod.splits)
qed

lemma tudor_wipe_records_wf:
  assumes "tudor_wipe_records sif (dev, s) g f = Some (Inr (n, dev', s'))" and "device_wf dev"
  shows "device_wf dev'"
proof (cases "use_dll_storage dev")
  case True
  then show ?thesis
    using assms by (auto simp: tudor_wipe_records_def split: option.splits sum.splits prod.splits)
next
  case False
  obtain k d1 where w: "wipe_records_mem dev g f = (k, d1)" by fastforce
  then have "dev' = d1" using False assms(1) by (simp add: tudor_wipe_records_def)
  then show ?thesis
    using wipe_records_mem_flags[OF _ w] assms(2)
    by (auto simp: device_wf_def device_flags_def)
qed

lemma device_step_wf:
  assumes "device_step ad sif ds ds'" and "device_wf (fst ds)" and "commits_by_adding ad"
  shows "device_wf (fst ds')"
  using assms(1)
proof cases
  case (step_open st)
  then show ?thesis using tudor_open_wf by metis
next
  case step_close
  then show ?thesis using tudor_close_wf[OF assms(2)] by metis
next
  case step_reopen
  then show ?thesis
    using tudor_close_wf[OF assms(2), of ad] tudor_open_wf[of ad None]
    by (auto simp: tudor_reopen_def split: prod.splits)
next
  case (step_start g f)
  then show ?thesis
    using assms(2) by (auto simp: tudor_enroll_start_def device_wf_def split: prod.splits)
next
  case step_capture
  then show ?thesis
    using assms(2) by (auto simp: tudor_enroll_capture_def split: prod.splits)
next
  case (step_commit ok dupl)
  then show ?thesis
    using assms(2,3) by (cases ds; cases ds') (auto intro: tudor_enroll_commit_wf)
next
  case step_discard
  then show ?thesis
    using assms(2) by (auto simp: tudor_enroll_discard_def device_wf_def split: prod.splits)
next
  case step_verify
  then show ?thesis
    using assms(2) by (auto simp: tudor_verify_def start_capture_idle_def split: prod.splits)
next
  case step_identify
  then show ?thesis
    using assms(2) by (auto simp: tudor_identify_def start_capture_idle_def split: prod.splits)
next
  case (step_add dev g f d b dev' s)
  then show ?thesis
    using assms(2) tudor_add_record_inv[OF step_add(3)] tudor_add_record_flags[OF step_add(3)]
    by (auto simp: device_wf_def device_flags_def)
next
  case (step_wipe g f n)
  then show ?thesis
    using assms(2) by (cases ds; cases ds') (auto intro: tudor_wipe_records_wf)
qed

lemma device_steps_wf:
  "(device_step ad sif)\<^sup>*\<^sup>* ds ds' \<Longrightarrow> device_wf (fst ds) \<Longrightarrow> commits_by_adding ad \<Longrightarrow> device_wf (fst ds')"
  by (induction rule: rtranclp_induct) (auto dest: device_step_wf)

section \<open>Properties\<close>

lemma le_bytes_0: "le_bytes n 0 = replicate n 0"
  by (induction n) auto

lemma drop_four: "drop (Suc (Suc (Suc (Suc 0)))) xs = drop 4 xs"
  by (simp add: numeral_eq_Suc)

lemma zero_count: "word_le 4 (0 :: u32) = [0, 0, 0, 0]"
proof -
  have "replicate 4 (0 :: byte) = [0, 0, 0, 0]" by (simp add: numeral_eq_Suc)
  then show ?thesis by (simp add: word_le_def le_bytes_0)
qed

text \<open>
  The template count of the sensor is hidden from the DLL only while an enrollment runs: from
  an opened device, after any sequence of device operations, in any order and with any outcome,
  the record store is well formed, and \<open>tudor_devctrl\<close> changes a buffer exactly when it answers
  code \<open>0x44202c\<close> successfully with a count other than zero during an enrollment, to the count zero.
\<close>

theorem override_only_while_enrolling:
  assumes "commits_by_adding ad"
    and "(device_step ad sif)\<^sup>*\<^sup>* (snd (tudor_open ad st ds0)) (dev, s)"
  shows "store_inv dev \<and> tudor_devctrl_output dev code status buf =
    (if enrolling dev \<and> code = 0x44202c \<and> status = STATUS_SUCCESS \<and> 4 \<le> length buf \<and>
        (le_word (take 4 buf) :: u32) \<noteq> 0
     then [0, 0, 0, 0] @ drop 4 buf else buf)"
proof -
  have "device_wf (fst (dev, s))"
    by (rule device_steps_wf[OF assms(2) tudor_open_wf assms(1)])
  moreover have "word_le 4 (0 :: u32) = [0, 0, 0, 0]"
    by (rule zero_count)
  ultimately show ?thesis
    by (auto simp: device_wf_def tudor_devctrl_output_def Let_def splice_def word_neq_0_conv
        drop_four)
qed

text \<open>Adapters all of whose calls succeed, with an engine that stores one template per commit.\<close>

definition sample_srec :: "winbio_identity \<Rightarrow> byte \<Rightarrow> byte list \<Rightarrow> winbio_storage_record" where
  "sample_srec i f blob = \<lparr>srec_Identity = Some i, srec_SubFactor = f, srec_IndexElementCount = 0,
     srec_TemplateBlob = Some blob, srec_PayloadBlobSize = 0\<rparr>"

definition quiet_adapters :: "byte list \<Rightarrow> unit adapters" where
  "quiet_adapters blob = \<lparr>ad_add_device = (\<lambda>s. (0, True, s)), ad_open_file = (\<lambda>s. (0, s)),
     ad_call = (\<lambda>_ _ s. (0, s)), ad_QueryStatus = (\<lambda>s. (0, WINBIO_SENSOR_READY, s)),
     ad_StartCapture = (\<lambda>_ s. (0, s)), ad_FinishCapture = (\<lambda>s. (0, s)),
     ad_PushDataToEngine = (\<lambda>_ s. (0, s)), ad_UpdateEnrollment = (\<lambda>s. (0, s)),
     ad_CheckForDuplicate = (\<lambda>s. (0, False, s)),
     ad_CommitEnrollment = (\<lambda>add i f ds. add (sample_srec i f blob) ds),
     ad_VerifyFeatureSet = (\<lambda>_ _ s. (0, True, s)),
     ad_IdentifyFeatureSet = (\<lambda>s. (WINBIO_E_UNKNOWN_ID, guid_identity zero_guid, 0, s)),
     ad_dll_storage = None, ad_dll_AddRecord = (\<lambda>_ s. (0, s)),
     ad_has_OpenDatabase = False, ad_has_CloseDatabase = False\<rparr>"

lemma quiet_commits_by_adding: "commits_by_adding (quiet_adapters blob)"
  by (auto simp: commits_by_adding_def quiet_adapters_def intro: add_more[OF add_none])

definition dummy_storage :: "unit storage_interface" where
  "dummy_storage = \<lparr>si_DeleteRecord = (\<lambda>_ _ s. Inr (0, s)), si_QueryBySubject = (\<lambda>_ _ s. Inr (1, s)),
     si_FirstRecord = (\<lambda>s. Inr (1, s)), si_NextRecord = (\<lambda>s. Inr (1, s)),
     si_GetCurrentRecord = (\<lambda>s. Inr (1, empty_srec, s))\<rparr>"

theorem override_only_while_enrolling_witness:
  "\<exists>dev. (device_step (quiet_adapters [1]) dummy_storage)\<^sup>*\<^sup>*
      (snd (tudor_open (quiet_adapters [1]) None (fresh_device, ()))) (dev, ()) \<and>
    tudor_devctrl_output dev 0x44202c 0 [3, 0, 0, 0, 9] = [0, 0, 0, 0, 9]"
proof -
  let ?ad = "quiet_adapters [1]"
  let ?o = "snd (tudor_open ?ad None (fresh_device, ()))"
  obtain dev where dev: "tudor_enroll_start ?ad zero_guid 2 ?o = (True, dev, ())" "enrolling dev"
    by (simp add: tudor_enroll_start_def tudor_open_def quiet_adapters_def init_device_def
        open_calls_def enroll_calls_def call_storage_def storage_NOP_def status_defs Let_def
        fresh_device_def)
  have st: "(device_step ?ad dummy_storage)\<^sup>*\<^sup>* ?o (dev, ())"
    using step_start[of ?ad dummy_storage ?o zero_guid 2] dev(1) by (metis r_into_rtranclp snd_conv)
  have "(le_word [3, 0, 0, 0] :: u32) \<noteq> 0" by (simp add: le_word_def)
  then show ?thesis
    using override_only_while_enrolling[OF quiet_commits_by_adding st,
        of "0x44202c" 0 "[3, 0, 0, 0, 9]"] dev(2) st
    by (auto simp: STATUS_SUCCESS_def)
qed

text \<open>
  Committing an enrollment to the DLL's storage leaves a copy in the host's store: when the
  engine stores one non-empty template under the identity and the finger it is given, and the
  sensor knows no duplicate, \<open>tudor_enroll_commit\<close> succeeds, ends the enrollment and files the
  template under the enrolled GUID and finger; a template already filed there is kept.
\<close>

theorem enroll_commit_files_template:
  assumes "store_inv dev" and "enrolling dev" and "use_dll_storage dev"
    and "ad_CheckForDuplicate ad s = (ERROR_SUCCESS, False, s1)"
    and "\<forall>add i f ds. ad_CommitEnrollment ad add i f ds = add (sample_srec i f blob) ds"
    and "\<forall>r. ad_dll_AddRecord ad r s1 = (ERROR_SUCCESS, s2 r)"
    and "blob \<noteq> []" and "enroll_finger dev < 256"
  shows "\<exists>dev' s'. tudor_enroll_commit ad (dev, s) = Inr (True, False, dev', s') \<and>
    store_inv dev' \<and> \<not> enrolling dev' \<and> \<not> override_template_count dev' \<and>
    store_map dev' = (\<lambda>k. if k = (enroll_guid dev, enroll_finger dev) \<and> store_map dev k = None
                          then Some blob else store_map dev k)"
proof -
  let ?i = "guid_identity (enroll_guid dev)" and ?f = "ucast (enroll_finger dev) :: byte"
  let ?k = "(enroll_guid dev, enroll_finger dev)"
  have f: "(ucast ?f :: u32) = enroll_finger dev"
  proof -
    have "unat (enroll_finger dev) < 256" using assms(8) by (simp add: word_less_nat_alt)
    then have "unat (ucast ?f :: u32) = unat (enroll_finger dev)"
      by (simp add: unsigned_ucast_eq take_bit_eq_mod unat_mod)
    then show ?thesis by (simp add: word_unat_eq_iff)
  qed
  obtain b dev1 where add: "tudor_add_record True dev (enroll_guid dev) (enroll_finger dev) blob
      = Inr (b, dev1)"
    by (cases "has_record (enroll_guid dev) (enroll_finger dev) dev")
      (auto simp: tudor_add_record_def)
  have commit: "ad_CommitEnrollment ad (pipeline_AddRecord ad True) ?i ?f (dev, s1) =
      Inr (ERROR_SUCCESS, dev1, s2 (sample_srec ?i ?f blob))"
    using assms(5,6,7) add f
    by (simp add: pipeline_AddRecord_def enroll_intercept_AddRecord_def sample_srec_def guid_identity_def)
  have inv1: "store_inv dev1" by (rule tudor_add_record_inv[OF add assms(1)])
  have map1: "store_map dev1 = (if store_map dev ?k = None then (store_map dev)(?k \<mapsto> blob) else store_map dev)"
    using add_record_map[OF add] by (auto simp: domIff)
  show ?thesis
    using assms(2,3,4) commit inv1 map1
    by (auto simp: tudor_enroll_commit_def store_map_def fun_eq_iff)
qed

theorem enroll_commit_files_template_witness:
  "\<exists>dev' s'. tudor_enroll_commit (quiet_adapters [7, 7])
      (fresh_device\<lparr>use_dll_storage := True, enrolling := True, enroll_finger := 3\<rparr>, ()) =
      Inr (True, False, dev', s') \<and> store_map dev' (zero_guid, 3) = Some [7, 7]"
proof -
  let ?dev = "fresh_device\<lparr>use_dll_storage := True, enrolling := True, enroll_finger := 3\<rparr>"
  have inv: "store_inv ?dev" by (simp add: store_inv_def res_inv_def key_inv_def fresh_device_def)
  have none: "store_map ?dev k = None" for k by (simp add: store_map_def fresh_device_def)
  show ?thesis
    using enroll_commit_files_template[OF inv, of "quiet_adapters [7, 7]" "()" "()" "[7, 7]" "\<lambda>_. ()"] none
    by (auto simp: quiet_adapters_def ERROR_SUCCESS_def fresh_device_def)
qed

end
