(* ===== verification/Host_Handler.thy ===== *)
theory Host_Handler
  imports Tudor_Device Host_Ipc
begin

text \<open>
  The driver host's message handler (\<open>tudor-host/src/handler.c\<close>): a state machine driven by the
  messages of the libfprint module and by the completions of captures.  The handler's lock is
  held for the whole of each event, so an event is one step.
\<close>

section \<open>State\<close>

text \<open>The callback of the capture in flight; \<open>async_res\<close> is NULL exactly when there is none.\<close>

datatype action = EnrollAction | VerifyAction | IdentifyAction

datatype ipc_reply =
    Ack
  | RespProbe "byte list"
  | RespEnroll (re_retry: bool) (re_done: bool) (re_duplicate: bool) (re_data: "byte list")
  | RespVerify (rv_retry: bool) (rv_match: bool)
  | RespIdentify (ri_retry: bool) (ri_match: bool) (ri_guid: guid) (ri_finger: u32)

text \<open>
  \<open>struct handler_state\<close>.  The members of the union \<open>action\<close> are separate fields: each action
  writes its own member before it reads it.  \<open>hs_sent\<close> are the messages sent so far.
\<close>

record 's handler_state =
  hs_dev :: tudor_device
  hs_dll :: 's
  async_action :: "action option"
  async_cancelled :: bool
  capture_fails :: nat
  act_enroll_guid :: guid
  act_enroll_finger :: u32
  act_done :: bool
  act_retry :: bool
  act_has_match :: bool
  act_guid :: guid
  act_finger :: u32
  hs_sent :: "ipc_reply list"

definition MAX_CONSECUTIVE_CAPTURE_FAILS :: nat where
  "MAX_CONSECUTIVE_CAPTURE_FAILS = 3"

definition handler_init :: "tudor_device \<Rightarrow> 's \<Rightarrow> 's handler_state" where
  "handler_init dev s = \<lparr>hs_dev = dev, hs_dll = s, async_action = None, async_cancelled = False,
     capture_fails = 0, act_enroll_guid = zero_guid, act_enroll_finger = 0, act_done = False,
     act_retry = False, act_has_match = False, act_guid = zero_guid, act_finger = 0,
     hs_sent = []\<rparr>"

text \<open>The bytes of a message the host sends; of \<open>RespEnroll\<close> the last is the structure's padding.\<close>

fun reply_bytes :: "ipc_reply \<Rightarrow> byte list" where
  "reply_bytes Ack = simple_msg IPC_MSG_ACK"
| "reply_bytes (RespProbe name) =
     simple_msg IPC_MSG_RESP_PROBE @ name_field name @ replicate 3 0"
| "reply_bytes (RespEnroll r d u data) =
     simple_msg IPC_MSG_RESP_ENROLL @ [bool_byte r, bool_byte d, bool_byte u] @ data @ [0]"
| "reply_bytes (RespVerify r m) =
     simple_msg IPC_MSG_RESP_VERIFY @ [bool_byte r, bool_byte m, 0, 0]"
| "reply_bytes (RespIdentify r m g f) =
     simple_msg IPC_MSG_RESP_IDENTIFY @ [bool_byte r, bool_byte m, 0, 0] @ guid_bytes g @ word_le 4 f"

section \<open>Helpers\<close>

definition send :: "ipc_reply \<Rightarrow> 's handler_state \<Rightarrow> 's handler_state" where
  "send r st = st\<lparr>hs_sent := hs_sent st @ [r]\<rparr>"

definition init_action :: "'s handler_state \<Rightarrow> 's handler_state" where
  "init_action st = st\<lparr>async_action := None, async_cancelled := False\<rparr>"

definition on_device ::
    "(tudor_device \<times> 's \<Rightarrow> bool \<times> tudor_device \<times> 's) \<Rightarrow> 's handler_state \<Rightarrow> bool \<times> 's handler_state" where
  "on_device f st = (case f (hs_dev st, hs_dll st) of
     (ok, dev, s) \<Rightarrow> (ok, st\<lparr>hs_dev := dev, hs_dll := s\<rparr>))"

text \<open>\<open>cleanup_action\<close>: false, after an acknowledgement, for a cancelled action.\<close>

definition cleanup_action :: "'s handler_state \<Rightarrow> bool \<times> 's handler_state" where
  "cleanup_action st =
     (let st1 = st\<lparr>async_action := None\<rparr> in
      if async_cancelled st1 then (False, send Ack st1) else (True, st1))"

text \<open>Starting a capture for an enrollment or an identification; a failure aborts.\<close>

definition start_enroll_capture :: "'s adapters \<Rightarrow> 's handler_state \<Rightarrow> 's handler_state result" where
  "start_enroll_capture ad st =
     (case on_device (tudor_enroll_capture ad) (st\<lparr>act_done := True\<rparr>) of (ok, st1) \<Rightarrow>
        if \<not> ok then Inl Abort else Inr (st1\<lparr>async_action := Some EnrollAction\<rparr>))"

definition start_identify ::
    "'s adapters \<Rightarrow> action \<Rightarrow> 's handler_state \<Rightarrow> 's handler_state result" where
  "start_identify ad act st =
     (case on_device (tudor_identify ad) (st\<lparr>act_retry := False, act_has_match := False\<rparr>) of (ok, st1) \<Rightarrow>
        if \<not> ok then Inl Abort else Inr (st1\<lparr>async_action := Some act\<rparr>))"

definition hs_wipe ::
    "'s storage_interface \<Rightarrow> guid option \<Rightarrow> u32 \<Rightarrow> 's handler_state \<Rightarrow> 's handler_state result" where
  "hs_wipe sif g f st =
     (case tudor_wipe_records sif (hs_dev st, hs_dll st) g f of
        None \<Rightarrow> Inl Hang
      | Some (Inl e) \<Rightarrow> Inl e
      | Some (Inr (_, dev, s)) \<Rightarrow> Inr (st\<lparr>hs_dev := dev, hs_dll := s\<rparr>))"

section \<open>Completed captures\<close>

text \<open>The enrolled record, searched for in the host's own list.\<close>

definition find_enrolled :: "guid \<Rightarrow> u32 \<Rightarrow> tudor_device \<Rightarrow> tudor_record option" where
  "find_enrolled g f dev =
     find (\<lambda>r. rec_guid r = g \<and> rec_finger r = f) (device_records dev)"

definition handler_enroll_cb ::
    "'s adapters \<Rightarrow> bool \<Rightarrow> 's handler_state \<Rightarrow> 's handler_state result" where
  "handler_enroll_cb ad ok st =
     (case cleanup_action st of (go_on, st1) \<Rightarrow>
      if \<not> go_on then
        (case on_device (tudor_enroll_discard ad) st1 of (disc, st2) \<Rightarrow>
           if \<not> disc then Inl Abort else Inr st2)
      else if \<not> ok \<and> act_done st1 then Inl Abort
      else if act_done st1 then
        res_bind (tudor_enroll_commit ad (hs_dev st1, hs_dll st1)) (\<lambda>(committed, dupl, dev, s).
        let st2 = st1\<lparr>hs_dev := dev, hs_dll := s\<rparr> in
        if \<not> committed then
          (if \<not> dupl then Inl Abort
           else case on_device (tudor_enroll_discard ad) st2 of (_, st3) \<Rightarrow>
             Inr (send (RespEnroll False True True []) st3))
        else
          (case find_enrolled (act_enroll_guid st2) (act_enroll_finger st2) dev of
             None \<Rightarrow> Inr (send (RespEnroll False True False []) st2)
           | Some rec \<Rightarrow>
               if length (rec_data rec) > IPC_MAX_RECORD_SIZE then Inl Abort
               else Inr (send (RespEnroll False True False (rec_data rec)) st2)))
      else
        res_bind (start_enroll_capture ad (init_action st1)) (\<lambda>st2.
        Inr (send (RespEnroll (\<not> ok) False False []) st2)))"

text \<open>
  The counter of consecutive failures; a bad capture, which asks for a retry, does not count.
\<close>

definition count_failure :: "'s handler_state \<Rightarrow> 's handler_state result" where
  "count_failure st =
     (if act_retry st then Inr st
      else if Suc (capture_fails st) > MAX_CONSECUTIVE_CAPTURE_FAILS then Inl Abort
      else Inr (st\<lparr>capture_fails := Suc (capture_fails st)\<rparr>))"

definition verify_via_identify_cb :: "bool \<Rightarrow> 's handler_state \<Rightarrow> 's handler_state result" where
  "verify_via_identify_cb ok st =
     (case cleanup_action st of (go_on, st1) \<Rightarrow>
      if \<not> go_on then Inr st1
      else if \<not> ok then
        res_bind (count_failure st1) (\<lambda>st2. Inr (send (RespVerify True False) st2))
      else Inr (send (RespVerify False (act_has_match st1)) (st1\<lparr>capture_fails := 0\<rparr>)))"

definition handler_identify_cb :: "bool \<Rightarrow> 's handler_state \<Rightarrow> 's handler_state result" where
  "handler_identify_cb ok st =
     (case cleanup_action st of (go_on, st1) \<Rightarrow>
      if \<not> go_on then Inr st1
      else if \<not> ok then
        res_bind (count_failure st1) (\<lambda>st2. Inr (send (RespIdentify True False zero_guid 0) st2))
      else Inr (send (RespIdentify False (act_has_match st1) (act_guid st1) (act_finger st1))
                  (st1\<lparr>capture_fails := 0\<rparr>)))"

text \<open>
  A capture completes with a status: the device's callback writes its outputs into the action,
  then the handler's callback runs.
\<close>

definition capture_done :: "'s adapters \<Rightarrow> u32 \<Rightarrow> 's handler_state \<Rightarrow> 's handler_state result" where
  "capture_done ad status st =
     (case async_action st of
        None \<Rightarrow> Inr st
      | Some EnrollAction \<Rightarrow>
          (case enroll_cb ad status (hs_dll st) of (ok, fin, s) \<Rightarrow>
             handler_enroll_cb ad ok (st\<lparr>hs_dll := s, act_done := fin\<rparr>))
      | Some act \<Rightarrow>
          (case identify_cb ad status (hs_dll st) of (ok, retry, m, s) \<Rightarrow>
             let st1 = st\<lparr>hs_dll := s, act_retry := retry, act_has_match := (m \<noteq> None)\<rparr>;
                 st2 = (case m of None \<Rightarrow> st1 | Some (g, f) \<Rightarrow> st1\<lparr>act_guid := g, act_finger := f\<rparr>)
             in if act = VerifyAction then verify_via_identify_cb ok st2
                else handler_identify_cb ok st2))"

section \<open>Messages\<close>

definition check_in_action :: "'s handler_state \<Rightarrow> unit result" where
  "check_in_action st = (if async_action st \<noteq> None then Inl Abort else Inr ())"

definition handle_add_record ::
    "'s storage_interface \<Rightarrow> guid \<Rightarrow> u32 \<Rightarrow> byte list \<Rightarrow> 's handler_state \<Rightarrow> 's handler_state result" where
  "handle_add_record sif g f d st =
     res_bind (tudor_add_record True (hs_dev st) g f d) (\<lambda>(added, dev).
     let st1 = st\<lparr>hs_dev := dev\<rparr> in
     if added \<or> use_dll_storage dev then Inr (send Ack st1)
     else
       res_bind (hs_wipe sif (Some g) f st1) (\<lambda>st2.
       res_bind (tudor_add_record True (hs_dev st2) g f d) (\<lambda>(added', dev').
       if \<not> added' then Inl Abort else Inr (send Ack (st2\<lparr>hs_dev := dev'\<rparr>)))))"

definition handle_enroll :: "'s adapters \<Rightarrow> guid \<Rightarrow> u32 \<Rightarrow> 's handler_state \<Rightarrow> 's handler_state result" where
  "handle_enroll ad g f st =
     (let st1 = (init_action st)\<lparr>act_enroll_guid := g, act_enroll_finger := f\<rparr> in
      case on_device (tudor_enroll_start ad g f) st1 of (ok, st2) \<Rightarrow>
      if \<not> ok then Inl Abort
      else res_bind (start_enroll_capture ad st2) (\<lambda>st3. Inr (send Ack st3)))"

text \<open>
  \<open>handle_msg\<close> on one message: the type is peeked, the message is then received with the sizes
  of its structure.  The result tells whether the host is to shut down.
\<close>

definition handle_msg ::
    "'s adapters \<Rightarrow> 's storage_interface \<Rightarrow> byte list \<Rightarrow> byte list \<Rightarrow> 's handler_state
      \<Rightarrow> (bool \<times> 's handler_state) result" where
  "handle_msg ad sif sensor_name msg st =
     res_bind (ipc_peek_msg msg) (\<lambda>code.
     case msg_type_of code of
       Some IPC_MSG_SHUTDOWN \<Rightarrow>
         res_bind (check_in_action st) (\<lambda>_.
         res_bind (ipc_recv_msg IPC_MSG_SHUTDOWN 4 4 msg) (\<lambda>_. Inr (True, st)))
     | Some IPC_MSG_PROBE \<Rightarrow>
         res_bind (check_in_action st) (\<lambda>_.
         res_bind (ipc_recv_msg IPC_MSG_PROBE 4 4 msg) (\<lambda>_.
         Inr (False, send (RespProbe sensor_name) st)))
     | Some IPC_MSG_CANCEL \<Rightarrow>
         res_bind (ipc_recv_msg IPC_MSG_CANCEL 4 4 msg) (\<lambda>_.
         if async_action st \<noteq> None then Inr (False, st\<lparr>async_cancelled := True\<rparr>)
         else Inr (False, send Ack st))
     | Some IPC_MSG_ADD_RECORD \<Rightarrow>
         res_bind (check_in_action st) (\<lambda>_.
         res_bind (ipc_recv_msg IPC_MSG_ADD_RECORD 24 (24 + IPC_MAX_RECORD_SIZE) msg) (\<lambda>m.
         res_bind (handle_add_record sif (msg_guid m) (msg_finger m) (drop 24 m) st) (\<lambda>st'.
         Inr (False, st'))))
     | Some IPC_MSG_DEL_RECORD \<Rightarrow>
         res_bind (check_in_action st) (\<lambda>_.
         res_bind (ipc_recv_msg IPC_MSG_DEL_RECORD 24 24 msg) (\<lambda>m.
         res_bind (hs_wipe sif (Some (msg_guid m)) (msg_finger m) st) (\<lambda>st'.
         Inr (False, send Ack st'))))
     | Some IPC_MSG_CLEAR_RECORDS \<Rightarrow>
         res_bind (check_in_action st) (\<lambda>_.
         res_bind (ipc_recv_msg IPC_MSG_CLEAR_RECORDS 4 4 msg) (\<lambda>_.
         res_bind (hs_wipe sif None TUDOR_FINGER_ANY st) (\<lambda>st'. Inr (False, send Ack st'))))
     | Some IPC_MSG_ENROLL \<Rightarrow>
         res_bind (check_in_action st) (\<lambda>_.
         res_bind (ipc_recv_msg IPC_MSG_ENROLL 24 24 msg) (\<lambda>m.
         res_bind (handle_enroll ad (msg_guid m) (msg_finger m) st) (\<lambda>st'. Inr (False, st'))))
     | Some IPC_MSG_VERIFY \<Rightarrow>
         res_bind (check_in_action st) (\<lambda>_.
         res_bind (ipc_recv_msg IPC_MSG_VERIFY 24 24 msg) (\<lambda>_.
         res_bind (start_identify ad VerifyAction (init_action st)) (\<lambda>st'.
         Inr (False, send Ack st'))))
     | Some IPC_MSG_IDENTIFY \<Rightarrow>
         res_bind (check_in_action st) (\<lambda>_.
         res_bind (ipc_recv_msg IPC_MSG_IDENTIFY 4 4 msg) (\<lambda>_.
         res_bind (start_identify ad IdentifyAction (init_action st)) (\<lambda>st'.
         Inr (False, send Ack st'))))
     | _ \<Rightarrow> Inl Abort)"

section \<open>Runs\<close>

datatype host_event = MsgArrives "byte list" | CaptureDone u32

definition host_step ::
    "'s adapters \<Rightarrow> 's storage_interface \<Rightarrow> byte list \<Rightarrow> host_event \<Rightarrow> 's handler_state
      \<Rightarrow> (bool \<times> 's handler_state) result" where
  "host_step ad sif name ev st =
     (case ev of
        MsgArrives m \<Rightarrow> handle_msg ad sif name m st
      | CaptureDone status \<Rightarrow> res_bind (capture_done ad status st) (\<lambda>st'. Inr (False, st')))"

text \<open>\<open>run_handler_loop\<close> over a sequence of events, up to the shutdown message.\<close>

fun run_handler_loop ::
    "'s adapters \<Rightarrow> 's storage_interface \<Rightarrow> byte list \<Rightarrow> host_event list \<Rightarrow> 's handler_state
      \<Rightarrow> (bool \<times> 's handler_state) result" where
  "run_handler_loop ad sif name [] st = Inr (False, st)"
| "run_handler_loop ad sif name (ev # evs) st =
     res_bind (host_step ad sif name ev st) (\<lambda>(shutdown, st').
       if shutdown then Inr (True, st') else run_handler_loop ad sif name evs st')"

section \<open>Invariant\<close>

text \<open>
  Between events: the device is well formed, an enrollment capture is in flight only while the
  device is enrolling and an identification only while it is not, and no more than three failures
  are counted.
\<close>

definition handler_wf :: "'s handler_state \<Rightarrow> bool" where
  "handler_wf st \<longleftrightarrow> device_wf (hs_dev st) \<and>
     capture_fails st \<le> MAX_CONSECUTIVE_CAPTURE_FAILS \<and>
     (case async_action st of None \<Rightarrow> True
      | Some EnrollAction \<Rightarrow> enrolling (hs_dev st)
      | Some _ \<Rightarrow> \<not> enrolling (hs_dev st))"

definition idle_wf :: "'s handler_state \<Rightarrow> bool" where
  "idle_wf st \<longleftrightarrow> device_wf (hs_dev st) \<and> capture_fails st \<le> MAX_CONSECUTIVE_CAPTURE_FAILS"

lemma handler_wf_idle: "handler_wf st \<Longrightarrow> idle_wf st"
  by (simp add: handler_wf_def idle_wf_def)

lemma idle_wf_none: "idle_wf st \<Longrightarrow> async_action st = None \<Longrightarrow> handler_wf st"
  by (simp add: handler_wf_def idle_wf_def)

lemma send_fields [simp]:
  "hs_dev (send r st) = hs_dev st" "hs_dll (send r st) = hs_dll st"
  "async_action (send r st) = async_action st" "capture_fails (send r st) = capture_fails st"
  "async_cancelled (send r st) = async_cancelled st" "hs_sent (send r st) = hs_sent st @ [r]"
  "act_done (send r st) = act_done st"
  by (simp_all add: send_def)

lemma handler_wf_send [simp]: "handler_wf (send r st) = handler_wf st"
  "idle_wf (send r st) = idle_wf st"
  by (simp_all add: handler_wf_def idle_wf_def split: option.split action.split)

lemma device_wf_enroll_start:
  "device_wf dev \<Longrightarrow> tudor_enroll_start ad g f (dev, s) = (ok, dev', s') \<Longrightarrow>
   device_wf dev' \<and> (ok \<longrightarrow> enrolling dev')"
  by (auto simp: tudor_enroll_start_def device_wf_def split: if_splits prod.splits)

lemma enroll_capture_dev:
  "tudor_enroll_capture ad (dev, s) = (ok, dev', s') \<Longrightarrow> dev' = dev \<and> (ok \<longrightarrow> enrolling dev)"
  by (auto simp: tudor_enroll_capture_def split: if_splits prod.splits)

lemma identify_dev:
  "tudor_identify ad (dev, s) = (ok, dev', s') \<Longrightarrow> dev' = dev \<and> (ok \<longrightarrow> \<not> enrolling dev)"
  by (auto simp: tudor_identify_def start_capture_idle_def split: if_splits prod.splits)

lemma discard_wf:
  "device_wf dev \<Longrightarrow> tudor_enroll_discard ad (dev, s) = (ok, dev', s') \<Longrightarrow>
   device_wf dev' \<and> (ok \<longrightarrow> \<not> enrolling dev')"
  by (auto simp: tudor_enroll_discard_def device_wf_def split: if_splits prod.splits)

lemma cleanup_action_cases:
  assumes "cleanup_action st = (go_on, st1)"
  shows "async_action st1 = None" and "go_on \<longleftrightarrow> \<not> async_cancelled st" and "hs_dev st1 = hs_dev st"
    and "hs_sent st1 = hs_sent st @ (if go_on then [] else [Ack])" and "act_done st1 = act_done st"
    and "capture_fails st1 = capture_fails st" and "idle_wf st1 = idle_wf st"
  using assms by (auto simp: cleanup_action_def Let_def idle_wf_def split: if_splits)

lemma start_enroll_capture_wf:
  "start_enroll_capture ad st = Inr st' \<Longrightarrow> idle_wf st \<Longrightarrow>
   handler_wf st' \<and> hs_sent st' = hs_sent st \<and> async_action st' = Some EnrollAction"
  by (auto simp: start_enroll_capture_def on_device_def handler_wf_def idle_wf_def
      dest: enroll_capture_dev split: if_splits prod.splits)

lemma start_identify_wf:
  "start_identify ad act st = Inr st' \<Longrightarrow> idle_wf st \<Longrightarrow> act \<noteq> EnrollAction \<Longrightarrow>
   handler_wf st' \<and> hs_sent st' = hs_sent st \<and> async_action st' = Some act"
  by (cases act) (auto simp: start_identify_def on_device_def handler_wf_def idle_wf_def
      dest: identify_dev split: if_splits prod.splits)

lemma count_failure_wf:
  "count_failure st = Inr st' \<Longrightarrow> idle_wf st \<Longrightarrow>
   idle_wf st' \<and> hs_sent st' = hs_sent st \<and> async_action st' = async_action st"
  by (auto simp: count_failure_def idle_wf_def split: if_splits)

lemma hs_wipe_wf:
  "hs_wipe sif g f st = Inr st' \<Longrightarrow> handler_wf st \<Longrightarrow> async_action st = None \<Longrightarrow>
   handler_wf st' \<and> hs_sent st' = hs_sent st \<and> async_action st' = None"
  by (auto simp: hs_wipe_def handler_wf_def dest: tudor_wipe_records_wf
      split: option.splits sum.splits prod.splits)

lemma handler_enroll_cb_wf:
  assumes "handler_enroll_cb ad ok st = Inr st'" and "idle_wf st" and "commits_by_adding ad"
  shows "handler_wf st' \<and> length (hs_sent st') = Suc (length (hs_sent st))"
proof -
  obtain go_on st1 where c: "cleanup_action st = (go_on, st1)" by (cases "cleanup_action st")
  note cc = cleanup_action_cases[OF c]
  have wf1: "idle_wf st1" using cc(7) assms(2) by simp
  show ?thesis
  proof (cases go_on)
    case False
    obtain d dev s where d: "tudor_enroll_discard ad (hs_dev st1, hs_dll st1) = (d, dev, s)"
      by (metis prod_cases3)
    then show ?thesis
      using assms(1) c cc False wf1 discard_wf[OF _ d]
      by (auto simp: handler_enroll_cb_def on_device_def handler_wf_def idle_wf_def split: if_splits)
  next
    case go: True
    show ?thesis
    proof (cases "act_done st1")
      case True
      obtain committed dupl dev s where
        cm: "tudor_enroll_commit ad (hs_dev st1, hs_dll st1) = Inr (committed, dupl, dev, s)"
        and rest: "(let st2 = st1\<lparr>hs_dev := dev, hs_dll := s\<rparr> in
        if \<not> committed then
          (if \<not> dupl then Inl Abort
           else case on_device (tudor_enroll_discard ad) st2 of (_, st3) \<Rightarrow>
             Inr (send (RespEnroll False True True []) st3))
        else
          (case find_enrolled (act_enroll_guid st2) (act_enroll_finger st2) dev of
             None \<Rightarrow> Inr (send (RespEnroll False True False []) st2)
           | Some rec \<Rightarrow>
               if length (rec_data rec) > IPC_MAX_RECORD_SIZE then Inl Abort
               else Inr (send (RespEnroll False True False (rec_data rec)) st2))) = Inr st'"
        using assms(1) c go True
        by (auto simp: handler_enroll_cb_def res_bind_eq_Inr split: if_splits)
      have dwf: "device_wf dev"
        using tudor_enroll_commit_wf[OF cm _ assms(3)] wf1 by (simp add: idle_wf_def)
      obtain d dev2 s2 where d: "tudor_enroll_discard ad (dev, s) = (d, dev2, s2)"
        by (metis prod_cases3)
      show ?thesis
        using rest dwf discard_wf[OF dwf d] cc wf1 go
        by (auto simp: Let_def on_device_def d handler_wf_def idle_wf_def
            split: if_splits option.splits)
    next
      case False
      then obtain st2 where s2: "start_enroll_capture ad (init_action st1) = Inr st2"
        and st': "st' = send (RespEnroll (\<not> ok) False False []) st2"
        using assms(1) c go by (auto simp: handler_enroll_cb_def res_bind_eq_Inr)
      have "idle_wf (init_action st1)" "hs_sent (init_action st1) = hs_sent st1"
        using wf1 by (simp_all add: init_action_def idle_wf_def)
      then show ?thesis using start_enroll_capture_wf[OF s2] st' cc go by simp
    qed
  qed
qed

lemma identify_cbs_wf:
  assumes "idle_wf st"
  shows "verify_via_identify_cb ok st = Inr st' \<Longrightarrow>
      handler_wf st' \<and> length (hs_sent st') = Suc (length (hs_sent st))"
    and "handler_identify_cb ok st = Inr st' \<Longrightarrow>
      handler_wf st' \<and> length (hs_sent st') = Suc (length (hs_sent st))"
proof -
  obtain go_on st1 where c: "cleanup_action st = (go_on, st1)" by (cases "cleanup_action st")
  note cc = cleanup_action_cases[OF c]
  have wf1: "idle_wf st1" using cc(7) assms by simp
  show "verify_via_identify_cb ok st = Inr st' \<Longrightarrow>
      handler_wf st' \<and> length (hs_sent st') = Suc (length (hs_sent st))"
    using c cc wf1
    by (auto simp: verify_via_identify_cb_def res_bind_eq_Inr handler_wf_def idle_wf_def
        dest!: count_failure_wf split: if_splits)
  show "handler_identify_cb ok st = Inr st' \<Longrightarrow>
      handler_wf st' \<and> length (hs_sent st') = Suc (length (hs_sent st))"
    using c cc wf1
    by (auto simp: handler_identify_cb_def res_bind_eq_Inr handler_wf_def idle_wf_def
        dest!: count_failure_wf split: if_splits)
qed

lemma capture_done_wf:
  assumes "capture_done ad status st = Inr st'" and "handler_wf st" and "commits_by_adding ad"
  shows "handler_wf st' \<and>
    length (hs_sent st') = length (hs_sent st) + (if async_action st = None then 0 else 1)"
proof (cases "async_action st")
  case None
  then show ?thesis using assms by (simp add: capture_done_def)
next
  case (Some act)
  obtain ok fin s where e: "enroll_cb ad status (hs_dll st) = (ok, fin, s)" by (metis prod_cases3)
  obtain ok2 retry m s2 where i: "identify_cb ad status (hs_dll st) = (ok2, retry, m, s2)"
    by (metis prod_cases4)
  have idle: "idle_wf (st\<lparr>hs_dll := x, act_done := b\<rparr>)" for x b
    using assms(2) by (simp add: handler_wf_def idle_wf_def)
  define st2 where "st2 = (let st1 = st\<lparr>hs_dll := s2, act_retry := retry, act_has_match := (m \<noteq> None)\<rparr>
      in case m of None \<Rightarrow> st1 | Some (g, f) \<Rightarrow> st1\<lparr>act_guid := g, act_finger := f\<rparr>)"
  have st2: "idle_wf st2" "hs_sent st2 = hs_sent st"
    using assms(2) by (auto simp: st2_def handler_wf_def idle_wf_def Let_def split: option.splits)
  show ?thesis
  proof (cases act)
    case EnrollAction
    then show ?thesis
      using assms(1) Some e handler_enroll_cb_wf[OF _ idle assms(3)]
      by (fastforce simp: capture_done_def)
  next
    case VerifyAction
    then have "verify_via_identify_cb ok2 st2 = Inr st'"
      using assms(1) Some i by (simp add: capture_done_def st2_def Let_def)
    then show ?thesis using identify_cbs_wf(1)[OF st2(1)] st2(2) Some by simp
  next
    case IdentifyAction
    then have "handler_identify_cb ok2 st2 = Inr st'"
      using assms(1) Some i by (simp add: capture_done_def st2_def Let_def)
    then show ?thesis using identify_cbs_wf(2)[OF st2(1)] st2(2) Some by simp
  qed
qed


lemma handle_add_record_wf:
  assumes "handle_add_record sif g f d st = Inr st'" and "handler_wf st" and "async_action st = None"
  shows "handler_wf st' \<and> length (hs_sent st') = Suc (length (hs_sent st)) \<and> async_action st' = None"
proof -
  obtain added dev where a: "tudor_add_record True (hs_dev st) g f d = Inr (added, dev)"
    and rest: "(let st1 = st\<lparr>hs_dev := dev\<rparr> in
     if added \<or> use_dll_storage dev then Inr (send Ack st1)
     else
       res_bind (hs_wipe sif (Some g) f st1) (\<lambda>st2.
       res_bind (tudor_add_record True (hs_dev st2) g f d) (\<lambda>(added', dev').
       if \<not> added' then Inl Abort else Inr (send Ack (st2\<lparr>hs_dev := dev'\<rparr>))))) = Inr st'"
    using assms(1) by (auto simp: handle_add_record_def res_bind_eq_Inr)
  have addwf: "device_wf dev'"
    if "tudor_add_record True dev0 g f d = Inr (b, dev')" "device_wf dev0" for dev0 b dev'
    using tudor_add_record_inv[OF that(1)] tudor_add_record_flags[OF that(1)] that(2)
    by (simp add: device_wf_def device_flags_def)
  have d1: "device_wf dev" using addwf[OF a] assms(2) by (simp add: handler_wf_def)
  let ?st1 = "st\<lparr>hs_dev := dev\<rparr>"
  have wf1: "handler_wf ?st1" using d1 assms(2,3) by (simp add: handler_wf_def)
  show ?thesis
  proof (cases "added \<or> use_dll_storage dev")
    case True
    then show ?thesis using rest wf1 assms(3) by (auto simp: Let_def)
  next
    case False
    then obtain st2 added' dev' where w: "hs_wipe sif (Some g) f ?st1 = Inr st2"
      and a2: "tudor_add_record True (hs_dev st2) g f d = Inr (added', dev')"
      and st': "st' = send Ack (st2\<lparr>hs_dev := dev'\<rparr>)"
      using rest by (auto simp: Let_def res_bind_eq_Inr split: if_splits)
    have "async_action ?st1 = None" using assms(3) by simp
    note h = hs_wipe_wf[OF w wf1 this]
    then have "device_wf dev'" using addwf[OF a2] by (simp add: handler_wf_def)
    then show ?thesis using h st' by (simp add: handler_wf_def)
  qed
qed

lemma handle_enroll_wf:
  assumes "handle_enroll ad g f st = Inr st'" and "handler_wf st"
  shows "handler_wf st' \<and> length (hs_sent st') = Suc (length (hs_sent st)) \<and>
    async_action st' = Some EnrollAction"
proof -
  obtain ok dev s where e: "tudor_enroll_start ad g f (hs_dev st, hs_dll st) = (ok, dev, s)"
    by (metis prod_cases3)
  let ?st2 = "(init_action st)\<lparr>act_enroll_guid := g, act_enroll_finger := f, hs_dev := dev, hs_dll := s\<rparr>"
  from assms(1) e obtain st3 where s3: "start_enroll_capture ad ?st2 = Inr st3" and st': "st' = send Ack st3"
    by (auto simp: handle_enroll_def Let_def on_device_def init_action_def res_bind_eq_Inr
        split: if_splits)
  have "idle_wf ?st2"
    using device_wf_enroll_start[OF _ e] assms(2) by (simp add: handler_wf_def idle_wf_def init_action_def)
  then show ?thesis
    using start_enroll_capture_wf[OF s3] st' by (simp add: init_action_def)
qed

lemma start_identify_msg_wf:
  assumes "start_identify ad act (init_action st) = Inr st'" and "handler_wf st" and "act \<noteq> EnrollAction"
  shows "handler_wf (send Ack st') \<and> length (hs_sent (send Ack st')) = Suc (length (hs_sent st)) \<and>
    async_action st' = Some act"
proof -
  have "idle_wf (init_action st)" "hs_sent (init_action st) = hs_sent st"
    using assms(2) by (simp_all add: handler_wf_def idle_wf_def init_action_def)
  then show ?thesis using start_identify_wf[OF assms(1) _ assms(3)] by simp
qed

text \<open>
  The replies a message gets at once: none for a shutdown, none for a cancellation of an action
  (it is acknowledged when the action ends), one for everything else that is not refused.
\<close>

definition immediate_replies :: "'s handler_state \<Rightarrow> byte list \<Rightarrow> nat" where
  "immediate_replies st msg =
     (case msg_type_of (fld msg 0 4) of
        Some IPC_MSG_SHUTDOWN \<Rightarrow> 0
      | Some IPC_MSG_CANCEL \<Rightarrow> if async_action st = None then 1 else 0
      | _ \<Rightarrow> 1)"

lemma handler_wf_cancel [simp]: "handler_wf (st\<lparr>async_cancelled := b\<rparr>) = handler_wf st"
  by (simp add: handler_wf_def split: option.split action.split)

lemma handle_msg_wf:
  assumes "handle_msg ad sif name msg st = Inr (stop, st')" and "handler_wf st"
  shows "handler_wf st' \<and> length (hs_sent st') = length (hs_sent st) + immediate_replies st msg"
proof -
  have pk: "ipc_peek_msg msg = Inr (fld msg 0 4)" using assms(1)
    by (auto simp: handle_msg_def ipc_peek_msg_def split: if_splits)
  obtain t where t: "msg_type_of (fld msg 0 4) = Some t"
    using assms(1) pk by (cases "msg_type_of (fld msg 0 4)") (auto simp: handle_msg_def)
  have idle: "t \<noteq> IPC_MSG_CANCEL \<Longrightarrow> async_action st = None"
    using assms(1) pk t
    by (cases t) (auto simp: handle_msg_def check_in_action_def split: if_splits)
  show ?thesis
    using assms(1) pk t idle assms(2)
    by (cases t)
      (auto simp: handle_msg_def immediate_replies_def check_in_action_def res_bind_eq_Inr
        split: if_splits
        dest: handle_add_record_wf handle_enroll_wf hs_wipe_wf start_identify_msg_wf)
qed

lemma host_step_wf:
  assumes "host_step ad sif name ev st = Inr (stop, st')" and "handler_wf st"
    and "commits_by_adding ad"
  shows "handler_wf st'"
  using assms
  by (cases ev) (auto simp: host_step_def res_bind_eq_Inr dest: handle_msg_wf capture_done_wf)

lemma run_handler_loop_wf:
  "run_handler_loop ad sif name evs st = Inr (stop, st') \<Longrightarrow> handler_wf st \<Longrightarrow>
   commits_by_adding ad \<Longrightarrow> handler_wf st'"
proof (induction evs arbitrary: st)
  case (Cons ev evs)
  obtain stop1 st1 where s: "host_step ad sif name ev st = Inr (stop1, st1)"
    and r: "(if stop1 then Inr (True, st1) else run_handler_loop ad sif name evs st1) = Inr (stop, st')"
    using Cons.prems(1) by (auto simp: res_bind_eq_Inr)
  have "handler_wf st1" by (rule host_step_wf[OF s Cons.prems(2,3)])
  then show ?case using r Cons.IH Cons.prems(3) by (auto split: if_splits)
qed simp

lemma busy_refuses:
  assumes "async_action st \<noteq> None" and "4 \<le> length msg" and "msg_type_of (fld msg 0 4) \<noteq> Some IPC_MSG_CANCEL"
  shows "handle_msg ad sif name msg st = Inl Abort"
proof (cases "msg_type_of (fld msg 0 4)")
  case None
  then show ?thesis using assms by (simp add: handle_msg_def ipc_peek_msg_def)
next
  case (Some t)
  then show ?thesis
    using assms by (cases t) (simp_all add: handle_msg_def ipc_peek_msg_def check_in_action_def)
qed

lemma cancelled_completion:
  assumes "capture_done ad status st = Inr st'" and "async_action st = Some act" and "async_cancelled st"
  shows "hs_sent st' = hs_sent st @ [Ack] \<and> async_action st' = None"
proof -
  have cl: "cleanup_action st1 = (False, send Ack (st1\<lparr>async_action := None\<rparr>))"
    if "async_cancelled st1" for st1 :: "'a handler_state"
    using that by (simp add: cleanup_action_def)
  show ?thesis
  proof (cases act)
    case EnrollAction
    then show ?thesis
      using assms
      by (auto simp: capture_done_def handler_enroll_cb_def cl on_device_def
          split: prod.splits if_splits)
  next
    case VerifyAction
    then show ?thesis
      using assms
      by (auto simp: capture_done_def verify_via_identify_cb_def cl Let_def
          split: prod.splits option.splits)
  next
    case IdentifyAction
    then show ?thesis
      using assms
      by (auto simp: capture_done_def handler_identify_cb_def cl Let_def
          split: prod.splits option.splits)
  qed
qed

lemma add_record_handled:
  assumes "store_inv (hs_dev st)" and "\<not> use_dll_storage (hs_dev st)" and "async_action st = None"
    and "length d \<le> IPC_MAX_RECORD_SIZE" and "f \<noteq> TUDOR_FINGER_ANY"
  shows "\<exists>dev'. handle_msg ad sif name (key_msg IPC_MSG_ADD_RECORD g f d) st =
      Inr (False, send Ack (st\<lparr>hs_dev := dev'\<rparr>)) \<and>
    store_map dev' = (store_map (hs_dev st))((g, f) \<mapsto> d) \<and> store_inv dev' \<and>
    device_flags dev' = device_flags (hs_dev st)"
proof -
  let ?dev = "hs_dev st"
  have msg: "handle_msg ad sif name (key_msg IPC_MSG_ADD_RECORD g f d) st =
      res_bind (handle_add_record sif g f d st) (\<lambda>st'. Inr (False, st'))"
    using assms(3,4)
    by (simp add: handle_msg_def ipc_peek_msg_def check_in_action_def recv_key_msg del: msg_code.simps)
  have add: "\<exists>b dev'. tudor_add_record True dev0 g f d = Inr (b, dev')" for dev0
    by (cases "has_record g f dev0") (auto simp: tudor_add_record_def)
  obtain b dev1 where a1: "tudor_add_record True ?dev g f d = Inr (b, dev1)" using add by blast
  have dll1: "use_dll_storage dev1 = use_dll_storage ?dev"
    using tudor_add_record_flags[OF a1] by (simp add: device_flags_def)
  have inv1: "store_inv dev1" by (rule tudor_add_record_inv[OF a1 assms(1)])
  show ?thesis
  proof (cases b)
    case True
    then have "handle_add_record sif g f d st = Inr (send Ack (st\<lparr>hs_dev := dev1\<rparr>))"
      using a1 by (simp add: handle_add_record_def)
    then show ?thesis
      using msg True inv1 add_record_map(2)[OF a1] tudor_add_record_flags[OF a1] by auto
  next
    case False
    have d1: "dev1 = ?dev" using False a1 by (auto simp: tudor_add_record_def split: if_splits)
    obtain n dev2 where w: "wipe_records_mem dev1 (Some g) f = (n, dev2)" by fastforce
    note wm = wipe_records_map(1)[OF inv1 w] and wf = wipe_records_mem_flags[OF inv1 w]
    obtain b2 dev3 where a2: "tudor_add_record True dev2 g f d = Inr (b2, dev3)" using add by blast
    have gone: "(g, f) \<notin> dom (store_map dev2)" using wm by (simp add: key_matches_def)
    then have b2: "b2" using add_record_map(1)[OF a2] by simp
    have m3: "store_map dev3 = (store_map dev2)((g, f) \<mapsto> d)"
      using add_record_map(2)[OF a2] b2 by simp
    have "store_map dev3 = (store_map ?dev)((g, f) \<mapsto> d)"
      unfolding m3 wm d1 using assms(5)
      by (auto simp: fun_eq_iff restrict_map_def key_matches_def)
    moreover have "handle_add_record sif g f d st = Inr (send Ack (st\<lparr>hs_dev := dev3\<rparr>))"
      using False a1 w a2 b2 assms(2) dll1
      by (simp add: handle_add_record_def hs_wipe_def tudor_wipe_records_def)
    ultimately show ?thesis
      using msg tudor_add_record_inv[OF a2 wf(2)] tudor_add_record_flags[OF a2] wf(1) d1 by auto
  qed
qed

text \<open>What an idle host with its own storage does with the other messages on records.\<close>

lemma del_record_handled:
  assumes "store_inv (hs_dev st)" and "\<not> use_dll_storage (hs_dev st)" and "async_action st = None"
  shows "\<exists>dev'. handle_msg ad sif name (key_msg IPC_MSG_DEL_RECORD g f []) st =
      Inr (False, send Ack (st\<lparr>hs_dev := dev'\<rparr>)) \<and>
    store_map dev' = store_map (hs_dev st) |` {k. \<not> key_matches (Some g) f k} \<and> store_inv dev' \<and>
    device_flags dev' = device_flags (hs_dev st)"
proof -
  obtain n dev' where w: "wipe_records_mem (hs_dev st) (Some g) f = (n, dev')" by fastforce
  have "handle_msg ad sif name (key_msg IPC_MSG_DEL_RECORD g f []) st =
      Inr (False, send Ack (st\<lparr>hs_dev := dev'\<rparr>))"
    using assms(2,3) w
    by (simp add: handle_msg_def ipc_peek_msg_def check_in_action_def recv_key_msg hs_wipe_def
        tudor_wipe_records_def del: msg_code.simps)
  then show ?thesis using wipe_records_map(1)[OF assms(1) w] wipe_records_mem_flags[OF assms(1) w] by blast
qed

lemma verify_handled:
  assumes "async_action st = None" and "\<not> enrolling (hs_dev st)"
    and "ad_StartCapture ad WINBIO_PURPOSE_IDENTIFY (hs_dll st) = (ERROR_SUCCESS, s')"
  shows "handle_msg ad sif name (key_msg IPC_MSG_VERIFY g f []) st =
    Inr (False, send Ack (st\<lparr>async_cancelled := False, act_retry := False, act_has_match := False,
      hs_dll := s', async_action := Some VerifyAction\<rparr>))"
  using assms
  by (simp add: handle_msg_def ipc_peek_msg_def check_in_action_def recv_key_msg start_identify_def
      on_device_def tudor_identify_def start_capture_idle_def init_action_def del: msg_code.simps)

lemma idle_cancel_acked:
  "async_action st = None \<Longrightarrow>
   handle_msg ad sif name (simple_msg IPC_MSG_CANCEL) st = Inr (False, send Ack st)"
  by (simp add: handle_msg_def ipc_peek_msg_def recv_simple_msg del: msg_code.simps)

section \<open>Properties\<close>

text \<open>
  C5: The host's loop keeps its state consistent: after any sequence of messages and completions,
  from a well-formed device, the record store is well formed, the template count is overridden
  exactly while the device enrolls, an enrollment capture is in flight only while it enrolls and an
  identification only while it does not, and at most three failures are counted.
\<close>

theorem host_loop_invariant:
  assumes "device_wf dev" and "commits_by_adding ad"
    and "run_handler_loop ad sif name evs (handler_init dev s) = Inr (stop, st)"
  shows "store_inv (hs_dev st) \<and> override_template_count (hs_dev st) = enrolling (hs_dev st) \<and>
    (async_action st = Some EnrollAction \<longrightarrow> enrolling (hs_dev st)) \<and>
    (async_action st \<in> {Some VerifyAction, Some IdentifyAction} \<longrightarrow> \<not> enrolling (hs_dev st)) \<and>
    capture_fails st \<le> 3"
proof -
  have "handler_wf (handler_init dev s)"
    using assms(1) by (simp add: handler_wf_def handler_init_def)
  from run_handler_loop_wf[OF assms(3) this assms(2)] show ?thesis
    by (auto simp: handler_wf_def device_wf_def MAX_CONSECUTIVE_CAPTURE_FAILS_def)
qed

lemma fresh_device_wf: "device_wf fresh_device"
  using store_inv_fresh by (simp add: device_wf_def fresh_device_def)

theorem host_loop_invariant_witness:
  "\<exists>st. run_handler_loop (quiet_adapters [1]) dummy_storage [] [MsgArrives (simple_msg IPC_MSG_IDENTIFY)]
      (handler_init fresh_device ()) = Inr (False, st) \<and>
     async_action st = Some IdentifyAction \<and> \<not> enrolling (hs_dev st)"
proof -
  have r: "run_handler_loop (quiet_adapters [1]) dummy_storage [] [MsgArrives (simple_msg IPC_MSG_IDENTIFY)]
      (handler_init fresh_device ()) = Inr (False, send Ack
        (handler_init fresh_device ())\<lparr>async_action := Some IdentifyAction\<rparr>)"
    by (simp add: host_step_def handle_msg_def ipc_peek_msg_def check_in_action_def handler_init_def
        recv_simple_msg start_identify_def on_device_def tudor_identify_def start_capture_idle_def
        quiet_adapters_def init_action_def fresh_device_def ERROR_SUCCESS_def send_def
        del: msg_code.simps)
  show ?thesis
    using host_loop_invariant[OF fresh_device_wf quiet_commits_by_adding r] r by simp
qed

text \<open>
  C6: While an action runs the host accepts nothing but a cancellation: every other message makes
  it abort, and once the action is cancelled, the completion of its capture, whatever its status,
  is answered with exactly one acknowledgement and ends the action.
\<close>

theorem busy_host_only_takes_cancel:
  assumes "async_action st = Some act" and "4 \<le> length msg"
  shows "(msg_type_of (fld msg 0 4) \<noteq> Some IPC_MSG_CANCEL \<longrightarrow> handle_msg ad sif name msg st = Inl Abort) \<and>
    (\<exists>st1. handle_msg ad sif name (simple_msg IPC_MSG_CANCEL) st = Inr (False, st1) \<and>
      hs_sent st1 = hs_sent st \<and>
      (\<forall>status st2. capture_done ad status st1 = Inr st2 \<longrightarrow>
         hs_sent st2 = hs_sent st @ [Ack] \<and> async_action st2 = None))"
proof -
  let ?st1 = "st\<lparr>async_cancelled := True\<rparr>"
  have "handle_msg ad sif name (simple_msg IPC_MSG_CANCEL) st = Inr (False, ?st1)"
    using assms(1) by (simp add: handle_msg_def ipc_peek_msg_def recv_simple_msg del: msg_code.simps)
  moreover have "hs_sent st2 = hs_sent st @ [Ack] \<and> async_action st2 = None"
    if "capture_done ad status ?st1 = Inr st2" for status st2
    using cancelled_completion[OF that, of act] assms(1) by simp
  ultimately show ?thesis using busy_refuses[of st msg ad sif name] assms by auto
qed

theorem busy_host_only_takes_cancel_witness:
  "handle_msg (quiet_adapters [1]) dummy_storage [] (simple_msg IPC_MSG_PROBE)
     ((handler_init fresh_device ())\<lparr>async_action := Some VerifyAction\<rparr>) = Inl Abort"
proof -
  have "msg_code IPC_MSG_PROBE \<noteq> msg_code IPC_MSG_CANCEL" by simp
  then show ?thesis
    using busy_host_only_takes_cancel[of "(handler_init fresh_device ())\<lparr>async_action := Some VerifyAction\<rparr>"
        VerifyAction "simple_msg IPC_MSG_PROBE" "quiet_adapters [1]" dummy_storage "[]"]
    by (simp del: msg_code.simps)
qed

text \<open>
  Every step of the host is answered exactly once: a message that is not refused gets one reply
  at once, except a shutdown and a cancellation of a running action, which get none, and the
  completion of a running action gets one reply.
\<close>

theorem host_step_replies:
  assumes "handler_wf st" and "commits_by_adding ad"
    and "host_step ad sif name ev st = Inr (stop, st')"
  shows "length (hs_sent st') = length (hs_sent st) +
    (case ev of MsgArrives m \<Rightarrow> immediate_replies st m
     | CaptureDone _ \<Rightarrow> if async_action st = None then 0 else 1)"
  using assms
  by (cases ev) (auto simp: host_step_def res_bind_eq_Inr dest: handle_msg_wf capture_done_wf)

theorem host_step_replies_witness:
  "\<exists>st'. host_step (quiet_adapters [1]) dummy_storage [65] (MsgArrives (simple_msg IPC_MSG_PROBE))
     (handler_init fresh_device ()) = Inr (False, st') \<and> length (hs_sent st') = 1"
proof -
  let ?st = "handler_init fresh_device ()"
  have wf: "handler_wf ?st" using fresh_device_wf by (simp add: handler_wf_def handler_init_def)
  have s: "host_step (quiet_adapters [1]) dummy_storage [65] (MsgArrives (simple_msg IPC_MSG_PROBE)) ?st
      = Inr (False, send (RespProbe [65]) ?st)"
    by (simp add: host_step_def handle_msg_def ipc_peek_msg_def check_in_action_def handler_init_def
        recv_simple_msg del: msg_code.simps)
  have "immediate_replies ?st (simple_msg IPC_MSG_PROBE) = 1"
    by (simp add: immediate_replies_def del: msg_code.simps)
  then show ?thesis
    using host_step_replies[OF wf quiet_commits_by_adding s] s by (simp add: handler_init_def)
qed

text \<open>
  \<open>ADD_RECORD\<close> is an unconditional update of the host's store: an idle host without DLL storage
  files the message's template under its GUID and finger, whether or not one was there, leaves
  every other template alone, and acknowledges.
\<close>

theorem add_record_message_updates_store:
  assumes "store_inv (hs_dev st)" and "\<not> use_dll_storage (hs_dev st)" and "async_action st = None"
    and "length d \<le> IPC_MAX_RECORD_SIZE" and "f \<noteq> TUDOR_FINGER_ANY"
  shows "\<exists>st'. handle_msg ad sif name (key_msg IPC_MSG_ADD_RECORD g f d) st = Inr (False, st') \<and>
    store_map (hs_dev st') = (store_map (hs_dev st))((g, f) \<mapsto> d) \<and>
    store_inv (hs_dev st') \<and> hs_sent st' = hs_sent st @ [Ack]"
  using add_record_handled[OF assms, of ad sif name g] by force

theorem add_record_message_updates_store_witness:
  "\<exists>st'. handle_msg (quiet_adapters [1]) dummy_storage [] (key_msg IPC_MSG_ADD_RECORD zero_guid 2 [8, 9])
     (handler_init (one_record_device zero_guid 2 [5]) ()) = Inr (False, st') \<and>
     store_map (hs_dev st') (zero_guid, 2) = Some [8, 9]"
proof -
  have "\<not> use_dll_storage (one_record_device zero_guid 2 [5])"
    by (simp add: one_record_device_def fresh_device_def push_record_def)
  then show ?thesis
    using add_record_message_updates_store[of "handler_init (one_record_device zero_guid 2 [5]) ()" "[8, 9]" 2
        "quiet_adapters [1]" dummy_storage "[]" zero_guid] one_record_inv[of zero_guid 2 "[5]"]
    by (auto simp: handler_init_def IPC_MAX_RECORD_SIZE_def TUDOR_FINGER_ANY_def)
qed

text \<open>
  A persistent capture error never ends an enrollment: whatever the status of a failing capture,
  the device's callback reports it as unfinished, so the host's branch for a failed enrollment is
  never taken; it starts the next capture and asks for a retry.
\<close>

theorem failing_enrollment_retries_forever:
  assumes "async_action st = Some EnrollAction" and "\<not> async_cancelled st" and "enrolling (hs_dev st)"
    and "status \<noteq> STATUS_SUCCESS"
    and "ad_StartCapture ad WINBIO_PURPOSE_ENROLL (hs_dll st) = (ERROR_SUCCESS, s')"
  shows "\<exists>st'. capture_done ad status st = Inr st' \<and> async_action st' = Some EnrollAction \<and>
    \<not> async_cancelled st' \<and> enrolling (hs_dev st') \<and>
    hs_sent st' = hs_sent st @ [RespEnroll True False False []]"
  using assms
  by (simp add: capture_done_def enroll_cb_def handler_enroll_cb_def cleanup_action_def
      start_enroll_capture_def on_device_def tudor_enroll_capture_def init_action_def Let_def)

theorem failing_enrollment_retries_forever_witness:
  "\<exists>st'. capture_done (quiet_adapters [1]) 0xc0000001
     ((handler_init (fresh_device\<lparr>enrolling := True\<rparr>) ())\<lparr>async_action := Some EnrollAction\<rparr>) = Inr st' \<and>
     hs_sent st' = [RespEnroll True False False []]"
  using failing_enrollment_retries_forever[of
      "(handler_init (fresh_device\<lparr>enrolling := True\<rparr>) ())\<lparr>async_action := Some EnrollAction\<rparr>"
      "0xc0000001" "quiet_adapters [1]" "()"]
  by (auto simp: handler_init_def STATUS_SUCCESS_def quiet_adapters_def ERROR_SUCCESS_def)

end
