(* ===== verification/Fprint_Module.thy ===== *)
theory Fprint_Module
  imports Host_Ipc
begin

text \<open>
  The libfprint module (\<open>libfprint-tod/src\<close>) as the host's client: the actions of \<open>enroll.c\<close>,
  \<open>verify.c\<close>, \<open>identify.c\<close> and \<open>data.c\<close>, the mirror of the host's records, and the cancellation
  handler of \<open>device.c\<close>, over the message functions of \<open>ipc.c\<close>.  The module runs in one main loop:
  an action is a chain of callbacks, each waiting for one message, so the callback that waits is
  the state of the action.  A result that is at hand at once (a record already loaded) is delivered
  by GTask in the next iteration of the loop; here the callback runs immediately.
\<close>

section \<open>Prints\<close>

text \<open>
  What the module reads of an \<open>FpPrint\<close>: its identity as an object, whether its driver is this one,
  whether it is stored on the device, and its data if that has the format \<open>(ayyay)\<close>.
\<close>

record fp_print =
  print_id :: nat
  own_driver :: bool
  device_stored :: bool
  fpi_data :: "(byte list \<times> byte \<times> byte list) option"

text \<open>\<open>parse_print_data\<close>; the finger is one byte of the data.\<close>

definition parse_print_data :: "fp_print \<Rightarrow> (guid \<times> u32 \<times> byte list) option" where
  "parse_print_data p =
     (if \<not> own_driver p then None
      else if \<not> device_stored p then None
      else case fpi_data p of
        None \<Rightarrow> None
      | Some (guid_var, finger, data) \<Rightarrow>
          if length guid_var \<noteq> 16 then None
          else Some (guid_of_bytes guid_var, ucast finger, data))"

text \<open>\<open>TudorRecord\<close>; \<open>mr_id\<close> is the object.\<close>

record mod_record =
  mr_id :: nat
  mr_guid :: guid
  mr_finger :: u32
  mr_data :: "byte list"
  mr_print :: nat

definition mr_key :: "mod_record \<Rightarrow> guid \<times> u32" where
  "mr_key r = (mr_guid r, mr_finger r)"

definition set_print_record :: "mod_record \<Rightarrow> fp_print \<Rightarrow> fp_print" where
  "set_print_record r p =
     p\<lparr>device_stored := True, fpi_data := Some (guid_bytes (mr_guid r), ucast (mr_finger r), mr_data r)\<rparr>"

section \<open>State\<close>

datatype fp_error =
  Err_host_dead | Err_proto | Err_data_invalid | Err_duplicate | Err_cancelled | Err_socket

text \<open>What the module reports to libfprint.\<close>

datatype fp_report =
    Finger_needed
  | Enroll_progress nat bool
  | Enroll_complete "fp_error option" "fp_print option"
  | Verify_report "bool option"
  | Verify_complete "fp_error option"
  | Identify_retry
  | Identify_report "nat option" "nat option"
  | Identify_complete "fp_error option"
  | Delete_complete "fp_error option"
  | Clear_storage_complete "fp_error option"

text \<open>\<open>struct enroll_params\<close>, \<open>struct verify_params\<close>, \<open>struct identify_params\<close>.\<close>

record enroll_params =
  ep_guid :: guid
  ep_finger :: u32
  ep_stage :: nat
  ep_print :: fp_print

record identify_params =
  ip_prints :: "(fp_print \<times> mod_record option) list"
  ip_next :: nat

text \<open>The callback that waits for a message; those of \<open>Ack_load\<close> carry the record being loaded.\<close>

datatype pending =
    Idle
  | Ack_load_verify mod_record guid u32
  | Ack_load_identify mod_record identify_params
  | Ack_verify
  | Recv_verify
  | Ack_identify identify_params
  | Recv_identify identify_params
  | Ack_enroll enroll_params
  | Recv_enroll enroll_params
  | Ack_delete guid u32
  | Ack_clear

text \<open>
  \<open>struct _FpiDeviceTudor\<close>, as far as the actions use it.  \<open>cancellable\<close> is the state of the
  action's \<open>GCancellable\<close>, \<open>cancel_handler\<close> whether \<open>cancel_handler_id\<close> is not 0, \<open>mod_sent\<close> the
  messages sent, \<open>reports\<close> what libfprint was told.
\<close>

record module =
  host_has_id :: bool
  host_dead :: bool
  has_socket :: bool
  cancellable :: bool
  cancel_handler :: bool
  has_canceled :: bool
  db_records :: "mod_record list"
  next_obj :: nat
  waiting :: pending
  mod_sent :: "byte list list"
  reports :: "fp_report list"

definition report :: "fp_report \<Rightarrow> module \<Rightarrow> module" where
  "report r m = m\<lparr>reports := reports m @ [r]\<rparr>"

definition proc_dead :: "module \<Rightarrow> bool" where
  "proc_dead m \<longleftrightarrow> \<not> (host_has_id m \<and> \<not> host_dead m)"

section \<open>Messages\<close>

text \<open>\<open>send_ipc_msg\<close>; \<open>io\<close> tells whether the socket takes the whole message.\<close>

definition send_ipc_msg :: "bool \<Rightarrow> byte list \<Rightarrow> module \<Rightarrow> fp_error option \<times> module" where
  "send_ipc_msg io msg m =
     (if proc_dead m then (Some Err_host_dead, m)
      else if \<not> has_socket m then (Some Err_proto, m)
      else if \<not> io then (Some Err_socket, m)
      else (None, m\<lparr>mod_sent := mod_sent m @ [msg]\<rparr>))"

text \<open>
  \<open>sock_ready\<close>: what the waiting callback gets when the socket is ready or the wait ends: a message
  of at least four bytes, or an error.
\<close>

definition sock_ready :: "byte list option \<Rightarrow> module \<Rightarrow> fp_error + byte list" where
  "sock_ready incoming m =
     (if proc_dead m then Inl Err_host_dead
      else case incoming of
        None \<Rightarrow> Inl Err_socket
      | Some msg \<Rightarrow> if length msg < 4 then Inl Err_proto else Inr msg)"

text \<open>\<open>ack_recv_cb\<close>.\<close>

definition check_ack :: "fp_error + byte list \<Rightarrow> fp_error option" where
  "check_ack r = (case r of
     Inl e \<Rightarrow> Some e
   | Inr msg \<Rightarrow> if (fld msg 0 4 :: u32) \<noteq> msg_code IPC_MSG_ACK then Some Err_proto else None)"

section \<open>Cancellation\<close>

text \<open>
  \<open>register_cancel_handler\<close>: connecting to a cancellable that is cancelled already calls the handler
  at once, when the identifier is still 0, and returns 0.
\<close>

definition register_cancel_handler :: "module \<Rightarrow> module" where
  "register_cancel_handler m = m\<lparr>has_canceled := False, cancel_handler := \<not> cancellable m\<rparr>"

definition unregister_cancel_handler :: "module \<Rightarrow> module" where
  "unregister_cancel_handler m = m\<lparr>cancel_handler := False\<rparr>"

definition invoke_cancel_handler :: "bool \<Rightarrow> module \<Rightarrow> module" where
  "invoke_cancel_handler io m =
     (if \<not> cancel_handler m \<or> has_canceled m then m
      else case send_ipc_msg io (simple_msg IPC_MSG_CANCEL) m of
        (Some _, m') \<Rightarrow> m'
      | (None, m') \<Rightarrow> m'\<lparr>has_canceled := True\<rparr>)"

definition handle_cancel_ack :: "module \<Rightarrow> fp_error" where
  "handle_cancel_ack m = (if has_canceled m then Err_cancelled else Err_proto)"

text \<open>The user cancels: the cancellable is cancelled and the handler runs, if it is connected.\<close>

definition cancel_action :: "bool \<Rightarrow> module \<Rightarrow> module" where
  "cancel_action io m =
     (if cancellable m then m else invoke_cancel_handler io (m\<lparr>cancellable := True\<rparr>))"

text \<open>Ending an action: the parameters are freed and nothing waits any more.\<close>

definition end_action :: "fp_report \<Rightarrow> module \<Rightarrow> module" where
  "end_action r m = (unregister_cancel_handler (report r m))\<lparr>waiting := Idle\<rparr>"

section \<open>The record mirror\<close>

text \<open>
  \<open>load_record\<close>'s search for a record that is the same object, belongs to the same print or has the
  same key and data.
\<close>

definition rec_matches :: "mod_record \<Rightarrow> mod_record \<Rightarrow> bool" where
  "rec_matches rec r \<longleftrightarrow>
     mr_id r = mr_id rec \<or> mr_print rec = mr_print r \<or>
     (mr_guid rec = mr_guid r \<and> mr_finger rec = mr_finger r \<and> mr_data rec = mr_data r)"

text \<open>
  \<open>insert_db_record\<close>: the loop removes records of the same key and data; after a removal the record
  that took the removed one's place is skipped.
\<close>

function insert_loop :: "mod_record \<Rightarrow> mod_record list \<Rightarrow> nat \<Rightarrow> mod_record list" where
  "insert_loop rec db i =
     (if i \<ge> length db then db @ [rec]
      else let r = db ! i in
        if mr_id r = mr_id rec then db
        else if mr_guid rec = mr_guid r \<and> mr_finger rec = mr_finger r \<and> mr_data rec = mr_data r
        then insert_loop rec (remove_index_fast i db) (Suc i)
        else insert_loop rec db (Suc i))"
  by pat_completeness auto
termination by (relation "measure (\<lambda>(_, db, i). length db - i)") auto

definition insert_db_record :: "mod_record \<Rightarrow> module \<Rightarrow> module" where
  "insert_db_record rec m = m\<lparr>db_records := insert_loop rec (db_records m) 0\<rparr>"

definition new_record :: "guid \<Rightarrow> u32 \<Rightarrow> byte list \<Rightarrow> nat \<Rightarrow> module \<Rightarrow> mod_record \<times> module" where
  "new_record g f d p m =
     (\<lparr>mr_id = next_obj m, mr_guid = g, mr_finger = f, mr_data = d, mr_print = p\<rparr>,
      m\<lparr>next_obj := Suc (next_obj m)\<rparr>)"

text \<open>
  \<open>load_record\<close>: the record found in the mirror, or a message to the host (then the waiting
  callback is set), or an error.
\<close>

datatype load_result = Loaded mod_record | Load_sent | Load_failed fp_error

definition load_record :: "bool \<Rightarrow> mod_record \<Rightarrow> module \<Rightarrow> load_result \<times> module" where
  "load_record io rec m =
     (case find (rec_matches rec) (db_records m) of
        Some r \<Rightarrow> (Loaded r, m)
      | None \<Rightarrow>
          if length (mr_data rec) > IPC_MAX_RECORD_SIZE then (Load_failed Err_data_invalid, m)
          else case send_ipc_msg io
              (key_msg IPC_MSG_ADD_RECORD (mr_guid rec) (mr_finger rec) (mr_data rec)) m of
            (Some e, m') \<Rightarrow> (Load_failed e, m')
          | (None, m') \<Rightarrow> (Load_sent, m'))"

text \<open>\<open>send_acked_ipc_msg\<close>: on success the callback \<open>k\<close> waits, on failure \<open>fail\<close> gets the error.\<close>

definition send_acked ::
    "bool \<Rightarrow> byte list \<Rightarrow> pending \<Rightarrow> (fp_error \<Rightarrow> fp_report) \<Rightarrow> module \<Rightarrow> module" where
  "send_acked io msg k fail m =
     (case send_ipc_msg io msg m of
        (Some e, m') \<Rightarrow> end_action (fail e) m'
      | (None, m') \<Rightarrow> m'\<lparr>waiting := k\<rparr>)"

section \<open>Verification\<close>

definition verify_loaded :: "bool \<Rightarrow> guid \<Rightarrow> u32 \<Rightarrow> module \<Rightarrow> module" where
  "verify_loaded io g f =
     send_acked io (key_msg IPC_MSG_VERIFY g f []) Ack_verify (\<lambda>e. Verify_complete (Some e))"

definition fpi_device_tudor_verify :: "bool \<Rightarrow> fp_print \<Rightarrow> module \<Rightarrow> module" where
  "fpi_device_tudor_verify io p m0 =
     (let m = m0\<lparr>cancellable := False\<rparr> in
      if proc_dead m then report (Verify_complete (Some Err_host_dead)) m
      else case parse_print_data p of
        None \<Rightarrow> report (Verify_complete (Some Err_data_invalid)) m
      | Some (g, f, d) \<Rightarrow>
          (case new_record g f d (print_id p) m of (rec, m1) \<Rightarrow>
           case load_record io rec m1 of
             (Loaded r, m2) \<Rightarrow> verify_loaded io g f m2
           | (Load_sent, m2) \<Rightarrow> m2\<lparr>waiting := Ack_load_verify rec g f\<rparr>
           | (Load_failed e, m2) \<Rightarrow> end_action (Verify_complete (Some e)) m2))"

definition verify_recv_cb :: "fp_error + byte list \<Rightarrow> module \<Rightarrow> module" where
  "verify_recv_cb res m =
     (case res of
        Inl e \<Rightarrow> end_action (Verify_complete (Some e)) m
      | Inr msg \<Rightarrow>
          (case msg_type_of (fld msg 0 4) of
             Some IPC_MSG_ACK \<Rightarrow> end_action (Verify_complete (Some (handle_cancel_ack m))) m
           | Some IPC_MSG_RESP_VERIFY \<Rightarrow>
               if length msg < 8 then end_action (Verify_complete (Some Err_proto)) m
               else if (fld msg 4 1 :: byte) \<noteq> 0
               then end_action (Verify_complete None) (report (Verify_report None) m)
               else end_action (Verify_complete None)
                      (report (Verify_report (Some ((fld msg 5 1 :: byte) \<noteq> 0))) m)
           | _ \<Rightarrow> end_action (Verify_complete (Some Err_proto)) m))"

section \<open>Identification\<close>

text \<open>
  \<open>load_next_print\<close> and \<open>load_record_cb\<close>: prints are loaded one after the other; the recursion
  goes on as long as records are in the mirror.
\<close>

definition set_print_rec :: "nat \<Rightarrow> mod_record \<Rightarrow> identify_params \<Rightarrow> identify_params" where
  "set_print_rec i r ps =
     ps\<lparr>ip_prints := (ip_prints ps)[i := (fst (ip_prints ps ! i), Some r)], ip_next := Suc i\<rparr>"

function load_next_print :: "bool \<Rightarrow> identify_params \<Rightarrow> module \<Rightarrow> module" where
  "load_next_print io ps m =
     (if ip_next ps \<ge> length (ip_prints ps) then
        send_acked io (simple_msg IPC_MSG_IDENTIFY) (Ack_identify ps) (\<lambda>e. Identify_complete (Some e)) m
      else let p = fst (ip_prints ps ! ip_next ps) in
      case parse_print_data p of
        None \<Rightarrow> end_action (Identify_complete (Some Err_data_invalid)) m
      | Some (g, f, d) \<Rightarrow>
          (case new_record g f d (print_id p) m of (rec, m1) \<Rightarrow>
           case load_record io rec m1 of
             (Loaded r, m2) \<Rightarrow> load_next_print io (set_print_rec (ip_next ps) r ps) m2
           | (Load_sent, m2) \<Rightarrow> m2\<lparr>waiting := Ack_load_identify rec ps\<rparr>
           | (Load_failed e, m2) \<Rightarrow> end_action (Identify_complete (Some e)) m2))"
  by pat_completeness auto
termination
  by (relation "measure (\<lambda>(_, ps, _). length (ip_prints ps) - ip_next ps)") (auto simp: set_print_rec_def)

definition fpi_device_tudor_identify :: "bool \<Rightarrow> fp_print list \<Rightarrow> module \<Rightarrow> module" where
  "fpi_device_tudor_identify io prints m0 =
     (let m = m0\<lparr>cancellable := False\<rparr> in
      if proc_dead m then report (Identify_complete (Some Err_host_dead)) m
      else load_next_print io \<lparr>ip_prints = map (\<lambda>p. (p, None)) prints, ip_next = 0\<rparr> m)"

text \<open>The print of the list whose record object is the one that matched.\<close>

definition list_print :: "mod_record \<Rightarrow> identify_params \<Rightarrow> nat option" where
  "list_print r ps =
     map_option (\<lambda>(p, _). print_id p)
       (find (\<lambda>(_, ro). case ro of None \<Rightarrow> False | Some r' \<Rightarrow> mr_id r' = mr_id r) (ip_prints ps))"

definition identify_recv_cb :: "identify_params \<Rightarrow> fp_error + byte list \<Rightarrow> module \<Rightarrow> module" where
  "identify_recv_cb ps res m =
     (case res of
        Inl e \<Rightarrow> end_action (Identify_complete (Some e)) m
      | Inr msg \<Rightarrow>
          (case msg_type_of (fld msg 0 4) of
             Some IPC_MSG_ACK \<Rightarrow> end_action (Identify_complete (Some (handle_cancel_ack m))) m
           | Some IPC_MSG_RESP_IDENTIFY \<Rightarrow>
               if length msg < 28 then end_action (Identify_complete (Some Err_proto)) m
               else if (fld msg 4 1 :: byte) \<noteq> 0
               then end_action (Identify_complete None) (report Identify_retry m)
               else if (fld msg 5 1 :: byte) = 0
               then end_action (Identify_complete None) (report (Identify_report None None) m)
               else (case find (\<lambda>r. mr_guid r = guid_of_bytes (take 16 (drop 8 msg)) \<and>
                       mr_finger r = fld msg 24 4) (db_records m) of
                   None \<Rightarrow> end_action (Identify_complete None) (report (Identify_report None None) m)
                 | Some r \<Rightarrow> end_action (Identify_complete None)
                     (report (Identify_report (list_print r ps) (Some (mr_print r))) m))
           | _ \<Rightarrow> end_action (Identify_complete (Some Err_proto)) m))"

section \<open>Enrollment\<close>

definition TUDOR_NUM_ENROLL_STAGES :: nat where "TUDOR_NUM_ENROLL_STAGES = 8"

text \<open>
  libfprint numbers the fingers from the left thumb to the left little finger (1 to 5), then from the
  right thumb to the right little finger (6 to 10); the driver starts with the right hand.
\<close>

definition tudor_finger_of :: "nat \<Rightarrow> u32 option" where
  "tudor_finger_of fp =
     (if 1 \<le> fp \<and> fp \<le> 5 then Some (word_of_nat (fp + 5))
      else if 6 \<le> fp \<and> fp \<le> 10 then Some (word_of_nat (fp - 5))
      else None)"

text \<open>\<open>g\<close> is the GUID made of a random number and the time.\<close>

definition fpi_device_tudor_enroll :: "bool \<Rightarrow> guid \<Rightarrow> nat \<Rightarrow> fp_print \<Rightarrow> module \<Rightarrow> module" where
  "fpi_device_tudor_enroll io g fp p m0 =
     (let m = m0\<lparr>cancellable := False\<rparr> in
      if proc_dead m then report (Enroll_complete (Some Err_host_dead) None) m
      else if \<not> own_driver p then report (Enroll_complete (Some Err_data_invalid) None) m
      else case tudor_finger_of fp of
        None \<Rightarrow> report (Enroll_complete (Some Err_data_invalid) None) m
      | Some f \<Rightarrow>
          send_acked io (key_msg IPC_MSG_ENROLL g f [])
            (Ack_enroll \<lparr>ep_guid = g, ep_finger = f, ep_stage = 0, ep_print = p\<rparr>)
            (\<lambda>e. Enroll_complete (Some e) None) m)"

definition enroll_fail :: "fp_error \<Rightarrow> module \<Rightarrow> module" where
  "enroll_fail e = end_action (Enroll_complete (Some e) None)"

definition enroll_recv_cb :: "enroll_params \<Rightarrow> fp_error + byte list \<Rightarrow> module \<Rightarrow> module" where
  "enroll_recv_cb ps res m =
     (case res of
        Inl e \<Rightarrow> enroll_fail e m
      | Inr msg \<Rightarrow>
          (case msg_type_of (fld msg 0 4) of
             Some IPC_MSG_ACK \<Rightarrow> enroll_fail (handle_cancel_ack m) m
           | Some IPC_MSG_RESP_ENROLL \<Rightarrow>
               if length msg < 8 then enroll_fail Err_proto m
               else if (fld msg 4 1 :: byte) \<noteq> 0
               then (report (Enroll_progress (ep_stage ps) True) m)\<lparr>waiting := Recv_enroll ps\<rparr>
               else if (fld msg 5 1 :: byte) = 0 then
                 (if ep_stage ps < TUDOR_NUM_ENROLL_STAGES - 1
                  then (report (Enroll_progress (Suc (ep_stage ps)) False) m)
                         \<lparr>waiting := Recv_enroll (ps\<lparr>ep_stage := Suc (ep_stage ps)\<rparr>)\<rparr>
                  else (report (Enroll_progress (ep_stage ps) True) m)\<lparr>waiting := Recv_enroll ps\<rparr>)
               else if (fld msg 6 1 :: byte) \<noteq> 0 then enroll_fail Err_duplicate m
               else if length msg - 8 > IPC_MAX_RECORD_SIZE then enroll_fail Err_proto m
               else (case new_record (ep_guid ps) (ep_finger ps)
                         (take (length msg - 8) (drop 7 msg)) (print_id (ep_print ps)) m of
                   (rec, m1) \<Rightarrow>
                     end_action (Enroll_complete None (Some (set_print_record rec (ep_print ps))))
                       (insert_db_record rec m1))
           | _ \<Rightarrow> enroll_fail Err_proto m))"

section \<open>Deletion\<close>

definition fpi_device_tudor_delete :: "bool \<Rightarrow> fp_print \<Rightarrow> module \<Rightarrow> module" where
  "fpi_device_tudor_delete io p m0 =
     (let m = m0\<lparr>cancellable := False\<rparr> in
      if proc_dead m then report (Delete_complete (Some Err_host_dead)) m
      else case parse_print_data p of
        None \<Rightarrow> report (Delete_complete (Some Err_data_invalid)) m
      | Some (g, f, _) \<Rightarrow>
          send_acked io (key_msg IPC_MSG_DEL_RECORD g f []) (Ack_delete g f)
            (\<lambda>e. Clear_storage_complete (Some e)) m)"

definition mirror_remove :: "guid \<Rightarrow> u32 \<Rightarrow> mod_record list \<Rightarrow> mod_record list" where
  "mirror_remove g f db =
     (case find_index (\<lambda>r. mr_guid r = g \<and> mr_finger r = f) db of
        None \<Rightarrow> db | Some i \<Rightarrow> remove_index_fast i db)"

text \<open>An error is reported as the end of a clearing, as the code does.\<close>

definition delete_acked_cb :: "guid \<Rightarrow> u32 \<Rightarrow> fp_error option \<Rightarrow> module \<Rightarrow> module" where
  "delete_acked_cb g f err m =
     (case err of
        Some e \<Rightarrow> end_action (Clear_storage_complete (Some e)) m
      | None \<Rightarrow> end_action (Delete_complete None)
                  (m\<lparr>db_records := mirror_remove g f (db_records m)\<rparr>))"

definition fpi_device_clear_storage :: "bool \<Rightarrow> module \<Rightarrow> module" where
  "fpi_device_clear_storage io m0 =
     (let m = m0\<lparr>cancellable := False\<rparr> in
      if proc_dead m then report (Clear_storage_complete (Some Err_host_dead)) m
      else send_acked io (simple_msg IPC_MSG_CLEAR_RECORDS) Ack_clear
             (\<lambda>e. Clear_storage_complete (Some e)) m)"

definition clear_storage_acked_cb :: "fp_error option \<Rightarrow> module \<Rightarrow> module" where
  "clear_storage_acked_cb err m =
     (case err of
        Some e \<Rightarrow> end_action (Clear_storage_complete (Some e)) m
      | None \<Rightarrow> end_action (Clear_storage_complete None) (m\<lparr>db_records := []\<rparr>))"

section \<open>Events\<close>

text \<open>
  The waiting callback runs with a message or the end of the wait; an acknowledged start of a
  capture registers the cancellation handler and waits for the result.
\<close>

definition await_result :: "pending \<Rightarrow> module \<Rightarrow> module" where
  "await_result k m = (register_cancel_handler (report Finger_needed m))\<lparr>waiting := k\<rparr>"

definition module_recv :: "bool \<Rightarrow> byte list option \<Rightarrow> module \<Rightarrow> module" where
  "module_recv io incoming m =
     (let res = sock_ready incoming m; ack = check_ack res in
      case waiting m of
        Idle \<Rightarrow> m
      | Ack_load_verify rec g f \<Rightarrow>
          (case ack of
             Some e \<Rightarrow> end_action (Verify_complete (Some e)) m
           | None \<Rightarrow> verify_loaded io g f (insert_db_record rec m))
      | Ack_load_identify rec ps \<Rightarrow>
          (case ack of
             Some e \<Rightarrow> end_action (Identify_complete (Some e)) m
           | None \<Rightarrow> load_next_print io (set_print_rec (ip_next ps) rec ps) (insert_db_record rec m))
      | Ack_verify \<Rightarrow>
          (case ack of
             Some e \<Rightarrow> end_action (Verify_complete (Some e)) m
           | None \<Rightarrow> await_result Recv_verify m)
      | Ack_identify ps \<Rightarrow>
          (case ack of
             Some e \<Rightarrow> end_action (Identify_complete (Some e)) m
           | None \<Rightarrow> await_result (Recv_identify ps) m)
      | Ack_enroll ps \<Rightarrow>
          (case ack of
             Some e \<Rightarrow> enroll_fail e m
           | None \<Rightarrow> await_result (Recv_enroll ps) m)
      | Recv_verify \<Rightarrow> verify_recv_cb res m
      | Recv_identify ps \<Rightarrow> identify_recv_cb ps res m
      | Recv_enroll ps \<Rightarrow> enroll_recv_cb ps res m
      | Ack_delete g f \<Rightarrow> delete_acked_cb g f ack m
      | Ack_clear \<Rightarrow> clear_storage_acked_cb ack m)"

datatype module_event =
    Start_verify fp_print
  | Start_identify "fp_print list"
  | Start_enroll guid nat fp_print
  | Start_delete fp_print
  | Start_clear
  | User_cancel
  | Incoming "byte list option"
  | Host_died

text \<open>libfprint starts an action only when none runs.\<close>

definition module_step :: "bool \<Rightarrow> module_event \<Rightarrow> module \<Rightarrow> module" where
  "module_step io ev m =
     (case ev of
        User_cancel \<Rightarrow> cancel_action io m
      | Incoming msg \<Rightarrow> module_recv io msg m
      | Host_died \<Rightarrow> m\<lparr>host_dead := True\<rparr>
      | Start_verify p \<Rightarrow> if waiting m = Idle then fpi_device_tudor_verify io p m else m
      | Start_identify ps \<Rightarrow> if waiting m = Idle then fpi_device_tudor_identify io ps m else m
      | Start_enroll g fp p \<Rightarrow> if waiting m = Idle then fpi_device_tudor_enroll io g fp p m else m
      | Start_delete p \<Rightarrow> if waiting m = Idle then fpi_device_tudor_delete io p m else m
      | Start_clear \<Rightarrow> if waiting m = Idle then fpi_device_clear_storage io m else m)"

declare insert_loop.simps [simp del] load_next_print.simps [simp del]


section \<open>Actions end once\<close>

fun is_complete :: "fp_report \<Rightarrow> bool" where
  "is_complete (Enroll_complete e p) = True"
| "is_complete (Verify_complete e) = True"
| "is_complete (Identify_complete e) = True"
| "is_complete (Delete_complete e) = True"
| "is_complete (Clear_storage_complete e) = True"
| "is_complete r = False"

definition completed :: "module \<Rightarrow> nat" where
  "completed m = length (filter is_complete (reports m))"

definition running :: "module \<Rightarrow> nat" where
  "running m = (if waiting m = Idle then 0 else 1)"

text \<open>The continuation of an action either ends it, with one report of that, or waits again.\<close>

definition continues :: "module \<Rightarrow> module \<Rightarrow> bool" where
  "continues m m' \<longleftrightarrow> completed m' + running m' = completed m + 1"

lemma completed_simps [simp]:
  "completed (report r m) = completed m + (if is_complete r then 1 else 0)"
  "completed (m\<lparr>waiting := k\<rparr>) = completed m" "completed (m\<lparr>db_records := db\<rparr>) = completed m"
  "completed (m\<lparr>mod_sent := s\<rparr>) = completed m" "completed (m\<lparr>cancellable := b\<rparr>) = completed m"
  "completed (m\<lparr>next_obj := n\<rparr>) = completed m" "completed (m\<lparr>has_canceled := b\<rparr>) = completed m"
  "completed (m\<lparr>host_dead := b\<rparr>) = completed m"
  "completed (register_cancel_handler m) = completed m"
  "completed (unregister_cancel_handler m) = completed m"
  "completed (insert_db_record rec m) = completed m"
  by (simp_all add: completed_def report_def register_cancel_handler_def unregister_cancel_handler_def
      insert_db_record_def)

lemma running_waiting [simp]: "running (m\<lparr>waiting := k\<rparr>) = (if k = Idle then 0 else 1)"
  by (simp add: running_def)

lemma continues_end: "is_complete r \<Longrightarrow> completed m1 = completed m \<Longrightarrow> continues m (end_action r m1)"
  by (simp add: continues_def end_action_def)

lemma continues_wait: "k \<noteq> Idle \<Longrightarrow> completed m1 = completed m \<Longrightarrow> continues m (m1\<lparr>waiting := k\<rparr>)"
  by (simp add: continues_def)

lemma completed_send: "send_ipc_msg io msg m = (e, m') \<Longrightarrow> completed m' = completed m"
  by (auto simp: send_ipc_msg_def split: if_splits)

lemma continues_send_acked:
  assumes "k \<noteq> Idle" and "\<And>e. is_complete (fail e)" and "completed m1 = completed m"
  shows "continues m (send_acked io msg k fail m1)"
proof (cases "send_ipc_msg io msg m1")
  case (Pair e m')
  then have "completed m' = completed m" using completed_send assms(3) by metis
  then show ?thesis using Pair assms(1,2)
    by (cases e) (simp_all add: send_acked_def continues_end continues_wait)
qed

lemma completed_new_record: "new_record g f d p m = (rec, m1) \<Longrightarrow> completed m1 = completed m"
  by (auto simp: new_record_def)

lemma completed_load_record: "load_record io rec m = (r, m') \<Longrightarrow> completed m' = completed m"
  by (auto simp: load_record_def dest: completed_send split: option.splits if_splits prod.splits)

lemma continues_load_next_print: "completed m1 = completed m \<Longrightarrow> continues m (load_next_print io ps m1)"
proof (induction io ps m1 rule: load_next_print.induct)
  case (1 io ps m1)
  show ?case
  proof (cases "ip_next ps \<ge> length (ip_prints ps)")
    case True
    then show ?thesis using 1(2)
      by (simp add: load_next_print.simps continues_send_acked)
  next
    case False
    show ?thesis
    proof (cases "parse_print_data (fst (ip_prints ps ! ip_next ps))")
      case None
      then show ?thesis using False 1(2)
        by (subst load_next_print.simps) (simp add: Let_def continues_end)
    next
      case (Some t)
      obtain g f d where t: "t = (g, f, d)" by (metis prod_cases3)
      obtain rec m2 where n: "new_record g f d (print_id (fst (ip_prints ps ! ip_next ps))) m1 = (rec, m2)"
        by (metis surj_pair)
      obtain r m3 where l: "load_record io rec m2 = (r, m3)" by (metis surj_pair)
      have c: "completed m3 = completed m"
        using completed_new_record[OF n] completed_load_record[OF l] 1(2) by simp
      have ih: "continues m (load_next_print io (set_print_rec (ip_next ps) x ps) m3)" if "r = Loaded x" for x
        by (rule 1(1)[OF False refl Some t[symmetric] refl n[symmetric] l[symmetric] that c])
      show ?thesis
        using False Some t n l c ih
        by (subst load_next_print.simps)
          (auto simp: Let_def continues_end continues_wait split: load_result.split)
    qed
  qed
qed


lemma continues_verify_loaded:
  "completed m1 = completed m \<Longrightarrow> continues m (verify_loaded io g f m1)"
  by (simp add: verify_loaded_def continues_send_acked)

lemma continues_enroll_fail: "completed m1 = completed m \<Longrightarrow> continues m (enroll_fail e m1)"
  by (simp add: enroll_fail_def continues_end)

lemma continues_await: "k \<noteq> Idle \<Longrightarrow> continues m (await_result k m)"
  by (simp add: await_result_def continues_wait)

lemma continues_verify_recv: "continues m (verify_recv_cb res m)"
  unfolding verify_recv_cb_def
  by (simp add: continues_end split: sum.split option.split ipc_msg_type.split)

lemma continues_identify_recv: "continues m (identify_recv_cb ps res m)"
  unfolding identify_recv_cb_def
  by (simp add: continues_end split: sum.split option.split ipc_msg_type.split)

lemma continues_enroll_recv: "continues m (enroll_recv_cb ps res m)"
  unfolding enroll_recv_cb_def
  by (auto simp: continues_end continues_wait continues_enroll_fail completed_new_record
      split: sum.split option.split ipc_msg_type.split prod.split)

lemma continues_recv:
  assumes "waiting m \<noteq> Idle"
  shows "continues m (module_recv io incoming m)"
  using assms
  by (cases "waiting m")
    (simp_all add: module_recv_def Let_def continues_end continues_verify_loaded
      continues_load_next_print continues_await continues_enroll_fail continues_verify_recv
      continues_identify_recv continues_enroll_recv delete_acked_cb_def clear_storage_acked_cb_def
      split: option.split)

lemma completed_cancel: "completed (cancel_action io m) = completed m \<and> running (cancel_action io m) = running m"
  by (auto simp: cancel_action_def invoke_cancel_handler_def send_ipc_msg_def running_def completed_def)

lemma continues_verify:
  assumes "waiting m = Idle"
  shows "continues m (fpi_device_tudor_verify io p m)"
proof -
  let ?m = "m\<lparr>cancellable := False\<rparr>"
  have rep: "continues m (report (Verify_complete e) ?m)" for e
    using assms by (simp add: continues_def running_def report_def completed_def)
  show ?thesis
  proof (cases "proc_dead ?m \<or> parse_print_data p = None")
    case True
    then show ?thesis using rep by (auto simp: fpi_device_tudor_verify_def Let_def)
  next
    case False
    then obtain g f d where p: "parse_print_data p = Some (g, f, d)" by (metis not_None_eq prod_cases3)
    obtain rec m1 where n: "new_record g f d (print_id p) ?m = (rec, m1)" by (metis surj_pair)
    obtain r m2 where l: "load_record io rec m1 = (r, m2)" by (metis surj_pair)
    have "completed m2 = completed m"
      using completed_new_record[OF n] completed_load_record[OF l] by simp
    then show ?thesis using False p n l
      by (auto simp: fpi_device_tudor_verify_def Let_def continues_end continues_wait
          continues_verify_loaded split: load_result.split)
  qed
qed

lemma continues_start:
  assumes "waiting m = Idle"
  shows "continues m (fpi_device_tudor_identify io ps m)" "continues m (fpi_device_tudor_enroll io g fp p m)"
    "continues m (fpi_device_tudor_delete io p m)" "continues m (fpi_device_clear_storage io m)"
proof -
  let ?m = "m\<lparr>cancellable := False\<rparr>"
  have rep: "is_complete r \<Longrightarrow> continues m (report r ?m)" for r
    using assms by (simp add: continues_def running_def report_def completed_def)
  show "continues m (fpi_device_tudor_identify io ps m)"
    using rep by (simp add: fpi_device_tudor_identify_def Let_def continues_load_next_print)
  show "continues m (fpi_device_tudor_enroll io g fp p m)"
    using rep by (simp add: fpi_device_tudor_enroll_def Let_def continues_send_acked split: option.split)
  show "continues m (fpi_device_tudor_delete io p m)"
    using rep by (auto simp: fpi_device_tudor_delete_def Let_def continues_send_acked split: option.split)
  show "continues m (fpi_device_clear_storage io m)"
    using rep by (simp add: fpi_device_clear_storage_def Let_def continues_send_acked)
qed

text \<open>How many actions a sequence of events starts.\<close>

fun is_start :: "module_event \<Rightarrow> bool" where
  "is_start User_cancel = False"
| "is_start (Incoming msg) = False"
| "is_start Host_died = False"
| "is_start ev = True"

fun module_run :: "(bool \<times> module_event) list \<Rightarrow> module \<Rightarrow> module" where
  "module_run [] m = m"
| "module_run ((io, ev) # evs) m = module_run evs (module_step io ev m)"

fun started :: "(bool \<times> module_event) list \<Rightarrow> module \<Rightarrow> nat" where
  "started [] m = 0"
| "started ((io, ev) # evs) m =
     (if is_start ev \<and> waiting m = Idle then 1 else 0) + started evs (module_step io ev m)"

lemma module_step_count:
  "completed (module_step io ev m) + running (module_step io ev m) =
   completed m + running m + (if is_start ev \<and> waiting m = Idle then 1 else 0)"
proof (cases ev)
  case (Incoming msg)
  show ?thesis
  proof (cases "waiting m = Idle")
    case True
    then show ?thesis using Incoming by (simp add: module_step_def module_recv_def)
  next
    case False
    then show ?thesis using Incoming continues_recv[OF False, of io msg]
      by (simp add: module_step_def continues_def running_def)
  qed
next
  case (Start_verify p)
  then show ?thesis using continues_verify[of m io p]
    by (auto simp: module_step_def continues_def running_def)
next
  case (Start_identify ps)
  then show ?thesis using continues_start(1)[of m io ps]
    by (auto simp: module_step_def continues_def running_def)
next
  case (Start_enroll g fp p)
  then show ?thesis using continues_start(2)[of m io g fp p]
    by (auto simp: module_step_def continues_def running_def)
next
  case (Start_delete p)
  then show ?thesis using continues_start(3)[of m io p]
    by (auto simp: module_step_def continues_def running_def)
next
  case Start_clear
  then show ?thesis using continues_start(4)[of m io]
    by (auto simp: module_step_def continues_def running_def)
next
  case User_cancel
  then show ?thesis using completed_cancel[of io m] by (simp add: module_step_def)
next
  case Host_died
  then show ?thesis by (simp add: module_step_def running_def)
qed

lemma module_run_count:
  "completed (module_run evs m) + running (module_run evs m) = completed m + running m + started evs m"
proof (induction evs arbitrary: m)
  case (Cons e evs)
  obtain io ev where "e = (io, ev)" by (metis surj_pair)
  then show ?case using Cons.IH[of "module_step io ev m"] module_step_count[of io ev m] by simp
qed simp


section \<open>The mirror as a map\<close>

definition mirror_map :: "mod_record list \<Rightarrow> (guid \<times> u32) \<rightharpoonup> byte list" where
  "mirror_map db = map_of (map (\<lambda>r. (mr_key r, mr_data r)) db)"

text \<open>One record per key, and an object is in the list once.\<close>

definition mirror_wf :: "mod_record list \<Rightarrow> bool" where
  "mirror_wf db \<longleftrightarrow> distinct (map mr_key db) \<and> distinct (map mr_id db)"

lemma insert_loop_absent:
  assumes "\<forall>r \<in> set db. mr_id r \<noteq> mr_id rec \<and> mr_key r \<noteq> mr_key rec"
  shows "insert_loop rec db i = db @ [rec]"
  using assms
proof (induction rec db i rule: insert_loop.induct)
  case (1 rec db i)
  show ?case
  proof (cases "i \<ge> length db")
    case True
    then show ?thesis by (subst insert_loop.simps) simp
  next
    case False
    then have "mr_id (db ! i) \<noteq> mr_id rec" "mr_key (db ! i) \<noteq> mr_key rec" using 1(3) by auto
    then show ?thesis using False 1(2)[OF False refl] 1(3)
      by (subst insert_loop.simps) (auto simp: Let_def mr_key_def)
  qed
qed

lemma insert_loop_at:
  assumes "k < length db" and "mr_key (db ! k) = mr_key rec" and "mr_data (db ! k) = mr_data rec"
    and "\<And>j. j < k \<Longrightarrow> mr_id (db ! j) \<noteq> mr_id rec \<and> mr_key (db ! j) \<noteq> mr_key rec"
    and "i \<le> k"
  shows "insert_loop rec db i =
    (if mr_id (db ! k) = mr_id rec then db else insert_loop rec (remove_index_fast k db) (Suc k))"
  using assms
proof (induction "k - i" arbitrary: i)
  case 0
  then have "i = k" by simp
  with 0 show ?case by (subst insert_loop.simps) (auto simp: Let_def mr_key_def)
next
  case (Suc n)
  then have "i < k" by simp
  then have "insert_loop rec db i = insert_loop rec db (Suc i)"
    using Suc.prems(1) Suc.prems(4)[of i] by (subst insert_loop.simps) (auto simp: Let_def mr_key_def)
  then show ?case using Suc.hyps(1)[of "Suc i"] Suc.hyps(2) Suc.prems \<open>i < k\<close> by simp
qed

lemma mirror_map_Some:
  assumes "distinct (map mr_key db)"
  shows "mirror_map db x = Some v \<longleftrightarrow> (\<exists>r \<in> set db. mr_key r = x \<and> mr_data r = v)"
proof -
  have "distinct (map fst (map (\<lambda>r. (mr_key r, mr_data r)) db))" using assms by (simp add: comp_def)
  then show ?thesis by (auto simp: mirror_map_def map_of_eq_Some_iff)
qed

lemma map_of_remove_append:
  assumes "distinct (map mr_key db)" and "k < length db" and "mr_key (db ! k) = mr_key rec"
  shows "mirror_map (remove_index_fast k db @ [rec]) = (mirror_map db)(mr_key rec \<mapsto> mr_data rec)"
    and "distinct (map mr_key (remove_index_fast k db @ [rec]))"
    and "\<forall>r \<in> set (remove_index_fast k db). mr_key r \<noteq> mr_key rec"
proof -
  let ?d = "remove_index_fast k db"
  have "distinct db" using assms(1) by (simp add: distinct_map)
  then have set: "set ?d = set db - {db ! k}" using assms(2) by (rule set_remove_index_fast[rotated])
  have inj: "inj_on mr_key (set db)" using assms(1) by (simp add: distinct_map)
  show no: "\<forall>r \<in> set ?d. mr_key r \<noteq> mr_key rec"
  proof
    fix r assume "r \<in> set ?d"
    then have "r \<in> set db" "r \<noteq> db ! k" using set by auto
    then show "mr_key r \<noteq> mr_key rec"
      using inj_onD[OF inj, of r "db ! k"] assms(2,3) by auto
  qed
  have dd: "distinct (map mr_key ?d)" using assms(1) by (rule distinct_map_remove_index_fast)
  then show dist: "distinct (map mr_key (?d @ [rec]))" using no by auto
  show "mirror_map (?d @ [rec]) = (mirror_map db)(mr_key rec \<mapsto> mr_data rec)"
  proof
    fix x
    have new: "mirror_map (?d @ [rec]) x = Some v \<longleftrightarrow> (\<exists>r \<in> set ?d \<union> {rec}. mr_key r = x \<and> mr_data r = v)" for v
      using mirror_map_Some[OF dist] by simp
    have old: "mirror_map db x = Some v \<longleftrightarrow> (\<exists>r \<in> set db. mr_key r = x \<and> mr_data r = v)" for v
      by (rule mirror_map_Some[OF assms(1)])
    have "mirror_map (?d @ [rec]) x = Some v \<longleftrightarrow> ((mirror_map db)(mr_key rec \<mapsto> mr_data rec)) x = Some v" for v
    proof (cases "x = mr_key rec")
      case True
      then have "(\<exists>r \<in> set ?d \<union> {rec}. mr_key r = x \<and> mr_data r = v) \<longleftrightarrow> mr_data rec = v"
        using no by blast
      then show ?thesis using new[of v] True by simp
    next
      case False
      then have "(\<exists>r \<in> set ?d \<union> {rec}. mr_key r = x \<and> mr_data r = v) \<longleftrightarrow>
          (\<exists>r \<in> set db. mr_key r = x \<and> mr_data r = v)"
        unfolding set using assms(3) by blast
      then show ?thesis using new[of v] old[of v] False by simp
    qed
    then show "mirror_map (?d @ [rec]) x = ((mirror_map db)(mr_key rec \<mapsto> mr_data rec)) x"
      by (metis option.exhaust)
  qed
qed

lemma insert_db_map:
  assumes wf: "mirror_wf db" and same: "\<forall>r \<in> set db. mr_id r = mr_id rec \<longrightarrow> r = rec"
    and agree: "\<forall>r \<in> set db. mr_key r = mr_key rec \<longrightarrow> mr_data r = mr_data rec"
  shows "mirror_map (insert_loop rec db 0) = (mirror_map db)(mr_key rec \<mapsto> mr_data rec)"
    and "mirror_wf (insert_loop rec db 0)"
proof -
  have keys: "distinct (map mr_key db)" and ids: "distinct (map mr_id db)" using wf by (auto simp: mirror_wf_def)
  have "mirror_map (insert_loop rec db 0) = (mirror_map db)(mr_key rec \<mapsto> mr_data rec) \<and>
    mirror_wf (insert_loop rec db 0)"
  proof (cases "mr_key rec \<in> mr_key ` set db")
    case False
    then have no: "\<forall>r \<in> set db. mr_id r \<noteq> mr_id rec \<and> mr_key r \<noteq> mr_key rec"
      using same by (metis imageI)
    have "mirror_map db (mr_key rec) = None"
      using False by (simp add: mirror_map_def map_of_eq_None_iff image_image)
    then have "mirror_map (db @ [rec]) = (mirror_map db)(mr_key rec \<mapsto> mr_data rec)"
      by (auto simp: mirror_map_def map_add_def fun_eq_iff split: option.split)
    then show ?thesis using insert_loop_absent[OF no] no keys ids by (auto simp: mirror_wf_def)
  next
    case True
    then obtain k where k: "k < length db" "mr_key (db ! k) = mr_key rec" by (auto simp: in_set_conv_nth)
    have d: "mr_data (db ! k) = mr_data rec" using agree k by simp
    have before: "mr_id (db ! j) \<noteq> mr_id rec \<and> mr_key (db ! j) \<noteq> mr_key rec" if "j < k" for j
    proof -
      have "map mr_key db ! j \<noteq> map mr_key db ! k"
        using that k(1) keys by (subst nth_eq_iff_index_eq) auto
      then have "mr_key (db ! j) \<noteq> mr_key rec" using that k by simp
      moreover have "db ! j \<in> set db" using that k(1) by simp
      ultimately show ?thesis using same by auto
    qed
    note at = insert_loop_at[OF k d before, of 0]
    note m = map_of_remove_append[OF keys k]
    show ?thesis
    proof (cases "mr_id (db ! k) = mr_id rec")
      case True
      have "mirror_map db (mr_key rec) = Some (mr_data rec)"
        using keys k d by (auto simp: mirror_map_def comp_def image_iff intro!: bexI[of _ "db ! k"])
      then show ?thesis using at True wf by (simp add: fun_upd_idem)
    next
      case False
      have no: "\<forall>r \<in> set (remove_index_fast k db). mr_id r \<noteq> mr_id rec \<and> mr_key r \<noteq> mr_key rec"
        using m(3) same set_remove_index_fast_subset[of k db] by blast
      then have "insert_loop rec db 0 = remove_index_fast k db @ [rec]"
        using at False insert_loop_absent[OF no] by simp
      then show ?thesis using m no ids by (auto simp: mirror_wf_def distinct_map_remove_index_fast)
    qed
  qed
  then show "mirror_map (insert_loop rec db 0) = (mirror_map db)(mr_key rec \<mapsto> mr_data rec)"
    and "mirror_wf (insert_loop rec db 0)" by auto
qed

text \<open>The module after the device was opened.\<close>

definition opened_module :: module where
  "opened_module = \<lparr>host_has_id = True, host_dead = False, has_socket = True, cancellable = False,
     cancel_handler = False, has_canceled = False, db_records = [], next_obj = 0, waiting = Idle,
     mod_sent = [], reports = []\<rparr>"

section \<open>Properties\<close>


text \<open>
  The record a print carries is the one it was given: for every finger the driver knows,
  \<open>parse_print_data\<close> reads back what \<open>set_print_record\<close> wrote.
\<close>

theorem print_record_roundtrip:
  assumes "own_driver p" and "mr_finger r < 256"
  shows "parse_print_data (set_print_record r p) = Some (mr_guid r, mr_finger r, mr_data r)"
proof -
  have "(ucast (ucast (mr_finger r) :: byte) :: u32) = mr_finger r"
    using assms(2) by (simp add: word_eq_iff_unsigned[where ?'a = nat] unsigned_ucast_eq take_bit_eq_mod word_less_nat_alt
        unat_mod_distrib)
  then show ?thesis using assms(1) by (simp add: parse_print_data_def set_print_record_def)
qed

lemma print_record_roundtrip_witness:
  "parse_print_data (set_print_record
      \<lparr>mr_id = 0, mr_guid = zero_guid, mr_finger = 7, mr_data = [1], mr_print = 3\<rparr>
      \<lparr>print_id = 3, own_driver = True, device_stored = False, fpi_data = None\<rparr>) = Some (zero_guid, 7, [1])"
  using print_record_roundtrip[of "\<lparr>print_id = 3, own_driver = True, device_stored = False, fpi_data = None\<rparr>"
      "\<lparr>mr_id = 0, mr_guid = zero_guid, mr_finger = 7, mr_data = [1], mr_print = 3\<rparr>"]
  by simp

text \<open>
  As long as a key always comes with the same template, inserting a record is an update of the
  mirror as a map, one record per key; the record the loop skips after a removal is never one it
  should have removed.
\<close>

theorem insert_db_record_refines_update:
  assumes "mirror_wf (db_records m)" and "\<forall>r \<in> set (db_records m). mr_id r = mr_id rec \<longrightarrow> r = rec"
    and "\<forall>r \<in> set (db_records m). mr_key r = mr_key rec \<longrightarrow> mr_data r = mr_data rec"
  shows "mirror_map (db_records (insert_db_record rec m)) =
      (mirror_map (db_records m))(mr_key rec \<mapsto> mr_data rec) \<and>
    mirror_wf (db_records (insert_db_record rec m))"
  using insert_db_map[OF assms] by (simp add: insert_db_record_def)

lemma insert_db_record_refines_update_witness:
  "mirror_map (db_records (insert_db_record
      \<lparr>mr_id = 0, mr_guid = zero_guid, mr_finger = 7, mr_data = [1], mr_print = 3\<rparr> opened_module))
    (zero_guid, 7) = Some [1]"
  using insert_db_record_refines_update[of opened_module
      "\<lparr>mr_id = 0, mr_guid = zero_guid, mr_finger = 7, mr_data = [1], mr_print = 3\<rparr>"]
  by (simp add: opened_module_def mirror_wf_def mr_key_def)

text \<open>
  A cancellation that arrives before the host has acknowledged the start of the action is lost:
  connecting the handler to a cancellable that is already cancelled leaves it unconnected, and no
  \<open>CANCEL\<close> message is ever sent for the action.
\<close>

theorem early_cancel_is_lost:
  assumes "waiting m = Ack_verify" and "\<not> cancellable m" and "\<not> cancel_handler m" and "\<not> proc_dead m"
  shows "let m1 = module_step True User_cancel m;
             m2 = module_step True (Incoming (Some (simple_msg IPC_MSG_ACK))) m1
         in waiting m2 = Recv_verify \<and> mod_sent m2 = mod_sent m \<and>
            module_step io User_cancel m2 = m2"
  using assms
  by (simp add: Let_def module_step_def cancel_action_def invoke_cancel_handler_def module_recv_def
      sock_ready_def check_ack_def await_result_def register_cancel_handler_def report_def proc_dead_def
      del: msg_code.simps)

lemma early_cancel_is_lost_witness:
  "mod_sent (module_step True (Incoming (Some (simple_msg IPC_MSG_ACK)))
     (module_step True User_cancel (opened_module\<lparr>waiting := Ack_verify\<rparr>))) = []"
  using early_cancel_is_lost[of "opened_module\<lparr>waiting := Ack_verify\<rparr>"]
  by (simp add: opened_module_def proc_dead_def Let_def)

text \<open>
  A deletion that fails is reported as the end of a clearing of the storage, whatever the
  error; the deletion itself is never completed.
\<close>

theorem failed_delete_completes_clear:
  assumes "waiting m = Ack_delete g f"
  shows "reports (module_step io (Incoming None) m) =
      reports m @ [Clear_storage_complete (Some (if proc_dead m then Err_host_dead else Err_socket))] \<and>
    waiting (module_step io (Incoming None) m) = Idle"
  using assms
  by (simp add: module_step_def module_recv_def sock_ready_def check_ack_def delete_acked_cb_def
      end_action_def report_def unregister_cancel_handler_def Let_def)

lemma failed_delete_completes_clear_witness:
  "reports (module_step True (Incoming None) (opened_module\<lparr>waiting := Ack_delete zero_guid 2\<rparr>)) =
    [Clear_storage_complete (Some Err_socket)]"
  using failed_delete_completes_clear[of "opened_module\<lparr>waiting := Ack_delete zero_guid 2\<rparr>" zero_guid 2 True]
  by (simp add: opened_module_def proc_dead_def)

end
