(* ===== verification/Protocol.thy ===== *)
theory Protocol
  imports Host_Handler Fprint_Module
begin

text \<open>
  The libfprint module and the driver host together: \<open>Fprint_Module\<close> and \<open>Host_Handler\<close> joined by
  the socket between them.  Each end reads the messages in the order the other sent them, at any
  later time, and a capture may end at any time.  Writes to the socket succeed.
\<close>

section \<open>The system\<close>

record 's system =
  sys_host :: "'s handler_state"
  sys_mod :: module
  to_host :: "byte list list"
  to_module :: "byte list list"

definition system_start :: "tudor_device \<Rightarrow> 's \<Rightarrow> 's system" where
  "system_start dev s =
     \<lparr>sys_host = handler_init dev s, sys_mod = opened_module, to_host = [], to_module = []\<rparr>"

text \<open>What an end has sent in a step is put into the socket.\<close>

definition with_module :: "module \<Rightarrow> 's system \<Rightarrow> 's system" where
  "with_module m sys = sys\<lparr>sys_mod := m,
     to_host := to_host sys @ drop (length (mod_sent (sys_mod sys))) (mod_sent m)\<rparr>"

definition with_host :: "'s handler_state \<Rightarrow> 's system \<Rightarrow> 's system" where
  "with_host st sys = sys\<lparr>sys_host := st,
     to_module := to_module sys @ map reply_bytes (drop (length (hs_sent (sys_host sys))) (hs_sent st))\<rparr>"

datatype system_event = Action module_event | Host_reads | Module_reads | Capture_ends u32

text \<open>
  The module watches its socket only while a callback waits.  \<open>Action\<close> is what libfprint and the user
  do; the messages the module gets are those of the socket.
\<close>

definition system_step ::
    "'s adapters \<Rightarrow> 's storage_interface \<Rightarrow> byte list \<Rightarrow> system_event \<Rightarrow> 's system \<Rightarrow> 's system result" where
  "system_step ad sif name ev sys =
     (case ev of
        Action e \<Rightarrow> Inr (with_module (module_step True e (sys_mod sys)) sys)
      | Host_reads \<Rightarrow>
          (case to_host sys of
             [] \<Rightarrow> Inr sys
           | msg # rest \<Rightarrow>
               res_bind (host_step ad sif name (MsgArrives msg) (sys_host sys)) (\<lambda>(_, st).
                 Inr (with_host st (sys\<lparr>to_host := rest\<rparr>))))
      | Module_reads \<Rightarrow>
          (case to_module sys of
             [] \<Rightarrow> Inr sys
           | msg # rest \<Rightarrow>
               if waiting (sys_mod sys) = Idle then Inr sys
               else Inr (with_module (module_step True (Incoming (Some msg)) (sys_mod sys))
                      (sys\<lparr>to_module := rest\<rparr>)))
      | Capture_ends status \<Rightarrow>
          res_bind (host_step ad sif name (CaptureDone status) (sys_host sys)) (\<lambda>(_, st).
            Inr (with_host st sys)))"

fun system_run ::
    "'s adapters \<Rightarrow> 's storage_interface \<Rightarrow> byte list \<Rightarrow> system_event list \<Rightarrow> 's system \<Rightarrow> 's system result" where
  "system_run ad sif name [] sys = Inr sys"
| "system_run ad sif name (ev # evs) sys =
     res_bind (system_step ad sif name ev sys) (system_run ad sif name evs)"

section \<open>Conversations\<close>

text \<open>The request each callback waits for an answer to, and the capture it leads to.\<close>

fun request_of :: "pending \<Rightarrow> byte list \<Rightarrow> bool" where
  "request_of (Ack_load_verify rec g f) msg \<longleftrightarrow> length (mr_data rec) \<le> IPC_MAX_RECORD_SIZE \<and>
     msg = key_msg IPC_MSG_ADD_RECORD (mr_guid rec) (mr_finger rec) (mr_data rec)"
| "request_of (Ack_load_identify rec ps) msg \<longleftrightarrow> length (mr_data rec) \<le> IPC_MAX_RECORD_SIZE \<and>
     msg = key_msg IPC_MSG_ADD_RECORD (mr_guid rec) (mr_finger rec) (mr_data rec)"
| "request_of Ack_verify msg \<longleftrightarrow> (\<exists>g f. msg = key_msg IPC_MSG_VERIFY g f [])"
| "request_of (Ack_identify ps) msg \<longleftrightarrow> msg = simple_msg IPC_MSG_IDENTIFY"
| "request_of (Ack_enroll ps) msg \<longleftrightarrow> msg = key_msg IPC_MSG_ENROLL (ep_guid ps) (ep_finger ps) []"
| "request_of (Ack_delete g f) msg \<longleftrightarrow> msg = key_msg IPC_MSG_DEL_RECORD g f []"
| "request_of Ack_clear msg \<longleftrightarrow> msg = simple_msg IPC_MSG_CLEAR_RECORDS"
| "request_of k msg \<longleftrightarrow> False"

fun capture_of :: "pending \<Rightarrow> action option" where
  "capture_of Ack_verify = Some VerifyAction"
| "capture_of Recv_verify = Some VerifyAction"
| "capture_of (Ack_identify ps) = Some IdentifyAction"
| "capture_of (Recv_identify ps) = Some IdentifyAction"
| "capture_of (Ack_enroll ps) = Some EnrollAction"
| "capture_of (Recv_enroll ps) = Some EnrollAction"
| "capture_of k = None"

fun receiving :: "pending \<Rightarrow> bool" where
  "receiving Recv_verify = True"
| "receiving (Recv_identify ps) = True"
| "receiving (Recv_enroll ps) = True"
| "receiving k = False"

definition progress_reply :: "ipc_reply \<Rightarrow> bool" where
  "progress_reply r \<longleftrightarrow> (\<exists>retry. r = RespEnroll retry False False [])"

fun final_reply :: "action \<Rightarrow> ipc_reply \<Rightarrow> bool" where
  "final_reply VerifyAction r \<longleftrightarrow> (\<exists>retry hit. r = RespVerify retry hit)"
| "final_reply IdentifyAction r \<longleftrightarrow> (\<exists>retry hit g f. r = RespIdentify retry hit g f)"
| "final_reply EnrollAction r \<longleftrightarrow>
     (\<exists>dup d. r = RespEnroll False True dup d \<and> length d \<le> IPC_MAX_RECORD_SIZE)"

text \<open>
  The replies of a capture that are still on their way, when the host's action is \<open>h\<close>: only progress
  while it runs, and its result at the end when it is over.
\<close>

definition replies_ok :: "action option \<Rightarrow> action option \<Rightarrow> ipc_reply list \<Rightarrow> bool" where
  "replies_ok c h rs \<longleftrightarrow>
     (case c of
        None \<Rightarrow> h = None \<and> rs = []
      | Some a \<Rightarrow>
          (\<exists>ps last. rs = ps @ last \<and> (\<forall>r \<in> set ps. a = EnrollAction \<and> progress_reply r) \<and>
             ((h = Some a \<and> last = []) \<or> (h = None \<and> (\<exists>r. last = [r] \<and> final_reply a r)))))"

text \<open>The ends are in step: what the module waits for is what the host does or what is on its way.\<close>

definition talk_ok :: "pending \<Rightarrow> action option \<Rightarrow> byte list list \<Rightarrow> ipc_reply list \<Rightarrow> bool" where
  "talk_ok w h to_h to_m \<longleftrightarrow>
     (if w = Idle then h = None \<and> to_h = [] \<and> to_m = []
      else if receiving w then to_h = [] \<and> replies_ok (capture_of w) h to_m
      else (\<exists>msg. request_of w msg \<and> h = None \<and> to_h = [msg] \<and> to_m = []) \<or>
           (\<exists>rs. to_h = [] \<and> to_m = Ack # rs \<and> replies_ok (capture_of w) h rs))"

definition alive_module :: "module \<Rightarrow> bool" where
  "alive_module m \<longleftrightarrow> host_has_id m \<and> \<not> host_dead m \<and> has_socket m"

definition in_step :: "'s system \<Rightarrow> bool" where
  "in_step sys \<longleftrightarrow> alive_module (sys_mod sys) \<and>
     (async_action (sys_host sys) \<noteq> None \<longrightarrow> \<not> async_cancelled (sys_host sys)) \<and>
     (\<exists>rs. to_module sys = map reply_bytes rs \<and>
        talk_ok (waiting (sys_mod sys)) (async_action (sys_host sys)) (to_host sys) rs)"

text \<open>The reports that tell of a broken conversation.\<close>

fun report_error :: "fp_report \<Rightarrow> fp_error option" where
  "report_error (Enroll_complete e p) = e"
| "report_error (Verify_complete e) = e"
| "report_error (Identify_complete e) = e"
| "report_error (Delete_complete e) = e"
| "report_error (Clear_storage_complete e) = e"
| "report_error r = None"

definition broken_report :: "fp_report \<Rightarrow> bool" where
  "broken_report r \<longleftrightarrow>
     report_error r \<in> {Some Err_proto, Some Err_host_dead, Some Err_socket, Some Err_cancelled}"

section \<open>Steps of the module\<close>

text \<open>
  A callback of the module, with the host alive, adds no report of a broken conversation, and
  either ends the action without a message or sends one request and waits for its answer.
\<close>

definition asks :: "module \<Rightarrow> module \<Rightarrow> bool" where
  "asks m m' \<longleftrightarrow> alive_module m' \<and>
     (\<exists>rs. reports m' = reports m @ rs \<and> (\<forall>r \<in> set rs. \<not> broken_report r)) \<and>
     ((waiting m' = Idle \<and> mod_sent m' = mod_sent m) \<or>
      (\<exists>msg. request_of (waiting m') msg \<and> mod_sent m' = mod_sent m @ [msg]))"

lemma alive_simps [simp]:
  "alive_module (m\<lparr>waiting := k\<rparr>) = alive_module m"
  "alive_module (m\<lparr>db_records := db\<rparr>) = alive_module m"
  "alive_module (m\<lparr>mod_sent := s\<rparr>) = alive_module m"
  "alive_module (m\<lparr>cancellable := b\<rparr>) = alive_module m"
  "alive_module (m\<lparr>next_obj := n\<rparr>) = alive_module m"
  "alive_module (m\<lparr>reports := r\<rparr>) = alive_module m"
  "alive_module (m\<lparr>cancel_handler := b\<rparr>) = alive_module m"
  "alive_module (m\<lparr>has_canceled := b\<rparr>) = alive_module m"
  by (simp_all add: alive_module_def)

lemmas module_ops = report_def register_cancel_handler_def unregister_cancel_handler_def
  insert_db_record_def end_action_def

lemma alive_dead: "alive_module m \<Longrightarrow> \<not> proc_dead m"
  by (simp add: alive_module_def proc_dead_def)

lemma alive_sends:
  "alive_module m \<Longrightarrow> send_ipc_msg True msg m = (None, m\<lparr>mod_sent := mod_sent m @ [msg]\<rparr>)"
  by (simp add: send_ipc_msg_def alive_module_def proc_dead_def)

text \<open>A module is reached from another without reports and messages.\<close>

definition same_talk :: "module \<Rightarrow> module \<Rightarrow> bool" where
  "same_talk m m' \<longleftrightarrow> alive_module m' \<and> reports m' = reports m \<and> mod_sent m' = mod_sent m"

lemma asks_send_acked:
  assumes "same_talk m m1" and "request_of k msg"
  shows "asks m (send_acked True msg k fail m1)"
  using assms by (simp add: send_acked_def alive_sends same_talk_def asks_def)

lemma asks_end:
  assumes "same_talk m m1" and "\<not> broken_report r"
  shows "asks m (end_action r m1)"
  using assms by (simp add: same_talk_def asks_def module_ops)

lemma asks_report:
  assumes "same_talk m m1" and "\<not> broken_report r" and "waiting m1 = Idle"
  shows "asks m (report r m1)"
  using assms by (simp add: same_talk_def asks_def module_ops)

lemma new_record_talk: "new_record g f d p m1 = (rec, m2) \<Longrightarrow> same_talk m m1 \<Longrightarrow> same_talk m m2"
  by (auto simp: new_record_def same_talk_def)

lemma load_record_cases:
  assumes "load_record True rec m1 = (r, m2)" and "same_talk m m1"
  shows "(\<exists>x. r = Loaded x) \<and> same_talk m m2 \<or>
    r = Load_failed Err_data_invalid \<and> same_talk m m2 \<or>
    r = Load_sent \<and> length (mr_data rec) \<le> IPC_MAX_RECORD_SIZE \<and> alive_module m2 \<and>
      reports m2 = reports m \<and> mod_sent m2 = mod_sent m @
        [key_msg IPC_MSG_ADD_RECORD (mr_guid rec) (mr_finger rec) (mr_data rec)]"
  using assms by (auto simp: load_record_def same_talk_def alive_sends split: option.splits if_splits)

lemma not_broken [simp]:
  "\<not> broken_report (Verify_complete None)" "\<not> broken_report (Identify_complete None)"
  "\<not> broken_report (Enroll_complete None p)" "\<not> broken_report (Delete_complete None)"
  "\<not> broken_report (Clear_storage_complete None)"
  "\<not> broken_report (Verify_complete (Some Err_data_invalid))"
  "\<not> broken_report (Identify_complete (Some Err_data_invalid))"
  "\<not> broken_report (Enroll_complete (Some Err_data_invalid) p)"
  "\<not> broken_report (Delete_complete (Some Err_data_invalid))"
  "\<not> broken_report (Enroll_complete (Some Err_duplicate) p)"
  "\<not> broken_report Finger_needed" "\<not> broken_report (Enroll_progress n b)"
  "\<not> broken_report (Verify_report v)" "\<not> broken_report Identify_retry"
  "\<not> broken_report (Identify_report a c)"
  by (simp_all add: broken_report_def)

lemma asks_verify_loaded: "same_talk m m1 \<Longrightarrow> asks m (verify_loaded True g f m1)"
  unfolding verify_loaded_def by (rule asks_send_acked) auto

lemma asks_load_next_print: "same_talk m m1 \<Longrightarrow> asks m (load_next_print True ps m1)"
proof (induction "True" ps m1 rule: load_next_print.induct)
  case (1 ps m1)
  show ?case
  proof (cases "ip_next ps \<ge> length (ip_prints ps)")
    case True
    then show ?thesis using asks_send_acked[OF 1(2)] by (simp add: load_next_print.simps)
  next
    case False
    show ?thesis
    proof (cases "parse_print_data (fst (ip_prints ps ! ip_next ps))")
      case None
      then show ?thesis using False asks_end[OF 1(2)]
        by (subst load_next_print.simps) (simp add: Let_def)
    next
      case (Some t)
      obtain g f d where t: "t = (g, f, d)" by (metis prod_cases3)
      obtain rec m2 where n: "new_record g f d (print_id (fst (ip_prints ps ! ip_next ps))) m1 = (rec, m2)"
        by (metis surj_pair)
      obtain r m3 where l: "load_record True rec m2 = (r, m3)" by (metis surj_pair)
      note lc = load_record_cases[OF l new_record_talk[OF n 1(2)]]
      have ih: "asks m (load_next_print True (set_print_rec (ip_next ps) x ps) m3)"
        if "r = Loaded x" "same_talk m m3" for x
        by (rule 1(1)[OF False refl Some t[symmetric] refl n[symmetric] l[symmetric] that])
      show ?thesis
      proof (cases r)
        case (Loaded x)
        then have "same_talk m m3" using lc by auto
        then show ?thesis using False Some t n l Loaded ih
          by (subst load_next_print.simps) (simp add: Let_def)
      next
        case Load_sent
        then show ?thesis using False Some t n l lc
          by (subst load_next_print.simps) (simp add: Let_def asks_def)
      next
        case (Load_failed e)
        then have "same_talk m m3" "e = Err_data_invalid" using lc by auto
        then show ?thesis using False Some t n l Load_failed asks_end[of m m3]
          by (subst load_next_print.simps) (simp add: Let_def)
      qed
    qed
  qed
qed

lemma asks_verify:
  assumes "alive_module m" and "waiting m = Idle"
  shows "asks m (fpi_device_tudor_verify True p m)"
proof -
  let ?m = "m\<lparr>cancellable := False\<rparr>"
  have same: "same_talk m ?m" using assms(1) by (simp add: same_talk_def)
  show ?thesis
  proof (cases "parse_print_data p")
    case None
    then show ?thesis using assms asks_report[OF same]
      by (simp add: fpi_device_tudor_verify_def Let_def alive_dead)
  next
    case (Some t)
    obtain g f d where t: "t = (g, f, d)" by (metis prod_cases3)
    obtain rec m1 where n: "new_record g f d (print_id p) ?m = (rec, m1)" by (metis surj_pair)
    obtain r m2 where l: "load_record True rec m1 = (r, m2)" by (metis surj_pair)
    have v: "fpi_device_tudor_verify True p m = (case r of
        Loaded x \<Rightarrow> verify_loaded True g f m2 | Load_sent \<Rightarrow> m2\<lparr>waiting := Ack_load_verify rec g f\<rparr>
      | Load_failed e \<Rightarrow> end_action (Verify_complete (Some e)) m2)"
      using assms Some t n l by (simp add: fpi_device_tudor_verify_def Let_def alive_dead)
    show ?thesis using load_record_cases[OF l new_record_talk[OF n same]] v
        asks_verify_loaded[of m m2 g f] asks_end[of m m2]
      by (auto simp: asks_def[of m "m2\<lparr>waiting := _\<rparr>"])
  qed
qed

lemma asks_start:
  assumes "alive_module m" and "waiting m = Idle" and "is_start ev"
  shows "asks m (module_step True ev m)"
proof -
  let ?m = "m\<lparr>cancellable := False\<rparr>"
  have same: "same_talk m ?m" using assms(1) by (simp add: same_talk_def)
  show ?thesis
    using assms asks_verify[OF assms(1,2)] asks_load_next_print[OF same] asks_report[OF same]
      asks_send_acked[OF same]
    by (cases ev) (auto simp: module_step_def fpi_device_tudor_identify_def fpi_device_tudor_enroll_def
        fpi_device_tudor_delete_def fpi_device_clear_storage_def Let_def alive_dead split: option.split)
qed

lemma ack_received:
  assumes "alive_module m"
  shows "sock_ready (Some (reply_bytes Ack)) m = Inr (simple_msg IPC_MSG_ACK)"
    and "check_ack (Inr (simple_msg IPC_MSG_ACK)) = None"
  using assms by (simp_all add: sock_ready_def alive_dead check_ack_def del: msg_code.simps)

lemma asks_insert: "same_talk m (insert_db_record rec m) \<longleftrightarrow> alive_module m"
  by (simp add: same_talk_def insert_db_record_def)

text \<open>An acknowledgement ends a request, goes on with the next one, or starts to wait for a result.\<close>

lemma recv_ack_asks:
  assumes "alive_module m" and "waiting m \<noteq> Idle" and "\<not> receiving (waiting m)"
    and "capture_of (waiting m) = None"
  shows "asks m (module_recv True (Some (reply_bytes Ack)) m)"
proof -
  have same: "same_talk m (m\<lparr>db_records := db\<rparr>)" for db
    using assms(1) by (simp add: same_talk_def)
  show ?thesis
    using assms ack_received[OF assms(1)] asks_verify_loaded[of m] asks_load_next_print[of m]
      asks_insert[of m] asks_end[OF same]
    by (cases "waiting m") (simp_all add: module_recv_def Let_def delete_acked_cb_def
        clear_storage_acked_cb_def del: reply_bytes.simps)
qed

text \<open>A step that sends nothing.\<close>

definition listens :: "module \<Rightarrow> module \<Rightarrow> bool" where
  "listens m m' \<longleftrightarrow> alive_module m' \<and> mod_sent m' = mod_sent m \<and>
     (\<exists>rs. reports m' = reports m @ rs \<and> (\<forall>r \<in> set rs. \<not> broken_report r))"

lemma recv_ack_listens:
  assumes "alive_module m" and "\<not> receiving (waiting m)" and "capture_of (waiting m) = Some a"
  shows "listens m (module_recv True (Some (reply_bytes Ack)) m) \<and>
    receiving (waiting (module_recv True (Some (reply_bytes Ack)) m)) \<and>
    capture_of (waiting (module_recv True (Some (reply_bytes Ack)) m)) = Some a"
  using assms ack_received[OF assms(1)]
  by (cases "waiting m") (auto simp: module_recv_def Let_def await_result_def listens_def module_ops
      simp del: reply_bytes.simps)

lemma reply_ready:
  assumes "alive_module m"
  shows "sock_ready (Some (reply_bytes r)) m = Inr (reply_bytes r)"
  using assms by (cases r) (simp_all add: sock_ready_def alive_dead)

lemma le_word_byte [simp]: "(le_word [b] :: byte) = b"
  by (simp add: le_word_def)

lemma reply_fields:
  "(fld (reply_bytes (RespVerify a b)) 0 4 :: u32) = msg_code IPC_MSG_RESP_VERIFY"
  "length (reply_bytes (RespVerify a b)) = 8"
  "(fld (reply_bytes (RespIdentify a b g f)) 0 4 :: u32) = msg_code IPC_MSG_RESP_IDENTIFY"
  "length (reply_bytes (RespIdentify a b g f)) = 28"
  "(fld (reply_bytes (RespEnroll a b c d)) 0 4 :: u32) = msg_code IPC_MSG_RESP_ENROLL"
  "(fld (reply_bytes (RespEnroll a b c d)) 4 1 :: byte) = bool_byte a"
  "(fld (reply_bytes (RespEnroll a b c d)) 5 1 :: byte) = bool_byte b"
  "(fld (reply_bytes (RespEnroll a b c d)) 6 1 :: byte) = bool_byte c"
  "length (reply_bytes (RespEnroll a b c d)) = 8 + length d"
  "(fld (reply_bytes (RespVerify a b)) 4 1 :: byte) = bool_byte a"
  "(fld (reply_bytes (RespVerify a b)) 5 1 :: byte) = bool_byte b"
  "take (length d) (drop 7 (reply_bytes (RespEnroll a b c d))) = d"
  by (simp_all add: fld_def simple_msg_def bool_byte_def del: msg_code.simps)

lemmas reply_simps = reply_fields [unfolded One_nat_def]

lemma bool_byte_zero [simp]: "bool_byte b = 0 \<longleftrightarrow> \<not> b"
  by (simp add: bool_byte_def)

lemma recv_progress:
  assumes "alive_module m" and "waiting m = Recv_enroll ps" and "progress_reply r"
  shows "listens m (module_recv True (Some (reply_bytes r)) m) \<and>
    (\<exists>ps'. waiting (module_recv True (Some (reply_bytes r)) m) = Recv_enroll ps')"
  using assms
  by (auto simp: progress_reply_def module_recv_def Let_def reply_ready enroll_recv_cb_def reply_simps
      listens_def module_ops simp del: reply_bytes.simps msg_code.simps)

lemma listens_end:
  assumes "same_talk m m1" and "\<not> broken_report r"
  shows "listens m (end_action r m1) \<and> waiting (end_action r m1) = Idle"
  using assms by (simp add: same_talk_def listens_def module_ops)

lemma listens_end_report:
  assumes "same_talk m m1" and "\<not> broken_report r" and "\<not> broken_report q"
  shows "listens m (end_action r (report q m1)) \<and> waiting (end_action r (report q m1)) = Idle"
  using assms by (simp add: same_talk_def listens_def module_ops)

lemma recv_final:
  assumes "alive_module m" and "receiving (waiting m)" and "capture_of (waiting m) = Some a"
    and "final_reply a r"
  shows "listens m (module_recv True (Some (reply_bytes r)) m) \<and>
    waiting (module_recv True (Some (reply_bytes r)) m) = Idle"
proof -
  have same: "same_talk m m" and db: "same_talk m (insert_db_record rec (m\<lparr>next_obj := n\<rparr>))" for rec n
    using assms(1) by (simp_all add: same_talk_def insert_db_record_def)
  note fin = listens_end[OF same] listens_end[OF db] listens_end_report[OF same]
  show ?thesis
  proof (cases "waiting m")
    case Recv_verify
    then show ?thesis using assms fin
      by (auto simp: module_recv_def Let_def reply_ready verify_recv_cb_def reply_simps
          simp del: reply_bytes.simps msg_code.simps)
  next
    case (Recv_identify ps)
    then obtain retry hit g f where r: "r = RespIdentify retry hit g f" using assms(3,4) by auto
    then show ?thesis using assms(1) Recv_identify fin
      by (simp add: module_recv_def Let_def reply_ready identify_recv_cb_def reply_simps
          split: option.split del: reply_bytes.simps msg_code.simps)
  next
    case (Recv_enroll ps)
    then obtain dup d where r: "r = RespEnroll False True dup d" "length d \<le> IPC_MAX_RECORD_SIZE"
      using assms(3,4) by auto
    then show ?thesis using assms(1) Recv_enroll fin
      by (simp add: module_recv_def Let_def reply_ready enroll_recv_cb_def reply_simps enroll_fail_def
          new_record_def del: reply_bytes.simps msg_code.simps)
  qed (use assms(2) in simp_all)
qed

section \<open>Steps of the host\<close>

lemma hs_wipe_same:
  "hs_wipe sif g f st = Inr st' \<Longrightarrow> hs_sent st' = hs_sent st \<and> async_action st' = async_action st"
  by (auto simp: hs_wipe_def split: option.splits sum.splits prod.splits)

lemma handle_add_record_same:
  "handle_add_record sif g f d st = Inr st' \<Longrightarrow>
   hs_sent st' = hs_sent st @ [Ack] \<and> async_action st' = async_action st"
  by (auto simp: handle_add_record_def res_bind_eq_Inr Let_def dest!: hs_wipe_same split: if_splits)

lemma start_identify_same:
  "start_identify ad act st = Inr st' \<Longrightarrow> hs_sent st' = hs_sent st \<and>
   async_action st' = Some act \<and> async_cancelled st' = async_cancelled st"
  by (auto simp: start_identify_def on_device_def split: if_splits prod.splits)

lemma handle_enroll_same:
  "handle_enroll ad g f st = Inr st' \<Longrightarrow> hs_sent st' = hs_sent st @ [Ack] \<and>
   async_action st' = Some EnrollAction \<and> \<not> async_cancelled st'"
  by (auto simp: handle_enroll_def start_enroll_capture_def init_action_def on_device_def res_bind_eq_Inr
      Let_def split: if_splits prod.splits)

text \<open>An idle host that accepts a request acknowledges it and starts the capture it asks for.\<close>

lemma request_answered:
  assumes "handle_msg ad sif name msg st = Inr (stop, st')" and "request_of w msg"
    and "async_action st = None"
  shows "hs_sent st' = hs_sent st @ [Ack] \<and> async_action st' = capture_of w \<and>
    (async_action st' \<noteq> None \<longrightarrow> \<not> async_cancelled st')"
  using assms
  by (cases w) (auto simp: handle_msg_def ipc_peek_msg_def check_in_action_def recv_key_msg
      recv_simple_msg res_bind_eq_Inr init_action_def simp del: msg_code.simps
      dest!: handle_add_record_same hs_wipe_same start_identify_same handle_enroll_same)

lemma go_on_cleanup:
  "\<not> async_cancelled st \<Longrightarrow> cleanup_action st = (True, st\<lparr>async_action := None\<rparr>)"
  by (simp add: cleanup_action_def Let_def)

lemma count_failure_same:
  "count_failure st = Inr st' \<Longrightarrow> hs_sent st' = hs_sent st \<and> async_action st' = async_action st"
  by (auto simp: count_failure_def split: if_splits)

lemma start_enroll_capture_same:
  "start_enroll_capture ad st = Inr st' \<Longrightarrow> hs_sent st' = hs_sent st \<and>
   async_action st' = Some EnrollAction \<and> async_cancelled st' = async_cancelled st"
  by (auto simp: start_enroll_capture_def on_device_def split: if_splits prod.splits)

text \<open>What the handler answers when a capture ends, and what it does next.\<close>

definition answers :: "action \<Rightarrow> 's handler_state \<Rightarrow> 's handler_state \<Rightarrow> bool" where
  "answers a st st' \<longleftrightarrow> (\<exists>r. hs_sent st' = hs_sent st @ [r] \<and>
     ((a = EnrollAction \<and> progress_reply r \<and> async_action st' = Some a \<and> \<not> async_cancelled st') \<or>
      (final_reply a r \<and> async_action st' = None)))"

lemma on_device_same:
  "on_device f st = (b, st') \<Longrightarrow> hs_sent st' = hs_sent st \<and> async_action st' = async_action st"
  by (auto simp: on_device_def split: prod.splits)

lemma enroll_answers:
  assumes "handler_enroll_cb ad ok st = Inr st'" and "\<not> async_cancelled st"
  shows "answers EnrollAction st st'"
proof (cases "act_done st")
  case True
  let ?st1 = "st\<lparr>async_action := None\<rparr>"
  obtain committed dupl dev s where
    "tudor_enroll_commit ad (hs_dev ?st1, hs_dll ?st1) = Inr (committed, dupl, dev, s)"
    and rest: "(if \<not> committed then
          (if \<not> dupl then Inl Abort
           else case on_device (tudor_enroll_discard ad) (?st1\<lparr>hs_dev := dev, hs_dll := s\<rparr>) of (_, st3) \<Rightarrow>
             Inr (send (RespEnroll False True True []) st3))
        else
          (case find_enrolled (act_enroll_guid st) (act_enroll_finger st) dev of
             None \<Rightarrow> Inr (send (RespEnroll False True False []) (?st1\<lparr>hs_dev := dev, hs_dll := s\<rparr>))
           | Some rec \<Rightarrow>
               if length (rec_data rec) > IPC_MAX_RECORD_SIZE then Inl Abort
               else Inr (send (RespEnroll False True False (rec_data rec))
                      (?st1\<lparr>hs_dev := dev, hs_dll := s\<rparr>)))) = Inr st'"
    using assms True
    by (auto simp: handler_enroll_cb_def go_on_cleanup res_bind_eq_Inr Let_def split: if_splits)
  obtain b st3 where d: "on_device (tudor_enroll_discard ad) (?st1\<lparr>hs_dev := dev, hs_dll := s\<rparr>) = (b, st3)"
    by (metis surj_pair)
  show ?thesis using rest d on_device_same[OF d]
    by (auto simp: answers_def split: if_splits option.splits)
next
  case False
  then obtain st2 where s2: "start_enroll_capture ad (init_action (st\<lparr>async_action := None\<rparr>)) = Inr st2"
    and st': "st' = send (RespEnroll (\<not> ok) False False []) st2"
    using assms by (auto simp: handler_enroll_cb_def go_on_cleanup res_bind_eq_Inr)
  show ?thesis using start_enroll_capture_same[OF s2] st'
    by (simp add: answers_def progress_reply_def init_action_def)
qed

lemma capture_answers:
  assumes "capture_done ad status st = Inr st'" and "async_action st = Some a" and "\<not> async_cancelled st"
  shows "answers a st st'"
proof (cases a)
  case EnrollAction
  obtain ok fin s where e: "enroll_cb ad status (hs_dll st) = (ok, fin, s)" by (metis prod_cases3)
  let ?st1 = "st\<lparr>hs_dll := s, act_done := fin\<rparr>"
  have "handler_enroll_cb ad ok ?st1 = Inr st'"
    using assms e EnrollAction by (simp add: capture_done_def)
  from enroll_answers[OF this] show ?thesis using assms(3) EnrollAction by (simp add: answers_def)
next
  case VerifyAction
  then show ?thesis using assms
    by (auto simp: capture_done_def verify_via_identify_cb_def go_on_cleanup answers_def Let_def
        res_bind_eq_Inr split: prod.splits option.splits if_splits dest!: count_failure_same)
next
  case IdentifyAction
  then show ?thesis using assms
    by (auto simp: capture_done_def handler_identify_cb_def go_on_cleanup answers_def Let_def
        res_bind_eq_Inr split: prod.splits option.splits if_splits dest!: count_failure_same)
qed

section \<open>The ends stay in step\<close>

lemma replies_ok_final:
  assumes "replies_ok (Some a) h (r # rs)"
  shows "(a = EnrollAction \<and> progress_reply r \<and> replies_ok (Some a) h rs) \<or>
    (final_reply a r \<and> h = None \<and> rs = [])"
proof -
  obtain ps l where e: "r # rs = ps @ l" and p: "\<forall>r \<in> set ps. a = EnrollAction \<and> progress_reply r"
    and l: "(h = Some a \<and> l = []) \<or> (h = None \<and> (\<exists>r. l = [r] \<and> final_reply a r))"
    using assms by (auto simp: replies_ok_def)
  show ?thesis
  proof (cases ps)
    case Nil
    then show ?thesis using e l by auto
  next
    case (Cons p ps')
    then have rs: "rs = ps' @ l" and r: "r = p" using e by auto
    have "replies_ok (Some a) h rs"
      unfolding replies_ok_def option.case using p l Cons rs by (intro exI[of _ ps'] exI[of _ l]) auto
    then show ?thesis using Cons p r by auto
  qed
qed

lemma replies_ok_append:
  assumes "replies_ok (Some a) (Some b) rs" and "answers b st st'" and "hs_sent st' = hs_sent st @ [r]"
  shows "replies_ok (Some a) (async_action st') (rs @ [r])"
proof -
  have "b = a" and ps: "\<forall>r \<in> set rs. a = EnrollAction \<and> progress_reply r"
    using assms(1) by (auto simp: replies_ok_def)
  then consider "a = EnrollAction" "progress_reply r" "async_action st' = Some a"
    | "final_reply a r" "async_action st' = None"
    using assms(2,3) by (auto simp: answers_def)
  then show ?thesis
  proof cases
    case 1
    then show ?thesis using ps by (auto simp: replies_ok_def intro!: exI[of _ "rs @ [r]"])
  next
    case 2
    then show ?thesis using ps unfolding replies_ok_def option.case
      by (intro exI[of _ rs] exI[of _ "[r]"]) auto
  qed
qed

lemma request_waits: "request_of k msg \<Longrightarrow> k \<noteq> Idle \<and> \<not> receiving k"
  by (cases k) auto

lemma asks_in_step:
  assumes "asks m m'" and "sys_mod sys = m" and "to_host sys = []" and "to_module sys = []"
    and "async_action (sys_host sys) = None"
  shows "in_step (with_module m' sys)"
  using assms request_waits by (auto simp: asks_def in_step_def with_module_def talk_ok_def)

lemma listens_in_step:
  assumes "listens m m'" and "sys_mod sys = m" and "to_module sys = map reply_bytes rs"
    and "async_action (sys_host sys) \<noteq> None \<longrightarrow> \<not> async_cancelled (sys_host sys)"
    and "talk_ok (waiting m') (async_action (sys_host sys)) (to_host sys) rs"
  shows "in_step (with_module m' sys)"
  using assms by (auto simp: listens_def in_step_def with_module_def)

lemma answers_in_step:
  assumes "answers b (sys_host sys) st" and "in_step sys" and "async_action (sys_host sys) = Some b"
  shows "in_step (with_host st sys)"
proof -
  obtain r where r: "hs_sent st = hs_sent (sys_host sys) @ [r]" using assms(1) by (auto simp: answers_def)
  have nc: "async_action st \<noteq> None \<longrightarrow> \<not> async_cancelled st" using assms(1) by (auto simp: answers_def)
  let ?w = "waiting (sys_mod sys)"
  obtain rs where rs: "to_module sys = map reply_bytes rs" and al: "alive_module (sys_mod sys)"
    and t: "talk_ok ?w (Some b) (to_host sys) rs"
    using assms(2,3) by (auto simp: in_step_def)
  have "talk_ok ?w (async_action st) (to_host sys) (rs @ [r])"
  proof (cases "receiving ?w")
    case True
    then obtain a where a: "capture_of ?w = Some a" by (cases ?w) auto
    then have "replies_ok (Some a) (Some b) rs" using t True by (auto simp: talk_ok_def split: if_splits)
    from replies_ok_append[OF this assms(1) r] show ?thesis using t True a
      by (auto simp: talk_ok_def split: if_splits)
  next
    case False
    then obtain rs' where s: "?w \<noteq> Idle" "rs = Ack # rs'" "to_host sys = []"
      and ok: "replies_ok (capture_of ?w) (Some b) rs'"
      using t by (auto simp: talk_ok_def split: if_splits)
    then obtain a where a: "capture_of ?w = Some a" by (auto simp: replies_ok_def split: option.splits)
    then have "replies_ok (Some a) (Some b) rs'" using ok by simp
    from replies_ok_append[OF this assms(1) r] show ?thesis using s a False by (auto simp: talk_ok_def)
  qed
  then show ?thesis using al nc r rs
    by (auto simp: in_step_def with_host_def intro!: exI[of _ "rs @ [r]"])
qed

text \<open>libfprint and the user, without cancelling, and the host alive.\<close>

fun calm :: "system_event \<Rightarrow> bool" where
  "calm (Action ev) \<longleftrightarrow> is_start ev"
| "calm ev \<longleftrightarrow> True"

definition reports_fine :: "'s system \<Rightarrow> bool" where
  "reports_fine sys \<longleftrightarrow> (\<forall>r \<in> set (reports (sys_mod sys)). \<not> broken_report r)"

lemma reports_fine_simps [simp]:
  "reports_fine (with_host st sys) = reports_fine sys"
  "reports_fine (with_module m sys) = (\<forall>r \<in> set (reports m). \<not> broken_report r)"
  "reports_fine (sys\<lparr>to_host := x\<rparr>) = reports_fine sys"
  "reports_fine (sys\<lparr>to_module := y\<rparr>) = reports_fine sys"
  by (simp_all add: reports_fine_def with_host_def with_module_def)

lemma fine_asks: "asks m m' \<Longrightarrow> \<forall>r \<in> set (reports m). \<not> broken_report r \<Longrightarrow>
    \<forall>r \<in> set (reports m'). \<not> broken_report r"
  by (auto simp: asks_def)

lemma fine_listens: "listens m m' \<Longrightarrow> \<forall>r \<in> set (reports m). \<not> broken_report r \<Longrightarrow>
    \<forall>r \<in> set (reports m'). \<not> broken_report r"
  by (auto simp: listens_def)

lemma host_reads_in_step:
  assumes "in_step sys" and "to_host sys = msg # rest"
    and "handle_msg ad sif name msg (sys_host sys) = Inr (stop, st)"
  shows "in_step (with_host st (sys\<lparr>to_host := rest\<rparr>))"
proof -
  let ?w = "waiting (sys_mod sys)"
  obtain rs where al: "alive_module (sys_mod sys)" and rs: "to_module sys = map reply_bytes rs"
    and t: "talk_ok ?w (async_action (sys_host sys)) (msg # rest) rs"
    using assms(1,2) by (auto simp: in_step_def)
  then have w: "?w \<noteq> Idle" "\<not> receiving ?w" "request_of ?w msg" "async_action (sys_host sys) = None"
      "rest = []" "rs = []"
    by (auto simp: talk_ok_def split: if_splits)
  note a = request_answered[OF assms(3) w(3,4)]
  have "replies_ok (capture_of ?w) (capture_of ?w) []"
    by (simp add: replies_ok_def split: option.split)
  then have "talk_ok ?w (async_action st) [] [Ack]" using a w(1,2) by (simp add: talk_ok_def)
  then have "\<exists>rs. to_module (with_host st (sys\<lparr>to_host := rest\<rparr>)) = map reply_bytes rs \<and>
      talk_ok ?w (async_action st) [] rs"
    using a w(6) rs by (intro exI[of _ "[Ack]"]) (simp add: with_host_def)
  then show ?thesis using a w(5) al by (simp add: in_step_def with_host_def)
qed

lemma module_reads_in_step:
  assumes "in_step sys" and "to_module sys = msg # rest" and "waiting (sys_mod sys) \<noteq> Idle"
    and "reports_fine sys"
  shows "in_step (with_module (module_recv True (Some msg) (sys_mod sys)) (sys\<lparr>to_module := rest\<rparr>)) \<and>
    (\<forall>r \<in> set (reports (module_recv True (Some msg) (sys_mod sys))). \<not> broken_report r)"
proof -
  let ?m = "sys_mod sys" and ?h = "async_action (sys_host sys)"
  let ?w = "waiting ?m" and ?m' = "module_recv True (Some msg) ?m" and ?s = "sys\<lparr>to_module := rest\<rparr>"
  obtain rs where al: "alive_module ?m" and rs: "msg # rest = map reply_bytes rs"
    and nc: "?h \<noteq> None \<longrightarrow> \<not> async_cancelled (sys_host sys)"
    and t: "talk_ok ?w ?h (to_host sys) rs"
    using assms(1) unfolding in_step_def assms(2) by metis
  then obtain r rs' where r: "rs = r # rs'" "msg = reply_bytes r" "rest = map reply_bytes rs'" by auto
  have fine: "\<forall>r \<in> set (reports ?m). \<not> broken_report r" using assms(4) by (simp add: reports_fine_def)
  show ?thesis
  proof (cases "receiving ?w")
    case True
    then obtain a where a: "capture_of ?w = Some a" by (cases ?w) auto
    have h: "to_host sys = []" and ok: "replies_ok (Some a) ?h (r # rs')"
      using t True a assms(3) r by (auto simp: talk_ok_def split: if_splits)
    from replies_ok_final[OF ok] show ?thesis
    proof
      assume p: "a = EnrollAction \<and> progress_reply r \<and> replies_ok (Some a) ?h rs'"
      then obtain ps where "?w = Recv_enroll ps" using a True by (cases ?w) auto
      from recv_progress[OF al this] p r(2) obtain ps' where l: "listens ?m ?m'"
        and w': "waiting ?m' = Recv_enroll ps'" by auto
      have "talk_ok (waiting ?m') ?h (to_host ?s) rs'" using w' p h by (auto simp: talk_ok_def)
      then show ?thesis using listens_in_step[OF l, of ?s rs'] nc r(3) fine_listens[OF l fine] by simp
    next
      assume f: "final_reply a r \<and> ?h = None \<and> rs' = []"
      then have l: "listens ?m ?m'" and w': "waiting ?m' = Idle"
        using recv_final[OF al True a] r(2) by auto
      have "talk_ok (waiting ?m') ?h (to_host ?s) rs'" using w' f h by (simp add: talk_ok_def)
      then show ?thesis using listens_in_step[OF l, of ?s rs'] nc r(3) fine_listens[OF l fine] by simp
    qed
  next
    case False
    then have h: "to_host sys = []" "r = Ack" and ok: "replies_ok (capture_of ?w) ?h rs'"
      using t assms(3) r by (auto simp: talk_ok_def)
    show ?thesis
    proof (cases "capture_of ?w")
      case None
      then have "?h = None" "rs' = []" using ok by (auto simp: replies_ok_def)
      moreover have "asks ?m ?m'" using recv_ack_asks[OF al assms(3) False None] r(2) h(2) by simp
      ultimately show ?thesis using asks_in_step[of ?m ?m' ?s] h r(3) fine_asks[OF _ fine] by auto
    next
      case (Some a)
      note q = recv_ack_listens[OF al False Some, folded h(2) r(2)]
      then have l: "listens ?m ?m'" and w': "receiving (waiting ?m')" "capture_of (waiting ?m') = Some a"
        using r(2) h(2) by auto
      have "waiting ?m' \<noteq> Idle" using w'(1) by auto
      then have "talk_ok (waiting ?m') ?h (to_host ?s) rs'" using w' ok h Some by (simp add: talk_ok_def)
      then show ?thesis using listens_in_step[OF l, of ?s rs'] nc r(3) fine_listens[OF l fine] by simp
    qed
  qed
qed

lemma step_in_step:
  assumes "system_step ad sif name ev sys = Inr sys'" and "in_step sys" and "reports_fine sys" and "calm ev"
  shows "in_step sys' \<and> reports_fine sys'"
proof (cases ev)
  case (Action e)
  have al: "alive_module (sys_mod sys)" using assms(2) by (simp add: in_step_def)
  have st: "is_start e" using assms(4) Action by simp
  have s': "sys' = with_module (module_step True e (sys_mod sys)) sys"
    using assms(1) Action by (simp add: system_step_def)
  show ?thesis
  proof (cases "waiting (sys_mod sys) = Idle")
    case True
    note a = asks_start[OF al True st]
    have "to_host sys = [] \<and> to_module sys = [] \<and> async_action (sys_host sys) = None"
      using assms(2) True by (auto simp: in_step_def talk_ok_def)
    then show ?thesis
      using asks_in_step[OF a, of sys] fine_asks[OF a] assms(3) s'
      by (simp add: reports_fine_def[of sys])
  next
    case False
    then have "module_step True e (sys_mod sys) = sys_mod sys"
      using st by (cases e) (auto simp: module_step_def)
    then show ?thesis using s' assms(2,3) by (simp add: with_module_def)
  qed
next
  case Host_reads
  show ?thesis
  proof (cases "to_host sys")
    case Nil
    then show ?thesis using assms Host_reads by (simp add: system_step_def)
  next
    case (Cons msg rest)
    then obtain stop st where h: "handle_msg ad sif name msg (sys_host sys) = Inr (stop, st)"
      and s': "sys' = with_host st (sys\<lparr>to_host := rest\<rparr>)"
      using assms(1) Host_reads by (auto simp: system_step_def host_step_def res_bind_eq_Inr)
    show ?thesis using host_reads_in_step[OF assms(2) Cons h] s' assms(3) by simp
  qed
next
  case Module_reads
  show ?thesis
    using assms Module_reads module_reads_in_step[OF assms(2)]
    by (cases "to_module sys") (auto simp: system_step_def module_step_def split: if_splits)
next
  case (Capture_ends status)
  then obtain st where c: "capture_done ad status (sys_host sys) = Inr st" and s': "sys' = with_host st sys"
    using assms(1) by (auto simp: system_step_def host_step_def res_bind_eq_Inr)
  show ?thesis
  proof (cases "async_action (sys_host sys)")
    case None
    then have "st = sys_host sys" using c by (simp add: capture_done_def)
    then show ?thesis using s' assms(2,3) by (simp add: with_host_def)
  next
    case (Some b)
    then have "\<not> async_cancelled (sys_host sys)" using assms(2) by (simp add: in_step_def)
    from capture_answers[OF c Some this] show ?thesis
      using answers_in_step[OF _ assms(2) Some] s' assms(3) by simp
  qed
qed

lemma run_in_step:
  "system_run ad sif name evs sys = Inr sys' \<Longrightarrow> in_step sys \<Longrightarrow> reports_fine sys \<Longrightarrow>
   \<forall>ev \<in> set evs. calm ev \<Longrightarrow> in_step sys' \<and> reports_fine sys'"
proof (induction evs arbitrary: sys)
  case (Cons ev evs)
  then show ?case using step_in_step[of ad sif name ev sys] by (fastforce simp: res_bind_eq_Inr)
qed simp

lemma start_in_step: "in_step (system_start dev s)" "reports_fine (system_start dev s)"
  by (simp_all add: in_step_def system_start_def alive_module_def opened_module_def handler_init_def
      talk_ok_def reports_fine_def)

section \<open>Properties\<close>



end
