(* ===== verification/Mirror_Sync.thy ===== *)
theory Mirror_Sync
  imports Protocol
begin

text \<open>
  The list of records the libfprint module keeps (\<open>db_records\<close>) against the store of the driver
  host.  The module asks the host for a template only when its list does not have it, so the list
  has to say what the store holds.  Here it is shown to: for a host with its own storage, and as
  long as a GUID and finger always come with the same template.
\<close>

section \<open>Removing from the mirror\<close>

lemma mirror_remove_map:
  assumes "mirror_wf db"
  shows "mirror_map (mirror_remove g f db) = (mirror_map db)((g, f) := None)"
    and "mirror_wf (mirror_remove g f db)" and "set (mirror_remove g f db) \<subseteq> set db"
proof -
  have keys: "distinct (map mr_key db)" and ids: "distinct (map mr_id db)"
    using assms by (auto simp: mirror_wf_def)
  show wf: "mirror_wf (mirror_remove g f db)"
    using keys ids
    by (auto simp: mirror_remove_def mirror_wf_def distinct_map_remove_index_fast split: option.split)
  show "set (mirror_remove g f db) \<subseteq> set db"
    by (auto simp: mirror_remove_def split: option.split dest: set_remove_index_fast_subset[THEN subsetD])
  have mem: "r \<in> set (mirror_remove g f db) \<longleftrightarrow> r \<in> set db \<and> mr_key r \<noteq> (g, f)" for r
  proof (cases "find_index (\<lambda>r. mr_guid r = g \<and> mr_finger r = f) db")
    case None
    then have "mirror_remove g f db = db" by (simp add: mirror_remove_def)
    moreover have "\<forall>r \<in> set db. \<not> (mr_guid r = g \<and> mr_finger r = f)"
      using None by (simp only: find_index_None_iff)
    ultimately show ?thesis by (auto simp: mr_key_def)
  next
    case (Some i)
    have i: "i < length db" "mr_key (db ! i) = (g, f)"
      using find_index_SomeD[OF Some] by (auto simp: mr_key_def)
    have "distinct db" using keys by (simp add: distinct_map)
    then have s: "set (mirror_remove g f db) = set db - {db ! i}"
      using Some i(1) by (simp add: mirror_remove_def set_remove_index_fast)
    have "r = db ! i \<longleftrightarrow> mr_key r = (g, f)" if "r \<in> set db"
      using that keys i inj_onD[of mr_key "set db" r "db ! i"] by (auto simp: distinct_map)
    then show ?thesis using s by auto
  qed
  have wk: "distinct (map mr_key (mirror_remove g f db))" using wf by (simp add: mirror_wf_def)
  show "mirror_map (mirror_remove g f db) = (mirror_map db)((g, f) := None)"
  proof
    fix k
    have "mirror_map (mirror_remove g f db) k = Some v \<longleftrightarrow> ((mirror_map db)((g, f) := None)) k = Some v" for v
      using mirror_map_Some[OF wk] mirror_map_Some[OF keys] mem by auto
    then show "mirror_map (mirror_remove g f db) k = ((mirror_map db)((g, f) := None)) k"
      by (metis option.exhaust)
  qed
qed

section \<open>Coherence\<close>

text \<open>
  \<open>tmpl\<close> is the template of a GUID and finger.  A print is sound if its record is one of these, of a
  finger the driver knows.
\<close>

type_synonym templates = "guid \<times> u32 \<Rightarrow> byte list"

definition sound_print :: "templates \<Rightarrow> fp_print \<Rightarrow> bool" where
  "sound_print tmpl p \<longleftrightarrow> (case parse_print_data p of
     None \<Rightarrow> True | Some (g, f, d) \<Rightarrow> f \<noteq> TUDOR_FINGER_ANY \<and> d = tmpl (g, f))"

definition sound_record :: "templates \<Rightarrow> mod_record \<Rightarrow> bool" where
  "sound_record tmpl r \<longleftrightarrow> mr_finger r \<noteq> TUDOR_FINGER_ANY \<and> mr_data r = tmpl (mr_key r)"

text \<open>Actions that touch the store only through the module: everything but an enrollment.\<close>

fun tame :: "templates \<Rightarrow> system_event \<Rightarrow> bool" where
  "tame tmpl (Action ev) \<longleftrightarrow> (case ev of
      Start_verify p \<Rightarrow> sound_print tmpl p
    | Start_identify ps \<Rightarrow> (\<forall>p \<in> set ps. sound_print tmpl p)
    | Start_delete p \<Rightarrow> sound_print tmpl p
    | Start_clear \<Rightarrow> True
    | _ \<Rightarrow> False)"
| "tame tmpl ev \<longleftrightarrow> True"

text \<open>A record the module is loading is sound, and its object is new.\<close>

fun pending_ok :: "templates \<Rightarrow> module \<Rightarrow> bool" where
  "pending_ok tmpl m \<longleftrightarrow> (case waiting m of
      Ack_load_verify rec g f \<Rightarrow> sound_record tmpl rec \<and> mr_id rec < next_obj m \<and>
        (\<forall>r \<in> set (db_records m). mr_id r \<noteq> mr_id rec)
    | Ack_load_identify rec ps \<Rightarrow> sound_record tmpl rec \<and> mr_id rec < next_obj m \<and>
        (\<forall>r \<in> set (db_records m). mr_id r \<noteq> mr_id rec) \<and>
        (\<forall>x \<in> set (ip_prints ps). sound_print tmpl (fst x))
    | Ack_delete g f \<Rightarrow> f \<noteq> TUDOR_FINGER_ANY
    | Ack_enroll ps \<Rightarrow> False
    | Recv_enroll ps \<Rightarrow> False
    | _ \<Rightarrow> True)"

definition mirror_ok :: "templates \<Rightarrow> module \<Rightarrow> bool" where
  "mirror_ok tmpl m \<longleftrightarrow> mirror_wf (db_records m) \<and>
     (\<forall>r \<in> set (db_records m). sound_record tmpl r \<and> mr_id r < next_obj m)"

text \<open>What the host has done to its store, and the module not yet to its list, once a request is read.\<close>

fun effect_of :: "pending \<Rightarrow> (guid \<times> u32 \<rightharpoonup> byte list) \<Rightarrow> (guid \<times> u32 \<rightharpoonup> byte list)" where
  "effect_of (Ack_load_verify rec g f) M = M(mr_key rec \<mapsto> mr_data rec)"
| "effect_of (Ack_load_identify rec ps) M = M(mr_key rec \<mapsto> mr_data rec)"
| "effect_of (Ack_delete g f) M = M((g, f) := None)"
| "effect_of Ack_clear M = Map.empty"
| "effect_of k M = M"

definition coherent :: "templates \<Rightarrow> 's system \<Rightarrow> bool" where
  "coherent tmpl sys \<longleftrightarrow>
     store_inv (hs_dev (sys_host sys)) \<and> \<not> use_dll_storage (hs_dev (sys_host sys)) \<and>
     mirror_ok tmpl (sys_mod sys) \<and> pending_ok tmpl (sys_mod sys) \<and>
     store_map (hs_dev (sys_host sys)) =
       (if to_host sys = [] then effect_of (waiting (sys_mod sys)) else (\<lambda>M. M))
         (mirror_map (db_records (sys_mod sys)))"

section \<open>Steps of the module\<close>

text \<open>A callback that only asks: the list is as before, and what it waits for is sound.\<close>

definition plans :: "templates \<Rightarrow> module \<Rightarrow> module \<Rightarrow> bool" where
  "plans tmpl m m' \<longleftrightarrow> db_records m' = db_records m \<and> next_obj m \<le> next_obj m' \<and> pending_ok tmpl m'"

lemma sound_new_record:
  assumes "sound_print tmpl p" and "parse_print_data p = Some (g, f, d)"
    and "new_record g f d n m = (rec, m1)"
  shows "sound_record tmpl rec" and "m1 = m\<lparr>next_obj := Suc (next_obj m)\<rparr>" and "mr_id rec = next_obj m"
  using assms by (auto simp: sound_print_def sound_record_def new_record_def mr_key_def)

lemma load_record_same:
  "load_record io rec m = (r, m') \<Longrightarrow>
   db_records m' = db_records m \<and> next_obj m' = next_obj m \<and> waiting m' = waiting m"
  by (auto simp: load_record_def send_ipc_msg_def split: option.splits if_splits)

lemma send_acked_plans:
  assumes "db_records m1 = db_records m" and "next_obj m \<le> next_obj m1"
    and "pending_ok tmpl (m1\<lparr>waiting := k\<rparr>)"
  shows "plans tmpl m (send_acked io msg k fail m1)"
  using assms by (auto simp: plans_def send_acked_def send_ipc_msg_def module_ops split: pending.splits)

lemma end_plans:
  "db_records m1 = db_records m \<Longrightarrow> next_obj m \<le> next_obj m1 \<Longrightarrow> plans tmpl m (end_action r m1)"
  by (simp add: plans_def module_ops)

lemma fresh_id: "mirror_ok tmpl m \<Longrightarrow> r \<in> set (db_records m) \<Longrightarrow> next_obj m \<le> n \<Longrightarrow> mr_id r \<noteq> n"
  by (auto simp: mirror_ok_def)

lemma set_print_rec_sound:
  "\<forall>x \<in> set (ip_prints ps). sound_print tmpl (fst x) \<Longrightarrow> i < length (ip_prints ps) \<Longrightarrow>
   \<forall>x \<in> set (ip_prints (set_print_rec i r ps)). sound_print tmpl (fst x)"
  by (auto simp: set_print_rec_def dest!: set_update_subset_insert[THEN subsetD] nth_mem)

lemma load_next_print_plans:
  assumes "mirror_ok tmpl m"
  shows "db_records m1 = db_records m \<Longrightarrow> next_obj m \<le> next_obj m1 \<Longrightarrow>
    \<forall>x \<in> set (ip_prints ps). sound_print tmpl (fst x) \<Longrightarrow> plans tmpl m (load_next_print io ps m1)"
proof (induction io ps m1 rule: load_next_print.induct)
  case (1 io ps m1)
  show ?case
  proof (cases "ip_next ps \<ge> length (ip_prints ps)")
    case True
    then show ?thesis using send_acked_plans[of m1 m] 1(2,3)
      by (subst load_next_print.simps) simp
  next
    case False
    let ?p = "fst (ip_prints ps ! ip_next ps)"
    have sp: "sound_print tmpl ?p" using 1(4) False by auto
    show ?thesis
    proof (cases "parse_print_data ?p")
      case None
      then show ?thesis using False end_plans[OF 1(2,3)] by (subst load_next_print.simps) (simp add: Let_def)
    next
      case (Some t)
      obtain g f d where t: "t = (g, f, d)" by (metis prod_cases3)
      obtain rec m2 where n: "new_record g f d (print_id ?p) m1 = (rec, m2)" by (metis surj_pair)
      obtain r m3 where l: "load_record io rec m2 = (r, m3)" by (metis surj_pair)
      note sn = sound_new_record[OF sp Some[unfolded t] n] and ls = load_record_same[OF l]
      have db: "db_records m3 = db_records m" "next_obj m \<le> next_obj m3" "mr_id rec < next_obj m3"
        using 1(2,3) sn ls by auto
      have new: "\<forall>r \<in> set (db_records m3). mr_id r \<noteq> mr_id rec"
        using fresh_id[OF assms] db sn(3) 1(3) by auto
      have ih: "plans tmpl m (load_next_print io (set_print_rec (ip_next ps) x ps) m3)" if "r = Loaded x" for x
        by (rule 1(1)[OF False refl Some t[symmetric] refl n[symmetric] l[symmetric] that db(1,2)
              set_print_rec_sound[OF 1(4)]]) (use False in simp)
      show ?thesis
      proof (cases r)
        case (Loaded x)
        then show ?thesis using False Some t n l ih by (subst load_next_print.simps) (simp add: Let_def)
      next
        case Load_sent
        then show ?thesis using False Some t n l db new sn(1) 1(4)
          by (subst load_next_print.simps) (simp add: Let_def plans_def)
      next
        case (Load_failed e)
        then show ?thesis using False Some t n l end_plans[OF db(1,2)]
          by (subst load_next_print.simps) (simp add: Let_def)
      qed
    qed
  qed
qed

lemma verify_plans:
  assumes "mirror_ok tmpl m" and "waiting m = Idle" and "sound_print tmpl p"
  shows "plans tmpl m (fpi_device_tudor_verify io p m)"
proof -
  let ?m = "m\<lparr>cancellable := False\<rparr>"
  have rep: "plans tmpl m (report r ?m)" for r using assms(2) by (simp add: plans_def report_def)
  show ?thesis
  proof (cases "proc_dead ?m \<or> parse_print_data p = None")
    case True
    then show ?thesis using rep by (auto simp: fpi_device_tudor_verify_def Let_def)
  next
    case False
    then obtain g f d where p: "parse_print_data p = Some (g, f, d)" by (metis not_None_eq prod_cases3)
    obtain rec m1 where n: "new_record g f d (print_id p) ?m = (rec, m1)" by (metis surj_pair)
    obtain r m2 where l: "load_record io rec m1 = (r, m2)" by (metis surj_pair)
    note sn = sound_new_record[OF assms(3) p n] and ls = load_record_same[OF l]
    have db: "db_records m2 = db_records m" "next_obj m \<le> next_obj m2" "mr_id rec < next_obj m2"
      using sn ls by auto
    have new: "\<forall>r \<in> set (db_records m2). mr_id r \<noteq> mr_id rec"
      using fresh_id[OF assms(1)] db sn(3) by auto
    have v: "plans tmpl m (verify_loaded io g f m2)"
      unfolding verify_loaded_def by (rule send_acked_plans[OF db(1,2)]) simp
    have "plans tmpl m (m2\<lparr>waiting := Ack_load_verify rec g f\<rparr>)"
      using db new sn(1) by (simp add: plans_def)
    then show ?thesis using False p n l v end_plans[OF db(1,2)]
      by (auto simp: fpi_device_tudor_verify_def Let_def split: load_result.split)
  qed
qed

lemma start_plans:
  assumes "mirror_ok tmpl m" and "waiting m = Idle" and "tame tmpl (Action ev)"
  shows "plans tmpl m (module_step True ev m)"
proof -
  let ?m = "m\<lparr>cancellable := False\<rparr>"
  have rep: "plans tmpl m (report r ?m)" for r using assms(2) by (simp add: plans_def report_def)
  have same: "db_records ?m = db_records m" "next_obj m \<le> next_obj ?m" by simp_all
  show ?thesis
  proof (cases ev)
    case (Start_delete p)
    then show ?thesis using assms rep send_acked_plans[OF same]
      by (auto simp: module_step_def fpi_device_tudor_delete_def Let_def sound_print_def split: option.split)
  next
    case (Start_identify ps)
    then show ?thesis using assms rep load_next_print_plans[OF assms(1) same]
      by (auto simp: module_step_def fpi_device_tudor_identify_def Let_def)
  next
    case Start_clear
    then show ?thesis using assms(2) rep send_acked_plans[OF same]
      by (auto simp: module_step_def fpi_device_clear_storage_def Let_def)
  next
    case (Start_verify p)
    then show ?thesis using assms verify_plans[OF assms(1,2)] by (simp add: module_step_def)
  qed (use assms(3) in simp_all)
qed

lemma insert_loop_set: "set (insert_loop rec db i) \<subseteq> insert rec (set db)"
proof (induction rec db i rule: insert_loop.induct)
  case (1 rec db i)
  have "set (remove_index_fast i db) \<subseteq> set db" by (rule set_remove_index_fast_subset)
  then show ?case using 1 by (subst insert_loop.simps) (auto simp: Let_def)
qed

lemma insert_coherent:
  assumes "mirror_ok tmpl m" and "sound_record tmpl rec" and "mr_id rec < next_obj m"
    and "\<forall>r \<in> set (db_records m). mr_id r \<noteq> mr_id rec"
  shows "mirror_ok tmpl (insert_db_record rec m)"
    and "mirror_map (db_records (insert_db_record rec m)) =
      (mirror_map (db_records m))(mr_key rec \<mapsto> mr_data rec)"
proof -
  have same: "\<forall>r \<in> set (db_records m). mr_id r = mr_id rec \<longrightarrow> r = rec" using assms(4) by blast
  have agree: "\<forall>r \<in> set (db_records m). mr_key r = mr_key rec \<longrightarrow> mr_data r = mr_data rec"
    using assms(1,2) by (auto simp: mirror_ok_def sound_record_def)
  have wf: "mirror_wf (db_records m)" using assms(1) by (simp add: mirror_ok_def)
  note i = insert_db_map[OF wf same agree]
  show "mirror_map (db_records (insert_db_record rec m)) =
      (mirror_map (db_records m))(mr_key rec \<mapsto> mr_data rec)"
    using i(1) by (simp add: insert_db_record_def)
  have "sound_record tmpl r \<and> mr_id r < next_obj m"
    if "r \<in> set (insert_loop rec (db_records m) 0)" for r
    using that insert_loop_set[of rec "db_records m" 0] assms by (auto simp: mirror_ok_def)
  then show "mirror_ok tmpl (insert_db_record rec m)"
    using i(2) by (simp add: mirror_ok_def insert_db_record_def)
qed

lemma mirror_ok_plans:
  "plans tmpl m m' \<Longrightarrow> mirror_ok tmpl m \<Longrightarrow> mirror_ok tmpl m'"
  by (auto simp: plans_def mirror_ok_def)

text \<open>Reading a message makes the list follow what the host has done.\<close>

definition follows :: "templates \<Rightarrow> module \<Rightarrow> module \<Rightarrow> bool" where
  "follows tmpl m m' \<longleftrightarrow> mirror_ok tmpl m' \<and> pending_ok tmpl m' \<and>
     mirror_map (db_records m') = effect_of (waiting m) (mirror_map (db_records m))"

lemma follows_same:
  "mirror_ok tmpl m \<Longrightarrow> plans tmpl m m' \<Longrightarrow> (\<And>M. effect_of (waiting m) M = M) \<Longrightarrow> follows tmpl m m'"
  using mirror_ok_plans by (simp add: follows_def plans_def)

lemma ack_follows:
  assumes "alive_module m" and "mirror_ok tmpl m" and "pending_ok tmpl m" and "waiting m \<noteq> Idle"
    and "\<not> receiving (waiting m)"
  shows "follows tmpl m (module_recv True (Some (reply_bytes Ack)) m)"
proof (cases "waiting m")
  case (Ack_load_verify rec g f)
  let ?m1 = "insert_db_record rec m"
  have "plans tmpl ?m1 (verify_loaded True g f ?m1)"
    unfolding verify_loaded_def by (rule send_acked_plans) simp_all
  moreover have "mirror_ok tmpl ?m1" "mirror_map (db_records ?m1) =
      (mirror_map (db_records m))(mr_key rec \<mapsto> mr_data rec)"
    using insert_coherent[OF assms(2)] assms(3) Ack_load_verify by auto
  ultimately show ?thesis using Ack_load_verify mirror_ok_plans[of tmpl ?m1]
    by (auto simp: follows_def module_recv_def ack_received[OF assms(1)] plans_def simp del: reply_bytes.simps)
next
  case (Ack_load_identify rec ps)
  let ?m1 = "insert_db_record rec m" and ?ps = "set_print_rec (ip_next ps) rec ps"
  have ok: "mirror_ok tmpl ?m1" "mirror_map (db_records ?m1) =
      (mirror_map (db_records m))(mr_key rec \<mapsto> mr_data rec)"
    using insert_coherent[OF assms(2)] assms(3) Ack_load_identify by auto
  have snd: "\<forall>x \<in> set (ip_prints ps). sound_print tmpl (fst x)"
    using assms(3) Ack_load_identify by simp
  have "\<forall>x \<in> set (ip_prints ?ps). sound_print tmpl (fst x)"
  proof (cases "ip_next ps < length (ip_prints ps)")
    case True
    then show ?thesis by (rule set_print_rec_sound[OF snd])
  next
    case False
    then show ?thesis using snd by (simp add: set_print_rec_def list_update_beyond)
  qed
  then have "plans tmpl ?m1 (load_next_print True ?ps ?m1)"
    by (intro load_next_print_plans[OF ok(1)]) simp_all
  then show ?thesis using Ack_load_identify ok mirror_ok_plans[of tmpl ?m1]
    by (auto simp: follows_def module_recv_def ack_received[OF assms(1)] plans_def simp del: reply_bytes.simps)
next
  case (Ack_delete g f)
  have wf: "mirror_wf (db_records m)" using assms(2) by (simp add: mirror_ok_def)
  note r = mirror_remove_map[OF wf, of g f]
  have "\<forall>r \<in> set (mirror_remove g f (db_records m)). sound_record tmpl r \<and> mr_id r < next_obj m"
    using r(3) assms(2) by (auto simp: mirror_ok_def)
  then show ?thesis using Ack_delete r(1,2)
    by (simp add: follows_def module_recv_def ack_received[OF assms(1)] delete_acked_cb_def module_ops
        mirror_ok_def del: reply_bytes.simps)
next
  case Ack_clear
  then show ?thesis
    by (simp add: follows_def module_recv_def ack_received[OF assms(1)] clear_storage_acked_cb_def module_ops
        mirror_ok_def mirror_wf_def mirror_map_def del: reply_bytes.simps)
next
  case Ack_verify
  then show ?thesis using assms(2)
    by (simp add: follows_def module_recv_def ack_received[OF assms(1)] await_result_def module_ops
        mirror_ok_def del: reply_bytes.simps)
next
  case (Ack_identify ps)
  then show ?thesis using assms(2)
    by (simp add: follows_def module_recv_def ack_received[OF assms(1)] await_result_def module_ops
        mirror_ok_def del: reply_bytes.simps)
qed (use assms(3-5) in simp_all)

lemma result_follows:
  assumes "mirror_ok tmpl m" and "pending_ok tmpl m" and "receiving (waiting m)"
  shows "follows tmpl m (module_recv True (Some msg) m)"
proof -
  have e: "plans tmpl m (end_action r m)" "plans tmpl m (end_action r (report q m))" for r q
    by (simp_all add: plans_def module_ops)
  show ?thesis
  proof (cases "waiting m")
    case Recv_verify
    have "plans tmpl m (verify_recv_cb res m)" for res
      unfolding verify_recv_cb_def using e
      by (simp split: sum.split option.split ipc_msg_type.split)
    then show ?thesis using Recv_verify follows_same[OF assms(1)] by (simp add: module_recv_def Let_def)
  next
    case (Recv_identify ps)
    have "plans tmpl m (identify_recv_cb ps res m)" for res
      unfolding identify_recv_cb_def using e
      by (simp split: sum.split option.split ipc_msg_type.split)
    then show ?thesis using Recv_identify follows_same[OF assms(1)] by (simp add: module_recv_def Let_def)
  qed (use assms(2,3) in simp_all)
qed

section \<open>Steps of the host\<close>

lemma clear_records_handled:
  assumes "store_inv (hs_dev st)" and "\<not> use_dll_storage (hs_dev st)" and "async_action st = None"
  shows "\<exists>dev'. handle_msg ad sif name (simple_msg IPC_MSG_CLEAR_RECORDS) st =
      Inr (False, send Ack (st\<lparr>hs_dev := dev'\<rparr>)) \<and>
    store_map dev' = Map.empty \<and> store_inv dev' \<and> device_flags dev' = device_flags (hs_dev st)"
proof -
  obtain n dev' where w: "wipe_records_mem (hs_dev st) None TUDOR_FINGER_ANY = (n, dev')" by fastforce
  have "handle_msg ad sif name (simple_msg IPC_MSG_CLEAR_RECORDS) st =
      Inr (False, send Ack (st\<lparr>hs_dev := dev'\<rparr>))"
    using assms(2,3) w
    by (simp add: handle_msg_def ipc_peek_msg_def check_in_action_def recv_simple_msg hs_wipe_def
        tudor_wipe_records_def del: msg_code.simps)
  moreover have "store_map dev' = Map.empty"
    using wipe_records_map(1)[OF assms(1) w] by (simp add: key_matches_def)
  ultimately show ?thesis using wipe_records_mem_flags[OF assms(1) w] by blast
qed

lemma start_identify_dev:
  "start_identify ad act st = Inr st' \<Longrightarrow> hs_dev st' = hs_dev st"
  by (auto simp: start_identify_def on_device_def dest: identify_dev split: if_splits prod.splits)

lemma request_effect:
  assumes "handle_msg ad sif name msg (sys_host sys) = Inr (stop, st)" and "request_of (waiting m) msg"
    and "async_action (sys_host sys) = None" and "pending_ok tmpl m"
    and "store_inv (hs_dev (sys_host sys))" and "\<not> use_dll_storage (hs_dev (sys_host sys))"
  shows "store_map (hs_dev st) = effect_of (waiting m) (store_map (hs_dev (sys_host sys))) \<and>
    store_inv (hs_dev st) \<and> \<not> use_dll_storage (hs_dev st)"
proof -
  let ?h = "sys_host sys"
  have load: ?thesis
    if "msg = key_msg IPC_MSG_ADD_RECORD (mr_guid rec) (mr_finger rec) (mr_data rec)"
      "length (mr_data rec) \<le> IPC_MAX_RECORD_SIZE" "sound_record tmpl rec"
      "\<And>M. effect_of (waiting m) M = M(mr_key rec \<mapsto> mr_data rec)" for rec
    using add_record_handled[OF assms(5,6,3) that(2), of "mr_finger rec" ad sif name "mr_guid rec"] that assms(1,6)
    by (auto simp: sound_record_def mr_key_def device_flags_def)
  show ?thesis
  proof (cases "waiting m")
    case (Ack_delete g f)
    have "{k. \<not> key_matches (Some g) f k} = - {(g, f)}"
      using assms(4) Ack_delete by (auto simp: key_matches_def)
    then have "M |` {k. \<not> key_matches (Some g) f k} = M((g, f) := None)" for M :: "guid \<times> u32 \<rightharpoonup> byte list"
      by (simp add: restrict_complement_singleton_eq)
    then show ?thesis
      using del_record_handled[OF assms(5,6,3), of ad sif name g f] assms(1,2,6) Ack_delete
      by (auto simp: device_flags_def)
  next
    case Ack_clear
    then show ?thesis using clear_records_handled[OF assms(5,6,3), of ad sif name] assms(1,2,6)
      by (auto simp: device_flags_def)
  next
    case Ack_verify
    then show ?thesis using assms
      by (auto simp: handle_msg_def ipc_peek_msg_def check_in_action_def recv_key_msg res_bind_eq_Inr
          init_action_def simp del: msg_code.simps dest!: start_identify_dev)
  next
    case (Ack_identify ps)
    then show ?thesis using assms
      by (auto simp: handle_msg_def ipc_peek_msg_def check_in_action_def recv_simple_msg res_bind_eq_Inr
          init_action_def simp del: msg_code.simps dest!: start_identify_dev)
  next
    case (Ack_load_verify rec g f)
    then show ?thesis using load[of rec] assms(2,4) by auto
  next
    case (Ack_load_identify rec ps)
    then show ?thesis using load[of rec] assms(2,4) by auto
  qed (use assms(2,4) in simp_all)
qed

lemma capture_same_dev:
  assumes "capture_done ad status st = Inr st'" and "async_action st \<noteq> Some EnrollAction"
  shows "hs_dev st' = hs_dev st"
proof -
  have c: "hs_dev st2 = hs_dev st1" if "cleanup_action st1 = (b, st2)" for st1 st2 :: "'a handler_state" and b
    using cleanup_action_cases(3)[OF that] .
  have f: "hs_dev st2 = hs_dev st1" if "count_failure st1 = Inr st2" for st1 st2 :: "'a handler_state"
    using that by (auto simp: count_failure_def split: if_splits)
  have v: "hs_dev st2 = hs_dev st1" if "verify_via_identify_cb ok st1 = Inr st2" for ok st1 and st2 :: "'a handler_state"
    using that by (auto simp: verify_via_identify_cb_def res_bind_eq_Inr dest!: c f split: prod.splits if_splits)
  have i: "hs_dev st2 = hs_dev st1" if "handler_identify_cb ok st1 = Inr st2" for ok st1 and st2 :: "'a handler_state"
    using that by (auto simp: handler_identify_cb_def res_bind_eq_Inr dest!: c f split: prod.splits if_splits)
  show ?thesis
  proof (cases "async_action st")
    case None
    then show ?thesis using assms(1) by (simp add: capture_done_def)
  next
    case (Some act)
    then show ?thesis using assms
      by (cases act) (auto simp: capture_done_def Let_def split: prod.splits option.splits dest!: v i)
  qed
qed

section \<open>The list and the store stay together\<close>

lemma coherent_with_module:
  assumes "coherent tmpl sys" and "to_host sys = []" and "follows tmpl (sys_mod sys) m'"
    and "asks (sys_mod sys) m' \<or> (listens (sys_mod sys) m' \<and> (receiving (waiting m') \<or> waiting m' = Idle))"
  shows "coherent tmpl (with_module m' sys)"
proof -
  have e: "mod_sent m' = mod_sent (sys_mod sys) \<Longrightarrow> effect_of (waiting m') M = M" for M
    using assms(4) by (cases "waiting m'") (auto simp: asks_def listens_def)
  have l: "length (mod_sent (sys_mod sys)) \<le> length (mod_sent m')"
    and t: "take (length (mod_sent (sys_mod sys))) (mod_sent m') = mod_sent (sys_mod sys)"
    using assms(4) by (auto simp: asks_def listens_def)
  have "drop (length (mod_sent (sys_mod sys))) (mod_sent m') = [] \<Longrightarrow> mod_sent m' = mod_sent (sys_mod sys)"
    using l t by simp
  then show ?thesis using assms(1-3) e by (auto simp: coherent_def with_module_def follows_def)
qed

lemma coherent_host:
  assumes "coherent tmpl sys" and "hs_dev st = hs_dev (sys_host sys)"
  shows "coherent tmpl (with_host st sys)"
  using assms by (simp add: coherent_def with_host_def)

lemma tame_calm: "tame tmpl ev \<Longrightarrow> calm ev"
  by (cases ev) (auto split: module_event.splits)

lemma module_reads_coherent:
  assumes "in_step sys" and "coherent tmpl sys" and "to_module sys = msg # rest"
    and "waiting (sys_mod sys) \<noteq> Idle"
  shows "coherent tmpl (with_module (module_recv True (Some msg) (sys_mod sys)) (sys\<lparr>to_module := rest\<rparr>))"
proof -
  let ?m = "sys_mod sys" and ?s = "sys\<lparr>to_module := rest\<rparr>"
  let ?m' = "module_recv True (Some msg) ?m" and ?h = "async_action (sys_host sys)"
  obtain rs where al: "alive_module ?m" and rs: "msg # rest = map reply_bytes rs"
    and t: "talk_ok (waiting ?m) ?h (to_host sys) rs"
    using assms(1) unfolding in_step_def assms(3) by metis
  then obtain r rs' where r: "rs = r # rs'" "msg = reply_bytes r" by auto
  have ok: "mirror_ok tmpl ?m" "pending_ok tmpl ?m" using assms(2) by (auto simp: coherent_def)
  have cs: "coherent tmpl ?s" using assms(2) by (simp add: coherent_def)
  have h: "to_host sys = []" using t r assms(4) by (auto simp: talk_ok_def split: if_splits)
  show ?thesis
  proof (cases "receiving (waiting ?m)")
    case True
    then obtain a where a: "capture_of (waiting ?m) = Some a" "a \<noteq> EnrollAction"
      using ok(2) by (cases "waiting ?m") auto
    have "replies_ok (Some a) ?h (r # rs')"
      using t True a assms(4) r by (auto simp: talk_ok_def split: if_splits)
    from replies_ok_final[OF this] a(2) have "final_reply a r" by auto
    then show ?thesis
      using coherent_with_module[OF cs, of ?m'] recv_final[OF al True a(1)] h r(2)
        result_follows[OF ok True] by simp
  next
    case False
    then have "r = Ack" using t assms(4) r by (auto simp: talk_ok_def split: if_splits)
    then have m: "msg = reply_bytes Ack" using r(2) by simp
    have f: "follows tmpl ?m ?m'" using ack_follows[OF al ok assms(4) False] m by simp
    have "asks ?m ?m' \<or> (listens ?m ?m' \<and> receiving (waiting ?m'))"
      using recv_ack_asks[OF al assms(4) False] recv_ack_listens[OF al False] m
      by (cases "capture_of (waiting ?m)") (auto simp del: reply_bytes.simps)
    then show ?thesis using coherent_with_module[OF cs, of ?m'] f h by auto
  qed
qed

lemma host_reads_coherent:
  assumes "in_step sys" and "coherent tmpl sys" and "to_host sys = msg # rest"
    and "handle_msg ad sif name msg (sys_host sys) = Inr (stop, st)"
  shows "coherent tmpl (with_host st (sys\<lparr>to_host := rest\<rparr>))"
proof -
  let ?w = "waiting (sys_mod sys)"
  obtain rs where t: "talk_ok ?w (async_action (sys_host sys)) (msg # rest) rs"
    using assms(1,3) by (auto simp: in_step_def)
  then have w: "request_of ?w msg" "async_action (sys_host sys) = None" "rest = []"
    by (auto simp: talk_ok_def split: if_splits)
  have c: "pending_ok tmpl (sys_mod sys)" "store_inv (hs_dev (sys_host sys))"
      "\<not> use_dll_storage (hs_dev (sys_host sys))"
    using assms(2) by (auto simp: coherent_def)
  show ?thesis using request_effect[OF assms(4) w(1,2) c] assms(2,3) w(3)
    by (auto simp: coherent_def with_host_def)
qed

lemma step_coherent:
  assumes "system_step ad sif name ev sys = Inr sys'" and "in_step sys" and "coherent tmpl sys"
    and "tame tmpl ev"
  shows "coherent tmpl sys'"
proof (cases ev)
  case (Action e)
  have s': "sys' = with_module (module_step True e (sys_mod sys)) sys"
    using assms(1) Action by (simp add: system_step_def)
  have ok: "mirror_ok tmpl (sys_mod sys)" using assms(3) by (simp add: coherent_def)
  have st: "is_start e" using tame_calm[OF assms(4)] Action by simp
  show ?thesis
  proof (cases "waiting (sys_mod sys) = Idle")
    case True
    have al: "alive_module (sys_mod sys)" and h: "to_host sys = []"
      using assms(2) True by (auto simp: in_step_def talk_ok_def)
    have "plans tmpl (sys_mod sys) (module_step True e (sys_mod sys))"
      using start_plans[OF ok True] assms(4) Action by simp
    then have "follows tmpl (sys_mod sys) (module_step True e (sys_mod sys))"
      using follows_same[OF ok] True by simp
    then show ?thesis using coherent_with_module[OF assms(3) h] asks_start[OF al True st] s' by simp
  next
    case False
    then have "module_step True e (sys_mod sys) = sys_mod sys"
      using st by (cases e) (auto simp: module_step_def)
    then show ?thesis using s' assms(3) by (simp add: with_module_def)
  qed
next
  case Host_reads
  then show ?thesis using assms host_reads_coherent[OF assms(2,3)]
    by (cases "to_host sys") (auto simp: system_step_def host_step_def res_bind_eq_Inr)
next
  case Module_reads
  then show ?thesis using assms module_reads_coherent[OF assms(2,3)]
    by (cases "to_module sys") (auto simp: system_step_def module_step_def split: if_splits)
next
  case (Capture_ends status)
  then obtain st where c: "capture_done ad status (sys_host sys) = Inr st" and s': "sys' = with_host st sys"
    using assms(1) by (auto simp: system_step_def host_step_def res_bind_eq_Inr)
  have "async_action (sys_host sys) \<noteq> Some EnrollAction"
  proof
    assume e: "async_action (sys_host sys) = Some EnrollAction"
    then obtain rs where "talk_ok (waiting (sys_mod sys)) (Some EnrollAction) (to_host sys) rs"
      using assms(2) by (auto simp: in_step_def)
    then have "capture_of (waiting (sys_mod sys)) = Some EnrollAction"
      by (auto simp: talk_ok_def replies_ok_def split: if_splits option.splits)
    moreover have "pending_ok tmpl (sys_mod sys)" using assms(3) by (simp add: coherent_def)
    ultimately show False by (cases "waiting (sys_mod sys)") auto
  qed
  from capture_same_dev[OF c this] show ?thesis using coherent_host[OF assms(3)] s' by simp
qed

lemma run_coherent:
  "system_run ad sif name evs sys = Inr sys' \<Longrightarrow> in_step sys \<Longrightarrow> reports_fine sys \<Longrightarrow>
   coherent tmpl sys \<Longrightarrow> \<forall>ev \<in> set evs. tame tmpl ev \<Longrightarrow> coherent tmpl sys'"
proof (induction evs arbitrary: sys)
  case (Cons ev evs)
  then obtain sys1 where s: "system_step ad sif name ev sys = Inr sys1"
    and r: "system_run ad sif name evs sys1 = Inr sys'" by (auto simp: res_bind_eq_Inr)
  have t: "tame tmpl ev" using Cons.prems(5) by simp
  note i = step_in_step[OF s Cons.prems(2,3) tame_calm[OF t]]
  show ?case using Cons.IH[OF r] i step_coherent[OF s Cons.prems(2,4) t] Cons.prems(5) by simp
qed simp

section \<open>A verification, message by message\<close>

lemma verify_asks_load:
  assumes "alive_module m" and "waiting m = Idle" and "parse_print_data p = Some (g, f, d)"
    and "find (rec_matches \<lparr>mr_id = next_obj m, mr_guid = g, mr_finger = f, mr_data = d, mr_print = print_id p\<rparr>)
      (db_records m) = None"
    and "length d \<le> IPC_MAX_RECORD_SIZE"
  shows "module_step True (Start_verify p) m =
    m\<lparr>cancellable := False, next_obj := Suc (next_obj m),
      mod_sent := mod_sent m @ [key_msg IPC_MSG_ADD_RECORD g f d],
      waiting := Ack_load_verify
        \<lparr>mr_id = next_obj m, mr_guid = g, mr_finger = f, mr_data = d, mr_print = print_id p\<rparr> g f\<rparr>"
  using assms
  by (simp add: module_step_def fpi_device_tudor_verify_def Let_def alive_dead new_record_def
      load_record_def alive_sends)

lemma load_acked:
  assumes "alive_module m" and "waiting m = Ack_load_verify rec g f"
  shows "module_step True (Incoming (Some (reply_bytes Ack))) m =
    (insert_db_record rec m)\<lparr>mod_sent := mod_sent m @ [key_msg IPC_MSG_VERIFY g f []],
      waiting := Ack_verify\<rparr>"
  using assms
  by (simp add: module_step_def module_recv_def ack_received Let_def verify_loaded_def send_acked_def
      insert_db_record_def alive_sends del: reply_bytes.simps)

lemma verify_acked:
  assumes "alive_module m" and "waiting m = Ack_verify"
  shows "module_step True (Incoming (Some (reply_bytes Ack))) m =
    m\<lparr>reports := reports m @ [Finger_needed], has_canceled := False, cancel_handler := \<not> cancellable m,
      waiting := Recv_verify\<rparr>"
  using assms
  by (simp add: module_step_def module_recv_def ack_received Let_def await_result_def module_ops
      del: reply_bytes.simps)

lemma verify_answered:
  assumes "alive_module m" and "waiting m = Recv_verify"
  shows "module_step True (Incoming (Some (reply_bytes (RespVerify False hit)))) m =
    m\<lparr>reports := reports m @ [Verify_report (Some hit), Verify_complete None], cancel_handler := False,
      waiting := Idle\<rparr>"
  using assms
  by (simp add: module_step_def module_recv_def reply_ready Let_def verify_recv_cb_def reply_simps module_ops
      del: reply_bytes.simps msg_code.simps)

lemma verify_capture:
  assumes "async_action st = Some VerifyAction" and "\<not> async_cancelled st"
    and "identify_cb ad status (hs_dll st) = (True, False, hit, s)"
  shows "\<exists>st'. capture_done ad status st = Inr st' \<and> hs_dev st' = hs_dev st \<and> async_action st' = None \<and>
    hs_sent st' = hs_sent st @ [RespVerify False (hit \<noteq> None)]"
  using assms
  by (auto simp: capture_done_def Let_def verify_via_identify_cb_def go_on_cleanup split: option.split)

definition verification :: "fp_print \<Rightarrow> u32 \<Rightarrow> system_event list" where
  "verification p status =
     [Action (Start_verify p), Host_reads, Module_reads, Host_reads, Module_reads, Capture_ends status,
      Module_reads]"

lemma in_step_idle:
  assumes "in_step sys" and "waiting (sys_mod sys) = Idle"
  shows "alive_module (sys_mod sys)" "to_host sys = []" "to_module sys = []" "async_action (sys_host sys) = None"
  using assms by (auto simp: in_step_def talk_ok_def)

lemma verification_runs:
  assumes "in_step sys" and "waiting (sys_mod sys) = Idle" and "parse_print_data p = Some (g, f, d)"
    and "find (rec_matches \<lparr>mr_id = next_obj (sys_mod sys), mr_guid = g, mr_finger = f, mr_data = d,
        mr_print = print_id p\<rparr>) (db_records (sys_mod sys)) = None"
    and "length d \<le> IPC_MAX_RECORD_SIZE" and "f \<noteq> TUDOR_FINGER_ANY"
    and "store_inv (hs_dev (sys_host sys))" and "\<not> use_dll_storage (hs_dev (sys_host sys))"
    and "\<not> enrolling (hs_dev (sys_host sys))"
    and "ad_StartCapture ad WINBIO_PURPOSE_IDENTIFY (hs_dll (sys_host sys)) = (ERROR_SUCCESS, s1)"
    and "identify_cb ad status s1 = (True, False, hit, s2)"
  shows "\<exists>sys'. system_run ad sif name (verification p status) sys = Inr sys' \<and>
    reports (sys_mod sys') = reports (sys_mod sys) @
      [Finger_needed, Verify_report (Some (hit \<noteq> None)), Verify_complete None] \<and>
    store_map (hs_dev (sys_host sys')) = (store_map (hs_dev (sys_host sys)))((g, f) \<mapsto> d) \<and>
    waiting (sys_mod sys') = Idle \<and> in_step sys'"
proof -
  note i = in_step_idle[OF assms(1,2)]
  let ?m = "sys_mod sys" and ?h = "sys_host sys"
  let ?rec = "\<lparr>mr_id = next_obj ?m, mr_guid = g, mr_finger = f, mr_data = d, mr_print = print_id p\<rparr>"
  let ?add = "key_msg IPC_MSG_ADD_RECORD g f d" and ?ver = "key_msg IPC_MSG_VERIFY g f []"
  let ?m1 = "?m\<lparr>cancellable := False, next_obj := Suc (next_obj ?m), mod_sent := mod_sent ?m @ [?add],
    waiting := Ack_load_verify ?rec g f\<rparr>"
  obtain dev where add: "handle_msg ad sif name ?add ?h = Inr (False, send Ack (?h\<lparr>hs_dev := dev\<rparr>))"
    and map: "store_map dev = (store_map (hs_dev ?h))((g, f) \<mapsto> d)"
    and flags: "device_flags dev = device_flags (hs_dev ?h)"
    using add_record_handled[OF assms(7,8) i(4) assms(5,6), of ad sif name g] by blast
  let ?h1 = "send Ack (?h\<lparr>hs_dev := dev\<rparr>)"
  let ?m2 = "(insert_db_record ?rec ?m1)\<lparr>mod_sent := mod_sent ?m1 @ [?ver], waiting := Ack_verify\<rparr>"
  let ?h2 = "send Ack (?h1\<lparr>async_cancelled := False, act_retry := False, act_has_match := False,
      hs_dll := s1, async_action := Some VerifyAction\<rparr>)"
  have ver: "handle_msg ad sif name ?ver ?h1 = Inr (False, ?h2)"
    using verify_handled[of ?h1 ad s1 sif name g f] i(4) assms(9,10) flags
    by (simp add: device_flags_def)
  let ?m3 = "?m2\<lparr>reports := reports ?m2 @ [Finger_needed], has_canceled := False,
      cancel_handler := \<not> cancellable ?m2, waiting := Recv_verify\<rparr>"
  obtain h3 where cap: "capture_done ad status ?h2 = Inr h3" "hs_dev h3 = dev" "async_action h3 = None"
      "hs_sent h3 = hs_sent ?h2 @ [RespVerify False (hit \<noteq> None)]"
    using verify_capture[of ?h2 ad status hit s2] assms(11) by auto
  let ?m4 = "?m3\<lparr>reports := reports ?m3 @ [Verify_report (Some (hit \<noteq> None)), Verify_complete None],
      cancel_handler := False, waiting := Idle\<rparr>"
  have al: "alive_module ?m2" "alive_module ?m1" "alive_module ?m3"
    using i(1) by (simp_all add: insert_db_record_def)
  let ?last = "\<lparr>sys_host = h3, sys_mod = ?m4, to_host = [], to_module = []\<rparr>"
  have "system_run ad sif name (verification p status) sys = Inr ?last"
    using i verify_asks_load[OF i(1) assms(2,3,4,5)] load_acked[OF al(2)] verify_acked[OF al(1)]
      verify_answered[OF al(3)] add ver cap
    by (simp add: verification_def system_step_def with_module_def with_host_def host_step_def
        del: reply_bytes.simps)
  moreover have "in_step ?last"
    using al(1) cap by (simp add: in_step_def talk_ok_def)
  ultimately show ?thesis using map cap by (simp add: insert_db_record_def)
qed

section \<open>A cancellation that comes too late\<close>

lemma verify_asks_at_once:
  assumes "alive_module m" and "waiting m = Idle" and "parse_print_data p = Some (g, f, d)"
    and "\<exists>r \<in> set (db_records m). mr_print r = print_id p"
  shows "module_step True (Start_verify p) m =
    m\<lparr>cancellable := False, next_obj := Suc (next_obj m),
      mod_sent := mod_sent m @ [key_msg IPC_MSG_VERIFY g f []], waiting := Ack_verify\<rparr>"
proof -
  let ?rec = "\<lparr>mr_id = next_obj m, mr_guid = g, mr_finger = f, mr_data = d, mr_print = print_id p\<rparr>"
  have "find (rec_matches ?rec) (db_records m) \<noteq> None"
    using assms(4) by (auto simp: find_None_iff rec_matches_def)
  then show ?thesis using assms
    by (auto simp: module_step_def fpi_device_tudor_verify_def Let_def alive_dead new_record_def
        load_record_def verify_loaded_def send_acked_def alive_sends)
qed

lemma cancel_sends:
  assumes "alive_module m" and "\<not> cancellable m" and "cancel_handler m" and "\<not> has_canceled m"
  shows "module_step True User_cancel m =
    m\<lparr>cancellable := True, mod_sent := mod_sent m @ [simple_msg IPC_MSG_CANCEL], has_canceled := True\<rparr>"
  using assms by (simp add: module_step_def cancel_action_def invoke_cancel_handler_def alive_sends)

lemma ack_ends_verify:
  assumes "alive_module m" and "waiting m = Recv_verify"
  shows "module_step True (Incoming (Some (reply_bytes Ack))) m =
    m\<lparr>reports := reports m @ [Verify_complete (Some (handle_cancel_ack m))], cancel_handler := False,
      waiting := Idle\<rparr>"
  using assms
  by (simp add: module_step_def module_recv_def ack_received Let_def verify_recv_cb_def module_ops
      del: reply_bytes.simps msg_code.simps)

text \<open>
  The events after a capture has ended and before the module has read its result: the user cancels,
  and verifies the same print twice more.
\<close>

definition late_cancel :: "fp_print \<Rightarrow> system_event list" where
  "late_cancel p =
     [Action User_cancel, Module_reads, Action (Start_verify p), Host_reads, Module_reads, Host_reads,
      Module_reads]"

lemma system_run_append:
  "system_run ad sif name (xs @ ys) sys = res_bind (system_run ad sif name xs sys) (system_run ad sif name ys)"
proof (induction xs arbitrary: sys)
  case (Cons ev evs)
  then show ?case by (cases "system_step ad sif name ev sys") simp_all
qed simp

lemma late_cancel_runs:
  assumes "alive_module (sys_mod sys)" and "waiting (sys_mod sys) = Recv_verify"
    and "\<not> cancellable (sys_mod sys)" and "cancel_handler (sys_mod sys)" and "\<not> has_canceled (sys_mod sys)"
    and "async_action (sys_host sys) = None" and "to_host sys = []"
    and "to_module sys = [reply_bytes (RespVerify False hit)]"
    and "parse_print_data p = Some (g, f, d)"
    and "\<exists>r \<in> set (db_records (sys_mod sys)). mr_print r = print_id p"
    and "\<not> enrolling (hs_dev (sys_host sys))"
    and "ad_StartCapture ad WINBIO_PURPOSE_IDENTIFY (hs_dll (sys_host sys)) = (ERROR_SUCCESS, s1)"
  shows "\<exists>sys'. system_run ad sif name (late_cancel p) sys = Inr sys' \<and>
    reports (sys_mod sys') = reports (sys_mod sys) @ [Verify_report (Some hit), Verify_complete None,
      Finger_needed, Verify_complete (Some Err_proto)] \<and>
    alive_module (sys_mod sys') \<and> waiting (sys_mod sys') = Idle \<and> to_host sys' = [] \<and>
    db_records (sys_mod sys') = db_records (sys_mod sys) \<and>
    async_action (sys_host sys') = Some VerifyAction"
proof -
  let ?m = "sys_mod sys" and ?h = "sys_host sys"
  let ?can = "simple_msg IPC_MSG_CANCEL" and ?ver = "key_msg IPC_MSG_VERIFY g f []"
  let ?m1 = "?m\<lparr>cancellable := True, mod_sent := mod_sent ?m @ [?can], has_canceled := True\<rparr>"
  let ?m2 = "?m1\<lparr>reports := reports ?m1 @ [Verify_report (Some hit), Verify_complete None],
      cancel_handler := False, waiting := Idle\<rparr>"
  let ?m3 = "?m2\<lparr>cancellable := False, next_obj := Suc (next_obj ?m2),
      mod_sent := mod_sent ?m2 @ [?ver], waiting := Ack_verify\<rparr>"
  let ?m4 = "?m3\<lparr>reports := reports ?m3 @ [Finger_needed], has_canceled := False,
      cancel_handler := \<not> cancellable ?m3, waiting := Recv_verify\<rparr>"
  let ?m5 = "?m4\<lparr>reports := reports ?m4 @ [Verify_complete (Some (handle_cancel_ack ?m4))],
      cancel_handler := False, waiting := Idle\<rparr>"
  let ?h1 = "send Ack ?h"
  let ?h2 = "send Ack (?h1\<lparr>async_cancelled := False, act_retry := False, act_has_match := False,
      hs_dll := s1, async_action := Some VerifyAction\<rparr>)"
  have can: "handle_msg ad sif name ?can ?h = Inr (False, ?h1)" by (rule idle_cancel_acked[OF assms(6)])
  have ver: "handle_msg ad sif name ?ver ?h1 = Inr (False, ?h2)"
    using verify_handled[of ?h1 ad s1 sif name g f] assms(6,11,12) by simp
  have al: "alive_module ?m1" "alive_module ?m2" "alive_module ?m3" "alive_module ?m4" "alive_module ?m5"
    using assms(1) by simp_all
  let ?last = "\<lparr>sys_host = ?h2, sys_mod = ?m5, to_host = [], to_module = []\<rparr>"
  have "system_run ad sif name (late_cancel p) sys = Inr ?last"
    using assms(2,7,8) cancel_sends[OF assms(1,3,4,5)] verify_answered[OF al(1), of hit]
      verify_asks_at_once[OF al(2) _ assms(9), of] assms(10) verify_acked[OF al(3)] ack_ends_verify[OF al(4)]
      can ver
    by (simp add: late_cancel_def system_step_def with_module_def with_host_def host_step_def
        del: reply_bytes.simps)
  then show ?thesis using al(5) by (simp add: handle_cancel_ack_def)
qed

text \<open>A print the host does not know, on a fresh system.\<close>

definition sample_print :: fp_print where
  "sample_print = \<lparr>print_id = 5, own_driver = True, device_stored = True,
     fpi_data = Some (guid_bytes zero_guid, 7, [1, 2])\<rparr>"

lemma sample_hyps:
  "parse_print_data sample_print = Some (zero_guid, 7, [1, 2])"
  "find (rec_matches r) (db_records (sys_mod (system_start fresh_device ()))) = None"
  "waiting (sys_mod (system_start fresh_device ())) = Idle"
  "store_inv (hs_dev (sys_host (system_start fresh_device ())))"
  "\<not> use_dll_storage (hs_dev (sys_host (system_start fresh_device ())))"
  "\<not> enrolling (hs_dev (sys_host (system_start fresh_device ())))"
  "ad_StartCapture (quiet_adapters [1]) WINBIO_PURPOSE_IDENTIFY () = (ERROR_SUCCESS, ())"
  "identify_cb (quiet_adapters [1]) 0 () = (True, False, None, ())"
  "store_map fresh_device = Map.empty" "length [1 :: byte, 2] \<le> IPC_MAX_RECORD_SIZE" "7 \<noteq> TUDOR_FINGER_ANY"
  using store_inv_fresh
  by (simp_all add: sample_print_def parse_print_data_def system_start_def opened_module_def handler_init_def
      fresh_device_def quiet_adapters_def ERROR_SUCCESS_def identify_cb_def STATUS_SUCCESS_def
      WINBIO_E_UNKNOWN_ID_def store_map_def IPC_MAX_RECORD_SIZE_def TUDOR_FINGER_ANY_def)

section \<open>Properties\<close>



text \<open>
  C3: A verification from end to end: for a print whose template the host does not have yet, the
  module sends the template and the request, the host files the template, captures, and answers
  whether the capture matches \<^emph>\<open>any\<close> template it holds: the GUID and finger of the request play no
  part.  The module reports that answer as the verification of the print, and ends the action.
\<close>

theorem verification_exchange:
  assumes "in_step sys" and "waiting (sys_mod sys) = Idle" and "parse_print_data p = Some (g, f, d)"
    and "find (rec_matches \<lparr>mr_id = next_obj (sys_mod sys), mr_guid = g, mr_finger = f, mr_data = d,
        mr_print = print_id p\<rparr>) (db_records (sys_mod sys)) = None"
    and "length d \<le> IPC_MAX_RECORD_SIZE" and "f \<noteq> TUDOR_FINGER_ANY"
    and "store_inv (hs_dev (sys_host sys))" and "\<not> use_dll_storage (hs_dev (sys_host sys))"
    and "\<not> enrolling (hs_dev (sys_host sys))"
    and "ad_StartCapture ad WINBIO_PURPOSE_IDENTIFY (hs_dll (sys_host sys)) = (ERROR_SUCCESS, s1)"
    and "identify_cb ad status s1 = (True, False, hit, s2)"
  shows "\<exists>sys'. system_run ad sif name (verification p status) sys = Inr sys' \<and>
    reports (sys_mod sys') = reports (sys_mod sys) @
      [Finger_needed, Verify_report (Some (hit \<noteq> None)), Verify_complete None] \<and>
    store_map (hs_dev (sys_host sys')) = (store_map (hs_dev (sys_host sys)))((g, f) \<mapsto> d) \<and>
    waiting (sys_mod sys') = Idle \<and> in_step sys'"
  by (rule verification_runs[OF assms])

theorem verification_exchange_witness:
  "\<exists>sys'. system_run (quiet_adapters [1]) dummy_storage [] (verification sample_print 0)
     (system_start fresh_device ()) = Inr sys' \<and>
     reports (sys_mod sys') = [Finger_needed, Verify_report (Some False), Verify_complete None] \<and>
     store_map (hs_dev (sys_host sys')) (zero_guid, 7) = Some [1, 2]"
  using verification_exchange[OF start_in_step(1) sample_hyps(3,1,2,10,11,4,5,6), of "quiet_adapters [1]" "()" 0
      None "()" dummy_storage "[]"] sample_hyps(7,8)
  by (fastforce simp: system_start_def opened_module_def)

text \<open>
  A cancellation that is sent after the capture has ended, but before the module has read its
  result, breaks the conversation: the host acknowledges it as one of no action, the module takes
  this for the acknowledgement of its next verification and the acknowledgement of that for its
  result, so the verification ends with a protocol error while the host captures for it; and the
  request of the verification after that makes the host abort.
\<close>

theorem late_cancel_aborts_host:
  assumes "alive_module (sys_mod sys)" and "waiting (sys_mod sys) = Recv_verify"
    and "\<not> cancellable (sys_mod sys)" and "cancel_handler (sys_mod sys)" and "\<not> has_canceled (sys_mod sys)"
    and "async_action (sys_host sys) = None" and "to_host sys = []"
    and "to_module sys = [reply_bytes (RespVerify False hit)]"
    and "parse_print_data p = Some (g, f, d)"
    and "\<exists>r \<in> set (db_records (sys_mod sys)). mr_print r = print_id p"
    and "\<not> enrolling (hs_dev (sys_host sys))"
    and "ad_StartCapture ad WINBIO_PURPOSE_IDENTIFY (hs_dll (sys_host sys)) = (ERROR_SUCCESS, s1)"
  shows "system_run ad sif name (late_cancel p @ [Action (Start_verify p), Host_reads]) sys = Inl Abort"
proof -
  obtain sys' where r: "system_run ad sif name (late_cancel p) sys = Inr sys'"
    and m: "alive_module (sys_mod sys')" "waiting (sys_mod sys') = Idle" "to_host sys' = []"
      "db_records (sys_mod sys') = db_records (sys_mod sys)"
    and h: "async_action (sys_host sys') = Some VerifyAction"
    using late_cancel_runs[OF assms] by blast
  have "handle_msg ad sif name (key_msg IPC_MSG_VERIFY g f []) (sys_host sys') = Inl Abort"
    using busy_refuses[of "sys_host sys'" "key_msg IPC_MSG_VERIFY g f []"] h by (simp del: msg_code.simps)
  then show ?thesis
    using r m(3) verify_asks_at_once[OF m(1,2) assms(9)] m(4) assms(10)
    by (simp add: system_run_append system_step_def with_module_def host_step_def)
qed

theorem late_cancel_aborts_host_witness:
  "\<exists>sys. to_module sys = [reply_bytes (RespVerify False True)] \<and>
     system_run (quiet_adapters [1]) dummy_storage []
       (late_cancel sample_print @ [Action (Start_verify sample_print), Host_reads]) sys = Inl Abort"
proof -
  let ?sys = "\<lparr>sys_host = handler_init fresh_device (),
     sys_mod = opened_module\<lparr>waiting := Recv_verify, cancel_handler := True, db_records :=
       [\<lparr>mr_id = 0, mr_guid = zero_guid, mr_finger = 7, mr_data = [1, 2], mr_print = 5\<rparr>], next_obj := 1\<rparr>,
     to_host = [], to_module = [reply_bytes (RespVerify False True)]\<rparr>"
  have "system_run (quiet_adapters [1]) dummy_storage []
      (late_cancel sample_print @ [Action (Start_verify sample_print), Host_reads]) ?sys = Inl Abort"
    by (rule late_cancel_aborts_host[OF _ _ _ _ _ _ _ _ sample_hyps(1)])
      (use sample_hyps(7) in \<open>simp_all add: opened_module_def alive_module_def handler_init_def fresh_device_def
        sample_print_def del: reply_bytes.simps\<close>)
  then show ?thesis by (intro exI[of _ ?sys]) simp
qed

end
