(* ===== verification/Win_Registry.thy ===== *)
theory Win_Registry
  imports Device_State
begin

text \<open>
  The emulated Windows registry: the API of \<open>libtudor/src/winapi/reg.c\<close>, the registry functions of
  the driver framework (\<open>winapi/wdf/reg.c\<close>), and the handler that serves them
  (\<open>libtudor/src/tudor/reg.c\<close>).  Names are C strings; wide names are taken converted
  (\<open>winstr_to_str\<close>).  Allocations succeed.
\<close>

section \<open>Values\<close>

definition WINREG_STR :: u32 where "WINREG_STR = 1"
definition WINREG_BINARY :: u32 where "WINREG_BINARY = 3"
definition WINREG_DWORD :: u32 where "WINREG_DWORD = 4"

text \<open>
  The buffer, its size and the type of a value, as they go in and come out: \<open>io_buf\<close> is the memory
  behind the pointer (\<open>None\<close> for NULL), \<open>io_type\<close> is \<open>None\<close> while indeterminate.
\<close>

record reg_io =
  io_buf :: "byte list option"
  io_size :: nat
  io_type :: "u32 option"

text \<open>Returning a value: into a buffer that is large enough, or only its size without a buffer.\<close>

definition give_value :: "byte list \<Rightarrow> u32 \<Rightarrow> reg_io \<Rightarrow> bool \<times> reg_io" where
  "give_value data ty io =
     (case io_buf io of
        None \<Rightarrow> (True, io\<lparr>io_size := length data, io_type := Some ty\<rparr>)
      | Some b \<Rightarrow>
          if length data \<le> io_size io
          then (True, io\<lparr>io_buf := Some (splice b 0 data), io_size := length data, io_type := Some ty\<rparr>)
          else (False, io))"

section \<open>Key names\<close>

text \<open>The parts of a key name are separated by backslashes.\<close>

fun key_path :: "string list \<Rightarrow> string" where
  "key_path [] = []"
| "key_path [x] = x"
| "key_path (x # y # ys) = x @ CHR 0x5C # key_path (y # ys)"

section \<open>The handler\<close>

text \<open>The object a key was opened for.\<close>

datatype ctx_obj = No_ctx | Device_ctx | Driver_ctx

text \<open>
  The callbacks for pairing data (NULL is \<open>None\<close>), over a state of their own, with the device: the
  state of the handler.
\<close>

record 'p pdata_fncs =
  get_pdata :: "(string \<Rightarrow> 'p \<Rightarrow> byte list option \<times> 'p) option"
  set_pdata :: "(string \<Rightarrow> byte list option \<Rightarrow> nat \<Rightarrow> 'p \<Rightarrow> 'p) option"

text \<open>A value of the device state: its name selects how it is read and written.\<close>

definition flag_word :: "bool \<Rightarrow> u32" where
  "flag_word b = (if b then 1 else 0)"

definition state_value ::
    "string \<Rightarrow> ((tudor_device_state \<Rightarrow> u32) \<times> (u32 \<Rightarrow> tudor_device_state \<Rightarrow> tudor_device_state)) option" where
  "state_value name =
     (if name = ''PairingInProcess'' then
        Some (\<lambda>s. flag_word (pairing_in_process s), \<lambda>w s. s\<lparr>pairing_in_process := w \<noteq> 0\<rparr>)
      else if name = ''UnairingInProcess'' then
        Some (\<lambda>s. flag_word (unpairing_in_process s), \<lambda>w s. s\<lparr>unpairing_in_process := w \<noteq> 0\<rparr>)
      else if name = ''DeviceUpdateInProcess'' then
        Some (\<lambda>s. flag_word (update_in_process s), \<lambda>w s. s\<lparr>update_in_process := w \<noteq> 0\<rparr>)
      else if name = ''deviceInitializeFailures'' then
        Some (init_fails, \<lambda>w s. s\<lparr>init_fails := w\<rparr>)
      else if name = ''updateFirmwareFailureCount'' then
        Some (update_fails, \<lambda>w s. s\<lparr>update_fails := w\<rparr>)
      else if name = ''LastUpdateSystemTimeStamp'' then
        Some (last_update_timestamp, \<lambda>w s. s\<lparr>last_update_timestamp := w\<rparr>)
      else None)"

text \<open>One access to a value of the device state; a write needs a buffer of four bytes.\<close>

definition access_state_value ::
    "string \<Rightarrow> bool \<Rightarrow> reg_io \<Rightarrow> tudor_device_state \<Rightarrow> bool \<times> reg_io \<times> tudor_device_state" where
  "access_state_value name is_write io s =
     (case state_value name of
        None \<Rightarrow> (False, io, s)
      | Some (rd, wr) \<Rightarrow>
          if \<not> is_write then (case give_value (word_le 4 (rd s)) WINREG_DWORD io of (ok, io') \<Rightarrow> (ok, io', s))
          else (case io_buf io of
              None \<Rightarrow> (False, io, s)
            | Some b \<Rightarrow>
                if io_size io < 4 then (False, io, s)
                else (True, io\<lparr>io_size := 4\<rparr>, wr (fld b 0 4) s)))"

definition machine_guid :: "byte list" where
  "machine_guid = concat (map (\<lambda>c. [of_char c, 0]) ''a1b2c3d4-e5f6-7890-abcd-ef1234567890'') @ [0, 0]"

text \<open>
  \<open>tudor_reg_handler\<close>.  The pairing data of a read are put into the buffer, but the function then
  returns false; without a callback nothing happens.  The key of the device is only opened with the
  device as its object; another object would be misread.
\<close>

definition tudor_reg_handler ::
    "'p pdata_fncs \<Rightarrow> ctx_obj \<Rightarrow> string \<Rightarrow> string \<Rightarrow> bool \<Rightarrow> reg_io \<Rightarrow> tudor_device \<times> 'p \<Rightarrow>
      (bool \<times> reg_io \<times> tudor_device \<times> 'p) result" where
  "tudor_reg_handler fs ctx key_name val_name is_write io h =
     (case h of (dev, p) \<Rightarrow>
      if \<not> is_write \<and> key_name = key_path [''HKEY_LOCAL_MACHINE'', ''SOFTWARE'', ''Microsoft'', ''Cryptography''] then
        (if val_name = ''MachineGuid''
         then (case give_value machine_guid WINREG_STR io of (ok, io') \<Rightarrow> Inr (ok, io', dev, p))
         else Inr (False, io, dev, p))
      else if \<not> is_write \<and> key_name = key_path [''HKEY_LOCAL_MACHINE'', ''SOFTWARE'', ''Syna''] then
        (if val_name = ''wbfMode'' \<or> val_name = ''useWbf''
         then (case give_value [1, 0, 0, 0] WINREG_DWORD io of (ok, io') \<Rightarrow> Inr (ok, io', dev, p))
         else Inr (False, io, dev, p))
      else if key_name = key_path [''HKEY_LOCAL_MACHINE'', ''Tudor'', ''Device''] \<and> ctx \<noteq> No_ctx then
        (if ctx = Driver_ctx then Inl Fault
         else case access_state_value val_name is_write io (dev_state dev) of (ok, io', s) \<Rightarrow>
           Inr (ok, io', dev\<lparr>dev_state := s\<rparr>, p))
      else if key_name = key_path [''HKEY_CURRENT_USER'', ''Software'', ''Synaptics'', ''PairingData''] then
        (if \<not> is_write then
           (case get_pdata fs of
              None \<Rightarrow> Inr (False, io, dev, p)
            | Some get \<Rightarrow>
                (case get val_name p of
                   (None, p') \<Rightarrow> Inr (False, io, dev, p')
                 | (Some data, p') \<Rightarrow>
                     (case give_value data WINREG_BINARY io of (ok, io') \<Rightarrow> Inr (False, io', dev, p'))))
         else
           (case set_pdata fs of
              None \<Rightarrow> Inr (False, io, dev, p)
            | Some put \<Rightarrow> Inr (True, io, dev, put val_name (io_buf io) (io_size io) p)))
      else Inr (False, io, dev, p))"

section \<open>Keys\<close>

text \<open>
  Handles are addresses; \<open>reg_keys\<close> are the keys that are open.  The predefined keys are no objects.
  A new key gets the address the allocator returns, here an argument.
\<close>

type_synonym 'h reg_handler_fn =
  "ctx_obj \<Rightarrow> string \<Rightarrow> string \<Rightarrow> bool \<Rightarrow> reg_io \<Rightarrow> 'h \<Rightarrow> (bool \<times> reg_io \<times> 'h) result"

record reg_key =
  key_ctx :: ctx_obj
  key_name_of :: string

record 'h registry =
  reg_handler :: "'h reg_handler_fn option"
  reg_keys :: "u64 \<Rightarrow> reg_key option"
  reg_state :: 'h

definition winreg_set_handler :: "'h reg_handler_fn \<Rightarrow> 'h registry \<Rightarrow> 'h registry" where
  "winreg_set_handler h st = st\<lparr>reg_handler := Some h\<rparr>"

definition predefined_key :: "u32 \<Rightarrow> string option" where
  "predefined_key w =
     (if w = 0x80000000 then Some ''HKEY_CLASSES_ROOT''
      else if w = 0x80000001 then Some ''HKEY_CURRENT_USER''
      else if w = 0x80000002 then Some ''HKEY_LOCAL_MACHINE''
      else if w = 0x80000003 then Some ''HKEY_USERS''
      else if w = 0x80000004 then Some ''HKEY_PERFORMANCE_DATA''
      else if w = 0x80000050 then Some ''HKEY_PERFORMANCE_TEXT''
      else if w = 0x80000060 then Some ''HKEY_PERFORMANCE_NLSTEXT''
      else if w = 0x80000005 then Some ''HKEY_CURRENT_CONFIG''
      else if w = 0x80000006 then Some ''HKEY_DYN_DATA''
      else if w = 0x80000007 then Some ''HKEY_CURRENT_USER_LOCAL_SETTINGS''
      else None)"

definition the_key :: "u64 \<Rightarrow> 'h registry \<Rightarrow> reg_key result" where
  "the_key hkey st = (case reg_keys st hkey of None \<Rightarrow> Inl Fault | Some k \<Rightarrow> Inr k)"

text \<open>\<open>key_name\<close> looks at the low 32 bits of the handle only.\<close>

definition key_name :: "u64 \<Rightarrow> 'h registry \<Rightarrow> string result" where
  "key_name hkey st =
     (case predefined_key (ucast hkey) of
        Some n \<Rightarrow> Inr n
      | None \<Rightarrow> res_bind (the_key hkey st) (\<lambda>k. Inr (key_name_of k)))"

definition winreg_open_key :: "u64 \<Rightarrow> ctx_obj \<Rightarrow> string \<Rightarrow> 'h registry \<Rightarrow> u64 \<times> 'h registry" where
  "winreg_open_key addr ctx name st =
     (addr, st\<lparr>reg_keys := (reg_keys st)(addr \<mapsto> \<lparr>key_ctx = ctx, key_name_of = name\<rparr>)\<rparr>)"

definition winreg_get_key_name :: "u64 \<Rightarrow> 'h registry \<Rightarrow> string result" where
  "winreg_get_key_name hkey st = res_bind (the_key hkey st) (\<lambda>k. Inr (key_name_of k))"

text \<open>\<open>winhandle_destroy\<close> on a key; a predefined key or one already closed is no handle.\<close>

definition destroy_key :: "u64 \<Rightarrow> 'h registry \<Rightarrow> 'h registry result" where
  "destroy_key hkey st =
     (if hkey = 0 then Inr st
      else res_bind (the_key hkey st) (\<lambda>_. Inr (st\<lparr>reg_keys := (reg_keys st)(hkey := None)\<rparr>)))"

definition call_handler ::
    "u64 \<Rightarrow> string \<Rightarrow> bool \<Rightarrow> reg_io \<Rightarrow> 'h registry \<Rightarrow> (bool \<times> reg_io \<times> 'h registry) result" where
  "call_handler hkey val is_write io st =
     res_bind (the_key hkey st) (\<lambda>k.
     case reg_handler st of
       None \<Rightarrow> Inr (False, io, st)
     | Some h \<Rightarrow>
         res_bind (h (key_ctx k) (key_name_of k) val is_write io (reg_state st)) (\<lambda>(ok, io', s).
           Inr (ok, io', st\<lparr>reg_state := s\<rparr>)))"

definition winreg_query_val ::
    "u64 \<Rightarrow> string \<Rightarrow> reg_io \<Rightarrow> 'h registry \<Rightarrow> (bool \<times> reg_io \<times> 'h registry) result" where
  "winreg_query_val hkey val io st = call_handler hkey val False io st"

definition winreg_write_val ::
    "u64 \<Rightarrow> string \<Rightarrow> byte list option \<Rightarrow> nat \<Rightarrow> u32 \<Rightarrow> 'h registry \<Rightarrow> (bool \<times> 'h registry) result" where
  "winreg_write_val hkey val buf sz ty st =
     res_bind (call_handler hkey val True \<lparr>io_buf = buf, io_size = sz, io_type = Some ty\<rparr> st)
       (\<lambda>(ok, _, st'). Inr (ok, st'))"

section \<open>The registry API\<close>

text \<open>\<open>RegOpenKeyExA\<close> and \<open>RegOpenKeyExW\<close>: the new name is the parent's, a backslash, and the subkey's.\<close>

definition RegOpenKeyEx ::
    "u64 \<Rightarrow> u64 \<Rightarrow> string option \<Rightarrow> 'h registry \<Rightarrow> (u32 \<times> u64 \<times> 'h registry) result" where
  "RegOpenKeyEx addr hkey subkey st =
     (case subkey of
        None \<Rightarrow> Inr (ERROR_SUCCESS, hkey, st)
      | Some sub \<Rightarrow>
          res_bind (key_name hkey st) (\<lambda>par.
          case winreg_open_key addr No_ctx (par @ CHR 0x5C # sub) st of
            (out, st') \<Rightarrow> Inr (ERROR_SUCCESS, out, st')))"

text \<open>\<open>RegCreateKeyExA\<close> and \<open>RegCreateKeyExW\<close>: every key exists already.\<close>

definition RegCreateKeyEx ::
    "u64 \<Rightarrow> u64 \<Rightarrow> string option \<Rightarrow> 'h registry \<Rightarrow> (u32 \<times> u32 \<times> u64 \<times> 'h registry) result" where
  "RegCreateKeyEx addr hkey subkey st =
     res_bind (RegOpenKeyEx addr hkey subkey st) (\<lambda>(r, out, st'). Inr (r, 0x2, out, st'))"

definition RegCloseKey :: "u64 \<Rightarrow> 'h registry \<Rightarrow> (u32 \<times> 'h registry) result" where
  "RegCloseKey hkey st = res_bind (destroy_key hkey st) (\<lambda>st'. Inr (ERROR_SUCCESS, st'))"

text \<open>
  \<open>RegQueryValueExA\<close> and \<open>RegQueryValueExW\<close>: the status, the buffer and the size; the type of the
  value is not stored for the caller.
\<close>

definition RegQueryValueEx ::
    "u64 \<Rightarrow> string \<Rightarrow> byte list option \<Rightarrow> u32 \<Rightarrow> 'h registry \<Rightarrow>
      (u32 \<times> byte list option \<times> u32 \<times> 'h registry) result" where
  "RegQueryValueEx hkey val data data_size st =
     res_bind (winreg_query_val hkey val \<lparr>io_buf = data, io_size = unat data_size, io_type = None\<rparr> st)
       (\<lambda>(ok, io, st'). Inr (if ok then ERROR_SUCCESS else WINERR_SET_CODE, io_buf io,
          word_of_nat (io_size io), st'))"

text \<open>\<open>RegSetValueExA\<close> and \<open>RegSetValueExW\<close>.\<close>

definition RegSetValueEx ::
    "u64 \<Rightarrow> string \<Rightarrow> u32 \<Rightarrow> byte list option \<Rightarrow> u32 \<Rightarrow> 'h registry \<Rightarrow> (u32 \<times> 'h registry) result" where
  "RegSetValueEx hkey val ty data data_size st =
     res_bind (winreg_write_val hkey val data (unat data_size) ty st) (\<lambda>(ok, st').
       Inr (if ok then ERROR_SUCCESS else WINERR_SET_CODE, st'))"

definition ERROR_NO_MORE_ITEMS :: u32 where "ERROR_NO_MORE_ITEMS = 259"

definition RegEnumKeyExW :: "u64 \<Rightarrow> 'h registry \<Rightarrow> u32 result" where
  "RegEnumKeyExW hkey st = res_bind (key_name hkey st) (\<lambda>_. Inr ERROR_NO_MORE_ITEMS)"

text \<open>The seven counts \<open>RegQueryInfoKeyW\<close> stores are all 0.\<close>

definition RegQueryInfoKeyW :: "u64 \<Rightarrow> 'h registry \<Rightarrow> (u32 \<times> u32 list) result" where
  "RegQueryInfoKeyW hkey st = res_bind (key_name hkey st) (\<lambda>_. Inr (ERROR_SUCCESS, replicate 7 0))"

section \<open>Registry keys of the driver framework\<close>

text \<open>A registry object is an object with the handle of its key; \<open>None\<close> is the NULL parent.\<close>

definition WdfRegistryOpenKey ::
    "u64 \<Rightarrow> u64 option \<Rightarrow> string \<Rightarrow> 'h registry \<Rightarrow> (u32 \<times> u64 \<times> 'h registry) result" where
  "WdfRegistryOpenKey addr parent sub st =
     res_bind (case parent of None \<Rightarrow> Inr [] | Some hkey \<Rightarrow> winreg_get_key_name hkey st) (\<lambda>par.
     case winreg_open_key addr Driver_ctx (par @ CHR 0x5C # sub) st of
       (hkey, st') \<Rightarrow> Inr (STATUS_SUCCESS, hkey, st'))"

definition WdfDeviceOpenRegistryKey :: "u64 \<Rightarrow> u64 \<Rightarrow> u32 \<Rightarrow> u32 \<times> u64 option" where
  "WdfDeviceOpenRegistryKey driver_key device_key key_type =
     (if key_type = 2 OR 256 \<or> key_type = 2 then (STATUS_SUCCESS, Some driver_key)
      else if key_type = 1 OR 256 \<or> key_type = 1 then (STATUS_SUCCESS, Some device_key)
      else (WINERR_SET_CODE, None))"

text \<open>The size is only stored when the query succeeds.\<close>

definition WdfRegistryQueryValue ::
    "u64 \<Rightarrow> string \<Rightarrow> byte list option \<Rightarrow> u32 \<Rightarrow> u32 \<Rightarrow> 'h registry \<Rightarrow>
      (u32 \<times> byte list option \<times> u32 \<times> u32 option \<times> 'h registry) result" where
  "WdfRegistryQueryValue hkey val data data_size size_out st =
     res_bind (winreg_query_val hkey val \<lparr>io_buf = data, io_size = unat data_size, io_type = None\<rparr> st)
       (\<lambda>(ok, io, st').
         if \<not> ok then Inr (WINERR_SET_CODE, io_buf io, size_out, io_type io, st')
         else Inr (STATUS_SUCCESS, io_buf io, word_of_nat (io_size io), io_type io, st'))"

definition WdfRegistryAssignValue ::
    "u64 \<Rightarrow> string \<Rightarrow> u32 \<Rightarrow> byte list option \<Rightarrow> u32 \<Rightarrow> 'h registry \<Rightarrow> (u32 \<times> 'h registry) result" where
  "WdfRegistryAssignValue hkey val ty data data_size st =
     res_bind (winreg_write_val hkey val data (unat data_size) ty st) (\<lambda>(ok, st').
       Inr (if ok then STATUS_SUCCESS else WINERR_SET_CODE, st'))"

definition WdfRegistryAssignULong :: "u64 \<Rightarrow> string \<Rightarrow> u32 \<Rightarrow> 'h registry \<Rightarrow> (u32 \<times> 'h registry) result" where
  "WdfRegistryAssignULong hkey val w st =
     res_bind (winreg_write_val hkey val (Some (word_le 4 w)) 4 WINREG_DWORD st) (\<lambda>(ok, st').
       Inr (if ok then STATUS_SUCCESS else WINERR_SET_CODE, st'))"

section \<open>Handlers of 32-bit values\<close>

text \<open>
  What the registry API relies on in a handler that keeps 32-bit values under some names of a key:
  a write changes the value of its name, which may be normalised, and no other; a read returns it.
\<close>

locale dword_values =
  fixes handler :: "'h reg_handler_fn" and ctx :: ctx_obj and key :: string and names :: "string set"
    and value_of :: "string \<Rightarrow> 'h \<Rightarrow> u32" and norm :: "string \<Rightarrow> u32 \<Rightarrow> u32"
  assumes write_law: "n \<in> names \<Longrightarrow> io_buf io = Some b \<Longrightarrow> 4 \<le> io_size io \<Longrightarrow>
      \<exists>io' h'. handler ctx key n True io h = Inr (True, io', h') \<and>
        (\<forall>m \<in> names. value_of m h' = (if m = n then norm n (fld b 0 4) else value_of m h))"
    and read_law: "n \<in> names \<Longrightarrow> io_buf io = Some b \<Longrightarrow> 4 \<le> io_size io \<Longrightarrow>
      handler ctx key n False io h = Inr (True, io\<lparr>io_buf := Some (splice b 0 (word_le 4 (value_of n h))),
        io_size := 4, io_type := Some WINREG_DWORD\<rparr>, h)"
begin

definition serves :: "u64 \<Rightarrow> 'h registry \<Rightarrow> bool" where
  "serves hkey st \<longleftrightarrow> reg_handler st = Some handler \<and>
     reg_keys st hkey = Some \<lparr>key_ctx = ctx, key_name_of = key\<rparr>"

lemma set_value:
  assumes "serves hkey st" and "n \<in> names" and "4 \<le> unat sz"
  shows "\<exists>st'. RegSetValueEx hkey n ty (Some b) sz st = Inr (ERROR_SUCCESS, st') \<and> serves hkey st' \<and>
    (\<forall>m \<in> names. value_of m (reg_state st') =
       (if m = n then norm n (fld b 0 4) else value_of m (reg_state st)))"
proof -
  let ?io = "\<lparr>io_buf = Some b, io_size = unat sz, io_type = Some ty\<rparr>"
  obtain io' h' where "handler ctx key n True ?io (reg_state st) = Inr (True, io', h')"
    and "\<forall>m \<in> names. value_of m h' = (if m = n then norm n (fld b 0 4) else value_of m (reg_state st))"
    using write_law[of n ?io b "reg_state st"] assms(2,3) by auto
  then show ?thesis using assms(1)
    by (auto simp: serves_def RegSetValueEx_def winreg_write_val_def call_handler_def the_key_def)
qed

lemma query_value:
  assumes "serves hkey st" and "n \<in> names" and "4 \<le> unat sz"
  shows "RegQueryValueEx hkey n (Some b) sz st =
    Inr (ERROR_SUCCESS, Some (splice b 0 (word_le 4 (value_of n (reg_state st)))), 4, st)"
  using assms read_law[of n "\<lparr>io_buf = Some b, io_size = unat sz, io_type = None\<rparr>" b "reg_state st"]
  by (simp add: serves_def RegQueryValueEx_def winreg_query_val_def call_handler_def the_key_def)

lemma set_then_query:
  assumes "serves hkey st" and "n \<in> names" and "m \<in> names" and "4 \<le> unat sz" and "4 \<le> unat sz'"
  shows "\<exists>st'. RegSetValueEx hkey n ty (Some b) sz st = Inr (ERROR_SUCCESS, st') \<and>
    RegQueryValueEx hkey m (Some c) sz' st' = Inr (ERROR_SUCCESS, Some (splice c 0 (word_le 4
      (if m = n then norm n (fld b 0 4) else value_of m (reg_state st)))), 4, st')"
  using set_value[OF assms(1,2,4), of ty b] query_value[OF _ assms(3,5)] assms(3) by auto

end

text \<open>The device's key is such a handler.\<close>

definition state_names :: "string list" where
  "state_names = [''PairingInProcess'', ''UnairingInProcess'', ''DeviceUpdateInProcess'',
     ''deviceInitializeFailures'', ''updateFirmwareFailureCount'', ''LastUpdateSystemTimeStamp'']"

definition device_value :: "string \<Rightarrow> tudor_device \<times> 'p \<Rightarrow> u32" where
  "device_value n h = (case state_value n of None \<Rightarrow> 0 | Some (rd, _) \<Rightarrow> rd (dev_state (fst h)))"

definition norm_value :: "string \<Rightarrow> u32 \<Rightarrow> u32" where
  "norm_value n w =
     (if n \<in> {''PairingInProcess'', ''UnairingInProcess'', ''DeviceUpdateInProcess''}
      then flag_word (w \<noteq> 0) else w)"

definition device_key :: string where
  "device_key = key_path [''HKEY_LOCAL_MACHINE'', ''Tudor'', ''Device'']"

lemma state_value_names: "n \<in> set state_names \<Longrightarrow> \<exists>rd wr. state_value n = Some (rd, wr)"
  by (auto simp: state_names_def state_value_def)

lemma state_value_simps:
  "state_value ''PairingInProcess'' =
     Some (\<lambda>s. flag_word (pairing_in_process s), \<lambda>w s. s\<lparr>pairing_in_process := w \<noteq> 0\<rparr>)"
  "state_value ''UnairingInProcess'' =
     Some (\<lambda>s. flag_word (unpairing_in_process s), \<lambda>w s. s\<lparr>unpairing_in_process := w \<noteq> 0\<rparr>)"
  "state_value ''DeviceUpdateInProcess'' =
     Some (\<lambda>s. flag_word (update_in_process s), \<lambda>w s. s\<lparr>update_in_process := w \<noteq> 0\<rparr>)"
  "state_value ''deviceInitializeFailures'' = Some (init_fails, \<lambda>w s. s\<lparr>init_fails := w\<rparr>)"
  "state_value ''updateFirmwareFailureCount'' = Some (update_fails, \<lambda>w s. s\<lparr>update_fails := w\<rparr>)"
  "state_value ''LastUpdateSystemTimeStamp'' =
     Some (last_update_timestamp, \<lambda>w s. s\<lparr>last_update_timestamp := w\<rparr>)"
  by (simp_all add: state_value_def)

lemma device_value_simps:
  "device_value ''PairingInProcess'' (dev, p) = flag_word (pairing_in_process (dev_state dev))"
  "device_value ''UnairingInProcess'' (dev, p) = flag_word (unpairing_in_process (dev_state dev))"
  "device_value ''DeviceUpdateInProcess'' (dev, p) = flag_word (update_in_process (dev_state dev))"
  "device_value ''deviceInitializeFailures'' (dev, p) = init_fails (dev_state dev)"
  "device_value ''updateFirmwareFailureCount'' (dev, p) = update_fails (dev_state dev)"
  "device_value ''LastUpdateSystemTimeStamp'' (dev, p) = last_update_timestamp (dev_state dev)"
  by (simp_all add: device_value_def state_value_simps)

lemma norm_value_simps:
  "norm_value ''PairingInProcess'' w = flag_word (w \<noteq> 0)"
  "norm_value ''UnairingInProcess'' w = flag_word (w \<noteq> 0)"
  "norm_value ''DeviceUpdateInProcess'' w = flag_word (w \<noteq> 0)"
  "norm_value ''deviceInitializeFailures'' w = w"
  "norm_value ''updateFirmwareFailureCount'' w = w"
  "norm_value ''LastUpdateSystemTimeStamp'' w = w"
  by (simp_all add: norm_value_def)

lemma state_value_laws:
  assumes "state_value n = Some (rd, wr)" and "n \<in> set state_names"
  shows "\<forall>m \<in> set state_names. device_value m (dev\<lparr>dev_state := wr w (dev_state dev)\<rparr>, p) =
    (if m = n then norm_value n w else device_value m (dev, p))"
proof -
  consider "n = ''PairingInProcess''" | "n = ''UnairingInProcess''" | "n = ''DeviceUpdateInProcess''"
    | "n = ''deviceInitializeFailures''" | "n = ''updateFirmwareFailureCount''"
    | "n = ''LastUpdateSystemTimeStamp''"
    using assms(2) unfolding state_names_def by fastforce
  moreover have "wr = snd (the (state_value n))" using assms(1) by simp
  ultimately show ?thesis
    by cases (simp_all add: state_names_def device_value_simps norm_value_simps state_value_simps)
qed

lemma device_handler:
  "tudor_reg_handler fs Device_ctx device_key n w io (dev, p) =
    (case access_state_value n w io (dev_state dev) of (ok, io', s) \<Rightarrow>
       Inr (ok, io', dev\<lparr>dev_state := s\<rparr>, p))"
  by (simp add: tudor_reg_handler_def device_key_def)

interpretation device: dword_values "tudor_reg_handler fs" Device_ctx device_key "set state_names"
    device_value norm_value
proof unfold_locales
  fix n b and io :: reg_io and h :: "tudor_device \<times> 'a"
  assume n: "n \<in> set state_names" and b: "io_buf io = Some b" "4 \<le> io_size io"
  obtain rd wr where v: "state_value n = Some (rd, wr)" using state_value_names[OF n] by auto
  obtain dev p where h: "h = (dev, p)" by (cases h)
  show "\<exists>io' h'. tudor_reg_handler fs Device_ctx device_key n True io h = Inr (True, io', h') \<and>
      (\<forall>m \<in> set state_names. device_value m h' = (if m = n then norm_value n (fld b 0 4) else device_value m h))"
    using v b h state_value_laws[OF v n, where p = p] by (simp add: device_handler access_state_value_def)
  show "tudor_reg_handler fs Device_ctx device_key n False io h =
      Inr (True, io\<lparr>io_buf := Some (splice b 0 (word_le 4 (device_value n h))), io_size := 4,
        io_type := Some WINREG_DWORD\<rparr>, h)"
    using v b h by (simp add: device_handler access_state_value_def device_value_def give_value_def)
qed

section \<open>Properties\<close>

text \<open>
  The registry values of the device: what \<open>RegSetValueEx\<close> stores under one of the six names of
  the device's key, \<open>RegQueryValueEx\<close> returns (flags as 0 or 1), and no other of them changes.
\<close>

theorem device_values_roundtrip:
  assumes "reg_handler st = Some (tudor_reg_handler fs)"
    and "reg_keys st hkey = Some \<lparr>key_ctx = Device_ctx, key_name_of = device_key\<rparr>"
    and "n \<in> set state_names" and "m \<in> set state_names"
  shows "\<exists>st'. RegSetValueEx hkey n ty (Some (word_le 4 (w :: u32))) 4 st = Inr (ERROR_SUCCESS, st') \<and>
    RegQueryValueEx hkey m (Some [0, 0, 0, 0]) 4 st' = Inr (ERROR_SUCCESS,
      Some (word_le 4 (if m = n then norm_value n w else device_value m (reg_state st))), 4, st')"
proof -
  have "device.serves fs hkey st" using assms(1,2) by (simp add: device.serves_def)
  from device.set_then_query[OF this assms(3,4), of 4 4 ty "word_le 4 w" "[0, 0, 0, 0]"] show ?thesis
    by (simp add: splice_def fld_def cong: if_cong)
qed

definition sample_registry :: "(tudor_device \<times> unit) registry" where
  "sample_registry = \<lparr>reg_handler = Some (tudor_reg_handler \<lparr>get_pdata = Some (\<lambda>_ p. (Some [7, 8], p)),
       set_pdata = None\<rparr>),
     reg_keys = [16 \<mapsto> \<lparr>key_ctx = Device_ctx, key_name_of = device_key\<rparr>,
       32 \<mapsto> \<lparr>key_ctx = No_ctx, key_name_of =
         key_path [''HKEY_CURRENT_USER'', ''Software'', ''Synaptics'', ''PairingData'']\<rparr>],
     reg_state = (fresh_device, ())\<rparr>"

theorem device_values_roundtrip_witness:
  "\<exists>st'. RegSetValueEx 16 ''deviceInitializeFailures'' WINREG_DWORD (Some (word_le 4 (5 :: u32))) 4
       sample_registry = Inr (ERROR_SUCCESS, st') \<and>
     RegQueryValueEx 16 ''deviceInitializeFailures'' (Some [0, 0, 0, 0]) 4 st' =
       Inr (ERROR_SUCCESS, Some [5, 0, 0, 0], 4, st')"
proof -
  have "(word_le 4 (5 :: u32)) = [5, 0, 0, 0]" by code_simp
  then show ?thesis
    using device_values_roundtrip[of sample_registry _ 16 "''deviceInitializeFailures''"
        "''deviceInitializeFailures''" WINREG_DWORD 5]
    by (simp add: sample_registry_def state_names_def norm_value_def)
qed

text \<open>
  A read of stored pairing data fills the buffer and returns the size, but is reported as a
  failure, whatever the callback returns.
\<close>

theorem pairing_data_read_reports_failure:
  assumes "reg_handler st = Some (tudor_reg_handler fs)"
    and "reg_keys st hkey = Some \<lparr>key_ctx = c, key_name_of =
      key_path [''HKEY_CURRENT_USER'', ''Software'', ''Synaptics'', ''PairingData'']\<rparr>"
    and "get_pdata fs = Some get" and "get val (snd (reg_state st)) = (Some d, p)"
    and "length d \<le> unat sz"
  shows "\<exists>st'. RegQueryValueEx hkey val (Some b) sz st =
    Inr (WINERR_SET_CODE, Some (splice b 0 d), word_of_nat (length d), st')"
  using assms by (cases "reg_state st")
    (simp add: RegQueryValueEx_def winreg_query_val_def call_handler_def the_key_def tudor_reg_handler_def
      give_value_def)

theorem pairing_data_read_reports_failure_witness:
  "\<exists>st'. RegQueryValueEx 32 ''0123'' (Some [0, 0, 0]) 3 sample_registry =
     Inr (WINERR_SET_CODE, Some [7, 8, 0], 2, st')"
  using pairing_data_read_reports_failure[of sample_registry
      "\<lparr>get_pdata = Some (\<lambda>_ p. (Some [7, 8], p)), set_pdata = None\<rparr>" 32 No_ctx
      "\<lambda>_ p. (Some [7, 8], p)" "''0123''" "[7, 8]" "()" 3 "[0, 0, 0]"]
  by (simp add: sample_registry_def splice_def)

end
