(* ===== verification/Wdf_Request.thy ===== *)
theory Wdf_Request
  imports Device_State "HOL-Library.Multiset"
begin

text \<open>
  The requests of the driver framework (\<open>libtudor/src/winapi/wdf/request.c\<close>).  A request is configured,
  started and completed, and then reset to be used again.  Every operation holds the lock of the
  request, so it is one step here; while it waits on the condition variable the lock is free, and
  \<open>later\<close> is the completion another thread then delivers, if any.
\<close>

section \<open>Requests\<close>

definition STATUS_CANCELLED :: u32 where "STATUS_CANCELLED = 0xc0000120"

datatype wdf_request_type =
  WdfRequestTypeCreate | WdfRequestTypeCreateNamedPipe | WdfRequestTypeClose | WdfRequestTypeRead
| WdfRequestTypeWrite | WdfRequestTypeQueryInformation | WdfRequestTypeSetInformation
| WdfRequestTypeQueryEA | WdfRequestTypeSetEA | WdfRequestTypeFlushBuffers
| WdfRequestTypeQueryVolumeInformation | WdfRequestTypeSetVolumeInformation
| WdfRequestTypeDirectoryControl | WdfRequestTypeFileSystemControl | WdfRequestTypeDeviceControl
| WdfRequestTypeDeviceControlInternal | WdfRequestTypeShutdown | WdfRequestTypeLockControl
| WdfRequestTypeCleanup | WdfRequestTypeCreateMailSlot | WdfRequestTypeQuerySecurity
| WdfRequestTypeSetSecurity | WdfRequestTypePower | WdfRequestTypeSystemControl
| WdfRequestTypeDeviceChange | WdfRequestTypeQueryQuota | WdfRequestTypeSetQuota
| WdfRequestTypePnp | WdfRequestTypeOther | WdfRequestTypeUsb | WdfRequestTypeNoFormat
| WdfRequestTypeMax

text \<open>
  The parameters of a request, with the members of the union the code fills in, and those of a
  completion, with a copy of the USB parameters it points to.
\<close>

record wdf_parameters =
  req_type :: wdf_request_type
  FileAttributes :: u16
  OutputBufferLength :: nat
  InputBufferLength :: nat
  IoControlCode :: u32

definition zero_parameters :: wdf_parameters where
  "zero_parameters = \<lparr>req_type = WdfRequestTypeCreate, FileAttributes = 0, OutputBufferLength = 0,
     InputBufferLength = 0, IoControlCode = 0\<rparr>"

datatype usb_request_type = WdfUsbRequestTypePipeWrite | WdfUsbRequestTypePipeRead

record usb_completion =
  UsbdStatus :: u32
  usb_type :: usb_request_type
  usb_Length :: nat
  usb_Offset :: nat

record completion_params =
  compl_type :: wdf_request_type
  IoStatus_Status :: u32
  IoStatus_Information :: nat
  Usb_Completion :: "usb_completion option"

type_synonym completion = "u32 \<times> completion_params option"

text \<open>
  \<open>struct winwdf_request\<close>.  The functions the request is configured with work on a state \<open>'w\<close> of their
  own, which stands for \<open>context\<close>, \<open>data\<close> and what they reach; they may complete the request while
  they run.  \<open>callbacks\<close> is the chain from \<open>callbacks_head\<close>, each node under its address, \<open>cb_live\<close> the
  nodes that are allocated, \<open>next_cb\<close> the allocator (addresses are not used twice).  Ghost: \<open>calls\<close>,
  the callbacks called so far with the status they were given.
\<close>

record 'w request =
  is_configured :: bool
  is_started :: bool
  is_done :: bool
  is_resetting :: bool
  rq_status :: u32
  start_fnc :: "(int \<Rightarrow> 'w \<Rightarrow> u32 \<times> completion option \<times> 'w) option"
  cancel_fnc :: "('w \<Rightarrow> completion option \<times> 'w) option"
  cleanup_fnc :: "('w \<Rightarrow> 'w) option"
  io_queue :: "nat option"
  drv_cancel :: "('w \<Rightarrow> completion option \<times> 'w) option"
  rq_params :: wdf_parameters
  compl_params :: "completion_params option"
  in_buf :: "byte list option"
  out_buf :: "byte list option"
  in_buf_size :: nat
  out_buf_size :: nat
  drv_info :: u64
  callbacks :: "(nat \<times> nat) list"
  cb_live :: "nat \<Rightarrow> bool"
  next_cb :: nat
  calls :: "(nat \<times> u32) list"
  rq_world :: 'w

text \<open>
  \<open>wdf_create_request\<close>; what the code leaves indeterminate is not read before the request is
  configured.
\<close>

definition wdf_create_request :: "'w \<Rightarrow> 'w request" where
  "wdf_create_request w =
     \<lparr>is_configured = False, is_started = False, is_done = False, is_resetting = False,
      rq_status = STATUS_SUCCESS, start_fnc = None, cancel_fnc = None, cleanup_fnc = None,
      io_queue = None, drv_cancel = None, rq_params = zero_parameters, compl_params = None,
      in_buf = None, out_buf = None, in_buf_size = 0, out_buf_size = 0, drv_info = 0,
      callbacks = [], cb_live = (\<lambda>_. False), next_cb = 0, calls = [], rq_world = w\<rparr>"

section \<open>Completion and callbacks\<close>

text \<open>The walk over the chain of callbacks; a node that was freed is read all the same.\<close>

fun call_callbacks :: "u32 \<Rightarrow> (nat \<times> nat) list \<Rightarrow> 'w request \<Rightarrow> 'w request result" where
  "call_callbacks status [] st = Inr st"
| "call_callbacks status ((a, cb) # cs) st =
     (if cb_live st a then call_callbacks status cs (st\<lparr>calls := calls st @ [(cb, status)]\<rparr>)
      else Inl Fault)"

definition wdf_complete_request ::
    "u32 \<Rightarrow> completion_params option \<Rightarrow> 'w request \<Rightarrow> 'w request result" where
  "wdf_complete_request status p st =
     (if \<not> is_configured st \<or> \<not> is_started st \<or> is_done st then Inr st
      else
        let st1 = st\<lparr>is_done := True, rq_status := status, compl_params := p\<rparr> in
        call_callbacks status (callbacks st1) st1)"

definition winwdf_add_request_callback :: "nat \<Rightarrow> 'w request \<Rightarrow> 'w request" where
  "winwdf_add_request_callback cb st =
     (if \<not> is_configured st then st
      else if is_started st \<and> is_done st then st\<lparr>calls := calls st @ [(cb, rq_status st)]\<rparr>
      else st\<lparr>callbacks := (next_cb st, cb) # callbacks st,
             cb_live := (cb_live st)(next_cb st := True), next_cb := Suc (next_cb st)\<rparr>)"

text \<open>A completion that a function of the request performs while it runs, if it does.\<close>

definition deliver :: "completion option \<Rightarrow> 'w request \<Rightarrow> 'w request result" where
  "deliver fin st = (case fin of None \<Rightarrow> Inr st | Some (s, p) \<Rightarrow> wdf_complete_request s p st)"

text \<open>
  A loop on the condition variable: it ends when the condition is false, and only a completion
  signals it.
\<close>

definition cond_wait ::
    "('w request \<Rightarrow> bool) \<Rightarrow> completion option \<Rightarrow> 'w request \<Rightarrow> 'w request result" where
  "cond_wait waits later st =
     (if \<not> waits st then Inr st
      else res_bind (deliver later st) (\<lambda>st1. if waits st1 then Inl Hang else Inr st1))"

definition running :: "'w request \<Rightarrow> bool" where
  "running st \<longleftrightarrow> is_configured st \<and> is_started st \<and> \<not> is_done st"

definition call_cancel ::
    "('w \<Rightarrow> completion option \<times> 'w) option \<Rightarrow> 'w request \<Rightarrow> 'w request result" where
  "call_cancel f st =
     (case f of
        None \<Rightarrow> Inr st
      | Some g \<Rightarrow> (case g (rq_world st) of (fin, w) \<Rightarrow> deliver fin (st\<lparr>rq_world := w\<rparr>)))"

definition winwdf_cancel_request :: "'w request \<Rightarrow> 'w request result" where
  "winwdf_cancel_request st =
     (if \<not> is_configured st \<or> \<not> is_started st then Inr st
      else if \<not> is_done st
      then res_bind (call_cancel (drv_cancel st) st) (\<lambda>st1. call_cancel (cancel_fnc st1) st1)
      else Inr st)"

section \<open>Configuring, resetting, starting\<close>

text \<open>The callbacks are freed, but the head of their chain is kept.\<close>

fun free_callbacks :: "(nat \<times> nat) list \<Rightarrow> 'w request \<Rightarrow> 'w request result" where
  "free_callbacks [] st = Inr st"
| "free_callbacks ((a, cb) # cs) st =
     (if cb_live st a then free_callbacks cs (st\<lparr>cb_live := (cb_live st)(a := False)\<rparr>) else Inl Fault)"

definition run_cleanup :: "'w request \<Rightarrow> 'w request" where
  "run_cleanup st =
     (case cleanup_fnc st of None \<Rightarrow> st | Some f \<Rightarrow> st\<lparr>rq_world := f (rq_world st)\<rparr>)"

definition wdf_reset_request :: "completion option \<Rightarrow> 'w request \<Rightarrow> 'w request result" where
  "wdf_reset_request later st =
     (if \<not> is_configured st \<or> is_resetting st then cond_wait running later st
      else
        let st1 = st\<lparr>is_resetting := True\<rparr> in
        res_bind (if is_started st1 \<and> \<not> is_done st1 then winwdf_cancel_request st1 else Inr st1) (\<lambda>st2.
        res_bind (cond_wait running later st2) (\<lambda>st3.
        let st4 = (run_cleanup st3)
              \<lparr>is_configured := False, is_started := False, is_done := False, is_resetting := False,
               rq_status := STATUS_SUCCESS, compl_params := None, io_queue := None, drv_cancel := None,
               in_buf := None, out_buf := None, drv_info := 0\<rparr> in
        free_callbacks (callbacks st4) st4)))"

text \<open>Fresh memory is indeterminate; the model fills it with zeros.\<close>

definition malloc_buf :: "nat \<Rightarrow> byte list option" where
  "malloc_buf n = (if n > 0 then Some (replicate n 0) else None)"

definition wdf_configure_request ::
    "completion option \<Rightarrow> nat option \<Rightarrow> nat \<Rightarrow> nat \<Rightarrow>
      (int \<Rightarrow> 'w \<Rightarrow> u32 \<times> completion option \<times> 'w) option \<Rightarrow>
      ('w \<Rightarrow> completion option \<times> 'w) option \<Rightarrow> ('w \<Rightarrow> 'w) option \<Rightarrow>
      wdf_parameters option \<Rightarrow> 'w request \<Rightarrow> 'w request result" where
  "wdf_configure_request later queue in_size out_size start cancel cleanup ps st =
     res_bind (cond_wait running later st) (\<lambda>st1.
     res_bind (if is_configured st1 then wdf_reset_request None st1 else Inr st1) (\<lambda>st2.
     Inr (st2\<lparr>is_configured := True, is_started := False, is_done := False, is_resetting := False,
        rq_status := STATUS_SUCCESS,
        start_fnc := start, cancel_fnc := cancel, cleanup_fnc := cleanup,
        io_queue := queue, drv_cancel := None,
        rq_params := (case ps of None \<Rightarrow> zero_parameters | Some p \<Rightarrow> p), compl_params := None,
        in_buf := malloc_buf in_size, in_buf_size := in_size,
        out_buf := malloc_buf out_size, out_buf_size := out_size, drv_info := 0\<rparr>)))"

text \<open>The start function runs while \<open>is_started\<close> is still false.\<close>

definition call_start :: "int \<Rightarrow> 'w request \<Rightarrow> 'w request result" where
  "call_start timeout st =
     (case start_fnc st of
        None \<Rightarrow> Inr (st\<lparr>rq_status := 0\<rparr>)
      | Some f \<Rightarrow>
          (case f timeout (rq_world st) of (s, fin, w) \<Rightarrow>
           res_bind (deliver fin (st\<lparr>rq_world := w\<rparr>)) (\<lambda>st1. Inr (st1\<lparr>rq_status := s\<rparr>))))"

definition wdf_start_request :: "int \<Rightarrow> 'w request \<Rightarrow> 'w request result" where
  "wdf_start_request timeout st =
     (if is_configured st \<and> \<not> is_started st
      then res_bind (call_start timeout st) (\<lambda>st1. Inr (st1\<lparr>is_started := True\<rparr>))
      else Inr st)"

definition winwdf_wait_request :: "completion option \<Rightarrow> 'w request \<Rightarrow> (u32 \<times> 'w request) result" where
  "winwdf_wait_request later st =
     (if is_configured st
      then res_bind (cond_wait (\<lambda>st. is_configured st \<and> \<not> is_done st) later st) (\<lambda>st1. Inr (rq_status st1, st1))
      else Inr (WINERR_SET_CODE, st))"

text \<open>\<open>req_destr\<close>: the request is reset and freed; what is left is the state of its functions.\<close>

definition req_destr :: "completion option \<Rightarrow> 'w request \<Rightarrow> 'w result" where
  "req_destr later st = res_bind (wdf_reset_request later st) (\<lambda>st1. Inr (rq_world st1))"

section \<open>Reading a request\<close>

definition winwdf_get_request_info ::
    "'w request \<Rightarrow> (u32 \<times> byte list option \<times> nat \<times> byte list option \<times> nat \<times> u64) option" where
  "winwdf_get_request_info st =
     (if \<not> is_configured st \<or> \<not> is_started st then None
      else Some (rq_status st, in_buf st, in_buf_size st, out_buf st, out_buf_size st, drv_info st))"

definition wdf_get_request_status :: "'w request \<Rightarrow> u32" where
  "wdf_get_request_status st =
     (if is_configured st \<and> is_started st \<and> is_done st then rq_status st else WINERR_SET_CODE)"

definition wdf_get_request_in_buf :: "'w request \<Rightarrow> byte list option" where
  "wdf_get_request_in_buf st = (if is_configured st then in_buf st else None)"

definition wdf_get_request_out_buf :: "'w request \<Rightarrow> byte list option" where
  "wdf_get_request_out_buf st = (if is_configured st then out_buf st else None)"

definition wdf_get_info :: "'w request \<Rightarrow> u64" where
  "wdf_get_info st = (if is_configured st then drv_info st else 0)"

section \<open>The functions of the driver\<close>

definition WdfRequestCreate :: "'w \<Rightarrow> u32 \<times> 'w request" where
  "WdfRequestCreate w = (STATUS_SUCCESS, wdf_create_request w)"

definition WdfRequestMarkCancelable ::
    "('w \<Rightarrow> completion option \<times> 'w) \<Rightarrow> 'w request \<Rightarrow> u32 \<times> 'w request" where
  "WdfRequestMarkCancelable f st =
     (if is_configured st then (STATUS_SUCCESS, st\<lparr>drv_cancel := Some f\<rparr>) else (WINERR_SET_CODE, st))"

definition WdfRequestUnmarkCancelable :: "'w request \<Rightarrow> u32 \<times> 'w request" where
  "WdfRequestUnmarkCancelable st =
     (if is_configured st then (STATUS_SUCCESS, st\<lparr>drv_cancel := None\<rparr>) else (WINERR_SET_CODE, st))"

definition WDF_REQUEST_SEND_OPTION_TIMEOUT :: u32 where "WDF_REQUEST_SEND_OPTION_TIMEOUT = 1"
definition WDF_REQUEST_SEND_OPTION_SYNCHRONOUS :: u32 where "WDF_REQUEST_SEND_OPTION_SYNCHRONOUS = 2"

record send_options =
  opt_Flags :: u32
  opt_Timeout :: u64

text \<open>A relative timeout is negative, in units of 100 ns; an absolute one is ignored.\<close>

definition send_timeout :: "send_options \<Rightarrow> int" where
  "send_timeout opts =
     (if opt_Flags opts AND WDF_REQUEST_SEND_OPTION_TIMEOUT \<noteq> 0 \<and> sint (opt_Timeout opts) < 0
      then signed_take_bit 31 (- sint (opt_Timeout opts) div 10000) else -1)"

definition WdfRequestSend ::
    "completion option \<Rightarrow> send_options \<Rightarrow> 'w request \<Rightarrow> (bool \<times> 'w request) result" where
  "WdfRequestSend later opts st =
     (if \<not> is_configured st \<or> is_started st then Inr (False, st)
      else
        res_bind (call_start (send_timeout opts) st) (\<lambda>st1.
        if rq_status st1 = STATUS_SUCCESS
        then
          let st2 = st1\<lparr>is_started := True\<rparr> in
          if opt_Flags opts AND WDF_REQUEST_SEND_OPTION_SYNCHRONOUS \<noteq> 0
          then res_bind (cond_wait (\<lambda>st. is_configured st \<and> \<not> is_done st) later st2) (\<lambda>st3.
                 Inr (rq_status st3 = STATUS_SUCCESS, st3))
          else Inr (True, st2)
        else Inr (False, st1\<lparr>is_done := True\<rparr>)))"

definition WdfRequestGetStatus :: "'w request \<Rightarrow> u32" where
  "WdfRequestGetStatus st =
     (if is_configured st \<and> is_started st \<and> is_done st then rq_status st else WINERR_SET_CODE)"

definition WdfRequestGetIoQueue :: "'w request \<Rightarrow> nat option" where
  "WdfRequestGetIoQueue st = (if is_configured st then io_queue st else None)"

definition WdfRequestGetParameters :: "'w request \<Rightarrow> wdf_parameters" where
  "WdfRequestGetParameters st = (if is_configured st then rq_params st else zero_parameters)"

text \<open>The parameters of the completion are read through their pointer without a check.\<close>

definition WdfRequestGetCompletionParams ::
    "'w request \<Rightarrow> (u32 \<times> completion_params option) result" where
  "WdfRequestGetCompletionParams st =
     (if is_configured st \<and> is_started st \<and> is_done st
      then (case compl_params st of None \<Rightarrow> Inl Fault | Some p \<Rightarrow> Inr (STATUS_SUCCESS, Some p))
      else Inr (WINERR_SET_CODE, None))"

definition WdfRequestRetrieveInputBuffer ::
    "nat \<Rightarrow> 'w request \<Rightarrow> u32 \<times> (byte list option \<times> nat) option" where
  "WdfRequestRetrieveInputBuffer min_len st =
     (if is_configured st
      then if in_buf_size st < min_len then (STATUS_BUFFER_TOO_SMALL, None)
           else (STATUS_SUCCESS, Some (in_buf st, in_buf_size st))
      else (WINERR_SET_CODE, None))"

definition WdfRequestRetrieveOutputBuffer ::
    "nat \<Rightarrow> 'w request \<Rightarrow> u32 \<times> (byte list option \<times> nat) option" where
  "WdfRequestRetrieveOutputBuffer min_len st =
     (if is_configured st
      then if out_buf_size st < min_len then (STATUS_BUFFER_TOO_SMALL, None)
           else (STATUS_SUCCESS, Some (out_buf st, out_buf_size st))
      else (WINERR_SET_CODE, None))"

definition WdfRequestGetInformation :: "'w request \<Rightarrow> u64" where
  "WdfRequestGetInformation st = (if is_configured st then drv_info st else 0)"

definition WdfRequestSetInformation :: "u64 \<Rightarrow> 'w request \<Rightarrow> 'w request" where
  "WdfRequestSetInformation info st = (if is_configured st then st\<lparr>drv_info := info\<rparr> else st)"

definition WdfRequestComplete :: "u32 \<Rightarrow> 'w request \<Rightarrow> 'w request result" where
  "WdfRequestComplete status st = wdf_complete_request status None st"

text \<open>What the driver puts into an output buffer it retrieved.\<close>

definition store_out_buf :: "byte list \<Rightarrow> 'w request \<Rightarrow> 'w request result" where
  "store_out_buf data st =
     (case out_buf st of
        None \<Rightarrow> if data = [] then Inr st else Inl Fault
      | Some b \<Rightarrow> if length data \<le> length b then Inr (st\<lparr>out_buf := Some (splice b 0 data)\<rparr>) else Inl Fault)"

section \<open>The chain of callbacks\<close>

definition chain_ok :: "'w request \<Rightarrow> bool" where
  "chain_ok st \<longleftrightarrow> distinct (map fst (callbacks st)) \<and>
     (\<forall>a \<in> fst ` set (callbacks st). cb_live st a \<and> a < next_cb st)"

lemma call_callbacks_live:
  "\<forall>a \<in> fst ` set cs. cb_live st a \<Longrightarrow>
    call_callbacks s cs st = Inr (st\<lparr>calls := calls st @ map (\<lambda>(a, cb). (cb, s)) cs\<rparr>)"
  by (induction cs arbitrary: st) auto

lemma call_callbacks_dead:
  "cs \<noteq> [] \<Longrightarrow> \<forall>a \<in> fst ` set cs. \<not> cb_live st a \<Longrightarrow> call_callbacks s cs st = Inl Fault"
  by (cases cs) auto

lemma free_callbacks_live:
  "distinct (map fst cs) \<Longrightarrow> \<forall>a \<in> fst ` set cs. cb_live st a \<Longrightarrow>
    free_callbacks cs st = Inr (st\<lparr>cb_live := (\<lambda>a. cb_live st a \<and> a \<notin> fst ` set cs)\<rparr>)"
proof (induction cs arbitrary: st)
  case Nil
  show ?case by simp
next
  case (Cons c cs)
  obtain a cb where c: "c = (a, cb)" by (cases c)
  let ?st = "st\<lparr>cb_live := (cb_live st)(a := False)\<rparr>"
  have "free_callbacks cs ?st = Inr (?st\<lparr>cb_live := (\<lambda>x. cb_live ?st x \<and> x \<notin> fst ` set cs)\<rparr>)"
    using Cons.prems c by (intro Cons.IH) auto
  moreover have "(\<lambda>x. cb_live ?st x \<and> x \<notin> fst ` set cs) = (\<lambda>x. cb_live st x \<and> x \<notin> fst ` set (c # cs))"
    using c by auto
  ultimately show ?case using Cons.prems c by simp
qed

lemma complete_ok:
  "chain_ok st \<Longrightarrow> running st \<Longrightarrow> wdf_complete_request s p st =
    Inr (st\<lparr>is_done := True, rq_status := s, compl_params := p,
        calls := calls st @ map (\<lambda>(a, cb). (cb, s)) (callbacks st)\<rparr>)"
  by (simp add: wdf_complete_request_def running_def chain_ok_def call_callbacks_live)

lemma complete_not_running: "\<not> running st \<Longrightarrow> wdf_complete_request s p st = Inr st"
  by (auto simp: wdf_complete_request_def running_def)

section \<open>One use of a request\<close>

text \<open>What its owner and the driver do with a configured request.\<close>

datatype 'w request_op =
  Op_start int | Op_complete u32 "completion_params option" | Op_add nat | Op_cancel
| Op_mark "'w \<Rightarrow> completion option \<times> 'w" | Op_unmark | Op_info u64

fun do_request :: "'w request_op \<Rightarrow> 'w request \<Rightarrow> 'w request result" where
  "do_request (Op_start t) st = wdf_start_request t st"
| "do_request (Op_complete s p) st = wdf_complete_request s p st"
| "do_request (Op_add cb) st = Inr (winwdf_add_request_callback cb st)"
| "do_request Op_cancel st = winwdf_cancel_request st"
| "do_request (Op_mark f) st = Inr (snd (WdfRequestMarkCancelable f st))"
| "do_request Op_unmark st = Inr (snd (WdfRequestUnmarkCancelable st))"
| "do_request (Op_info i) st = Inr (WdfRequestSetInformation i st)"

fun request_run :: "'w request_op list \<Rightarrow> 'w request \<Rightarrow> 'w request result" where
  "request_run [] st = Inr st"
| "request_run (x # xs) st = res_bind (do_request x st) (request_run xs)"

fun added :: "'w request_op list \<Rightarrow> nat list" where
  "added [] = []"
| "added (Op_add cb # xs) = cb # added xs"
| "added (_ # xs) = added xs"

text \<open>\<open>ads\<close> are the callbacks added so far.\<close>

definition calls_inv :: "nat multiset \<Rightarrow> 'w request \<Rightarrow> bool" where
  "calls_inv ads st \<longleftrightarrow> is_configured st \<and> (is_done st \<longrightarrow> is_started st) \<and> chain_ok st \<and>
     (if is_done st then mset (calls st) = image_mset (\<lambda>cb. (cb, rq_status st)) ads
      else calls st = [] \<and> mset (map snd (callbacks st)) = ads)"

lemma calls_inv_complete:
  assumes "calls_inv ads st"
  shows "\<exists>st'. wdf_complete_request s p st = Inr st' \<and> calls_inv ads st' \<and> is_started st' = is_started st \<and>
    (is_started st \<longrightarrow> is_done st') \<and> (\<not> is_started st \<longrightarrow> st' = st)"
proof (cases "running st")
  case True
  have "mset (map (\<lambda>(a, cb). (cb, s)) cs) = image_mset (\<lambda>cb. (cb, s)) (mset (map snd cs))" for cs :: "(nat \<times> nat) list"
    by (simp add: multiset.map_comp comp_def case_prod_unfold)
  then have "mset (map (\<lambda>(a, cb). (cb, s)) (callbacks st)) = image_mset (\<lambda>cb. (cb, s)) ads"
    using assms True by (simp add: calls_inv_def running_def)
  then show ?thesis
    using assms True by (auto simp: calls_inv_def complete_ok running_def chain_ok_def)
next
  case False
  then show ?thesis using assms by (auto simp: complete_not_running calls_inv_def running_def)
qed

lemma calls_inv_deliver:
  assumes "calls_inv ads st"
  shows "\<exists>st'. deliver fin st = Inr st' \<and> calls_inv ads st' \<and> is_started st' = is_started st \<and>
    (\<not> is_started st \<longrightarrow> st' = st)"
proof (cases fin)
  case None
  then show ?thesis using assms by (simp add: deliver_def)
next
  case (Some c)
  obtain s p where "c = (s, p)" by (cases c)
  with calls_inv_complete[OF assms, of s p] Some show ?thesis by (auto simp: deliver_def)
qed

lemma calls_inv_world [simp]: "calls_inv ads (st\<lparr>rq_world := w\<rparr>) = calls_inv ads st"
  by (simp add: calls_inv_def chain_ok_def)

lemma calls_inv_drv_cancel [simp]: "calls_inv ads (st\<lparr>drv_cancel := f\<rparr>) = calls_inv ads st"
  by (simp add: calls_inv_def chain_ok_def)

lemma calls_inv_drv_info [simp]: "calls_inv ads (st\<lparr>drv_info := i\<rparr>) = calls_inv ads st"
  by (simp add: calls_inv_def chain_ok_def)

lemma calls_inv_call_cancel:
  assumes "calls_inv ads st"
  shows "\<exists>st'. call_cancel f st = Inr st' \<and> calls_inv ads st'"
proof (cases f)
  case None
  then show ?thesis using assms by (simp add: call_cancel_def)
next
  case (Some g)
  obtain fin w where g: "g (rq_world st) = (fin, w)" by force
  have "calls_inv ads (st\<lparr>rq_world := w\<rparr>)" using assms by simp
  from calls_inv_deliver[OF this, of fin] show ?thesis using Some g by (auto simp: call_cancel_def)
qed

lemma calls_inv_cancel:
  assumes "calls_inv ads st"
  shows "\<exists>st'. winwdf_cancel_request st = Inr st' \<and> calls_inv ads st'"
proof -
  obtain st1 where 1: "call_cancel (drv_cancel st) st = Inr st1" "calls_inv ads st1"
    using calls_inv_call_cancel[OF assms] by blast
  from calls_inv_call_cancel[OF 1(2), of "cancel_fnc st1"] 1 assms show ?thesis
    by (auto simp: winwdf_cancel_request_def)
qed

text \<open>A completion while the start function runs is dropped.\<close>

lemma call_start_drops:
  assumes "\<not> is_started st"
  shows "\<exists>s w. call_start t st = Inr (st\<lparr>rq_world := w, rq_status := s\<rparr>)"
proof (cases "start_fnc st")
  case None
  then have "call_start t st = Inr (st\<lparr>rq_world := rq_world st, rq_status := 0\<rparr>)"
    by (simp add: call_start_def)
  then show ?thesis by blast
next
  case (Some f)
  obtain s fin w where f: "f t (rq_world st) = (s, fin, w)" using prod_cases3 by blast
  have "deliver fin (st\<lparr>rq_world := w\<rparr>) = Inr (st\<lparr>rq_world := w\<rparr>)"
    using assms by (auto simp: deliver_def wdf_complete_request_def split: option.split)
  then show ?thesis using Some f by (auto simp: call_start_def)
qed

lemma calls_inv_start:
  assumes "calls_inv ads st"
  shows "\<exists>st'. wdf_start_request t st = Inr st' \<and> calls_inv ads st'"
proof (cases "is_started st")
  case True
  then show ?thesis using assms by (simp add: wdf_start_request_def)
next
  case False
  from call_start_drops[OF this, of t] obtain s w where
    "call_start t st = Inr (st\<lparr>rq_world := w, rq_status := s\<rparr>)" by blast
  moreover have "calls_inv ads (st\<lparr>rq_world := w, rq_status := s, is_started := True\<rparr>)"
    using assms False by (auto simp: calls_inv_def chain_ok_def)
  ultimately show ?thesis using assms False by (simp add: wdf_start_request_def calls_inv_def)
qed

lemma calls_inv_add:
  assumes "calls_inv ads st"
  shows "calls_inv (add_mset cb ads) (winwdf_add_request_callback cb st)"
  using assms by (auto simp: calls_inv_def winwdf_add_request_callback_def chain_ok_def)

lemma calls_inv_op:
  assumes "calls_inv ads st"
  shows "\<exists>st'. do_request x st = Inr st' \<and> calls_inv (ads + mset (added [x])) st'"
proof (cases x)
  case (Op_start t)
  then show ?thesis using calls_inv_start[OF assms, of t] by auto
next
  case (Op_complete s p)
  then show ?thesis using calls_inv_complete[OF assms, of s p] by auto
next
  case Op_cancel
  then show ?thesis using calls_inv_cancel[OF assms] by auto
qed (use assms in \<open>auto simp: WdfRequestMarkCancelable_def WdfRequestUnmarkCancelable_def
      WdfRequestSetInformation_def calls_inv_add\<close>)

lemma added_Cons: "added (x # xs) = added [x] @ added xs"
  by (cases x) auto

lemma calls_inv_run:
  assumes "calls_inv ads st"
  shows "\<exists>st'. request_run ops st = Inr st' \<and> calls_inv (ads + mset (added ops)) st'"
  using assms
proof (induction ops arbitrary: ads st)
  case Nil
  then show ?case by simp
next
  case (Cons x xs)
  obtain st1 where 1: "do_request x st = Inr st1" "calls_inv (ads + mset (added [x])) st1"
    using calls_inv_op[OF Cons.prems] by blast
  from Cons.IH[OF 1(2)] 1(1) show ?case
    by (auto simp: added_Cons[of x xs] ac_simps)
qed

lemma fresh_configured:
  "\<exists>st. wdf_configure_request later q n m sf cf clf ps (wdf_create_request w) = Inr st \<and> calls_inv {#} st"
  by (simp add: wdf_configure_request_def cond_wait_def running_def wdf_create_request_def calls_inv_def
      chain_ok_def)

section \<open>Start functions that do not complete\<close>

text \<open>
  A request with a start function relies on it: the completion must come later, from another thread.
  Then a synchronous send gives the status of that completion.
\<close>

locale deferred_start =
  fixes start :: "int \<Rightarrow> 'w \<Rightarrow> u32 \<times> completion option \<times> 'w"
    and ready :: "'w \<Rightarrow> bool"
  assumes never_inline: "start t w = (s, fin, w') \<Longrightarrow> fin = None"
    and starts: "ready w \<Longrightarrow> fst (start t w) = STATUS_SUCCESS"
begin

lemma start_ready:
  assumes "ready w"
  shows "\<exists>w'. start t w = (STATUS_SUCCESS, None, w')"
proof -
  obtain s fin w' where r: "start t w = (s, fin, w')" using prod_cases3 by blast
  show ?thesis using never_inline[OF r] starts[OF assms, of t] r by simp
qed

lemma call_start_ready:
  assumes "start_fnc st = Some start" and "ready (rq_world st)"
  shows "call_start t st =
    Inr (st\<lparr>rq_world := snd (snd (start t (rq_world st))), rq_status := STATUS_SUCCESS\<rparr>)"
  using start_ready[OF assms(2), of t] assms(1) by (auto simp: call_start_def deliver_def)

lemma sync_send_completes:
  assumes "is_configured st" and "\<not> is_started st" and "\<not> is_done st" and "chain_ok st"
    and "start_fnc st = Some start" and "ready (rq_world st)"
    and "opt_Flags opts AND WDF_REQUEST_SEND_OPTION_SYNCHRONOUS \<noteq> 0"
  shows "\<exists>st'. WdfRequestSend (Some (s, p)) opts st = Inr (s = STATUS_SUCCESS, st') \<and>
    WdfRequestGetStatus st' = s \<and> compl_params st' = p \<and>
    rq_world st' = snd (snd (start (send_timeout opts) (rq_world st))) \<and>
    calls st' = calls st @ map (\<lambda>(a, cb). (cb, s)) (callbacks st)"
proof -
  let ?w = "snd (snd (start (send_timeout opts) (rq_world st)))"
  let ?st = "st\<lparr>rq_world := ?w, rq_status := STATUS_SUCCESS, is_started := True\<rparr>"
  have "chain_ok ?st" "running ?st" using assms(1,3,4) by (simp_all add: chain_ok_def running_def)
  from complete_ok[OF this] show ?thesis
    using assms call_start_ready[OF assms(5,6)]
    by (simp add: WdfRequestSend_def cond_wait_def deliver_def Let_def WdfRequestGetStatus_def)
qed

lemma unanswered_send_hangs:
  assumes "is_configured st" and "\<not> is_started st" and "\<not> is_done st"
    and "start_fnc st = Some start" and "ready (rq_world st)"
    and "opt_Flags opts AND WDF_REQUEST_SEND_OPTION_SYNCHRONOUS \<noteq> 0"
  shows "WdfRequestSend None opts st = Inl Hang"
  using assms call_start_ready[OF assms(4,5)]
  by (simp add: WdfRequestSend_def cond_wait_def deliver_def Let_def)

end

section \<open>Properties\<close>


text \<open>
  A request that was used with callbacks cannot be used again: resetting it frees the callbacks
  but keeps the chain, so its next completion calls freed memory.
\<close>

theorem reused_request_calls_freed_callbacks:
  assumes "is_configured st" and "is_done st" and "\<not> is_resetting st"
    and "chain_ok st" and "callbacks st \<noteq> []"
  shows "\<exists>st1 st2. wdf_configure_request later q n m None cf clf ps st = Inr st1 \<and>
    wdf_start_request t st1 = Inr st2 \<and> wdf_complete_request s p st2 = Inl Fault"
proof -
  let ?dead = "\<lambda>a. cb_live st a \<and> a \<notin> fst ` set (callbacks st)"
  have "wdf_reset_request None st = Inr ((run_cleanup st)
      \<lparr>is_configured := False, is_started := False, is_done := False, is_resetting := False,
       rq_status := STATUS_SUCCESS, compl_params := None, io_queue := None, drv_cancel := None,
       in_buf := None, out_buf := None, drv_info := 0, cb_live := ?dead\<rparr>)"
    using assms
    by (auto simp: wdf_reset_request_def cond_wait_def running_def run_cleanup_def chain_ok_def
        free_callbacks_live split: option.split)
  moreover have "callbacks (run_cleanup st) = callbacks st"
    by (simp add: run_cleanup_def split: option.split)
  ultimately show ?thesis
    using assms
    by (simp add: wdf_configure_request_def cond_wait_def running_def wdf_start_request_def call_start_def
        wdf_complete_request_def call_callbacks_dead)
qed

theorem reused_request_calls_freed_callbacks_witness:
  "\<exists>st st1 st2.
     res_bind (wdf_configure_request None None 0 0 None None None None (wdf_create_request ()))
       (request_run [Op_add 7, Op_start 0, Op_complete 0 None]) = Inr st \<and>
     wdf_configure_request None None 0 0 None None None None st = Inr st1 \<and>
     wdf_start_request 0 st1 = Inr st2 \<and> wdf_complete_request 0 None st2 = Inl Fault"
proof -
  let ?st = "\<lparr>is_configured = True, is_started = True, is_done = True, is_resetting = False, rq_status = 0,
      start_fnc = None, cancel_fnc = None, cleanup_fnc = None, io_queue = None, drv_cancel = None,
      rq_params = zero_parameters, compl_params = None, in_buf = None, out_buf = None, in_buf_size = 0,
      out_buf_size = 0, drv_info = 0, callbacks = [(0, 7)], cb_live = (\<lambda>_. False)(0 := True), next_cb = 1,
      calls = [(7, 0)], rq_world = ()\<rparr>"
  have "res_bind (wdf_configure_request None None 0 0 None None None None (wdf_create_request ()))
      (request_run [Op_add 7, Op_start 0, Op_complete 0 None]) = Inr ?st"
    by (simp add: wdf_configure_request_def cond_wait_def running_def wdf_create_request_def malloc_buf_def
        winwdf_add_request_callback_def wdf_start_request_def call_start_def wdf_complete_request_def)
  moreover have "\<exists>st1 st2. wdf_configure_request None None 0 0 None None None None ?st = Inr st1 \<and>
      wdf_start_request 0 st1 = Inr st2 \<and> wdf_complete_request 0 None st2 = Inl Fault"
    by (rule reused_request_calls_freed_callbacks) (simp_all add: chain_ok_def)
  ultimately show ?thesis by blast
qed

text \<open>
  A start function that completes its request at once loses the completion: a synchronous send
  then waits for ever.
\<close>

theorem inline_completion_is_lost:
  assumes "is_configured st" and "\<not> is_started st" and "\<not> is_done st" and "start_fnc st = Some f"
    and "f (send_timeout opts) (rq_world st) = (STATUS_SUCCESS, Some c, w)"
    and "opt_Flags opts AND WDF_REQUEST_SEND_OPTION_SYNCHRONOUS \<noteq> 0"
  shows "WdfRequestSend None opts st = Inl Hang"
proof -
  have "deliver (Some c) (st\<lparr>rq_world := w\<rparr>) = Inr (st\<lparr>rq_world := w\<rparr>)"
    using assms(2) by (simp add: deliver_def wdf_complete_request_def split: prod.split)
  then show ?thesis
    using assms by (simp add: WdfRequestSend_def call_start_def cond_wait_def Let_def) (simp add: deliver_def)
qed

theorem inline_completion_is_lost_witness:
  "\<exists>st. wdf_configure_request None None 0 0 (Some (\<lambda>t w. (STATUS_SUCCESS, Some (0, None), w))) None None None
     (wdf_create_request ()) = Inr st \<and>
    WdfRequestSend None \<lparr>opt_Flags = 2, opt_Timeout = 0\<rparr> st = Inl Hang"
proof -
  let ?f = "\<lambda>(t :: int) (w :: unit). (STATUS_SUCCESS, Some (0 :: u32, None :: completion_params option), w)"
  obtain st where st: "wdf_configure_request None None 0 0 (Some ?f) None None None (wdf_create_request ()) = Inr st"
    "is_configured st" "\<not> is_started st" "\<not> is_done st" "start_fnc st = Some ?f"
    by (auto simp: wdf_configure_request_def cond_wait_def running_def wdf_create_request_def)
  have "WdfRequestSend None \<lparr>opt_Flags = 2, opt_Timeout = 0\<rparr> st = Inl Hang"
    by (rule inline_completion_is_lost[OF st(2-5)]) (simp_all add: WDF_REQUEST_SEND_OPTION_SYNCHRONOUS_def)
  with st(1) show ?thesis by blast
qed

text \<open>
  After a send that could not be started, a second send that succeeds counts as done at once:
  waiting for it returns the status of the start, and the completion that follows is dropped.
\<close>

theorem resend_counts_as_done:
  assumes "is_configured st" and "\<not> is_started st"
    and "start_fnc st = Some f"
    and "f (send_timeout opts) (rq_world st) = (s0, None, w)" and "s0 \<noteq> STATUS_SUCCESS"
    and "f (send_timeout opts) w = (STATUS_SUCCESS, None, w')"
  shows "\<exists>st1 st2. WdfRequestSend None opts st = Inr (False, st1) \<and>
    WdfRequestSend None opts st1 = Inr (True, st2) \<and>
    winwdf_wait_request None st2 = Inr (STATUS_SUCCESS, st2) \<and> wdf_complete_request s p st2 = Inr st2"
  using assms
  by (simp add: WdfRequestSend_def call_start_def deliver_def Let_def winwdf_wait_request_def cond_wait_def
      wdf_complete_request_def)

theorem resend_counts_as_done_witness:
  "\<exists>st st1 st2. wdf_configure_request None None 0 0
      (Some (\<lambda>t w. (if w then STATUS_SUCCESS else WINERR_SET_CODE, None, True))) None None None
      (wdf_create_request False) = Inr st \<and>
    WdfRequestSend None \<lparr>opt_Flags = 0, opt_Timeout = 0\<rparr> st = Inr (False, st1) \<and>
    WdfRequestSend None \<lparr>opt_Flags = 0, opt_Timeout = 0\<rparr> st1 = Inr (True, st2) \<and>
    wdf_complete_request 5 None st2 = Inr st2"
proof -
  let ?f = "\<lambda>(t :: int) w. (if w then STATUS_SUCCESS else WINERR_SET_CODE, None :: completion option, True)"
  obtain st where st: "wdf_configure_request None None 0 0 (Some ?f) None None None (wdf_create_request False) = Inr st"
    "is_configured st" "\<not> is_started st" "start_fnc st = Some ?f" "rq_world st = False"
    by (auto simp: wdf_configure_request_def cond_wait_def running_def wdf_create_request_def)
  show ?thesis
    using st(1) resend_counts_as_done[OF st(2-4), where opts = "\<lparr>opt_Flags = 0, opt_Timeout = 0\<rparr>" and
        ?s0.0 = WINERR_SET_CODE and w = True and w' = True and s = 5 and p = None] st(5)
    by (auto simp: WINERR_SET_CODE_def STATUS_SUCCESS_def)
qed

end
