(* ===== verification/Wdf_Hid.thy ===== *)
theory Wdf_Hid
  imports Wdf_Request
begin

text \<open>
  The HID transport (\<open>libtudor/src/winapi/wdf/hid.c\<close>): the messages of the sensor are cut into HID output
  reports and put together again from input reports.  \<open>write\<close>, \<open>ioctl\<close>, \<open>poll\<close> and \<open>read\<close> on the hidraw
  device are inputs of the model: which attempts to send fail, and what arrives.
\<close>

section \<open>Reports\<close>

definition HID_REPORT_OUT_ID :: byte where "HID_REPORT_OUT_ID = 0x0E"
definition HID_REPORT_IN_ID :: byte where "HID_REPORT_IN_ID = 0x0F"
definition HID_REPORT_STATUS_ID :: byte where "HID_REPORT_STATUS_ID = 0x10"
definition HID_REPORT_FEATURE_ID :: byte where "HID_REPORT_FEATURE_ID = 0x11"

definition HID_REPORT_OUT_SIZE :: nat where "HID_REPORT_OUT_SIZE = 20"
definition HID_REPORT_IN_SIZE :: nat where "HID_REPORT_IN_SIZE = 64"
definition HID_REPORT_FEATURE_SIZE :: nat where "HID_REPORT_FEATURE_SIZE = 20"
definition HID_OUT_DATA_SIZE :: nat where "HID_OUT_DATA_SIZE = 19"

definition SYNAPTIC_MAGIC :: "byte list" where
  "SYNAPTIC_MAGIC = [0x73, 0x79, 0x6E, 0x61, 0x70, 0x74, 0x69, 0x63]"

definition FRAME_SINGLE :: u16 where "FRAME_SINGLE = 0xC0FF"
definition FRAME_FIRST :: u16 where "FRAME_FIRST = 0x4000"
definition FRAME_LAST :: u16 where "FRAME_LAST = 0x80FF"
definition MAX_FRAG :: nat where "MAX_FRAG = 248"

lemmas hid_consts = HID_REPORT_OUT_ID_def HID_REPORT_IN_ID_def HID_REPORT_STATUS_ID_def
  HID_REPORT_FEATURE_ID_def HID_REPORT_OUT_SIZE_def HID_REPORT_IN_SIZE_def
  HID_REPORT_FEATURE_SIZE_def HID_OUT_DATA_SIZE_def FRAME_SINGLE_def FRAME_FIRST_def FRAME_LAST_def
  MAX_FRAG_def

text \<open>\<open>memset\<close> to zero, then the contents from the front.\<close>

definition padded :: "nat \<Rightarrow> byte list \<Rightarrow> byte list" where
  "padded n bs = bs @ replicate (n - length bs) 0"

text \<open>
  What poll and read give, one event at a time: \<open>Report r\<close> is a report that waits to be read, \<open>Read_fail\<close>
  a read that gives nothing or an error.  When the list is at its end nothing arrives any more, and
  every poll times out.
\<close>

datatype hid_event = Poll_fail | Poll_timeout | Read_fail | Report "byte list"

text \<open>The hidraw device: what was sent, which attempts fail, and what will arrive.\<close>

record hidraw =
  written :: "byte list list"
  features :: "byte list list"
  attempts :: nat
  send_fails :: "nat \<Rightarrow> bool"
  arriving :: "hid_event list"

definition hid_write :: "byte list \<Rightarrow> hidraw \<Rightarrow> bool \<times> hidraw" where
  "hid_write r fd =
     (if send_fails fd (attempts fd) then (False, fd\<lparr>attempts := Suc (attempts fd)\<rparr>)
      else (True, fd\<lparr>written := written fd @ [r], attempts := Suc (attempts fd)\<rparr>))"

definition hid_set_feature :: "byte list \<Rightarrow> hidraw \<Rightarrow> bool \<times> hidraw" where
  "hid_set_feature r fd =
     (if send_fails fd (attempts fd) then (False, fd\<lparr>attempts := Suc (attempts fd)\<rparr>)
      else (True, fd\<lparr>features := features fd @ [r], attempts := Suc (attempts fd)\<rparr>))"

section \<open>Initialising the sensor\<close>

definition init_report :: "byte list \<Rightarrow> byte list" where
  "init_report cmd =
     padded HID_REPORT_FEATURE_SIZE
       (HID_REPORT_FEATURE_ID # SYNAPTIC_MAGIC @ word_le 4 (word_of_nat (length cmd) :: u32) @ cmd)"

text \<open>Pending reports are dropped until none arrives for a moment.\<close>

fun drain :: "hid_event list \<Rightarrow> hid_event list" where
  "drain [] = []"
| "drain (Report r # evs) = drain evs"
| "drain (ev # evs) = evs"

definition hid_init_sensor :: "hidraw \<Rightarrow> bool \<times> hidraw" where
  "hid_init_sensor fd =
     (case hid_set_feature (init_report [0x81, 0x01]) fd of (ok, fd1) \<Rightarrow>
      if \<not> ok then (False, fd1)
      else
        (case hid_set_feature (init_report [0x0F]) fd1 of (ok2, fd2) \<Rightarrow>
         if \<not> ok2 then (False, fd2)
         else (True, fd2\<lparr>arriving := drain (arriving fd2)\<rparr>)))"

section \<open>Sending\<close>

text \<open>The continuation reports of a frame, from \<open>off\<close> on.\<close>

function hid_write_rest :: "byte list \<Rightarrow> nat \<Rightarrow> hidraw \<Rightarrow> bool \<times> hidraw" where
  "hid_write_rest chunk off fd =
     (if off < length chunk then
        let n = min (length chunk - off) HID_OUT_DATA_SIZE;
            report = padded HID_REPORT_OUT_SIZE (HID_REPORT_OUT_ID # take n (drop off chunk)) in
        (case hid_write report fd of (ok, fd1) \<Rightarrow>
         if \<not> ok then (False, fd1) else hid_write_rest chunk (off + n) fd1)
      else (True, fd))"
  by pat_completeness auto
termination
  by (relation "measure (\<lambda>(chunk, off, _). length chunk - off)") (auto simp: HID_OUT_DATA_SIZE_def)

definition first_report :: "byte list \<Rightarrow> u16 \<Rightarrow> byte list" where
  "first_report chunk framing =
     padded HID_REPORT_OUT_SIZE
       (HID_REPORT_OUT_ID # SYNAPTIC_MAGIC @ word_le 4 (2 + word_of_nat (length chunk) :: u32) @
        word_le 2 framing @ take 5 chunk)"

definition hid_write_one_frame :: "byte list \<Rightarrow> u16 \<Rightarrow> hidraw \<Rightarrow> bool \<times> hidraw" where
  "hid_write_one_frame chunk framing fd =
     (case hid_write (first_report chunk framing) fd of (ok, fd1) \<Rightarrow>
      if \<not> ok then (False, fd1) else hid_write_rest chunk (min (length chunk) 5) fd1)"

text \<open>The frames of a long message; \<open>idx\<close> is an \<open>int\<close> that is cut to 16 bits.\<close>

function hid_send_frames :: "byte list \<Rightarrow> nat \<Rightarrow> nat \<Rightarrow> hidraw \<Rightarrow> bool \<times> hidraw" where
  "hid_send_frames data off idx fd =
     (if off < length data then
        let last = min (off + MAX_FRAG) (length data);
            framing = (if idx = 0 then FRAME_FIRST
                       else if length data \<le> last then FRAME_LAST
                       else word_of_nat idx) in
        (case hid_write_one_frame (take (last - off) (drop off data)) framing fd of (ok, fd1) \<Rightarrow>
         if \<not> ok then (False, fd1) else hid_send_frames data last (Suc idx) fd1)
      else (True, fd))"
  by pat_completeness auto
termination
  by (relation "measure (\<lambda>(data, off, _). length data - off)") (auto simp: MAX_FRAG_def)

declare hid_write_rest.simps [simp del] hid_send_frames.simps [simp del]

definition hid_send_vcsfw :: "byte list \<Rightarrow> hidraw \<Rightarrow> bool \<times> hidraw" where
  "hid_send_vcsfw data fd =
     (if length data \<le> MAX_FRAG then hid_write_one_frame data FRAME_SINGLE fd
      else hid_send_frames data 0 0 fd)"

section \<open>Receiving\<close>

text \<open>
  The state of the loop: the bytes in the buffer, how many are there, the length of the response, and
  whether its first report was seen.
\<close>

record hid_recv =
  rx_buf :: "byte list"
  rx_total :: nat
  payload_len :: nat
  got_header :: bool

text \<open>A store into the caller's memory.\<close>

definition rx_store :: "byte list \<Rightarrow> hid_recv \<Rightarrow> hid_recv result" where
  "rx_store bs rx =
     (if rx_total rx + length bs \<le> length (rx_buf rx)
      then Inr (rx\<lparr>rx_buf := splice (rx_buf rx) (rx_total rx) bs, rx_total := rx_total rx + length bs\<rparr>)
      else Inl Fault)"

text \<open>One report of at least two bytes.\<close>

definition rx_report :: "nat \<Rightarrow> byte list \<Rightarrow> hid_recv \<Rightarrow> hid_recv result" where
  "rx_report buf_size r rx =
     (if r ! 0 \<noteq> HID_REPORT_IN_ID \<and> r ! 0 \<noteq> HID_REPORT_STATUS_ID then Inr rx
      else if \<not> got_header rx \<and> 17 \<le> length r \<and> take 8 (drop 1 r) = SYNAPTIC_MAGIC then
        let plen = unat (fld r 13 4 :: u32);
            n = min (min (length r - 17) plen) buf_size in
        rx_store (take n (drop 17 r)) (rx\<lparr>got_header := True, payload_len := plen\<rparr>)
      else if got_header rx then
        let n = min (min (length r - 1) (payload_len rx - rx_total rx)) (buf_size - rx_total rx) in
        rx_store (take n (drop 1 r)) rx
      else Inr rx)"

text \<open>
  \<open>hid_recv_vcsfw\<close> gives the number of bytes, -1 without any, the memory and the events that are left.
  A report is read into 64 bytes; the timeout does not change what is done.
\<close>

fun hid_recv_loop ::
    "nat \<Rightarrow> hid_event list \<Rightarrow> hid_recv \<Rightarrow> (int \<times> byte list \<times> hid_event list) result" where
  "hid_recv_loop buf_size [] rx =
     Inr (if rx_total rx > 0 then int (rx_total rx) else -1, rx_buf rx, [])"
| "hid_recv_loop buf_size (Poll_fail # evs) rx = Inr (-1, rx_buf rx, evs)"
| "hid_recv_loop buf_size (Poll_timeout # evs) rx =
     Inr (if rx_total rx > 0 then int (rx_total rx) else -1, rx_buf rx, evs)"
| "hid_recv_loop buf_size (Read_fail # evs) rx =
     Inr (if rx_total rx > 0 then int (rx_total rx) else -1, rx_buf rx, evs)"
| "hid_recv_loop buf_size (Report r # evs) rx =
     (if length (take HID_REPORT_IN_SIZE r) \<le> 1
      then Inr (if rx_total rx > 0 then int (rx_total rx) else -1, rx_buf rx, evs)
      else
        res_bind (rx_report buf_size (take HID_REPORT_IN_SIZE r) rx) (\<lambda>rx1.
        if got_header rx1 \<and> payload_len rx1 \<le> rx_total rx1 \<and>
           (r ! 0 = HID_REPORT_IN_ID \<or> r ! 0 = HID_REPORT_STATUS_ID)
        then Inr (int (rx_total rx1), rx_buf rx1, evs)
        else hid_recv_loop buf_size evs rx1))"

definition hid_recv_vcsfw ::
    "byte list \<Rightarrow> nat \<Rightarrow> hidraw \<Rightarrow> (int \<times> byte list \<times> hidraw) result" where
  "hid_recv_vcsfw buf buf_size fd =
     res_bind (hid_recv_loop buf_size (arriving fd)
         \<lparr>rx_buf = buf, rx_total = 0, payload_len = 0, got_header = False\<rparr>)
       (\<lambda>(n, buf', evs). Inr (n, buf', fd\<lparr>arriving := evs\<rparr>))"

section \<open>The sensor's side of a message\<close>

text \<open>
  The reference: how the sensor reads a message.  A first report gives the length of its frame, from
  which the number of reports that continue it follows; the framing codes number the frames.
\<close>

function decode_frames :: "byte list list \<Rightarrow> (u16 \<times> byte list) list option" where
  "decode_frames [] = Some []"
| "decode_frames (r # rs) =
     (let n = unat (fld r 9 4 :: u32) - 2; k = (n - 5 + 18) div 19 in
      if length r = 20 \<and> r ! 0 = HID_REPORT_OUT_ID \<and> take 8 (drop 1 r) = SYNAPTIC_MAGIC \<and> k \<le> length rs \<and>
         list_all (\<lambda>c. length c = 20 \<and> c ! 0 = HID_REPORT_OUT_ID) (take k rs)
      then map_option (Cons (fld r 13 2, take n (drop 15 r @ concat (map tl (take k rs)))))
             (decode_frames (drop k rs))
      else None)"
  by pat_completeness auto
termination
  by (relation "measure length") auto

definition framing_ok :: "u16 list \<Rightarrow> bool" where
  "framing_ok fs \<longleftrightarrow> fs = [FRAME_SINGLE] \<or>
     2 \<le> length fs \<and> hd fs = FRAME_FIRST \<and> last fs = FRAME_LAST \<and>
     butlast (tl fs) = map word_of_nat [1..<length fs - 1]"

definition decode_message :: "byte list list \<Rightarrow> byte list option" where
  "decode_message rs =
     (case decode_frames rs of
        None \<Rightarrow> None
      | Some fs \<Rightarrow> if framing_ok (map fst fs) then Some (concat (map snd fs)) else None)"

text \<open>What the code writes, as a list.\<close>

function rest_reports :: "nat \<Rightarrow> nat \<Rightarrow> byte \<Rightarrow> byte list \<Rightarrow> byte list list" where
  "rest_reports m n i d =
     (if d = [] \<or> m = 0 then [] else padded n (i # take m d) # rest_reports m n i (drop m d))"
  by pat_completeness auto
termination
  by (relation "measure (\<lambda>(m, n, i, d). length d)") auto

declare rest_reports.simps [simp del]

definition frame_reports :: "u16 \<times> byte list \<Rightarrow> byte list list" where
  "frame_reports fc = first_report (snd fc) (fst fc) # rest_reports 19 20 HID_REPORT_OUT_ID (drop 5 (snd fc))"

function frames_from :: "byte list \<Rightarrow> nat \<Rightarrow> (u16 \<times> byte list) list" where
  "frames_from d idx =
     (if d = [] then []
      else (if idx = 0 then FRAME_FIRST else if length d \<le> 248 then FRAME_LAST else word_of_nat idx, take 248 d) #
        frames_from (drop 248 d) (Suc idx))"
  by pat_completeness auto
termination
  by (relation "measure (\<lambda>(d, _). length d)") auto

declare frames_from.simps [simp del]

definition message_frames :: "byte list \<Rightarrow> (u16 \<times> byte list) list" where
  "message_frames data = (if length data \<le> 248 then [(FRAME_SINGLE, data)] else frames_from data 0)"

definition sent :: "byte list list \<Rightarrow> hidraw \<Rightarrow> hidraw" where
  "sent rs fd = fd\<lparr>written := written fd @ rs, attempts := attempts fd + length rs\<rparr>"

lemma sent_simps [simp]:
  "sent [] fd = fd" "sent rs' (sent rs fd) = sent (rs @ rs') fd"
  "send_fails (sent rs fd) = send_fails fd" "arriving (sent rs fd) = arriving fd"
  "features (sent rs fd) = features fd" "written (sent rs fd) = written fd @ rs"
  by (simp_all add: sent_def)

lemma hid_write_ok: "\<forall>n. \<not> send_fails fd n \<Longrightarrow> hid_write r fd = (True, sent [r] fd)"
  by (simp add: hid_write_def sent_def)

lemma hid_write_rest_ok:
  "\<forall>n. \<not> send_fails fd n \<Longrightarrow>
    hid_write_rest chunk off fd = (True, sent (rest_reports 19 20 HID_REPORT_OUT_ID (drop off chunk)) fd)"
proof (induction chunk off fd rule: hid_write_rest.induct)
  case (1 chunk off fd)
  show ?case
  proof (cases "off < length chunk")
    case False
    then show ?thesis by (simp add: hid_write_rest.simps rest_reports.simps)
  next
    case True
    let ?n = "min (length chunk - off) HID_OUT_DATA_SIZE"
    let ?r = "padded HID_REPORT_OUT_SIZE (HID_REPORT_OUT_ID # take ?n (drop off chunk))"
    have w: "hid_write ?r fd = (True, sent [?r] fd)" using 1(2) by (rule hid_write_ok)
    have "take ?n (drop off chunk) = take 19 (drop off chunk)"
      by (simp add: HID_OUT_DATA_SIZE_def min_def)
    moreover have "drop (off + ?n) chunk = drop 19 (drop off chunk)"
      by (auto simp: HID_OUT_DATA_SIZE_def min_def add.commute)
    ultimately have r: "rest_reports 19 20 HID_REPORT_OUT_ID (drop off chunk) =
        ?r # rest_reports 19 20 HID_REPORT_OUT_ID (drop (off + ?n) chunk)"
      using True by (subst rest_reports.simps) (simp add: HID_REPORT_OUT_SIZE_def)
    have "hid_write_rest chunk (off + ?n) (sent [?r] fd) =
        (True, sent (rest_reports 19 20 HID_REPORT_OUT_ID (drop (off + ?n) chunk)) (sent [?r] fd))"
      using 1(1)[OF True refl refl w[symmetric]] 1(2) by simp
    then show ?thesis
      using True w r by (subst hid_write_rest.simps) (simp add: Let_def)
  qed
qed

lemma hid_write_one_frame_ok:
  assumes "\<forall>n. \<not> send_fails fd n"
  shows "hid_write_one_frame chunk framing fd = (True, sent (frame_reports (framing, chunk)) fd)"
  using assms hid_write_rest_ok[of "sent [first_report chunk framing] fd" chunk "min (length chunk) 5"]
  by (cases "length chunk \<le> 5")
    (simp_all add: hid_write_one_frame_def hid_write_ok frame_reports_def min_def)

lemma hid_send_frames_ok:
  "\<forall>n. \<not> send_fails fd n \<Longrightarrow>
    hid_send_frames data off idx fd = (True, sent (concat (map frame_reports (frames_from (drop off data) idx))) fd)"
proof (induction data off idx fd rule: hid_send_frames.induct)
  case (1 data off idx fd)
  show ?case
  proof (cases "off < length data")
    case False
    then show ?thesis by (simp add: hid_send_frames.simps frames_from.simps)
  next
    case True
    let ?last = "min (off + MAX_FRAG) (length data)"
    let ?fr = "if idx = 0 then FRAME_FIRST else if length data \<le> ?last then FRAME_LAST else word_of_nat idx"
    let ?c = "take (?last - off) (drop off data)"
    have w: "hid_write_one_frame ?c ?fr fd = (True, sent (frame_reports (?fr, ?c)) fd)"
      using 1(2) by (rule hid_write_one_frame_ok)
    have "?c = take 248 (drop off data)" by (auto simp: MAX_FRAG_def min_def)
    moreover have "drop ?last data = drop 248 (drop off data)"
      by (auto simp: MAX_FRAG_def min_def add.commute)
    moreover have "length data \<le> ?last \<longleftrightarrow> length (drop off data) \<le> 248"
      using True by (auto simp: MAX_FRAG_def min_def)
    ultimately have f: "frames_from (drop off data) idx = (?fr, ?c) # frames_from (drop ?last data) (Suc idx)"
      using True by (subst frames_from.simps) simp
    have "hid_send_frames data ?last (Suc idx) (sent (frame_reports (?fr, ?c)) fd) =
        (True, sent (concat (map frame_reports (frames_from (drop ?last data) (Suc idx)))) (sent (frame_reports (?fr, ?c)) fd))"
      using 1(1)[OF True refl refl w[symmetric]] 1(2) by simp
    then show ?thesis
      using True w f by (subst hid_send_frames.simps) (simp add: Let_def)
  qed
qed

lemma hid_send_vcsfw_ok:
  assumes "\<forall>n. \<not> send_fails fd n"
  shows "hid_send_vcsfw data fd = (True, sent (concat (map frame_reports (message_frames data))) fd)"
  using hid_write_one_frame_ok[OF assms, of data FRAME_SINGLE] hid_send_frames_ok[OF assms, of data 0 0]
  by (simp add: hid_send_vcsfw_def message_frames_def MAX_FRAG_def)

section \<open>Reading back what was written\<close>

lemma rest_reports_spec:
  "m > 0 \<Longrightarrow> length (rest_reports m (Suc m) i d) = (length d + (m - 1)) div m \<and>
    list_all (\<lambda>r. length r = Suc m \<and> r ! 0 = i) (rest_reports m (Suc m) i d) \<and>
    (\<exists>z. concat (map tl (rest_reports m (Suc m) i d)) = d @ z)"
proof (induction d rule: length_induct)
  case (1 d)
  show ?case
  proof (cases "d = []")
    case True
    then show ?thesis using 1(2) by (simp add: rest_reports.simps)
  next
    case False
    let ?t = "rest_reports m (Suc m) i (drop m d)"
    have r: "rest_reports m (Suc m) i d = padded (Suc m) (i # take m d) # ?t"
      using False 1(2) by (subst rest_reports.simps) simp
    have ih: "length ?t = (length (drop m d) + (m - 1)) div m"
      "list_all (\<lambda>r. length r = Suc m \<and> r ! 0 = i) ?t" "\<exists>z. concat (map tl ?t) = drop m d @ z"
      using 1 False by auto
    have len: "Suc ((length d - m + (m - 1)) div m) = (length d + (m - 1)) div m"
    proof (cases "m \<le> length d")
      case True
      then have "length d + (m - 1) = (length d - m + (m - 1)) + m" using 1(2) by simp
      then show ?thesis using 1(2) by (metis div_add_self2 Suc_eq_plus1 not_gr_zero)
    next
      case out: False
      then have "(length d + (m - 1)) div m = 1"
        using 1(2) False by (cases d) (auto intro: div_nat_eqI)
      moreover have "(length d - m + (m - 1)) div m = 0" using out 1(2) by simp
      ultimately show ?thesis by simp
    qed
    have "\<exists>z. concat (map tl (rest_reports m (Suc m) i d)) = d @ z"
    proof (cases "m \<le> length d")
      case True
      from ih(3) obtain z where "concat (map tl ?t) = drop m d @ z" by blast
      with True r show ?thesis by (auto simp: padded_def) (metis append.assoc append_take_drop_id)
    next
      case False
      then show ?thesis using r by (simp add: padded_def)
    qed
    with r ih len show ?thesis by (simp add: padded_def)
  qed
qed

lemma length_magic [simp]: "length SYNAPTIC_MAGIC = 8"
  by (simp add: SYNAPTIC_MAGIC_def)

lemma frame_length_field:
  assumes "length c \<le> 248"
  shows "unat (2 + word_of_nat (length c) :: u32) = 2 + length c"
proof -
  have "(2 + word_of_nat (length c) :: u32) = word_of_nat (2 + length c)" by simp
  moreover have "unat (word_of_nat (2 + length c) :: u32) = 2 + length c"
    using assms unfolding unat_of_nat take_bit_eq_mod by simp
  ultimately show ?thesis by metis
qed

lemma first_report_fields:
  assumes "length c \<le> 248"
  shows "length (first_report c f) = 20" "first_report c f ! 0 = HID_REPORT_OUT_ID"
    "take 8 (drop 1 (first_report c f)) = SYNAPTIC_MAGIC"
    "unat (fld (first_report c f) 9 4 :: u32) - 2 = length c" "fld (first_report c f) 13 2 = f"
    "drop 15 (first_report c f) = take 5 c @ replicate (5 - length c) 0"
  using frame_length_field[OF assms]
  by (auto simp: first_report_def padded_def HID_REPORT_OUT_SIZE_def fld_def SYNAPTIC_MAGIC_def min_def)

lemma decode_frame:
  assumes "length c \<le> 248"
  shows "decode_frames (frame_reports (f, c) @ rs) = map_option (Cons (f, c)) (decode_frames rs)"
proof -
  let ?t = "rest_reports 19 20 HID_REPORT_OUT_ID (drop 5 c)"
  have spec: "length ?t = (length c - 5 + 18) div 19"
    "list_all (\<lambda>r. length r = 20 \<and> r ! 0 = HID_REPORT_OUT_ID) ?t" "\<exists>z. concat (map tl ?t) = drop 5 c @ z"
    using rest_reports_spec[of 19 HID_REPORT_OUT_ID "drop 5 c"] by auto
  obtain z where z: "concat (map tl ?t) = drop 5 c @ z" using spec(3) by blast
  have k: "take ((length c - 5 + 18) div 19) (?t @ rs) = ?t" "drop ((length c - 5 + 18) div 19) (?t @ rs) = rs"
    using spec(1) by simp_all
  have "take (length c) (take 5 c @ replicate (5 - length c) 0 @ drop 5 c @ z) = c"
    by (cases "length c \<le> 5") (simp_all add: min_def)
  then have d: "take (length c) (drop 15 (first_report c f) @ concat (map tl ?t)) = c"
    by (simp add: z first_report_fields[OF assms])
  show ?thesis
    unfolding frame_reports_def
    by (simp only: fst_conv snd_conv append_Cons decode_frames.simps first_report_fields(1-5)[OF assms] Let_def
        k d spec(2) simp_thms if_True) (simp only: length_append spec(1) le_add1 simp_thms if_True)
qed

lemma decode_all_frames:
  "\<forall>(f, c) \<in> set fs. length c \<le> 248 \<Longrightarrow> decode_frames (concat (map frame_reports fs)) = Some fs"
  by (induction fs) (auto simp: decode_frame)

lemma frames_from_spec:
  "(\<forall>(f, c) \<in> set (frames_from d idx). length c \<le> 248) \<and> concat (map snd (frames_from d idx)) = d"
proof (induction d idx rule: frames_from.induct)
  case (1 d idx)
  then show ?case by (subst frames_from.simps, subst (2) frames_from.simps) (auto simp: append_take_drop_id)
qed

lemma frames_from_codes:
  "d \<noteq> [] \<Longrightarrow> idx > 0 \<Longrightarrow>
    map fst (frames_from d idx) = map word_of_nat [idx..<idx + (length (frames_from d idx) - 1)] @ [FRAME_LAST]"
proof (induction d idx rule: frames_from.induct)
  case (1 d idx)
  show ?case
  proof (cases "length d \<le> 248")
    case True
    then have "drop 248 d = []" by simp
    then have "frames_from d idx = [(FRAME_LAST, take 248 d)]"
      using True 1(2,3) by (subst frames_from.simps) (simp add: frames_from.simps[of "[]"])
    then show ?thesis by simp
  next
    case False
    let ?t = "frames_from (drop 248 d) (Suc idx)"
    have r: "frames_from d idx = (word_of_nat idx, take 248 d) # ?t"
      using False 1(2,3) by (subst frames_from.simps) simp
    have ih: "map fst ?t = map word_of_nat [Suc idx..<Suc idx + (length ?t - 1)] @ [FRAME_LAST]"
      using 1 False by simp
    then have "length ?t > 0" by (metis length_greater_0_conv map_is_Nil_conv snoc_eq_iff_butlast)
    then have "[idx..<idx + length ?t] = idx # [Suc idx..<Suc idx + (length ?t - 1)]"
      by (cases ?t) (simp_all add: upt_conv_Cons del: upt_Suc)
    with r ih show ?thesis by simp
  qed
qed

lemma message_frames_ok:
  "framing_ok (map fst (message_frames data)) \<and> concat (map snd (message_frames data)) = data \<and>
    (\<forall>(f, c) \<in> set (message_frames data). length c \<le> 248)"
proof (cases "length data \<le> 248")
  case True
  then show ?thesis by (simp add: message_frames_def framing_ok_def)
next
  case False
  let ?t = "frames_from (drop 248 data) 1"
  have r: "frames_from data 0 = (FRAME_FIRST, take 248 data) # ?t"
    using False by (subst frames_from.simps) auto
  have c: "map fst ?t = map word_of_nat [1..<1 + (length ?t - 1)] @ [FRAME_LAST]"
    using False by (intro frames_from_codes) simp_all
  then have "?t \<noteq> []" by (metis map_is_Nil_conv snoc_eq_iff_butlast)
  then have c': "map fst ?t = map word_of_nat [1..<length ?t] @ [FRAME_LAST]" using c by simp
  have "last (map fst ?t) = FRAME_LAST" "butlast (map fst ?t) = map word_of_nat [1..<length ?t]"
    unfolding c' by simp_all
  then have "framing_ok (FRAME_FIRST # map fst ?t)"
    using \<open>?t \<noteq> []\<close> by (simp add: framing_ok_def Suc_le_eq)
  then show ?thesis
    using False r frames_from_spec[of data 0] by (simp add: message_frames_def)
qed

section \<open>Putting a response together\<close>

text \<open>The reports a sensor answers with.\<close>

definition response_first :: "byte list \<Rightarrow> byte list" where
  "response_first p =
     padded 64 (HID_REPORT_IN_ID # SYNAPTIC_MAGIC @ word_le 4 (word_of_nat (4 + length p) :: u32) @
       word_le 4 (word_of_nat (length p) :: u32) @ take 47 p)"

definition response_reports :: "byte list \<Rightarrow> byte list list" where
  "response_reports p = response_first p # rest_reports 63 64 HID_REPORT_IN_ID (drop 47 p)"

text \<open>Reports of other kinds are skipped.\<close>

definition noise :: "hid_event \<Rightarrow> bool" where
  "noise ev = (case ev of
     Report r \<Rightarrow> 2 \<le> length r \<and> r ! 0 \<noteq> HID_REPORT_IN_ID \<and> r ! 0 \<noteq> HID_REPORT_STATUS_ID | _ \<Rightarrow> False)"

definition rx_outcome :: "(int \<times> byte list \<times> hid_event list) result \<Rightarrow> (int \<times> byte list) result" where
  "rx_outcome m = res_bind m (\<lambda>(n, buf, _). Inr (n, buf))"

lemma rx_outcome_Inr [simp]: "rx_outcome (Inr (n, buf, evs)) = Inr (n, buf)"
  by (simp add: rx_outcome_def)

lemma rx_outcome_bind: "rx_outcome (res_bind m f) = res_bind m (\<lambda>x. rx_outcome (f x))"
  by (cases m) (simp_all add: rx_outcome_def)

lemma noise_step:
  assumes "noise (Report r)"
  shows "hid_recv_loop b (Report r # evs) rx = hid_recv_loop b evs rx"
  using assms by (auto simp: noise_def rx_report_def HID_REPORT_IN_SIZE_def)

lemma skip_noise:
  "rx_outcome (hid_recv_loop b evs rx) = rx_outcome (hid_recv_loop b (filter (\<lambda>ev. \<not> noise ev) evs) rx)"
proof (induction evs arbitrary: rx)
  case Nil
  show ?case by simp
next
  case (Cons ev evs)
  show ?case
  proof (cases "noise ev")
    case True
    then obtain r where "ev = Report r" by (auto simp: noise_def split: hid_event.splits)
    with True show ?thesis using noise_step[of r b evs rx] Cons.IH[of rx] by simp
  next
    case False
    then show ?thesis
      using Cons.IH by (cases ev) (simp_all add: rx_outcome_bind if_distrib[of rx_outcome] cong: if_cong)
  qed
qed

text \<open>The state after \<open>k\<close> bytes of the response \<open>p\<close> have arrived.\<close>

definition rx_at :: "nat \<Rightarrow> byte list \<Rightarrow> byte list \<Rightarrow> nat \<Rightarrow> hid_recv" where
  "rx_at b buf p k = \<lparr>rx_buf = splice buf 0 (take (min k b) p), rx_total = min k b,
     payload_len = length p, got_header = True\<rparr>"

lemma rx_store_next:
  assumes "min k b + length bs \<le> b" and "b \<le> length buf" and "k \<le> length p"
    and "take (min k b) p @ bs = take (min k' b) p" and "k' \<le> length p"
  shows "rx_store bs (rx_at b buf p k) = Inr (rx_at b buf p k')"
proof -
  have "length (take (min k b) p @ bs) = length (take (min k' b) p)" using assms(4) by simp
  then have t: "min k b + length bs = min k' b" using assms(3,5) by simp
  have "splice (splice buf 0 (take (min k b) p)) (min k b) bs = splice buf 0 (take (min k' b) p)"
    using splice_append[of 0 "take (min k b) p" bs buf] assms by (simp add: min_absorb2)
  then show ?thesis
    using assms t by (simp add: rx_store_def rx_at_def)
qed

lemma report_ids [simp]: "HID_REPORT_IN_ID \<noteq> HID_REPORT_OUT_ID" "HID_REPORT_STATUS_ID \<noteq> HID_REPORT_IN_ID"
  by (simp_all add: hid_consts)

lemma rx_continue:
  assumes "r ! 0 = HID_REPORT_IN_ID" and "drop 1 r = take 63 (drop k p) @ z" and "length r = 64"
    and "k < length p" and "b \<le> length buf"
  shows "rx_report b r (rx_at b buf p k) = Inr (rx_at b buf p (min (k + 63) (length p)))"
proof -
  let ?n = "min (min 63 (length p - min k b)) (b - min k b)"
  have "rx_report b r (rx_at b buf p k) = rx_store (take ?n (take 63 (drop k p) @ z)) (rx_at b buf p k)"
    using assms(1-3) by (simp add: rx_report_def rx_at_def Let_def)
  also have "\<dots> = Inr (rx_at b buf p (min (k + 63) (length p)))"
  proof (rule rx_store_next)
    have l: "?n \<le> length (take 63 (drop k p)) \<or> b \<le> k" using assms(4) by auto
    then have t: "take ?n (take 63 (drop k p) @ z) = take ?n (drop k p)"
      using assms(4) by (auto simp: min_def)
    have "length (take ?n (take 63 (drop k p) @ z)) \<le> ?n" by (simp only: length_take min.cobounded2)
    then show "min k b + length (take ?n (take 63 (drop k p) @ z)) \<le> b" by linarith
    show "take (min k b) p @ take ?n (take 63 (drop k p) @ z) = take (min (min (k + 63) (length p)) b) p"
    proof (cases "k \<le> b")
      case True
      then have e: "min (min (k + 63) (length p)) b = k + ?n" using assms(4) by linarith
      have "min k b = k" using True by simp
      then show ?thesis unfolding t e take_add by (rule arg_cong)
    next
      case False
      then show ?thesis using assms(4) by (simp add: min_def)
    qed
  qed (use assms in auto)
  finally show ?thesis .
qed

lemma rx_rest:
  assumes "0 < b" and "b \<le> length buf" and "k \<le> length p" and "length p \<le> b \<Longrightarrow> k < length p"
  shows "rx_outcome (hid_recv_loop b (map Report (rest_reports 63 64 HID_REPORT_IN_ID (drop k p))) (rx_at b buf p k)) =
    Inr (int (min (length p) b), splice buf 0 (take b p))"
  using assms(3,4)
proof (induction "length p - k" arbitrary: k rule: less_induct)
  case less
  show ?case
  proof (cases "k = length p")
    case True
    then show ?thesis using assms(1) less(3) by (auto simp: rest_reports.simps rx_at_def min_def)
  next
    case False
    then have k: "k < length p" using less(2) by simp
    let ?d = "drop k p" and ?k = "min (k + 63) (length p)"
    let ?r = "padded 64 (HID_REPORT_IN_ID # take 63 ?d)"
    have rr: "rest_reports 63 64 HID_REPORT_IN_ID ?d = ?r # rest_reports 63 64 HID_REPORT_IN_ID (drop ?k p)"
    proof -
      have "drop 63 ?d = drop ?k p" by (cases "k + 63 \<le> length p") (simp_all add: min_def add.commute)
      then show ?thesis using k by (subst rest_reports.simps) simp
    qed
    have len: "length ?r = 64" and hd: "?r ! 0 = HID_REPORT_IN_ID"
      by (simp_all add: padded_def)
    have "drop 1 ?r = take 63 ?d @ replicate (63 - length (take 63 ?d)) 0" by (simp add: padded_def)
    from rx_continue[OF hd this len k assms(2)]
    have step: "rx_report b ?r (rx_at b buf p k) = Inr (rx_at b buf p ?k)" .
    have loop: "hid_recv_loop b (Report ?r # evs) (rx_at b buf p k) =
        (if length p \<le> min ?k b then Inr (int (min ?k b), splice buf 0 (take (min ?k b) p), evs)
         else hid_recv_loop b evs (rx_at b buf p ?k))" for evs
      using len hd step by (simp add: HID_REPORT_IN_SIZE_def) (simp add: rx_at_def)
    show ?thesis
    proof (cases "length p \<le> min ?k b")
      case True
      then have "?k = length p" "length p \<le> b" by auto
      then show ?thesis using rr loop by simp
    next
      case False
      have "rx_outcome (hid_recv_loop b (map Report (rest_reports 63 64 HID_REPORT_IN_ID (drop ?k p))) (rx_at b buf p ?k)) =
          Inr (int (min (length p) b), splice buf 0 (take b p))"
        using False k by (intro less(1)) auto
      then show ?thesis using False rr loop by simp
    qed
  qed
qed

lemma response_first_fields:
  assumes "length p < 2 ^ 32"
  shows "length (response_first p) = 64" "response_first p ! 0 = HID_REPORT_IN_ID"
    "take 8 (drop 1 (response_first p)) = SYNAPTIC_MAGIC"
    "unat (fld (response_first p) 13 4 :: u32) = length p"
    "drop 17 (response_first p) = take 47 p @ replicate (47 - length p) 0"
proof -
  have "unat (word_of_nat (length p) :: u32) = length p"
    using assms unfolding unat_of_nat take_bit_eq_mod by simp
  then show "unat (fld (response_first p) 13 4 :: u32) = length p"
    by (simp add: response_first_def padded_def fld_def SYNAPTIC_MAGIC_def)
qed (simp_all add: response_first_def padded_def SYNAPTIC_MAGIC_def min_def)

lemma rx_first:
  assumes "length p < 2 ^ 32" and "b \<le> length buf"
  shows "rx_report b (response_first p) \<lparr>rx_buf = buf, rx_total = 0, payload_len = 0, got_header = False\<rparr> =
    Inr (rx_at b buf p (min 47 (length p)))"
proof -
  let ?n = "min (min 47 (length p)) b"
  have "take ?n (take 47 p @ replicate (47 - length p) 0) = take ?n p" by (auto simp: min_def)
  moreover have "min (min 47 (length p)) b \<le> length buf" using assms(2) by (simp add: min.coboundedI2)
  ultimately show ?thesis
    by (simp add: rx_report_def response_first_fields[OF assms(1), unfolded One_nat_def] Let_def
        rx_store_def rx_at_def min_def)
qed

lemma recv_first:
  assumes "length p < 2 ^ 32" and "b \<le> length buf"
  shows "hid_recv_loop b (Report (response_first p) # evs)
      \<lparr>rx_buf = buf, rx_total = 0, payload_len = 0, got_header = False\<rparr> =
    (let k = min 47 (length p) in
     if length p \<le> min k b then Inr (int (min k b), splice buf 0 (take (min k b) p), evs)
     else hid_recv_loop b evs (rx_at b buf p k))"
  using response_first_fields[OF assms(1)] rx_first[OF assms]
  by (simp add: HID_REPORT_IN_SIZE_def Let_def) (simp add: rx_at_def)

lemma recv_response:
  assumes "length p < 2 ^ 32" and "0 < b" and "b \<le> length buf"
    and "filter (\<lambda>ev. \<not> noise ev) (arriving fd) = map Report (response_reports p)"
  shows "\<exists>evs. hid_recv_vcsfw buf b fd =
    Inr (int (min (length p) b), splice buf 0 (take b p), fd\<lparr>arriving := evs\<rparr>)"
proof -
  let ?rx = "\<lparr>rx_buf = buf, rx_total = 0, payload_len = 0, got_header = False\<rparr>"
  let ?k = "min 47 (length p)"
  have "rx_outcome (hid_recv_loop b (arriving fd) ?rx) =
      rx_outcome (hid_recv_loop b (Report (response_first p) #
        map Report (rest_reports 63 64 HID_REPORT_IN_ID (drop 47 p))) ?rx)"
    using skip_noise[of b "arriving fd" ?rx] assms(4) by (simp add: response_reports_def)
  also have "\<dots> = Inr (int (min (length p) b), splice buf 0 (take b p))"
  proof (cases "length p \<le> min ?k b")
    case True
    then have "min ?k b = length p" "length p \<le> b" by auto
    then show ?thesis using recv_first[OF assms(1,3)] True by (simp del: hid_recv_loop.simps)
  next
    case False
    have d: "drop 47 p = drop ?k p" by (cases "47 \<le> length p") (simp_all add: min_def)
    have k: "?k < length p" if "length p \<le> b" using False that by auto
    have "rx_outcome (hid_recv_loop b (map Report (rest_reports 63 64 HID_REPORT_IN_ID (drop ?k p))) (rx_at b buf p ?k)) =
        Inr (int (min (length p) b), splice buf 0 (take b p))"
      by (rule rx_rest[OF assms(2,3) _ k]) simp_all
    then show ?thesis
      using recv_first[OF assms(1,3)] False unfolding d by (simp only: Let_def if_False)
  qed
  finally obtain evs where "hid_recv_loop b (arriving fd) ?rx =
      Inr (int (min (length p) b), splice buf 0 (take b p), evs)"
    by (cases "hid_recv_loop b (arriving fd) ?rx") (auto simp: rx_outcome_def)
  then show ?thesis by (auto simp: hid_recv_vcsfw_def)
qed

section \<open>Transfers\<close>

text \<open>
  The memory of a transfer and the part of it that is used (\<open>struct hid_transfer_ctx\<close> with
  \<open>struct wdf_memory\<close>): \<open>hw_mem\<close> are the bytes of the memory, \<open>hw_worker\<close> the timeout the worker thread
  was started with, \<open>hw_cancelled\<close> the flag, \<open>hw_freed\<close> whether the context was freed;
  \<open>hw_thread_err\<close> is the outcome of \<open>pthread_create\<close>, an input.
\<close>

record hid_world =
  hw_fd :: hidraw
  hw_mem :: "byte list"
  hw_worker :: "int option"
  hw_cancelled :: bool
  hw_freed :: bool
  hw_thread_err :: bool

record hid_transfer_ctx =
  BufferOffset :: nat
  BufferLength :: nat

definition USBD_STATUS_SUCCESS :: u32 where "USBD_STATUS_SUCCESS = 0"
definition USBD_STATUS_ERROR :: u32 where "USBD_STATUS_ERROR = 0xc0000000"
definition USBD_STATUS_TIMEOUT :: u32 where "USBD_STATUS_TIMEOUT = 0xc0006000"

text \<open>\<open>cancelled\<close> is the flag when the transfer is over.\<close>

definition hid_write_worker ::
    "hid_transfer_ctx \<Rightarrow> bool \<Rightarrow> hid_world \<Rightarrow> (completion \<times> hid_world) result" where
  "hid_write_worker ctx cancelled w =
     res_bind (struct_at (hw_mem w) (BufferOffset ctx) (BufferLength ctx)) (\<lambda>data.
     case hid_send_vcsfw data (hw_fd w) of (ok, fd) \<Rightarrow>
     let w1 = w\<lparr>hw_fd := fd\<rparr> in
     if cancelled then Inr ((STATUS_CANCELLED, None), w1)
     else
       let status = (if ok then STATUS_SUCCESS else WINERR_SET_CODE);
           n = (if ok then BufferLength ctx else 0);
           usb = \<lparr>UsbdStatus = (if status = STATUS_SUCCESS then USBD_STATUS_SUCCESS else USBD_STATUS_ERROR),
             usb_type = WdfUsbRequestTypePipeWrite, usb_Length = n, usb_Offset = BufferOffset ctx\<rparr> in
       Inr ((status, Some \<lparr>compl_type = WdfRequestTypeUsb, IoStatus_Status = status,
               IoStatus_Information = n, Usb_Completion = Some usb\<rparr>), w1))"

definition hid_read_worker ::
    "hid_transfer_ctx \<Rightarrow> bool \<Rightarrow> hid_world \<Rightarrow> (completion \<times> hid_world) result" where
  "hid_read_worker ctx cancelled w =
     res_bind (hid_recv_vcsfw (drop (BufferOffset ctx) (hw_mem w)) (BufferLength ctx) (hw_fd w)) (\<lambda>(n, buf, fd).
     let w1 = w\<lparr>hw_mem := take (BufferOffset ctx) (hw_mem w) @ buf, hw_fd := fd\<rparr> in
     if cancelled then Inr ((STATUS_CANCELLED, None), w1)
     else
       let status = (if n > 0 then STATUS_SUCCESS else WINERR_SET_CODE);
           k = (if n > 0 then nat n else 0);
           usb = \<lparr>UsbdStatus = (if status = STATUS_SUCCESS then USBD_STATUS_SUCCESS else USBD_STATUS_TIMEOUT),
             usb_type = WdfUsbRequestTypePipeRead, usb_Length = k, usb_Offset = BufferOffset ctx\<rparr> in
       Inr ((status, Some \<lparr>compl_type = WdfRequestTypeUsb, IoStatus_Status = status,
               IoStatus_Information = k, Usb_Completion = Some usb\<rparr>), w1))"

definition hid_transfer_start :: "int \<Rightarrow> hid_world \<Rightarrow> u32 \<times> completion option \<times> hid_world" where
  "hid_transfer_start timeout w =
     (let w1 = w\<lparr>hw_cancelled := False\<rparr> in
      if hw_thread_err w1 then (WINERR_SET_CODE, None, w1)
      else (STATUS_SUCCESS, None, w1\<lparr>hw_worker := Some (if timeout > 0 then timeout else 5000)\<rparr>))"

definition hid_transfer_cancel :: "hid_world \<Rightarrow> completion option \<times> hid_world" where
  "hid_transfer_cancel w = (None, w\<lparr>hw_cancelled := True\<rparr>)"

definition hid_transfer_cleanup :: "hid_world \<Rightarrow> hid_world" where
  "hid_transfer_cleanup w = w\<lparr>hw_freed := True\<rparr>"

text \<open>The offset the driver gives, or all of the memory.\<close>

definition transfer_ctx :: "(nat \<times> nat) option \<Rightarrow> nat \<Rightarrow> hid_transfer_ctx" where
  "transfer_ctx mem_off data_size =
     (case mem_off of
        None \<Rightarrow> \<lparr>BufferOffset = 0, BufferLength = data_size\<rparr>
      | Some (off, len) \<Rightarrow> \<lparr>BufferOffset = off, BufferLength = len\<rparr>)"

definition WdfUsbTargetPipeFormatRequestForRead ::
    "completion option \<Rightarrow> bool \<Rightarrow> nat \<Rightarrow> (nat \<times> nat) option \<Rightarrow> hid_world request \<Rightarrow>
      (u32 \<times> hid_transfer_ctx option \<times> hid_world request) result" where
  "WdfUsbTargetPipeFormatRequestForRead later is_input data_size mem_off req =
     (if \<not> is_input then Inr (WINERR_SET_CODE, None, req)
      else res_bind (wdf_configure_request later None 0 0 (Some hid_transfer_start) (Some hid_transfer_cancel)
             (Some hid_transfer_cleanup) None req) (\<lambda>req1.
           Inr (STATUS_SUCCESS, Some (transfer_ctx mem_off data_size), req1)))"

definition WdfUsbTargetPipeFormatRequestForWrite ::
    "completion option \<Rightarrow> bool \<Rightarrow> nat \<Rightarrow> (nat \<times> nat) option \<Rightarrow> hid_world request \<Rightarrow>
      (u32 \<times> hid_transfer_ctx option \<times> hid_world request) result" where
  "WdfUsbTargetPipeFormatRequestForWrite later is_input data_size mem_off req =
     (if is_input then Inr (WINERR_SET_CODE, None, req)
      else res_bind (wdf_configure_request later None 0 0 (Some hid_transfer_start) (Some hid_transfer_cancel)
             (Some hid_transfer_cleanup) None req) (\<lambda>req1.
           Inr (STATUS_SUCCESS, Some (transfer_ctx mem_off data_size), req1)))"

text \<open>A transfer completes from its worker thread only, so it keeps the contract of a start function.\<close>

interpretation hid: deferred_start hid_transfer_start "\<lambda>w. \<not> hw_thread_err w"
  by unfold_locales (auto simp: hid_transfer_start_def Let_def split: if_splits)

section \<open>The descriptors given to the driver\<close>

text \<open>
  \<open>WdfUsbTargetDeviceCreate\<close> always fails, so that the driver uses its HID code; the other functions
  describe a device with one interface of two pipes.
\<close>

record usb_device_descriptor =
  bDescriptorType :: byte
  bcdUSB :: u16
  bMaxPacketSize0 :: byte
  idVendor :: u16
  idProduct :: u16
  bcdDevice :: u16
  iManufacturer :: byte
  iProduct :: byte
  iSerialNumber :: byte
  bNumConfigurations :: byte

definition WdfUsbTargetDeviceCreate :: u32 where
  "WdfUsbTargetDeviceCreate = WINERR_SET_CODE"

definition WdfUsbTargetDeviceRetrieveInformation :: "u32 \<times> u32 \<times> u32 \<times> u32 \<times> u32" where
  "WdfUsbTargetDeviceRetrieveInformation = (STATUS_SUCCESS, 0x600, 0x200, 0, 0)"

definition WdfUsbTargetDeviceGetDeviceDescriptor :: "u32 \<times> usb_device_descriptor" where
  "WdfUsbTargetDeviceGetDeviceDescriptor =
     (STATUS_SUCCESS, \<lparr>bDescriptorType = 1, bcdUSB = 0x200, bMaxPacketSize0 = 64, idVendor = 0x06cb,
        idProduct = 0x00dd, bcdDevice = 0x100, iManufacturer = 1, iProduct = 2, iSerialNumber = 3,
        bNumConfigurations = 1\<rparr>)"

definition WdfUsbTargetDeviceGetInterface :: "byte \<Rightarrow> 'd \<Rightarrow> 'd option" where
  "WdfUsbTargetDeviceGetInterface idx hid_dev = (if idx \<noteq> 0 then None else Some hid_dev)"

definition WdfUsbInterfaceGetNumEndpoints :: byte where
  "WdfUsbInterfaceGetNumEndpoints = 2"

definition WdfUsbInterfaceGetConfiguredSettingIndex :: byte where
  "WdfUsbInterfaceGetConfiguredSettingIndex = 0"

text \<open>A pipe is its direction and its endpoint address.\<close>

record hid_pipe =
  is_input :: bool
  endpoint_addr :: byte

record usb_pipe_information =
  MaximumPacketSize :: nat
  EndpointAddress :: byte
  Interval :: byte

definition WdfUsbInterfaceGetConfiguredPipe ::
    "hid_pipe list \<Rightarrow> byte \<Rightarrow> (hid_pipe \<times> usb_pipe_information) option" where
  "WdfUsbInterfaceGetConfiguredPipe pipes idx =
     (if length pipes \<le> unat idx then None
      else let pipe = pipes ! unat idx in
        Some (pipe, \<lparr>MaximumPacketSize = (if is_input pipe then HID_REPORT_IN_SIZE else HID_REPORT_OUT_SIZE),
          EndpointAddress = endpoint_addr pipe, Interval = 1\<rparr>))"

definition WdfUsbTargetPipeResetSynchronously :: "hidraw \<Rightarrow> u32 \<times> hidraw" where
  "WdfUsbTargetPipeResetSynchronously fd = (STATUS_SUCCESS, snd (hid_init_sensor fd))"

section \<open>Properties\<close>

text \<open>
  A message of any length reaches the sensor: when no write fails, what \<open>hid_send_vcsfw\<close> writes are
  reports of 20 bytes from which the sensor reads exactly the message, in one frame or in numbered
  ones.
\<close>

theorem sent_message_is_received:
  assumes "\<forall>n. \<not> send_fails fd n"
  shows "\<exists>rs. hid_send_vcsfw data fd = (True, sent rs fd) \<and> decode_message rs = Some data"
proof -
  have "decode_frames (concat (map frame_reports (message_frames data))) = Some (message_frames data)"
    using message_frames_ok[of data] by (intro decode_all_frames) blast
  then have "decode_message (concat (map frame_reports (message_frames data))) = Some data"
    using message_frames_ok[of data] by (simp add: decode_message_def)
  with hid_send_vcsfw_ok[OF assms, of data] show ?thesis by blast
qed

definition quiet_hidraw :: hidraw where
  "quiet_hidraw = \<lparr>written = [], features = [], attempts = 0, send_fails = (\<lambda>_. False), arriving = []\<rparr>"

theorem sent_message_is_received_witness:
  "\<exists>rs. hid_send_vcsfw (replicate 300 7) quiet_hidraw = (True, sent rs quiet_hidraw) \<and>
    decode_message rs = Some (replicate 300 7)"
  by (rule sent_message_is_received) (simp add: quiet_hidraw_def)

lemma filter_response:
  "filter (\<lambda>ev. \<not> noise ev) (map Report (response_reports p)) = map Report (response_reports p)"
proof -
  have "\<not> noise ev" if "ev \<in> Report ` set (response_reports p)" for ev
    using rest_reports_spec[of 63 HID_REPORT_IN_ID "drop 47 p"] that
    by (auto simp: noise_def response_reports_def response_first_def padded_def list_all_iff)
  then show "filter (\<lambda>ev. \<not> noise ev) (map Report (response_reports p)) = map Report (response_reports p)"
    by (simp add: filter_id_conv)
qed

text \<open>
  C21: A response is put together from its reports, with any reports of other kinds between them: the
  buffer gets as much of the response as fits, and that number of bytes is returned.
\<close>

theorem response_is_reassembled:
  assumes "length p < 2 ^ 32" and "0 < buf_size" and "buf_size \<le> length buf"
    and "filter (\<lambda>ev. \<not> noise ev) (arriving fd) = map Report (response_reports p)"
  shows "\<exists>evs. hid_recv_vcsfw buf buf_size fd =
    Inr (int (min (length p) buf_size), splice buf 0 (take buf_size p), fd\<lparr>arriving := evs\<rparr>)"
  by (rule recv_response[OF assms])

theorem response_is_reassembled_witness:
  "\<exists>evs. hid_recv_vcsfw (replicate 200 0) 200
      (quiet_hidraw\<lparr>arriving := Report [1, 2, 3] # map Report (response_reports (replicate 100 5))\<rparr>) =
    Inr (100, splice (replicate 200 0) 0 (replicate 100 5),
      quiet_hidraw\<lparr>arriving := Report [1, 2, 3] # map Report (response_reports (replicate 100 5)), arriving := evs\<rparr>)"
proof -
  have n: "noise (Report [1, 2, 3])" by (simp add: noise_def hid_consts)
  show ?thesis
    using response_is_reassembled[of "replicate 100 5" 200 "replicate 200 0"
        "quiet_hidraw\<lparr>arriving := Report [1, 2, 3] # map Report (response_reports (replicate 100 5))\<rparr>"]
    by (simp add: filter_response n)
qed

text \<open>
  After the first report of a response, a status report is taken for the rest of it: the bytes of
  the status report end up in the buffer, and the read succeeds.
\<close>

theorem status_report_taken_for_data:
  assumes "47 < length p" and "length p \<le> 110" and "length p \<le> buf_size" and "buf_size \<le> length buf"
    and "length s = 63" and "arriving fd = Report (response_first p) # Report (HID_REPORT_STATUS_ID # s) # evs"
  shows "hid_recv_vcsfw buf buf_size fd =
    Inr (int (length p), splice buf 0 (take 47 p @ take (length p - 47) s), fd\<lparr>arriving := evs\<rparr>)"
proof -
  let ?bs = "take (length p - 47) s"
  have first: "hid_recv_loop buf_size (Report (response_first p) # evs1)
      \<lparr>rx_buf = buf, rx_total = 0, payload_len = 0, got_header = False\<rparr> =
      hid_recv_loop buf_size evs1 (rx_at buf_size buf p 47)" for evs1
    using recv_first[of p buf_size buf] assms(1-4) by (simp del: hid_recv_loop.simps)
  have "rx_report buf_size (HID_REPORT_STATUS_ID # s) (rx_at buf_size buf p 47) =
      rx_store ?bs (rx_at buf_size buf p 47)"
    using assms(1-5) by (simp add: rx_report_def rx_at_def Let_def min_def)
  also have "\<dots> = Inr ((rx_at buf_size buf p 47)
      \<lparr>rx_buf := splice buf 0 (take 47 p @ ?bs), rx_total := length p\<rparr>)"
  proof -
    have k: "min 47 buf_size = 47" "length (take 47 p) = 47" "length ?bs = length p - 47"
      using assms(1-5) by simp_all
    have "splice (splice buf 0 (take 47 p)) 47 ?bs = splice buf 0 (take 47 p @ ?bs)"
      using splice_append[of 0 "take 47 p" ?bs buf] assms(1,3,4) k by simp
    moreover have "47 + length ?bs = length p" using k(3) assms(1) by simp
    moreover have "length (splice buf 0 (take 47 p)) = length buf" using assms(1,3,4) by simp
    ultimately show ?thesis
      using assms(3,4) unfolding rx_store_def rx_at_def by (simp add: k(1) del: length_take)
  qed
  finally have "hid_recv_loop buf_size (Report (HID_REPORT_STATUS_ID # s) # evs) (rx_at buf_size buf p 47) =
      Inr (int (length p), splice buf 0 (take 47 p @ ?bs), evs)"
    using assms(5) by (simp add: HID_REPORT_IN_SIZE_def rx_at_def)
  with first assms(6) show ?thesis by (simp add: hid_recv_vcsfw_def del: hid_recv_loop.simps)
qed

theorem status_report_taken_for_data_witness:
  "hid_recv_vcsfw (replicate 64 0) 64
     (quiet_hidraw\<lparr>arriving := [Report (response_first (replicate 50 1)), Report (HID_REPORT_STATUS_ID # replicate 63 9)]\<rparr>) =
   Inr (50, splice (replicate 64 0) 0 (replicate 47 1 @ replicate 3 9), quiet_hidraw\<lparr>arriving := []\<rparr>)"
  using status_report_taken_for_data[of "replicate 50 1" 64 "replicate 64 0" "replicate 63 9"
      "quiet_hidraw\<lparr>arriving := [Report (response_first (replicate 50 1)), Report (HID_REPORT_STATUS_ID # replicate 63 9)]\<rparr>" "[]"]
  by (simp add: quiet_hidraw_def)

text \<open>
  C22: A read of the driver from end to end: the request is formatted for a pipe and sent
  synchronously, the worker thread puts the response into the memory at the offset, and the request
  succeeds with the number of bytes as its information.
\<close>

theorem read_request_gets_response:
  assumes "\<not> hw_thread_err w" and "length p < 2 ^ 32" and "p \<noteq> []"
    and "0 < len" and "off + len \<le> length (hw_mem w)"
    and "filter (\<lambda>ev. \<not> noise ev) (arriving (hw_fd w)) = map Report (response_reports p)"
    and "opt_Flags opts AND WDF_REQUEST_SEND_OPTION_SYNCHRONOUS \<noteq> 0"
  shows "\<exists>ctx req req' c w1 ps.
    WdfUsbTargetPipeFormatRequestForRead None True (length (hw_mem w)) (Some (off, len)) (wdf_create_request w) =
      Inr (STATUS_SUCCESS, Some ctx, req) \<and>
    hid_read_worker ctx False (snd (snd (hid_transfer_start (send_timeout opts) w))) = Inr (c, w1) \<and>
    hw_mem w1 = splice (hw_mem w) off (take len p) \<and>
    WdfRequestSend (Some c) opts req = Inr (True, req') \<and>
    WdfRequestGetCompletionParams req' = Inr (STATUS_SUCCESS, Some ps) \<and>
    IoStatus_Information ps = min (length p) len"
proof -
  let ?ctx = "\<lparr>BufferOffset = off, BufferLength = len\<rparr>"
  let ?w = "snd (snd (hid_transfer_start (send_timeout opts) w))"
  have w: "hw_mem ?w = hw_mem w" "hw_fd ?w = hw_fd w"
    using assms(1) by (simp_all add: hid_transfer_start_def Let_def)
  have fits: "len \<le> length (drop off (hw_mem w))" using assms(5) by simp
  from recv_response[OF assms(2,4) fits assms(6)] obtain evs where
    r: "hid_recv_vcsfw (drop off (hw_mem w)) len (hw_fd w) =
      Inr (int (min (length p) len), splice (drop off (hw_mem w)) 0 (take len p), (hw_fd w)\<lparr>arriving := evs\<rparr>)"
    by blast
  have mem: "take off (hw_mem w) @ splice (drop off (hw_mem w)) 0 (take len p) = splice (hw_mem w) off (take len p)"
    using assms(5) by (simp add: splice_def add.commute)
  let ?ps = "\<lparr>compl_type = WdfRequestTypeUsb, IoStatus_Status = STATUS_SUCCESS,
    IoStatus_Information = min (length p) len, Usb_Completion = Some \<lparr>UsbdStatus = USBD_STATUS_SUCCESS,
      usb_type = WdfUsbRequestTypePipeRead, usb_Length = min (length p) len, usb_Offset = off\<rparr>\<rparr>"
  obtain w1 where worker: "hid_read_worker ?ctx False ?w = Inr ((STATUS_SUCCESS, Some ?ps), w1)"
    "hw_mem w1 = splice (hw_mem w) off (take len p)"
    using assms(3,4) r w mem by (auto simp: hid_read_worker_def Let_def)
  obtain req where req: "WdfUsbTargetPipeFormatRequestForRead None True (length (hw_mem w)) (Some (off, len))
      (wdf_create_request w) = Inr (STATUS_SUCCESS, Some ?ctx, req)"
    "is_configured req" "\<not> is_started req" "\<not> is_done req" "chain_ok req" "start_fnc req = Some hid_transfer_start"
    "rq_world req = w"
    by (auto simp: WdfUsbTargetPipeFormatRequestForRead_def transfer_ctx_def wdf_configure_request_def cond_wait_def
        running_def wdf_create_request_def chain_ok_def)
  obtain req' where "WdfRequestSend (Some (STATUS_SUCCESS, Some ?ps)) opts req = Inr (True, req')"
    "WdfRequestGetStatus req' = STATUS_SUCCESS" "compl_params req' = Some ?ps"
    using hid.sync_send_completes[OF req(2-6), of opts STATUS_SUCCESS "Some ?ps"] assms(1,7) req(7) by auto
  with req(1) worker show ?thesis
    by (auto simp: WdfRequestGetCompletionParams_def WdfRequestGetStatus_def WINERR_SET_CODE_def STATUS_SUCCESS_def
        split: if_splits)
qed

text \<open>
  After a cancelled transfer the driver cannot ask for the parameters of the completion: there are
  none, and the pointer to them is dereferenced all the same.
\<close>

theorem cancelled_transfer_has_no_params:
  assumes "running req" and "chain_ok req" and "hid_read_worker ctx True w = Inr (c, w1)"
  shows "\<exists>req'. deliver (Some c) req = Inr req' \<and> WdfRequestGetStatus req' = STATUS_CANCELLED \<and>
    WdfRequestGetCompletionParams req' = Inl Fault"
proof -
  have "c = (STATUS_CANCELLED, None)"
    using assms(3) by (auto simp: hid_read_worker_def Let_def res_bind_eq_Inr)
  then show ?thesis
    using assms(1,2) by (simp add: deliver_def complete_ok WdfRequestGetStatus_def
        WdfRequestGetCompletionParams_def) (simp add: running_def)
qed

definition idle_hid :: "byte list list \<Rightarrow> hid_world" where
  "idle_hid rs = \<lparr>hw_fd = quiet_hidraw\<lparr>arriving := map Report rs\<rparr>, hw_mem = replicate 8 0, hw_worker = None,
     hw_cancelled = False, hw_freed = False, hw_thread_err = False\<rparr>"

theorem read_request_gets_response_witness:
  "\<exists>ctx req req' c w1 ps.
    WdfUsbTargetPipeFormatRequestForRead None True 8 (Some (2, 4)) (wdf_create_request (idle_hid (response_reports [5, 6, 7]))) =
      Inr (STATUS_SUCCESS, Some ctx, req) \<and>
    hid_read_worker ctx False (snd (snd (hid_transfer_start (send_timeout \<lparr>opt_Flags = 2, opt_Timeout = 0\<rparr>)
      (idle_hid (response_reports [5, 6, 7]))))) = Inr (c, w1) \<and>
    hw_mem w1 = [0, 0, 5, 6, 7, 0, 0, 0] \<and>
    WdfRequestSend (Some c) \<lparr>opt_Flags = 2, opt_Timeout = 0\<rparr> req = Inr (True, req') \<and>
    WdfRequestGetCompletionParams req' = Inr (STATUS_SUCCESS, Some ps) \<and> IoStatus_Information ps = 3"
proof -
  let ?w = "idle_hid (response_reports [5, 6, 7])" and ?opts = "\<lparr>opt_Flags = 2, opt_Timeout = 0\<rparr>"
  have f: "filter (\<lambda>ev. \<not> noise ev) (arriving (hw_fd ?w)) = map Report (response_reports [5, 6, 7])"
    by (simp add: idle_hid_def filter_response)
  have mem: "hw_mem ?w = [0, 0, 0, 0, 0, 0, 0, 0]" "\<not> hw_thread_err ?w"
    by (simp_all add: idle_hid_def numeral_eq_Suc)
  have ex: "\<exists>ctx req req' c w1 ps.
    WdfUsbTargetPipeFormatRequestForRead None True (length (hw_mem ?w)) (Some (2, 4)) (wdf_create_request ?w) =
      Inr (STATUS_SUCCESS, Some ctx, req) \<and>
    hid_read_worker ctx False (snd (snd (hid_transfer_start (send_timeout ?opts) ?w))) = Inr (c, w1) \<and>
    hw_mem w1 = splice (hw_mem ?w) 2 (take 4 [5, 6, 7]) \<and>
    WdfRequestSend (Some c) ?opts req = Inr (True, req') \<and>
    WdfRequestGetCompletionParams req' = Inr (STATUS_SUCCESS, Some ps) \<and>
    IoStatus_Information ps = min (length [5 :: byte, 6, 7]) 4"
    by (rule read_request_gets_response[OF mem(2) _ _ _ _ f])
      (simp_all add: mem WDF_REQUEST_SEND_OPTION_SYNCHRONOUS_def)
  from ex obtain ctx req req' c w1 ps where r:
    "WdfUsbTargetPipeFormatRequestForRead None True (length (hw_mem ?w)) (Some (2, 4)) (wdf_create_request ?w) =
      Inr (STATUS_SUCCESS, Some ctx, req)"
    "hid_read_worker ctx False (snd (snd (hid_transfer_start (send_timeout ?opts) ?w))) = Inr (c, w1)"
    "hw_mem w1 = splice (hw_mem ?w) 2 (take 4 [5, 6, 7])" "WdfRequestSend (Some c) ?opts req = Inr (True, req')"
    "WdfRequestGetCompletionParams req' = Inr (STATUS_SUCCESS, Some ps)"
    "IoStatus_Information ps = min (length [5 :: byte, 6, 7]) 4" by blast
  have len: "length (hw_mem ?w) = 8" "IoStatus_Information ps = 3" using r(6) by (simp_all add: mem)
  have m: "hw_mem w1 = [0, 0, 5, 6, 7, 0, 0, 0]" by (simp add: r(3) mem splice_def)
  show ?thesis
    by (intro exI conjI) (rule r(1)[unfolded len] r(2) m r(4) r(5) len(2))+
qed

theorem cancelled_transfer_has_no_params_witness:
  "\<exists>req c w1 req'. hid_read_worker \<lparr>BufferOffset = 0, BufferLength = 8\<rparr> True (idle_hid []) = Inr (c, w1) \<and>
    res_bind (wdf_configure_request None None 0 0 None None None None (wdf_create_request (idle_hid [])))
      (wdf_start_request 0) = Inr req \<and>
    deliver (Some c) req = Inr req' \<and> WdfRequestGetCompletionParams req' = Inl Fault"
proof -
  obtain c w1 where w: "hid_read_worker \<lparr>BufferOffset = 0, BufferLength = 8\<rparr> True (idle_hid []) = Inr (c, w1)"
    by (simp add: hid_read_worker_def hid_recv_vcsfw_def idle_hid_def Let_def)
  obtain req where r: "res_bind (wdf_configure_request None None 0 0 None None None None (wdf_create_request (idle_hid [])))
      (wdf_start_request 0) = Inr req" "running req" "chain_ok req"
    by (auto simp: wdf_configure_request_def cond_wait_def running_def wdf_create_request_def
        wdf_start_request_def call_start_def chain_ok_def)
  from cancelled_transfer_has_no_params[OF r(2,3) w] r(1) w show ?thesis by blast
qed

end
