(* ===== verification/Win_Io.thy ===== *)
theory Win_Io
  imports Device_State
begin

text \<open>
  Overlapped operations of the emulated Windows I/O (\<open>libtudor/src/winapi/io.c\<close>).  The first part is the
  race between the thread that completes an operation, the one that registers a callback for it and
  the one that waits for it, in atomic steps; the second part is the API on one thread.
\<close>

section \<open>The operation, between threads\<close>

text \<open>
  An operation with its \<open>OVERLAPPED\<close>: \<open>ov_ptr\<close> tells whether \<open>Pointer\<close> is not NULL, \<open>op_live\<close> whether
  the memory of the operation is still allocated.  \<open>cb_set\<close> is \<open>cb_fnc\<close>.  Ghost: \<open>called\<close> are the
  statuses the callback was called with, \<open>freed_use\<close> whether freed memory was used.
\<close>

datatype setter_pc = S_start | S_ctx | S_store | S_load | S_take | S_done
datatype completer_pc = C_start | C_internal | C_high | C_event | C_status | C_take | C_done
datatype waiter_pc = W_start | W_wait | W_status | W_cleanup | W_done

record io_race =
  ov_internal :: u32
  ov_high :: u64
  ov_ptr :: bool
  ov_event :: bool
  op_live :: bool
  op_cb_status :: u32
  op_cb_set :: bool
  set_pc :: setter_pc
  comp_pc :: completer_pc
  comp_op :: bool
  wait_pc :: waiter_pc
  called :: "u32 list"
  freed_use :: bool

definition use_op :: "io_race \<Rightarrow> io_race" where
  "use_op st = (if op_live st then st else st\<lparr>freed_use := True\<rparr>)"

text \<open>
  \<open>winio_set_overlapped_callback\<close>: without an operation the callback runs at once; else it is stored
  with release order, and the status read after it decides who calls it.
\<close>

fun setter_step :: "io_race \<Rightarrow> io_race" where
  "setter_step st =
     (case set_pc st of
        S_start \<Rightarrow>
          if \<not> ov_ptr st then st\<lparr>called := called st @ [ov_internal st], set_pc := S_done\<rparr>
          else st\<lparr>set_pc := S_ctx\<rparr>
      | S_ctx \<Rightarrow> (use_op st)\<lparr>set_pc := S_store\<rparr>
      | S_store \<Rightarrow> (use_op st)\<lparr>op_cb_set := True, set_pc := S_load\<rparr>
      | S_load \<Rightarrow> (use_op st)\<lparr>set_pc := (if op_cb_status st \<noteq> STATUS_PENDING then S_take else S_done)\<rparr>
      | S_take \<Rightarrow>
          (use_op st)\<lparr>op_cb_set := False,
             called := called st @ (if op_cb_set st then [op_cb_status st] else []), set_pc := S_done\<rparr>
      | S_done \<Rightarrow> st)"

text \<open>\<open>winio_complete_overlapped\<close> with a status other than pending.\<close>

fun completer_step :: "u32 \<Rightarrow> u64 \<Rightarrow> io_race \<Rightarrow> io_race" where
  "completer_step status num st =
     (case comp_pc st of
        C_start \<Rightarrow> st\<lparr>comp_op := ov_ptr st, comp_pc := C_internal\<rparr>
      | C_internal \<Rightarrow> st\<lparr>ov_internal := status, comp_pc := C_high\<rparr>
      | C_high \<Rightarrow> (if ov_internal st = STATUS_SUCCESS then st\<lparr>ov_high := num, comp_pc := C_event\<rparr>
                   else st\<lparr>comp_pc := C_event\<rparr>)
      | C_event \<Rightarrow> st\<lparr>ov_event := True, comp_pc := (if comp_op st then C_status else C_done)\<rparr>
      | C_status \<Rightarrow> (use_op st)\<lparr>op_cb_status := status, comp_pc := C_take\<rparr>
      | C_take \<Rightarrow>
          (use_op st)\<lparr>op_cb_set := False,
             called := called st @ (if op_cb_set st then [status] else []), comp_pc := C_done\<rparr>
      | C_done \<Rightarrow> st)"

text \<open>\<open>winio_wait_overlapped\<close> on its auto-reset event, with the clean-up at its end.\<close>

fun waiter_step :: "io_race \<Rightarrow> io_race" where
  "waiter_step st =
     (case wait_pc st of
        W_start \<Rightarrow> st\<lparr>wait_pc := (if ov_internal st = STATUS_PENDING then W_wait else W_status)\<rparr>
      | W_wait \<Rightarrow> (if ov_event st then st\<lparr>ov_event := False, wait_pc := W_status\<rparr> else st)
      | W_status \<Rightarrow> st\<lparr>wait_pc := W_cleanup\<rparr>
      | W_cleanup \<Rightarrow> (if ov_ptr st then (use_op st)\<lparr>ov_ptr := False, op_live := False, wait_pc := W_done\<rparr>
                     else st\<lparr>wait_pc := W_done\<rparr>)
      | W_done \<Rightarrow> st)"

text \<open>An operation that was started (\<open>init_overlapped\<close>).\<close>

definition started_op :: "io_race \<Rightarrow> bool" where
  "started_op st \<longleftrightarrow> ov_internal st = STATUS_PENDING \<and> ov_ptr st \<and> op_live st \<and>
     op_cb_status st = STATUS_PENDING \<and> \<not> op_cb_set st \<and> \<not> ov_event st \<and>
     set_pc st = S_start \<and> comp_pc st = C_start \<and> wait_pc st = W_start \<and> called st = [] \<and> \<not> freed_use st"

text \<open>The threads interleave; \<open>with_waiter\<close> tells whether one waits.\<close>

inductive io_step :: "bool \<Rightarrow> u32 \<Rightarrow> u64 \<Rightarrow> io_race \<Rightarrow> io_race \<Rightarrow> bool" for with_waiter status num where
  setter: "io_step with_waiter status num st (setter_step st)"
| completer: "io_step with_waiter status num st (completer_step status num st)"
| waiter: "with_waiter \<Longrightarrow> io_step with_waiter status num st (waiter_step st)"

inductive_cases io_stepE: "io_step w status num st st'"

code_pred io_step .

section \<open>The callback runs once\<close>

text \<open>
  Without a waiter: who calls is decided by the order of the setter's store and load against the
  completer's store and exchange.
\<close>

definition race_inv :: "u32 \<Rightarrow> io_race \<Rightarrow> bool" where
  "race_inv status st \<longleftrightarrow>
     ov_ptr st \<and> op_live st \<and> \<not> freed_use st \<and> (comp_pc st \<noteq> C_start \<longrightarrow> comp_op st) \<and>
     op_cb_status st = (if comp_pc st \<in> {C_take, C_done} then status else STATUS_PENDING) \<and>
     (case set_pc st of
        S_start \<Rightarrow> called st = [] \<and> \<not> op_cb_set st
      | S_ctx \<Rightarrow> called st = [] \<and> \<not> op_cb_set st
      | S_store \<Rightarrow> called st = [] \<and> \<not> op_cb_set st
      | S_load \<Rightarrow> (called st = [] \<and> op_cb_set st) \<or> (called st = [status] \<and> \<not> op_cb_set st \<and> comp_pc st = C_done)
      | S_take \<Rightarrow> (called st = [] \<and> op_cb_set st \<and> comp_pc st \<in> {C_take, C_done}) \<or>
          (called st = [status] \<and> \<not> op_cb_set st \<and> comp_pc st = C_done)
      | S_done \<Rightarrow> (called st = [] \<and> op_cb_set st \<and> comp_pc st \<noteq> C_done) \<or>
          (called st = [status] \<and> \<not> op_cb_set st))"

lemma race_inv_step:
  assumes "race_inv status st" and "io_step False status num st st'" and "status \<noteq> STATUS_PENDING"
  shows "race_inv status st'"
  using assms(2)
proof cases
  case setter
  then show ?thesis using assms(1,3)
    by (cases "set_pc st") (auto simp: race_inv_def use_op_def split: if_splits)
next
  case completer
  then show ?thesis using assms(1,3)
    by (cases "comp_pc st") (auto simp: race_inv_def use_op_def split: if_splits setter_pc.splits)
next
  case waiter
  then show ?thesis by simp
qed

lemma race_inv_reachable:
  assumes "(io_step False status num)\<^sup>*\<^sup>* st st'" and "started_op st" and "status \<noteq> STATUS_PENDING"
  shows "race_inv status st'"
  using assms(1)
proof induction
  case base
  then show ?case using assms(2) by (simp add: race_inv_def started_op_def)
next
  case (step y z)
  then show ?case using race_inv_step assms(3) by blast
qed

section \<open>The API on one thread\<close>

text \<open>
  An \<open>OVERLAPPED\<close>: the file offset and the pointer to the operation share a word, and \<open>hEvent\<close> is NULL
  (\<open>None\<close>) or an auto-reset event with its state.
\<close>

record overlapped =
  Internal :: u64
  InternalHigh :: u64
  ov_word :: u64
  hEvent :: "bool option"

definition zero_overlapped :: overlapped where
  "zero_overlapped = \<lparr>Internal = 0, InternalHigh = 0, ov_word = 0, hEvent = None\<rparr>"

text \<open>
  The three requests share a shape.  A file's functions are a parameter: starting a request gives a
  status, tells whether the operation got a context, and may complete the operation before it
  returns; \<open>f_has_cancel\<close> and \<open>f_has_cleanup\<close> tell whether these functions exist.
\<close>

datatype io_request =
    Read_req u64 nat
  | Write_req u64 "byte list"
  | Devctrl_req u32 "byte list" nat

record 'c winfile =
  f_async :: bool
  f_can :: "io_request \<Rightarrow> bool"
  f_start :: "io_request \<Rightarrow> 'c \<Rightarrow> u32 \<times> bool \<times> (u32 \<times> u64) option \<times> 'c"
  f_cancel :: "('c \<Rightarrow> (u32 \<times> u64) option \<times> 'c) option"
  f_cleanup :: "('c \<Rightarrow> 'c) option"

text \<open>The operations allocated, by address, each with whether it has a context; and the last error.\<close>

record 'c io_state =
  io_ops :: "u64 \<Rightarrow> bool option"
  last_error :: u32
  file_ctx :: 'c

definition ERROR_IO_PENDING :: u32 where "ERROR_IO_PENDING = 0x3e5"

definition init_overlapped :: "u64 \<Rightarrow> overlapped \<Rightarrow> 'c io_state \<Rightarrow> overlapped \<times> 'c io_state" where
  "init_overlapped addr ov st =
     (ov\<lparr>Internal := ucast STATUS_PENDING, InternalHigh := 0, ov_word := addr, hEvent := Some False\<rparr>,
      st\<lparr>io_ops := (io_ops st)(addr \<mapsto> False)\<rparr>)"

definition winio_complete_overlapped :: "u32 \<Rightarrow> u64 \<Rightarrow> overlapped \<Rightarrow> overlapped" where
  "winio_complete_overlapped status num ov =
     (let ov1 = ov\<lparr>Internal := ucast status\<rparr>;
          ov2 = (if status = STATUS_SUCCESS then ov1\<lparr>InternalHigh := num\<rparr> else ov1)
      in ov2\<lparr>hEvent := map_option (\<lambda>_. True) (hEvent ov2)\<rparr>)"

definition winio_cleanup_overlapped ::
    "'c winfile \<Rightarrow> overlapped \<Rightarrow> 'c io_state \<Rightarrow> (overlapped \<times> 'c io_state) result" where
  "winio_cleanup_overlapped file ov st =
     (if ov_word ov = 0 then Inr (ov, st)
      else case io_ops st (ov_word ov) of
        None \<Rightarrow> Inl Fault
      | Some has_ctx \<Rightarrow>
          let c = (case f_cleanup file of Some f \<Rightarrow> if has_ctx then f (file_ctx st) else file_ctx st
                   | None \<Rightarrow> file_ctx st)
          in Inr (ov\<lparr>ov_word := 0\<rparr>, st\<lparr>io_ops := (io_ops st)(ov_word ov := None), file_ctx := c\<rparr>))"

text \<open>\<open>later\<close> is the completion another thread delivers while this one waits; without one it waits forever.\<close>

definition wait_event :: "(u32 \<times> u64) option \<Rightarrow> overlapped \<Rightarrow> overlapped result" where
  "wait_event later ov =
     (if Internal ov \<noteq> ucast STATUS_PENDING then Inr ov
      else case hEvent ov of
        None \<Rightarrow> Inl Fault
      | Some True \<Rightarrow> Inr (ov\<lparr>hEvent := Some False\<rparr>)
      | Some False \<Rightarrow>
          (case later of
             None \<Rightarrow> Inl Hang
           | Some (s, n) \<Rightarrow> Inr ((winio_complete_overlapped s n ov)\<lparr>hEvent := Some False\<rparr>)))"

text \<open>The status, and the number of bytes if it was successful.\<close>

definition winio_wait_overlapped ::
    "'c winfile \<Rightarrow> (u32 \<times> u64) option \<Rightarrow> overlapped \<Rightarrow> 'c io_state \<Rightarrow>
      (u32 \<times> u64 option \<times> overlapped \<times> 'c io_state) result" where
  "winio_wait_overlapped file later ov st =
     res_bind (wait_event later ov) (\<lambda>ov1.
     res_bind (winio_cleanup_overlapped file ov1 st) (\<lambda>(ov2, st2).
     Inr (ucast (Internal ov1),
          if (ucast (Internal ov1) :: u32) = STATUS_SUCCESS then Some (InternalHigh ov1) else None, ov2, st2)))"

definition winio_cancel_overlapped ::
    "'c winfile \<Rightarrow> (u32 \<times> u64) option \<Rightarrow> overlapped \<Rightarrow> 'c io_state \<Rightarrow> (overlapped \<times> 'c io_state) result" where
  "winio_cancel_overlapped file later ov st =
     (if Internal ov \<noteq> ucast STATUS_PENDING then winio_cleanup_overlapped file ov st
      else
        res_bind (if ov_word ov = 0 then Inr (ov, st)
                  else case io_ops st (ov_word ov) of
                    None \<Rightarrow> Inl Fault
                  | Some has_ctx \<Rightarrow>
                      (case f_cancel file of
                         Some f \<Rightarrow>
                           if has_ctx
                           then (case f (file_ctx st) of
                               (None, c) \<Rightarrow> Inr (ov, st\<lparr>file_ctx := c\<rparr>)
                             | (Some (s, n), c) \<Rightarrow> Inr (winio_complete_overlapped s n ov, st\<lparr>file_ctx := c\<rparr>))
                           else Inr (ov, st)
                       | None \<Rightarrow> Inr (ov, st)))
          (\<lambda>(ov1, st1). res_bind (winio_wait_overlapped file later ov1 st1) (\<lambda>(_, _, ov2, st2). Inr (ov2, st2))))"

definition CancelIoEx ::
    "'c winfile \<Rightarrow> (u32 \<times> u64) option \<Rightarrow> overlapped option \<Rightarrow> 'c io_state \<Rightarrow>
      (bool \<times> overlapped option \<times> 'c io_state) result" where
  "CancelIoEx file later ov st =
     (case ov of
        None \<Rightarrow> Inr (True, None, st)
      | Some o1 \<Rightarrow> res_bind (winio_cancel_overlapped file later o1 st) (\<lambda>(o2, st2). Inr (True, Some o2, st2)))"

text \<open>\<open>num\<close> tells whether the caller passed a place for the number of bytes, which is not checked.\<close>

definition GetOverlappedResult ::
    "'c winfile \<Rightarrow> (u32 \<times> u64) option \<Rightarrow> bool \<Rightarrow> bool \<Rightarrow> overlapped \<Rightarrow> 'c io_state \<Rightarrow>
      (bool \<times> u32 option \<times> overlapped \<times> 'c io_state) result" where
  "GetOverlappedResult file later num wait ov st =
     (if Internal ov = ucast STATUS_PENDING \<and> \<not> wait then Inr (False, None, ov, st)
      else
        res_bind (winio_wait_overlapped file later ov st) (\<lambda>(status, n, ov1, st1).
        case n of
          None \<Rightarrow> Inr (False, None, ov1, st1\<lparr>last_error := status\<rparr>)
        | Some k \<Rightarrow> if num then Inr (True, Some (ucast k), ov1, st1) else Inl Fault))"

text \<open>
  \<open>ReadFile\<close>, \<open>WriteFile\<close>, \<open>DeviceIoControl\<close>: a synchronous file without an \<open>OVERLAPPED\<close> uses a local
  one.  A request that cannot be started leaves the operation behind.
\<close>

definition start_request ::
    "'c winfile \<Rightarrow> (u32 \<times> u64) option \<Rightarrow> u64 \<Rightarrow> (u64 \<Rightarrow> io_request) \<Rightarrow> bool \<Rightarrow> overlapped option \<Rightarrow>
      'c io_state \<Rightarrow> (bool \<times> u32 option \<times> overlapped option \<times> 'c io_state) result" where
  "start_request file later addr req num ov st =
     (if \<not> f_can file (req 0) then Inr (False, None, ov, st\<lparr>last_error := WINERR_SET_CODE\<rparr>)
      else if f_async file \<and> ov = None then Inr (False, None, ov, st\<lparr>last_error := WINERR_SET_CODE\<rparr>)
      else
        let o0 = (case ov of None \<Rightarrow> zero_overlapped | Some o1 \<Rightarrow> o1);
            back = (\<lambda>o1. case ov of None \<Rightarrow> None | Some _ \<Rightarrow> Some o1) in
        case init_overlapped addr o0 st of (o1, st1) \<Rightarrow>
        case f_start file (req (ov_word o0)) (file_ctx st1) of (status, has_ctx, fin, c) \<Rightarrow>
        let st2 = st1\<lparr>io_ops := (io_ops st1)(addr \<mapsto> has_ctx), last_error := status, file_ctx := c\<rparr>;
            o2 = (case fin of None \<Rightarrow> o1 | Some (s, n) \<Rightarrow> winio_complete_overlapped s n o1) in
        if status \<noteq> STATUS_SUCCESS then Inr (False, None, back o2, st2)
        else if f_async file then Inr (False, None, back o2, st2\<lparr>last_error := ERROR_IO_PENDING\<rparr>)
        else res_bind (GetOverlappedResult file later num True o2 st2) (\<lambda>(ok, n, o3, st3).
               Inr (ok, n, back o3, st3)))"

definition ReadFile where
  "ReadFile file later addr n = start_request file later addr (\<lambda>off. Read_req off n)"

definition WriteFile where
  "WriteFile file later addr data = start_request file later addr (\<lambda>off. Write_req off data)"

definition DeviceIoControl where
  "DeviceIoControl file later addr code in_data out_size =
     start_request file later addr (\<lambda>_. Devctrl_req code in_data out_size)"

text \<open>
  A request on a synchronous file gives the result of the operation it starts, whenever that comes,
  and frees the operation.
\<close>

lemma pending_ne_success [simp]: "STATUS_PENDING \<noteq> STATUS_SUCCESS" "STATUS_SUCCESS \<noteq> STATUS_PENDING"
  by (simp_all add: STATUS_PENDING_def STATUS_SUCCESS_def)

lemma ucast_u32_u64 [simp]: "(ucast (ucast (s :: u32) :: u64) :: u32) = s"
  by transfer simp

lemma ucast_pending [simp]: "(ucast (s :: u32) :: u64) = ucast STATUS_PENDING \<longleftrightarrow> s = STATUS_PENDING"
  using ucast_u32_u64 by metis

lemma complete_fields [simp]:
  "Internal (winio_complete_overlapped s n ov) = ucast s"
  "ov_word (winio_complete_overlapped s n ov) = ov_word ov"
  "hEvent (winio_complete_overlapped s n ov) = map_option (\<lambda>_. True) (hEvent ov)"
  "s = STATUS_SUCCESS \<Longrightarrow> InternalHigh (winio_complete_overlapped s n ov) = n"
  by (simp_all add: winio_complete_overlapped_def Let_def)

lemma sync_request_completes:
  assumes "f_can file (req 0)" and "\<not> f_async file"
    and "f_start file (req (case ov of None \<Rightarrow> 0 | Some o1 \<Rightarrow> ov_word o1)) (file_ctx st) =
      (STATUS_SUCCESS, has_ctx, fin, c)"
    and "(case fin of None \<Rightarrow> later | Some d \<Rightarrow> Some d) = Some (s, n)" and "s \<noteq> STATUS_PENDING"
    and "addr \<noteq> 0" and "io_ops st addr = None"
  shows "\<exists>ov' st'. start_request file later addr req True ov st =
      Inr (s = STATUS_SUCCESS, if s = STATUS_SUCCESS then Some (ucast n) else None, ov', st') \<and>
    io_ops st' = io_ops st \<and> (s \<noteq> STATUS_SUCCESS \<longrightarrow> last_error st' = s)"
proof -
  let ?o0 = "case ov of None \<Rightarrow> zero_overlapped | Some o1 \<Rightarrow> o1"
  let ?o1 = "?o0\<lparr>Internal := ucast STATUS_PENDING, InternalHigh := 0, ov_word := addr, hEvent := Some False\<rparr>"
  let ?o2 = "case fin of None \<Rightarrow> ?o1 | Some (s, n) \<Rightarrow> winio_complete_overlapped s n ?o1"
  obtain e where w: "wait_event later ?o2 = Inr ((winio_complete_overlapped s n ?o1)\<lparr>hEvent := e\<rparr>)"
  proof (cases fin)
    case None
    then show ?thesis using that[of "Some False"] assms(4) by (simp add: wait_event_def)
  next
    case (Some p)
    then have "?o2 = winio_complete_overlapped s n ?o1" using assms(4) by simp
    moreover have "winio_complete_overlapped s n ?o1 = (winio_complete_overlapped s n ?o1)\<lparr>hEvent := Some True\<rparr>"
      by (simp add: winio_complete_overlapped_def Let_def)
    ultimately show ?thesis using that[of "Some True"] assms(5) by (simp add: wait_event_def)
  qed
  have word: "ov_word ?o0 = (case ov of None \<Rightarrow> 0 | Some o1 \<Rightarrow> ov_word o1)"
    by (cases ov) (simp_all add: zero_overlapped_def)
  have "(io_ops st)(addr := None) = io_ops st" using assms(7) by (simp add: fun_upd_idem)
  then show ?thesis
    using assms(1-3,6) w word
    by (auto simp: start_request_def init_overlapped_def Let_def GetOverlappedResult_def
        winio_wait_overlapped_def winio_cleanup_overlapped_def)
qed

text \<open>The steps by program counter, to follow one interleaving.\<close>

lemma setter_at:
  "set_pc st = S_start \<Longrightarrow> ov_ptr st \<Longrightarrow> setter_step st = st\<lparr>set_pc := S_ctx\<rparr>"
  "set_pc st = S_ctx \<Longrightarrow> op_live st \<Longrightarrow> setter_step st = st\<lparr>set_pc := S_store\<rparr>"
  "set_pc st = S_store \<Longrightarrow> op_live st \<Longrightarrow> setter_step st = st\<lparr>op_cb_set := True, set_pc := S_load\<rparr>"
  "set_pc st = S_load \<Longrightarrow> op_live st \<Longrightarrow>
     setter_step st = st\<lparr>set_pc := (if op_cb_status st \<noteq> STATUS_PENDING then S_take else S_done)\<rparr>"
  by (simp_all add: use_op_def)

lemma completer_at:
  "comp_pc st = C_start \<Longrightarrow> completer_step s n st = st\<lparr>comp_op := ov_ptr st, comp_pc := C_internal\<rparr>"
  "comp_pc st = C_internal \<Longrightarrow> completer_step s n st = st\<lparr>ov_internal := s, comp_pc := C_high\<rparr>"
  "comp_pc st = C_high \<Longrightarrow> completer_step s n st =
     st\<lparr>ov_high := (if ov_internal st = STATUS_SUCCESS then n else ov_high st), comp_pc := C_event\<rparr>"
  "comp_pc st = C_event \<Longrightarrow> comp_op st \<Longrightarrow> completer_step s n st = st\<lparr>ov_event := True, comp_pc := C_status\<rparr>"
  "comp_pc st = C_status \<Longrightarrow> op_live st \<Longrightarrow> completer_step s n st = st\<lparr>op_cb_status := s, comp_pc := C_take\<rparr>"
  "comp_pc st = C_status \<Longrightarrow> \<not> op_live st \<Longrightarrow>
     completer_step s n st = st\<lparr>freed_use := True, op_cb_status := s, comp_pc := C_take\<rparr>"
  "comp_pc st = C_take \<Longrightarrow> op_live st \<Longrightarrow> completer_step s n st =
     st\<lparr>op_cb_set := False, called := called st @ (if op_cb_set st then [s] else []), comp_pc := C_done\<rparr>"
  by (simp_all add: use_op_def)

lemma waiter_at:
  "wait_pc st = W_start \<Longrightarrow> ov_internal st \<noteq> STATUS_PENDING \<Longrightarrow> waiter_step st = st\<lparr>wait_pc := W_status\<rparr>"
  "wait_pc st = W_status \<Longrightarrow> waiter_step st = st\<lparr>wait_pc := W_cleanup\<rparr>"
  "wait_pc st = W_cleanup \<Longrightarrow> ov_ptr st \<Longrightarrow> op_live st \<Longrightarrow>
     waiter_step st = st\<lparr>ov_ptr := False, op_live := False, wait_pc := W_done\<rparr>"
  by (simp_all add: use_op_def)

lemmas steps_at = setter_at completer_at waiter_at

declare setter_step.simps [simp del] completer_step.simps [simp del] waiter_step.simps [simp del]

section \<open>Properties\<close>

text \<open>
  C19: The callback of an operation runs once: however the registration and the completion
  interleave, it is called at most once and with the status of the operation, when both are over it
  has been called, and no freed memory is used.
\<close>

theorem overlapped_callback_once:
  assumes "started_op st" and "(io_step False status num)\<^sup>*\<^sup>* st st'" and "status \<noteq> STATUS_PENDING"
  shows "called st' \<in> {[], [status]} \<and> \<not> freed_use st' \<and>
    (set_pc st' = S_done \<and> comp_pc st' = C_done \<longrightarrow> called st' = [status])"
proof -
  have "race_inv status st'" by (rule race_inv_reachable[OF assms(2,1,3)])
  then show ?thesis by (auto simp: race_inv_def split: setter_pc.splits)
qed

definition fresh_race :: io_race where
  "fresh_race = \<lparr>ov_internal = STATUS_PENDING, ov_high = 0, ov_ptr = True, ov_event = False, op_live = True,
     op_cb_status = STATUS_PENDING, op_cb_set = False, set_pc = S_start, comp_pc = C_start, comp_op = False,
     wait_pc = W_start, called = [], freed_use = False\<rparr>"

lemma fresh_race_started: "started_op fresh_race"
  by (simp add: started_op_def fresh_race_def)

theorem overlapped_callback_once_witness:
  "\<exists>st'. (io_step False 0 5)\<^sup>*\<^sup>* fresh_race st' \<and> set_pc st' = S_done \<and> comp_pc st' = C_done \<and> called st' = [0]"
proof -
  let ?s = setter_step and ?c = "completer_step 0 5"
  let ?last = "?c (?c (?c (?s (?s (?s (?s (?c (?c (?c fresh_race)))))))))"
  have s: "(io_step False 0 5)\<^sup>*\<^sup>* fresh_race (?s y)" if "(io_step False 0 5)\<^sup>*\<^sup>* fresh_race y" for y
    using that io_step.setter by (rule rtranclp.rtrancl_into_rtrancl)
  have c: "(io_step False 0 5)\<^sup>*\<^sup>* fresh_race (?c y)" if "(io_step False 0 5)\<^sup>*\<^sup>* fresh_race y" for y
    using that io_step.completer by (rule rtranclp.rtrancl_into_rtrancl)
  have r: "(io_step False 0 5)\<^sup>*\<^sup>* fresh_race ?last" by (intro s c rtranclp.rtrancl_refl)
  have "set_pc ?last = S_done" "comp_pc ?last = C_done"
    by (simp_all add: fresh_race_def steps_at)
  then show ?thesis
    using overlapped_callback_once[OF fresh_race_started r] r by (auto simp: STATUS_PENDING_def)
qed

text \<open>
  A thread that waits for an operation may free it too early: there is an interleaving in which
  it wakes up on the event, cleans the operation up, and the completing thread then stores the
  status into the freed operation.
\<close>

theorem completion_uses_freed_operation:
  assumes "started_op st" and "status \<noteq> STATUS_PENDING"
  shows "\<exists>st'. (io_step True status num)\<^sup>*\<^sup>* st st' \<and> freed_use st'"
proof -
  let ?c = "completer_step status num" and ?w = waiter_step
  let ?last = "?c (?w (?w (?w (?c (?c (?c (?c st)))))))"
  have c: "(io_step True status num)\<^sup>*\<^sup>* st (?c y)" if "(io_step True status num)\<^sup>*\<^sup>* st y" for y
    using that io_step.completer by (rule rtranclp.rtrancl_into_rtrancl)
  have w: "(io_step True status num)\<^sup>*\<^sup>* st (?w y)" if "(io_step True status num)\<^sup>*\<^sup>* st y" for y
    using that io_step.waiter[OF TrueI] by (rule rtranclp.rtrancl_into_rtrancl)
  have "(io_step True status num)\<^sup>*\<^sup>* st ?last" by (intro c w rtranclp.rtrancl_refl)
  moreover have "freed_use ?last"
    using assms by (cases "status = STATUS_SUCCESS") (simp_all add: started_op_def steps_at)
  ultimately show ?thesis by blast
qed

theorem completion_uses_freed_operation_witness:
  "\<exists>st'. (io_step True 0 5)\<^sup>*\<^sup>* fresh_race st' \<and> freed_use st'"
  by (rule completion_uses_freed_operation[OF fresh_race_started]) (simp add: STATUS_PENDING_def)

text \<open>
  On a synchronous file \<open>ReadFile\<close> gives the result of the operation it starts, whether that
  ends at once or later: TRUE and the number of bytes if it was successful, else FALSE and its
  status as last error; the operation is freed.
\<close>

theorem sync_read_returns_result:
  assumes "f_can file (Read_req 0 len)" and "\<not> f_async file"
    and "f_start file (Read_req (case ov of None \<Rightarrow> 0 | Some o1 \<Rightarrow> ov_word o1) len) (file_ctx st) =
      (STATUS_SUCCESS, has_ctx, fin, c)"
    and "(case fin of None \<Rightarrow> later | Some d \<Rightarrow> Some d) = Some (s, n)" and "s \<noteq> STATUS_PENDING"
    and "addr \<noteq> 0" and "io_ops st addr = None"
  shows "\<exists>ov' st'. ReadFile file later addr len True ov st =
      Inr (s = STATUS_SUCCESS, if s = STATUS_SUCCESS then Some (ucast n) else None, ov', st') \<and>
    io_ops st' = io_ops st \<and> (s \<noteq> STATUS_SUCCESS \<longrightarrow> last_error st' = s)"
  unfolding ReadFile_def by (rule sync_request_completes[OF assms])

definition zero_file :: "unit winfile" where
  "zero_file = \<lparr>f_async = False, f_can = (\<lambda>_. True),
     f_start = (\<lambda>req c. case req of
         Read_req off n \<Rightarrow> (STATUS_SUCCESS, False, Some (STATUS_SUCCESS, word_of_nat n), c)
       | _ \<Rightarrow> (0xc0000001, False, None, c)),
     f_cancel = None, f_cleanup = None\<rparr>"

definition idle_io :: "unit io_state" where
  "idle_io = \<lparr>io_ops = (\<lambda>_. None), last_error = 0, file_ctx = ()\<rparr>"

theorem sync_read_returns_result_witness:
  "\<exists>st'. ReadFile zero_file None 16 4 True None idle_io = Inr (True, Some 4, None, st')"
proof -
  obtain ov' st' where r: "ReadFile zero_file None 16 4 True None idle_io = Inr (True, Some 4, ov', st')"
    using sync_read_returns_result[of zero_file 4 None idle_io False "Some (STATUS_SUCCESS, 4)" "()" None
        STATUS_SUCCESS 4 16]
    by (auto simp: zero_file_def idle_io_def)
  have "ov' = None" if "start_request fl l a rq nn None s0 = Inr (b, x, ov', s1)" for fl :: "unit winfile"
    and l a rq nn s0 b x s1
    using that by (auto simp: start_request_def Let_def res_bind_eq_Inr split: if_splits prod.splits)
  then show ?thesis using r unfolding ReadFile_def by blast
qed

text \<open>
  A request whose start fails leaves its operation pending: cancelling it afterwards waits for
  a completion that nobody delivers.
\<close>

theorem cancel_after_failed_start_hangs:
  assumes "f_can file (req 0)" and "f_start file (req (ov_word o1)) (file_ctx st) = (status, False, None, c)"
    and "status \<noteq> STATUS_SUCCESS" and "addr \<noteq> 0"
  shows "\<exists>o2 st2. start_request file later addr req num (Some o1) st = Inr (False, None, Some o2, st2) \<and>
    last_error st2 = status \<and> CancelIoEx file None (Some o2) st2 = Inl Hang"
  using assms
  by (simp add: start_request_def init_overlapped_def Let_def CancelIoEx_def winio_cancel_overlapped_def
      winio_wait_overlapped_def wait_event_def split: option.split)

theorem cancel_after_failed_start_hangs_witness:
  "\<exists>o2 st2. WriteFile zero_file None 16 [1] True (Some zero_overlapped) idle_io = Inr (False, None, Some o2, st2) \<and>
     last_error st2 = 0xc0000001 \<and> CancelIoEx zero_file None (Some o2) st2 = Inl Hang"
  unfolding WriteFile_def
  by (rule cancel_after_failed_start_hangs[where c = "()"])
    (simp_all add: zero_file_def STATUS_SUCCESS_def)

end
