(* ===== verification/Wdf_File.thy ===== *)
theory Wdf_File
  imports Wdf_Hid Win_Io Tudor_Device
begin

text \<open>
  The I/O path of the driver framework: queues (\<open>libtudor/src/winapi/wdf/queue.c\<close>), devices with their queues
  and power callbacks (\<open>winapi/wdf/device.c\<close>), files (\<open>winapi/wdf/file.c\<close>), and the device control of the
  host on top of them (\<open>tudor_devctrl\<close> and \<open>req_cb\<close> of \<open>libtudor/src/tudor/device.c\<close>).  What the driver
  does in its callbacks is a parameter: a function on the request, which may complete it.
\<close>

section \<open>Queues\<close>

type_synonym 'w request_handler = "'w request \<Rightarrow> 'w request result"

record 'w queue_config =
  PowerManaged :: bool
  EvtIoDefault :: "'w request_handler option"
  EvtIoRead :: "(nat \<Rightarrow> 'w request_handler) option"
  EvtIoWrite :: "(nat \<Rightarrow> 'w request_handler) option"
  EvtIoDeviceControl :: "(nat \<Rightarrow> nat \<Rightarrow> u32 \<Rightarrow> 'w request_handler) option"
  EvtIoInternalDeviceControl :: "(nat \<Rightarrow> nat \<Rightarrow> u32 \<Rightarrow> 'w request_handler) option"
  EvtIoStop :: "('w \<Rightarrow> 'w) option"
  EvtIoResume :: "('w \<Rightarrow> 'w) option"

record 'w winwdf_queue =
  q_config :: "'w queue_config"
  stopped :: bool

definition opt_call :: "('w \<Rightarrow> 'w) option \<Rightarrow> 'w \<Rightarrow> 'w" where
  "opt_call f w = (case f of None \<Rightarrow> w | Some g \<Rightarrow> g w)"

definition wdf_queue_resume :: "'w winwdf_queue \<Rightarrow> 'w \<Rightarrow> 'w winwdf_queue \<times> 'w" where
  "wdf_queue_resume q w =
     (if \<not> PowerManaged (q_config q) \<or> \<not> stopped q then (q, w)
      else (q\<lparr>stopped := False\<rparr>, opt_call (EvtIoResume (q_config q)) w))"

definition wdf_queue_stop :: "'w winwdf_queue \<Rightarrow> 'w \<Rightarrow> 'w winwdf_queue \<times> 'w" where
  "wdf_queue_stop q w =
     (if \<not> PowerManaged (q_config q) \<or> stopped q then (q, w)
      else (q\<lparr>stopped := True\<rparr>, opt_call (EvtIoStop (q_config q)) w))"

definition queue_destr :: "'w winwdf_queue \<Rightarrow> 'w \<Rightarrow> 'w" where
  "queue_destr q w =
     (if PowerManaged (q_config q) \<and> \<not> stopped q then opt_call (EvtIoStop (q_config q)) w else w)"

text \<open>A request the queue cannot process is left as it is.\<close>

definition wdf_queue_create :: "'w winwdf_queue \<Rightarrow> 'w request_handler" where
  "wdf_queue_create q req =
     (case EvtIoDefault (q_config q) of
        None \<Rightarrow> Inr req | Some f \<Rightarrow> if stopped q then Inr req else f req)"

definition wdf_queue_read :: "'w winwdf_queue \<Rightarrow> nat \<Rightarrow> 'w request_handler" where
  "wdf_queue_read q len req =
     (case EvtIoRead (q_config q) of
        None \<Rightarrow> Inr req | Some f \<Rightarrow> if stopped q then Inr req else f len req)"

definition wdf_queue_write :: "'w winwdf_queue \<Rightarrow> nat \<Rightarrow> 'w request_handler" where
  "wdf_queue_write q len req =
     (case EvtIoWrite (q_config q) of
        None \<Rightarrow> Inr req | Some f \<Rightarrow> if stopped q then Inr req else f len req)"

definition wdf_queue_devctrl :: "'w winwdf_queue \<Rightarrow> u32 \<Rightarrow> nat \<Rightarrow> nat \<Rightarrow> 'w request_handler" where
  "wdf_queue_devctrl q code in_len out_len req =
     (case EvtIoDeviceControl (q_config q) of
        None \<Rightarrow> Inr req | Some f \<Rightarrow> if stopped q then Inr req else f out_len in_len code req)"

definition wdf_queue_int_devctrl :: "'w winwdf_queue \<Rightarrow> u32 \<Rightarrow> nat \<Rightarrow> nat \<Rightarrow> 'w request_handler" where
  "wdf_queue_int_devctrl q code in_len out_len req =
     (case EvtIoInternalDeviceControl (q_config q) of
        None \<Rightarrow> Inr req | Some f \<Rightarrow> if stopped q then Inr req else f out_len in_len code req)"

section \<open>Devices\<close>

datatype wdf_queue_req_type =
  WDF_QUEUE_REQ_CREATE | WDF_QUEUE_REQ_READ | WDF_QUEUE_REQ_WRITE | WDF_QUEUE_REQ_DEVCTRL | WDF_QUEUE_REQ_DEVCTRL_INT

text \<open>The calls of a driver for power and removal.\<close>

datatype pnp_event =
  EvtDevicePrepareHardware | EvtDeviceD0Entry | EvtDeviceD0EntryPostInterruptsEnabled
| EvtDeviceSelfManagedIoInit | EvtDeviceSelfManagedIoSuspend | EvtDeviceD0ExitPreInterruptsDisabled
| EvtDeviceD0Exit | EvtDeviceReleaseHardware | EvtDeviceSelfManagedIoFlush | EvtDeviceSelfManagedIoCleanup

text \<open>
  \<open>struct winwdf_device\<close>: queues by address, the list of all of them, and the callbacks; a callback the
  driver did not give is \<open>None\<close>.
\<close>

record 'w winwdf_device =
  pnp_callbacks :: "(pnp_event \<Rightarrow> ('w \<Rightarrow> u32 \<times> 'w) option) option"
  queues :: "nat list"
  create_queue :: "nat option"
  read_queue :: "nat option"
  write_queue :: "nat option"
  devctrl_queue :: "nat option"
  devctrl_int_queue :: "nat option"

definition wdf_get_dispatch_queue :: "'w winwdf_device \<Rightarrow> wdf_queue_req_type \<Rightarrow> nat option" where
  "wdf_get_dispatch_queue dev ty =
     (case ty of WDF_QUEUE_REQ_CREATE \<Rightarrow> create_queue dev | WDF_QUEUE_REQ_READ \<Rightarrow> read_queue dev
      | WDF_QUEUE_REQ_WRITE \<Rightarrow> write_queue dev | WDF_QUEUE_REQ_DEVCTRL \<Rightarrow> devctrl_queue dev
      | WDF_QUEUE_REQ_DEVCTRL_INT \<Rightarrow> devctrl_int_queue dev)"

definition wdf_configure_device_dispatch :: "nat \<Rightarrow> wdf_queue_req_type \<Rightarrow> 'w winwdf_device \<Rightarrow> 'w winwdf_device" where
  "wdf_configure_device_dispatch q ty dev =
     (case ty of WDF_QUEUE_REQ_CREATE \<Rightarrow> dev\<lparr>create_queue := Some q\<rparr>
      | WDF_QUEUE_REQ_READ \<Rightarrow> dev\<lparr>read_queue := Some q\<rparr>
      | WDF_QUEUE_REQ_WRITE \<Rightarrow> dev\<lparr>write_queue := Some q\<rparr>
      | WDF_QUEUE_REQ_DEVCTRL \<Rightarrow> dev\<lparr>devctrl_queue := Some q\<rparr>
      | WDF_QUEUE_REQ_DEVCTRL_INT \<Rightarrow> dev\<lparr>devctrl_int_queue := Some q\<rparr>)"

definition WdfDeviceConfigureRequestDispatching ::
    "nat \<Rightarrow> wdf_request_type \<Rightarrow> bool \<Rightarrow> 'w winwdf_device \<Rightarrow> u32 \<times> 'w winwdf_device" where
  "WdfDeviceConfigureRequestDispatching q ty own_device dev =
     (if \<not> own_device then (WINERR_SET_CODE, dev)
      else case ty of
        WdfRequestTypeCreate \<Rightarrow> (STATUS_SUCCESS, wdf_configure_device_dispatch q WDF_QUEUE_REQ_CREATE dev)
      | WdfRequestTypeRead \<Rightarrow> (STATUS_SUCCESS, wdf_configure_device_dispatch q WDF_QUEUE_REQ_READ dev)
      | WdfRequestTypeWrite \<Rightarrow> (STATUS_SUCCESS, wdf_configure_device_dispatch q WDF_QUEUE_REQ_WRITE dev)
      | WdfRequestTypeDeviceControl \<Rightarrow> (STATUS_SUCCESS, wdf_configure_device_dispatch q WDF_QUEUE_REQ_DEVCTRL dev)
      | WdfRequestTypeDeviceControlInternal \<Rightarrow>
          (STATUS_SUCCESS, wdf_configure_device_dispatch q WDF_QUEUE_REQ_DEVCTRL_INT dev)
      | _ \<Rightarrow> (WINERR_SET_CODE, dev))"

definition wdf_add_device_queue :: "nat \<Rightarrow> 'w winwdf_device \<Rightarrow> 'w winwdf_device" where
  "wdf_add_device_queue q dev = dev\<lparr>queues := q # queues dev\<rparr>"

text \<open>
  \<open>wdf_remove_device_queue\<close>: the node of a queue is unlinked and freed, but the loop goes on with its
  \<open>next\<close>; it ends well only when the queue is not in the list.
\<close>

fun remove_queue_loop :: "nat \<Rightarrow> nat list \<Rightarrow> nat list result" where
  "remove_queue_loop q [] = Inr []"
| "remove_queue_loop q (x # xs) =
     (if x = q then Inl Fault else res_bind (remove_queue_loop q xs) (\<lambda>ys. Inr (x # ys)))"

definition wdf_remove_device_queue :: "nat \<Rightarrow> 'w winwdf_device \<Rightarrow> 'w winwdf_device result" where
  "wdf_remove_device_queue q dev =
     res_bind (remove_queue_loop q (queues dev)) (\<lambda>qs. Inr (dev\<lparr>queues := qs\<rparr>))"

text \<open>The callbacks of a chain, up to the first that fails.\<close>

fun call_pnp :: "(pnp_event \<Rightarrow> ('w \<Rightarrow> u32 \<times> 'w) option) \<Rightarrow> pnp_event list \<Rightarrow> 'w \<Rightarrow> 'w result" where
  "call_pnp cbs [] w = Inr w"
| "call_pnp cbs (e # es) w =
     (case cbs e of
        None \<Rightarrow> call_pnp cbs es w
      | Some f \<Rightarrow> (case f w of (status, w') \<Rightarrow> if status \<noteq> 0 then Inl Abort else call_pnp cbs es w'))"

definition device_call_cbs :: "'w winwdf_device \<Rightarrow> 'w \<Rightarrow> 'w result" where
  "device_call_cbs dev w =
     (case pnp_callbacks dev of
        None \<Rightarrow> Inr w
      | Some cbs \<Rightarrow> call_pnp cbs [EvtDevicePrepareHardware, EvtDeviceD0Entry,
          EvtDeviceD0EntryPostInterruptsEnabled, EvtDeviceSelfManagedIoInit] w)"

text \<open>
  \<open>device_destr\<close>: a failing suspend skips neither the queues nor the check, it only ends in the abort
  later; \<open>destroy_queue\<close> is the destruction of one queue.  The last two callbacks give no status.
\<close>

definition call_void_pnp :: "(pnp_event \<Rightarrow> ('w \<Rightarrow> u32 \<times> 'w) option) \<Rightarrow> pnp_event \<Rightarrow> 'w \<Rightarrow> 'w" where
  "call_void_pnp cbs e w = (case cbs e of None \<Rightarrow> w | Some f \<Rightarrow> snd (f w))"

definition device_destr :: "(nat \<Rightarrow> 'w \<Rightarrow> 'w) \<Rightarrow> 'w winwdf_device \<Rightarrow> 'w \<Rightarrow> 'w result" where
  "device_destr destroy_queue dev w =
     (case pnp_callbacks dev of
        None \<Rightarrow> Inr (fold destroy_queue (queues dev) w)
      | Some cbs \<Rightarrow>
          res_bind (call_pnp cbs [EvtDeviceSelfManagedIoSuspend] w) (\<lambda>w1.
          let w2 = fold destroy_queue (queues dev) w1 in
          res_bind (call_pnp cbs [EvtDeviceD0ExitPreInterruptsDisabled, EvtDeviceD0Exit, EvtDeviceReleaseHardware] w2)
            (\<lambda>w3. Inr (call_void_pnp cbs EvtDeviceSelfManagedIoCleanup
                    (call_void_pnp cbs EvtDeviceSelfManagedIoFlush w3)))))"

section \<open>Files\<close>

definition create_params :: wdf_parameters where
  "create_params = zero_parameters\<lparr>req_type := WdfRequestTypeCreate, FileAttributes := 0x80\<rparr>"

text \<open>
  \<open>winwdf_open_device\<close>: the create request goes to the queue for it, or to the driver's callback, or is
  completed at once; then its completion is awaited.
\<close>

definition winwdf_open_device ::
    "completion option \<Rightarrow> (nat \<times> 'w winwdf_queue) option \<Rightarrow> 'w request_handler option \<Rightarrow> 'w \<Rightarrow> (u32 \<times> 'w) result" where
  "winwdf_open_device later queue file_create w =
     res_bind (wdf_configure_request None (map_option fst queue) 0 0 None None None (Some create_params)
         (wdf_create_request w)) (\<lambda>req.
     res_bind (wdf_start_request (-1) req) (\<lambda>req1.
     res_bind (case queue of
           Some (_, q) \<Rightarrow> wdf_queue_create q req1
         | None \<Rightarrow> (case file_create of
               Some f \<Rightarrow> f req1
             | None \<Rightarrow> wdf_complete_request STATUS_SUCCESS None req1)) (\<lambda>req2.
     res_bind (winwdf_wait_request later req2) (\<lambda>(status, req3).
     res_bind (req_destr None req3) (\<lambda>w'. Inr (status, w'))))))"

section \<open>Device control\<close>

text \<open>
  The memory of the caller: its output buffer and its \<open>OVERLAPPED\<close>.  Ghost: \<open>seen_out\<close>, the output
  buffer when the \<open>OVERLAPPED\<close> was completed, which is what a thread that waits for it may find.
\<close>

record devctrl_world =
  caller_out :: "byte list"
  caller_ov :: overlapped
  seen_out :: "byte list option"

definition devctrl_params :: "u32 \<Rightarrow> nat \<Rightarrow> nat \<Rightarrow> wdf_parameters" where
  "devctrl_params code in_size out_size =
     zero_parameters\<lparr>req_type := WdfRequestTypeDeviceControl, IoControlCode := code,
       InputBufferLength := in_size, OutputBufferLength := out_size\<rparr>"

text \<open>\<open>devctrl_cb\<close>: the output of a successful request is copied to the caller.\<close>

definition devctrl_cb :: "nat \<Rightarrow> u32 \<Rightarrow> 'w request \<Rightarrow> devctrl_world \<Rightarrow> devctrl_world result" where
  "devctrl_cb out_size status req cw =
     (if status = STATUS_SUCCESS then
        let n = min out_size (unat (wdf_get_info req)) in
        if n = 0 then Inr cw
        else (case wdf_get_request_out_buf req of
            None \<Rightarrow> Inl Fault
          | Some b \<Rightarrow>
              res_bind (struct_at b 0 n) (\<lambda>data.
              if n \<le> length (caller_out cw) then Inr (cw\<lparr>caller_out := splice (caller_out cw) 0 data\<rparr>)
              else Inl Fault))
      else Inr cw)"

text \<open>\<open>req_cb\<close> on the request, and the completion of the \<open>OVERLAPPED\<close>.\<close>

definition overlapped_cb :: "u32 \<Rightarrow> 'w request \<Rightarrow> devctrl_world \<Rightarrow> devctrl_world result" where
  "overlapped_cb status req cw =
     res_bind (req_cb status (map_option (\<lambda>(_, _, _, b, _, info). (case b of None \<Rightarrow> [] | Some bs \<Rightarrow> bs, unat info))
         (winwdf_get_request_info req))) (\<lambda>(s, n).
     Inr (cw\<lparr>caller_ov := winio_complete_overlapped s (word_of_nat n) (caller_ov cw),
             seen_out := Some (caller_out cw)\<rparr>))"

definition DEVCTRL_CB :: nat where "DEVCTRL_CB = 0"
definition REQ_CB :: nat where "REQ_CB = 1"

text \<open>The effects of the callbacks a request called, in their order.\<close>

fun run_callbacks :: "nat \<Rightarrow> (nat \<times> u32) list \<Rightarrow> 'w request \<Rightarrow> devctrl_world \<Rightarrow> devctrl_world result" where
  "run_callbacks out_size [] req cw = Inr cw"
| "run_callbacks out_size ((cb, status) # cs) req cw =
     res_bind (if cb = DEVCTRL_CB then devctrl_cb out_size status req cw else overlapped_cb status req cw)
       (run_callbacks out_size cs req)"

definition perform :: "nat \<Rightarrow> 'w request \<Rightarrow> 'w request \<Rightarrow> devctrl_world \<Rightarrow> devctrl_world result" where
  "perform out_size before req cw = run_callbacks out_size (drop (length (calls before)) (calls req)) req cw"

text \<open>The input is copied into the request; an empty one needs no buffer.\<close>

definition fill_in_buf :: "byte list \<Rightarrow> 'w request \<Rightarrow> 'w request" where
  "fill_in_buf data req = (if data = [] then req else req\<lparr>in_buf := Some data\<rparr>)"

definition winwdf_devctrl_file ::
    "nat \<times> 'w winwdf_queue \<Rightarrow> u32 \<Rightarrow> byte list \<Rightarrow> 'w \<Rightarrow> devctrl_world \<Rightarrow> ('w request \<times> devctrl_world) result" where
  "winwdf_devctrl_file queue code in_data w cw =
     (let out_size = length (caller_out cw) in
      res_bind (wdf_configure_request None (Some (fst queue)) (length in_data) out_size None None None
          (Some (devctrl_params code (length in_data) out_size)) (wdf_create_request w)) (\<lambda>req.
      let req1 = winwdf_add_request_callback DEVCTRL_CB (fill_in_buf in_data req) in
      res_bind (wdf_start_request (-1) req1) (\<lambda>req2.
      res_bind (wdf_queue_devctrl (snd queue) code (length in_data) out_size req2) (\<lambda>req3.
      res_bind (perform out_size req2 req3 cw) (\<lambda>cw'. Inr (req3, cw'))))))"

text \<open>
  \<open>tudor_devctrl\<close>: the request is made, the output buffer is looked at, and the \<open>OVERLAPPED\<close> is tied to
  the request last.
\<close>

definition tudor_devctrl ::
    "tudor_device \<Rightarrow> (nat \<times> 'w winwdf_queue) option \<Rightarrow> u32 \<Rightarrow> byte list \<Rightarrow> 'w \<Rightarrow> devctrl_world \<Rightarrow>
      (u32 \<times> 'w request option \<times> devctrl_world) result" where
  "tudor_devctrl dev queue code in_data w cw =
     (case queue of
        None \<Rightarrow> Inr (WINERR_SET_CODE, None, cw)
      | Some q \<Rightarrow>
          res_bind (winwdf_devctrl_file q code in_data w cw) (\<lambda>(req, cw1).
          let cw2 = cw1\<lparr>caller_out := tudor_devctrl_output dev code STATUS_SUCCESS (caller_out cw1)\<rparr>;
              req1 = winwdf_add_request_callback REQ_CB req in
          res_bind (perform (length (caller_out cw)) req req1 cw2) (\<lambda>cw3. Inr (STATUS_SUCCESS, Some req1, cw3))))"

definition tudor_cancel :: "'w request \<Rightarrow> (u32 \<times> 'w request) result" where
  "tudor_cancel req = res_bind (winwdf_cancel_request req) (\<lambda>req'. Inr (STATUS_SUCCESS, req'))"

definition tudor_cleanup :: "completion option \<Rightarrow> 'w request \<Rightarrow> 'w result" where
  "tudor_cleanup later req = req_destr later req"

section \<open>A device control from end to end\<close>

text \<open>
  A driver that answers a request with some output, at once or, when it is not \<open>prompt\<close>, after
  \<open>tudor_devctrl\<close> returned.
\<close>

definition answer_request :: "byte list \<Rightarrow> 'w request_handler" where
  "answer_request data req =
     res_bind (store_out_buf data req) (\<lambda>req1.
     WdfRequestComplete STATUS_SUCCESS (WdfRequestSetInformation (word_of_nat (length data)) req1))"

definition answering_queue :: "bool \<Rightarrow> byte list \<Rightarrow> 'w winwdf_queue" where
  "answering_queue prompt data =
     \<lparr>q_config = \<lparr>PowerManaged = False, EvtIoDefault = None, EvtIoRead = None, EvtIoWrite = None,
        EvtIoDeviceControl = Some (\<lambda>_ _ _ req. if prompt then answer_request data req else Inr req),
        EvtIoInternalDeviceControl = None, EvtIoStop = None, EvtIoResume = None\<rparr>, stopped = False\<rparr>"

definition devctrl_exchange ::
    "bool \<Rightarrow> byte list \<Rightarrow> tudor_device \<Rightarrow> u32 \<Rightarrow> byte list \<Rightarrow> 'w \<Rightarrow> devctrl_world \<Rightarrow> devctrl_world result" where
  "devctrl_exchange prompt data dev code in_data w cw =
     res_bind (tudor_devctrl dev (Some (0, answering_queue prompt data)) code in_data w cw) (\<lambda>(_, r, cw1).
     case r of
       None \<Rightarrow> Inr cw1
     | Some req \<Rightarrow>
         if prompt then Inr cw1
         else res_bind (answer_request data req) (\<lambda>req'. perform (length (caller_out cw)) req req' cw1))"

text \<open>A request that waits for its answer.\<close>

definition pending_devctrl :: "nat \<Rightarrow> 'w request \<Rightarrow> bool" where
  "pending_devctrl out_size req \<longleftrightarrow> running req \<and> chain_ok req \<and> calls req = [] \<and>
     out_buf req = malloc_buf out_size \<and> out_buf_size req = out_size"

lemma answer_pending:
  assumes "pending_devctrl n req" and "length data \<le> n"
  shows "\<exists>req'. answer_request data req = Inr req' \<and> is_done req' \<and> is_configured req' \<and> is_started req' \<and>
    rq_status req' = STATUS_SUCCESS \<and>
    out_buf req' = (if n = 0 then None else Some (splice (replicate n 0) 0 data)) \<and> out_buf_size req' = n \<and>
    drv_info req' = word_of_nat (length data) \<and>
    calls req' = map (\<lambda>(a, cb). (cb, STATUS_SUCCESS)) (callbacks req)"
proof -
  obtain req1 where r: "store_out_buf data req = Inr req1"
    "req1 = req\<lparr>out_buf := (if n = 0 then None else Some (splice (replicate n 0) 0 data))\<rparr>"
    using assms by (cases "n = 0") (auto simp: store_out_buf_def pending_devctrl_def malloc_buf_def)
  let ?r = "req1\<lparr>drv_info := word_of_nat (length data)\<rparr>"
  have "chain_ok ?r" "running ?r" using assms(1) r(2) by (simp_all add: chain_ok_def running_def pending_devctrl_def)
  from complete_ok[OF this, of STATUS_SUCCESS None] show ?thesis
    using assms(1) r by (simp add: answer_request_def WdfRequestComplete_def WdfRequestSetInformation_def
        pending_devctrl_def running_def)
qed

lemma devctrl_request:
  obtains req where
    "wdf_configure_request None (Some a) m n None None None (Some ps) (wdf_create_request w) = Inr req"
    "wdf_start_request (-1) (winwdf_add_request_callback DEVCTRL_CB (fill_in_buf d req)) =
      Inr ((winwdf_add_request_callback DEVCTRL_CB (fill_in_buf d req))\<lparr>rq_status := 0, is_started := True\<rparr>)"
    "pending_devctrl n ((winwdf_add_request_callback DEVCTRL_CB (fill_in_buf d req))\<lparr>rq_status := 0, is_started := True\<rparr>)"
    "callbacks (winwdf_add_request_callback DEVCTRL_CB (fill_in_buf d req)) = [(0, DEVCTRL_CB)]"
  by (simp add: wdf_configure_request_def cond_wait_def running_def wdf_create_request_def
      winwdf_add_request_callback_def fill_in_buf_def wdf_start_request_def call_start_def pending_devctrl_def
      chain_ok_def split: if_splits)

lemma copy_answer:
  assumes "drv_info req = word_of_nat (length data)" and "is_configured req" and "length data \<le> n" and "n < 2 ^ 64"
    and "out_buf req = (if n = 0 then None else Some (splice (replicate n 0) 0 data))"
    and "length (caller_out cw) = n"
  shows "devctrl_cb n STATUS_SUCCESS req cw = Inr (cw\<lparr>caller_out := splice (caller_out cw) 0 data\<rparr>)"
proof -
  have i: "unat (word_of_nat (length data) :: u64) = length data"
    using assms(3,4) unfolding unat_of_nat take_bit_eq_mod by simp
  show ?thesis
  proof (cases "data = []")
    case True
    then show ?thesis using assms(1,2) by (simp add: devctrl_cb_def wdf_get_info_def)
  next
    case False
    then have n: "n \<noteq> 0" "min n (length data) = length data" using assms(3) by (cases data, auto)
    have "struct_at (splice (replicate n 0) 0 data) 0 (length data) = Inr data"
      using assms(3) by (simp add: struct_at_in_range) (simp add: splice_def)
    then show ?thesis
      using assms(2,3,5,6) n False
      by (simp add: devctrl_cb_def Let_def wdf_get_info_def assms(1) i wdf_get_request_out_buf_def)
  qed
qed

lemma signal_answer:
  assumes "drv_info req = word_of_nat (length data)" and "is_configured req" and "is_started req"
    and "length data \<le> n" and "n < 2 ^ 64"
    and "out_buf req = (if n = 0 then None else Some (splice (replicate n 0) 0 data))"
  shows "overlapped_cb STATUS_SUCCESS req cw =
    Inr (cw\<lparr>caller_ov := winio_complete_overlapped STATUS_SUCCESS (word_of_nat (length data)) (caller_ov cw),
            seen_out := Some (caller_out cw)\<rparr>)"
proof -
  have i: "unat (word_of_nat (length data) :: u64) = length data"
    using assms(4,5) unfolding unat_of_nat take_bit_eq_mod by simp
  show ?thesis
  proof (cases "n = 0")
    case True
    then have "data = []" using assms(4) by simp
    with True assms show ?thesis by (simp add: overlapped_cb_def winwdf_get_request_info_def req_cb_def)
  next
    case False
    then show ?thesis using assms(2-6) by (simp add: overlapped_cb_def winwdf_get_request_info_def req_cb_def assms(1) i)
  qed
qed

lemma exchange_prompt:
  assumes "length data \<le> length (caller_out cw)" and "length (caller_out cw) < 2 ^ 64"
  shows "devctrl_exchange True data dev code in_data w cw =
    (let out' = tudor_devctrl_output dev code STATUS_SUCCESS (splice (caller_out cw) 0 data) in
     Inr \<lparr>caller_out = out',
       caller_ov = winio_complete_overlapped STATUS_SUCCESS (word_of_nat (length data)) (caller_ov cw),
       seen_out = Some out'\<rparr>)"
proof -
  let ?n = "length (caller_out cw)"
  obtain req where req:
    "wdf_configure_request None (Some 0) (length in_data) ?n None None None
       (Some (devctrl_params code (length in_data) ?n)) (wdf_create_request w) = Inr req"
    "wdf_start_request (-1) (winwdf_add_request_callback DEVCTRL_CB (fill_in_buf in_data req)) =
      Inr ((winwdf_add_request_callback DEVCTRL_CB (fill_in_buf in_data req))\<lparr>rq_status := 0, is_started := True\<rparr>)"
    "pending_devctrl ?n ((winwdf_add_request_callback DEVCTRL_CB (fill_in_buf in_data req))\<lparr>rq_status := 0, is_started := True\<rparr>)"
    "callbacks (winwdf_add_request_callback DEVCTRL_CB (fill_in_buf in_data req)) = [(0, DEVCTRL_CB)]"
    by (rule devctrl_request)
  let ?req = "(winwdf_add_request_callback DEVCTRL_CB (fill_in_buf in_data req))\<lparr>rq_status := 0, is_started := True\<rparr>"
  obtain r' where r': "answer_request data ?req = Inr r'" "is_done r'" "is_configured r'" "is_started r'"
    "rq_status r' = STATUS_SUCCESS" "out_buf r' = (if ?n = 0 then None else Some (splice (replicate ?n 0) 0 data))"
    "drv_info r' = word_of_nat (length data)" "calls r' = [(DEVCTRL_CB, STATUS_SUCCESS)]"
    using answer_pending[OF req(3) assms(1)] req(4) by auto
  have p1: "perform ?n ?req r' cw = Inr (cw\<lparr>caller_out := splice (caller_out cw) 0 data\<rparr>)"
    using req(3) r' copy_answer[OF r'(7,3) assms r'(6) refl] by (simp add: perform_def pending_devctrl_def)
  let ?r2 = "r'\<lparr>calls := calls r' @ [(REQ_CB, rq_status r')]\<rparr>"
  have add: "winwdf_add_request_callback REQ_CB r' = ?r2"
    using r' by (simp add: winwdf_add_request_callback_def)
  have p2: "perform ?n r' ?r2 cw1 =
      Inr (cw1\<lparr>caller_ov := winio_complete_overlapped STATUS_SUCCESS (word_of_nat (length data)) (caller_ov cw1),
               seen_out := Some (caller_out cw1)\<rparr>)" for cw1
    using signal_answer[of ?r2 data ?n cw1] r' assms by (simp add: perform_def DEVCTRL_CB_def REQ_CB_def)
  show ?thesis
    using req(1,2) r'(1) p1
    by (simp add: devctrl_exchange_def tudor_devctrl_def winwdf_devctrl_file_def wdf_queue_devctrl_def
        answering_queue_def Let_def add p2)
qed

lemma exchange_pending:
  assumes "length data \<le> length (caller_out cw)" and "length (caller_out cw) < 2 ^ 64"
  shows "devctrl_exchange False data dev code in_data w cw =
    (let out' = tudor_devctrl_output dev code STATUS_SUCCESS (caller_out cw) in
     Inr \<lparr>caller_out = splice out' 0 data,
       caller_ov = winio_complete_overlapped STATUS_SUCCESS (word_of_nat (length data)) (caller_ov cw),
       seen_out = Some out'\<rparr>)"
proof -
  let ?n = "length (caller_out cw)"
  obtain req where req:
    "wdf_configure_request None (Some 0) (length in_data) ?n None None None
       (Some (devctrl_params code (length in_data) ?n)) (wdf_create_request w) = Inr req"
    "wdf_start_request (-1) (winwdf_add_request_callback DEVCTRL_CB (fill_in_buf in_data req)) =
      Inr ((winwdf_add_request_callback DEVCTRL_CB (fill_in_buf in_data req))\<lparr>rq_status := 0, is_started := True\<rparr>)"
    "pending_devctrl ?n ((winwdf_add_request_callback DEVCTRL_CB (fill_in_buf in_data req))\<lparr>rq_status := 0, is_started := True\<rparr>)"
    "callbacks (winwdf_add_request_callback DEVCTRL_CB (fill_in_buf in_data req)) = [(0, DEVCTRL_CB)]"
    by (rule devctrl_request)
  let ?req = "(winwdf_add_request_callback DEVCTRL_CB (fill_in_buf in_data req))\<lparr>rq_status := 0, is_started := True\<rparr>"
  let ?r1 = "winwdf_add_request_callback REQ_CB ?req"
  have r1: "pending_devctrl ?n ?r1" "map snd (callbacks ?r1) = [REQ_CB, DEVCTRL_CB]" "calls ?r1 = calls ?req" "calls ?req = []"
    using req(3,4) by (auto simp: pending_devctrl_def running_def winwdf_add_request_callback_def chain_ok_def)
  have cs: "map (\<lambda>(a, cb). (cb, STATUS_SUCCESS)) (callbacks ?r1) = [(REQ_CB, STATUS_SUCCESS), (DEVCTRL_CB, STATUS_SUCCESS)]"
    using arg_cong[OF r1(2), of "map (\<lambda>cb. (cb, STATUS_SUCCESS))"] by (simp add: case_prod_unfold comp_def)
  obtain r' where r': "answer_request data ?r1 = Inr r'" "is_done r'" "is_configured r'" "is_started r'"
    "out_buf r' = (if ?n = 0 then None else Some (splice (replicate ?n 0) 0 data))"
    "drv_info r' = word_of_nat (length data)" "calls r' = [(REQ_CB, STATUS_SUCCESS), (DEVCTRL_CB, STATUS_SUCCESS)]"
    using answer_pending[OF r1(1) assms(1)] cs by auto
  let ?out = "tudor_devctrl_output dev code STATUS_SUCCESS (caller_out cw)"
  have len: "length ?out = ?n" by (simp add: tudor_devctrl_output_def Let_def)
  have p1: "perform ?n ?req ?req cw = Inr cw" for cw
    by (simp add: perform_def)
  have p2: "perform ?n ?req ?r1 cw1 = Inr cw1" for cw1
    using r1(3) by (simp add: perform_def)
  have p3: "perform ?n ?r1 r' (cw\<lparr>caller_out := ?out\<rparr>) = Inr \<lparr>caller_out = splice ?out 0 data,
       caller_ov = winio_complete_overlapped STATUS_SUCCESS (word_of_nat (length data)) (caller_ov cw),
       seen_out = Some ?out\<rparr>"
    using signal_answer[OF r'(6,3,4) assms r'(5), of "cw\<lparr>caller_out := ?out\<rparr>"]
      copy_answer[OF r'(6,3) assms r'(5), of "cw\<lparr>caller_out := ?out,
        caller_ov := winio_complete_overlapped STATUS_SUCCESS (word_of_nat (length data)) (caller_ov cw), seen_out := Some ?out\<rparr>"]
      r'(7) r1(3,4) len
    by (simp add: perform_def DEVCTRL_CB_def REQ_CB_def)
  show ?thesis
    using req(1,2) r'(1) p1 p2 p3
    by (simp add: devctrl_exchange_def tudor_devctrl_def winwdf_devctrl_file_def wdf_queue_devctrl_def
        answering_queue_def Let_def)
qed

section \<open>Properties\<close>

text \<open>
  A device control delivers the driver's answer, whether the driver completes the request at once or
  later: the caller's output buffer ends up with it and the \<open>OVERLAPPED\<close> reports success and its
  length.
\<close>

theorem devctrl_delivers_answer:
  assumes "length data \<le> length (caller_out cw)" and "length (caller_out cw) < 2 ^ 64" and "code \<noteq> 0x44202c"
  shows "\<exists>cw'. devctrl_exchange prompt data dev code in_data w cw = Inr cw' \<and>
    caller_out cw' = splice (caller_out cw) 0 data \<and>
    caller_ov cw' = winio_complete_overlapped STATUS_SUCCESS (word_of_nat (length data)) (caller_ov cw)"
  using exchange_prompt[OF assms(1,2), of dev code in_data w] exchange_pending[OF assms(1,2), of dev code in_data w] assms(3)
  by (cases prompt) (simp_all add: tudor_devctrl_output_def Let_def)

definition waiting_caller :: "byte list \<Rightarrow> devctrl_world" where
  "waiting_caller out = \<lparr>caller_out = out, caller_ov = zero_overlapped, seen_out = None\<rparr>"

theorem devctrl_delivers_answer_witness:
  "\<exists>cw'. devctrl_exchange False [1, 2] fresh_device 0x440004 [9] () (waiting_caller [0, 0, 0]) = Inr cw' \<and>
     caller_out cw' = [1, 2, 0] \<and>
     caller_ov cw' = winio_complete_overlapped STATUS_SUCCESS 2 zero_overlapped"
  using devctrl_delivers_answer[of "[1, 2]" "waiting_caller [0, 0, 0]" "0x440004" False fresh_device "[9]" "()"]
  by (simp add: waiting_caller_def splice_def)

text \<open>
  When the driver completes the request later, the \<open>OVERLAPPED\<close> is signalled before the output is
  there: the callback that signals it was added last and is called first, so a thread that waits may
  still see what the buffer held before.
\<close>

theorem pending_devctrl_signals_early:
  assumes "length data \<le> length (caller_out cw)" and "length (caller_out cw) < 2 ^ 64" and "code \<noteq> 0x44202c"
  shows "\<exists>cw'. devctrl_exchange False data dev code in_data w cw = Inr cw' \<and>
    seen_out cw' = Some (caller_out cw) \<and> caller_out cw' = splice (caller_out cw) 0 data"
  using exchange_pending[OF assms(1,2), of dev code in_data w] assms(3)
  by (simp add: tudor_devctrl_output_def Let_def)

theorem pending_devctrl_signals_early_witness:
  "\<exists>cw'. devctrl_exchange False [1, 2] fresh_device 0x440004 [9] () (waiting_caller [0, 0, 0]) = Inr cw' \<and>
     seen_out cw' = Some [0, 0, 0] \<and> caller_out cw' = [1, 2, 0]"
  using pending_devctrl_signals_early[of "[1, 2]" "waiting_caller [0, 0, 0]" "0x440004" fresh_device "[9]" "()"]
  by (simp add: waiting_caller_def splice_def)

text \<open>
  The template count is hidden during an enrollment only when the driver completes the request at
  once: a count it gives later reaches the caller as it is, since the buffer was looked at before.
\<close>

theorem late_template_count_not_hidden:
  assumes "override_template_count dev" and "length (caller_out cw) < 2 ^ 64" and "4 \<le> length (caller_out cw)"
    and "n \<noteq> 0"
  shows "\<exists>p l. devctrl_exchange True (word_le 4 (n :: u32)) dev 0x44202c in_data w cw = Inr p \<and>
    devctrl_exchange False (word_le 4 n) dev 0x44202c in_data w cw = Inr l \<and>
    (fld (caller_out p) 0 4 :: u32) = 0 \<and> (fld (caller_out l) 0 4 :: u32) = n"
proof -
  have len: "length (word_le 4 n) \<le> length (caller_out cw)" using assms(3) by simp
  have t: "take 4 (splice b 0 (word_le 4 m)) = word_le 4 m" for b and m :: u32 by (simp add: splice_def)
  have "(le_word (take 4 (splice (caller_out cw) 0 (word_le 4 n))) :: u32) = n" by (simp add: t)
  then have "tudor_devctrl_output dev 0x44202c STATUS_SUCCESS (splice (caller_out cw) 0 (word_le 4 n)) =
      splice (splice (caller_out cw) 0 (word_le 4 n)) 0 (word_le 4 (0 :: u32))"
    using assms(1,3,4) by (simp add: tudor_devctrl_output_def Let_def word_gt_0)
  then show ?thesis
    using exchange_prompt[OF len assms(2), of dev "0x44202c" in_data w]
      exchange_pending[OF len assms(2), of dev "0x44202c" in_data w]
    by (simp add: Let_def fld_def t)
qed

theorem late_template_count_not_hidden_witness:
  "\<exists>p l. devctrl_exchange True (word_le 4 (3 :: u32)) (fresh_device\<lparr>override_template_count := True\<rparr>) 0x44202c [] ()
      (waiting_caller [0, 0, 0, 0]) = Inr p \<and>
    devctrl_exchange False (word_le 4 (3 :: u32)) (fresh_device\<lparr>override_template_count := True\<rparr>) 0x44202c [] ()
      (waiting_caller [0, 0, 0, 0]) = Inr l \<and>
    (fld (caller_out p) 0 4 :: u32) = 0 \<and> (fld (caller_out l) 0 4 :: u32) = 3"
  by (rule late_template_count_not_hidden) (simp_all add: waiting_caller_def)

text \<open>
  Deleting a queue that its device still lists uses freed memory: its node is unlinked and freed,
  and the search goes on from it.
\<close>

theorem removed_queue_uses_freed_node:
  assumes "q \<in> set (queues dev)"
  shows "wdf_remove_device_queue q dev = Inl Fault"
proof -
  have "remove_queue_loop q xs = Inl Fault" if "q \<in> set xs" for xs
    using that by (induction xs) auto
  then show ?thesis using assms by (simp add: wdf_remove_device_queue_def)
qed

theorem removed_queue_uses_freed_node_witness:
  "wdf_remove_device_queue 5 (wdf_add_device_queue 5 \<lparr>pnp_callbacks = None, queues = [], create_queue = None,
     read_queue = None, write_queue = None, devctrl_queue = None, devctrl_int_queue = None\<rparr>) = Inl Fault"
  by (rule removed_queue_uses_freed_node) (simp add: wdf_add_device_queue_def)

text \<open>
  Opening a device whose create queue cannot take the request never returns, unless something else
  completes it.
\<close>

theorem open_without_create_handler_hangs:
  assumes "EvtIoDefault (q_config q) = None \<or> stopped q"
  shows "winwdf_open_device None (Some (a, q)) file_create w = Inl Hang"
proof -
  have "wdf_queue_create q req = Inr req" for req
    using assms by (auto simp: wdf_queue_create_def split: option.split)
  then show ?thesis
    by (simp add: winwdf_open_device_def wdf_configure_request_def cond_wait_def running_def wdf_create_request_def
        wdf_start_request_def call_start_def winwdf_wait_request_def deliver_def)
qed

theorem open_without_create_handler_hangs_witness:
  "winwdf_open_device None (Some (0, answering_queue True [])) None () = Inl Hang"
  by (rule open_without_create_handler_hangs) (simp add: answering_queue_def)

end
