(* ===== verification/Wdf_Object.thy ===== *)
theory Wdf_Object
  imports Device_State "HOL-Library.Multiset"
begin

text \<open>
  The objects of the driver framework: the event queue (\<open>libtudor/src/winapi/wdf/evtqueue.c\<close>), the contexts
  of an object (\<open>winapi/wdf/object.c\<close>) and memory objects (\<open>winapi/wdf/mem.c\<close>).
\<close>

section \<open>The event queue\<close>

text \<open>
  An action is kept under its address.  \<open>act_object\<close> is its object, or NULL once it is orphaned, and
  \<open>act_obj_next\<close> the rest of the chain of its object's actions.  \<open>evtq\<close> is the queue from \<open>queue_head\<close>
  over \<open>next\<close>, \<open>acts_head\<close> the chain of an object from \<open>evtqueue_acts_head\<close>.  \<open>act_live\<close> and \<open>obj_live\<close>
  tell what is allocated; addresses of actions are not used twice.  Ghost: \<open>evt_ran\<close>, the actions that
  ran, and \<open>evt_dropped\<close>, those whose object went away.
\<close>

record 'a evt_action =
  act_object :: "nat option"
  act_obj_next :: "nat list"
  act_action :: 'a

record 'a evtqueue =
  evtq :: "nat list"
  acts :: "nat \<Rightarrow> 'a evt_action"
  act_live :: "nat \<Rightarrow> bool"
  acts_head :: "nat \<Rightarrow> nat list"
  obj_live :: "nat \<Rightarrow> bool"
  next_act :: nat
  evt_ran :: "(nat \<times> 'a) list"
  evt_dropped :: "(nat \<times> 'a) list"

definition wdf_evtqueue_enqueue :: "nat \<Rightarrow> 'a \<Rightarrow> 'a evtqueue \<Rightarrow> 'a evtqueue result" where
  "wdf_evtqueue_enqueue obj f st =
     (if \<not> obj_live st obj then Inl Fault
      else
        let a = next_act st in
        Inr (st\<lparr>acts := (acts st)(a := \<lparr>act_object = Some obj, act_obj_next = acts_head st obj, act_action = f\<rparr>),
                act_live := (act_live st)(a := True), next_act := Suc a, evtq := a # evtq st,
                acts_head := (acts_head st)(obj := a # acts_head st obj)\<rparr>))"

text \<open>One turn of the loop of \<open>winwdf_event_queue_flush\<close>, up to the call of the action.\<close>

definition dispatch_action :: "'a evtqueue \<Rightarrow> 'a evtqueue result" where
  "dispatch_action st =
     (case evtq st of
        [] \<Rightarrow> Inr st
      | a # as \<Rightarrow>
          if \<not> act_live st a then Inl Fault
          else
            let act = acts st a; st1 = st\<lparr>evtq := as, act_live := (act_live st)(a := False)\<rparr> in
            (case act_object act of
               None \<Rightarrow> Inr st1
             | Some obj \<Rightarrow>
                 if \<not> obj_live st obj then Inl Fault
                 else Inr (st1\<lparr>acts_head := (acts_head st)(obj := act_obj_next act),
                               evt_ran := evt_ran st @ [(obj, act_action act)]\<rparr>)))"

text \<open>The loop of \<open>wdf_evtqueue_clear_obj\<close> over the chain of the object.\<close>

fun orphan_acts :: "nat list \<Rightarrow> 'a evtqueue \<Rightarrow> 'a evtqueue result" where
  "orphan_acts [] st = Inr st"
| "orphan_acts (a # as) st =
     (if \<not> act_live st a then Inl Fault
      else orphan_acts as (st\<lparr>acts := (acts st)(a := (acts st a)\<lparr>act_object := None\<rparr>)\<rparr>))"

definition wdf_evtqueue_clear_obj :: "nat \<Rightarrow> 'a evtqueue \<Rightarrow> 'a evtqueue result" where
  "wdf_evtqueue_clear_obj obj st =
     res_bind (orphan_acts (acts_head st obj) st) (\<lambda>st1.
     Inr (st1\<lparr>acts_head := (acts_head st1)(obj := []),
              evt_dropped := evt_dropped st1 @ map (\<lambda>a. (obj, act_action (acts st a))) (acts_head st obj)\<rparr>))"

text \<open>
  What happens to the queue: objects come and go, actions are put in and dispatched; what an action does
  to the queue while it runs are further operations.
\<close>

datatype 'a evt_op = Evt_create nat | Evt_enqueue nat 'a | Evt_dispatch | Evt_destroy nat

fun evt_do :: "'a evt_op \<Rightarrow> 'a evtqueue \<Rightarrow> 'a evtqueue result" where
  "evt_do (Evt_create obj) st =
     Inr (if obj_live st obj then st
          else st\<lparr>obj_live := (obj_live st)(obj := True), acts_head := (acts_head st)(obj := [])\<rparr>)"
| "evt_do (Evt_enqueue obj f) st = (if obj_live st obj then wdf_evtqueue_enqueue obj f st else Inr st)"
| "evt_do Evt_dispatch st = dispatch_action st"
| "evt_do (Evt_destroy obj) st =
     (if obj_live st obj
      then res_bind (wdf_evtqueue_clear_obj obj st) (\<lambda>st1. Inr (st1\<lparr>obj_live := (obj_live st1)(obj := False)\<rparr>))
      else Inr st)"

fun evt_run :: "'a evt_op list \<Rightarrow> 'a evtqueue \<Rightarrow> 'a evtqueue result" where
  "evt_run [] st = Inr st"
| "evt_run (x # xs) st = res_bind (evt_do x st) (evt_run xs)"

definition empty_evtqueue :: "'a \<Rightarrow> 'a evtqueue" where
  "empty_evtqueue f = \<lparr>evtq = [], acts = (\<lambda>_. \<lparr>act_object = None, act_obj_next = [], act_action = f\<rparr>),
     act_live = (\<lambda>_. False), acts_head = (\<lambda>_. []), obj_live = (\<lambda>_. False), next_act = 0,
     evt_ran = [], evt_dropped = []\<rparr>"

text \<open>The actions put in, as far as their object existed.\<close>

fun enqueued :: "'a evt_op list \<Rightarrow> 'a evtqueue \<Rightarrow> (nat \<times> 'a) list" where
  "enqueued [] st = []"
| "enqueued (x # xs) st =
     (case x of Evt_enqueue obj f \<Rightarrow> if obj_live st obj then [(obj, f)] else [] | _ \<Rightarrow> []) @
     (case evt_do x st of Inl _ \<Rightarrow> [] | Inr st1 \<Rightarrow> enqueued xs st1)"

text \<open>
  The chain of an object is the part of the queue that belongs to it, in the same order: both are
  stacks.
\<close>

definition chain_of :: "'a evtqueue \<Rightarrow> nat \<Rightarrow> nat list" where
  "chain_of st obj = filter (\<lambda>a. act_object (acts st a) = Some obj) (evtq st)"

fun suffixes_ok :: "('a evtqueue) \<Rightarrow> nat list \<Rightarrow> bool" where
  "suffixes_ok st [] = True"
| "suffixes_ok st (a # as) \<longleftrightarrow>
     (\<forall>obj. act_object (acts st a) = Some obj \<longrightarrow>
        act_obj_next (acts st a) = filter (\<lambda>b. act_object (acts st b) = Some obj) as) \<and> suffixes_ok st as"

definition pend :: "'a evt_action \<Rightarrow> (nat \<times> 'a) list" where
  "pend act = (case act_object act of None \<Rightarrow> [] | Some obj \<Rightarrow> [(obj, act_action act)])"

definition pending_acts :: "'a evtqueue \<Rightarrow> (nat \<times> 'a) list" where
  "pending_acts st = concat (map (\<lambda>a. pend (acts st a)) (evtq st))"

definition evt_inv :: "'a evtqueue \<Rightarrow> bool" where
  "evt_inv st \<longleftrightarrow> distinct (evtq st) \<and> (\<forall>a \<in> set (evtq st). act_live st a \<and> a < next_act st) \<and>
     (\<forall>a \<in> set (evtq st). \<forall>obj. act_object (acts st a) = Some obj \<longrightarrow> obj_live st obj) \<and>
     (\<forall>obj. obj_live st obj \<longrightarrow> acts_head st obj = chain_of st obj) \<and> suffixes_ok st (evtq st)"

lemma chain_subset: "obj_live st obj \<Longrightarrow> evt_inv st \<Longrightarrow> set (acts_head st obj) \<subseteq> set (evtq st)"
  by (auto simp: evt_inv_def chain_of_def)

lemma suffixes_ok_cong:
  "(\<And>a. a \<in> set as \<Longrightarrow> acts st a = acts st' a) \<Longrightarrow> suffixes_ok st as = suffixes_ok st' as"
proof (induction as)
  case (Cons a as)
  moreover have "filter (\<lambda>b. act_object (acts st b) = Some obj) as = filter (\<lambda>b. act_object (acts st' b) = Some obj) as" for obj
    by (rule filter_cong) (simp_all add: Cons.prems)
  ultimately show ?case by simp
qed simp

lemma pending_acts_cong:
  "(\<And>a. a \<in> set (evtq st) \<Longrightarrow> acts st a = acts st' a) \<Longrightarrow> evtq st = evtq st' \<Longrightarrow> pending_acts st = pending_acts st'"
  unfolding pending_acts_def by (intro arg_cong[where f = concat] map_cong) simp_all

lemma enqueue_ok:
  assumes "evt_inv st" and "obj_live st obj"
  shows "\<exists>st'. wdf_evtqueue_enqueue obj f st = Inr st' \<and> evt_inv st' \<and> obj_live st' = obj_live st \<and>
    evt_ran st' = evt_ran st \<and> evt_dropped st' = evt_dropped st \<and> pending_acts st' = (obj, f) # pending_acts st"
proof -
  let ?a = "next_act st"
  let ?st = "st\<lparr>acts := (acts st)(?a := \<lparr>act_object = Some obj, act_obj_next = acts_head st obj, act_action = f\<rparr>),
      act_live := (act_live st)(?a := True), next_act := Suc ?a, evtq := ?a # evtq st,
      acts_head := (acts_head st)(obj := ?a # acts_head st obj)\<rparr>"
  have fresh: "?a \<notin> set (evtq st)" using assms(1) by (auto simp: evt_inv_def)
  have same: "acts ?st b = acts st b" if "b \<in> set (evtq st)" for b using that fresh by auto
  have filt: "filter (\<lambda>b. act_object (acts ?st b) = Some o') (evtq st) = chain_of st o'" for o'
    unfolding chain_of_def by (rule filter_cong) (simp_all only: same)
  have "suffixes_ok ?st (evtq st)"
    using suffixes_ok_cong[of "evtq st" st ?st] same assms(1) by (simp add: evt_inv_def)
  moreover have "acts_head st obj = chain_of st obj" using assms by (simp add: evt_inv_def)
  ultimately have suf: "suffixes_ok ?st (?a # evtq st)"
    unfolding suffixes_ok.simps filt by simp
  have chain: "chain_of ?st o' = (if o' = obj then ?a # chain_of st o' else chain_of st o')" for o'
  proof -
    have "chain_of ?st o' = (if o' = obj then [?a] else []) @ filter (\<lambda>b. act_object (acts ?st b) = Some o') (evtq st)"
      by (simp add: chain_of_def)
    then show ?thesis unfolding filt by simp
  qed
  have old: "distinct (evtq st)" "\<forall>b \<in> set (evtq st). act_live st b \<and> b < next_act st"
    "\<forall>b \<in> set (evtq st). \<forall>o'. act_object (acts st b) = Some o' \<longrightarrow> obj_live st o'"
    "\<forall>o'. obj_live st o' \<longrightarrow> acts_head st o' = chain_of st o'"
    using assms(1) by (simp_all add: evt_inv_def)
  have "evt_inv ?st"
    unfolding evt_inv_def
  proof (intro conjI)
    show "\<forall>o'. obj_live ?st o' \<longrightarrow> acts_head ?st o' = chain_of ?st o'"
      unfolding chain using old(4) by simp
    show "suffixes_ok ?st (evtq ?st)" using suf by simp
  qed (use old fresh assms(2) in auto)
  moreover have "pending_acts ?st = (obj, f) # pending_acts st"
  proof -
    have "concat (map (\<lambda>b. pend (acts ?st b)) (evtq st)) = concat (map (\<lambda>b. pend (acts st b)) (evtq st))"
      by (intro arg_cong[where f = concat] map_cong) (simp_all only: same)
    then show ?thesis by (simp add: pending_acts_def pend_def[of "\<lparr>act_object = _, act_obj_next = _, act_action = _\<rparr>"])
  qed
  ultimately show ?thesis
    using assms(2) by (simp add: wdf_evtqueue_enqueue_def Let_def)
qed

lemma dispatch_ok:
  assumes "evt_inv st"
  shows "\<exists>st'. dispatch_action st = Inr st' \<and> evt_inv st' \<and> obj_live st' = obj_live st \<and>
    evt_dropped st' = evt_dropped st \<and>
    mset (evt_ran st') + mset (pending_acts st') = mset (evt_ran st) + mset (pending_acts st)"
proof (cases "evtq st")
  case Nil
  then show ?thesis using assms by (simp add: dispatch_action_def)
next
  case (Cons a as)
  let ?st1 = "st\<lparr>evtq := as, act_live := (act_live st)(a := False)\<rparr>"
  have old: "distinct (a # as)" "\<forall>b \<in> set (a # as). act_live st b \<and> b < next_act st"
    "\<forall>b \<in> set (a # as). \<forall>o'. act_object (acts st b) = Some o' \<longrightarrow> obj_live st o'"
    "\<forall>o'. obj_live st o' \<longrightarrow> acts_head st o' = chain_of st o'" "suffixes_ok st (a # as)"
    using assms Cons by (simp_all add: evt_inv_def)
  have suf: "suffixes_ok st' as" if "acts st' = acts st" for st' :: "'a evtqueue"
    using suffixes_ok_cong[of as st st'] old(5) that by simp
  show ?thesis
  proof (cases "act_object (acts st a)")
    case None
    then have "evt_inv ?st1"
      using old suf Cons by (auto simp: evt_inv_def chain_of_def)
    then show ?thesis
      using old(2) None Cons by (simp add: dispatch_action_def Let_def pending_acts_def pend_def[of "acts st a"])
  next
    case (Some obj)
    let ?st = "?st1\<lparr>acts_head := (acts_head st)(obj := act_obj_next (acts st a)),
        evt_ran := evt_ran st @ [(obj, act_action (acts st a))]\<rparr>"
    have "act_obj_next (acts st a) = chain_of ?st obj" using old(5) Some by (simp add: chain_of_def)
    then have "evt_inv ?st"
      using old suf Some Cons by (auto simp: evt_inv_def chain_of_def)
    then show ?thesis
      using old(2,3) Some Cons by (simp add: dispatch_action_def Let_def pending_acts_def pend_def[of "acts st a"])
  qed
qed

lemma orphan_acts_ok:
  "\<forall>a \<in> set as. act_live st a \<Longrightarrow> orphan_acts as st =
    Inr (st\<lparr>acts := (\<lambda>a. if a \<in> set as then (acts st a)\<lparr>act_object := None\<rparr> else acts st a)\<rparr>)"
proof (induction as arbitrary: st)
  case Nil
  show ?case by simp
next
  case (Cons a as)
  let ?st = "st\<lparr>acts := (acts st)(a := (acts st a)\<lparr>act_object := None\<rparr>)\<rparr>"
  have "(\<lambda>b. if b \<in> set as then (acts ?st b)\<lparr>act_object := None\<rparr> else acts ?st b) =
      (\<lambda>b. if b \<in> set (a # as) then (acts st b)\<lparr>act_object := None\<rparr> else acts st b)"
    by auto
  then show ?case using Cons.IH[of ?st] Cons.prems by simp
qed

lemma pending_split:
  "mset (concat (map (\<lambda>a. case ob a of None \<Rightarrow> [] | Some o' \<Rightarrow> [(o', f a)]) as)) =
   mset (map (\<lambda>a. (obj, f a)) (filter (\<lambda>a. ob a = Some obj) as)) +
   mset (concat (map (\<lambda>a. case (if ob a = Some obj then None else ob a) of None \<Rightarrow> [] | Some o' \<Rightarrow> [(o', f a)]) as))"
  by (induction as) (auto split: option.splits)

lemma destroy_ok:
  assumes "evt_inv st" and "obj_live st obj"
  shows "\<exists>st'. wdf_evtqueue_clear_obj obj st = Inr st' \<and> evt_inv (st'\<lparr>obj_live := (obj_live st')(obj := False)\<rparr>) \<and>
    evt_ran st' = evt_ran st \<and>
    mset (evt_dropped st') + mset (pending_acts st') = mset (evt_dropped st) + mset (pending_acts st)"
proof -
  let ?acts = "\<lambda>a. if a \<in> set (chain_of st obj) then (acts st a)\<lparr>act_object := None\<rparr> else acts st a"
  have old: "distinct (evtq st)" "\<forall>b \<in> set (evtq st). act_live st b \<and> b < next_act st"
    "\<forall>b \<in> set (evtq st). \<forall>o'. act_object (acts st b) = Some o' \<longrightarrow> obj_live st o'"
    "\<forall>o'. obj_live st o' \<longrightarrow> acts_head st o' = chain_of st o'" "suffixes_ok st (evtq st)"
    using assms(1) by (simp_all add: evt_inv_def)
  have head: "acts_head st obj = chain_of st obj" using old(4) assms(2) by simp
  have sub: "set (chain_of st obj) \<subseteq> set (evtq st)" by (auto simp: chain_of_def)
  let ?st = "st\<lparr>acts := ?acts, acts_head := (acts_head st)(obj := []),
      evt_dropped := evt_dropped st @ map (\<lambda>a. (obj, act_action (acts st a))) (chain_of st obj)\<rparr>"
  have run: "wdf_evtqueue_clear_obj obj st = Inr ?st"
  proof -
    have "\<forall>a \<in> set (chain_of st obj). act_live st a" using sub old(2) by blast
    from orphan_acts_ok[OF this] head show ?thesis by (simp add: wdf_evtqueue_clear_obj_def)
  qed
  have ob: "act_object (?acts a) = (if act_object (acts st a) = Some obj then None else act_object (acts st a))"
    if "a \<in> set (evtq st)" for a using that by (auto simp: chain_of_def)
  have filt: "filter (\<lambda>b. act_object (?acts b) = Some o') as = (if o' = obj then [] else filter (\<lambda>b. act_object (acts st b) = Some o') as)"
    if "set as \<subseteq> set (evtq st)" for as o'
  proof -
    have "filter (\<lambda>b. act_object (?acts b) = Some o') as =
        filter (\<lambda>b. o' \<noteq> obj \<and> act_object (acts st b) = Some o') as"
    proof (rule filter_cong[OF refl])
      show "act_object (?acts b) = Some o' \<longleftrightarrow> o' \<noteq> obj \<and> act_object (acts st b) = Some o'" if "b \<in> set as" for b
        using ob[of b] that \<open>set as \<subseteq> set (evtq st)\<close> by auto
    qed
    then show ?thesis by simp
  qed
  have suf: "suffixes_ok ?st as" if "suffixes_ok st as" and "set as \<subseteq> set (evtq st)" for as
    using that
  proof (induction as)
    case (Cons a as)
    have "filter (\<lambda>b. act_object (acts ?st b) = Some o') as = (if o' = obj then [] else filter (\<lambda>b. act_object (acts st b) = Some o') as)" for o'
      using filt[of as o'] Cons.prems(2) by simp
    then show ?case using Cons ob[of a] by (auto split: if_splits)
  qed simp
  have chain: "chain_of ?st o' = (if o' = obj then [] else chain_of st o')" for o'
    using filt[of "evtq st" o'] by (simp add: chain_of_def)
  let ?last1 = "?st\<lparr>obj_live := (obj_live ?st)(obj := False)\<rparr>"
  have chain1: "chain_of ?last1 o' = chain_of ?st o'" for o' by (simp add: chain_of_def)
  have "suffixes_ok ?last1 (evtq st)"
    using suffixes_ok_cong[of "evtq st" ?last1 ?st] suf[OF old(5)] by simp
  moreover have "\<forall>b \<in> set (evtq st). \<forall>o'. act_object (?acts b) = Some o' \<longrightarrow> obj_live st o' \<and> o' \<noteq> obj"
    using ob old(3) by (auto split: if_splits)
  ultimately have "evt_inv ?last1"
    unfolding evt_inv_def chain1 chain using old by simp
  moreover have "mset (evt_dropped ?st) + mset (pending_acts ?st) = mset (evt_dropped st) + mset (pending_acts st)"
  proof -
    have "pending_acts ?st = concat (map (\<lambda>a. case (if act_object (acts st a) = Some obj then None else act_object (acts st a)) of
        None \<Rightarrow> [] | Some o' \<Rightarrow> [(o', act_action (acts st a))]) (evtq st))"
    proof -
      have ac: "act_action (?acts a) = act_action (acts st a)" for a by simp
      have e: "pend (?acts a) = (case (if act_object (acts st a) = Some obj then None else act_object (acts st a)) of
          None \<Rightarrow> [] | Some o' \<Rightarrow> [(o', act_action (acts st a))])" if "a \<in> set (evtq st)" for a
        unfolding pend_def ob[OF that] ac ..
      have p: "pending_acts ?st = concat (map (\<lambda>a. pend (?acts a)) (evtq st))"
        by (simp add: pending_acts_def)
      show ?thesis unfolding p by (intro arg_cong[where f = concat] map_cong refl e)
    qed
    then show ?thesis
      using pending_split[where ob = "\<lambda>a. act_object (acts st a)" and f = "\<lambda>a. act_action (acts st a)" and as = "evtq st" and obj = obj]
      by (simp add: pending_acts_def pend_def chain_of_def)
  qed
  ultimately show ?thesis using run by simp
qed

lemma evt_do_ok:
  assumes "evt_inv st"
  shows "\<exists>st'. evt_do x st = Inr st' \<and> evt_inv st' \<and>
    mset (evt_ran st') + mset (evt_dropped st') + mset (pending_acts st') =
    mset (evt_ran st) + mset (evt_dropped st) + mset (pending_acts st) +
      mset (case x of Evt_enqueue obj f \<Rightarrow> if obj_live st obj then [(obj, f)] else [] | _ \<Rightarrow> [])"
proof (cases x)
  case (Evt_create obj)
  have "evt_inv (st\<lparr>obj_live := (obj_live st)(obj := True), acts_head := (acts_head st)(obj := [])\<rparr>)"
    if "\<not> obj_live st obj"
  proof -
    have "chain_of st obj = []"
      using assms that by (auto simp: evt_inv_def chain_of_def filter_empty_conv)
    then show ?thesis
      using assms suffixes_ok_cong[of "evtq st" st "st\<lparr>obj_live := (obj_live st)(obj := True), acts_head := (acts_head st)(obj := [])\<rparr>"]
      by (auto simp: evt_inv_def chain_of_def)
  qed
  then show ?thesis using Evt_create assms by (simp add: pending_acts_def)
next
  case (Evt_enqueue obj f)
  show ?thesis
  proof (cases "obj_live st obj")
    case True
    from enqueue_ok[OF assms True, of f] obtain st' where "wdf_evtqueue_enqueue obj f st = Inr st'" "evt_inv st'"
      "evt_ran st' = evt_ran st" "evt_dropped st' = evt_dropped st" "pending_acts st' = (obj, f) # pending_acts st" by blast
    then show ?thesis using Evt_enqueue True by simp
  qed (use Evt_enqueue assms in simp)
next
  case Evt_dispatch
  obtain st' where "dispatch_action st = Inr st'" "evt_inv st'" "evt_dropped st' = evt_dropped st"
    "mset (evt_ran st') + mset (pending_acts st') = mset (evt_ran st) + mset (pending_acts st)"
    using dispatch_ok[OF assms] by blast
  then have "mset (evt_ran st') + mset (evt_dropped st') + mset (pending_acts st') =
      mset (evt_ran st) + mset (evt_dropped st) + mset (pending_acts st)"
    by (metis union_assoc union_commute)
  then show ?thesis using Evt_dispatch \<open>dispatch_action st = Inr st'\<close> \<open>evt_inv st'\<close> by simp
next
  case (Evt_destroy obj)
  show ?thesis
  proof (cases "obj_live st obj")
    case True
    from destroy_ok[OF assms True] obtain st' where st': "wdf_evtqueue_clear_obj obj st = Inr st'"
      "evt_inv (st'\<lparr>obj_live := (obj_live st')(obj := False)\<rparr>)" "evt_ran st' = evt_ran st"
      "mset (evt_dropped st') + mset (pending_acts st') = mset (evt_dropped st) + mset (pending_acts st)" by blast
    have "mset (evt_ran st') + mset (evt_dropped st') + mset (pending_acts st') =
        mset (evt_ran st) + mset (evt_dropped st) + mset (pending_acts st)"
      using st'(3,4) by (metis union_assoc)
    then show ?thesis using Evt_destroy True st'(1,2) by (simp add: pending_acts_def)
  qed (use Evt_destroy assms in simp)
qed

lemma evt_run_ok:
  assumes "evt_inv st"
  shows "\<exists>st'. evt_run ops st = Inr st' \<and> evt_inv st' \<and>
    mset (evt_ran st') + mset (evt_dropped st') + mset (pending_acts st') =
    mset (evt_ran st) + mset (evt_dropped st) + mset (pending_acts st) + mset (enqueued ops st)"
  using assms
proof (induction ops arbitrary: st)
  case Nil
  then show ?case by simp
next
  case (Cons x xs)
  obtain st1 where 1: "evt_do x st = Inr st1" "evt_inv st1"
    "mset (evt_ran st1) + mset (evt_dropped st1) + mset (pending_acts st1) =
      mset (evt_ran st) + mset (evt_dropped st) + mset (pending_acts st) +
      mset (case x of Evt_enqueue obj f \<Rightarrow> if obj_live st obj then [(obj, f)] else [] | _ \<Rightarrow> [])"
    using evt_do_ok[OF Cons.prems] by blast
  from Cons.IH[OF 1(2)] obtain st' where 2: "evt_run xs st1 = Inr st'" "evt_inv st'"
    "mset (evt_ran st') + mset (evt_dropped st') + mset (pending_acts st') =
      mset (evt_ran st1) + mset (evt_dropped st1) + mset (pending_acts st1) + mset (enqueued xs st1)" by blast
  from 1(1) 2(1,2) 2(3)[unfolded 1(3)] show ?case by (simp add: add.assoc)
qed

lemma empty_evt_inv: "evt_inv (empty_evtqueue f)"
  by (simp add: evt_inv_def empty_evtqueue_def chain_of_def)

section \<open>Contexts\<close>

text \<open>
  A type of contexts, resolved to its unique type, is its number; \<open>type_size\<close> gives its
  \<open>ContextSize\<close>.  A context without memory has \<open>None\<close>; a type that is NULL is \<open>None\<close>.
\<close>

record wdf_object_context =
  ContextSizeOverride :: nat
  ctx_type :: "nat option"
  ctx_data :: "byte list option"

text \<open>The context an object is created with.\<close>

definition first_context :: "nat \<Rightarrow> nat option \<Rightarrow> wdf_object_context list" where
  "first_context override ty = [\<lparr>ContextSizeOverride = override, ctx_type = ty, ctx_data = None\<rparr>]"

definition WdfObjectAllocateContext ::
    "(nat \<Rightarrow> nat) \<Rightarrow> nat \<Rightarrow> nat option \<Rightarrow> wdf_object_context list \<Rightarrow> (byte list \<times> wdf_object_context list) result" where
  "WdfObjectAllocateContext type_size override ty ctxs =
     (case (if override \<noteq> 0 then Some override else map_option type_size ty) of
        None \<Rightarrow> Inl Fault
      | Some n \<Rightarrow>
          let data = replicate n 0 in
          Inr (data, \<lparr>ContextSizeOverride = override, ctx_type = ty, ctx_data = Some data\<rparr> # ctxs))"

text \<open>
  \<open>WdfObjectGetTypedContextWorker\<close> goes on after a match: every context of the type gets its memory, and
  the last one in the chain, the oldest, is returned.
\<close>

fun typed_context_loop ::
    "(nat \<Rightarrow> nat) \<Rightarrow> nat \<Rightarrow> wdf_object_context list \<Rightarrow> byte list option \<Rightarrow>
      byte list option \<times> wdf_object_context list" where
  "typed_context_loop type_size ty [] found = (found, [])"
| "typed_context_loop type_size ty (c # cs) found =
     (if ctx_type c \<noteq> Some ty then
        (case typed_context_loop type_size ty cs found of (f, cs') \<Rightarrow> (f, c # cs'))
      else
        let c' = (case ctx_data c of
              Some _ \<Rightarrow> c
            | None \<Rightarrow> c\<lparr>ctx_data := Some (replicate (if ContextSizeOverride c \<noteq> 0 then ContextSizeOverride c else type_size ty) 0)\<rparr>) in
        (case typed_context_loop type_size ty cs (ctx_data c') of (f, cs') \<Rightarrow> (f, c' # cs')))"

definition WdfObjectGetTypedContextWorker ::
    "(nat \<Rightarrow> nat) \<Rightarrow> nat \<Rightarrow> wdf_object_context list \<Rightarrow> byte list option \<times> wdf_object_context list" where
  "WdfObjectGetTypedContextWorker type_size ty ctxs = typed_context_loop type_size ty ctxs None"

text \<open>Memory is given to a context once.\<close>

lemma typed_context_again:
  "typed_context_loop ts ty (snd (typed_context_loop ts ty cs f)) f = typed_context_loop ts ty cs f"
proof (induction cs arbitrary: f)
  case Nil
  show ?case by simp
next
  case (Cons c cs)
  show ?case
  proof (cases "ctx_type c = Some ty")
    case False
    then show ?thesis using Cons.IH[of f] by (simp add: case_prod_unfold)
  next
    case True
    then show ?thesis
      using Cons.IH by (cases "ctx_data c") (simp_all add: Let_def case_prod_unfold)
  qed
qed

section \<open>Memory objects\<close>

text \<open>
  \<open>struct wdf_memory\<close>: the bytes behind \<open>data\<close>, the size it claims, and whether it owns the bytes.  A
  buffer of the caller is the whole allocation from its start on.
\<close>

record wdf_memory =
  mem_bytes :: "byte list"
  data_size :: u64
  owns_data :: bool

definition WdfMemoryCreate :: "u64 \<Rightarrow> wdf_memory" where
  "WdfMemoryCreate n = \<lparr>mem_bytes = replicate (unat n) 0, data_size = n, owns_data = True\<rparr>"

definition WdfMemoryCreatePreallocated :: "byte list \<Rightarrow> u64 \<Rightarrow> wdf_memory" where
  "WdfMemoryCreatePreallocated buf n = \<lparr>mem_bytes = buf, data_size = n, owns_data = False\<rparr>"

definition WdfMemoryAssignBuffer :: "byte list \<Rightarrow> u64 \<Rightarrow> wdf_memory \<Rightarrow> u32 \<times> wdf_memory" where
  "WdfMemoryAssignBuffer buf n mem =
     (STATUS_SUCCESS, mem\<lparr>mem_bytes := buf, data_size := n, owns_data := False\<rparr>)"

definition WdfMemoryGetBuffer :: "wdf_memory \<Rightarrow> byte list \<times> u64" where
  "WdfMemoryGetBuffer mem = (mem_bytes mem, data_size mem)"

text \<open>The range check adds two words of 64 bits.\<close>

definition WdfMemoryCopyToBuffer ::
    "wdf_memory \<Rightarrow> u64 \<Rightarrow> byte list \<Rightarrow> u64 \<Rightarrow> (u32 \<times> byte list) result" where
  "WdfMemoryCopyToBuffer src off dst n =
     (if data_size src < off + n then Inr (STATUS_BUFFER_TOO_SMALL, dst)
      else res_bind (struct_at (mem_bytes src) (unat off) (unat n)) (\<lambda>bs.
        if length bs \<le> length dst then Inr (STATUS_SUCCESS, splice dst 0 bs) else Inl Fault))"

definition WdfMemoryCopyFromBuffer ::
    "wdf_memory \<Rightarrow> u64 \<Rightarrow> byte list \<Rightarrow> u64 \<Rightarrow> (u32 \<times> wdf_memory) result" where
  "WdfMemoryCopyFromBuffer dst off src n =
     (if data_size dst < off + n then Inr (STATUS_BUFFER_TOO_SMALL, dst)
      else res_bind (struct_at src 0 (unat n)) (\<lambda>bs.
        if unat off + length bs \<le> length (mem_bytes dst)
        then Inr (STATUS_SUCCESS, dst\<lparr>mem_bytes := splice (mem_bytes dst) (unat off) bs\<rparr>)
        else Inl Fault))"

definition mem_ok :: "wdf_memory \<Rightarrow> bool" where
  "mem_ok mem \<longleftrightarrow> unat (data_size mem) \<le> length (mem_bytes mem)"

lemma splice_read_back:
  assumes "off + length bs \<le> length buf"
  shows "take (length bs) (drop off (splice buf off bs)) = bs"
  using assms by (simp add: splice_def)

section \<open>Properties\<close>

text \<open>
  The event queue is safe under any sequence of operations: no action or object is used after it was
  freed, and every action put in for an object that exists either ran once, or still waits, or was
  dropped with its object.
\<close>

theorem event_queue_safe:
  "\<exists>st. evt_run ops (empty_evtqueue f) = Inr st \<and>
    mset (enqueued ops (empty_evtqueue f)) = mset (evt_ran st) + mset (evt_dropped st) + mset (pending_acts st)"
proof -
  obtain st where "evt_run ops (empty_evtqueue f) = Inr st"
    "mset (evt_ran st) + mset (evt_dropped st) + mset (pending_acts st) =
     mset (evt_ran (empty_evtqueue f)) + mset (evt_dropped (empty_evtqueue f)) +
     mset (pending_acts (empty_evtqueue f)) + mset (enqueued ops (empty_evtqueue f))"
    using evt_run_ok[OF empty_evt_inv, of ops f] by blast
  then show ?thesis by (auto simp: empty_evtqueue_def pending_acts_def)
qed

text \<open>
  What is copied into a memory object is copied out of it again; a range that does not fit is refused
  and changes nothing.
\<close>

theorem memory_copy_roundtrip:
  assumes "mem_ok mem" and "unat off + unat n < 2 ^ 64" and "unat n \<le> length src" and "unat n \<le> length dst"
  shows "if unat off + unat n \<le> unat (data_size mem)
    then \<exists>mem'. WdfMemoryCopyFromBuffer mem off src n = Inr (STATUS_SUCCESS, mem') \<and> mem_ok mem' \<and>
      WdfMemoryCopyToBuffer mem' off dst n = Inr (STATUS_SUCCESS, splice dst 0 (take (unat n) src))
    else WdfMemoryCopyFromBuffer mem off src n = Inr (STATUS_BUFFER_TOO_SMALL, mem)"
proof -
  have sum: "unat (off + n) = unat off + unat n"
    using assms(2) unfolding unat_word_ariths by simp
  have lt: "data_size mem < off + n \<longleftrightarrow> unat (data_size mem) < unat off + unat n"
    by (simp add: word_less_nat_alt sum)
  show ?thesis
  proof (cases "unat off + unat n \<le> unat (data_size mem)")
    case False
    then show ?thesis by (simp add: WdfMemoryCopyFromBuffer_def lt)
  next
    case True
    let ?bs = "take (unat n) src"
    let ?mem = "mem\<lparr>mem_bytes := splice (mem_bytes mem) (unat off) ?bs\<rparr>"
    have len: "length ?bs = unat n" "unat off + unat n \<le> length (mem_bytes mem)"
      using assms(1,3) True by (simp_all add: mem_ok_def)
    have from_buf: "WdfMemoryCopyFromBuffer mem off src n = Inr (STATUS_SUCCESS, ?mem)"
      using True assms(3) len by (simp add: WdfMemoryCopyFromBuffer_def lt struct_at_in_range)
    have lens: "length (mem_bytes ?mem) = length (mem_bytes mem)" using len by simp
    have "struct_at (mem_bytes ?mem) (unat off) (unat n) = Inr ?bs"
      using splice_read_back[of "unat off" ?bs "mem_bytes mem"] len by (simp add: struct_at_in_range)
    then have "WdfMemoryCopyToBuffer ?mem off dst n = Inr (STATUS_SUCCESS, splice dst 0 ?bs)"
      using True assms(4) len by (simp add: WdfMemoryCopyToBuffer_def lt)
    moreover have "mem_ok ?mem" using assms(1) lens by (simp add: mem_ok_def)
    ultimately show ?thesis using True from_buf by simp
  qed
qed

theorem memory_copy_roundtrip_witness:
  "\<exists>mem'. WdfMemoryCopyFromBuffer (WdfMemoryCreate 8) 2 [1, 2, 3] 3 = Inr (STATUS_SUCCESS, mem') \<and> mem_ok mem' \<and>
     WdfMemoryCopyToBuffer mem' 2 [0, 0, 0] 3 = Inr (STATUS_SUCCESS, [1, 2, 3])"
  using memory_copy_roundtrip[of "WdfMemoryCreate 8" 2 3 "[1, 2, 3]" "[0, 0, 0]"]
  by (simp add: WdfMemoryCreate_def mem_ok_def splice_def)

text \<open>
  The range check can be passed by a sum that wraps: then memory outside of the object is accessed.
\<close>

theorem memory_copy_wraps:
  assumes "unat (data_size mem) \<le> length (mem_bytes mem)" and "length (mem_bytes mem) < unat off" and "n = - off"
    and "unat n \<le> length src"
  shows "WdfMemoryCopyFromBuffer mem off src n = Inl Fault"
proof -
  have "off + n = 0" using assms(3) by simp
  then show ?thesis
    using assms(2,4) by (simp add: WdfMemoryCopyFromBuffer_def struct_at_in_range)
qed

theorem memory_copy_wraps_witness:
  "WdfMemoryCopyFromBuffer (WdfMemoryCreate 8) 0xFFFFFFFFFFFFFFFF [7] 1 = Inl Fault"
  by (rule memory_copy_wraps) (simp_all add: WdfMemoryCreate_def)

text \<open>
  Asking an object for its context of a type gives the same memory every time; the first time it is
  made and zeroed.
\<close>

theorem typed_context_stable:
  "WdfObjectGetTypedContextWorker ts ty (snd (WdfObjectGetTypedContextWorker ts ty cs)) =
     WdfObjectGetTypedContextWorker ts ty cs"
  by (simp add: WdfObjectGetTypedContextWorker_def typed_context_again)

end
