(* ===== verification/Win_Sync.thy ===== *)
theory Win_Sync
  imports Device_State
begin

text \<open>
  The emulated synchronisation objects (\<open>libtudor/src/winapi/sync.c\<close>): critical sections and mutexes over
  recursive pthread mutexes, events with waiting threads, and fiber-local storage.  Threads are
  numbers.
\<close>

section \<open>Locks\<close>

text \<open>
  A recursive pthread mutex.  Locking one another thread owns blocks, and unlocking one the thread does
  not own fails, which \<open>cant_fail_ret\<close> turns into an abort.
\<close>

record pmutex =
  m_owner :: "nat option"
  m_count :: nat

definition free_mutex :: pmutex where
  "free_mutex = \<lparr>m_owner = None, m_count = 0\<rparr>"

definition pm_lock :: "nat \<Rightarrow> pmutex \<Rightarrow> pmutex result" where
  "pm_lock t m =
     (case m_owner m of
        None \<Rightarrow> Inr \<lparr>m_owner = Some t, m_count = 1\<rparr>
      | Some u \<Rightarrow> if u = t then Inr (m\<lparr>m_count := Suc (m_count m)\<rparr>) else Inl Hang)"

definition pm_unlock :: "nat \<Rightarrow> pmutex \<Rightarrow> pmutex result" where
  "pm_unlock t m =
     (if m_owner m = Some t
      then Inr (if m_count m = 1 then free_mutex else m\<lparr>m_count := m_count m - 1\<rparr>)
      else Inl Abort)"

definition pm_ok :: "pmutex \<Rightarrow> bool" where
  "pm_ok m \<longleftrightarrow> (m_owner m = None \<longleftrightarrow> m_count m = 0)"

text \<open>\<open>CRITICAL_SECTION\<close>; \<open>LockSemaphore\<close> points to the mutex.\<close>

record critical_section =
  LockCount :: int
  RecursionCount :: int
  OwningThread :: "nat option"
  LockSemaphore :: pmutex
  SpinCount :: u32

definition InitializeCriticalSectionEx :: "u32 \<Rightarrow> critical_section" where
  "InitializeCriticalSectionEx spin =
     \<lparr>LockCount = 0, RecursionCount = 0, OwningThread = None, LockSemaphore = free_mutex, SpinCount = spin\<rparr>"

definition EnterCriticalSection :: "nat \<Rightarrow> critical_section \<Rightarrow> critical_section result" where
  "EnterCriticalSection t cs =
     res_bind (pm_lock t (LockSemaphore cs)) (\<lambda>m.
     let cs1 = cs\<lparr>LockSemaphore := m\<rparr>; cs2 = cs1\<lparr>RecursionCount := RecursionCount cs1 + 1\<rparr> in
     Inr (if RecursionCount cs1 = 0 then cs2\<lparr>LockCount := 1, OwningThread := Some t\<rparr> else cs2))"

definition LeaveCriticalSection :: "nat \<Rightarrow> critical_section \<Rightarrow> critical_section result" where
  "LeaveCriticalSection t cs =
     (let cs1 = cs\<lparr>RecursionCount := RecursionCount cs - 1\<rparr>;
          cs2 = (if RecursionCount cs1 = 0 then cs1\<lparr>LockCount := 0, OwningThread := None\<rparr> else cs1) in
      res_bind (pm_unlock t (LockSemaphore cs2)) (\<lambda>m. Inr (cs2\<lparr>LockSemaphore := m\<rparr>)))"

definition cs_ok :: "critical_section \<Rightarrow> bool" where
  "cs_ok cs \<longleftrightarrow> pm_ok (LockSemaphore cs) \<and> RecursionCount cs = int (m_count (LockSemaphore cs)) \<and>
     OwningThread cs = m_owner (LockSemaphore cs) \<and>
     LockCount cs = (if m_count (LockSemaphore cs) = 0 then 0 else 1)"

text \<open>A mutex object; its name is not used to find it again.  \<open>mutex_wait\<close> is given here without timeout.\<close>

record win_mutex =
  mtx_lock :: pmutex
  mtx_name :: "string option"

definition CreateMutexA :: "nat \<Rightarrow> bool \<Rightarrow> string option \<Rightarrow> win_mutex result" where
  "CreateMutexA t initial_owner name =
     (if initial_owner
      then res_bind (pm_lock t free_mutex) (\<lambda>m. Inr \<lparr>mtx_lock = m, mtx_name = name\<rparr>)
      else Inr \<lparr>mtx_lock = free_mutex, mtx_name = name\<rparr>)"

definition mutex_wait :: "nat \<Rightarrow> win_mutex \<Rightarrow> win_mutex result" where
  "mutex_wait t mtx = res_bind (pm_lock t (mtx_lock mtx)) (\<lambda>m. Inr (mtx\<lparr>mtx_lock := m\<rparr>))"

definition ReleaseMutex :: "nat \<Rightarrow> win_mutex \<Rightarrow> win_mutex result" where
  "ReleaseMutex t mtx = res_bind (pm_unlock t (mtx_lock mtx)) (\<lambda>m. Inr (mtx\<lparr>mtx_lock := m\<rparr>))"

text \<open>What both promise: at most one thread holds the lock, as often as it took it.\<close>

locale recursive_lock =
  fixes acquire :: "nat \<Rightarrow> 's \<Rightarrow> 's result"
    and release :: "nat \<Rightarrow> 's \<Rightarrow> 's result"
    and owner :: "'s \<Rightarrow> nat option"
    and depth :: "'s \<Rightarrow> nat"
    and ok :: "'s \<Rightarrow> bool"
  assumes owner_depth: "ok s \<Longrightarrow> owner s = None \<longleftrightarrow> depth s = 0"
    and acquire_free: "ok s \<Longrightarrow> owner s \<in> {None, Some t} \<Longrightarrow>
      \<exists>s'. acquire t s = Inr s' \<and> ok s' \<and> owner s' = Some t \<and> depth s' = depth s + 1"
    and acquire_busy: "ok s \<Longrightarrow> owner s = Some u \<Longrightarrow> u \<noteq> t \<Longrightarrow> acquire t s = Inl Hang"
    and release_owner: "ok s \<Longrightarrow> owner s = Some t \<Longrightarrow>
      \<exists>s'. release t s = Inr s' \<and> ok s' \<and> depth s' = depth s - 1 \<and>
        owner s' = (if depth s = 1 then None else Some t)"
    and release_other: "ok s \<Longrightarrow> owner s \<noteq> Some t \<Longrightarrow> release t s = Inl Abort"
begin

text \<open>A run of operations, each with its thread and whether it takes the lock.\<close>

fun run :: "(nat \<times> bool) list \<Rightarrow> 's \<Rightarrow> 's result" where
  "run [] s = Inr s"
| "run ((t, True) # xs) s = res_bind (acquire t s) (run xs)"
| "run ((t, False) # xs) s = res_bind (release t s) (run xs)"

definition held :: "(nat \<times> bool) list \<Rightarrow> nat \<Rightarrow> int" where
  "held xs t = int (length (filter ((=) (t, True)) xs)) - int (length (filter ((=) (t, False)) xs))"

definition holds :: "'s \<Rightarrow> nat \<Rightarrow> nat" where
  "holds s t = (if owner s = Some t then depth s else 0)"

lemma acquired: "ok s \<Longrightarrow> acquire t s = Inr s' \<Longrightarrow>
    ok s' \<and> (\<forall>u. int (holds s' u) = int (holds s u) + (if u = t then 1 else 0))"
proof -
  assume s: "ok s" and r: "acquire t s = Inr s'"
  have o: "owner s \<in> {None, Some t}"
  proof (cases "owner s")
    case (Some u)
    then show ?thesis using acquire_busy[OF s Some, of t] r by (cases "u = t") auto
  qed simp
  from acquire_free[OF s this] r have "ok s'" "owner s' = Some t" "depth s' = depth s + 1" by auto
  then show ?thesis using o owner_depth[OF s] by (auto simp: holds_def)
qed

lemma released: "ok s \<Longrightarrow> release t s = Inr s' \<Longrightarrow>
    ok s' \<and> (\<forall>u. int (holds s' u) = int (holds s u) - (if u = t then 1 else 0))"
proof -
  assume s: "ok s" and r: "release t s = Inr s'"
  then have o: "owner s = Some t" using release_other[of s t] by auto
  then have "depth s \<noteq> 0" using owner_depth[OF s] by simp
  then show ?thesis using release_owner[OF s o] r o by (auto simp: holds_def)
qed

lemma run_holds:
  "ok s \<Longrightarrow> run xs s = Inr s' \<Longrightarrow> ok s' \<and> (\<forall>t. int (holds s' t) = int (holds s t) + held xs t)"
proof (induction xs s rule: run.induct)
  case (1 s)
  then show ?case by (simp add: held_def)
next
  case (2 t xs s)
  then obtain s1 where "acquire t s = Inr s1" "run xs s1 = Inr s'" by (auto simp: res_bind_eq_Inr)
  with 2 acquired[of s t s1] show ?case by (auto simp: held_def)
next
  case (3 t xs s)
  then obtain s1 where "release t s = Inr s1" "run xs s1 = Inr s'" by (auto simp: res_bind_eq_Inr)
  with 3 released[of s t s1] show ?case by (auto simp: held_def)
qed

lemma exclusive:
  assumes "ok s" and "depth s = 0" and "run xs s = Inr s'" and "held xs t > 0" and "held xs u > 0"
  shows "t = u"
proof -
  have "holds s v = 0" for v using assms(2) by (simp add: holds_def)
  then have "int (holds s' t) = held xs t" "int (holds s' u) = held xs u"
    using run_holds[OF assms(1,3)] by simp_all
  then have "holds s' t > 0" "holds s' u > 0" using assms(4,5) by simp_all
  then show ?thesis by (auto simp: holds_def split: if_splits)
qed

end

interpretation cs: recursive_lock EnterCriticalSection LeaveCriticalSection OwningThread
    "\<lambda>cs. nat (RecursionCount cs)" cs_ok
  by unfold_locales
    (auto simp: cs_ok_def pm_ok_def EnterCriticalSection_def LeaveCriticalSection_def pm_lock_def pm_unlock_def
      free_mutex_def Let_def split: option.splits)

interpretation mtx: recursive_lock mutex_wait ReleaseMutex "\<lambda>m. m_owner (mtx_lock m)"
    "\<lambda>m. m_count (mtx_lock m)" "\<lambda>m. pm_ok (mtx_lock m)"
  by unfold_locales
    (auto simp: pm_ok_def mutex_wait_def ReleaseMutex_def pm_lock_def pm_unlock_def free_mutex_def
      split: option.splits)

section \<open>Events\<close>

record sync_event =
  manual_reset :: bool
  ev_state :: bool

definition win_create_event :: "bool \<Rightarrow> bool \<Rightarrow> sync_event" where
  "win_create_event initial_state manual = \<lparr>manual_reset = manual, ev_state = initial_state\<rparr>"

definition win_set_event :: "sync_event \<Rightarrow> sync_event" where
  "win_set_event e = e\<lparr>ev_state := True\<rparr>"

definition win_reset_event :: "sync_event \<Rightarrow> sync_event" where
  "win_reset_event e = e\<lparr>ev_state := False\<rparr>"

text \<open>
  The event with the threads that are inside of \<open>evt_wait\<close>.  Ghost: the threads whose wait succeeded, and
  how often the event was set.
\<close>

record event_sys =
  the_event :: sync_event
  waiting :: "nat list"
  released :: "nat list"
  times_set :: nat

text \<open>
  One check of the loop in \<open>evt_wait\<close>, under its lock: at the start of the wait or after a wake-up.  A
  successful wait on an auto-reset event clears it.
\<close>

definition evt_check :: "nat \<Rightarrow> event_sys \<Rightarrow> event_sys" where
  "evt_check t st =
     (if ev_state (the_event st)
      then st\<lparr>the_event := (if manual_reset (the_event st) then the_event st else (the_event st)\<lparr>ev_state := False\<rparr>),
              waiting := remove1 t (waiting st), released := released st @ [t]\<rparr>
      else if t \<in> set (waiting st) then st else st\<lparr>waiting := waiting st @ [t]\<rparr>)"

inductive event_step :: "event_sys \<Rightarrow> event_sys \<Rightarrow> bool" where
  wait: "t \<notin> set (waiting st) \<Longrightarrow> event_step st (evt_check t st)"
| wake: "t \<in> set (waiting st) \<Longrightarrow> event_step st (evt_check t st)"
| timeout: "t \<in> set (waiting st) \<Longrightarrow> event_step st (st\<lparr>waiting := remove1 t (waiting st)\<rparr>)"
| set_event: "event_step st (st\<lparr>the_event := win_set_event (the_event st), times_set := Suc (times_set st)\<rparr>)"
| reset_event: "event_step st (st\<lparr>the_event := win_reset_event (the_event st)\<rparr>)"

inductive_cases event_stepE: "event_step st st'"

definition new_event :: "bool \<Rightarrow> bool \<Rightarrow> event_sys" where
  "new_event initial manual =
     \<lparr>the_event = win_create_event initial manual, waiting = [], released = [], times_set = 0\<rparr>"

definition token :: "bool \<Rightarrow> nat" where
  "token b = (if b then 1 else 0)"

definition event_inv :: "nat \<Rightarrow> event_sys \<Rightarrow> bool" where
  "event_inv n st \<longleftrightarrow> \<not> manual_reset (the_event st) \<and>
     length (released st) + token (ev_state (the_event st)) \<le> times_set st + n"

lemma event_inv_check: "event_inv n st \<Longrightarrow> event_inv n (evt_check t st)"
  by (auto simp: event_inv_def evt_check_def token_def)

lemma event_inv_step: "event_step st st' \<Longrightarrow> event_inv n st \<Longrightarrow> event_inv n st'"
  by (induction rule: event_step.induct)
    (auto simp: event_inv_check, auto simp: event_inv_def win_set_event_def win_reset_event_def token_def)

lemma event_inv_reachable:
  "event_step\<^sup>*\<^sup>* st st' \<Longrightarrow> event_inv n st \<Longrightarrow> event_inv n st'"
  by (induction rule: rtranclp.induct) (auto intro: event_inv_step)

section \<open>Fiber-local storage\<close>

text \<open>
  The indices form a free list over \<open>next_idx\<close>, negative for an index in use.  \<open>fls_vals\<close> are the values
  of the pthread keys by thread; making a key sets them to NULL for every thread.  Data are numbers,
  0 for NULL.
\<close>

definition NUM_FLS_IDXS :: nat where "NUM_FLS_IDXS = 128"
definition FLS_OUT_OF_INDEXES :: nat where "FLS_OUT_OF_INDEXES = 0xffffffff"

record fls_state =
  fls_next_free :: nat
  next_idx :: "nat \<Rightarrow> int"
  fls_callback :: "nat \<Rightarrow> nat option"
  fls_vals :: "nat \<Rightarrow> nat \<Rightarrow> nat option"

text \<open>The loop of \<open>init_fls\<close> links every index to the next one.\<close>

definition init_fls :: fls_state where
  "init_fls = \<lparr>fls_next_free = 0, next_idx = (\<lambda>i. int i + 1), fls_callback = (\<lambda>_. None), fls_vals = (\<lambda>_ _. None)\<rparr>"

definition FlsAlloc :: "nat option \<Rightarrow> fls_state \<Rightarrow> nat \<times> fls_state" where
  "FlsAlloc callback st =
     (if fls_next_free st < NUM_FLS_IDXS then
        let idx = fls_next_free st in
        (idx, st\<lparr>fls_next_free := nat (next_idx st idx), next_idx := (next_idx st)(idx := -1),
                fls_vals := (\<lambda>t. (fls_vals st t)(idx := None)), fls_callback := (fls_callback st)(idx := callback)\<rparr>)
      else (FLS_OUT_OF_INDEXES, st))"

definition fls_used :: "fls_state \<Rightarrow> nat \<Rightarrow> bool" where
  "fls_used st idx \<longleftrightarrow> idx < NUM_FLS_IDXS \<and> next_idx st idx < 0"

definition FlsFree :: "nat \<Rightarrow> fls_state \<Rightarrow> bool \<times> fls_state" where
  "FlsFree idx st =
     (if fls_used st idx
      then (True, st\<lparr>next_idx := (next_idx st)(idx := int (fls_next_free st)), fls_next_free := idx\<rparr>)
      else (False, st))"

definition FlsGetValue :: "nat \<Rightarrow> nat \<Rightarrow> fls_state \<Rightarrow> nat" where
  "FlsGetValue t idx st =
     (if fls_used st idx then (case fls_vals st t idx of None \<Rightarrow> 0 | Some v \<Rightarrow> v) else 0)"

definition FlsSetValue :: "nat \<Rightarrow> nat \<Rightarrow> nat \<Rightarrow> fls_state \<Rightarrow> bool \<times> fls_state" where
  "FlsSetValue t idx data st =
     (if fls_used st idx
      then (True, st\<lparr>fls_vals := (fls_vals st)(t := (fls_vals st t)(idx := Some data))\<rparr>) else (False, st))"

definition TlsAlloc :: "fls_state \<Rightarrow> nat \<times> fls_state" where "TlsAlloc = FlsAlloc None"
definition TlsFree :: "nat \<Rightarrow> fls_state \<Rightarrow> bool \<times> fls_state" where "TlsFree = FlsFree"
definition TlsGetValue :: "nat \<Rightarrow> nat \<Rightarrow> fls_state \<Rightarrow> nat" where "TlsGetValue = FlsGetValue"
definition TlsSetValue :: "nat \<Rightarrow> nat \<Rightarrow> nat \<Rightarrow> fls_state \<Rightarrow> bool \<times> fls_state" where "TlsSetValue = FlsSetValue"

text \<open>The free list from \<open>n\<close> on is \<open>is\<close>.\<close>

fun free_chain :: "fls_state \<Rightarrow> nat \<Rightarrow> nat list \<Rightarrow> bool" where
  "free_chain st n [] \<longleftrightarrow> n = NUM_FLS_IDXS"
| "free_chain st n (i # is) \<longleftrightarrow> n = i \<and> i < NUM_FLS_IDXS \<and> next_idx st i \<ge> 0 \<and> free_chain st (nat (next_idx st i)) is"

definition fls_ok :: "fls_state \<Rightarrow> bool" where
  "fls_ok st \<longleftrightarrow> (\<exists>is. free_chain st (fls_next_free st) is \<and> distinct is \<and>
     set is = {i. i < NUM_FLS_IDXS \<and> \<not> fls_used st i})"

text \<open>What the caller sees: the indices in use, with the value of every thread.\<close>

definition fls_view :: "fls_state \<Rightarrow> nat \<Rightarrow> (nat \<Rightarrow> nat) option" where
  "fls_view st idx = (if fls_used st idx then Some (\<lambda>t. FlsGetValue t idx st) else None)"

lemma free_chain_cong:
  "(\<And>i. i \<in> set is \<Longrightarrow> next_idx st i = next_idx st' i) \<Longrightarrow> free_chain st n is = free_chain st' n is"
  by (induction "is" arbitrary: n) auto

lemma free_chain_upt: "k \<le> 128 \<Longrightarrow> free_chain init_fls k [k..<128]"
proof (induction "128 - k" arbitrary: k)
  case 0
  then show ?case by (simp add: NUM_FLS_IDXS_def)
next
  case (Suc n)
  then have "[k..<128] = k # [Suc k..<128]" by (simp add: upt_conv_Cons)
  with Suc show ?case by (simp add: NUM_FLS_IDXS_def init_fls_def nat_add_distrib)
qed

lemma init_fls_ok: "fls_ok init_fls"
  unfolding fls_ok_def
  by (rule exI[of _ "[0..<128]"])
    (use free_chain_upt[of 0] in \<open>auto simp: fls_used_def NUM_FLS_IDXS_def\<close>, auto simp: init_fls_def)

lemma FlsAlloc_ok:
  assumes "fls_ok st"
  shows "if \<exists>i < 128. \<not> fls_used st i
    then \<exists>idx st'. FlsAlloc cb st = (idx, st') \<and> idx < 128 \<and> \<not> fls_used st idx \<and> fls_ok st' \<and>
      fls_view st' = (fls_view st)(idx := Some (\<lambda>_. 0))
    else FlsAlloc cb st = (FLS_OUT_OF_INDEXES, st)"
proof -
  obtain "is" where c: "free_chain st (fls_next_free st) is" "distinct is" "set is = {i. i < NUM_FLS_IDXS \<and> \<not> fls_used st i}"
    using assms by (auto simp: fls_ok_def)
  show ?thesis
  proof (cases "is")
    case Nil
    then show ?thesis using c by (auto simp: FlsAlloc_def NUM_FLS_IDXS_def)
  next
    case (Cons idx js)
    let ?st = "st\<lparr>fls_next_free := nat (next_idx st idx), next_idx := (next_idx st)(idx := -1),
        fls_vals := (\<lambda>t. (fls_vals st t)(idx := None)), fls_callback := (fls_callback st)(idx := cb)\<rparr>"
    have i: "fls_next_free st = idx" "idx < NUM_FLS_IDXS" "\<not> fls_used st idx" "idx \<notin> set js"
      using c Cons by auto
    have "free_chain st m js = free_chain ?st m js" for m by (rule free_chain_cong) (use i(4) in auto)
    then have "free_chain ?st (nat (next_idx st idx)) js" using c(1) Cons by simp
    moreover have "set js = {i. i < NUM_FLS_IDXS \<and> \<not> fls_used ?st i}"
    proof -
      have "fls_used ?st j \<longleftrightarrow> j = idx \<or> fls_used st j" for j using i(2) by (auto simp: fls_used_def)
      moreover have "set js = set is - {idx}" using Cons c(2) by auto
      ultimately show ?thesis using c(3) by auto
    qed
    ultimately have "fls_ok ?st" using c(2) Cons by (auto simp: fls_ok_def)
    moreover have "fls_view ?st = (fls_view st)(idx := Some (\<lambda>_. 0))"
      using i(2) by (auto simp: fls_view_def fls_used_def FlsGetValue_def fun_eq_iff)
    ultimately show ?thesis
      using i by (auto simp: FlsAlloc_def Let_def NUM_FLS_IDXS_def)
  qed
qed

lemma FlsFree_ok:
  assumes "fls_ok st" and "fls_used st idx"
  shows "\<exists>st'. FlsFree idx st = (True, st') \<and> fls_ok st' \<and> fls_view st' = (fls_view st)(idx := None)"
proof -
  obtain "is" where c: "free_chain st (fls_next_free st) is" "distinct is" "set is = {i. i < NUM_FLS_IDXS \<and> \<not> fls_used st i}"
    using assms by (auto simp: fls_ok_def)
  let ?st = "st\<lparr>next_idx := (next_idx st)(idx := int (fls_next_free st)), fls_next_free := idx\<rparr>"
  have i: "idx < NUM_FLS_IDXS" "idx \<notin> set is" using assms(2) c(3) by (auto simp: fls_used_def)
  have u: "fls_used ?st j \<longleftrightarrow> j \<noteq> idx \<and> fls_used st j" for j by (auto simp: fls_used_def)
  have "free_chain st m is = free_chain ?st m is" for m by (rule free_chain_cong) (use i(2) in auto)
  then have "free_chain ?st (fls_next_free st) is" using c(1) by simp
  then have "free_chain ?st idx (idx # is)" using i by simp
  moreover have "set (idx # is) = {i. i < NUM_FLS_IDXS \<and> \<not> fls_used ?st i}" using c(3) u i by auto
  moreover have "distinct (idx # is)" using c(2) i(2) by simp
  ultimately have "fls_ok ?st" unfolding fls_ok_def by (intro exI[of _ "idx # is"]) simp
  moreover have "fls_view ?st = (fls_view st)(idx := None)"
    by (auto simp: fls_view_def u FlsGetValue_def fun_eq_iff)
  ultimately show ?thesis using assms(2) by (auto simp: FlsFree_def)
qed

lemma FlsSetValue_ok:
  assumes "fls_ok st" and "fls_used st idx"
  shows "\<exists>st'. FlsSetValue t idx v st = (True, st') \<and> fls_ok st' \<and>
    fls_view st' = (fls_view st)(idx := Some (\<lambda>u. if u = t then v else FlsGetValue u idx st))"
proof -
  let ?st = "st\<lparr>fls_vals := (fls_vals st)(t := (fls_vals st t)(idx := Some v))\<rparr>"
  have "free_chain ?st n is = free_chain st n is" for n "is" by (rule free_chain_cong) simp
  then have "fls_ok ?st" using assms(1) by (simp add: fls_ok_def fls_used_def)
  moreover have "fls_view ?st = (fls_view st)(idx := Some (\<lambda>u. if u = t then v else FlsGetValue u idx st))"
    using assms(2) by (auto simp: fls_view_def fls_used_def FlsGetValue_def fun_eq_iff)
  ultimately show ?thesis using assms(2) by (simp add: FlsSetValue_def)
qed

section \<open>Properties\<close>

text \<open>
  C23: A critical section excludes: in any run of entries and exits that goes through, no two threads are
  inside at its end, and \<open>OwningThread\<close> and \<open>RecursionCount\<close> tell who is and how often it entered.
\<close>

theorem critical_section_excludes:
  assumes "cs.run xs (InitializeCriticalSectionEx spin) = Inr c"
  shows "(\<forall>t u. cs.held xs t > 0 \<and> cs.held xs u > 0 \<longrightarrow> t = u) \<and>
    (\<forall>t. cs.held xs t = (if OwningThread c = Some t then RecursionCount c else 0))"
proof -
  let ?c0 = "InitializeCriticalSectionEx spin"
  have ok: "cs_ok ?c0" "nat (RecursionCount ?c0) = 0" "OwningThread ?c0 = None"
    by (simp_all add: InitializeCriticalSectionEx_def cs_ok_def pm_ok_def free_mutex_def)
  have "cs_ok c" and h: "int (cs.holds c t) = cs.held xs t" for t
    using cs.run_holds[OF ok(1) assms] ok(3) by (auto simp: cs.holds_def)
  then have "RecursionCount c \<ge> 0" by (simp add: cs_ok_def)
  then have "cs.held xs t = (if OwningThread c = Some t then RecursionCount c else 0)" for t
    using h[of t] by (simp add: cs.holds_def split: if_splits)
  then show ?thesis using cs.exclusive[OF ok(1,2) assms] by blast
qed

theorem critical_section_excludes_witness:
  "\<exists>c. cs.run [(1, True), (1, True), (1, False)] (InitializeCriticalSectionEx 0) = Inr c \<and>
     OwningThread c = Some 1 \<and> RecursionCount c = 1"
proof -
  let ?c = "\<lparr>LockCount = 1, RecursionCount = 1, OwningThread = Some 1,
      LockSemaphore = \<lparr>m_owner = Some 1, m_count = 1\<rparr>, SpinCount = 0\<rparr>"
  have r: "cs.run [(1, True), (1, True), (1, False)] (InitializeCriticalSectionEx 0) = Inr ?c"
    by (simp add: InitializeCriticalSectionEx_def EnterCriticalSection_def LeaveCriticalSection_def pm_lock_def
        pm_unlock_def free_mutex_def Let_def)
  show ?thesis using critical_section_excludes[OF r] r by auto
qed

text \<open>
  An auto-reset event lets at most one wait through for every time it was set, and one more if it was
  created set, however waits, wake-ups, timeouts and resets interleave.
\<close>

theorem auto_reset_event_tokens:
  assumes "event_step\<^sup>*\<^sup>* (new_event initial False) st"
  shows "length (released st) \<le> times_set st + (if initial then 1 else 0)"
proof -
  have "event_inv (token initial) (new_event initial False)"
    by (simp add: event_inv_def new_event_def win_create_event_def)
  from event_inv_reachable[OF assms this] show ?thesis by (simp add: event_inv_def token_def split: if_splits)
qed

theorem auto_reset_event_tokens_witness:
  "\<exists>st. event_step\<^sup>*\<^sup>* (new_event True False) st \<and> released st = [3] \<and> waiting st = [4] \<and>
     length (released st) \<le> times_set st + 1"
proof -
  let ?st1 = "evt_check 3 (new_event True False)"
  have "event_step (new_event True False) ?st1" by (rule event_step.wait) (simp add: new_event_def)
  moreover have "event_step ?st1 (evt_check 4 ?st1)"
    by (rule event_step.wait) (simp add: new_event_def evt_check_def win_create_event_def)
  ultimately have r: "event_step\<^sup>*\<^sup>* (new_event True False) (evt_check 4 ?st1)" by auto
  show ?thesis
    using auto_reset_event_tokens[OF r] r
    by (intro exI[of _ "evt_check 4 ?st1"]) (simp add: new_event_def evt_check_def win_create_event_def)
qed

text \<open>
  \<open>FlsAlloc\<close> refines taking an unused index: it never gives out an index in use, it fails only when
  all 128 are in use, the new index reads as NULL in every thread, and nothing else changes.
\<close>

theorem fls_alloc_refines:
  assumes "fls_ok st"
  shows "if \<exists>i < 128. fls_view st i = None
    then \<exists>idx st'. FlsAlloc cb st = (idx, st') \<and> idx < 128 \<and> fls_view st idx = None \<and> fls_ok st' \<and>
      fls_view st' = (fls_view st)(idx := Some (\<lambda>_. 0))
    else FlsAlloc cb st = (FLS_OUT_OF_INDEXES, st)"
proof -
  have "fls_view st i = None \<longleftrightarrow> \<not> fls_used st i" for i by (simp add: fls_view_def)
  then show ?thesis using FlsAlloc_ok[OF assms, of cb] by (simp only:)
qed

theorem fls_alloc_refines_witness:
  "\<exists>idx st'. FlsAlloc None init_fls = (idx, st') \<and> idx < 128 \<and> fls_view st' = Map.empty(idx := Some (\<lambda>_. 0))"
proof -
  have "fls_view init_fls = Map.empty" by (auto simp: fls_view_def fls_used_def init_fls_def)
  moreover have "\<exists>i < 128. fls_view init_fls i = None" using calculation by (intro exI[of _ 0]) simp
  ultimately show ?thesis using fls_alloc_refines[OF init_fls_ok, of None] by (simp only: if_True) blast
qed

text \<open>
  A value of fiber-local storage is the one its thread set last; other threads and indices keep
  theirs, and a freed index is unused again.
\<close>

theorem fls_value_per_thread:
  assumes "fls_ok st" and "fls_used st idx"
  shows "\<exists>st' st''. FlsSetValue t idx v st = (True, st') \<and>
    (\<forall>u j. FlsGetValue u j st' = (if u = t \<and> j = idx then v else FlsGetValue u j st)) \<and>
    FlsFree idx st' = (True, st'') \<and> fls_ok st'' \<and> fls_view st'' = (fls_view st)(idx := None)"
proof -
  let ?st = "st\<lparr>fls_vals := (fls_vals st)(t := (fls_vals st t)(idx := Some v))\<rparr>"
  obtain st' where s: "FlsSetValue t idx v st = (True, st')" "fls_ok st'"
    "fls_view st' = (fls_view st)(idx := Some (\<lambda>u. if u = t then v else FlsGetValue u idx st))"
    using FlsSetValue_ok[OF assms] by blast
  have st': "st' = ?st" using s(1) assms(2) by (simp add: FlsSetValue_def)
  have "FlsGetValue u j ?st = (if u = t \<and> j = idx then v else FlsGetValue u j st)" for u j
    using assms(2) by (simp add: FlsGetValue_def fls_used_def)
  moreover have "fls_used st' idx" using assms(2) st' by (simp add: fls_used_def)
  from FlsFree_ok[OF s(2) this] s(3) obtain st'' where "FlsFree idx st' = (True, st'')" "fls_ok st''"
    "fls_view st'' = (fls_view st)(idx := None)" by auto
  ultimately show ?thesis using s(1) st' by blast
qed

theorem fls_value_per_thread_witness:
  "\<exists>st' st''. FlsSetValue 7 0 5 (snd (FlsAlloc None init_fls)) = (True, st') \<and>
     FlsGetValue 7 0 st' = 5 \<and> FlsGetValue 8 0 st' = 0 \<and> FlsFree 0 st' = (True, st'')"
proof -
  let ?st = "snd (FlsAlloc None init_fls)"
  have st: "fls_used ?st 0" "FlsGetValue 8 0 ?st = 0"
    by (simp_all add: FlsAlloc_def init_fls_def NUM_FLS_IDXS_def Let_def fls_used_def FlsGetValue_def)
  have "\<exists>i < 128. \<not> fls_used init_fls i" by (rule exI[of _ 0]) (simp add: fls_used_def init_fls_def)
  then have "fls_ok ?st" using FlsAlloc_ok[OF init_fls_ok, of None] by auto
  from fls_value_per_thread[OF this st(1), of 7 5] st(2) show ?thesis by auto
qed

end
