(* ===== verification/Win_Strings.thy ===== *)
theory Win_Strings
  imports Prelude "HOL-Library.Char_ord"
begin

text \<open>
  Strings of the Windows API: the conversions of \<open>winapi/api.c\<close> and the string functions of
  \<open>winapi/string.c\<close>.  A pointer to UTF-16 text is the memory it points to, a list of 16-bit
  units; looking for the terminator in memory that has none is a fault.  A \<open>const char*\<close> name is
  the list of its characters, without the terminator.  The program never calls \<open>setlocale\<close>, so
  \<open>mbrtoc16\<close> and \<open>c16rtomb\<close> run in the C locale: they convert the 7-bit characters and report
  \<open>EILSEQ\<close> (the value -1) for everything else.  Allocations succeed.
\<close>

section \<open>The conversions of the C locale\<close>

definition mbrtoc16 :: "byte \<Rightarrow> int \<times> u16 option" where
  "mbrtoc16 b = (if b = 0 then (0, Some 0) else if b < 128 then (1, Some (ucast b)) else (-1, None))"

definition c16rtomb :: "u16 \<Rightarrow> int \<times> byte option" where
  "c16rtomb c = (if c < 128 then (1, Some (ucast c)) else (-1, None))"

text \<open>With a NULL destination \<open>c16rtomb\<close> ignores the character and converts a terminator.\<close>

definition c16rtomb_null :: int where
  "c16rtomb_null = 1"

definition chars :: "byte list \<Rightarrow> string" where
  "chars = map (\<lambda>b. char_of (unat b))"

definition char_bytes :: "string \<Rightarrow> byte list" where
  "char_bytes = map (\<lambda>c. word_of_nat (of_char c))"

section \<open>Conversions of the program\<close>

text \<open>Memory that is read as UTF-16, in the byte order of the machine.\<close>

fun units_of_bytes :: "byte list \<Rightarrow> u16 list" where
  "units_of_bytes (a # b # bs) = (ucast a OR push_bit 8 (ucast b)) # units_of_bytes bs"
| "units_of_bytes _ = []"

definition winstr_len :: "u16 list option \<Rightarrow> nat result" where
  "winstr_len str =
     (case str of
        None \<Rightarrow> Inr 0
      | Some mem \<Rightarrow> (case find_index (\<lambda>c. c = 0) mem of None \<Rightarrow> Inl Fault | Some n \<Rightarrow> Inr n))"

text \<open>
  The conversion loop of \<open>winstr_from_str\<close>.  The step is a \<open>size_t\<close>, so an error moves the source
  pointer back by one character: before the string when it is at its start, and otherwise to a
  character that was converted already, from where the loop comes back for ever.
\<close>

fun from_str_loop :: "byte list \<Rightarrow> nat \<Rightarrow> u16 list \<Rightarrow> u16 list result" where
  "from_str_loop [] i out = Inr out"
| "from_str_loop (b # bs) i out =
     (case mbrtoc16 b of
        (n, Some c) \<Rightarrow> if n \<le> 0 then Inr out else from_str_loop bs (Suc i) (out @ [c])
      | (n, None) \<Rightarrow> if i = 0 then Inl Fault else Inl Hang)"

definition winstr_from_str :: "byte list option \<Rightarrow> u16 list option result" where
  "winstr_from_str str =
     (case str of
        None \<Rightarrow> Inr None
      | Some s \<Rightarrow> res_bind (from_str_loop s 0 []) (\<lambda>ws. Inr (Some (ws @ [0]))))"

text \<open>
  The conversion loop of \<open>winstr_to_str\<close>: the buffer has one byte per unit, and an error moves the
  destination back by one.
\<close>

fun to_str_loop :: "u16 list \<Rightarrow> int \<Rightarrow> byte list \<Rightarrow> byte list result" where
  "to_str_loop [] d buf = Inr buf"
| "to_str_loop (c # cs) d buf =
     (case c16rtomb c of
        (n, Some b) \<Rightarrow>
          if d < 0 \<or> int (length buf) \<le> d then Inl Fault
          else to_str_loop cs (d + n) (buf[nat d := b])
      | (n, None) \<Rightarrow> to_str_loop cs (d + n) buf)"

definition winstr_to_str :: "u16 list option \<Rightarrow> string option result" where
  "winstr_to_str wstr =
     (case wstr of
        None \<Rightarrow> Inr None
      | Some mem \<Rightarrow>
          res_bind (winstr_len wstr) (\<lambda>n.
          let len = n * nat c16rtomb_null in
          res_bind (to_str_loop (take n mem) 0 (replicate (len + 1) 0)) (\<lambda>buf.
          Inr (Some (chars (takeWhile (\<lambda>b. b \<noteq> 0) buf))))))"

section \<open>Code pages\<close>

definition GetACP :: u32 where "GetACP = 1200"

definition GetOEMCP :: u32 where "GetOEMCP = 437"

definition IsValidCodePage :: "u32 \<Rightarrow> bool" where
  "IsValidCodePage cp = (cp = 65001 \<or> cp = 1200 \<or> cp = 12000)"

record cpinfo =
  MaxCharSize :: u32
  DefaultChar :: "byte list"
  LeadByte :: "byte list"

definition GetCPInfo :: "u32 \<Rightarrow> cpinfo option" where
  "GetCPInfo cp =
     (if cp = 65001 then Some \<lparr>MaxCharSize = 1, DefaultChar = [63, 0], LeadByte = replicate 12 0\<rparr>
      else if cp = 1200 then Some \<lparr>MaxCharSize = 2, DefaultChar = [63, 0], LeadByte = replicate 12 0\<rparr>
      else if cp = 12000 then Some \<lparr>MaxCharSize = 4, DefaultChar = [63, 0], LeadByte = replicate 12 0\<rparr>
      else None)"

section \<open>Conversion with explicit lengths\<close>

text \<open>
  Both functions count first and convert then; the result is the value returned (0 and an error
  code when the conversion is refused) and the destination.  \<open>mblen\<close> and \<open>wlen\<close> are the lengths
  the caller passes, negative for \<^emph>\<open>up to the terminator\<close>.
\<close>

fun mb_units :: "byte list \<Rightarrow> u16 list" where
  "mb_units [] = []"
| "mb_units (b # bs) =
     (case mbrtoc16 b of
        (n, Some c) \<Rightarrow> (if n \<le> 0 then ucast b else c) # mb_units bs
      | (n, None) \<Rightarrow> ucast b # mb_units bs)"

definition source_len :: "int \<Rightarrow> nat result \<Rightarrow> nat result" where
  "source_len len strl = (if len < 0 then strl else Inr (nat len))"

definition byte_strlen :: "byte list \<Rightarrow> nat result" where
  "byte_strlen mem = (case find_index (\<lambda>b. b = 0) mem of None \<Rightarrow> Inl Fault | Some n \<Rightarrow> Inr n)"

definition store_units :: "'a list \<Rightarrow> 'a list \<Rightarrow> 'a list result" where
  "store_units out xs =
     (if length xs \<le> length out then Inr (xs @ drop (length xs) out) else Inl Fault)"

definition MultiByteToWideChar ::
    "byte list option \<Rightarrow> int \<Rightarrow> u16 list \<Rightarrow> nat \<Rightarrow> (nat \<times> u16 list) result" where
  "MultiByteToWideChar mbstr mblen wstr wlen =
     (case mbstr of
        None \<Rightarrow> Inr (0, wstr)
      | Some mem \<Rightarrow>
          res_bind (source_len mblen (byte_strlen mem)) (\<lambda>n.
          let include_null = mblen < 0 in
          if n = 0 \<and> \<not> include_null then Inr (0, wstr)
          else if length mem < n then Inl Fault
          else
            let units = mb_units (take n mem) @ (if include_null then [0] else []) in
            if wlen = 0 then Inr (length units, wstr)
            else if wlen < length units then Inr (0, wstr)
            else res_bind (store_units wstr units) (\<lambda>out. Inr (length units, out))))"

fun wide_bytes :: "u16 list \<Rightarrow> byte list" where
  "wide_bytes [] = []"
| "wide_bytes (c # cs) = (case c16rtomb c of (n, Some b) \<Rightarrow> b # wide_bytes cs | (n, None) \<Rightarrow> 63 # wide_bytes cs)"

definition WideCharToMultiByte ::
    "u16 list option \<Rightarrow> int \<Rightarrow> byte list \<Rightarrow> nat \<Rightarrow> (nat \<times> byte list) result" where
  "WideCharToMultiByte wstr wlen mbstr mblen =
     (case wstr of
        None \<Rightarrow> Inr (0, mbstr)
      | Some mem \<Rightarrow>
          res_bind (source_len wlen (winstr_len wstr)) (\<lambda>n.
          let include_null = wlen < 0 in
          if n = 0 \<and> \<not> include_null then Inr (0, mbstr)
          else if length mem < n then Inl Fault
          else
            let bytes = wide_bytes (take n mem) @ (if include_null then [0] else []) in
            if mblen = 0 then Inr (length bytes, mbstr)
            else if mblen < length bytes then Inr (0, mbstr)
            else res_bind (store_units mbstr bytes) (\<lambda>out. Inr (length bytes, out))))"

section \<open>The other string functions\<close>

definition GetStringTypeW :: "u16 list \<Rightarrow> int \<Rightarrow> u16 list \<Rightarrow> (nat \<times> u16 list) result" where
  "GetStringTypeW str n char_types =
     res_bind (source_len n (winstr_len (Some str))) (\<lambda>len.
     res_bind (store_units char_types (replicate len 0)) (\<lambda>out. Inr (0, out)))"

definition LCMapStringW :: "u16 list \<Rightarrow> int \<Rightarrow> u16 list \<Rightarrow> nat \<Rightarrow> (nat \<times> u16 list) result" where
  "LCMapStringW str inlen out outlen =
     res_bind (source_len inlen (winstr_len (Some str))) (\<lambda>n.
     if outlen = 0 then Inr ((n + 1) * 2, out)
     else if outlen < n then Inr (0, out)
     else if length str < n + 1 then Inl Fault
     else res_bind (store_units out (take (n + 1) str)) (\<lambda>out'. Inr (outlen, out')))"

record unicode_string =
  us_Length :: u16
  us_MaximumLength :: u16
  us_Buffer :: "u16 list option"

definition RtlInitUnicodeString :: "u16 list option \<Rightarrow> unicode_string result" where
  "RtlInitUnicodeString src =
     (case src of
        None \<Rightarrow> Inr \<lparr>us_Length = 0, us_MaximumLength = 0, us_Buffer = None\<rparr>
      | Some mem \<Rightarrow>
          res_bind (winstr_len src) (\<lambda>len.
          Inr \<lparr>us_Length = word_of_nat (len + 1), us_MaximumLength = word_of_nat (len + 1),
               us_Buffer = Some (take (len + 1) mem)\<rparr>))"

definition lstrlenW :: "u16 list option \<Rightarrow> nat result" where
  "lstrlenW str = winstr_len str"

definition lstrlenA :: "byte list \<Rightarrow> nat result" where
  "lstrlenA str = byte_strlen str"

text \<open>\<open>lstrcpynW\<close> returns the destination after its last step, the position of the terminator.\<close>

function lstrcpyn_loop :: "u16 list \<Rightarrow> u16 list \<Rightarrow> nat \<Rightarrow> int \<Rightarrow> (nat \<times> u16 list) result" where
  "lstrcpyn_loop dst src i max_len =
     (if length src \<le> i then Inl Fault
      else if src ! i \<noteq> 0 \<and> 0 < max_len then
        (if length dst \<le> i then Inl Fault
         else lstrcpyn_loop (dst[i := src ! i]) src (Suc i) (max_len - 1))
      else if length dst \<le> i then Inl Fault
      else Inr (i, dst[i := 0]))"
  by pat_completeness auto
termination
  by (relation "measure (\<lambda>(dst, src, i, max_len). length src - i)") auto

declare lstrcpyn_loop.simps [simp del]

definition lstrcpynW :: "u16 list \<Rightarrow> u16 list \<Rightarrow> int \<Rightarrow> (nat \<times> u16 list) result" where
  "lstrcpynW dst src max_len = lstrcpyn_loop dst src 0 max_len"

definition lstrcpyW :: "u16 list \<Rightarrow> u16 list \<Rightarrow> u16 list result" where
  "lstrcpyW dst src = res_bind (winstr_len (Some src)) (\<lambda>n. store_units dst (take (n + 1) src))"

definition lstrcpyA :: "byte list \<Rightarrow> byte list \<Rightarrow> byte list result" where
  "lstrcpyA dst src = res_bind (byte_strlen src) (\<lambda>n. store_units dst (take (n + 1) src))"

text \<open>\<open>memcmp\<close> of two arrays of units compares their bytes, the low byte of a unit first.\<close>

definition unit_bytes :: "u16 list \<Rightarrow> byte list" where
  "unit_bytes us = concat (map (word_le 2) us)"

fun memcmp :: "byte list \<Rightarrow> byte list \<Rightarrow> int" where
  "memcmp (a # as) (b # bs) = (if a < b then -1 else if b < a then 1 else memcmp as bs)"
| "memcmp _ _ = 0"

definition lstrcmpW :: "u16 list \<Rightarrow> u16 list \<Rightarrow> int result" where
  "lstrcmpW a b =
     res_bind (winstr_len (Some a)) (\<lambda>a_len.
     res_bind (winstr_len (Some b)) (\<lambda>b_len.
     if a_len < b_len then Inr (-1)
     else if b_len < a_len then Inr (-1)
     else Inr (memcmp (unit_bytes (take a_len a)) (unit_bytes (take a_len b)))))"

definition CSTR_LESS_THAN :: int where "CSTR_LESS_THAN = 1"
definition CSTR_EQUAL :: int where "CSTR_EQUAL = 2"
definition CSTR_GREATER_THAN :: int where "CSTR_GREATER_THAN = 3"

definition CompareStringW :: "u16 list \<Rightarrow> int \<Rightarrow> u16 list \<Rightarrow> int \<Rightarrow> int result" where
  "CompareStringW str1 cch1 str2 cch2 =
     res_bind (source_len cch1 (winstr_len (Some str1))) (\<lambda>n1.
     res_bind (source_len cch2 (winstr_len (Some str2))) (\<lambda>n2.
     let len = min n1 n2 in
     if length str1 < len \<or> length str2 < len then Inl Fault
     else
       let cmp = memcmp (unit_bytes (take len str1)) (unit_bytes (take len str2)) in
       if cmp < 0 then Inr CSTR_LESS_THAN
       else if 0 < cmp then Inr CSTR_GREATER_THAN
       else if n1 < n2 then Inr CSTR_LESS_THAN
       else if n2 < n1 then Inr CSTR_GREATER_THAN
       else Inr CSTR_EQUAL))"

section \<open>Properties\<close>

lemma length_chars [simp]: "length (chars bs) = length bs"
  by (simp add: chars_def)

lemma mbrtoc16_ascii: "b \<noteq> 0 \<Longrightarrow> b < 128 \<Longrightarrow> mbrtoc16 b = (1, Some (ucast b))"
  by (simp add: mbrtoc16_def)

lemma mbrtoc16_high: "\<not> b < 128 \<Longrightarrow> mbrtoc16 b = (-1, None)"
  by (auto simp: mbrtoc16_def)

lemma ucast_ascii:
  assumes "(b :: byte) < 128"
  shows "(ucast b :: u16) < 128" and "ucast (ucast b :: u16) = b"
    and "b \<noteq> 0 \<Longrightarrow> (ucast b :: u16) \<noteq> 0"
proof -
  have u: "unat (ucast b :: u16) = unat b"
    using unat_byte_less[of b] by (simp add: unsigned_ucast_eq take_bit_eq_mod)
  have "unat b < 128" using assms by (simp add: word_less_nat_alt)
  then show "(ucast b :: u16) < 128" using u by (simp add: word_less_nat_alt)
  show c: "ucast (ucast b :: u16) = b"
  proof -
    have "unat (ucast (ucast b :: u16) :: byte) = take_bit 8 (unat (ucast b :: u16))"
      by (subst unsigned_ucast_eq) simp
    also have "\<dots> = unat b" using unat_byte_less[of b] by (simp only: u take_bit_eq_mod) simp
    finally show ?thesis by (simp only: word_unat_eq_iff)
  qed
  show "b \<noteq> 0 \<Longrightarrow> (ucast b :: u16) \<noteq> 0" using c by (metis unsigned_0)
qed

lemma from_str_loop_ascii:
  assumes "\<forall>b \<in> set s. b \<noteq> 0 \<and> b < 128"
  shows "from_str_loop s i out = Inr (out @ map ucast s)"
  using assms
proof (induction s arbitrary: i out)
  case Nil
  then show ?case by simp
next
  case (Cons b bs)
  then show ?case by (simp add: mbrtoc16_ascii)
qed

lemma from_str_loop_high:
  assumes "\<forall>b \<in> set s. b \<noteq> 0" and "\<exists>b \<in> set s. \<not> b < 128"
  shows "\<exists>e. from_str_loop s i out = Inl e"
  using assms
proof (induction s arbitrary: i out)
  case Nil
  then show ?case by simp
next
  case (Cons b bs)
  then show ?case by (cases "b < 128") (auto simp: mbrtoc16_ascii mbrtoc16_high)
qed

lemma to_str_loop_ascii:
  assumes "\<forall>c \<in> set cs. c < 128"
  shows "to_str_loop cs (int (length pre)) (pre @ replicate (length cs + k) 0)
    = Inr (pre @ map ucast cs @ replicate k 0)"
  using assms
proof (induction cs arbitrary: pre)
  case Nil
  then show ?case by simp
next
  case (Cons c cs)
  have c: "c16rtomb c = (1, Some (ucast c))" using Cons.prems by (simp add: c16rtomb_def)
  have len: "int (length pre) + 1 = int (length (pre @ [ucast c]))" by simp
  have upd: "(pre @ replicate (Suc (length cs + k)) 0)[length pre := ucast c]
      = (pre @ [ucast c]) @ replicate (length cs + k) 0"
    by (simp add: list_update_append)
  have "to_str_loop (c # cs) (int (length pre)) (pre @ replicate (Suc (length cs + k)) 0)
      = to_str_loop cs (int (length (pre @ [ucast c]))) ((pre @ [ucast c]) @ replicate (length cs + k) 0)"
    by (simp only: to_str_loop.simps c prod.case option.case upd len) simp
  also have "\<dots> = Inr ((pre @ [ucast c]) @ map ucast cs @ replicate k 0)"
    by (rule Cons.IH) (use Cons.prems in simp)
  finally show ?case by simp
qed

lemma winstr_len_terminated:
  "\<forall>c \<in> set cs. c \<noteq> 0 \<Longrightarrow> winstr_len (Some (cs @ 0 # tail)) = Inr (length cs)"
proof -
  assume a: "\<forall>c \<in> set cs. c \<noteq> 0"
  have "find_index (\<lambda>c. c = 0) (cs @ 0 # tail) = Some (length cs)"
    by (rule find_index_SomeI) (use a in \<open>auto simp: nth_append\<close>)
  then show ?thesis by (simp add: winstr_len_def)
qed

lemma winstr_to_str_ascii:
  assumes "\<forall>b \<in> set s. b \<noteq> 0 \<and> b < 128"
  shows "winstr_to_str (Some (map ucast s @ 0 # tail)) = Inr (Some (chars s))"
proof -
  have nz: "\<forall>c \<in> set (map ucast s :: u16 list). c \<noteq> 0" and lt: "\<forall>c \<in> set (map ucast s :: u16 list). c < 128"
    using assms ucast_ascii by auto
  have inv: "map ucast (map ucast s :: u16 list) = s"
    using assms ucast_ascii(2) by (auto simp: map_idI)
  have loop: "to_str_loop (map ucast s) 0 (replicate (length s + 1) 0) = Inr (s @ [0])"
    using to_str_loop_ascii[OF lt, of "[]" 1] inv by simp
  have tw: "takeWhile (\<lambda>b. b \<noteq> 0) (s @ [0]) = s"
    using assms by (simp add: takeWhile_tail takeWhile_eq_all_conv)
  show ?thesis
    using winstr_len_terminated[OF nz, of tail]
    by (simp add: winstr_to_str_def c16rtomb_null_def loop[simplified] tw)
qed

lemma winstr_to_str_name:
  assumes "\<forall>b \<in> set s. b \<noteq> 0 \<and> b < 128" and "n = chars s"
  shows "winstr_to_str (Some (map ucast s @ [0])) = Inr (Some n)"
  using winstr_to_str_ascii[OF assms(1), of "[]"] assms(2) by simp

text \<open>A 7-bit name as it lies in memory.\<close>

definition wide_name :: "byte list \<Rightarrow> byte list" where
  "wide_name s = concat (map (\<lambda>b. [b, 0]) (s @ [0]))"

lemma units_of_wide_name: "units_of_bytes (wide_name s) = map ucast s @ [0]"
  unfolding wide_name_def by (induction s) simp_all

text \<open>
  A 7-bit name survives the conversion to UTF-16 and back, and \<open>winstr_from_str\<close> returns for
  no other name: at a byte it cannot convert it moves its source pointer backwards.
\<close>

theorem names_survive_conversion:
  assumes "\<forall>b \<in> set s. b \<noteq> 0"
  shows "if \<forall>b \<in> set s. b < 128
    then \<exists>w. winstr_from_str (Some s) = Inr (Some w) \<and> winstr_len (Some w) = Inr (length s) \<and>
           winstr_to_str (Some w) = Inr (Some (chars s))
    else \<exists>e. winstr_from_str (Some s) = Inl e"
proof (cases "\<forall>b \<in> set s. b < 128")
  case True
  with assms have a: "\<forall>b \<in> set s. b \<noteq> 0 \<and> b < 128" by auto
  have nz: "\<forall>c \<in> set (map ucast s :: u16 list). c \<noteq> 0" using a ucast_ascii by auto
  have "winstr_from_str (Some s) = Inr (Some (map ucast s @ [0]))"
    by (simp add: winstr_from_str_def from_str_loop_ascii[OF a])
  moreover have "winstr_len (Some (map ucast s @ [0])) = Inr (length s)"
    using winstr_len_terminated[OF nz, of "[]"] by simp
  moreover have "winstr_to_str (Some (map ucast s @ [0])) = Inr (Some (chars s))"
    by (rule winstr_to_str_ascii[OF a])
  ultimately show ?thesis using True by simp
next
  case False
  then obtain e where "from_str_loop s 0 [] = Inl e" using from_str_loop_high[of s 0 "[]"] assms by auto
  then have "\<exists>e. winstr_from_str (Some s) = Inl e" by (simp add: winstr_from_str_def)
  then show ?thesis by (simp only: False if_False)
qed

theorem names_survive_conversion_witness:
  "winstr_from_str (Some [72, 73]) = Inr (Some [72, 73, 0]) \<and>
   winstr_to_str (Some [72, 73, 0]) = Inr (Some (chars [72, 73])) \<and>
   (\<exists>e. winstr_from_str (Some [72, 233]) = Inl e)"
proof -
  have f: "winstr_from_str (Some [72, 73]) = Inr (Some [72, 73, 0])"
    by (simp add: winstr_from_str_def mbrtoc16_def)
  have "winstr_to_str (Some [72, 73, 0]) = Inr (Some (chars [72, 73]))"
    using names_survive_conversion[of "[72, 73]"] f by simp
  moreover have "\<exists>e. winstr_from_str (Some [72, 233]) = Inl e"
    using names_survive_conversion[of "[72, 233]"] by simp
  ultimately show ?thesis using f by simp
qed

text \<open>
  The size query of \<open>MultiByteToWideChar\<close> is exact: it writes nothing, a destination that is
  smaller is left alone and refused, and one that is large enough gets exactly that many units.
\<close>

theorem wide_size_query_exact:
  assumes q: "MultiByteToWideChar (Some mem) mblen wstr 0 = Inr (n, out0)"
    and room: "length wstr = wlen" and pos: "0 < wlen"
  shows "out0 = wstr \<and>
    (if wlen < n then MultiByteToWideChar (Some mem) mblen wstr wlen = Inr (0, wstr)
     else \<exists>out. MultiByteToWideChar (Some mem) mblen wstr wlen = Inr (n, out) \<and>
            length out = length wstr \<and> drop n out = drop n wstr)"
proof -
  obtain k where k: "source_len mblen (byte_strlen mem) = Inr k"
    using q by (auto simp: MultiByteToWideChar_def res_bind_eq_Inr)
  show ?thesis
    using q room pos
    by (auto simp: MultiByteToWideChar_def k Let_def store_units_def res_bind_eq_Inr split: if_splits)
qed

theorem wide_size_query_exact_witness:
  "MultiByteToWideChar (Some [72, 73, 0]) (-1) [7, 7, 7, 7] 0 = Inr (3, [7, 7, 7, 7]) \<and>
   (\<exists>out. MultiByteToWideChar (Some [72, 73, 0]) (-1) [7, 7, 7, 7] 4 = Inr (3, out) \<and> drop 3 out = [7])"
proof -
  have q: "MultiByteToWideChar (Some [72, 73, 0]) (-1) [7, 7, 7, 7] 0 = Inr (3, [7, 7, 7, 7])"
    by (simp add: MultiByteToWideChar_def source_len_def byte_strlen_def mbrtoc16_def Let_def numeral_3_eq_3)
  show ?thesis using wide_size_query_exact[OF q, of 4] q by (auto simp: drop_Cons')
qed

text \<open>
  \<open>lstrcmpW\<close> is no order: of two strings of different length each is less than the other.
\<close>

theorem string_comparison_is_no_order:
  assumes "\<forall>c \<in> set a. c \<noteq> 0" and "\<forall>c \<in> set b. c \<noteq> 0" and "length a \<noteq> length b"
  shows "lstrcmpW (a @ [0]) (b @ [0]) = Inr (-1) \<and> lstrcmpW (b @ [0]) (a @ [0]) = Inr (-1)"
  using assms winstr_len_terminated[OF assms(1), of "[]"] winstr_len_terminated[OF assms(2), of "[]"]
  by (auto simp: lstrcmpW_def nat_neq_iff)

theorem string_comparison_is_no_order_witness:
  "lstrcmpW [65, 0] [65, 66, 0] = Inr (-1) \<and> lstrcmpW [65, 66, 0] [65, 0] = Inr (-1)"
  using string_comparison_is_no_order[of "[65]" "[65, 66]"] by simp

text \<open>
  \<open>CompareStringW\<close> compares the bytes of the units, so a greater unit with a smaller low byte
  comes first.
\<close>

lemma word_le_2: "word_le 2 w = [word_of_nat (unat w mod 256), word_of_nat (unat w div 256 mod 256)]"
  by (simp add: word_le_def numeral_2_eq_2)

lemma wide_order_is_by_low_byte:
  "CompareStringW [0x0100] 1 [0x0001] 1 = Inr CSTR_LESS_THAN"
  by (simp add: CompareStringW_def source_len_def unit_bytes_def word_le_2 CSTR_LESS_THAN_def Let_def)

text \<open>\<open>lstrcpynW\<close> writes up to \<open>max_len\<close> units and then the terminator, one more than the buffer has.\<close>

lemma bounded_copy_overruns:
  "lstrcpynW [9, 9] [65, 66, 67, 0] 2 = Inl Fault"
  by (simp add: lstrcpynW_def lstrcpyn_loop.simps)

end
