(* ===== verification/Libcrypto.thy ===== *)
theory Libcrypto
  imports Device_State Win_Strings
begin

text \<open>
  What the two cryptography APIs use of OpenSSL.  Its functions are a parameter: the record
  \<open>libcrypto\<close> has one field per function of the library, over bytes and natural numbers.  A digest
  or cipher context is the data that was put into it.  The sizes and codecs below are documented
  constants and number formats of the library (\<open>EVP_MD_size\<close>, \<open>BN_bn2bin\<close>, \<open>BN_bin2bn\<close>,
  \<open>BN_bn2binpad\<close>).  The wrapper \<open>LIBCRYPTO_ERR\<close> of \<open>tudor/libcrypto.h\<close> aborts when a function
  returns zero or less.
\<close>

section \<open>Algorithms\<close>

datatype hash_alg = SHA1 | SHA256 | SHA384 | SHA512

fun md_size :: "hash_alg \<Rightarrow> nat" where
  "md_size SHA1 = 20"
| "md_size SHA256 = 32"
| "md_size SHA384 = 48"
| "md_size SHA512 = 64"

lemma md_size_pos [simp]: "0 < md_size h"
  by (cases h) auto

datatype chain_mode = CBC | CFB | ECB | GCM

fun iv_length :: "chain_mode \<Rightarrow> nat" where
  "iv_length CBC = 16"
| "iv_length CFB = 16"
| "iv_length ECB = 0"
| "iv_length GCM = 12"

record cipher_ctx =
  cx_mode :: chain_mode
  cx_enc :: bool
  cx_key :: "byte list"
  cx_iv :: "byte list option"
  cx_aad :: "byte list"
  cx_tag :: "byte list"
  cx_padding :: bool

text \<open>
  \<open>lc_update\<close> is what \<open>EVP_CipherUpdate\<close> puts out for the whole input, \<open>None\<close> when it fails, and
  \<open>lc_final\<close> what \<open>EVP_CipherFinal_ex\<close> adds to it.
\<close>

record libcrypto =
  lc_digest :: "hash_alg \<Rightarrow> byte list \<Rightarrow> byte list"
  lc_hmac :: "hash_alg \<Rightarrow> byte list \<Rightarrow> byte list \<Rightarrow> byte list"
  lc_update :: "cipher_ctx \<Rightarrow> byte list \<Rightarrow> byte list option"
  lc_final :: "cipher_ctx \<Rightarrow> byte list \<Rightarrow> byte list option"
  lc_get_tag :: "cipher_ctx \<Rightarrow> byte list \<Rightarrow> nat \<Rightarrow> byte list"
  lc_public :: "nat \<Rightarrow> (nat \<times> nat) option"
  lc_on_curve :: "nat \<times> nat \<Rightarrow> bool"
  lc_fromdata :: "nat \<times> nat \<Rightarrow> nat option \<Rightarrow> int"
  lc_sign :: "nat \<Rightarrow> nat \<Rightarrow> byte list \<Rightarrow> nat \<times> nat"
  lc_verify :: "nat \<times> nat \<Rightarrow> byte list \<Rightarrow> nat \<times> nat \<Rightarrow> bool"
  lc_derive :: "nat \<Rightarrow> nat \<times> nat \<Rightarrow> byte list"
  lc_sig_der :: "nat \<times> nat \<Rightarrow> byte list"
  lc_der_sig :: "byte list \<Rightarrow> (nat \<times> nat) option"

definition LIBCRYPTO_ERR :: "'a option \<Rightarrow> 'a result" where
  "LIBCRYPTO_ERR r = (case r of None \<Rightarrow> Inl Abort | Some x \<Rightarrow> Inr x)"

lemma LIBCRYPTO_ERR_eq_Inr [simp]: "LIBCRYPTO_ERR r = Inr x \<longleftrightarrow> r = Some x"
  by (cases r) (auto simp: LIBCRYPTO_ERR_def)

lemma LIBCRYPTO_ERR_Some [simp]: "LIBCRYPTO_ERR (Some x) = Inr x"
  by (simp add: LIBCRYPTO_ERR_def)

section \<open>Big numbers\<close>

text \<open>Big-endian bytes: of fixed length, and without leading zero bytes.\<close>

definition be_nat :: "byte list \<Rightarrow> nat" where
  "be_nat bs = le_nat (rev bs)"

definition be_bytes :: "nat \<Rightarrow> nat \<Rightarrow> byte list" where
  "be_bytes k n = rev (le_bytes k n)"

fun num_bytes :: "nat \<Rightarrow> nat" where
  "num_bytes n = (if n = 0 then 0 else Suc (num_bytes (n div 256)))"

declare num_bytes.simps [simp del]

lemma num_bytes_0 [simp]: "num_bytes 0 = 0"
  by (simp add: num_bytes.simps)

lemma num_bytes_eq:
  "256 ^ k \<le> n \<Longrightarrow> n < 256 ^ Suc k \<Longrightarrow> num_bytes n = Suc k"
proof (induction k arbitrary: n)
  case 0
  then show ?case by (simp add: num_bytes.simps[of n])
next
  case (Suc k)
  have "256 ^ k \<le> n div 256" using Suc.prems(1) by (simp add: less_eq_div_iff_mult_less_eq mult.commute)
  moreover have "n div 256 < 256 ^ Suc k"
    using Suc.prems(2) by (simp add: div_less_iff_less_mult mult.commute)
  ultimately have "num_bytes (n div 256) = Suc k" by (rule Suc.IH)
  moreover have "n \<noteq> 0" using Suc.prems(1) by (metis le_zero_eq power_not_zero zero_neq_numeral)
  ultimately show ?case by (simp add: num_bytes.simps[of n])
qed

lemma num_bytes_bound: "n < 256 ^ k \<Longrightarrow> num_bytes n \<le> k"
proof (induction k arbitrary: n)
  case 0
  then show ?case by simp
next
  case (Suc k)
  have "n div 256 < 256 ^ k" using Suc.prems by (simp add: div_less_iff_less_mult mult.commute)
  then show ?case using Suc.IH by (simp add: num_bytes.simps[of n])
qed

lemma length_be_bytes [simp]: "length (be_bytes k n) = k"
  by (simp add: be_bytes_def)

lemma be_nat_be_bytes [simp]: "n < 256 ^ k \<Longrightarrow> be_nat (be_bytes k n) = n"
  by (simp add: be_nat_def be_bytes_def)

lemma be_bytes_be_nat: "length bs = k \<Longrightarrow> be_bytes k (be_nat bs) = bs"
  by (simp add: be_nat_def be_bytes_def)

lemma be_nat_less: "be_nat bs < 256 ^ length bs"
  using le_nat_less[of "rev bs"] by (simp add: be_nat_def)

lemma le_nat_append: "le_nat (xs @ ys) = le_nat xs + 256 ^ length xs * le_nat ys"
  by (induction xs) (auto simp: algebra_simps)

lemma be_nat_append: "be_nat (xs @ ys) = be_nat xs * 256 ^ length ys + be_nat ys"
  by (simp add: be_nat_def le_nat_append)

text \<open>
  \<open>BN_bn2bin\<close> writes the number without leading zeros and returns how many bytes these are, so
  \<open>LIBCRYPTO_ERR\<close> aborts for zero; \<open>BN_bn2binpad\<close> writes exactly the bytes asked for.
\<close>

definition BN_bn2bin :: "nat \<Rightarrow> byte list option" where
  "BN_bn2bin n = (if n = 0 then None else Some (be_bytes (num_bytes n) n))"

definition BN_bn2binpad :: "nat \<Rightarrow> nat \<Rightarrow> byte list option" where
  "BN_bn2binpad n k = (if num_bytes n \<le> k \<and> 0 < k then Some (be_bytes k n) else None)"

lemma BN_bn2bin_full: "256 ^ 31 \<le> n \<Longrightarrow> n < 256 ^ 32 \<Longrightarrow> BN_bn2bin n = Some (be_bytes 32 n)"
  using num_bytes_eq[of 31 n] by (auto simp: BN_bn2bin_def)

lemma BN_bn2bin_some:
  assumes "0 < n" and "n < 256 ^ k"
  shows "\<exists>bs. BN_bn2bin n = Some bs \<and> length bs \<le> k \<and> be_nat bs = n"
proof -
  have "n < 256 ^ num_bytes n"
  proof (induction n rule: num_bytes.induct)
    case (1 n)
    show ?case
    proof (cases "n = 0")
      case False
      then have "n div 256 < 256 ^ num_bytes (n div 256)" by (rule 1)
      then have "n < 256 ^ Suc (num_bytes (n div 256))"
        by (simp add: div_less_iff_less_mult mult.commute)
      then show ?thesis using False by (simp add: num_bytes.simps[of n])
    qed simp
  qed
  then show ?thesis using assms num_bytes_bound[OF assms(2)] by (simp add: BN_bn2bin_def)
qed

lemma BN_bn2binpad_be_nat:
  "length bs = k \<Longrightarrow> 0 < k \<Longrightarrow> BN_bn2binpad (be_nat bs) k = Some bs"
  using be_nat_less[of bs] num_bytes_bound[of "be_nat bs" k]
  by (simp add: BN_bn2binpad_def be_bytes_be_nat)

text \<open>
  A number that \<open>BN_bn2bin\<close> put at the start of a field of \<open>k\<close> bytes is read back from the field
  only when it fills it.
\<close>

lemma short_number_misread:
  assumes "0 < n" and "BN_bn2bin n = Some bs" and "length (bs @ junk) = k" and "n < 256 ^ k"
  shows "be_nat (bs @ junk) = n \<longleftrightarrow> junk = []"
proof -
  have bs: "be_nat bs = n" using BN_bn2bin_some[OF assms(1,4)] assms(2) by auto
  show ?thesis
  proof (cases "junk = []")
    case False
    then have "256 ^ 1 \<le> (256 :: nat) ^ length junk"
      by (intro power_increasing) (cases junk, auto)
    then have "n * 256 \<le> n * 256 ^ length junk" by simp
    then have "n < n * 256 ^ length junk + be_nat junk" using assms(1) by linarith
    then have "be_nat (bs @ junk) \<noteq> n" by (simp add: be_nat_append bs)
    with False show ?thesis by simp
  qed (simp add: bs)
qed

section \<open>Buffers of the caller\<close>

text \<open>A store of \<open>data\<close> at \<open>off\<close> in a buffer of the caller.\<close>

definition store_at :: "byte list \<Rightarrow> nat \<Rightarrow> byte list \<Rightarrow> byte list result" where
  "store_at buf off data = (if off + length data \<le> length buf then Inr (splice buf off data) else Inl Fault)"

lemma store_at_fits: "off + length data \<le> length buf \<Longrightarrow> store_at buf off data = Inr (splice buf off data)"
  by (simp add: store_at_def)

lemma store_at_eq_Inr:
  "store_at buf off data = Inr out \<longleftrightarrow> off + length data \<le> length buf \<and> out = splice buf off data"
  by (auto simp: store_at_def)

lemma take_splice_0 [simp]: "length data \<le> length buf \<Longrightarrow> take (length data) (splice buf 0 data) = data"
  by (simp add: splice_def)

text \<open>A status of \<open>windows.h\<close> that the tables of \<open>tudor/internal.h\<close> do not use.\<close>

definition STATUS_INVALID_SIGNATURE :: u32 where "STATUS_INVALID_SIGNATURE = 0xc000a000"

lemma status_distinct [simp]:
  "STATUS_SUCCESS \<noteq> STATUS_BUFFER_TOO_SMALL" "STATUS_BUFFER_TOO_SMALL \<noteq> STATUS_SUCCESS"
  "STATUS_SUCCESS \<noteq> STATUS_INVALID_SIGNATURE" "STATUS_INVALID_SIGNATURE \<noteq> STATUS_SUCCESS"
  "STATUS_SUCCESS \<noteq> WINERR_SET_CODE" "WINERR_SET_CODE \<noteq> STATUS_SUCCESS"
  "STATUS_BUFFER_TOO_SMALL \<noteq> WINERR_SET_CODE" "STATUS_INVALID_SIGNATURE \<noteq> WINERR_SET_CODE"
  by (simp_all add: STATUS_SUCCESS_def STATUS_BUFFER_TOO_SMALL_def STATUS_INVALID_SIGNATURE_def WINERR_SET_CODE_def)

text \<open>A concrete library: every digest is a constant block.\<close>

definition demo_lib :: libcrypto where
  "demo_lib = \<lparr>lc_digest = \<lambda>md m. replicate (md_size md) (hd (m @ [0])),
     lc_hmac = \<lambda>md k m. replicate (md_size md) (hd (k @ [0]) + hd (m @ [0])),
     lc_update = \<lambda>cx i. Some (map (\<lambda>b. b XOR hd (cx_key cx)) i), lc_final = \<lambda>cx i. Some [],
     lc_get_tag = \<lambda>cx i n. replicate n 0,
     lc_public = \<lambda>d. Some (d, d + 1), lc_on_curve = \<lambda>p. snd p = fst p + 1, lc_fromdata = \<lambda>p d. 1,
     lc_sign = \<lambda>nonce d h. (nonce, d), lc_verify = \<lambda>p h s. snd s = fst p,
     lc_derive = \<lambda>d p. be_bytes 32 (d * fst p), lc_sig_der = \<lambda>s. [], lc_der_sig = \<lambda>b. None\<rparr>"

end
