(* ===== verification/Bcrypt_Kdf.thy ===== *)
theory Bcrypt_Kdf
  imports Libcrypto
begin

text \<open>
  Key derivation of \<open>winapi/bcrypt/bcrypt.c\<close>: \<open>determine_hash_md\<close> and \<open>BCryptDeriveKey\<close> with its
  four derivation functions, and the proof that \<open>TLS_PRF\<close> is the pseudorandom function of TLS 1.2
  (RFC 5246, section 5).  HMAC and the digests are those of OpenSSL, a parameter of the model.
\<close>

section \<open>Parameters\<close>

definition BCRYPTBUFFER_VERSION :: u32 where "BCRYPTBUFFER_VERSION = 0"
definition KDF_HASH_ALGORITHM :: u32 where "KDF_HASH_ALGORITHM = 0"
definition KDF_SECRET_PREPEND :: u32 where "KDF_SECRET_PREPEND = 1"
definition KDF_SECRET_APPEND :: u32 where "KDF_SECRET_APPEND = 2"
definition KDF_HMAC_KEY :: u32 where "KDF_HMAC_KEY = 3"
definition KDF_TLS_PRF_LABEL :: u32 where "KDF_TLS_PRF_LABEL = 4"
definition KDF_TLS_PRF_SEED :: u32 where "KDF_TLS_PRF_SEED = 5"

lemmas kdf_types = KDF_HASH_ALGORITHM_def KDF_SECRET_PREPEND_def KDF_SECRET_APPEND_def
  KDF_HMAC_KEY_def KDF_TLS_PRF_LABEL_def KDF_TLS_PRF_SEED_def

text \<open>\<open>pvBuffer\<close> is the memory at the pointer, \<open>None\<close> for NULL.\<close>

record bcrypt_buffer =
  cbBuffer :: nat
  BufferType :: u32
  pvBuffer :: "byte list option"

record bcrypt_buffer_desc =
  ulVersion :: u32
  pBuffers :: "bcrypt_buffer list"

definition hash_by_name :: "string \<Rightarrow> hash_alg option" where
  "hash_by_name name =
     (if name = ''SHA1'' then Some SHA1
      else if name = ''SHA256'' then Some SHA256
      else if name = ''SHA384'' then Some SHA384
      else if name = ''SHA512'' then Some SHA512
      else None)"

text \<open>A name that is not known leaves the choice as it was; \<open>strcmp\<close> of NULL is a fault.\<close>

fun determine_hash_loop :: "bcrypt_buffer list \<Rightarrow> hash_alg option \<Rightarrow> hash_alg option result" where
  "determine_hash_loop [] md = Inr md"
| "determine_hash_loop (b # bs) md =
     (if BufferType b \<noteq> KDF_HASH_ALGORITHM then determine_hash_loop bs md
      else res_bind (winstr_to_str (map_option units_of_bytes (pvBuffer b))) (\<lambda>name.
        case name of
          None \<Rightarrow> Inl Fault
        | Some n \<Rightarrow>
            determine_hash_loop bs (case hash_by_name n of None \<Rightarrow> md | Some h \<Rightarrow> Some h)))"

definition determine_hash_md :: "bcrypt_buffer_desc \<Rightarrow> hash_alg option result" where
  "determine_hash_md params = determine_hash_loop (pBuffers params) None"

text \<open>Everything a loop over the buffers of one type feeds to the digest.\<close>

fun feed :: "u32 \<Rightarrow> bcrypt_buffer list \<Rightarrow> byte list result" where
  "feed t [] = Inr []"
| "feed t (b # bs) =
     (if BufferType b \<noteq> t then feed t bs
      else res_bind (case pvBuffer b of
              None \<Rightarrow> if cbBuffer b = 0 then Inr [] else Inl Fault
            | Some mem \<Rightarrow> struct_at mem 0 (cbBuffer b)) (\<lambda>x.
        res_bind (feed t bs) (\<lambda>xs. Inr (x @ xs))))"

text \<open>The last buffer of a type.\<close>

fun last_of_type :: "u32 \<Rightarrow> bcrypt_buffer list \<Rightarrow> bcrypt_buffer option \<Rightarrow> bcrypt_buffer option" where
  "last_of_type t [] b = b"
| "last_of_type t (x # xs) b = last_of_type t xs (if BufferType x = t then Some x else b)"

section \<open>The derivation functions\<close>

type_synonym derived = "u32 \<times> byte list option \<times> nat option"

text \<open>The message that both hash functions see.\<close>

definition kdf_message :: "byte list \<Rightarrow> bcrypt_buffer list \<Rightarrow> byte list result" where
  "kdf_message secret bufs =
     res_bind (feed KDF_SECRET_PREPEND bufs) (\<lambda>pre.
     res_bind (feed KDF_SECRET_APPEND bufs) (\<lambda>post. Inr (pre @ secret @ post)))"

text \<open>
  The size check of both: a buffer that is large enough is refused, and one that is too small
  passes and is written past its end.
\<close>

definition kdf_hash ::
    "libcrypto \<Rightarrow> byte list \<Rightarrow> bcrypt_buffer_desc option \<Rightarrow> byte list option \<Rightarrow> nat \<Rightarrow> derived result" where
  "kdf_hash lc secret params key key_size =
     (case params of
        None \<Rightarrow> Inr (WINERR_SET_CODE, key, None)
      | Some p \<Rightarrow>
          res_bind (determine_hash_md p) (\<lambda>h.
          let md = (case h of None \<Rightarrow> SHA1 | Some m \<Rightarrow> m) in
          case key of
            None \<Rightarrow> Inr (STATUS_SUCCESS, key, Some (md_size md))
          | Some k \<Rightarrow>
              if md_size md \<le> key_size then Inr (STATUS_BUFFER_TOO_SMALL, key, None)
              else
                res_bind (kdf_message secret (pBuffers p)) (\<lambda>msg.
                res_bind (store_at k 0 (lc_digest lc md msg)) (\<lambda>k'.
                Inr (STATUS_SUCCESS, Some k', Some (md_size md))))))"

text \<open>
  \<open>sz\<close> is the variable of that name, which is not initialised: \<open>EVP_DigestSignFinal\<close> takes it for
  the size of the buffer and fails when it is too small.
\<close>

definition kdf_hmac ::
    "libcrypto \<Rightarrow> nat \<Rightarrow> byte list \<Rightarrow> bcrypt_buffer_desc option \<Rightarrow> byte list option \<Rightarrow> nat \<Rightarrow> derived result" where
  "kdf_hmac lc sz secret params key key_size =
     (case params of
        None \<Rightarrow> Inr (WINERR_SET_CODE, key, None)
      | Some p \<Rightarrow>
          res_bind (determine_hash_md p) (\<lambda>h.
          let md = (case h of None \<Rightarrow> SHA1 | Some m \<Rightarrow> m) in
          case key of
            None \<Rightarrow> Inr (STATUS_SUCCESS, key, Some (md_size md))
          | Some k \<Rightarrow>
              if md_size md \<le> key_size then Inr (STATUS_BUFFER_TOO_SMALL, key, None)
              else
                case last_of_type KDF_HMAC_KEY (pBuffers p) None of
                  None \<Rightarrow> Inr (WINERR_SET_CODE, key, None)
                | Some b \<Rightarrow>
                    (case pvBuffer b of
                       None \<Rightarrow> Inr (WINERR_SET_CODE, key, None)
                     | Some mem \<Rightarrow>
                         res_bind (struct_at mem 0 (cbBuffer b)) (\<lambda>hmac_key.
                         res_bind (kdf_message secret (pBuffers p)) (\<lambda>msg.
                         if sz < md_size md then Inl Abort
                         else res_bind (store_at k 0 (lc_hmac lc md hmac_key msg)) (\<lambda>k'.
                           Inr (STATUS_SUCCESS, Some k', Some (md_size md))))))))"

text \<open>The loop of \<open>TLS_PRF\<close>: \<open>a\<close> is \<open>prf_a\<close>, \<open>off\<close> how far \<open>key\<close> has moved.\<close>

function prf_loop ::
    "libcrypto \<Rightarrow> hash_alg \<Rightarrow> byte list \<Rightarrow> byte list \<Rightarrow> byte list \<Rightarrow> nat \<Rightarrow> nat \<Rightarrow> byte list \<Rightarrow> byte list result" where
  "prf_loop lc md secret seed a rem off key =
     (if rem = 0 then Inr key
      else
        let k = lc_hmac lc md secret (a @ seed);
            a' = lc_hmac lc md secret a;
            n = min rem (md_size md) in
        res_bind (store_at key off (take n k)) (\<lambda>key'.
        prf_loop lc md secret seed a' (rem - md_size md) (off + n) key'))"
  by pat_completeness auto
termination
  by (relation "measure (\<lambda>(_, _, _, _, _, rem, _). rem)") auto

declare prf_loop.simps [simp del]

definition kdf_tls_prf ::
    "libcrypto \<Rightarrow> byte list \<Rightarrow> bcrypt_buffer_desc option \<Rightarrow> byte list option \<Rightarrow> nat \<Rightarrow> derived result" where
  "kdf_tls_prf lc secret params key key_size =
     (case params of
        None \<Rightarrow> Inr (WINERR_SET_CODE, key, None)
      | Some p \<Rightarrow>
          res_bind (determine_hash_md p) (\<lambda>h.
          let md = (case h of None \<Rightarrow> SHA256 | Some m \<Rightarrow> m);
              prf_label = Option.bind (last_of_type KDF_TLS_PRF_LABEL (pBuffers p) None) pvBuffer;
              prf_seed = last_of_type KDF_TLS_PRF_SEED (pBuffers p) None in
          case (prf_label, Option.bind prf_seed pvBuffer) of
            (Some l, Some s) \<Rightarrow>
              res_bind (byte_strlen l) (\<lambda>n.
              res_bind (struct_at s 0 (cbBuffer (the prf_seed))) (\<lambda>seed.
              let label_seed = take n l @ seed;
                  a1 = lc_hmac lc md secret label_seed in
              case key of
                None \<Rightarrow> if key_size = 0 then Inr (STATUS_SUCCESS, None, Some 0) else Inl Fault
              | Some k \<Rightarrow>
                  res_bind (prf_loop lc md secret label_seed a1 key_size 0 k) (\<lambda>k'.
                  Inr (STATUS_SUCCESS, Some k', Some key_size))))
          | _ \<Rightarrow> Inr (WINERR_SET_CODE, key, None)))"

definition kdf_truncate :: "byte list \<Rightarrow> byte list option \<Rightarrow> nat \<Rightarrow> derived result" where
  "kdf_truncate secret key key_size =
     (let n = min (length secret) key_size in
      case key of
        None \<Rightarrow> if n = 0 then Inr (STATUS_SUCCESS, None, Some 0) else Inl Fault
      | Some k \<Rightarrow>
          res_bind (store_at k 0 (take n (rev secret))) (\<lambda>k'. Inr (STATUS_SUCCESS, Some k', Some n)))"

definition BCryptDeriveKey ::
    "libcrypto \<Rightarrow> nat \<Rightarrow> byte list \<Rightarrow> u16 list \<Rightarrow> bcrypt_buffer_desc option \<Rightarrow> byte list option \<Rightarrow> nat \<Rightarrow>
     u32 \<Rightarrow> derived result" where
  "BCryptDeriveKey lc sz secret kdf params key key_size flags =
     (if (\<exists>p. params = Some p \<and> ulVersion p \<noteq> BCRYPTBUFFER_VERSION) then Inr (WINERR_SET_CODE, key, None)
      else if flags \<noteq> 0 then Inr (WINERR_SET_CODE, key, None)
      else res_bind (winstr_to_str (Some kdf)) (\<lambda>name.
        if name = Some ''HASH'' then kdf_hash lc secret params key key_size
        else if name = Some ''HMAC'' then kdf_hmac lc sz secret params key key_size
        else if name = Some ''TLS_PRF'' then kdf_tls_prf lc secret params key key_size
        else if name = Some ''TRUNCATE'' then kdf_truncate secret key key_size
        else Inr (WINERR_SET_CODE, key, None)))"

section \<open>The pseudorandom function of TLS 1.2\<close>

text \<open>
  RFC 5246: \<open>A(0) = seed\<close>, \<open>A(i) = HMAC(secret, A(i-1))\<close>, and \<open>P_hash\<close> is the concatenation of
  \<open>HMAC(secret, A(i) + seed)\<close> for \<open>i = 1, 2, ...\<close>, cut to the length that is wanted.  The
  first \<open>n\<close> blocks have at least \<open>n\<close> bytes.
\<close>

fun rfc_A :: "(byte list \<Rightarrow> byte list) \<Rightarrow> byte list \<Rightarrow> nat \<Rightarrow> byte list" where
  "rfc_A hmac seed 0 = seed"
| "rfc_A hmac seed (Suc i) = hmac (rfc_A hmac seed i)"

definition P_hash :: "(byte list \<Rightarrow> byte list) \<Rightarrow> byte list \<Rightarrow> nat \<Rightarrow> byte list" where
  "P_hash hmac seed n = take n (concat (map (\<lambda>i. hmac (rfc_A hmac seed i @ seed)) [1..<Suc n]))"

text \<open>Blocks from index \<open>i\<close> on, as many bytes as asked for.\<close>

definition blocks_from :: "(byte list \<Rightarrow> byte list) \<Rightarrow> byte list \<Rightarrow> nat \<Rightarrow> nat \<Rightarrow> byte list" where
  "blocks_from hmac seed i m = concat (map (\<lambda>j. hmac (rfc_A hmac seed j @ seed)) [i..<i + m])"

lemma blocks_from_Suc:
  "blocks_from hmac seed i (Suc m) = hmac (rfc_A hmac seed i @ seed) @ blocks_from hmac seed (Suc i) m"
  by (simp add: blocks_from_def upt_conv_Cons del: upt_Suc)

lemma length_blocks_from:
  assumes "\<And>m. length (hmac m) = sz"
  shows "length (blocks_from hmac seed i n) = n * sz"
  by (induction n arbitrary: i) (simp_all add: blocks_from_Suc assms, simp add: blocks_from_def)

lemma take_blocks_from_more:
  assumes l: "\<And>m. length (hmac m) = sz" and "0 < sz" and "r \<le> n * sz" and "n \<le> m"
  shows "take r (blocks_from hmac seed i m) = take r (blocks_from hmac seed i n)"
  using assms(3,4)
proof (induction n arbitrary: r m i)
  case 0
  then show ?case by simp
next
  case (Suc n)
  then obtain m' where m: "m = Suc m'" "n \<le> m'" by (cases m) auto
  have "take (r - sz) (blocks_from hmac seed (Suc i) m') = take (r - sz) (blocks_from hmac seed (Suc i) n)"
    by (rule Suc.IH) (use Suc.prems m in auto)
  then show ?case by (simp add: m blocks_from_Suc l)
qed

lemma prf_loop_blocks:
  assumes l: "\<And>k m. length (lc_hmac lc md k m) = md_size md"
    and "off + r \<le> length key"
  shows "prf_loop lc md secret seed (rfc_A (lc_hmac lc md secret) seed i) r off key
    = Inr (splice key off (take r (blocks_from (lc_hmac lc md secret) seed i r)))"
  using assms(2)
proof (induction r arbitrary: i off key rule: less_induct)
  case (less r)
  let ?h = "lc_hmac lc md secret" and ?s = "md_size md"
  show ?case
  proof (cases r)
    case 0
    then show ?thesis by (simp add: prf_loop.simps)
  next
    case (Suc r')
    let ?k = "?h (rfc_A ?h seed i @ seed)"
    let ?n = "min r ?s"
    let ?x = "take ?n ?k"
    have lx: "length ?x = ?n" using l by simp
    have st: "store_at key off ?x = Inr (splice key off ?x)"
      by (rule store_at_fits) (use less.prems lx in auto)
    have lk: "length (splice key off ?x) = length key"
      by (rule length_splice) (use less.prems lx in auto)
    let ?y = "take (r - ?s) (blocks_from ?h seed (Suc i) (r - ?s))"
    have ly: "length ?y = r - ?s"
      using length_blocks_from[of ?h ?s seed "Suc i" "r - ?s"] l md_size_pos[of md] by (cases ?s) auto
    have ih: "prf_loop lc md secret seed (rfc_A ?h seed (Suc i)) (r - ?s) (off + ?n) (splice key off ?x)
      = Inr (splice (splice key off ?x) (off + ?n) ?y)"
      by (rule less.IH) (use less.prems Suc lk in auto)
    have sp: "splice (splice key off ?x) (off + ?n) ?y = splice key off (?x @ ?y)"
      using splice_append[of off ?x ?y key] less.prems lx ly by (simp add: min_def split: if_splits)
    have "take (r - ?s) (blocks_from ?h seed (Suc i) r') = ?y"
    proof (rule take_blocks_from_more[where sz = ?s])
      show "length (?h m) = ?s" for m by (rule l)
      show "r - ?s \<le> (r - ?s) * ?s" using md_size_pos[of md] by (cases ?s) auto
      show "r - ?s \<le> r'" using Suc md_size_pos[of md] by linarith
    qed simp
    then have "take r (blocks_from ?h seed i r) = ?x @ ?y"
      by (simp add: Suc blocks_from_Suc l min_def)
    then show ?thesis
      by (subst prf_loop.simps) (use Suc ih st sp in \<open>simp add: Let_def\<close>)
  qed
qed

text \<open>
  C24: \<open>TLS_PRF\<close> computes the pseudorandom function of RFC 5246 with the label and the seed of
  the last buffers of their types, in full and for every key size, and writes nothing else.
\<close>

theorem tls_prf_is_rfc5246:
  assumes hmac: "\<And>md k m. length (lc_hmac lc md k m) = md_size md"
    and version: "ulVersion p = BCRYPTBUFFER_VERSION"
    and name: "winstr_to_str (Some kdf) = Inr (Some ''TLS_PRF'')"
    and md: "determine_hash_md p = Inr h"
    and label: "last_of_type KDF_TLS_PRF_LABEL (pBuffers p) None = Some lb" "pvBuffer lb = Some (l @ 0 # ls)"
      "\<forall>b \<in> set l. b \<noteq> 0"
    and seed: "last_of_type KDF_TLS_PRF_SEED (pBuffers p) None = Some sb" "pvBuffer sb = Some s"
      "cbBuffer sb \<le> length s"
    and room: "key_size \<le> length key"
  shows "BCryptDeriveKey lc sz secret kdf (Some p) (Some key) key_size 0 =
    Inr (STATUS_SUCCESS,
      Some (splice key 0 (P_hash (lc_hmac lc (case h of None \<Rightarrow> SHA256 | Some m \<Rightarrow> m) secret)
              (l @ take (cbBuffer sb) s) key_size)),
      Some key_size)"
proof -
  let ?md = "case h of None \<Rightarrow> SHA256 | Some m \<Rightarrow> m"
  let ?seed = "l @ take (cbBuffer sb) s"
  have len: "byte_strlen (l @ 0 # ls) = Inr (length l)"
  proof -
    have "find_index (\<lambda>b. b = 0) (l @ 0 # ls) = Some (length l)"
      by (rule find_index_SomeI) (use label(3) in \<open>auto simp: nth_append\<close>)
    then show ?thesis by (simp add: byte_strlen_def)
  qed
  have loop: "prf_loop lc ?md secret ?seed (lc_hmac lc ?md secret ?seed) key_size 0 key
    = Inr (splice key 0 (P_hash (lc_hmac lc ?md secret) ?seed key_size))"
    using prf_loop_blocks[of lc ?md 0 key_size key secret ?seed 1] hmac room
    by (simp add: P_hash_def blocks_from_def)
  have "kdf_tls_prf lc secret (Some p) (Some key) key_size =
    Inr (STATUS_SUCCESS, Some (splice key 0 (P_hash (lc_hmac lc ?md secret) ?seed key_size)), Some key_size)"
    using loop by (simp add: kdf_tls_prf_def md label seed len struct_at_in_range Let_def)
  then show ?thesis
    by (simp add: BCryptDeriveKey_def version name)
qed

lemma tls_prf_name:
  "winstr_to_str (Some [84, 76, 83, 95, 80, 82, 70, 0]) = Inr (Some ''TLS_PRF'')"
proof -
  have "chars [84, 76, 83, 95, 80, 82, 70] = ''TLS_PRF''" by code_simp
  then show ?thesis using winstr_to_str_name[of "[84, 76, 83, 95, 80, 82, 70]" "''TLS_PRF''"] by simp
qed

theorem tls_prf_is_rfc5246_witness:
  "\<exists>out. BCryptDeriveKey demo_lib 0 [9] [84, 76, 83, 95, 80, 82, 70, 0]
     (Some \<lparr>ulVersion = 0, pBuffers = [\<lparr>cbBuffer = 2, BufferType = 4, pvBuffer = Some [107, 0]\<rparr>,
        \<lparr>cbBuffer = 1, BufferType = 5, pvBuffer = Some [3]\<rparr>]\<rparr>) (Some (replicate 40 0)) 40 0
     = Inr (STATUS_SUCCESS, Some out, Some 40)"
proof -
  let ?p = "\<lparr>ulVersion = 0, pBuffers = [\<lparr>cbBuffer = 2, BufferType = 4, pvBuffer = Some [107, 0]\<rparr>,
        \<lparr>cbBuffer = 1, BufferType = 5, pvBuffer = Some [3]\<rparr>]\<rparr>"
  have md: "determine_hash_md ?p = Inr None"
    by (simp add: determine_hash_md_def kdf_types)
  have lb: "last_of_type KDF_TLS_PRF_LABEL (pBuffers ?p) None
      = Some \<lparr>cbBuffer = 2, BufferType = 4, pvBuffer = Some [107, 0]\<rparr>"
    by (simp add: kdf_types)
  have sb: "last_of_type KDF_TLS_PRF_SEED (pBuffers ?p) None
      = Some \<lparr>cbBuffer = 1, BufferType = 5, pvBuffer = Some [3]\<rparr>"
    by (simp add: kdf_types)
  have hm: "length (lc_hmac demo_lib md k m) = md_size md" for md k m by (simp add: demo_lib_def)
  have ver: "ulVersion ?p = BCRYPTBUFFER_VERSION" by (simp add: BCRYPTBUFFER_VERSION_def)
  note r = tls_prf_is_rfc5246[OF hm ver tls_prf_name md lb _ _ sb, where l = "[107]" and ls = "[]" and s = "[3]"]
  have "\<exists>out. BCryptDeriveKey demo_lib 0 [9] [84, 76, 83, 95, 80, 82, 70, 0] (Some ?p) (Some (replicate 40 0)) 40 0 =
    Inr (STATUS_SUCCESS, Some out, Some 40)"
    by (rule exI, rule r) simp_all
  then show ?thesis .
qed

text \<open>
  The hash derivation functions refuse every buffer that the digest fits into; a buffer that
  is one byte short of it passes the check and is written past its end.
\<close>

theorem derive_hash_size_check_inverted:
  assumes dig: "\<And>md m. length (lc_digest lc md m) = md_size md"
    and "ulVersion p = BCRYPTBUFFER_VERSION" and "winstr_to_str (Some kdf) = Inr (Some ''HASH'')"
    and "determine_hash_md p = Inr h" and "kdf_message secret (pBuffers p) = Inr msg"
  shows "BCryptDeriveKey lc sz secret kdf (Some p) (Some key) (length key) 0 =
    (if md_size (case h of None \<Rightarrow> SHA1 | Some m \<Rightarrow> m) \<le> length key
     then Inr (STATUS_BUFFER_TOO_SMALL, Some key, None) else Inl Fault)"
  using assms by (auto simp: BCryptDeriveKey_def kdf_hash_def store_at_def Let_def)

theorem derive_hash_size_check_inverted_witness:
  "BCryptDeriveKey demo_lib 0 [9] [72, 65, 83, 72, 0] (Some \<lparr>ulVersion = 0, pBuffers = []\<rparr>)
     (Some (replicate 20 0)) 20 0 = Inr (STATUS_BUFFER_TOO_SMALL, Some (replicate 20 0), None) \<and>
   BCryptDeriveKey demo_lib 0 [9] [72, 65, 83, 72, 0] (Some \<lparr>ulVersion = 0, pBuffers = []\<rparr>)
     (Some (replicate 19 0)) 19 0 = Inl Fault"
proof -
  have name: "winstr_to_str (Some [72, 65, 83, 72, 0]) = Inr (Some ''HASH'')"
  proof -
    have "chars [72, 65, 83, 72] = ''HASH''" by code_simp
    then show ?thesis using winstr_to_str_name[of "[72, 65, 83, 72]" "''HASH''"] by simp
  qed
  have md: "determine_hash_md \<lparr>ulVersion = 0, pBuffers = []\<rparr> = Inr None"
    and msg: "kdf_message [9] (pBuffers \<lparr>ulVersion = 0, pBuffers = []\<rparr>) = Inr [9]"
    by (simp_all add: determine_hash_md_def kdf_message_def)
  note r = derive_hash_size_check_inverted[OF _ _ name md msg, where lc = demo_lib and sz = 0]
  show ?thesis
    using r[of "replicate 20 0"] r[of "replicate 19 0"]
    by (simp add: demo_lib_def BCRYPTBUFFER_VERSION_def)
qed

end
