(* ===== verification/Bcrypt_Ecc.thy ===== *)
theory Bcrypt_Ecc
  imports Libcrypto
begin

text \<open>
  The elliptic curve keys of \<open>winapi/bcrypt/ecc.c\<close>: \<open>struct p256_key\<close>, key generation, import and
  export of key blobs, signatures and secret agreement.  The curve arithmetic is OpenSSL's, a
  parameter of the model; a key of the library is its public point and its private number.
  Randomness (the new private key, the nonce of a signature) and the contents of fresh memory are
  inputs.
\<close>

definition BCRYPT_ECDH_PUBLIC_P256_MAGIC :: u32 where "BCRYPT_ECDH_PUBLIC_P256_MAGIC = 0x314b4345"
definition BCRYPT_ECDH_PRIVATE_P256_MAGIC :: u32 where "BCRYPT_ECDH_PRIVATE_P256_MAGIC = 0x324b4345"
definition BCRYPT_ECDSA_PUBLIC_P256_MAGIC :: u32 where "BCRYPT_ECDSA_PUBLIC_P256_MAGIC = 0x31534345"
definition BCRYPT_ECDSA_PRIVATE_P256_MAGIC :: u32 where "BCRYPT_ECDSA_PRIVATE_P256_MAGIC = 0x32534345"

definition P256_PARAM_SIZE :: nat where "P256_PARAM_SIZE = 32"

record ecc_algorithm =
  pub_magic :: u32
  priv_magic :: u32

definition bcrypt_algo_ecdh_p256 :: ecc_algorithm where
  "bcrypt_algo_ecdh_p256 =
     \<lparr>pub_magic = BCRYPT_ECDH_PUBLIC_P256_MAGIC, priv_magic = BCRYPT_ECDH_PRIVATE_P256_MAGIC\<rparr>"

definition bcrypt_algo_ecdsa_p256 :: ecc_algorithm where
  "bcrypt_algo_ecdsa_p256 =
     \<lparr>pub_magic = BCRYPT_ECDSA_PUBLIC_P256_MAGIC, priv_magic = BCRYPT_ECDSA_PRIVATE_P256_MAGIC\<rparr>"

text \<open>\<open>ec_key\<close> is the \<open>EVP_PKEY\<close>: nothing yet, or a point with or without its private number.\<close>

record p256_key =
  has_public :: bool
  has_private :: bool
  ec_key :: "((nat \<times> nat) \<times> nat option) option"
  pub_x :: "byte list"
  pub_y :: "byte list"
  priv_d :: "byte list"

definition p256_create_key :: "byte list \<Rightarrow> p256_key" where
  "p256_create_key fresh =
     \<lparr>has_public = False, has_private = False, ec_key = None, pub_x = take 32 fresh,
      pub_y = take 32 (drop 32 fresh), priv_d = take 32 (drop 64 fresh)\<rparr>"

section \<open>Generation\<close>

definition p256_generate_key_pair ::
    "libcrypto \<Rightarrow> nat \<Rightarrow> p256_key \<Rightarrow> nat \<Rightarrow> (u32 \<times> p256_key) result" where
  "p256_generate_key_pair lc d key key_size =
     (if key_size \<noteq> 256 then Inr (WINERR_SET_CODE, key)
      else
        res_bind (LIBCRYPTO_ERR (lc_public lc d)) (\<lambda>(x, y).
        res_bind (LIBCRYPTO_ERR (BN_bn2bin x)) (\<lambda>bx. res_bind (store_at (pub_x key) 0 bx) (\<lambda>px.
        res_bind (LIBCRYPTO_ERR (BN_bn2bin y)) (\<lambda>bys. res_bind (store_at (pub_y key) 0 bys) (\<lambda>py.
        res_bind (LIBCRYPTO_ERR (BN_bn2bin d)) (\<lambda>bd. res_bind (store_at (priv_d key) 0 bd) (\<lambda>pd.
        Inr (STATUS_SUCCESS,
          key\<lparr>ec_key := Some ((x, y), Some d), pub_x := px, pub_y := py, priv_d := pd,
              has_public := True, has_private := True\<rparr>)))))))))"

section \<open>Blobs\<close>

definition key_param :: "byte list \<Rightarrow> nat \<Rightarrow> nat" where
  "key_param buf i = be_nat (take P256_PARAM_SIZE (drop (8 + i * P256_PARAM_SIZE) buf))"

text \<open>
  The end of \<open>p256_import_key\<close>, for the numbers that were read: check the point, make the library's
  key, store the parameters.
\<close>

definition import_point ::
    "libcrypto \<Rightarrow> p256_key \<Rightarrow> nat \<times> nat \<Rightarrow> nat option \<Rightarrow> (u32 \<times> p256_key) result" where
  "import_point lc key p d =
     (if \<not> lc_on_curve lc p then Inr (WINERR_SET_CODE, key\<lparr>has_public := False, has_private := False\<rparr>)
      else if lc_fromdata lc p d < 0 then Inl Abort
      else if lc_fromdata lc p d = 0 then Inr (WINERR_SET_CODE, key\<lparr>has_public := False, has_private := False\<rparr>)
      else
        res_bind (LIBCRYPTO_ERR (BN_bn2binpad (fst p) P256_PARAM_SIZE)) (\<lambda>px.
        res_bind (LIBCRYPTO_ERR (BN_bn2binpad (fst p) P256_PARAM_SIZE)) (\<lambda>py.
        res_bind (case d of None \<Rightarrow> Inr (priv_d key)
            | Some n \<Rightarrow> LIBCRYPTO_ERR (BN_bn2binpad n P256_PARAM_SIZE)) (\<lambda>pd.
        Inr (STATUS_SUCCESS,
          key\<lparr>ec_key := Some (p, d), pub_x := px, pub_y := py, priv_d := pd,
              has_public := True, has_private := (d \<noteq> None)\<rparr>)))))"

definition p256_import_key ::
    "libcrypto \<Rightarrow> ecc_algorithm \<Rightarrow> p256_key \<Rightarrow> string \<Rightarrow> byte list \<Rightarrow> (u32 \<times> p256_key) result" where
  "p256_import_key lc algo key import_type buf =
     (if import_type = ''ECCPUBLICBLOB'' then
        (if length buf < 8 + 2 * P256_PARAM_SIZE then Inr (STATUS_BUFFER_TOO_SMALL, key)
         else if fld buf 0 4 \<noteq> pub_magic algo \<or> (fld buf 4 4 :: u32) \<noteq> 32 then Inr (WINERR_SET_CODE, key)
         else import_point lc key (key_param buf 0, key_param buf 1) None)
      else if import_type = ''ECCPRIVATEBLOB'' then
        (if length buf < 8 + 3 * P256_PARAM_SIZE then Inr (STATUS_BUFFER_TOO_SMALL, key)
         else if fld buf 0 4 \<noteq> priv_magic algo \<or> (fld buf 4 4 :: u32) \<noteq> 32 then Inr (WINERR_SET_CODE, key)
         else
           let x = key_param buf 0; y = key_param buf 1; d = key_param buf 2 in
           res_bind (if x = 0 \<and> y = 0 then LIBCRYPTO_ERR (lc_public lc d) else Inr (x, y)) (\<lambda>p.
           import_point lc key p (Some d)))
      else Inr (WINERR_SET_CODE, key))"

text \<open>\<open>buf\<close> is the buffer of the caller, \<open>None\<close> for a query of the size; a blob is filled in whole.\<close>

definition blob_header :: "u32 \<Rightarrow> byte list" where
  "blob_header magic = word_le 4 magic @ word_le 4 (32 :: u32)"

definition export_blob ::
    "byte list \<Rightarrow> byte list option \<Rightarrow> nat \<Rightarrow> (u32 \<times> byte list option \<times> nat) result" where
  "export_blob blob buf buf_size =
     (case buf of
        None \<Rightarrow> Inr (STATUS_SUCCESS, None, length blob)
      | Some b \<Rightarrow>
          if length blob \<le> buf_size
          then res_bind (store_at b 0 blob) (\<lambda>b'. Inr (STATUS_SUCCESS, Some b', length blob))
          else Inr (STATUS_BUFFER_TOO_SMALL, buf, buf_size))"

definition p256_export_key ::
    "ecc_algorithm \<Rightarrow> p256_key \<Rightarrow> string \<Rightarrow> byte list option \<Rightarrow> nat \<Rightarrow> (u32 \<times> byte list option \<times> nat) result" where
  "p256_export_key algo key export_type buf buf_size =
     (if export_type = ''ECCPUBLICBLOB'' then
        (if \<not> has_public key then Inr (WINERR_SET_CODE, buf, buf_size)
         else export_blob (blob_header (pub_magic algo) @ pub_x key @ pub_y key) buf buf_size)
      else if export_type = ''ECCPRIVATEBLOB'' then
        (if \<not> has_public key \<or> \<not> has_private key then Inr (WINERR_SET_CODE, buf, buf_size)
         else export_blob (blob_header (pub_magic algo) @ pub_x key @ pub_y key @ priv_d key) buf buf_size)
      else Inr (WINERR_SET_CODE, buf, buf_size))"

section \<open>Signatures and secrets\<close>

definition p256_ecdsa_sign_hash ::
    "libcrypto \<Rightarrow> nat \<Rightarrow> p256_key \<Rightarrow> byte list \<Rightarrow> byte list option \<Rightarrow> nat \<Rightarrow> (u32 \<times> byte list option \<times> nat) result" where
  "p256_ecdsa_sign_hash lc nonce key hash sig sig_size =
     (if \<not> has_private key then Inr (WINERR_SET_CODE, sig, sig_size)
      else case sig of
        None \<Rightarrow> Inr (STATUS_SUCCESS, None, 2 * P256_PARAM_SIZE)
      | Some buf \<Rightarrow>
          if sig_size < 2 * P256_PARAM_SIZE then Inr (STATUS_BUFFER_TOO_SMALL, sig, sig_size)
          else case ec_key key of
            Some (_, Some d) \<Rightarrow>
              (case lc_sign lc nonce d hash of (r, s) \<Rightarrow>
               res_bind (LIBCRYPTO_ERR (BN_bn2bin r)) (\<lambda>br. res_bind (store_at buf 0 br) (\<lambda>buf1.
               res_bind (LIBCRYPTO_ERR (BN_bn2bin s)) (\<lambda>bs.
               res_bind (store_at buf1 P256_PARAM_SIZE bs) (\<lambda>buf2.
               Inr (STATUS_SUCCESS, Some buf2, 2 * P256_PARAM_SIZE))))))
          | _ \<Rightarrow> Inl Abort)"

text \<open>The two numbers of a signature as \<open>p256_ecdsa_verify_hash\<close> reads them.\<close>

definition sig_numbers :: "byte list \<Rightarrow> nat \<times> nat" where
  "sig_numbers sig = (be_nat (take 32 sig), be_nat (take 32 (drop 32 sig)))"

definition p256_ecdsa_verify_hash :: "libcrypto \<Rightarrow> p256_key \<Rightarrow> byte list \<Rightarrow> byte list \<Rightarrow> u32 result" where
  "p256_ecdsa_verify_hash lc key hash sig =
     (if \<not> has_public key then Inr WINERR_SET_CODE
      else if length sig \<noteq> 2 * P256_PARAM_SIZE then Inr STATUS_INVALID_SIGNATURE
      else case ec_key key of
        None \<Rightarrow> Inl Abort
      | Some (p, _) \<Rightarrow>
          if lc_verify lc p hash (sig_numbers sig) then Inr STATUS_SUCCESS else Inr STATUS_INVALID_SIGNATURE)"

definition p256_ecdh_exchange_secret ::
    "libcrypto \<Rightarrow> p256_key \<Rightarrow> p256_key \<Rightarrow> (u32 \<times> byte list option) result" where
  "p256_ecdh_exchange_secret lc pub_key priv_key =
     (if \<not> has_public pub_key \<or> \<not> has_private priv_key then Inr (WINERR_SET_CODE, None)
      else case (ec_key pub_key, ec_key priv_key) of
        (Some (p, _), Some (_, Some d)) \<Rightarrow>
          if length (lc_derive lc d p) = P256_PARAM_SIZE then Inr (STATUS_SUCCESS, Some (lc_derive lc d p))
          else Inl Abort
      | _ \<Rightarrow> Inl Abort)"

section \<open>Properties\<close>

lemma take_splice_fields:
  assumes "length buf = 2 * k" and "length a \<le> k" and "length b \<le> k"
  shows "take k (splice (splice buf 0 a) k b) = a @ drop (length a) (take k buf)"
    and "take k (drop k (splice (splice buf 0 a) k b)) = b @ drop (length b) (drop k buf)"
  using assms by (auto simp: splice_def min_def drop_take add.commute)

lemma num_bytes_full: "0 < n \<Longrightarrow> n < 256 ^ 32 \<Longrightarrow> num_bytes n = 32 \<longleftrightarrow> 256 ^ 31 \<le> n"
proof -
  assume "0 < n" and u: "n < 256 ^ 32"
  show ?thesis
  proof (cases "256 ^ 31 \<le> n")
    case True
    then show ?thesis using num_bytes_eq[of 31 n] u by simp
  next
    case False
    then have "num_bytes n \<le> 31" by (intro num_bytes_bound) simp
    with False show ?thesis by simp
  qed
qed

text \<open>
  C25: A signature is stored so that verification reads the two numbers the library made exactly when
  both have 32 significant bytes (then it is accepted); a shorter number is stored without its
  leading zero bytes and read as a different one.
\<close>

theorem ecdsa_signature_roundtrip:
  assumes key: "has_private key" "has_public key" "ec_key key = Some (p, Some d)"
    and sig: "lc_sign lc nonce d hash = (r, s)" "0 < r" "r < 256 ^ 32" "0 < s" "s < 256 ^ 32"
    and accepted: "lc_verify lc p hash (r, s)"
    and buf: "length buf = 64"
  shows "\<exists>out. p256_ecdsa_sign_hash lc nonce key hash (Some buf) 64 = Inr (STATUS_SUCCESS, Some out, 64) \<and>
    (sig_numbers out = (r, s) \<longleftrightarrow> 256 ^ 31 \<le> r \<and> 256 ^ 31 \<le> s) \<and>
    (256 ^ 31 \<le> r \<and> 256 ^ 31 \<le> s \<longrightarrow> p256_ecdsa_verify_hash lc key hash out = Inr STATUS_SUCCESS)"
proof -
  obtain br where br: "BN_bn2bin r = Some br" "length br \<le> 32" using BN_bn2bin_some[OF sig(2,3)] by auto
  obtain bs where bs: "BN_bn2bin s = Some bs" "length bs \<le> 32" using BN_bn2bin_some[OF sig(4,5)] by auto
  have lr: "length br = num_bytes r" and ls: "length bs = num_bytes s"
    using br(1) bs(1) by (auto simp: BN_bn2bin_def split: if_splits)
  let ?out = "splice (splice buf 0 br) 32 bs"
  have run: "p256_ecdsa_sign_hash lc nonce key hash (Some buf) 64 = Inr (STATUS_SUCCESS, Some ?out, 64)"
    using key sig br bs buf by (simp add: p256_ecdsa_sign_hash_def P256_PARAM_SIZE_def store_at_fits)
  have f: "take 32 ?out = br @ drop (length br) (take 32 buf)"
    and g: "take 32 (drop 32 ?out) = bs @ drop (length bs) (drop 32 buf)"
    using take_splice_fields[of buf 32 br bs] buf br(2) bs(2) by simp_all
  have "be_nat (take 32 ?out) = r \<longleftrightarrow> num_bytes r = 32"
    unfolding f using short_number_misread[OF sig(2) br(1) _ sig(3)] br(2) buf lr by simp
  moreover have "be_nat (take 32 (drop 32 ?out)) = s \<longleftrightarrow> num_bytes s = 32"
    unfolding g using short_number_misread[OF sig(4) bs(1) _ sig(5)] bs(2) buf ls by simp
  ultimately have nums: "sig_numbers ?out = (r, s) \<longleftrightarrow> 256 ^ 31 \<le> r \<and> 256 ^ 31 \<le> s"
    using num_bytes_full[OF sig(2,3)] num_bytes_full[OF sig(4,5)] by (simp add: sig_numbers_def)
  have "length ?out = 64" using buf br(2) bs(2) by simp
  then have "p256_ecdsa_verify_hash lc key hash ?out = Inr STATUS_SUCCESS"
    if "256 ^ 31 \<le> r \<and> 256 ^ 31 \<le> s"
    using that nums key accepted by (simp add: p256_ecdsa_verify_hash_def P256_PARAM_SIZE_def)
  with run nums show ?thesis by blast
qed

definition demo_key :: "nat \<Rightarrow> nat \<Rightarrow> nat \<Rightarrow> p256_key" where
  "demo_key x y d = \<lparr>has_public = True, has_private = True, ec_key = Some ((x, y), Some d),
     pub_x = be_bytes 32 x, pub_y = be_bytes 32 y, priv_d = be_bytes 32 d\<rparr>"

theorem ecdsa_signature_roundtrip_witness:
  "\<exists>out. p256_ecdsa_sign_hash demo_lib 7 (demo_key 5 6 5) [1] (Some (replicate 64 0)) 64
      = Inr (STATUS_SUCCESS, Some out, 64) \<and> sig_numbers out \<noteq> (7, 5)"
proof -
  have "\<exists>out. p256_ecdsa_sign_hash demo_lib 7 (demo_key 5 6 5) [1] (Some (replicate 64 0)) 64
      = Inr (STATUS_SUCCESS, Some out, 64) \<and>
    (sig_numbers out = (7, 5) \<longleftrightarrow> 256 ^ 31 \<le> (7 :: nat) \<and> 256 ^ 31 \<le> (5 :: nat)) \<and>
    (256 ^ 31 \<le> (7 :: nat) \<and> 256 ^ 31 \<le> (5 :: nat) \<longrightarrow>
       p256_ecdsa_verify_hash demo_lib (demo_key 5 6 5) [1] out = Inr STATUS_SUCCESS)"
    by (rule ecdsa_signature_roundtrip[where p = "(5, 6)" and d = 5])
      (simp_all add: demo_key_def demo_lib_def)
  then show ?thesis by auto
qed

text \<open>A key whose stored parameters are those of its library key, in full.\<close>

definition full_key :: "p256_key \<Rightarrow> bool" where
  "full_key k \<longleftrightarrow> has_public k \<and> has_private k \<and> length (pub_x k) = 32 \<and> length (pub_y k) = 32 \<and>
     length (priv_d k) = 32 \<and>
     ec_key k = Some ((be_nat (pub_x k), be_nat (pub_y k)), Some (be_nat (priv_d k)))"

lemma blob_fields:
  assumes "length x = 32" and "length y = 32"
  shows "fld (blob_header m @ x @ y @ z) 0 4 = m"
    and "(fld (blob_header m @ x @ y @ z) 4 4 :: u32) = 32"
    and "key_param (blob_header m @ x @ y @ z) 0 = be_nat x"
    and "key_param (blob_header m @ x @ y @ z) 1 = be_nat y"
  using assms by (simp_all add: blob_header_def fld_def key_param_def P256_PARAM_SIZE_def)

lemma export_blob_exact:
  "length buf = length blob \<Longrightarrow>
   export_blob blob (Some buf) (length blob) = Inr (STATUS_SUCCESS, Some blob, length blob)"
  by (simp add: export_blob_def store_at_fits) (simp add: splice_def)

text \<open>
  An exported public key imports as the same point of the curve; but the import stores the
  horizontal coordinate for both, so exporting the imported key gives a different, wrong blob.  The
  exported private key carries the magic number of a public one and is refused.
\<close>

theorem exported_keys_do_not_return:
  assumes k: "full_key k" and algo: "algo = bcrypt_algo_ecdh_p256 \<or> algo = bcrypt_algo_ecdsa_p256"
    and curve: "lc_on_curve lc (be_nat (pub_x k), be_nat (pub_y k))"
    and made: "0 < lc_fromdata lc (be_nat (pub_x k), be_nat (pub_y k)) None"
    and bufs: "length buf = 72" "length buf2 = 104"
  shows "\<exists>blob priv. p256_export_key algo k ''ECCPUBLICBLOB'' (Some buf) 72 = Inr (STATUS_SUCCESS, Some blob, 72) \<and>
    (\<exists>k2. p256_import_key lc algo fresh ''ECCPUBLICBLOB'' blob = Inr (STATUS_SUCCESS, k2) \<and>
       map_option fst (ec_key k2) = map_option fst (ec_key k) \<and>
       p256_export_key algo k2 ''ECCPUBLICBLOB'' (Some buf) 72
         = Inr (STATUS_SUCCESS, Some (blob_header (pub_magic algo) @ pub_x k @ pub_x k), 72)) \<and>
    p256_export_key algo k ''ECCPRIVATEBLOB'' (Some buf2) 104 = Inr (STATUS_SUCCESS, Some priv, 104) \<and>
    p256_import_key lc algo fresh ''ECCPRIVATEBLOB'' priv = Inr (WINERR_SET_CODE, fresh)"
proof -
  note f = k[unfolded full_key_def]
  let ?m = "pub_magic algo"
  let ?blob = "blob_header ?m @ pub_x k @ pub_y k" and ?priv = "blob_header ?m @ pub_x k @ pub_y k @ priv_d k"
  let ?p = "(be_nat (pub_x k), be_nat (pub_y k))"
  let ?k2 = "fresh\<lparr>ec_key := Some (?p, None), pub_x := pub_x k, pub_y := pub_x k, priv_d := priv_d fresh,
    has_public := True, has_private := False\<rparr>"
  have lens: "length ?blob = 72" "length ?priv = 104" using f by (simp_all add: blob_header_def)
  have exp: "p256_export_key algo k ''ECCPUBLICBLOB'' (Some buf) 72 = Inr (STATUS_SUCCESS, Some ?blob, 72)"
    using export_blob_exact[of buf ?blob] f lens bufs by (simp add: p256_export_key_def)
  have pexp: "p256_export_key algo k ''ECCPRIVATEBLOB'' (Some buf2) 104 = Inr (STATUS_SUCCESS, Some ?priv, 104)"
    using export_blob_exact[of buf2 ?priv] f lens bufs by (simp add: p256_export_key_def)
  have imp: "p256_import_key lc algo fresh ''ECCPUBLICBLOB'' ?blob = Inr (STATUS_SUCCESS, ?k2)"
    using blob_fields[of "pub_x k" "pub_y k" ?m "[]"] f lens curve made
    by (simp add: p256_import_key_def P256_PARAM_SIZE_def import_point_def BN_bn2binpad_be_nat)
  have exp2: "p256_export_key algo ?k2 ''ECCPUBLICBLOB'' (Some buf) 72
      = Inr (STATUS_SUCCESS, Some (blob_header ?m @ pub_x k @ pub_x k), 72)"
    using export_blob_exact[of buf "blob_header ?m @ pub_x k @ pub_x k"] f bufs
    by (simp add: p256_export_key_def blob_header_def)
  have magic: "priv_magic algo \<noteq> ?m"
    using algo by (auto simp: bcrypt_algo_ecdh_p256_def bcrypt_algo_ecdsa_p256_def
        BCRYPT_ECDH_PUBLIC_P256_MAGIC_def BCRYPT_ECDH_PRIVATE_P256_MAGIC_def
        BCRYPT_ECDSA_PUBLIC_P256_MAGIC_def BCRYPT_ECDSA_PRIVATE_P256_MAGIC_def)
  have pimp: "p256_import_key lc algo fresh ''ECCPRIVATEBLOB'' ?priv = Inr (WINERR_SET_CODE, fresh)"
    using blob_fields(1)[of "pub_x k" "pub_y k" ?m "priv_d k"] f lens magic
    by (simp add: p256_import_key_def P256_PARAM_SIZE_def)
  have same: "map_option fst (ec_key ?k2) = map_option fst (ec_key k)" using f by simp
  show ?thesis using exp imp exp2 same pexp pimp by blast
qed

theorem exported_keys_do_not_return_witness:
  "\<exists>blob. p256_export_key bcrypt_algo_ecdh_p256 (demo_key 5 6 5) ''ECCPUBLICBLOB'' (Some (replicate 72 0)) 72
    = Inr (STATUS_SUCCESS, Some blob, 72) \<and>
   (\<exists>k2. p256_import_key demo_lib bcrypt_algo_ecdh_p256 (demo_key 1 2 3) ''ECCPUBLICBLOB'' blob
     = Inr (STATUS_SUCCESS, k2))"
proof -
  have n: "be_nat (be_bytes 32 5) = 5" "be_nat (be_bytes 32 6) = 6" by (rule be_nat_be_bytes, simp)+
  have k: "full_key (demo_key 5 6 5)" by (simp add: full_key_def demo_key_def n)
  have "\<exists>blob priv. p256_export_key bcrypt_algo_ecdh_p256 (demo_key 5 6 5) ''ECCPUBLICBLOB'' (Some (replicate 72 0)) 72
      = Inr (STATUS_SUCCESS, Some blob, 72) \<and>
    (\<exists>k2. p256_import_key demo_lib bcrypt_algo_ecdh_p256 (demo_key 1 2 3) ''ECCPUBLICBLOB'' blob
        = Inr (STATUS_SUCCESS, k2) \<and>
       map_option fst (ec_key k2) = map_option fst (ec_key (demo_key 5 6 5)) \<and>
       p256_export_key bcrypt_algo_ecdh_p256 k2 ''ECCPUBLICBLOB'' (Some (replicate 72 0)) 72
         = Inr (STATUS_SUCCESS, Some (blob_header (pub_magic bcrypt_algo_ecdh_p256) @
             pub_x (demo_key 5 6 5) @ pub_x (demo_key 5 6 5)), 72)) \<and>
    p256_export_key bcrypt_algo_ecdh_p256 (demo_key 5 6 5) ''ECCPRIVATEBLOB'' (Some (replicate 104 0)) 104
      = Inr (STATUS_SUCCESS, Some priv, 104) \<and>
    p256_import_key demo_lib bcrypt_algo_ecdh_p256 (demo_key 1 2 3) ''ECCPRIVATEBLOB'' priv
      = Inr (WINERR_SET_CODE, demo_key 1 2 3)"
    by (rule exported_keys_do_not_return[OF k]) (simp_all add: demo_key_def demo_lib_def n)
  then show ?thesis by blast
qed

end
