(* ===== verification/Bcrypt_Aes.thy ===== *)
theory Bcrypt_Aes
  imports Libcrypto
begin

text \<open>
  The symmetric keys of \<open>winapi/bcrypt/aes.c\<close> and the property lists of \<open>winapi/bcrypt/bcrypt.h\<close>
  they take their chaining mode from.  The ciphers are OpenSSL's, a parameter of the model.
\<close>

section \<open>Properties of an object\<close>

text \<open>A property list, the property that was added last first.\<close>

type_synonym bcrypt_props = "(string \<times> byte list) list"

fun bcrypt_find_obj_prop :: "bcrypt_props \<Rightarrow> string \<Rightarrow> byte list option" where
  "bcrypt_find_obj_prop [] name = None"
| "bcrypt_find_obj_prop ((n, v) # ps) name = (if n = name then Some v else bcrypt_find_obj_prop ps name)"

fun set_prop :: "bcrypt_props \<Rightarrow> string \<Rightarrow> byte list \<Rightarrow> bcrypt_props" where
  "set_prop [] name v = []"
| "set_prop ((n, w) # ps) name v = (if n = name then (n, v) # ps else (n, w) # set_prop ps name v)"

section \<open>Keys\<close>

definition BCRYPT_KEY_DATA_BLOB_MAGIC :: u32 where "BCRYPT_KEY_DATA_BLOB_MAGIC = 0x4d42444b"
definition BCRYPT_KEY_DATA_BLOB_VERSION1 :: u32 where "BCRYPT_KEY_DATA_BLOB_VERSION1 = 1"

record aes_key =
  has_key :: bool
  key_size :: nat
  aes_bytes :: "byte list"

definition aes_create_key :: "byte list \<Rightarrow> aes_key" where
  "aes_create_key fresh =
     \<lparr>has_key = False, key_size = le_nat (take 4 (drop 32 fresh)), aes_bytes = take 32 fresh\<rparr>"

definition load_key :: "byte list \<Rightarrow> aes_key \<Rightarrow> aes_key" where
  "load_key secret key =
     key\<lparr>aes_bytes := splice (aes_bytes key) 0 secret, has_key := True, key_size := length secret * 8\<rparr>"

definition aes_key_length :: "nat \<Rightarrow> bool" where
  "aes_key_length n \<longleftrightarrow> n = 16 \<or> n = 24 \<or> n = 32"

definition aes_generate_sym_key :: "aes_key \<Rightarrow> byte list \<Rightarrow> u32 \<times> aes_key" where
  "aes_generate_sym_key key secret =
     (if \<not> aes_key_length (length secret) then (WINERR_SET_CODE, key)
      else (STATUS_SUCCESS, load_key secret key))"

definition aes_import_key :: "aes_key \<Rightarrow> string \<Rightarrow> byte list \<Rightarrow> u32 \<times> aes_key" where
  "aes_import_key key import_type buf =
     (if import_type = ''KeyDataBlob'' then
        (if length buf < 12 then (STATUS_BUFFER_TOO_SMALL, key)
         else if fld buf 0 4 \<noteq> BCRYPT_KEY_DATA_BLOB_MAGIC \<or> fld buf 4 4 \<noteq> BCRYPT_KEY_DATA_BLOB_VERSION1
         then (WINERR_SET_CODE, key)
         else
           let n = unat (fld buf 8 4 :: u32) in
           if length buf < 12 + n then (STATUS_BUFFER_TOO_SMALL, key)
           else if \<not> aes_key_length n then (WINERR_SET_CODE, key)
           else (STATUS_SUCCESS, load_key (take n (drop 12 buf)) key))
      else (WINERR_SET_CODE, key))"

text \<open>The size that is returned is the one of the caller, except for a query.\<close>

definition aes_blob :: "aes_key \<Rightarrow> byte list" where
  "aes_blob key =
     word_le 4 BCRYPT_KEY_DATA_BLOB_MAGIC @ word_le 4 BCRYPT_KEY_DATA_BLOB_VERSION1 @
     word_le 4 (word_of_nat (key_size key div 8) :: u32) @ take (key_size key div 8) (aes_bytes key)"

definition aes_export_key ::
    "aes_key \<Rightarrow> string \<Rightarrow> byte list option \<Rightarrow> nat \<Rightarrow> (u32 \<times> byte list option \<times> nat) result" where
  "aes_export_key key export_type buf buf_size =
     (if export_type = ''KeyDataBlob'' then
        (if \<not> has_key key then Inr (WINERR_SET_CODE, buf, buf_size)
         else
           let exp_size = 12 + key_size key div 8 in
           case buf of
             None \<Rightarrow> Inr (STATUS_SUCCESS, None, exp_size)
           | Some b \<Rightarrow>
               if buf_size < exp_size then Inr (STATUS_BUFFER_TOO_SMALL, buf, buf_size)
               else res_bind (store_at b 0 (aes_blob key)) (\<lambda>b'. Inr (STATUS_SUCCESS, Some b', buf_size)))
      else Inr (WINERR_SET_CODE, buf, buf_size))"

section \<open>Encryption\<close>

text \<open>\<open>BCRYPT_AUTHENTICATED_CIPHER_MODE_INFO\<close>, with the memory behind its pointers.\<close>

record auth_info =
  cbSize :: u32
  dwInfoVersion :: u32
  pbNonce :: "byte list option"
  cbNonce :: nat
  pbAuthData :: "byte list"
  cbAuthData :: nat
  pbTag :: "byte list"
  cbTag :: nat
  dwFlags :: u32

definition auth_info_size :: u32 where "auth_info_size = 88"

definition mode_by_name :: "string \<Rightarrow> chain_mode option" where
  "mode_by_name m =
     (if m = ''ChainingModeCBC'' then Some CBC
      else if m = ''ChainingModeCFB'' then Some CFB
      else if m = ''ChainingModeECB'' then Some ECB
      else if m = ''ChainingModeGCM'' then Some GCM
      else None)"

text \<open>The IV of a call: for GCM that of the caller or the nonce of the info, but not both.\<close>

definition gcm_iv ::
    "auth_info option \<Rightarrow> byte list option \<Rightarrow> nat \<Rightarrow> (byte list option \<times> nat) option" where
  "gcm_iv pad_info iv iv_size =
     (case pad_info of
        None \<Rightarrow> None
      | Some ai \<Rightarrow>
          if cbSize ai < auth_info_size \<or> dwInfoVersion ai \<noteq> 1 then None
          else if dwFlags ai \<noteq> 0 then None
          else case iv of
            None \<Rightarrow> (if pbNonce ai = None then None else Some (pbNonce ai, cbNonce ai))
          | Some _ \<Rightarrow> (if pbNonce ai \<noteq> None then None else Some (iv, iv_size)))"

definition choose_iv ::
    "chain_mode \<Rightarrow> auth_info option \<Rightarrow> byte list option \<Rightarrow> nat \<Rightarrow> (byte list option \<times> nat) option" where
  "choose_iv mode pad_info iv iv_size = (if mode = GCM then gcm_iv pad_info iv iv_size else Some (iv, iv_size))"

definition read_iv :: "chain_mode \<Rightarrow> byte list option \<Rightarrow> byte list option result" where
  "read_iv mode iv =
     (case iv of
        None \<Rightarrow> Inr None
      | Some mem \<Rightarrow> res_bind (struct_at mem 0 (iv_length mode)) (\<lambda>x. Inr (Some x)))"

text \<open>The cipher and its IV, or nothing when the call is refused.\<close>

definition aes_ctx_params ::
    "aes_key \<Rightarrow> bcrypt_props \<Rightarrow> auth_info option \<Rightarrow> byte list option \<Rightarrow> nat \<Rightarrow>
     (chain_mode \<times> byte list option) option result" where
  "aes_ctx_params key prov_obj pad_info iv iv_size =
     (case bcrypt_find_obj_prop prov_obj ''ChainingMode'' of
        None \<Rightarrow> Inr None
      | Some v \<Rightarrow>
          res_bind (winstr_to_str (Some (units_of_bytes v))) (\<lambda>name.
          if key_size key \<noteq> 128 \<and> key_size key \<noteq> 192 \<and> key_size key \<noteq> 256 then Inl Abort
          else case Option.bind name mode_by_name of
            None \<Rightarrow> Inr None
          | Some mode \<Rightarrow>
              (case choose_iv mode pad_info iv iv_size of
                 None \<Rightarrow> Inr None
               | Some (iv', size') \<Rightarrow>
                   if iv_length mode \<noteq> size' then Inr None
                   else res_bind (read_iv mode iv') (\<lambda>x. Inr (Some (mode, x))))))"

definition create_aes_ctx ::
    "aes_key \<Rightarrow> bcrypt_props \<Rightarrow> auth_info option \<Rightarrow> byte list option \<Rightarrow> nat \<Rightarrow> bool \<Rightarrow> cipher_ctx option result" where
  "create_aes_ctx key prov_obj pad_info iv iv_size enc =
     res_bind (aes_ctx_params key prov_obj pad_info iv iv_size) (\<lambda>p.
     Inr (map_option (\<lambda>(mode, the_iv).
       \<lparr>cx_mode = mode, cx_enc = enc, cx_key = take (key_size key div 8) (aes_bytes key), cx_iv = the_iv,
        cx_aad = [], cx_tag = [], cx_padding = True\<rparr>) p))"

text \<open>GCM authenticates the data of the info before everything else.\<close>

definition add_aad :: "auth_info option \<Rightarrow> cipher_ctx \<Rightarrow> cipher_ctx result" where
  "add_aad pad_info cx =
     (if cx_mode cx \<noteq> GCM then Inr cx
      else case pad_info of
        None \<Rightarrow> Inl Fault
      | Some ai \<Rightarrow> res_bind (struct_at (pbAuthData ai) 0 (cbAuthData ai)) (\<lambda>a. Inr (cx\<lparr>cx_aad := a\<rparr>)))"

definition get_gcm_tag :: "libcrypto \<Rightarrow> auth_info option \<Rightarrow> cipher_ctx \<Rightarrow> byte list \<Rightarrow> auth_info option result" where
  "get_gcm_tag lc pad_info cx inp =
     (if cx_mode cx \<noteq> GCM then Inr pad_info
      else case pad_info of
        None \<Rightarrow> Inl Fault
      | Some ai \<Rightarrow>
          res_bind (store_at (pbTag ai) 0 (lc_get_tag lc cx inp (cbTag ai))) (\<lambda>t.
          Inr (Some (ai\<lparr>pbTag := t\<rparr>))))"

definition set_gcm_tag :: "auth_info option \<Rightarrow> cipher_ctx \<Rightarrow> cipher_ctx result" where
  "set_gcm_tag pad_info cx =
     (if cx_mode cx \<noteq> GCM then Inr cx
      else case pad_info of
        None \<Rightarrow> Inl Fault
      | Some ai \<Rightarrow> res_bind (struct_at (pbTag ai) 0 (cbTag ai)) (\<lambda>t. Inr (cx\<lparr>cx_tag := t\<rparr>)))"

text \<open>The result: status, output buffer, its size, and the info with the tag in it.\<close>

type_synonym crypted = "u32 \<times> byte list option \<times> nat \<times> auth_info option"

definition aes_encrypt ::
    "libcrypto \<Rightarrow> aes_key \<Rightarrow> bcrypt_props \<Rightarrow> auth_info option \<Rightarrow> byte list option \<Rightarrow> nat \<Rightarrow> byte list \<Rightarrow>
     byte list option \<Rightarrow> nat \<Rightarrow> crypted result" where
  "aes_encrypt lc key prov_obj pad_info iv iv_size inp out out_size =
     (if \<not> has_key key then Inr (WINERR_SET_CODE, out, out_size, pad_info)
      else case out of
        None \<Rightarrow> Inr (STATUS_SUCCESS, None, length inp, pad_info)
      | Some buf \<Rightarrow>
          if out_size < length inp then Inr (STATUS_BUFFER_TOO_SMALL, out, out_size, pad_info)
          else
            res_bind (create_aes_ctx key prov_obj pad_info iv iv_size True) (\<lambda>ctx.
            case ctx of
              None \<Rightarrow> Inr (WINERR_SET_CODE, out, length inp, pad_info)
            | Some cx0 \<Rightarrow>
                res_bind (add_aad pad_info cx0) (\<lambda>cx.
                res_bind (LIBCRYPTO_ERR (lc_update lc cx inp)) (\<lambda>o1.
                res_bind (store_at buf 0 o1) (\<lambda>buf1.
                res_bind (LIBCRYPTO_ERR (lc_final lc cx inp)) (\<lambda>o2.
                res_bind (store_at buf1 (length o1) o2) (\<lambda>buf2.
                res_bind (get_gcm_tag lc pad_info cx inp) (\<lambda>pad'.
                Inr (STATUS_SUCCESS, Some buf2, length o1 + length o2, pad')))))))))"

definition aes_decrypt ::
    "libcrypto \<Rightarrow> aes_key \<Rightarrow> bcrypt_props \<Rightarrow> auth_info option \<Rightarrow> byte list option \<Rightarrow> nat \<Rightarrow> byte list \<Rightarrow>
     byte list option \<Rightarrow> nat \<Rightarrow> crypted result" where
  "aes_decrypt lc key prov_obj pad_info iv iv_size inp out out_size =
     (if \<not> has_key key then Inr (WINERR_SET_CODE, out, out_size, pad_info)
      else case out of
        None \<Rightarrow> Inr (STATUS_SUCCESS, None, length inp, pad_info)
      | Some buf \<Rightarrow>
          if out_size < length inp then Inr (STATUS_BUFFER_TOO_SMALL, out, out_size, pad_info)
          else
            res_bind (create_aes_ctx key prov_obj pad_info iv iv_size False) (\<lambda>ctx.
            case ctx of
              None \<Rightarrow> Inr (WINERR_SET_CODE, out, length inp, pad_info)
            | Some cx0 \<Rightarrow>
                res_bind (add_aad pad_info cx0) (\<lambda>cx1.
                res_bind (LIBCRYPTO_ERR (lc_update lc cx1 inp)) (\<lambda>o1.
                res_bind (store_at buf 0 o1) (\<lambda>buf1.
                res_bind (set_gcm_tag pad_info cx1) (\<lambda>cx.
                case lc_final lc cx inp of
                  None \<Rightarrow> Inr (STATUS_INVALID_SIGNATURE, Some buf1, length o1, pad_info)
                | Some o2 \<Rightarrow>
                    res_bind (store_at buf1 (length o1) o2) (\<lambda>buf2.
                    Inr (STATUS_SUCCESS, Some buf2, length o1 + length o2, pad_info))))))))"

section \<open>Properties\<close>

lemma length_load_key:
  "length (aes_bytes key) = 32 \<Longrightarrow> length secret \<le> 32 \<Longrightarrow> length (aes_bytes (load_key secret key)) = 32"
  by (simp add: load_key_def)

lemma take_load_key:
  "length (aes_bytes key) = 32 \<Longrightarrow> length secret \<le> 32 \<Longrightarrow>
   take (length secret) (aes_bytes (load_key secret key)) = secret"
  by (simp add: load_key_def)

lemma aes_key_length_le: "aes_key_length n \<Longrightarrow> n \<le> 32 \<and> 16 \<le> n"
  by (auto simp: aes_key_length_def)

lemma length_aes_blob:
  "key_size key div 8 \<le> length (aes_bytes key) \<Longrightarrow> length (aes_blob key) = 12 + key_size key div 8"
  by (simp add: aes_blob_def)

text \<open>
  A symmetric key that is exported imports as the same key, whatever follows the blob in the
  buffer.
\<close>

theorem aes_key_blob_roundtrip:
  assumes "has_key key" and "key_size key = 8 * n" and "aes_key_length n"
    and "length (aes_bytes key) = 32" and "length (aes_bytes fresh) = 32" and "12 + n \<le> length buf"
  shows "\<exists>blob k2. aes_export_key key ''KeyDataBlob'' (Some buf) (length buf) = Inr (STATUS_SUCCESS, Some blob, length buf) \<and>
    aes_import_key fresh ''KeyDataBlob'' blob = (STATUS_SUCCESS, k2) \<and>
    has_key k2 \<and> key_size k2 = key_size key \<and> take n (aes_bytes k2) = take n (aes_bytes key)"
proof -
  have n: "n \<le> 32" using aes_key_length_le[OF assms(3)] by simp
  let ?k = "take n (aes_bytes key)"
  let ?rest = "drop (12 + n) buf"
  let ?blob = "aes_blob key @ ?rest"
  have lb: "length (aes_blob key) = 12 + n" using length_aes_blob[of key] assms n by simp
  have exp: "aes_export_key key ''KeyDataBlob'' (Some buf) (length buf) = Inr (STATUS_SUCCESS, Some ?blob, length buf)"
    using assms lb by (simp add: aes_export_key_def store_at_fits) (simp add: splice_def)
  have un: "unat (word_of_nat n :: u32) = n"
    unfolding unat_of_nat take_bit_eq_mod using n by simp
  have fields: "fld ?blob 0 4 = BCRYPT_KEY_DATA_BLOB_MAGIC" "fld ?blob 4 4 = BCRYPT_KEY_DATA_BLOB_VERSION1"
      "(fld ?blob 8 4 :: u32) = word_of_nat n" "take n (drop 12 ?blob) = ?k"
    using assms(2,4) n by (simp_all add: aes_blob_def fld_def)
  have len: "12 + n \<le> length ?blob" using lb by simp
  have imp: "aes_import_key fresh ''KeyDataBlob'' ?blob = (STATUS_SUCCESS, load_key ?k fresh)"
    using fields len assms(3) by (simp add: aes_import_key_def un Let_def)
  have lk: "length ?k = n" using n assms(4) by simp
  have "take n (aes_bytes (load_key ?k fresh)) = ?k"
    using take_load_key[of fresh ?k] assms(5) lk n by simp
  moreover have "has_key (load_key ?k fresh) \<and> key_size (load_key ?k fresh) = key_size key"
    using lk assms(2) by (simp add: load_key_def)
  ultimately show ?thesis using exp imp by blast
qed

theorem aes_key_blob_roundtrip_witness:
  "\<exists>blob k2. aes_export_key \<lparr>has_key = True, key_size = 128, aes_bytes = replicate 32 7\<rparr> ''KeyDataBlob''
      (Some (replicate 28 0)) 28 = Inr (STATUS_SUCCESS, Some blob, 28) \<and>
    aes_import_key \<lparr>has_key = False, key_size = 0, aes_bytes = replicate 32 0\<rparr> ''KeyDataBlob'' blob
      = (STATUS_SUCCESS, k2) \<and> take 16 (aes_bytes k2) = replicate 16 7"
  using aes_key_blob_roundtrip[of "\<lparr>has_key = True, key_size = 128, aes_bytes = replicate 32 7\<rparr>" 16
      "\<lparr>has_key = False, key_size = 0, aes_bytes = replicate 32 0\<rparr>" "replicate 28 0"]
  by (auto simp: aes_key_length_def)

text \<open>What the documentation of OpenSSL says of AES-GCM, for encryption contexts.\<close>

definition gcm_law :: "libcrypto \<Rightarrow> bool" where
  "gcm_law lc \<longleftrightarrow> (\<forall>cx p n. cx_mode cx = GCM \<and> cx_enc cx \<longrightarrow>
     (\<exists>c. lc_update lc cx p = Some c \<and> length c = length p \<and> lc_final lc cx p = Some [] \<and>
        length (lc_get_tag lc cx p n) = n \<and>
        lc_update lc (cx\<lparr>cx_enc := False\<rparr>) c = Some p \<and>
        lc_final lc (cx\<lparr>cx_enc := False, cx_tag := lc_get_tag lc cx p n\<rparr>) c = Some []))"

lemma gcm_iv_pbTag [simp]: "gcm_iv (Some (ai\<lparr>pbTag := t\<rparr>)) iv n = gcm_iv (Some ai) iv n"
  by (cases iv) (simp_all add: gcm_iv_def)

lemma aes_params_tag:
  "aes_ctx_params key props (Some (ai\<lparr>pbTag := t\<rparr>)) iv n = aes_ctx_params key props (Some ai) iv n"
  unfolding aes_ctx_params_def choose_iv_def gcm_iv_pbTag ..

lemma create_aes_ctx_tag [simp]:
  "create_aes_ctx key props (Some (ai\<lparr>pbTag := t\<rparr>)) iv n enc = create_aes_ctx key props (Some ai) iv n enc"
  by (simp only: create_aes_ctx_def aes_params_tag)

lemma create_aes_ctx_dec:
  assumes "create_aes_ctx key props pad iv n True = Inr (Some cx)"
  shows "create_aes_ctx key props pad iv n False = Inr (Some (cx\<lparr>cx_enc := False\<rparr>))"
    and "cx_enc cx" and "cx_aad cx = []" and "cx_padding cx"
  using assms by (auto simp: create_aes_ctx_def res_bind_eq_Inr)


lemma demo_gcm: "gcm_law demo_lib"
  by (auto simp: gcm_law_def demo_lib_def comp_def xor.assoc)

lemma gcm_mode_name:
  "winstr_to_str (Some (units_of_bytes (wide_name
      [67, 104, 97, 105, 110, 105, 110, 103, 77, 111, 100, 101, 71, 67, 77]))) = Inr (Some ''ChainingModeGCM'')"
proof -
  have "chars [67, 104, 97, 105, 110, 105, 110, 103, 77, 111, 100, 101, 71, 67, 77] = ''ChainingModeGCM''"
    by code_simp
  then show ?thesis unfolding units_of_wide_name by (intro winstr_to_str_name) simp_all
qed


text \<open>
  In the other block modes the library pads: it puts out whole blocks, one more than the input
  fills.  A buffer of the size that \<open>aes_encrypt\<close> itself reports is therefore written past its end.
\<close>

theorem padded_encryption_overruns:
  assumes padding: "\<And>cx p. cx_mode cx = CBC \<Longrightarrow> cx_padding cx \<Longrightarrow> \<exists>o1 o2. lc_update lc cx p = Some o1 \<and>
      lc_final lc cx p = Some o2 \<and> length o1 \<le> length p \<and> length o1 + length o2 = 16 * (length p div 16 + 1)"
    and key: "has_key key"
    and ctx: "create_aes_ctx key props pad iv n True = Inr (Some cx)" "cx_mode cx = CBC"
    and buf: "length buf = length inp"
  shows "aes_encrypt lc key props pad iv n inp None 0 = Inr (STATUS_SUCCESS, None, length inp, pad) \<and>
    aes_encrypt lc key props pad iv n inp (Some buf) (length buf) = Inl Fault"
proof -
  have "cx_padding cx" by (rule create_aes_ctx_dec(4)[OF ctx(1)])
  then obtain o1 o2 where o: "lc_update lc cx inp = Some o1" "lc_final lc cx inp = Some o2"
      "length o1 \<le> length inp" "length o1 + length o2 = 16 * (length inp div 16 + 1)"
    using padding[OF ctx(2), of inp] by blast
  have "length inp < 16 * (length inp div 16 + 1)" by presburger
  then have "\<not> length o1 + length o2 \<le> length inp" using o(4) by simp
  moreover have "add_aad pad cx = Inr cx" using ctx(2) by (simp add: add_aad_def)
  ultimately show ?thesis
    using key ctx o buf by (simp add: aes_encrypt_def store_at_def)
qed

text \<open>A library that pads a block of zero bytes.\<close>

definition padding_lib :: libcrypto where
  "padding_lib = demo_lib\<lparr>lc_update := \<lambda>cx p. Some (take (16 * (length p div 16)) p),
     lc_final := \<lambda>cx p. Some (replicate 16 0)\<rparr>"

theorem padded_encryption_overruns_witness:
  "\<exists>props. aes_encrypt padding_lib \<lparr>has_key = True, key_size = 128, aes_bytes = replicate 32 7\<rparr>
     props None (Some (replicate 16 0)) 16 (replicate 3 1) (Some (replicate 3 9)) 3 = Inl Fault"
proof -
  let ?k = "\<lparr>has_key = True, key_size = 128, aes_bytes = replicate 32 7\<rparr> :: aes_key"
  let ?v = "wide_name [67, 104, 97, 105, 110, 105, 110, 103, 77, 111, 100, 101, 67, 66, 67]"
  have "chars [67, 104, 97, 105, 110, 105, 110, 103, 77, 111, 100, 101, 67, 66, 67] = ''ChainingModeCBC''"
    by code_simp
  then have name: "winstr_to_str (Some (units_of_bytes ?v)) = Inr (Some ''ChainingModeCBC'')"
    unfolding units_of_wide_name by (intro winstr_to_str_name) simp_all
  have ctx: "create_aes_ctx ?k [(''ChainingMode'', ?v)] None (Some (replicate 16 0)) 16 True = Inr (Some \<lparr>cx_mode = CBC,
      cx_enc = True, cx_key = replicate 16 7, cx_iv = Some (replicate 16 0), cx_aad = [], cx_tag = [], cx_padding = True\<rparr>)"
    using name by (simp add: create_aes_ctx_def aes_ctx_params_def choose_iv_def read_iv_def mode_by_name_def
        struct_at_in_range)
  have pad: "\<exists>o1 o2. lc_update padding_lib cx p = Some o1 \<and> lc_final padding_lib cx p = Some o2 \<and>
      length o1 \<le> length p \<and> length o1 + length o2 = 16 * (length p div 16 + 1)" for cx p
    by (simp add: padding_lib_def min_def) presburger
  have "aes_encrypt padding_lib ?k [(''ChainingMode'', ?v)] None (Some (replicate 16 0)) 16 (replicate 3 1) None 0
      = Inr (STATUS_SUCCESS, None, length (replicate 3 (1 :: byte)), None) \<and>
    aes_encrypt padding_lib ?k [(''ChainingMode'', ?v)] None (Some (replicate 16 0)) 16 (replicate 3 1) (Some (replicate 3 9))
      (length (replicate 3 (9 :: byte))) = Inl Fault"
    by (rule padded_encryption_overruns[OF pad _ ctx]) simp_all
  then show ?thesis by (intro exI[of _ "[(''ChainingMode'', ?v)]"]) simp
qed

end
