(* ===== verification/Bcrypt.thy ===== *)
theory Bcrypt
  imports Bcrypt_Kdf Bcrypt_Ecc Bcrypt_Aes
begin

text \<open>
  The API of \<open>winapi/bcrypt/bcrypt.c\<close>: algorithm providers, keys and secrets behind handles, their
  property lists, and every operation on them.  The table of functions of an algorithm is a case
  distinction on it; an entry that is NULL is refused.  Handles are numbers; one that is not (or no
  longer) valid is a fault.  Closing a provider frees its properties but leaves the list in place,
  so the model keeps the provider with a mark.  Allocations succeed.
\<close>

section \<open>State\<close>

datatype algo = AES | ECDH_P256 | ECDSA_P256

definition algo_name :: "algo \<Rightarrow> string" where
  "algo_name a = (case a of AES \<Rightarrow> ''AES'' | ECDH_P256 \<Rightarrow> ''ECDH_P256'' | ECDSA_P256 \<Rightarrow> ''ECDSA_P256'')"

definition bcrypt_algos :: "algo list" where
  "bcrypt_algos = [AES, ECDH_P256, ECDSA_P256]"

text \<open>\<open>KeyLengths\<close> and \<open>AuthTagLength\<close>: least, greatest, step.\<close>

definition key_lengths :: "algo \<Rightarrow> u32 list" where
  "key_lengths a = (if a = AES then [16, 32, 8] else [32, 32, 0])"

definition tag_lengths :: "algo \<Rightarrow> u32 list" where
  "tag_lengths a = (if a = AES then [12, 16, 1] else [0, 0, 0])"

definition ecc_of :: "algo \<Rightarrow> ecc_algorithm" where
  "ecc_of a = (if a = ECDH_P256 then bcrypt_algo_ecdh_p256 else bcrypt_algo_ecdsa_p256)"

datatype key_data = AesKey aes_key | P256Key p256_key

record algo_wrap =
  wr_algo :: algo
  wr_props :: bcrypt_props
  wr_closed :: bool

record bcrypt_key =
  bk_algo :: algo
  bk_wrap :: nat
  bk_props :: bcrypt_props
  bk_data :: key_data

record bcrypt_secret =
  bs_props :: bcrypt_props
  bs_data :: "byte list"

record bcrypt =
  wraps :: "nat \<Rightarrow> algo_wrap option"
  bkeys :: "nat \<Rightarrow> bcrypt_key option"
  secrets :: "nat \<Rightarrow> bcrypt_secret option"
  next_obj :: nat

definition bcrypt_init :: bcrypt where
  "bcrypt_init = \<lparr>wraps = \<lambda>_. None, bkeys = \<lambda>_. None, secrets = \<lambda>_. None, next_obj = 1\<rparr>"

definition deref :: "'a option \<Rightarrow> 'a result" where
  "deref x = (case x of None \<Rightarrow> Inl Fault | Some v \<Rightarrow> Inr v)"

lemma deref_eq_Inr [simp]: "deref x = Inr v \<longleftrightarrow> x = Some v"
  by (cases x) (auto simp: deref_def)

section \<open>Properties of objects\<close>

datatype bcrypt_obj = ProvObj nat | KeyObj nat | SecretObj nat

definition obj_props :: "bcrypt_obj \<Rightarrow> bcrypt \<Rightarrow> bcrypt_props result" where
  "obj_props obj st =
     (case obj of
        ProvObj h \<Rightarrow> res_bind (deref (wraps st h)) (\<lambda>w. if wr_closed w then Inl Fault else Inr (wr_props w))
      | KeyObj h \<Rightarrow> res_bind (deref (bkeys st h)) (\<lambda>k. Inr (bk_props k))
      | SecretObj h \<Rightarrow> res_bind (deref (secrets st h)) (\<lambda>s. Inr (bs_props s)))"

definition put_props :: "bcrypt_obj \<Rightarrow> bcrypt_props \<Rightarrow> bcrypt \<Rightarrow> bcrypt" where
  "put_props obj ps st =
     (case obj of
        ProvObj h \<Rightarrow> st\<lparr>wraps := (wraps st)(h := map_option (\<lambda>w. w\<lparr>wr_props := ps\<rparr>) (wraps st h))\<rparr>
      | KeyObj h \<Rightarrow> st\<lparr>bkeys := (bkeys st)(h := map_option (\<lambda>k. k\<lparr>bk_props := ps\<rparr>) (bkeys st h))\<rparr>
      | SecretObj h \<Rightarrow> st\<lparr>secrets := (secrets st)(h := map_option (\<lambda>s. s\<lparr>bs_props := ps\<rparr>) (secrets st h))\<rparr>)"

definition c_name :: "u16 list \<Rightarrow> string result" where
  "c_name name = res_bind (winstr_to_str (Some name)) deref"

definition BCryptGetProperty ::
    "bcrypt_obj \<Rightarrow> u16 list \<Rightarrow> byte list option \<Rightarrow> nat \<Rightarrow> bcrypt \<Rightarrow>
     (u32 \<times> byte list option \<times> nat option) result" where
  "BCryptGetProperty obj name out out_size st =
     res_bind (c_name name) (\<lambda>cname.
     res_bind (obj_props obj st) (\<lambda>ps.
     case bcrypt_find_obj_prop ps cname of
       None \<Rightarrow> Inr (WINERR_SET_CODE, out, None)
     | Some v \<Rightarrow>
         (case out of
            None \<Rightarrow> Inr (STATUS_SUCCESS, None, Some (length v))
          | Some buf \<Rightarrow>
              let n = min out_size (length v) in
              res_bind (store_at buf 0 (take n v)) (\<lambda>buf'. Inr (STATUS_SUCCESS, Some buf', Some n)))))"

definition BCryptSetProperty :: "bcrypt_obj \<Rightarrow> u16 list \<Rightarrow> byte list \<Rightarrow> bcrypt \<Rightarrow> (u32 \<times> bcrypt) result" where
  "BCryptSetProperty obj name v st =
     res_bind (c_name name) (\<lambda>cname.
     res_bind (obj_props obj st) (\<lambda>ps.
     Inr (STATUS_SUCCESS,
       put_props obj (case bcrypt_find_obj_prop ps cname of
           None \<Rightarrow> (cname, v) # ps
         | Some _ \<Rightarrow> set_prop ps cname v) st)))"

section \<open>Providers\<close>

definition find_algo :: "string \<Rightarrow> algo option" where
  "find_algo name = find (\<lambda>a. algo_name a = name) bcrypt_algos"

definition default_props :: "algo \<Rightarrow> u16 list \<Rightarrow> nat \<Rightarrow> bcrypt_props" where
  "default_props a alg_id n =
     [(''AuthTagLength'', concat (map (word_le 4) (tag_lengths a))),
      (''KeyLengths'', concat (map (word_le 4) (key_lengths a))),
      (''AlgorithmName'', unit_bytes (take (n + 1) alg_id))]"

definition BCryptOpenAlgorithmProvider :: "u16 list \<Rightarrow> bcrypt \<Rightarrow> (u32 \<times> nat option \<times> bcrypt) result" where
  "BCryptOpenAlgorithmProvider alg_id st =
     res_bind (c_name alg_id) (\<lambda>name.
     case find_algo name of
       None \<Rightarrow> Inr (WINERR_SET_CODE, None, st)
     | Some a \<Rightarrow>
         res_bind (winstr_len (Some alg_id)) (\<lambda>n.
         let h = next_obj st in
         Inr (STATUS_SUCCESS, Some h,
           st\<lparr>wraps := (wraps st)(h \<mapsto> \<lparr>wr_algo = a, wr_props = default_props a alg_id n, wr_closed = False\<rparr>),
              next_obj := Suc h\<rparr>)))"

definition BCryptCloseAlgorithmProvider :: "nat \<Rightarrow> bcrypt \<Rightarrow> (u32 \<times> bcrypt) result" where
  "BCryptCloseAlgorithmProvider h st =
     res_bind (deref (wraps st h)) (\<lambda>w.
     if wr_closed w then Inl Fault
     else Inr (STATUS_SUCCESS, st\<lparr>wraps := (wraps st)(h \<mapsto> w\<lparr>wr_closed := True\<rparr>)\<rparr>))"

section \<open>Keys\<close>

text \<open>\<open>fresh\<close> is the memory the key is allocated in.\<close>

definition create_key_data :: "algo \<Rightarrow> byte list \<Rightarrow> key_data" where
  "create_key_data a fresh =
     (if a = AES then AesKey (aes_create_key fresh) else P256Key (p256_create_key fresh))"

definition create_key :: "nat \<Rightarrow> byte list \<Rightarrow> bcrypt \<Rightarrow> bcrypt_key result" where
  "create_key h fresh st =
     res_bind (deref (wraps st h)) (\<lambda>w.
     Inr \<lparr>bk_algo = wr_algo w, bk_wrap = h, bk_props = [], bk_data = create_key_data (wr_algo w) fresh\<rparr>)"

text \<open>A new key is kept when the operation that fills it succeeds, and destroyed otherwise.\<close>

definition keep_key :: "bcrypt_key \<Rightarrow> u32 \<times> key_data \<Rightarrow> bcrypt \<Rightarrow> u32 \<times> nat option \<times> bcrypt" where
  "keep_key k r st =
     (if fst r \<noteq> STATUS_SUCCESS then (fst r, None, st)
      else let h = next_obj st in
        (STATUS_SUCCESS, Some h, st\<lparr>bkeys := (bkeys st)(h \<mapsto> k\<lparr>bk_data := snd r\<rparr>), next_obj := Suc h\<rparr>))"

definition BCryptGenerateSymmetricKey ::
    "nat \<Rightarrow> byte list \<Rightarrow> byte list \<Rightarrow> bcrypt \<Rightarrow> (u32 \<times> nat option \<times> bcrypt) result" where
  "BCryptGenerateSymmetricKey algo fresh secret st =
     res_bind (deref (wraps st algo)) (\<lambda>w.
     if wr_algo w \<noteq> AES then Inr (WINERR_SET_CODE, None, st)
     else res_bind (create_key algo fresh st) (\<lambda>k.
       case bk_data k of
         AesKey a \<Rightarrow> Inr (keep_key k (apsnd AesKey (aes_generate_sym_key a secret)) st)
       | P256Key _ \<Rightarrow> Inl Fault))"

definition BCryptGenerateKeyPair ::
    "libcrypto \<Rightarrow> nat \<Rightarrow> nat \<Rightarrow> byte list \<Rightarrow> nat \<Rightarrow> bcrypt \<Rightarrow> (u32 \<times> nat option \<times> bcrypt) result" where
  "BCryptGenerateKeyPair lc rnd algo fresh key_len st =
     res_bind (deref (wraps st algo)) (\<lambda>w.
     if wr_algo w = AES then Inr (WINERR_SET_CODE, None, st)
     else res_bind (create_key algo fresh st) (\<lambda>k.
       case bk_data k of
         AesKey _ \<Rightarrow> Inl Fault
       | P256Key p \<Rightarrow>
           res_bind (p256_generate_key_pair lc rnd p key_len) (\<lambda>r. Inr (keep_key k (apsnd P256Key r) st))))"

definition BCryptFinalizeKeyPair :: "nat \<Rightarrow> bcrypt \<Rightarrow> u32 result" where
  "BCryptFinalizeKeyPair key st = res_bind (deref (bkeys st key)) (\<lambda>_. Inr STATUS_SUCCESS)"

text \<open>\<open>BCryptImportKey\<close> and \<open>BCryptImportKeyPair\<close> have the same body.\<close>

definition BCryptImportKey ::
    "libcrypto \<Rightarrow> nat \<Rightarrow> bool \<Rightarrow> byte list \<Rightarrow> u16 list \<Rightarrow> byte list \<Rightarrow> bcrypt \<Rightarrow> (u32 \<times> nat option \<times> bcrypt) result" where
  "BCryptImportKey lc algo encrypted fresh blob_type blob st =
     (if encrypted then Inr (WINERR_SET_CODE, None, st)
      else
        res_bind (create_key algo fresh st) (\<lambda>k.
        res_bind (c_name blob_type) (\<lambda>ty.
        case bk_data k of
          AesKey a \<Rightarrow> Inr (keep_key k (apsnd AesKey (aes_import_key a ty blob)) st)
        | P256Key p \<Rightarrow>
            res_bind (p256_import_key lc (ecc_of (bk_algo k)) p ty blob) (\<lambda>r.
            Inr (keep_key k (apsnd P256Key r) st)))))"

definition BCryptExportKey ::
    "nat \<Rightarrow> bool \<Rightarrow> u16 list \<Rightarrow> byte list option \<Rightarrow> nat \<Rightarrow> bcrypt \<Rightarrow>
     (u32 \<times> byte list option \<times> nat option) result" where
  "BCryptExportKey key encrypted blob_type out out_size st =
     res_bind (deref (bkeys st key)) (\<lambda>k.
     if encrypted then Inr (WINERR_SET_CODE, out, None)
     else
       res_bind (c_name blob_type) (\<lambda>ty.
       res_bind (case bk_data k of
           AesKey a \<Rightarrow> aes_export_key a ty out out_size
         | P256Key p \<Rightarrow> p256_export_key (ecc_of (bk_algo k)) p ty out out_size) (\<lambda>(status, out', n).
       Inr (status, out', if status = STATUS_SUCCESS then Some n else None))))"

definition BCryptDestroyKey :: "nat \<Rightarrow> bcrypt \<Rightarrow> (u32 \<times> bcrypt) result" where
  "BCryptDestroyKey key st =
     res_bind (deref (bkeys st key)) (\<lambda>_. Inr (STATUS_SUCCESS, st\<lparr>bkeys := (bkeys st)(key := None)\<rparr>))"

section \<open>Encryption, signatures, secrets\<close>

text \<open>The chaining mode is looked up in the provider, not in the key.\<close>

definition BCryptEncrypt ::
    "libcrypto \<Rightarrow> nat \<Rightarrow> byte list \<Rightarrow> auth_info option \<Rightarrow> byte list option \<Rightarrow> nat \<Rightarrow> byte list option \<Rightarrow> nat \<Rightarrow>
     u32 \<Rightarrow> bcrypt \<Rightarrow> (u32 \<times> byte list option \<times> nat option \<times> auth_info option) result" where
  "BCryptEncrypt lc key inp pad_info iv iv_size out out_size flags st =
     res_bind (deref (bkeys st key)) (\<lambda>k.
     case bk_data k of
       P256Key _ \<Rightarrow> Inr (WINERR_SET_CODE, out, None, pad_info)
     | AesKey a \<Rightarrow>
         if flags \<noteq> 0 then Inr (WINERR_SET_CODE, out, None, pad_info)
         else
           res_bind (obj_props (ProvObj (bk_wrap k)) st) (\<lambda>ps.
           res_bind (aes_encrypt lc a ps pad_info iv iv_size inp out out_size) (\<lambda>(status, out', n, pad').
           Inr (status, out', if status = STATUS_SUCCESS then Some n else None, pad'))))"

definition BCryptDecrypt ::
    "libcrypto \<Rightarrow> nat \<Rightarrow> byte list \<Rightarrow> auth_info option \<Rightarrow> byte list option \<Rightarrow> nat \<Rightarrow> byte list option \<Rightarrow> nat \<Rightarrow>
     u32 \<Rightarrow> bcrypt \<Rightarrow> (u32 \<times> byte list option \<times> nat option \<times> auth_info option) result" where
  "BCryptDecrypt lc key inp pad_info iv iv_size out out_size flags st =
     res_bind (deref (bkeys st key)) (\<lambda>k.
     case bk_data k of
       P256Key _ \<Rightarrow> Inr (WINERR_SET_CODE, out, None, pad_info)
     | AesKey a \<Rightarrow>
         if flags \<noteq> 0 then Inr (WINERR_SET_CODE, out, None, pad_info)
         else
           res_bind (obj_props (ProvObj (bk_wrap k)) st) (\<lambda>ps.
           res_bind (aes_decrypt lc a ps pad_info iv iv_size inp out out_size) (\<lambda>(status, out', n, pad').
           Inr (status, out', if status = STATUS_SUCCESS then Some n else None, pad'))))"

definition BCryptSignHash ::
    "libcrypto \<Rightarrow> nat \<Rightarrow> nat \<Rightarrow> byte list \<Rightarrow> byte list option \<Rightarrow> nat \<Rightarrow> u32 \<Rightarrow> bcrypt \<Rightarrow>
     (u32 \<times> byte list option \<times> nat option) result" where
  "BCryptSignHash lc nonce key hash sig buf_size flags st =
     res_bind (deref (bkeys st key)) (\<lambda>k.
     if bk_algo k \<noteq> ECDSA_P256 \<or> flags \<noteq> 0 then Inr (WINERR_SET_CODE, sig, None)
     else case bk_data k of
         AesKey _ \<Rightarrow> Inl Fault
       | P256Key p \<Rightarrow>
           res_bind (p256_ecdsa_sign_hash lc nonce p hash sig buf_size) (\<lambda>(status, sig', n).
           Inr (status, sig', if status = STATUS_SUCCESS then Some n else None)))"

definition BCryptVerifySignature ::
    "libcrypto \<Rightarrow> nat \<Rightarrow> byte list \<Rightarrow> byte list \<Rightarrow> u32 \<Rightarrow> bcrypt \<Rightarrow> u32 result" where
  "BCryptVerifySignature lc key hash sig flags st =
     res_bind (deref (bkeys st key)) (\<lambda>k.
     if bk_algo k \<noteq> ECDSA_P256 \<or> flags \<noteq> 0 then Inr WINERR_SET_CODE
     else case bk_data k of
         AesKey _ \<Rightarrow> Inl Fault
       | P256Key p \<Rightarrow> p256_ecdsa_verify_hash lc p hash sig)"

definition BCryptSecretAgreement ::
    "libcrypto \<Rightarrow> nat \<Rightarrow> nat \<Rightarrow> bcrypt \<Rightarrow> (u32 \<times> nat option \<times> bcrypt) result" where
  "BCryptSecretAgreement lc priv_key pub_key st =
     res_bind (deref (bkeys st priv_key)) (\<lambda>a.
     res_bind (deref (bkeys st pub_key)) (\<lambda>b.
     if bk_algo b \<noteq> bk_algo a \<or> bk_algo b \<noteq> ECDH_P256 then Inr (WINERR_SET_CODE, None, st)
     else case (bk_data b, bk_data a) of
       (P256Key p, P256Key d) \<Rightarrow>
         res_bind (p256_ecdh_exchange_secret lc p d) (\<lambda>(status, data).
         if status \<noteq> STATUS_SUCCESS then Inr (status, None, st)
         else
           let h = next_obj st in
           Inr (STATUS_SUCCESS, Some h,
             st\<lparr>secrets := (secrets st)(h \<mapsto> \<lparr>bs_props = [], bs_data = the data\<rparr>), next_obj := Suc h\<rparr>))
     | _ \<Rightarrow> Inl Fault))"

definition BCryptDestroySecret :: "nat \<Rightarrow> bcrypt \<Rightarrow> (u32 \<times> bcrypt) result" where
  "BCryptDestroySecret h st =
     res_bind (deref (secrets st h)) (\<lambda>_. Inr (STATUS_SUCCESS, st\<lparr>secrets := (secrets st)(h := None)\<rparr>))"

section \<open>Properties\<close>

text \<open>What the data of a key looks like for its algorithm.\<close>

fun typed_data :: "algo \<Rightarrow> key_data \<Rightarrow> bool" where
  "typed_data a (AesKey k) \<longleftrightarrow> a = AES \<and> length (aes_bytes k) = 32 \<and>
     (has_key k \<longrightarrow> key_size k = 128 \<or> key_size k = 192 \<or> key_size k = 256)"
| "typed_data a (P256Key k) \<longleftrightarrow> a \<noteq> AES \<and> length (pub_x k) = 32 \<and> length (pub_y k) = 32 \<and> length (priv_d k) = 32 \<and>
     (has_public k \<longrightarrow> ec_key k \<noteq> None) \<and>
     (has_private k \<longrightarrow> has_public k \<and> (\<exists>p d. ec_key k = Some (p, Some d)))"

definition bcrypt_typed :: "bcrypt \<Rightarrow> bool" where
  "bcrypt_typed st \<longleftrightarrow>
     (\<forall>h k. bkeys st h = Some k \<longrightarrow> typed_data (bk_algo k) (bk_data k) \<and>
        (\<exists>w. wraps st (bk_wrap k) = Some w \<and> wr_algo w = bk_algo k)) \<and>
     (\<forall>h s. secrets st h = Some s \<longrightarrow> length (bs_data s) = 32) \<and>
     (\<forall>h. next_obj st \<le> h \<longrightarrow> wraps st h = None)"

datatype bcrypt_op =
    OpenProvider "u16 list"
  | CloseProvider nat
  | SetProperty bcrypt_obj "u16 list" "byte list"
  | GenSymmetric nat "byte list" "byte list"
  | GenPair nat nat "byte list" nat
  | ImportKey nat bool "byte list" "u16 list" "byte list"
  | DestroyKey nat
  | AgreeSecret nat nat
  | DestroySecret nat

fun bcrypt_step :: "libcrypto \<Rightarrow> bcrypt_op \<Rightarrow> bcrypt \<Rightarrow> bcrypt result" where
  "bcrypt_step lc (OpenProvider n) st = res_bind (BCryptOpenAlgorithmProvider n st) (\<lambda>(_, _, s). Inr s)"
| "bcrypt_step lc (CloseProvider h) st = res_bind (BCryptCloseAlgorithmProvider h st) (\<lambda>(_, s). Inr s)"
| "bcrypt_step lc (SetProperty obj n v) st = res_bind (BCryptSetProperty obj n v st) (\<lambda>(_, s). Inr s)"
| "bcrypt_step lc (GenSymmetric h fresh secret) st =
     res_bind (BCryptGenerateSymmetricKey h fresh secret st) (\<lambda>(_, _, s). Inr s)"
| "bcrypt_step lc (GenPair rnd h fresh len) st =
     res_bind (BCryptGenerateKeyPair lc rnd h fresh len st) (\<lambda>(_, _, s). Inr s)"
| "bcrypt_step lc (ImportKey h enc fresh ty blob) st =
     res_bind (BCryptImportKey lc h enc fresh ty blob st) (\<lambda>(_, _, s). Inr s)"
| "bcrypt_step lc (DestroyKey h) st = res_bind (BCryptDestroyKey h st) (\<lambda>(_, s). Inr s)"
| "bcrypt_step lc (AgreeSecret a b) st = res_bind (BCryptSecretAgreement lc a b st) (\<lambda>(_, _, s). Inr s)"
| "bcrypt_step lc (DestroySecret h) st = res_bind (BCryptDestroySecret h st) (\<lambda>(_, s). Inr s)"

fun bcrypt_run :: "libcrypto \<Rightarrow> bcrypt_op list \<Rightarrow> bcrypt \<Rightarrow> bcrypt result" where
  "bcrypt_run lc [] st = Inr st"
| "bcrypt_run lc (op # ops) st = res_bind (bcrypt_step lc op st) (bcrypt_run lc ops)"

text \<open>An allocation gives at least the 96 bytes of the key structures.\<close>

fun fresh_ok :: "bcrypt_op \<Rightarrow> bool" where
  "fresh_ok (GenSymmetric h fresh secret) = (96 \<le> length fresh)"
| "fresh_ok (GenPair rnd h fresh len) = (96 \<le> length fresh)"
| "fresh_ok (ImportKey h enc fresh ty blob) = (96 \<le> length fresh)"
| "fresh_ok _ = True"

lemma typed_create: "96 \<le> length fresh \<Longrightarrow> typed_data a (create_key_data a fresh)"
  by (simp add: create_key_data_def aes_create_key_def p256_create_key_def)

lemma typed_load_key:
  "typed_data a (AesKey k) \<Longrightarrow> aes_key_length (length s) \<Longrightarrow> typed_data a (AesKey (load_key s k))"
  by (auto simp: load_key_def aes_key_length_def)

lemma typed_generate_sym:
  assumes "typed_data a (AesKey k)" and "aes_generate_sym_key k s = (STATUS_SUCCESS, k')"
  shows "typed_data a (AesKey k')"
proof -
  have "aes_key_length (length s)" and "k' = load_key s k"
    using assms(2) by (auto simp: aes_generate_sym_key_def split: if_splits)
  then show ?thesis using typed_load_key[OF assms(1)] by simp
qed

lemma typed_import_aes:
  assumes "typed_data a (AesKey k)" and "aes_import_key k ty blob = (STATUS_SUCCESS, k')"
  shows "typed_data a (AesKey k')"
proof -
  let ?s = "take (unat (fld blob 8 4 :: u32)) (drop 12 blob)"
  have "aes_key_length (length ?s)" and "k' = load_key ?s k"
    using assms(2) by (auto simp: aes_import_key_def Let_def split: if_splits)
  then show ?thesis using typed_load_key[OF assms(1), of ?s] by (simp only:)
qed

lemma typed_generate_pair:
  assumes "typed_data a (P256Key k)" and "p256_generate_key_pair lc d k len = Inr (STATUS_SUCCESS, k')"
  shows "typed_data a (P256Key k')"
  using assms
  by (auto simp: p256_generate_key_pair_def res_bind_eq_Inr store_at_eq_Inr split: if_splits)

lemma BN_bn2binpad_length: "BN_bn2binpad n k = Some bs \<Longrightarrow> length bs = k"
  by (auto simp: BN_bn2binpad_def split: if_splits)

lemma typed_import_point:
  assumes "typed_data a (P256Key k)" and "import_point lc k p d = Inr (STATUS_SUCCESS, k')"
  shows "typed_data a (P256Key k')"
  using assms
  by (auto simp: import_point_def res_bind_eq_Inr P256_PARAM_SIZE_def split: if_splits option.splits
      dest!: BN_bn2binpad_length)

lemma typed_import_ecc:
  assumes "typed_data a (P256Key k)" and "p256_import_key lc alg k ty blob = Inr (STATUS_SUCCESS, k')"
  shows "typed_data a (P256Key k')"
proof -
  obtain p d where "import_point lc k p d = Inr (STATUS_SUCCESS, k')"
    using assms(2) by (auto simp: p256_import_key_def Let_def res_bind_eq_Inr split: if_splits)
  then show ?thesis by (rule typed_import_point[OF assms(1)])
qed

lemma typed_keep_key:
  assumes "bcrypt_typed st" and "wraps st (bk_wrap k) = Some w" and "wr_algo w = bk_algo k"
    and "fst r = STATUS_SUCCESS \<longrightarrow> typed_data (bk_algo k) (snd r)"
  shows "bcrypt_typed (snd (snd (keep_key k r st)))"
  using assms by (auto simp: bcrypt_typed_def keep_key_def Let_def)

lemma create_keyE:
  assumes "create_key h fresh st = Inr k" and "96 \<le> length fresh"
  shows "\<exists>w. wraps st (bk_wrap k) = Some w \<and> wr_algo w = bk_algo k" and "typed_data (bk_algo k) (bk_data k)"
  using assms by (auto simp: create_key_def res_bind_eq_Inr typed_create)

lemma typed_put_props: "bcrypt_typed st \<Longrightarrow> bcrypt_typed (put_props obj ps st)"
  by (cases obj) (fastforce simp: bcrypt_typed_def put_props_def)+

lemma typed_open:
  assumes "bcrypt_typed st" and "BCryptOpenAlgorithmProvider n st = Inr (r, h, st')"
  shows "bcrypt_typed st'"
proof -
  have fresh: "wraps st (next_obj st) = None" using assms(1) by (simp add: bcrypt_typed_def)
  then show ?thesis
    using assms
    by (fastforce simp: BCryptOpenAlgorithmProvider_def res_bind_eq_Inr bcrypt_typed_def Let_def split: option.splits)
qed

lemma typed_generate_symmetric:
  assumes "bcrypt_typed st" and "96 \<le> length fresh"
    and "BCryptGenerateSymmetricKey h fresh s st = Inr (r, i, st')"
  shows "bcrypt_typed st'"
proof -
  consider "st' = st" | k a where "create_key h fresh st = Inr k" "bk_data k = AesKey a"
      "keep_key k (apsnd AesKey (aes_generate_sym_key a s)) st = (r, i, st')"
  proof (cases "st' = st")
    case False
    then obtain k where k: "create_key h fresh st = Inr k" and c: "(case bk_data k of AesKey a \<Rightarrow> Inr (keep_key k (apsnd AesKey (aes_generate_sym_key a s)) st)
       | P256Key _ \<Rightarrow> Inl Fault) = Inr (r, i, st')"
      using assms(3) by (auto simp: BCryptGenerateSymmetricKey_def res_bind_eq_Inr split: if_splits)
    then show ?thesis using that by (cases "bk_data k") (auto simp: res_bind_eq_Inr)
  qed (use that in simp)
  then show ?thesis
  proof cases
    case 1
    with assms show ?thesis by simp
  next
    case 2
    have "fst (aes_generate_sym_key a s) = STATUS_SUCCESS \<longrightarrow>
        typed_data (bk_algo k) (AesKey (snd (aes_generate_sym_key a s)))"
      using typed_generate_sym create_keyE(2)[OF 2(1) assms(2)] 2(2) by (metis prod.collapse)
    then show ?thesis
      using typed_keep_key[OF assms(1), of k] create_keyE(1)[OF 2(1) assms(2)] 2(3)
      by (metis fst_apsnd snd_apsnd snd_conv)
  qed
qed

lemma typed_generate_key_pair:
  assumes "bcrypt_typed st" and "96 \<le> length fresh"
    and "BCryptGenerateKeyPair lc rnd h fresh len st = Inr (r, i, st')"
  shows "bcrypt_typed st'"
proof -
  consider "st' = st" | k p q where "create_key h fresh st = Inr k" "bk_data k = P256Key p"
      "p256_generate_key_pair lc rnd p len = Inr q" "keep_key k (apsnd P256Key q) st = (r, i, st')"
  proof (cases "st' = st")
    case False
    then obtain k where k: "create_key h fresh st = Inr k" and c: "(case bk_data k of AesKey _ \<Rightarrow> Inl Fault
       | P256Key p \<Rightarrow> res_bind (p256_generate_key_pair lc rnd p len) (\<lambda>r. Inr (keep_key k (apsnd P256Key r) st)))
         = Inr (r, i, st')"
      using assms(3) by (auto simp: BCryptGenerateKeyPair_def res_bind_eq_Inr split: if_splits)
    then show ?thesis using that by (cases "bk_data k") (auto simp: res_bind_eq_Inr)
  qed (use that in simp)
  then show ?thesis
  proof cases
    case 1
    with assms show ?thesis by simp
  next
    case 2
    have "fst q = STATUS_SUCCESS \<longrightarrow> typed_data (bk_algo k) (P256Key (snd q))"
      using typed_generate_pair create_keyE(2)[OF 2(1) assms(2)] 2(2,3) by (metis prod.collapse)
    then show ?thesis
      using typed_keep_key[OF assms(1), of k] create_keyE(1)[OF 2(1) assms(2)] 2(4)
      by (metis fst_apsnd snd_apsnd snd_conv)
  qed
qed

lemma typed_import:
  assumes "bcrypt_typed st" and "96 \<le> length fresh"
    and "BCryptImportKey lc h enc fresh ty blob st = Inr (r, i, st')"
  shows "bcrypt_typed st'"
proof -
  consider "st' = st"
    | k a n where "create_key h fresh st = Inr k" "bk_data k = AesKey a"
        "keep_key k (apsnd AesKey (aes_import_key a n blob)) st = (r, i, st')"
    | k p n q where "create_key h fresh st = Inr k" "bk_data k = P256Key p"
        "p256_import_key lc (ecc_of (bk_algo k)) p n blob = Inr q" "keep_key k (apsnd P256Key q) st = (r, i, st')"
  proof (cases enc)
    case True
    then show ?thesis using that assms(3) by (simp add: BCryptImportKey_def)
  next
    case False
    then obtain k n where k: "create_key h fresh st = Inr k" and c: "(case bk_data k of
          AesKey a \<Rightarrow> Inr (keep_key k (apsnd AesKey (aes_import_key a n blob)) st)
        | P256Key p \<Rightarrow> res_bind (p256_import_key lc (ecc_of (bk_algo k)) p n blob)
            (\<lambda>r. Inr (keep_key k (apsnd P256Key r) st))) = Inr (r, i, st')"
      using assms(3) by (auto simp: BCryptImportKey_def res_bind_eq_Inr)
    then show ?thesis using that by (cases "bk_data k") (auto simp: res_bind_eq_Inr)
  qed
  then show ?thesis
  proof cases
    case 1
    with assms show ?thesis by simp
  next
    case 2
    have "fst (aes_import_key a n blob) = STATUS_SUCCESS \<longrightarrow>
        typed_data (bk_algo k) (AesKey (snd (aes_import_key a n blob)))"
      using typed_import_aes create_keyE(2)[OF 2(1) assms(2)] 2(2) by (metis prod.collapse)
    then show ?thesis
      using typed_keep_key[OF assms(1), of k] create_keyE(1)[OF 2(1) assms(2)] 2(3)
      by (metis fst_apsnd snd_apsnd snd_conv)
  next
    case 3
    have "fst q = STATUS_SUCCESS \<longrightarrow> typed_data (bk_algo k) (P256Key (snd q))"
      using typed_import_ecc create_keyE(2)[OF 3(1) assms(2)] 3(2,3) by (metis prod.collapse)
    then show ?thesis
      using typed_keep_key[OF assms(1), of k] create_keyE(1)[OF 3(1) assms(2)] 3(4)
      by (metis fst_apsnd snd_apsnd snd_conv)
  qed
qed

lemma typed_agree:
  assumes "bcrypt_typed st" and "BCryptSecretAgreement lc a b st = Inr (r, i, st')"
  shows "bcrypt_typed st'"
  using assms
  by (auto simp: BCryptSecretAgreement_def res_bind_eq_Inr bcrypt_typed_def p256_ecdh_exchange_secret_def
      P256_PARAM_SIZE_def Let_def split: if_splits key_data.splits option.splits prod.splits)

lemma typed_step:
  assumes "bcrypt_typed st" and "fresh_ok op" and "bcrypt_step lc op st = Inr st'"
  shows "bcrypt_typed st'"
proof (cases op)
  case (CloseProvider h)
  with assms show ?thesis
    by (fastforce simp: BCryptCloseAlgorithmProvider_def res_bind_eq_Inr bcrypt_typed_def split: if_splits)
next
  case (SetProperty obj n v)
  with assms show ?thesis
    by (auto simp: BCryptSetProperty_def res_bind_eq_Inr intro: typed_put_props)
next
  case (DestroyKey h)
  with assms show ?thesis by (auto simp: BCryptDestroyKey_def res_bind_eq_Inr bcrypt_typed_def split: if_splits)
next
  case (DestroySecret h)
  with assms show ?thesis by (auto simp: BCryptDestroySecret_def res_bind_eq_Inr bcrypt_typed_def split: if_splits)
qed (use assms in \<open>auto simp: res_bind_eq_Inr intro: typed_open typed_generate_symmetric
      typed_generate_key_pair typed_import typed_agree\<close>)

lemma typed_init: "bcrypt_typed bcrypt_init"
  by (simp add: bcrypt_typed_def bcrypt_init_def)

lemma typed_run:
  "bcrypt_typed st \<Longrightarrow> \<forall>op \<in> set ops. fresh_ok op \<Longrightarrow> bcrypt_run lc ops st = Inr st' \<Longrightarrow> bcrypt_typed st'"
proof (induction ops arbitrary: st)
  case (Cons op ops)
  then show ?case using typed_step[of st op lc] by (auto simp: res_bind_eq_Inr)
qed simp


lemma aes_name: "winstr_to_str (Some [65, 69, 83, 0]) = Inr (Some ''AES'')"
proof -
  have "chars [65, 69, 83] = ''AES''" by code_simp
  then show ?thesis using winstr_to_str_name[of "[65, 69, 83]" "''AES''"] by simp
qed

lemma open_aes:
  "BCryptOpenAlgorithmProvider [65, 69, 83, 0] bcrypt_init = Inr (STATUS_SUCCESS, Some 1,
     \<lparr>wraps = [1 \<mapsto> \<lparr>wr_algo = AES, wr_props = default_props AES [65, 69, 83, 0] 3, wr_closed = False\<rparr>],
      bkeys = \<lambda>_. None, secrets = \<lambda>_. None, next_obj = 2\<rparr>)"
  using aes_name winstr_len_terminated[of "[65, 69, 83]" "[]"]
  by (simp add: BCryptOpenAlgorithmProvider_def c_name_def deref_def find_algo_def bcrypt_algos_def algo_name_def
      bcrypt_init_def Let_def numeral_3_eq_3)


text \<open>
  A key outlives its provider: after the provider is closed, the chaining mode of an encryption
  is looked up in properties that were freed.
\<close>

theorem encrypt_after_close_uses_freed:
  assumes "bkeys st key = Some k" and "bk_data k = AesKey a" and "BCryptCloseAlgorithmProvider (bk_wrap k) st = Inr (r, st')"
  shows "bkeys st' key = Some k \<and>
    BCryptEncrypt lc key inp pad_info iv iv_size out out_size 0 st' = Inl Fault \<and>
    BCryptDecrypt lc key inp pad_info iv iv_size out out_size 0 st' = Inl Fault"
  using assms
  by (auto simp: BCryptCloseAlgorithmProvider_def res_bind_eq_Inr BCryptEncrypt_def BCryptDecrypt_def obj_props_def
      deref_def split: if_splits)

theorem encrypt_after_close_uses_freed_witness:
  "\<exists>st st'. BCryptCloseAlgorithmProvider 1 st = Inr (STATUS_SUCCESS, st') \<and>
     BCryptEncrypt demo_lib 2 [1] None None 0 None 0 0 st' = Inl Fault"
proof -
  define st where "st = \<lparr>wraps = [1 \<mapsto> \<lparr>wr_algo = AES, wr_props = [], wr_closed = False\<rparr>],
    bkeys = [2 \<mapsto> \<lparr>bk_algo = AES, bk_wrap = 1, bk_props = [],
      bk_data = AesKey \<lparr>has_key = True, key_size = 128, aes_bytes = replicate 32 0\<rparr>\<rparr>],
    secrets = \<lambda>_. None, next_obj = 3\<rparr>"
  obtain st' where c: "BCryptCloseAlgorithmProvider 1 st = Inr (STATUS_SUCCESS, st')"
    by (simp add: st_def BCryptCloseAlgorithmProvider_def deref_def)
  have k: "bkeys st 2 = Some \<lparr>bk_algo = AES, bk_wrap = 1, bk_props = [],
      bk_data = AesKey \<lparr>has_key = True, key_size = 128, aes_bytes = replicate 32 0\<rparr>\<rparr>"
    by (simp add: st_def)
  have "BCryptEncrypt demo_lib 2 [1] None None 0 None 0 0 st' = Inl Fault"
    using encrypt_after_close_uses_freed[OF k, of _ STATUS_SUCCESS st'] c by simp
  with c show ?thesis by blast
qed

end
