(* ===== verification/Crypt_Api.thy ===== *)
theory Crypt_Api
  imports Libcrypto
begin

text \<open>
  The older cryptography API of \<open>winapi/crypt\<close>: keys with their cipher mode and IV (\<open>crypt.c\<close>,
  \<open>rsa_aes.c\<close>), message digests (\<open>evp_digest.c\<close>) and keyed digests (\<open>hmac.c\<close>).  OpenSSL is a
  parameter.  A digest context is the bytes that went into it.  The error code that
  \<open>GetLastError\<close> returns is not modelled, and allocations succeed.
\<close>

definition CALG_SHA1 :: u32 where "CALG_SHA1 = 0x8004"
definition CALG_SHA_256 :: u32 where "CALG_SHA_256 = 0x800c"
definition CALG_SHA_384 :: u32 where "CALG_SHA_384 = 0x800d"
definition CALG_SHA_512 :: u32 where "CALG_SHA_512 = 0x800e"
definition CALG_HMAC :: u32 where "CALG_HMAC = 0x8009"
definition HP_ALGID :: u32 where "HP_ALGID = 1"
definition HP_HASHVAL :: u32 where "HP_HASHVAL = 2"
definition HP_HASHSIZE :: u32 where "HP_HASHSIZE = 4"
definition HP_HMAC_INFO :: u32 where "HP_HMAC_INFO = 5"
definition PROV_RSA_AES :: u32 where "PROV_RSA_AES = 24"
definition CRYPT_MODE_CBC :: u32 where "CRYPT_MODE_CBC = 1"
definition CRYPT_MODE_ECB :: u32 where "CRYPT_MODE_ECB = 2"
definition KP_IV :: u32 where "KP_IV = 1"
definition KP_MODE :: u32 where "KP_MODE = 4"
definition KP_ALGID :: u32 where "KP_ALGID = 6"
definition type_PLAINTEXTKEYBLOB :: byte where "type_PLAINTEXTKEYBLOB = 8"

lemmas crypt_consts = CALG_SHA1_def CALG_SHA_256_def CALG_SHA_384_def CALG_SHA_512_def CALG_HMAC_def
  HP_ALGID_def HP_HASHVAL_def HP_HASHSIZE_def HP_HMAC_INFO_def

definition hash_of_calg :: "u32 \<Rightarrow> hash_alg option" where
  "hash_of_calg aid =
     (if aid = CALG_SHA1 then Some SHA1
      else if aid = CALG_SHA_256 then Some SHA256
      else if aid = CALG_SHA_384 then Some SHA384
      else if aid = CALG_SHA_512 then Some SHA512
      else None)"

fun calg_of :: "hash_alg \<Rightarrow> u32" where
  "calg_of SHA1 = CALG_SHA1"
| "calg_of SHA256 = CALG_SHA_256"
| "calg_of SHA384 = CALG_SHA_384"
| "calg_of SHA512 = CALG_SHA_512"

section \<open>Keys\<close>

record crypt_key =
  plain_data :: "byte list option"
  alg_id :: u32
  mode :: u32
  iv :: "byte list"
  iv_set :: bool

definition CryptAcquireContext :: "u32 \<Rightarrow> bool" where
  "CryptAcquireContext prov_type = (prov_type = PROV_RSA_AES)"

text \<open>\<open>rsa_aes_import_key\<close> accepts every blob and keeps nothing of it.\<close>

definition rsa_aes_import_key :: "byte list \<Rightarrow> bool" where
  "rsa_aes_import_key blob = True"

definition CryptImportKey :: "byte list \<Rightarrow> nat \<Rightarrow> bool \<Rightarrow> (bool \<times> crypt_key option) result" where
  "CryptImportKey data data_len encrypted =
     (if encrypted then Inr (False, None)
      else if data_len < 8 then Inr (False, None)
      else
        res_bind (struct_at data 0 8) (\<lambda>hdr.
        let key = \<lparr>plain_data = None, alg_id = fld hdr 4 4, mode = CRYPT_MODE_CBC, iv = replicate 16 0, iv_set = False\<rparr> in
        if hdr ! 0 = type_PLAINTEXTKEYBLOB then
          res_bind (struct_at data 8 4) (\<lambda>sz.
          let n = unat (le_word sz :: u32) in
          if data_len < 12 + n then Inr (False, None)
          else
            res_bind (struct_at data 12 n) (\<lambda>plain.
            if rsa_aes_import_key data then Inr (True, Some (key\<lparr>plain_data := Some plain\<rparr>))
            else Inr (False, None)))
        else if rsa_aes_import_key data then Inr (True, Some key) else Inr (False, None)))"

definition CryptSetKeyParam :: "crypt_key \<Rightarrow> u32 \<Rightarrow> byte list \<Rightarrow> (bool \<times> crypt_key) result" where
  "CryptSetKeyParam key param data =
     (if param = KP_IV then res_bind (struct_at data 0 16) (\<lambda>v. Inr (True, key\<lparr>iv := v, iv_set := True\<rparr>))
      else if param = KP_MODE then res_bind (struct_at data 0 4) (\<lambda>v. Inr (True, key\<lparr>mode := le_word v\<rparr>))
      else if param = KP_ALGID then res_bind (struct_at data 0 4) (\<lambda>v. Inr (True, key\<lparr>alg_id := le_word v\<rparr>))
      else Inr (True, key))"

definition get_aes_cipher :: "nat \<Rightarrow> u32 \<Rightarrow> chain_mode option" where
  "get_aes_cipher key_size m =
     (if key_size \<noteq> 16 \<and> key_size \<noteq> 24 \<and> key_size \<noteq> 32 then None
      else if m = CRYPT_MODE_CBC then Some CBC
      else if m = CRYPT_MODE_ECB then Some ECB
      else None)"

definition crypt_ctx :: "crypt_key \<Rightarrow> byte list \<Rightarrow> chain_mode \<Rightarrow> bool \<Rightarrow> bool \<Rightarrow> cipher_ctx" where
  "crypt_ctx key plain m enc final =
     \<lparr>cx_mode = m, cx_enc = enc, cx_key = plain, cx_iv = (if iv_set key then Some (iv key) else None),
      cx_aad = [], cx_tag = [], cx_padding = final\<rparr>"

text \<open>The output of one call, in a temporary buffer of \<open>cap\<close> bytes; \<open>None\<close> when the library fails.\<close>

definition run_cipher :: "libcrypto \<Rightarrow> cipher_ctx \<Rightarrow> byte list \<Rightarrow> bool \<Rightarrow> nat \<Rightarrow> byte list option result" where
  "run_cipher lc cx inp final cap =
     (case lc_update lc cx inp of
        None \<Rightarrow> Inr None
      | Some o1 \<Rightarrow>
          if cap < length o1 then Inl Fault
          else if \<not> final then Inr (Some o1)
          else case lc_final lc cx inp of
              None \<Rightarrow> Inr None
            | Some o2 \<Rightarrow> if cap < length o1 + length o2 then Inl Fault else Inr (Some (o1 @ o2)))"

text \<open>
  \<open>data\<close> is the buffer of the caller, \<open>data_len\<close> how much of it is input.  The result: success, the
  buffer, the length of the output, the key.
\<close>

definition CryptEncrypt ::
    "libcrypto \<Rightarrow> crypt_key \<Rightarrow> bool \<Rightarrow> byte list \<Rightarrow> nat \<Rightarrow> nat \<Rightarrow> (bool \<times> byte list \<times> nat \<times> crypt_key) result" where
  "CryptEncrypt lc key final data data_len buf_len =
     (case plain_data key of
        None \<Rightarrow> Inr (False, data, data_len, key)
      | Some plain \<Rightarrow>
          if plain = [] then Inr (False, data, data_len, key)
          else case get_aes_cipher (length plain) (mode key) of
            None \<Rightarrow> Inr (False, data, data_len, key)
          | Some m \<Rightarrow>
              res_bind (struct_at data 0 data_len) (\<lambda>inp.
              res_bind (run_cipher lc (crypt_ctx key plain m True final) inp final buf_len) (\<lambda>r.
              case r of
                None \<Rightarrow> Inr (False, data, data_len, key)
              | Some out \<Rightarrow>
                  if buf_len < length out then Inr (False, data, data_len, key)
                  else
                    res_bind (store_at data 0 out) (\<lambda>data'.
                    Inr (True, data', length out,
                      if iv_set key \<and> 16 \<le> length out then key\<lparr>iv := drop (length out - 16) out\<rparr> else key)))))"

definition CryptDecrypt ::
    "libcrypto \<Rightarrow> crypt_key \<Rightarrow> bool \<Rightarrow> byte list \<Rightarrow> nat \<Rightarrow> (bool \<times> byte list \<times> nat \<times> crypt_key) result" where
  "CryptDecrypt lc key final data data_len =
     (case plain_data key of
        None \<Rightarrow> Inr (False, data, data_len, key)
      | Some plain \<Rightarrow>
          if plain = [] then Inr (False, data, data_len, key)
          else case get_aes_cipher (length plain) (mode key) of
            None \<Rightarrow> Inr (False, data, data_len, key)
          | Some m \<Rightarrow>
              res_bind (struct_at data 0 data_len) (\<lambda>inp.
              res_bind (run_cipher lc (crypt_ctx key plain m False final) inp final data_len) (\<lambda>r.
              case r of
                None \<Rightarrow> Inr (False, data, data_len, key)
              | Some out \<Rightarrow>
                  res_bind (store_at data 0 out) (\<lambda>data'. Inr (True, data', length out, key)))))"

section \<open>Digests\<close>

record evp_md_hash =
  evp_md :: hash_alg
  evp_ctx :: "byte list"
  evp_completed :: bool

definition evp_md_create_hash :: "hash_alg \<Rightarrow> crypt_key option \<Rightarrow> evp_md_hash option" where
  "evp_md_create_hash md key =
     (if key \<noteq> None then None else Some \<lparr>evp_md = md, evp_ctx = [], evp_completed = False\<rparr>)"

definition evp_md_duplicate_hash :: "evp_md_hash \<Rightarrow> evp_md_hash" where
  "evp_md_duplicate_hash h = \<lparr>evp_md = evp_md h, evp_ctx = evp_ctx h, evp_completed = evp_completed h\<rparr>"

text \<open>A parameter of fixed bytes: stored when it fits, only its size for a query.\<close>

definition give_param :: "byte list \<Rightarrow> byte list option \<Rightarrow> nat \<Rightarrow> (bool \<times> byte list option \<times> nat) result" where
  "give_param v data data_size =
     (case data of
        None \<Rightarrow> Inr (True, None, length v)
      | Some buf \<Rightarrow>
          if length v \<le> data_size
          then res_bind (store_at buf 0 v) (\<lambda>buf'. Inr (True, Some buf', length v))
          else Inr (False, data, data_size))"

definition evp_md_get_hash_param ::
    "libcrypto \<Rightarrow> evp_md_hash \<Rightarrow> u32 \<Rightarrow> byte list option \<Rightarrow> nat \<Rightarrow>
     (bool \<times> byte list option \<times> nat \<times> evp_md_hash) result" where
  "evp_md_get_hash_param lc h param data data_size =
     (if param = HP_ALGID then
        res_bind (give_param (word_le 4 (calg_of (evp_md h))) data data_size) (\<lambda>(ok, d, n). Inr (ok, d, n, h))
      else if param = HP_HASHVAL then
        (if evp_completed h then Inr (False, data, data_size, h)
         else
           res_bind (give_param (lc_digest lc (evp_md h) (evp_ctx h)) data data_size) (\<lambda>(ok, d, n).
           Inr (ok, d, n, if ok \<and> data \<noteq> None then h\<lparr>evp_completed := True\<rparr> else h)))
      else if param = HP_HASHSIZE then
        res_bind (give_param (word_le 4 (word_of_nat (md_size (evp_md h)) :: u32)) data data_size) (\<lambda>(ok, d, n).
        Inr (ok, d, n, h))
      else Inr (False, data, data_size, h))"

definition evp_md_update_hash :: "evp_md_hash \<Rightarrow> byte list \<Rightarrow> bool \<times> evp_md_hash" where
  "evp_md_update_hash h data =
     (if evp_completed h then (False, h) else (True, h\<lparr>evp_ctx := evp_ctx h @ data\<rparr>))"

section \<open>Keyed digests\<close>

text \<open>\<open>HMAC_INFO\<close>, with the bytes behind its pointers.\<close>

record hmac_info =
  HashAlgid :: u32
  pbInnerString :: "byte list"
  pbOuterString :: "byte list"

record hmac_hash =
  hmac_ctx :: "(hash_alg \<times> byte list) option"
  has_algo :: bool
  is_completed :: bool
  is_dirty :: bool
  hash_algo :: u32
  hash_size :: nat
  key_data :: "byte list"
  inner_data :: "byte list"
  outer_data :: "byte list"
  inner_at :: u64
  outer_at :: u64

text \<open>
  \<open>hash_algo\<close> and \<open>hash_size\<close> are read only once an algorithm is set: until then they are what the
  memory held.  \<open>inner_at\<close> and \<open>outer_at\<close> are the addresses \<open>malloc\<close> gave the two strings.
\<close>

definition hmac_create_hash :: "u32 \<Rightarrow> nat \<Rightarrow> u64 \<Rightarrow> u64 \<Rightarrow> crypt_key option \<Rightarrow> hmac_hash option" where
  "hmac_create_hash algo0 size0 ia oa key =
     (case Option.bind key plain_data of
        None \<Rightarrow> None
      | Some k \<Rightarrow>
          Some \<lparr>hmac_ctx = None, has_algo = False, is_completed = False, is_dirty = False, hash_algo = algo0,
            hash_size = size0, key_data = k, inner_data = replicate 64 0x36, outer_data = replicate 64 0x5c,
            inner_at = ia, outer_at = oa\<rparr>)"

definition hmac_flush :: "hmac_hash \<Rightarrow> (bool \<times> hmac_hash) result" where
  "hmac_flush h =
     (if \<not> has_algo h \<or> is_completed h then Inr (False, h)
      else if \<not> is_dirty h then Inr (True, h)
      else case hash_of_calg (hash_algo h) of
          None \<Rightarrow> Inl Abort
        | Some md \<Rightarrow>
            Inr (True, h\<lparr>hmac_ctx := Some (md, inner_data h), is_dirty := False, is_completed := False\<rparr>))"

definition hmac_set_info :: "u64 \<Rightarrow> u64 \<Rightarrow> hmac_hash \<Rightarrow> hmac_info \<Rightarrow> bool \<times> hmac_hash" where
  "hmac_set_info ia oa h info =
     (if is_completed h then (False, h)
      else case hash_of_calg (HashAlgid info) of
          None \<Rightarrow> (False, h)
        | Some md \<Rightarrow>
            (True, h\<lparr>hash_size := md_size md, hash_algo := HashAlgid info, inner_data := pbInnerString info,
                    outer_data := pbOuterString info,
                    inner_at := ia, outer_at := oa, has_algo := True, is_dirty := True\<rparr>))"

definition hmac_update_hash :: "hmac_hash \<Rightarrow> byte list \<Rightarrow> (bool \<times> hmac_hash) result" where
  "hmac_update_hash h data =
     res_bind (hmac_flush h) (\<lambda>(ok, h1).
     if \<not> ok then Inr (False, h1)
     else case hmac_ctx h1 of
         None \<Rightarrow> Inl Abort
       | Some (md, m) \<Rightarrow> Inr (True, h1\<lparr>hmac_ctx := Some (md, m @ data)\<rparr>))"

definition hmac_get_hash_val ::
    "libcrypto \<Rightarrow> hmac_hash \<Rightarrow> byte list option \<Rightarrow> nat \<Rightarrow> (bool \<times> byte list option \<times> nat \<times> hmac_hash) result" where
  "hmac_get_hash_val lc h data data_size =
     res_bind (hmac_flush h) (\<lambda>(ok, h1).
     if \<not> ok then Inr (False, data, data_size, h1)
     else case data of
         None \<Rightarrow> Inr (True, None, hash_size h1, h1)
       | Some buf \<Rightarrow>
           if data_size < hash_size h1 then Inr (False, data, data_size, h1)
           else case hmac_ctx h1 of
               None \<Rightarrow> Inl Abort
             | Some (md, m) \<Rightarrow>
                 let v = lc_hmac lc md (key_data h1) (m @ outer_data h1) in
                 res_bind (store_at buf 0 v) (\<lambda>buf'.
                 if length v \<noteq> hash_size h1 then Inl Abort
                 else Inr (True, Some buf', hash_size h1,
                   h1\<lparr>hmac_ctx := Some (md, m @ outer_data h1), is_completed := True\<rparr>)))"

text \<open>
  The info that is returned, of 40 bytes, has the strings and no algorithm: the field at offset 0 is
  not written.
\<close>

definition hmac_get_info :: "hmac_hash \<Rightarrow> byte list option \<Rightarrow> nat \<Rightarrow> (bool \<times> byte list option \<times> nat) result" where
  "hmac_get_info h data data_size =
     (case data of
        None \<Rightarrow> Inr (True, None, 40)
      | Some buf \<Rightarrow>
          if data_size < 40 then Inr (False, data, data_size)
          else
            res_bind (store_at buf 8 (word_le 8 (inner_at h))) (\<lambda>b1.
            res_bind (store_at b1 16 (word_le 4 (word_of_nat (length (inner_data h)) :: u32))) (\<lambda>b2.
            res_bind (store_at b2 24 (word_le 8 (outer_at h))) (\<lambda>b3.
            res_bind (store_at b3 32 (word_le 4 (word_of_nat (length (outer_data h)) :: u32))) (\<lambda>b4.
            Inr (True, Some b4, 40))))))"

definition hmac_get_hash_param ::
    "libcrypto \<Rightarrow> hmac_hash \<Rightarrow> u32 \<Rightarrow> byte list option \<Rightarrow> nat \<Rightarrow>
     (bool \<times> byte list option \<times> nat \<times> hmac_hash) result" where
  "hmac_get_hash_param lc h param data data_size =
     (if param = HP_ALGID then
        res_bind (give_param (word_le 4 CALG_HMAC) data data_size) (\<lambda>(ok, d, n). Inr (ok, d, n, h))
      else if param = HP_HASHVAL then hmac_get_hash_val lc h data data_size
      else if param = HP_HASHSIZE then
        (if \<not> has_algo h then Inr (False, data, data_size, h)
         else res_bind (give_param (word_le 4 (word_of_nat (hash_size h) :: u32)) data data_size) (\<lambda>(ok, d, n).
              Inr (ok, d, n, h)))
      else if param = HP_HMAC_INFO then
        res_bind (hmac_get_info h data data_size) (\<lambda>(ok, d, n). Inr (ok, d, n, h))
      else Inr (False, data, data_size, h))"

section \<open>The digest API\<close>

datatype crypt_hash = EvpHash evp_md_hash | HmacHash hmac_hash

definition CryptCreateHash ::
    "u32 \<Rightarrow> nat \<Rightarrow> u64 \<Rightarrow> u64 \<Rightarrow> u32 \<Rightarrow> crypt_key option \<Rightarrow> crypt_hash option" where
  "CryptCreateHash algo0 size0 ia oa aid key =
     (case hash_of_calg aid of
        Some md \<Rightarrow> map_option EvpHash (evp_md_create_hash md key)
      | None \<Rightarrow> if aid = CALG_HMAC then map_option HmacHash (hmac_create_hash algo0 size0 ia oa key) else None)"

text \<open>\<open>crypt_hash_algo_hmac\<close> has no \<open>duplicate_hash\<close>: the call goes through NULL.\<close>

definition CryptDuplicateHash :: "crypt_hash \<Rightarrow> crypt_hash result" where
  "CryptDuplicateHash h =
     (case h of EvpHash e \<Rightarrow> Inr (EvpHash (evp_md_duplicate_hash e)) | HmacHash _ \<Rightarrow> Inl Fault)"

definition CryptGetHashParam ::
    "libcrypto \<Rightarrow> crypt_hash \<Rightarrow> u32 \<Rightarrow> byte list option \<Rightarrow> nat \<Rightarrow>
     (bool \<times> byte list option \<times> nat \<times> crypt_hash) result" where
  "CryptGetHashParam lc h param data data_len =
     (case h of
        EvpHash e \<Rightarrow> res_bind (evp_md_get_hash_param lc e param data data_len) (\<lambda>(ok, d, n, e'). Inr (ok, d, n, EvpHash e'))
      | HmacHash m \<Rightarrow> res_bind (hmac_get_hash_param lc m param data data_len) (\<lambda>(ok, d, n, m'). Inr (ok, d, n, HmacHash m')))"

definition CryptSetHashParam :: "u64 \<Rightarrow> u64 \<Rightarrow> crypt_hash \<Rightarrow> u32 \<Rightarrow> hmac_info \<Rightarrow> bool \<times> crypt_hash" where
  "CryptSetHashParam ia oa h param info =
     (case h of
        EvpHash e \<Rightarrow> (False, h)
      | HmacHash m \<Rightarrow>
          if param = HP_HMAC_INFO then (case hmac_set_info ia oa m info of (ok, m') \<Rightarrow> (ok, HmacHash m')) else (False, h))"

definition CryptHashData :: "crypt_hash \<Rightarrow> byte list \<Rightarrow> (bool \<times> crypt_hash) result" where
  "CryptHashData h data =
     (case h of
        EvpHash e \<Rightarrow> (case evp_md_update_hash e data of (ok, e') \<Rightarrow> Inr (ok, EvpHash e'))
      | HmacHash m \<Rightarrow> res_bind (hmac_update_hash m data) (\<lambda>(ok, m'). Inr (ok, HmacHash m')))"

section \<open>Signatures as objects, protected data\<close>

text \<open>\<open>struct_type\<close> is a small number unless bit 15 of the pointer is set.\<close>

definition X509_ECC_SIGNATURE :: u64 where "X509_ECC_SIGNATURE = 47"

definition is_ecc_signature :: "u64 \<Rightarrow> bool" where
  "is_ecc_signature struct_type \<longleftrightarrow> struct_type AND 0x8000 = 0 \<and> struct_type = X509_ECC_SIGNATURE"

definition CryptEncodeObject ::
    "libcrypto \<Rightarrow> u64 \<Rightarrow> byte list \<times> byte list \<Rightarrow> byte list option \<Rightarrow> nat \<Rightarrow>
     (bool \<times> byte list option \<times> nat) result" where
  "CryptEncodeObject lc struct_type rs enc enc_size =
     (if is_ecc_signature struct_type
      then give_param (lc_sig_der lc (le_nat (fst rs), le_nat (snd rs))) enc enc_size
      else Inr (False, enc, enc_size))"

text \<open>The numbers of the decoded signature, little endian, and the size of the structure.\<close>

definition CryptDecodeObject ::
    "libcrypto \<Rightarrow> u64 \<Rightarrow> byte list \<Rightarrow> bool \<Rightarrow> nat \<Rightarrow> (bool \<times> (byte list \<times> byte list) option \<times> nat) result" where
  "CryptDecodeObject lc struct_type enc has_buf buf_size =
     (if is_ecc_signature struct_type then
        res_bind (LIBCRYPTO_ERR (lc_der_sig lc enc)) (\<lambda>(r, s).
        let sig_size = 32 + num_bytes r + num_bytes s in
        if has_buf \<and> sig_size \<le> buf_size then
          (if r = 0 \<or> s = 0 then Inl Abort
           else Inr (True, Some (le_bytes (num_bytes r) r, le_bytes (num_bytes s) s), sig_size))
        else if has_buf then Inr (False, None, buf_size)
        else Inr (True, None, sig_size))
      else Inr (False, None, buf_size))"

definition CryptProtectData :: "byte list \<Rightarrow> byte list" where
  "CryptProtectData data = data"

definition CryptUnprotectData :: "byte list \<Rightarrow> byte list" where
  "CryptUnprotectData data = data"

section \<open>Properties\<close>

text \<open>A run of digest updates.\<close>

fun hash_all :: "crypt_hash \<Rightarrow> byte list list \<Rightarrow> crypt_hash result" where
  "hash_all h [] = Inr h"
| "hash_all h (d # ds) = res_bind (CryptHashData h d) (\<lambda>(ok, h'). if ok then hash_all h' ds else Inl Abort)"

text \<open>The state of a keyed digest that has seen some data.\<close>

definition hmac_open :: "hmac_hash \<Rightarrow> hash_alg \<Rightarrow> byte list \<Rightarrow> byte list \<Rightarrow> byte list \<Rightarrow> byte list \<Rightarrow> bool" where
  "hmac_open h md k inner outer m \<longleftrightarrow>
     has_algo h \<and> \<not> is_completed h \<and> hash_of_calg (hash_algo h) = Some md \<and> hash_size h = md_size md \<and>
     key_data h = k \<and> inner_data h = inner \<and> outer_data h = outer \<and>
     (if is_dirty h then m = [] else hmac_ctx h = Some (md, inner @ m))"

lemma hmac_open_flush:
  assumes "hmac_open h md k inner outer m"
  shows "\<exists>h'. hmac_flush h = Inr (True, h') \<and> hmac_open h' md k inner outer m \<and>
    \<not> is_dirty h' \<and> hmac_ctx h' = Some (md, inner @ m)"
  using assms by (auto simp: hmac_flush_def hmac_open_def)

lemma hmac_open_update:
  assumes "hmac_open h md k inner outer m"
  shows "\<exists>h'. CryptHashData (HmacHash h) d = Inr (True, HmacHash h') \<and> hmac_open h' md k inner outer (m @ d)"
proof -
  obtain h1 where h1: "hmac_flush h = Inr (True, h1)" "hmac_open h1 md k inner outer m"
      "\<not> is_dirty h1" "hmac_ctx h1 = Some (md, inner @ m)"
    using hmac_open_flush[OF assms] by blast
  let ?h' = "h1\<lparr>hmac_ctx := Some (md, (inner @ m) @ d)\<rparr>"
  have "CryptHashData (HmacHash h) d = Inr (True, HmacHash ?h')"
    using h1 by (simp add: CryptHashData_def hmac_update_hash_def)
  moreover have "hmac_open ?h' md k inner outer (m @ d)"
    using h1 by (auto simp: hmac_open_def split: if_splits)
  ultimately show ?thesis by blast
qed

lemma hash_all_hmac:
  assumes "hmac_open h md k inner outer m"
  shows "\<exists>h'. hash_all (HmacHash h) ds = Inr (HmacHash h') \<and> hmac_open h' md k inner outer (m @ concat ds)"
  using assms
proof (induction ds arbitrary: h m)
  case (Cons d ds)
  obtain h1 where h1: "CryptHashData (HmacHash h) d = Inr (True, HmacHash h1)" "hmac_open h1 md k inner outer (m @ d)"
    using hmac_open_update[OF Cons.prems] by blast
  then show ?case using Cons.IH[OF h1(2)] by simp
qed auto

lemma hmac_open_value:
  assumes "hmac_open h md k inner outer m" and "length (lc_hmac lc md k (inner @ m @ outer)) = md_size md"
    and "md_size md \<le> length buf"
  shows "\<exists>h'. CryptGetHashParam lc (HmacHash h) HP_HASHVAL (Some buf) (length buf) =
      Inr (True, Some (splice buf 0 (lc_hmac lc md k (inner @ m @ outer))), md_size md, HmacHash h') \<and> is_completed h'"
proof -
  obtain h1 where h1: "hmac_flush h = Inr (True, h1)" "hmac_open h1 md k inner outer m"
      "\<not> is_dirty h1" "hmac_ctx h1 = Some (md, inner @ m)"
    using hmac_open_flush[OF assms(1)] by blast
  then show ?thesis
    using assms(2,3)
    by (simp add: CryptGetHashParam_def hmac_get_hash_param_def hmac_get_hash_val_def hmac_open_def crypt_consts
        store_at_fits Let_def)
qed

text \<open>A keyed digest that has given its value takes nothing more.\<close>

lemma hmac_completed:
  assumes "is_completed h"
  shows "CryptHashData (HmacHash h) d = Inr (False, HmacHash h)"
    and "CryptSetHashParam ia oa (HmacHash h) HP_HMAC_INFO info = (False, HmacHash h)"
    and "CryptGetHashParam lc (HmacHash h) HP_HASHVAL data n = Inr (False, data, n, HmacHash h)"
  using assms
  by (simp_all add: CryptHashData_def CryptSetHashParam_def CryptGetHashParam_def hmac_update_hash_def
      hmac_set_info_def hmac_get_hash_param_def hmac_get_hash_val_def hmac_flush_def crypt_consts)

lemma hmac_set_info_open:
  assumes "\<not> is_completed h" and "hash_of_calg (HashAlgid info) = Some md"
  shows "\<exists>h'. CryptSetHashParam ia oa (HmacHash h) HP_HMAC_INFO info = (True, HmacHash h') \<and>
    hmac_open h' md (key_data h) (pbInnerString info) (pbOuterString info) []"
  using assms by (auto simp: CryptSetHashParam_def hmac_set_info_def hmac_open_def)

text \<open>
  A keyed digest is created without an algorithm and reads refuse until an \<open>HMAC_INFO\<close> is set.
  Then, for every run of \<open>CryptHashData\<close> calls, its value is the HMAC under the key of the inner
  string, the data of all calls in order and the outer string, whatever the chunks were; after the
  value was read, more data, a new info and a second read are refused.
\<close>
theorem hmac_is_chunking_independent:
  assumes "CryptCreateHash a0 s0 i0 o0 CALG_HMAC (Some key) = Some h0" and "plain_data key = Some k"
    and "hash_of_calg (HashAlgid info) = Some md"
    and "length (lc_hmac lc md k (pbInnerString info @ concat ds @ pbOuterString info)) = md_size md"
    and "md_size md \<le> length buf"
  shows "CryptHashData h0 d = Inr (False, h0) \<and>
    (\<exists>h1 h2 h3. CryptSetHashParam ia oa h0 HP_HMAC_INFO info = (True, h1) \<and> hash_all h1 ds = Inr h2 \<and>
      CryptGetHashParam lc h2 HP_HASHVAL (Some buf) (length buf) =
        Inr (True, Some (splice buf 0 (lc_hmac lc md k (pbInnerString info @ concat ds @ pbOuterString info))),
             md_size md, h3) \<and>
      CryptHashData h3 d = Inr (False, h3) \<and>
      CryptSetHashParam ia oa h3 HP_HMAC_INFO info = (False, h3) \<and>
      CryptGetHashParam lc h3 HP_HASHVAL (Some buf) (length buf) = Inr (False, Some buf, length buf, h3))"
proof -
  have "hash_of_calg CALG_HMAC = None" by (simp add: hash_of_calg_def crypt_consts)
  then have "map_option HmacHash (hmac_create_hash a0 s0 i0 o0 (Some key)) = Some h0"
    using assms(1) by (simp only: CryptCreateHash_def option.case if_True refl)
  then obtain m0 where m: "hmac_create_hash a0 s0 i0 o0 (Some key) = Some m0" "h0 = HmacHash m0"
    unfolding map_option_eq_Some by blast
  then have m0: "h0 = HmacHash m0" "key_data m0 = k" "\<not> is_completed m0" "\<not> has_algo m0"
    using assms(2) by (auto simp: hmac_create_hash_def)
  obtain m1 where m1: "CryptSetHashParam ia oa h0 HP_HMAC_INFO info = (True, HmacHash m1)"
      "hmac_open m1 md k (pbInnerString info) (pbOuterString info) []"
    using hmac_set_info_open[OF m0(3) assms(3)] m0 by blast
  obtain m2 where m2: "hash_all (HmacHash m1) ds = Inr (HmacHash m2)"
      "hmac_open m2 md k (pbInnerString info) (pbOuterString info) (concat ds)"
    using hash_all_hmac[OF m1(2)] by (metis append_Nil)
  obtain m3 where m3: "is_completed m3" "CryptGetHashParam lc (HmacHash m2) HP_HASHVAL (Some buf) (length buf) =
      Inr (True, Some (splice buf 0 (lc_hmac lc md k (pbInnerString info @ concat ds @ pbOuterString info))),
           md_size md, HmacHash m3)"
    using hmac_open_value[OF m2(2) assms(4,5)] by blast
  have "CryptHashData h0 d = Inr (False, h0)"
    using m0 by (simp add: CryptHashData_def hmac_update_hash_def hmac_flush_def)
  then show ?thesis using m1(1) m2(1) m3(2) hmac_completed[OF m3(1)] by blast
qed

text \<open>Two chunks under SHA-256, with the library \<open>demo_lib\<close>.\<close>

definition demo_crypt_key :: crypt_key where
  "demo_crypt_key = \<lparr>plain_data = Some (replicate 16 7), alg_id = 0, mode = CRYPT_MODE_CBC,
     iv = replicate 16 0, iv_set = True\<rparr>"

definition demo_info :: hmac_info where
  "demo_info = \<lparr>HashAlgid = CALG_SHA_256, pbInnerString = [5], pbOuterString = []\<rparr>"

definition demo_hmac :: hmac_hash where
  "demo_hmac = the (hmac_create_hash 0 0 0 0 (Some demo_crypt_key))"

theorem hmac_is_chunking_independent_witness:
  "\<exists>h1 h2 h3. CryptSetHashParam 0 0 (HmacHash demo_hmac) HP_HMAC_INFO demo_info = (True, h1) \<and>
      hash_all h1 [[1], [2, 3]] = Inr h2 \<and>
      CryptGetHashParam demo_lib h2 HP_HASHVAL (Some (replicate 32 0)) 32 =
        Inr (True, Some (splice (replicate 32 0) 0 (replicate 32 12)), 32, h3)"
proof -
  note r = hmac_is_chunking_independent[of 0 0 0 0 demo_crypt_key "HmacHash demo_hmac" "replicate 16 7" demo_info SHA256
      demo_lib "[[1], [2, 3]]" "replicate 32 0" "[]" 0 0]
  have "CryptCreateHash 0 0 0 0 CALG_HMAC (Some demo_crypt_key) = Some (HmacHash demo_hmac)"
    by (simp add: CryptCreateHash_def hash_of_calg_def crypt_consts demo_hmac_def demo_crypt_key_def hmac_create_hash_def)
  moreover have "hash_of_calg (HashAlgid demo_info) = Some SHA256"
    by (simp add: demo_info_def hash_of_calg_def crypt_consts)
  moreover have "lc_hmac demo_lib SHA256 (replicate 16 7) (pbInnerString demo_info @ concat [[1], [2, 3]] @ pbOuterString demo_info)
      = replicate 32 12"
    by (simp add: demo_lib_def demo_info_def numeral_eq_Suc)
  ultimately show ?thesis using r by (simp add: demo_crypt_key_def) blast
qed

section \<open>Signature objects\<close>

text \<open>
  A signature whose numbers are not zero, given as little-endian byte strings without leading
  zeros, comes back from \<open>CryptDecodeObject\<close> applied to what \<open>CryptEncodeObject\<close> wrote, with the size
  the query returned; a signature with a zero number makes the decoder abort the process.
\<close>
theorem signature_object_roundtrip:
  assumes "\<And>x. lc_der_sig lc (lc_sig_der lc x) = Some x"
    and "length (lc_sig_der lc (le_nat r, le_nat s)) = n" and "n \<le> length buf"
  shows "\<exists>enc. CryptEncodeObject lc X509_ECC_SIGNATURE (r, s) None cap = Inr (True, None, n) \<and>
    CryptEncodeObject lc X509_ECC_SIGNATURE (r, s) (Some buf) (length buf) = Inr (True, Some enc, n) \<and>
    CryptDecodeObject lc X509_ECC_SIGNATURE (take n enc) True sz =
      (if sz < 32 + num_bytes (le_nat r) + num_bytes (le_nat s) then Inr (False, None, sz)
       else if le_nat r = 0 \<or> le_nat s = 0 then Inl Abort
       else Inr (True, Some (le_bytes (num_bytes (le_nat r)) (le_nat r), le_bytes (num_bytes (le_nat s)) (le_nat s)),
                 32 + num_bytes (le_nat r) + num_bytes (le_nat s)))"
proof (intro exI[of _ "splice buf 0 (lc_sig_der lc (le_nat r, le_nat s))"] conjI)
  have sig: "is_ecc_signature X509_ECC_SIGNATURE"
    by (simp add: is_ecc_signature_def X509_ECC_SIGNATURE_def)
  show "CryptEncodeObject lc X509_ECC_SIGNATURE (r, s) None cap = Inr (True, None, n)"
    using assms(2) sig by (simp add: CryptEncodeObject_def give_param_def)
  show "CryptEncodeObject lc X509_ECC_SIGNATURE (r, s) (Some buf) (length buf) =
      Inr (True, Some (splice buf 0 (lc_sig_der lc (le_nat r, le_nat s))), n)"
    using assms(2,3) sig by (simp add: CryptEncodeObject_def give_param_def store_at_fits)
  have "take n (splice buf 0 (lc_sig_der lc (le_nat r, le_nat s))) = lc_sig_der lc (le_nat r, le_nat s)"
    using assms(2,3) take_splice_0 by blast
  then show "CryptDecodeObject lc X509_ECC_SIGNATURE (take n (splice buf 0 (lc_sig_der lc (le_nat r, le_nat s)))) True sz =
      (if sz < 32 + num_bytes (le_nat r) + num_bytes (le_nat s) then Inr (False, None, sz)
       else if le_nat r = 0 \<or> le_nat s = 0 then Inl Abort
       else Inr (True, Some (le_bytes (num_bytes (le_nat r)) (le_nat r), le_bytes (num_bytes (le_nat s)) (le_nat s)),
                 32 + num_bytes (le_nat r) + num_bytes (le_nat s)))"
    using assms(1) sig by (simp add: CryptDecodeObject_def Let_def)
qed

text \<open>A library whose signature objects are two unary numbers.\<close>

definition unary_lib :: libcrypto where
  "unary_lib = demo_lib\<lparr>lc_sig_der := \<lambda>(r, s). replicate r 1 @ 0 # replicate s 1,
     lc_der_sig := \<lambda>b. Some (length (takeWhile (\<lambda>x. x \<noteq> 0) b), length b - length (takeWhile (\<lambda>x. x \<noteq> 0) b) - 1)\<rparr>"

lemma unary_lib_sig: "lc_der_sig unary_lib (lc_sig_der unary_lib x) = Some x"
  by (cases x) (simp add: unary_lib_def takeWhile_append)

theorem signature_object_roundtrip_witness:
  "\<exists>enc. CryptEncodeObject unary_lib X509_ECC_SIGNATURE ([3], [2]) None 0 = Inr (True, None, 6) \<and>
     CryptDecodeObject unary_lib X509_ECC_SIGNATURE (take 6 enc) True 40 = Inr (True, Some ([3], [2]), 34)"
proof -
  have len: "length (lc_sig_der unary_lib (le_nat [3], le_nat [2])) = 6"
    by (simp add: unary_lib_def)
  note r = signature_object_roundtrip[where lc = unary_lib and r = "[3]" and s = "[2]" and buf = "replicate 6 0"
      and cap = 0 and sz = 40, OF unary_lib_sig len]
  have "num_bytes 3 = 1" "num_bytes 2 = 1" using num_bytes_eq[of 0] by simp_all
  then show ?thesis using r by auto
qed

section \<open>Chained encryption\<close>

text \<open>
  What CBC is, for whole blocks without padding: one block after the other, each under the block
  before it.  The library's cipher is given by a block function for each direction.
\<close>

fun cbc_enc :: "(byte list \<Rightarrow> byte list) \<Rightarrow> byte list \<Rightarrow> byte list list \<Rightarrow> byte list list" where
  "cbc_enc E v [] = []"
| "cbc_enc E v (p # ps) = (let c = E (map2 (XOR) p v) in c # cbc_enc E c ps)"

fun cbc_dec :: "(byte list \<Rightarrow> byte list) \<Rightarrow> byte list \<Rightarrow> byte list list \<Rightarrow> byte list list" where
  "cbc_dec D v [] = []"
| "cbc_dec D v (c # cs) = map2 (XOR) (D c) v # cbc_dec D c cs"

definition blocks16 :: "byte list list \<Rightarrow> bool" where
  "blocks16 ps \<longleftrightarrow> (\<forall>p \<in> List.set ps. length p = 16)"

lemma length_concat_blocks16: "blocks16 ps \<Longrightarrow> length (concat ps) = 16 * length ps"
  by (induction ps) (auto simp: blocks16_def)

lemma cbc_enc_append:
  "cbc_enc E v (ps @ qs) = cbc_enc E v ps @ cbc_enc E (if ps = [] then v else last (cbc_enc E v ps)) qs"
proof (induction ps arbitrary: v)
  case (Cons p ps)
  then show ?case by (cases ps) (simp_all add: Let_def)
qed simp

lemma cbc_enc_blocks16:
  assumes "\<And>b. length b = 16 \<Longrightarrow> length (E b) = 16"
  shows "blocks16 ps \<Longrightarrow> length v = 16 \<Longrightarrow> blocks16 (cbc_enc E v ps)"
proof (induction ps arbitrary: v)
  case (Cons p ps)
  have "length (map2 (XOR) p v) = 16" using Cons.prems by (simp add: blocks16_def)
  then have e: "length (E (map2 (XOR) p v)) = 16" by (rule assms)
  have ps: "blocks16 ps" using Cons.prems(1) by (simp add: blocks16_def)
  show ?case using Cons.IH[OF ps e] e by (simp add: blocks16_def Let_def)
qed (simp add: blocks16_def)

lemma length_cbc_enc [simp]: "length (cbc_enc E v ps) = length ps"
  by (induction ps arbitrary: v) (auto simp: Let_def)

lemma drop_last_block:
  "cs \<noteq> [] \<Longrightarrow> blocks16 cs \<Longrightarrow> drop (length (concat cs) - 16) (concat cs) = last cs"
proof (induction cs rule: rev_induct)
  case (snoc c cs)
  then show ?case by (simp add: blocks16_def)
qed simp

lemma cbc_dec_blocks16:
  assumes "\<And>b. length b = 16 \<Longrightarrow> length (D b) = 16"
  shows "blocks16 cs \<Longrightarrow> length v = 16 \<Longrightarrow> blocks16 (cbc_dec D v cs)"
proof (induction cs arbitrary: v)
  case (Cons c cs)
  have c: "length c = 16" and cs: "blocks16 cs" using Cons.prems(1) by (simp_all add: blocks16_def)
  show ?case using Cons.IH[OF cs c] assms[OF c] Cons.prems(2) c by (simp add: blocks16_def)
qed (simp add: blocks16_def)

lemma length_cbc_dec [simp]: "length (cbc_dec D v cs) = length cs"
  by (induction cs arbitrary: v) auto

definition cbc_library :: "libcrypto \<Rightarrow> byte list \<Rightarrow> (byte list \<Rightarrow> byte list) \<Rightarrow> (byte list \<Rightarrow> byte list) \<Rightarrow> bool" where
  "cbc_library lc k E D \<longleftrightarrow> (\<forall>b. length b = 16 \<longrightarrow> length (E b) = 16 \<and> length (D b) = 16) \<and>
     (\<forall>cx v ps. cx_mode cx = CBC \<and> cx_key cx = k \<and> cx_iv cx = Some v \<and> \<not> cx_padding cx \<and> blocks16 ps \<longrightarrow>
       lc_update lc cx (concat ps) =
         Some (concat (if cx_enc cx then cbc_enc E v ps else cbc_dec D v ps)))"

lemma cbc_library_blocks:
  assumes "cbc_library lc k E D"
  shows "length b = 16 \<Longrightarrow> length (E b) = 16" and "length b = 16 \<Longrightarrow> length (D b) = 16"
  using assms by (simp_all add: cbc_library_def)

lemma cbc_library_update:
  assumes "cbc_library lc k E D" and "blocks16 ps"
    and "cx_mode cx = CBC" and "cx_key cx = k" and "cx_iv cx = Some v" and "\<not> cx_padding cx"
  shows "lc_update lc cx (concat ps) = Some (concat (if cx_enc cx then cbc_enc E v ps else cbc_dec D v ps))"
  using assms by (simp add: cbc_library_def)

lemma crypt_call:
  assumes "plain_data key = Some k" and "k \<noteq> []" and "get_aes_cipher (length k) (mode key) = Some m"
    and "lc_update lc (crypt_ctx key k m enc False) p = Some out" and "length out = length p"
  shows "enc \<Longrightarrow> iv_set key \<Longrightarrow> 16 \<le> length p \<Longrightarrow> CryptEncrypt lc key False p (length p) (length p) =
      Inr (True, out, length p, key\<lparr>iv := drop (length p - 16) out\<rparr>)"
    and "\<not> enc \<Longrightarrow> CryptDecrypt lc key False p (length p) = Inr (True, out, length p, key)"
proof -
  have p: "struct_at p 0 (length p) = Inr p" by (simp add: struct_at_in_range)
  have st: "store_at p 0 out = Inr out" using assms(5) by (simp add: store_at_def splice_def)
  have run: "run_cipher lc (crypt_ctx key k m enc False) p False (length p) = Inr (Some out)"
    using assms(4,5) by (simp add: run_cipher_def)
  show "enc \<Longrightarrow> iv_set key \<Longrightarrow> 16 \<le> length p \<Longrightarrow> CryptEncrypt lc key False p (length p) (length p) =
      Inr (True, out, length p, key\<lparr>iv := drop (length p - 16) out\<rparr>)"
    using assms(1,2,3,5) p st run by (simp add: CryptEncrypt_def)
  show "\<not> enc \<Longrightarrow> CryptDecrypt lc key False p (length p) = Inr (True, out, length p, key)"
    using assms(1,2,3,5) p st run by (simp add: CryptDecrypt_def)
qed

lemma crypt_cbc_call:
  assumes "cbc_library lc k E D" and "plain_data key = Some k" and "length k \<in> {16, 24, 32}"
    and "mode key = CRYPT_MODE_CBC" and "iv_set key" and "length (iv key) = 16" and "blocks16 ps" and "ps \<noteq> []"
  shows "CryptEncrypt lc key False (concat ps) (length (concat ps)) (length (concat ps)) =
      Inr (True, concat (cbc_enc E (iv key) ps), length (concat ps), key\<lparr>iv := last (cbc_enc E (iv key) ps)\<rparr>)" (is ?enc)
    and "CryptDecrypt lc key False (concat ps) (length (concat ps)) =
      Inr (True, concat (cbc_dec D (iv key) ps), length (concat ps), key)" (is ?dec)
proof -
  have k: "k \<noteq> []" and m: "get_aes_cipher (length k) (mode key) = Some CBC"
    using assms(3,4) by (auto simp: get_aes_cipher_def)
  have c: "blocks16 (cbc_enc E (iv key) ps)" "cbc_enc E (iv key) ps \<noteq> []"
    using cbc_enc_blocks16[OF cbc_library_blocks(1)[OF assms(1)] assms(7,6)] assms(8)
    by (simp, metis length_cbc_enc length_0_conv)
  have len: "length (concat (cbc_enc E (iv key) ps)) = length (concat ps)" "16 \<le> length (concat ps)"
    using assms(7,8) c by (auto simp: length_concat_blocks16 Suc_le_eq)
  show ?enc
    using crypt_call(1)[OF assms(2) k m, of lc True "concat ps" "concat (cbc_enc E (iv key) ps)"]
      cbc_library_update[OF assms(1,7), of "crypt_ctx key k CBC True False" "iv key"] assms(5) len drop_last_block[OF c(2,1)]
    by (simp add: crypt_ctx_def)
  have "length (concat (cbc_dec D (iv key) ps)) = length (concat ps)"
    using assms(6,7) cbc_dec_blocks16[of D ps "iv key"] cbc_library_blocks(2)[OF assms(1)]
    by (simp add: length_concat_blocks16)
  then show ?dec
    using crypt_call(2)[OF assms(2) k m, of lc False "concat ps" "concat (cbc_dec D (iv key) ps)"]
      cbc_library_update[OF assms(1,7), of "crypt_ctx key k CBC False False" "iv key"] assms(5)
    by (simp add: crypt_ctx_def)
qed

lemma blocks16_append [simp]: "blocks16 (ps @ qs) \<longleftrightarrow> blocks16 ps \<and> blocks16 qs"
  by (auto simp: blocks16_def)

lemma cbc_library_enc_blocks:
  assumes "cbc_library lc k E D" and "blocks16 ps" and "length v = 16"
  shows "blocks16 (cbc_enc E v ps)"
  by (rule cbc_enc_blocks16[OF _ assms(2,3)]) (rule cbc_library_blocks(1)[OF assms(1)])

lemma last_cbc_enc_length:
  assumes "cbc_library lc k E D" and "blocks16 ps" and "length v = 16" and "ps \<noteq> []"
  shows "length (last (cbc_enc E v ps)) = 16"
proof -
  have "cbc_enc E v ps \<noteq> []" using assms(4) by (cases ps) (simp_all add: Let_def)
  then have "last (cbc_enc E v ps) \<in> List.set (cbc_enc E v ps)" by simp
  then show ?thesis
    using cbc_library_enc_blocks[OF assms(1,2,3)] unfolding blocks16_def by blast
qed

text \<open>
  Encrypting under CBC in two calls that are not final gives the same bytes, and leaves the same
  key, as one call on the whole: after each call \<open>CryptEncrypt\<close> keeps the last block of its output as
  the IV of the next.
\<close>
theorem encrypt_in_parts:
  assumes "cbc_library lc k E D" and "plain_data key = Some k" and "length k \<in> {16, 24, 32}"
    and "mode key = CRYPT_MODE_CBC" and "iv_set key" and "length (iv key) = 16"
    and "blocks16 ps" and "ps \<noteq> []" and "blocks16 qs" and "qs \<noteq> []"
  shows "\<exists>c1 c2 key1 key2.
    CryptEncrypt lc key False (concat ps) (length (concat ps)) (length (concat ps)) =
      Inr (True, c1, length (concat ps), key1) \<and>
    CryptEncrypt lc key1 False (concat qs) (length (concat qs)) (length (concat qs)) =
      Inr (True, c2, length (concat qs), key2) \<and>
    CryptEncrypt lc key False (concat (ps @ qs)) (length (concat (ps @ qs))) (length (concat (ps @ qs))) =
      Inr (True, c1 @ c2, length (concat (ps @ qs)), key2)"
proof -
  let ?key1 = "key\<lparr>iv := last (cbc_enc E (iv key) ps)\<rparr>"
  have l: "length (last (cbc_enc E (iv key) ps)) = 16"
    by (rule last_cbc_enc_length[OF assms(1,7,6,8)])
  have qs: "cbc_enc E (last (cbc_enc E (iv key) ps)) qs \<noteq> []"
    using assms(10) by (cases qs) (simp_all add: Let_def)
  have 1: "CryptEncrypt lc key False (concat ps) (length (concat ps)) (length (concat ps)) =
      Inr (True, concat (cbc_enc E (iv key) ps), length (concat ps), ?key1)"
    by (rule crypt_cbc_call(1)[OF assms(1-8)])
  have 2: "CryptEncrypt lc ?key1 False (concat qs) (length (concat qs)) (length (concat qs)) =
      Inr (True, concat (cbc_enc E (iv ?key1) qs), length (concat qs), ?key1\<lparr>iv := last (cbc_enc E (iv ?key1) qs)\<rparr>)"
    using assms l by (intro crypt_cbc_call(1)[OF assms(1)]) simp_all
  have 3: "CryptEncrypt lc key False (concat (ps @ qs)) (length (concat (ps @ qs))) (length (concat (ps @ qs))) =
      Inr (True, concat (cbc_enc E (iv key) (ps @ qs)), length (concat (ps @ qs)),
        key\<lparr>iv := last (cbc_enc E (iv key) (ps @ qs))\<rparr>)"
    using assms by (intro crypt_cbc_call(1)[OF assms(1)]) simp_all
  have "cbc_enc E (iv key) (ps @ qs) = cbc_enc E (iv key) ps @ cbc_enc E (iv ?key1) qs"
    using assms(8) by (simp add: cbc_enc_append)
  then have "concat (cbc_enc E (iv key) (ps @ qs)) = concat (cbc_enc E (iv key) ps) @ concat (cbc_enc E (iv ?key1) qs)"
    and "key\<lparr>iv := last (cbc_enc E (iv key) (ps @ qs))\<rparr> = ?key1\<lparr>iv := last (cbc_enc E (iv ?key1) qs)\<rparr>"
    using qs by simp_all
  with 1 2 3 show ?thesis by (intro exI[of _ "concat (cbc_enc E (iv key) ps)"] exI) auto
qed

lemma map2_xor_cancel: "length a = length b \<Longrightarrow> map2 (XOR) (map2 (XOR) a b) b = (a :: byte list)"
  by (induction a b rule: list_induct2) (simp_all add: xor.assoc)

lemma map2_xor_eq_iff:
  "length a = length b \<Longrightarrow> length b = length c \<Longrightarrow>
     map2 (XOR) (map2 (XOR) a b) c = (a :: byte list) \<longleftrightarrow> b = c"
proof (induction a b c rule: list_induct3)
  case (Cons x xs y ys z zs)
  have "(x XOR y) XOR z = x \<longleftrightarrow> y = z"
    by (metis xor.assoc xor.left_neutral xor.right_neutral xor_self_eq)
  then show ?case using Cons by simp
qed simp

lemma cbc_dec_enc:
  assumes "\<And>b. length b = 16 \<Longrightarrow> length (E b) = 16" and "\<And>b. length b = 16 \<Longrightarrow> D (E b) = b"
  shows "blocks16 ps \<Longrightarrow> length v = 16 \<Longrightarrow> cbc_dec D v (cbc_enc E v ps) = ps"
proof (induction ps arbitrary: v)
  case (Cons p ps)
  have p: "length p = 16" and ps: "blocks16 ps" using Cons.prems(1) by (simp_all add: blocks16_def)
  have x: "length (map2 (XOR) p v) = 16" using p Cons.prems(2) by simp
  show ?case
    using Cons.IH[OF ps assms(1)[OF x]] assms(2)[OF x] map2_xor_cancel[of p v] p Cons.prems(2)
    by (simp add: Let_def)
qed simp

text \<open>
  \<open>CryptDecrypt\<close> inverts one call of \<open>CryptEncrypt\<close>, but it leaves the IV of the key as it was.
  A message that was encrypted in two calls and is decrypted in two calls comes back with the first
  block of its second part wrong by the exclusive or of the last block of the first ciphertext and the
  original IV; the second part is right only when these two are equal.
\<close>
theorem decrypt_does_not_chain:
  assumes "cbc_library lc k E D" and "\<And>b. length b = 16 \<Longrightarrow> D (E b) = b"
    and "plain_data key = Some k" and "length k \<in> {16, 24, 32}"
    and "mode key = CRYPT_MODE_CBC" and "iv_set key" and "length (iv key) = 16"
    and "blocks16 ps" and "ps \<noteq> []" and "blocks16 (q # qs)"
  shows "\<exists>c1 c2 key1 key2 l.
    CryptEncrypt lc key False (concat ps) (length (concat ps)) (length (concat ps)) =
      Inr (True, c1, length (concat ps), key1) \<and>
    CryptEncrypt lc key1 False (concat (q # qs)) (length (concat (q # qs))) (length (concat (q # qs))) =
      Inr (True, c2, length (concat (q # qs)), key2) \<and>
    l = drop (length c1 - 16) c1 \<and>
    CryptDecrypt lc key False c1 (length c1) = Inr (True, concat ps, length (concat ps), key) \<and>
    CryptDecrypt lc key False c2 (length c2) =
      Inr (True, map2 (XOR) (map2 (XOR) q l) (iv key) @ concat qs, length (concat (q # qs)), key) \<and>
    (map2 (XOR) (map2 (XOR) q l) (iv key) @ concat qs = concat (q # qs) \<longleftrightarrow> l = iv key)"
proof -
  let ?cs = "cbc_enc E (iv key) ps"
  let ?l = "last ?cs"
  let ?key1 = "key\<lparr>iv := ?l\<rparr>"
  let ?ds = "cbc_enc E ?l (q # qs)"
  have l: "length ?l = 16" by (rule last_cbc_enc_length[OF assms(1,8,7,9)])
  have q: "length q = 16" and qs: "blocks16 qs" using assms(10) by (simp_all add: blocks16_def)
  note E = cbc_library_blocks(1)[OF assms(1)]
  have DE: "cbc_dec D v (cbc_enc E v rs) = rs" if "blocks16 rs" "length v = 16" for v rs
    by (rule cbc_dec_enc[where E = E and D = D]) (use E assms(2) that in blast)+
  have cs: "blocks16 ?cs" "?cs \<noteq> []" "length (concat ?cs) = length (concat ps)"
    using cbc_library_enc_blocks[OF assms(1,8,7)] assms(8,9) length_cbc_enc[of E "iv key" ps]
    by (simp, metis length_0_conv, simp add: length_concat_blocks16)
  have ds: "blocks16 ?ds" "?ds \<noteq> []" "length (concat ?ds) = length (concat (q # qs))"
    using cbc_library_enc_blocks[OF assms(1,10) l] assms(10) length_cbc_enc[of E ?l "q # qs"]
    by (simp, metis length_0_conv list.distinct(1), simp only: length_concat_blocks16)
  have 1: "CryptEncrypt lc key False (concat ps) (length (concat ps)) (length (concat ps)) =
      Inr (True, concat ?cs, length (concat ps), ?key1)"
    by (rule crypt_cbc_call(1)[OF assms(1,3-9)])
  have 2: "CryptEncrypt lc ?key1 False (concat (q # qs)) (length (concat (q # qs))) (length (concat (q # qs))) =
      Inr (True, concat (cbc_enc E (iv ?key1) (q # qs)), length (concat (q # qs)),
        ?key1\<lparr>iv := last (cbc_enc E (iv ?key1) (q # qs))\<rparr>)"
    by (rule crypt_cbc_call(1)[OF assms(1)]) (use assms l in simp_all)
  have 3: "CryptDecrypt lc key False (concat ?cs) (length (concat ?cs)) =
      Inr (True, concat ps, length (concat ps), key)"
    using crypt_cbc_call(2)[OF assms(1,3-7) cs(1,2)] DE[OF assms(8,7)] cs(3) by simp
  have "cbc_dec D (iv key) ?ds = map2 (XOR) (map2 (XOR) q ?l) (iv key) # qs"
    using DE[OF qs, of "E (map2 (XOR) q ?l)"] E[of "map2 (XOR) q ?l"] assms(2)[of "map2 (XOR) q ?l"] q l
    by (simp add: Let_def)
  then have 4: "CryptDecrypt lc key False (concat ?ds) (length (concat ?ds)) =
      Inr (True, map2 (XOR) (map2 (XOR) q ?l) (iv key) @ concat qs, length (concat (q # qs)), key)"
    using crypt_cbc_call(2)[OF assms(1,3-7) ds(1,2)] ds(3) by simp
  have 5: "map2 (XOR) (map2 (XOR) q ?l) (iv key) @ concat qs = concat (q # qs) \<longleftrightarrow> ?l = iv key"
    using map2_xor_eq_iff[of q ?l "iv key"] q l assms(7) by simp
  have "?l = drop (length (concat ?cs) - 16) (concat ?cs)"
    using drop_last_block[OF cs(2,1)] by simp
  with 1 2 3 4 5 show ?thesis
    by (intro exI[of _ "concat ?cs"] exI[of _ "concat ?ds"] exI[of _ ?key1] exI[of _ "?key1\<lparr>iv := last ?ds\<rparr>"]
        exI[of _ ?l]) simp
qed

text \<open>A library whose block cipher is the identity.\<close>

fun chunks16 :: "byte list \<Rightarrow> byte list list" where
  "chunks16 bs = (if length bs < 16 then [] else take 16 bs # chunks16 (drop 16 bs))"

declare chunks16.simps [simp del]

lemma chunks16_concat: "blocks16 ps \<Longrightarrow> chunks16 (concat ps) = ps"
proof (induction ps)
  case (Cons p ps)
  have p: "length p = 16" and ps: "blocks16 ps" using Cons.prems by (simp_all add: blocks16_def)
  then show ?case using Cons.IH[OF ps] by (simp add: chunks16.simps[of "p @ concat ps"])
qed (simp add: chunks16.simps)

definition cbc_demo_lib :: libcrypto where
  "cbc_demo_lib = demo_lib\<lparr>lc_update := \<lambda>cx bs.
     Some (concat ((if cx_enc cx then cbc_enc (\<lambda>b. b) else cbc_dec (\<lambda>b. b)) (case_option [] (\<lambda>v. v) (cx_iv cx)) (chunks16 bs)))\<rparr>"

lemma cbc_demo: "cbc_library cbc_demo_lib k (\<lambda>b. b) (\<lambda>b. b)"
  by (simp add: cbc_library_def cbc_demo_lib_def chunks16_concat)

theorem encrypt_in_parts_witness:
  "\<exists>c1 c2 key1 key2.
    CryptEncrypt cbc_demo_lib demo_crypt_key False (replicate 16 5) 16 16 = Inr (True, c1, 16, key1) \<and>
    CryptEncrypt cbc_demo_lib key1 False (replicate 16 6) 16 16 = Inr (True, c2, 16, key2) \<and>
    CryptEncrypt cbc_demo_lib demo_crypt_key False (replicate 16 5 @ replicate 16 6) 32 32 = Inr (True, c1 @ c2, 32, key2)"
  using encrypt_in_parts[OF cbc_demo, of demo_crypt_key "replicate 16 7" "[replicate 16 5]" "[replicate 16 6]"]
  by (simp add: demo_crypt_key_def blocks16_def)

theorem decrypt_does_not_chain_witness:
  "\<exists>c1 c2 key1 key2 l.
    CryptEncrypt cbc_demo_lib demo_crypt_key False (replicate 16 5) 16 16 = Inr (True, c1, 16, key1) \<and>
    CryptEncrypt cbc_demo_lib key1 False (replicate 16 6) 16 16 = Inr (True, c2, 16, key2) \<and>
    CryptDecrypt cbc_demo_lib demo_crypt_key False c2 (length c2) =
      Inr (True, map2 (XOR) (map2 (XOR) (replicate 16 6) l) (replicate 16 0), 16, demo_crypt_key)"
proof -
  note r = decrypt_does_not_chain[OF cbc_demo, of demo_crypt_key "replicate 16 7" "[replicate 16 5]" "replicate 16 6" "[]"]
  show ?thesis using r by (simp add: demo_crypt_key_def blocks16_def) blast
qed

end
