(* ===== verification/Fprint_Device.thy ===== *)
theory Fprint_Device
  imports Fprint_Module Hidraw_Detect "HOL-Library.Multiset"
begin

text \<open>
  The life cycle of the device of the libfprint module: probing, opening and closing it
  (\<open>libfprint-tod/src/open.c\<close>), the calls to the host launcher (\<open>ipc.c\<close>, \<open>data.c\<close>), the handshake
  with a new host process, its death, the suspension of the system (\<open>suspend.c\<close>) and the clean-up
  (\<open>device.c\<close>).  Everything runs in one main loop, so a callback is one step.  What D-Bus, the kernel
  and libfprint answer during a step is a record of answers.  The descriptors that go along with the
  first message are not modelled.  The callback of a task runs when its result is returned.
\<close>

definition HIDRAW_PATH_MAX :: nat where "HIDRAW_PATH_MAX = 32"

section \<open>State\<close>

datatype bus_call =
    Bus_Inhibit | Bus_Launch string | Bus_Adopt string | Bus_Kill u32 | Bus_Orphan u32
  | Bus_LoadPairingData "byte list" | Bus_StorePairingData "byte list" "byte list"

datatype dev_error = Dev_err fp_error | Err_bus | Err_io | Err_not_supported

text \<open>The callbacks of \<open>open_device\<close> and \<open>close_device\<close>, and the callback that waits for a message.\<close>

datatype open_cb = Probe_open_cb | Dev_open_cb
datatype close_cb = Suspend_close_cb int | Close_cb
datatype dev_wait = No_wait | Init_recv open_cb | Probe_recv

datatype dev_report =
  Probe_complete "dev_error + byte list" | Open_complete "dev_error option" | Close_complete "dev_error option"

text \<open>
  \<open>md\<close> is the part of \<open>struct _FpiDeviceTudor\<close> the actions use.  \<open>ipc_cancel\<close> tells whether the
  cancellable is cancelled, \<open>suspends\<close> are the inhibitors of the suspensions that wait for an action
  (\<open>struct suspend_cancel_params\<close>), \<open>inhib_fds\<close> the inhibitors the process holds open.
\<close>

record fp_device =
  md :: module
  dbus_con :: bool
  cmd_fd :: int
  img_fd :: int
  hidraw_path :: "string option"
  host_id :: u32
  host_sleep_inhib :: int
  ipc_cancel :: "bool option"
  pdata_sensor_name :: "byte list option"
  close_task :: "close_cb option"
  close_timeout_src :: bool
  dev_wait :: dev_wait
  suspends :: "int list"
  inhib_fds :: "int list"
  bus_calls :: "bus_call list"
  dev_reports :: "dev_report list"

text \<open>
  The answers of the outside: a call that fails is \<open>None\<close> or \<open>False\<close>; a negative descriptor is one
  that could not be had; \<open>ans_loglvl\<close> is the number in \<open>TUDOR_LOGLVL\<close>, if there is one.
\<close>

record answers =
  ans_con :: bool
  ans_inhibit :: "int option"
  ans_adopt :: "(u32 \<times> int) option"
  ans_launch :: "(u32 \<times> int) option"
  ans_kill :: bool
  ans_orphan :: bool
  ans_cmd_open :: int
  ans_img_open :: int
  ans_sock :: bool
  ans_send :: bool
  ans_load :: "byte list option option"
  ans_store :: bool
  ans_fs :: sysfs
  ans_loglvl :: "int option"

definition set_has_id :: "bool \<Rightarrow> fp_device \<Rightarrow> fp_device" where
  "set_has_id b t = t\<lparr>md := (md t)\<lparr>host_has_id := b\<rparr>\<rparr>"

definition bus :: "bus_call \<Rightarrow> fp_device \<Rightarrow> fp_device" where
  "bus c t = t\<lparr>bus_calls := bus_calls t @ [c]\<rparr>"

definition dev_report :: "dev_report \<Rightarrow> fp_device \<Rightarrow> fp_device" where
  "dev_report r t = t\<lparr>dev_reports := dev_reports t @ [r]\<rparr>"

definition dev_send :: "answers \<Rightarrow> byte list \<Rightarrow> fp_device \<Rightarrow> dev_error option \<times> fp_device" where
  "dev_send a msg t =
     (case send_ipc_msg (ans_send a) msg (md t) of (e, m') \<Rightarrow> (map_option Dev_err e, t\<lparr>md := m'\<rparr>))"

section \<open>Sleep inhibitors\<close>

text \<open>Closing a descriptor that is not open fails the assertion.\<close>

definition close_sleep_inhibitor :: "int \<Rightarrow> fp_device \<Rightarrow> fp_device result" where
  "close_sleep_inhibitor fd t =
     (if fd \<in> List.set (inhib_fds t) then Inr (t\<lparr>inhib_fds := remove1 fd (inhib_fds t)\<rparr>) else Inl Abort)"

definition create_sleep_inhibitor :: "answers \<Rightarrow> fp_device \<Rightarrow> bool \<times> fp_device" where
  "create_sleep_inhibitor a t =
     (if 0 \<le> host_sleep_inhib t then (True, t)
      else case ans_inhibit a of
        None \<Rightarrow> (False, bus Bus_Inhibit t)
      | Some fd \<Rightarrow>
          (0 \<le> fd, (bus Bus_Inhibit t)\<lparr>host_sleep_inhib := fd,
             inhib_fds := (if 0 \<le> fd then [fd] else []) @ inhib_fds t\<rparr>))"

section \<open>The host launcher\<close>

definition open_dbus_con :: "answers \<Rightarrow> fp_device \<Rightarrow> bool \<times> fp_device" where
  "open_dbus_con a t =
     (if dbus_con t then (True, t) else if \<not> ans_con a then (False, t) else (True, t\<lparr>dbus_con := True\<rparr>))"

definition kill_host_process :: "answers \<Rightarrow> fp_device \<Rightarrow> (bool \<times> fp_device) result" where
  "kill_host_process a t =
     (if \<not> host_has_id (md t) then Inl Abort
      else let t1 = bus (Bus_Kill (host_id t)) t in
        Inr (if ans_kill a then (True, set_has_id False t1) else (False, t1)))"

definition orphan_host_process :: "answers \<Rightarrow> fp_device \<Rightarrow> (bool \<times> fp_device) result" where
  "orphan_host_process a t =
     (if \<not> host_has_id (md t) then Inl Abort
      else let t1 = bus (Bus_Orphan (host_id t)) t in
        Inr (if ans_orphan a then (True, set_has_id False t1) else (False, t1)))"

text \<open>The new host: its number is stored before its socket is looked at.\<close>

definition got_host :: "u32 \<Rightarrow> int \<Rightarrow> fp_device \<Rightarrow> bool \<times> fp_device" where
  "got_host hid sock_fd t =
     (if sock_fd < 0 then (False, t\<lparr>host_id := hid\<rparr>)
      else (True, t\<lparr>host_id := hid, md := (md t)\<lparr>host_has_id := True, host_dead := False\<rparr>\<rparr>))"

definition start_host_process :: "answers \<Rightarrow> string \<Rightarrow> fp_device \<Rightarrow> (bool \<times> fp_device) result" where
  "start_host_process a path t =
     (if host_has_id (md t) then Inl Abort
      else Inr (case ans_launch a of
          None \<Rightarrow> (False, bus (Bus_Launch path) t)
        | Some (hid, fd) \<Rightarrow> got_host hid fd (bus (Bus_Launch path) t)))"

text \<open>Number 0 means that there is no host to adopt, which is no error.\<close>

datatype adopted = Adopted | No_host | Adopt_failed

definition adopt_host_process :: "answers \<Rightarrow> string \<Rightarrow> fp_device \<Rightarrow> (adopted \<times> fp_device) result" where
  "adopt_host_process a path t =
     (if host_has_id (md t) then Inl Abort
      else let t1 = bus (Bus_Adopt path) t in
        Inr (case ans_adopt a of
          None \<Rightarrow> (Adopt_failed, t1)
        | Some (hid, fd) \<Rightarrow>
            if hid = 0 then (No_host, t1\<lparr>host_id := 0\<rparr>)
            else (case got_host hid fd t1 of (ok, t2) \<Rightarrow> (if ok then Adopted else Adopt_failed, t2))))"

section \<open>Closing\<close>

definition dispose_dev :: "answers \<Rightarrow> fp_device \<Rightarrow> fp_device result" where
  "dispose_dev a t =
     res_bind (if host_has_id (md t)
               then res_bind (kill_host_process a t) (\<lambda>(ok, t1). Inr (set_has_id False t1))
               else Inr t) (\<lambda>t1.
     res_bind (if 0 \<le> host_sleep_inhib t1
               then res_bind (close_sleep_inhibitor (host_sleep_inhib t1) t1) (\<lambda>t2. Inr (t2\<lparr>host_sleep_inhib := -1\<rparr>))
               else Inr t1) (\<lambda>t2.
     Inr (t2\<lparr>close_timeout_src := False, md := (md t2)\<lparr>db_records := [], has_socket := False\<rparr>,
             ipc_cancel := None, pdata_sensor_name := None, close_task := None\<rparr>)))"

text \<open>The result of a close task and its callback.\<close>

definition return_close :: "close_cb \<Rightarrow> dev_error option \<Rightarrow> fp_device \<Rightarrow> fp_device result" where
  "return_close cb r t =
     (case cb of
        Suspend_close_cb fd \<Rightarrow> close_sleep_inhibitor fd (dev_report (Close_complete r) t)
      | Close_cb \<Rightarrow> Inr (dev_report (Close_complete r) t))"

definition end_close :: "answers \<Rightarrow> dev_error option \<Rightarrow> fp_device \<Rightarrow> fp_device result" where
  "end_close a r t =
     (case close_task t of
        None \<Rightarrow> Inl Fault
      | Some cb \<Rightarrow> res_bind (return_close cb r t) (dispose_dev a))"

definition shutdown_timeout_cb :: "answers \<Rightarrow> fp_device \<Rightarrow> fp_device result" where
  "shutdown_timeout_cb a t = (if close_task t \<noteq> None then end_close a None t else Inr t)"

definition shutdown_host :: "answers \<Rightarrow> fp_device \<Rightarrow> fp_device result" where
  "shutdown_host a t =
     (case dev_send a (simple_msg IPC_MSG_SHUTDOWN) t of
        (Some e, t1) \<Rightarrow> end_close a (Some e) t1
      | (None, t1) \<Rightarrow> if close_timeout_src t1 then Inl Abort else Inr (t1\<lparr>close_timeout_src := True\<rparr>))"

definition close_device :: "answers \<Rightarrow> bool \<Rightarrow> close_cb \<Rightarrow> fp_device \<Rightarrow> fp_device result" where
  "close_device a orphan_host cb t =
     (if \<not> host_has_id (md t) \<or> host_dead (md t) \<or> \<not> has_socket (md t)
      then res_bind (dispose_dev a t) (return_close cb None)
      else
        let t1 = t\<lparr>close_task := Some cb\<rparr> in
        if orphan_host then
          res_bind (orphan_host_process a t1) (\<lambda>(ok, t2).
          if ok then end_close a None t2 else shutdown_host a t2)
        else shutdown_host a t1)"

definition host_died_signal_cb :: "answers \<Rightarrow> u32 \<Rightarrow> fp_device \<Rightarrow> fp_device result" where
  "host_died_signal_cb a hid t =
     (if \<not> host_has_id (md t) \<or> host_dead (md t) \<or> host_id t \<noteq> hid then Inr t
      else
        let t1 = t\<lparr>md := (md t)\<lparr>host_dead := True\<rparr>, ipc_cancel := map_option (\<lambda>_. True) (ipc_cancel t)\<rparr> in
        if close_task t1 \<noteq> None then end_close a None t1 else Inr t1)"

section \<open>Opening\<close>

definition dev_open_cb :: "dev_error option \<Rightarrow> fp_device \<Rightarrow> fp_device" where
  "dev_open_cb r t = dev_report (Open_complete r) (t\<lparr>dev_wait := No_wait\<rparr>)"

definition probe_failed :: "dev_error \<Rightarrow> fp_device \<Rightarrow> fp_device" where
  "probe_failed e t = dev_report (Probe_complete (Inl e)) (t\<lparr>dev_wait := No_wait\<rparr>)"

definition probe_open_cb :: "answers \<Rightarrow> dev_error option \<Rightarrow> fp_device \<Rightarrow> fp_device" where
  "probe_open_cb a r t =
     (case r of
        Some e \<Rightarrow> probe_failed e t
      | None \<Rightarrow>
          (case dev_send a (simple_msg IPC_MSG_PROBE) t of
             (Some e, t1) \<Rightarrow> probe_failed e t1
           | (None, t1) \<Rightarrow> t1\<lparr>dev_wait := Probe_recv\<rparr>))"

definition return_open :: "answers \<Rightarrow> open_cb \<Rightarrow> dev_error option \<Rightarrow> fp_device \<Rightarrow> fp_device" where
  "return_open a cb r t = (case cb of Probe_open_cb \<Rightarrow> probe_open_cb a r t | Dev_open_cb \<Rightarrow> dev_open_cb r t)"

definition fail_open :: "answers \<Rightarrow> open_cb \<Rightarrow> dev_error \<Rightarrow> fp_device \<Rightarrow> fp_device result" where
  "fail_open a cb e t = res_bind (dispose_dev a t) (\<lambda>t1. Inr (return_open a cb (Some e) t1))"

text \<open>A sensor name in a message ends at its first zero, and at the latest after 128 bytes.\<close>

definition msg_sensor_name :: "byte list \<Rightarrow> byte list" where
  "msg_sensor_name msg = takeWhile (\<lambda>b. b \<noteq> 0) (take IPC_SENSOR_NAME_SIZE (drop 4 msg))"

text \<open>The first name a host uses is the only one it may use.\<close>

definition check_sensor_name :: "byte list \<Rightarrow> fp_device \<Rightarrow> fp_device option" where
  "check_sensor_name name t =
     (case pdata_sensor_name t of
        None \<Rightarrow> Some (t\<lparr>pdata_sensor_name := Some name\<rparr>)
      | Some n \<Rightarrow> if n = name then Some t else None)"

text \<open>Pairing data that is too long ends the process: \<open>g_error\<close> is fatal.\<close>

definition init_load_pdata :: "answers \<Rightarrow> open_cb \<Rightarrow> byte list \<Rightarrow> fp_device \<Rightarrow> fp_device result" where
  "init_load_pdata a cb msg t =
     (if length msg < 136 then fail_open a cb (Dev_err Err_proto) t
      else case check_sensor_name (msg_sensor_name msg) t of
        None \<Rightarrow> fail_open a cb (Dev_err Err_proto) t
      | Some t1 \<Rightarrow>
          let t2 = bus (Bus_LoadPairingData (msg_sensor_name msg)) t1 in
          (case ans_load a of
             None \<Rightarrow> fail_open a cb Err_bus t2
           | Some pdata \<Rightarrow>
               if IPC_MAX_PDATA_SIZE < length (case_option [] (\<lambda>d. d) pdata) then Inl Abort
               else case dev_send a (resp_load_pdata_msg pdata) t2 of
                 (Some e, t3) \<Rightarrow> fail_open a cb e t3
               | (None, t3) \<Rightarrow> Inr (t3\<lparr>dev_wait := Init_recv cb\<rparr>)))"

definition init_store_pdata :: "answers \<Rightarrow> open_cb \<Rightarrow> byte list \<Rightarrow> fp_device \<Rightarrow> fp_device result" where
  "init_store_pdata a cb msg t =
     (if length msg < 136 then fail_open a cb (Dev_err Err_proto) t
      else case check_sensor_name (msg_sensor_name msg) t of
        None \<Rightarrow> fail_open a cb (Dev_err Err_proto) t
      | Some t1 \<Rightarrow>
          let pdata_len = length msg - 136 in
          if IPC_MAX_PDATA_SIZE < pdata_len then fail_open a cb (Dev_err Err_proto) t1
          else
            let t2 = bus (Bus_StorePairingData (msg_sensor_name msg) (take pdata_len (drop 133 msg))) t1 in
            if \<not> ans_store a then fail_open a cb Err_bus t2
            else case dev_send a (simple_msg IPC_MSG_ACK) t2 of
              (Some e, t3) \<Rightarrow> fail_open a cb e t3
            | (None, t3) \<Rightarrow> Inr (t3\<lparr>dev_wait := Init_recv cb\<rparr>))"

definition init_recv_cb :: "answers \<Rightarrow> open_cb \<Rightarrow> fp_error + byte list \<Rightarrow> fp_device \<Rightarrow> fp_device result" where
  "init_recv_cb a cb res t =
     (case res of
        Inl e \<Rightarrow> fail_open a cb (Dev_err e) t
      | Inr msg \<Rightarrow>
          (case msg_type_of (fld msg 0 4) of
             Some IPC_MSG_LOAD_PDATA \<Rightarrow> init_load_pdata a cb msg t
           | Some IPC_MSG_STORE_PDATA \<Rightarrow> init_store_pdata a cb msg t
           | Some IPC_MSG_READY \<Rightarrow> Inr (return_open a cb None t)
           | _ \<Rightarrow> fail_open a cb (Dev_err Err_proto) t))"

text \<open>The level is an unsigned enumeration: a negative number is above the highest level.\<close>

definition init_log_level :: "int option \<Rightarrow> u32" where
  "init_log_level env =
     (case env of None \<Rightarrow> 2 | Some n \<Rightarrow> (let l = (word_of_int n :: u32) in if 4 < l then 4 else l))"

definition init_msg :: "u32 \<Rightarrow> bool \<Rightarrow> byte list" where
  "init_msg loglvl has_img = word_le 4 (msg_code IPC_MSG_INIT) @ word_le 4 loglvl @ [bool_byte has_img, 0, 0, 0]"

definition open_channels :: "answers \<Rightarrow> string \<Rightarrow> fp_device \<Rightarrow> (bool \<times> fp_device) result" where
  "open_channels a path t =
     (let t1 = (if cmd_fd t < 0 then t\<lparr>cmd_fd := ans_cmd_open a\<rparr> else t) in
      if cmd_fd t1 < 0 then Inr (False, t1)
      else if 0 \<le> img_fd t1 then Inr (True, t1)
      else
        res_bind (hidraw_find_image_partner (ans_fs a) path HIDRAW_PATH_MAX) (\<lambda>p.
        Inr (True, if p = None then t1 else t1\<lparr>img_fd := ans_img_open a\<rparr>)))"

definition init_host_proc :: "answers \<Rightarrow> string \<Rightarrow> open_cb \<Rightarrow> fp_device \<Rightarrow> fp_device result" where
  "init_host_proc a path cb t =
     res_bind (open_channels a path t) (\<lambda>(ok, t1).
     if \<not> ok then fail_open a cb Err_io t1
     else case dev_send a (init_msg (init_log_level (ans_loglvl a)) (0 \<le> img_fd t1)) t1 of
         (Some e, t2) \<Rightarrow> fail_open a cb e t2
       | (None, t2) \<Rightarrow> Inr (t2\<lparr>pdata_sensor_name := None, dev_wait := Init_recv cb\<rparr>))"

text \<open>The part of \<open>open_device\<close> behind the launch or adoption of a host.\<close>

definition connect_host :: "answers \<Rightarrow> string \<Rightarrow> bool \<Rightarrow> open_cb \<Rightarrow> fp_device \<Rightarrow> fp_device result" where
  "connect_host a path did_adopt cb t =
     (if \<not> ans_sock a then fail_open a cb Err_io (t\<lparr>md := (md t)\<lparr>has_socket := False\<rparr>\<rparr>)
      else
        let t1 = t\<lparr>md := (md t)\<lparr>has_socket := True\<rparr>, ipc_cancel := Some False\<rparr> in
        if did_adopt then Inr (return_open a cb None t1) else init_host_proc a path cb t1)"

definition get_host :: "answers \<Rightarrow> string \<Rightarrow> open_cb \<Rightarrow> fp_device \<Rightarrow> fp_device result" where
  "get_host a path cb t =
     res_bind (adopt_host_process a path t) (\<lambda>(r, t1).
     case r of
       Adopt_failed \<Rightarrow> fail_open a cb Err_bus t1
     | Adopted \<Rightarrow> connect_host a path True cb t1
     | No_host \<Rightarrow>
         res_bind (start_host_process a path t1) (\<lambda>(ok, t2).
         if \<not> ok then fail_open a cb Err_bus t2 else connect_host a path False cb t2))"

definition open_device :: "answers \<Rightarrow> open_cb \<Rightarrow> fp_device \<Rightarrow> fp_device result" where
  "open_device a cb t =
     (if host_has_id (md t) then Inr (return_open a cb None t)
      else case open_dbus_con a t of
        (False, t1) \<Rightarrow> fail_open a cb Err_bus t1
      | (True, t1) \<Rightarrow>
          (case create_sleep_inhibitor a t1 of
             (False, t2) \<Rightarrow> fail_open a cb Err_bus t2
           | (True, t2) \<Rightarrow>
               (case hidraw_path t2 of None \<Rightarrow> Inl Fault | Some path \<Rightarrow> get_host a path cb t2)))"

definition probe_recv_cb :: "fp_error + byte list \<Rightarrow> fp_device \<Rightarrow> fp_device" where
  "probe_recv_cb res t =
     (case res of
        Inl e \<Rightarrow> probe_failed (Dev_err e) t
      | Inr msg \<Rightarrow>
          if msg_type_of (fld msg 0 4) \<noteq> Some IPC_MSG_RESP_PROBE then probe_failed (Dev_err Err_proto) t
          else if length msg < 136 then probe_failed (Dev_err Err_proto) t
          else dev_report (Probe_complete (Inr (msg_sensor_name msg))) (t\<lparr>dev_wait := No_wait\<rparr>))"

text \<open>\<open>udev_path\<close> is what udev gives libfprint.\<close>

definition fpi_device_tudor_probe :: "answers \<Rightarrow> string option \<Rightarrow> fp_device \<Rightarrow> fp_device result" where
  "fpi_device_tudor_probe a udev_path t =
     (case udev_path of
        None \<Rightarrow> Inr (probe_failed Err_not_supported t)
      | Some p \<Rightarrow>
          res_bind (hidraw_find_fp_command_sibling (ans_fs a) p HIDRAW_PATH_MAX) (\<lambda>r.
          case r of
            None \<Rightarrow> Inr (probe_failed Err_not_supported t)
          | Some path \<Rightarrow> open_device a Probe_open_cb (t\<lparr>hidraw_path := Some path\<rparr>)))"

definition fpi_device_tudor_open :: "answers \<Rightarrow> fp_device \<Rightarrow> fp_device result" where
  "fpi_device_tudor_open a t = open_device a Dev_open_cb t"

text \<open>Closing the device for libfprint leaves the host running.\<close>

definition fpi_device_tudor_close :: "fp_device \<Rightarrow> fp_device" where
  "fpi_device_tudor_close t = t"

section \<open>Suspension\<close>

text \<open>Whether libfprint runs an action: probing, opening or one of \<open>Fprint_Module\<close>.\<close>

definition current_action :: "fp_device \<Rightarrow> bool" where
  "current_action t \<longleftrightarrow> dev_wait t \<noteq> No_wait \<or> waiting (md t) \<noteq> Idle"

definition suspend_dev :: "answers \<Rightarrow> int \<Rightarrow> fp_device \<Rightarrow> fp_device result" where
  "suspend_dev a sleep_inhib t =
     (if host_has_id (md t) \<and> \<not> host_dead (md t) then close_device a False (Suspend_close_cb sleep_inhib) t
      else close_sleep_inhibitor sleep_inhib t)"

definition suspend_signal_cb :: "answers \<Rightarrow> bool \<Rightarrow> fp_device \<Rightarrow> fp_device result" where
  "suspend_signal_cb a enter_sleep t =
     (if \<not> enter_sleep then Inr t
      else
        let sleep_inhib = host_sleep_inhib t;
            t1 = t\<lparr>host_sleep_inhib := -1\<rparr> in
        if current_action t1
        then Inr (t1\<lparr>md := invoke_cancel_handler (ans_send a) (md t1), suspends := suspends t1 @ [sleep_inhib]\<rparr>)
        else suspend_dev a sleep_inhib t1)"

text \<open>The monitor of the \<open>i\<close>th suspension that waits runs while the loop is idle.\<close>

definition suspend_monitor_cb :: "answers \<Rightarrow> nat \<Rightarrow> fp_device \<Rightarrow> fp_device result" where
  "suspend_monitor_cb a i t =
     (if current_action t then Inr t
      else
        let fd = suspends t ! i;
            t1 = t\<lparr>suspends := take i (suspends t) @ drop (Suc i) (suspends t)\<rparr> in
        if 0 \<le> fd then suspend_dev a fd t1 else Inr t1)"

definition suspend_timeout_cb :: "answers \<Rightarrow> fp_device \<Rightarrow> fp_device result" where
  "suspend_timeout_cb a t = res_bind (kill_host_process a t) (\<lambda>(ok, t1). Inr t1)"

section \<open>Clean-up\<close>

text \<open>\<open>ensure_closed\<close> runs the loop until the callback of the close has been called.\<close>

definition ensure_closed :: "answers \<Rightarrow> fp_device \<Rightarrow> fp_device result" where
  "ensure_closed a t = (if host_has_id (md t) then close_device a False Close_cb t else Inr t)"

definition fpi_device_tudor_init :: "module \<Rightarrow> fp_device" where
  "fpi_device_tudor_init m =
     \<lparr>md = m\<lparr>host_has_id := False, has_socket := False, cancel_handler := False, has_canceled := False,
        db_records := [], waiting := Idle\<rparr>,
      dbus_con = False, cmd_fd = -1, img_fd = -1, hidraw_path = None, host_id = 0, host_sleep_inhib = -1,
      ipc_cancel = None, pdata_sensor_name = None, close_task = None, close_timeout_src = False,
      dev_wait = No_wait, suspends = [], inhib_fds = [], bus_calls = [], dev_reports = []\<rparr>"

section \<open>Steps\<close>

text \<open>
  What reaches the device: libfprint probes, opens and closes it, a message arrives or the wait for
  one fails, the launcher reports the death of a host, timers run out, the system goes to sleep, the
  loop is idle, and the object is disposed of.  An action of \<open>Fprint_Module\<close> goes on.
\<close>

datatype dev_event =
    Ev_probe "string option" | Ev_open | Ev_close
  | Ev_message "byte list option"
  | Ev_action module_event
  | Ev_host_died u32
  | Ev_shutdown_timeout
  | Ev_sleep bool | Ev_idle nat | Ev_suspend_timeout
  | Ev_dispose

fun dev_step :: "answers \<Rightarrow> dev_event \<Rightarrow> fp_device \<Rightarrow> fp_device result" where
  "dev_step a (Ev_probe p) t = (if current_action t then Inr t else fpi_device_tudor_probe a p t)"
| "dev_step a Ev_open t = (if current_action t then Inr t else fpi_device_tudor_open a t)"
| "dev_step a Ev_close t = Inr (fpi_device_tudor_close t)"
| "dev_step a (Ev_message incoming) t =
     (case dev_wait t of
        No_wait \<Rightarrow> Inr t
      | Init_recv cb \<Rightarrow> init_recv_cb a cb (sock_ready incoming (md t)) t
      | Probe_recv \<Rightarrow> Inr (probe_recv_cb (sock_ready incoming (md t)) t))"
| "dev_step a (Ev_action ev) t =
     (if dev_wait t = No_wait \<and> ev \<noteq> Host_died then Inr (t\<lparr>md := module_step (ans_send a) ev (md t)\<rparr>) else Inr t)"
| "dev_step a (Ev_host_died hid) t = host_died_signal_cb a hid t"
| "dev_step a Ev_shutdown_timeout t = (if close_timeout_src t then shutdown_timeout_cb a t else Inr t)"
| "dev_step a (Ev_sleep enter) t = suspend_signal_cb a enter t"
| "dev_step a (Ev_idle i) t = (if i < length (suspends t) then suspend_monitor_cb a i t else Inr t)"
| "dev_step a Ev_suspend_timeout t = (if suspends t \<noteq> [] then suspend_timeout_cb a t else Inr t)"
| "dev_step a Ev_dispose t = ensure_closed a t"

fun dev_run :: "(answers \<times> dev_event) list \<Rightarrow> fp_device \<Rightarrow> fp_device result" where
  "dev_run [] t = Inr t"
| "dev_run ((a, e) # es) t = res_bind (dev_step a e t) (dev_run es)"

section \<open>Actions do not touch the host\<close>

text \<open>What the actions of \<open>Fprint_Module\<close> leave alone.\<close>

named_theorems host_simps "which host the module has, through its operations"

definition the_host :: "module \<Rightarrow> bool \<times> bool \<times> bool" where
  "the_host m = (host_has_id m, host_dead m, has_socket m)"

lemma the_host_updates [host_simps]:
  "the_host (m\<lparr>waiting := k\<rparr>) = the_host m" "the_host (m\<lparr>db_records := db\<rparr>) = the_host m"
  "the_host (m\<lparr>mod_sent := s\<rparr>) = the_host m" "the_host (m\<lparr>cancellable := b\<rparr>) = the_host m"
  "the_host (m\<lparr>next_obj := n\<rparr>) = the_host m" "the_host (m\<lparr>reports := r\<rparr>) = the_host m"
  "the_host (m\<lparr>cancel_handler := b\<rparr>) = the_host m" "the_host (m\<lparr>has_canceled := b\<rparr>) = the_host m"
  by (simp_all add: the_host_def)

lemma the_host_report [host_simps]: "the_host (report r m) = the_host m"
  by (simp add: report_def host_simps)

lemma the_host_end_action [host_simps]: "the_host (end_action r m) = the_host m"
  by (simp add: end_action_def unregister_cancel_handler_def host_simps)

lemma the_host_send [host_simps]: "send_ipc_msg io msg m = (e, m') \<Longrightarrow> the_host m' = the_host m"
  by (auto simp: send_ipc_msg_def host_simps split: if_splits)

lemma the_host_send_acked [host_simps]: "the_host (send_acked io msg k fail m) = the_host m"
  by (cases "send_ipc_msg io msg m") (auto simp: send_acked_def host_simps the_host_send split: option.splits)

lemma the_host_insert [host_simps]: "the_host (insert_db_record rec m) = the_host m"
  by (simp add: insert_db_record_def host_simps)

lemma the_host_new_record: "new_record g f d p m = (rec, m') \<Longrightarrow> the_host m' = the_host m"
  by (auto simp: new_record_def host_simps)

lemma the_host_load_record: "load_record io rec m = (r, m') \<Longrightarrow> the_host m' = the_host m"
  by (auto simp: load_record_def the_host_send split: option.splits if_splits prod.splits)

lemma the_host_verify_loaded [host_simps]: "the_host (verify_loaded io g f m) = the_host m"
  by (simp add: verify_loaded_def host_simps)

lemma the_host_load_next_print [host_simps]: "the_host (load_next_print io ps m) = the_host m"
proof (induction io ps m rule: load_next_print.induct)
  case (1 io ps m)
  show ?case
  proof (cases "ip_next ps \<ge> length (ip_prints ps)")
    case True
    then show ?thesis by (simp add: load_next_print.simps host_simps)
  next
    case False
    let ?p = "fst (ip_prints ps ! ip_next ps)"
    show ?thesis
    proof (cases "parse_print_data ?p")
      case None
      then show ?thesis using False by (simp add: load_next_print.simps[of io ps m] host_simps Let_def)
    next
      case (Some x)
      obtain g f d where x: "x = (g, f, d)" by (cases x)
      obtain rec m1 where n: "new_record g f d (print_id ?p) m = (rec, m1)" by fastforce
      obtain r m2 where l: "load_record io rec m1 = (r, m2)" by fastforce
      have m2: "the_host m2 = the_host m" using the_host_new_record[OF n] the_host_load_record[OF l] by simp
      note IH = 1[OF False refl Some[unfolded x] refl refl n[symmetric] l[symmetric]]
      show ?thesis
        using False Some x n l m2 IH
        by (cases r) (simp_all add: load_next_print.simps[of io ps m] host_simps Let_def)
    qed
  qed
qed

lemma the_host_enroll_fail [host_simps]: "the_host (enroll_fail e m) = the_host m"
  by (simp add: enroll_fail_def host_simps)

lemma the_host_await [host_simps]: "the_host (await_result k m) = the_host m"
  by (simp add: await_result_def register_cancel_handler_def host_simps)

lemma the_host_acked [host_simps]:
  "the_host (delete_acked_cb g f err m) = the_host m" "the_host (clear_storage_acked_cb err m) = the_host m"
  by (simp_all add: delete_acked_cb_def clear_storage_acked_cb_def host_simps split: option.split)

text \<open>A result is a message of one of two types or an error.\<close>

lemma reply_cases:
  fixes x :: "ipc_msg_type option"
  assumes "P a" and "P b" and "P c"
  shows "P (case x of Some IPC_MSG_ACK \<Rightarrow> a | Some IPC_MSG_RESP_VERIFY \<Rightarrow> b | _ \<Rightarrow> c)"
    and "P (case x of Some IPC_MSG_ACK \<Rightarrow> a | Some IPC_MSG_RESP_IDENTIFY \<Rightarrow> b | _ \<Rightarrow> c)"
    and "P (case x of Some IPC_MSG_ACK \<Rightarrow> a | Some IPC_MSG_RESP_ENROLL \<Rightarrow> b | _ \<Rightarrow> c)"
  using assms by (simp_all split: option.split ipc_msg_type.split)

lemma the_host_verify_recv [host_simps]: "the_host (verify_recv_cb res m) = the_host m"
proof (cases res)
  case (Inr msg)
  show ?thesis unfolding verify_recv_cb_def Inr sum.case
    by (rule reply_cases(1)) (simp_all add: host_simps)
qed (simp add: verify_recv_cb_def host_simps)

lemma the_host_identify_recv [host_simps]: "the_host (identify_recv_cb ps res m) = the_host m"
proof (cases res)
  case (Inr msg)
  show ?thesis unfolding identify_recv_cb_def Inr sum.case
    by (rule reply_cases(2)) (simp_all add: host_simps split: option.split)
qed (simp add: identify_recv_cb_def host_simps)

lemma the_host_enroll_recv [host_simps]: "the_host (enroll_recv_cb ps res m) = the_host m"
proof (cases res)
  case (Inr msg)
  show ?thesis unfolding enroll_recv_cb_def Inr sum.case
    by (rule reply_cases(3)) (simp_all add: new_record_def host_simps)
qed (simp add: enroll_recv_cb_def host_simps)

lemma the_host_recv [host_simps]: "the_host (module_recv io incoming m) = the_host m"
  by (simp add: module_recv_def host_simps Let_def split: pending.split option.split)

lemma the_host_cancel [host_simps]:
  "the_host (invoke_cancel_handler io m) = the_host m" "the_host (cancel_action io m) = the_host m"
proof -
  have h: "the_host (invoke_cancel_handler io m) = the_host m" for m
    by (cases "send_ipc_msg io (simple_msg IPC_MSG_CANCEL) m")
      (auto simp: invoke_cancel_handler_def host_simps the_host_send split: option.splits)
  show "the_host (invoke_cancel_handler io m) = the_host m" by (rule h)
  show "the_host (cancel_action io m) = the_host m"
    by (simp add: cancel_action_def h host_simps)
qed

lemma the_host_verify [host_simps]: "the_host (fpi_device_tudor_verify io p m) = the_host m"
proof (cases "parse_print_data p")
  case (Some x)
  obtain g f d where x: "x = (g, f, d)" by (cases x)
  let ?m = "m\<lparr>cancellable := False\<rparr>"
  obtain rec m1 where n: "new_record g f d (print_id p) ?m = (rec, m1)" by fastforce
  obtain r m2 where l: "load_record io rec m1 = (r, m2)" by fastforce
  have "the_host m2 = the_host m"
    using the_host_new_record[OF n] the_host_load_record[OF l] by (simp add: host_simps)
  then show ?thesis
    using Some x n l by (cases r) (simp_all add: fpi_device_tudor_verify_def Let_def host_simps)
qed (simp add: fpi_device_tudor_verify_def Let_def host_simps)

lemma the_host_starts [host_simps]:
  "the_host (fpi_device_tudor_identify io ps m) = the_host m"
  "the_host (fpi_device_tudor_enroll io g fp p m) = the_host m"
  "the_host (fpi_device_tudor_delete io p m) = the_host m"
  "the_host (fpi_device_clear_storage io m) = the_host m"
  by (simp_all add: fpi_device_tudor_identify_def fpi_device_tudor_enroll_def fpi_device_tudor_delete_def
      fpi_device_clear_storage_def Let_def host_simps split: option.split)

lemma the_host_step: "ev \<noteq> Host_died \<Longrightarrow> the_host (module_step io ev m) = the_host m"
  by (cases ev) (simp_all add: module_step_def host_simps)

section \<open>The device stays well-formed\<close>

text \<open>
  The inhibitors the process holds are those of the device, of a close in progress and of the
  suspensions that wait; the timer of a close runs as long as its task, and while a close is in
  progress the host is there and no opening waits for it.
\<close>

definition close_fds :: "fp_device \<Rightarrow> int list" where
  "close_fds t = (case close_task t of Some (Suspend_close_cb fd) \<Rightarrow> [fd] | _ \<Rightarrow> [])"

definition holds :: "int list \<Rightarrow> fp_device \<Rightarrow> bool" where
  "holds fds t \<longleftrightarrow> mset (inhib_fds t) = mset (filter (\<lambda>fd. 0 \<le> fd) (host_sleep_inhib t # fds @ suspends t))"

definition dev_inv :: "fp_device \<Rightarrow> bool" where
  "dev_inv t \<longleftrightarrow> holds (close_fds t) t \<and> (\<forall>fd \<in> List.set (close_fds t). 0 \<le> fd) \<and>
     (close_timeout_src t \<longleftrightarrow> close_task t \<noteq> None) \<and>
     (close_task t \<noteq> None \<longrightarrow> host_has_id (md t) \<and> (\<forall>cb. dev_wait t \<noteq> Init_recv cb))"

text \<open>Openings that have ended and those that go on.\<close>

fun ends_open :: "dev_report \<Rightarrow> bool" where
  "ends_open (Probe_complete r) = True"
| "ends_open (Open_complete r) = True"
| "ends_open (Close_complete r) = False"

definition opens_seen :: "fp_device \<Rightarrow> nat" where
  "opens_seen t = length (filter ends_open (dev_reports t)) + (if dev_wait t = No_wait then 0 else 1)"

text \<open>What a closed device looks like, given that its inhibitor is open.\<close>

definition disposed :: "fp_device \<Rightarrow> fp_device" where
  "disposed t = t\<lparr>bus_calls := bus_calls t @ (if host_has_id (md t) then [Bus_Kill (host_id t)] else []),
     inhib_fds := (if 0 \<le> host_sleep_inhib t then remove1 (host_sleep_inhib t) (inhib_fds t) else inhib_fds t),
     host_sleep_inhib := (if 0 \<le> host_sleep_inhib t then -1 else host_sleep_inhib t),
     close_timeout_src := False, md := (md t)\<lparr>host_has_id := False, db_records := [], has_socket := False\<rparr>,
     ipc_cancel := None, pdata_sensor_name := None, close_task := None\<rparr>"

lemma dispose_eq:
  assumes "0 \<le> host_sleep_inhib t \<Longrightarrow> host_sleep_inhib t \<in> List.set (inhib_fds t)"
  shows "dispose_dev a t = Inr (disposed t)"
  using assms
  by (simp add: dispose_dev_def disposed_def kill_host_process_def close_sleep_inhibitor_def set_has_id_def bus_def Let_def)

lemma holds_dispose: "holds fds t \<Longrightarrow> dispose_dev a t = Inr (disposed t)"
proof (rule dispose_eq)
  assume h: "holds fds t" and "0 \<le> host_sleep_inhib t"
  then have "host_sleep_inhib t \<in># mset (inhib_fds t)" by (simp add: holds_def)
  then show "host_sleep_inhib t \<in> List.set (inhib_fds t)" by simp
qed

lemma holds_disposed: "holds fds t \<Longrightarrow> holds fds (disposed t)"
  by (auto simp: holds_def disposed_def)

lemma disposed_fields [simp]:
  "close_task (disposed t) = None" "close_timeout_src (disposed t) = False" "suspends (disposed t) = suspends t"
  "dev_wait (disposed t) = dev_wait t" "dev_reports (disposed t) = dev_reports t"
  "host_has_id (md (disposed t)) = False" "has_socket (md (disposed t)) = False"
  "db_records (md (disposed t)) = []" "waiting (md (disposed t)) = waiting (md t)"
  "close_fds (disposed t) = []" "opens_seen (disposed t) = opens_seen t"
  by (simp_all add: disposed_def close_fds_def opens_seen_def)

lemma disposed_inhib: "host_sleep_inhib (disposed t) < 0"
  by (simp add: disposed_def)

lemma disposed_inv: "holds [] t \<Longrightarrow> dev_inv (disposed t)"
  using holds_disposed[of "[]" t] by (simp add: dev_inv_def)

lemma close_inhibitor_holds:
  assumes "holds (fd # fds) t" and "0 \<le> fd"
  shows "close_sleep_inhibitor fd t = Inr (t\<lparr>inhib_fds := remove1 fd (inhib_fds t)\<rparr>)"
    and "holds fds (t\<lparr>inhib_fds := remove1 fd (inhib_fds t)\<rparr>)"
proof -
  have "fd \<in># mset (inhib_fds t)" using assms by (simp add: holds_def)
  then have "fd \<in> List.set (inhib_fds t)" by simp
  then show "close_sleep_inhibitor fd t = Inr (t\<lparr>inhib_fds := remove1 fd (inhib_fds t)\<rparr>)"
    by (simp add: close_sleep_inhibitor_def)
  show "holds fds (t\<lparr>inhib_fds := remove1 fd (inhib_fds t)\<rparr>)" using assms by (simp add: holds_def)
qed

lemma dev_report_holds [simp]: "holds fds (dev_report r t) = holds fds t"
  by (simp add: holds_def dev_report_def)

lemma md_update [simp]:
  "holds fds (t\<lparr>md := m\<rparr>) = holds fds t" "close_fds (t\<lparr>md := m\<rparr>) = close_fds t"
  "opens_seen (t\<lparr>md := m\<rparr>) = opens_seen t" "md (t\<lparr>md := m\<rparr>) = m"
  by (simp_all add: holds_def close_fds_def opens_seen_def)

lemma dev_inv_md: "dev_inv t \<Longrightarrow> host_has_id m = host_has_id (md t) \<Longrightarrow> dev_inv (t\<lparr>md := m\<rparr>)"
  by (simp add: dev_inv_def)

lemma dev_inv_no_task: "dev_inv t \<Longrightarrow> close_task t = None \<Longrightarrow> holds [] t"
  by (simp add: dev_inv_def close_fds_def)

text \<open>The end of a close, its callback included.\<close>

lemma end_close_ok:
  assumes "holds (close_fds t) t" and "\<forall>fd \<in> List.set (close_fds t). 0 \<le> fd" and "close_task t \<noteq> None"
  shows "\<exists>t'. end_close a r t = Inr t' \<and> dev_inv t' \<and> opens_seen t' = opens_seen t \<and>
    \<not> host_has_id (md t') \<and> host_sleep_inhib t' < 0 \<and> suspends t' = suspends t \<and> dev_wait t' = dev_wait t \<and>
    waiting (md t') = waiting (md t)"
proof -
  obtain cb where cb: "close_task t = Some cb" using assms(3) by blast
  obtain t1 where t1: "return_close cb r t = Inr t1" "holds [] t1" "opens_seen t1 = opens_seen t"
      "suspends t1 = suspends t" "dev_wait t1 = dev_wait t" "waiting (md t1) = waiting (md t)"
  proof (cases cb)
    case (Suspend_close_cb fd)
    let ?t = "dev_report (Close_complete r) t"
    have f: "holds [fd] ?t" "0 \<le> fd"
      using assms cb Suspend_close_cb by (auto simp: close_fds_def)
    have "return_close cb r t = Inr (?t\<lparr>inhib_fds := remove1 fd (inhib_fds ?t)\<rparr>)"
      using close_inhibitor_holds(1)[OF f] Suspend_close_cb by (simp add: return_close_def)
    then show ?thesis
      by (rule that[OF _ close_inhibitor_holds(2)[OF f]]) (simp_all add: dev_report_def opens_seen_def)
  next
    case Close_cb
    have "holds [] t" using assms cb Close_cb by (simp add: close_fds_def)
    then show ?thesis
      using Close_cb that[of "dev_report (Close_complete r) t"]
      by (simp add: return_close_def, simp add: dev_report_def opens_seen_def)
  qed
  have "end_close a r t = Inr (disposed t1)"
    using cb t1(1) holds_dispose[OF t1(2)] by (simp add: end_close_def)
  then show ?thesis
    using t1 disposed_inv[OF t1(2)] disposed_inhib[of t1] by simp
qed

lemma dev_send_fields:
  assumes "dev_send a msg t = (e, t')"
  shows "\<exists>m. t' = t\<lparr>md := m\<rparr> \<and> the_host m = the_host (md t) \<and> waiting m = waiting (md t)"
proof -
  obtain r m where s: "send_ipc_msg (ans_send a) msg (md t) = (r, m)" by fastforce
  have "waiting m = waiting (md t)" using s by (auto simp: send_ipc_msg_def split: if_splits)
  then show ?thesis using assms s the_host_send[OF s] by (auto simp: dev_send_def)
qed

text \<open>Closing a device whose host is there starts a close or ends it at once.\<close>

definition cb_fds :: "close_cb \<Rightarrow> int list" where
  "cb_fds cb = (case cb of Suspend_close_cb fd \<Rightarrow> [fd] | Close_cb \<Rightarrow> [])"

lemma shutdown_host_ok:
  assumes "holds (close_fds t) t" and "\<forall>fd \<in> List.set (close_fds t). 0 \<le> fd" and "close_task t \<noteq> None"
    and "\<not> close_timeout_src t" and "host_has_id (md t)" and "\<forall>cb. dev_wait t \<noteq> Init_recv cb"
  shows "\<exists>t'. shutdown_host a t = Inr t' \<and> dev_inv t' \<and> opens_seen t' = opens_seen t"
proof -
  obtain e t1 where s: "dev_send a (simple_msg IPC_MSG_SHUTDOWN) t = (e, t1)" by fastforce
  obtain m where m: "t1 = t\<lparr>md := m\<rparr>" "the_host m = the_host (md t)" using dev_send_fields[OF s] by blast
  show ?thesis
  proof (cases e)
    case None
    have "dev_inv (t1\<lparr>close_timeout_src := True\<rparr>)"
      using assms m by (simp add: dev_inv_def holds_def close_fds_def the_host_def)
    then show ?thesis using None s m assms(4) by (simp add: shutdown_host_def opens_seen_def)
  next
    case (Some x)
    have "holds (close_fds t1) t1" "\<forall>fd \<in> List.set (close_fds t1). 0 \<le> fd" "close_task t1 \<noteq> None"
      using assms m(1) by simp_all
    from end_close_ok[OF this, of a "Some x"] show ?thesis
      using Some s m(1) by (auto simp: shutdown_host_def)
  qed
qed

lemma close_device_ok:
  assumes "holds (cb_fds cb) t" and "\<forall>fd \<in> List.set (cb_fds cb). 0 \<le> fd" and "close_task t = None"
    and "\<not> close_timeout_src t" and "\<forall>cb. dev_wait t \<noteq> Init_recv cb"
  shows "\<exists>t'. close_device a False cb t = Inr t' \<and> dev_inv t' \<and> opens_seen t' = opens_seen t"
proof (cases "\<not> host_has_id (md t) \<or> host_dead (md t) \<or> \<not> has_socket (md t)")
  case True
  have d: "dispose_dev a t = Inr (disposed t)" by (rule holds_dispose[OF assms(1)])
  let ?t = "dev_report (Close_complete None) (disposed t)"
  have h: "holds (cb_fds cb) ?t" using holds_disposed[OF assms(1)] by simp
  have f: "close_task ?t = None" "close_fds ?t = []" "\<not> close_timeout_src ?t" "opens_seen ?t = opens_seen t"
    by (simp_all add: dev_report_def close_fds_def opens_seen_def)
  show ?thesis
  proof (cases cb)
    case (Suspend_close_cb fd)
    then have "holds [fd] ?t" "0 \<le> fd" using h assms(2) by (simp_all add: cb_fds_def)
    note c = close_inhibitor_holds[OF this]
    have "dev_inv (?t\<lparr>inhib_fds := remove1 fd (inhib_fds ?t)\<rparr>)"
      using c(2) f by (simp add: dev_inv_def close_fds_def)
    then show ?thesis
      using True d c(1) f(4) Suspend_close_cb by (simp add: close_device_def return_close_def opens_seen_def)
  next
    case Close_cb
    then have "dev_inv ?t" using h f by (simp add: dev_inv_def cb_fds_def)
    then show ?thesis using True d f(4) Close_cb by (simp add: close_device_def return_close_def)
  qed
next
  case False
  let ?t = "t\<lparr>close_task := Some cb\<rparr>"
  have "close_fds ?t = cb_fds cb" by (simp add: close_fds_def cb_fds_def split: close_cb.split)
  then have "holds (close_fds ?t) ?t" "\<forall>fd \<in> List.set (close_fds ?t). 0 \<le> fd"
    using assms(1,2) by (simp_all add: holds_def)
  then have "\<exists>t'. shutdown_host a ?t = Inr t' \<and> dev_inv t' \<and> opens_seen t' = opens_seen ?t"
    using assms(4,5) False by (intro shutdown_host_ok) simp_all
  then show ?thesis using False by (simp add: close_device_def opens_seen_def)
qed

text \<open>A device that is not being closed.\<close>

definition free :: "fp_device \<Rightarrow> bool" where
  "free t \<longleftrightarrow> holds [] t \<and> close_task t = None \<and> \<not> close_timeout_src t"

definition reported :: "fp_device \<Rightarrow> nat" where
  "reported t = length (filter ends_open (dev_reports t))"

lemma free_inv: "free t \<Longrightarrow> dev_inv t"
  by (simp add: free_def dev_inv_def close_fds_def)

lemma inv_free: "dev_inv t \<Longrightarrow> close_task t = None \<Longrightarrow> free t"
  by (simp add: free_def dev_inv_def close_fds_def)

lemma free_updates [simp]:
  "free (t\<lparr>md := m\<rparr>) = free t" "free (t\<lparr>host_id := h\<rparr>) = free t" "free (t\<lparr>bus_calls := c\<rparr>) = free t"
  "free (t\<lparr>pdata_sensor_name := n\<rparr>) = free t" "free (t\<lparr>ipc_cancel := i\<rparr>) = free t"
  "free (t\<lparr>cmd_fd := fd\<rparr>) = free t" "free (t\<lparr>img_fd := fd\<rparr>) = free t" "free (t\<lparr>dbus_con := b\<rparr>) = free t"
  "free (t\<lparr>dev_wait := w\<rparr>) = free t" "free (t\<lparr>hidraw_path := p\<rparr>) = free t" "free (bus bc t) = free t"
  by (simp_all add: free_def holds_def bus_def)

lemma reported_updates [simp]:
  "reported (t\<lparr>md := m\<rparr>) = reported t" "reported (t\<lparr>host_id := h\<rparr>) = reported t"
  "reported (t\<lparr>pdata_sensor_name := n\<rparr>) = reported t" "reported (t\<lparr>ipc_cancel := i\<rparr>) = reported t"
  "reported (t\<lparr>cmd_fd := fd\<rparr>) = reported t" "reported (t\<lparr>img_fd := fd\<rparr>) = reported t"
  "reported (t\<lparr>dbus_con := b\<rparr>) = reported t" "reported (t\<lparr>hidraw_path := p\<rparr>) = reported t"
  "reported (bus bc t) = reported t" "reported (disposed t) = reported t"
  by (simp_all add: reported_def bus_def)

lemma opens_seen_wait: "opens_seen (t\<lparr>dev_wait := w\<rparr>) = reported t + (if w = No_wait then 0 else 1)"
  by (simp add: opens_seen_def reported_def)

lemma dev_inv_wait: "dev_inv t \<Longrightarrow> \<forall>cb. w \<noteq> Init_recv cb \<Longrightarrow> dev_inv (t\<lparr>dev_wait := w\<rparr>)"
  by (simp add: dev_inv_def holds_def close_fds_def)

lemma dev_inv_report: "dev_inv t \<Longrightarrow> dev_inv (dev_report r t)"
  by (simp add: dev_inv_def close_fds_def) (simp add: dev_report_def)

lemma return_open_ok:
  assumes "dev_inv t"
  shows "dev_inv (return_open a cb r t)" and "opens_seen (return_open a cb r t) = Suc (reported t)"
proof -
  have fail: "dev_inv (probe_failed e t')" "opens_seen (probe_failed e t') = Suc (reported t')"
    if "dev_inv t'" for e t'
    using dev_inv_report[OF dev_inv_wait[OF that, of No_wait]]
    by (simp_all add: probe_failed_def) (simp add: dev_report_def opens_seen_def reported_def)
  have "dev_inv (return_open a cb r t) \<and> opens_seen (return_open a cb r t) = Suc (reported t)"
  proof (cases cb)
    case Dev_open_cb
    show ?thesis
      using dev_inv_report[OF dev_inv_wait[OF assms, of No_wait]] Dev_open_cb
      by (simp add: return_open_def dev_open_cb_def) (simp add: dev_report_def opens_seen_def reported_def)
  next
    case Probe_open_cb
    show ?thesis
    proof (cases r)
      case (Some e)
      then show ?thesis using fail[OF assms] Probe_open_cb by (simp add: return_open_def probe_open_cb_def)
    next
      case None
      obtain e t1 where s: "dev_send a (simple_msg IPC_MSG_PROBE) t = (e, t1)" by fastforce
      obtain m where m: "t1 = t\<lparr>md := m\<rparr>" "the_host m = the_host (md t)" using dev_send_fields[OF s] by blast
      have t1: "dev_inv t1" using dev_inv_md[OF assms, of m] m by (simp add: the_host_def)
      show ?thesis
        using fail[OF t1] dev_inv_wait[OF t1, of Probe_recv] None Probe_open_cb s m(1)
        by (cases e) (simp_all add: return_open_def probe_open_cb_def opens_seen_wait)
    qed
  qed
  then show "dev_inv (return_open a cb r t)" "opens_seen (return_open a cb r t) = Suc (reported t)" by simp_all
qed

text \<open>What an opening leads to.\<close>

definition opening_ok :: "nat \<Rightarrow> fp_device result \<Rightarrow> bool" where
  "opening_ok n r \<longleftrightarrow> (\<exists>t. r = Inr t \<and> dev_inv t \<and> opens_seen t = n)"

lemma opening_ok_return: "dev_inv t \<Longrightarrow> reported t = n \<Longrightarrow> opening_ok (Suc n) (Inr (return_open a cb r t))"
  using return_open_ok[of t a cb r] by (simp add: opening_ok_def)

lemma opening_ok_fail:
  assumes "free t" and "reported t = n"
  shows "opening_ok (Suc n) (fail_open a cb e t)"
proof -
  have h: "holds [] t" using assms(1) by (simp add: free_def)
  have d: "dev_inv (disposed t)" by (rule disposed_inv[OF h])
  show ?thesis
    using opening_ok_return[OF d, of n a cb "Some e"] holds_dispose[OF h] assms(2) by (simp add: fail_open_def)
qed

lemma opening_ok_wait:
  assumes "free t" and "reported t = n"
  shows "opening_ok (Suc n) (Inr (t\<lparr>dev_wait := Init_recv cb\<rparr>))"
  using assms free_inv[of "t\<lparr>dev_wait := Init_recv cb\<rparr>"] by (simp add: opening_ok_def opens_seen_wait)

lemma opening_ok_send:
  assumes "free t" and "reported t = n"
  shows "opening_ok (Suc n) (case dev_send a msg t of
      (Some e, t1) \<Rightarrow> fail_open a cb e t1
    | (None, t1) \<Rightarrow> Inr (t1\<lparr>dev_wait := Init_recv cb\<rparr>))"
proof -
  obtain e t1 where s: "dev_send a msg t = (e, t1)" by fastforce
  obtain m where m: "t1 = t\<lparr>md := m\<rparr>" using dev_send_fields[OF s] by blast
  then have t1: "free t1" "reported t1 = n" using assms by simp_all
  show ?thesis
    using opening_ok_fail[OF t1] opening_ok_wait[OF t1] by (cases e) (simp_all add: s)
qed

lemma check_sensor_name_free:
  assumes "check_sensor_name name t = Some t1" and "free t"
  shows "free t1" "reported t1 = reported t"
  using assms by (auto simp: check_sensor_name_def split: option.splits if_splits)

lemma init_load_ok:
  assumes "free t" and "reported t = n"
    and "IPC_MAX_PDATA_SIZE \<ge> length (case_option [] (\<lambda>d. d) (case_option None (\<lambda>d. d) (ans_load a)))"
  shows "opening_ok (Suc n) (init_load_pdata a cb msg t)"
proof (cases "length msg < 136 \<or> check_sensor_name (msg_sensor_name msg) t = None")
  case True
  then show ?thesis using opening_ok_fail[OF assms(1,2)] by (auto simp: init_load_pdata_def)
next
  case False
  then obtain t1 where t1: "check_sensor_name (msg_sensor_name msg) t = Some t1" by blast
  let ?t = "bus (Bus_LoadPairingData (msg_sensor_name msg)) t1"
  have t2: "free ?t" "reported ?t = n"
    using check_sensor_name_free[OF t1 assms(1)] assms(2) by simp_all
  show ?thesis
  proof (cases "ans_load a")
    case None
    then show ?thesis using False t1 opening_ok_fail[OF t2] by (simp add: init_load_pdata_def Let_def)
  next
    case (Some d)
    then show ?thesis
      using False t1 opening_ok_send[OF t2, where a = a and msg = "resp_load_pdata_msg d" and cb = cb] assms(3)
      by (simp add: init_load_pdata_def Let_def not_less)
  qed
qed

lemma init_store_ok:
  assumes "free t" and "reported t = n"
  shows "opening_ok (Suc n) (init_store_pdata a cb msg t)"
proof (cases "length msg < 136 \<or> check_sensor_name (msg_sensor_name msg) t = None")
  case True
  then show ?thesis using opening_ok_fail[OF assms(1,2)] by (auto simp: init_store_pdata_def)
next
  case False
  then obtain t1 where t1: "check_sensor_name (msg_sensor_name msg) t = Some t1" by blast
  let ?t = "bus (Bus_StorePairingData (msg_sensor_name msg) (take (length msg - 136) (drop 133 msg))) t1"
  have f1: "free t1" "reported t1 = n" using check_sensor_name_free[OF t1 assms(1)] assms(2) by simp_all
  then have t2: "free ?t" "reported ?t = n" by simp_all
  show ?thesis
    using False t1 opening_ok_fail[OF f1] opening_ok_fail[OF t2]
      opening_ok_send[OF t2, where a = a and msg = "simple_msg IPC_MSG_ACK" and cb = cb]
    by (simp add: init_store_pdata_def Let_def)
qed

lemma init_recv_ok:
  assumes "dev_inv t" and "dev_wait t = Init_recv cb"
    and "IPC_MAX_PDATA_SIZE \<ge> length (case_option [] (\<lambda>d. d) (case_option None (\<lambda>d. d) (ans_load a)))"
  shows "opening_ok (opens_seen t) (init_recv_cb a cb res t)"
proof -
  have n: "opens_seen t = Suc (reported t)" using assms(2) by (simp add: opens_seen_def reported_def)
  have f: "free t" using assms(1,2) by (intro inv_free) (auto simp: dev_inv_def)
  show ?thesis
  proof (cases res)
    case (Inl e)
    then show ?thesis using opening_ok_fail[OF f refl] n by (simp add: init_recv_cb_def)
  next
    case (Inr msg)
    show ?thesis
      unfolding init_recv_cb_def Inr sum.case n
      using opening_ok_fail[OF f refl] opening_ok_return[OF assms(1) refl] init_load_ok[OF f refl assms(3)]
        init_store_ok[OF f refl]
      by (simp split: option.split ipc_msg_type.split)
  qed
qed

text \<open>The searches of the hidraw devices always end.\<close>

lemma sibling_loop_total:
  assumes "\<And>n. \<exists>b. test n = Inr b"
  shows "\<exists>r. sibling_loop fs test self resolved k ns = Inr r"
proof (induction ns)
  case (Cons n ns)
  obtain b where "test n = Inr b" using assms by blast
  then show ?case using Cons.IH by auto
qed simp

lemma find_sibling_total:
  assumes "\<And>n. \<exists>b. test n = Inr b"
  shows "\<exists>r. find_sibling fs test self = Inr r"
  using sibling_loop_total[of test, OF assms] by (simp add: find_sibling_def split: option.split)

lemma has_image_reports_total: "\<exists>b. has_image_reports fs n = Inr b"
  using check_report_descriptor_total[of fs n] by (auto simp: has_image_reports_def)

lemma image_partner_total: "\<exists>r. hidraw_find_image_partner fs path k = Inr r"
proof -
  obtain b where b: "has_image_reports fs (base_name path) = Inr b" using has_image_reports_total by blast
  obtain r where r: "find_sibling fs (has_image_reports fs) (base_name path) = Inr r"
    using find_sibling_total[of "has_image_reports fs"] has_image_reports_total by blast
  show ?thesis using b r by (simp add: hidraw_find_image_partner_def Let_def)
qed

lemma command_sibling_total: "\<exists>r. hidraw_find_fp_command_sibling fs path k = Inr r"
proof -
  have t: "\<exists>b. hidraw_is_fp_command_channel fs n = Inr b" for n
    using check_report_descriptor_total[of fs n]
    by (auto simp: hidraw_is_fp_command_channel_def split: option.split)
  obtain b where b: "hidraw_is_fp_command_channel fs (base_name path) = Inr b" using t by blast
  obtain r where r: "find_sibling fs (hidraw_is_fp_command_channel fs) (base_name path) = Inr r"
    using find_sibling_total[of "hidraw_is_fp_command_channel fs"] t by blast
  show ?thesis using b r by (simp add: hidraw_find_fp_command_sibling_def Let_def)
qed

lemma open_channels_ok:
  assumes "free t"
  shows "\<exists>ok t1. open_channels a path t = Inr (ok, t1) \<and> free t1 \<and> reported t1 = reported t"
proof -
  obtain p where "hidraw_find_image_partner (ans_fs a) path HIDRAW_PATH_MAX = Inr p"
    using image_partner_total by blast
  then show ?thesis using assms by (auto simp: open_channels_def Let_def)
qed

lemma init_host_ok:
  assumes "free t" and "reported t = n"
  shows "opening_ok (Suc n) (init_host_proc a path cb t)"
proof -
  obtain ok t1 where o: "open_channels a path t = Inr (ok, t1)" and t1: "free t1" "reported t1 = n"
    using open_channels_ok[OF assms(1), of a path] assms(2) by blast
  show ?thesis
  proof (cases ok)
    case False
    then show ?thesis using o opening_ok_fail[OF t1] by (simp add: init_host_proc_def)
  next
    case True
    let ?msg = "init_msg (init_log_level (ans_loglvl a)) (0 \<le> img_fd t1)"
    obtain e t2 where s: "dev_send a ?msg t1 = (e, t2)" by fastforce
    obtain m where "t2 = t1\<lparr>md := m\<rparr>" using dev_send_fields[OF s] by blast
    then have t2: "free t2" "reported t2 = n" using t1 by simp_all
    then have t3: "free (t2\<lparr>pdata_sensor_name := None\<rparr>)" "reported (t2\<lparr>pdata_sensor_name := None\<rparr>) = n" by simp_all
    show ?thesis
      using True o s opening_ok_fail[OF t2] opening_ok_wait[OF t3]
      by (cases e) (simp_all add: init_host_proc_def)
  qed
qed

lemma connect_host_ok:
  assumes "free t" and "reported t = n"
  shows "opening_ok (Suc n) (connect_host a path did_adopt cb t)"
  using opening_ok_fail[of "t\<lparr>md := (md t)\<lparr>has_socket := False\<rparr>\<rparr>" n] init_host_ok[of "t\<lparr>md := (md t)\<lparr>has_socket := True\<rparr>, ipc_cancel := Some False\<rparr>" n]
    opening_ok_return[of "t\<lparr>md := (md t)\<lparr>has_socket := True\<rparr>, ipc_cancel := Some False\<rparr>" n] assms
  by (simp add: connect_host_def Let_def free_inv)

lemma got_host_ok:
  assumes "got_host h fd t = (ok, t1)" and "free t"
  shows "free t1" "reported t1 = reported t"
  using assms by (auto simp: got_host_def split: if_splits)

lemma get_host_ok:
  assumes "free t" and "reported t = n" and "\<not> host_has_id (md t)"
  shows "opening_ok (Suc n) (get_host a path cb t)"
proof -
  let ?t = "bus (Bus_Adopt path) t"
  have t: "free ?t" "reported ?t = n" using assms by simp_all
  show ?thesis
  proof (cases "ans_adopt a")
    case None
    then show ?thesis
      using assms(3) opening_ok_fail[OF t] by (simp add: get_host_def adopt_host_process_def Let_def)
  next
    case (Some x)
    obtain hid fd where x: "x = (hid, fd)" by (cases x)
    show ?thesis
    proof (cases "hid = 0")
      case False
      obtain ok t1 where g: "got_host hid fd ?t = (ok, t1)" by fastforce
      have t1: "free t1" "reported t1 = n" using got_host_ok[OF g t(1)] t(2) by simp_all
      show ?thesis
        using Some x False g assms(3) opening_ok_fail[OF t1] connect_host_ok[OF t1]
        by (simp add: get_host_def adopt_host_process_def Let_def)
    next
      case True
      let ?u = "bus (Bus_Launch path) (?t\<lparr>host_id := 0\<rparr>)"
      have u: "free ?u" "reported ?u = n" using t by simp_all
      have hid: "\<not> host_has_id (md (?t\<lparr>host_id := 0\<rparr>))" using assms(3) by (simp add: bus_def)
      show ?thesis
      proof (cases "ans_launch a")
        case None
        then show ?thesis
          using Some x True assms(3) hid opening_ok_fail[OF u]
          by (simp add: get_host_def adopt_host_process_def start_host_process_def Let_def)
      next
        case (Some y)
        obtain hid2 fd2 where y: "y = (hid2, fd2)" by (cases y)
        obtain ok t1 where g: "got_host hid2 fd2 ?u = (ok, t1)" by fastforce
        have t1: "free t1" "reported t1 = n" using got_host_ok[OF g u(1)] u(2) by simp_all
        show ?thesis
          using \<open>ans_adopt a = Some x\<close> x True Some y g assms(3) hid opening_ok_fail[OF t1] connect_host_ok[OF t1]
          by (simp add: get_host_def adopt_host_process_def start_host_process_def Let_def)
      qed
    qed
  qed
qed

lemma create_inhibitor_ok:
  assumes "create_sleep_inhibitor a t = (ok, t1)" and "free t"
  shows "free t1" "reported t1 = reported t" "md t1 = md t" "hidraw_path t1 = hidraw_path t"
  using assms
  by (auto simp: create_sleep_inhibitor_def free_def holds_def reported_def bus_def split: option.splits if_splits)

lemma open_device_ok:
  assumes "dev_inv t" and "hidraw_path t \<noteq> None"
  shows "opening_ok (Suc (reported t)) (open_device a cb t)"
proof (cases "host_has_id (md t)")
  case True
  then show ?thesis using opening_ok_return[OF assms(1) refl] by (simp add: open_device_def)
next
  case False
  have f: "free t" using assms(1) False by (intro inv_free) (auto simp: dev_inv_def)
  let ?t = "t\<lparr>dbus_con := True\<rparr>"
  obtain ok t1 where c: "create_sleep_inhibitor a ?t = (ok, t1)" by fastforce
  have t1: "free t1" "reported t1 = reported t" "\<not> host_has_id (md t1)" "hidraw_path t1 \<noteq> None"
    using create_inhibitor_ok[OF c] f False assms(2) by simp_all
  obtain con t0 where o: "open_dbus_con a t = (con, t0)" by fastforce
  have t0: "if con then t0 = ?t else t0 = t"
    using o by (auto simp: open_dbus_con_def split: if_splits)
  show ?thesis
  proof (cases con)
    case False
    then show ?thesis
      using o t0 \<open>\<not> host_has_id (md t)\<close> opening_ok_fail[OF f refl] by (simp add: open_device_def)
  next
    case True
    then show ?thesis
      using o t0 c \<open>\<not> host_has_id (md t)\<close> opening_ok_fail[OF t1(1,2)] get_host_ok[OF t1(1,2,3)] t1(4)
      by (cases ok) (auto simp: open_device_def)
  qed
qed

text \<open>
  What the world around the device is expected to do: the device is opened after it was probed, the
  launcher holds no pairing data that is too long, the system goes to sleep only while an inhibitor is
  held (or an action runs), no close is asked for while another one goes on, none while an opening
  waits for the host, and the suspend timer finds the host still there.
\<close>

fun polite :: "answers \<Rightarrow> dev_event \<Rightarrow> fp_device \<Rightarrow> bool" where
  "polite a Ev_open t \<longleftrightarrow> hidraw_path t \<noteq> None"
| "polite a (Ev_message incoming) t \<longleftrightarrow>
     length (case_option [] (\<lambda>d. d) (case_option None (\<lambda>d. d) (ans_load a))) \<le> IPC_MAX_PDATA_SIZE"
| "polite a (Ev_sleep enter) t \<longleftrightarrow> (enter \<longrightarrow> current_action t \<or> (0 \<le> host_sleep_inhib t \<and> close_task t = None))"
| "polite a (Ev_idle i) t \<longleftrightarrow> close_task t = None"
| "polite a Ev_suspend_timeout t \<longleftrightarrow> host_has_id (md t) \<and> close_task t = None"
| "polite a Ev_dispose t \<longleftrightarrow> close_task t = None \<and> (\<forall>cb. dev_wait t \<noteq> Init_recv cb)"
| "polite a _ t \<longleftrightarrow> True"

fun starts_open :: "dev_event \<Rightarrow> fp_device \<Rightarrow> nat" where
  "starts_open (Ev_probe p) t = (if current_action t then 0 else 1)"
| "starts_open Ev_open t = (if current_action t then 0 else 1)"
| "starts_open _ t = 0"

lemma idle_reported: "\<not> current_action t \<Longrightarrow> opens_seen t = reported t"
  by (simp add: current_action_def opens_seen_def reported_def)

lemma suspend_dev_ok:
  assumes "holds [fd] t" and "0 \<le> fd" and "close_task t = None" and "\<not> close_timeout_src t"
    and "\<not> current_action t"
  shows "\<exists>t'. suspend_dev a fd t = Inr t' \<and> dev_inv t' \<and> opens_seen t' = opens_seen t"
proof (cases "host_has_id (md t) \<and> \<not> host_dead (md t)")
  case True
  have "\<exists>t'. close_device a False (Suspend_close_cb fd) t = Inr t' \<and> dev_inv t' \<and> opens_seen t' = opens_seen t"
    using assms by (intro close_device_ok) (simp_all add: cb_fds_def current_action_def)
  then show ?thesis using True by (simp add: suspend_dev_def)
next
  case False
  note c = close_inhibitor_holds[OF assms(1,2)]
  have "dev_inv (t\<lparr>inhib_fds := remove1 fd (inhib_fds t)\<rparr>)"
    using c(2) assms(3,4) by (simp add: dev_inv_def close_fds_def)
  moreover have "suspend_dev a fd t = close_sleep_inhibitor fd t" using False by (auto simp: suspend_dev_def)
  ultimately show ?thesis using c(1) by (simp add: opens_seen_def)
qed

lemma sleep_ok:
  assumes "dev_inv t" and "current_action t \<or> (0 \<le> host_sleep_inhib t \<and> close_task t = None)"
  shows "\<exists>t'. suspend_signal_cb a True t = Inr t' \<and> dev_inv t' \<and> opens_seen t' = opens_seen t"
proof (cases "current_action t")
  case True
  let ?t = "t\<lparr>host_sleep_inhib := -1, md := invoke_cancel_handler (ans_send a) (md t),
      suspends := suspends t @ [host_sleep_inhib t]\<rparr>"
  have h: "host_has_id (invoke_cancel_handler (ans_send a) (md t)) = host_has_id (md t)"
    using the_host_cancel(1)[of "ans_send a" "md t"] by (simp add: the_host_def)
  have "dev_inv ?t" using assms(1) h by (simp add: dev_inv_def holds_def close_fds_def)
  moreover have "suspend_signal_cb a True t = Inr ?t"
    using True by (simp add: suspend_signal_cb_def current_action_def Let_def)
  ultimately show ?thesis by (simp add: opens_seen_def)
next
  case False
  let ?t = "t\<lparr>host_sleep_inhib := -1\<rparr>"
  have c: "close_task t = None" "0 \<le> host_sleep_inhib t" using assms(2) False by simp_all
  have "holds [host_sleep_inhib t] ?t"
    using dev_inv_no_task[OF assms(1) c(1)] by (simp add: holds_def)
  moreover have "\<not> close_timeout_src ?t" using assms(1) c(1) by (simp add: dev_inv_def)
  moreover have na: "\<not> current_action ?t" using False by (simp add: current_action_def)
  ultimately have "\<exists>t'. suspend_dev a (host_sleep_inhib t) ?t = Inr t' \<and> dev_inv t' \<and> opens_seen t' = opens_seen ?t"
    using c by (intro suspend_dev_ok) simp_all
  then show ?thesis using na by (simp add: suspend_signal_cb_def Let_def opens_seen_def)
qed

lemma monitor_ok:
  assumes "dev_inv t" and "close_task t = None" and "i < length (suspends t)"
  shows "\<exists>t'. suspend_monitor_cb a i t = Inr t' \<and> dev_inv t' \<and> opens_seen t' = opens_seen t"
proof (cases "current_action t")
  case False
  let ?fd = "suspends t ! i" and ?t = "t\<lparr>suspends := take i (suspends t) @ drop (Suc i) (suspends t)\<rparr>"
  have split: "suspends t = take i (suspends t) @ ?fd # drop (Suc i) (suspends t)"
    using assms(3) by (simp add: id_take_nth_drop)
  have f: "free t" by (rule inv_free[OF assms(1,2)])
  have "mset (inhib_fds t) = mset (filter (\<lambda>fd. 0 \<le> fd) (host_sleep_inhib t # suspends t))"
    using f by (simp add: free_def holds_def)
  then have "holds (if 0 \<le> ?fd then [?fd] else []) ?t"
    by (subst (asm) split) (simp add: holds_def)
  note h = this
  have na: "\<not> current_action ?t" "close_task ?t = None" "\<not> close_timeout_src ?t"
    using False f by (simp_all add: current_action_def free_def)
  show ?thesis
  proof (cases "0 \<le> ?fd")
    case True
    then have "\<exists>t'. suspend_dev a ?fd ?t = Inr t' \<and> dev_inv t' \<and> opens_seen t' = opens_seen ?t"
      using h na by (intro suspend_dev_ok) simp_all
    then show ?thesis using False True by (simp add: suspend_monitor_cb_def Let_def opens_seen_def)
  next
    case neg: False
    then have "dev_inv ?t" using h na(2,3) by (intro free_inv) (simp add: free_def)
    then show ?thesis using False neg by (simp add: suspend_monitor_cb_def Let_def opens_seen_def)
  qed
qed (use assms in \<open>simp add: suspend_monitor_cb_def\<close>)

lemma died_ok:
  assumes "dev_inv t"
  shows "\<exists>t'. host_died_signal_cb a hid t = Inr t' \<and> dev_inv t' \<and> opens_seen t' = opens_seen t"
proof -
  let ?t = "t\<lparr>md := (md t)\<lparr>host_dead := True\<rparr>, ipc_cancel := map_option (\<lambda>_. True) (ipc_cancel t)\<rparr>"
  have inv: "dev_inv ?t" using assms by (simp add: dev_inv_def holds_def close_fds_def)
  have "\<exists>t'. end_close a None ?t = Inr t' \<and> dev_inv t' \<and> opens_seen t' = opens_seen ?t" if "close_task ?t \<noteq> None"
    using end_close_ok[of ?t a None] inv that by (auto simp: dev_inv_def)
  then show ?thesis using assms inv by (auto simp: host_died_signal_cb_def Let_def opens_seen_def)
qed

lemma dev_step_ok:
  assumes "dev_inv t" and "polite a e t"
  shows "\<exists>t'. dev_step a e t = Inr t' \<and> dev_inv t' \<and> opens_seen t' = opens_seen t + starts_open e t"
proof (cases e)
  case (Ev_probe p)
  show ?thesis
  proof (cases "current_action t \<or> p = None")
    case True
    have "dev_inv (probe_failed Err_not_supported t)" "opens_seen (probe_failed Err_not_supported t) = Suc (reported t)"
      using return_open_ok[OF assms(1), of a Probe_open_cb "Some Err_not_supported"]
      by (simp_all add: return_open_def probe_open_cb_def)
    then show ?thesis using True Ev_probe assms(1) idle_reported[of t] by (auto simp: fpi_device_tudor_probe_def)
  next
    case False
    then obtain q where p: "p = Some q" by blast
    obtain r where r: "hidraw_find_fp_command_sibling (ans_fs a) q HIDRAW_PATH_MAX = Inr r"
      using command_sibling_total by blast
    have "dev_inv (probe_failed Err_not_supported t)" "opens_seen (probe_failed Err_not_supported t) = Suc (reported t)"
      using return_open_ok[OF assms(1), of a Probe_open_cb "Some Err_not_supported"]
      by (simp_all add: return_open_def probe_open_cb_def)
    moreover have "opening_ok (Suc (reported t)) (open_device a Probe_open_cb (t\<lparr>hidraw_path := Some path\<rparr>))" for path
    proof -
      have "dev_inv (t\<lparr>hidraw_path := Some path\<rparr>)"
        using assms(1) by (simp add: dev_inv_def holds_def close_fds_def)
      from open_device_ok[OF this, of a Probe_open_cb] show ?thesis by simp
    qed
    ultimately show ?thesis
      using False p r Ev_probe idle_reported[of t]
      by (cases r) (simp_all add: fpi_device_tudor_probe_def opening_ok_def)
  qed
next
  case Ev_open
  show ?thesis
  proof (cases "current_action t")
    case False
    have "opening_ok (Suc (reported t)) (open_device a Dev_open_cb t)"
      using open_device_ok[OF assms(1)] assms(2) Ev_open by simp
    then show ?thesis
      using False Ev_open idle_reported[of t] by (simp add: fpi_device_tudor_open_def opening_ok_def)
  qed (use assms(1) Ev_open in simp)
next
  case (Ev_message incoming)
  show ?thesis
  proof (cases "dev_wait t")
    case (Init_recv cb)
    have "opening_ok (opens_seen t) (init_recv_cb a cb (sock_ready incoming (md t)) t)"
      using init_recv_ok[OF assms(1) Init_recv] assms(2) Ev_message by simp
    then show ?thesis using Init_recv Ev_message by (simp add: opening_ok_def)
  next
    case Probe_recv
    let ?t = "probe_recv_cb (sock_ready incoming (md t)) t"
    have n: "opens_seen t = Suc (reported t)" using Probe_recv by (simp add: opens_seen_def reported_def)
    have f: "dev_inv (dev_report (Probe_complete r) (t\<lparr>dev_wait := No_wait\<rparr>))"
      "opens_seen (dev_report (Probe_complete r) (t\<lparr>dev_wait := No_wait\<rparr>)) = opens_seen t" for r
      using dev_inv_report[OF dev_inv_wait[OF assms(1), of No_wait]] n
      by simp (simp add: n, simp add: dev_report_def opens_seen_def reported_def)
    have "\<exists>r. ?t = dev_report (Probe_complete r) (t\<lparr>dev_wait := No_wait\<rparr>)"
      by (auto simp: probe_recv_cb_def probe_failed_def split: sum.split)
    then show ?thesis using f Probe_recv Ev_message by auto
  qed (use assms(1) Ev_message in simp)
next
  case (Ev_action ev)
  have "dev_inv (t\<lparr>md := module_step (ans_send a) ev (md t)\<rparr>)" if "ev \<noteq> Host_died"
    using dev_inv_md[OF assms(1)] the_host_step[OF that, of "ans_send a" "md t"] by (simp add: the_host_def)
  then show ?thesis using assms(1) Ev_action by simp
next
  case (Ev_host_died hid)
  then show ?thesis using died_ok[OF assms(1)] by simp
next
  case Ev_shutdown_timeout
  have "\<exists>t'. end_close a None t = Inr t' \<and> dev_inv t' \<and> opens_seen t' = opens_seen t" if "close_task t \<noteq> None"
    using end_close_ok[of t a None] assms(1) that by (auto simp: dev_inv_def)
  then show ?thesis using assms(1) Ev_shutdown_timeout by (auto simp: shutdown_timeout_cb_def)
next
  case (Ev_sleep enter)
  show ?thesis
  proof (cases enter)
    case True
    then show ?thesis using sleep_ok[OF assms(1), of a] assms(2) Ev_sleep by simp
  qed (use assms(1) Ev_sleep in \<open>simp add: suspend_signal_cb_def\<close>)
next
  case (Ev_idle i)
  then show ?thesis using monitor_ok[OF assms(1)] assms by simp
next
  case Ev_suspend_timeout
  have c: "close_task t = None" "host_has_id (md t)" using assms(2) Ev_suspend_timeout by simp_all
  have f: "free t" by (rule inv_free[OF assms(1) c(1)])
  let ?t = "bus (Bus_Kill (host_id t)) t"
  have "dev_inv (set_has_id False ?t)" "dev_inv ?t" using f by (simp_all add: free_inv set_has_id_def)
  then show ?thesis
    using c Ev_suspend_timeout assms(1)
    by (auto simp: suspend_timeout_cb_def kill_host_process_def Let_def set_has_id_def bus_def opens_seen_def)
next
  case Ev_dispose
  have c: "close_task t = None" "\<forall>cb. dev_wait t \<noteq> Init_recv cb" using assms(2) Ev_dispose by simp_all
  have f: "free t" by (rule inv_free[OF assms(1) c(1)])
  then have "\<exists>t'. close_device a False Close_cb t = Inr t' \<and> dev_inv t' \<and> opens_seen t' = opens_seen t"
    using c by (intro close_device_ok) (simp_all add: free_def cb_fds_def)
  then show ?thesis using assms(1) Ev_dispose by (simp add: ensure_closed_def)
qed (use assms in \<open>simp add: fpi_device_tudor_close_def\<close>)

section \<open>Properties\<close>

fun polite_run :: "(answers \<times> dev_event) list \<Rightarrow> fp_device \<Rightarrow> bool" where
  "polite_run [] t \<longleftrightarrow> True"
| "polite_run ((a, e) # es) t \<longleftrightarrow>
     polite a e t \<and> (case dev_step a e t of Inl _ \<Rightarrow> True | Inr t' \<Rightarrow> polite_run es t')"

fun openings :: "(answers \<times> dev_event) list \<Rightarrow> fp_device \<Rightarrow> nat" where
  "openings [] t = 0"
| "openings ((a, e) # es) t =
     starts_open e t + (case dev_step a e t of Inl _ \<Rightarrow> 0 | Inr t' \<Rightarrow> openings es t')"

lemma dev_run_ok:
  assumes "dev_inv t" and "polite_run es t"
  shows "\<exists>t'. dev_run es t = Inr t' \<and> dev_inv t' \<and> opens_seen t' = opens_seen t + openings es t"
  using assms
proof (induction es arbitrary: t)
  case (Cons ae es)
  obtain a e where ae: "ae = (a, e)" by (cases ae)
  obtain t1 where "dev_step a e t = Inr t1" "dev_inv t1" "opens_seen t1 = opens_seen t + starts_open e t"
    using dev_step_ok[OF Cons.prems(1), of a e] Cons.prems(2) by (auto simp: ae)
  then show ?case using Cons.IH[of t1] Cons.prems(2) by (auto simp: ae)
qed simp

lemma init_inv: "dev_inv (fpi_device_tudor_init m)" "opens_seen (fpi_device_tudor_init m) = 0"
  by (simp_all add: fpi_device_tudor_init_def dev_inv_def holds_def close_fds_def opens_seen_def)

text \<open>
  C28: From a fresh device, and from every device it becomes, in every run of probes, openings,
  messages, actions, deaths of the host, timeouts, suspensions and clean-ups in which the outside
  behaves as \<open>polite\<close> says, the process never hits an assertion.  The sleep inhibitors it holds open
  are those of the device, of the close in progress and of the waiting suspensions, none lost and none
  closed twice; a close in progress always has its timer; and the probes and openings that have ended,
  with the one in progress, are exactly those that were started.
\<close>
theorem device_life_cycle:
  assumes "dev_inv t0" and "polite_run es t0"
  shows "\<exists>t. dev_run es t0 = Inr t \<and> dev_inv t \<and>
    mset (inhib_fds t) = mset (filter (\<lambda>fd. 0 \<le> fd) (host_sleep_inhib t # close_fds t @ suspends t)) \<and>
    (close_timeout_src t \<longleftrightarrow> close_task t \<noteq> None) \<and>
    opens_seen t = opens_seen t0 + openings es t0 \<and>
    dev_inv (fpi_device_tudor_init m) \<and> opens_seen (fpi_device_tudor_init m) = 0"
proof -
  obtain t where "dev_run es t0 = Inr t" "dev_inv t" "opens_seen t = opens_seen t0 + openings es t0"
    using dev_run_ok[OF assms] by auto
  then show ?thesis using init_inv by (auto simp: dev_inv_def holds_def)
qed

text \<open>A module that starts, a device without siblings and answers that are all well.\<close>

definition demo_module :: module where
  "demo_module = \<lparr>host_has_id = False, host_dead = False, has_socket = False, cancellable = False,
     cancel_handler = False, has_canceled = False, db_records = [], next_obj = 0, waiting = Idle, mod_sent = [],
     reports = []\<rparr>"

definition demo_sysfs :: sysfs where
  "demo_sysfs = \<lparr>file_text = \<lambda>_. None, file_bytes = \<lambda>_. None, link_target = \<lambda>_. None, class_entries = None\<rparr>"

definition demo_answers :: answers where
  "demo_answers = \<lparr>ans_con = True, ans_inhibit = Some 9, ans_adopt = Some (3, 5), ans_launch = Some (3, 5),
     ans_kill = True, ans_orphan = True, ans_cmd_open = 6, ans_img_open = 7, ans_sock = True, ans_send = True,
     ans_load = Some None, ans_store = True, ans_fs = demo_sysfs, ans_loglvl = None\<rparr>"

definition demo_device :: fp_device where
  "demo_device = (fpi_device_tudor_init demo_module)\<lparr>hidraw_path := Some ''/dev/hidraw0''\<rparr>"

definition demo_run :: "(answers \<times> dev_event) list" where
  "demo_run = [(demo_answers, Ev_open), (demo_answers, Ev_sleep True), (demo_answers, Ev_host_died 3)]"

lemmas dev_defs = fpi_device_tudor_open_def open_device_def open_dbus_con_def create_sleep_inhibitor_def get_host_def
  adopt_host_process_def got_host_def connect_host_def return_open_def dev_open_cb_def suspend_signal_cb_def
  suspend_dev_def close_device_def shutdown_host_def dev_send_def send_ipc_msg_def host_died_signal_cb_def
  end_close_def return_close_def close_sleep_inhibitor_def dispose_dev_def kill_host_process_def set_has_id_def
  current_action_def dev_report_def bus_def proc_dead_def

theorem device_life_cycle_witness:
  "\<exists>t. dev_run demo_run demo_device = Inr t \<and> opens_seen t = 1"
proof -
  have d: "dev_inv demo_device" "opens_seen demo_device = 0"
    by (simp_all add: demo_device_def fpi_device_tudor_init_def dev_inv_def holds_def close_fds_def opens_seen_def)
  have "polite_run demo_run demo_device"
    by (simp add: demo_run_def demo_device_def fpi_device_tudor_init_def demo_module_def demo_answers_def dev_defs Let_def)
  moreover have "openings demo_run demo_device = 1"
    by (simp add: demo_run_def demo_device_def fpi_device_tudor_init_def demo_module_def demo_answers_def dev_defs Let_def)
  ultimately show ?thesis using device_life_cycle[OF d(1), of demo_run demo_module] d(2) by auto
qed

lemma holds_nonnegative:
  assumes "holds [] t"
  shows "\<forall>fd \<in> List.set (inhib_fds t). 0 \<le> fd"
proof -
  have "List.set (inhib_fds t) = List.set (filter (\<lambda>fd. 0 \<le> fd) (host_sleep_inhib t # suspends t))"
    using assms unfolding holds_def by (metis append_Nil set_mset_mset)
  then show ?thesis by auto
qed


text \<open>The device after it has adopted host 3.\<close>

definition demo_open :: fp_device where
  "demo_open = demo_device\<lparr>md := demo_module\<lparr>host_has_id := True, has_socket := True\<rparr>, host_id := 3,
     host_sleep_inhib := 9, inhib_fds := [9]\<rparr>"


text \<open>
  A host that dies while the device is idle is not replaced: from then on every opening succeeds at
  once and every message fails, through all events but the clean-up of the device and the timer of a
  suspension, because the number of the dead host still counts as a running one and closing the
  device does nothing.
\<close>
theorem dead_host_is_not_replaced:
  assumes "host_has_id (md t)" and "host_dead (md t)" and "dev_wait t = No_wait" and "close_task t = None"
    and "\<not> close_timeout_src t" and "waiting (md t) = Idle" and "suspends t = []"
    and "\<forall>(a, e) \<in> List.set es. e \<in> {Ev_open, Ev_close, Ev_shutdown_timeout} \<union> range Ev_message \<union> range Ev_host_died"
  shows "\<exists>t'. dev_run es t = Inr t' \<and> host_has_id (md t') \<and> host_dead (md t') \<and> bus_calls t' = bus_calls t \<and>
    dev_reports t' = dev_reports t @ replicate (length (filter (\<lambda>(a, e). e = Ev_open) es)) (Open_complete None) \<and>
    (\<forall>io msg. send_ipc_msg io msg (md t') = (Some Err_host_dead, md t'))"
  using assms
proof (induction es arbitrary: t)
  case Nil
  then show ?case by (simp add: send_ipc_msg_def proc_dead_def)
next
  case (Cons ae es)
  obtain a e where ae: "ae = (a, e)" by (cases ae)
  have es: "\<forall>(a, e) \<in> List.set es. e \<in> {Ev_open, Ev_close, Ev_shutdown_timeout} \<union> range Ev_message \<union> range Ev_host_died"
    using Cons.prems(8) by simp
  show ?case
  proof (cases "e = Ev_open")
    case True
    let ?t = "dev_report (Open_complete None) (t\<lparr>dev_wait := No_wait\<rparr>)"
    have "dev_step a e t = Inr ?t"
      using True Cons.prems
      by (simp add: current_action_def fpi_device_tudor_open_def open_device_def return_open_def dev_open_cb_def)
    moreover have "host_has_id (md ?t)" "host_dead (md ?t)" "dev_wait ?t = No_wait" "close_task ?t = None"
      "\<not> close_timeout_src ?t" "waiting (md ?t) = Idle" "suspends ?t = []"
      "bus_calls ?t = bus_calls t" "dev_reports ?t = dev_reports t @ [Open_complete None]"
      using Cons.prems by (simp_all add: dev_report_def)
    ultimately show ?thesis using Cons.IH[of ?t] es True by (auto simp: ae)
  next
    case False
    then have "dev_step a e t = Inr t"
      using Cons.prems ae by (auto simp: fpi_device_tudor_close_def host_died_signal_cb_def)
    then show ?thesis using Cons.IH[of t] Cons.prems es False by (auto simp: ae)
  qed
qed

theorem dead_host_is_not_replaced_witness:
  "\<exists>t'. dev_run [(demo_answers, Ev_close), (demo_answers, Ev_open)] (demo_open\<lparr>md := (md demo_open)\<lparr>host_dead := True\<rparr>\<rparr>) = Inr t' \<and>
     dev_reports t' = [Open_complete None] \<and> send_ipc_msg True [] (md t') = (Some Err_host_dead, md t')"
  using dead_host_is_not_replaced[of "demo_open\<lparr>md := (md demo_open)\<lparr>host_dead := True\<rparr>\<rparr>" "[(demo_answers, Ev_close), (demo_answers, Ev_open)]"]
  by (auto simp: demo_open_def demo_device_def demo_module_def fpi_device_tudor_init_def)

lemma return_failure:
  "bus_calls (return_open a cb (Some e) t) = bus_calls t" "md (return_open a cb (Some e) t) = md t"
  "dev_reports (return_open a cb (Some e) t) = dev_reports t @ [case cb of
     Probe_open_cb \<Rightarrow> Probe_complete (Inl e) | Dev_open_cb \<Rightarrow> Open_complete (Some e)]"
  by (cases cb; simp add: return_open_def probe_open_cb_def probe_failed_def dev_open_cb_def dev_report_def)+

lemma msg_sensor_name_load:
  assumes "length n \<le> IPC_SENSOR_NAME_SIZE" "0 \<notin> List.set n"
  shows "msg_sensor_name (load_pdata_msg n) = n"
proof -
  have "takeWhile (\<lambda>b. b \<noteq> 0) (n @ replicate k 0) = n" for k
    using assms(2) by (induction n) (auto simp: takeWhile_replicate)
  then show ?thesis using assms(1) by (simp add: msg_sensor_name_def load_pdata_msg_def name_field_def Let_def)
qed

lemma length_load_pdata_msg: "length n \<le> IPC_SENSOR_NAME_SIZE \<Longrightarrow> length (load_pdata_msg n) = 136"
  by (simp add: load_pdata_msg_def name_field_def IPC_SENSOR_NAME_SIZE_def Let_def)

lemma load_pdata_msg_tag: "(fld (load_pdata_msg n) 0 4 :: u32) = msg_code IPC_MSG_LOAD_PDATA"
  by (simp add: load_pdata_msg_def fld_def)

lemma sock_ready_load:
  "\<not> proc_dead m \<Longrightarrow> length n \<le> IPC_SENSOR_NAME_SIZE \<Longrightarrow> sock_ready (Some (load_pdata_msg n)) m = Inr (load_pdata_msg n)"
  by (simp add: sock_ready_def length_load_pdata_msg)

lemma pdata_answer_is_read:
  assumes "length d \<le> IPC_MAX_PDATA_SIZE"
  shows "\<exists>st. get_pdata_cb name (resp_load_pdata_msg (Some d)) pdata_init = Inr (d, st) \<and> pdata_sent st = [load_pdata_msg name]"
proof -
  let ?resp = "resp_load_pdata_msg (Some d)"
  have len_resp: "length ?resp = 8 + length d" by (simp add: resp_load_pdata_msg_def)
  have tag_resp: "(fld ?resp 0 4 :: u32) = msg_code IPC_MSG_RESP_LOAD_PDATA"
    by (simp add: resp_load_pdata_msg_def fld_def)
  have "ipc_recv_msg IPC_MSG_RESP_LOAD_PDATA 8 (8 + IPC_MAX_PDATA_SIZE) ?resp = Inr ?resp"
    using len_resp tag_resp assms by (simp add: ipc_recv_msg_def Let_def)
  moreover have "take (length ?resp - 8) (drop 5 ?resp) = d"
    unfolding len_resp by (simp add: resp_load_pdata_msg_def)
  ultimately show ?thesis by (simp add: get_pdata_cb_def pdata_init_def Let_def)
qed

text \<open>
  C30: While a new host sets up, the pairing data it asks for is what the launcher has stored for its
  sensor: the answer of the module to the request that \<open>get_pdata_cb\<close> of the host sends is one from
  which the same function returns exactly the stored bytes.  A later request for another sensor is
  not passed on to the launcher: the opening fails and the host is killed.
\<close>
theorem handshake_serves_one_sensor:
  assumes "dev_inv t" and "dev_wait t = Init_recv cb" and "host_has_id (md t)" and "\<not> host_dead (md t)"
    and "has_socket (md t)" and "ans_send a" and "pdata_sensor_name t = None"
    and "length name \<le> IPC_SENSOR_NAME_SIZE" and "0 \<notin> List.set name"
    and "length name' \<le> IPC_SENSOR_NAME_SIZE" and "0 \<notin> List.set name'" and "name' \<noteq> name"
    and "ans_load a = Some (Some d)" and "length d \<le> IPC_MAX_PDATA_SIZE"
  shows "\<exists>t1 t2 resp st. dev_step a (Ev_message (Some (load_pdata_msg name))) t = Inr t1 \<and>
      mod_sent (md t1) = mod_sent (md t) @ [resp] \<and> get_pdata_cb name resp pdata_init = Inr (d, st) \<and>
      pdata_sent st = [load_pdata_msg name] \<and>
      bus_calls t1 = bus_calls t @ [Bus_LoadPairingData name] \<and> dev_wait t1 = Init_recv cb \<and>
      dev_step a (Ev_message (Some (load_pdata_msg name'))) t1 = Inr t2 \<and>
      bus_calls t2 = bus_calls t1 @ [Bus_Kill (host_id t)] \<and> \<not> host_has_id (md t2) \<and>
      dev_reports t2 = dev_reports t @ [case cb of
        Probe_open_cb \<Rightarrow> Probe_complete (Inl (Dev_err Err_proto)) | Dev_open_cb \<Rightarrow> Open_complete (Some (Dev_err Err_proto))]"
proof -
  let ?resp = "resp_load_pdata_msg (Some d)"
  let ?t1 = "(bus (Bus_LoadPairingData name) (t\<lparr>pdata_sensor_name := Some name\<rparr>))
      \<lparr>md := (md t)\<lparr>mod_sent := mod_sent (md t) @ [?resp]\<rparr>, dev_wait := Init_recv cb\<rparr>"
  have alive: "\<not> proc_dead (md t)" using assms(3,4) by (simp add: proc_dead_def)
  have send: "dev_send a ?resp (bus (Bus_LoadPairingData name) (t\<lparr>pdata_sensor_name := Some name\<rparr>)) =
      (None, (bus (Bus_LoadPairingData name) (t\<lparr>pdata_sensor_name := Some name\<rparr>))
        \<lparr>md := (md t)\<lparr>mod_sent := mod_sent (md t) @ [?resp]\<rparr>\<rparr>)"
    using alive assms(5,6) by (simp add: dev_send_def send_ipc_msg_def bus_def)
  have 1: "dev_step a (Ev_message (Some (load_pdata_msg name))) t = Inr ?t1"
    using assms(2,7,13,14) sock_ready_load[OF alive assms(8)] msg_sensor_name_load[OF assms(8,9)] length_load_pdata_msg[OF assms(8)] send
    by (simp add: init_recv_cb_def load_pdata_msg_tag init_load_pdata_def check_sensor_name_def Let_def del: msg_code.simps)
  have f: "free t" using assms(1,2) by (intro inv_free) (auto simp: dev_inv_def)
  have t1: "free ?t1" using f by simp
  have alive1: "\<not> proc_dead (md ?t1)" using alive by (simp add: proc_dead_def)
  let ?t2 = "return_open a cb (Some (Dev_err Err_proto)) (disposed ?t1)"
  have "holds [] ?t1" using t1 unfolding free_def by blast
  then have "dispose_dev a ?t1 = Inr (disposed ?t1)" by (rule holds_dispose)
  then have 2: "dev_step a (Ev_message (Some (load_pdata_msg name'))) ?t1 = Inr ?t2"
    using sock_ready_load[OF alive1 assms(10)] msg_sensor_name_load[OF assms(10,11)] length_load_pdata_msg[OF assms(10)] assms(12)
    by (simp add: init_recv_cb_def load_pdata_msg_tag init_load_pdata_def check_sensor_name_def fail_open_def bus_def del: msg_code.simps)
  have 3: "bus_calls ?t2 = bus_calls ?t1 @ [Bus_Kill (host_id t)]" "\<not> host_has_id (md ?t2)"
    "dev_reports ?t2 = dev_reports t @ [case cb of
        Probe_open_cb \<Rightarrow> Probe_complete (Inl (Dev_err Err_proto)) | Dev_open_cb \<Rightarrow> Open_complete (Some (Dev_err Err_proto))]"
    using assms(3) by (simp_all add: return_failure) (simp_all add: disposed_def bus_def)
  have 5: "mod_sent (md ?t1) = mod_sent (md t) @ [?resp]" "bus_calls ?t1 = bus_calls t @ [Bus_LoadPairingData name]"
    "dev_wait ?t1 = Init_recv cb"
    by (simp_all add: bus_def)
  show ?thesis using 1 2 3 pdata_answer_is_read[OF assms(14)] 5 by blast
qed

text \<open>A device that waits for a new host, and a launcher that has two bytes of pairing data.\<close>

definition demo_waiting :: fp_device where
  "demo_waiting = demo_open\<lparr>dev_wait := Init_recv Dev_open_cb\<rparr>"

theorem handshake_serves_one_sensor_witness:
  "\<exists>t1 t2 resp st. dev_step (demo_answers\<lparr>ans_load := Some (Some [1, 2])\<rparr>) (Ev_message (Some (load_pdata_msg [65]))) demo_waiting = Inr t1 \<and>
      mod_sent (md t1) = [resp] \<and> get_pdata_cb [65] resp pdata_init = Inr ([1, 2], st) \<and>
      dev_step (demo_answers\<lparr>ans_load := Some (Some [1, 2])\<rparr>) (Ev_message (Some (load_pdata_msg [66]))) t1 = Inr t2 \<and>
      dev_reports t2 = [Open_complete (Some (Dev_err Err_proto))]"
proof -
  have i: "dev_inv demo_waiting"
    by (simp add: demo_waiting_def demo_open_def demo_device_def demo_module_def fpi_device_tudor_init_def dev_inv_def
        holds_def close_fds_def)
  have f: "dev_wait demo_waiting = Init_recv Dev_open_cb" "host_has_id (md demo_waiting)" "\<not> host_dead (md demo_waiting)"
    "has_socket (md demo_waiting)" "pdata_sensor_name demo_waiting = None" "mod_sent (md demo_waiting) = []"
    "dev_reports demo_waiting = []"
    by (simp_all add: demo_waiting_def demo_open_def demo_device_def demo_module_def fpi_device_tudor_init_def)
  have "ans_send (demo_answers\<lparr>ans_load := Some (Some [1, 2])\<rparr>)" by (simp add: demo_answers_def)
  note r = handshake_serves_one_sensor[OF i f(1-4) this f(5), of "[65]" "[66]" "[1, 2]"]
  show ?thesis using r f(6,7) by (auto simp: IPC_SENSOR_NAME_SIZE_def IPC_MAX_PDATA_SIZE_def)
qed

end
