(* ===== verification/Win_Hid_Dll.thy ===== *)
theory Win_Hid_Dll
  imports Device_State
begin

text \<open>
  The functions of \<open>HID.DLL\<close> the fingerprint driver calls (\<open>libtudor/src/winapi/hiddll.c\<close>): the table
  that tells the command channel from the image channel, the capabilities of the two channels, feature
  reports with the scan cycle they start, and the draining of input reports.  A HANDLE is its address
  and an output pointer an option, \<open>None\<close> for NULL;
  a report buffer is the list of its bytes, whose length is the length the caller names, and is not
  NULL.  The kernel is the part of the state that answers the \<open>ioctl\<close>s.
\<close>

section \<open>State\<close>

datatype hid_iface = HID_IFACE_CMD | HID_IFACE_IMG

datatype hid_ioctl = Set_feature int "byte list" | Get_feature int nat

text \<open>
  The statics of the file (\<open>img_shared\<close> is the \<open>shared\<close> of \<open>img_channel_shares_cmd_device\<close>, with \<open>None\<close>
  for -1), the two flags of \<open>fileops.c\<close>, and the kernel: the results of the next \<open>ioctl\<close>s (an error when
  there are none left), those that were made, the input reports of each descriptor that are or will
  be there before it falls silent, and the device numbers \<open>fstat\<close> finds.
\<close>

record hid_dll =
  hid_handle_table :: "(nat \<times> hid_iface) list"
  win_hidraw_fd :: int
  win_hidraw_fd_img :: int
  pass_heartbeats :: bool
  img_shared :: "bool option"
  img_monitor_started :: bool
  ioctl_rets :: "int list"
  ioctl_calls :: "hid_ioctl list"
  hid_input :: "int \<Rightarrow> byte list list"
  fstat_rdev :: "int \<Rightarrow> nat option"

section \<open>Handles\<close>

definition MAX_HID_HANDLES :: nat where "MAX_HID_HANDLES = 8"

definition hid_register_handle :: "nat \<Rightarrow> hid_iface \<Rightarrow> hid_dll \<Rightarrow> hid_dll" where
  "hid_register_handle h iface s =
     (if length (hid_handle_table s) < MAX_HID_HANDLES
      then s\<lparr>hid_handle_table := hid_handle_table s @ [(h, iface)]\<rparr> else s)"

fun table_iface :: "nat \<Rightarrow> (nat \<times> hid_iface) list \<Rightarrow> hid_iface" where
  "table_iface h [] = HID_IFACE_CMD"
| "table_iface h ((h', iface) # tab) = (if h' = h then iface else table_iface h tab)"

definition hid_get_handle_type :: "nat \<Rightarrow> hid_dll \<Rightarrow> hid_iface" where
  "hid_get_handle_type h s = table_iface h (hid_handle_table s)"

definition hid_get_fd_for_handle :: "nat \<Rightarrow> hid_dll \<Rightarrow> int" where
  "hid_get_fd_for_handle h s =
     (if hid_get_handle_type h s = HID_IFACE_IMG \<and> 0 \<le> win_hidraw_fd_img s
      then win_hidraw_fd_img s else win_hidraw_fd s)"

section \<open>Attributes and capabilities\<close>

record hidd_attributes =
  ha_Size :: u32
  ha_VendorID :: u16
  ha_ProductID :: u16
  ha_VersionNumber :: u16

definition HidD_GetAttributes :: "hidd_attributes option \<Rightarrow> hidd_attributes option \<times> bool" where
  "HidD_GetAttributes attrs =
     (case attrs of
        None \<Rightarrow> (None, False)
      | Some _ \<Rightarrow> (Some \<lparr>ha_Size = 12, ha_VendorID = 0x06cb, ha_ProductID = 0x00dd,
                         ha_VersionNumber = 0x0100\<rparr>, True))"

text \<open>A preparsed-data pointer: the two tokens of the file, or any other pointer.\<close>

datatype preparsed = Preparsed_cmd | Preparsed_img | Preparsed_other

definition HidD_GetPreparsedData :: "nat \<Rightarrow> preparsed option \<Rightarrow> hid_dll \<Rightarrow> preparsed option \<times> bool" where
  "HidD_GetPreparsedData h ppd s =
     (case ppd of
        None \<Rightarrow> (None, False)
      | Some _ \<Rightarrow>
          (Some (if hid_get_handle_type h s = HID_IFACE_IMG then Preparsed_img else Preparsed_cmd), True))"

record hidp_caps =
  Usage :: u16
  UsagePage :: u16
  InputReportByteLength :: u16
  OutputReportByteLength :: u16
  FeatureReportByteLength :: u16
  NumberLinkCollectionNodes :: u16
  NumberInputButtonCaps :: u16
  NumberInputValueCaps :: u16
  NumberInputDataIndices :: u16
  NumberOutputButtonCaps :: u16
  NumberOutputValueCaps :: u16
  NumberOutputDataIndices :: u16
  NumberFeatureButtonCaps :: u16
  NumberFeatureValueCaps :: u16
  NumberFeatureDataIndices :: u16

definition HIDP_STATUS_SUCCESS :: u32 where "HIDP_STATUS_SUCCESS = 0x00110000"

definition zero_caps :: hidp_caps where
  "zero_caps = \<lparr>Usage = 0, UsagePage = 0, InputReportByteLength = 0, OutputReportByteLength = 0,
     FeatureReportByteLength = 0, NumberLinkCollectionNodes = 0, NumberInputButtonCaps = 0,
     NumberInputValueCaps = 0, NumberInputDataIndices = 0, NumberOutputButtonCaps = 0,
     NumberOutputValueCaps = 0, NumberOutputDataIndices = 0, NumberFeatureButtonCaps = 0,
     NumberFeatureValueCaps = 0, NumberFeatureDataIndices = 0\<rparr>"

definition HidP_GetCaps :: "preparsed \<Rightarrow> hidp_caps option \<Rightarrow> u32 \<times> hidp_caps option" where
  "HidP_GetCaps ppd caps =
     (if caps = None then (WINERR_SET_CODE, None)
      else let c = zero_caps\<lparr>Usage := 1, UsagePage := 0xFF00\<rparr> in
        (HIDP_STATUS_SUCCESS,
         Some (if ppd = Preparsed_img
               then c\<lparr>InputReportByteLength := 64, OutputReportByteLength := 64,
                      FeatureReportByteLength := 64, NumberInputValueCaps := 1,
                      NumberOutputValueCaps := 1, NumberFeatureValueCaps := 2\<rparr>
               else c\<lparr>InputReportByteLength := 64, OutputReportByteLength := 20,
                      FeatureReportByteLength := 20, NumberInputValueCaps := 2,
                      NumberOutputValueCaps := 1, NumberFeatureValueCaps := 1\<rparr>)))"

text \<open>The fields of a \<open>HIDP_VALUE_CAPS\<close> the code sets; it clears all others.\<close>

record hidp_value_caps =
  vc_UsagePage :: u16
  vc_ReportID :: byte
  vc_BitSize :: u16
  vc_ReportCount :: u16

datatype hidp_report_type = HidP_Input | HidP_Output | HidP_Feature | HidP_Unknown

definition value_cap :: "byte \<Rightarrow> u16 \<Rightarrow> hidp_value_caps" where
  "value_cap rid n = \<lparr>vc_UsagePage = 0xFF00, vc_ReportID = rid, vc_BitSize = 8, vc_ReportCount = n\<rparr>"

text \<open>Writing \<open>new\<close> to the front of the caller's array of \<open>*caps_len\<close> elements.\<close>

definition put_caps :: "hidp_value_caps list \<Rightarrow> u16 \<Rightarrow> hidp_value_caps list
    \<Rightarrow> hidp_value_caps list \<times> u16" where
  "put_caps new n caps =
     (if length new \<le> unat n then (new @ drop (length new) caps, of_nat (length new)) else (caps, 0))"

definition HidP_GetValueCaps :: "hidp_report_type \<Rightarrow> hidp_value_caps list option \<Rightarrow> u16 option
    \<Rightarrow> preparsed \<Rightarrow> u32 \<times> hidp_value_caps list option \<times> u16 option" where
  "HidP_GetValueCaps ty caps caps_len ppd =
     (case (caps, caps_len) of
        (Some cs, Some n) \<Rightarrow>
          let r = (if ppd = Preparsed_img
                   then (case ty of
                           HidP_Input \<Rightarrow> put_caps [value_cap 0x21 63] n cs
                         | HidP_Output \<Rightarrow> put_caps [value_cap 0x20 63] n cs
                         | HidP_Feature \<Rightarrow> put_caps [value_cap 0x0C 63, value_cap 0x0D 63] n cs
                         | HidP_Unknown \<Rightarrow> (cs, n))
                   else (case ty of
                           HidP_Input \<Rightarrow> put_caps [value_cap 0x0F 63, value_cap 0x10 19] n cs
                         | HidP_Output \<Rightarrow> put_caps [value_cap 0x0E 19] n cs
                         | HidP_Feature \<Rightarrow> put_caps [value_cap 0x11 19] n cs
                         | HidP_Unknown \<Rightarrow> (cs, n)))
          in (HIDP_STATUS_SUCCESS, Some (fst r), Some (snd r))
      | _ \<Rightarrow> (WINERR_SET_CODE, caps, caps_len))"

section \<open>Feature reports\<close>

definition hid_ioctl :: "hid_ioctl \<Rightarrow> hid_dll \<Rightarrow> int \<times> hid_dll" where
  "hid_ioctl c s =
     (case ioctl_rets s of
        [] \<Rightarrow> (- 1, s\<lparr>ioctl_calls := ioctl_calls s @ [c]\<rparr>)
      | r # rs \<Rightarrow> (r, s\<lparr>ioctl_calls := ioctl_calls s @ [c], ioctl_rets := rs\<rparr>))"

definition ssi_report :: "byte \<Rightarrow> u16 \<Rightarrow> byte list" where
  "ssi_report subcmd param =
     [0x0C, subcmd, ucast (param AND 0xFF), ucast ((drop_bit 8 param) AND 0xFF)] @ replicate 60 0"

definition ssi_feature_0c :: "int \<Rightarrow> byte \<Rightarrow> u16 \<Rightarrow> hid_dll \<Rightarrow> bool \<times> hid_dll" where
  "ssi_feature_0c fd subcmd param s =
     (case hid_ioctl (Set_feature fd (ssi_report subcmd param)) s of (r, s1) \<Rightarrow>
        if r < 0 then (False, s1)
        else case hid_ioctl (Get_feature fd 64) s1 of (r2, s2) \<Rightarrow> (\<not> r2 < 0, s2))"

definition img_channel_shares_cmd_device :: "int \<Rightarrow> hid_dll \<Rightarrow> bool \<times> hid_dll" where
  "img_channel_shares_cmd_device img_fd s =
     (case img_shared s of
        Some b \<Rightarrow> (b, s)
      | None \<Rightarrow> let b = (fstat_rdev s (win_hidraw_fd s) \<noteq> None \<and>
                          fstat_rdev s img_fd = fstat_rdev s (win_hidraw_fd s))
                in (b, s\<lparr>img_shared := Some b\<rparr>))"

text \<open>The steps of the cycle, joined by \<open>&&\<close>.\<close>

definition ssi_script :: "(byte \<times> u16) list" where
  "ssi_script =
     [(0x04, 0x0000), (0x0F, 0x804A), (0x03, 0x0000), (0x0F, 0xFF58),
      (0x0F, 0x325E), (0x0F, 0x1C3C), (0x0F, 0x323D), (0x80, 0x0000)]"

fun ssi_steps :: "int \<Rightarrow> (byte \<times> u16) list \<Rightarrow> hid_dll \<Rightarrow> bool \<times> hid_dll" where
  "ssi_steps fd [] s = (True, s)"
| "ssi_steps fd ((c, p) # rest) s =
     (case ssi_feature_0c fd c p s of (ok, s1) \<Rightarrow> if ok then ssi_steps fd rest s1 else (False, s1))"

definition ssi_run_scan_cycle :: "int \<Rightarrow> hid_dll \<Rightarrow> hid_dll" where
  "ssi_run_scan_cycle fd s =
     (if fd < 0 then s
      else case img_channel_shares_cmd_device fd s of (shared, s1) \<Rightarrow>
        if shared then s1 else snd (ssi_steps fd ssi_script s1))"

definition start_img_monitor :: "int \<Rightarrow> hid_dll \<Rightarrow> hid_dll" where
  "start_img_monitor fd s =
     (if img_monitor_started s \<or> fd < 0 then s else s\<lparr>img_monitor_started := True\<rparr>)"

definition HidD_GetFeature :: "nat \<Rightarrow> nat \<Rightarrow> hid_dll \<Rightarrow> bool \<times> hid_dll" where
  "HidD_GetFeature dev len s =
     (let fd = hid_get_fd_for_handle dev s in
      if fd < 0 then (False, s)
      else case hid_ioctl (Get_feature fd len) s of (r, s1) \<Rightarrow> (\<not> r < 0, s1))"

text \<open>Draining: reports of the sensor are counted, others skipped; an empty read ends it.\<close>

fun drain_loop :: "byte list list \<Rightarrow> nat \<times> nat \<times> byte list list" where
  "drain_loop [] = (0, 0, [])"
| "drain_loop (r # rs) =
     (if r = [] then (0, 0, rs)
      else case drain_loop rs of (drained, skipped, rest) \<Rightarrow>
        if hd r \<noteq> 0x0F \<and> hd r \<noteq> 0x10 \<and> hd r \<noteq> 0x11 then (drained, Suc skipped, rest)
        else (Suc drained, skipped, rest))"

definition drain_input :: "int \<Rightarrow> hid_dll \<Rightarrow> hid_dll" where
  "drain_input fd s = s\<lparr>hid_input := (hid_input s)(fd := snd (snd (drain_loop (hid_input s fd))))\<rparr>"

text \<open>The two command words, in the bytes behind the report id.\<close>

definition is_wait_event :: "int \<Rightarrow> byte list \<Rightarrow> hid_dll \<Rightarrow> bool" where
  "is_wait_event fd rb s \<longleftrightarrow>
     fd = win_hidraw_fd s \<and> 5 \<le> length rb \<and> rb ! 1 = 0x77 \<and> rb ! 2 = 0x61 \<and> rb ! 3 = 0x69 \<and> rb ! 4 = 0x74"

definition is_end_event :: "byte list \<Rightarrow> bool" where
  "is_end_event rb \<longleftrightarrow> 4 \<le> length rb \<and> rb ! 1 = 0x65 \<and> rb ! 2 = 0x6E \<and> rb ! 3 = 0x64"

text \<open>The part of \<open>HidD_SetFeature\<close> up to the \<open>ioctl\<close>, and the part from it on.\<close>

definition set_feature_prepare :: "int \<Rightarrow> byte list \<Rightarrow> hid_dll \<Rightarrow> hid_dll" where
  "set_feature_prepare fd rb s = (if is_wait_event fd rb s then s\<lparr>pass_heartbeats := True\<rparr> else s)"

definition set_feature_wait :: "hid_dll \<Rightarrow> hid_dll" where
  "set_feature_wait s =
     (let s1 = ssi_run_scan_cycle (win_hidraw_fd_img s) s in
      if win_hidraw_fd_img s1 < 0 then s1
      else case img_channel_shares_cmd_device (win_hidraw_fd_img s1) s1 of (shared, s2) \<Rightarrow>
        if shared then s2 else start_img_monitor (win_hidraw_fd_img s2) s2)"

definition set_feature_submit :: "int \<Rightarrow> byte list \<Rightarrow> hid_dll \<Rightarrow> bool \<times> hid_dll" where
  "set_feature_submit fd rb s =
     (let is_wait = is_wait_event fd rb s in
      case hid_ioctl (Set_feature fd rb) s of (r, s1) \<Rightarrow>
        if r < 0 then (False, if is_wait then s1\<lparr>pass_heartbeats := False\<rparr> else s1)
        else if fd \<noteq> win_hidraw_fd s1 then (True, s1)
        else
          let s2 = (if is_wait then set_feature_wait s1 else s1);
              s3 = (if is_end_event rb \<and> pass_heartbeats s2 then s2\<lparr>pass_heartbeats := False\<rparr> else s2)
          in (True, if is_wait then s3 else drain_input fd s3))"

definition HidD_SetFeature :: "nat \<Rightarrow> byte list \<Rightarrow> hid_dll \<Rightarrow> bool \<times> hid_dll" where
  "HidD_SetFeature dev rb s =
     (let fd = hid_get_fd_for_handle dev s in
      if fd < 0 then (False, s) else set_feature_submit fd rb (set_feature_prepare fd rb s))"

fun flush_loop :: "byte list list \<Rightarrow> nat \<times> byte list list" where
  "flush_loop [] = (0, [])"
| "flush_loop (r # rs) =
     (if r = [] then (0, rs) else case flush_loop rs of (n, rest) \<Rightarrow> (Suc n, rest))"

definition HidD_FlushQueue :: "nat \<Rightarrow> hid_dll \<Rightarrow> bool \<times> hid_dll" where
  "HidD_FlushQueue dev s =
     (let fd = hid_get_fd_for_handle dev s in
      if fd < 0 then (True, s)
      else (True, s\<lparr>hid_input := (hid_input s)(fd := snd (flush_loop (hid_input s fd)))\<rparr>))"

text \<open>The last two parts of a GUID are stored with their bytes in the order they are written in.\<close>

definition DEFINE_GUID :: "u32 \<Rightarrow> u16 \<Rightarrow> u16 \<Rightarrow> nat \<Rightarrow> nat \<Rightarrow> guid" where
  "DEFINE_GUID a b c d e = \<lparr>PartA = a, PartB = b, PartC = c,
     PartD = le_word (rev (le_bytes 2 d)), PartE = le_word (rev (le_bytes 6 e))\<rparr>"

definition HidD_GetHidGuid :: "guid option \<Rightarrow> guid option" where
  "HidD_GetHidGuid g = map_option (\<lambda>_. DEFINE_GUID 0x4d1e55b2 0xf16f 0x11cf 0x88cb 0x001111000030) g"

section \<open>Capabilities are consistent\<close>

definition number_value_caps :: "hidp_report_type \<Rightarrow> hidp_caps \<Rightarrow> nat" where
  "number_value_caps ty c = unat (case ty of HidP_Input \<Rightarrow> NumberInputValueCaps c
     | HidP_Output \<Rightarrow> NumberOutputValueCaps c | HidP_Feature \<Rightarrow> NumberFeatureValueCaps c
     | HidP_Unknown \<Rightarrow> 0)"

definition report_byte_length :: "hidp_report_type \<Rightarrow> hidp_caps \<Rightarrow> nat" where
  "report_byte_length ty c = unat (case ty of HidP_Input \<Rightarrow> InputReportByteLength c
     | HidP_Output \<Rightarrow> OutputReportByteLength c | HidP_Feature \<Rightarrow> FeatureReportByteLength c
     | HidP_Unknown \<Rightarrow> 0)"

text \<open>The bytes of a report: its id and \<open>ReportCount\<close> values of \<open>BitSize\<close> bits.\<close>

definition cap_bytes :: "hidp_value_caps \<Rightarrow> nat" where
  "cap_bytes v = 1 + unat (vc_ReportCount v) * unat (vc_BitSize v) div 8"

text \<open>What \<open>HidP_GetValueCaps\<close> writes for a channel.\<close>

definition channel_caps :: "preparsed \<Rightarrow> hidp_report_type \<Rightarrow> hidp_value_caps list" where
  "channel_caps ppd ty =
     (case ty of
        HidP_Input \<Rightarrow> if ppd = Preparsed_img then [value_cap 0x21 63] else [value_cap 0x0F 63, value_cap 0x10 19]
      | HidP_Output \<Rightarrow> if ppd = Preparsed_img then [value_cap 0x20 63] else [value_cap 0x0E 19]
      | HidP_Feature \<Rightarrow> if ppd = Preparsed_img then [value_cap 0x0C 63, value_cap 0x0D 63] else [value_cap 0x11 19]
      | HidP_Unknown \<Rightarrow> [])"

lemma value_caps_eq:
  "ty \<noteq> HidP_Unknown \<Longrightarrow> HidP_GetValueCaps ty (Some cs) (Some n) ppd =
     (HIDP_STATUS_SUCCESS, Some (fst (put_caps (channel_caps ppd ty) n cs)),
      Some (snd (put_caps (channel_caps ppd ty) n cs)))"
  by (cases ty) (auto simp: HidP_GetValueCaps_def channel_caps_def Let_def)

definition channel_counts :: "preparsed \<Rightarrow> hidp_caps" where
  "channel_counts ppd =
     (if ppd = Preparsed_img
      then zero_caps\<lparr>Usage := 1, UsagePage := 0xFF00, InputReportByteLength := 64,
        OutputReportByteLength := 64, FeatureReportByteLength := 64, NumberInputValueCaps := 1,
        NumberOutputValueCaps := 1, NumberFeatureValueCaps := 2\<rparr>
      else zero_caps\<lparr>Usage := 1, UsagePage := 0xFF00, InputReportByteLength := 64,
        OutputReportByteLength := 20, FeatureReportByteLength := 20, NumberInputValueCaps := 2,
        NumberOutputValueCaps := 1, NumberFeatureValueCaps := 1\<rparr>)"

lemma GetCaps_counts: "HidP_GetCaps ppd (Some c0) = (HIDP_STATUS_SUCCESS, Some (channel_counts ppd))"
  by (simp add: HidP_GetCaps_def channel_counts_def Let_def)

lemmas channel_simps =
  channel_caps_def channel_counts_def number_value_caps_def report_byte_length_def value_cap_def cap_bytes_def

lemma channel_caps_match:
  assumes "ty \<noteq> HidP_Unknown"
  shows "length (channel_caps ppd ty) = number_value_caps ty (channel_counts ppd)"
    and "distinct (List.map vc_ReportID (channel_caps ppd ty))"
    and "Max (cap_bytes ` List.set (channel_caps ppd ty)) = report_byte_length ty (channel_counts ppd)"
  using assms
  by (cases ty; cases "ppd = Preparsed_img"; simp add: channel_simps)+

lemma number_value_caps_le: "number_value_caps ty (channel_counts ppd) \<le> 2"
  by (cases ty; cases "ppd = Preparsed_img"; simp add: channel_simps zero_caps_def)

text \<open>
  The two views of a channel agree.  A driver that asks for the capabilities of a channel and
  offers an array of the number of value capabilities it is told gets exactly that number, with
  distinct report ids, and the longest report they describe has the length the capabilities name.
  With a smaller array it gets nothing and the array is left alone.
\<close>

theorem value_caps_agree:
  assumes "HidP_GetCaps ppd (Some c0) = (HIDP_STATUS_SUCCESS, Some c)"
    and "ty \<noteq> HidP_Unknown" and "length cs = unat n"
    and "HidP_GetValueCaps ty (Some cs) (Some n) ppd = (st, Some cs', Some n')"
  shows "st = HIDP_STATUS_SUCCESS \<and> length cs' = length cs \<and>
    (if number_value_caps ty c \<le> length cs
     then unat n' = number_value_caps ty c \<and>
       distinct (List.map vc_ReportID (take (unat n') cs')) \<and>
       Max (cap_bytes ` List.set (take (unat n') cs')) = report_byte_length ty c
     else n' = 0 \<and> cs' = cs)"
proof -
  let ?new = "channel_caps ppd ty"
  have c: "c = channel_counts ppd" using assms(1) by (simp add: GetCaps_counts)
  note m = channel_caps_match[OF assms(2), of ppd, folded c]
  have k: "unat (of_nat (number_value_caps ty c) :: u16) = number_value_caps ty c"
    using number_value_caps_le[of ty ppd, folded c] by (simp add: unat_of_nat take_bit_eq_mod)
  have r: "st = HIDP_STATUS_SUCCESS" "cs' = fst (put_caps ?new n cs)" "n' = snd (put_caps ?new n cs)"
    using assms(4) by (simp_all add: value_caps_eq[OF assms(2)])
  show ?thesis
  proof (cases "number_value_caps ty c \<le> length cs")
    case True
    then have "cs' = ?new @ drop (length ?new) cs" "unat n' = length ?new"
      using r k by (simp_all add: put_caps_def m(1) assms(3))
    then show ?thesis using True m r(1) by simp
  next
    case False
    then show ?thesis using r by (simp add: put_caps_def m(1) assms(3))
  qed
qed

theorem value_caps_agree_witness:
  "distinct (List.map vc_ReportID (take 2 [value_cap 0x0F 63, value_cap 0x10 19, value_cap 0 0]))"
proof -
  define z where "z = value_cap 0 0"
  have c: "number_value_caps HidP_Input (channel_counts Preparsed_cmd) = 2"
    by (simp add: channel_simps)
  have "HidP_GetValueCaps HidP_Input (Some [z, z, z]) (Some 3) Preparsed_cmd =
      (HIDP_STATUS_SUCCESS, Some [value_cap 0x0F 63, value_cap 0x10 19, z], Some 2)"
    by (simp add: HidP_GetValueCaps_def put_caps_def)
  from value_caps_agree[OF GetCaps_counts _ _ this] c show ?thesis
    by (simp add: z_def)
qed

section \<open>The scan cycle\<close>

text \<open>How many calls succeed before the first that fails.\<close>

fun first_failure :: "int list \<Rightarrow> nat" where
  "first_failure [] = 0"
| "first_failure (r # rs) = (if r < 0 then 0 else Suc (first_failure rs))"

text \<open>The calls of the steps when none fails.\<close>

definition step_calls :: "int \<Rightarrow> (byte \<times> u16) list \<Rightarrow> hid_ioctl list" where
  "step_calls fd steps =
     concat (List.map (\<lambda>(c, p). [Set_feature fd (ssi_report c p), Get_feature fd 64]) steps)"

lemma length_step_calls [simp]: "length (step_calls fd steps) = 2 * length steps"
  by (induction steps) (auto simp: step_calls_def)

lemma step_calls_Cons [simp]:
  "step_calls fd ((c, p) # steps) =
     Set_feature fd (ssi_report c p) # Get_feature fd 64 # step_calls fd steps"
  by (simp add: step_calls_def)

lemma ssi_feature_ok:
  assumes "ioctl_rets s = a # b # rs" and "\<not> a < 0"
  shows "ssi_feature_0c fd c p s =
    (\<not> b < 0, s\<lparr>ioctl_calls := ioctl_calls s @ [Set_feature fd (ssi_report c p), Get_feature fd 64],
                ioctl_rets := rs\<rparr>)"
  using assms by (simp add: ssi_feature_0c_def hid_ioctl_def)

lemma ssi_feature_fails:
  "ioctl_rets s = [] \<Longrightarrow> ssi_feature_0c fd c p s =
     (False, s\<lparr>ioctl_calls := ioctl_calls s @ [Set_feature fd (ssi_report c p)]\<rparr>)"
  "ioctl_rets s = a # rs \<Longrightarrow> a < 0 \<Longrightarrow> ssi_feature_0c fd c p s =
     (False, s\<lparr>ioctl_calls := ioctl_calls s @ [Set_feature fd (ssi_report c p)], ioctl_rets := rs\<rparr>)"
  "ioctl_rets s = [a] \<Longrightarrow> \<not> a < 0 \<Longrightarrow> ssi_feature_0c fd c p s =
     (False, s\<lparr>ioctl_calls := ioctl_calls s @ [Set_feature fd (ssi_report c p), Get_feature fd 64],
               ioctl_rets := []\<rparr>)"
  by (simp_all add: ssi_feature_0c_def hid_ioctl_def)

lemma ssi_steps_calls:
  assumes "ssi_steps fd steps s = (ok, s')"
  shows "ok = (2 * length steps \<le> first_failure (ioctl_rets s)) \<and>
    ioctl_calls s' = ioctl_calls s @ take (Suc (first_failure (ioctl_rets s))) (step_calls fd steps)"
  using assms
proof (induction steps arbitrary: s)
  case Nil
  then show ?case by (simp add: step_calls_def)
next
  case (Cons cp steps)
  obtain c p where cp: "cp = (c, p)" by (cases cp)
  consider "ioctl_rets s = []" | a rs where "ioctl_rets s = a # rs" "a < 0"
    | a where "ioctl_rets s = [a]" "\<not> a < 0" | a b rs where "ioctl_rets s = a # b # rs" "\<not> a < 0"
    by (cases "ioctl_rets s"; cases "tl (ioctl_rets s)") auto
  then show ?case
  proof cases
    case 1
    then show ?thesis using Cons.prems ssi_feature_fails(1)[OF 1, of fd c p] by (auto simp: cp)
  next
    case 2
    then show ?thesis using Cons.prems ssi_feature_fails(2)[OF 2, of fd c p] by (auto simp: cp)
  next
    case 3
    then show ?thesis using Cons.prems ssi_feature_fails(3)[OF 3, of fd c p] by (auto simp: cp)
  next
    case 4
    note f = ssi_feature_ok[OF 4, of fd c p]
    show ?thesis
    proof (cases "b < 0")
      case True
      then show ?thesis using Cons.prems 4 f by (auto simp: cp)
    next
      case False
      with Cons.prems f have "ssi_steps fd steps (s\<lparr>ioctl_calls := ioctl_calls s @
          [Set_feature fd (ssi_report c p), Get_feature fd 64], ioctl_rets := rs\<rparr>) = (ok, s')"
        by (simp add: cp)
      from Cons.IH[OF this] False 4 show ?thesis by (simp add: cp)
    qed
  qed
qed

lemma shares_cmd_device_calls:
  "img_channel_shares_cmd_device fd s = (b, s') \<Longrightarrow> ioctl_calls s' = ioctl_calls s"
  "img_channel_shares_cmd_device fd s = (b, s') \<Longrightarrow> ioctl_rets s' = ioctl_rets s"
  "img_channel_shares_cmd_device fd s = (b, s') \<Longrightarrow> img_shared s' = Some b"
  by (auto simp: img_channel_shares_cmd_device_def Let_def split: option.splits)

lemma in_take_first:
  "x \<notin> List.set ys \<Longrightarrow> x \<in> List.set (take n (ys @ x # zs)) \<longleftrightarrow> length ys < n"
  by (auto simp: take_Cons' dest: in_set_takeD)

lemma start_scan_position:
  "Set_feature fd (ssi_report 0x80 0x0000) \<in> List.set (take n (step_calls fd ssi_script)) \<longleftrightarrow> 14 < n"
proof -
  let ?x = "Set_feature fd (ssi_report 0x80 0x0000)"
  have d: "step_calls fd ssi_script = step_calls fd (butlast ssi_script) @ ?x # [Get_feature fd 64]"
    by (simp add: ssi_script_def step_calls_def)
  have x: "?x \<notin> List.set (step_calls fd (butlast ssi_script))"
    by (simp add: ssi_script_def step_calls_def ssi_report_def)
  have "length (butlast ssi_script) = 7" by (simp add: ssi_script_def)
  then show ?thesis unfolding d in_take_first[OF x] by simp
qed

text \<open>
  The cycle that starts a capture stops at the first request the image channel refuses: what goes
  out is the script up to and including the request that failed, so the scan is started only after
  all fourteen requests before it succeeded.  Nothing goes out without an image channel, or when the
  image channel is the command channel.
\<close>

theorem scan_cycle_stops_at_failure:
  "ioctl_calls (ssi_run_scan_cycle fd s) = ioctl_calls s @
     (if fd < 0 \<or> fst (img_channel_shares_cmd_device fd s) then []
      else take (Suc (first_failure (ioctl_rets s))) (step_calls fd ssi_script)) \<and>
   (Set_feature fd (ssi_report 0x80 0x0000) \<in> List.set (drop (length (ioctl_calls s)) (ioctl_calls (ssi_run_scan_cycle fd s)))
     \<longrightarrow> 14 \<le> first_failure (ioctl_rets s))"
proof -
  obtain b s1 where sh: "img_channel_shares_cmd_device fd s = (b, s1)" by fastforce
  obtain ok s2 where st: "ssi_steps fd ssi_script s1 = (ok, s2)" by fastforce
  have "ioctl_calls (ssi_run_scan_cycle fd s) = ioctl_calls s @
     (if fd < 0 \<or> b then [] else take (Suc (first_failure (ioctl_rets s))) (step_calls fd ssi_script))"
    using ssi_steps_calls[OF st] by (simp add: ssi_run_scan_cycle_def sh st shares_cmd_device_calls[OF sh])
  then show ?thesis
    using start_scan_position[of fd "Suc (first_failure (ioctl_rets s))"] by (simp add: sh split: if_splits)
qed

section \<open>The handle table\<close>

definition register_all :: "(nat \<times> hid_iface) list \<Rightarrow> hid_dll \<Rightarrow> hid_dll" where
  "register_all hs s = fold (\<lambda>(h, i). hid_register_handle h i) hs s"

lemma table_iface_map_of: "table_iface h tab = (case map_of tab h of None \<Rightarrow> HID_IFACE_CMD | Some i \<Rightarrow> i)"
  by (induction tab) auto

lemma register_all_table:
  "length (hid_handle_table s) \<le> MAX_HID_HANDLES \<Longrightarrow>
     hid_handle_table (register_all hs s) = take MAX_HID_HANDLES (hid_handle_table s @ hs)"
proof (induction hs arbitrary: s)
  case Nil
  then show ?case by (simp add: register_all_def)
next
  case (Cons p hs)
  obtain h i where p: "p = (h, i)" by (cases p)
  have r: "register_all (p # hs) s = register_all hs (hid_register_handle h i s)"
    by (simp add: register_all_def p)
  show ?case
  proof (cases "length (hid_handle_table s) < MAX_HID_HANDLES")
    case True
    then show ?thesis using Cons.IH[of "hid_register_handle h i s"] r
      by (simp add: hid_register_handle_def p)
  next
    case False
    then show ?thesis using Cons r by (simp add: hid_register_handle_def)
  qed
qed

text \<open>A handle has the channel of its first registration, if that is among the first eight ever.\<close>

lemma handle_keeps_first_channel:
  "length (hid_handle_table s) \<le> MAX_HID_HANDLES \<Longrightarrow>
     hid_get_handle_type h (register_all hs s) =
       (case map_of (take MAX_HID_HANDLES (hid_handle_table s @ hs)) h of None \<Rightarrow> HID_IFACE_CMD | Some i \<Rightarrow> i)"
  by (simp add: hid_get_handle_type_def register_all_table table_iface_map_of)

text \<open>Nothing leaves the table, so the ninth file that is opened is taken for the command channel.\<close>

lemma ninth_handle_is_command:
  assumes "length (hid_handle_table s) = MAX_HID_HANDLES" and "h \<notin> fst ` List.set (hid_handle_table s)"
  shows "hid_get_fd_for_handle h (hid_register_handle h HID_IFACE_IMG s) = win_hidraw_fd s"
proof -
  have "map_of (hid_handle_table s) h = None" using assms(2) by (simp add: map_of_eq_None_iff)
  then show ?thesis
    using assms(1) by (simp add: hid_get_fd_for_handle_def hid_get_handle_type_def table_iface_map_of
        hid_register_handle_def)
qed

end
