(* ===== verification/Win_Hid_File.thy ===== *)
theory Win_Hid_File
  imports Win_Hid_Dll Win_Strings Wdf_Request
begin

text \<open>
  Files of the HID device (\<open>libtudor/src/winapi/fileops.c\<close>): opening a channel, queueing reads, the
  thread that reads input reports and completes the oldest read with each report that is for the
  driver, writing, and closing.  The reader and the threads of the driver interleave in atomic steps;
  the parts of \<open>HidD_SetFeature\<close> before and after the request goes out are two steps, because the
  sensor may answer in between.  The last part is the functions that always give the same answer.
\<close>

section \<open>Opening a channel\<close>

definition GENERIC_READ :: u32 where "GENERIC_READ = 0x80000000"
definition GENERIC_WRITE :: u32 where "GENERIC_WRITE = 0x40000000"
definition OPEN_EXISTING :: u32 where "OPEN_EXISTING = 3"

fun starts_with :: "string \<Rightarrow> string \<Rightarrow> bool" where
  "starts_with [] s = True"
| "starts_with (p # ps) s = (case s of [] \<Rightarrow> False | c # cs \<Rightarrow> p = c \<and> starts_with ps cs)"

fun strstr :: "string \<Rightarrow> string \<Rightarrow> bool" where
  "strstr [] needle = starts_with needle []"
| "strstr (c # cs) needle = (starts_with needle (c # cs) \<or> strstr cs needle)"

definition img_path :: "string option \<Rightarrow> bool" where
  "img_path path = (case path of None \<Rightarrow> False | Some p \<Rightarrow> strstr p ''MI_01'')"

definition hid_fd_for_path :: "string option \<Rightarrow> hid_dll \<Rightarrow> int" where
  "hid_fd_for_path path s = (if img_path path then win_hidraw_fd_img s else win_hidraw_fd s)"

definition hid_iface_for_path :: "string option \<Rightarrow> hid_iface" where
  "hid_iface_for_path path = (if img_path path then HID_IFACE_IMG else HID_IFACE_CMD)"

text \<open>
  A handle: without data, or with a file for a descriptor.  \<open>mem\<close> is the address of the new handle,
  \<open>ctx_ok\<close> tells whether the reader context could be allocated.
\<close>

datatype hid_handle = No_data nat | Hid_file nat int

definition create_hid_file_handle :: "nat \<Rightarrow> bool \<Rightarrow> int \<Rightarrow> hid_handle option" where
  "create_hid_file_handle mem ctx_ok fd =
     (if fd < 0 then Some (No_data mem) else if \<not> ctx_ok then None else Some (Hid_file mem fd))"

definition handle_addr :: "hid_handle \<Rightarrow> nat" where
  "handle_addr h = (case h of No_data a \<Rightarrow> a | Hid_file a fd \<Rightarrow> a)"

datatype opened = Invalid_handle | Null_handle | Opened hid_handle

definition open_hid :: "nat \<Rightarrow> bool \<Rightarrow> string option \<Rightarrow> u32 \<Rightarrow> u32 \<Rightarrow> hid_dll \<Rightarrow> opened \<times> hid_dll" where
  "open_hid mem ctx_ok name access disposition s =
     (if disposition = OPEN_EXISTING \<and> access AND (GENERIC_READ OR GENERIC_WRITE) \<noteq> 0
      then case create_hid_file_handle mem ctx_ok (hid_fd_for_path name s) of
             None \<Rightarrow> (Null_handle, s)
           | Some h \<Rightarrow> (Opened h, hid_register_handle (handle_addr h) (hid_iface_for_path name) s)
      else (Invalid_handle, s))"

definition CreateFileA :: "nat \<Rightarrow> bool \<Rightarrow> string option \<Rightarrow> u32 \<Rightarrow> u32 \<Rightarrow> hid_dll \<Rightarrow> opened \<times> hid_dll" where
  "CreateFileA mem ctx_ok name access disposition s = open_hid mem ctx_ok name access disposition s"

definition CreateFileW :: "nat \<Rightarrow> bool \<Rightarrow> u16 list option \<Rightarrow> u32 \<Rightarrow> u32 \<Rightarrow> hid_dll \<Rightarrow> (opened \<times> hid_dll) result" where
  "CreateFileW mem ctx_ok name access disposition s =
     res_bind (winstr_to_str name) (\<lambda>cname. Inr (open_hid mem ctx_ok cname access disposition s))"

section \<open>State of a file\<close>

record hid_read_req =
  rq_ovlp :: nat
  rq_buf_size :: nat

text \<open>The reader: at the test of its outer loop, in the wait for a read, or busy with one.\<close>

datatype reader_pc = Not_Started | Loop_Top | Waiting | Reading hid_read_req | Exited

record hid_completion =
  cp_ovlp :: nat
  cp_status :: u32
  cp_size :: nat
  cp_buf :: "byte list"

text \<open>
  One file and what it shares: the statics, \<open>tudor_shutting_down\<close>, and \<open>struct hid_reader_ctx\<close>, whose
  linked queue is a list.  Ghost: \<open>submitted\<close> are the reads that were accepted, \<open>taken\<close> the reports the
  reader took, each with the flag at that moment.
\<close>

record hid_file =
  dll :: hid_dll
  shutting_down :: bool
  rfd :: int
  reader :: reader_pc
  rd_shutdown :: bool
  read_queue :: "hid_read_req list"
  completions :: "hid_completion list"
  submitted :: "hid_read_req list"
  taken :: "(byte list \<times> bool) list"

definition stopping :: "hid_file \<Rightarrow> bool" where
  "stopping st = (shutting_down st \<or> rd_shutdown st)"

definition rd_complete :: "nat \<Rightarrow> u32 \<Rightarrow> nat \<Rightarrow> byte list \<Rightarrow> hid_file \<Rightarrow> hid_file" where
  "rd_complete ovlp status n buf st =
     st\<lparr>completions := completions st @
       [\<lparr>cp_ovlp = ovlp, cp_status = status, cp_size = n, cp_buf = buf\<rparr>]\<rparr>"

section \<open>Queueing a read\<close>

definition hid_file_read :: "bool \<Rightarrow> bool \<Rightarrow> hid_read_req \<Rightarrow> hid_file \<Rightarrow> u32 \<times> hid_file" where
  "hid_file_read mem_ok thread_ok req st =
     (if \<not> mem_ok then (STATUS_CANCELLED, st)
      else if reader st = Not_Started \<and> \<not> thread_ok then (STATUS_CANCELLED, st)
      else
        let st1 = (if reader st = Not_Started then st\<lparr>reader := Loop_Top\<rparr> else st)
        in (STATUS_SUCCESS, st1\<lparr>read_queue := read_queue st1 @ [req],
              submitted := submitted st1 @ [req]\<rparr>))"

section \<open>The reader thread\<close>

definition synaptic :: "byte list" where
  "synaptic = [0x73, 0x79, 0x6E, 0x61, 0x70, 0x74, 0x69, 0x63]"

definition fp_report :: "byte list \<Rightarrow> bool" where
  "fp_report d = (hd d = 0x0F \<or> hd d = 0x10)"

definition heartbeat :: "byte list \<Rightarrow> bool" where
  "heartbeat d \<longleftrightarrow>
     length d = 20 \<and> d ! 0 = 0x10 \<and> take 8 (drop 1 d) = synaptic \<and>
     d ! 9 = 0x07 \<and> d ! 10 = 0 \<and> d ! 11 = 0 \<and> d ! 12 = 0"

text \<open>The reports the read loop goes on after.\<close>

definition skip_report :: "bool \<Rightarrow> byte list \<Rightarrow> bool" where
  "skip_report pass d \<longleftrightarrow>
     d \<noteq> [] \<and> \<not> fp_report d \<or> heartbeat d \<and> \<not> pass \<and> (d ! 13 = 0x01 \<or> d ! 13 = 0x02)"

definition pad_report :: "nat \<Rightarrow> byte list \<Rightarrow> byte list" where
  "pad_report n d = d @ replicate (n - length d) 0"

text \<open>The end of a turn: the read is completed and the thread goes back to the top of its loop.\<close>

definition finish_read :: "hid_read_req \<Rightarrow> byte list option \<Rightarrow> hid_file \<Rightarrow> hid_file" where
  "finish_read req d st =
     (case d of
        Some (b # bs) \<Rightarrow>
          rd_complete (rq_ovlp req) STATUS_SUCCESS (length (pad_report (rq_buf_size req) (b # bs)))
            (pad_report (rq_buf_size req) (b # bs)) st
      | _ \<Rightarrow> rd_complete (rq_ovlp req) STATUS_CANCELLED 0 [] st)\<lparr>reader := Loop_Top\<rparr>"

definition take_report :: "hid_read_req \<Rightarrow> byte list \<Rightarrow> byte list list \<Rightarrow> hid_file \<Rightarrow> hid_file" where
  "take_report req d rest st =
     (let got = take (rq_buf_size req) d;
          pass = pass_heartbeats (dll st);
          st1 = st\<lparr>dll := (dll st)\<lparr>hid_input := (hid_input (dll st))(rfd st := rest)\<rparr>,
                   taken := taken st @ [(got, pass)]\<rparr>
      in if skip_report pass got then st1 else finish_read req (Some got) st1)"

text \<open>
  What \<open>read\<close> and \<open>poll\<close> answer apart from reports: nothing special (the read finds the next report, or
  none is there and the poll runs out), an error of the read, or an error of the poll on an empty queue.
\<close>

datatype os_answer = Os_normal | Os_read_error | Os_poll_error

fun cancel_all :: "hid_read_req list \<Rightarrow> hid_file \<Rightarrow> hid_file" where
  "cancel_all [] st = st"
| "cancel_all (r # rs) st = cancel_all rs (rd_complete (rq_ovlp r) STATUS_CANCELLED 0 [] st)"

definition reader_step :: "os_answer \<Rightarrow> hid_file \<Rightarrow> hid_file" where
  "reader_step ans st =
     (case reader st of
        Loop_Top \<Rightarrow> if stopping st then st\<lparr>reader := Exited\<rparr> else st\<lparr>reader := Waiting\<rparr>
      | Waiting \<Rightarrow>
          if stopping st then (cancel_all (read_queue st) (st\<lparr>read_queue := []\<rparr>))\<lparr>reader := Exited\<rparr>
          else (case read_queue st of
                  [] \<Rightarrow> st
                | r # rs \<Rightarrow> st\<lparr>read_queue := rs, reader := Reading r\<rparr>)
      | Reading r \<Rightarrow>
          if ans = Os_read_error then finish_read r None st
          else (case hid_input (dll st) (rfd st) of
                  d # rest \<Rightarrow> take_report r d rest st
                | [] \<Rightarrow> if stopping st \<or> ans = Os_poll_error then finish_read r None st else st)
      | _ \<Rightarrow> st)"

section \<open>Writing and closing\<close>

definition hid_file_write :: "nat \<Rightarrow> int \<Rightarrow> hid_file \<Rightarrow> u32 \<times> nat \<times> u32 \<times> nat" where
  "hid_file_write ovlp n st =
     (STATUS_SUCCESS, if 0 \<le> n then (ovlp, STATUS_SUCCESS, nat n) else (ovlp, STATUS_CANCELLED, 0))"

text \<open>Closing sets the flag, wakes the reader and joins it when it was started.\<close>

definition destroy_begin :: "hid_file \<Rightarrow> hid_file" where
  "destroy_begin st = st\<lparr>rd_shutdown := True\<rparr>"

definition destroy_joined :: "hid_file \<Rightarrow> bool" where
  "destroy_joined st = (reader st = Not_Started \<or> reader st = Exited)"

fun reader_run :: "os_answer list \<Rightarrow> hid_file \<Rightarrow> hid_file" where
  "reader_run [] st = st"
| "reader_run (a # as) st = reader_run as (reader_step a st)"

text \<open>The steps the join waits for are \<open>answers\<close>; \<open>None\<close> when the reader has not ended by then.\<close>

definition hid_file_destroy :: "os_answer list \<Rightarrow> hid_file \<Rightarrow> hid_file option" where
  "hid_file_destroy answers st =
     (let st1 = reader_run answers (destroy_begin st) in if destroy_joined st1 then Some st1 else None)"

section \<open>The image monitor\<close>

text \<open>One turn of its loop: \<open>False\<close> when the thread ends.\<close>

definition img_monitor_turn :: "os_answer \<Rightarrow> hid_file \<Rightarrow> bool \<times> hid_file" where
  "img_monitor_turn ans st =
     (let fd = win_hidraw_fd_img (dll st) in
      if shutting_down st \<or> ans \<noteq> Os_normal then (False, st)
      else case hid_input (dll st) fd of
             [] \<Rightarrow> (True, st)
           | d # rest \<Rightarrow>
               (d \<noteq> [], st\<lparr>dll := (dll st)\<lparr>hid_input := (hid_input (dll st))(fd := rest)\<rparr>\<rparr>))"

section \<open>Functions that always give the same answer\<close>

definition DeleteFileW :: bool where "DeleteFileW = True"
definition FindFirstFileA :: "nat option" where "FindFirstFileA = None"
definition FindFirstFileExW :: "nat option" where "FindFirstFileExW = None"
definition FindNextFileA :: bool where "FindNextFileA = False"
definition FindNextFileW :: bool where "FindNextFileW = False"
definition FindClose :: bool where "FindClose = True"
definition FlushFileBuffers :: bool where "FlushFileBuffers = True"

definition GetFileSizeEx :: "(u32 \<times> u32) option \<Rightarrow> (u32 \<times> u32) option \<times> bool" where
  "GetFileSizeEx sz = (map_option (\<lambda>_. (0, 0)) sz, False)"

definition GetFileType :: u32 where "GetFileType = 0"
definition SetEndOfFile :: bool where "SetEndOfFile = True"

definition SetFilePointerEx :: "(u32 \<times> u32) option \<Rightarrow> (u32 \<times> u32) option \<times> bool" where
  "SetFilePointerEx new_pos = (map_option (\<lambda>_. (0, 0)) new_pos, True)"

definition CreateDirectoryA :: bool where "CreateDirectoryA = True"
definition MoveFileExW :: bool where "MoveFileExW = True"

section \<open>Runs\<close>

text \<open>
  Everything that can happen to the file: the driver's calls, the two threads, the kernel and the
  sensor (a report arrives, the answers to the next requests), and the end of the process.
\<close>

datatype hid_action =
    A_read bool bool hid_read_req
  | A_reader os_answer
  | A_prepare int "byte list"
  | A_submit int "byte list"
  | A_get_feature nat nat
  | A_flush nat
  | A_open nat bool "string option" u32 u32
  | A_report int "byte list"
  | A_monitor os_answer
  | A_ioctl_rets "int list"
  | A_shutdown
  | A_destroy

definition in_dll :: "(hid_dll \<Rightarrow> hid_dll) \<Rightarrow> hid_file \<Rightarrow> hid_file" where
  "in_dll f st = st\<lparr>dll := f (dll st)\<rparr>"

definition hid_do :: "hid_action \<Rightarrow> hid_file \<Rightarrow> hid_file" where
  "hid_do a st =
     (case a of
        A_read mem_ok thread_ok req \<Rightarrow> snd (hid_file_read mem_ok thread_ok req st)
      | A_reader ans \<Rightarrow> reader_step ans st
      | A_prepare fd rb \<Rightarrow> in_dll (set_feature_prepare fd rb) st
      | A_submit fd rb \<Rightarrow> in_dll (\<lambda>d. snd (set_feature_submit fd rb d)) st
      | A_get_feature dev len \<Rightarrow> in_dll (\<lambda>d. snd (HidD_GetFeature dev len d)) st
      | A_flush dev \<Rightarrow> in_dll (\<lambda>d. snd (HidD_FlushQueue dev d)) st
      | A_open mem ok name access disp \<Rightarrow> in_dll (\<lambda>d. snd (open_hid mem ok name access disp d)) st
      | A_report fd d \<Rightarrow> in_dll (\<lambda>s. s\<lparr>hid_input := (hid_input s)(fd := hid_input s fd @ [d])\<rparr>) st
      | A_monitor ans \<Rightarrow> snd (img_monitor_turn ans st)
      | A_ioctl_rets rs \<Rightarrow> in_dll (\<lambda>s. s\<lparr>ioctl_rets := rs\<rparr>) st
      | A_shutdown \<Rightarrow> st\<lparr>shutting_down := True\<rparr>
      | A_destroy \<Rightarrow> destroy_begin st)"

definition hid_run :: "hid_action list \<Rightarrow> hid_file \<Rightarrow> hid_file" where
  "hid_run acts st = fold hid_do acts st"

lemma hid_run_simps [simp]:
  "hid_run [] st = st"
  "hid_run (a # acts) st = hid_run acts (hid_do a st)"
  "hid_run (as @ bs) st = hid_run bs (hid_run as st)"
  by (simp_all add: hid_run_def)

definition fresh_file :: "hid_dll \<Rightarrow> int \<Rightarrow> hid_file" where
  "fresh_file d fd = \<lparr>dll = d, shutting_down = False, rfd = fd, reader = Not_Started,
     rd_shutdown = False, read_queue = [], completions = [], submitted = [], taken = []\<rparr>"

lemma in_dll_simps [simp]:
  "dll (in_dll f st) = f (dll st)" "reader (in_dll f st) = reader st"
  "read_queue (in_dll f st) = read_queue st" "completions (in_dll f st) = completions st"
  "submitted (in_dll f st) = submitted st" "taken (in_dll f st) = taken st"
  "rfd (in_dll f st) = rfd st" "shutting_down (in_dll f st) = shutting_down st"
  "rd_shutdown (in_dll f st) = rd_shutdown st"
  by (simp_all add: in_dll_def)

section \<open>Reads are completed in order\<close>

definition pending_reads :: "hid_file \<Rightarrow> hid_read_req list" where
  "pending_reads st = (case reader st of Reading r \<Rightarrow> [r] | _ \<Rightarrow> []) @ read_queue st"

text \<open>A completion is the answer to a read: a report that fills its buffer, or a cancellation.\<close>

definition answers_read :: "hid_completion \<Rightarrow> hid_read_req \<Rightarrow> bool" where
  "answers_read c r \<longleftrightarrow> cp_ovlp c = rq_ovlp r \<and>
     (if cp_status c = STATUS_SUCCESS
      then cp_size c = rq_buf_size r \<and> length (cp_buf c) = rq_buf_size r
      else cp_status c = STATUS_CANCELLED \<and> cp_size c = 0 \<and> cp_buf c = [])"

text \<open>The reports that are for the driver, and the buffers of the reads that succeeded.\<close>

definition passed_reports :: "hid_file \<Rightarrow> byte list list" where
  "passed_reports st = List.map fst (filter (\<lambda>(d, p). d \<noteq> [] \<and> \<not> skip_report p d) (taken st))"

definition delivered :: "hid_file \<Rightarrow> byte list list" where
  "delivered st = List.map cp_buf (filter (\<lambda>c. cp_status c = STATUS_SUCCESS) (completions st))"

definition padded :: "byte list \<Rightarrow> byte list \<Rightarrow> bool" where
  "padded buf d = (\<exists>k. buf = d @ replicate k 0)"

definition reads_inv :: "hid_file \<Rightarrow> bool" where
  "reads_inv st \<longleftrightarrow>
     (\<exists>answered. submitted st = answered @ pending_reads st \<and>
        list_all2 answers_read (completions st) answered) \<and>
     list_all2 padded (delivered st) (passed_reports st)"

lemma reads_invI:
  "submitted st = answered @ pending_reads st \<Longrightarrow> list_all2 answers_read (completions st) answered \<Longrightarrow>
   list_all2 padded (delivered st) (passed_reports st) \<Longrightarrow> reads_inv st"
  by (auto simp: reads_inv_def)

lemma reads_inv_cong:
  "reads_inv st \<Longrightarrow> submitted st' = submitted st \<Longrightarrow> pending_reads st' = pending_reads st \<Longrightarrow>
   completions st' = completions st \<Longrightarrow> taken st' = taken st \<Longrightarrow> reads_inv st'"
  by (simp add: reads_inv_def delivered_def passed_reports_def)

lemma status_cancelled_neq [simp]: "STATUS_CANCELLED \<noteq> STATUS_SUCCESS" "STATUS_SUCCESS \<noteq> STATUS_CANCELLED"
  by (simp_all add: STATUS_CANCELLED_def STATUS_SUCCESS_def)

lemma reads_inv_in_dll: "reads_inv st \<Longrightarrow> reads_inv (in_dll f st)"
  by (erule reads_inv_cong) (simp_all add: pending_reads_def)

lemma reads_inv_file_read: "reads_inv st \<Longrightarrow> reads_inv (snd (hid_file_read m t req st))"
  unfolding reads_inv_def hid_file_read_def
  by (auto simp: pending_reads_def delivered_def passed_reports_def Let_def split: reader_pc.splits)

lemma cancel_all_fields [simp]:
  "completions (cancel_all q st) = completions st @
     List.map (\<lambda>r. \<lparr>cp_ovlp = rq_ovlp r, cp_status = STATUS_CANCELLED, cp_size = 0, cp_buf = []\<rparr>) q"
  "submitted (cancel_all q st) = submitted st" "taken (cancel_all q st) = taken st"
  "read_queue (cancel_all q st) = read_queue st" "dll (cancel_all q st) = dll st"
  "rfd (cancel_all q st) = rfd st"
  by (induction q arbitrary: st) (simp_all add: rd_complete_def)

lemma filter_cancelled [simp]:
  "filter (\<lambda>c. cp_status c = STATUS_SUCCESS)
     (List.map (\<lambda>r. \<lparr>cp_ovlp = rq_ovlp r, cp_status = STATUS_CANCELLED, cp_size = 0, cp_buf = []\<rparr>) q) = []"
  by (induction q) auto

lemma answers_cancelled:
  "list_all2 answers_read
     (List.map (\<lambda>r. \<lparr>cp_ovlp = rq_ovlp r, cp_status = STATUS_CANCELLED, cp_size = 0, cp_buf = []\<rparr>) q) q"
  by (induction q) (auto simp: answers_read_def)

lemma finish_read_inv:
  assumes "reads_inv st" and "reader st = Reading r"
    and "d = None \<or> d = Some []"
  shows "reads_inv (finish_read r d st)"
proof -
  from assms(1,2) obtain answered where a: "submitted st = answered @ [r] @ read_queue st"
      "list_all2 answers_read (completions st) answered"
      "list_all2 padded (delivered st) (passed_reports st)"
    by (auto simp: reads_inv_def pending_reads_def)
  show ?thesis
    by (rule reads_invI[of _ "answered @ [r]"])
      (use assms(3) a in \<open>auto simp: finish_read_def rd_complete_def pending_reads_def delivered_def
         passed_reports_def answers_read_def
         intro!: list_all2_appendI\<close>)
qed

lemma take_report_inv:
  assumes "reads_inv st" and "reader st = Reading r"
  shows "reads_inv (take_report r d rest st)"
proof -
  from assms obtain answered where a: "submitted st = answered @ [r] @ read_queue st"
      "list_all2 answers_read (completions st) answered"
      "list_all2 padded (delivered st) (passed_reports st)"
    by (auto simp: reads_inv_def pending_reads_def)
  define got where "got = take (rq_buf_size r) d"
  show ?thesis
  proof (cases "skip_report (pass_heartbeats (dll st)) got")
    case True
    then show ?thesis
      by (intro reads_invI[of _ answered])
        (use a assms(2) in \<open>auto simp: take_report_def got_def[symmetric] Let_def pending_reads_def
           delivered_def passed_reports_def\<close>)
  next
    case False
    have len: "length got \<le> rq_buf_size r" by (simp add: got_def)
    show ?thesis
    proof (cases got)
      case Nil
      then show ?thesis
        by (intro reads_invI[of _ "answered @ [r]"])
          (use a assms(2) False in \<open>auto simp: take_report_def got_def[symmetric] Let_def pending_reads_def
             delivered_def passed_reports_def finish_read_def rd_complete_def answers_read_def
         intro!: list_all2_appendI\<close>)
    next
      case (Cons b bs)
      have p: "padded (pad_report (rq_buf_size r) got) got"
        by (auto simp: padded_def pad_report_def)
      have l: "length (pad_report (rq_buf_size r) got) = rq_buf_size r"
        using len by (simp add: pad_report_def)
      show ?thesis
        by (intro reads_invI[of _ "answered @ [r]"])
          (use a assms(2) False p l in \<open>auto simp: take_report_def got_def[symmetric] Let_def pending_reads_def
             delivered_def passed_reports_def finish_read_def rd_complete_def answers_read_def Cons intro!: list_all2_appendI\<close>)
    qed
  qed
qed

lemma reader_step_inv:
  assumes "reads_inv st" shows "reads_inv (reader_step ans st)"
proof (cases "reader st")
  case Waiting
  from assms Waiting obtain answered where a: "submitted st = answered @ read_queue st"
      "list_all2 answers_read (completions st) answered"
      "list_all2 padded (delivered st) (passed_reports st)"
    by (auto simp: reads_inv_def pending_reads_def)
  show ?thesis
  proof (cases "stopping st")
    case True
    show ?thesis
      by (rule reads_invI[of _ "answered @ read_queue st"])
        (use a True Waiting answers_cancelled[of "read_queue st"] in
          \<open>auto simp: reader_step_def pending_reads_def delivered_def passed_reports_def intro!: list_all2_appendI\<close>)
  next
    case False
    then show ?thesis using assms Waiting
      by (auto simp: reader_step_def pending_reads_def split: list.splits intro: reads_inv_cong)
  qed
next
  case (Reading r)
  then show ?thesis using assms
    by (auto simp: reader_step_def intro: finish_read_inv take_report_inv split: list.splits)
qed (use assms in \<open>auto simp: reader_step_def pending_reads_def intro: reads_inv_cong\<close>)

lemma hid_do_inv: "reads_inv st \<Longrightarrow> reads_inv (hid_do a st)"
proof (cases a)
  case (A_monitor ans)
  assume "reads_inv st"
  then show ?thesis
    by (auto simp: A_monitor hid_do_def img_monitor_turn_def Let_def pending_reads_def
        intro: reads_inv_cong split: list.splits)
qed (auto simp: hid_do_def reads_inv_in_dll reads_inv_file_read reader_step_inv destroy_begin_def
       pending_reads_def intro: reads_inv_cong)

lemma hid_run_inv: "reads_inv st \<Longrightarrow> reads_inv (hid_run acts st)"
  by (induction acts arbitrary: st) (auto intro: hid_do_inv)

lemma fresh_file_inv: "reads_inv (fresh_file d fd)"
  by (auto simp: reads_inv_def fresh_file_def pending_reads_def delivered_def passed_reports_def)

text \<open>
  C31: Reads are answered in the order they were queued, each at most once and none is forgotten while
  the reader lives: at any moment the reads accepted are those answered, the one the reader is busy
  with, and the queue.  The reads that succeeded carry exactly the reports that are for the driver,
  in the order they arrived, padded with zeros to the length of the buffer.
\<close>

theorem reads_complete_in_order:
  "let st = hid_run acts (fresh_file d fd)
   in (\<exists>answered. submitted st = answered @ pending_reads st \<and>
         list_all2 answers_read (completions st) answered) \<and>
      list_all2 padded (delivered st) (passed_reports st)"
  using hid_run_inv[OF fresh_file_inv, of acts d fd] by (simp add: reads_inv_def Let_def)

text \<open>
  The reports the image channel is said to send are not reports the reader takes for the driver's, so
  no read of that channel succeeds.
\<close>

lemma image_reports_are_skipped:
  assumes "HidP_GetValueCaps HidP_Input (Some [c]) (Some 1) Preparsed_img = (st, Some [v], n)"
    and "d \<noteq> []" and "hd d = vc_ReportID v"
  shows "skip_report p d"
  using assms by (auto simp: HidP_GetValueCaps_def put_caps_def value_cap_def skip_report_def fp_report_def)

section \<open>The capture window\<close>

lemma ssi_feature_0c_fields:
  "ssi_feature_0c fd c p s = (ok, s') \<Longrightarrow> win_hidraw_fd s' = win_hidraw_fd s \<and> pass_heartbeats s' = pass_heartbeats s"
  by (auto simp: ssi_feature_0c_def hid_ioctl_def split: list.splits if_splits prod.splits)

lemma ssi_steps_fields:
  "ssi_steps fd steps s = (ok, s') \<Longrightarrow> win_hidraw_fd s' = win_hidraw_fd s \<and> pass_heartbeats s' = pass_heartbeats s"
proof (induction fd steps s rule: ssi_steps.induct)
  case (2 fd c p rest s)
  obtain b s1 where f: "ssi_feature_0c fd c p s = (b, s1)" by fastforce
  show ?case using 2 ssi_feature_0c_fields[OF f] by (cases b) (auto simp: f)
qed simp

lemma shares_cmd_device_fields:
  "img_channel_shares_cmd_device fd s = (b, s') \<Longrightarrow>
     win_hidraw_fd s' = win_hidraw_fd s \<and> pass_heartbeats s' = pass_heartbeats s"
  by (auto simp: img_channel_shares_cmd_device_def Let_def split: option.splits)

lemma scan_cycle_fields [simp]:
  "win_hidraw_fd (ssi_run_scan_cycle fd s) = win_hidraw_fd s"
  "pass_heartbeats (ssi_run_scan_cycle fd s) = pass_heartbeats s"
proof -
  obtain b s1 where sh: "img_channel_shares_cmd_device fd s = (b, s1)" by fastforce
  obtain ok s2 where st: "ssi_steps fd ssi_script s1 = (ok, s2)" by fastforce
  show "win_hidraw_fd (ssi_run_scan_cycle fd s) = win_hidraw_fd s"
    "pass_heartbeats (ssi_run_scan_cycle fd s) = pass_heartbeats s"
    using shares_cmd_device_fields[OF sh] ssi_steps_fields[OF st]
    by (auto simp: ssi_run_scan_cycle_def sh st)
qed

lemma set_feature_wait_fields [simp]:
  "win_hidraw_fd (set_feature_wait s) = win_hidraw_fd s"
  "pass_heartbeats (set_feature_wait s) = pass_heartbeats s"
proof -
  let ?s1 = "ssi_run_scan_cycle (win_hidraw_fd_img s) s"
  obtain b s2 where sh: "img_channel_shares_cmd_device (win_hidraw_fd_img ?s1) ?s1 = (b, s2)" by fastforce
  show "win_hidraw_fd (set_feature_wait s) = win_hidraw_fd s"
    "pass_heartbeats (set_feature_wait s) = pass_heartbeats s"
    using shares_cmd_device_fields[OF sh]
    by (auto simp: set_feature_wait_def Let_def sh start_img_monitor_def)
qed

definition wait_word :: "byte list \<Rightarrow> bool" where
  "wait_word rb \<longleftrightarrow> 5 \<le> length rb \<and> rb ! 1 = 0x77 \<and> rb ! 2 = 0x61 \<and> rb ! 3 = 0x69 \<and> rb ! 4 = 0x74"

lemma is_wait_event_word: "is_wait_event fd rb s \<longleftrightarrow> fd = win_hidraw_fd s \<and> wait_word rb"
  by (simp add: is_wait_event_def wait_word_def)

lemma wait_is_not_end: "wait_word rb \<Longrightarrow> \<not> is_end_event rb"
  by (simp add: wait_word_def is_end_event_def)

lemma submit_fields:
  assumes "set_feature_submit fd rb s = (ok, s')"
  shows "win_hidraw_fd s' = win_hidraw_fd s"
    and "\<not> (fd = win_hidraw_fd s \<and> (wait_word rb \<or> is_end_event rb)) \<Longrightarrow> pass_heartbeats s' = pass_heartbeats s"
    and "ok \<Longrightarrow> wait_word rb \<Longrightarrow> pass_heartbeats s' = pass_heartbeats s"
    and "ok \<Longrightarrow> fd = win_hidraw_fd s \<Longrightarrow> is_end_event rb \<Longrightarrow> \<not> pass_heartbeats s'"
proof -
  obtain r s1 where io: "hid_ioctl (Set_feature fd rb) s = (r, s1)" by fastforce
  have s1: "win_hidraw_fd s1 = win_hidraw_fd s" "pass_heartbeats s1 = pass_heartbeats s"
    using io by (auto simp: hid_ioctl_def split: list.splits)
  note d = assms[unfolded set_feature_submit_def io is_wait_event_word]
  show "win_hidraw_fd s' = win_hidraw_fd s"
    using d s1 by (auto simp: Let_def drain_input_def split: if_splits)
  show "pass_heartbeats s' = pass_heartbeats s"
    if "\<not> (fd = win_hidraw_fd s \<and> (wait_word rb \<or> is_end_event rb))"
    using d s1 that by (auto simp: Let_def drain_input_def split: if_splits)
  show "pass_heartbeats s' = pass_heartbeats s" if "ok" "wait_word rb"
    using d s1 that wait_is_not_end[of rb] by (auto simp: Let_def drain_input_def split: if_splits)
  show "\<not> pass_heartbeats s'" if "ok" "fd = win_hidraw_fd s" "is_end_event rb"
    using d s1 that wait_is_not_end[of rb] by (auto simp: Let_def drain_input_def split: if_splits)
qed

text \<open>An action that sends neither command word on the command channel \<open>cmd\<close>.\<close>

definition quiet :: "int \<Rightarrow> hid_action \<Rightarrow> bool" where
  "quiet cmd a =
     (case a of
        A_prepare fd rb \<Rightarrow> \<not> (fd = cmd \<and> (wait_word rb \<or> is_end_event rb))
      | A_submit fd rb \<Rightarrow> \<not> (fd = cmd \<and> (wait_word rb \<or> is_end_event rb))
      | _ \<Rightarrow> True)"

lemma finish_read_dll [simp]: "dll (finish_read r d st) = dll st" "taken (finish_read r d st) = taken st"
  by (auto simp: finish_read_def rd_complete_def split: option.splits list.splits)

lemma reader_step_dll:
  "win_hidraw_fd (dll (reader_step ans st)) = win_hidraw_fd (dll st)"
  "pass_heartbeats (dll (reader_step ans st)) = pass_heartbeats (dll st)"
  "taken (reader_step ans st) = taken st \<or>
   (\<exists>d. taken (reader_step ans st) = taken st @ [(d, pass_heartbeats (dll st))])"
  by (auto simp: reader_step_def take_report_def Let_def split: reader_pc.splits list.splits)

lemma hid_do_cmd_fd [simp]: "win_hidraw_fd (dll (hid_do a st)) = win_hidraw_fd (dll st)"
proof (cases a)
  case (A_submit fd rb)
  obtain ok s' where "set_feature_submit fd rb (dll st) = (ok, s')" by fastforce
  from submit_fields(1)[OF this] this show ?thesis by (simp add: A_submit hid_do_def)
next
  case (A_monitor ans)
  then show ?thesis by (auto simp: hid_do_def img_monitor_turn_def Let_def split: list.splits)
qed (auto simp: hid_do_def hid_file_read_def Let_def reader_step_dll set_feature_prepare_def
       HidD_GetFeature_def hid_ioctl_def HidD_FlushQueue_def open_hid_def hid_register_handle_def
       destroy_begin_def split: list.splits option.splits prod.splits)

lemma hid_run_cmd_fd [simp]: "win_hidraw_fd (dll (hid_run acts st)) = win_hidraw_fd (dll st)"
  by (induction acts arbitrary: st) auto

lemma hid_do_quiet:
  assumes "quiet (win_hidraw_fd (dll st)) a"
  shows "pass_heartbeats (dll (hid_do a st)) = pass_heartbeats (dll st)"
proof (cases a)
  case (A_submit fd rb)
  obtain ok s' where sub: "set_feature_submit fd rb (dll st) = (ok, s')" by fastforce
  from submit_fields(2)[OF sub] assms sub show ?thesis by (simp add: A_submit hid_do_def quiet_def)
next
  case (A_monitor ans)
  then show ?thesis by (auto simp: hid_do_def img_monitor_turn_def Let_def split: list.splits)
qed (use assms in \<open>auto simp: hid_do_def hid_file_read_def Let_def reader_step_dll set_feature_prepare_def
       HidD_GetFeature_def hid_ioctl_def HidD_FlushQueue_def open_hid_def hid_register_handle_def
       destroy_begin_def quiet_def is_wait_event_word split: list.splits option.splits prod.splits\<close>)

lemma hid_do_taken:
  "taken (hid_do a st) = taken st \<or>
   (\<exists>d. taken (hid_do a st) = taken st @ [(d, pass_heartbeats (dll st))])"
proof (cases a)
  case (A_reader ans)
  then show ?thesis using reader_step_dll(3)[of ans st] by (simp add: hid_do_def)
next
  case (A_monitor ans)
  then show ?thesis by (auto simp: hid_do_def img_monitor_turn_def Let_def split: list.splits)
qed (auto simp: hid_do_def hid_file_read_def Let_def destroy_begin_def)

text \<open>In a stretch of quiet actions every report is taken with the flag there was at its beginning.\<close>

lemma quiet_run:
  assumes "\<forall>a \<in> List.set acts. quiet (win_hidraw_fd (dll st)) a"
  shows "pass_heartbeats (dll (hid_run acts st)) = pass_heartbeats (dll st) \<and>
    (\<exists>ds. taken (hid_run acts st) = taken st @ List.map (\<lambda>d. (d, pass_heartbeats (dll st))) ds)"
  using assms
proof (induction acts arbitrary: st)
  case Nil
  show ?case by simp
next
  case (Cons a acts)
  have p: "pass_heartbeats (dll (hid_do a st)) = pass_heartbeats (dll st)"
    using Cons.prems by (intro hid_do_quiet) simp
  obtain es where e: "taken (hid_do a st) = taken st @ List.map (\<lambda>d. (d, pass_heartbeats (dll st))) es"
    using hid_do_taken[of a st] by (metis append_Nil2 list.simps(8) list.simps(9))
  obtain ds where "taken (hid_run acts (hid_do a st)) =
      taken (hid_do a st) @ List.map (\<lambda>d. (d, pass_heartbeats (dll st))) ds"
    and "pass_heartbeats (dll (hid_run acts (hid_do a st))) = pass_heartbeats (dll st)"
    using Cons.IH[of "hid_do a st"] Cons.prems p by auto
  then show ?case using e by (auto intro: exI[of _ "es @ ds"])
qed

lemma run_prepare:
  "wait_word w \<Longrightarrow> cmd = win_hidraw_fd (dll st) \<Longrightarrow>
   pass_heartbeats (dll (hid_do (A_prepare cmd w) st)) \<and> taken (hid_do (A_prepare cmd w) st) = taken st"
  by (simp add: hid_do_def set_feature_prepare_def is_wait_event_word)

lemma run_prepare_end:
  "is_end_event e \<Longrightarrow> dll (hid_do (A_prepare cmd e) st) = dll st \<and> taken (hid_do (A_prepare cmd e) st) = taken st"
  using wait_is_not_end[of e] by (auto simp: hid_do_def set_feature_prepare_def is_wait_event_word)

lemma run_submit:
  assumes "fst (set_feature_submit fd rb (dll st))"
  shows "wait_word rb \<Longrightarrow> pass_heartbeats (dll (hid_do (A_submit fd rb) st)) = pass_heartbeats (dll st)"
    and "fd = win_hidraw_fd (dll st) \<Longrightarrow> is_end_event rb \<Longrightarrow> \<not> pass_heartbeats (dll (hid_do (A_submit fd rb) st))"
    and "taken (hid_do (A_submit fd rb) st) = taken st"
proof -
  obtain s' where "set_feature_submit fd rb (dll st) = (True, s')"
    using assms by (cases "set_feature_submit fd rb (dll st)") auto
  with submit_fields(3,4)[OF this] show
    "wait_word rb \<Longrightarrow> pass_heartbeats (dll (hid_do (A_submit fd rb) st)) = pass_heartbeats (dll st)"
    "fd = win_hidraw_fd (dll st) \<Longrightarrow> is_end_event rb \<Longrightarrow> \<not> pass_heartbeats (dll (hid_do (A_submit fd rb) st))"
    "taken (hid_do (A_submit fd rb) st) = taken st"
    by (auto simp: hid_do_def)
qed


definition wait_rb :: "byte list" where "wait_rb = [0x11, 0x77, 0x61, 0x69, 0x74]"
definition end_rb :: "byte list" where "end_rb = [0x11, 0x65, 0x6E, 0x64]"

definition quiet_dll :: hid_dll where
  "quiet_dll = \<lparr>hid_handle_table = [], win_hidraw_fd = 3, win_hidraw_fd_img = - 1, pass_heartbeats = False,
     img_shared = None, img_monitor_started = False, ioctl_rets = [5, 4], ioctl_calls = [],
     hid_input = (\<lambda>fd. if fd = 3 then [[0x10, 0x07]] else []), fstat_rdev = (\<lambda>fd. None)\<rparr>"


section \<open>Closing\<close>

lemma finish_read_answers:
  assumes "d = None \<or> (\<exists>x. d = Some (take (rq_buf_size r) x))"
  shows "\<exists>c. answers_read c r \<and> completions (finish_read r d st) = completions st @ [c]"
proof (cases "d = None \<or> d = Some []")
  case True
  then show ?thesis
    by (intro exI[of _ "\<lparr>cp_ovlp = rq_ovlp r, cp_status = STATUS_CANCELLED, cp_size = 0, cp_buf = []\<rparr>"])
      (auto simp: finish_read_def rd_complete_def answers_read_def)
next
  case False
  then obtain b bs x where d: "d = Some (b # bs)" "b # bs = take (rq_buf_size r) x"
    using assms by (metis neq_Nil_conv)
  let ?buf = "pad_report (rq_buf_size r) (b # bs)"
  have "length (b # bs) \<le> rq_buf_size r" unfolding d(2) by simp
  then have "length ?buf = rq_buf_size r" by (simp add: pad_report_def)
  with d(1) show ?thesis
    by (intro exI[of _ "\<lparr>cp_ovlp = rq_ovlp r, cp_status = STATUS_SUCCESS, cp_size = length ?buf, cp_buf = ?buf\<rparr>"])
      (simp add: finish_read_def rd_complete_def answers_read_def)
qed

lemma finish_read_fields:
  "read_queue (finish_read r d st) = read_queue st" "reader (finish_read r d st) = Loop_Top"
  "stopping (finish_read r d st) = stopping st"
  by (auto simp: finish_read_def rd_complete_def stopping_def split: option.splits list.splits)

text \<open>The steps the reader needs at most when it has been told to stop.\<close>

definition steps_left :: "hid_file \<Rightarrow> nat" where
  "steps_left st =
     (case reader st of
        Loop_Top \<Rightarrow> 1 | Waiting \<Rightarrow> 1 | Reading r \<Rightarrow> 2 + length (hid_input (dll st) (rfd st)) | _ \<Rightarrow> 0)"

lemma reader_run_ended: "reader st = Exited \<Longrightarrow> reader_run answers st = st"
  by (induction answers) (auto simp: reader_step_def)

lemma reader_run_top:
  "stopping st \<Longrightarrow> reader st = Loop_Top \<Longrightarrow> 1 \<le> length answers \<Longrightarrow>
     reader_run answers st = st\<lparr>reader := Exited\<rparr>"
  by (cases answers) (auto simp: reader_step_def reader_run_ended)

lemma reading_step:
  assumes "stopping st" and "reader st = Reading r"
  obtains d rest where "reader_step ans st = st\<lparr>dll := (dll st)\<lparr>hid_input := (hid_input (dll st))(rfd st := rest)\<rparr>,
        taken := taken st @ [d]\<rparr>" "length rest < length (hid_input (dll st) (rfd st))"
  | c where "answers_read c r" "completions (reader_step ans st) = completions st @ [c]"
      "read_queue (reader_step ans st) = read_queue st" "reader (reader_step ans st) = Loop_Top"
      "stopping (reader_step ans st)"
proof (cases "ans = Os_read_error \<or> hid_input (dll st) (rfd st) = []")
  case True
  then have "reader_step ans st = finish_read r None st"
    using assms by (auto simp: reader_step_def)
  then show ?thesis
    using finish_read_answers[of None r st] finish_read_fields[of r None st] that(2) assms(1) by auto
next
  case False
  then obtain d rest where i: "hid_input (dll st) (rfd st) = d # rest"
    by (cases "hid_input (dll st) (rfd st)") auto
  let ?got = "take (rq_buf_size r) d" and ?p = "pass_heartbeats (dll st)"
  let ?st1 = "st\<lparr>dll := (dll st)\<lparr>hid_input := (hid_input (dll st))(rfd st := rest)\<rparr>,
                 taken := taken st @ [(?got, ?p)]\<rparr>"
  have t: "reader_step ans st = (if skip_report ?p ?got then ?st1 else finish_read r (Some ?got) ?st1)"
    using False i assms by (simp add: reader_step_def take_report_def Let_def)
  show ?thesis
  proof (cases "skip_report ?p ?got")
    case True
    then show ?thesis using t i that(1)[where rest = rest and d = "(?got, ?p)"] by simp
  next
    case False
    have "stopping ?st1" using assms(1) by (simp add: stopping_def)
    then show ?thesis
      using t False finish_read_answers[of "Some ?got" r ?st1] finish_read_fields[of r "Some ?got" ?st1] that(2)
      by auto
  qed
qed

lemma reading_closes:
  assumes "stopping st" and "reader st = Reading r" and "steps_left st \<le> length answers"
  shows "\<exists>c. answers_read c r \<and> completions (reader_run answers st) = completions st @ [c] \<and>
    reader (reader_run answers st) = Exited"
  using assms
proof (induction answers arbitrary: st)
  case Nil
  then show ?case by (simp add: steps_left_def)
next
  case (Cons a answers)
  from Cons.prems(1,2) show ?case
  proof (cases rule: reading_step[where ans = a])
    case (1 d rest)
    then show ?thesis
      using Cons.IH[of "reader_step a st"] Cons.prems by (simp add: steps_left_def stopping_def)
  next
    case (2 c)
    have "1 \<le> length answers" using Cons.prems by (simp add: steps_left_def)
    then show ?thesis using 2 reader_run_top[of "reader_step a st" answers] by auto
  qed
qed

lemma exited_do:
  assumes "reader st = Exited"
  shows "reader (hid_do a st) = Exited \<and> completions (hid_do a st) = completions st"
proof (cases a)
  case (A_monitor ans)
  then show ?thesis using assms by (auto simp: hid_do_def img_monitor_turn_def Let_def split: list.splits)
qed (use assms in \<open>auto simp: hid_do_def hid_file_read_def Let_def destroy_begin_def reader_step_def\<close>)

lemma exited_run:
  "reader st = Exited \<Longrightarrow> completions (hid_run acts st) = completions st"
  using exited_do by (induction acts arbitrary: st) auto

text \<open>
  Closing a file returns: the reader ends after at most two steps more than there are reports
  left, whatever the kernel answers.  The read it is busy with is completed; the reads in the queue
  are cancelled if the reader was waiting.  Reads queued behind the one it is busy with are dropped:
  nothing completes them, then or ever.
\<close>

theorem closing_ends_the_reader:
  assumes "length (hid_input (dll st) (rfd st)) + 2 \<le> length answers"
  shows "\<exists>st' new. hid_file_destroy answers st = Some st' \<and> completions st' = completions st @ new \<and>
    list_all2 answers_read new
      (case reader st of Reading r \<Rightarrow> [r] | Waiting \<Rightarrow> read_queue st | _ \<Rightarrow> []) \<and>
    (reader st \<noteq> Not_Started \<longrightarrow> (\<forall>acts. completions (hid_run acts st') = completions st'))"
proof -
  let ?st = "destroy_begin st"
  let ?fin = "reader_run answers ?st"
  have st: "stopping ?st" "reader ?st = reader st" "completions ?st = completions st"
      "read_queue ?st = read_queue st"
    by (auto simp: destroy_begin_def stopping_def)
  obtain a as where as: "answers = a # as" using assms by (cases answers) auto
  have "\<exists>new. completions ?fin = completions st @ new \<and>
      list_all2 answers_read new (case reader st of Reading r \<Rightarrow> [r] | Waiting \<Rightarrow> read_queue st | _ \<Rightarrow> []) \<and>
      reader ?fin = (if reader st = Not_Started then Not_Started else Exited)"
  proof (cases "reader st")
    case Not_Started
    have "reader_run bs ?st = ?st" for bs
      using Not_Started st(2) by (induction bs) (auto simp: reader_step_def)
    then show ?thesis using st Not_Started by simp
  next
    case Loop_Top
    then show ?thesis using reader_run_top[of ?st answers] st as by simp
  next
    case Waiting
    have "reader_run answers ?st = (cancel_all (read_queue ?st) (?st\<lparr>read_queue := []\<rparr>))\<lparr>reader := Exited\<rparr>"
      using Waiting st as by (simp add: reader_step_def reader_run_ended)
    then show ?thesis using st Waiting answers_cancelled[of "read_queue st"] by simp
  next
    case (Reading r)
    have "steps_left ?st \<le> length answers"
      using Reading assms by (simp add: steps_left_def destroy_begin_def)
    with reading_closes[of ?st r answers] st Reading show ?thesis by auto
  next
    case Exited
    then show ?thesis using reader_run_ended[of ?st answers] st by simp
  qed
  then obtain new where n: "completions ?fin = completions st @ new"
      "list_all2 answers_read new (case reader st of Reading r \<Rightarrow> [r] | Waiting \<Rightarrow> read_queue st | _ \<Rightarrow> [])"
      "reader ?fin = (if reader st = Not_Started then Not_Started else Exited)"
    by blast
  then show ?thesis
    using exited_run[of ?fin]
    by (intro exI[of _ ?fin] exI[of _ new]) (auto simp: hid_file_destroy_def destroy_joined_def)
qed

text \<open>Two reads are queued, the reader takes the first, the file is closed: the second is lost.\<close>

theorem closing_ends_the_reader_witness:
  "let st = hid_run [A_read True True \<lparr>rq_ovlp = 1, rq_buf_size = 64\<rparr>, A_read True True \<lparr>rq_ovlp = 2, rq_buf_size = 64\<rparr>,
       A_reader Os_normal, A_reader Os_normal] (fresh_file (quiet_dll\<lparr>hid_input := \<lambda>fd. []\<rparr>) 3)
   in (\<exists>st'. hid_file_destroy [Os_normal, Os_normal] st = Some st' \<and>
         (\<exists>c. completions st' = [c] \<and> cp_ovlp c = 1) \<and> (\<forall>acts. completions (hid_run acts st') = completions st'))"
proof -
  let ?st = "hid_run [A_read True True \<lparr>rq_ovlp = 1, rq_buf_size = 64\<rparr>, A_read True True \<lparr>rq_ovlp = 2, rq_buf_size = 64\<rparr>,
     A_reader Os_normal, A_reader Os_normal] (fresh_file (quiet_dll\<lparr>hid_input := \<lambda>fd. []\<rparr>) 3)"
  have s: "reader ?st = Reading \<lparr>rq_ovlp = 1, rq_buf_size = 64\<rparr>" "completions ?st = []"
    "hid_input (dll ?st) (rfd ?st) = []"
    by (simp_all add: fresh_file_def quiet_dll_def hid_do_def hid_file_read_def reader_step_def stopping_def Let_def)
  have len: "length (hid_input (dll ?st) (rfd ?st)) + 2 \<le> length [Os_normal, Os_normal]"
    unfolding s(3) by simp
  from closing_ends_the_reader[OF len] obtain st' new
    where r: "hid_file_destroy [Os_normal, Os_normal] ?st = Some st'" "completions st' = new"
      "list_all2 answers_read new [\<lparr>rq_ovlp = 1, rq_buf_size = 64\<rparr>]"
      "\<forall>acts. completions (hid_run acts st') = completions st'"
    unfolding s by auto
  from r(3) obtain c where "new = [c]" "cp_ovlp c = 1"
    by (auto simp: list_all2_Cons2 answers_read_def)
  with r show ?thesis by (auto simp: Let_def)
qed

end
