(* ===== verification/Wdf_Tree.thy ===== *)
theory Wdf_Tree
  imports Prelude
begin

text \<open>
  The tree of the objects of the driver framework (\<open>libtudor/src/winapi/wdf/object.c\<close>): creation, the
  doubly linked lists of children, and the destruction of an object with everything below it, on a
  memory of linked records.  The locks, the event queue and the data of the contexts are in
  \<open>Wdf_Object\<close>.  A destructor of the framework does its own work, cleans the object up and frees it.
\<close>

section \<open>Memory\<close>

text \<open>
  \<open>parent_list\<close> names the object whose \<open>child_list\<close> it points to; \<open>child_head\<close> and \<open>child_dead\<close> are that
  list.  \<open>obj_destr\<close> is the destructor, \<open>obj_ctxs\<close> the clean-up and destroy callbacks of the contexts.
  Ghost: \<open>obj_log\<close>, the calls of callbacks and destructors and the objects freed.
\<close>

datatype obj_event = Ev_destr nat nat | Ev_cleanup nat nat | Ev_destroy nat nat | Ev_free nat

record wdf_object =
  parent_obj :: "nat option"
  parent_list :: "nat option"
  obj_prev :: "nat option"
  obj_next :: "nat option"
  child_head :: "nat option"
  child_dead :: bool
  obj_destr :: "nat option"
  obj_ctxs :: "(nat option \<times> nat option) list"

record wdf_heap =
  objs :: "nat \<Rightarrow> wdf_object option"
  obj_log :: "obj_event list"

definition get_obj :: "nat \<Rightarrow> wdf_heap \<Rightarrow> wdf_object result" where
  "get_obj a h = (case objs h a of None \<Rightarrow> Inl Fault | Some ob \<Rightarrow> Inr ob)"

definition set_obj :: "nat \<Rightarrow> (wdf_object \<Rightarrow> wdf_object) \<Rightarrow> wdf_heap \<Rightarrow> wdf_heap result" where
  "set_obj a f h = res_bind (get_obj a h) (\<lambda>ob. Inr (h\<lparr>objs := (objs h)(a \<mapsto> f ob)\<rparr>))"

definition set_opt :: "nat option \<Rightarrow> (wdf_object \<Rightarrow> wdf_object) \<Rightarrow> wdf_heap \<Rightarrow> wdf_heap result" where
  "set_opt a f h = (case a of None \<Rightarrow> Inr h | Some b \<Rightarrow> set_obj b f h)"

definition log_obj :: "obj_event list \<Rightarrow> wdf_heap \<Rightarrow> wdf_heap" where
  "log_obj es h = h\<lparr>obj_log := obj_log h @ es\<rparr>"

section \<open>Creation\<close>

definition fresh_obj :: "nat option \<Rightarrow> nat option \<Rightarrow> (nat option \<times> nat option) \<Rightarrow> wdf_object" where
  "fresh_obj parent destr attrs =
     \<lparr>parent_obj = parent, parent_list = parent, obj_prev = None, obj_next = None, child_head = None,
      child_dead = False, obj_destr = destr, obj_ctxs = [attrs]\<rparr>"

definition wdf_create_obj :: "nat option \<Rightarrow> nat \<Rightarrow> nat option \<Rightarrow> (nat option \<times> nat option)
    \<Rightarrow> wdf_heap \<Rightarrow> wdf_heap result" where
  "wdf_create_obj parent a destr attrs h =
     (let h1 = h\<lparr>objs := (objs h)(a \<mapsto> fresh_obj parent destr attrs)\<rparr> in
      case parent of
        None \<Rightarrow> Inr h1
      | Some p \<Rightarrow>
          res_bind (get_obj p h1) (\<lambda>po.
            if child_dead po then Inl Abort
            else res_bind (set_obj a (\<lambda>ob. ob\<lparr>obj_next := child_head po\<rparr>) h1) (\<lambda>h2.
              res_bind (set_opt (child_head po) (\<lambda>ob. ob\<lparr>obj_prev := Some a\<rparr>) h2) (\<lambda>h3.
                set_obj p (\<lambda>ob. ob\<lparr>child_head := Some a\<rparr>) h3))))"

section \<open>Destruction\<close>

text \<open>The second part of \<open>wdf_cleanup_obj\<close>: leaving the list of the parent.\<close>

definition unlink_obj :: "nat \<Rightarrow> wdf_heap \<Rightarrow> wdf_heap result" where
  "unlink_obj a h =
     res_bind (get_obj a h) (\<lambda>ob.
       case parent_list ob of
         None \<Rightarrow> Inr h
       | Some p \<Rightarrow>
           res_bind (get_obj p h) (\<lambda>po.
             if child_dead po then Inr h
             else
               res_bind (case obj_prev ob of
                   Some q \<Rightarrow> set_obj q (\<lambda>ob'. ob'\<lparr>obj_next := obj_next ob\<rparr>) h
                 | None \<Rightarrow> set_obj p (\<lambda>po'. po'\<lparr>child_head := obj_next ob\<rparr>) h) (\<lambda>h1.
               set_opt (obj_next ob) (\<lambda>ob'. ob'\<lparr>obj_prev := obj_prev ob\<rparr>) h1)))"

definition ctx_events :: "nat \<Rightarrow> (nat option \<times> nat option) list \<Rightarrow> obj_event list" where
  "ctx_events a cs =
     concat (List.map (\<lambda>(c, d). (case c of Some f \<Rightarrow> [Ev_cleanup a f] | None \<Rightarrow> []) @
                                (case d of Some f \<Rightarrow> [Ev_destroy a f] | None \<Rightarrow> [])) cs)"

text \<open>\<open>destroy_list\<close> is the call of \<open>wdf_destroy_obj_list\<close>.\<close>

definition wdf_cleanup_obj :: "(wdf_heap \<Rightarrow> wdf_heap result) \<Rightarrow> nat \<Rightarrow> wdf_heap \<Rightarrow> wdf_heap result" where
  "wdf_cleanup_obj destroy_list a h =
     res_bind (destroy_list h) (\<lambda>h1.
     res_bind (unlink_obj a h1) (\<lambda>h2.
     res_bind (get_obj a h2) (\<lambda>ob. Inr (log_obj (ctx_events a (obj_ctxs ob)) h2))))"

definition free_obj :: "nat \<Rightarrow> wdf_heap \<Rightarrow> wdf_heap" where
  "free_obj a h = log_obj [Ev_free a] (h\<lparr>objs := (objs h)(a := None)\<rparr>)"

definition destr_events :: "nat \<Rightarrow> wdf_object \<Rightarrow> obj_event list" where
  "destr_events a ob = (case obj_destr ob of Some f \<Rightarrow> [Ev_destr a f] | None \<Rightarrow> [])"

text \<open>The first child leaves the list by itself, since the list is dead.\<close>

definition detach_head :: "nat \<Rightarrow> nat \<Rightarrow> wdf_heap \<Rightarrow> wdf_heap result" where
  "detach_head p c h =
     res_bind (get_obj c h) (\<lambda>co.
     res_bind (set_obj p (\<lambda>po. po\<lparr>child_head := obj_next co\<rparr>) h) (\<lambda>h1.
     res_bind (set_opt (obj_next co) (\<lambda>ob. ob\<lparr>obj_prev := None\<rparr>) h1) (\<lambda>h2.
     set_obj c (\<lambda>ob. ob\<lparr>parent_list := None\<rparr>) h2)))"

text \<open>
  The loop of \<open>wdf_destroy_obj_list\<close> and \<open>winwdf_destroy_object\<close> (\<open>destroy_obj\<close>) call each other; the first argument
  bounds the number of calls, and \<open>Hang\<close> stands for a longer chain.
\<close>

fun destroy_loop :: "nat \<Rightarrow> nat \<Rightarrow> wdf_heap \<Rightarrow> wdf_heap result"
  and destroy_obj :: "nat \<Rightarrow> nat \<Rightarrow> wdf_heap \<Rightarrow> wdf_heap result" where
  "destroy_loop 0 p h = Inl Hang"
| "destroy_loop (Suc n) p h =
     res_bind (get_obj p h) (\<lambda>po.
       case child_head po of
         None \<Rightarrow> Inr h
       | Some c \<Rightarrow> res_bind (detach_head p c h) (\<lambda>h1.
           res_bind (destroy_obj n c h1) (\<lambda>h2. destroy_loop n p h2)))"
| "destroy_obj 0 a h = Inl Hang"
| "destroy_obj (Suc n) a h =
     res_bind (get_obj a h) (\<lambda>ob.
     res_bind (wdf_cleanup_obj (\<lambda>h1. res_bind (set_obj a (\<lambda>ob'. ob'\<lparr>child_dead := True\<rparr>) h1)
                 (\<lambda>h2. destroy_loop n a h2))
               a (log_obj (destr_events a ob) h)) (\<lambda>h3. Inr (free_obj a h3)))"

definition winwdf_destroy_object :: "nat \<Rightarrow> nat \<Rightarrow> wdf_heap \<Rightarrow> wdf_heap result" where
  "winwdf_destroy_object n a h = destroy_obj n a h"

definition wdf_destroy_obj_list :: "nat \<Rightarrow> nat \<Rightarrow> wdf_heap \<Rightarrow> wdf_heap result" where
  "wdf_destroy_obj_list n a h =
     res_bind (set_obj a (\<lambda>ob. ob\<lparr>child_dead := True\<rparr>) h) (\<lambda>h2. destroy_loop n a h2)"

text \<open>\<open>WdfObjectDelete\<close> queues the destruction of the object, the driver's unloading does it at once.\<close>

definition winwdf_unload_driver :: "nat \<Rightarrow> nat \<Rightarrow> wdf_heap \<Rightarrow> wdf_heap result" where
  "winwdf_unload_driver n drv h = winwdf_destroy_object n drv h"

section \<open>The type of a context\<close>

text \<open>
  A type of contexts: its unique type, and the callback that gives it: \<open>None\<close> when there is none,
  \<open>Some None\<close> when it returns NULL.
\<close>

record ctx_type =
  ct_size :: nat
  ct_unique :: "nat option"
  ct_get_unique :: "nat option option"

fun resolve_loop :: "nat \<Rightarrow> (nat \<Rightarrow> ctx_type) \<Rightarrow> nat \<Rightarrow> nat result" where
  "resolve_loop 0 tys t = Inl Hang"
| "resolve_loop (Suc n) tys t =
     (case ct_unique (tys t) of
        Some u \<Rightarrow> if u \<noteq> t then resolve_loop n tys u
                   else (case ct_get_unique (tys t) of
                           None \<Rightarrow> Inr t | Some None \<Rightarrow> Inl Fault | Some (Some v) \<Rightarrow> resolve_loop n tys v)
      | None \<Rightarrow> (case ct_get_unique (tys t) of
                   None \<Rightarrow> Inr t | Some None \<Rightarrow> Inl Fault | Some (Some v) \<Rightarrow> resolve_loop n tys v))"

definition resolve_context_type :: "nat \<Rightarrow> (nat \<Rightarrow> ctx_type) \<Rightarrow> nat option \<Rightarrow> nat option result" where
  "resolve_context_type n tys t =
     (case t of None \<Rightarrow> Inr None | Some t' \<Rightarrow> res_bind (resolve_loop n tys t') (\<lambda>r. Inr (Some r)))"

text \<open>Types of the usual shape, whose unique type names itself and has no callback, are resolved at once.\<close>

lemma resolve_unique:
  assumes "ct_unique (tys t) = Some u" and "ct_unique (tys u) = Some u" and "ct_get_unique (tys u) = None"
  shows "resolve_context_type (Suc (Suc n)) tys (Some t) = Inr (Some u)"
  using assms by (cases "u = t") (auto simp: resolve_context_type_def)

text \<open>A callback that names the type it belongs to is called for ever.\<close>

lemma resolve_own_callback_hangs:
  assumes "ct_unique (tys t) = Some t" and "ct_get_unique (tys t) = Some (Some t)"
  shows "resolve_context_type n tys (Some t) = Inl Hang"
proof -
  have "resolve_loop n tys t = Inl Hang" using assms by (induction n) auto
  then show ?thesis by (simp add: resolve_context_type_def)
qed

section \<open>The tree a memory holds\<close>

datatype otree = Node nat "otree list"

fun root :: "otree \<Rightarrow> nat" where
  "root (Node a ts) = a"

fun kids :: "otree \<Rightarrow> otree list" where
  "kids (Node a ts) = ts"

fun addrs :: "otree \<Rightarrow> nat list" where
  "addrs (Node a ts) = a # concat (List.map addrs ts)"

definition first :: "otree list \<Rightarrow> nat option" where
  "first ts = (case ts of [] \<Rightarrow> None | t # _ \<Rightarrow> Some (root t))"

lemma first_simps [simp]: "first [] = None" "first (t # ts) = Some (root t)"
  by (simp_all add: first_def)

fun tree_at :: "(nat \<Rightarrow> wdf_object option) \<Rightarrow> otree \<Rightarrow> bool"
  and sibs_at :: "(nat \<Rightarrow> wdf_object option) \<Rightarrow> nat \<Rightarrow> nat option \<Rightarrow> otree list \<Rightarrow> bool" where
  "tree_at H (Node a ts) =
     (\<exists>ob. H a = Some ob \<and> child_head ob = first ts \<and> \<not> child_dead ob \<and> sibs_at H a None ts)"
| "sibs_at H p pv [] = True"
| "sibs_at H p pv (t # ts) =
     (\<exists>ob. H (root t) = Some ob \<and> parent_list ob = Some p \<and> obj_prev ob = pv \<and> obj_next ob = first ts \<and>
        tree_at H t \<and> sibs_at H p (Some (root t)) ts)"

text \<open>What happens when a tree is destroyed: children before their parent, in the order of the list.\<close>

fun tree_events :: "(nat \<Rightarrow> wdf_object option) \<Rightarrow> otree \<Rightarrow> obj_event list" where
  "tree_events H (Node a ts) =
     destr_events a (the (H a)) @ concat (List.map (tree_events H) ts) @
     ctx_events a (obj_ctxs (the (H a))) @ [Ev_free a]"

section \<open>Lemmas on trees in memory\<close>

lemma root_in_addrs [simp]: "root t \<in> List.set (addrs t)"
  by (cases t) simp

lemma tree_at_cong:
  "(\<And>x. x \<in> List.set (addrs t) \<Longrightarrow> H' x = H x) \<Longrightarrow> tree_at H' t = tree_at H t"
  "(\<And>x. x \<in> List.set (concat (List.map addrs ts)) \<Longrightarrow> H' x = H x) \<Longrightarrow> sibs_at H' p pv ts = sibs_at H p pv ts"
proof (induction H t and H p pv ts rule: tree_at_sibs_at.induct)
  case (3 H p pv t ts)
  have "H' (root t) = H (root t)" using 3(3)[of "root t"] by simp
  moreover have "tree_at H' t = tree_at H t" using 3 by simp
  moreover have "sibs_at H' p (Some (root t)) ts = sibs_at H p (Some (root t)) ts" using 3 by simp
  ultimately show ?case by simp
qed simp_all

lemma tree_at_root:
  assumes "tree_at H t" and "H (root t) = Some ob"
    and "H' (root t) = Some ob'" and "child_head ob' = child_head ob" and "child_dead ob' = child_dead ob"
    and "\<And>x. x \<in> List.set (addrs t) \<Longrightarrow> x \<noteq> root t \<Longrightarrow> H' x = H x" and "distinct (addrs t)"
  shows "tree_at H' t"
proof (cases t)
  case (Node a ts)
  have "sibs_at H' a None ts = sibs_at H a None ts"
    using assms(6,7) by (intro tree_at_cong(2)) (auto simp: Node)
  then show ?thesis using assms(1-5) by (auto simp: Node)
qed

lemma sibs_at_head:
  assumes "sibs_at H p pv (t # ts)" and "distinct (concat (List.map addrs (t # ts)))"
    and "H (root t) = Some ob" and "H' (root t) = Some (ob\<lparr>obj_prev := pv'\<rparr>)"
    and "\<And>x. x \<in> List.set (concat (List.map addrs (t # ts))) \<Longrightarrow> x \<noteq> root t \<Longrightarrow> H' x = H x"
  shows "sibs_at H' p pv' (t # ts)"
proof -
  have "List.set (addrs t) \<inter> List.set (concat (List.map addrs ts)) = {}"
    using assms(2) by simp
  then have "root t \<notin> List.set (concat (List.map addrs ts))"
    using root_in_addrs by blast
  then have "sibs_at H' p (Some (root t)) ts = sibs_at H p (Some (root t)) ts"
    using assms(5) by (intro tree_at_cong(2)) auto
  moreover have "tree_at H' t"
    by (rule tree_at_root[of H t ob H' "ob\<lparr>obj_prev := pv'\<rparr>"]) (use assms in auto)
  ultimately show ?thesis using assms(1,3,4) by simp
qed

lemma tree_events_cong:
  "(\<And>x. x \<in> List.set (addrs t) \<Longrightarrow> obj_destr (the (H' x)) = obj_destr (the (H x)) \<and> obj_ctxs (the (H' x)) = obj_ctxs (the (H x)))
   \<Longrightarrow> tree_events H' t = tree_events H t"
proof (induction t)
  case (Node a ts)
  have m: "List.map (tree_events H') ts = List.map (tree_events H) ts"
    using Node by (intro map_cong) auto
  show ?case using Node.prems[of a] by (simp add: destr_events_def m del: map_eq_conv)
qed

lemma set_obj_Inr: "objs h a = Some ob \<Longrightarrow> set_obj a f h = Inr (h\<lparr>objs := (objs h)(a \<mapsto> f ob)\<rparr>)"
  by (simp add: set_obj_def get_obj_def)

lemma sibs_first: "sibs_at H p pv ts \<Longrightarrow> first ts = Some b \<Longrightarrow> \<exists>ob. H b = Some ob \<and> obj_prev ob = pv \<and> parent_list ob = Some p"
  by (cases ts) auto

text \<open>The memory after the head of the list of \<open>p\<close> was detached.\<close>

lemma detach_head_ok:
  assumes "sibs_at (objs h) p None (t # ts)" and "distinct (p # concat (List.map addrs (t # ts)))"
    and "objs h p = Some po" and "objs h (root t) = Some co"
  shows "\<exists>h1 :: wdf_heap. detach_head p (root t) h = Inr h1 \<and> obj_log h1 = obj_log h \<and>
    objs h1 p = Some (po\<lparr>child_head := first ts\<rparr>) \<and> objs h1 (root t) = Some (co\<lparr>parent_list := None\<rparr>) \<and>
    (\<forall>b. first ts = Some b \<longrightarrow> objs h1 b = Some ((the (objs h b))\<lparr>obj_prev := None\<rparr>)) \<and>
    (\<forall>x. x \<noteq> p \<longrightarrow> x \<noteq> root t \<longrightarrow> first ts \<noteq> Some x \<longrightarrow> objs h1 x = objs h x)"
proof -
  have nx: "obj_next co = first ts" using assms(1,4) by simp
  have "p \<notin> List.set (addrs t)" using assms(2) by simp
  then have rp: "root t \<noteq> p" using root_in_addrs[of t] by metis
  show ?thesis
  proof (cases ts)
    case Nil
    then show ?thesis using assms(3,4) nx rp
      by (simp add: detach_head_def get_obj_def set_obj_Inr set_opt_def)
  next
    case (Cons u us)
    obtain uo where u: "objs h (root u) = Some uo" using assms(1) by (auto simp: Cons)
    have "p \<notin> List.set (addrs u)" "List.set (addrs t) \<inter> List.set (addrs u) = {}"
      using assms(2) by (auto simp: Cons)
    then have "root u \<noteq> p" "root u \<noteq> root t"
      using root_in_addrs[of u] root_in_addrs[of t] by (metis, metis IntI empty_iff)
    then show ?thesis using assms(3,4) nx rp u
      by (simp add: detach_head_def get_obj_def set_obj_Inr set_opt_def Cons)
  qed
qed

lemma node_count: "2 * length (addrs (Node a ts)) = 2 * length (concat (List.map addrs ts)) + 2"
  by simp

lemma addrs_nonempty: "0 < length (addrs t)"
  by (cases t) simp

definition destroyed :: "otree \<Rightarrow> bool" where
  "destroyed t \<longleftrightarrow> (\<forall>n (h :: wdf_heap) ob. tree_at (objs h) t \<longrightarrow> distinct (addrs t) \<longrightarrow> objs h (root t) = Some ob \<longrightarrow>
     parent_list ob = None \<longrightarrow> 2 * length (addrs t) \<le> n \<longrightarrow>
     destroy_obj n (root t) h =
       Inr (h\<lparr>objs := objs h |` (- List.set (addrs t)), obj_log := obj_log h @ tree_events (objs h) t\<rparr>))"

lemma destroyedD:
  "destroyed t \<Longrightarrow> tree_at (objs h) t \<Longrightarrow> distinct (addrs t) \<Longrightarrow> objs h (root t) = Some ob \<Longrightarrow>
     parent_list ob = None \<Longrightarrow> 2 * length (addrs t) \<le> n \<Longrightarrow>
     destroy_obj n (root t) h =
       Inr (h\<lparr>objs := objs h |` (- List.set (addrs t)), obj_log := obj_log h @ tree_events (objs h) t\<rparr>)"
  by (auto simp: destroyed_def)

lemma destroy_loop_ok:
  assumes "\<And>t. t \<in> List.set ts \<Longrightarrow> destroyed t"
    and "sibs_at (objs h) p None ts" and "distinct (p # concat (List.map addrs ts))"
    and "objs h p = Some po" and "child_head po = first ts"
    and "2 * length (concat (List.map addrs ts)) + 1 \<le> n"
  shows "destroy_loop n p h =
    Inr (h\<lparr>objs := (objs h |` (- List.set (concat (List.map addrs ts))))(p \<mapsto> po\<lparr>child_head := None\<rparr>),
           obj_log := obj_log h @ concat (List.map (tree_events (objs h)) ts)\<rparr>)"
  using assms
proof (induction ts arbitrary: h po n)
  case Nil
  then obtain m where "n = Suc m" by (cases n) auto
  moreover have "(objs h)(p \<mapsto> po\<lparr>child_head := None\<rparr>) = objs h"
    using Nil by (intro ext) (auto intro!: wdf_object.equality)
  ultimately show ?case using Nil by (simp add: get_obj_def)
next
  case (Cons t ts)
  obtain m where n: "n = Suc m" using Cons.prems(6) by (cases n) auto
  obtain co where co: "objs h (root t) = Some co" "obj_next co = first ts"
      "tree_at (objs h) t" "sibs_at (objs h) p (Some (root t)) ts"
    using Cons.prems(2) by auto
  obtain h1 where h1: "detach_head p (root t) h = Inr h1" "obj_log h1 = obj_log h"
      "objs h1 p = Some (po\<lparr>child_head := first ts\<rparr>)" "objs h1 (root t) = Some (co\<lparr>parent_list := None\<rparr>)"
      "\<forall>b. first ts = Some b \<longrightarrow> objs h1 b = Some ((the (objs h b))\<lparr>obj_prev := None\<rparr>)"
      "\<forall>x. x \<noteq> p \<longrightarrow> x \<noteq> root t \<longrightarrow> first ts \<noteq> Some x \<longrightarrow> objs h1 x = objs h x"
    using detach_head_ok[OF Cons.prems(2,3,4) co(1)] by blast
  let ?rest = "List.set (concat (List.map addrs ts))"
  have dis: "distinct (addrs t)" "p \<notin> List.set (addrs t)" "p \<notin> ?rest" "List.set (addrs t) \<inter> ?rest = {}"
      "distinct (concat (List.map addrs ts))"
    using Cons.prems(3) by auto
  have fr: "b \<in> ?rest" if "first ts = Some b" for b
    using that by (cases ts) auto
  have out: "objs h1 x = objs h x" if "x \<in> List.set (addrs t)" "x \<noteq> root t" for x
  proof -
    have "x \<noteq> p" "first ts \<noteq> Some x" using that dis fr by blast+
    then show ?thesis using h1(6) that(2) by simp
  qed
  have t1: "tree_at (objs h1) t"
    by (rule tree_at_root[of "objs h" t co "objs h1" "co\<lparr>parent_list := None\<rparr>"]) (use co h1(4) dis(1) out in simp_all)
  have ev: "tree_events (objs h1) t = tree_events (objs h) t"
  proof (rule tree_events_cong)
    fix x assume x: "x \<in> List.set (addrs t)"
    show "obj_destr (the (objs h1 x)) = obj_destr (the (objs h x)) \<and> obj_ctxs (the (objs h1 x)) = obj_ctxs (the (objs h x))"
      using x out h1(4) co(1) by (cases "x = root t") simp_all
  qed
  let ?h2 = "h1\<lparr>objs := objs h1 |` (- List.set (addrs t)), obj_log := obj_log h1 @ tree_events (objs h) t\<rparr>"
  have d1: "destroy_obj m (root t) h1 = Inr ?h2"
    using destroyedD[of t h1 _ m, OF _ t1 dis(1) h1(4)] Cons.prems(1)[of t] Cons.prems(6) n ev by simp
  have s2: "sibs_at (objs ?h2) p None ts"
  proof (cases ts)
    case (Cons u us)
    obtain uo where u: "objs h (root u) = Some uo" using co(4) by (auto simp: Cons)
    have r: "root u \<notin> List.set (addrs t)" using dis(4) fr[of "root u"] by (auto simp: Cons)
    show ?thesis unfolding Cons
    proof (rule sibs_at_head[of "objs h" p "Some (root t)" u us uo])
      show "objs ?h2 (root u) = Some (uo\<lparr>obj_prev := None\<rparr>)" using h1(5) r u by (simp add: Cons)
      show "objs ?h2 x = objs h x" if "x \<in> List.set (concat (List.map addrs (u # us)))" "x \<noteq> root u" for x
      proof -
        have x: "x \<in> ?rest" using that(1) by (simp add: Cons)
        then have "x \<noteq> p" "x \<notin> List.set (addrs t)" using dis by auto
        moreover from this have "x \<noteq> root t" by auto
        ultimately show ?thesis using h1(6) that(2) by (simp add: Cons)
      qed
    qed (use co(4) dis(5) u in \<open>simp_all add: Cons\<close>)
  qed simp
  have ev2: "List.map (tree_events (objs ?h2)) ts = List.map (tree_events (objs h)) ts"
  proof (rule map_cong[OF refl], rule tree_events_cong)
    fix u x assume u: "u \<in> List.set ts" "x \<in> List.set (addrs u)"
    then have x: "x \<in> ?rest" by auto
    then have x: "x \<noteq> p" "x \<notin> List.set (addrs t)" using dis(3,4) by blast+
    moreover from this have "x \<noteq> root t" by auto
    ultimately show "obj_destr (the (objs ?h2 x)) = obj_destr (the (objs h x)) \<and> obj_ctxs (the (objs ?h2 x)) = obj_ctxs (the (objs h x))"
      using h1(5,6) by (cases "first ts = Some x") auto
  qed
  have fuel: "2 * length (concat (List.map addrs ts)) + 1 \<le> m"
    using Cons.prems(6) addrs_nonempty[of t] by (simp add: n del: length_greater_0_conv)
  have l2: "destroy_loop m p ?h2 =
      Inr (?h2\<lparr>objs := (objs ?h2 |` (- ?rest))(p \<mapsto> (po\<lparr>child_head := first ts\<rparr>)\<lparr>child_head := None\<rparr>),
               obj_log := obj_log ?h2 @ concat (List.map (tree_events (objs h)) ts)\<rparr>)"
    unfolding ev2[symmetric]
    by (rule Cons.IH) (use Cons.prems(1,4) s2 dis h1(3) fuel in auto)
  have o: "(objs ?h2 |` (- ?rest))(p \<mapsto> po\<lparr>child_head := None\<rparr>) =
      (objs h |` (- List.set (concat (List.map addrs (t # ts)))))(p \<mapsto> po\<lparr>child_head := None\<rparr>)"
    using h1(6) fr by (intro ext) (auto simp: restrict_map_def)
  have "destroy_loop n p h = destroy_loop m p ?h2"
    using Cons.prems(4,5) n h1(1) d1 by (simp add: get_obj_def)
  also have "\<dots> = Inr (h\<lparr>objs := (objs h |` (- List.set (concat (List.map addrs (t # ts)))))(p \<mapsto> po\<lparr>child_head := None\<rparr>),
      obj_log := obj_log h @ concat (List.map (tree_events (objs h)) (t # ts))\<rparr>)"
    unfolding l2 using o h1(2) by (auto intro!: wdf_heap.equality)
  finally show ?case .
qed

lemma destroyed_all: "destroyed t"
proof (induction t)
  case (Node a ts)
  show ?case unfolding destroyed_def
  proof (intro allI impI)
    fix n ob and h :: wdf_heap
    assume t: "tree_at (objs h) (Node a ts)" and d: "distinct (addrs (Node a ts))"
      and r: "objs h (root (Node a ts)) = Some ob" and pl: "parent_list ob = None"
      and n: "2 * length (addrs (Node a ts)) \<le> n"
    obtain m where m: "n = Suc m" using n by (cases n) auto
    let ?rest = "List.set (concat (List.map addrs ts))"
    let ?h1 = "log_obj (destr_events a ob) h"
    let ?h2 = "?h1\<lparr>objs := (objs ?h1)(a \<mapsto> ob\<lparr>child_dead := True\<rparr>)\<rparr>"
    have nr: "a \<notin> ?rest" using d by simp
    have ob: "objs h a = Some ob" "child_head ob = first ts" "sibs_at (objs h) a None ts"
      using t r by auto
    have s: "sibs_at (objs ?h2) a None ts"
      using ob(3) nr by (subst tree_at_cong(2)[where H = "objs h"]) (auto simp: log_obj_def)
    have ev: "List.map (tree_events (objs ?h2)) ts = List.map (tree_events (objs h)) ts"
      using nr by (intro map_cong[OF refl] tree_events_cong) (auto simp: log_obj_def)
    have l: "destroy_loop m a ?h2 = Inr (?h2\<lparr>objs := (objs ?h2 |` (- ?rest))(a \<mapsto> (ob\<lparr>child_dead := True\<rparr>)\<lparr>child_head := None\<rparr>),
        obj_log := obj_log ?h2 @ concat (List.map (tree_events (objs h)) ts)\<rparr>)"
      unfolding ev[symmetric]
      by (rule destroy_loop_ok) (use Node s d ob n m in auto)
    have e: "(objs h |` (- ?rest))(a := None) = objs h |` (- List.set (addrs (Node a ts)))"
      by (intro ext) (auto simp: restrict_map_def)
    show "destroy_obj n (root (Node a ts)) h =
        Inr (h\<lparr>objs := objs h |` (- List.set (addrs (Node a ts))), obj_log := obj_log h @ tree_events (objs h) (Node a ts)\<rparr>)"
      using ob pl m l nr e
      by (simp add: get_obj_def wdf_cleanup_obj_def set_obj_Inr log_obj_def unlink_obj_def free_obj_def
          restrict_map_upds)
  qed
qed

section \<open>Leaving a list\<close>

text \<open>The memory after \<open>unlink_obj\<close>, for an object in a live list.\<close>

definition unlinked :: "wdf_object \<Rightarrow> nat \<Rightarrow> (nat \<Rightarrow> wdf_object option) \<Rightarrow> nat \<Rightarrow> wdf_object option" where
  "unlinked ob p H =
     (\<lambda>x. if obj_prev ob = Some x then Some ((the (H x))\<lparr>obj_next := obj_next ob\<rparr>)
          else if obj_next ob = Some x then Some ((the (H x))\<lparr>obj_prev := obj_prev ob\<rparr>)
          else if x = p \<and> obj_prev ob = None then Some ((the (H x))\<lparr>child_head := obj_next ob\<rparr>)
          else H x)"

definition linked :: "wdf_object \<Rightarrow> nat \<Rightarrow> (nat \<Rightarrow> wdf_object option) \<Rightarrow> nat set \<Rightarrow> bool" where
  "linked ob p H A \<longleftrightarrow>
     parent_list ob = Some p \<and> p \<notin> A \<and> H p \<noteq> None \<and> \<not> child_dead (the (H p)) \<and>
     (\<forall>q. obj_prev ob = Some q \<longrightarrow> q \<notin> A \<and> H q \<noteq> None \<and> q \<noteq> p) \<and>
     (\<forall>r. obj_next ob = Some r \<longrightarrow> r \<notin> A \<and> H r \<noteq> None \<and> r \<noteq> p \<and> obj_prev ob \<noteq> Some r)"

lemma unlink_obj_ok:
  assumes "objs h a = Some ob" and "linked ob p (objs h) A"
  shows "unlink_obj a h = Inr (h\<lparr>objs := unlinked ob p (objs h)\<rparr>)"
proof -
  obtain po where po: "objs h p = Some po" "\<not> child_dead po" "parent_list ob = Some p"
    using assms(2) by (auto simp: linked_def)
  show ?thesis
  proof (cases "obj_prev ob")
    case None
    then show ?thesis using assms po
      by (cases "obj_next ob") (auto simp: unlink_obj_def get_obj_def set_obj_def set_opt_def unlinked_def
          linked_def intro!: wdf_heap.equality ext)
  next
    case (Some q)
    then show ?thesis using assms po
      by (cases "obj_next ob") (auto simp: unlink_obj_def get_obj_def set_obj_def set_opt_def unlinked_def
          linked_def intro!: wdf_heap.equality ext)
  qed
qed

lemma destroy_child_ok:
  fixes h :: wdf_heap
  assumes "tree_at (objs h) t" and "distinct (addrs t)" and "objs h (root t) = Some ob"
    and "linked ob p (objs h) (List.set (addrs t))" and "2 * length (addrs t) \<le> n"
  shows "destroy_obj n (root t) h =
    Inr (h\<lparr>objs := unlinked ob p (objs h) |` (- List.set (addrs t)), obj_log := obj_log h @ tree_events (objs h) t\<rparr>)"
proof (cases t)
  case (Node a ts)
  obtain m where m: "n = Suc m" using assms(5) by (cases n) (auto simp: Node)
  let ?rest = "List.set (concat (List.map addrs ts))"
  let ?h1 = "log_obj (destr_events a ob) h"
  let ?h2 = "?h1\<lparr>objs := (objs ?h1)(a \<mapsto> ob\<lparr>child_dead := True\<rparr>)\<rparr>"
  let ?ob = "(ob\<lparr>child_dead := True\<rparr>)\<lparr>child_head := None\<rparr>"
  let ?h3 = "?h2\<lparr>objs := (objs ?h2 |` (- ?rest))(a \<mapsto> ?ob), obj_log := obj_log ?h2 @ concat (List.map (tree_events (objs h)) ts)\<rparr>"
  have nr: "a \<notin> ?rest" "distinct (a # concat (List.map addrs ts))" using assms(2) by (simp_all add: Node)
  have ob: "objs h a = Some ob" "child_head ob = first ts" "sibs_at (objs h) a None ts"
    using assms(1,3) by (auto simp: Node)
  have s: "sibs_at (objs ?h2) a None ts"
    using ob(3) nr by (subst tree_at_cong(2)[where H = "objs h"]) (auto simp: log_obj_def)
  have ev: "List.map (tree_events (objs ?h2)) ts = List.map (tree_events (objs h)) ts"
    using nr by (intro map_cong[OF refl] tree_events_cong) (auto simp: log_obj_def)
  have l: "destroy_loop m a ?h2 = Inr ?h3"
    unfolding ev[symmetric]
    by (rule destroy_loop_ok) (use destroyed_all s nr ob assms(5) m in \<open>auto simp: Node\<close>)
  have lk: "linked ?ob p (objs ?h3) (List.set (addrs t))"
    using assms(4) by (auto simp: linked_def Node log_obj_def)
  have u: "unlink_obj a ?h3 = Inr (?h3\<lparr>objs := unlinked ?ob p (objs ?h3)\<rparr>)"
    by (rule unlink_obj_ok[OF _ lk]) simp
  have ua: "unlinked ?ob p (objs ?h3) a = Some ?ob"
    using assms(4) by (auto simp: unlinked_def linked_def Node)
  have e: "(unlinked ?ob p (objs ?h3))(a := None) = unlinked ob p (objs h) |` (- List.set (addrs t))"
    using assms(4) by (intro ext) (auto simp: unlinked_def linked_def Node restrict_map_def log_obj_def)
  have d: "destroy_obj n a h =
      Inr (free_obj a (log_obj (ctx_events a (obj_ctxs ob)) (?h3\<lparr>objs := unlinked ?ob p (objs ?h3)\<rparr>)))"
    using ob m l u ua by (simp add: get_obj_def wdf_cleanup_obj_def set_obj_def log_obj_def)
  show ?thesis
    using d e ob(1) by (auto simp: Node free_obj_def log_obj_def intro!: wdf_heap.equality)
qed

section \<open>Removing a tree\<close>

fun prune :: "nat \<Rightarrow> otree \<Rightarrow> otree" and remove_in :: "nat \<Rightarrow> otree list \<Rightarrow> otree list" where
  "prune a (Node b ts) = Node b (remove_in a ts)"
| "remove_in a [] = []"
| "remove_in a (t # ts) = (if root t = a then ts else prune a t # remove_in a ts)"

fun subtree :: "nat \<Rightarrow> otree \<Rightarrow> otree option" and find_in :: "nat \<Rightarrow> otree list \<Rightarrow> otree option" where
  "subtree a (Node b ts) = (if a = b then Some (Node b ts) else find_in a ts)"
| "find_in a [] = None"
| "find_in a (t # ts) = (case subtree a t of Some u \<Rightarrow> Some u | None \<Rightarrow> find_in a ts)"

lemma root_prune [simp]: "root (prune a t) = root t"
  by (cases t) simp

lemma find_in_mem:
  "subtree a t = None \<longleftrightarrow> a \<notin> List.set (addrs t)"
  "find_in a ts = None \<longleftrightarrow> a \<notin> List.set (concat (List.map addrs ts))"
  by (induction a t and a ts rule: subtree_find_in.induct) (auto split: option.splits)

lemma find_in_root:
  "subtree a t = Some u \<Longrightarrow> root u = a \<and> List.set (addrs u) \<subseteq> List.set (addrs t)"
  "find_in a ts = Some u \<Longrightarrow> root u = a \<and> List.set (addrs u) \<subseteq> List.set (concat (List.map addrs ts))"
  by (induction a t and a ts arbitrary: u and u rule: subtree_find_in.induct)
    (auto split: option.splits if_splits)

lemma prune_id:
  "a \<notin> List.set (addrs t) \<Longrightarrow> prune a t = t"
  "a \<notin> List.set (concat (List.map addrs ts)) \<Longrightarrow> remove_in a ts = ts"
  by (induction a t and a ts rule: prune_remove_in.induct) auto

lemma addrs_remove_in:
  "distinct (addrs t) \<Longrightarrow> subtree a t = Some u \<Longrightarrow> a \<noteq> root t \<Longrightarrow>
     List.set (addrs (prune a t)) = List.set (addrs t) - List.set (addrs u) \<and> distinct (addrs (prune a t))"
  "distinct (concat (List.map addrs ts)) \<Longrightarrow> find_in a ts = Some u \<Longrightarrow>
     List.set (concat (List.map addrs (remove_in a ts))) = List.set (concat (List.map addrs ts)) - List.set (addrs u) \<and>
     distinct (concat (List.map addrs (remove_in a ts)))"
proof (induction a t and a ts arbitrary: u and u rule: prune_remove_in.induct)
  case (1 a b ts)
  then have f: "find_in a ts = Some u" "distinct (concat (List.map addrs ts))" "b \<notin> List.set (concat (List.map addrs ts))"
    by auto
  have "b \<notin> List.set (addrs u)" using find_in_root(2)[OF f(1)] f(3) by blast
  then show ?case using 1(1)[OF f(2,1)] f(3) by auto
next
  case (3 a t ts)
  have d: "distinct (addrs t)" "distinct (concat (List.map addrs ts))"
      "List.set (addrs t) \<inter> List.set (concat (List.map addrs ts)) = {}"
    using 3(3) by simp_all
  show ?case
  proof (cases "root t = a")
    case True
    then have "u = t" using 3(4) by (cases t) (auto split: option.splits)
    then show ?thesis using True d by auto
  next
    case False
    show ?thesis
    proof (cases "subtree a t")
      case None
      then have n: "a \<notin> List.set (addrs t)" "find_in a ts = Some u" using find_in_mem(1)[of a t] 3(4) by auto
      have "List.set (addrs u) \<subseteq> List.set (concat (List.map addrs ts))" using find_in_root(2)[OF n(2)] by simp
      then show ?thesis
        using 3(2)[OF False d(2) n(2)] d False prune_id(1)[OF n(1)] by auto
    next
      case (Some v)
      then have v: "v = u" using 3(4) by simp
      have "a \<in> List.set (addrs t)" using find_in_mem(1)[of a t] Some by auto
      then have "a \<notin> List.set (concat (List.map addrs ts))" using d(3) by blast
      then have r: "remove_in a ts = ts" by (rule prune_id(2))
      have "List.set (addrs u) \<subseteq> List.set (addrs t)" using find_in_root(1)[OF Some] v by simp
      then show ?thesis
        using 3(1)[OF False d(1)] Some v r d False by auto
    qed
  qed
qed simp

lemma sibs_at_roots:
  "sibs_at H p pv ts \<Longrightarrow> t \<in> List.set ts \<Longrightarrow> \<exists>ob. H (root t) = Some ob \<and> parent_list ob = Some p \<and> tree_at H t"
  by (induction ts arbitrary: pv) auto

lemma roots_subset: "root ` List.set ts \<subseteq> List.set (concat (List.map addrs ts))"
  by (induction ts) auto

text \<open>Where the links of a member of a list lead.\<close>

lemma sibs_at_links:
  assumes "sibs_at H p pv ts" and "distinct (concat (List.map addrs ts))" and "a \<in> root ` List.set ts"
    and "H a = Some ob" and "\<And>q. pv = Some q \<Longrightarrow> q \<notin> List.set (concat (List.map addrs ts))"
  shows "(obj_prev ob = (if first ts = Some a then pv else obj_prev ob)) \<and>
    (first ts \<noteq> Some a \<longrightarrow> (\<exists>q \<in> root ` List.set ts. q \<noteq> a \<and> obj_prev ob = Some q)) \<and>
    (\<forall>r. obj_next ob = Some r \<longrightarrow> r \<in> root ` List.set ts \<and> r \<noteq> a \<and> obj_prev ob \<noteq> Some r \<and> first ts \<noteq> Some r)"
  using assms
proof (induction ts arbitrary: pv)
  case (Cons t ts)
  have d: "root t \<notin> List.set (concat (List.map addrs ts))" "distinct (concat (List.map addrs ts))"
    using Cons.prems(2) root_in_addrs[of t] by (auto simp del: root_in_addrs)
  note rs = roots_subset[of ts]
  obtain to where to: "H (root t) = Some to" "obj_prev to = pv" "obj_next to = first ts"
      "sibs_at H p (Some (root t)) ts"
    using Cons.prems(1) by auto
  show ?case
  proof (cases "root t = a")
    case True
    have "r \<in> root ` List.set ts" if "first ts = Some r" for r
      using that by (cases ts) auto
    moreover have "r \<noteq> root t" if "r \<in> root ` List.set ts" for r
      using that rs d by blast
    moreover have "pv \<noteq> Some r" if "r \<in> root ` List.set ts" for r
      using that rs Cons.prems(5) by auto
    ultimately show ?thesis using True to Cons.prems(4) by auto
  next
    case False
    then have a: "a \<in> root ` List.set ts" using Cons.prems(3) by auto
    have IH: "(obj_prev ob = (if first ts = Some a then Some (root t) else obj_prev ob)) \<and>
      (first ts \<noteq> Some a \<longrightarrow> (\<exists>q \<in> root ` List.set ts. q \<noteq> a \<and> obj_prev ob = Some q)) \<and>
      (\<forall>r. obj_next ob = Some r \<longrightarrow> r \<in> root ` List.set ts \<and> r \<noteq> a \<and> obj_prev ob \<noteq> Some r \<and> first ts \<noteq> Some r)"
      by (rule Cons.IH) (use to d a Cons.prems(4) in auto)
    have "r \<noteq> root t" if "r \<in> root ` List.set ts" for r
      using that rs d by blast
    with IH False show ?thesis by (cases "first ts = Some a") auto
  qed
qed simp

lemma unlinked_same: "obj_prev ob \<noteq> Some x \<Longrightarrow> obj_next ob \<noteq> Some x \<Longrightarrow> x \<noteq> p \<Longrightarrow> unlinked ob p H x = H x"
  by (simp add: unlinked_def)

lemma unlinked_next:
  "obj_next ob = Some r \<Longrightarrow> obj_prev ob \<noteq> Some r \<Longrightarrow> unlinked ob p H r = Some ((the (H r))\<lparr>obj_prev := obj_prev ob\<rparr>)"
  by (simp add: unlinked_def)

lemma unlinked_prev:
  "obj_prev ob = Some q \<Longrightarrow> unlinked ob p H q = Some ((the (H q))\<lparr>obj_next := obj_next ob\<rparr>)"
  by (simp add: unlinked_def)

lemma remove_root_first:
  "first (remove_in a ts) = (if first ts = Some a then first (tl ts) else first ts)"
  by (cases ts) auto

lemma sibs_at_remove:
  assumes "sibs_at H p pv ts" and "distinct (p # concat (List.map addrs ts))" and "u \<in> List.set ts"
    and "H (root u) = Some ob" and "\<And>q. pv = Some q \<Longrightarrow> q \<notin> List.set (concat (List.map addrs ts))"
    and "\<And>x. x \<notin> List.set (addrs u) \<Longrightarrow> H' x = unlinked ob p H x"
  shows "sibs_at H' p pv (remove_in (root u) ts)"
  using assms
proof (induction ts arbitrary: pv)
  case (Cons t ts)
  let ?a = "root u" and ?rest = "List.set (concat (List.map addrs ts))"
  have d: "distinct (concat (List.map addrs ts))" "List.set (addrs t) \<inter> ?rest = {}" "distinct (addrs t)"
      "p \<notin> List.set (addrs t)" "p \<notin> ?rest"
    using Cons.prems(2) by simp_all
  note rs = roots_subset[of ts]
  obtain to where to: "H (root t) = Some to" "obj_prev to = pv" "obj_next to = first ts" "parent_list to = Some p"
      "sibs_at H p (Some (root t)) ts" "tree_at H t"
    using Cons.prems(1) by auto
  have rt: "root t \<notin> ?rest" using d(2) root_in_addrs[of t] by blast
  show ?case
  proof (cases "root t = ?a")
    case True
    have "u = t"
    proof (rule ccontr)
      assume "u \<noteq> t"
      then have "?a \<in> ?rest" using Cons.prems(3) root_in_addrs[of u] by (auto simp del: root_in_addrs)
      then show False using rt True by simp
    qed
    then have ob: "ob = to" using to Cons.prems(4) by simp
    show ?thesis
    proof (cases ts)
      case (Cons v vs)
      have nv: "root v \<in> ?rest" "root v \<notin> List.set (addrs t)" "root v \<noteq> p"
        using d(2,5) root_in_addrs[of v] by (auto simp: local.Cons simp del: root_in_addrs)
      have pvn: "pv \<noteq> Some x" if "x \<in> ?rest" for x using Cons.prems(5)[of x] that by auto
      obtain vo where vo: "H (root v) = Some vo" using to(5) by (auto simp: local.Cons)
      have "sibs_at H' p pv (v # vs)"
      proof (rule sibs_at_head[of H p "Some (root t)" v vs vo])
        show "H' (root v) = Some (vo\<lparr>obj_prev := pv\<rparr>)"
          using Cons.prems(6)[of "root v"] nv \<open>u = t\<close> unlinked_next[of ob "root v" p H] to(2,3) ob pvn[OF nv(1)] vo
          by (simp add: local.Cons)
        show "H' x = H x" if "x \<in> List.set (concat (List.map addrs (v # vs)))" "x \<noteq> root v" for x
        proof -
          have x: "x \<in> ?rest" using that(1) by (simp add: local.Cons)
          then have "x \<notin> List.set (addrs t)" "x \<noteq> p" using d by blast+
          then show ?thesis using Cons.prems(6)[of x] \<open>u = t\<close> unlinked_same[of ob x p H] to(2,3) ob pvn[OF x] that(2)
            by (simp add: local.Cons)
        qed
      qed (use to(5) d(1) vo in \<open>simp_all add: local.Cons\<close>)
      then show ?thesis using True by (simp add: local.Cons)
    qed (use True in simp)
  next
    case False
    then have u: "u \<in> List.set ts" using Cons.prems(3) by auto
    have au: "List.set (addrs u) \<subseteq> ?rest" using u by auto
    have ar: "?a \<in> root ` List.set ts" using u by simp
    have IH: "sibs_at H' p (Some (root t)) (remove_in ?a ts)"
      by (rule Cons.IH) (use to d u rt Cons.prems(4,6) in auto)
    have lk: "obj_prev ob = (if first ts = Some ?a then Some (root t) else obj_prev ob) \<and>
      (first ts \<noteq> Some ?a \<longrightarrow> (\<exists>q \<in> root ` List.set ts. q \<noteq> ?a \<and> obj_prev ob = Some q)) \<and>
      (\<forall>r. obj_next ob = Some r \<longrightarrow> r \<in> root ` List.set ts \<and> r \<noteq> ?a \<and> obj_prev ob \<noteq> Some r \<and> first ts \<noteq> Some r)"
      by (rule sibs_at_links[OF to(5) d(1) ar Cons.prems(4)]) (use rt in auto)
    have rest: "H' x = H x" if "x \<in> List.set (addrs t)" "x \<noteq> root t" for x
    proof -
      have x: "x \<notin> ?rest" "x \<noteq> p" using that(1) d by blast+
      then have "x \<notin> root ` List.set ts" using rs by blast
      then have "obj_prev ob \<noteq> Some x" "obj_next ob \<noteq> Some x" using lk that(2) by (auto split: if_splits)
      then show ?thesis using Cons.prems(6)[of x] x au unlinked_same[of ob x p H] by auto
    qed
    have a: "?a \<notin> List.set (addrs t)" using rs ar d(2) by blast
    have nr: "root t \<notin> root ` List.set ts" using rs rt by blast
    have rtu: "root t \<notin> List.set (addrs u)" using au rt by blast
    have rp: "root t \<noteq> p" using d(4) root_in_addrs[of t] by metis
    have H'r: "H' (root t) = Some (to\<lparr>obj_next := first (remove_in ?a ts)\<rparr>)"
    proof (cases "first ts = Some ?a")
      case True
      then obtain v vs where v: "ts = v # vs" "root v = ?a" by (cases ts) auto
      have "obj_next ob = first vs" using to(5) v Cons.prems(4) by auto
      moreover have "obj_prev ob = Some (root t)" using lk True by simp
      ultimately show ?thesis using Cons.prems(6)[OF rtu] unlinked_prev[of ob "root t" p H] to(1) v
        by simp
    next
      case False
      then have "obj_prev ob \<noteq> Some (root t)" "obj_next ob \<noteq> Some (root t)" using lk nr by auto
      then have "H' (root t) = H (root t)" using Cons.prems(6)[OF rtu] unlinked_same[of ob "root t" p H] rp by simp
      moreover have "to\<lparr>obj_next := first (remove_in ?a ts)\<rparr> = to"
        using to(3) False by (simp add: remove_root_first)
      ultimately show ?thesis using to(1) by simp
    qed
    have "tree_at H' t"
      by (rule tree_at_root[of H t to H' "to\<lparr>obj_next := first (remove_in ?a ts)\<rparr>"])
        (use to(1,6) H'r rest d(3) in simp_all)
    then show ?thesis using False IH H'r to by (simp add: prune_id(1)[OF a])
  qed
qed simp

lemma members_disjoint:
  "distinct (concat (List.map addrs ts)) \<Longrightarrow> u \<in> List.set ts \<Longrightarrow> v \<in> List.set ts \<Longrightarrow> u \<noteq> v \<Longrightarrow>
     List.set (addrs u) \<inter> List.set (addrs v) = {}"
  by (induction ts) auto

lemma find_in_cases:
  assumes "distinct (concat (List.map addrs ts))" and "find_in a ts = Some u"
  obtains "u \<in> List.set ts" "root u = a"
  | t where "t \<in> List.set ts" "a \<noteq> root t" "subtree a t = Some u" "a \<notin> root ` List.set ts"
proof -
  have "(u \<in> List.set ts \<and> root u = a) \<or>
      (\<exists>t \<in> List.set ts. a \<noteq> root t \<and> subtree a t = Some u \<and> a \<notin> root ` List.set ts)"
    using assms
  proof (induction ts)
    case (Cons t ts)
    have d: "List.set (addrs t) \<inter> List.set (concat (List.map addrs ts)) = {}" "distinct (concat (List.map addrs ts))"
      using Cons.prems(1) by simp_all
    show ?case
    proof (cases "subtree a t")
      case None
      then have "a \<noteq> root t" "find_in a ts = Some u"
        using find_in_mem(1)[of a t] root_in_addrs[of t] Cons.prems(2) by (metis, simp)
      then show ?thesis using Cons.IH[OF d(2)] by auto
    next
      case (Some v)
      then have v: "v = u" using Cons.prems(2) by simp
      have "a \<in> List.set (addrs t)" using find_in_mem(1)[of a t] Some by auto
      then have n: "a \<notin> root ` List.set ts" using d(1) roots_subset[of ts] by blast
      show ?thesis
      proof (cases "a = root t")
        case True
        then have "u = t" using Some v by (cases t) auto
        then show ?thesis using True by simp
      next
        case False
        then show ?thesis using Some v n by auto
      qed
    qed
  qed simp
  then show thesis using that by blast
qed

text \<open>Where the links of an object inside a tree lead.\<close>

definition links_in :: "(nat \<Rightarrow> wdf_object option) \<Rightarrow> otree \<Rightarrow> otree \<Rightarrow> wdf_object \<Rightarrow> nat \<Rightarrow> bool" where
  "links_in H t u ob p \<longleftrightarrow> parent_list ob = Some p \<and>
     p \<in> List.set (addrs t) - List.set (addrs u) \<and> H p \<noteq> None \<and> \<not> child_dead (the (H p)) \<and>
     (\<forall>q. obj_prev ob = Some q \<longrightarrow> q \<in> List.set (concat (List.map addrs (kids t))) - List.set (addrs u) \<and> H q \<noteq> None \<and> q \<noteq> p) \<and>
     (\<forall>r. obj_next ob = Some r \<longrightarrow> r \<in> List.set (concat (List.map addrs (kids t))) - List.set (addrs u) \<and> H r \<noteq> None \<and> r \<noteq> p \<and>
        obj_prev ob \<noteq> Some r)"

lemma addrs_kids: "List.set (addrs t) = insert (root t) (List.set (concat (List.map addrs (kids t))))"
  by (cases t) simp

lemma links_in_mono:
  "links_in H t u ob p \<Longrightarrow> List.set (addrs t) \<subseteq> List.set (addrs t') \<Longrightarrow>
   List.set (concat (List.map addrs (kids t))) \<subseteq> List.set (concat (List.map addrs (kids t'))) \<Longrightarrow> links_in H t' u ob p"
  unfolding links_in_def by blast

lemma tree_links:
  "tree_at H t \<Longrightarrow> distinct (addrs t) \<Longrightarrow> subtree a t = Some u \<Longrightarrow> a \<noteq> root t \<Longrightarrow> H a = Some ob \<Longrightarrow>
     \<exists>p. links_in H t u ob p"
proof (induction t)
  case (Node b ts)
  have f: "find_in a ts = Some u" using Node.prems(3,4) by simp
  have d: "distinct (concat (List.map addrs ts))" "b \<notin> List.set (concat (List.map addrs ts))"
    using Node.prems(2) by simp_all
  obtain bo where b: "H b = Some bo" "\<not> child_dead bo" "sibs_at H b None ts" using Node.prems(1) by auto
  from d(1) f show ?case
  proof (cases rule: find_in_cases)
    case 1
    have m: "q \<in> List.set (concat (List.map addrs ts)) - List.set (addrs u) \<and> H q \<noteq> None \<and> q \<noteq> b"
      if q: "q \<in> root ` List.set ts" "q \<noteq> a" for q
    proof -
      obtain v where v: "v \<in> List.set ts" "q = root v" "v \<noteq> u" using q 1 by auto
      then have "q \<notin> List.set (addrs u)"
        using members_disjoint[OF d(1) v(1) 1(1)] root_in_addrs[of v] by blast
      moreover have "q \<in> List.set (concat (List.map addrs ts))" using q(1) roots_subset[of ts] by blast
      ultimately show ?thesis using d(2) sibs_at_roots[OF b(3) v(1)] v(2) by auto
    qed
    have p: "parent_list ob = Some b" using sibs_at_roots[OF b(3) 1(1)] 1(2) Node.prems(5) by auto
    have bu: "b \<notin> List.set (addrs u)" using 1(1) d(2) by auto
    have ar: "a \<in> root ` List.set ts" using 1 by auto
    have lk: "(obj_prev ob = None \<or> (\<exists>q \<in> root ` List.set ts. q \<noteq> a \<and> obj_prev ob = Some q)) \<and>
        (\<forall>r. obj_next ob = Some r \<longrightarrow> r \<in> root ` List.set ts \<and> r \<noteq> a \<and> obj_prev ob \<noteq> Some r)"
      using sibs_at_links[OF b(3) d(1) ar Node.prems(5)] by (auto split: if_splits)
    have "links_in H (Node b ts) u ob b"
      unfolding links_in_def kids.simps
    proof (intro conjI allI impI)
      fix q assume "obj_prev ob = Some q"
      then have q: "q \<in> root ` List.set ts" "q \<noteq> a" using lk by auto
      show "q \<in> List.set (concat (List.map addrs ts)) - List.set (addrs u)" "H q \<noteq> None" "q \<noteq> b"
        using m[OF q] by blast+
    next
      fix r assume "obj_next ob = Some r"
      then have r: "r \<in> root ` List.set ts" "r \<noteq> a" "obj_prev ob \<noteq> Some r" using lk by auto
      show "r \<in> List.set (concat (List.map addrs ts)) - List.set (addrs u)" "H r \<noteq> None" "r \<noteq> b"
        "obj_prev ob \<noteq> Some r"
        using m[OF r(1,2)] r(3) by blast+
    qed (use p b bu in simp_all)
    then show ?thesis ..
  next
    case (2 t)
    obtain to where t: "tree_at H t" using sibs_at_roots[OF b(3) 2(1)] by auto
    have dt: "distinct (addrs t)" using d(1) 2(1) by (auto simp: distinct_concat_iff)
    obtain p where p: "links_in H t u ob p"
      using Node.IH[OF 2(1) t dt 2(3,2) Node.prems(5)] by blast
    have s: "List.set (addrs t) \<subseteq> List.set (concat (List.map addrs ts))" using 2(1) by auto
    have k: "List.set (concat (List.map addrs (kids t))) \<subseteq> List.set (concat (List.map addrs ts))"
      using s addrs_kids[of t] by blast
    have "links_in H (Node b ts) u ob p"
      by (rule links_in_mono[OF p]) (use s k in \<open>auto simp del: set_concat set_map\<close>)
    then show ?thesis ..
  qed
qed

lemma sibs_at_map:
  assumes "sibs_at H p pv ts" and "distinct (concat (List.map addrs ts))" and "t \<in> List.set ts"
    and "\<And>v. v \<in> List.set ts \<Longrightarrow> root (g v) = root v" and "\<And>v. v \<in> List.set ts \<Longrightarrow> v \<noteq> t \<Longrightarrow> g v = v"
    and "tree_at H' (g t)"
    and "H (root t) = Some to" and "H' (root t) = Some to'" and "parent_list to' = parent_list to"
    and "obj_prev to' = obj_prev to" and "obj_next to' = obj_next to"
    and "\<And>x. x \<in> List.set (concat (List.map addrs ts)) \<Longrightarrow> x \<notin> List.set (addrs t) \<Longrightarrow> H' x = H x"
  shows "sibs_at H' p pv (List.map g ts)"
  using assms
proof (induction ts arbitrary: pv)
  case (Cons v ts)
  have d: "distinct (concat (List.map addrs ts))" "List.set (addrs v) \<inter> List.set (concat (List.map addrs ts)) = {}"
    using Cons.prems(2) by simp_all
  have fr: "first (List.map g ts) = first ts" using Cons.prems(4) by (cases ts) auto
  show ?case
  proof (cases "v = t")
    case True
    have out: "H' x = H x" if "x \<in> List.set (concat (List.map addrs ts))" for x
      using that Cons.prems(12)[of x] True d(2) by auto
    have "t \<notin> List.set ts"
    proof
      assume "t \<in> List.set ts"
      then have "List.set (addrs t) \<subseteq> List.set (concat (List.map addrs ts))" by auto
      then have "root v \<in> List.set (concat (List.map addrs ts))" using True root_in_addrs[of t] by blast
      then show False using d(2) root_in_addrs[of v] by blast
    qed
    then have "g w = w" if "w \<in> List.set ts" for w using Cons.prems(5)[of w] that by auto
    then have m: "List.map g ts = ts" by (simp add: map_idI)
    have "sibs_at H' p (Some (root v)) ts = sibs_at H p (Some (root v)) ts"
      using out by (intro tree_at_cong(2)) auto
    then show ?thesis using Cons.prems True m by simp
  next
    case False
    then have t: "t \<in> List.set ts" using Cons.prems(3) by simp
    then have dt: "List.set (addrs v) \<inter> List.set (addrs t) = {}" using d(2) by auto
    have e: "H' x = H x" if "x \<in> List.set (addrs v)" for x
      using that Cons.prems(12)[of x] dt by auto
    then have "tree_at H' v = tree_at H v" by (rule tree_at_cong(1))
    moreover have "sibs_at H' p (Some (root v)) (List.map g ts)"
      by (rule Cons.IH) (use Cons.prems d t in auto)
    ultimately show ?thesis using Cons.prems(1,5) False fr e[of "root v"] by auto
  qed
qed simp

lemma remove_in_map: "a \<notin> root ` List.set ts \<Longrightarrow> remove_in a ts = List.map (prune a) ts"
  by (induction ts) auto

lemma tree_at_prune:
  assumes "tree_at H t" and "distinct (addrs t)" and "subtree a t = Some u" and "a \<noteq> root t"
    and "H a = Some ob" and "parent_list ob = Some p"
    and "\<And>x. x \<notin> List.set (addrs u) \<Longrightarrow> H' x = unlinked ob p H x"
  shows "tree_at H' (prune a t)"
  using assms
proof (induction t)
  case (Node b ts)
  have f: "find_in a ts = Some u" using Node.prems(3,4) by simp
  have d: "distinct (concat (List.map addrs ts))" "b \<notin> List.set (concat (List.map addrs ts))"
    using Node.prems(2) by simp_all
  obtain bo where b: "H b = Some bo" "\<not> child_dead bo" "child_head bo = first ts" "sibs_at H b None ts"
    using Node.prems(1) by auto
  have "List.set (addrs u) \<subseteq> List.set (concat (List.map addrs ts))" using find_in_root(2)[OF f] by simp
  then have bu: "b \<notin> List.set (addrs u)" using d(2) by blast
  note bH' = Node.prems(7)[OF bu]
  obtain p' where l: "links_in H (Node b ts) u ob p'"
    using tree_links[OF Node.prems(1-5)] by blast
  then have pp: "p' = p" using Node.prems(6) by (simp add: links_in_def)
  have bpn: "obj_prev ob \<noteq> Some b" "obj_next ob \<noteq> Some b"
    using l d(2) by (auto simp: links_in_def)
  from d(1) f show ?case
  proof (cases rule: find_in_cases)
    case 1
    have pb: "p = b" using sibs_at_roots[OF b(4) 1(1)] 1(2) Node.prems(5,6) by auto
    have ar: "a \<in> root ` List.set ts" using 1 by auto
    have lk: "obj_prev ob = None \<longleftrightarrow> first ts = Some a"
      using sibs_at_links[OF b(4) d(1) ar Node.prems(5)] by (auto split: if_splits)
    have fn: "obj_next ob = first (tl ts)" if "first ts = Some a"
      using b(4) that Node.prems(5) by (cases ts) auto
    have hb: "\<exists>bo'. H' b = Some bo' \<and> \<not> child_dead bo' \<and> child_head bo' = first (remove_in a ts)"
      using bH' bpn b lk fn pb by (simp add: unlinked_def remove_root_first)
    have "sibs_at H' b None (remove_in (root u) ts)"
      by (rule sibs_at_remove[OF b(4) _ 1(1)]) (use d 1(2) Node.prems(5,7) pb in auto)
    then show ?thesis using hb 1(2) by auto
  next
    case (2 t)
    have t: "tree_at H t" using sibs_at_roots[OF b(4) 2(1)] by auto
    obtain to where to: "H (root t) = Some to" using sibs_at_roots[OF b(4) 2(1)] by auto
    have dt: "distinct (addrs t)" using d(1) 2(1) by (auto simp: distinct_concat_iff)
    obtain p2 where l2: "links_in H t u ob p2"
      using tree_links[OF t dt 2(3,2) Node.prems(5)] by blast
    then have p2: "p2 = p" using Node.prems(6) by (simp add: links_in_def)
    have IH: "tree_at H' (prune a t)"
      by (rule Node.IH[OF 2(1) t dt 2(3,2) Node.prems(5,6,7)])
    have ts: "List.set (addrs t) \<subseteq> List.set (concat (List.map addrs ts))" using 2(1) by auto
    have out: "H' x = H x" if "x \<notin> List.set (addrs t)" for x
    proof -
      have "x \<noteq> p" "obj_prev ob \<noteq> Some x" "obj_next ob \<noteq> Some x"
        using l2 p2 that addrs_kids[of t] unfolding links_in_def by blast+
      moreover have "x \<notin> List.set (addrs u)" using find_in_root(1)[OF 2(3)] that by blast
      ultimately show ?thesis using Node.prems(7)[of x] unlinked_same[of ob x p H] by simp
    qed
    have rk: "root t \<notin> List.set (concat (List.map addrs (kids t)))" using dt by (cases t) simp
    have ru: "root t \<notin> List.set (addrs u)"
      using 2(2,3) dt find_in_root(2)[of a "kids t" u] by (cases t) auto
    have rt: "H' (root t) = Some to \<or> H' (root t) = Some (to\<lparr>child_head := obj_next ob\<rparr>)"
      using Node.prems(7)[OF ru] l2 p2 rk to unfolding links_in_def unlinked_def by auto
    then obtain to' where to': "H' (root t) = Some to'" "parent_list to' = parent_list to"
        "obj_prev to' = obj_prev to" "obj_next to' = obj_next to" by auto
    have at: "a \<in> List.set (addrs t)" using find_in_mem(1)[of a t] 2(3) by auto
    have "sibs_at H' b None (remove_in a ts)"
      unfolding remove_in_map[OF 2(4)]
    proof (rule sibs_at_map[where g = "prune a" and t = t and H = H and to = to and to' = to'])
      fix v assume v: "v \<in> List.set ts" "v \<noteq> t"
      then have "a \<notin> List.set (addrs v)" using members_disjoint[OF d(1) v(1) 2(1) v(2)] at by blast
      then show "prune a v = v" by (rule prune_id(1))
    qed (use b(4) d(1) 2(1) IH to to' out in simp_all)
    moreover have "H' b = H b" using out ts d(2) by blast
    moreover have "first (remove_in a ts) = first ts" using 2(4) by (cases ts) auto
    ultimately show ?thesis using b by auto
  qed
qed

lemma subtree_at:
  "tree_at H t \<Longrightarrow> subtree a t = Some u \<Longrightarrow> tree_at H u"
  "sibs_at H p pv ts \<Longrightarrow> find_in a ts = Some u \<Longrightarrow> tree_at H u"
  by (induction H t and H p pv ts rule: tree_at_sibs_at.induct) (auto split: option.splits if_splits)

lemma distinct_subtree:
  "distinct (addrs t) \<Longrightarrow> subtree a t = Some u \<Longrightarrow> distinct (addrs u)"
  "distinct (concat (List.map addrs ts)) \<Longrightarrow> find_in a ts = Some u \<Longrightarrow> distinct (addrs u)"
  by (induction a t and a ts rule: subtree_find_in.induct) (auto split: option.splits if_splits)

section \<open>Adding a child\<close>

fun graft :: "nat \<Rightarrow> nat \<Rightarrow> otree \<Rightarrow> otree" where
  "graft p a (Node b ts) = (if b = p then Node b (Node a [] # ts) else Node b (List.map (graft p a) ts))"

lemma root_graft [simp]: "root (graft p a t) = root t"
  by (cases t) simp

lemma graft_id: "p \<notin> List.set (addrs t) \<Longrightarrow> graft p a t = t"
  by (induction t) (auto intro: map_idI)

lemma addrs_graft:
  "p \<in> List.set (addrs t) \<Longrightarrow> List.set (addrs (graft p a t)) = insert a (List.set (addrs t))"
proof (induction t)
  case (Node b ts)
  show ?case
  proof (cases "b = p")
    case False
    have "List.set (addrs (graft p a v)) = (if p \<in> List.set (addrs v) then insert a (List.set (addrs v)) else List.set (addrs v))"
      if "v \<in> List.set ts" for v
      using Node.IH[OF that] graft_id[of p v a] by auto
    moreover obtain v where "v \<in> List.set ts" "p \<in> List.set (addrs v)" using Node.prems False by auto
    ultimately show ?thesis using False by (auto split: if_splits)
  qed auto
qed

lemma distinct_graft:
  "distinct (addrs t) \<Longrightarrow> a \<notin> List.set (addrs t) \<Longrightarrow> distinct (addrs (graft p a t))"
proof (induction t)
  case (Node b ts)
  have s: "List.set (addrs (graft p a v)) \<subseteq> insert a (List.set (addrs v))" for v
    using addrs_graft[of p v a] graft_id[of p v a] by (cases "p \<in> List.set (addrs v)") auto
  have "distinct (concat (List.map addrs (List.map (graft p a) ts)))"
    using Node
  proof (induction ts)
    case (Cons v ts)
    have IH: "distinct (concat (List.map addrs (List.map (graft p a) ts)))"
      by (rule Cons.IH) (use Cons.prems in auto)
    have dv: "distinct (addrs (graft p a v))" using Cons.prems by simp
    have dj: "List.set (addrs v) \<inter> List.set (concat (List.map addrs ts)) = {}" using Cons.prems(2) by simp
    have "List.set (addrs (graft p a v)) \<inter> List.set (concat (List.map addrs (List.map (graft p a) ts))) = {}"
    proof (cases "p \<in> List.set (addrs v)")
      case True
      then have "p \<notin> List.set (concat (List.map addrs ts))" using dj by blast
      then have "List.map (graft p a) ts = ts" by (auto intro!: map_idI graft_id)
      then show ?thesis using addrs_graft[OF True, of a] dj Cons.prems(3) by auto
    next
      case False
      have "List.set (concat (List.map addrs (List.map (graft p a) ts))) \<subseteq> insert a (List.set (concat (List.map addrs ts)))"
        using s by fastforce
      then show ?thesis using graft_id[OF False, of a] dj Cons.prems(3) by auto
    qed
    then show ?case using IH dv by simp
  qed simp
  moreover have "b \<notin> List.set (concat (List.map addrs (List.map (graft p a) ts)))"
    using s Node.prems by fastforce
  ultimately show ?case using Node.prems by auto
qed

lemma tree_at_graft:
  assumes "tree_at H t" and "distinct (addrs t)" and "p \<in> List.set (addrs t)" and "a \<notin> List.set (addrs t)"
    and "H p = Some po"
    and "H' a = Some ((fresh_obj (Some p) d at)\<lparr>obj_next := child_head po\<rparr>)"
    and "H' p = Some (po\<lparr>child_head := Some a\<rparr>)"
    and "\<And>r. child_head po = Some r \<Longrightarrow> H' r = Some ((the (H r))\<lparr>obj_prev := Some a\<rparr>)"
    and "\<And>x. x \<noteq> a \<Longrightarrow> x \<noteq> p \<Longrightarrow> child_head po \<noteq> Some x \<Longrightarrow> H' x = H x"
  shows "tree_at H' (graft p a t) \<and>
    (child_head po = None \<or> (\<exists>r \<in> List.set (concat (List.map addrs (kids t))). child_head po = Some r))"
  using assms
proof (induction t)
  case (Node b ts)
  obtain bo where b: "H b = Some bo" "\<not> child_dead bo" "child_head bo = first ts" "sibs_at H b None ts"
    using Node.prems(1) by auto
  have d: "distinct (concat (List.map addrs ts))" "b \<notin> List.set (concat (List.map addrs ts))"
    using Node.prems(2) by simp_all
  have na: "a \<noteq> b" "a \<notin> List.set (concat (List.map addrs ts))" using Node.prems(4) by auto
  show ?case
  proof (cases "b = p")
    case True
    then have po: "po = bo" using b Node.prems(5) by simp
    have "sibs_at H' p (Some a) ts"
    proof (cases ts)
      case (Cons v vs)
      obtain vo where vo: "H (root v) = Some vo" using b(4) by (auto simp: Cons)
      have "sibs_at H' p (Some a) (v # vs)"
      proof (rule sibs_at_head[of H p None v vs vo])
        show "H' (root v) = Some (vo\<lparr>obj_prev := Some a\<rparr>)" using Node.prems(8)[of "root v"] po b(3) vo by (simp add: Cons)
        show "H' x = H x" if "x \<in> List.set (concat (List.map addrs (v # vs)))" "x \<noteq> root v" for x
          using Node.prems(9)[of x] that na d(2) po b(3) True by (auto simp: Cons)
      qed (use b(4) d(1) vo True in \<open>simp_all add: Cons\<close>)
      then show ?thesis by (simp add: Cons)
    qed simp
    moreover have "child_head po = None \<or> (\<exists>r \<in> List.set (concat (List.map addrs ts)). child_head po = Some r)"
      using po b(3) by (cases ts) auto
    ultimately show ?thesis
      using True Node.prems(6,7) po b by (simp add: fresh_obj_def)
  next
    case False
    then obtain t where t: "t \<in> List.set ts" "p \<in> List.set (addrs t)" using Node.prems(3) by auto
    obtain to where to: "H (root t) = Some to" "tree_at H t" using sibs_at_roots[OF b(4) t(1)] by auto
    have dt: "distinct (addrs t)" "a \<notin> List.set (addrs t)" using d(1) t(1) na by (auto simp: distinct_concat_iff)
    have IH: "tree_at H' (graft p a t) \<and>
        (child_head po = None \<or> (\<exists>r \<in> List.set (concat (List.map addrs (kids t))). child_head po = Some r))"
      by (rule Node.IH[OF t(1) to(2) dt(1) t(2) dt(2) Node.prems(5-9)])
    have ts: "List.set (addrs t) \<subseteq> List.set (concat (List.map addrs ts))" using t(1) by auto
    have out: "H' x = H x" if "x \<notin> List.set (addrs t)" "x \<noteq> a" for x
    proof -
      have k: "List.set (concat (List.map addrs (kids t))) \<subseteq> List.set (addrs t)" by (cases t) auto
      have "x \<noteq> p" using that(1) t(2) by metis
      moreover have "child_head po \<noteq> Some x" using that(1) IH k by (metis option.discI option.inject subsetD)
      ultimately
      show ?thesis using Node.prems(9)[of x] that(2) by simp
    qed
    have rk: "root t \<notin> List.set (concat (List.map addrs (kids t)))" using dt(1) by (cases t) simp
    have ra: "root t \<noteq> a" using dt(2) root_in_addrs[of t] by metis
    have "\<exists>to'. H' (root t) = Some to' \<and> parent_list to' = parent_list to \<and> obj_prev to' = obj_prev to \<and> obj_next to' = obj_next to"
    proof (cases "root t = p")
      case True
      then show ?thesis using Node.prems(5,7) to by auto
    next
      case False
      have "child_head po \<noteq> Some (root t)" using IH rk by (metis option.discI option.inject)
      then show ?thesis using False Node.prems(9)[of "root t"] ra to by auto
    qed
    then obtain to' where to': "H' (root t) = Some to'" "parent_list to' = parent_list to"
        "obj_prev to' = obj_prev to" "obj_next to' = obj_next to" by blast
    have "sibs_at H' b None (List.map (graft p a) ts)"
    proof (rule sibs_at_map[where g = "graft p a" and t = t and H = H and to = to and to' = to'])
      fix v assume v: "v \<in> List.set ts" "v \<noteq> t"
      then have "p \<notin> List.set (addrs v)" using members_disjoint[OF d(1) v(1) t(1) v(2)] t(2) by blast
      then show "graft p a v = v" by (rule graft_id)
    qed (use b(4) d(1) t(1) IH to(1) to' out na in auto)
    moreover have "H' b = H b" using out[of b] ts d(2) na by auto
    moreover have "first (List.map (graft p a) ts) = first ts" by (cases ts) auto
    moreover have "child_head po = None \<or> (\<exists>r \<in> List.set (concat (List.map addrs ts)). child_head po = Some r)"
      using IH ts addrs_kids[of t] by blast
    ultimately show ?thesis using b False by simp
  qed
qed

section \<open>Runs\<close>

text \<open>What a driver does: it creates objects, at addresses the allocator gives, and deletes them.\<close>

datatype tree_op = Create "nat option" nat "nat option" "nat option \<times> nat option" | Delete nat

fun tree_do :: "nat \<Rightarrow> tree_op \<Rightarrow> wdf_heap \<Rightarrow> wdf_heap result" where
  "tree_do n (Create parent a destr attrs) h = wdf_create_obj parent a destr attrs h"
| "tree_do n (Delete a) h = winwdf_destroy_object n a h"

fun tree_run :: "nat \<Rightarrow> tree_op list \<Rightarrow> wdf_heap \<Rightarrow> wdf_heap result" where
  "tree_run n [] h = Inr h"
| "tree_run n (op # ops) h = res_bind (tree_do n op h) (\<lambda>h1. tree_run n ops h1)"

text \<open>The same on an abstract forest.\<close>

definition nodes :: "otree list \<Rightarrow> nat list" where
  "nodes F = concat (List.map addrs F)"

fun forest_do :: "tree_op \<Rightarrow> otree list \<Rightarrow> otree list" where
  "forest_do (Create None a destr attrs) F = F @ [Node a []]"
| "forest_do (Create (Some p) a destr attrs) F = List.map (graft p a) F"
| "forest_do (Delete a) F = remove_in a F"

fun op_ok :: "tree_op \<Rightarrow> otree list \<Rightarrow> bool" where
  "op_ok (Create None a destr attrs) F = (a \<notin> List.set (nodes F))"
| "op_ok (Create (Some p) a destr attrs) F = (a \<notin> List.set (nodes F) \<and> p \<in> List.set (nodes F))"
| "op_ok (Delete a) F = (a \<in> List.set (nodes F))"

fun ops_ok :: "tree_op list \<Rightarrow> otree list \<Rightarrow> bool" where
  "ops_ok [] F = True"
| "ops_ok (op # ops) F = (op_ok op F \<and> ops_ok ops (forest_do op F))"

text \<open>Children are freed before their parent.\<close>

fun postorder :: "otree \<Rightarrow> nat list" where
  "postorder (Node a ts) = concat (List.map postorder ts) @ [a]"

fun freed_by :: "tree_op \<Rightarrow> otree list \<Rightarrow> nat list" where
  "freed_by (Delete a) F = (case find_in a F of Some u \<Rightarrow> postorder u | None \<Rightarrow> [])"
| "freed_by op F = []"

fun freed_run :: "tree_op list \<Rightarrow> otree list \<Rightarrow> nat list" where
  "freed_run [] F = []"
| "freed_run (op # ops) F = freed_by op F @ freed_run ops (forest_do op F)"

fun freed_obj :: "obj_event \<Rightarrow> nat list" where
  "freed_obj (Ev_free a) = [a]"
| "freed_obj _ = []"

definition freed :: "wdf_heap \<Rightarrow> nat list" where
  "freed h = concat (List.map freed_obj (obj_log h))"

definition forest_at :: "wdf_heap \<Rightarrow> otree list \<Rightarrow> bool" where
  "forest_at h F \<longleftrightarrow> distinct (nodes F) \<and> dom (objs h) = List.set (nodes F) \<and>
     (\<forall>t \<in> List.set F. tree_at (objs h) t \<and> parent_list (the (objs h (root t))) = None)"

definition empty_heap :: wdf_heap where
  "empty_heap = \<lparr>objs = (\<lambda>_. None), obj_log = []\<rparr>"

lemma freed_events: "concat (List.map freed_obj (tree_events H t)) = postorder t"
proof (induction t)
  case (Node a ts)
  have "concat (List.map freed_obj (concat (List.map (tree_events H) ts))) = concat (List.map postorder ts)"
    using Node by (induction ts) auto
  moreover have "concat (List.map freed_obj (ctx_events a cs)) = []" for cs
    by (induction cs) (auto simp: ctx_events_def split: option.splits)
  moreover have "concat (List.map freed_obj (destr_events a ob)) = []" for ob
    by (auto simp: destr_events_def split: option.splits)
  ultimately show ?case by (simp del: concat_eq_Nil_conv)
qed

lemma tree_at_dom: "tree_at H t \<Longrightarrow> x \<in> List.set (addrs t) \<Longrightarrow> H x \<noteq> None"
  "sibs_at H p pv ts \<Longrightarrow> x \<in> List.set (concat (List.map addrs ts)) \<Longrightarrow> H x \<noteq> None"
  by (induction H t and H p pv ts rule: tree_at_sibs_at.induct) auto

lemma create_root_ok:
  assumes "forest_at h F" and "a \<notin> List.set (nodes F)"
  shows "\<exists>h'. wdf_create_obj None a d at h = Inr h' \<and> forest_at h' (F @ [Node a []]) \<and> obj_log h' = obj_log h"
proof -
  let ?H = "(objs h)(a \<mapsto> fresh_obj None d at)"
  have "tree_at ?H t \<and> parent_list (the (?H (root t))) = None" if t: "t \<in> List.set F" for t
  proof -
    have "a \<notin> List.set (addrs t)" using assms(2) t by (auto simp: nodes_def)
    then have "tree_at ?H t = tree_at (objs h) t" "root t \<noteq> a"
      by (auto intro!: tree_at_cong(1))
    then show ?thesis using assms(1) t by (auto simp: forest_at_def)
  qed
  then have "forest_at (h\<lparr>objs := ?H\<rparr>) (F @ [Node a []])"
    using assms by (auto simp: forest_at_def nodes_def fresh_obj_def)
  then show ?thesis by (simp add: wdf_create_obj_def)
qed

lemma find_tree:
  "p \<in> List.set (nodes F) \<Longrightarrow> \<exists>t \<in> List.set F. p \<in> List.set (addrs t)"
  by (auto simp: nodes_def)

lemma child_head_in:
  "tree_at H t \<Longrightarrow> distinct (addrs t) \<Longrightarrow> p \<in> List.set (addrs t) \<Longrightarrow> H p = Some po \<Longrightarrow>
     \<not> child_dead po \<and> (\<forall>r. child_head po = Some r \<longrightarrow> r \<in> List.set (addrs t) \<and> r \<noteq> p)"
proof (induction t)
  case (Node b ts)
  obtain bo where b: "H b = Some bo" "\<not> child_dead bo" "child_head bo = first ts" "sibs_at H b None ts"
    using Node.prems(1) by auto
  show ?case
  proof (cases "p = b")
    case True
    have "r \<in> List.set (concat (List.map addrs ts))" if "first ts = Some r" for r
      using that by (cases ts) auto
    moreover have "b \<notin> List.set (concat (List.map addrs ts))" using Node.prems(2) by simp
    ultimately show ?thesis using True b Node.prems(4) by auto
  next
    case False
    then obtain v where v: "v \<in> List.set ts" "p \<in> List.set (addrs v)" using Node.prems(3) by auto
    have "tree_at H v" using sibs_at_roots[OF b(4) v(1)] by auto
    moreover have "distinct (addrs v)" using Node.prems(2) v(1) by (auto simp: distinct_concat_iff)
    ultimately have "\<not> child_dead po \<and> (\<forall>r. child_head po = Some r \<longrightarrow> r \<in> List.set (addrs v) \<and> r \<noteq> p)"
      using Node.IH[OF v(1)] v(2) Node.prems(4) by blast
    then show ?thesis using v(1) by auto
  qed
qed

text \<open>The trees of a forest, and the distinctness of what is left or added.\<close>

lemma forest_tree:
  assumes "forest_at h F" and "t \<in> List.set F"
  shows "tree_at (objs h) t" and "distinct (addrs t)" and "parent_list (the (objs h (root t))) = None"
    and "List.set (addrs t) \<subseteq> List.set (nodes F)"
  using assms by (auto simp: forest_at_def nodes_def distinct_concat_iff)

lemma distinct_map_graft:
  assumes "distinct (nodes F)" and "a \<notin> List.set (nodes F)" and "p \<in> List.set (nodes F)"
  shows "distinct (nodes (List.map (graft p a) F)) \<and>
    List.set (nodes (List.map (graft p a) F)) = insert a (List.set (nodes F))"
proof -
  obtain x where x: "x \<notin> List.set (nodes F)" "x \<noteq> a" "x \<noteq> p"
    using ex_new_if_finite[of "insert a (insert p (List.set (nodes F)))"] by auto
  have "distinct (addrs (Node x F))" using assms(1) x by (simp add: nodes_def)
  moreover have "a \<notin> List.set (addrs (Node x F))" using assms(2) x by (simp add: nodes_def)
  ultimately have d: "distinct (addrs (graft p a (Node x F)))" by (rule distinct_graft)
  have "List.set (addrs (graft p a (Node x F))) = insert a (List.set (addrs (Node x F)))"
    using assms(3) by (intro addrs_graft) (simp add: nodes_def)
  then have s: "insert x (List.set (nodes (List.map (graft p a) F))) = insert x (insert a (List.set (nodes F)))"
    using x by (auto simp: nodes_def)
  have "x \<notin> List.set (nodes (List.map (graft p a) F))" using d x by (simp add: nodes_def)
  then show ?thesis using d s x by (auto simp: nodes_def)
qed

lemma create_child_ok:
  assumes F: "forest_at h F" and a: "a \<notin> List.set (nodes F)" and p: "p \<in> List.set (nodes F)"
  shows "\<exists>h'. wdf_create_obj (Some p) a d at h = Inr h' \<and> forest_at h' (List.map (graft p a) F) \<and> obj_log h' = obj_log h"
proof -
  obtain t where t: "t \<in> List.set F" "p \<in> List.set (addrs t)" using find_tree[OF p] by blast
  note tt = forest_tree[OF F t(1)]
  have dF: "distinct (nodes F)" "dom (objs h) = List.set (nodes F)" using F by (simp_all add: forest_at_def)
  have at: "a \<notin> List.set (addrs t)" using a tt(4) by blast
  obtain po where po: "objs h p = Some po" using tree_at_dom(1)[OF tt(1) t(2)] by auto
  have ap: "a \<noteq> p" using a p by metis
  note hd = child_head_in[OF tt(1,2) t(2) po]
  define Hn where "Hn = (\<lambda>x. if x = a then Some ((fresh_obj (Some p) d at)\<lparr>obj_next := child_head po\<rparr>)
                else if x = p then Some (po\<lparr>child_head := Some a\<rparr>)
                else if child_head po = Some x then Some ((the (objs h x))\<lparr>obj_prev := Some a\<rparr>)
                else objs h x)"
  have hr: "r \<noteq> a \<and> r \<noteq> p \<and> objs h r \<noteq> None" if "child_head po = Some r" for r
    using hd that at tree_at_dom(1)[OF tt(1), of r] by metis
  have c: "wdf_create_obj (Some p) a d at h = Inr (h\<lparr>objs := Hn\<rparr>)"
  proof (cases "child_head po")
    case None
    then show ?thesis using po ap hd
      by (auto simp: wdf_create_obj_def get_obj_def set_obj_def set_opt_def Let_def Hn_def intro!: wdf_heap.equality ext)
  next
    case (Some r)
    then obtain ro where ro: "objs h r = Some ro" "r \<noteq> a" "r \<noteq> p" using hr by auto
    show ?thesis using po ap hd Some ro
      by (auto simp: wdf_create_obj_def get_obj_def set_obj_def set_opt_def Let_def Hn_def intro!: wdf_heap.equality ext)
  qed
  have gt: "tree_at Hn (graft p a t)"
    using tree_at_graft[OF tt(1,2) t(2) at po, of Hn d at] ap hr by (auto simp: Hn_def)
  have each: "tree_at Hn (graft p a v) \<and> parent_list (the (Hn (root v))) = None" if v: "v \<in> List.set F" for v
  proof (cases "v = t")
    case True
    have "root t \<noteq> a" using at root_in_addrs[of t] by metis
    then show ?thesis using gt True tt(3) po by (auto simp: Hn_def)
  next
    case False
    have dj: "List.set (addrs v) \<inter> List.set (addrs t) = {}"
      using members_disjoint[OF _ v t(1) False] dF(1) by (simp add: nodes_def)
    then have pv: "p \<notin> List.set (addrs v)" using t(2) by blast
    note tv = forest_tree[OF F v]
    have same: "Hn x = objs h x" if "x \<in> List.set (addrs v)" for x
    proof -
      have "x \<noteq> a" "x \<noteq> p" "child_head po \<noteq> Some x" using that a tv(4) pv dj hd by blast+
      then show ?thesis by (simp add: Hn_def)
    qed
    have "tree_at Hn v = tree_at (objs h) v" by (rule tree_at_cong(1)) (rule same)
    then show ?thesis using tv(1,3) same[of "root v"] graft_id[OF pv] by simp
  qed
  have dm: "dom Hn = insert a (List.set (nodes F))"
    using dF(2) p hr po by (auto simp: dom_def Hn_def split: if_splits)
  have "forest_at (h\<lparr>objs := Hn\<rparr>) (List.map (graft p a) F)"
    using distinct_map_graft[OF dF(1) a p] each dm by (simp add: forest_at_def)
  then show ?thesis using c by (intro exI[of _ "h\<lparr>objs := Hn\<rparr>"]) simp
qed

lemma remove_root:
  "distinct (concat (List.map addrs F)) \<Longrightarrow> u \<in> List.set F \<Longrightarrow> remove_in (root u) F = remove1 u F"
proof (induction F)
  case (Cons v F)
  have dj: "List.set (addrs v) \<inter> List.set (concat (List.map addrs F)) = {}" using Cons.prems(1) by simp
  show ?case
  proof (cases "v = u")
    case False
    then have u: "u \<in> List.set F" using Cons.prems(2) by simp
    then have "List.set (addrs v) \<inter> List.set (addrs u) = {}" using dj by auto
    then have "root u \<notin> List.set (addrs v)" using root_in_addrs[of u] by blast
    moreover from this have "root v \<noteq> root u" using root_in_addrs[of v] by metis
    ultimately show ?thesis using Cons u False by (simp add: prune_id(1))
  qed simp
qed simp

lemma freed_append: "obj_log h' = obj_log h @ tree_events H u \<Longrightarrow> freed h' = freed h @ postorder u"
  by (simp add: freed_def freed_events del: concat_eq_Nil_conv)

lemma length_subtree:
  assumes "find_in a F = Some u" and "distinct (nodes F)"
  shows "length (addrs u) \<le> length (nodes F)"
proof -
  have "length (addrs u) = card (List.set (addrs u))"
    using distinct_subtree(2)[OF _ assms(1)] assms(2) by (simp add: nodes_def distinct_card)
  also have "\<dots> \<le> card (List.set (nodes F))"
    using find_in_root(2)[OF assms(1)] by (intro card_mono) (simp_all add: nodes_def)
  also have "\<dots> = length (nodes F)"
    using assms(2) by (rule distinct_card)
  finally show ?thesis .
qed

lemma distinct_forest: "distinct (concat (List.map addrs F)) \<Longrightarrow> distinct F"
proof (induction F)
  case (Cons v F)
  have "v \<notin> List.set F"
  proof
    assume "v \<in> List.set F"
    then have "List.set (addrs v) \<subseteq> List.set (concat (List.map addrs F))" by auto
    moreover have "List.set (addrs v) \<inter> List.set (concat (List.map addrs F)) = {}" using Cons.prems by simp
    ultimately show False using root_in_addrs[of v] by blast
  qed
  then show ?case using Cons by simp
qed simp

lemma delete_ok:
  assumes F: "forest_at h F" and a: "a \<in> List.set (nodes F)" and n: "2 * length (nodes F) \<le> n"
  shows "\<exists>h'. destroy_obj n a h = Inr h' \<and> forest_at h' (remove_in a F) \<and>
    freed h' = freed h @ freed_by (Delete a) F"
proof -
  have dF: "distinct (concat (List.map addrs F))" "dom (objs h) = List.set (concat (List.map addrs F))"
    using F by (simp_all add: forest_at_def nodes_def)
  obtain u where f: "find_in a F = Some u"
    using a find_in_mem(2)[of a F] by (auto simp: nodes_def)
  have n': "2 * length (addrs u) \<le> n" using length_subtree[OF f] dF n by (simp add: nodes_def)
  note left = addrs_remove_in(2)[OF dF(1) f]
  have ru: "root u = a" using find_in_root(2)[OF f] by simp
  from dF(1) f show ?thesis
  proof (cases rule: find_in_cases)
    case 1
    note tu = forest_tree[OF F 1(1)]
    obtain ob where ob: "objs h (root u) = Some ob" using tree_at_dom(1)[OF tu(1) root_in_addrs] by auto
    let ?h = "h\<lparr>objs := objs h |` (- List.set (addrs u)), obj_log := obj_log h @ tree_events (objs h) u\<rparr>"
    have d: "destroy_obj n a h = Inr ?h"
      using destroyedD[OF destroyed_all tu(1,2) ob _ n'] tu(3) ob ru by simp
    have each: "tree_at (objs ?h) v \<and> parent_list (the (objs ?h (root v))) = None" if v: "v \<in> List.set (remove_in a F)" for v
    proof -
      have v': "v \<in> List.set F" "v \<noteq> u"
      proof -
        show "v \<in> List.set F" "v \<noteq> u" using v remove_root[OF dF(1) 1(1)] ru distinct_forest[OF dF(1)] by auto
      qed
      have dj: "List.set (addrs v) \<inter> List.set (addrs u) = {}"
        by (rule members_disjoint[OF dF(1) v'(1) 1(1) v'(2)])
      have same: "objs ?h x = objs h x" if "x \<in> List.set (addrs v)" for x
      proof -
        have "x \<notin> List.set (addrs u)" using that dj by blast
        then show ?thesis by simp
      qed
      have "tree_at (objs ?h) v = tree_at (objs h) v" by (rule tree_at_cong(1)) (rule same)
      then show ?thesis using forest_tree(1,3)[OF F v'(1)] same[of "root v"] by simp
    qed
    have "forest_at ?h (remove_in a F)"
      using left each dF(2) by (simp add: forest_at_def nodes_def Diff_eq Int_commute del: set_concat set_map)
    then show ?thesis using d f freed_append[of ?h h "objs h" u] by auto
  next
    case (2 t)
    note tt = forest_tree[OF F 2(1)]
    have uin: "a \<in> List.set (addrs t)" using find_in_mem(1)[of a t] 2(3) by auto
    obtain ob where ob: "objs h a = Some ob" using tree_at_dom(1)[OF tt(1) uin] by auto
    obtain p where p: "links_in (objs h) t u ob p" using tree_links[OF tt(1,2) 2(3,2) ob] by blast
    have lk: "linked ob p (objs h) (List.set (addrs u))" using p unfolding links_in_def linked_def by blast
    let ?h = "h\<lparr>objs := unlinked ob p (objs h) |` (- List.set (addrs u)), obj_log := obj_log h @ tree_events (objs h) u\<rparr>"
    have d: "destroy_obj n a h = Inr ?h"
      using destroy_child_ok[OF subtree_at(1)[OF tt(1) 2(3)] distinct_subtree(1)[OF tt(2) 2(3)] _ lk n'] ob ru
      by simp
    have su: "List.set (addrs u) \<subseteq> List.set (addrs t)" using find_in_root(1)[OF 2(3)] by simp
    have k: "List.set (concat (List.map addrs (kids t))) \<subseteq> List.set (addrs t)" by (cases t) auto
    have far: "p \<in> List.set (addrs t)" "\<And>q. obj_prev ob = Some q \<Longrightarrow> q \<in> List.set (addrs t)"
        "\<And>r. obj_next ob = Some r \<Longrightarrow> r \<in> List.set (addrs t)"
      using p k unfolding links_in_def by blast+
    have same: "objs ?h x = objs h x" if "x \<notin> List.set (addrs t)" for x
    proof -
      have "obj_prev ob \<noteq> Some x" "obj_next ob \<noteq> Some x" "x \<noteq> p" using far that by metis+
      moreover have "x \<notin> List.set (addrs u)" using su that by blast
      ultimately show ?thesis using unlinked_same[of ob x p "objs h"] by simp
    qed
    have tp: "tree_at (objs ?h) (prune a t)"
    proof (rule tree_at_prune[OF tt(1,2) 2(3,2) ob])
      show "parent_list ob = Some p" using p by (simp add: links_in_def)
    qed simp
    have rk: "root t \<notin> List.set (concat (List.map addrs (kids t)))" using tt(2) by (cases t) simp
    have rtu: "root t \<notin> List.set (addrs u)"
    proof -
      have "find_in a (kids t) = Some u" using 2(2,3) by (cases t) auto
      then show ?thesis using find_in_root(2)[of a "kids t" u] rk by blast
    qed
    have rt: "parent_list (the (objs ?h (root t))) = None"
      using p rk rtu tt(3) unfolding links_in_def unlinked_def by auto
    have each: "tree_at (objs ?h) (prune a v) \<and> parent_list (the (objs ?h (root v))) = None" if v: "v \<in> List.set F" for v
    proof (cases "v = t")
      case True
      then show ?thesis using tp rt by simp
    next
      case False
      have dj: "List.set (addrs v) \<inter> List.set (addrs t) = {}"
        by (rule members_disjoint[OF dF(1) v 2(1) False])
      have sv: "objs ?h x = objs h x" if "x \<in> List.set (addrs v)" for x using same[of x] that dj by blast
      have "a \<notin> List.set (addrs v)" using dj uin by blast
      moreover have "tree_at (objs ?h) v = tree_at (objs h) v" by (rule tree_at_cong(1)) (rule sv)
      ultimately show ?thesis using forest_tree(1,3)[OF F v] sv[of "root v"] by (simp add: prune_id(1))
    qed
    have du: "dom (unlinked ob p (objs h)) = dom (objs h)"
      using lk by (auto simp: unlinked_def linked_def dom_def split: if_splits)
    have "forest_at ?h (remove_in a F)"
      unfolding forest_at_def
    proof (intro conjI ballI)
      show "distinct (nodes (remove_in a F))" using left by (simp add: nodes_def)
      show "dom (objs ?h) = List.set (nodes (remove_in a F))"
        using left du dF(2) by (simp add: nodes_def Diff_eq Int_commute del: set_concat set_map)
      fix w assume "w \<in> List.set (remove_in a F)"
      then obtain v where v: "v \<in> List.set F" "w = prune a v" using remove_in_map[OF 2(4)] by auto
      show "tree_at (objs ?h) w" "parent_list (the (objs ?h (root w))) = None" using each[OF v(1)] v(2) by auto
    qed
    then show ?thesis using d f freed_append[of ?h h "objs h" u] by auto
  qed
qed

lemma length_nodes_do: "length (nodes (forest_do op F)) \<le> Suc (length (nodes F))" if "op_ok op F" "distinct (nodes F)"
proof -
  have card: "length xs \<le> Suc (length (nodes F))" if "distinct xs" "List.set xs \<subseteq> insert a (List.set (nodes F))" for xs :: "nat list" and a
  proof -
    have "length xs = card (List.set xs)" using that(1) by (simp add: distinct_card)
    also have "\<dots> \<le> card (insert a (List.set (nodes F)))" using that(2) by (intro card_mono) auto
    also have "\<dots> \<le> Suc (length (nodes F))"
      by (metis List.finite_set card_insert_le_m1 card_length card_insert_if le_SucI not_less_eq_eq nat_le_linear Suc_le_mono)
    finally show ?thesis .
  qed
  show ?thesis
  proof (cases "(op, F)" rule: forest_do.cases)
    case (1 a destr attrs F')
    then show ?thesis by (simp add: nodes_def)
  next
    case (2 p a destr attrs F')
    then show ?thesis using that distinct_map_graft[of F a p] card[of "nodes (List.map (graft p a) F)" a] by auto
  next
    case (3 a F')
    then have "a \<in> List.set (nodes F)" using that by simp
    then obtain u where f: "find_in a F = Some u" using find_in_mem(2)[of a F] by (auto simp: nodes_def)
    then show ?thesis
      using 3 addrs_remove_in(2)[OF _ f] that(2) card[of "nodes (remove_in a F)" a] by (auto simp: nodes_def)
  qed
qed

lemma tree_do_ok:
  assumes "forest_at h F" and "op_ok op F" and "2 * length (nodes F) \<le> n"
  shows "\<exists>h'. tree_do n op h = Inr h' \<and> forest_at h' (forest_do op F) \<and> freed h' = freed h @ freed_by op F"
proof (cases "(op, F)" rule: forest_do.cases)
  case (1 a destr attrs F')
  then show ?thesis using create_root_ok[of h F a destr attrs] assms by (auto simp: freed_def)
next
  case (2 p a destr attrs F')
  then show ?thesis using create_child_ok[of h F a p destr attrs] assms by (auto simp: freed_def)
next
  case (3 a F')
  then show ?thesis using delete_ok[of h F a n] assms by (auto simp: winwdf_destroy_object_def)
qed

lemma tree_run_ok:
  assumes "forest_at h F" and "ops_ok ops F" and "2 * (length (nodes F) + length ops) \<le> n"
  shows "\<exists>h'. tree_run n ops h = Inr h' \<and> forest_at h' (fold forest_do ops F) \<and>
    freed h' = freed h @ freed_run ops F"
  using assms
proof (induction ops arbitrary: h F)
  case (Cons op ops)
  obtain h1 where h1: "tree_do n op h = Inr h1" "forest_at h1 (forest_do op F)" "freed h1 = freed h @ freed_by op F"
    using tree_do_ok[of h F op n] Cons.prems by auto
  have "length (nodes (forest_do op F)) \<le> Suc (length (nodes F))"
    using length_nodes_do[of op F] Cons.prems by (simp add: forest_at_def)
  then show ?case using Cons.IH[OF h1(2)] Cons.prems h1 by auto
qed simp


text \<open>A device with a queue that has two requests, and a file; the queue goes, then the device.\<close>

definition tree_example :: "tree_op list" where
  "tree_example =
     [Create None 1 None (None, None), Create (Some 1) 2 None (None, None), Create (Some 2) 3 None (None, None),
      Create (Some 2) 4 None (None, None), Create (Some 1) 5 None (None, None), Delete 2, Delete 1]"


end
