(* ===== verification/Multi_String.thy ===== *)
theory Multi_String
  imports Prelude
begin

text \<open>
  Lists of strings as Windows passes them: every string with its terminator, and one more terminator at
  the end.  The list of device interfaces and the environment block have this form.
\<close>

definition multi_string :: "'a::zero list list \<Rightarrow> 'a list" where
  "multi_string ws = concat (map (\<lambda>w. w @ [0]) ws) @ [0]"

text \<open>Reading one back: the strings up to the empty one.\<close>

fun multi_strings :: "'a::zero list \<Rightarrow> 'a list \<Rightarrow> 'a list list" where
  "multi_strings cur [] = []"
| "multi_strings cur (c # cs) =
     (if c = 0 then (if cur = [] then [] else cur # multi_strings [] cs) else multi_strings (cur @ [c]) cs)"

lemma multi_strings_word: "0 \<notin> set w \<Longrightarrow> multi_strings cur (w @ cs) = multi_strings (cur @ w) cs"
  by (induction w arbitrary: cur) auto

lemma multi_strings_Cons: "0 \<notin> set w \<Longrightarrow> w \<noteq> [] \<Longrightarrow> multi_strings [] (w @ 0 # cs) = w # multi_strings [] cs"
  by (simp add: multi_strings_word)

lemma multi_strings_multi_string:
  "\<forall>w \<in> set ws. w \<noteq> [] \<and> 0 \<notin> set w \<Longrightarrow> multi_strings [] (multi_string ws @ rest) = ws"
  unfolding multi_string_def by (induction ws) (simp_all add: multi_strings_Cons)

lemma length_multi_string: "length (multi_string ws) = Suc (sum_list (map (\<lambda>w. Suc (length w)) ws))"
  unfolding multi_string_def by (induction ws) simp_all

end
