(* ===== verification/Win_Setup.thy ===== *)
theory Win_Setup
  imports Win_Hid_File Multi_String
begin

text \<open>
  The configuration manager of the emulated Windows (\<open>libtudor/src/winapi/setupapi.c\<close>): one device
  with two interfaces, one for each channel of the sensor.  The last section follows the DLL from the
  list of interfaces over opening them to telling the channels apart.
\<close>

section \<open>The device\<close>

definition CR_SUCCESS :: u32 where "CR_SUCCESS = 0"
definition CR_BUFFER_SMALL :: u32 where "CR_BUFFER_SMALL = 0x1A"
definition CR_INVALID_POINTER :: u32 where "CR_INVALID_POINTER = 2"
definition FAKE_DEVINST :: u32 where "FAKE_DEVINST = 0x12345678"
definition FAKE_PARENT_DEVINST :: u32 where "FAKE_PARENT_DEVINST = 0x12345600"

definition fake_device_id_a :: string where
  "fake_device_id_a = ''HID'' @ [CHR 0x5C] @ ''VID_06CB&PID_00DD'' @ [CHR 0x5C] @ ''TUDOR_FP''"

definition fake_parent_id_a :: string where
  "fake_parent_id_a = ''USB'' @ [CHR 0x5C] @ ''VID_17EF&PID_6142'' @ [CHR 0x5C] @ ''TUDOR_KB''"

definition hid_path_prefix :: string where
  "hid_path_prefix = [CHR 0x5C, CHR 0x5C] @ ''?'' @ [CHR 0x5C] @ ''HID#VID_17EF&PID_6142&''"

definition hid_path_guid :: string where
  "hid_path_guid = ''#{4d1e55b2-f16f-11cf-88cb-001111000030}''"

definition fake_iface_cmd_a :: string where
  "fake_iface_cmd_a = hid_path_prefix @ ''MI_04#7&00000001&0&0000'' @ hid_path_guid"

definition fake_iface_img_a :: string where
  "fake_iface_img_a = hid_path_prefix @ ''MI_01#7&00000001&0&0001'' @ hid_path_guid"

text \<open>A string literal in memory: as bytes, as UTF-16, both with the terminator.\<close>

definition c_str :: "string \<Rightarrow> byte list" where
  "c_str s = char_bytes s @ [0]"

definition w_str :: "string \<Rightarrow> u16 list" where
  "w_str s = List.map ucast (char_bytes s) @ [0]"

section \<open>Device instances\<close>

definition CM_Locate_DevNodeW :: "u32 option \<Rightarrow> u32 \<times> u32 option" where
  "CM_Locate_DevNodeW inst = (CR_SUCCESS, map_option (\<lambda>_. FAKE_DEVINST) inst)"

definition CM_Get_Parent :: "u32 option \<Rightarrow> u32 \<times> u32 option" where
  "CM_Get_Parent inst = (CR_SUCCESS, map_option (\<lambda>_. FAKE_PARENT_DEVINST) inst)"

definition device_id :: "u32 \<Rightarrow> string" where
  "device_id inst = (if inst = FAKE_DEVINST then fake_device_id_a else fake_parent_id_a)"

definition CM_Get_Device_ID_Size :: "u32 option \<Rightarrow> u32 \<Rightarrow> u32 \<times> u32 option" where
  "CM_Get_Device_ID_Size sz inst = (CR_SUCCESS, map_option (\<lambda>_. of_nat (length (device_id inst))) sz)"

text \<open>The length of the buffer is in characters and need not count the terminator.\<close>

definition CM_Get_Device_IDW :: "u32 \<Rightarrow> u16 list option \<Rightarrow> u32 \<Rightarrow> u32 \<times> u16 list option" where
  "CM_Get_Device_IDW inst buf buf_len =
     (case buf of
        None \<Rightarrow> (CR_INVALID_POINTER, None)
      | Some b \<Rightarrow>
          let ws = butlast (w_str (device_id inst)) in
          if unat buf_len < length ws then (CR_BUFFER_SMALL, Some b)
          else let b1 = ws @ drop (length ws) b in
            (CR_SUCCESS, Some (if length ws < unat buf_len then b1[length ws := 0] else b1)))"

section \<open>Interfaces\<close>

definition CM_Get_Device_Interface_List_SizeA :: "u32 option \<Rightarrow> u32 \<times> u32 option" where
  "CM_Get_Device_Interface_List_SizeA sz =
     (CR_SUCCESS, map_option (\<lambda>_. of_nat (length fake_iface_cmd_a + 1 + length fake_iface_img_a + 1 + 1)) sz)"

definition CM_Get_Device_Interface_List_SizeW :: "u16 list option \<Rightarrow> u32 option \<Rightarrow> (u32 \<times> u32 option) result" where
  "CM_Get_Device_Interface_List_SizeW dev_id sz =
     res_bind (winstr_to_str dev_id) (\<lambda>_.
       Inr (CR_SUCCESS,
            map_option (\<lambda>_. of_nat (length (w_str fake_iface_cmd_a) + length (w_str fake_iface_img_a) + 1)) sz))"

text \<open>Both lists: the two paths with their terminators, and a last terminator.\<close>

definition put_list :: "'a::zero list \<Rightarrow> 'a list \<Rightarrow> u32 \<Rightarrow> 'a list \<Rightarrow> u32 \<times> 'a list" where
  "put_list p1 p2 buf_len b =
     (let need = length p1 + length p2 + 1 in
      if unat buf_len < need then (CR_BUFFER_SMALL, b) else (CR_SUCCESS, p1 @ p2 @ [0] @ drop need b))"

definition CM_Get_Device_Interface_ListA :: "byte list option \<Rightarrow> u32 \<Rightarrow> u32 \<times> byte list option" where
  "CM_Get_Device_Interface_ListA buf buf_len =
     (case buf of
        None \<Rightarrow> (CR_INVALID_POINTER, None)
      | Some b \<Rightarrow> (case put_list (c_str fake_iface_cmd_a) (c_str fake_iface_img_a) buf_len b of
                    (cr, b') \<Rightarrow> (cr, Some b')))"

definition CM_Get_Device_Interface_ListW :: "u16 list option \<Rightarrow> u16 list option \<Rightarrow> u32
    \<Rightarrow> (u32 \<times> u16 list option) result" where
  "CM_Get_Device_Interface_ListW dev_id buf buf_len =
     res_bind (winstr_to_str dev_id) (\<lambda>_.
       Inr (case buf of
              None \<Rightarrow> (CR_INVALID_POINTER, None)
            | Some b \<Rightarrow> (case put_list (w_str fake_iface_cmd_a) (w_str fake_iface_img_a) buf_len b of
                          (cr, b') \<Rightarrow> (cr, Some b'))))"

definition DEVPROP_TYPE_STRING :: u32 where "DEVPROP_TYPE_STRING = 0x12"

text \<open>The size is in bytes; the memory of the string is in the byte order of the machine.\<close>

definition CM_Get_Device_Interface_PropertyW :: "u32 option \<Rightarrow> byte list option \<Rightarrow> u32 option
    \<Rightarrow> u32 \<times> u32 option \<times> byte list option \<times> u32 option" where
  "CM_Get_Device_Interface_PropertyW ty buf buf_size =
     (let d = concat (List.map (word_le 2) (w_str fake_device_id_a)) in
      (CR_SUCCESS, map_option (\<lambda>_. DEVPROP_TYPE_STRING) ty,
       (case (buf, buf_size) of
          (Some b, Some n) \<Rightarrow> Some (if length d \<le> unat n then d @ drop (length d) b else b)
        | _ \<Rightarrow> buf),
       map_option (\<lambda>_. of_nat (length d)) buf_size))"

section \<open>From the list of interfaces to the channels\<close>

text \<open>The DLL reads a list with \<open>multi_strings\<close>.\<close>

definition ascii :: "string \<Rightarrow> bool" where
  "ascii s \<longleftrightarrow> (\<forall>c \<in> List.set s. 0 < (of_char c :: nat) \<and> (of_char c :: nat) < 128)"

lemma ascii_paths: "ascii fake_iface_cmd_a" "ascii fake_iface_img_a"
  by (simp_all add: ascii_def fake_iface_cmd_a_def fake_iface_img_a_def hid_path_prefix_def hid_path_guid_def)

lemma ascii_bytes: "ascii s \<Longrightarrow> \<forall>b \<in> List.set (char_bytes s). b \<noteq> 0 \<and> b < 128"
  by (auto simp: ascii_def char_bytes_def word_less_nat_alt unat_of_nat take_bit_eq_mod of_nat_eq_iff
      dest!: arg_cong[of _ "0 :: byte" unat])

lemma chars_bytes: "ascii s \<Longrightarrow> chars (char_bytes s) = s"
  by (induction s) (auto simp: ascii_def chars_def char_bytes_def unat_of_nat take_bit_eq_mod)

lemma w_str_nonzero: "ascii s \<Longrightarrow> \<forall>c \<in> List.set (butlast (w_str s)). c \<noteq> 0"
  using ascii_bytes[of s] by (auto simp: w_str_def ucast_ascii)

lemma winstr_w_str: "ascii s \<Longrightarrow> winstr_to_str (Some (w_str s)) = Inr (Some s)"
  unfolding w_str_def by (rule winstr_to_str_name) (simp_all add: ascii_bytes chars_bytes)

lemma w_str_parts: "w_str s = butlast (w_str s) @ [0]"
  by (simp add: w_str_def)

lemma img_path_fake: "\<not> img_path (Some fake_iface_cmd_a)" "img_path (Some fake_iface_img_a)"
  by (simp_all add: img_path_def fake_iface_cmd_a_def fake_iface_img_a_def hid_path_prefix_def hid_path_guid_def)

lemma path_lengths: "length (w_str fake_iface_cmd_a) = 89" "length (w_str fake_iface_img_a) = 89"
  by (simp_all add: w_str_def char_bytes_def fake_iface_cmd_a_def fake_iface_img_a_def
      hid_path_prefix_def hid_path_guid_def)

lemma open_fake_path:
  assumes "ascii p" and "access AND (GENERIC_READ OR GENERIC_WRITE) \<noteq> 0" and "0 \<le> hid_fd_for_path (Some p) s"
  shows "CreateFileW h True (Some (w_str p)) access OPEN_EXISTING s
    = Inr (Opened (Hid_file h (hid_fd_for_path (Some p) s)),
           hid_register_handle h (hid_iface_for_path (Some p)) s)"
  using assms by (simp add: CreateFileW_def winstr_w_str open_hid_def create_hid_file_handle_def handle_addr_def)

text \<open>
  A client that asks for the size of the list of interfaces, gets the list in a buffer of that size
  and opens the two paths it finds there, has the command channel behind the first handle and the image
  channel behind the second, and \<open>HidD_GetPreparsedData\<close> tells it which is which.
\<close>

lemma interface_list_opens_both_channels:
  assumes "winstr_to_str dev_id = Inr d"
    and "CM_Get_Device_Interface_List_SizeW dev_id (Some 0) = Inr (cr, Some n)" and "length b = unat n"
    and "hid_handle_table s = []" and "h1 \<noteq> h2"
    and "0 \<le> win_hidraw_fd s" and "0 \<le> win_hidraw_fd_img s"
    and "access AND (GENERIC_READ OR GENERIC_WRITE) \<noteq> 0"
  shows "\<exists>l p1 p2 s1 s2.
    CM_Get_Device_Interface_ListW dev_id (Some b) n = Inr (CR_SUCCESS, Some l) \<and>
    length l = unat n \<and> multi_strings [] l = [p1, p2] \<and>
    CreateFileW h1 True (Some (p1 @ [0])) access OPEN_EXISTING s
      = Inr (Opened (Hid_file h1 (win_hidraw_fd s)), s1) \<and>
    CreateFileW h2 True (Some (p2 @ [0])) access OPEN_EXISTING s1
      = Inr (Opened (Hid_file h2 (win_hidraw_fd_img s)), s2) \<and>
    HidD_GetPreparsedData h1 (Some ppd) s2 = (Some Preparsed_cmd, True) \<and>
    HidD_GetPreparsedData h2 (Some ppd) s2 = (Some Preparsed_img, True)"
proof -
  define w1 w2 where "w1 = butlast (w_str fake_iface_cmd_a)" and "w2 = butlast (w_str fake_iface_img_a)"
  have w: "w_str fake_iface_cmd_a = w1 @ [0]" "w_str fake_iface_img_a = w2 @ [0]"
    using w_str_parts by (simp_all add: w1_def w2_def)
  have n: "unat n = 179" using assms(1,2) by (auto simp: CM_Get_Device_Interface_List_SizeW_def path_lengths)
  have len: "length w1 = 88" "length w2 = 88" using path_lengths w by simp_all
  have list: "CM_Get_Device_Interface_ListW dev_id (Some b) n
      = Inr (CR_SUCCESS, Some ((w1 @ [0]) @ (w2 @ [0]) @ [0] @ []))"
    using assms(1,3) n len by (simp add: CM_Get_Device_Interface_ListW_def put_list_def w Let_def)
  have ne: "w1 \<noteq> []" "w2 \<noteq> []" using len by auto
  have nz: "0 \<notin> set w1" "0 \<notin> set w2"
    using w_str_nonzero[OF ascii_paths(1)] w_str_nonzero[OF ascii_paths(2)] unfolding w1_def w2_def by blast+
  have split: "multi_strings [] ((w1 @ [0]) @ (w2 @ [0]) @ [0] @ []) = [w1, w2]"
    using multi_strings_multi_string[of "[w1, w2]" "[]"] ne nz by (simp add: multi_string_def)
  define s1 where "s1 = hid_register_handle h1 HID_IFACE_CMD s"
  define s2 where "s2 = hid_register_handle h2 HID_IFACE_IMG s1"
  have tab: "hid_handle_table s2 = [(h1, HID_IFACE_CMD), (h2, HID_IFACE_IMG)]"
    and fd: "win_hidraw_fd_img s1 = win_hidraw_fd_img s"
    using assms(4) by (simp_all add: s1_def s2_def hid_register_handle_def MAX_HID_HANDLES_def)
  have "CreateFileW h1 True (Some (w1 @ [0])) access OPEN_EXISTING s
      = Inr (Opened (Hid_file h1 (win_hidraw_fd s)), s1)"
    using open_fake_path[OF ascii_paths(1) assms(8), of s h1] assms(6)
    by (simp add: w s1_def hid_fd_for_path_def hid_iface_for_path_def img_path_fake)
  moreover have "CreateFileW h2 True (Some (w2 @ [0])) access OPEN_EXISTING s1
      = Inr (Opened (Hid_file h2 (win_hidraw_fd_img s)), s2)"
    using open_fake_path[OF ascii_paths(2) assms(8), of s1 h2] assms(7) fd
    by (simp add: w s2_def hid_fd_for_path_def hid_iface_for_path_def img_path_fake)
  moreover have "HidD_GetPreparsedData h1 (Some ppd) s2 = (Some Preparsed_cmd, True)"
      "HidD_GetPreparsedData h2 (Some ppd) s2 = (Some Preparsed_img, True)"
    using tab assms(5) by (simp_all add: HidD_GetPreparsedData_def hid_get_handle_type_def)
  ultimately show ?thesis using list split n len by auto
qed

definition example_hid_dll :: hid_dll where
  "example_hid_dll = \<lparr>hid_handle_table = [], win_hidraw_fd = 4, win_hidraw_fd_img = 5, pass_heartbeats = False,
     img_shared = None, img_monitor_started = False, ioctl_rets = [], ioctl_calls = [],
     hid_input = (\<lambda>_. []), fstat_rdev = (\<lambda>_. None)\<rparr>"

lemma interface_list_opens_both_channels_witness:
  "\<exists>l p1 p2 s1 s2.
    CM_Get_Device_Interface_ListW None (Some (replicate 179 7)) 179 = Inr (CR_SUCCESS, Some l) \<and>
    length l = unat (179 :: u32) \<and> multi_strings [] l = [p1, p2] \<and>
    CreateFileW 100 True (Some (p1 @ [0])) GENERIC_READ OPEN_EXISTING example_hid_dll
      = Inr (Opened (Hid_file 100 (win_hidraw_fd example_hid_dll)), s1) \<and>
    CreateFileW 200 True (Some (p2 @ [0])) GENERIC_READ OPEN_EXISTING s1
      = Inr (Opened (Hid_file 200 (win_hidraw_fd_img example_hid_dll)), s2) \<and>
    HidD_GetPreparsedData 100 (Some Preparsed_other) s2 = (Some Preparsed_cmd, True) \<and>
    HidD_GetPreparsedData 200 (Some Preparsed_other) s2 = (Some Preparsed_img, True)"
  by (rule interface_list_opens_both_channels[where d = None and cr = CR_SUCCESS])
    (simp_all add: winstr_to_str_def winstr_len_def CM_Get_Device_Interface_List_SizeW_def path_lengths
      example_hid_dll_def GENERIC_READ_def GENERIC_WRITE_def)

text \<open>A buffer that is too small for a property is not touched, and the answer is success.\<close>

lemma small_property_buffer:
  "CM_Get_Device_Interface_PropertyW (Some 0) (Some [1, 2, 3, 4]) (Some 4)
    = (CR_SUCCESS, Some DEVPROP_TYPE_STRING, Some [1, 2, 3, 4], Some 62)"
  by (simp add: CM_Get_Device_Interface_PropertyW_def w_str_def char_bytes_def fake_device_id_a_def
      length_concat comp_def)

end
