(* ===== verification/Win_Module.thy ===== *)
theory Win_Module
  imports Device_State Win_Strings
begin

text \<open>
  Modules, handles and the process of the emulated Windows (\<open>libtudor/src/winapi/module.c\<close>,
  \<open>handle.c\<close>, \<open>error.c\<close>, \<open>proc.c\<close>): the doubly linked list of modules with their handles, the dummy
  modules that stand for libraries loaded at run time, module names, the environment block, and what
  the functions about the process answer.  A narrow string is the list of its bytes without the
  terminator.  \<open>last_error\<close> and the current module belong to a thread; there is one here.
\<close>

section \<open>Memory\<close>

text \<open>
  The modules and the handles that are allocated, by address; the data of the handles of this file is
  their module.  \<open>next_addr\<close> is where the next allocation goes.
\<close>

record winmodule =
  mod_prev :: "nat option"
  mod_next :: "nat option"
  mod_handle :: "nat option"
  mod_name :: "byte list option"
  mod_cmdline :: "byte list option"
  mod_environ :: "byte list list"
  mod_image_base :: u64
  mod_image_size :: u64

record win_modules =
  modules_head :: "nat option"
  mod_mem :: "nat \<Rightarrow> winmodule option"
  handle_data :: "nat \<Rightarrow> nat option"
  next_addr :: nat
  cur_module :: "nat option"
  last_error :: u32

definition winerr_clear :: "win_modules \<Rightarrow> win_modules" where
  "winerr_clear s = s\<lparr>last_error := 0\<rparr>"

definition winerr_set_code :: "u32 \<Rightarrow> win_modules \<Rightarrow> win_modules" where
  "winerr_set_code code s = s\<lparr>last_error := code\<rparr>"

definition winerr_set :: "win_modules \<Rightarrow> win_modules" where
  "winerr_set s = winerr_set_code WINERR_SET_CODE s"

definition winerr_set_errno :: "u32 \<Rightarrow> win_modules \<Rightarrow> win_modules" where
  "winerr_set_errno errno s = s\<lparr>last_error := errno\<rparr>"

definition GetLastError :: "win_modules \<Rightarrow> u32" where
  "GetLastError s = last_error s"

definition SetLastError :: "u32 \<Rightarrow> win_modules \<Rightarrow> win_modules" where
  "SetLastError err s = s\<lparr>last_error := err\<rparr>"

definition get_mod :: "nat \<Rightarrow> win_modules \<Rightarrow> winmodule result" where
  "get_mod a s = (case mod_mem s a of None \<Rightarrow> Inl Fault | Some m \<Rightarrow> Inr m)"

definition set_mod :: "nat \<Rightarrow> (winmodule \<Rightarrow> winmodule) \<Rightarrow> win_modules \<Rightarrow> win_modules result" where
  "set_mod a f s = res_bind (get_mod a s) (\<lambda>m. Inr (s\<lparr>mod_mem := (mod_mem s)(a \<mapsto> f m)\<rparr>))"

section \<open>Handles\<close>

text \<open>Taking a module out of the list, as \<open>winmodule_unregister\<close> does it at its end.\<close>

definition unlink_module :: "nat \<Rightarrow> win_modules \<Rightarrow> win_modules result" where
  "unlink_module a s =
     res_bind (get_mod a s) (\<lambda>m.
     res_bind (case mod_prev m of
                 Some p \<Rightarrow> set_mod p (\<lambda>x. x\<lparr>mod_next := mod_next m\<rparr>) s
               | None \<Rightarrow> Inr (s\<lparr>modules_head := mod_next m\<rparr>)) (\<lambda>s1.
     case mod_next m of
       Some n \<Rightarrow> set_mod n (\<lambda>x. x\<lparr>mod_prev := mod_prev m\<rparr>) s1
     | None \<Rightarrow> Inr s1))"

text \<open>
  The destructor of a module's handle.  The modules that come with the program stay; a dummy module
  leaves the list and is freed.  It has no handle any more, so \<open>winmodule_unregister\<close> does not come
  back here, but it takes \<open>modules_lock\<close>: a thread that has the lock already (\<open>locked\<close>) gets an error
  from the C library, which ends the process.
\<close>

definition module_destr :: "bool \<Rightarrow> nat \<Rightarrow> win_modules \<Rightarrow> win_modules result" where
  "module_destr locked a s =
     res_bind (set_mod a (\<lambda>m. m\<lparr>mod_handle := None\<rparr>) s) (\<lambda>s1.
     res_bind (get_mod a s1) (\<lambda>m.
       if mod_cmdline m \<noteq> None then Inr s1
       else if locked then Inl Abort
       else res_bind (unlink_module a s1) (\<lambda>s2. Inr (s2\<lparr>mod_mem := (mod_mem s2)(a := None)\<rparr>))))"

definition winhandle_create :: "nat \<Rightarrow> win_modules \<Rightarrow> nat \<times> win_modules" where
  "winhandle_create d s =
     (next_addr s, s\<lparr>handle_data := (handle_data s)(next_addr s \<mapsto> d), next_addr := Suc (next_addr s)\<rparr>)"

definition winhandle_destroy :: "bool \<Rightarrow> nat option \<Rightarrow> win_modules \<Rightarrow> win_modules result" where
  "winhandle_destroy locked handle s =
     (case handle of
        None \<Rightarrow> Inr s
      | Some h \<Rightarrow>
          (case handle_data s h of
             None \<Rightarrow> Inl Fault
           | Some d \<Rightarrow> res_bind (module_destr locked d s) (\<lambda>s1.
               Inr (s1\<lparr>handle_data := (handle_data s1)(h := None)\<rparr>))))"

definition CloseHandle :: "nat option \<Rightarrow> win_modules \<Rightarrow> win_modules result" where
  "CloseHandle handle s = winhandle_destroy False handle s"

datatype std_handle = Std_null | Std_invalid

definition GetStdHandle :: "u32 \<Rightarrow> std_handle" where
  "GetStdHandle ty = (if ty = - 10 \<or> ty = - 11 \<or> ty = - 12 then Std_null else Std_invalid)"

section \<open>The list of modules\<close>

definition winmodule_register :: "nat \<Rightarrow> win_modules \<Rightarrow> win_modules result" where
  "winmodule_register a s =
     (case winhandle_create a s of
        (h, s1) \<Rightarrow>
          res_bind (set_mod a (\<lambda>m. m\<lparr>mod_handle := Some h, mod_prev := None, mod_next := modules_head s1\<rparr>) s1) (\<lambda>s2.
          res_bind (case modules_head s2 of
                      Some q \<Rightarrow> set_mod q (\<lambda>x. x\<lparr>mod_prev := Some a\<rparr>) s2
                    | None \<Rightarrow> Inr s2) (\<lambda>s3.
          Inr (s3\<lparr>modules_head := Some a\<rparr>))))"

definition winmodule_unregister :: "nat \<Rightarrow> win_modules \<Rightarrow> win_modules result" where
  "winmodule_unregister a s =
     res_bind (get_mod a s) (\<lambda>m.
     res_bind (case mod_handle m of
                 None \<Rightarrow> Inr s
               | Some h \<Rightarrow> res_bind (winhandle_destroy True (Some h) s) (\<lambda>s1.
                   set_mod a (\<lambda>x. x\<lparr>mod_handle := None\<rparr>) s1)) (\<lambda>s2.
     unlink_module a s2))"

text \<open>The searches, along \<open>next\<close>: a cycle is a search that does not return.\<close>

partial_function (option) find_module ::
  "(winmodule \<Rightarrow> bool result) \<Rightarrow> (nat \<Rightarrow> winmodule option) \<Rightarrow> nat option \<Rightarrow> nat option result option" where
  "find_module test mem p =
     (case p of
        None \<Rightarrow> Some (Inr None)
      | Some a \<Rightarrow>
          (case mem a of
             None \<Rightarrow> Some (Inl Fault)
           | Some m \<Rightarrow>
               (case test m of
                  Inl e \<Rightarrow> Some (Inl e)
                | Inr b \<Rightarrow> if b then Some (Inr (Some a)) else find_module test mem (mod_next m))))"

definition returned :: "'a result option \<Rightarrow> 'a result" where
  "returned r = (case r of None \<Rightarrow> Inl Hang | Some x \<Rightarrow> x)"

text \<open>\<open>strcmp\<close> with a NULL argument faults.\<close>

definition has_name :: "byte list option \<Rightarrow> winmodule \<Rightarrow> bool result" where
  "has_name name m =
     (case (mod_name m, name) of (Some x, Some y) \<Rightarrow> Inr (x = y) | _ \<Rightarrow> Inl Fault)"

definition winmodule_find :: "byte list option \<Rightarrow> win_modules \<Rightarrow> nat option result" where
  "winmodule_find name s = returned (find_module (has_name name) (mod_mem s) (modules_head s))"

definition covers_addr :: "u64 \<Rightarrow> winmodule \<Rightarrow> bool result" where
  "covers_addr addr m =
     Inr (mod_image_base m \<noteq> 0 \<and> 0 < mod_image_size m \<and>
          mod_image_base m \<le> addr \<and> addr < mod_image_base m + mod_image_size m)"

definition winmodule_find_by_addr :: "u64 \<Rightarrow> win_modules \<Rightarrow> nat option result" where
  "winmodule_find_by_addr addr s = returned (find_module (covers_addr addr) (mod_mem s) (modules_head s))"

definition winmodule_get_cur :: "win_modules \<Rightarrow> nat option" where
  "winmodule_get_cur s = cur_module s"

definition winmodule_set_cur :: "nat option \<Rightarrow> win_modules \<Rightarrow> win_modules" where
  "winmodule_set_cur a s = s\<lparr>cur_module := a\<rparr>"

section \<open>Libraries\<close>

definition dummy_module :: "byte list option \<Rightarrow> winmodule" where
  "dummy_module name =
     \<lparr>mod_prev = None, mod_next = None, mod_handle = None, mod_name = name, mod_cmdline = None,
      mod_environ = [], mod_image_base = 0, mod_image_size = 0\<rparr>"

definition load_dummy :: "byte list option \<Rightarrow> win_modules \<Rightarrow> (nat option \<times> win_modules) result" where
  "load_dummy name s =
     (let a = next_addr s;
          s1 = s\<lparr>mod_mem := (mod_mem s)(a \<mapsto> dummy_module name), next_addr := Suc a\<rparr>
      in res_bind (winmodule_register a s1) (\<lambda>s2.
         res_bind (get_mod a s2) (\<lambda>m. Inr (mod_handle m, s2))))"

definition w_name :: "u16 list option \<Rightarrow> byte list option result" where
  "w_name name = res_bind (winstr_to_str name) (\<lambda>n. Inr (map_option char_bytes n))"

definition LoadLibraryExW :: "u16 list option \<Rightarrow> win_modules \<Rightarrow> (nat option \<times> win_modules) result" where
  "LoadLibraryExW name s = res_bind (w_name name) (\<lambda>n. load_dummy n s)"

definition LoadLibraryA :: "byte list option \<Rightarrow> win_modules \<Rightarrow> (nat option \<times> win_modules) result" where
  "LoadLibraryA name s = (if name = None then Inl Fault else load_dummy name s)"

definition FreeLibrary :: "nat option \<Rightarrow> win_modules \<Rightarrow> win_modules result" where
  "FreeLibrary handle s = winhandle_destroy False handle s"

definition handle_of :: "nat option \<Rightarrow> win_modules \<Rightarrow> nat option result" where
  "handle_of m s = (case m of None \<Rightarrow> Inr None | Some a \<Rightarrow> res_bind (get_mod a s) (\<lambda>x. Inr (mod_handle x)))"

definition GetModuleHandleA :: "byte list option \<Rightarrow> win_modules \<Rightarrow> nat option result" where
  "GetModuleHandleA name s =
     (if name = None then handle_of (winmodule_get_cur s) s
      else res_bind (winmodule_find name s) (\<lambda>m. handle_of m s))"

definition GetModuleHandleW :: "u16 list option \<Rightarrow> win_modules \<Rightarrow> nat option result" where
  "GetModuleHandleW name s =
     (if name = None then handle_of (winmodule_get_cur s) s
      else res_bind (w_name name) (\<lambda>n. res_bind (winmodule_find n s) (\<lambda>m. handle_of m s)))"

definition GET_MODULE_HANDLE_EX_FLAG_FROM_ADDRESS :: u32 where
  "GET_MODULE_HANDLE_EX_FLAG_FROM_ADDRESS = 4"

text \<open>\<open>name\<close> is a string or an address; the result is the value of \<open>*out\<close> when it is written.\<close>

definition GetModuleHandleExW :: "u32 \<Rightarrow> u16 list option \<Rightarrow> u64 \<Rightarrow> win_modules
    \<Rightarrow> (bool \<times> nat option option) result" where
  "GetModuleHandleExW flags name addr s =
     (if flags AND GET_MODULE_HANDLE_EX_FLAG_FROM_ADDRESS \<noteq> 0
      then res_bind (winmodule_find_by_addr addr s) (\<lambda>m.
             res_bind (handle_of m s) (\<lambda>h. Inr (m \<noteq> None, Some h)))
      else res_bind (w_name name) (\<lambda>n. res_bind (winmodule_find n s) (\<lambda>m.
             res_bind (handle_of m s) (\<lambda>h. Inr (m \<noteq> None, if m = None then None else Some h)))))"

text \<open>The module a handle stands for, with the current one for NULL.\<close>

definition module_of :: "nat option \<Rightarrow> win_modules \<Rightarrow> winmodule result" where
  "module_of handle s =
     (case (case handle of None \<Rightarrow> cur_module s | Some h \<Rightarrow> handle_data s h) of
        None \<Rightarrow> Inl Fault
      | Some a \<Rightarrow> get_mod a s)"

definition ERROR_INSUFFICIENT_BUFFER :: u32 where "ERROR_INSUFFICIENT_BUFFER = 122"

text \<open>A copy from one buffer to the start of another.\<close>

definition copy_to :: "'a list \<Rightarrow> 'a list \<Rightarrow> nat \<Rightarrow> 'a list result" where
  "copy_to dst src n =
     (if n \<le> length src \<and> n \<le> length dst then Inr (take n src @ drop n dst) else Inl Fault)"

text \<open>A name that is cut short has no terminator: the copy takes one character more than the result.\<close>

definition GetModuleFileNameA :: "nat option \<Rightarrow> byte list \<Rightarrow> u32 \<Rightarrow> win_modules
    \<Rightarrow> (u32 \<times> byte list \<times> win_modules) result" where
  "GetModuleFileNameA handle buf sz s =
     res_bind (module_of handle s) (\<lambda>m.
     case mod_name m of
       None \<Rightarrow> Inl Fault
     | Some name \<Rightarrow>
         let n = length name; mem = name @ [0] in
         if sz = 0 then Inr (0, buf, winerr_set_code ERROR_INSUFFICIENT_BUFFER s)
         else if n + 1 \<le> unat sz
           then res_bind (copy_to buf mem (n + 1)) (\<lambda>b. Inr (of_nat n, b, winerr_clear s))
         else res_bind (copy_to buf mem (unat sz)) (\<lambda>b.
                Inr (sz - 1, b, winerr_set_code ERROR_INSUFFICIENT_BUFFER s)))"

text \<open>
  The size is taken as a number of bytes; for one byte the length becomes \<open>-1\<close> and the copy empty.
\<close>

definition GetModuleFileNameW :: "nat option \<Rightarrow> u16 list \<Rightarrow> u32 \<Rightarrow> win_modules
    \<Rightarrow> (u32 \<times> u16 list \<times> win_modules) result" where
  "GetModuleFileNameW handle buf sz s =
     res_bind (module_of handle s) (\<lambda>m.
     res_bind (winstr_from_str (mod_name m)) (\<lambda>wname.
     res_bind (winstr_len wname) (\<lambda>n.
       if sz = 0 then Inr (0, buf, winerr_set_code ERROR_INSUFFICIENT_BUFFER s)
       else if n + 1 \<le> unat sz div 2
         then res_bind (copy_to buf (case wname of None \<Rightarrow> [] | Some w \<Rightarrow> w) (n + 1)) (\<lambda>b. Inr (of_nat n, b, winerr_clear s))
       else res_bind (copy_to buf (case wname of None \<Rightarrow> [] | Some w \<Rightarrow> w) (unat sz div 2)) (\<lambda>b.
              Inr (of_nat (unat sz div 2) - 1, b, winerr_set_code ERROR_INSUFFICIENT_BUFFER s)))))"

text \<open>
  The API table (\<open>api.c\<close>): the last function that was registered under a name wins.  A pointer below
  \<open>128 << 8\<close> is taken for an ordinal.
\<close>

type_synonym winapi_descr = "byte list \<times> nat"

definition register_windows_api :: "winapi_descr \<Rightarrow> winapi_descr list \<Rightarrow> winapi_descr list" where
  "register_windows_api descr descrs = descr # descrs"

fun resolve_windows_api :: "winapi_descr list \<Rightarrow> byte list \<Rightarrow> nat option" where
  "resolve_windows_api [] name = None"
| "resolve_windows_api (d # ds) name = (if fst d = name then Some (snd d) else resolve_windows_api ds name)"

definition GetProcAddress :: "winapi_descr list \<Rightarrow> (u64 \<Rightarrow> byte list) \<Rightarrow> nat option \<Rightarrow> u64 \<Rightarrow> win_modules
    \<Rightarrow> (nat option \<times> win_modules) result" where
  "GetProcAddress descrs str_at handle name s =
     (case handle of
        None \<Rightarrow> Inl Fault
      | Some h \<Rightarrow>
          (case handle_data s h of
             None \<Rightarrow> Inl Fault
           | Some a \<Rightarrow>
               if name AND NOT (push_bit 8 128 - 1) = 0
               then res_bind (get_mod a s) (\<lambda>m. Inr (None, s))
               else case resolve_windows_api descrs (str_at name) of
                      None \<Rightarrow> Inr (None, winerr_set s)
                    | Some f \<Rightarrow> Inr (Some f, s)))"

section \<open>The list of modules refines a list\<close>

text \<open>A segment of the list from \<open>p\<close> to before \<open>q\<close>; \<open>last\<close> is its last module, or the one before it.\<close>

fun dlseg :: "(nat \<Rightarrow> winmodule option) \<Rightarrow> nat option \<Rightarrow> nat option \<Rightarrow> nat list
    \<Rightarrow> nat option \<Rightarrow> nat option \<Rightarrow> bool" where
  "dlseg mem prev p [] l q \<longleftrightarrow> p = q \<and> prev = l"
| "dlseg mem prev p (x # xs) l q \<longleftrightarrow> p = Some x \<and>
     (case mem x of None \<Rightarrow> False | Some m \<Rightarrow> mod_prev m = prev \<and> dlseg mem (Some x) (mod_next m) xs l q)"

lemma dlseg_append:
  "dlseg mem prev p (xs @ ys) l q \<longleftrightarrow> (\<exists>k r. dlseg mem prev p xs k r \<and> dlseg mem k r ys l q)"
  by (induction xs arbitrary: prev p) (auto split: option.splits)

lemma dlseg_cong:
  "\<forall>x \<in> set xs. mem' x = mem x \<Longrightarrow> dlseg mem' prev p xs l q = dlseg mem prev p xs l q"
  by (induction xs arbitrary: prev p) (auto split: option.splits)

lemma dlseg_snoc:
  "dlseg mem prev p (xs @ [b]) l q \<longleftrightarrow>
     l = Some b \<and> (\<exists>k m. dlseg mem prev p xs k (Some b) \<and> mem b = Some m \<and> mod_prev m = k \<and> mod_next m = q)"
  by (auto simp: dlseg_append split: option.splits)

lemma dlseg_last:
  "dlseg mem prev p xs l q \<Longrightarrow> l = (if xs = [] then prev else Some (last xs))"
  by (induction xs arbitrary: prev p) (auto split: option.splits)

lemma dlseg_first: "dlseg mem prev p xs l q \<Longrightarrow> p = (case xs of [] \<Rightarrow> q | x # _ \<Rightarrow> Some x)"
  by (cases xs) auto

lemma dlseg_present: "dlseg mem prev p xs l q \<Longrightarrow> x \<in> set xs \<Longrightarrow> mem x \<noteq> None"
  by (induction xs arbitrary: prev p) (auto split: option.splits)

text \<open>Changing the end of a segment and the start of one.\<close>

lemma dlseg_set_next:
  assumes "dlseg mem prev p (xs @ [b]) l q" and "distinct (xs @ [b])"
  shows "dlseg (mem(b \<mapsto> (the (mem b))\<lparr>mod_next := r\<rparr>)) prev p (xs @ [b]) l r"
proof -
  from assms(1) obtain k m where k: "l = Some b" "dlseg mem prev p xs k (Some b)" "mem b = Some m" "mod_prev m = k"
    by (auto simp: dlseg_snoc)
  have "dlseg (mem(b \<mapsto> (the (mem b))\<lparr>mod_next := r\<rparr>)) prev p xs k (Some b)"
    using k(2) by (subst dlseg_cong[where mem = mem]) (use assms(2) in auto)
  then show ?thesis using k by (auto simp: dlseg_snoc)
qed

lemma dlseg_set_prev:
  assumes "dlseg mem prev p (c # xs) l q" and "c \<notin> set xs"
  shows "dlseg (mem(c \<mapsto> (the (mem c))\<lparr>mod_prev := r\<rparr>)) r p (c # xs) l q"
proof -
  from assms(1) obtain m where m: "mem c = Some m" "p = Some c" "dlseg mem (Some c) (mod_next m) xs l q"
    by (auto split: option.splits)
  have "dlseg (mem(c \<mapsto> (the (mem c))\<lparr>mod_prev := r\<rparr>)) (Some c) (mod_next m) xs l q"
    using m(3) by (subst dlseg_cong[where mem = mem]) (use assms(2) in auto)
  then show ?thesis using m by simp
qed

text \<open>What a module is apart from its links.\<close>

definition payload :: "winmodule \<Rightarrow> winmodule" where
  "payload m = m\<lparr>mod_prev := None, mod_next := None\<rparr>"

lemma unlink_module_ok:
  assumes "dlseg (mod_mem s) None (modules_head s) (ys @ a # zs) l None" and "distinct (ys @ a # zs)"
  shows "\<exists>mem' h'. unlink_module a s = Inr (s\<lparr>mod_mem := mem', modules_head := h'\<rparr>) \<and>
    (\<exists>l'. dlseg mem' None h' (ys @ zs) l' None) \<and> mem' a = mod_mem s a \<and>
    (\<forall>x. map_option payload (mem' x) = map_option payload (mod_mem s x))"
proof -
  define mem where "mem = mod_mem s"
  from assms(1) obtain k r where s1: "dlseg mem None (modules_head s) ys k r" "dlseg mem k r (a # zs) l None"
    unfolding dlseg_append mem_def by blast
  then obtain m where m: "mem a = Some m" "r = Some a" "mod_prev m = k" "dlseg mem (Some a) (mod_next m) zs l None"
    by (auto split: option.splits)
  have k: "k = (if ys = [] then None else Some (last ys))" using dlseg_last[OF s1(1)] by simp
  have n: "mod_next m = (case zs of [] \<Rightarrow> None | z # _ \<Rightarrow> Some z)" using dlseg_first[OF m(4)] .
  \<comment> \<open>the part before\<close>
  define mem1 where "mem1 = (if ys = [] then mem else mem(last ys \<mapsto> (the (mem (last ys)))\<lparr>mod_next := mod_next m\<rparr>))"
  define h1 where "h1 = (if ys = [] then mod_next m else modules_head s)"
  have ly: "ys \<noteq> [] \<Longrightarrow> mem (last ys) \<noteq> None" using dlseg_present[OF s1(1)] last_in_set by blast
  have seg1: "dlseg mem1 None h1 ys k (mod_next m)"
  proof (cases ys rule: rev_cases)
    case Nil
    then show ?thesis using k by (simp add: h1_def)
  next
    case (snoc us b)
    have "dlseg (mem(b \<mapsto> (the (mem b))\<lparr>mod_next := mod_next m\<rparr>)) None (modules_head s) (us @ [b]) k (mod_next m)"
      by (rule dlseg_set_next) (use s1(1) assms(2) snoc in auto)
    then show ?thesis using snoc by (simp add: mem1_def h1_def)
  qed
  have step1: "(case mod_prev m of
        Some p \<Rightarrow> set_mod p (\<lambda>x. x\<lparr>mod_next := mod_next m\<rparr>) s
      | None \<Rightarrow> Inr (s\<lparr>modules_head := mod_next m\<rparr>)) = Inr (s\<lparr>mod_mem := mem1, modules_head := h1\<rparr>)"
    using m(3) k ly by (auto simp: set_mod_def get_mod_def mem1_def h1_def mem_def)
  have ly_in: "ys \<noteq> [] \<Longrightarrow> last ys \<notin> set (a # zs)" using assms(2) last_in_set[of ys] by (auto simp: disjoint_iff)
  have seg2: "dlseg mem1 (Some a) (mod_next m) zs l None"
    by (subst dlseg_cong[where mem = mem]) (use m(4) ly_in in \<open>auto simp: mem1_def\<close>)
  have pay1: "map_option payload (mem1 x) = map_option payload (mem x)" for x
    using ly by (auto simp: mem1_def payload_def)
  have a1: "mem1 a = mem a" using ly_in by (auto simp: mem1_def)
  \<comment> \<open>the part after\<close>
  show ?thesis
  proof (cases zs)
    case Nil
    have "unlink_module a s = Inr (s\<lparr>mod_mem := mem1, modules_head := h1\<rparr>)"
      using m(1) n Nil by (simp add: unlink_module_def get_mod_def step1 mem_def[symmetric])
    moreover have "dlseg mem1 None h1 (ys @ zs) k None" using seg1 n Nil by simp
    ultimately show ?thesis using pay1 a1 unfolding mem_def by blast
  next
    case (Cons c cs)
    define mem2 where "mem2 = mem1(c \<mapsto> (the (mem1 c))\<lparr>mod_prev := k\<rparr>)"
    have c: "mem1 c \<noteq> None" using dlseg_present[OF seg2] Cons by auto
    have "unlink_module a s = Inr (s\<lparr>mod_mem := mem2, modules_head := h1\<rparr>)"
      using m(1,3) n Cons c by (auto simp: unlink_module_def get_mod_def set_mod_def step1 mem_def[symmetric] mem2_def)
    moreover have "\<exists>l'. dlseg mem2 None h1 (ys @ zs) l' None"
    proof -
      have "dlseg mem2 k (mod_next m) zs l None"
        unfolding Cons mem2_def by (rule dlseg_set_prev) (use seg2 assms(2) Cons in auto)
      moreover have "dlseg mem2 None h1 ys k (mod_next m)"
        by (subst dlseg_cong[where mem = mem1]) (use seg1 assms(2) Cons in \<open>auto simp: mem2_def\<close>)
      ultimately show ?thesis unfolding dlseg_append by blast
    qed
    moreover have "map_option payload (mem2 x) = map_option payload (mem x)" for x
    proof -
      have "map_option payload (mem2 x) = map_option payload (mem1 x)"
        using c by (auto simp: mem2_def payload_def)
      then show ?thesis using pay1 by simp
    qed
    moreover have "mem2 a = mem a" using a1 assms(2) Cons by (auto simp: mem2_def)
    ultimately show ?thesis unfolding mem_def by blast
  qed
qed

text \<open>Searching is searching the list.\<close>

lemma find_module_dlseg:
  assumes "dlseg mem prev p xs l None" and "\<forall>x \<in> set xs. \<exists>b. test (the (mem x)) = Inr b"
  shows "find_module test mem p = Some (Inr (List.find (\<lambda>x. test (the (mem x)) = Inr True) xs))"
  using assms
proof (induction xs arbitrary: prev p)
  case Nil
  then show ?case by (simp add: find_module.simps)
next
  case (Cons x xs)
  from Cons.prems(1) obtain m where m: "p = Some x" "mem x = Some m" "dlseg mem (Some x) (mod_next m) xs l None"
    by (auto split: option.splits)
  from Cons.prems(2) m(2) obtain b where b: "test m = Inr b" by auto
  have ih: "find_module test mem (mod_next m) = Some (Inr (List.find (\<lambda>x. test (the (mem x)) = Inr True) xs))"
    by (rule Cons.IH[OF m(3)]) (use Cons.prems(2) in auto)
  show ?case using m b ih by (subst find_module.simps) (cases b, auto)
qed

text \<open>
  The registry: the modules of the list \<open>xs\<close> are linked, have names, and each handle belongs to the
  module that has it.
\<close>

definition registry :: "win_modules \<Rightarrow> nat list \<Rightarrow> bool" where
  "registry s xs \<longleftrightarrow> distinct xs \<and> (\<exists>l. dlseg (mod_mem s) None (modules_head s) xs l None) \<and>
     (\<forall>a \<in> set xs. a < next_addr s \<and> mod_name (the (mod_mem s a)) \<noteq> None \<and>
        (\<forall>h. mod_handle (the (mod_mem s a)) = Some h \<longrightarrow> handle_data s h = Some a)) \<and>
     (\<forall>h a. handle_data s h = Some a \<longrightarrow>
        h < next_addr s \<and> a \<in> set xs \<and> mod_handle (the (mod_mem s a)) = Some h)"

record mod_entry =
  en_name :: "byte list"
  en_handle :: "nat option"
  en_static :: bool

definition entry_of :: "winmodule \<Rightarrow> mod_entry" where
  "entry_of m = \<lparr>en_name = the (mod_name m), en_handle = mod_handle m, en_static = (mod_cmdline m \<noteq> None)\<rparr>"

definition entries :: "win_modules \<Rightarrow> nat list \<Rightarrow> mod_entry list" where
  "entries s xs = map (\<lambda>a. entry_of (the (mod_mem s a))) xs"

lemma entry_of_payload: "payload m = payload m' \<Longrightarrow> entry_of m = entry_of m'"
  by (cases m; cases m') (simp add: payload_def entry_of_def)

text \<open>The specification: a list of entries, and a counter for the handles.\<close>

datatype mod_op = Load "byte list" | Free nat | Look "byte list"

definition free_entry :: "nat \<Rightarrow> mod_entry list \<Rightarrow> mod_entry list" where
  "free_entry h A = map (\<lambda>e. if en_handle e = Some h then e\<lparr>en_handle := None\<rparr> else e)
     (filter (\<lambda>e. en_handle e = Some h \<longrightarrow> en_static e) A)"

definition lookup_entry :: "byte list \<Rightarrow> mod_entry list \<Rightarrow> nat option" where
  "lookup_entry name A = (case List.find (\<lambda>e. en_name e = name) A of None \<Rightarrow> None | Some e \<Rightarrow> en_handle e)"

fun spec_do :: "mod_op \<Rightarrow> mod_entry list \<times> nat \<Rightarrow> nat option \<times> mod_entry list \<times> nat" where
  "spec_do (Load name) (A, n) =
     (Some (Suc n), \<lparr>en_name = name, en_handle = Some (Suc n), en_static = False\<rparr> # A, Suc (Suc n))"
| "spec_do (Free h) (A, n) = (None, free_entry h A, n)"
| "spec_do (Look name) (A, n) = (lookup_entry name A, A, n)"

fun mod_do :: "mod_op \<Rightarrow> win_modules \<Rightarrow> (nat option \<times> win_modules) result" where
  "mod_do (Load name) s = LoadLibraryA (Some name) s"
| "mod_do (Free h) s = res_bind (FreeLibrary (Some h) s) (\<lambda>s1. Inr (None, s1))"
| "mod_do (Look name) s = res_bind (GetModuleHandleA (Some name) s) (\<lambda>h. Inr (h, s))"

definition op_ok :: "mod_op \<Rightarrow> mod_entry list \<Rightarrow> bool" where
  "op_ok op A = (case op of Free h \<Rightarrow> Some h \<in> en_handle ` set A | _ \<Rightarrow> True)"

lemma registry_handle:
  "registry s xs \<Longrightarrow> a \<in> set xs \<Longrightarrow> mod_handle (the (mod_mem s a)) = Some h \<longleftrightarrow> handle_data s h = Some a"
  unfolding registry_def by blast

lemma registry_named: "registry s xs \<Longrightarrow> a \<in> set xs \<Longrightarrow> mod_name (the (mod_mem s a)) \<noteq> None"
  unfolding registry_def by blast

lemma registry_below: "registry s xs \<Longrightarrow> a \<in> set xs \<Longrightarrow> a < next_addr s"
  unfolding registry_def by blast

lemma registryI:
  assumes "dlseg (mod_mem s) None (modules_head s) xs l None" and "distinct xs"
    and "\<And>a. a \<in> set xs \<Longrightarrow> a < next_addr s"
    and "\<And>a. a \<in> set xs \<Longrightarrow> mod_name (the (mod_mem s a)) \<noteq> None"
    and "\<And>a h. a \<in> set xs \<Longrightarrow> handle_data s h = Some a \<longleftrightarrow> mod_handle (the (mod_mem s a)) = Some h"
    and "\<And>h a. handle_data s h = Some a \<Longrightarrow> h < next_addr s \<and> a \<in> set xs"
  shows "registry s xs"
  unfolding registry_def using assms by blast

lemma load_refines:
  assumes "registry s xs"
  shows "\<exists>s'. LoadLibraryA (Some name) s = Inr (Some (Suc (next_addr s)), s') \<and>
    registry s' (next_addr s # xs) \<and> next_addr s' = Suc (Suc (next_addr s)) \<and>
    entries s' (next_addr s # xs) =
      \<lparr>en_name = name, en_handle = Some (Suc (next_addr s)), en_static = False\<rparr> # entries s xs"
proof -
  define a where "a = next_addr s"
  obtain l where seg: "dlseg (mod_mem s) None (modules_head s) xs l None" and d: "distinct xs"
    and below: "\<And>x. x \<in> set xs \<Longrightarrow> x < a"
    using assms unfolding registry_def a_def by blast
  have hd: "modules_head s = (case xs of [] \<Rightarrow> None | x # _ \<Rightarrow> Some x)" using dlseg_first[OF seg] .
  define new where "new = (dummy_module (Some name))\<lparr>mod_handle := Some (Suc a), mod_next := modules_head s\<rparr>"
  define mem1 where "mem1 = (mod_mem s)(a \<mapsto> new)"
  define mem2 where "mem2 = (case xs of [] \<Rightarrow> mem1 | x # _ \<Rightarrow> mem1(x \<mapsto> (the (mem1 x))\<lparr>mod_prev := Some a\<rparr>))"
  define s' where "s' = s\<lparr>handle_data := (handle_data s)(Suc a \<mapsto> a), next_addr := Suc (Suc a), mod_mem := mem2,
      modules_head := Some a\<rparr>"
  have a: "a \<notin> set xs" using below by blast
  have seg1: "dlseg mem1 None (modules_head s) xs l None"
    by (subst dlseg_cong[where mem = "mod_mem s"]) (use seg a in \<open>auto simp: mem1_def\<close>)
  have seg2: "dlseg mem2 (Some a) (modules_head s) xs (if xs = [] then Some a else l) None"
  proof (cases xs)
    case Nil
    then show ?thesis using hd by simp
  next
    case (Cons x ys)
    then show ?thesis using dlseg_set_prev[of mem1 None _ x ys l None "Some a"] seg1 d hd
      by (simp add: mem2_def)
  qed
  have x: "xs = x # ys \<Longrightarrow> mem1 x \<noteq> None" for x ys using dlseg_present[OF seg1] by auto
  have new2: "mem2 a = Some new" using a by (auto simp: mem2_def mem1_def split: list.splits)
  have old: "map_option payload (mem2 y) = map_option payload (mod_mem s y)" if "y \<noteq> a" for y
    using that x by (auto simp: mem2_def mem1_def payload_def split: list.splits)
  let ?t = "s\<lparr>handle_data := (handle_data s)(Suc a \<mapsto> a), next_addr := Suc (Suc a), mod_mem := mem1\<rparr>"
  have neweq: "(dummy_module (Some name))\<lparr>mod_handle := Some (Suc a), mod_prev := None, mod_next := modules_head s\<rparr> = new"
    by (simp add: new_def dummy_module_def)
  have link: "(case modules_head ?t of Some q \<Rightarrow> set_mod q (\<lambda>x. x\<lparr>mod_prev := Some a\<rparr>) ?t | None \<Rightarrow> Inr ?t)
      = Inr (?t\<lparr>mod_mem := mem2\<rparr>)"
    using x hd by (cases xs) (auto simp: set_mod_def get_mod_def mem2_def)
  have "winmodule_register a (s\<lparr>mod_mem := (mod_mem s)(a \<mapsto> dummy_module (Some name)), next_addr := Suc a\<rparr>)
      = Inr s'"
    using link
    by (simp add: winmodule_register_def winhandle_create_def set_mod_def[of a] get_mod_def neweq mem1_def[symmetric] s'_def)
  then have "LoadLibraryA (Some name) s = Inr (Some (Suc a), s')"
    using new2 by (simp add: LoadLibraryA_def load_dummy_def Let_def a_def[symmetric] get_mod_def)
      (simp add: s'_def new_def)
  moreover have same: "mod_name (the (mem2 y)) = mod_name (the (mod_mem s y)) \<and>
      mod_handle (the (mem2 y)) = mod_handle (the (mod_mem s y)) \<and>
      entry_of (the (mem2 y)) = entry_of (the (mod_mem s y))" if "y \<in> set xs" for y
  proof -
    obtain m where m: "mod_mem s y = Some m" using dlseg_present[OF seg, of y] \<open>y \<in> set xs\<close> by blast
    have "y \<noteq> a" using \<open>y \<in> set xs\<close> a by blast
    then obtain m' where "mem2 y = Some m'" "payload m' = payload m"
      using old[of y] m by (cases "mem2 y") auto
    then show ?thesis using m by (cases m; cases m') (simp add: payload_def entry_of_def)
  qed
  moreover have "registry s' (a # xs)"
  proof (rule registryI)
    show "dlseg (mod_mem s') None (modules_head s') (a # xs) (if xs = [] then Some a else l) None"
      using seg2 new2 by (simp add: s'_def new_def dummy_module_def)
    show "y < next_addr s'" if "y \<in> set (a # xs)" for y
      using that below[of y] by (auto simp: s'_def)
    show "mod_name (the (mod_mem s' y)) \<noteq> None" if "y \<in> set (a # xs)" for y
      using that new2 same[of y] registry_named[OF assms, of y]
      by (cases "y = a") (simp_all add: s'_def new_def dummy_module_def)
    show "handle_data s' h = Some y \<longleftrightarrow> mod_handle (the (mod_mem s' y)) = Some h" if "y \<in> set (a # xs)" for y h
    proof (cases "y = a")
      case True
      have "handle_data s h \<noteq> Some a" using assms a unfolding registry_def by blast
      then show ?thesis using True new2 by (auto simp: s'_def new_def dummy_module_def)
    next
      case False
      then have y: "y \<in> set xs" using that by simp
      have "handle_data s (Suc a) \<noteq> Some y"
        using assms unfolding registry_def a_def by (metis Suc_n_not_le_n less_imp_le)
      then show ?thesis using False same[OF y] registry_handle[OF assms y, of h] by (auto simp: s'_def)
    qed
    show "h < next_addr s' \<and> y \<in> set (a # xs)" if "handle_data s' h = Some y" for h y
    proof (cases "h = Suc a")
      case False
      then have "handle_data s h = Some y" using that by (simp add: s'_def)
      then have "h < a \<and> y \<in> set xs" using assms unfolding registry_def a_def by blast
      then show ?thesis by (simp add: s'_def)
    qed (use that in \<open>simp add: s'_def\<close>)
  qed (use a d in simp)
  moreover have "entries s' (a # xs) = \<lparr>en_name = name, en_handle = Some (Suc a), en_static = False\<rparr> # entries s xs"
    using new2 same by (simp add: entries_def s'_def entry_of_def new_def dummy_module_def)
  ultimately show ?thesis
    using \<open>LoadLibraryA (Some name) s = Inr (Some (Suc a), s')\<close> by (auto simp: a_def[symmetric] s'_def)
qed

lemma look_refines:
  assumes "registry s xs"
  shows "GetModuleHandleA (Some name) s = Inr (lookup_entry name (entries s xs))"
proof -
  obtain l where seg: "dlseg (mod_mem s) None (modules_head s) xs l None"
    using assms unfolding registry_def by blast
  have n: "has_name (Some name) (the (mod_mem s x)) = Inr (en_name (entry_of (the (mod_mem s x))) = name)"
    if "x \<in> set xs" for x
    using registry_named[OF assms that] by (auto simp: has_name_def entry_of_def)
  have "winmodule_find (Some name) s
      = Inr (List.find (\<lambda>x. has_name (Some name) (the (mod_mem s x)) = Inr True) xs)"
    unfolding winmodule_find_def
    by (subst find_module_dlseg[OF seg]) (use n in \<open>auto simp: returned_def\<close>)
  moreover have "List.find (\<lambda>x. has_name (Some name) (the (mod_mem s x)) = Inr True) xs
      = List.find (\<lambda>x. en_name (entry_of (the (mod_mem s x))) = name) xs"
    by (rule find_cong) (use n in auto)
  moreover have "handle_of (List.find (\<lambda>x. en_name (entry_of (the (mod_mem s x))) = name) ys) s
      = Inr (lookup_entry name (entries s ys))" if "set ys \<subseteq> set xs" for ys
    using that
  proof (induction ys)
    case (Cons y ys)
    obtain m where "mod_mem s y = Some m" using dlseg_present[OF seg, of y] Cons.prems by auto
    then show ?case
      using Cons by (simp add: handle_of_def lookup_entry_def entries_def get_mod_def)
        (simp add: entry_of_def)
  qed (simp add: handle_of_def lookup_entry_def entries_def)
  ultimately show ?thesis by (simp add: GetModuleHandleA_def)
qed

lemma dlseg_links:
  "\<forall>x \<in> set xs. map_option (\<lambda>m. (mod_prev m, mod_next m)) (mem' x) = map_option (\<lambda>m. (mod_prev m, mod_next m)) (mem x)
    \<Longrightarrow> dlseg mem' prev p xs l q = dlseg mem prev p xs l q"
  by (induction xs arbitrary: prev p) (auto split: option.splits)

lemma payload_fields:
  assumes "map_option payload (mem' x) = map_option payload (mem x)" and "mem x \<noteq> None"
  shows "mod_name (the (mem' x)) = mod_name (the (mem x))" "mod_handle (the (mem' x)) = mod_handle (the (mem x))"
    "entry_of (the (mem' x)) = entry_of (the (mem x))"
proof -
  obtain m m' where "mem x = Some m" "mem' x = Some m'" "payload m' = payload m"
    using assms by (cases "mem x"; cases "mem' x") auto
  then show "mod_name (the (mem' x)) = mod_name (the (mem x))"
    "mod_handle (the (mem' x)) = mod_handle (the (mem x))"
    "entry_of (the (mem' x)) = entry_of (the (mem x))"
    by (cases m; cases m'; simp add: payload_def entry_of_def)+
qed

text \<open>Closing a handle, once the destructor of the module is known.\<close>

lemma registry_close:
  assumes "registry s xs" and "handle_data s h = Some a" and "dlseg mem' None p ys l None"
    and "set ys \<subseteq> set xs" and "distinct ys" and "set xs \<subseteq> insert a (set ys)"
    and "\<And>y. y \<in> set ys \<Longrightarrow> mod_name (the (mem' y)) = mod_name (the (mod_mem s y))"
    and "\<And>y. y \<in> set ys \<Longrightarrow> mod_handle (the (mem' y)) = (if y = a then None else mod_handle (the (mod_mem s y)))"
  shows "registry (s\<lparr>mod_mem := mem', modules_head := p, handle_data := (handle_data s)(h := None)\<rparr>) ys"
proof (rule registryI)
  fix y g
  assume y: "y \<in> set ys"
  show "handle_data (s\<lparr>mod_mem := mem', modules_head := p, handle_data := (handle_data s)(h := None)\<rparr>) g = Some y
      \<longleftrightarrow> mod_handle (the (mod_mem (s\<lparr>mod_mem := mem', modules_head := p, handle_data := (handle_data s)(h := None)\<rparr>) y)) = Some g"
  proof (cases "y = a")
    case True
    have "mod_handle (the (mod_mem s a)) = Some k" if "handle_data s k = Some a" for k
      using assms(1) that unfolding registry_def by blast
    then have "handle_data s g = Some a \<Longrightarrow> g = h" using assms(2) by (metis option.inject)
    then show ?thesis using True assms(8)[OF y] by auto
  next
    case False
    have "handle_data s g = Some y \<longleftrightarrow> mod_handle (the (mod_mem s y)) = Some g"
      using registry_handle[OF assms(1)] y assms(4) by blast
    then show ?thesis using False assms(2) assms(8)[OF y] by auto
  qed
next
  fix g y
  assume g: "handle_data (s\<lparr>mod_mem := mem', modules_head := p, handle_data := (handle_data s)(h := None)\<rparr>) g = Some y"
  then have g': "g \<noteq> h" "handle_data s g = Some y" by (auto split: if_splits)
  then have y: "g < next_addr s" "y \<in> set xs" "mod_handle (the (mod_mem s y)) = Some g"
    using assms(1) unfolding registry_def by blast+
  have "mod_handle (the (mod_mem s a)) = Some h" using assms(1,2) unfolding registry_def by blast
  then have "y \<noteq> a" using y(3) g'(1) by auto
  then show "g < next_addr (s\<lparr>mod_mem := mem', modules_head := p, handle_data := (handle_data s)(h := None)\<rparr>) \<and> y \<in> set ys"
    using y assms(6) by auto
next
  fix y assume "y \<in> set ys"
  then have "y \<in> set xs" using assms(4) by blast
  then show "y < next_addr (s\<lparr>mod_mem := mem', modules_head := p, handle_data := (handle_data s)(h := None)\<rparr>)"
    using registry_below[OF assms(1)] by simp
  show "mod_name (the (mod_mem (s\<lparr>mod_mem := mem', modules_head := p, handle_data := (handle_data s)(h := None)\<rparr>) y)) \<noteq> None"
    using registry_named[OF assms(1) \<open>y \<in> set xs\<close>] assms(7)[OF \<open>y \<in> set ys\<close>] by simp
qed (use assms(3,5) in simp_all)

lemma free_refines:
  assumes "registry s xs" and "handle_data s h = Some a"
  shows "\<exists>s' xs'. FreeLibrary (Some h) s = Inr s' \<and> registry s' xs' \<and> next_addr s' = next_addr s \<and>
    entries s' xs' = free_entry h (entries s xs)"
proof -
  obtain l where seg: "dlseg (mod_mem s) None (modules_head s) xs l None" and d: "distinct xs"
    using assms(1) unfolding registry_def by blast
  have a: "a \<in> set xs" and ah: "mod_handle (the (mod_mem s a)) = Some h"
    using assms unfolding registry_def by blast+
  then obtain m where m: "mod_mem s a = Some m" using dlseg_present[OF seg] by blast
  have only: "mod_handle (the (mod_mem s y)) = Some h \<longleftrightarrow> y = a" if "y \<in> set xs" for y
    using registry_handle[OF assms(1) that] assms(2) by auto
  define m1 where "m1 = m\<lparr>mod_handle := None\<rparr>"
  define s1 where "s1 = s\<lparr>mod_mem := (mod_mem s)(a \<mapsto> m1)\<rparr>"
  have set1: "set_mod a (\<lambda>m. m\<lparr>mod_handle := None\<rparr>) s = Inr s1"
    using m by (simp add: set_mod_def get_mod_def s1_def m1_def)
  have get1: "get_mod a s1 = Inr m1" by (simp add: get_mod_def s1_def)
  have seg1: "dlseg (mod_mem s1) None (modules_head s1) xs l None"
    unfolding s1_def using seg m by (subst dlseg_links[where mem = "mod_mem s"]) (auto simp: m1_def)
  show ?thesis
  proof (cases "mod_cmdline m = None")
    case False
    let ?s = "s\<lparr>mod_mem := mod_mem s1, modules_head := modules_head s1, handle_data := (handle_data s)(h := None)\<rparr>"
    have "FreeLibrary (Some h) s = Inr ?s"
      using assms(2) False
      by (simp add: FreeLibrary_def winhandle_destroy_def module_destr_def set1 get1) (auto simp: m1_def s1_def)
    moreover have "registry ?s xs"
      by (rule registry_close[OF assms seg1])
        (use d m only in \<open>auto simp: s1_def m1_def\<close>)
    moreover have "entries ?s xs = free_entry h (entries s xs)"
    proof -
      have e: "entry_of (the (mod_mem s1 y)) =
          (if y = a then (entry_of (the (mod_mem s y)))\<lparr>en_handle := None\<rparr> else entry_of (the (mod_mem s y)))" for y
        using m by (simp add: s1_def m1_def entry_of_def)
      have st: "en_static (entry_of (the (mod_mem s a)))" using False m by (simp add: entry_of_def)
      have hh: "en_handle (entry_of (the (mod_mem s y))) = Some h \<longleftrightarrow> y = a" if "y \<in> set xs" for y
        using only[OF that] by (simp add: entry_of_def)
      have keep: "filter (\<lambda>e. en_handle e = Some h \<longrightarrow> en_static e) (entries s xs) = entries s xs"
        using hh st by (auto simp: filter_id_conv entries_def)
      show ?thesis unfolding free_entry_def keep using hh by (simp add: entries_def e)
    qed
    ultimately show ?thesis by (intro exI[of _ ?s] exI[of _ xs]) simp
  next
    case True
    obtain ys zs where xs: "xs = ys @ a # zs" using a split_list by metis
    have d1: "distinct (ys @ a # zs)" using d xs by simp
    obtain mem' p l' where u: "unlink_module a s1 = Inr (s1\<lparr>mod_mem := mem', modules_head := p\<rparr>)"
      "dlseg mem' None p (ys @ zs) l' None"
      "\<And>x. map_option payload (mem' x) = map_option payload (mod_mem s1 x)"
      using unlink_module_ok[OF seg1[unfolded xs] d1] by blast
    let ?m = "mem'(a := None)"
    let ?s = "s\<lparr>mod_mem := ?m, modules_head := p, handle_data := (handle_data s)(h := None)\<rparr>"
    have "FreeLibrary (Some h) s = Inr ?s"
      using assms(2) True
      by (simp add: FreeLibrary_def winhandle_destroy_def module_destr_def set1 get1 u(1))
        (simp add: m1_def s1_def)
    moreover have f: "mod_name (the (?m y)) = mod_name (the (mod_mem s y))"
        "mod_handle (the (?m y)) = mod_handle (the (mod_mem s y))"
        "entry_of (the (?m y)) = entry_of (the (mod_mem s y))" if "y \<in> set (ys @ zs)" for y
    proof -
      have "y \<noteq> a" "y \<in> set xs" using that d1 xs by auto
      moreover have "mod_mem s y \<noteq> None" using dlseg_present[OF seg \<open>y \<in> set xs\<close>] .
      moreover have "map_option payload (?m y) = map_option payload (mod_mem s y)"
        using u(3)[of y] \<open>y \<noteq> a\<close> by (simp add: s1_def)
      ultimately show "mod_name (the (?m y)) = mod_name (the (mod_mem s y))"
        "mod_handle (the (?m y)) = mod_handle (the (mod_mem s y))"
        "entry_of (the (?m y)) = entry_of (the (mod_mem s y))"
        using payload_fields[of ?m y "mod_mem s"] by blast+
    qed
    moreover have "registry ?s (ys @ zs)"
    proof (rule registry_close[OF assms])
      show "dlseg ?m None p (ys @ zs) l' None"
        by (subst dlseg_cong[where mem = mem']) (use u(2) d1 in auto)
      show "mod_handle (the (?m y)) = (if y = a then None else mod_handle (the (mod_mem s y)))"
        if "y \<in> set (ys @ zs)" for y using f(2)[OF that] that d1 by auto
    qed (use xs d1 f(1) in auto)
    moreover have "entries ?s (ys @ zs) = free_entry h (entries s xs)"
    proof -
      have hh: "en_handle (entry_of (the (mod_mem s y))) = Some h \<longleftrightarrow> y = a" if "y \<in> set xs" for y
        using only[OF that] by (simp add: entry_of_def)
      have st: "\<not> en_static (entry_of (the (mod_mem s a)))" using True m by (simp add: entry_of_def)
      have keep: "filter (\<lambda>e. en_handle e = Some h \<longrightarrow> en_static e) (map (\<lambda>y. entry_of (the (mod_mem s y))) vs)
          = map (\<lambda>y. entry_of (the (mod_mem s y))) vs"
        and ident: "map (\<lambda>y. if en_handle (entry_of (the (mod_mem s y))) = Some h
            then (entry_of (the (mod_mem s y)))\<lparr>en_handle := None\<rparr> else entry_of (the (mod_mem s y))) vs
          = map (\<lambda>y. entry_of (the (mod_mem s y))) vs"
        if "set vs \<subseteq> set xs - {a}" for vs
        using hh that by (auto simp: filter_id_conv)
      have sub: "set ys \<subseteq> set xs - {a}" "set zs \<subseteq> set xs - {a}" using xs d1 by auto
      have "entries ?s (ys @ zs) = map (\<lambda>y. entry_of (the (mod_mem s y))) (ys @ zs)"
        unfolding entries_def by (rule map_cong) (use f(3) in simp_all)
      moreover have "free_entry h (entries s xs) = map (\<lambda>y. entry_of (the (mod_mem s y))) (ys @ zs)"
        using st hh[OF a] keep[OF sub(1)] keep[OF sub(2)] ident[OF sub(1)] ident[OF sub(2)]
        by (simp add: free_entry_def entries_def xs comp_def)
      ultimately show ?thesis by simp
    qed
    ultimately show ?thesis by (intro exI[of _ ?s] exI[of _ "ys @ zs"]) simp
  qed
qed

section \<open>Properties\<close>

fun mod_run :: "mod_op list \<Rightarrow> win_modules \<Rightarrow> (nat option list \<times> win_modules) result" where
  "mod_run [] s = Inr ([], s)"
| "mod_run (op # ops) s =
     res_bind (mod_do op s) (\<lambda>(r, s1). res_bind (mod_run ops s1) (\<lambda>(rs, s2). Inr (r # rs, s2)))"

fun spec_run :: "mod_op list \<Rightarrow> mod_entry list \<times> nat \<Rightarrow> nat option list \<times> mod_entry list \<times> nat" where
  "spec_run [] t = ([], t)"
| "spec_run (op # ops) t = (case spec_do op t of (r, t1) \<Rightarrow> case spec_run ops t1 of (rs, t2) \<Rightarrow> (r # rs, t2))"

text \<open>A client closes only handles that are open.\<close>

fun ops_ok :: "mod_op list \<Rightarrow> mod_entry list \<times> nat \<Rightarrow> bool" where
  "ops_ok [] t \<longleftrightarrow> True"
| "ops_ok (op # ops) t \<longleftrightarrow> op_ok op (fst t) \<and> ops_ok ops (snd (spec_do op t))"

lemma mod_do_refines:
  assumes "registry s xs" and "op_ok op (entries s xs)"
  shows "\<exists>s' xs'. mod_do op s = Inr (fst (spec_do op (entries s xs, next_addr s)), s') \<and> registry s' xs' \<and>
    (entries s' xs', next_addr s') = snd (spec_do op (entries s xs, next_addr s))"
proof (cases op)
  case (Load name)
  then show ?thesis using load_refines[OF assms(1), of name] by fastforce
next
  case (Free h)
  then obtain a where a: "a \<in> set xs" "mod_handle (the (mod_mem s a)) = Some h"
    using assms(2) by (auto simp: op_ok_def entries_def entry_of_def)
  then have "handle_data s h = Some a" using registry_handle[OF assms(1)] by blast
  then show ?thesis using free_refines[OF assms(1)] Free by fastforce
next
  case (Look name)
  then show ?thesis using look_refines[OF assms(1)] assms(1) by auto
qed

text \<open>
  C34: Loading libraries, freeing them and looking handles up by name on the linked records gives, for
  every run in which the client closes only open handles, the answers of a list of names and handles: the
  newest module of a name is found, freeing a dummy module takes exactly that one out, and freeing a
  module of the program leaves it registered without a handle.  No run faults or loops, and the records
  stay a well-formed doubly linked list.
\<close>

lemma module_registry_refines:
  assumes "registry s xs" and "ops_ok ops (entries s xs, next_addr s)"
  shows "\<exists>s' xs'. mod_run ops s = Inr (fst (spec_run ops (entries s xs, next_addr s)), s') \<and> registry s' xs' \<and>
    (entries s' xs', next_addr s') = snd (spec_run ops (entries s xs, next_addr s))"
  using assms
proof (induction ops arbitrary: s xs)
  case (Cons op ops)
  let ?t = "(entries s xs, next_addr s)"
  obtain s1 xs1 where 1: "mod_do op s = Inr (fst (spec_do op ?t), s1)" "registry s1 xs1"
    "(entries s1 xs1, next_addr s1) = snd (spec_do op ?t)"
    using mod_do_refines[OF Cons.prems(1), of op] Cons.prems(2) by auto
  obtain s2 xs2 where 2: "mod_run ops s1 = Inr (fst (spec_run ops (snd (spec_do op ?t))), s2)" "registry s2 xs2"
    "(entries s2 xs2, next_addr s2) = snd (spec_run ops (snd (spec_do op ?t)))"
    using Cons.IH[OF 1(2)] 1(3) Cons.prems(2) by auto
  have "mod_run (op # ops) s = Inr (fst (spec_run (op # ops) ?t), s2)"
    using 1(1) 2(1) by (simp add: case_prod_beta)
  moreover have "snd (spec_run (op # ops) ?t) = (entries s2 xs2, next_addr s2)"
    using 2(3) by (simp add: case_prod_beta)
  ultimately show ?case using 2(2) by metis
qed auto

text \<open>The registry with one module of the program.\<close>

definition one_module :: win_modules where
  "one_module =
     \<lparr>modules_head = Some 0,
      mod_mem = [0 \<mapsto> \<lparr>mod_prev = None, mod_next = None, mod_handle = Some 1, mod_name = Some [97],
        mod_cmdline = Some [97], mod_environ = [], mod_image_base = 0x1000, mod_image_size = 0x100\<rparr>],
      handle_data = [1 \<mapsto> 0], next_addr = 2, cur_module = Some 0, last_error = 0\<rparr>"

lemma one_module_registry: "registry one_module [0]"
  by (rule registryI[where l = "Some 0"]) (auto simp: one_module_def split: if_splits)

lemma module_registry_refines_witness:
  "\<exists>s' xs'. mod_run [Load [98], Load [97], Look [97], Free 5, Look [97], Look [98], Free 1, Look [97]] one_module
      = Inr ([Some 3, Some 5, Some 5, None, Some 1, Some 3, None, None], s') \<and> registry s' xs'"
proof -
  let ?ops = "[Load [98], Load [97], Look [97], Free 5, Look [97], Look [98], Free 1, Look [97]]"
  have t: "(entries one_module [0], next_addr one_module)
      = ([\<lparr>en_name = [97], en_handle = Some 1, en_static = True\<rparr>], 2)"
    by (simp add: entries_def entry_of_def one_module_def)
  have ok: "ops_ok ?ops (entries one_module [0], next_addr one_module)"
    unfolding t by (simp add: op_ok_def free_entry_def)
  have "fst (spec_run ?ops (entries one_module [0], next_addr one_module))
      = [Some 3, Some 5, Some 5, None, Some 1, Some 3, None, None]"
    unfolding t by (simp add: free_entry_def lookup_entry_def)
  then show ?thesis using module_registry_refines[OF one_module_registry ok] by metis
qed

text \<open>
  \<open>FreeLibrary\<close> of a handle the program's own module was found under: the module stays in the list, and
  the next lookup answers NULL.
\<close>

lemma free_hides_own_module:
  "res_bind (FreeLibrary (Some 1) one_module) (\<lambda>s. GetModuleHandleA (Some [97]) s) = Inr None"
  using look_refines[OF one_module_registry] free_refines[OF one_module_registry, of 1 0]
proof -
  obtain s' xs' where f: "FreeLibrary (Some 1) one_module = Inr s'" "registry s' xs'"
    "entries s' xs' = free_entry 1 (entries one_module [0])"
    using free_refines[OF one_module_registry, of 1 0] by (auto simp: one_module_def)
  then show ?thesis
    using look_refines[OF f(2), of "[97]"]
    by (simp add: free_entry_def lookup_entry_def entries_def entry_of_def one_module_def)
qed

text \<open>A library name that is cut short has no terminator.\<close>

lemma file_name_cut_short:
  assumes "module_of handle s = Inr m" and "mod_name m = Some name" and "0 < unat sz" and "unat sz \<le> length name"
    and "length buf = unat sz"
  shows "GetModuleFileNameA handle buf sz s
    = Inr (sz - 1, take (unat sz) name, winerr_set_code ERROR_INSUFFICIENT_BUFFER s)"
proof -
  have "sz \<noteq> 0" using assms(3) by auto
  then show ?thesis using assms by (simp add: GetModuleFileNameA_def Let_def copy_to_def)
qed

text \<open>The wide function counts the buffer in bytes, and reports \<open>-1\<close> characters for a single one.\<close>

lemma file_name_w_one_byte:
  "GetModuleFileNameW (Some 1) [7] 1 one_module
    = Inr (- 1, [7], winerr_set_code ERROR_INSUFFICIENT_BUFFER one_module)"
  by (simp add: GetModuleFileNameW_def module_of_def one_module_def get_mod_def winstr_from_str_def
      mbrtoc16_def winstr_len_def copy_to_def)

text \<open>A name whose address is below \<open>0x8000\<close> is an ordinal, and nothing is looked up.\<close>

lemma proc_address_ordinal:
  assumes "module_of (Some h) s = Inr m" and "unat name < 0x8000"
  shows "GetProcAddress descrs str_at (Some h) name s = Inr (None, s)"
proof -
  have "take_bit 15 (unat name) = unat name" using assms(2) by (simp add: take_bit_nat_eq_self_iff)
  then have "take_bit 15 name = name" by (simp add: word_unat_eq_iff unsigned_take_bit_eq)
  then have "name AND mask 15 = name" by (simp add: take_bit_eq_mask)
  then have "name AND NOT (mask 15) = name AND (mask 15 AND NOT (mask 15))" by (metis and.assoc)
  moreover have "(push_bit 8 128 - 1 :: u64) = mask 15" by (simp add: mask_eq_exp_minus_1)
  ultimately have "name AND NOT (push_bit 8 128 - 1) = 0" by simp
  then show ?thesis
    using assms(1) by (auto simp: GetProcAddress_def module_of_def split: option.splits)
qed

end
