(* ===== verification/Win_Proc.thy ===== *)
theory Win_Proc
  imports Win_Module Multi_String
begin

text \<open>
  The process of the emulated Windows (\<open>libtudor/src/winapi/proc.c\<close>): the information blocks, command
  line and environment of the current module, exception filters, and the functions that always give the
  same answer.  Pointers in the blocks are their addresses.
\<close>

section \<open>Information blocks\<close>

record process_params =
  pp_alloc_size :: u32
  pp_size :: u32
  pp_flags :: u32
  pp_debug_flags :: u32

record process_peb =
  inherited_addr_space :: byte
  read_img_file_exec_opts :: byte
  being_debugged :: byte
  peb_mutant :: u64
  image_base_addr :: u64
  peb_ldr_data :: u64
  proc_params :: u64
  sub_sys_data :: u64
  proc_heap :: u64

record thread_tib =
  cur_seh_frame :: u64
  stack_base :: u64
  stack_limit :: u64
  sub_system_tib :: u64
  fiber_data :: u64
  arbitrary_data :: u64
  teb_address :: u64
  env_ptr :: u64
  proc_id :: u64
  thread_id :: u64
  active_rpc :: u64
  thread_local_storage :: u64
  peb_ptr :: u64

text \<open>\<open>params_addr\<close> and \<open>peb_addr\<close> are the addresses of the statics.\<close>

definition init_peb :: "u64 \<Rightarrow> process_params \<times> process_peb" where
  "init_peb params_addr =
     (\<lparr>pp_alloc_size = 0, pp_size = 0, pp_flags = 0, pp_debug_flags = 0\<rparr>,
      \<lparr>inherited_addr_space = 0, read_img_file_exec_opts = 1, being_debugged = 0, peb_mutant = 0xdeadc0de,
       image_base_addr = 0xdeadc0de, peb_ldr_data = 0xdeadc0de, proc_params = params_addr,
       sub_sys_data = 0xdeadc0de, proc_heap = - 1\<rparr>)"

definition win_init_tib :: "u32 \<Rightarrow> u32 \<Rightarrow> u64 \<Rightarrow> thread_tib" where
  "win_init_tib pid tid peb_addr =
     \<lparr>cur_seh_frame = 0xdeadc0de, stack_base = 0xdeadc0de, stack_limit = 0xdeadc0de,
      sub_system_tib = 0xdeadc0de, fiber_data = 0xdeadc0de, arbitrary_data = 0xdeadc0de,
      teb_address = 0xdeadc0de, env_ptr = 0xdeadc0de, proc_id = ucast pid, thread_id = ucast tid,
      active_rpc = 0xdeadc0de, thread_local_storage = 0xdeadc0de, peb_ptr = peb_addr\<rparr>"

definition GetCurrentProcess :: u64 where "GetCurrentProcess = - 1"

definition TerminateProcess :: "u64 \<Rightarrow> u32 \<Rightarrow> bool result" where
  "TerminateProcess process exit_code = (if process \<noteq> - 1 then Inr False else Inl Abort)"

definition ExitProcess :: "u32 \<Rightarrow> unit result" where
  "ExitProcess exit_code = Inl Abort"

definition RaiseException :: "u32 \<Rightarrow> u32 \<Rightarrow> unit result" where
  "RaiseException code flags = Inl Abort"

record startup_info =
  si_cb :: u32
  lpDesktop :: "u16 list option"
  dwX :: u32
  dwY :: u32
  dwXSize :: u32
  dwYSize :: u32
  dwXCountChars :: u32
  dwYCountChars :: u32
  dwFillAttribute :: u32
  dwFlags :: u32
  wShowWindow :: u16
  cbReserved2 :: u16

definition GetStartupInfoW :: "startup_info result" where
  "GetStartupInfoW =
     res_bind (winstr_from_str (Some (char_bytes ''TUDORHOST''))) (\<lambda>desktop.
       Inr \<lparr>si_cb = 104, lpDesktop = desktop, dwX = 0, dwY = 0, dwXSize = 0, dwYSize = 0,
            dwXCountChars = 0, dwYCountChars = 0, dwFillAttribute = 0, dwFlags = 0, wShowWindow = 0,
            cbReserved2 = 0\<rparr>)"

section \<open>Command line\<close>

definition GetCommandLineA :: "win_modules \<Rightarrow> byte list option result" where
  "GetCommandLineA s =
     (case winmodule_get_cur s of
        None \<Rightarrow> Inl Fault
      | Some a \<Rightarrow> res_bind (get_mod a s) (\<lambda>m. Inr (mod_cmdline m)))"

text \<open>The wide command line is kept from the first call on; \<open>cache\<close> is the static.\<close>

definition GetCommandLineW :: "u16 list option \<Rightarrow> win_modules \<Rightarrow> (u16 list option \<times> u16 list option) result" where
  "GetCommandLineW cache s =
     (case cache of
        Some w \<Rightarrow> Inr (Some w, cache)
      | None \<Rightarrow> res_bind (GetCommandLineA s) (\<lambda>c. res_bind (winstr_from_str c) (\<lambda>w. Inr (w, w))))"

section \<open>Environment\<close>

text \<open>\<open>memcpy\<close> of the first \<open>n\<close> elements of \<open>src\<close> to offset \<open>d\<close> of a buffer.\<close>

definition memcpy_at :: "'a list \<Rightarrow> nat \<Rightarrow> 'a list \<Rightarrow> nat \<Rightarrow> 'a list result" where
  "memcpy_at buf d src n =
     (if n \<le> length src \<and> d + n \<le> length buf then Inr (take d buf @ take n src @ drop (d + n) buf)
      else Inl Fault)"

fun env_copy :: "byte list list \<Rightarrow> byte list \<Rightarrow> nat \<Rightarrow> (byte list \<times> nat) result" where
  "env_copy [] buf d = Inr (buf, d)"
| "env_copy (p # ps) buf d =
     res_bind (memcpy_at buf d (p @ [0]) (length p + 1)) (\<lambda>b. env_copy ps b (d + (length p + 1)))"

definition env_len :: "byte list list \<Rightarrow> nat" where
  "env_len env = foldl (\<lambda>len p. len + (length p + 1)) 1 env"

definition cur_environ :: "win_modules \<Rightarrow> byte list list result" where
  "cur_environ s =
     (case winmodule_get_cur s of
        None \<Rightarrow> Inl Fault
      | Some a \<Rightarrow> res_bind (get_mod a s) (\<lambda>m. Inr (mod_environ m)))"

text \<open>\<open>fill\<close> is what the fresh block contains; \<open>None\<close> is an allocation that failed.\<close>

definition GetEnvironmentStringsA :: "(nat \<Rightarrow> byte list option) \<Rightarrow> u32 \<Rightarrow> win_modules
    \<Rightarrow> (byte list option \<times> win_modules) result" where
  "GetEnvironmentStringsA fill errno s =
     res_bind (cur_environ s) (\<lambda>env.
     case fill (env_len env) of
       None \<Rightarrow> Inr (None, winerr_set_errno errno s)
     | Some block \<Rightarrow>
         res_bind (env_copy env block 0) (\<lambda>(b, d).
         res_bind (memcpy_at b d [0] 1) (\<lambda>b1. Inr (Some b1, s))))"

text \<open>
  The wide block: the copy takes as many bytes as the wide string has, but from the narrow one.
\<close>

fun env_copy_w :: "byte list list \<Rightarrow> u16 list \<Rightarrow> nat \<Rightarrow> (u16 list \<times> nat) result" where
  "env_copy_w [] buf d = Inr (buf, d)"
| "env_copy_w (p # ps) buf d =
     res_bind (winstr_from_str (Some p)) (\<lambda>wp.
     res_bind (winstr_len wp) (\<lambda>l.
       if 2 * (l + 1) \<le> length (p @ [0])
       then res_bind (memcpy_at buf d (units_of_bytes (take (2 * (l + 1)) (p @ [0]))) (l + 1)) (\<lambda>b.
              env_copy_w ps b (d + (l + 1)))
       else Inl Fault))"

definition GetEnvironmentStringsW :: "(nat \<Rightarrow> u16 list option) \<Rightarrow> u32 \<Rightarrow> win_modules
    \<Rightarrow> (u16 list option \<times> win_modules) result" where
  "GetEnvironmentStringsW fill errno s =
     res_bind (cur_environ s) (\<lambda>env.
     case fill (env_len env) of
       None \<Rightarrow> Inr (None, winerr_set_errno errno s)
     | Some block \<Rightarrow>
         res_bind (env_copy_w env block 0) (\<lambda>(b, d).
         res_bind (memcpy_at b d [0] 1) (\<lambda>b1. Inr (Some b1, s))))"

definition SetEnvironmentVariableW :: "u16 list \<Rightarrow> u16 list option \<Rightarrow> bool" where
  "SetEnvironmentVariableW name val = True"

section \<open>Exceptions and the rest\<close>

text \<open>The filter is a function from the exception to its answer; the state is the static.\<close>

type_synonym excep_filter = "u64 \<Rightarrow> int"

definition SetUnhandledExceptionFilter :: "excep_filter option \<Rightarrow> excep_filter option
    \<Rightarrow> excep_filter option \<times> excep_filter option" where
  "SetUnhandledExceptionFilter flt old = (old, flt)"

definition UnhandledExceptionFilter :: "excep_filter option \<Rightarrow> u64 \<Rightarrow> int" where
  "UnhandledExceptionFilter flt excep =
     (case flt of
        None \<Rightarrow> 1
      | Some f \<Rightarrow> let ret = f excep in if ret = 0 \<or> ret = 1 then ret else 1)"

text \<open>
  The microseconds are computed with 32 bits; \<open>rc\<close> is the answer of \<open>usleep\<close>, negative when a signal
  cuts it short.
\<close>

definition Sleep :: "u32 \<Rightarrow> int \<Rightarrow> u32 result" where
  "Sleep num_ms rc = (if rc < 0 then Inl Abort else Inr (num_ms * 1000))"

definition IsProcessorFeaturePresent :: "u32 \<Rightarrow> bool" where
  "IsProcessorFeaturePresent feature = False"

definition RtlLookupFunctionEntry :: "u64 \<Rightarrow> u64 option" where
  "RtlLookupFunctionEntry pc = None"

definition IsDebuggerPresent :: bool where "IsDebuggerPresent = False"

definition EncodePointer :: "u64 \<Rightarrow> u64" where "EncodePointer p = p"

definition RtlPcToFileHeader :: "u64 option \<Rightarrow> u64 \<times> u64 option" where
  "RtlPcToFileHeader base_of_image = (0, map_option (\<lambda>_. 0) base_of_image)"

definition RtlVirtualUnwind :: "u64 option \<Rightarrow> u64 \<times> u64 option" where
  "RtlVirtualUnwind establisher_frame = (0, map_option (\<lambda>_. 0) establisher_frame)"

definition SetStdHandle :: "u32 \<Rightarrow> u64 \<Rightarrow> bool" where "SetStdHandle std_handle handle = True"

definition WTSGetActiveConsoleSessionId :: u32 where "WTSGetActiveConsoleSessionId = 1"

definition C_specific_handler :: int where "C_specific_handler = 1"

section \<open>Properties\<close>

lemma env_len_multi_string: "env_len env = length (multi_string env)"
proof -
  have "foldl (\<lambda>len p. len + (length p + 1)) k env = k + sum_list (map (\<lambda>w. Suc (length w)) env)" for k
    by (induction env arbitrary: k) simp_all
  then show ?thesis by (simp add: env_len_def length_multi_string)
qed

lemma env_copy_block:
  assumes "length buf = length pre + length (concat (map (\<lambda>w. w @ [0]) env)) + n" and "take (length pre) buf = pre"
  shows "\<exists>rest. env_copy env buf (length pre)
      = Inr (pre @ concat (map (\<lambda>w. w @ [0]) env) @ rest, length pre + length (concat (map (\<lambda>w. w @ [0]) env)))
    \<and> length rest = n"
  using assms
proof (induction env arbitrary: buf pre)
  case Nil
  then have "buf = pre @ drop (length pre) buf" by (metis append_take_drop_id)
  then show ?case using Nil by (intro exI[of _ "drop (length pre) buf"]) simp
next
  case (Cons p ps)
  let ?b = "pre @ (p @ [0]) @ drop (length pre + (length p + 1)) buf"
  have "memcpy_at buf (length pre) (p @ [0]) (length p + 1) = Inr ?b"
    using Cons.prems by (simp add: memcpy_at_def)
  moreover have "\<exists>rest. env_copy ps ?b (length (pre @ p @ [0]))
      = Inr ((pre @ p @ [0]) @ concat (map (\<lambda>w. w @ [0]) ps) @ rest,
             length (pre @ p @ [0]) + length (concat (map (\<lambda>w. w @ [0]) ps))) \<and> length rest = n"
    by (rule Cons.IH) (use Cons.prems in simp_all)
  ultimately show ?case by auto
qed

text \<open>
  The narrow environment block holds exactly the environment of the current module: the copies stay
  inside the block of the computed size, and reading the block back gives the strings in order.
\<close>

lemma environment_block_roundtrip:
  assumes "cur_environ s = Inr env" and "\<forall>w \<in> set env. w \<noteq> [] \<and> 0 \<notin> set w"
    and "\<forall>n. \<exists>b. fill n = Some b \<and> length b = n"
  shows "\<exists>b. GetEnvironmentStringsA fill errno s = Inr (Some b, s) \<and> length b = env_len env \<and>
    multi_strings [] b = env"
proof -
  let ?c = "concat (map (\<lambda>w. w @ [0]) env)"
  obtain block where block: "fill (env_len env) = Some block" "length block = env_len env"
    using assms(3) by blast
  have n: "length block = length ?c + 1" using block(2) by (simp add: env_len_multi_string multi_string_def)
  then obtain rest where r: "env_copy env block 0 = Inr (?c @ rest, length ?c)" "length rest = 1"
    using env_copy_block[of block "[]" env 1] by auto
  have last: "memcpy_at (?c @ rest) (length ?c) [0] 1 = Inr (multi_string env)"
    using r(2) by (simp add: memcpy_at_def multi_string_def)
  show ?thesis
    using assms(1) block r(1) last multi_strings_multi_string[OF assms(2), of "[]"]
    by (simp add: GetEnvironmentStringsA_def env_len_multi_string)
qed

definition env_module :: win_modules where
  "env_module = one_module\<lparr>mod_mem := [0 \<mapsto> (dummy_module None)\<lparr>mod_environ := [[65, 61, 49], [66, 61]]\<rparr>]\<rparr>"

lemma environment_block_roundtrip_witness:
  "\<exists>b. GetEnvironmentStringsA (\<lambda>n. Some (replicate n 0xAA)) 12 env_module = Inr (Some b, env_module) \<and>
    length b = 8 \<and> multi_strings [] b = [[65, 61, 49], [66, 61]]"
proof -
  have "cur_environ env_module = Inr [[65, 61, 49], [66, 61]]"
    by (simp add: cur_environ_def winmodule_get_cur_def get_mod_def env_module_def one_module_def dummy_module_def)
  moreover have "env_len [[65, 61, 49], [66, 61]] = 8" by (simp add: env_len_def)
  ultimately show ?thesis
    using environment_block_roundtrip[of env_module "[[65, 61, 49], [66, 61]]" "\<lambda>n. Some (replicate n 0xAA)" 12]
    by simp
qed

text \<open>The wide block reads behind the first string of any environment that is not empty.\<close>

lemma wide_environment_overreads:
  assumes "cur_environ s = Inr (p # env)" and "\<forall>b \<in> set p. b \<noteq> 0 \<and> b < 128" and "fill (env_len (p # env)) \<noteq> None"
  shows "GetEnvironmentStringsW fill errno s = Inl Fault"
proof -
  have l: "winstr_len (Some (map ucast p @ [0])) = Inr (length p)"
    using winstr_len_terminated[of "map ucast p" "[]"] assms(2) ucast_ascii(3) by fastforce
  then show ?thesis
    using assms by (auto simp: GetEnvironmentStringsW_def winstr_from_str_def from_str_loop_ascii)
qed

text \<open>A long sleep is cut by the 32 bits of \<open>useconds_t\<close>.\<close>

lemma sleep_exact: "unat num_ms * 1000 < 2 ^ 32 \<Longrightarrow> Sleep num_ms 0 = Inr us \<Longrightarrow> unat us = unat num_ms * 1000"
  by (auto simp: Sleep_def unat_word_ariths)

lemma sleep_wraps: "Sleep 4294968 0 = Inr 704"
  by (simp add: Sleep_def)

lemma last_filter_decides:
  "UnhandledExceptionFilter (snd (SetUnhandledExceptionFilter (Some f) old)) e = (if f e = 0 then 0 else 1)"
  by (simp add: SetUnhandledExceptionFilter_def UnhandledExceptionFilter_def Let_def)

end
