(* ===== verification/Win_Log.thy ===== *)
theory Win_Log
  imports Device_State
begin

text \<open>
  Logging for the driver (\<open>libtudor/src/winapi/log.c\<close>): the small formatter for its debug and trace
  messages, the table of trace messages, and the registration of trace providers.  A format is the
  memory from its first character on; the arguments are the 64-bit slots of the variable argument list.
  In \<open>ptr_mode\<close> an argument is a pointer to the value followed by its size, and \<open>load\<close> reads the
  value.  The output is the list of what goes to \<open>printf\<close>, whose own conversions are the C library's.
\<close>

section \<open>The formatter\<close>

datatype piece =
    Lit byte
  | Out_d int
  | Out_u u32
  | Out_x u32
  | Out_p u64
  | Out_s u64
  | Out_unknown byte

definition ch :: "char \<Rightarrow> byte" where
  "ch c = word_of_nat (of_char c)"

text \<open>The value of a numeric argument, and the arguments that are left; none left is a fault.\<close>

definition num_arg :: "(u64 \<Rightarrow> u32 option) \<Rightarrow> bool \<Rightarrow> u64 list \<Rightarrow> (u32 \<times> u64 list) result" where
  "num_arg load ptr_mode va =
     (if \<not> ptr_mode then (case va of a # va' \<Rightarrow> Inr (ucast a, va') | [] \<Rightarrow> Inl Fault)
      else case va of
        p # sz # va' \<Rightarrow> (case load p of None \<Rightarrow> Inl Fault | Some v \<Rightarrow> Inr (v, va'))
      | _ \<Rightarrow> Inl Fault)"

definition ptr_arg :: "bool \<Rightarrow> u64 list \<Rightarrow> (u64 \<times> u64 list) result" where
  "ptr_arg ptr_mode va =
     (if \<not> ptr_mode then (case va of a # va' \<Rightarrow> Inr (a, va') | [] \<Rightarrow> Inl Fault)
      else case va of p # sz # va' \<Rightarrow> Inr (p, va') | _ \<Rightarrow> Inl Fault)"

text \<open>One specifier: \<open>c\<close> is the character behind the percent sign.\<close>

definition print_spec :: "(u64 \<Rightarrow> u32 option) \<Rightarrow> bool \<Rightarrow> byte \<Rightarrow> u64 list \<Rightarrow> (piece list \<times> u64 list) result" where
  "print_spec load ptr_mode c va =
     (if c = ch CHR ''d'' then res_bind (num_arg load ptr_mode va) (\<lambda>(v, va'). Inr ([Out_d (sint v)], va'))
      else if c = ch CHR ''u'' then res_bind (num_arg load ptr_mode va) (\<lambda>(v, va'). Inr ([Out_u v], va'))
      else if c = ch CHR ''x'' then res_bind (num_arg load ptr_mode va) (\<lambda>(v, va'). Inr ([Out_x v], va'))
      else if c = ch CHR ''p'' then res_bind (ptr_arg ptr_mode va) (\<lambda>(p, va'). Inr ([Out_p p], va'))
      else if c = ch CHR ''s'' then res_bind (ptr_arg ptr_mode va) (\<lambda>(p, va'). Inr ([Out_s p], va'))
      else if c = ch CHR ''%'' then Inr ([Lit c], va)
      else if c = 0 then Inr ([], va)
      else Inr ([Out_unknown c], va))"

text \<open>
  The loop over the format.  After a percent sign it goes on two characters further, whatever the second
  one is; outside the memory it faults.
\<close>

fun winlog_printf :: "(u64 \<Rightarrow> u32 option) \<Rightarrow> bool \<Rightarrow> byte list \<Rightarrow> u64 list \<Rightarrow> piece list result" where
  "winlog_printf load ptr_mode [] va = Inl Fault"
| "winlog_printf load ptr_mode [c] va = (if c = 0 then Inr [] else Inl Fault)"
| "winlog_printf load ptr_mode (c # c' # cs) va =
     (if c = 0 then Inr []
      else if c = ch CHR ''%'' then
        res_bind (print_spec load ptr_mode c' va) (\<lambda>(out, va').
        res_bind (winlog_printf load ptr_mode cs va') (\<lambda>rest. Inr (out @ rest)))
      else res_bind (winlog_printf load ptr_mode (c' # cs) va) (\<lambda>rest. Inr (Lit c # rest)))"

section \<open>Trace messages\<close>

record trace_msg =
  tm_guid :: guid
  tm_num :: int
  tm_format :: "byte list"

definition winlog_register_trace_msg :: "guid \<Rightarrow> int \<Rightarrow> byte list \<Rightarrow> trace_msg list \<Rightarrow> trace_msg list" where
  "winlog_register_trace_msg g num format msgs = \<lparr>tm_guid = g, tm_num = num, tm_format = format\<rparr> # msgs"

fun find_trace_msg :: "guid \<Rightarrow> int \<Rightarrow> trace_msg list \<Rightarrow> trace_msg option" where
  "find_trace_msg g num [] = None"
| "find_trace_msg g num (m # ms) = (if tm_guid m = g \<and> tm_num m = num then Some m else find_trace_msg g num ms)"

text \<open>The line of a trace: thread, first part of the GUID, number, message.\<close>

definition winlog_trace :: "(u64 \<Rightarrow> u32 option) \<Rightarrow> trace_msg list \<Rightarrow> guid \<Rightarrow> int \<Rightarrow> u64 list
    \<Rightarrow> (guid \<times> int \<times> piece list) option result" where
  "winlog_trace load msgs g num va =
     (case find_trace_msg g num msgs of
        None \<Rightarrow> Inr None
      | Some m \<Rightarrow> res_bind (winlog_printf load True (tm_format m) va) (\<lambda>out. Inr (Some (g, num, out))))"

definition DbgPrintEx :: "(u64 \<Rightarrow> u32 option) \<Rightarrow> byte list \<Rightarrow> u64 list \<Rightarrow> (u32 \<times> piece list) result" where
  "DbgPrintEx load format va = res_bind (winlog_printf load False format va) (\<lambda>out. Inr (0, out))"

definition TraceMessage :: "(u64 \<Rightarrow> u32 option) \<Rightarrow> trace_msg list \<Rightarrow> guid \<Rightarrow> u16 \<Rightarrow> u64 list
    \<Rightarrow> (u32 \<times> (guid \<times> int \<times> piece list) option) result" where
  "TraceMessage load msgs g num va = res_bind (winlog_trace load msgs g (uint num) va) (\<lambda>out. Inr (0, out))"

definition WppAutoLogTrace :: "(u64 \<Rightarrow> u32 option) \<Rightarrow> trace_msg list \<Rightarrow> guid \<Rightarrow> u16 \<Rightarrow> u64 list
    \<Rightarrow> (u32 \<times> (guid \<times> int \<times> piece list) option) result" where
  "WppAutoLogTrace load msgs g num va = res_bind (winlog_trace load msgs g (uint num) va) (\<lambda>out. Inr (0, out))"

section \<open>Trace providers\<close>

text \<open>The handles that are allocated, with what is behind them; \<open>next_handle\<close> names the next one.\<close>

datatype trace_obj = Trace_guid guid | Trace_provider guid "nat list"

record trace_handles =
  trace_objs :: "nat \<Rightarrow> trace_obj option"
  next_handle :: nat

fun register_guids :: "guid list \<Rightarrow> trace_handles \<Rightarrow> nat list \<times> trace_handles" where
  "register_guids [] s = ([], s)"
| "register_guids (g # gs) s =
     (case register_guids gs (s\<lparr>trace_objs := (trace_objs s)(next_handle s \<mapsto> Trace_guid g),
                               next_handle := Suc (next_handle s)\<rparr>) of
        (hs, s1) \<Rightarrow> (next_handle s # hs, s1))"

text \<open>The status, the handles of the GUIDs, and the handle of the provider; \<open>errno\<close> when memory runs out.\<close>

definition RegisterTraceGuidsA :: "bool \<Rightarrow> u32 \<Rightarrow> guid \<Rightarrow> guid list \<Rightarrow> trace_handles
    \<Rightarrow> u32 \<times> nat list \<times> nat option \<times> trace_handles" where
  "RegisterTraceGuidsA mem_ok errno control gs s =
     (if \<not> mem_ok then (errno, [], None, s)
      else case register_guids gs s of
        (hs, s1) \<Rightarrow>
          (0, hs, Some (next_handle s1),
           s1\<lparr>trace_objs := (trace_objs s1)(next_handle s1 \<mapsto> Trace_provider control hs),
              next_handle := Suc (next_handle s1)\<rparr>))"

definition RegisterTraceGuidsW :: "bool \<Rightarrow> u32 \<Rightarrow> guid \<Rightarrow> guid list \<Rightarrow> trace_handles
    \<Rightarrow> u32 \<times> nat list \<times> nat option \<times> trace_handles" where
  "RegisterTraceGuidsW mem_ok errno control gs s = RegisterTraceGuidsA mem_ok errno control gs s"

fun destroy_handles :: "nat list \<Rightarrow> trace_handles \<Rightarrow> trace_handles result" where
  "destroy_handles [] s = Inr s"
| "destroy_handles (h # hs) s =
     (case trace_objs s h of
        Some (Trace_guid g) \<Rightarrow> destroy_handles hs (s\<lparr>trace_objs := (trace_objs s)(h := None)\<rparr>)
      | _ \<Rightarrow> Inl Fault)"

definition UnregisterTraceGuids :: "nat option \<Rightarrow> trace_handles \<Rightarrow> (u32 \<times> trace_handles) result" where
  "UnregisterTraceGuids handle s =
     (case handle of
        None \<Rightarrow> Inr (0, s)
      | Some h \<Rightarrow>
          (case trace_objs s h of
             Some (Trace_provider control hs) \<Rightarrow>
               res_bind (destroy_handles hs s) (\<lambda>s1. Inr (0, s1\<lparr>trace_objs := (trace_objs s1)(h := None)\<rparr>))
           | Some (Trace_guid g) \<Rightarrow> Inr (0, s\<lparr>trace_objs := (trace_objs s)(h := None)\<rparr>)
           | None \<Rightarrow> Inl Fault))"

definition GetTraceEnableLevel :: u32 where "GetTraceEnableLevel = 0"
definition GetTraceEnableFlags :: u32 where "GetTraceEnableFlags = 0"

section \<open>Properties\<close>

text \<open>A format as a list of tokens, how it is written, and what it means.\<close>

datatype token = Tok_lit byte | Tok_percent | Tok_d | Tok_u | Tok_x | Tok_p | Tok_s

fun token_text :: "token \<Rightarrow> byte list" where
  "token_text (Tok_lit b) = [b]"
| "token_text Tok_percent = [ch CHR ''%'', ch CHR ''%'']"
| "token_text Tok_d = [ch CHR ''%'', ch CHR ''d'']"
| "token_text Tok_u = [ch CHR ''%'', ch CHR ''u'']"
| "token_text Tok_x = [ch CHR ''%'', ch CHR ''x'']"
| "token_text Tok_p = [ch CHR ''%'', ch CHR ''p'']"
| "token_text Tok_s = [ch CHR ''%'', ch CHR ''s'']"

definition token_ok :: "token \<Rightarrow> bool" where
  "token_ok t = (case t of Tok_lit b \<Rightarrow> b \<noteq> 0 \<and> b \<noteq> ch CHR ''%'' | _ \<Rightarrow> True)"

text \<open>The arguments as values, and how the two modes pass them.\<close>

datatype arg = Num u32 | Ptr u64

definition pass_arg :: "(u32 \<Rightarrow> u64) \<Rightarrow> bool \<Rightarrow> arg \<Rightarrow> u64 list" where
  "pass_arg addr ptr_mode a =
     (case a of
        Num v \<Rightarrow> (if ptr_mode then [addr v, 4] else [ucast v])
      | Ptr p \<Rightarrow> (if ptr_mode then [p, 8] else [p]))"

fun meaning :: "token list \<Rightarrow> arg list \<Rightarrow> piece list option" where
  "meaning [] as = Some []"
| "meaning (Tok_lit b # ts) as = map_option ((#) (Lit b)) (meaning ts as)"
| "meaning (Tok_percent # ts) as = map_option ((#) (Lit (ch CHR ''%''))) (meaning ts as)"
| "meaning (Tok_d # ts) (Num v # as) = map_option ((#) (Out_d (sint v))) (meaning ts as)"
| "meaning (Tok_u # ts) (Num v # as) = map_option ((#) (Out_u v)) (meaning ts as)"
| "meaning (Tok_x # ts) (Num v # as) = map_option ((#) (Out_x v)) (meaning ts as)"
| "meaning (Tok_p # ts) (Ptr p # as) = map_option ((#) (Out_p p)) (meaning ts as)"
| "meaning (Tok_s # ts) (Ptr p # as) = map_option ((#) (Out_s p)) (meaning ts as)"
| "meaning _ _ = None"

lemma ch_simps [simp]:
  "ch CHR ''%'' = 0x25" "ch CHR ''d'' = 0x64" "ch CHR ''u'' = 0x75" "ch CHR ''x'' = 0x78"
  "ch CHR ''p'' = 0x70" "ch CHR ''s'' = 0x73"
  by (simp_all add: ch_def)

lemma ucast_back: "ucast (ucast (v :: u32) :: u64) = v"
  by (rule bit_word_eqI) (simp add: bit_unsigned_iff)

lemma num_arg_pass:
  "\<forall>v. load (addr v) = Some v \<Longrightarrow> num_arg load m (pass_arg addr m (Num v) @ va) = Inr (v, va)"
  by (simp add: num_arg_def pass_arg_def ucast_back)

lemma ptr_arg_pass: "ptr_arg m (pass_arg addr m (Ptr p) @ va) = Inr (p, va)"
  by (simp add: ptr_arg_def pass_arg_def)

text \<open>A literal is copied, whatever follows it.\<close>

lemma winlog_printf_lit:
  "b \<noteq> 0 \<Longrightarrow> b \<noteq> 0x25 \<Longrightarrow> cs \<noteq> [] \<Longrightarrow>
    winlog_printf load m (b # cs) va = res_bind (winlog_printf load m cs va) (\<lambda>rest. Inr (Lit b # rest))"
  by (cases cs) simp_all

lemma winlog_printf_spec:
  "winlog_printf load m (0x25 # c # cs) va =
    res_bind (print_spec load m c va) (\<lambda>(out, va'). res_bind (winlog_printf load m cs va') (\<lambda>rest. Inr (out @ rest)))"
  by simp

text \<open>
  For every format of literals and known specifiers with arguments of the right kinds, the formatter
  prints what the format means, in both modes of passing arguments, and never reads behind the
  terminator or the arguments.
\<close>

lemma log_format_is_meaning:
  assumes "list_all token_ok ts" and "meaning ts as = Some out" and "\<forall>v. load (addr v) = Some v"
  shows "winlog_printf load ptr_mode (concat (map token_text ts) @ 0 # behind)
      (concat (map (pass_arg addr ptr_mode) as) @ va) = Inr out"
  using assms(1,2)
proof (induction ts as arbitrary: out rule: meaning.induct)
  case (1 as)
  then show ?case by (cases behind) simp_all
qed (auto simp: token_ok_def winlog_printf_lit print_spec_def num_arg_pass[OF assms(3)] ptr_arg_pass)

lemma log_format_is_meaning_witness:
  "winlog_printf (\<lambda>p. Some (ucast p)) True
     ([0x3C, 0x2D, 0x20, 0x25, 0x73, 0x20, 0x5B, 0x30, 0x78, 0x25, 0x78, 0x5D, 0, 0x25] :: byte list) [0x7000, 8, 0x2A, 4]
   = Inr [Lit 0x3C, Lit 0x2D, Lit 0x20, Out_s 0x7000, Lit 0x20, Lit 0x5B, Lit 0x30, Lit 0x78, Out_x 0x2A, Lit 0x5D]"
  using log_format_is_meaning[of "[Tok_lit 0x3C, Tok_lit 0x2D, Tok_lit 0x20, Tok_s, Tok_lit 0x20, Tok_lit 0x5B,
      Tok_lit 0x30, Tok_lit 0x78, Tok_x, Tok_lit 0x5D]" "[Ptr 0x7000, Num 0x2A]" _ "\<lambda>p. Some (ucast p)" ucast True "[0x25]" "[]"]
  by (simp add: token_ok_def pass_arg_def ucast_back)

text \<open>A percent sign at the end: the loop goes on behind the terminator.\<close>

lemma trailing_percent_overreads:
  "\<forall>b \<in> set bs. b \<noteq> 0 \<and> b \<noteq> 0x25 \<Longrightarrow> winlog_printf load m (bs @ [0x25, 0]) va = Inl Fault"
  by (induction bs) (simp_all add: winlog_printf_lit print_spec_def)

text \<open>A message registered again replaces the one before; others are not touched.\<close>

lemma trace_msg_lookup:
  "find_trace_msg g num (winlog_register_trace_msg g' num' format msgs) =
     (if g' = g \<and> num' = num then Some \<lparr>tm_guid = g', tm_num = num', tm_format = format\<rparr> else find_trace_msg g num msgs)"
  by (simp add: winlog_register_trace_msg_def)

text \<open>Registering a provider and unregistering it leaves no handle behind.\<close>

lemma register_guids_fresh:
  assumes "register_guids gs s = (hs, s1)" and "\<forall>h \<ge> next_handle s. trace_objs s h = None"
  shows "next_handle s \<le> next_handle s1 \<and> (\<forall>h \<ge> next_handle s1. trace_objs s1 h = None) \<and>
    distinct hs \<and> set hs \<subseteq> {next_handle s ..< next_handle s1} \<and>
    (\<forall>h \<in> set hs. \<exists>g. trace_objs s1 h = Some (Trace_guid g)) \<and>
    (\<forall>h. h \<notin> set hs \<longrightarrow> trace_objs s1 h = trace_objs s h)"
  using assms
proof (induction gs arbitrary: s hs s1)
  case (Cons g gs)
  let ?s = "s\<lparr>trace_objs := (trace_objs s)(next_handle s \<mapsto> Trace_guid g), next_handle := Suc (next_handle s)\<rparr>"
  obtain ks where ks: "register_guids gs ?s = (ks, s1)" "hs = next_handle s # ks"
    using Cons.prems(1) by (auto split: prod.splits)
  have ih: "Suc (next_handle s) \<le> next_handle s1 \<and> (\<forall>h \<ge> next_handle s1. trace_objs s1 h = None) \<and>
      distinct ks \<and> set ks \<subseteq> {Suc (next_handle s) ..< next_handle s1} \<and>
      (\<forall>h \<in> set ks. \<exists>g. trace_objs s1 h = Some (Trace_guid g)) \<and>
      (\<forall>h. h \<notin> set ks \<longrightarrow> trace_objs s1 h = trace_objs ?s h)"
    using Cons.IH[OF ks(1)] Cons.prems(2) by simp
  moreover have "next_handle s \<notin> set ks" using ih by auto
  ultimately show ?case unfolding ks(2) by auto
qed auto

lemma destroy_handles_ok:
  assumes "distinct hs" and "\<forall>h \<in> set hs. \<exists>g. trace_objs s h = Some (Trace_guid g)"
  shows "destroy_handles hs s = Inr (s\<lparr>trace_objs := (\<lambda>h. if h \<in> set hs then None else trace_objs s h)\<rparr>)"
  using assms
proof (induction hs arbitrary: s)
  case (Cons h hs)
  then obtain g where "trace_objs s h = Some (Trace_guid g)" by auto
  moreover have "destroy_handles hs (s\<lparr>trace_objs := (trace_objs s)(h := None)\<rparr>)
      = Inr (s\<lparr>trace_objs := (\<lambda>k. if k \<in> set hs then None else ((trace_objs s)(h := None)) k)\<rparr>)"
  proof -
    have "\<forall>k \<in> set hs. \<exists>g. trace_objs (s\<lparr>trace_objs := (trace_objs s)(h := None)\<rparr>) k = Some (Trace_guid g)"
      using Cons.prems by auto
    then show ?thesis
      using Cons.IH[of "s\<lparr>trace_objs := (trace_objs s)(h := None)\<rparr>"] Cons.prems(1) by (simp cong: if_cong)
  qed
  moreover have "(\<lambda>k. if k \<in> set hs then None else ((trace_objs s)(h := None)) k)
      = (\<lambda>k. if k \<in> set (h # hs) then None else trace_objs s k)"
    by (rule ext) simp
  ultimately show ?case by simp
qed simp

lemma trace_provider_leaves_nothing:
  assumes "RegisterTraceGuidsA True errno control gs s = (st, hs, h, s1)" and "\<forall>k \<ge> next_handle s. trace_objs s k = None"
  shows "\<exists>s2. UnregisterTraceGuids h s1 = Inr (0, s2) \<and> trace_objs s2 = trace_objs s"
proof -
  obtain ks t where t: "register_guids gs s = (ks, t)" by fastforce
  then have s1: "h = Some (next_handle t)" "s1 = t\<lparr>trace_objs := (trace_objs t)(next_handle t \<mapsto> Trace_provider control ks),
      next_handle := Suc (next_handle t)\<rparr>"
    using assms(1) by (auto simp: RegisterTraceGuidsA_def)
  note f = register_guids_fresh[OF t assms(2)]
  have n: "next_handle t \<notin> set ks" "trace_objs t (next_handle t) = None" using f by auto
  have "destroy_handles ks s1 = Inr (s1\<lparr>trace_objs := (\<lambda>k. if k \<in> set ks then None else trace_objs s1 k)\<rparr>)"
    by (rule destroy_handles_ok) (use f n s1(2) in auto)
  moreover have "trace_objs s k = None" if "k \<in> set ks" for k using that f assms(2) by auto
  ultimately show ?thesis using s1 f n by (auto simp: UnregisterTraceGuids_def fun_eq_iff)
qed

end
