(* ===== verification/Win_Thread.thy ===== *)
theory Win_Thread
  imports Prelude
begin

text \<open>
  Threads of the emulated Windows (\<open>libtudor/src/winapi/thread.c\<close>): creation with or without suspension,
  the handshake with the new thread, resuming, waiting and closing.  One thread and its creator
  interleave in atomic steps, the critical sections of the thread's lock.  Errors of the lock and of
  \<open>pthread_create\<close> end the process and are left out.
\<close>

section \<open>State\<close>

definition CREATE_SUSPENDED :: u32 where "CREATE_SUSPENDED = 4"

text \<open>
  Where the thread is: before its first critical section, at \<open>thread_wait_resume\<close>, in its routine, done.
  Ghost: \<open>freed\<close>, the memory of the thread has been freed, and the counts of the resumes and of the times
  the routine was entered.
\<close>

datatype thread_pc = Thr_new | Thr_suspended | Thr_running | Thr_ended

record win_thread =
  thr_id :: u32
  thr_module :: "nat option"
  thr_pc :: thread_pc
  suspend_cntr :: int
  has_detached :: bool
  start_signalled :: bool
  freed :: bool
  resumes :: nat
  starts :: nat

definition CreateThread :: "u32 \<Rightarrow> nat option \<Rightarrow> win_thread" where
  "CreateThread flags module =
     \<lparr>thr_id = 0, thr_module = module, thr_pc = Thr_new,
      suspend_cntr = (if flags AND CREATE_SUSPENDED \<noteq> 0 then 1 else 0), has_detached = False,
      start_signalled = False, freed = False, resumes = 0, starts = 0\<rparr>"

section \<open>The thread\<close>

text \<open>
  One step of \<open>thread_entry\<close>: the first critical section, with the thread's number \<open>tid\<close>; then, while the
  counter is positive, the wait; then the routine; \<open>None\<close> when it cannot move.  The memory of the thread is
  used until the routine is entered.
\<close>

definition thread_entry :: "u32 \<Rightarrow> win_thread \<Rightarrow> win_thread option result" where
  "thread_entry tid t =
     (case thr_pc t of
        Thr_new \<Rightarrow>
          if freed t then Inl Fault
          else Inr (Some (t\<lparr>thr_id := tid, start_signalled := True, thr_pc := Thr_suspended\<rparr>))
      | Thr_suspended \<Rightarrow>
          if freed t then Inl Fault
          else if 0 < suspend_cntr t then Inr None
          else Inr (Some (t\<lparr>thr_pc := Thr_running, starts := Suc (starts t)\<rparr>))
      | Thr_running \<Rightarrow> Inr (Some (t\<lparr>thr_pc := Thr_ended\<rparr>))
      | Thr_ended \<Rightarrow> Inr None)"

section \<open>The other threads\<close>

text \<open>\<open>CreateThread\<close> ends its wait for the start; then it can hand out the number.\<close>

definition create_returns :: "win_thread \<Rightarrow> u32 option" where
  "create_returns t = (if start_signalled t then Some (thr_id t) else None)"

definition GetThreadId :: "win_thread \<Rightarrow> u32 result" where
  "GetThreadId t = (if freed t then Inl Fault else Inr (thr_id t))"

definition ResumeThread :: "win_thread \<Rightarrow> (u32 \<times> win_thread) result" where
  "ResumeThread t =
     (if freed t then Inl Fault
      else Inr (word_of_int (suspend_cntr t),
             t\<lparr>suspend_cntr := (if 0 < suspend_cntr t then suspend_cntr t - 1 else suspend_cntr t),
               resumes := Suc (resumes t)\<rparr>))"

text \<open>
  \<open>pthread_timedjoin_np\<close> as its manual has it: an absolute time, invalid nanoseconds are refused, an
  ended thread is joined, and a time that has passed is a timeout; \<open>now\<close> is the clock in seconds.  A wait
  with a time in the future ends when the thread does, or with the timeout.
\<close>

datatype joined = Join_ok | Join_einval | Join_timeout

definition timedjoin :: "nat \<Rightarrow> bool \<Rightarrow> nat \<Rightarrow> nat \<Rightarrow> thread_pc \<Rightarrow> joined" where
  "timedjoin now ends_in_time sec nsec pc =
     (if 1000000000 \<le> nsec then Join_einval
      else if pc = Thr_ended then Join_ok
      else if sec < now then Join_timeout
      else if ends_in_time then Join_ok else Join_timeout)"

definition WAIT_TIMEOUT :: u32 where "WAIT_TIMEOUT = 0x102"
definition INFINITE :: u32 where "INFINITE = 0xffffffff"

text \<open>\<open>cant_fail\<close> only stops at negative values, which error numbers are not.\<close>

definition thread_wait :: "nat \<Rightarrow> bool \<Rightarrow> u32 \<Rightarrow> win_thread \<Rightarrow> (u32 \<times> win_thread) option result" where
  "thread_wait now ends_in_time timeout t =
     (if freed t then Inl Fault
      else if has_detached t then Inr (Some (0, t))
      else if timeout = INFINITE then
        (if thr_pc t = Thr_ended then Inr (Some (0, t\<lparr>has_detached := True\<rparr>)) else Inr None)
      else case timedjoin now ends_in_time (unat timeout div 1000) (unat timeout * 10000000) (thr_pc t) of
        Join_timeout \<Rightarrow> Inr (Some (WAIT_TIMEOUT, t))
      | _ \<Rightarrow> Inr (Some (0, t\<lparr>has_detached := True\<rparr>)))"

text \<open>Closing the handle detaches the thread, and frees its memory at once.\<close>

definition thread_destr :: "win_thread \<Rightarrow> win_thread result" where
  "thread_destr t = (if freed t then Inl Fault else Inr (t\<lparr>has_detached := True, freed := True\<rparr>))"

text \<open>\<open>ExitThread\<close> and \<open>TerminateThread\<close> end the thread, in its routine or before.\<close>

definition ExitThread :: "win_thread \<Rightarrow> win_thread" where
  "ExitThread t = t\<lparr>thr_pc := Thr_ended\<rparr>"

definition TerminateThread :: "win_thread \<Rightarrow> (bool \<times> win_thread) result" where
  "TerminateThread t = (if freed t then Inl Fault else Inr (True, t\<lparr>thr_pc := Thr_ended\<rparr>))"

section \<open>Interleavings\<close>

datatype thread_op = Thread_step u32 | Resume | Wait nat bool u32 | Close

inductive thread_run :: "win_thread \<Rightarrow> thread_op list \<Rightarrow> win_thread \<Rightarrow> bool" where
  run_nil: "thread_run t [] t"
| run_step: "thread_entry tid t = Inr (Some t1) \<Longrightarrow> thread_run t1 ops t2 \<Longrightarrow> thread_run t (Thread_step tid # ops) t2"
| run_resume: "ResumeThread t = Inr (r, t1) \<Longrightarrow> thread_run t1 ops t2 \<Longrightarrow> thread_run t (Resume # ops) t2"
| run_wait: "thread_wait now w timeout t = Inr (Some (r, t1)) \<Longrightarrow> thread_run t1 ops t2 \<Longrightarrow>
    thread_run t (Wait now w timeout # ops) t2"
| run_close: "thread_destr t = Inr t1 \<Longrightarrow> thread_run t1 ops t2 \<Longrightarrow> thread_run t (Close # ops) t2"

inductive_cases thread_runE: "thread_run t ops t'"

section \<open>Properties\<close>

text \<open>
  The routine is entered at most once, and only with the counter at zero; the counter of a thread that
  was created suspended is one until the first resume.
\<close>

definition thread_inv :: "bool \<Rightarrow> win_thread \<Rightarrow> bool" where
  "thread_inv suspended t \<longleftrightarrow>
     suspend_cntr t = (if suspended \<and> resumes t = 0 then 1 else 0) \<and>
     (thr_pc t = Thr_new \<or> thr_pc t = Thr_suspended \<longrightarrow> starts t = 0) \<and>
     (thr_pc t = Thr_running \<or> thr_pc t = Thr_ended \<longrightarrow> starts t = 1) \<and>
     (starts t = 1 \<longrightarrow> \<not> suspended \<or> 0 < resumes t) \<and>
     (thr_pc t \<noteq> Thr_new \<longrightarrow> start_signalled t)"

lemma thread_inv_keep [simp]:
  "thread_inv suspended (t\<lparr>has_detached := d\<rparr>) = thread_inv suspended t"
  "thread_inv suspended (t\<lparr>has_detached := d, freed := f\<rparr>) = thread_inv suspended t"
  by (simp_all add: thread_inv_def)

lemma thread_wait_keeps:
  "thread_wait now w timeout t = Inr (Some (r, t1)) \<Longrightarrow> t1 = t \<or> t1 = t\<lparr>has_detached := True\<rparr>"
  by (auto simp: thread_wait_def split: if_splits joined.splits)

lemma thread_inv_run: "thread_run t ops t' \<Longrightarrow> thread_inv suspended t \<Longrightarrow> thread_inv suspended t'"
proof (induction rule: thread_run.induct)
  case (run_step tid t t1 ops t2)
  have "thread_inv suspended t1"
    using run_step(1,4) by (cases "thr_pc t") (auto simp: thread_entry_def thread_inv_def split: if_splits)
  then show ?case by (rule run_step(3))
next
  case (run_resume t r t1 ops t2)
  have "thread_inv suspended t1"
  proof -
    have t1: "t1 = t\<lparr>suspend_cntr := (if 0 < suspend_cntr t then suspend_cntr t - 1 else suspend_cntr t),
        resumes := Suc (resumes t)\<rparr>"
      using run_resume(1) by (simp add: ResumeThread_def split: if_splits)
    show ?thesis
      using run_resume(4) unfolding t1 thread_inv_def by (cases "suspended \<and> resumes t = 0") (simp_all, blast)
  qed
  then show ?case by (rule run_resume(3))
next
  case (run_wait now w timeout t r t1 ops t2)
  have "thread_inv suspended t1"
    using thread_wait_keeps[OF run_wait(1)] run_wait(4) by auto
  then show ?case by (rule run_wait(3))
next
  case (run_close t t1 ops t2)
  have "thread_inv suspended t1"
    using run_close(1,4) by (auto simp: thread_destr_def split: if_splits)
  then show ?case by (rule run_close(3))
qed

lemma thread_inv_create: "thread_inv (flags AND CREATE_SUSPENDED \<noteq> 0) (CreateThread flags m)"
  by (simp add: thread_inv_def CreateThread_def)

lemma resumes_counted: "thread_run t ops t' \<Longrightarrow> resumes t' = resumes t + length (filter (\<lambda>op. op = Resume) ops)"
proof (induction rule: thread_run.induct)
  case (run_step tid t t1 ops t2)
  then show ?case by (cases "thr_pc t") (auto simp: thread_entry_def split: if_splits)
next
  case (run_wait now w timeout t r t1 ops t2)
  then show ?case using thread_wait_keeps[OF run_wait(1)] by auto
qed (auto simp: ResumeThread_def thread_destr_def split: if_splits)

text \<open>
  In every interleaving the routine of a thread is entered at most once; for a thread that was created
  suspended only after a resume, which then is in the history; and whenever the creator has its answer,
  it is the thread's own number.
\<close>

lemma suspended_thread_waits_for_resume:
  assumes "thread_run (CreateThread flags m) ops t"
  shows "starts t \<le> 1 \<and>
    (starts t = 1 \<and> flags AND CREATE_SUSPENDED \<noteq> 0 \<longrightarrow> Resume \<in> set ops) \<and>
    (thr_pc t \<noteq> Thr_new \<longrightarrow> create_returns t = Some (thr_id t))"
proof -
  have inv: "thread_inv (flags AND CREATE_SUSPENDED \<noteq> 0) t"
    using thread_inv_run[OF assms thread_inv_create] .
  have r: "resumes t = length (filter (\<lambda>op. op = Resume) ops)"
    using resumes_counted[OF assms] by (simp add: CreateThread_def)
  have "Resume \<in> set ops" if "0 < resumes t"
  proof -
    have "filter (\<lambda>op. op = Resume) ops \<noteq> []" using that r by (metis length_0_conv less_irrefl)
    then show ?thesis by (simp add: filter_empty_conv)
  qed
  then show ?thesis using inv by (cases "thr_pc t") (auto simp: thread_inv_def create_returns_def)
qed

lemma suspended_thread_waits_for_resume_witness:
  "\<exists>t. thread_run (CreateThread 4 None) [Thread_step 7, Resume, Thread_step 7] t \<and> starts t \<le> 1 \<and>
    create_returns t = Some (thr_id t) \<and> thr_pc t = Thr_running"
proof -
  let ?t1 = "(CreateThread 4 None)\<lparr>thr_id := 7, start_signalled := True, thr_pc := Thr_suspended\<rparr>"
  let ?t2 = "?t1\<lparr>suspend_cntr := 0, resumes := 1\<rparr>"
  let ?t3 = "?t2\<lparr>thr_pc := Thr_running, starts := 1\<rparr>"
  have s: "thread_entry 7 (CreateThread 4 None) = Inr (Some ?t1)" "ResumeThread ?t1 = Inr (1, ?t2)"
    "thread_entry 7 ?t2 = Inr (Some ?t3)"
    by (simp_all add: thread_entry_def CreateThread_def CREATE_SUSPENDED_def ResumeThread_def)
  have "thread_run (CreateThread 4 None) [Thread_step 7, Resume, Thread_step 7] ?t3"
    by (rule run_step[OF s(1) run_resume[OF s(2) run_step[OF s(3) run_nil]]])
  then show ?thesis
    using suspended_thread_waits_for_resume[of 4 None "[Thread_step 7, Resume, Thread_step 7]" ?t3]
    by (intro exI[of _ ?t3]) simp
qed

text \<open>
  A wait with a time: below a tenth of a second it gives up at once, because the time is taken as one
  of the year 1970; from there on the nanoseconds are invalid, the error is not noticed, and the wait
  reports that the running thread has ended.
\<close>

lemma timed_wait_is_wrong:
  assumes "\<not> freed t" and "\<not> has_detached t" and "thr_pc t = Thr_running" and "timeout \<noteq> INFINITE" and "0 < now"
  shows "thread_wait now w timeout t =
    Inr (Some (if unat timeout < 100 then (WAIT_TIMEOUT, t) else (0, t\<lparr>has_detached := True\<rparr>)))"
  using assms by (auto simp: thread_wait_def timedjoin_def split: joined.splits)

text \<open>A handle that is closed while the thread is suspended: the thread uses freed memory.\<close>

lemma closing_suspended_thread_faults:
  "thr_pc t = Thr_suspended \<Longrightarrow> thread_destr t = Inr t' \<Longrightarrow> thread_entry tid t' = Inl Fault"
  by (auto simp: thread_destr_def thread_entry_def split: if_splits)

end
