(* ===== verification/Win_System.thy ===== *)
theory Win_System
  imports Device_State Win_Strings Multi_String
begin

text \<open>
  The small libraries of the emulated Windows: the heap (\<open>heap.c\<close>), time (\<open>time.c\<close>), system
  information with the SMBIOS table (\<open>system.c\<close>), UUIDs (\<open>rpcrt4.c\<close>), security identifiers
  (\<open>security.c\<close>), and the functions that always give the same answer (\<open>user32.c\<close>, \<open>power.c\<close>,
  \<open>suspend.c\<close>, \<open>wtsapi.c\<close>, \<open>console.c\<close>, \<open>prop.c\<close>, \<open>list.c\<close>), all under \<open>libtudor/src/winapi\<close>.
  A block of memory is the list of its bytes; an output pointer is an option, \<open>None\<close> for NULL.
\<close>

section \<open>Heap\<close>

definition PROC_HEAP_HANDLE :: u64 where "PROC_HEAP_HANDLE = 0x50524f4348454150"
definition HEAP_GENERATE_EXCEPTIONS :: u32 where "HEAP_GENERATE_EXCEPTIONS = 4"
definition HEAP_ZERO_MEMORY :: u32 where "HEAP_ZERO_MEMORY = 8"

definition GetProcessHeap :: u64 where "GetProcessHeap = PROC_HEAP_HANDLE"

text \<open>
  The results are the block and the error code that is set, if one is.  \<open>malloc\<close> gives the new block
  with what happens to be in it, or nothing.
\<close>

definition HeapAlloc :: "(nat \<Rightarrow> byte list option) \<Rightarrow> u32 \<Rightarrow> u64 \<Rightarrow> u32 \<Rightarrow> nat
    \<Rightarrow> (byte list option \<times> u32 option) result" where
  "HeapAlloc malloc errno heap flags n =
     (if heap \<noteq> PROC_HEAP_HANDLE then Inr (None, Some WINERR_SET_CODE)
      else case malloc n of
        Some mem \<Rightarrow>
          Inr (Some (if flags AND HEAP_ZERO_MEMORY \<noteq> 0 then replicate n 0 @ drop n mem else mem), None)
      | None \<Rightarrow>
          if flags AND HEAP_GENERATE_EXCEPTIONS \<noteq> 0 then Inl Abort else Inr (None, Some errno))"

definition HeapFree :: "u64 \<Rightarrow> bool \<times> u32 option" where
  "HeapFree heap = (if heap \<noteq> PROC_HEAP_HANDLE then (False, Some WINERR_SET_CODE) else (True, None))"

text \<open>\<open>usable\<close> is \<open>malloc_usable_size\<close>, at least the size that was asked for.\<close>

definition HeapSize :: "(nat \<Rightarrow> nat) \<Rightarrow> u64 \<Rightarrow> nat \<Rightarrow> nat option \<times> u32 option" where
  "HeapSize usable heap n =
     (if heap \<noteq> PROC_HEAP_HANDLE then (None, Some WINERR_SET_CODE) else (Some (usable n), None))"

text \<open>The new block, as \<open>realloc\<close> returns it, is asked for its size: not the old one.\<close>

definition HeapReAlloc :: "(byte list \<Rightarrow> nat \<Rightarrow> byte list option) \<Rightarrow> (nat \<Rightarrow> nat) \<Rightarrow> u32 \<Rightarrow> u64 \<Rightarrow> u32
    \<Rightarrow> byte list \<Rightarrow> nat \<Rightarrow> (byte list option \<times> u32 option) result" where
  "HeapReAlloc realloc usable errno heap flags mem n =
     (if heap \<noteq> PROC_HEAP_HANDLE then Inr (None, Some WINERR_SET_CODE)
      else case realloc mem n of
        Some new_mem \<Rightarrow>
          let old_size = usable n in
          Inr (Some (if flags AND HEAP_ZERO_MEMORY \<noteq> 0 \<and> old_size < n
                     then take old_size new_mem @ replicate (n - old_size) 0 @ drop n new_mem else new_mem), None)
      | None \<Rightarrow>
          if flags AND HEAP_GENERATE_EXCEPTIONS \<noteq> 0 then Inl Abort else Inr (None, Some errno))"

section \<open>Time\<close>

record timespec =
  tv_sec :: u64
  tv_nsec :: u64

text \<open>The seconds count as millions, the nanoseconds as they are.\<close>

definition QueryPerformanceCounter :: "timespec option \<Rightarrow> u32 \<Rightarrow> (u64 + u32)" where
  "QueryPerformanceCounter clock errno =
     (case clock of None \<Rightarrow> Inr errno | Some t \<Rightarrow> Inl (tv_sec t * 1000000 + tv_nsec t))"

definition GetTickCount :: "timespec option \<Rightarrow> u32 result" where
  "GetTickCount clock =
     (case QueryPerformanceCounter clock 0 of Inl counter \<Rightarrow> Inr (ucast counter) | Inr errno \<Rightarrow> Inl Abort)"

record filetime =
  dwLowDateTime :: u32
  dwHighDateTime :: u32

definition GetSystemTimeAsFileTime :: "u64 \<Rightarrow> u64 \<Rightarrow> filetime" where
  "GetSystemTimeAsFileTime sec usec =
     (let us = sec * 10000 + usec in
      \<lparr>dwLowDateTime = ucast us, dwHighDateTime = ucast (drop_bit 32 us)\<rparr>)"

section \<open>System information\<close>

record os_version =
  ver_size :: u32
  ver_major :: u32
  ver_minor :: u32
  ver_build :: u32
  ver_platform :: u32

definition RtlGetVersion :: "u32 \<times> os_version" where
  "RtlGetVersion = (0, \<lparr>ver_size = 276, ver_major = 10, ver_minor = 0, ver_build = 17134, ver_platform = 2\<rparr>)"

record system_info =
  wProcessorArchitecture :: u16
  dwPageSize :: u32
  lpMinimumApplicationAddress :: u64
  lpMaximumApplicationAddress :: u64
  dwActiveProcessorMask :: u64
  dwNumberOfProcessors :: u32
  dwProcessorType :: u32
  dwAllocationGranularity :: u32
  wProcessorLevel :: u16
  wProcessorRevision :: u16

definition GetSystemInfo :: system_info where
  "GetSystemInfo =
     \<lparr>wProcessorArchitecture = 9, dwPageSize = 4096, lpMinimumApplicationAddress = 0,
      lpMaximumApplicationAddress = - 1, dwActiveProcessorMask = 1, dwNumberOfProcessors = 1,
      dwProcessorType = 8664, dwAllocationGranularity = 8, wProcessorLevel = 0, wProcessorRevision = 0\<rparr>"

definition VerSetConditionMask :: "u64 \<Rightarrow> u32 \<Rightarrow> byte \<Rightarrow> u64" where
  "VerSetConditionMask cond_mask type_mask condition = cond_mask"

definition VerifyVersionInfoW :: "u64 \<Rightarrow> u32 \<Rightarrow> u64 \<Rightarrow> bool" where
  "VerifyVersionInfoW msk type_mask cond_mask = True"

definition ConvertStringSecurityDescriptorToSecurityDescriptorW :: "u32 option \<Rightarrow> bool \<times> u32 option" where
  "ConvertStringSecurityDescriptorToSecurityDescriptorW descrpt_size = (True, map_option (\<lambda>_. 0) descrpt_size)"

text \<open>The strings of the first structure of the SMBIOS table.\<close>

definition smbios_strings :: "byte list list" where
  "smbios_strings = [char_bytes ''Lenovo'', char_bytes ''X1 Fold'', char_bytes ''1.0'', char_bytes ''TUDOR001'',
     char_bytes ''SKU001'', char_bytes ''ThinkPad'']"

definition smbios_type1 :: "byte list" where
  "smbios_type1 = [0x01, 0x1B, 0x01, 0x00, 0x01, 0x02, 0x03, 0x04,
     0x12, 0x34, 0x56, 0x78, 0x9a, 0xbc, 0xde, 0xf0, 0x11, 0x22, 0x33, 0x44, 0x55, 0x66, 0x77, 0x88,
     0x06, 0x05, 0x06]"

definition smbios_end :: "byte list" where
  "smbios_end = [0x7F, 0x04, 0xFF, 0xFF, 0x00, 0x00]"

definition smbios_data :: "byte list" where
  "smbios_data = [0x00, 0x03, 0x02, 0x00, 0x00, 0x00, 0x00, 0x00] @ smbios_type1 @
     concat (map (\<lambda>s. s @ [0]) smbios_strings) @ [0] @ smbios_end"

definition patched_data :: "byte list" where
  "patched_data = splice smbios_data 4 (le_bytes 4 (length smbios_data - 8))"

definition GetSystemFirmwareTable :: "byte list option \<Rightarrow> u32 \<Rightarrow> (u32 \<times> byte list option \<times> u32 option) result" where
  "GetSystemFirmwareTable buf buf_size =
     (let total = length patched_data in
      case buf of
        None \<Rightarrow> Inr (of_nat total, None, Some 122)
      | Some b \<Rightarrow>
          if unat buf_size < total then Inr (of_nat total, Some b, Some 122)
          else if length b < total then Inl Fault
          else Inr (of_nat total, Some (patched_data @ drop total b), None))"

definition GetTimeZoneInformation :: "byte list option \<Rightarrow> u32 \<times> byte list option" where
  "GetTimeZoneInformation tz_info = (0, map_option (\<lambda>b. replicate 172 0 @ drop 172 b) tz_info)"

text \<open>A name into a buffer with room for \<open>n\<close> characters: its length, or the room it needs.\<close>

definition put_name :: "byte list \<Rightarrow> byte list option \<Rightarrow> u32 \<Rightarrow> (u32 \<times> byte list option) result" where
  "put_name name buf n =
     (case buf of
        Some b \<Rightarrow>
          if length name < unat n then
            (if length b < length name + 1 then Inl Fault
             else Inr (of_nat (length name), Some (name @ [0] @ drop (length name + 1) b)))
          else Inr (of_nat (length name) + 1, buf)
      | None \<Rightarrow> Inr (of_nat (length name) + 1, None))"

definition GetSystemDirectoryA :: "byte list option \<Rightarrow> u32 \<Rightarrow> (u32 \<times> byte list option) result" where
  "GetSystemDirectoryA buf n = put_name (char_bytes (''C:'' @ [CHR 0x5C] @ ''Windows'' @ [CHR 0x5C] @ ''System32'')) buf n"

definition GetCurrentDirectoryA :: "u32 \<Rightarrow> byte list option \<Rightarrow> (u32 \<times> byte list option) result" where
  "GetCurrentDirectoryA buf_size buf = put_name (char_bytes (''C:'' @ [CHR 0x5C])) buf buf_size"

section \<open>UUIDs\<close>

text \<open>The characters are cut to seven bits and to the 63 that fit.\<close>

fun uuid_buf :: "nat \<Rightarrow> u16 list \<Rightarrow> byte list result" where
  "uuid_buf 0 str = Inr []"
| "uuid_buf (Suc k) [] = Inl Fault"
| "uuid_buf (Suc k) (c # cs) = (if c = 0 then Inr [] else res_bind (uuid_buf k cs) (\<lambda>r. Inr (ucast (c AND 0x7F) # r)))"

definition hex_value :: "byte \<Rightarrow> nat option" where
  "hex_value c =
     (if 48 \<le> c \<and> c \<le> 57 then Some (unat c - 48)
      else if 97 \<le> c \<and> c \<le> 102 then Some (unat c - 87)
      else if 65 \<le> c \<and> c \<le> 70 then Some (unat c - 55)
      else None)"

fun hex_digits :: "nat \<Rightarrow> nat \<Rightarrow> byte list \<Rightarrow> nat \<times> byte list" where
  "hex_digits 0 acc cs = (acc, cs)"
| "hex_digits (Suc w) acc [] = (acc, [])"
| "hex_digits (Suc w) acc (c # cs) =
     (case hex_value c of None \<Rightarrow> (acc, c # cs) | Some d \<Rightarrow> hex_digits w (16 * acc + d) cs)"

definition is_space :: "byte \<Rightarrow> bool" where
  "is_space c \<longleftrightarrow> c = 32 \<or> 9 \<le> c \<and> c \<le> 13"

text \<open>
  The conversion \<open>%x\<close> of \<open>sscanf\<close> with a width: white space, a sign, the prefix \<open>0x\<close>, digits; the
  value is an \<open>unsigned int\<close>.
\<close>

definition scan_prefix :: "nat \<Rightarrow> byte list \<Rightarrow> nat \<times> byte list" where
  "scan_prefix w cs =
     (case cs of
        z # x # cs' \<Rightarrow> (if 2 \<le> w \<and> z = 48 \<and> (x = 120 \<or> x = 88) then (w - 2, cs') else (w, cs))
      | _ \<Rightarrow> (w, cs))"

definition scan_digits :: "nat \<Rightarrow> byte list \<Rightarrow> (nat \<times> byte list) option" where
  "scan_digits w cs =
     (case scan_prefix w cs of (w', cs') \<Rightarrow>
        case cs' of
          [] \<Rightarrow> None
        | c # _ \<Rightarrow> if w' = 0 \<or> hex_value c = None then None else Some (hex_digits w' 0 cs'))"

definition scan_hex :: "nat \<Rightarrow> byte list \<Rightarrow> (u32 \<times> byte list) option" where
  "scan_hex w cs =
     (case dropWhile is_space cs of
        [] \<Rightarrow> None
      | c # cs' \<Rightarrow>
          if c = 45 then map_option (\<lambda>(n, r). (- of_nat n, r)) (scan_digits (w - 1) cs')
          else if c = 43 then map_option (\<lambda>(n, r). (of_nat n, r)) (scan_digits (w - 1) cs')
          else map_option (\<lambda>(n, r). (of_nat n, r)) (scan_digits w (c # cs')))"

text \<open>A format of conversions, each with its width, and of characters that must match.\<close>

datatype scan_item = Hex nat | Match byte

fun sscanf :: "scan_item list \<Rightarrow> byte list \<Rightarrow> u32 list" where
  "sscanf [] cs = []"
| "sscanf (Hex w # fs) cs = (case scan_hex w cs of None \<Rightarrow> [] | Some (v, r) \<Rightarrow> v # sscanf fs r)"
| "sscanf (Match b # fs) cs = (case cs of [] \<Rightarrow> [] | c # cs' \<Rightarrow> if c = b then sscanf fs cs' else [])"

definition uuid_format :: "scan_item list" where
  "uuid_format = [Hex 8, Match 45, Hex 4, Match 45, Hex 4, Match 45, Hex 2, Hex 2, Match 45,
     Hex 2, Hex 2, Hex 2, Hex 2, Hex 2, Hex 2]"

definition RPC_S_OK :: u32 where "RPC_S_OK = 0"
definition RPC_S_INVALID_STRING_UUID :: u32 where "RPC_S_INVALID_STRING_UUID = 1705"

definition UuidFromStringW :: "u16 list option \<Rightarrow> guid option \<Rightarrow> (u32 \<times> guid option) result" where
  "UuidFromStringW str uuid =
     (case (str, uuid) of
        (Some s, Some _) \<Rightarrow>
          res_bind (uuid_buf 63 s) (\<lambda>buf.
          case sscanf uuid_format buf of
            [a, b, c, d0, d1, e0, e1, e2, e3, e4, e5] \<Rightarrow>
              Inr (RPC_S_OK, Some
                \<lparr>PartA = a, PartB = ucast b, PartC = ucast c,
                 PartD = ucast (d0 AND 0xFF) OR push_bit 8 (ucast (d1 AND 0xFF)),
                 PartE = ucast (e0 AND 0xFF) OR push_bit 8 (ucast (e1 AND 0xFF)) OR
                   push_bit 16 (ucast (e2 AND 0xFF)) OR push_bit 24 (ucast (e3 AND 0xFF)) OR
                   push_bit 32 (ucast (e4 AND 0xFF)) OR push_bit 40 (ucast (e5 AND 0xFF))\<rparr>)
          | _ \<Rightarrow> Inr (RPC_S_INVALID_STRING_UUID, uuid))
      | _ \<Rightarrow> Inr (RPC_S_INVALID_STRING_UUID, uuid))"

section \<open>Security\<close>

record sid =
  Revision :: byte
  SubAuthorityCount :: byte
  IdentifierAuthority :: "byte list"
  SubAuthority :: "u32 list"

text \<open>Only the first four of the eight sub-authorities are stored.\<close>

definition AllocateAndInitializeSid :: "bool \<Rightarrow> byte list option \<Rightarrow> byte \<Rightarrow> u32 list \<Rightarrow> sid option \<times> bool" where
  "AllocateAndInitializeSid mem_ok authority n as =
     (if \<not> mem_ok then (None, False)
      else (Some \<lparr>Revision = 1, SubAuthorityCount = n,
              IdentifierAuthority = (case authority of None \<Rightarrow> replicate 6 0 | Some a \<Rightarrow> take 6 a),
              SubAuthority = map (\<lambda>i. if i < 4 \<and> i < unat n then as ! i else 0) [0..<8]\<rparr>, True))"

definition InitializeSecurityDescriptor :: "byte list option \<Rightarrow> bool \<times> byte list option" where
  "InitializeSecurityDescriptor sd = (True, map_option (\<lambda>b. replicate 40 0 @ drop 40 b) sd)"

definition SetSecurityDescriptorDacl :: bool where "SetSecurityDescriptorDacl = True"

definition SetEntriesInAclA :: "bool \<Rightarrow> u32 \<Rightarrow> byte list option option \<Rightarrow> u32 \<times> byte list option option" where
  "SetEntriesInAclA mem_ok errno new_acl =
     (if \<not> mem_ok then (errno, new_acl) else (0, map_option (\<lambda>_. Some (replicate 8 0)) new_acl))"

section \<open>Constant answers\<close>

definition ERROR_CALL_NOT_IMPLEMENTED :: u32 where "ERROR_CALL_NOT_IMPLEMENTED = 0x78"

definition balanced_scheme :: guid where
  "balanced_scheme = \<lparr>PartA = 0x381b4222, PartB = 0xf694, PartC = 0x41f0, PartD = 0x8682, PartE = 0x7b0609e633a9\<rparr>"

definition PowerGetActiveScheme :: "bool \<Rightarrow> guid option option \<Rightarrow> u32 \<times> guid option option" where
  "PowerGetActiveScheme mem_ok out =
     (case out of
        Some _ \<Rightarrow> if mem_ok then (0, Some (Some balanced_scheme)) else (ERROR_CALL_NOT_IMPLEMENTED, out)
      | None \<Rightarrow> (ERROR_CALL_NOT_IMPLEMENTED, None))"

definition CallNtPowerInformation :: "byte list option \<Rightarrow> u32 \<Rightarrow> u32 \<times> byte list option" where
  "CallNtPowerInformation out_buf out_size =
     (0, map_option (\<lambda>b. replicate (unat out_size) 0 @ drop (unat out_size) b) out_buf)"

definition PowerReadACValueIndex :: "u32 option \<Rightarrow> u32 \<times> u32 option" where
  "PowerReadACValueIndex v = (0, map_option (\<lambda>_. 0) v)"

definition PowerReadDCValueIndex :: "u32 option \<Rightarrow> u32 \<times> u32 option" where
  "PowerReadDCValueIndex v = (0, map_option (\<lambda>_. 0) v)"

definition PowerRegisterSuspendResumeNotification :: "u32 \<times> u64" where
  "PowerRegisterSuspendResumeNotification = (0, 0)"

definition PowerUnregisterSuspendResumeNotification :: u32 where
  "PowerUnregisterSuspendResumeNotification = 0"

definition WTSRegisterSessionNotification :: bool where "WTSRegisterSessionNotification = True"
definition WTSUnRegisterSessionNotification :: bool where "WTSUnRegisterSessionNotification = True"

definition WTSQuerySessionInformationW :: "bool \<Rightarrow> u16 list option option \<Rightarrow> u32 option
    \<Rightarrow> bool \<times> u16 list option option \<times> u32 option" where
  "WTSQuerySessionInformationW mem_ok buf n =
     (True, map_option (\<lambda>_. if mem_ok then Some [0] else None) buf, map_option (\<lambda>_. 2) n)"

definition GetConsoleCP :: u32 where "GetConsoleCP = 65001"
definition GetConsoleOutputCP :: u32 where "GetConsoleOutputCP = 65001"

definition GetConsoleMode :: "u32 option \<Rightarrow> bool \<times> u32 option" where
  "GetConsoleMode mode = (False, map_option (\<lambda>_. 0) mode)"

definition SetConsoleMode :: bool where "SetConsoleMode = False"

definition GetNumberOfConsoleInputEvents :: "u32 option \<Rightarrow> bool \<times> u32 option" where
  "GetNumberOfConsoleInputEvents n = (False, map_option (\<lambda>_. 0) n)"

definition PeekConsoleInputA :: "u32 option \<Rightarrow> bool \<times> u32 option" where
  "PeekConsoleInputA n = (False, map_option (\<lambda>_. 0) n)"

definition ReadConsoleInputW :: "u32 option \<Rightarrow> bool \<times> u32 option" where
  "ReadConsoleInputW n = (False, map_option (\<lambda>_. 0) n)"

definition ReadConsoleW :: "u32 option \<Rightarrow> bool \<times> u32 option" where
  "ReadConsoleW n = (False, map_option (\<lambda>_. 0) n)"

definition WriteConsoleW :: "u32 \<Rightarrow> u32 option \<Rightarrow> bool \<times> u32 option" where
  "WriteConsoleW chars_to_write n = (True, map_option (\<lambda>_. chars_to_write) n)"

text \<open>Windows: \<open>GetMessageW\<close> sleeps for ever, the rest is constant.\<close>

definition FAKE_HWND :: u64 where "FAKE_HWND = 0xCAFE"
definition FAKE_ATOM :: u16 where "FAKE_ATOM = 0xBEEF"
definition FAKE_POWER_HANDLE :: u64 where "FAKE_POWER_HANDLE = 0xD00D"
definition RegisterClassExW :: u16 where "RegisterClassExW = FAKE_ATOM"
definition UnregisterClassW :: bool where "UnregisterClassW = True"
definition CreateWindowExW :: u64 where "CreateWindowExW = FAKE_HWND"
definition DestroyWindow :: bool where "DestroyWindow = True"
definition DefWindowProcW :: u64 where "DefWindowProcW = 0"
definition CallWindowProcW :: u64 where "CallWindowProcW = 0"
definition GetMessageW :: "bool result" where "GetMessageW = Inl Hang"
definition TranslateMessage :: bool where "TranslateMessage = False"
definition DispatchMessageW :: u64 where "DispatchMessageW = 0"
definition PostThreadMessageW :: bool where "PostThreadMessageW = True"
definition GetWindowLongPtrW :: u64 where "GetWindowLongPtrW = 0"
definition SetWindowLongPtrW :: u64 where "SetWindowLongPtrW = 0"
definition RegisterPowerSettingNotification :: u64 where "RegisterPowerSettingNotification = FAKE_POWER_HANDLE"
definition UnregisterPowerSettingNotification :: bool where "UnregisterPowerSettingNotification = True"

definition BeginPaint :: "byte list option \<Rightarrow> u64 \<times> byte list option" where
  "BeginPaint ps = (0, map_option (\<lambda>b. replicate 72 0 @ drop 72 b) ps)"

definition EndPaint :: bool where "EndPaint = True"

text \<open>The header of an interlocked list, and a variant.\<close>

definition InitializeSListHead :: "'a option \<Rightarrow> 'a option" where
  "InitializeSListHead header = None"

definition InterlockedFlushSList :: "'a option \<Rightarrow> 'a option \<times> 'a option" where
  "InterlockedFlushSList header = (header, None)"

definition PropVariantClear :: "byte list \<Rightarrow> u32 \<times> byte list" where
  "PropVariantClear pvar = (0, replicate 16 0 @ drop 16 pvar)"

section \<open>Properties\<close>

text \<open>Memory of the heap is zero when that is asked for; memory that grows never is.\<close>

lemma heap_alloc_zero:
  assumes "malloc n = Some mem" and "length mem = n" and "flags AND HEAP_ZERO_MEMORY \<noteq> 0"
  shows "HeapAlloc malloc errno PROC_HEAP_HANDLE flags n = Inr (Some (replicate n 0), None)"
  using assms by (simp add: HeapAlloc_def)

lemma heap_realloc_never_zeroes:
  assumes "\<forall>k. k \<le> usable k" and "realloc mem n = Some new_mem"
  shows "HeapReAlloc realloc usable errno PROC_HEAP_HANDLE flags mem n = Inr (Some new_mem, None)"
proof -
  have "\<not> usable n < n" using assms(1) by (simp add: not_less)
  then show ?thesis using assms(2) by (simp add: HeapReAlloc_def Let_def)
qed

text \<open>The performance counter runs backwards at the end of a second.\<close>

lemma counter_runs_backwards:
  "QueryPerformanceCounter (Some \<lparr>tv_sec = 5, tv_nsec = 999999999\<rparr>) 0 = Inl 1004999999"
  "QueryPerformanceCounter (Some \<lparr>tv_sec = 6, tv_nsec = 0\<rparr>) 0 = Inl 6000000"
  by (simp_all add: QueryPerformanceCounter_def)

text \<open>
  The SMBIOS table: the header tells the length of what follows, the first structure tells its own
  length, and behind it are the strings it refers to.
\<close>

lemma smbios_data_parts:
  "smbios_data = [0, 3, 2, 0] @ [0, 0, 0, 0] @ smbios_type1 @ multi_string smbios_strings @ smbios_end"
  by (simp add: smbios_data_def multi_string_def)

lemma length_smbios: "length smbios_data = 86"
  by (simp add: smbios_data_def smbios_type1_def smbios_end_def smbios_strings_def char_bytes_def)

lemma patched_parts:
  "patched_data = [0, 3, 2, 0, 78, 0, 0, 0] @ smbios_type1 @ multi_string smbios_strings @ smbios_end"
proof -
  have "le_bytes 4 78 = [78, 0, 0, 0]" by code_simp
  then show ?thesis
    by (simp add: patched_data_def length_smbios) (simp add: smbios_data_parts splice_def)
qed

lemma length_patched: "length patched_data = 86"
  using length_smbios by (simp add: patched_parts smbios_data_parts)

text \<open>
  The firmware table that is handed out is well formed: a call with the size the first call named
  succeeds, the length in the header is that of what follows it, the first structure is as long as it
  says, the six strings it refers to follow it in order, and behind them is the end-of-table structure.
\<close>

lemma firmware_table_is_parsed:
  assumes "GetSystemFirmwareTable None 0 = Inr (n, out, err)" and "length b = unat n"
  shows "\<exists>t. GetSystemFirmwareTable (Some b) n = Inr (n, Some t, None) \<and> length t = unat n \<and>
    le_nat (take 4 (drop 4 t)) = length (drop 8 t) \<and>
    t ! 8 = 1 \<and> unat (t ! 9) = length smbios_type1 \<and>
    multi_strings [] (drop (8 + unat (t ! 9)) t) = smbios_strings \<and>
    t ! (8 + unat (t ! 9) + length (multi_string smbios_strings)) = 0x7F"
proof -
  have n: "n = 86" using assms(1) by (simp add: GetSystemFirmwareTable_def length_patched)
  have t1: "length smbios_type1 = 27" "smbios_type1 ! 0 = 1" "smbios_type1 ! 1 = 27"
    by (simp_all add: smbios_type1_def)
  have "GetSystemFirmwareTable (Some b) n = Inr (n, Some patched_data, None)"
    using assms(2) n by (simp add: GetSystemFirmwareTable_def length_patched)
  moreover have "patched_data ! 8 = 1" "patched_data ! 9 = 27"
    using t1 by (simp_all add: patched_parts nth_append)
  moreover have "drop 35 patched_data = multi_string smbios_strings @ smbios_end"
    using t1 by (simp add: patched_parts)
  moreover have "multi_strings [] (multi_string smbios_strings @ smbios_end) = smbios_strings"
    by (rule multi_strings_multi_string) (simp add: smbios_strings_def char_bytes_def)
  moreover have "patched_data ! (35 + length (multi_string smbios_strings)) = 0x7F"
    using t1 by (simp add: patched_parts nth_append smbios_end_def)
  moreover have "le_nat (take 4 (drop 4 patched_data)) = 78" by (simp add: patched_parts)
  ultimately show ?thesis using n length_patched t1 by (intro exI[of _ patched_data]) simp
qed

lemma firmware_table_is_parsed_witness:
  "\<exists>t. GetSystemFirmwareTable (Some (replicate 86 0)) 86 = Inr (86, Some t, None) \<and> length t = unat (86 :: u32) \<and>
    le_nat (take 4 (drop 4 t)) = length (drop 8 t) \<and>
    t ! 8 = 1 \<and> unat (t ! 9) = length smbios_type1 \<and>
    multi_strings [] (drop (8 + unat (t ! 9)) t) = smbios_strings \<and>
    t ! (8 + unat (t ! 9) + length (multi_string smbios_strings)) = 0x7F"
  by (rule firmware_table_is_parsed[where out = None and err = "Some 122"])
    (simp_all add: GetSystemFirmwareTable_def length_patched)

subsection \<open>UUIDs\<close>

definition hex_char :: "nat \<Rightarrow> byte" where
  "hex_char d = (if d < 10 then of_nat (48 + d) else of_nat (87 + d))"

fun hex_text :: "nat \<Rightarrow> nat \<Rightarrow> byte list" where
  "hex_text 0 n = []"
| "hex_text (Suc w) n = hex_text w (n div 16) @ [hex_char (n mod 16)]"

lemma hex_chars_ok:
  "\<forall>d \<in> set [0..<16]. hex_value (hex_char d) = Some d \<and> \<not> is_space (hex_char d) \<and>
     hex_char d \<noteq> 43 \<and> hex_char d \<noteq> 45 \<and> hex_char d \<noteq> 88 \<and> hex_char d \<noteq> 120 \<and> hex_char d \<noteq> 0 \<and> hex_char d < 128"
  by code_simp

lemma hex_char_simps:
  assumes "d < 16"
  shows "hex_value (hex_char d) = Some d" "\<not> is_space (hex_char d)" "hex_char d \<noteq> 43" "hex_char d \<noteq> 45"
    "hex_char d \<noteq> 88" "hex_char d \<noteq> 120" "hex_char d \<noteq> 0" "hex_char d < 128"
  using hex_chars_ok assms by auto

lemma hex_digits_text:
  "hex_digits (w + v) acc (hex_text w n @ cs) = hex_digits v (acc * 16 ^ w + n mod 16 ^ w) cs"
proof (induction w arbitrary: n v cs)
  case (Suc w)
  have "hex_digits (Suc w + v) acc (hex_text (Suc w) n @ cs)
      = hex_digits (w + Suc v) acc (hex_text w (n div 16) @ (hex_char (n mod 16) # cs))" by simp
  also have "\<dots> = hex_digits v (16 * (acc * 16 ^ w + n div 16 mod 16 ^ w) + n mod 16) cs"
    by (simp only: Suc.IH) (simp add: hex_char_simps)
  also have "16 * (acc * 16 ^ w + n div 16 mod 16 ^ w) + n mod 16 = acc * 16 ^ Suc w + n mod 16 ^ Suc w"
    by (simp add: mod_mult2_eq algebra_simps)
  finally show ?case .
qed simp

lemma hex_text_first: "0 < w \<Longrightarrow> \<exists>d cs. hex_text w n = hex_char d # cs \<and> d < 16 \<and> length cs = w - 1 \<and>
    (\<forall>c \<in> set cs. \<exists>d < 16. c = hex_char d)"
proof (induction w arbitrary: n)
  case (Suc w)
  show ?case
  proof (cases w)
    case 0
    then show ?thesis by (intro exI[of _ "n mod 16"]) simp
  next
    case (Suc v)
    then obtain d cs where "hex_text w (n div 16) = hex_char d # cs" "d < 16" "length cs = w - 1"
      "\<forall>c \<in> set cs. \<exists>d < 16. c = hex_char d"
      using Suc.IH[of "n div 16"] by auto
    moreover have "\<exists>d<16. hex_char (n mod 16) = hex_char d" by (intro exI[of _ "n mod 16"]) simp
    ultimately show ?thesis using Suc by (auto simp: ball_Un)
  qed
qed simp

lemma scan_hex_text:
  assumes "2 \<le> w"
  shows "scan_hex w (hex_text w n @ cs) = Some (of_nat (n mod 16 ^ w), cs)"
proof -
  obtain d ds where d: "hex_text w n = hex_char d # ds" "d < 16" "length ds = w - 1" "\<forall>c \<in> set ds. \<exists>d < 16. c = hex_char d"
    using hex_text_first[of w n] assms by auto
  then obtain e es where e: "ds = hex_char e # es" "e < 16" using assms by (cases ds) auto
  have pre: "scan_prefix w (hex_text w n @ cs) = (w, hex_text w n @ cs)"
    using d(1) e hex_char_simps[OF e(2)] by (simp add: scan_prefix_def)
  have "hex_digits w 0 (hex_text w n @ cs) = (n mod 16 ^ w, cs)"
    using hex_digits_text[of w 0 0 n cs] by simp
  then have "scan_digits w (hex_text w n @ cs) = Some (n mod 16 ^ w, cs)"
    using pre d(1,2) hex_char_simps[OF d(2)] assms by (simp add: scan_digits_def)
  then show ?thesis
    using d(1) hex_char_simps[OF d(2)] by (simp add: scan_hex_def)
qed

text \<open>The text of a GUID: the last two parts are written byte by byte, from the lowest on.\<close>

fun byte_texts :: "nat \<Rightarrow> nat \<Rightarrow> byte list" where
  "byte_texts 0 n = []"
| "byte_texts (Suc k) n = hex_text 2 (n mod 256) @ byte_texts k (n div 256)"

definition uuid_text :: "guid \<Rightarrow> byte list" where
  "uuid_text g = hex_text 8 (unat (PartA g)) @ 45 # hex_text 4 (unat (PartB g)) @ 45 # hex_text 4 (unat (PartC g)) @
     45 # byte_texts 2 (unat (PartD g)) @ 45 # byte_texts 6 (unat (PartE g))"

lemma byte_texts_numeral:
  "byte_texts (numeral k) n = hex_text 2 (n mod 256) @ byte_texts (pred_numeral k) (n div 256)"
  by (simp only: numeral_eq_Suc[of k] byte_texts.simps)

lemma sscanf_Hex: "2 \<le> w \<Longrightarrow> sscanf (Hex w # fs) (hex_text w n @ cs) = of_nat (n mod 16 ^ w) # sscanf fs cs"
  using scan_hex_text by simp

lemma sscanf_last: "sscanf [Hex 2] (hex_text 2 n) = [of_nat (n mod 256)]"
  using sscanf_Hex[of 2 "[]" n "[]"] by simp

lemma sscanf_uuid_text:
  assumes "a = unat (PartA g)" and "b = unat (PartB g)" and "c = unat (PartC g)" and "d = unat (PartD g)"
    and "e = unat (PartE g)"
  shows "sscanf uuid_format (uuid_text g) =
    [of_nat a, of_nat b, of_nat c, of_nat (d mod 256), of_nat (d div 256 mod 256), of_nat (e mod 256),
     of_nat (e div 256 mod 256), of_nat (e div 256 ^ 2 mod 256), of_nat (e div 256 ^ 3 mod 256),
     of_nat (e div 256 ^ 4 mod 256), of_nat (e div 256 ^ 5 mod 256)]"
proof -
  have m: "a mod 4294967296 = a" "b mod 65536 = b" "c mod 65536 = c"
    using unsigned_less[where ?'a = nat, of "PartA g"] unsigned_less[where ?'a = nat, of "PartB g"]
      unsigned_less[where ?'a = nat, of "PartC g"] assms by simp_all
  show ?thesis
    unfolding uuid_format_def uuid_text_def assms[symmetric]
    by (simp add: sscanf_Hex sscanf_last byte_texts_numeral m div_mult2_eq[symmetric]
        del: sscanf.simps(2) hex_text.simps)
qed

lemma bit_byte_part:
  fixes w :: "'a::len word"
  shows "bit ((of_nat (unat w div 2 ^ s mod 256) :: u32) AND 0xFF) k \<longleftrightarrow> k < 8 \<and> bit w (s + k)"
proof -
  have "unat w div 2 ^ s mod 256 = take_bit 8 (drop_bit s (unat w))"
    by (simp add: take_bit_eq_mod drop_bit_eq_div)
  moreover have "(0xFF :: u32) = mask 8" by (simp add: mask_eq_exp_minus_1)
  ultimately have "(of_nat (unat w div 2 ^ s mod 256) :: u32) AND 0xFF = take_bit 8 (of_nat (take_bit 8 (drop_bit s (unat w))))"
    by (simp only: take_bit_eq_mask)
  then show ?thesis
    by (auto simp: bit_take_bit_iff bit_of_nat_iff bit_drop_bit_eq bit_unsigned_iff)
qed

text \<open>A byte of a word, put back at its place.\<close>

lemma bit_part_at:
  fixes w :: "'a::len word"
  assumes "s + 8 \<le> LENGTH('a)"
  shows "bit (push_bit s (ucast ((of_nat (unat w div 2 ^ s mod 256) :: u32) AND 0xFF)) :: 'a word) k
    \<longleftrightarrow> s \<le> k \<and> k < s + 8 \<and> bit w k"
proof -
  have "bit (push_bit s (ucast ((of_nat (unat w div 2 ^ s mod 256) :: u32) AND 0xFF)) :: 'a word) k \<longleftrightarrow>
      s \<le> k \<and> k < LENGTH('a) \<and> k - s < LENGTH('a) \<and> k - s < 8 \<and> bit w (s + (k - s))"
    by (simp only: bit_push_bit_iff bit_ucast_iff bit_byte_part possible_bit_word)
  then show ?thesis using assms by (auto simp: bit_imp_le_length)
qed

lemma join_16:
  fixes w :: u16
  shows "ucast ((of_nat (unat w mod 256) :: u32) AND 0xFF) OR
    push_bit 8 (ucast ((of_nat (unat w div 256 mod 256) :: u32) AND 0xFF)) = w" (is "?r = w")
proof (rule bit_word_eqI)
  fix k assume "k < LENGTH(16)"
  have "?r = push_bit 0 (ucast ((of_nat (unat w div 2 ^ 0 mod 256) :: u32) AND 0xFF)) OR
      push_bit 8 (ucast ((of_nat (unat w div 2 ^ 8 mod 256) :: u32) AND 0xFF))" by simp
  also have "bit \<dots> k \<longleftrightarrow> 0 \<le> k \<and> k < 0 + 8 \<and> bit w k \<or> 8 \<le> k \<and> k < 8 + 8 \<and> bit w k"
    unfolding bit_or_iff by (subst bit_part_at, simp)+ (rule refl)
  finally show "bit ?r k = bit w k" using \<open>k < LENGTH(16)\<close> by auto
qed

lemma join_48:
  fixes w :: u48
  shows "ucast ((of_nat (unat w mod 256) :: u32) AND 0xFF) OR
    push_bit 8 (ucast ((of_nat (unat w div 256 mod 256) :: u32) AND 0xFF)) OR
    push_bit 16 (ucast ((of_nat (unat w div 65536 mod 256) :: u32) AND 0xFF)) OR
    push_bit 24 (ucast ((of_nat (unat w div 16777216 mod 256) :: u32) AND 0xFF)) OR
    push_bit 32 (ucast ((of_nat (unat w div 4294967296 mod 256) :: u32) AND 0xFF)) OR
    push_bit 40 (ucast ((of_nat (unat w div 1099511627776 mod 256) :: u32) AND 0xFF)) = w" (is "?r = w")
proof (rule bit_word_eqI)
  fix k assume "k < LENGTH(48)"
  let ?p = "\<lambda>s. push_bit s (ucast ((of_nat (unat w div 2 ^ s mod 256) :: u32) AND 0xFF)) :: u48"
  have p: "bit (?p s) k \<longleftrightarrow> s \<le> k \<and> k < s + 8 \<and> bit w k" if "s + 8 \<le> 48" for s
    by (rule bit_part_at) (use that in simp)
  have r: "?r = ?p 0 OR ?p 8 OR ?p 16 OR ?p 24 OR ?p 32 OR ?p 40" by simp
  have "bit (?p 0 OR ?p 8 OR ?p 16 OR ?p 24 OR ?p 32 OR ?p 40) k \<longleftrightarrow> (0 \<le> k \<and> k < 0 + 8 \<and> bit w k) \<or> (8 \<le> k \<and> k < 8 + 8 \<and> bit w k) \<or>
      (16 \<le> k \<and> k < 16 + 8 \<and> bit w k) \<or> (24 \<le> k \<and> k < 24 + 8 \<and> bit w k) \<or>
      (32 \<le> k \<and> k < 32 + 8 \<and> bit w k) \<or> (40 \<le> k \<and> k < 40 + 8 \<and> bit w k)"
    unfolding bit_or_iff by (subst p, simp)+ (rule refl)
  then show "bit ?r k = bit w k" unfolding r using \<open>k < LENGTH(48)\<close> by auto
qed

text \<open>The text of a GUID, byte by byte.\<close>

lemma length_byte_texts: "length (byte_texts k n) = 2 * k"
  by (induction k arbitrary: n) (simp_all add: numeral_2_eq_2)

lemma length_hex_text: "length (hex_text w n) = w"
  by (induction w arbitrary: n) simp_all

definition plain :: "byte \<Rightarrow> bool" where
  "plain b \<longleftrightarrow> b \<noteq> 0 \<and> b < 128"

lemma hex_text_plain [simp]: "list_all plain (hex_text w n)"
  by (induction w arbitrary: n) (auto simp: hex_char_simps plain_def)

lemma byte_texts_plain [simp]: "list_all plain (byte_texts k n)"
  by (induction k arbitrary: n) (simp_all del: hex_text.simps)

lemma uuid_text_plain: "length (uuid_text g) = 36" "list_all plain (uuid_text g)"
  unfolding uuid_text_def
  by (simp_all add: length_hex_text length_byte_texts plain_def[of 45] del: hex_text.simps byte_texts.simps)

lemma low_bits: "(b :: byte) < 128 \<Longrightarrow> ucast ((ucast b :: u16) AND 0x7F) = b"
proof -
  assume "b < 128"
  then have "take_bit 7 (unat b) = unat b" by (simp add: word_less_nat_alt take_bit_nat_eq_self_iff)
  then have t: "take_bit 7 b = b" by (simp add: word_unat_eq_iff unsigned_take_bit_eq)
  have b: "k < 7" if "bit b k" for k using that t by (metis bit_take_bit_iff)
  have "(0x7F :: u16) = mask 7" by (simp add: mask_eq_exp_minus_1)
  then have m: "(ucast b :: u16) AND 0x7F = take_bit 7 (ucast b)" by (simp add: take_bit_eq_mask)
  show ?thesis
    unfolding m by (rule bit_word_eqI) (use b in \<open>auto simp: bit_ucast_iff bit_take_bit_iff\<close>)
qed

lemma uuid_buf_text:
  assumes "list_all plain t" and "length t < k"
  shows "uuid_buf k (map ucast t @ 0 # rest) = Inr t"
  using assms
proof (induction t arbitrary: k)
  case Nil
  then show ?case by (cases k) simp_all
next
  case (Cons b t)
  then obtain k' where k: "k = Suc k'" by (cases k) auto
  then show ?case
    using Cons ucast_ascii(3)[of b] low_bits[of b] by (simp add: plain_def)
qed

text \<open>
  Parsing the text of a GUID gives the GUID back, whatever follows the terminator and whatever was in
  the result before.
\<close>

lemma uuid_text_roundtrip:
  "UuidFromStringW (Some (map ucast (uuid_text g) @ 0 # rest)) (Some old) = Inr (RPC_S_OK, Some g)"
proof -
  have buf: "uuid_buf 63 (map ucast (uuid_text g) @ 0 # rest) = Inr (uuid_text g)"
    by (rule uuid_buf_text) (simp_all add: uuid_text_plain)
  have b: "ucast (ucast w :: u32) = w" for w :: u16
    by (rule bit_word_eqI) (simp add: bit_ucast_iff)
  show ?thesis
    unfolding UuidFromStringW_def
    by (simp only: prod.case option.case buf res_bind_simps sscanf_uuid_text[OF refl refl refl refl refl] list.case)
      (simp add: b join_16 join_48)
qed

text \<open>A SID of more than four parts loses the rest.\<close>

lemma sid_loses_parts:
  "map_option SubAuthority (fst (AllocateAndInitializeSid True None 6 [1, 2, 3, 4, 5, 6, 0, 0]))
    = Some [1, 2, 3, 4, 0, 0, 0, 0]"
  by (simp add: AllocateAndInitializeSid_def upt_rec)

end
