(* ===== verification/Win_Pipe.thy ===== *)
theory Win_Pipe
  imports Win_Module
begin

text \<open>
  Named pipes (\<open>libtudor/src/winapi/pipe.c\<close>): they can be created and destroyed, reading and writing always
  fail, and nobody ever connects.  The list of pipes is that of their addresses, from \<open>pipes_head\<close> on.
  \<open>lock_owner\<close> is the thread that has \<open>pipes_lock\<close>; \<open>wp_waiting\<close> counts the threads in \<open>ConnectNamedPipe\<close>,
  which \<open>num_listeners\<close> was meant to be.
\<close>

record winpipe =
  wp_name :: "byte list option"
  wp_refcnt :: int
  wp_dying :: bool
  wp_num_listeners :: nat
  wp_waiting :: nat

record pipes =
  pipes_list :: "nat list"
  pipe_mem :: "nat \<Rightarrow> winpipe option"
  lock_owner :: "nat option"

definition pipe_read :: u32 where "pipe_read = WINERR_SET_CODE"
definition pipe_write :: u32 where "pipe_write = WINERR_SET_CODE"
definition DisconnectNamedPipe :: bool where "DisconnectNamedPipe = False"

text \<open>
  Creating a pipe at the free address \<open>p\<close>, in two steps of a thread: up to the lock, and the insertion with
  the release.  A thread that finds the lock taken waits, which is \<open>None\<close>.
\<close>

definition create_lock :: "nat \<Rightarrow> pipes \<Rightarrow> pipes option" where
  "create_lock thread st = (if lock_owner st = None then Some (st\<lparr>lock_owner := Some thread\<rparr>) else None)"

definition create_insert :: "nat \<Rightarrow> u16 list option \<Rightarrow> pipes \<Rightarrow> pipes result" where
  "create_insert p name st =
     res_bind (w_name name) (\<lambda>n.
       Inr (st\<lparr>pipe_mem := (pipe_mem st)(p \<mapsto> \<lparr>wp_name = n, wp_refcnt = 1, wp_dying = False, wp_num_listeners = 0, wp_waiting = 0\<rparr>),
               pipes_list := p # pipes_list st, lock_owner := None\<rparr>))"

definition CreateNamedPipeW :: "nat \<Rightarrow> nat \<Rightarrow> u16 list option \<Rightarrow> pipes \<Rightarrow> pipes result option" where
  "CreateNamedPipeW thread p name st = map_option (create_insert p name) (create_lock thread st)"

text \<open>\<open>ConnectNamedPipe\<close> waits until the pipe dies.\<close>

definition ConnectNamedPipe :: "nat \<Rightarrow> pipes \<Rightarrow> (bool option \<times> pipes) result" where
  "ConnectNamedPipe p st =
     (case pipe_mem st p of
        None \<Rightarrow> Inl Fault
      | Some w \<Rightarrow> if wp_dying w then Inr (Some False, st)
                  else Inr (None, st\<lparr>pipe_mem := (pipe_mem st)(p \<mapsto> w\<lparr>wp_waiting := Suc (wp_waiting w)\<rparr>)\<rparr>))"

text \<open>
  The destruction of a pipe.  Where \<open>pipes_lock\<close> should be taken it is released, whoever has it.  At the end
  the pipe is freed as soon as \<open>num_listeners\<close> is 0; a thread that waits on it then wakes up in freed memory.
\<close>

definition pipe_destroy :: "nat \<Rightarrow> pipes \<Rightarrow> pipes result" where
  "pipe_destroy p st =
     (case pipe_mem st p of
        None \<Rightarrow> Inl Fault
      | Some w \<Rightarrow>
          (let w1 = w\<lparr>wp_refcnt := wp_refcnt w - 1\<rparr> in
           if 0 < wp_refcnt w1 then Inr (st\<lparr>pipe_mem := (pipe_mem st)(p \<mapsto> w1)\<rparr>)
           else
             let st1 = st\<lparr>lock_owner := None, pipes_list := remove1 p (pipes_list st)\<rparr> in
             if 0 < wp_num_listeners w1 then Inl Hang
             else if 0 < wp_waiting w1 then Inl Fault
             else Inr (st1\<lparr>pipe_mem := (pipe_mem st1)(p := None)\<rparr>)))"

section \<open>Properties\<close>

definition pipes_inv :: "pipes \<Rightarrow> bool" where
  "pipes_inv st \<longleftrightarrow> distinct (pipes_list st) \<and> (\<forall>p. p \<in> set (pipes_list st) \<longleftrightarrow> pipe_mem st p \<noteq> None) \<and>
     (\<forall>p w. pipe_mem st p = Some w \<longrightarrow> wp_refcnt w = 1 \<and> wp_num_listeners w = 0)"

text \<open>The list is the list of the pipes that are allocated.\<close>

lemma create_keeps_pipes:
  assumes "pipes_inv st" "pipe_mem st p = None" "CreateNamedPipeW t p name st = Some (Inr st')"
  shows "pipes_inv st' \<and> pipes_list st' = p # pipes_list st"
  using assms by (auto simp: CreateNamedPipeW_def create_lock_def create_insert_def res_bind_eq_Inr pipes_inv_def split: if_splits)

lemma destroy_keeps_pipes:
  assumes "pipes_inv st" "pipe_destroy p st = Inr st'"
  shows "pipes_inv st' \<and> pipes_list st' = remove1 p (pipes_list st) \<and> pipe_mem st' p = None"
  using assms by (auto simp: pipe_destroy_def pipes_inv_def Let_def split: option.splits if_splits)

text \<open>A thread that destroys a pipe releases the lock under another one that inserts a pipe, and a third gets it.\<close>

lemma destroy_releases_foreign_lock:
  assumes "pipes_inv st" "pipe_mem st p = Some w" "wp_waiting w = 0" "create_lock t st = Some st1"
  shows "\<exists>st2 st3. pipe_destroy p st1 = Inr st2 \<and> create_lock t' st2 = Some st3"
  using assms by (auto simp: pipe_destroy_def create_lock_def pipes_inv_def Let_def split: if_splits)

text \<open>Waiting for a client never succeeds, and a pipe that is closed while a thread waits is freed under it.\<close>

lemma closing_under_listener_faults:
  assumes "pipes_inv st" "ConnectNamedPipe p st = Inr (None, st1)"
  shows "pipe_destroy p st1 = Inl Fault"
proof -
  obtain w where w: "pipe_mem st p = Some w" "st1 = st\<lparr>pipe_mem := (pipe_mem st)(p \<mapsto> w\<lparr>wp_waiting := Suc (wp_waiting w)\<rparr>)\<rparr>"
    using assms(2) by (auto simp: ConnectNamedPipe_def split: option.splits if_splits)
  have "wp_refcnt w = 1 \<and> wp_num_listeners w = 0" using assms(1) w(1) unfolding pipes_inv_def by blast
  then show ?thesis using w(2) by (simp add: pipe_destroy_def Let_def)
qed

end
