(* ===== verification/Sandbox.thy ===== *)
theory Sandbox
  imports Launcher
begin

text \<open>
  The sandbox of the host process (\<open>tudor-host/src/sandbox.c\<close>) and the order in which the host starts
  and ends (\<open>main\<close> in \<open>tudor-host/src/main.c\<close>).  Every system call on the way either has its effect or
  ends the process; which ones succeed is a parameter.  The rules go to libseccomp, whose documented
  meaning is: the action of the rule that matches, and the default action otherwise.
\<close>

section \<open>The system call filter\<close>

datatype sc_action = Sc_allow | Sc_errno int | Sc_kill

datatype arg_cmp = Arg_eq nat u32 | Arg_masked nat u32 u32

type_synonym scmp_rule = "sc_action \<times> string \<times> arg_cmp list"

definition ENOSYS :: int where "ENOSYS = 38"
definition EPERM :: int where "EPERM = 1"
definition MAP_ANONYMOUS :: u32 where "MAP_ANONYMOUS = 0x20"
definition CLONE_THREAD :: u32 where "CLONE_THREAD = 0x10000"
definition PR_SET_NAME :: u32 where "PR_SET_NAME = 15"
definition ARCH_SET_GS :: u32 where "ARCH_SET_GS = 0x1001"
definition F_GETFD :: u32 where "F_GETFD = 1"
definition F_SETFD :: u32 where "F_SETFD = 2"
definition F_GETFL :: u32 where "F_GETFL = 3"
definition F_SETFL :: u32 where "F_SETFL = 4"

definition arg_matches :: "(nat \<Rightarrow> u64) \<Rightarrow> arg_cmp \<Rightarrow> bool" where
  "arg_matches args c =
     (case c of
        Arg_eq i v \<Rightarrow> ucast (args i) = v
      | Arg_masked i msk v \<Rightarrow> ucast (args i) AND msk = v)"

definition rule_matches :: "string \<Rightarrow> (nat \<Rightarrow> u64) \<Rightarrow> scmp_rule \<Rightarrow> bool" where
  "rule_matches nr args r = (case r of (act, name, cs) \<Rightarrow> name = nr \<and> list_all (arg_matches args) cs)"

definition seccomp_decide :: "scmp_rule list \<Rightarrow> string \<Rightarrow> (nat \<Rightarrow> u64) \<Rightarrow> sc_action" where
  "seccomp_decide rules nr args = (case List.find (rule_matches nr args) rules of None \<Rightarrow> Sc_kill | Some r \<Rightarrow> fst r)"

text \<open>The rules of \<open>setup_seccomp\<close> on a system that has all the optional calls.\<close>

definition sandbox_rules :: "u32 \<Rightarrow> scmp_rule list" where
  "sandbox_rules pid =
     [(Sc_allow, ''exit'', []),
      (Sc_allow, ''exit_group'', []),
      (Sc_allow, ''kill'', [Arg_eq 0 pid]),
      (Sc_allow, ''tkill'', []),
      (Sc_allow, ''tgkill'', [Arg_eq 0 pid]),
      (Sc_allow, ''rt_sigaction'', []),
      (Sc_allow, ''rt_sigprocmask'', []),
      (Sc_allow, ''rt_sigreturn'', []),
      (Sc_allow, ''getpid'', []),
      (Sc_allow, ''gettid'', []),
      (Sc_allow, ''brk'', []),
      (Sc_allow, ''mmap'', [Arg_masked 3 MAP_ANONYMOUS MAP_ANONYMOUS]),
      (Sc_allow, ''munmap'', []),
      (Sc_allow, ''mprotect'', []),
      (Sc_allow, ''madvise'', []),
      (Sc_allow, ''clone'', [Arg_masked 0 CLONE_THREAD CLONE_THREAD]),
      (Sc_errno ENOSYS, ''clone3'', []),
      (Sc_allow, ''rseq'', []),
      (Sc_allow, ''futex'', []),
      (Sc_allow, ''get_robust_list'', []),
      (Sc_allow, ''set_robust_list'', []),
      (Sc_allow, ''prctl'', [Arg_eq 0 PR_SET_NAME]),
      (Sc_allow, ''arch_prctl'', [Arg_eq 0 ARCH_SET_GS]),
      (Sc_allow, ''getrandom'', []),
      (Sc_allow, ''eventfd'', []),
      (Sc_allow, ''eventfd2'', []),
      (Sc_allow, ''timerfd_create'', []),
      (Sc_allow, ''timerfd_gettime'', []),
      (Sc_allow, ''timerfd_settime'', []),
      (Sc_allow, ''gettimeofday'', []),
      (Sc_allow, ''clock_getres'', []),
      (Sc_allow, ''clock_gettime'', []),
      (Sc_allow, ''clock_nanosleep'', []),
      (Sc_errno ENOSYS, ''access'', []),
      (Sc_errno ENOSYS, ''stat'', []),
      (Sc_errno ENOSYS, ''statx'', []),
      (Sc_allow, ''fstat'', []),
      (Sc_allow, ''newfstatat'', []),
      (Sc_errno ENOSYS, ''statfs'', []),
      (Sc_errno ENOSYS, ''fstatfs'', []),
      (Sc_errno ENOSYS, ''name_to_handle_at'', []),
      (Sc_errno ENOSYS, ''open_by_handle_at'', []),
      (Sc_allow, ''poll'', []),
      (Sc_allow, ''ppoll'', []),
      (Sc_errno EPERM, ''open'', []),
      (Sc_errno EPERM, ''openat'', []),
      (Sc_errno EPERM, ''openat2'', []),
      (Sc_allow, ''fcntl'', [Arg_eq 1 F_GETFD]),
      (Sc_allow, ''fcntl'', [Arg_eq 1 F_SETFD]),
      (Sc_allow, ''fcntl'', [Arg_eq 1 F_GETFL]),
      (Sc_allow, ''fcntl'', [Arg_eq 1 F_SETFL]),
      (Sc_allow, ''ioctl'', []),
      (Sc_allow, ''lseek'', []),
      (Sc_allow, ''read'', []),
      (Sc_allow, ''write'', []),
      (Sc_allow, ''readv'', []),
      (Sc_allow, ''writev'', []),
      (Sc_allow, ''close'', [])]"

section \<open>The process\<close>

definition SANDBOX_UID :: nat where "SANDBOX_UID = 3333"
definition SANDBOX_GID :: nat where "SANDBOX_GID = 3333"
definition SANDBOX_DATA_LIMIT :: nat where "SANDBOX_DATA_LIMIT = 256 * 1024 * 1024"
definition SANDBOX_STACK_LIMIT :: nat where "SANDBOX_STACK_LIMIT = 64 * 1024"
definition SANDBOX_MAX_FDS :: nat where "SANDBOX_MAX_FDS = 16"
definition SANDBOX_MAX_THREADS :: nat where "SANDBOX_MAX_THREADS = 128"

text \<open>What the kernel knows of the process, and what its own \<open>uname\<close> answers.\<close>

record sandbox =
  nodename :: string
  rlimits :: "string \<Rightarrow> nat option"
  sb_uid :: nat
  sb_gid :: nat
  sb_fds :: "nat list"
  private_ns :: "string list"
  host_root :: bool
  has_caps :: bool
  sc_filter :: "scmp_rule list option"
  usr1_blocked :: bool

datatype sb_call =
    Call_uname string
  | Call_setrlimit string nat
  | Call_block_usr1
  | Call_fork
  | Call_unshare "string list"
  | Call_kill_parent
  | Call_setresuid nat
  | Call_setresgid nat
  | Call_restore_mask bool
  | Call_closefrom nat
  | Call_pivot_root
  | Call_cap_clear
  | Call_seccomp_rule scmp_rule
  | Call_seccomp_load "scmp_rule list"

text \<open>
  \<open>Call_pivot_root\<close> stands for the six calls of \<open>unmount_root\<close>.  At the end of \<open>setup_uid_gid\<close> the signals
  to unblock are those that are in the old mask and \<open>SIGUSR1\<close>.
\<close>

fun sb_effect :: "sb_call \<Rightarrow> sandbox \<Rightarrow> sandbox" where
  "sb_effect (Call_uname name) st = st\<lparr>nodename := name\<rparr>"
| "sb_effect (Call_setrlimit r n) st = st\<lparr>rlimits := (rlimits st)(r \<mapsto> n)\<rparr>"
| "sb_effect Call_block_usr1 st = st\<lparr>usr1_blocked := True\<rparr>"
| "sb_effect (Call_unshare ns) st = st\<lparr>private_ns := private_ns st @ ns\<rparr>"
| "sb_effect (Call_setresuid u) st = st\<lparr>sb_uid := u\<rparr>"
| "sb_effect (Call_setresgid g) st = st\<lparr>sb_gid := g\<rparr>"
| "sb_effect (Call_restore_mask was_blocked) st = (if was_blocked then st\<lparr>usr1_blocked := False\<rparr> else st)"
| "sb_effect (Call_closefrom n) st = st\<lparr>sb_fds := filter (\<lambda>fd. fd < n) (sb_fds st)\<rparr>"
| "sb_effect Call_pivot_root st = st\<lparr>host_root := False\<rparr>"
| "sb_effect Call_cap_clear st = st\<lparr>has_caps := False\<rparr>"
| "sb_effect (Call_seccomp_load rules) st = st\<lparr>sc_filter := Some rules\<rparr>"
| "sb_effect c st = st"

fun sb_calls :: "(sb_call \<Rightarrow> bool) \<Rightarrow> sb_call list \<Rightarrow> sandbox \<Rightarrow> sandbox result" where
  "sb_calls ok [] st = Inr st"
| "sb_calls ok (c # cs) st = (if ok c then sb_calls ok cs (sb_effect c st) else Inl Abort)"

text \<open>
  \<open>setup_uid_gid\<close> goes on in a child.  The parent waits for the child's signal, writes the maps and
  signals back; \<open>maps_ok\<close> tells whether it could.  The child waits for that signal and for nothing else.
\<close>

definition setup_uid_gid :: "(sb_call \<Rightarrow> bool) \<Rightarrow> bool \<Rightarrow> sandbox \<Rightarrow> sandbox result" where
  "setup_uid_gid ok maps_ok st =
     res_bind (sb_calls ok [Call_block_usr1, Call_fork] st) (\<lambda>st1.
     res_bind (sb_calls ok [Call_unshare [''user''], Call_kill_parent] st1) (\<lambda>st2.
     if \<not> maps_ok then Inl Hang
     else sb_calls ok [Call_setresuid SANDBOX_UID, Call_setresgid SANDBOX_GID, Call_restore_mask (usr1_blocked st)] st2))"

text \<open>The parent's side: it ends with the wait status of the child as its exit status.\<close>

definition setup_uid_gid_parent :: "(sb_call \<Rightarrow> bool) \<Rightarrow> bool \<Rightarrow> int \<Rightarrow> int result" where
  "setup_uid_gid_parent ok maps_ok child_status =
     (if \<not> ok Call_block_usr1 \<or> \<not> ok Call_fork then Inl Abort
      else if \<not> ok (Call_unshare [''user'']) \<or> \<not> ok Call_kill_parent then Inl Hang
      else if \<not> maps_ok then Inl Abort
      else Inr (child_status mod 256))"

definition unmount_root :: "(sb_call \<Rightarrow> bool) \<Rightarrow> bool \<Rightarrow> sandbox \<Rightarrow> sandbox result" where
  "unmount_root ok unmountfs st = (if unmountfs then sb_calls ok [Call_pivot_root] st else Inr st)"

definition setup_seccomp :: "(sb_call \<Rightarrow> bool) \<Rightarrow> u32 \<Rightarrow> sandbox \<Rightarrow> sandbox result" where
  "setup_seccomp ok pid st =
     sb_calls ok (map Call_seccomp_rule (sandbox_rules pid) @ [Call_seccomp_load (sandbox_rules pid)]) st"

definition activate_sandbox :: "(sb_call \<Rightarrow> bool) \<Rightarrow> bool \<Rightarrow> bool \<Rightarrow> u32 \<Rightarrow> sandbox \<Rightarrow> sandbox result" where
  "activate_sandbox ok maps_ok unmountfs pid st =
     res_bind (sb_calls ok [Call_uname ''tudor-host'', Call_setrlimit ''DATA'' SANDBOX_DATA_LIMIT,
       Call_setrlimit ''STACK'' SANDBOX_STACK_LIMIT, Call_setrlimit ''NOFILE'' SANDBOX_MAX_FDS,
       Call_setrlimit ''NPROC'' SANDBOX_MAX_THREADS, Call_setrlimit ''FSIZE'' 0] st) (\<lambda>st1.
     res_bind (setup_uid_gid ok maps_ok st1) (\<lambda>st2.
     res_bind (sb_calls ok [Call_closefrom 3,
       Call_unshare [''fs'', ''files'', ''sysvsem'', ''cgroup'', ''ipc'', ''net'', ''mnt'', ''uts'']] st2) (\<lambda>st3.
     res_bind (unmount_root ok unmountfs st3) (\<lambda>st4.
     res_bind (sb_calls ok [Call_cap_clear] st4) (\<lambda>st5.
     setup_seccomp ok pid st5)))))"

section \<open>The life of the host\<close>

text \<open>
  What \<open>main\<close> depends on, and what it does that matters to others.  The handler loop and the driver are
  in the theories of their own.
\<close>

record host_env =
  stdin_is_socket :: bool
  stdin_is_unix :: bool
  sandbox_res :: "sandbox result"
  init_fds :: "int \<times> int"
  tudor_init_ok :: bool
  tudor_open_ok :: bool

datatype host_event =
  Ev_sandbox | Ev_recv_init | Ev_driver_init | Ev_open | Ev_ready | Ev_loop | Ev_close | Ev_stop_readers
  | Ev_close_fd int | Ev_shutdown

definition host_main :: "host_env \<Rightarrow> int result \<times> host_event list" where
  "host_main e =
     (if \<not> stdin_is_socket e \<or> \<not> stdin_is_unix e then (Inr 1, [])
      else case sandbox_res e of
        Inl err \<Rightarrow> (Inl err, [])
      | Inr sb \<Rightarrow>
          (case init_fds e of
             (cmd_fd, img_fd) \<Rightarrow>
               if \<not> tudor_init_ok e then (Inr 1, [Ev_sandbox, Ev_recv_init, Ev_driver_init])
               else if \<not> tudor_open_ok e then (Inr 1, [Ev_sandbox, Ev_recv_init, Ev_driver_init, Ev_open])
               else (Inr 0,
                 [Ev_sandbox, Ev_recv_init, Ev_driver_init, Ev_open, Ev_ready, Ev_loop, Ev_close, Ev_stop_readers] @
                 (if 0 \<le> cmd_fd then [Ev_close_fd cmd_fd] else []) @
                 (if 0 \<le> img_fd \<and> img_fd \<noteq> cmd_fd then [Ev_close_fd img_fd] else []) @ [Ev_shutdown])))"

section \<open>Properties\<close>

lemma sb_calls_append:
  "sb_calls ok (cs @ ds) st = res_bind (sb_calls ok cs st) (sb_calls ok ds)"
  by (induction cs arbitrary: st) auto

lemma sb_rules_keep: "sb_calls ok (map Call_seccomp_rule rs) st = Inr st' \<Longrightarrow> st' = st"
  by (induction rs arbitrary: st) (auto split: if_splits)

lemma setup_seccomp_filter:
  "setup_seccomp ok pid st = Inr st' \<Longrightarrow> st' = st\<lparr>sc_filter := Some (sandbox_rules pid)\<rparr>"
  by (auto simp: setup_seccomp_def sb_calls_append res_bind_eq_Inr dest!: sb_rules_keep split: if_splits)

text \<open>Whatever gets through matches a rule that allows it.\<close>

lemma allowed_rule:
  "seccomp_decide rules nr args = Sc_allow \<Longrightarrow>
     \<exists>cs. (Sc_allow, nr, cs) \<in> set rules \<and> list_all (arg_matches args) cs"
  by (auto simp: seccomp_decide_def rule_matches_def find_Some_iff split: option.splits) (metis nth_mem)

text \<open>The calls that must not get through, and what must hold of some that do.\<close>

definition forbidden_calls :: "string list" where
  "forbidden_calls = [''open'', ''openat'', ''openat2'', ''creat'', ''unlink'', ''rename'', ''mkdir'', ''chmod'',
     ''socket'', ''connect'', ''bind'', ''fork'', ''vfork'', ''clone3'', ''execve'', ''execveat'', ''ptrace'',
     ''process_vm_writev'', ''mount'', ''umount2'', ''pivot_root'', ''chroot'', ''setuid'', ''setresuid'',
     ''setns'', ''unshare'', ''bpf'', ''init_module'', ''reboot'', ''shmat'', ''io_uring_setup'']"

definition call_confined :: "u32 \<Rightarrow> string \<Rightarrow> (nat \<Rightarrow> u64) \<Rightarrow> bool" where
  "call_confined pid nr args \<longleftrightarrow> nr \<notin> set forbidden_calls \<and>
     (nr = ''mmap'' \<longrightarrow> ucast (args 3) AND MAP_ANONYMOUS = MAP_ANONYMOUS) \<and>
     (nr = ''clone'' \<longrightarrow> ucast (args 0) AND CLONE_THREAD = CLONE_THREAD) \<and>
     (nr = ''kill'' \<longrightarrow> ucast (args 0) = pid) \<and> (nr = ''tgkill'' \<longrightarrow> ucast (args 0) = pid) \<and>
     (nr = ''prctl'' \<longrightarrow> ucast (args 0) = PR_SET_NAME) \<and>
     (nr = ''arch_prctl'' \<longrightarrow> ucast (args 0) = ARCH_SET_GS)"

lemma sandbox_rules_confine:
  "list_all (\<lambda>(act, nr, cs). act = Sc_allow \<longrightarrow> nr \<notin> set forbidden_calls \<and>
     (nr = ''mmap'' \<longrightarrow> Arg_masked 3 MAP_ANONYMOUS MAP_ANONYMOUS \<in> set cs) \<and>
     (nr = ''clone'' \<longrightarrow> Arg_masked 0 CLONE_THREAD CLONE_THREAD \<in> set cs) \<and>
     (nr = ''kill'' \<longrightarrow> Arg_eq 0 pid \<in> set cs) \<and> (nr = ''tgkill'' \<longrightarrow> Arg_eq 0 pid \<in> set cs) \<and>
     (nr = ''prctl'' \<longrightarrow> Arg_eq 0 PR_SET_NAME \<in> set cs) \<and>
     (nr = ''arch_prctl'' \<longrightarrow> Arg_eq 0 ARCH_SET_GS \<in> set cs)) (sandbox_rules pid)"
  by (simp add: sandbox_rules_def forbidden_calls_def)

lemma allowed_is_confined:
  assumes "seccomp_decide (sandbox_rules pid) nr args = Sc_allow"
  shows "call_confined pid nr args"
proof -
  obtain cs where cs: "(Sc_allow, nr, cs) \<in> set (sandbox_rules pid)" "list_all (arg_matches args) cs"
    using allowed_rule[OF assms] by blast
  have "arg_matches args c" if "c \<in> set cs" for c using cs(2) that by (simp add: list_all_iff)
  then have m: "Arg_eq i v \<in> set cs \<Longrightarrow> ucast (args i) = v"
    "Arg_masked i msk v \<in> set cs \<Longrightarrow> ucast (args i) AND msk = v" for i v msk
    by (fastforce simp: arg_matches_def)+
  show ?thesis
    using bspec[OF sandbox_rules_confine[unfolded list_all_iff] cs(1)] m
    by (simp add: call_confined_def)
qed


definition plain_process :: sandbox where
  "plain_process = \<lparr>nodename = ''box'', rlimits = (\<lambda>_. None), sb_uid = 0, sb_gid = 0, sb_fds = [0, 1, 2, 7],
     private_ns = [], host_root = True, has_caps = True, sc_filter = None, usr1_blocked = False\<rparr>"


text \<open>One hole: \<open>tkill\<close> takes any thread, of any process.\<close>

lemma tkill_is_unrestricted: "seccomp_decide (sandbox_rules pid) ''tkill'' args = Sc_allow"
  by (simp add: seccomp_decide_def sandbox_rules_def rule_matches_def)

text \<open>
  The parent passes the raw wait status to \<open>exit\<close>: the launcher sees success for every exit code of the
  host, and a positive code instead of a signal.
\<close>

lemma host_exit_code_is_lost:
  assumes "ok = (\<lambda>_. True)" and "0 \<le> code" and "code < 256"
  shows "setup_uid_gid_parent ok True (code * 256) = Inr 0"
    and "res_bind (setup_uid_gid_parent ok True 11) (\<lambda>s. Inr (decode_status (s * 256))) = Inr 11"
    and "decode_status 11 = - 11"
  using assms by (simp_all add: setup_uid_gid_parent_def decode_status_def)

text \<open>A child that cannot unshare its user namespace leaves the parent waiting for a signal for ever.\<close>

lemma failed_child_hangs_parent:
  "ok Call_block_usr1 \<Longrightarrow> ok Call_fork \<Longrightarrow> \<not> ok (Call_unshare [''user'']) \<Longrightarrow>
    setup_uid_gid ok maps_ok st = Inl Abort \<and> setup_uid_gid_parent ok maps_ok status = Inl Hang"
  by (simp add: setup_uid_gid_def setup_uid_gid_parent_def)

text \<open>The mask is not restored: a signal that was not blocked before stays blocked.\<close>

lemma usr1_stays_blocked:
  "setup_uid_gid (\<lambda>_. True) True st = Inr st' \<Longrightarrow> usr1_blocked st' = (\<not> usr1_blocked st)"
  by (auto simp: setup_uid_gid_def)

text \<open>
  The host reads nothing from the socket, loads no driver code and opens no device before the sandbox
  is on; it reports itself ready only after the device is open; and it closes the device before its
  descriptors, each of which it closes once.
\<close>

lemma host_life_is_ordered:
  "(\<exists>rest. snd (host_main e) = [] \<or> snd (host_main e) = Ev_sandbox # Ev_recv_init # rest \<and> Ev_sandbox \<notin> set rest) \<and>
   (Ev_ready \<in> set (snd (host_main e)) \<longleftrightarrow> fst (host_main e) = Inr 0) \<and>
   (fst (host_main e) = Inr 0 \<longrightarrow>
      (\<exists>fds. snd (host_main e) =
         [Ev_sandbox, Ev_recv_init, Ev_driver_init, Ev_open, Ev_ready, Ev_loop, Ev_close, Ev_stop_readers] @
         map Ev_close_fd fds @ [Ev_shutdown] \<and> distinct fds \<and>
         set fds = {fd. 0 \<le> fd \<and> (fd = fst (init_fds e) \<or> fd = snd (init_fds e))}))"
proof (cases "sandbox_res e")
  case (Inr sb)
  obtain c i where ci: "init_fds e = (c, i)" by (cases "init_fds e")
  let ?fds = "(if 0 \<le> c then [c] else []) @ (if 0 \<le> i \<and> i \<noteq> c then [i] else [])"
  have fds: "(if 0 \<le> c then [Ev_close_fd c] else []) @ (if 0 \<le> i \<and> i \<noteq> c then [Ev_close_fd i] else []) @ [Ev_shutdown]
      = map Ev_close_fd ?fds @ [Ev_shutdown]" "distinct ?fds"
    "set ?fds = {fd. 0 \<le> fd \<and> (fd = c \<or> fd = i)}"
    by auto
  show ?thesis
    by (auto simp: host_main_def Inr ci intro!: exI[of _ ?fds])
qed (auto simp: host_main_def)

end
