(* ===== verification/Stubs.thy ===== *)
theory Stubs
  imports Prelude
begin

text \<open>
  The stubs for functions the program does not provide (\<open>libtudor/src/stub.c\<close>, in debugging builds): a
  few instructions that load the arguments of a reporting function and jump to it, in slots of pages that
  are made one after the other.  Pages are their numbers, in the order they were made.
\<close>

section \<open>Slots\<close>

definition STUB_PAGE_SIZE :: nat where "STUB_PAGE_SIZE = 8192"
definition IMPORT_STUB_SIZE :: nat where "IMPORT_STUB_SIZE = 32"
definition WDF_STUB_SIZE :: nat where "WDF_STUB_SIZE = 22"

text \<open>The current page and the next slot in it; \<open>None\<close> before the first.\<close>

record stub_pages =
  pages :: "byte list list"
  cur_slot :: nat

definition encode_mov :: "nat \<Rightarrow> u64 \<Rightarrow> byte list" where
  "encode_mov reg val =
     [0x48, 0xb8 OR of_nat reg,
      ucast (drop_bit 0 val AND 0xff), ucast (drop_bit 8 val AND 0xff), ucast (drop_bit 16 val AND 0xff),
      ucast (drop_bit 24 val AND 0xff), ucast (drop_bit 32 val AND 0xff), ucast (drop_bit 40 val AND 0xff),
      ucast (drop_bit 48 val AND 0xff), ucast (drop_bit 56 val AND 0xff)]"

definition jmp_rax :: "byte list" where
  "jmp_rax = [0xff, 0xc0 OR push_bit 3 4 OR push_bit 0 0]"

text \<open>
  A slot of the size \<open>n\<close>: a new page when there is none or no room in it.  \<open>mmap\<close> fills it with zeros; that
  it fails is not noticed by the code, which compares with NULL, and the first store faults.
\<close>

definition obtain_slot :: "nat \<Rightarrow> bool \<Rightarrow> stub_pages \<Rightarrow> stub_pages result" where
  "obtain_slot n mmap_ok st =
     (if pages st = [] \<or> STUB_PAGE_SIZE < cur_slot st * n + n
      then if mmap_ok then Inr (st\<lparr>pages := pages st @ [replicate STUB_PAGE_SIZE 0], cur_slot := 0\<rparr>) else Inl Fault
      else Inr st)"

definition write_slot :: "nat \<Rightarrow> byte list \<Rightarrow> stub_pages \<Rightarrow> (nat \<times> nat) \<times> stub_pages" where
  "write_slot n code st =
     ((length (pages st) - 1, cur_slot st * n),
      st\<lparr>pages := butlast (pages st) @ [splice (last (pages st)) (cur_slot st * n) code], cur_slot := Suc (cur_slot st)\<rparr>)"

definition create_import_stub :: "bool \<Rightarrow> u64 \<Rightarrow> u64 \<Rightarrow> u64 \<Rightarrow> stub_pages \<Rightarrow> ((nat \<times> nat) \<times> stub_pages) result" where
  "create_import_stub mmap_ok import_stub lib name st =
     res_bind (obtain_slot IMPORT_STUB_SIZE mmap_ok st) (\<lambda>st1.
       Inr (write_slot IMPORT_STUB_SIZE
         (encode_mov 7 lib @ encode_mov 6 name @ encode_mov 0 import_stub @ jmp_rax) st1))"

definition create_wdf_stub :: "bool \<Rightarrow> u64 \<Rightarrow> u64 \<Rightarrow> stub_pages \<Rightarrow> ((nat \<times> nat) \<times> stub_pages) result" where
  "create_wdf_stub mmap_ok wdf_stub num st =
     res_bind (obtain_slot WDF_STUB_SIZE mmap_ok st) (\<lambda>st1.
       Inr (write_slot WDF_STUB_SIZE (encode_mov 7 num @ encode_mov 0 wdf_stub @ jmp_rax) st1))"

section \<open>What the instructions do\<close>

text \<open>
  The two instructions of the stubs as the processor's manual has them: a 64-bit constant into one of
  the first eight registers, and an indirect jump through one of them.
\<close>

fun run_code :: "nat \<Rightarrow> byte list \<Rightarrow> (nat \<Rightarrow> u64) \<Rightarrow> ((nat \<Rightarrow> u64) \<times> u64) option" where
  "run_code 0 code regs = None"
| "run_code (Suc k) code regs =
     (if 10 \<le> length code \<and> code ! 0 = 0x48 \<and> 0xb8 \<le> code ! 1 \<and> code ! 1 \<le> 0xbf
      then run_code k (drop 10 code) (regs(unat (code ! 1) - 0xb8 := le_word (take 8 (drop 2 code))))
      else if 2 \<le> length code \<and> code ! 0 = 0xff \<and> 0xe0 \<le> code ! 1 \<and> code ! 1 \<le> 0xe7
      then Some (regs, regs (unat (code ! 1) - 0xe0))
      else None)"

definition code_at :: "stub_pages \<Rightarrow> nat \<times> nat \<Rightarrow> byte list" where
  "code_at st a = drop (snd a) (pages st ! fst a)"

section \<open>Properties\<close>

lemma encoded_byte: "ucast (drop_bit s (val :: u64) AND 0xff) = (word_of_nat (unat val div 2 ^ s mod 256) :: byte)"
proof -
  have "(0xff :: u64) = mask 8" by (simp add: mask_eq_exp_minus_1)
  then have m: "drop_bit s val AND 0xff = take_bit 8 (drop_bit s val)" by (simp add: take_bit_eq_mask)
  have a: "unat (take_bit 8 (drop_bit s val)) = take_bit 8 (unat val div 2 ^ s)"
    using unsigned_less[where w = val and ?'a = nat]
    by (simp only: unsigned_take_bit_eq unsigned_drop_bit_eq) (simp add: drop_bit_eq_div take_bit_eq_mod)
  have "unat (ucast (take_bit 8 (drop_bit s val)) :: byte) = take_bit 8 (unat val div 2 ^ s)"
    unfolding unsigned_ucast_eq a by simp
  moreover have "unat (word_of_nat (unat val div 2 ^ s mod 256) :: byte) = take_bit 8 (unat val div 2 ^ s)"
    by (simp add: unat_of_nat take_bit_eq_mod)
  ultimately show ?thesis unfolding m by (simp only: word_unat_eq_iff)
qed

lemma le_bytes_8:
  "le_bytes 8 n = map (\<lambda>s. word_of_nat (n div 2 ^ s mod 256)) [0, 8, 16, 24, 32, 40, 48, 56]"
proof -
  have "(8 :: nat) = Suc (Suc (Suc (Suc (Suc (Suc (Suc (Suc 0)))))))" by simp
  then show ?thesis by (simp only: le_bytes.simps) (simp add: div_mult2_eq[symmetric])
qed

lemma encode_mov_le: "encode_mov reg val = [0x48, 0xb8 OR of_nat reg] @ word_le 8 val"
  unfolding encode_mov_def encoded_byte word_le_def le_bytes_8 by simp

text \<open>Running a stub: the constants are in their registers, and control is where the last one says.\<close>

lemma run_mov:
  assumes "reg < 8"
  shows "run_code (Suc k) (encode_mov reg val @ rest) regs = run_code k rest (regs(reg := val))"
proof -
  have "reg \<in> {0, 1, 2, 3, 4, 5, 6, 7}" using assms by auto
  then have r: "0xb8 \<le> (0xb8 OR of_nat reg :: byte)" "(0xb8 OR of_nat reg :: byte) \<le> 0xbf"
    "unat (0xb8 OR of_nat reg :: byte) - 0xb8 = reg"
    by auto
  then show ?thesis by (simp add: encode_mov_le)
qed

lemma run_jmp: "run_code (Suc k) (jmp_rax @ rest) regs = Some (regs, regs 0)"
  by (simp add: jmp_rax_def)

text \<open>The pages and the slots that are in use.\<close>

definition stubs_ok :: "nat \<Rightarrow> stub_pages \<Rightarrow> bool" where
  "stubs_ok n st \<longleftrightarrow> (\<forall>p \<in> set (pages st). length p = STUB_PAGE_SIZE) \<and> (pages st \<noteq> [] \<longrightarrow> cur_slot st * n \<le> STUB_PAGE_SIZE)"

definition issued :: "nat \<Rightarrow> stub_pages \<Rightarrow> nat \<times> nat \<Rightarrow> bool" where
  "issued n st a \<longleftrightarrow> fst a < length (pages st) \<and> (fst a = length (pages st) - 1 \<longrightarrow> snd a + n \<le> cur_slot st * n)"

lemma obtain_slot_ok:
  assumes "stubs_ok n st" "n \<le> STUB_PAGE_SIZE" "obtain_slot n m st = Inr st1"
  shows "stubs_ok n st1 \<and> pages st1 \<noteq> [] \<and> cur_slot st1 * n + n \<le> STUB_PAGE_SIZE \<and>
     (\<forall>a. issued n st a \<longrightarrow> issued n st1 a \<and> pages st1 ! fst a = pages st ! fst a)"
  using assms by (auto simp: obtain_slot_def stubs_ok_def issued_def nth_append split: if_splits)

lemma length_encode_mov: "length (encode_mov r v) = 10"
  by (simp add: encode_mov_def)

lemma splice_parts:
  assumes "off + length new \<le> length old"
  shows "length (splice old off new) = length old" "drop off (splice old off new) = new @ drop (off + length new) old"
    "\<And>i n. i + n \<le> off \<Longrightarrow> take n (drop i (splice old off new)) = take n (drop i old)"
proof -
  show "length (splice old off new) = length old" "drop off (splice old off new) = new @ drop (off + length new) old"
    using assms by (auto simp: splice_def)
  fix i n assume "i + n \<le> off"
  then show "take n (drop i (splice old off new)) = take n (drop i old)"
    using assms by (auto simp: splice_def take_drop min_def)
qed

lemma write_slot_ok:
  assumes "stubs_ok n st" "pages st \<noteq> []" "cur_slot st * n + n \<le> STUB_PAGE_SIZE" "length code = n" "write_slot n code st = (a, st2)"
  shows "stubs_ok n st2" "issued n st2 a" "code_at st2 a = code @ drop (snd a + n) (last (pages st))"
    "\<And>b. issued n st b \<Longrightarrow> issued n st2 b \<and> take n (code_at st2 b) = take n (code_at st b)"
proof -
  have l: "length (last (pages st)) = STUB_PAGE_SIZE" using assms(1,2) by (simp add: stubs_ok_def)
  have w: "a = (length (pages st) - 1, cur_slot st * n)"
    "st2 = st\<lparr>pages := butlast (pages st) @ [splice (last (pages st)) (cur_slot st * n) code], cur_slot := Suc (cur_slot st)\<rparr>"
    using assms(5) by (auto simp: write_slot_def)
  have fits: "cur_slot st * n + length code \<le> length (last (pages st))" using assms(3,4) l by simp
  note sp = splice_parts[OF fits]
  show "stubs_ok n st2" using assms(1,2,3) l unfolding w stubs_ok_def
    by (auto simp: sp(1) add.commute dest: in_set_butlastD)
  show "issued n st2 a" using assms(2) unfolding w issued_def by (simp add: add.commute)
  show "code_at st2 a = code @ drop (snd a + n) (last (pages st))"
    unfolding w code_at_def using assms(4) by (simp add: nth_append sp(2))
  fix b assume b: "issued n st b"
  show "issued n st2 b \<and> take n (code_at st2 b) = take n (code_at st b)"
  proof (cases "fst b = length (pages st) - 1")
    case True
    then have "snd b + n \<le> cur_slot st * n" using b by (simp add: issued_def)
    moreover have "pages st ! (length (pages st) - Suc 0) = last (pages st)" using assms(2) by (simp add: last_conv_nth)
    ultimately show ?thesis using True assms(2) b unfolding w issued_def code_at_def
      by (simp add: nth_append sp(3))
  next
    case False
    then show ?thesis using assms(2) b unfolding w issued_def code_at_def
      by (auto simp: nth_append nth_butlast)
  qed
qed

text \<open>
  A stub that is made reports the function it was made for, and a stub that was made before is not
  touched: its bytes stay.  Stubs of one kind never share a slot.
\<close>

theorem import_stub_reports:
  assumes ok: "stubs_ok IMPORT_STUB_SIZE st" and mk: "create_import_stub m f lib name st = Inr (a, st2)"
  shows "run_code 4 (code_at st2 a) regs = Some (regs(7 := lib, 6 := name, 0 := f), f)"
    "stubs_ok IMPORT_STUB_SIZE st2 \<and> issued IMPORT_STUB_SIZE st2 a"
    "issued IMPORT_STUB_SIZE st b \<Longrightarrow> b \<noteq> a \<and> issued IMPORT_STUB_SIZE st2 b \<and>
       take IMPORT_STUB_SIZE (code_at st2 b) = take IMPORT_STUB_SIZE (code_at st b)"
proof -
  define code where "code = encode_mov 7 lib @ encode_mov 6 name @ encode_mov 0 f @ jmp_rax"
  obtain st1 where o: "obtain_slot IMPORT_STUB_SIZE m st = Inr st1" and w: "write_slot IMPORT_STUB_SIZE code st1 = (a, st2)"
    using mk unfolding create_import_stub_def code_def by (auto simp: res_bind_eq_Inr)
  have s: "IMPORT_STUB_SIZE \<le> STUB_PAGE_SIZE" by (simp add: IMPORT_STUB_SIZE_def STUB_PAGE_SIZE_def)
  have l: "length code = IMPORT_STUB_SIZE"
    by (simp add: code_def length_encode_mov jmp_rax_def IMPORT_STUB_SIZE_def)
  note q = obtain_slot_ok[OF ok s o]
  have q1: "stubs_ok IMPORT_STUB_SIZE st1" and q2: "pages st1 \<noteq> []"
    and q3: "cur_slot st1 * IMPORT_STUB_SIZE + IMPORT_STUB_SIZE \<le> STUB_PAGE_SIZE"
    using q by blast+
  note r = write_slot_ok[OF q1 q2 q3 l w]
  show "stubs_ok IMPORT_STUB_SIZE st2 \<and> issued IMPORT_STUB_SIZE st2 a" using r(1,2) by simp
  have "(4 :: nat) = Suc (Suc (Suc (Suc 0)))" by simp
  then show "run_code 4 (code_at st2 a) regs = Some (regs(7 := lib, 6 := name, 0 := f), f)"
    unfolding r(3) code_def by (simp only: append_assoc) (simp add: run_mov run_jmp del: run_code.simps)
  assume "issued IMPORT_STUB_SIZE st b"
  then have b: "issued IMPORT_STUB_SIZE st1 b" and p: "pages st1 ! fst b = pages st ! fst b" using q by blast+
  have "b \<noteq> a" using b w by (auto simp: write_slot_def issued_def IMPORT_STUB_SIZE_def)
  then show "b \<noteq> a \<and> issued IMPORT_STUB_SIZE st2 b \<and> take IMPORT_STUB_SIZE (code_at st2 b) = take IMPORT_STUB_SIZE (code_at st b)"
    using r(4)[OF b] p by (simp add: code_at_def)
qed

text \<open>A framework stub gets the number of its function, and the code returns from it.\<close>

lemma wdf_stub_reports:
  assumes ok: "stubs_ok WDF_STUB_SIZE st" and mk: "create_wdf_stub m f num st = Inr (a, st2)"
  shows "run_code 3 (code_at st2 a) regs = Some (regs(7 := num, 0 := f), f)"
proof -
  define code where "code = encode_mov 7 num @ encode_mov 0 f @ jmp_rax"
  obtain st1 where o: "obtain_slot WDF_STUB_SIZE m st = Inr st1" and w: "write_slot WDF_STUB_SIZE code st1 = (a, st2)"
    using mk unfolding create_wdf_stub_def code_def by (auto simp: res_bind_eq_Inr)
  have s: "WDF_STUB_SIZE \<le> STUB_PAGE_SIZE" by (simp add: WDF_STUB_SIZE_def STUB_PAGE_SIZE_def)
  have l: "length code = WDF_STUB_SIZE" by (simp add: code_def length_encode_mov jmp_rax_def WDF_STUB_SIZE_def)
  note q = obtain_slot_ok[OF ok s o]
  have q1: "stubs_ok WDF_STUB_SIZE st1" and q2: "pages st1 \<noteq> []"
    and q3: "cur_slot st1 * WDF_STUB_SIZE + WDF_STUB_SIZE \<le> STUB_PAGE_SIZE"
    using q by blast+
  have "(3 :: nat) = Suc (Suc (Suc 0))" by simp
  then show ?thesis unfolding write_slot_ok(3)[OF q1 q2 q3 l w] code_def
    by (simp only: append_assoc) (simp add: run_mov run_jmp del: run_code.simps)
qed

end
