(* ===== verification/Wdf_Device.thy ===== *)
theory Wdf_Device
  imports Wdf_File Wdf_Object Win_Registry Win_Module Win_System Win_Setup
begin

text \<open>
  Creating drivers, devices and strings of the framework (\<open>libtudor/src/winapi/wdf/driver.c\<close>,
  \<open>device.c\<close>, \<open>string.c\<close>) and the binding of its functions (\<open>libtudor/src/wdf.c\<close>).  The structures of the
  DLL are their bytes, a function of the DLL is its address, and \<open>funs\<close> tells what it does.
\<close>

section \<open>Structures with a size\<close>

text \<open>What \<open>memcpy\<close> of the \<open>Size\<close> in the first field copies, and that field of a copy.\<close>

definition struct_size :: "byte list \<Rightarrow> nat result" where
  "struct_size mem = res_bind (struct_at mem 0 4) (\<lambda>h. Inr (unat (le_word h :: u32)))"

definition copy_struct :: "byte list \<Rightarrow> byte list result" where
  "copy_struct mem = res_bind (struct_size mem) (\<lambda>n. struct_at mem 0 n)"

section \<open>Making a device\<close>

record device_init =
  di_reg_key :: u64
  di_hidraw_fd :: int
  di_pnp_callbacks :: "byte list option"
  di_power_callbacks :: "byte list option"
  di_fs_cfg :: "byte list option"
  di_fs_obj_attrs :: "byte list option"
  di_out_dev :: bool

definition wdf_create_device_init :: "u64 \<Rightarrow> int \<Rightarrow> bool \<Rightarrow> device_init" where
  "wdf_create_device_init key fd out_dev =
     \<lparr>di_reg_key = key, di_hidraw_fd = fd, di_pnp_callbacks = None, di_power_callbacks = None,
      di_fs_cfg = None, di_fs_obj_attrs = None, di_out_dev = out_dev\<rparr>"

definition WdfDeviceInitSetPnpPowerEventCallbacks :: "byte list \<Rightarrow> device_init \<Rightarrow> device_init result" where
  "WdfDeviceInitSetPnpPowerEventCallbacks mem di =
     res_bind (copy_struct mem) (\<lambda>s. Inr (di\<lparr>di_pnp_callbacks := Some s\<rparr>))"

definition WdfDeviceInitSetPowerPolicyEventCallbacks :: "byte list \<Rightarrow> device_init \<Rightarrow> device_init result" where
  "WdfDeviceInitSetPowerPolicyEventCallbacks mem di =
     res_bind (copy_struct mem) (\<lambda>s. Inr (di\<lparr>di_power_callbacks := Some s\<rparr>))"

definition WdfDeviceInitSetFileObjectConfig :: "byte list \<Rightarrow> byte list option \<Rightarrow> device_init \<Rightarrow> device_init result" where
  "WdfDeviceInitSetFileObjectConfig config obj_attrs di =
     res_bind (copy_struct config) (\<lambda>c.
     case obj_attrs of
       None \<Rightarrow> Inr (di\<lparr>di_fs_cfg := Some c, di_fs_obj_attrs := None\<rparr>)
     | Some mem \<Rightarrow> res_bind (copy_struct mem) (\<lambda>a. Inr (di\<lparr>di_fs_cfg := Some c, di_fs_obj_attrs := Some a\<rparr>)))"

definition PNP_CALLBACKS_SIZE :: nat where "PNP_CALLBACKS_SIZE = 144"
definition POWER_CALLBACKS_SIZE :: nat where "POWER_CALLBACKS_SIZE = 64"

text \<open>Callbacks in a structure that is too small are dropped.\<close>

definition checked_callbacks :: "nat \<Rightarrow> byte list option \<Rightarrow> byte list option result" where
  "checked_callbacks min_size cbs =
     (case cbs of
        None \<Rightarrow> Inr None
      | Some s \<Rightarrow> res_bind (struct_size s) (\<lambda>n. Inr (if n < min_size then None else Some s)))"

text \<open>Where the address of a callback is in the structure.\<close>

definition pnp_slot :: "pnp_event \<Rightarrow> nat" where
  "pnp_slot ev = 8 + 8 * (case ev of
     EvtDeviceD0Entry \<Rightarrow> 0 | EvtDeviceD0EntryPostInterruptsEnabled \<Rightarrow> 1 | EvtDeviceD0Exit \<Rightarrow> 2
   | EvtDeviceD0ExitPreInterruptsDisabled \<Rightarrow> 3 | EvtDevicePrepareHardware \<Rightarrow> 4 | EvtDeviceReleaseHardware \<Rightarrow> 5
   | EvtDeviceSelfManagedIoCleanup \<Rightarrow> 6 | EvtDeviceSelfManagedIoFlush \<Rightarrow> 7 | EvtDeviceSelfManagedIoInit \<Rightarrow> 8
   | EvtDeviceSelfManagedIoSuspend \<Rightarrow> 9)"

definition pnp_table :: "(u64 \<Rightarrow> 'w \<Rightarrow> u32 \<times> 'w) \<Rightarrow> byte list \<Rightarrow> pnp_event \<Rightarrow> ('w \<Rightarrow> u32 \<times> 'w) option" where
  "pnp_table funs s ev = (let f = fld s (pnp_slot ev) 8 in if f = 0 then None else Some (funs f))"

text \<open>
  A device with what \<open>Wdf_File\<close> does not need, and what creating one changes outside: the descriptor of
  the HID functions, the sensor, the event queue with the creation callbacks of the objects.
\<close>

record 'w created_device =
  dev_object :: nat
  dev_base :: "'w winwdf_device"
  dev_reg_key :: u64
  dev_power_callbacks :: "byte list option"
  dev_fs_cfg :: "byte list option"
  dev_fs_obj_attrs :: "byte list option"
  dev_hidraw_fd :: int

record wdf_world =
  win_hidraw_fd :: int
  hid_sensor :: hidraw
  evt_queue :: "unit evtqueue"

text \<open>The object of the device is at the free address \<open>obj\<close>; the result has what \<open>*out_dev\<close> becomes.\<close>

definition WdfDeviceCreate ::
    "(u64 \<Rightarrow> 'w \<Rightarrow> u32 \<times> 'w) \<Rightarrow> nat \<Rightarrow> device_init \<Rightarrow> wdf_world
      \<Rightarrow> ('w created_device \<times> 'w created_device option \<times> wdf_world) result" where
  "WdfDeviceCreate funs obj di wd =
     res_bind (checked_callbacks PNP_CALLBACKS_SIZE (di_pnp_callbacks di)) (\<lambda>pnp.
     res_bind (checked_callbacks POWER_CALLBACKS_SIZE (di_power_callbacks di)) (\<lambda>power.
     let fd = di_hidraw_fd di;
         dev = \<lparr>dev_object = obj,
           dev_base = \<lparr>pnp_callbacks = map_option (pnp_table funs) pnp, queues = [], create_queue = None,
             read_queue = None, write_queue = None, devctrl_queue = None, devctrl_int_queue = None\<rparr>,
           dev_reg_key = di_reg_key di, dev_power_callbacks = power, dev_fs_cfg = di_fs_cfg di,
           dev_fs_obj_attrs = di_fs_obj_attrs di, dev_hidraw_fd = fd\<rparr>;
         wd1 = wd\<lparr>win_hidraw_fd := fd,
           hid_sensor := (if 0 \<le> fd then snd (hid_init_sensor (hid_sensor wd)) else hid_sensor wd)\<rparr> in
     res_bind (evt_do (Evt_create obj) (evt_queue wd1)) (\<lambda>q1.
     res_bind (wdf_evtqueue_enqueue obj () q1) (\<lambda>q2.
       Inr (dev, if di_out_dev di then Some dev else None, wd1\<lparr>evt_queue := q2\<rparr>)))))"

section \<open>The driver\<close>

text \<open>The configuration is \<open>Size\<close>, two functions, flags and a tag.\<close>

definition DRIVER_CONFIG_SIZE :: nat where "DRIVER_CONFIG_SIZE = 32"

record winwdf_driver =
  drv_add :: u64
  drv_unload :: u64
  drv_reg_key :: u64

text \<open>\<open>globals\<close> has the driver; the path is read up to its terminator, whatever its length says.\<close>

definition WdfDriverCreate ::
    "u64 \<Rightarrow> u16 list \<Rightarrow> byte list \<Rightarrow> winwdf_driver option \<times> 'h registry
      \<Rightarrow> (u32 \<times> winwdf_driver option \<times> 'h registry) result" where
  "WdfDriverCreate key reg_path cfg st =
     (case st of (globals, reg) \<Rightarrow>
      res_bind (struct_size cfg) (\<lambda>n.
      if n < DRIVER_CONFIG_SIZE then Inr (ERROR_INSUFFICIENT_BUFFER, globals, reg)
      else res_bind (struct_at cfg 0 DRIVER_CONFIG_SIZE) (\<lambda>c.
           res_bind (winstr_to_str (Some reg_path)) (\<lambda>name.
           case winreg_open_key key Driver_ctx (case name of None \<Rightarrow> [] | Some s \<Rightarrow> s) reg of (h, reg1) \<Rightarrow>
             Inr (STATUS_SUCCESS, Some \<lparr>drv_add = fld c 8 8, drv_unload = fld c 16 8, drv_reg_key = h\<rparr>, reg1)))))"

text \<open>
  \<open>driver_destr\<close>: the driver is told, and the globals forget it; \<open>log\<close> is what was called.  The children
  of the object and the key go with it.
\<close>

definition driver_destr :: "winwdf_driver \<Rightarrow> u64 list \<Rightarrow> winwdf_driver option \<times> u64 list" where
  "driver_destr drv log = (None, if drv_unload drv \<noteq> 0 then log @ [drv_unload drv] else log)"

text \<open>
  The DLL adds the device: \<open>add_calls\<close> are the calls of the framework it makes in \<open>EvtDriverDeviceAdd\<close>, and
  \<open>status\<close> what it returns.  After \<open>WdfDeviceCreate\<close> the initialisation record is gone.
\<close>

datatype add_call =
  Set_pnp "byte list" | Set_power "byte list" | Set_file "byte list" "byte list option" | Create_device nat

fun add_run ::
    "(u64 \<Rightarrow> 'w \<Rightarrow> u32 \<times> 'w) \<Rightarrow> add_call list \<Rightarrow> device_init option \<times> 'w created_device option \<times> wdf_world
      \<Rightarrow> (device_init option \<times> 'w created_device option \<times> wdf_world) result" where
  "add_run funs [] st = Inr st"
| "add_run funs (c # cs) (None, out, wd) = Inl Fault"
| "add_run funs (c # cs) (Some di, out, wd) =
     (case c of
        Set_pnp mem \<Rightarrow> res_bind (WdfDeviceInitSetPnpPowerEventCallbacks mem di) (\<lambda>di'. add_run funs cs (Some di', out, wd))
      | Set_power mem \<Rightarrow> res_bind (WdfDeviceInitSetPowerPolicyEventCallbacks mem di) (\<lambda>di'. add_run funs cs (Some di', out, wd))
      | Set_file cfg attrs \<Rightarrow> res_bind (WdfDeviceInitSetFileObjectConfig cfg attrs di) (\<lambda>di'. add_run funs cs (Some di', out, wd))
      | Create_device obj \<Rightarrow>
          res_bind (WdfDeviceCreate funs obj di wd) (\<lambda>(dev, out', wd'). add_run funs cs (None, out', wd')))"

definition winwdf_add_device ::
    "(u64 \<Rightarrow> 'w \<Rightarrow> u32 \<times> 'w) \<Rightarrow> winwdf_driver \<Rightarrow> add_call list \<Rightarrow> u32 \<Rightarrow> u64 \<Rightarrow> int \<Rightarrow> wdf_world
      \<Rightarrow> (u32 \<times> 'w created_device option \<times> wdf_world) result" where
  "winwdf_add_device funs drv add_calls status key fd wd =
     (if drv_add drv = 0 then Inr (0, None, wd)
      else res_bind (add_run funs add_calls (Some (wdf_create_device_init key fd True), None, wd))
             (\<lambda>(di, out, wd'). Inr (status, out, wd')))"

text \<open>
  \<open>winwdf_event_queue_flush\<close> as far as the queue goes; then the actions: that of the device, and those of
  other objects, which are a parameter.
\<close>

lemma dispatch_shortens: "evtq st = a # as \<Longrightarrow> dispatch_action st = Inr st1 \<Longrightarrow> evtq st1 = as"
  by (auto simp: dispatch_action_def Let_def split: if_splits option.splits)

function flush_events :: "'a evtqueue \<Rightarrow> 'a evtqueue result" where
  "flush_events st = (if evtq st = [] then Inr st else res_bind (dispatch_action st) flush_events)"
  by pat_completeness auto
termination
  by (relation "measure (\<lambda>st. length (evtq st))") (auto simp: neq_Nil_conv dest: dispatch_shortens)

declare flush_events.simps [simp del]

fun run_events :: "'w created_device \<Rightarrow> (nat \<Rightarrow> 'w \<Rightarrow> 'w) \<Rightarrow> (nat \<times> unit) list \<Rightarrow> 'w \<Rightarrow> 'w result" where
  "run_events dev others [] w = Inr w"
| "run_events dev others ((obj, _) # es) w =
     (if obj = dev_object dev then res_bind (device_call_cbs (dev_base dev) w) (run_events dev others es)
      else run_events dev others es (others obj w))"

text \<open>
  Opening, up to the events: \<open>tudor_open\<close> refuses to go on without a device, and flushes the queue, which
  runs the callbacks of the device.
\<close>

definition add_and_flush ::
    "(u64 \<Rightarrow> 'w \<Rightarrow> u32 \<times> 'w) \<Rightarrow> (nat \<Rightarrow> 'w \<Rightarrow> 'w) \<Rightarrow> winwdf_driver \<Rightarrow> add_call list \<Rightarrow> u32 \<Rightarrow> u64 \<Rightarrow> int
      \<Rightarrow> wdf_world \<Rightarrow> 'w \<Rightarrow> (bool \<times> wdf_world \<times> 'w) result" where
  "add_and_flush funs others drv add_calls status key fd wd w =
     res_bind (winwdf_add_device funs drv add_calls status key fd wd) (\<lambda>(st, out, wd1).
     if st \<noteq> 0 then Inr (False, wd1, w)
     else case out of
       None \<Rightarrow> Inr (False, wd1, w)
     | Some dev \<Rightarrow>
         res_bind (flush_events (evt_queue wd1)) (\<lambda>q.
         res_bind (run_events dev others (drop (length (evt_ran (evt_queue wd1))) (evt_ran q)) w) (\<lambda>w'.
           Inr (True, wd1\<lparr>evt_queue := q\<rparr>, w'))))"

section \<open>Strings\<close>

text \<open>The string of a string object; \<open>None\<close> is no buffer.\<close>

type_synonym wdf_string = "byte list option"

definition wdf_set_string :: "byte list \<Rightarrow> wdf_string" where
  "wdf_set_string val = Some val"

definition WdfStringCreate :: "u16 list option \<Rightarrow> (u32 \<times> wdf_string) result" where
  "WdfStringCreate ustr =
     (case ustr of
        None \<Rightarrow> Inr (STATUS_SUCCESS, None)
      | Some mem \<Rightarrow> res_bind (w_name (Some mem)) (\<lambda>s. Inr (STATUS_SUCCESS, s)))"

text \<open>\<open>UNICODE_STRING\<close>: two lengths and the buffer.\<close>

record unicode_string =
  us_length :: u16
  us_maximum_length :: u16
  us_buffer :: "u16 list"

definition WdfStringGetUnicodeString :: "wdf_string \<Rightarrow> unicode_string result" where
  "WdfStringGetUnicodeString str =
     res_bind (winstr_from_str (Some (case str of None \<Rightarrow> [] | Some s \<Rightarrow> s))) (\<lambda>w.
     res_bind (winstr_len w) (\<lambda>n.
       Inr \<lparr>us_length = of_nat (n + 1), us_maximum_length = of_nat (n + 1),
            us_buffer = (case w of None \<Rightarrow> [] | Some b \<Rightarrow> b)\<rparr>))"

text \<open>\<open>%0wlx\<close> of the C library: the digits, with zeros in front up to the width.\<close>

fun hex_len :: "nat \<Rightarrow> nat" where
  "hex_len n = (if n < 16 then 1 else Suc (hex_len (n div 16)))"

declare hex_len.simps [simp del]

definition print_hex :: "nat \<Rightarrow> nat \<Rightarrow> byte list" where
  "print_hex w n = hex_text (max w (hex_len n)) n"

definition interface_name :: "guid \<Rightarrow> byte list" where
  "interface_name g = char_bytes ''IF_'' @ print_hex 8 (unat (PartA g)) @ 45 # print_hex 4 (unat (PartB g)) @
     45 # print_hex 4 (unat (PartC g)) @ 45 # print_hex 4 (unat (PartD g)) @ 45 # print_hex 12 (unat (PartE g))"

text \<open>The name is printed into a buffer of 64 bytes.\<close>

definition WdfDeviceRetrieveDeviceInterfaceString :: "guid \<Rightarrow> (u32 \<times> wdf_string) result" where
  "WdfDeviceRetrieveDeviceInterfaceString g =
     (if length (interface_name g) + 1 \<le> 64 then Inr (STATUS_SUCCESS, wdf_set_string (interface_name g)) else Inl Fault)"

section \<open>Properties of a device\<close>

definition STATUS_NOT_FOUND :: u32 where "STATUS_NOT_FOUND = 0xC0000225"

text \<open>What a query gives: status, data of the memory object (if one was asked for) and type.\<close>

definition WdfDeviceAllocAndQueryInterfaceProperty :: "bool \<Rightarrow> u32 option \<Rightarrow> u32 \<times> byte list option \<times> u32 option" where
  "WdfDeviceAllocAndQueryInterfaceProperty want_memory ty =
     (STATUS_NOT_FOUND, if want_memory then Some [] else None, map_option (\<lambda>_. 0) ty)"

definition WdfDeviceQueryInterfaceProperty :: "u32 option \<Rightarrow> u32 option \<Rightarrow> u32 \<times> u32 option \<times> u32 option" where
  "WdfDeviceQueryInterfaceProperty n ty = (STATUS_NOT_FOUND, map_option (\<lambda>_. 0) n, map_option (\<lambda>_. 0) ty)"

definition WdfDeviceQueryPropertyEx :: "u32 option \<Rightarrow> u32 option \<Rightarrow> u32 \<times> u32 option \<times> u32 option" where
  "WdfDeviceQueryPropertyEx n ty = (STATUS_NOT_FOUND, map_option (\<lambda>_. 0) n, map_option (\<lambda>_. 0) ty)"

definition WdfDeviceGetDeviceStackIoType :: "u32 option \<Rightarrow> u32 option \<Rightarrow> u32 \<times> u32 option \<times> u32 option" where
  "WdfDeviceGetDeviceStackIoType rw ioctl = (STATUS_SUCCESS, map_option (\<lambda>_. 1) rw, map_option (\<lambda>_. 1) ioctl)"

definition WdfDeviceAllocAndQueryPropertyEx :: "bool \<Rightarrow> u32 option \<Rightarrow> u32 \<times> byte list option \<times> u32 option" where
  "WdfDeviceAllocAndQueryPropertyEx want_memory ty =
     (STATUS_SUCCESS, if want_memory then Some (concat (map (word_le 2) (w_str fake_device_id_a))) else None,
      map_option (\<lambda>_. DEVPROP_TYPE_STRING) ty)"

definition WdfDeviceGetSystemPowerAction :: u32 where "WdfDeviceGetSystemPowerAction = 0"

section \<open>Binding the functions\<close>

definition NUM_WDF_FUNCS :: nat where "NUM_WDF_FUNCS = 261"

text \<open>Functions that are missing are filled with the stub that aborts; the component's name is only logged.\<close>

definition wdf_bind_version :: "u64 \<Rightarrow> u16 list \<Rightarrow> u64 list \<Rightarrow> (u32 \<times> u64 list) result" where
  "wdf_bind_version wdf_func_stub component table =
     res_bind (winstr_to_str (Some component)) (\<lambda>_.
       Inr (0, map (\<lambda>f. if f = 0 then wdf_func_stub else f) table))"

record wdf_globals =
  glob_driver :: u64
  driver_flags :: u32
  driver_tag :: u32
  driver_name :: string
  displace_driver_unload :: bool

definition init_winwdf :: wdf_globals where
  "init_winwdf = \<lparr>glob_driver = 0, driver_flags = 0, driver_tag = 0, driver_name = ''TUDOR-DRIVER'',
     displace_driver_unload = True\<rparr>"

section \<open>Properties\<close>

text \<open>The records of callbacks after the setters: the last ones that were given.\<close>

fun last_pnp :: "add_call list \<Rightarrow> byte list option \<Rightarrow> byte list option" where
  "last_pnp [] p = p"
| "last_pnp (Set_pnp mem # cs) p = last_pnp cs (Some mem)"
| "last_pnp (_ # cs) p = last_pnp cs p"

definition readable :: "byte list \<Rightarrow> bool" where
  "readable mem \<longleftrightarrow> 4 \<le> length mem \<and> 4 \<le> unat (fld mem 0 4 :: u32) \<and> unat (fld mem 0 4 :: u32) \<le> length mem"

fun setter_ok :: "add_call \<Rightarrow> bool" where
  "setter_ok (Set_pnp mem) = readable mem"
| "setter_ok (Set_power mem) = readable mem"
| "setter_ok (Set_file cfg attrs) = (readable cfg \<and> (case attrs of None \<Rightarrow> True | Some a \<Rightarrow> readable a))"
| "setter_ok (Create_device obj) = False"

definition copied :: "byte list \<Rightarrow> byte list" where
  "copied mem = take (unat (fld mem 0 4 :: u32)) mem"

lemma struct_size_fld: "4 \<le> length mem \<Longrightarrow> struct_size mem = Inr (unat (fld mem 0 4 :: u32))"
  by (simp add: struct_size_def struct_at_in_range fld_def)

lemma copy_readable:
  assumes "readable mem"
  shows "copy_struct mem = Inr (copied mem)" "struct_size (copied mem) = Inr (unat (fld mem 0 4 :: u32))"
proof -
  have r: "4 \<le> length mem" "4 \<le> unat (fld mem 0 4 :: u32)" "unat (fld mem 0 4 :: u32) \<le> length mem"
    using assms by (simp_all add: readable_def)
  show "copy_struct mem = Inr (copied mem)"
    using r by (simp add: copy_struct_def struct_size_fld struct_at_in_range copied_def)
  have "fld (copied mem) 0 4 = (fld mem 0 4 :: u32)"
    using r by (simp add: fld_def copied_def min_def)
  moreover have "4 \<le> length (copied mem)" using r by (simp add: copied_def)
  ultimately show "struct_size (copied mem) = Inr (unat (fld mem 0 4 :: u32))" by (simp add: struct_size_fld)
qed

text \<open>What the setters leave for the creation.\<close>

definition init_ok :: "device_init \<Rightarrow> bool" where
  "init_ok di \<longleftrightarrow> (case di_power_callbacks di of None \<Rightarrow> True | Some s \<Rightarrow> \<exists>mem. readable mem \<and> s = copied mem)"

lemma setters_run:
  assumes "list_all setter_ok cs" "init_ok di" "di_pnp_callbacks di = map_option copied p"
  shows "\<exists>di'. add_run funs (cs @ ds) (Some di, out, wd) = add_run funs ds (Some di', out, wd) \<and> init_ok di' \<and>
    di_pnp_callbacks di' = map_option copied (last_pnp cs p) \<and> di_hidraw_fd di' = di_hidraw_fd di \<and>
    di_out_dev di' = di_out_dev di \<and> di_reg_key di' = di_reg_key di"
  using assms
proof (induction cs arbitrary: di p)
  case (Cons c cs)
  show ?case
  proof (cases c)
    case (Set_pnp mem)
    then show ?thesis
      using Cons.prems Cons.IH[of "di\<lparr>di_pnp_callbacks := Some (copied mem)\<rparr>" "Some mem"]
      by (simp add: WdfDeviceInitSetPnpPowerEventCallbacks_def copy_readable init_ok_def)
  next
    case (Set_power mem)
    then have "init_ok (di\<lparr>di_power_callbacks := Some (copied mem)\<rparr>)"
      using Cons.prems by (auto simp: init_ok_def)
    then show ?thesis
      using Set_power Cons.prems Cons.IH[of "di\<lparr>di_power_callbacks := Some (copied mem)\<rparr>" p]
      by (simp add: WdfDeviceInitSetPowerPolicyEventCallbacks_def copy_readable)
  next
    case (Set_file cfg attrs)
    let ?d = "di\<lparr>di_fs_cfg := Some (copied cfg), di_fs_obj_attrs := map_option copied attrs\<rparr>"
    have "WdfDeviceInitSetFileObjectConfig cfg attrs di = Inr ?d"
      using Set_file Cons.prems by (auto simp: WdfDeviceInitSetFileObjectConfig_def copy_readable split: option.splits)
    then show ?thesis
      using Set_file Cons.prems Cons.IH[of ?d p] by (simp add: init_ok_def)
  next
    case (Create_device obj)
    then show ?thesis using Cons.prems by simp
  qed
qed auto

lemma copied_fld:
  assumes "readable mem" "off + 8 \<le> unat (fld mem 0 4 :: u32)"
  shows "fld (copied mem) off 8 = (fld mem off 8 :: u64)"
  using assms by (simp add: fld_def copied_def readable_def drop_take min_def)

text \<open>Callbacks that write down which function was called.\<close>

abbreviation logging :: "u64 \<Rightarrow> u64 list \<Rightarrow> u32 \<times> u64 list" where
  "logging f log \<equiv> (0, log @ [f])"

lemma call_pnp_logging:
  "call_pnp (pnp_table logging s) evs w = Inr (w @ filter (\<lambda>f. f \<noteq> 0) (map (\<lambda>ev. fld s (pnp_slot ev) 8) evs))"
  by (induction evs arbitrary: w) (simp_all add: pnp_table_def Let_def)

definition start_slots :: "byte list option \<Rightarrow> u64 list" where
  "start_slots p = (case p of
     None \<Rightarrow> []
   | Some mem \<Rightarrow> if unat (fld mem 0 4 :: u32) < PNP_CALLBACKS_SIZE then [] else map (\<lambda>off. fld mem off 8) [40, 8, 16, 72])"

lemma start_callbacks:
  assumes "case p of None \<Rightarrow> True | Some mem \<Rightarrow> readable mem"
  obtains pnp where "checked_callbacks PNP_CALLBACKS_SIZE (map_option copied p) = Inr pnp"
    and "\<And>w. (case map_option (pnp_table logging) pnp of None \<Rightarrow> Inr w
       | Some cbs \<Rightarrow> call_pnp cbs [EvtDevicePrepareHardware, EvtDeviceD0Entry,
          EvtDeviceD0EntryPostInterruptsEnabled, EvtDeviceSelfManagedIoInit] w) = Inr (w @ filter (\<lambda>f. f \<noteq> 0) (start_slots p))"
proof (cases p)
  case None
  then show ?thesis using that[of None] by (simp add: checked_callbacks_def start_slots_def)
next
  case (Some mem)
  then have r: "readable mem" using assms by simp
  show ?thesis
  proof (cases "unat (fld mem 0 4 :: u32) < PNP_CALLBACKS_SIZE")
    case True
    then show ?thesis
      using that[of None] r Some by (simp add: checked_callbacks_def start_slots_def copy_readable)
  next
    case False
    then have "off + 8 \<le> unat (fld mem 0 4 :: u32)" if "off \<le> 80" for off
      using that by (simp add: PNP_CALLBACKS_SIZE_def)
    then have "fld (copied mem) off 8 = (fld mem off 8 :: u64)" if "off \<le> 80" for off
      using copied_fld[OF r] that by simp
    then show ?thesis
      using that[of "Some (copied mem)"] r Some False
      by (simp add: checked_callbacks_def start_slots_def copy_readable call_pnp_logging pnp_slot_def
        del: call_pnp.simps)
  qed
qed

lemma last_pnp_readable:
  assumes "list_all setter_ok cs" "case p of None \<Rightarrow> True | Some mem \<Rightarrow> readable mem"
  shows "case last_pnp cs p of None \<Rightarrow> True | Some mem \<Rightarrow> readable mem"
  using assms
proof (induction cs arbitrary: p)
  case (Cons c cs)
  then show ?case by (cases c) auto
qed simp

lemma power_checked: "init_ok di \<Longrightarrow> \<exists>power. checked_callbacks POWER_CALLBACKS_SIZE (di_power_callbacks di) = Inr power"
  by (auto simp: init_ok_def checked_callbacks_def copy_readable split: option.splits)

text \<open>The action of a new device is the only one the flush runs.\<close>

lemma flush_new_device:
  assumes "evtq q = []"
  obtains q1 q2 q3 where "evt_do (Evt_create obj) q = Inr q1" "wdf_evtqueue_enqueue obj () q1 = Inr q2"
    "flush_events q2 = Inr q3" "evtq q3 = []" "evt_ran q3 = evt_ran q2 @ [(obj, ())]"
proof -
  obtain q1 where q1: "evt_do (Evt_create obj) q = Inr q1" "evtq q1 = []" "obj_live q1 obj"
    using assms by auto
  obtain q2 where q2: "wdf_evtqueue_enqueue obj () q1 = Inr q2" "evtq q2 = [next_act q1]" "act_live q2 (next_act q1)"
    "act_object (acts q2 (next_act q1)) = Some obj" "obj_live q2 obj"
    using q1 by (simp add: wdf_evtqueue_enqueue_def Let_def)
  obtain q3 where q3: "dispatch_action q2 = Inr q3" "evtq q3 = []" "evt_ran q3 = evt_ran q2 @ [(obj, ())]"
    using q2 by (simp add: dispatch_action_def Let_def)
  have "flush_events q3 = Inr q3" by (simp add: flush_events.simps[of q3] q3(2))
  then have "flush_events q2 = Inr q3" by (simp add: flush_events.simps[of q2] q2(2) q3(1))
  then show ?thesis using that q1(1) q2(1) q3 by blast
qed

text \<open>
  C38: When the DLL adds a device, with whatever callbacks set before in whatever order, opening it calls
  the start callbacks of the last structure that was given, those that are not NULL, in the order prepare
  hardware, power up, interrupts on, start of self-managed I/O, and no others; a structure that is too small is
  ignored; and the sensor has got its initialisation before.
\<close>

lemma added_device_starts_in_order:
  assumes "drv_add drv \<noteq> 0" "list_all setter_ok cs" "evtq (evt_queue wd) = []"
  shows "\<exists>wd'. add_and_flush logging others drv (cs @ [Create_device obj]) 0 key fd wd w =
      Inr (True, wd', w @ filter (\<lambda>f. f \<noteq> 0) (start_slots (last_pnp cs None))) \<and>
    win_hidraw_fd wd' = fd \<and> evtq (evt_queue wd') = [] \<and>
    (0 \<le> fd \<longrightarrow> hid_sensor wd' = snd (hid_init_sensor (hid_sensor wd)))"
proof -
  let ?di = "wdf_create_device_init key fd True"
  have "init_ok ?di" "di_pnp_callbacks ?di = map_option copied None"
    by (simp_all add: wdf_create_device_init_def init_ok_def)
  from setters_run[OF assms(2) this, of logging "[Create_device obj]" None wd]
  obtain di where di: "add_run logging (cs @ [Create_device obj]) (Some ?di, None, wd) =
      add_run logging [Create_device obj] (Some di, None, wd)" "init_ok di"
    "di_pnp_callbacks di = map_option copied (last_pnp cs None)" "di_hidraw_fd di = fd" "di_out_dev di"
    by (auto simp: wdf_create_device_init_def)
  obtain pnp where pnp: "checked_callbacks PNP_CALLBACKS_SIZE (map_option copied (last_pnp cs None)) = Inr pnp"
    "\<And>w. (case map_option (pnp_table logging) pnp of None \<Rightarrow> Inr w
       | Some cbs \<Rightarrow> call_pnp cbs [EvtDevicePrepareHardware, EvtDeviceD0Entry,
          EvtDeviceD0EntryPostInterruptsEnabled, EvtDeviceSelfManagedIoInit] w)
       = Inr (w @ filter (\<lambda>f. f \<noteq> 0) (start_slots (last_pnp cs None)))"
    using start_callbacks[of "last_pnp cs None"] last_pnp_readable[OF assms(2), of None] by auto
  obtain power where power: "checked_callbacks POWER_CALLBACKS_SIZE (di_power_callbacks di) = Inr power"
    using power_checked[OF di(2)] by blast
  obtain q1 q2 q3 where q: "evt_do (Evt_create obj) (evt_queue wd) = Inr q1" "wdf_evtqueue_enqueue obj () q1 = Inr q2"
    "flush_events q2 = Inr q3" "evtq q3 = []" "evt_ran q3 = evt_ran q2 @ [(obj, ())]"
    using flush_new_device[OF assms(3)] by metis
  show ?thesis
    using assms(1) di pnp power q
    by (simp add: add_and_flush_def winwdf_add_device_def WdfDeviceCreate_def Let_def device_call_cbs_def
        del: evt_do.simps)
qed

definition example_wdf_world :: wdf_world where
  "example_wdf_world = \<lparr>win_hidraw_fd = -1,
     hid_sensor = \<lparr>written = [], features = [], attempts = 0, send_fails = (\<lambda>_. False), arriving = []\<rparr>,
     evt_queue = empty_evtqueue ()\<rparr>"

definition example_callbacks :: "byte list" where
  "example_callbacks = word_le 4 (144 :: u32) @ replicate 4 0 @
     concat (map (\<lambda>f. word_le 8 f) ([0x11, 0, 0, 0, 0x55, 0, 0, 0, 0x99] @ replicate 8 (0 :: u64)))"

lemma added_device_starts_in_order_witness:
  "\<exists>wd'. add_and_flush logging (\<lambda>_ w. w) \<lparr>drv_add = 1, drv_unload = 0, drv_reg_key = 5\<rparr>
      ([Set_pnp example_callbacks] @ [Create_device 7]) 0 9 3 example_wdf_world [] =
      Inr (True, wd', [0x55, 0x11, 0x99]) \<and> win_hidraw_fd wd' = 3"
proof -
  have cb: "readable example_callbacks" "start_slots (Some example_callbacks) = [0x55, 0x11, 0, 0x99]"
    by code_simp+
  have "evtq (evt_queue example_wdf_world) = []" by (simp add: example_wdf_world_def empty_evtqueue_def)
  from added_device_starts_in_order[OF _ _ this, of "\<lparr>drv_add = 1, drv_unload = 0, drv_reg_key = 5\<rparr>"
      "[Set_pnp example_callbacks]" "\<lambda>_ w. w" 7 9 3 "[]"]
  show ?thesis using cb by auto
qed

text \<open>
  A structure that says that it is smaller than its first field is copied, and the size of the copy is
  read behind its end.
\<close>

lemma tiny_struct_overreads:
  "WdfDeviceInitSetPnpPowerEventCallbacks [0, 0, 0, 0] di = Inr (di\<lparr>di_pnp_callbacks := Some []\<rparr>) \<and>
   WdfDeviceCreate funs obj (di\<lparr>di_pnp_callbacks := Some []\<rparr>) wd = Inl Fault"
  by (simp add: WdfDeviceInitSetPnpPowerEventCallbacks_def copy_struct_def struct_size_def struct_at_def read_at_def
      WdfDeviceCreate_def checked_callbacks_def le_word_def)

text \<open>Names of interfaces.\<close>

lemma hex_len_le: "n < 16 ^ w \<Longrightarrow> 0 < w \<Longrightarrow> hex_len n \<le> w"
proof (induction n arbitrary: w rule: hex_len.induct)
  case (1 n)
  show ?case
  proof (cases "n < 16")
    case False
    then obtain v where v: "w = Suc v" "0 < v" using "1.prems" by (cases w; cases "w - 1") auto
    then have "n div 16 < 16 ^ v" using "1.prems" by (simp add: less_mult_imp_div_less mult.commute)
    then show ?thesis using "1.IH"[OF False, of v] v False by (simp add: hex_len.simps[of n])
  qed (use "1.prems" in \<open>simp add: hex_len.simps[of n]\<close>)
qed

lemma print_hex_exact: "n < 16 ^ w \<Longrightarrow> 0 < w \<Longrightarrow> print_hex w n = hex_text w n"
  using hex_len_le[of n w] by (simp add: print_hex_def max_def)

lemma hex_text_inj:
  assumes "hex_text w a = hex_text w b" "a < 16 ^ w" "b < 16 ^ w"
  shows "a = b"
proof -
  have "hex_digits w 0 (hex_text w n @ []) = (n mod 16 ^ w, [])" for n
    using hex_digits_text[of w 0 0 n "[]"] by simp
  then show ?thesis using assms by (metis mod_less prod.inject)
qed

lemma guid_parts_less:
  "unat (PartA g) < 16 ^ 8" "unat (PartB g) < 16 ^ 4" "unat (PartC g) < 16 ^ 4" "unat (PartD g) < 16 ^ 4"
  "unat (PartE g) < 16 ^ 12"
  using unsigned_less[where w = "PartA g" and ?'a = nat] unsigned_less[where w = "PartB g" and ?'a = nat]
    unsigned_less[where w = "PartC g" and ?'a = nat] unsigned_less[where w = "PartD g" and ?'a = nat]
    unsigned_less[where w = "PartE g" and ?'a = nat]
  by simp_all

lemma interface_name_text:
  "interface_name g = char_bytes ''IF_'' @ hex_text 8 (unat (PartA g)) @ 45 # hex_text 4 (unat (PartB g)) @
     45 # hex_text 4 (unat (PartC g)) @ 45 # hex_text 4 (unat (PartD g)) @ 45 # hex_text 12 (unat (PartE g))"
  unfolding interface_name_def by (simp only: print_hex_exact[OF guid_parts_less(1)] print_hex_exact[OF guid_parts_less(2)]
      print_hex_exact[OF guid_parts_less(3)] print_hex_exact[OF guid_parts_less(4)] print_hex_exact[OF guid_parts_less(5)])

lemma hex_text_ascii: "\<forall>b \<in> set (hex_text w n). b \<noteq> 0 \<and> b < 128"
  by (induction w arbitrary: n) (auto simp: hex_char_simps)

lemma length_interface_name: "length (interface_name g) = 39"
  by (simp add: interface_name_text length_hex_text char_bytes_def)

lemma interface_name_ascii: "\<forall>b \<in> set (interface_name g). b \<noteq> 0 \<and> b < 128"
  using hex_text_ascii by (auto simp: interface_name_text char_bytes_def)

lemma get_ascii_string:
  assumes "\<forall>b \<in> set s. b \<noteq> 0 \<and> b < 128"
  shows "WdfStringGetUnicodeString (Some s) =
    Inr \<lparr>us_length = of_nat (length s + 1), us_maximum_length = of_nat (length s + 1), us_buffer = map ucast s @ [0]\<rparr>"
proof -
  have nz: "\<forall>c \<in> set (map ucast s :: u16 list). c \<noteq> 0" using assms ucast_ascii by auto
  have "winstr_from_str (Some s) = Inr (Some (map ucast s @ [0]))"
    by (simp add: winstr_from_str_def from_str_loop_ascii[OF assms])
  moreover have "winstr_len (Some (map ucast s @ [0])) = Inr (length s)"
    using winstr_len_terminated[OF nz, of "[]"] by simp
  ultimately show ?thesis by (simp add: WdfStringGetUnicodeString_def)
qed

text \<open>
  The name of the interface of a GUID fits its buffer, whatever the GUID; two GUIDs with the same name are
  equal; and the DLL reads the name back from the string object it was put into.
\<close>

lemma interface_names_identify:
  "(\<exists>s. WdfDeviceRetrieveDeviceInterfaceString g = Inr (STATUS_SUCCESS, s) \<and>
      (\<exists>u. WdfStringGetUnicodeString s = Inr u \<and> us_buffer u = map ucast (interface_name g) @ [0])) \<and>
   (interface_name g = interface_name h \<longleftrightarrow> g = h)"
proof -
  have "g = h" if e: "interface_name g = interface_name h"
  proof -
    have "hex_text 8 (unat (PartA g)) = hex_text 8 (unat (PartA h))" "hex_text 4 (unat (PartB g)) = hex_text 4 (unat (PartB h))"
      "hex_text 4 (unat (PartC g)) = hex_text 4 (unat (PartC h))" "hex_text 4 (unat (PartD g)) = hex_text 4 (unat (PartD h))"
      "hex_text 12 (unat (PartE g)) = hex_text 12 (unat (PartE h))"
      using e by (simp_all add: interface_name_text append_eq_append_conv length_hex_text)
    then have "PartA g = PartA h" "PartB g = PartB h" "PartC g = PartC h" "PartD g = PartD h" "PartE g = PartE h"
      using hex_text_inj guid_parts_less[of g] guid_parts_less[of h] by (simp_all add: word_unat_eq_iff)
    then show ?thesis by (cases g; cases h) simp
  qed
  then show ?thesis
    using get_ascii_string[OF interface_name_ascii[of g]] length_interface_name[of g]
    by (auto simp: WdfDeviceRetrieveDeviceInterfaceString_def wdf_set_string_def)
qed

text \<open>
  The lengths of the string: \<open>Length\<close> is in bytes and without the terminator, so \<open>AB\<close> has the length 4; here
  it is 3, an odd number of bytes.
\<close>

lemma unicode_length_is_odd:
  "WdfStringGetUnicodeString (Some [65, 66]) = Inr \<lparr>us_length = 3, us_maximum_length = 3, us_buffer = [65, 66, 0]\<rparr>"
  using get_ascii_string[of "[65, 66]"] by simp

lemma string_object_roundtrip:
  fixes s :: "byte list"
  assumes "\<forall>b \<in> set s. b \<noteq> 0 \<and> b < 128"
  shows "\<exists>str u. WdfStringCreate (Some (map ucast s @ [0])) = Inr (STATUS_SUCCESS, str) \<and>
    WdfStringGetUnicodeString str = Inr u \<and> us_buffer u = map ucast s @ [0]"
proof -
  have "char_bytes (chars s) = s" by (induction s) (simp_all add: char_bytes_def chars_def mod_less[OF unat_byte_less])
  then have "WdfStringCreate (Some (map ucast s @ [0])) = Inr (STATUS_SUCCESS, Some s)"
    using winstr_to_str_ascii[OF assms, of "[]"] by (simp add: WdfStringCreate_def w_name_def)
  then show ?thesis using get_ascii_string[OF assms] by simp
qed

text \<open>After binding there is no function that is NULL, and those that are there stay.\<close>

lemma bound_table_has_no_gaps:
  assumes "wdf_bind_version stub component table = Inr (st, bound)" "stub \<noteq> 0"
  shows "st = 0 \<and> 0 \<notin> set bound \<and> length bound = length table \<and> (\<forall>i < length table. table ! i \<noteq> 0 \<longrightarrow> bound ! i = table ! i)"
  using assms by (auto simp: wdf_bind_version_def res_bind_eq_Inr)

end
