(* ===== verification/Tudor_Driver.thy ===== *)
theory Tudor_Driver
  imports Loader Win_Module Win_Hid_Dll Win_Log
begin

text \<open>
  The start and the end of the driver (\<open>libtudor/src/tudor/driver.c\<close>): its DLLs are loaded by \<open>Loader\<close>,
  registered in the list of \<open>Win_Module\<close>, attached and asked for their interfaces.  What the code of a DLL
  answers, and the DLL files themselves, are parameters.
\<close>

section \<open>State\<close>

definition NUM_WINDRV_DLLS :: nat where "NUM_WINDRV_DLLS = 2"
definition DLL_PROCESS_ATTACH :: nat where "DLL_PROCESS_ATTACH = 1"
definition DLL_PROCESS_DETACH :: nat where "DLL_PROCESS_DETACH = 0"

text \<open>The static modules, by address: \<open>ntdll.dll\<close> and those of the two DLLs, adapter first.\<close>

definition ntdll_module :: nat where "ntdll_module = 0"
definition dll_module :: "nat \<Rightarrow> nat" where "dll_module i = Suc i"
definition is_adapter :: "nat \<Rightarrow> bool" where "is_adapter i \<longleftrightarrow> i = 0"
definition is_driver :: "nat \<Rightarrow> bool" where "is_driver i \<longleftrightarrow> i = 1"

definition static_module :: "string \<Rightarrow> winmodule" where
  "static_module name = \<lparr>mod_prev = None, mod_next = None, mod_handle = None, mod_name = Some (char_bytes name),
     mod_cmdline = Some (char_bytes name), mod_environ = [], mod_image_base = 0, mod_image_size = 0\<rparr>"

definition static_modules :: "nat \<Rightarrow> winmodule option" where
  "static_modules = [0 \<mapsto> static_module ''ntdll.dll'', 1 \<mapsto> static_module ''synaFpAdapter153.dll'',
     2 \<mapsto> static_module ''synaWudfBioHid153.dll'']"

text \<open>
  What the code outside answers.  \<open>de_load\<close> is what \<open>load_dll\<close> of \<open>Loader\<close> makes of the file of a DLL.  \<open>de_attach\<close> and \<open>de_detach\<close> are the results of \<open>DllMain\<close>, \<open>de_entry\<close> is
  the status of \<open>FxDriverEntryUm\<close>, \<open>de_makes_driver\<close> tells whether it made a framework driver, and the last
  three are the results of the queries.
\<close>

record driver_env =
  de_load :: "nat \<Rightarrow> dll_image option result"
  de_attach :: "nat \<Rightarrow> bool"
  de_detach :: "nat \<Rightarrow> bool"
  de_entry :: u32
  de_makes_driver :: bool
  de_has_unload :: bool
  de_sensor :: u32
  de_engine :: u32
  de_storage :: u32

datatype driver_event =
  Ev_dll_main nat nat "nat option" | Ev_entry | Ev_query string | Ev_unload_wdf | Ev_unload_umdf

record tudor_driver =
  td_modules :: win_modules
  td_images :: "nat \<Rightarrow> dll_image option"
  td_traces :: "trace_msg list"
  td_reg_handler :: bool
  td_adapter_dll :: "nat option"
  td_driver_dll :: "nat option"
  td_wdf_driver :: bool
  td_sensor :: bool
  td_engine :: bool
  td_dll_storage :: bool
  td_log :: "driver_event list"

definition log_event :: "driver_event \<Rightarrow> tudor_driver \<Rightarrow> tudor_driver" where
  "log_event ev td = td\<lparr>td_log := td_log td @ [ev]\<rparr>"

definition on_modules :: "(win_modules \<Rightarrow> win_modules result) \<Rightarrow> tudor_driver \<Rightarrow> tudor_driver result" where
  "on_modules f td = res_bind (f (td_modules td)) (\<lambda>s. Inr (td\<lparr>td_modules := s\<rparr>))"

section \<open>Starting\<close>

definition trace_guids :: "(guid \<times> int \<times> string) list" where
  "trace_guids =
     (let g1 = DEFINE_GUID 0x58f95b1a 0x8efd 0x39f0 0x5626 0x3e620b587295;
          g2 = DEFINE_GUID 0x824d7f8b 0xe993 0x3db5 0x6a1a 0x91a0d317b75a;
          g3 = DEFINE_GUID 0x2c18840b 0x2ee0 0x377e 0xf168 0x1552bbd307c4 in
      [(g1, 0x0c, ''%s<X> checkpoint hit <X>''), (g1, 0x0d, ''%s<X> checkpoint hit <X>''),
       (g2, 0x0a, ''%s-> %s''), (g2, 0x0b, ''%s<- %s''), (g2, 0x0c, ''%s<- %s [0x%x]''), (g2, 0x0d, ''%s-> %s''),
       (g2, 0x0f, ''%s<- %s [0x%x]''), (g3, 0x0a, ''VFM LOG | %s'' @ [CHR 0x1B] @ ''[1A'')])"

definition register_traces :: "trace_msg list \<Rightarrow> trace_msg list" where
  "register_traces msgs =
     fold (\<lambda>(g, n, f) ms. winlog_register_trace_msg g n (char_bytes f @ [0]) ms) trace_guids msgs"

text \<open>Loading one DLL: \<open>False\<close> is a failure.\<close>

definition load_one :: "driver_env \<Rightarrow> nat \<Rightarrow> tudor_driver \<Rightarrow> (bool \<times> tudor_driver) result" where
  "load_one env i td =
     res_bind (de_load env i) (\<lambda>r.
     case r of
       None \<Rightarrow> Inr (False, td)
     | Some img \<Rightarrow>
         res_bind (on_modules (set_mod (dll_module i)
             (\<lambda>m. m\<lparr>mod_image_base := base_addr img, mod_image_size := word_of_int (dll_image_size img)\<rparr>))
             (td\<lparr>td_images := (td_images td)(i \<mapsto> img)\<rparr>)) (\<lambda>td1.
         res_bind (on_modules (winmodule_register (dll_module i)) td1) (\<lambda>td2.
         Inr (True, td2\<lparr>td_adapter_dll := (if is_adapter i then Some i else td_adapter_dll td2),
                        td_driver_dll := (if is_driver i then Some i else td_driver_dll td2)\<rparr>))))"

fun load_loop :: "driver_env \<Rightarrow> nat list \<Rightarrow> tudor_driver \<Rightarrow> (bool \<times> tudor_driver) result" where
  "load_loop env [] td = Inr (True, td)"
| "load_loop env (i # is) td =
     res_bind (load_one env i td) (\<lambda>(ok, td1). if ok then load_loop env is td1 else Inr (False, td1))"

text \<open>Calling the entry point of a DLL, if it has one, with the handle of its module.\<close>

definition call_dll_main :: "(nat \<Rightarrow> bool) \<Rightarrow> nat \<Rightarrow> nat \<Rightarrow> tudor_driver \<Rightarrow> (bool \<times> tudor_driver) result" where
  "call_dll_main answer reason i td =
     (case td_images td i of
        None \<Rightarrow> Inr (True, td)
      | Some img \<Rightarrow>
          (case entry_point img of
             None \<Rightarrow> Inr (True, td)
           | Some _ \<Rightarrow>
               (let td1 = td\<lparr>td_modules := winmodule_set_cur (Some (dll_module i)) (td_modules td)\<rparr> in
                res_bind (get_mod (dll_module i) (td_modules td1)) (\<lambda>m.
                  Inr (answer i, log_event (Ev_dll_main i reason (mod_handle m)) td1)))))"

fun attach_loop :: "driver_env \<Rightarrow> nat list \<Rightarrow> tudor_driver \<Rightarrow> (bool \<times> tudor_driver) result" where
  "attach_loop env [] td = Inr (True, td)"
| "attach_loop env (i # is) td =
     res_bind (call_dll_main (de_attach env) DLL_PROCESS_ATTACH i td) (\<lambda>(ok, td1).
       if ok then attach_loop env is td1 else Inr (False, td1))"

text \<open>The export of a DLL; \<open>find_dll_export\<close> aborts when there is none.\<close>

definition export_of :: "nat option \<Rightarrow> string \<Rightarrow> tudor_driver \<Rightarrow> u64 result" where
  "export_of dll name td =
     (case dll of
        None \<Rightarrow> Inl Abort
      | Some i \<Rightarrow> (case td_images td i of None \<Rightarrow> Inl Abort | Some img \<Rightarrow> find_dll_export img (char_bytes name @ [0])))"

definition set_cur_dll :: "nat option \<Rightarrow> tudor_driver \<Rightarrow> tudor_driver" where
  "set_cur_dll dll td = td\<lparr>td_modules := winmodule_set_cur (map_option dll_module dll) (td_modules td)\<rparr>"

definition umdf_entry :: "driver_env \<Rightarrow> tudor_driver \<Rightarrow> (bool \<times> tudor_driver) result" where
  "umdf_entry env td =
     (let td1 = set_cur_dll (td_driver_dll td) (td\<lparr>td_wdf_driver := False\<rparr>) in
      res_bind (export_of (td_driver_dll td1) ''FxDriverEntryUm'' td1) (\<lambda>_.
      let td2 = log_event Ev_entry (td1\<lparr>td_wdf_driver := de_makes_driver env\<rparr>) in
      if de_entry env \<noteq> 0 then Inr (False, td2) else Inr (td_wdf_driver td2, td2)))"

definition query_interfaces :: "driver_env \<Rightarrow> tudor_driver \<Rightarrow> (bool \<times> tudor_driver) result" where
  "query_interfaces env td =
     (let td1 = set_cur_dll (td_adapter_dll td) td in
      res_bind (export_of (td_adapter_dll td1) ''WbioQuerySensorInterface'' td1) (\<lambda>_.
      let td2 = log_event (Ev_query ''sensor'') (td1\<lparr>td_sensor := de_sensor env = 0\<rparr>) in
      if de_sensor env \<noteq> 0 then Inr (False, td2)
      else res_bind (export_of (td_adapter_dll td2) ''WbioQueryEngineInterface'' td2) (\<lambda>_.
      let td3 = log_event (Ev_query ''engine'') (td2\<lparr>td_engine := de_engine env = 0\<rparr>) in
      if de_engine env \<noteq> 0 then Inr (False, td3)
      else res_bind (export_of (td_adapter_dll td3) ''WbioQueryStorageInterface'' td3) (\<lambda>_.
      Inr (True, log_event (Ev_query ''storage'') (td3\<lparr>td_dll_storage := de_storage env = 0\<rparr>))))))"

definition init_begin :: "bool \<Rightarrow> tudor_driver \<Rightarrow> tudor_driver" where
  "init_begin log_traces td =
     td\<lparr>td_traces := (if log_traces then register_traces (td_traces td) else td_traces td),
        td_reg_handler := True, td_adapter_dll := None, td_driver_dll := None\<rparr>"

definition init_dlls :: "driver_env \<Rightarrow> tudor_driver \<Rightarrow> (bool \<times> tudor_driver) result" where
  "init_dlls env td =
     res_bind (load_loop env [0..<NUM_WINDRV_DLLS] td) (\<lambda>(ok, td1).
     if \<not> ok then Inr (False, td1)
     else if td_adapter_dll td1 = None \<or> td_driver_dll td1 = None then Inl Abort
     else attach_loop env [0..<NUM_WINDRV_DLLS] td1)"

definition tudor_init :: "driver_env \<Rightarrow> bool \<Rightarrow> tudor_driver \<Rightarrow> (bool \<times> tudor_driver) result" where
  "tudor_init env log_traces td =
     res_bind (on_modules (winmodule_register ntdll_module) td) (\<lambda>td1.
     res_bind (init_dlls env (init_begin log_traces td1)) (\<lambda>(ok, td2).
     if \<not> ok then Inr (False, td2)
     else res_bind (umdf_entry env td2) (\<lambda>(ok, td3).
     if \<not> ok then Inr (False, td3)
     else query_interfaces env td3)))"

section \<open>Ending\<close>

text \<open>A DLL that refuses to be detached ends the loop: it and the ones behind it stay.\<close>

fun detach_loop :: "driver_env \<Rightarrow> nat list \<Rightarrow> tudor_driver \<Rightarrow> (bool \<times> tudor_driver) result" where
  "detach_loop env [] td = Inr (True, td)"
| "detach_loop env (i # is) td =
     res_bind (call_dll_main (de_detach env) DLL_PROCESS_DETACH i td) (\<lambda>(ok, td1).
       if ok then res_bind (on_modules (winmodule_unregister (dll_module i)) td1) (detach_loop env is)
       else Inr (False, td1))"

definition destroy_images :: "nat list \<Rightarrow> tudor_driver \<Rightarrow> tudor_driver" where
  "destroy_images is td =
     td\<lparr>td_images := fold (\<lambda>i imgs. imgs(i := map_option destroy_dll (imgs i))) is (td_images td)\<rparr>"

text \<open>Unloading the framework driver, then the one of the DLL if it has a function for it.\<close>

definition unload_drivers :: "driver_env \<Rightarrow> nat \<Rightarrow> tudor_driver \<Rightarrow> tudor_driver" where
  "unload_drivers env d td =
     (let td1 = log_event Ev_unload_wdf (set_cur_dll (Some d) td\<lparr>td_wdf_driver := False\<rparr>) in
      if de_has_unload env then log_event Ev_unload_umdf td1 else td1)"

definition tudor_shutdown :: "driver_env \<Rightarrow> tudor_driver \<Rightarrow> (bool \<times> tudor_driver) result" where
  "tudor_shutdown env td =
     (case td_driver_dll td of
        None \<Rightarrow> Inl Fault
      | Some d \<Rightarrow>
          if \<not> td_wdf_driver td then Inl Fault
          else res_bind (detach_loop env [0..<NUM_WINDRV_DLLS] (unload_drivers env d td)) (\<lambda>(ok, td1).
            if \<not> ok then Inr (False, td1)
            else res_bind (on_modules (winmodule_unregister ntdll_module) (destroy_images [0..<NUM_WINDRV_DLLS] td1)) (\<lambda>td2.
              Inr (True, td2))))"

definition before_init :: tudor_driver where
  "before_init = \<lparr>td_modules = \<lparr>modules_head = None, mod_mem = static_modules, handle_data = (\<lambda>_. None),
       next_addr = 3, cur_module = None, last_error = 0\<rparr>, td_images = (\<lambda>_. None), td_traces = [],
     td_reg_handler = False, td_adapter_dll = None, td_driver_dll = None, td_wdf_driver = False,
     td_sensor = False, td_engine = False, td_dll_storage = False, td_log = []\<rparr>"

section \<open>Registering static modules\<close>

text \<open>The modules of the list have their handles, and the three static modules stay what they are.\<close>

definition reg_inv :: "win_modules \<Rightarrow> nat list \<Rightarrow> bool" where
  "reg_inv s xs \<longleftrightarrow> registry s xs \<and> 3 \<le> next_addr s \<and>
     (\<forall>x < 3. \<exists>m. mod_mem s x = Some m \<and> mod_name m \<noteq> None \<and> mod_cmdline m \<noteq> None) \<and>
     (\<forall>x \<in> set xs. mod_handle (the (mod_mem s x)) \<noteq> None)"

lemma reg_invD:
  assumes "reg_inv s xs"
  shows "registry s xs" "3 \<le> next_addr s" "x < 3 \<Longrightarrow> \<exists>m. mod_mem s x = Some m \<and> mod_name m \<noteq> None \<and> mod_cmdline m \<noteq> None"
    "x \<in> set xs \<Longrightarrow> mod_handle (the (mod_mem s x)) \<noteq> None"
  using assms unfolding reg_inv_def by blast+

lemma payload_statics:
  assumes "map_option payload (mem' x) = map_option payload (mem x)" "mem x = Some m"
  shows "\<exists>m'. mem' x = Some m' \<and> mod_name m' = mod_name m \<and> mod_cmdline m' = mod_cmdline m \<and> mod_handle m' = mod_handle m"
proof -
  obtain m' where "mem' x = Some m'" "payload m' = payload m" using assms by (cases "mem' x") auto
  then show ?thesis by (cases m; cases m') (simp add: payload_def)
qed

lemma register_ok:
  assumes inv: "reg_inv s xs" and a: "a \<notin> set xs" "a < 3"
  shows "\<exists>s'. winmodule_register a s = Inr s' \<and> reg_inv s' (a # xs)"
proof -
  note reg = reg_invD(1)[OF inv]
  define h where "h = next_addr s"
  obtain l where seg: "dlseg (mod_mem s) None (modules_head s) xs l None" and d: "distinct xs"
    using reg unfolding registry_def by blast
  have hd: "modules_head s = (case xs of [] \<Rightarrow> None | x # _ \<Rightarrow> Some x)" using dlseg_first[OF seg] .
  obtain m0 where m0: "mod_mem s a = Some m0" "mod_name m0 \<noteq> None" "mod_cmdline m0 \<noteq> None"
    using reg_invD(3)[OF inv a(2)] by blast
  define new where "new = m0\<lparr>mod_handle := Some h, mod_prev := None, mod_next := modules_head s\<rparr>"
  define mem1 where "mem1 = (mod_mem s)(a \<mapsto> new)"
  define mem2 where "mem2 = (case xs of [] \<Rightarrow> mem1 | x # _ \<Rightarrow> mem1(x \<mapsto> (the (mem1 x))\<lparr>mod_prev := Some a\<rparr>))"
  define s' where "s' = s\<lparr>handle_data := (handle_data s)(h \<mapsto> a), next_addr := Suc h, mod_mem := mem2, modules_head := Some a\<rparr>"
  have seg1: "dlseg mem1 None (modules_head s) xs l None"
    by (subst dlseg_cong[where mem = "mod_mem s"]) (use seg a in \<open>auto simp: mem1_def\<close>)
  have seg2: "dlseg mem2 (Some a) (modules_head s) xs (if xs = [] then Some a else l) None"
  proof (cases xs)
    case Nil
    then show ?thesis using hd by simp
  next
    case (Cons x ys)
    then show ?thesis using dlseg_set_prev[of mem1 None _ x ys l None "Some a"] seg1 d hd
      by (simp add: mem2_def)
  qed
  have x: "xs = x # ys \<Longrightarrow> mem1 x \<noteq> None" for x ys using dlseg_present[OF seg1] by auto
  have new2: "mem2 a = Some new" using a by (auto simp: mem2_def mem1_def split: list.splits)
  have old: "map_option payload (mem2 y) = map_option payload (mod_mem s y)" if "y \<noteq> a" for y
    using that x by (auto simp: mem2_def mem1_def payload_def split: list.splits)
  let ?t = "s\<lparr>handle_data := (handle_data s)(h \<mapsto> a), next_addr := Suc h, mod_mem := mem1\<rparr>"
  have link: "(case modules_head ?t of Some q \<Rightarrow> set_mod q (\<lambda>x. x\<lparr>mod_prev := Some a\<rparr>) ?t | None \<Rightarrow> Inr ?t)
      = Inr (?t\<lparr>mod_mem := mem2\<rparr>)"
    using x hd by (cases xs) (auto simp: set_mod_def get_mod_def mem2_def)
  have "winmodule_register a s = Inr s'"
    using link m0(1)
    by (simp add: winmodule_register_def winhandle_create_def set_mod_def[of a] get_mod_def new_def[symmetric]
        h_def[symmetric] mem1_def[symmetric] s'_def)
  moreover have same: "\<exists>m m'. mod_mem s y = Some m \<and> mem2 y = Some m' \<and> mod_name m' = mod_name m \<and> mod_handle m' = mod_handle m"
    if "y \<in> set xs" for y
  proof -
    obtain m where m: "mod_mem s y = Some m" using dlseg_present[OF seg, of y] \<open>y \<in> set xs\<close> by blast
    have "y \<noteq> a" using \<open>y \<in> set xs\<close> a by blast
    then show ?thesis using payload_statics[where mem' = mem2 and mem = "mod_mem s"] old m by blast
  qed
  moreover have "registry s' (a # xs)"
  proof (rule registryI)
    show "dlseg (mod_mem s') None (modules_head s') (a # xs) (if xs = [] then Some a else l) None"
      using seg2 new2 by (simp add: s'_def new_def)
    show "y < next_addr s'" if "y \<in> set (a # xs)" for y
      using that registry_below[OF reg, of y] a(2) reg_invD(2)[OF inv] by (auto simp: s'_def h_def)
    show "mod_name (the (mod_mem s' y)) \<noteq> None" if "y \<in> set (a # xs)" for y
      using that new2 same[of y] registry_named[OF reg, of y] m0(2)
      by (cases "y = a") (auto simp: s'_def new_def)
    show "handle_data s' g = Some y \<longleftrightarrow> mod_handle (the (mod_mem s' y)) = Some g" if "y \<in> set (a # xs)" for y g
    proof (cases "y = a")
      case True
      have "handle_data s g \<noteq> Some a" using reg a(1) unfolding registry_def by blast
      then show ?thesis using True new2 by (auto simp: s'_def new_def)
    next
      case False
      then have y: "y \<in> set xs" using that by simp
      have "handle_data s h \<noteq> Some y"
        using reg unfolding registry_def h_def by (metis less_irrefl)
      then show ?thesis using False same[OF y] registry_handle[OF reg y, of g] by (auto simp: s'_def)
    qed
    show "g < next_addr s' \<and> y \<in> set (a # xs)" if "handle_data s' g = Some y" for g y
    proof (cases "g = h")
      case False
      then have "handle_data s g = Some y" using that by (simp add: s'_def)
      then have "g < h \<and> y \<in> set xs" using reg unfolding registry_def h_def by blast
      then show ?thesis by (simp add: s'_def)
    qed (use that in \<open>simp add: s'_def\<close>)
  qed (use a d in simp)
  moreover have "\<exists>m. mod_mem s' y = Some m \<and> mod_name m \<noteq> None \<and> mod_cmdline m \<noteq> None" if "y < 3" for y
  proof (cases "y = a")
    case True
    then show ?thesis using new2 m0 by (simp add: s'_def new_def)
  next
    case False
    obtain m where "mod_mem s y = Some m" "mod_name m \<noteq> None" "mod_cmdline m \<noteq> None"
      using reg_invD(3)[OF inv \<open>y < 3\<close>] by blast
    then show ?thesis using payload_statics[of mem2 y "mod_mem s" m] old[OF False] by (auto simp: s'_def)
  qed
  moreover have "mod_handle (the (mod_mem s' y)) \<noteq> None" if "y \<in> set (a # xs)" for y
    using that new2 same[of y] reg_invD(4)[OF inv, of y] by (cases "y = a") (auto simp: s'_def new_def)
  moreover have "3 \<le> next_addr s'" using reg_invD(2)[OF inv] by (simp add: s'_def h_def)
  ultimately show ?thesis unfolding reg_inv_def by blast
qed

lemma unregister_ok:
  assumes inv: "reg_inv s (ys @ a # zs)" and a: "a < 3"
  shows "\<exists>s'. winmodule_unregister a s = Inr s' \<and> reg_inv s' (ys @ zs)"
proof -
  note reg = reg_invD(1)[OF inv]
  obtain l where seg: "dlseg (mod_mem s) None (modules_head s) (ys @ a # zs) l None" and d: "distinct (ys @ a # zs)"
    using reg unfolding registry_def by blast
  obtain m where m: "mod_mem s a = Some m" "mod_name m \<noteq> None" "mod_cmdline m \<noteq> None"
    using reg_invD(3)[OF inv a] by blast
  obtain h where h: "mod_handle m = Some h" using reg_invD(4)[OF inv, of a] m(1) by auto
  then have hd: "handle_data s h = Some a" using registry_handle[OF reg, of a h] m(1) by simp
  define m1 where "m1 = m\<lparr>mod_handle := None\<rparr>"
  define s2 where "s2 = s\<lparr>mod_mem := (mod_mem s)(a \<mapsto> m1), handle_data := (handle_data s)(h := None)\<rparr>"
  have "winhandle_destroy True (Some h) s = Inr s2"
    using hd m by (simp add: winhandle_destroy_def module_destr_def set_mod_def get_mod_def s2_def m1_def)
  moreover have "set_mod a (\<lambda>x. x\<lparr>mod_handle := None\<rparr>) s2 = Inr s2"
    by (simp add: set_mod_def get_mod_def s2_def m1_def)
  ultimately have step: "winmodule_unregister a s = unlink_module a s2"
    using m(1) h by (simp add: winmodule_unregister_def get_mod_def)
  have seg2: "dlseg (mod_mem s2) None (modules_head s2) (ys @ a # zs) l None"
    unfolding s2_def using seg m by (subst dlseg_links[where mem = "mod_mem s"]) (auto simp: m1_def)
  obtain mem' p l' where u: "unlink_module a s2 = Inr (s2\<lparr>mod_mem := mem', modules_head := p\<rparr>)"
    "dlseg mem' None p (ys @ zs) l' None" "mem' a = mod_mem s2 a"
    "\<And>x. map_option payload (mem' x) = map_option payload (mod_mem s2 x)"
    using unlink_module_ok[OF seg2 d] by blast
  let ?s = "s\<lparr>mod_mem := mem', modules_head := p, handle_data := (handle_data s)(h := None)\<rparr>"
  have eq: "s2\<lparr>mod_mem := mem', modules_head := p\<rparr> = ?s" by (simp add: s2_def)
  have f: "\<exists>m'. mem' y = Some m' \<and> mod_name m' = mod_name k \<and> mod_cmdline m' = mod_cmdline k \<and> mod_handle m' = mod_handle k"
    if "mod_mem s y = Some k" "y \<noteq> a" for y k
    using payload_statics[of mem' y "mod_mem s" k] u(4)[of y] that by (simp add: s2_def)
  have g: "mod_name (the (mem' y)) = mod_name (the (mod_mem s y)) \<and> mod_handle (the (mem' y)) = mod_handle (the (mod_mem s y))"
    if y: "y \<in> set (ys @ zs)" for y
  proof -
    have "mod_mem s y \<noteq> None" using dlseg_present[OF seg, of y] y by auto
    moreover have "y \<noteq> a" using d y by auto
    ultimately show ?thesis using f[of y] by auto
  qed
  have "registry ?s (ys @ zs)"
    by (rule registry_close[OF reg hd u(2)]) (use d g in auto)
  moreover have "\<exists>k. mod_mem ?s y = Some k \<and> mod_name k \<noteq> None \<and> mod_cmdline k \<noteq> None" if "y < 3" for y
  proof (cases "y = a")
    case True
    then show ?thesis using u(3) m by (simp add: s2_def m1_def)
  next
    case False
    obtain k where "mod_mem s y = Some k" "mod_name k \<noteq> None" "mod_cmdline k \<noteq> None"
      using reg_invD(3)[OF inv \<open>y < 3\<close>] by blast
    then show ?thesis using f[of y k] False by auto
  qed
  moreover have "mod_handle (the (mod_mem ?s y)) \<noteq> None" if "y \<in> set (ys @ zs)" for y
    using g[OF that] reg_invD(4)[OF inv, of y] that by auto
  ultimately have "reg_inv ?s (ys @ zs)" using reg_invD(2)[OF inv] by (simp add: reg_inv_def)
  then show ?thesis using step u(1) eq by simp
qed

lemma set_cur_inv: "reg_inv (winmodule_set_cur c s) xs = reg_inv s xs"
  by (simp add: reg_inv_def registry_def winmodule_set_cur_def)

lemma set_image_ok:
  assumes inv: "reg_inv s xs" and a: "a < 3"
  shows "\<exists>s'. set_mod a (\<lambda>m. m\<lparr>mod_image_base := b, mod_image_size := n\<rparr>) s = Inr s' \<and> reg_inv s' xs"
proof -
  note reg = reg_invD(1)[OF inv]
  obtain l where seg: "dlseg (mod_mem s) None (modules_head s) xs l None" and d: "distinct xs"
    using reg unfolding registry_def by blast
  obtain m where m: "mod_mem s a = Some m" "mod_name m \<noteq> None" "mod_cmdline m \<noteq> None"
    using reg_invD(3)[OF inv a] by blast
  define m1 where "m1 = m\<lparr>mod_image_base := b, mod_image_size := n\<rparr>"
  define s' where "s' = s\<lparr>mod_mem := (mod_mem s)(a \<mapsto> m1)\<rparr>"
  have same: "mod_name (the (mod_mem s' y)) = mod_name (the (mod_mem s y)) \<and>
      mod_handle (the (mod_mem s' y)) = mod_handle (the (mod_mem s y))" for y
    using m by (simp add: s'_def m1_def)
  have "set_mod a (\<lambda>m. m\<lparr>mod_image_base := b, mod_image_size := n\<rparr>) s = Inr s'"
    using m by (simp add: set_mod_def get_mod_def s'_def m1_def)
  moreover have "registry s' xs"
  proof (rule registryI)
    show "dlseg (mod_mem s') None (modules_head s') xs l None"
      unfolding s'_def using seg m by (subst dlseg_links[where mem = "mod_mem s"]) (auto simp: m1_def)
    show "y < next_addr s'" if "y \<in> set xs" for y using registry_below[OF reg that] by (simp add: s'_def)
    show "mod_name (the (mod_mem s' y)) \<noteq> None" if "y \<in> set xs" for y using registry_named[OF reg that] same by simp
    show "handle_data s' h = Some y \<longleftrightarrow> mod_handle (the (mod_mem s' y)) = Some h" if "y \<in> set xs" for y h
      using registry_handle[OF reg that] same by (simp add: s'_def)
    show "h < next_addr s' \<and> y \<in> set xs" if "handle_data s' h = Some y" for h y
    proof -
      have "handle_data s h = Some y" using that by (simp add: s'_def)
      then have "h < next_addr s \<and> y \<in> set xs" using reg unfolding registry_def by blast
      then show ?thesis by (simp add: s'_def)
    qed
  qed (fact d)
  moreover have "\<exists>k. mod_mem s' y = Some k \<and> mod_name k \<noteq> None \<and> mod_cmdline k \<noteq> None" if "y < 3" for y
    using reg_invD(3)[OF inv that] m by (auto simp: s'_def m1_def)
  moreover have "3 \<le> next_addr s'" using reg_invD(2)[OF inv] by (simp add: s'_def)
  moreover have "\<forall>y \<in> set xs. mod_handle (the (mod_mem s' y)) \<noteq> None" using reg_invD(4)[OF inv] same by simp
  ultimately show ?thesis unfolding reg_inv_def by blast
qed

section \<open>Starting and ending\<close>

lemma destroy_dll_base: "base_addr (destroy_dll img) = 0"
  by (simp add: destroy_dll_def)

lemma load_one_ok:
  assumes "reg_inv (td_modules td) xs" "dll_module i \<notin> set xs" "i < 2" "load_one env i td = Inr (True, td')"
  shows "reg_inv (td_modules td') (dll_module i # xs) \<and> td_wdf_driver td' = td_wdf_driver td \<and>
    (\<exists>img. de_load env i = Inr (Some img) \<and> td_images td' = (td_images td)(i \<mapsto> img)) \<and>
    td_adapter_dll td' = (if i = 0 then Some 0 else td_adapter_dll td) \<and>
    td_driver_dll td' = (if i = 1 then Some 1 else td_driver_dll td) \<and> td_log td' = td_log td"
proof -
  obtain img where img: "de_load env i = Inr (Some img)"
    using assms(4) by (auto simp: load_one_def res_bind_eq_Inr split: option.splits)
  have i: "dll_module i < 3" using assms(3) by (simp add: dll_module_def)
  obtain s1 where s1: "set_mod (dll_module i) (\<lambda>m. m\<lparr>mod_image_base := base_addr img,
      mod_image_size := word_of_int (dll_image_size img)\<rparr>) (td_modules td) = Inr s1" "reg_inv s1 xs"
    using set_image_ok[OF assms(1) i] by blast
  obtain s2 where s2: "winmodule_register (dll_module i) s1 = Inr s2" "reg_inv s2 (dll_module i # xs)"
    using register_ok[OF s1(2) assms(2) i] by blast
  show ?thesis
    using assms(4) s2(2)
    by (auto simp: load_one_def img on_modules_def s1(1) s2(1) is_adapter_def is_driver_def)
qed

lemma call_dll_main_keeps:
  assumes "call_dll_main answer reason i td = Inr (ok, td')" "reg_inv (td_modules td) xs"
  shows "reg_inv (td_modules td') xs \<and> td_images td' = td_images td \<and> td_wdf_driver td' = td_wdf_driver td \<and>
    td_adapter_dll td' = td_adapter_dll td \<and> td_driver_dll td' = td_driver_dll td"
  using assms
  by (auto simp: call_dll_main_def Let_def res_bind_eq_Inr log_event_def set_cur_inv split: option.splits)

lemma dll_indices: "[0..<NUM_WINDRV_DLLS] = [0, 1]"
  by (simp add: NUM_WINDRV_DLLS_def upt_rec)

lemma on_modules_Inr: "on_modules f td = Inr td' \<longleftrightarrow> (\<exists>s. f (td_modules td) = Inr s \<and> td' = td\<lparr>td_modules := s\<rparr>)"
  by (auto simp: on_modules_def res_bind_eq_Inr)

lemma before_init_inv: "reg_inv (td_modules before_init) []"
  by (simp add: before_init_def reg_inv_def registry_def static_modules_def static_module_def)

lemma umdf_entry_keeps:
  assumes "umdf_entry env td = Inr (True, td')" "reg_inv (td_modules td) xs"
  shows "reg_inv (td_modules td') xs \<and> td_images td' = td_images td \<and> td_wdf_driver td' \<and>
    td_adapter_dll td' = td_adapter_dll td \<and> td_driver_dll td' = td_driver_dll td"
  using assms
  by (auto simp: umdf_entry_def Let_def res_bind_eq_Inr log_event_def set_cur_dll_def set_cur_inv split: if_splits)

lemma query_interfaces_keeps:
  assumes "query_interfaces env td = Inr (True, td')" "reg_inv (td_modules td) xs"
  shows "reg_inv (td_modules td') xs \<and> td_images td' = td_images td \<and> td_wdf_driver td' = td_wdf_driver td \<and>
    td_adapter_dll td' = td_adapter_dll td \<and> td_driver_dll td' = td_driver_dll td \<and> td_sensor td' \<and> td_engine td' \<and>
    td_dll_storage td' = (de_storage env = 0)"
  using assms
  by (auto simp: query_interfaces_def Let_def res_bind_eq_Inr log_event_def set_cur_dll_def set_cur_inv split: if_splits)

lemma init_ok:
  assumes "tudor_init env traces td = Inr (True, td')" "reg_inv (td_modules td) []"
  shows "reg_inv (td_modules td') [2, 1, 0] \<and> td_wdf_driver td' \<and> td_adapter_dll td' = Some 0 \<and>
    td_driver_dll td' = Some 1 \<and> td_sensor td' \<and> td_engine td' \<and> td_dll_storage td' = (de_storage env = 0) \<and>
    (\<forall>i < 2. \<exists>img. de_load env i = Inr (Some img) \<and> td_images td' i = Some img)"
proof -
  obtain td1 td4 td5 where td1: "on_modules (winmodule_register ntdll_module) td = Inr td1"
    and dlls: "init_dlls env (init_begin traces td1) = Inr (True, td4)" and td5: "umdf_entry env td4 = Inr (True, td5)"
    and fin: "query_interfaces env td5 = Inr (True, td')"
    using assms(1) by (auto simp: tudor_init_def res_bind_eq_Inr split: if_splits)
  define td2 where "td2 = init_begin traces td1"
  obtain s1 where s1: "winmodule_register ntdll_module (td_modules td) = Inr s1" "reg_inv s1 [ntdll_module]"
    using register_ok[OF assms(2), of ntdll_module] by (auto simp: ntdll_module_def)
  then have r2: "reg_inv (td_modules td2) [ntdll_module]" using td1 by (auto simp: on_modules_Inr td2_def init_begin_def)
  obtain td3 where td3: "load_loop env [0, 1] td2 = Inr (True, td3)" and td4: "attach_loop env [0, 1] td3 = Inr (True, td4)"
    using dlls unfolding init_dlls_def td2_def[symmetric] dll_indices
    by (auto simp: res_bind_eq_Inr simp del: load_loop.simps attach_loop.simps split: if_splits)
  obtain tda where a: "load_one env 0 td2 = Inr (True, tda)" "load_one env 1 tda = Inr (True, td3)"
    using td3 by (auto simp: res_bind_eq_Inr split: if_splits)
  have a1: "dll_module 0 \<notin> set [ntdll_module]" "dll_module 1 \<notin> set [dll_module 0, ntdll_module]"
    by (simp_all add: dll_module_def ntdll_module_def)
  note l0 = load_one_ok[OF r2 a1(1) _ a(1)]
  have r3: "reg_inv (td_modules tda) [dll_module 0, ntdll_module]" using l0 by simp
  note l1 = load_one_ok[OF r3 a1(2) _ a(2)]
  have r4: "reg_inv (td_modules td3) [2, 1, 0]" using l1 by (simp add: dll_module_def ntdll_module_def numeral_2_eq_2)
  obtain tdb where b: "call_dll_main (de_attach env) DLL_PROCESS_ATTACH 0 td3 = Inr (True, tdb)"
    "call_dll_main (de_attach env) DLL_PROCESS_ATTACH 1 tdb = Inr (True, td4)"
    using td4 by (auto simp: res_bind_eq_Inr split: if_splits)
  note k0 = call_dll_main_keeps[OF b(1) r4]
  note k1 = call_dll_main_keeps[OF b(2) conjunct1[OF k0]]
  note u = umdf_entry_keeps[OF td5 conjunct1[OF k1]]
  note q = query_interfaces_keeps[OF fin conjunct1[OF u]]
  have "\<exists>img. de_load env i = Inr (Some img) \<and> td_images td' i = Some img" if "i < 2" for i
    using that l0 l1 k0 k1 u q by (auto simp: less_2_cases_iff)
  then show ?thesis using l0 l1 k0 k1 u q by simp
qed

lemma unregister_step:
  assumes "reg_inv (td_modules td) (ys @ a # zs)" "a < 3"
  obtains td' where "on_modules (winmodule_unregister a) td = Inr td'" "reg_inv (td_modules td') (ys @ zs)"
    "td_images td' = td_images td" "td_wdf_driver td' = td_wdf_driver td"
  using unregister_ok[OF assms] that by (auto simp: on_modules_Inr)

lemma detach_returns:
  assumes "reg_inv (td_modules td) xs" "dll_module i < 3" "answer i"
  obtains td' where "call_dll_main answer reason i td = Inr (True, td')"
proof -
  obtain m where "mod_mem (td_modules td) (dll_module i) = Some m" using reg_invD(3)[OF assms(1,2)] by blast
  then have "\<exists>td'. call_dll_main answer reason i td = Inr (True, td')" using assms(3)
    by (auto simp: call_dll_main_def Let_def get_mod_def winmodule_set_cur_def split: option.splits)
  then show ?thesis using that by blast
qed


definition example_dll :: "string list \<Rightarrow> dll_image" where
  "example_dll names = \<lparr>base_addr = 0x7f0000000000, dll_image_size = 4096, entry_point = Some 0x7f0000000010,
     dll_num_exports = int (length names),
     dll_exports = map (\<lambda>n. \<lparr>dexp_name = char_bytes n @ [0], dexp_addr = 0x7f0000000020\<rparr>) names,
     dll_memory = [], dll_prots = []\<rparr>"

definition example_driver_env :: driver_env where
  "example_driver_env = \<lparr>de_load = (\<lambda>i. Inr (Some (example_dll (if i = 0
       then [''WbioQuerySensorInterface'', ''WbioQueryEngineInterface'', ''WbioQueryStorageInterface'']
       else [''FxDriverEntryUm''])))), de_attach = (\<lambda>_. True), de_detach = (\<lambda>_. True), de_entry = 0,
     de_makes_driver = True, de_has_unload = True, de_sensor = 0, de_engine = 0, de_storage = 1\<rparr>"

lemma example_exports:
  "find_dll_export (example_dll [''FxDriverEntryUm'']) (char_bytes ''FxDriverEntryUm'' @ [0]) = Inr 0x7f0000000020"
  "name \<in> {''WbioQuerySensorInterface'', ''WbioQueryEngineInterface'', ''WbioQueryStorageInterface''} \<Longrightarrow>
   find_dll_export (example_dll [''WbioQuerySensorInterface'', ''WbioQueryEngineInterface'', ''WbioQueryStorageInterface''])
     (char_bytes name @ [0]) = Inr 0x7f0000000020"
proof -
  show "find_dll_export (example_dll [''FxDriverEntryUm'']) (char_bytes ''FxDriverEntryUm'' @ [0]) = Inr 0x7f0000000020"
    by code_simp
  have "\<forall>name \<in> set [''WbioQuerySensorInterface'', ''WbioQueryEngineInterface'', ''WbioQueryStorageInterface''].
    find_dll_export (example_dll [''WbioQuerySensorInterface'', ''WbioQueryEngineInterface'', ''WbioQueryStorageInterface''])
     (char_bytes name @ [0]) = Inr 0x7f0000000020"
    by code_simp
  then show "name \<in> {''WbioQuerySensorInterface'', ''WbioQueryEngineInterface'', ''WbioQueryStorageInterface''} \<Longrightarrow>
   find_dll_export (example_dll [''WbioQuerySensorInterface'', ''WbioQueryEngineInterface'', ''WbioQueryStorageInterface''])
     (char_bytes name @ [0]) = Inr 0x7f0000000020"
    by auto
qed

text \<open>Starting succeeds when nothing outside fails.\<close>

lemma load_one_returns:
  assumes "reg_inv (td_modules td) xs" "dll_module i \<notin> set xs" "i < 2" "de_load env i = Inr (Some img)"
  shows "\<exists>td'. load_one env i td = Inr (True, td')"
proof -
  have i: "dll_module i < 3" using assms(3) by (simp add: dll_module_def)
  obtain s1 where s1: "set_mod (dll_module i) (\<lambda>m. m\<lparr>mod_image_base := base_addr img,
      mod_image_size := word_of_int (dll_image_size img)\<rparr>) (td_modules td) = Inr s1" "reg_inv s1 xs"
    using set_image_ok[OF assms(1) i] by blast
  obtain s2 where s2: "winmodule_register (dll_module i) s1 = Inr s2"
    using register_ok[OF s1(2) assms(2) i] by blast
  show ?thesis by (auto simp: load_one_def assms(4) on_modules_def s1(1) s2)
qed

definition has_export :: "dll_image \<Rightarrow> string \<Rightarrow> bool" where
  "has_export img name \<longleftrightarrow> (\<exists>a. find_dll_export img (char_bytes name @ [0]) = Inr a)"

lemma init_succeeds:
  assumes "de_load env 0 = Inr (Some img0)" "de_load env 1 = Inr (Some img1)" "de_attach env 0" "de_attach env 1"
    and "has_export img1 ''FxDriverEntryUm''" "de_entry env = 0" "de_makes_driver env"
    and "has_export img0 ''WbioQuerySensorInterface''" "de_sensor env = 0"
    and "has_export img0 ''WbioQueryEngineInterface''" "de_engine env = 0" "has_export img0 ''WbioQueryStorageInterface''"
  shows "\<exists>td. tudor_init env traces before_init = Inr (True, td)"
proof -
  obtain s1 where s1: "winmodule_register ntdll_module (td_modules before_init) = Inr s1" "reg_inv s1 [ntdll_module]"
    using register_ok[OF before_init_inv, of ntdll_module] by (auto simp: ntdll_module_def)
  define td1 where "td1 = init_begin traces (before_init\<lparr>td_modules := s1\<rparr>)"
  have r1: "reg_inv (td_modules td1) [ntdll_module]" using s1(2) by (simp add: td1_def init_begin_def)
  have n: "dll_module 0 \<notin> set [ntdll_module]" "dll_module 1 \<notin> set [dll_module 0, ntdll_module]"
    by (simp_all add: dll_module_def ntdll_module_def)
  obtain td2 where td2: "load_one env 0 td1 = Inr (True, td2)" using load_one_returns[OF r1 n(1) _ assms(1)] by auto
  note l2 = load_one_ok[OF r1 n(1) _ td2, simplified]
  obtain td3 where td3: "load_one env 1 td2 = Inr (True, td3)"
    using load_one_returns[OF conjunct1[OF l2] n(2) _ assms(2)] by auto
  note l3 = load_one_ok[OF conjunct1[OF l2] n(2) _ td3, simplified]
  have i3: "td_images td3 0 = Some img0" "td_images td3 1 = Some img1" "td_adapter_dll td3 = Some 0" "td_driver_dll td3 = Some 1"
    using l2 l3 assms(1,2) by auto
  have r3: "reg_inv (td_modules td3) [dll_module 1, dll_module 0, ntdll_module]" using l3 by simp
  obtain td4 where td4: "call_dll_main (de_attach env) DLL_PROCESS_ATTACH 0 td3 = Inr (True, td4)"
    using detach_returns[OF r3, of 0 "de_attach env"] assms(3) by (auto simp: dll_module_def)
  note k4 = call_dll_main_keeps[OF td4 r3]
  obtain td5 where td5: "call_dll_main (de_attach env) DLL_PROCESS_ATTACH 1 td4 = Inr (True, td5)"
    using detach_returns[OF conjunct1[OF k4], of 1 "de_attach env"] assms(4) by (auto simp: dll_module_def)
  note k5 = call_dll_main_keeps[OF td5 conjunct1[OF k4]]
  have "init_dlls env td1 = Inr (True, td5)"
    using td2 td3 td4 td5 i3 by (simp add: init_dlls_def dll_indices)
  moreover obtain td6 where td6: "umdf_entry env td5 = Inr (True, td6)"
    using k4 k5 i3 assms(5,6,7)
    by (auto simp: umdf_entry_def Let_def set_cur_dll_def export_of_def has_export_def log_event_def)
  moreover have "\<exists>td7. query_interfaces env td6 = Inr (True, td7)"
    using umdf_entry_keeps[OF td6 conjunct1[OF k5]] k4 k5 i3 assms(8-12)
    by (auto simp: query_interfaces_def Let_def set_cur_dll_def export_of_def has_export_def log_event_def)
  ultimately show ?thesis
    by (auto simp: tudor_init_def on_modules_def s1(1) td1_def)
qed


text \<open>
  The storage interface is meant to be optional, but the look-up of its export aborts when a DLL does not
  have it.
\<close>

lemma optional_export_is_required:
  assumes "td_adapter_dll td = Some i" "td_images td i = Some img" "de_sensor env = 0" "de_engine env = 0"
    and "has_export img ''WbioQuerySensorInterface''" "has_export img ''WbioQueryEngineInterface''"
    and "find_dll_export img (char_bytes ''WbioQueryStorageInterface'' @ [0]) = Inl Abort"
  shows "query_interfaces env td = Inl Abort"
  using assms
  by (auto simp: query_interfaces_def Let_def set_cur_dll_def export_of_def has_export_def log_event_def)

text \<open>A start that fails leaves its modules registered: \<open>ntdll.dll\<close> is registered again by the next one.\<close>

lemma failed_init_keeps_modules:
  assumes "de_load env 0 = Inr None"
  shows "\<exists>td. tudor_init env traces before_init = Inr (False, td) \<and> registry (td_modules td) [0]"
proof -
  obtain s1 where s1: "winmodule_register ntdll_module (td_modules before_init) = Inr s1" "reg_inv s1 [0]"
    using register_ok[OF before_init_inv, of ntdll_module] by (auto simp: ntdll_module_def)
  show ?thesis
    using reg_invD(1)[OF s1(2)]
    by (auto simp: tudor_init_def on_modules_def s1(1) init_dlls_def init_begin_def dll_indices load_one_def assms)
qed

end
