(* ===== verification/Cli.thy ===== *)
theory Cli
  imports Tudor_Device Datastore
begin

text \<open>
  The command line tool (\<open>cli/src/cli.c\<close>, \<open>cli/src/main.c\<close>): its arguments, giving up root, and the
  loop of commands on standard input, on top of the device of \<open>Tudor_Device\<close>.  The input is a list of keys
  and interrupts, in the order they arrive; behind it is the end of the file.  An interrupt is noticed at the
  next read, which the C library restarts.  What a capture completes with is a function of the DLL's state.
\<close>

section \<open>Input\<close>

datatype ev = Key byte | Sigint

text \<open>The input that is left, and \<open>abort_cmd_loop\<close>.\<close>

type_synonym input = "ev list \<times> bool"

text \<open>The second interrupt exits.  \<open>None\<close> is the end of the file.\<close>

fun getchar_in :: "ev list \<Rightarrow> bool \<Rightarrow> (byte option \<times> input) result" where
  "getchar_in [] a = Inr (None, [], a)"
| "getchar_in (Key b # es) a = Inr (Some b, es, a)"
| "getchar_in (Sigint # es) a = (if a then Inl Abort else getchar_in es True)"

definition is_space :: "byte \<Rightarrow> bool" where
  "is_space c \<longleftrightarrow> c = 32 \<or> 9 \<le> c \<and> c \<le> 13"

text \<open>The rest of a line, until an interrupt: at the end of the file the loop never ends.\<close>

fun rest_of_line :: "ev list \<Rightarrow> bool \<Rightarrow> input result" where
  "rest_of_line [] a = (if a then Inr ([], a) else Inl Hang)"
| "rest_of_line (Key b # es) a =
     (if a then Inr (Key b # es, a) else if b = 10 then Inr (es, a) else rest_of_line es a)"
| "rest_of_line (Sigint # es) a =
     (if a then Inr (Sigint # es, a)
      else case es of
        [] \<Rightarrow> Inr ([], True)
      | e # es' \<Rightarrow> (case e of Sigint \<Rightarrow> Inl Abort | Key b \<Rightarrow> Inr (es', True)))"

text \<open>The command: blanks are skipped until an interrupt.  The end of the file is the character -1.\<close>

fun skip_blanks :: "ev list \<Rightarrow> bool \<Rightarrow> (byte \<times> input) result" where
  "skip_blanks [] a = Inr (0xFF, [], a)"
| "skip_blanks (Key b # es) a = (if \<not> a \<and> is_space b then skip_blanks es a else Inr (b, es, a))"
| "skip_blanks (Sigint # es) a = (if a then Inl Abort else skip_blanks es True)"

text \<open>
  \<open>scanf\<close> of a number: blanks, a sign, digits, with one character of look-ahead.  Values are cut to
  the 64 bits of a \<open>long\<close> as \<open>strtoul\<close> and \<open>strtol\<close> do, and then to 32.
\<close>

fun scan_blanks :: "ev list \<Rightarrow> bool \<Rightarrow> input result" where
  "scan_blanks [] a = Inr ([], a)"
| "scan_blanks (Key b # es) a = (if is_space b then scan_blanks es a else Inr (Key b # es, a))"
| "scan_blanks (Sigint # es) a = (if a then Inl Abort else scan_blanks es True)"

fun scan_digits :: "ev list \<Rightarrow> bool \<Rightarrow> nat \<Rightarrow> nat \<Rightarrow> (nat \<times> nat \<times> input) result" where
  "scan_digits [] a n acc = Inr (n, acc, [], a)"
| "scan_digits (Key b # es) a n acc =
     (if 48 \<le> b \<and> b \<le> 57 then scan_digits es a (Suc n) (10 * acc + (unat b - 48)) else Inr (n, acc, Key b # es, a))"
| "scan_digits (Sigint # es) a n acc = (if a then Inl Abort else scan_digits es True n acc)"

definition clamp_u :: "bool \<Rightarrow> nat \<Rightarrow> u32" where
  "clamp_u neg n = (if 2 ^ 64 \<le> n then - 1 else if neg then - of_nat n else of_nat n)"

definition clamp_d :: "bool \<Rightarrow> nat \<Rightarrow> u32" where
  "clamp_d neg n = (if \<not> neg then (if 2 ^ 63 \<le> n then - 1 else of_nat n)
     else if 2 ^ 63 < n then 0 else - of_nat n)"

definition scan_number :: "(bool \<Rightarrow> nat \<Rightarrow> u32) \<Rightarrow> input \<Rightarrow> (u32 option \<times> input) result" where
  "scan_number clamp i =
     (case i of (es, a) \<Rightarrow>
      res_bind (scan_blanks es a) (\<lambda>(es1, a1).
      case es1 of
        Key b # es2 \<Rightarrow>
          (let sign = (b = 45 \<or> b = 43) in
           res_bind (scan_digits (if sign then es2 else es1) a1 0 0) (\<lambda>(n, v, i2).
             Inr (if n = 0 then None else Some (clamp (b = 45) v), i2)))
      | _ \<Rightarrow> Inr (None, es1, a1)))"

section \<open>Commands\<close>

datatype cli_out =
    Out_invalid_finger
  | Out_start_failed
  | Out_capture_failed
  | Out_duplicate bool
  | Out_commit_failed bool
  | Out_enrolled bool
  | Out_not_found u32
  | Out_identify_failed
  | Out_verified bool
  | Out_found "(guid \<times> u32) option"
  | Out_records nat "(guid \<times> u32) list"
  | Out_wipe_aborted
  | Out_wiped nat
  | Out_unknown byte

text \<open>A capture and the wait for it: \<open>(success, is_done)\<close>.\<close>

definition cli_capture :: "'s adapters \<Rightarrow> ('s \<Rightarrow> u32) \<Rightarrow> tudor_device \<times> 's \<Rightarrow> (bool \<times> bool) \<times> tudor_device \<times> 's" where
  "cli_capture ad status ds =
     (case tudor_enroll_capture ad ds of (ok, dev, s) \<Rightarrow>
        if \<not> ok then ((False, True), dev, s)
        else case enroll_cb ad (status s) s of (success, fin, s') \<Rightarrow> ((success, fin), dev, s'))"

text \<open>The loop over captures, which no interrupt ends: \<open>True\<close> when the enrollment is complete.\<close>

partial_function (option) enroll_loop ::
    "'s adapters \<Rightarrow> ('s \<Rightarrow> u32) \<Rightarrow> tudor_device \<times> 's \<Rightarrow> (bool \<times> tudor_device \<times> 's) option" where
  "enroll_loop ad status ds =
     (case cli_capture ad status ds of ((success, fin), ds1) \<Rightarrow>
        if \<not> success then
          (if \<not> fin then enroll_loop ad status ds1 else Some (False, snd (tudor_enroll_discard ad ds1)))
        else if fin then Some (True, ds1) else enroll_loop ad status ds1)"

definition cli_enroll ::
    "'s adapters \<Rightarrow> ('s \<Rightarrow> u32) \<Rightarrow> guid \<Rightarrow> u32 \<Rightarrow> tudor_device \<times> 's
      \<Rightarrow> (cli_out \<times> tudor_device \<times> 's) result option" where
  "cli_enroll ad status g finger ds =
     (if sint finger < 1 \<or> 10 < sint finger then Some (Inr (Out_invalid_finger, ds))
      else case tudor_enroll_start ad g finger ds of (ok, ds1) \<Rightarrow>
        if \<not> ok then Some (Inr (Out_start_failed, ds1))
        else case enroll_loop ad status ds1 of
          None \<Rightarrow> None
        | Some (fin, ds2) \<Rightarrow>
            if \<not> fin then Some (Inr (Out_capture_failed, ds2))
            else Some (res_bind (tudor_enroll_commit ad ds2) (\<lambda>(ok', dupl, ds3).
              if \<not> ok' then
                (case tudor_enroll_discard ad ds3 of (discarded, ds4) \<Rightarrow>
                   Inr (if dupl then Out_duplicate discarded else Out_commit_failed discarded, ds4))
              else case tudor_reopen ad ds3 of (reopened, ds4) \<Rightarrow> Inr (Out_enrolled reopened, ds4))))"

text \<open>An identification, tried at most five times: the match, or failure.\<close>

definition cli_identify_once ::
    "'s adapters \<Rightarrow> ('s \<Rightarrow> u32) \<Rightarrow> tudor_device \<times> 's
      \<Rightarrow> bool \<times> bool \<times> (guid \<times> u32) option \<times> tudor_device \<times> 's" where
  "cli_identify_once ad status ds =
     (case tudor_identify ad ds of (ok, dev, s) \<Rightarrow>
        if \<not> ok then (False, False, None, dev, s)
        else case identify_cb ad (status s) s of (success, retry, m, s') \<Rightarrow> (success, retry, m, dev, s'))"

function (sequential) identify_loop ::
    "'s adapters \<Rightarrow> ('s \<Rightarrow> u32) \<Rightarrow> nat \<Rightarrow> tudor_device \<times> 's
      \<Rightarrow> (guid \<times> u32) option option \<times> tudor_device \<times> 's" where
  "identify_loop ad status retries ds =
     (case cli_identify_once ad status ds of (success, retry, m, ds1) \<Rightarrow>
        if success then (Some m, ds1)
        else if retry \<and> retries + 1 < 5 then identify_loop ad status (retries + 1) ds1
        else (None, ds1))"
  by pat_completeness auto
termination by (relation "measure (\<lambda>(ad, status, retries, ds). 5 - retries)") auto

definition index_guid :: "u32 \<Rightarrow> guid" where
  "index_guid n = zero_guid\<lparr>PartA := n\<rparr>"

definition cli_enumerate ::
    "'s storage_interface \<Rightarrow> tudor_device \<times> 's \<Rightarrow> guid option
      \<Rightarrow> (nat \<times> (guid \<times> u32) list \<times> tudor_device \<times> 's) result option" where
  "cli_enumerate sif ds g =
     (case ds of (dev, s) \<Rightarrow>
        map_option (\<lambda>r. res_bind r (\<lambda>(n, rs, s'). Inr (n, rs, dev, s')))
          (tudor_enumerate_records sif s g TUDOR_FINGER_ANY))"

text \<open>Verification is identification, after a look whether there is such an identity at all.\<close>

definition cli_verify ::
    "'s storage_interface \<Rightarrow> 's adapters \<Rightarrow> ('s \<Rightarrow> u32) \<Rightarrow> u32 \<Rightarrow> tudor_device \<times> 's
      \<Rightarrow> (cli_out \<times> tudor_device \<times> 's) result option" where
  "cli_verify sif ad status n ds =
     map_option (\<lambda>r. res_bind r (\<lambda>(found, rs, ds1).
       if found = 0 then Inr (Out_not_found n, ds1)
       else case identify_loop ad status 0 ds1 of
         (None, ds2) \<Rightarrow> Inr (Out_identify_failed, ds2)
       | (Some m, ds2) \<Rightarrow>
           Inr (Out_verified (case m of None \<Rightarrow> False | Some (g, f) \<Rightarrow> PartA g = n), ds2)))
       (cli_enumerate sif ds (Some (index_guid n)))"

definition cli_identify ::
    "'s adapters \<Rightarrow> ('s \<Rightarrow> u32) \<Rightarrow> tudor_device \<times> 's \<Rightarrow> cli_out \<times> tudor_device \<times> 's" where
  "cli_identify ad status ds =
     (case identify_loop ad status 0 ds of
        (None, ds1) \<Rightarrow> (Out_identify_failed, ds1)
      | (Some m, ds1) \<Rightarrow> (Out_found m, ds1))"

section \<open>The loop\<close>

record 's cli =
  cli_in :: input
  cli_dev :: "tudor_device \<times> 's"
  cli_outs :: "cli_out list"

text \<open>A number and the rest of its line; \<open>None\<close> is an interrupt, which leaves the command.\<close>

definition read_number ::
    "(bool \<Rightarrow> nat \<Rightarrow> u32) \<Rightarrow> input \<Rightarrow> (u32 option \<times> input) result" where
  "read_number clamp i =
     res_bind (scan_number clamp i) (\<lambda>(v, es, a). res_bind (rest_of_line es a) (\<lambda>i2. Inr (v, i2)))"

definition finish_cmd :: "'s cli \<Rightarrow> input \<Rightarrow> (cli_out \<times> tudor_device \<times> 's) \<Rightarrow> 's cli" where
  "finish_cmd c i r = (case r of (out, ds) \<Rightarrow> c\<lparr>cli_in := i, cli_dev := ds, cli_outs := cli_outs c @ [out]\<rparr>)"

text \<open>The wipe asks for a \<open>y\<close>; \<open>junk\<close> is the finger variable before it is written.\<close>

definition wipe_confirmed :: "input \<Rightarrow> (bool \<times> input) result" where
  "wipe_confirmed i =
     (case i of (es, a) \<Rightarrow>
      res_bind (getchar_in es a) (\<lambda>(yn, es1, a1).
      res_bind (rest_of_line es1 a1) (\<lambda>i2. Inr (yn = Some 121, i2))))"

definition cli_command ::
    "'s storage_interface \<Rightarrow> 's adapters \<Rightarrow> ('s \<Rightarrow> u32) \<Rightarrow> u32 \<Rightarrow> byte \<Rightarrow> 's cli \<Rightarrow> 's cli result option" where
  "cli_command sif ad status junk cmd c =
     (let cmd' = (if 65 \<le> cmd \<and> cmd \<le> 90 then cmd + 32 else cmd) in
      if cmd' = 101 then
        (case read_number clamp_u (cli_in c) of
           Inl e \<Rightarrow> Some (Inl e)
         | Inr (n, i1) \<Rightarrow>
             if snd i1 then Some (Inr (c\<lparr>cli_in := i1\<rparr>))
             else (case read_number clamp_d i1 of
                     Inl e \<Rightarrow> Some (Inl e)
                   | Inr (f, i2) \<Rightarrow>
                       if snd i2 then Some (Inr (c\<lparr>cli_in := i2\<rparr>))
                       else map_option (\<lambda>r. res_bind r (\<lambda>x. Inr (finish_cmd c i2 x)))
                         (cli_enroll ad status (index_guid (case n of None \<Rightarrow> 0 | Some v \<Rightarrow> v))
                           (case f of None \<Rightarrow> junk | Some v \<Rightarrow> v) (cli_dev c))))
      else if cmd' = 118 then
        (case read_number clamp_u (cli_in c) of
           Inl e \<Rightarrow> Some (Inl e)
         | Inr (n, i1) \<Rightarrow>
             if snd i1 then Some (Inr (c\<lparr>cli_in := i1\<rparr>))
             else map_option (\<lambda>r. res_bind r (\<lambda>x. Inr (finish_cmd c i1 x)))
               (cli_verify sif ad status (case n of None \<Rightarrow> 0 | Some v \<Rightarrow> v) (cli_dev c)))
      else if cmd' = 105 then Some (Inr (finish_cmd c (cli_in c) (cli_identify ad status (cli_dev c))))
      else if cmd' = 113 then
        (case read_number clamp_u (cli_in c) of
           Inl e \<Rightarrow> Some (Inl e)
         | Inr (n, i1) \<Rightarrow>
             if snd i1 then Some (Inr (c\<lparr>cli_in := i1\<rparr>))
             else map_option (\<lambda>r. res_bind r (\<lambda>(k, rs, ds). Inr (finish_cmd c i1 (Out_records k rs, ds))))
               (cli_enumerate sif (cli_dev c) (map_option index_guid n)))
      else if cmd' = 119 then
        (case read_number clamp_u (cli_in c) of
           Inl e \<Rightarrow> Some (Inl e)
         | Inr (n, i1) \<Rightarrow>
             if snd i1 then Some (Inr (c\<lparr>cli_in := i1\<rparr>))
             else (case read_number clamp_d i1 of
                     Inl e \<Rightarrow> Some (Inl e)
                   | Inr (f, i2) \<Rightarrow>
                       if snd i2 then Some (Inr (c\<lparr>cli_in := i2\<rparr>))
                       else (case wipe_confirmed i2 of
                               Inl e \<Rightarrow> Some (Inl e)
                             | Inr (yes, i3) \<Rightarrow>
                                 if \<not> yes then Some (Inr (finish_cmd c i3 (Out_wipe_aborted, cli_dev c)))
                                 else map_option (\<lambda>r. res_bind r (\<lambda>(k, ds). Inr (finish_cmd c i3 (Out_wiped k, ds))))
                                   (tudor_wipe_records sif (cli_dev c) (map_option index_guid n)
                                     (case f of None \<Rightarrow> TUDOR_FINGER_ANY | Some v \<Rightarrow> v)))))
      else if cmd' = 115 then Some (Inr (c\<lparr>cli_in := (fst (cli_in c), True)\<rparr>))
      else Some (Inr (finish_cmd c (cli_in c) (Out_unknown cmd, cli_dev c))))"

partial_function (option) cli_main_loop ::
    "'s storage_interface \<Rightarrow> 's adapters \<Rightarrow> ('s \<Rightarrow> u32) \<Rightarrow> u32 \<Rightarrow> 's cli \<Rightarrow> 's cli result option" where
  "cli_main_loop sif ad status junk c =
     (if snd (cli_in c) then Some (Inr c)
      else case skip_blanks (fst (cli_in c)) False of
        Inl e \<Rightarrow> Some (Inl e)
      | Inr (cmd, i1) \<Rightarrow>
          if snd i1 then Some (Inr (c\<lparr>cli_in := i1\<rparr>))
          else Option.bind (cli_command sif ad status junk cmd (c\<lparr>cli_in := i1\<rparr>)) (\<lambda>r.
            case r of Inl e \<Rightarrow> Some (Inl e) | Inr c2 \<Rightarrow> cli_main_loop sif ad status junk c2))"

section \<open>Arguments and privileges\<close>

text \<open>
  The flags, from the second argument on: a flag argument is read from its second character, and \<open>H\<close>
  and \<open>I\<close> take the rest of it or the next argument.  An argument without characters is read behind
  its end.
\<close>

record cli_args =
  log_level :: int
  log_traces :: bool
  hidraw_path :: "string option"
  hidraw_img_path :: "string option"

definition LOG_VERBOSE :: int where "LOG_VERBOSE = 0"
definition LOG_ERROR :: int where "LOG_ERROR = 4"

definition path_arg :: "string \<Rightarrow> string list \<Rightarrow> string \<times> string list" where
  "path_arg rest args = (if rest = [] then (case args of [] \<Rightarrow> ([], []) | a # as \<Rightarrow> (a, as)) else (rest, args))"

fun flag_chars :: "string \<Rightarrow> string list \<Rightarrow> cli_args \<Rightarrow> cli_args \<times> string list" where
  "flag_chars [] args opts = (opts, args)"
| "flag_chars (c # cs) args opts =
     (if c = CHR ''v'' then flag_chars cs args (if LOG_VERBOSE < log_level opts then opts\<lparr>log_level := log_level opts - 1\<rparr> else opts)
      else if c = CHR ''q'' then flag_chars cs args (if log_level opts < LOG_ERROR then opts\<lparr>log_level := log_level opts + 1\<rparr> else opts)
      else if c = CHR ''t'' then flag_chars cs args (opts\<lparr>log_traces := True\<rparr>)
      else if c = CHR ''H'' then (case path_arg cs args of (p, args') \<Rightarrow> (opts\<lparr>hidraw_path := Some p\<rparr>, args'))
      else if c = CHR ''I'' then (case path_arg cs args of (p, args') \<Rightarrow> (opts\<lparr>hidraw_img_path := Some p\<rparr>, args'))
      else flag_chars cs args opts)"

lemma flag_chars_shorter: "length (snd (flag_chars cs args opts)) \<le> length args"
  by (induction cs args opts rule: flag_chars.induct)
    (auto simp: path_arg_def split: list.splits if_splits prod.splits)

function (sequential) parse_args :: "string list \<Rightarrow> cli_args \<Rightarrow> cli_args result" where
  "parse_args [] opts = Inr opts"
| "parse_args (arg # args) opts =
     (case arg of
        [] \<Rightarrow> Inl Fault
      | _ # cs \<Rightarrow> (case flag_chars cs args opts of (o1, args') \<Rightarrow> parse_args args' o1))"
  by pat_completeness auto
termination
  by (relation "measure (\<lambda>(args, opts). length args)")
    (auto, metis flag_chars_shorter le_imp_less_Suc snd_conv)

text \<open>
  The identities of the process with its supplementary groups, and the kernel's rules: a privileged process sets what it wants, any
  other only to one of the identities it has.
\<close>

record creds =
  ruid :: nat
  euid :: nat
  suid :: nat
  rgid :: nat
  egid :: nat
  sgid :: nat
  sup_groups :: "nat list"

definition setresgid :: "nat \<Rightarrow> creds \<Rightarrow> creds option" where
  "setresgid g c =
     (if euid c = 0 \<or> g \<in> {rgid c, egid c, sgid c} then Some (c\<lparr>rgid := g, egid := g, sgid := g\<rparr>) else None)"

definition setresuid :: "nat \<Rightarrow> creds \<Rightarrow> creds option" where
  "setresuid u c =
     (if euid c = 0 \<or> u \<in> {ruid c, euid c, suid c} then Some (c\<lparr>ruid := u, euid := u, suid := u\<rparr>) else None)"

definition can_become_root :: "creds \<Rightarrow> bool" where
  "can_become_root c \<longleftrightarrow> euid c = 0 \<or> ruid c = 0 \<or> suid c = 0 \<or> rgid c = 0 \<or> sgid c = 0"

text \<open>The user behind the process: the real identity, the saved one, what \<open>sudo\<close> left.\<close>

definition target_id :: "nat \<Rightarrow> nat \<Rightarrow> nat option \<Rightarrow> nat" where
  "target_id real saved sudo =
     (let n1 = (if real = 0 then saved else real)
      in if n1 = 0 then (case sudo of None \<Rightarrow> 0 | Some n \<Rightarrow> n) else n1)"

definition drop_root_priv :: "nat option \<Rightarrow> nat option \<Rightarrow> creds \<Rightarrow> (bool \<times> creds) result" where
  "drop_root_priv sudo_uid sudo_gid c =
     (if euid c = 0 \<or> egid c = 0 then
        (let nuid = target_id (ruid c) (suid c) sudo_uid; ngid = target_id (rgid c) (sgid c) sudo_gid in
         if nuid = 0 \<or> ngid = 0 then Inr (False, c)
         else case setresgid ngid c of
             None \<Rightarrow> Inl Abort
           | Some c1 \<Rightarrow>
               (case setresuid nuid c1 of
                  None \<Rightarrow> Inl Abort
                | Some c2 \<Rightarrow>
                    if euid c2 = 0 \<or> egid c2 = 0 then Inr (False, c2)
                    else if can_become_root c2 then Inr (False, c2)
                    else Inr (True, c2)))
      else Inr (True, c))"

section \<open>Properties\<close>

text \<open>The number of captures after which the sensor says that the enrollment is over.\<close>

fun captures_end :: "'s adapters \<Rightarrow> ('s \<Rightarrow> u32) \<Rightarrow> nat \<Rightarrow> tudor_device \<times> 's \<Rightarrow> bool" where
  "captures_end ad status 0 ds = False"
| "captures_end ad status (Suc n) ds =
     (case cli_capture ad status ds of ((success, fin), ds1) \<Rightarrow> fin \<or> captures_end ad status n ds1)"

definition discard_works :: "'s adapters \<Rightarrow> bool" where
  "discard_works ad \<longleftrightarrow> (\<forall>dll s. fst (run_calls ad dll discard_calls s))"

lemma discard_ends: "discard_works ad \<Longrightarrow> \<not> enrolling (fst (snd (tudor_enroll_discard ad ds)))"
proof -
  assume w: "discard_works ad"
  obtain dev s where ds: "ds = (dev, s)" by fastforce
  obtain s' where "run_calls ad (use_dll_storage dev) discard_calls s = (True, s')"
    using w unfolding discard_works_def by (metis prod.collapse)
  then show ?thesis by (simp add: ds tudor_enroll_discard_def)
qed

lemma enroll_loop_returns:
  "captures_end ad status n ds \<Longrightarrow> discard_works ad \<Longrightarrow>
    \<exists>fin ds'. enroll_loop ad status ds = Some (fin, ds') \<and> (\<not> fin \<longrightarrow> \<not> enrolling (fst ds'))"
proof (induction n arbitrary: ds)
  case (Suc n)
  obtain success fin ds1 where c: "cli_capture ad status ds = ((success, fin), ds1)"
    by (metis prod.exhaust)
  show ?case
  proof (cases fin)
    case True
    then show ?thesis
      using c discard_ends[OF Suc.prems(2)] by (cases success) (auto simp: enroll_loop.simps[of ad status ds])
  next
    case False
    then have "captures_end ad status n ds1" using Suc.prems(1) c by simp
    moreover have "enroll_loop ad status ds = enroll_loop ad status ds1"
      using False c by (cases success) (simp_all add: enroll_loop.simps[of ad status ds])
    ultimately show ?thesis using Suc.IH[of ds1] Suc.prems(2) by simp
  qed
qed simp

lemma reopen_ends:
  assumes "\<not> enrolling dev"
  shows "\<not> enrolling (fst (snd (tudor_reopen ad (dev, s))))"
    and "fst (tudor_reopen ad (dev, s)) \<Longrightarrow> records (fst (snd (tudor_reopen ad (dev, s)))) = []"
  using assms
  by (auto simp: tudor_reopen_def tudor_close_def tudor_open_def init_device_def Let_def split: prod.splits if_splits)

lemma commit_ends:
  assumes "discard_works ad"
    and r: "(case tudor_enroll_commit ad ds2 of Inl e \<Rightarrow> Inl e | Inr (ok', dupl, ds3) \<Rightarrow>
        if \<not> ok' then (case tudor_enroll_discard ad ds3 of (d, ds4) \<Rightarrow>
             Inr (if dupl then Out_duplicate d else Out_commit_failed d, ds4))
        else case tudor_reopen ad ds3 of (d, ds4) \<Rightarrow> Inr (Out_enrolled d, ds4)) = Inr (out, ds')"
  shows "\<not> enrolling (fst ds')"
proof -
  obtain ok' dupl ds3 where c: "tudor_enroll_commit ad ds2 = Inr (ok', dupl, ds3)"
  proof (cases "tudor_enroll_commit ad ds2")
    case (Inl e)
    then show ?thesis using r by simp
  next
    case (Inr x)
    then show ?thesis using that by (metis prod.exhaust)
  qed
  show ?thesis
  proof (cases ok')
    case True
    then have "\<not> enrolling (fst ds3)"
      using c by (auto simp: tudor_enroll_commit_def res_bind_eq_Inr split: prod.splits if_splits)
    then show ?thesis
      using r c True reopen_ends(1)[of "fst ds3" ad "snd ds3"] by (auto split: prod.splits)
  next
    case False
    then show ?thesis
      using r c discard_ends[OF assms(1), of ds3] by (auto split: prod.splits)
  qed
qed


lemma quiet_discard: "discard_works (quiet_adapters blob)"
  by (simp add: discard_works_def discard_calls_def quiet_adapters_def ERROR_SUCCESS_def)

lemma quiet_captures:
  assumes "\<not> enrolling dev"
  shows "captures_end (quiet_adapters blob) (\<lambda>_. 0) 1 (snd (tudor_enroll_start (quiet_adapters blob) g f (dev, ())))"
proof -
  have "tudor_enroll_start (quiet_adapters blob) g f (dev, ()) =
    (True, dev\<lparr>enrolling := True, override_template_count := True, enroll_guid := g, enroll_finger := f\<rparr>, ())"
    using assms by (simp add: tudor_enroll_start_def enroll_calls_def quiet_adapters_def ERROR_SUCCESS_def)
  then show ?thesis
    by (simp add: cli_capture_def tudor_enroll_capture_def enroll_cb_def quiet_adapters_def status_defs
        STATUS_SUCCESS_def ERROR_SUCCESS_def)
qed


text \<open>
  A successful enrollment reopens the device, and that drops every record of the list: what the tool
  saves to the data store when it ends has no record of this or of earlier enrollments.
\<close>

lemma enrollment_forgets_records:
  assumes "cli_enroll ad status g finger ds = Some (Inr (Out_enrolled True, dev', s'))"
  shows "records dev' = []"
proof -
  obtain ds1 ds2 where "tudor_enroll_commit ad ds2 = Inr (True, False, ds1) \<or> tudor_enroll_commit ad ds2 = Inr (True, True, ds1)"
    and re: "tudor_reopen ad ds1 = (True, dev', s')"
    using assms
    by (auto simp: cli_enroll_def res_bind_eq_Inr split: if_splits prod.splits option.splits)
  then show ?thesis
    by (auto simp: tudor_reopen_def tudor_close_def tudor_open_def init_device_def Let_def split: prod.splits if_splits)
qed

text \<open>
  A capture that always fails after it was started: the command never returns, and no interrupt ends it.
\<close>

definition captures_fail :: "'s adapters \<Rightarrow> ('s \<Rightarrow> u32) \<Rightarrow> bool" where
  "captures_fail ad status \<longleftrightarrow>
     (\<forall>dev s. enrolling dev \<longrightarrow> (\<exists>s'. cli_capture ad status (dev, s) = ((False, False), dev, s')))"

lemma failing_captures_step:
  "enroll_loop ad status ds = Some y \<Longrightarrow> captures_fail ad status \<longrightarrow> enrolling (fst ds) \<longrightarrow> False"
proof (erule enroll_loop.raw_induct[rotated], intro impI, goal_cases)
  case (1 loop ad status ds y)
  obtain dev s where ds: "ds = (dev, s)" by (metis prod.exhaust)
  obtain s' where "cli_capture ad status ds = ((False, False), dev, s')"
    using 1(3,4) ds unfolding captures_fail_def by auto
  then have "loop ad status (dev, s') = Some y" using 1(2) by simp
  then show ?case using 1(1)[of ad status "(dev, s')" y] 1(3,4) ds by simp
qed

lemma failing_captures_hang: "captures_fail ad status \<Longrightarrow> enrolling (fst ds) \<Longrightarrow> enroll_loop ad status ds = None"
  using failing_captures_step by (metis not_Some_eq)

text \<open>At the end of its input the tool does not end: it takes the end for an unknown command, again and again.\<close>

definition at_eof :: "'s cli \<Rightarrow> bool" where
  "at_eof c \<longleftrightarrow> cli_in c = ([], False)"

lemma eof_command:
  assumes "at_eof c"
  shows "skip_blanks (fst (cli_in c)) False = Inr (0xFF, [], False)"
    and "\<exists>c'. cli_command sif ad status junk 0xFF (c\<lparr>cli_in := ([], False)\<rparr>) = Some (Inr c') \<and> at_eof c'"
  using assms by (simp_all add: at_eof_def cli_command_def finish_cmd_def)

lemma eof_step: "cli_main_loop sif ad status junk c = Some y \<Longrightarrow> at_eof c \<longrightarrow> False"
proof (erule cli_main_loop.raw_induct[rotated], intro impI, goal_cases)
  case (1 loop sif ad status junk c y)
  obtain c' where c': "cli_command sif ad status junk 0xFF (c\<lparr>cli_in := ([], False)\<rparr>) = Some (Inr c')" "at_eof c'"
    using eof_command(2)[OF 1(3)] by blast
  have "snd (cli_in c) = False" using 1(3) by (simp add: at_eof_def)
  then have "loop sif ad status junk c' = Some y"
    using 1(2) eof_command(1)[OF 1(3)] c'(1) by simp
  then show ?case using 1(1) c'(2) by blast
qed

lemma end_of_input_hangs: "at_eof c \<Longrightarrow> cli_main_loop sif ad status junk c = None"
  using eof_step by (metis not_Some_eq)

text \<open>An interrupt between the \<open>y\<close> and the end of its line does not stop the wipe.\<close>

lemma interrupted_wipe_is_confirmed:
  "wipe_confirmed ([Key 121, Sigint, Key 10] @ es, False) = Inr (True, es, True)"
  by (simp add: wipe_confirmed_def)

text \<open>A number that cannot be read leaves the identity 0 for an enrollment, and an unwritten finger.\<close>

lemma enroll_without_numbers:
  "scan_number clamp ([Key 120, Key 10], False) = Inr (None, [Key 120, Key 10], False)"
  by (simp add: scan_number_def is_space_def)

text \<open>An empty argument is read behind its end.\<close>

lemma empty_argument_overreads: "parse_args [[]] opts = Inl Fault"
  by simp

lemma parse_args_example:
  "parse_args [''-vt'', ''-H'', ''/dev/hidraw4'', ''-I/dev/hidraw1''] \<lparr>log_level = 2, log_traces = False, hidraw_path = None, hidraw_img_path = None\<rparr>
    = Inr \<lparr>log_level = 1, log_traces = True, hidraw_path = Some ''/dev/hidraw4'', hidraw_img_path = Some ''/dev/hidraw1''\<rparr>"
  by (simp add: LOG_VERBOSE_def path_arg_def)



text \<open>The supplementary groups are not given up: those of root stay.\<close>

lemma supplementary_groups_stay:
  "drop_root_priv sudo_uid sudo_gid c = Inr (True, c') \<Longrightarrow> sup_groups c' = sup_groups c"
  by (auto simp: drop_root_priv_def setresgid_def setresuid_def Let_def split: if_splits)

text \<open>Only effective identities are looked at: a process that has root as saved identity keeps it.\<close>

lemma saved_root_is_kept:
  "drop_root_priv su sg \<lparr>ruid = 1000, euid = 1000, suid = 0, rgid = 100, egid = 100, sgid = 100, sup_groups = [0]\<rparr> =
    Inr (True, \<lparr>ruid = 1000, euid = 1000, suid = 0, rgid = 100, egid = 100, sgid = 100, sup_groups = [0]\<rparr>)"
  by (simp add: drop_root_priv_def)

end
