(* ===== verification/Cli_Main.thy ===== *)
theory Cli_Main
  imports Cli
begin

text \<open>
  The life of the command line tool (\<open>main\<close> of \<open>cli/src/main.c\<close>): arguments, confirmation, opening the
  channels, giving up root, the driver, the data store, the commands, and the end.  What the kernel, the
  driver and the data store answer is a parameter; the files of records and the loop of commands are those
  of \<open>Datastore\<close> and \<open>Cli\<close>.
\<close>

section \<open>What it does\<close>

text \<open>
  \<open>ce_detect\<close> are the paths \<open>hidraw_autodetect\<close> finds, \<open>ce_store_exists\<close> tells whether there is a data store
  already, and the rest whether each step succeeds.  \<open>ce_open\<close> is the descriptor of a path.
\<close>

record cli_env =
  ce_detect :: "(string \<times> string) option"
  ce_confirmed :: bool
  ce_open :: "string \<Rightarrow> int option"
  ce_creds :: creds
  ce_sudo_uid :: "nat option"
  ce_sudo_gid :: "nat option"
  ce_init :: bool
  ce_store_opens :: bool
  ce_store_exists :: bool
  ce_store_creates :: bool
  ce_load_pair :: bool
  ce_open_device :: bool
  ce_load_records :: bool
  ce_truncate :: bool
  ce_save_pair :: bool
  ce_save_records :: bool
  ce_close_store :: bool

datatype cli_event =
    Cli_open_channel string
  | Cli_privileges creds
  | Cli_driver_init
  | Cli_open_store
  | Cli_load_pair
  | Cli_open_device
  | Cli_load_records
  | Cli_commands
  | Cli_truncate_store
  | Cli_save_pair
  | Cli_save_records
  | Cli_close_store
  | Cli_close_device
  | Cli_stop_readers
  | Cli_close_channel int
  | Cli_driver_shutdown

text \<open>The paths of the two channels: from the arguments, else what is detected; the image channel is at last the other one.\<close>

definition channel_paths :: "cli_env \<Rightarrow> cli_args \<Rightarrow> (string \<times> string) option" where
  "channel_paths e opts =
     (case hidraw_path opts of
        Some p \<Rightarrow> Some (p, case hidraw_img_path opts of None \<Rightarrow> p | Some q \<Rightarrow> q)
      | None \<Rightarrow> map_option (\<lambda>(cmd, img). (cmd, case hidraw_img_path opts of None \<Rightarrow> img | Some q \<Rightarrow> q)) (ce_detect e))"

text \<open>A step of \<open>main\<close>: an event, and whether it goes on or exits with a failure.\<close>

fun cli_steps :: "(cli_event \<times> bool) list \<Rightarrow> int \<times> cli_event list" where
  "cli_steps [] = (0, [])"
| "cli_steps ((ev, ok) # steps) =
     (if ok then (case cli_steps steps of (code, evs) \<Rightarrow> (code, ev # evs)) else (1, [ev]))"

definition store_opens :: "cli_env \<Rightarrow> bool" where
  "store_opens e \<longleftrightarrow> ce_store_opens e \<or> (\<not> ce_store_exists e \<and> ce_store_creates e)"

text \<open>From the initialisation of the driver on.\<close>

definition driver_steps :: "cli_env \<Rightarrow> int \<Rightarrow> int \<Rightarrow> (cli_event \<times> bool) list" where
  "driver_steps e cmd_fd img_fd =
     [(Cli_driver_init, ce_init e), (Cli_open_store, store_opens e), (Cli_load_pair, ce_load_pair e), (Cli_open_device, ce_open_device e),
      (Cli_load_records, ce_load_records e), (Cli_commands, True), (Cli_truncate_store, ce_truncate e),
      (Cli_save_pair, ce_save_pair e), (Cli_save_records, ce_save_records e), (Cli_close_store, ce_close_store e),
      (Cli_close_device, True), (Cli_stop_readers, True), (Cli_close_channel cmd_fd, True)] @
     (if 0 \<le> img_fd \<and> img_fd \<noteq> cmd_fd then [(Cli_close_channel img_fd, True)] else []) @ [(Cli_driver_shutdown, True)]"

definition cli_main :: "cli_env \<Rightarrow> string list \<Rightarrow> (int \<times> cli_event list) result" where
  "cli_main e argv =
     (if length argv < 2 then Inr (1, [])
      else res_bind (parse_args (drop 2 argv) \<lparr>log_level = 2, log_traces = False, hidraw_path = None, hidraw_img_path = None\<rparr>) (\<lambda>opts.
      case channel_paths e opts of
        None \<Rightarrow> Inr (1, [])
      | Some (cmd_path, img_path) \<Rightarrow>
          if \<not> ce_confirmed e then Inr (1, [])
          else case ce_open e cmd_path of
            None \<Rightarrow> Inr (1, [Cli_open_channel cmd_path])
          | Some cmd_fd \<Rightarrow>
              (let img_fd = (case ce_open e img_path of None \<Rightarrow> -1 | Some fd \<Rightarrow> fd);
                   opened = [Cli_open_channel cmd_path, Cli_open_channel img_path] in
               res_bind (drop_root_priv (ce_sudo_uid e) (ce_sudo_gid e) (ce_creds e)) (\<lambda>(ok, c).
                 if \<not> ok then Inr (1, opened @ [Cli_privileges c])
                 else case cli_steps (driver_steps e cmd_fd img_fd) of
                   (code, evs) \<Rightarrow> Inr (code, opened @ Cli_privileges c # evs)))))"

section \<open>Properties\<close>

lemma dropped_root:
  assumes "drop_root_priv sudo_uid sudo_gid c = Inr (True, c')" "euid c = 0 \<or> egid c = 0"
  shows "\<not> can_become_root c'"
  using assms by (auto simp: drop_root_priv_def Let_def split: if_splits option.splits)

lemma cli_steps_prefix:
  "\<exists>n. snd (cli_steps steps) = map fst (take n steps) \<and> (fst (cli_steps steps) = 0 \<longrightarrow> snd (cli_steps steps) = map fst steps)"
proof (induction steps)
  case (Cons s steps)
  obtain ev ok where s: "s = (ev, ok)" by (cases s)
  obtain code evs where c: "cli_steps steps = (code, evs)" by (cases "cli_steps steps")
  obtain n where n: "evs = map fst (take n steps)" "code = 0 \<longrightarrow> evs = map fst steps" using Cons.IH c by auto
  show ?case
  proof (cases ok)
    case True
    then show ?thesis using n s c by (intro exI[of _ "Suc n"]) simp
  next
    case False
    then show ?thesis using s by (intro exI[of _ 1]) simp
  qed
qed simp

lemma cli_main_cases:
  assumes "cli_main e argv = Inr (code, evs)"
  obtains "code = 1" "Cli_driver_init \<notin> set evs"
  | c cmd_fd img_fd p q where "drop_root_priv (ce_sudo_uid e) (ce_sudo_gid e) (ce_creds e) = Inr (True, c)"
    "fst (cli_steps (driver_steps e cmd_fd img_fd)) = code"
    "evs = [Cli_open_channel p, Cli_open_channel q, Cli_privileges c] @ snd (cli_steps (driver_steps e cmd_fd img_fd))"
proof (cases "2 \<le> length argv \<and> ce_confirmed e")
  case True
  then obtain opts where opts: "parse_args (drop 2 argv) \<lparr>log_level = 2, log_traces = False, hidraw_path = None, hidraw_img_path = None\<rparr> = Inr opts"
    using assms by (auto simp: cli_main_def res_bind_eq_Inr)
  show ?thesis
  proof (cases "channel_paths e opts")
    case None
    then show ?thesis using assms opts True that(1) by (auto simp: cli_main_def)
  next
    case (Some pq)
    obtain p q where pq: "channel_paths e opts = Some (p, q)" using Some by (cases pq) simp
    show ?thesis
    proof (cases "ce_open e p")
      case None
      then show ?thesis using assms opts True pq that(1) by (auto simp: cli_main_def)
    next
      case (Some cmd_fd)
      define img_fd where "img_fd = (case ce_open e q of None \<Rightarrow> -1 | Some fd \<Rightarrow> fd)"
      from assms opts True pq Some obtain ok c where d: "drop_root_priv (ce_sudo_uid e) (ce_sudo_gid e) (ce_creds e) = Inr (ok, c)"
        by (auto simp: cli_main_def res_bind_eq_Inr Let_def)
      show ?thesis
      proof (cases ok)
        case True
        then show ?thesis
          using assms opts \<open>2 \<le> length argv \<and> ce_confirmed e\<close> pq Some d that(2)[of c cmd_fd img_fd p q]
          by (auto simp: cli_main_def Let_def img_fd_def[symmetric] split: prod.splits)
      next
        case False
        then show ?thesis
          using assms opts \<open>2 \<le> length argv \<and> ce_confirmed e\<close> pq Some d that(1)
          by (auto simp: cli_main_def Let_def)
      qed
    qed
  qed
next
  case False
  then show ?thesis
    using assms that(1) by (auto simp: cli_main_def res_bind_eq_Inr split: if_splits option.splits)
qed

lemma driver_steps_save:
  "\<exists>pre fds. map fst (driver_steps e cmd_fd img_fd) = pre @ [Cli_commands, Cli_truncate_store, Cli_save_pair, Cli_save_records,
     Cli_close_store, Cli_close_device, Cli_stop_readers] @ map Cli_close_channel fds @ [Cli_driver_shutdown] \<and> distinct fds"
  by (intro exI[of _ "[Cli_driver_init, Cli_open_store, Cli_load_pair, Cli_open_device, Cli_load_records]"]
      exI[of _ "cmd_fd # (if 0 \<le> img_fd \<and> img_fd \<noteq> cmd_fd then [img_fd] else [])"]) (simp add: driver_steps_def)


definition root_env :: cli_env where
  "root_env = \<lparr>ce_detect = Some (''/dev/hidraw1'', ''/dev/hidraw0''), ce_confirmed = True, ce_open = (\<lambda>p. Some (int (length p))),
     ce_creds = \<lparr>ruid = 0, euid = 0, suid = 0, rgid = 0, egid = 0, sgid = 0, sup_groups = [0]\<rparr>,
     ce_sudo_uid = Some 1000, ce_sudo_gid = Some 100, ce_init = True, ce_store_opens = True, ce_store_exists = True,
     ce_store_creates = False, ce_load_pair = True, ce_open_device = True, ce_load_records = True, ce_truncate = True,
     ce_save_pair = True, ce_save_records = True, ce_close_store = True\<rparr>"

lemma root_env_runs:
  "\<exists>evs. cli_main root_env [''tudor-cli'', ''store''] = Inr (0, evs) \<and> Cli_driver_init \<in> set evs"
  by (simp add: cli_main_def root_env_def channel_paths_def driver_steps_def store_opens_def drop_root_priv_def
      target_id_def setresgid_def setresuid_def can_become_root_def Let_def)


text \<open>
  The data store is emptied before it is written: when writing fails, the old content is lost and the tool
  exits without closing the device.
\<close>

lemma failed_save_loses_store:
  "\<exists>evs. cli_main (root_env\<lparr>ce_save_records := False\<rparr>) [''tudor-cli'', ''store''] = Inr (1, evs) \<and>
     Cli_truncate_store \<in> set evs \<and> Cli_close_device \<notin> set evs"
  by (simp add: cli_main_def root_env_def channel_paths_def driver_steps_def store_opens_def drop_root_priv_def
      target_id_def setresgid_def setresuid_def can_become_root_def Let_def)

end
