(* ===== verification/Spec2Isabelle.thy ===== *)
theory Spec2Isabelle
  imports Storage_Adapter Loader Hidraw_Detect Async_Result Datastore Launcher Mirror_Sync
    Win_Registry Wdf_File Wdf_Object Win_Sync Bcrypt Crypt_Api Fprint_Device Win_Hid_File Wdf_Tree
    Win_Setup Win_Proc Win_Log Win_Thread Win_System Win_Pipe Sandbox Stubs Wdf_Device Tudor_Driver
    Cli_Main
begin

text \<open>
  A model of synaTudor, a Linux host for the Windows driver of Synaptics fingerprint sensors.

  \<^bold>\<open>The program.\<close>  \<open>libtudor\<close> loads the vendor's DLLs (\<open>loader.c\<close>, \<open>pe/\<close>), gives them an emulation
  of the Windows API (\<open>winapi/\<close>) and of the driver framework (\<open>winapi/wdf/\<close>) and drives the sensor
  through the WinBIO adapters of the DLL (\<open>tudor/\<close>).  \<open>tudor-host\<close> runs it in a sandboxed process that
  answers messages on a socket; \<open>tudor-host-launcher\<close> is the D-Bus service that starts these processes
  and keeps their pairing data; \<open>libfprint-tod\<close> is the module of libfprint at the other end of the
  socket; \<open>cli\<close> is a tool that uses \<open>libtudor\<close> directly.

  \<^bold>\<open>Theories and sources.\<close>
  \<^item> \<open>Prelude\<close>: machine words, the ways a C function fails to return (\<open>stop\<close>: abort, memory fault, hang),
    little-endian codecs, checked reads of buffers.  \<open>Device_State\<close>: \<open>windows.h\<close>, \<open>winbio.h\<close>, \<open>tudor.h\<close>.
  \<^item> The sensor: \<open>Record_Store\<close> (\<open>tudor/storage.c\<close>), \<open>Storage_Adapter\<close> (the storage interface and its
    clients), \<open>Tudor_Device\<close> (\<open>tudor/device.c\<close>), \<open>Async_Result\<close> (\<open>tudor/async.c\<close>), \<open>Hidraw_Detect\<close>
    (\<open>tudor/hidraw_detect.c\<close> and its copy in \<open>cli\<close>), \<open>Tudor_Driver\<close> (start and end of the driver,
    \<open>tudor/driver.c\<close>).
  \<^item> The DLL: \<open>Pe_Image\<close> and \<open>Pe_Dirs\<close> (\<open>pe/\<close>), \<open>Loader\<close> (\<open>loader.c\<close>), \<open>Stubs\<close> (\<open>stub.c\<close>).
  \<^item> The Windows API: \<open>Win_Registry\<close> (\<open>reg.c\<close> in three directories), \<open>Win_Io\<close> (\<open>io.c\<close>), \<open>Win_Sync\<close>
    (\<open>sync.c\<close>), \<open>Win_Strings\<close> (\<open>api.c\<close>, \<open>string.c\<close>), \<open>Win_Hid_Dll\<close> (\<open>hiddll.c\<close>), \<open>Win_Hid_File\<close>
    (\<open>fileops.c\<close>), \<open>Win_Setup\<close> (\<open>setupapi.c\<close>), \<open>Win_Module\<close> (\<open>module.c\<close>, \<open>handle.c\<close>, \<open>error.c\<close>, the
    table of functions of \<open>api.c\<close>), \<open>Win_Proc\<close> (\<open>proc.c\<close>), \<open>Win_Thread\<close> (\<open>thread.c\<close>), \<open>Win_Log\<close>
    (trace output), \<open>Win_Pipe\<close> (\<open>pipe.c\<close>), \<open>Win_System\<close> (\<open>heap.c\<close>, \<open>time.c\<close>, \<open>system.c\<close>, \<open>rpcrt4.c\<close>, \<open>security.c\<close> and the files
    whose functions have fixed answers); \<open>Multi_String\<close> has the lemmas on lists of texts.
  \<^item> Cryptography: \<open>Libcrypto\<close> (what is used of OpenSSL, as a parameter), \<open>Bcrypt_Kdf\<close>, \<open>Bcrypt_Ecc\<close>,
    \<open>Bcrypt_Aes\<close>, \<open>Bcrypt\<close> (\<open>bcrypt/\<close>), \<open>Crypt_Api\<close> (\<open>crypt/\<close>).
  \<^item> The driver framework: \<open>Wdf_Request\<close> (\<open>request.c\<close>), \<open>Wdf_Hid\<close> (\<open>hid.c\<close>), \<open>Wdf_File\<close> (\<open>queue.c\<close>,
    \<open>device.c\<close>, \<open>file.c\<close>), \<open>Wdf_Object\<close> (\<open>evtqueue.c\<close>, contexts and memory), \<open>Wdf_Tree\<close> (the tree of
    objects of \<open>object.c\<close>), \<open>Wdf_Device\<close> (\<open>device.c\<close>, \<open>driver.c\<close>, \<open>string.c\<close>, \<open>wdf.c\<close>: what the DLL
    creates, and how a new device is started).
  \<^item> The processes: \<open>Host_Ipc\<close> (message layout, \<open>ipc.c\<close>, pairing data cache), \<open>Host_Handler\<close>
    (\<open>handler.c\<close>), \<open>Sandbox\<close> (\<open>sandbox.c\<close> and \<open>main.c\<close> of the host), \<open>Fprint_Module\<close> (the actions of
    \<open>libfprint-tod\<close>), \<open>Fprint_Device\<close> (opening, closing, sleeping and the messages on the bus of
    \<open>libfprint-tod\<close>), \<open>Launcher\<close> (\<open>tudor-host-launcher\<close>), \<open>Datastore\<close>, \<open>Cli\<close> and
    \<open>Cli_Main\<close> (\<open>cli/src\<close>).
  \<^item> Their composition: \<open>Protocol\<close> joins the module and the host by a socket, and \<open>Mirror_Sync\<close> relates
    the list of records of the module to the store of the host.

  A definition has the name of the function or structure it models; a part of a function that has a
  definition of its own (a loop, a branch) says so in its text.  State is passed explicitly, one record
  per structure or group of static variables.  A function that cannot fail is a HOL function; one that
  may abort, fault or hang returns \<open>'a result\<close>; C status codes and booleans stay values.  Machine
  integers keep their width wherever an operation on them can wrap.

  \<^bold>\<open>Interfaces.\<close>  The locale \<open>storage_cursor\<close> and its extension \<open>storage_store\<close> state what the host relies
  on in a storage adapter, and are interpreted on \<open>tudor_storage_adapter\<close>.  \<open>recursive_lock\<close> is the
  contract of critical sections and mutexes, interpreted on both; \<open>deferred_start\<close> that of a start
  handler that completes its request later, interpreted on the HID transfer; \<open>dword_values\<close> that of a
  registry handler, interpreted on the handler of the device.

  \<^bold>\<open>What the lemmas show.\<close>
  \<^item> The whole: in every run of module and host, whatever the order of messages and captures, the two
    stay in step, and the records the module lists are those the host stores (\<open>Protocol\<close>,
    \<open>Mirror_Sync\<close>).
  \<^item> Host and module: invariants of the message loop, that a busy host takes only a cancellation, that
    every action ends exactly once, and that messages refine updates of a map from GUID and finger to
    template (\<open>Host_Handler\<close>, \<open>Fprint_Module\<close>, \<open>Record_Store\<close>).
  \<^item> Parsers and codecs: that the memory view of an image is its sections and zeros, that section and
    relocation tables decode what an encoder wrote and never read outside the file, that loading
    relocates every word once; the same for report descriptors, registry values, the data store file.
  \<^item> Concurrency: callbacks run once in every interleaving (\<open>Win_Io\<close>, \<open>Wdf_Request\<close>), locks exclude
    (\<open>Win_Sync\<close>), the event queue neither loses nor repeats an action (\<open>Wdf_Object\<close>), the launcher
    never reaches an abort, reads of a HID file are answered once and in order and no event of a capture
    is lost (\<open>Win_Hid_File\<close>), a suspended thread waits for its resumption (\<open>Win_Thread\<close>), the tree of
    framework objects is destroyed as a whole, each object once (\<open>Wdf_Tree\<close>).
  \<^item> Processes: what is in place when the sandbox is on and which system calls its filter stops
    (\<open>Sandbox\<close>), that giving up root is for good and that the tool never leaves an enrollment open
    (\<open>Cli\<close>), that the driver never runs before that (\<open>Cli_Main\<close>), the life of a device in the module,
    with sleep and the handshake (\<open>Fprint_Device\<close>).
  \<^item> Start and end: that shutting down takes back what a start set up (\<open>Tudor_Driver\<close>), and that a device
    the DLL adds is started by its callbacks in their order (\<open>Wdf_Device\<close>).
  \<^item> Registries: linked modules behave like a list (\<open>Win_Module\<close>); what a client reads as list of
    interfaces, environment, firmware table or GUID is what was written (\<open>Win_Setup\<close>, \<open>Win_Proc\<close>,
    \<open>Win_System\<close>).
  \<^item> Cryptography: \<open>TLS_PRF\<close> is the function of RFC 5246, handles always hold the data of their
    algorithm, GCM and ECDSA round trips, chained encryption equals encryption of the whole, and where
    the code departs from that (keys that do not come back, decryption that does not chain, padding).

  \<^bold>\<open>Bounds and fuel.\<close>  Loops are structural recursion or have a measure wherever they end on every input.
  Loops that need not end are partial functions whose value is \<open>None\<close> then (the search in a linked list of
  modules, the loops of the command line tool), or have a bound on the steps that runs out as \<open>Inl Hang\<close>
  (imports of a DLL; destruction of a tree of objects, where two steps per object are enough); the
  theorems show that they end.  A loop of the code that does not end on some input is the value
  \<open>Inl Hang\<close> there.  Sizes of fixed buffers (paths of 64 and 128 bytes, frames of 64, 128 local storage
  slots, 64 characters of a GUID) are those of the code.

  \<^bold>\<open>Assumptions.\<close>  A 64-bit little-endian machine; padding bytes of messages are zero; allocations
  succeed unless a theory says otherwise; the process stays in the C locale; writes to the socket
  between module and host succeed in \<open>Protocol\<close>; GLib delivers a result that is at hand at once.  What
  the DLL, OpenSSL, libusb, the kernel and D-Bus do is a parameter of the definitions that call them.

  \<^bold>\<open>Not modelled.\<close>  Logging (\<open>log.c\<close>); \<open>winapi/wdf/usb.c\<close>, which the build does not compile; the
  handler of crashes in the tool; setters of framework devices that do nothing; functions that only free
  memory or only log.
\<close>

end
